(* ===== verification/P4_Prelude.thy ===== *)
theory P4_Prelude
  imports Complex_Main "HOL-Library.Word"
begin

text \<open>
  Shared vocabulary of the development: machine integers, simulator time, the ways a C++
  operation can fail to return, and the lemmas on words, lists and maps that several
  components use.

  \<^item> \<open>u8 .. u64\<close> are the fixed-width unsigned integers of the source.
  \<^item> \<open>time\<close> is ns-3 simulation time in nanoseconds (\<open>ns3::Time\<close> is a signed 64-bit count).
  \<^item> \<open>stop\<close> lists the ways an operation ends without returning: a thrown exception, a failed
    \<open>NS_ASSERT\<close>, a wait on a condition variable that nothing can signal, undefined behaviour,
    and the fuel of a recursion the source does not bound.
  \<^item> An operation that can stop returns \<open>'s \<times> (stop + 'a)\<close>: the state it leaves behind (C++
    keeps what was changed before a throw) and either the reason it stopped or its result.
\<close>

unbundle bit_operations_syntax

type_synonym u8 = "8 word"
type_synonym u16 = "16 word"
type_synonym u32 = "32 word"
type_synonym u64 = "64 word"

type_synonym time = int

datatype stop =
    OutOfRange        \<comment> \<open>\<open>std::out_of_range\<close>\<close>
  | InvalidArgument   \<comment> \<open>\<open>std::invalid_argument\<close>\<close>
  | AssertFailure     \<comment> \<open>\<open>NS_ASSERT\<close> or \<open>NS_FATAL_ERROR\<close>\<close>
  | Undefined         \<comment> \<open>undefined behaviour: an index past the end, a null pointer\<close>
  | Blocks            \<comment> \<open>waits on a condition variable\<close>
  | LengthError       \<comment> \<open>\<open>std::length_error\<close>\<close>
  | NoFuel            \<comment> \<open>the bound of the model's recursion was reached\<close>

type_synonym ('s, 'a) outcome = "'s \<times> (stop + 'a)"

text \<open>
  What the source takes from the simulator: the current time, and the conversion of a real
  number of seconds to a \<open>Time\<close>. The conversion is code of ns-3 and stays a parameter.
\<close>

record sim =
  sim_now :: time
  sim_seconds :: "rat \<Rightarrow> time"

named_theorems frame_laws \<open>what an operation leaves alone\<close>
named_theorems wf_intros \<open>preservation of the components' invariants\<close>

subsection \<open>Words\<close>

lemma ucast_u16_u64_inj [simp]:
  "(ucast (ucast (v :: u16) :: u64) :: u16) = v"
  by (rule bit_word_eqI) (simp add: bit_unsigned_iff)

lemma bit_u16_mask: "bit (65535 :: int) n \<longleftrightarrow> n < 16"
proof -
  have "(65535 :: int) = mask 16" by (simp add: mask_eq_exp_minus_1)
  then show ?thesis by (simp only: bit_mask_iff) simp
qed

subsection \<open>Lists and maps\<close>

lemma foldl_invariant:
  assumes "P s" and "\<And>s x. x \<in> set xs \<Longrightarrow> P s \<Longrightarrow> P (f s x)"
  shows "P (foldl f s xs)"
  using assms by (induction xs arbitrary: s) auto

lemma filter_takeWhile_dropWhile:
  "filter P xs = filter P (takeWhile Q xs) @ filter P (dropWhile Q xs)"
  by (metis filter_append takeWhile_dropWhile_id)

lemma nth_list_update_other: "i \<noteq> j \<Longrightarrow> xs[i := x] ! j = xs ! j"
  by simp

lemma sum_list_map_update:
  fixes f :: "'a \<Rightarrow> nat"
  assumes "i < length xs"
  shows "sum_list (map f (xs[i := x])) + f (xs ! i) = sum_list (map f xs) + f x"
  using assms
proof (induction xs arbitrary: i)
  case Nil
  then show ?case by simp
next
  case (Cons y ys)
  then show ?case by (cases i) auto
qed

lemma member_le_sum_list_nat: "i < length xs \<Longrightarrow> (xs ! i :: nat) \<le> sum_list xs"
  by (simp add: member_le_sum_list)

end
