(* ===== verification/Bm_Interface.thy ===== *)
theory Bm_Interface
  imports P4_Prelude
begin

text \<open>
  The behavioral model library (BMv2) that the switch cores are built on. Its code is not part
  of the repository: a \<open>bm::Packet\<close> is a value of an arbitrary type \<open>'p\<close>, the saved state of
  its buffer a value of \<open>'b\<close>, the match tables, counters, registers and multicast groups of
  the running program a value of \<open>'w\<close>, and every library call the cores make is a field of
  the record below. The definitions of the cores take such a record as an argument.

  Field values are natural numbers (\<open>bm::Data\<close> holds an unsigned number of any size);
  the C++ type the code reads a field at (\<open>get_uint()\<close>, \<open>get<uint64_t>()\<close>) is the word
  type of the reader functions below. Fields that the cores read without a test are those
  the constructors require of the program (\<open>add_required_field\<close>).
\<close>

record ('p, 'b, 'w) bm =
  bm_get_register :: "'p \<Rightarrow> nat \<Rightarrow> u64"
  bm_set_register :: "'p \<Rightarrow> nat \<Rightarrow> u64 \<Rightarrow> 'p"
  bm_has_field :: "'p \<Rightarrow> string \<Rightarrow> bool"
  bm_get_field :: "'p \<Rightarrow> string \<Rightarrow> nat"
  bm_set_field :: "'p \<Rightarrow> string \<Rightarrow> nat \<Rightarrow> 'p"
  bm_reset_metadata :: "'p \<Rightarrow> 'p"
  bm_reset_phv :: "'p \<Rightarrow> 'p"
  bm_reset_header_stacks :: "'p \<Rightarrow> 'p"
  bm_reset_exit :: "'p \<Rightarrow> 'p"
  bm_error_code :: "'p \<Rightarrow> nat"
  bm_checksum_error :: "'p \<Rightarrow> bool"
  bm_get_ingress_port :: "'p \<Rightarrow> u32"
  bm_set_ingress_port :: "'p \<Rightarrow> u32 \<Rightarrow> 'p"
  bm_get_egress_port :: "'p \<Rightarrow> u32"
  bm_set_egress_port :: "'p \<Rightarrow> u32 \<Rightarrow> 'p"
  bm_set_ingress_length :: "'p \<Rightarrow> u64 \<Rightarrow> 'p"
  bm_data :: "'p \<Rightarrow> u8 list"
  bm_save_buffer_state :: "'p \<Rightarrow> 'b"
  bm_restore_buffer_state :: "'p \<Rightarrow> 'b \<Rightarrow> 'p"
  bm_clone_no_phv :: "'p \<Rightarrow> 'p"
  bm_clone_with_phv :: "'p \<Rightarrow> 'p"
  bm_clone_with_phv_reset_metadata :: "'p \<Rightarrow> 'p"
  bm_new_packet :: "u32 \<Rightarrow> u64 \<Rightarrow> u8 list \<Rightarrow> 'p"
  bm_copy_fields :: "nat \<Rightarrow> 'p \<Rightarrow> 'p \<Rightarrow> 'p"
  bm_parse :: "string \<Rightarrow> 'w \<Rightarrow> 'p \<Rightarrow> 'w \<times> 'p"
  bm_apply :: "string \<Rightarrow> 'w \<Rightarrow> 'p \<Rightarrow> 'w \<times> 'p"
  bm_deparse :: "string \<Rightarrow> 'w \<Rightarrow> 'p \<Rightarrow> 'w \<times> 'p"
  bm_learn :: "nat \<Rightarrow> 'p \<Rightarrow> 'w \<Rightarrow> 'w"
  bm_replicate :: "'w \<Rightarrow> u32 \<Rightarrow> (u32 \<times> nat) list"
  bm_reset_pre :: "'w \<Rightarrow> 'w"

abbreviation get_uint :: "('p, 'b, 'w) bm \<Rightarrow> 'p \<Rightarrow> string \<Rightarrow> u32" where
  "get_uint B p f \<equiv> of_nat (bm_get_field B p f)"

abbreviation get_u64 :: "('p, 'b, 'w) bm \<Rightarrow> 'p \<Rightarrow> string \<Rightarrow> u64" where
  "get_u64 B p f \<equiv> of_nat (bm_get_field B p f)"

text \<open>\<open>get_data_size()\<close> is the number of bytes of the packet's data.\<close>

abbreviation bm_data_size :: "('p, 'b, 'w) bm \<Rightarrow> 'p \<Rightarrow> nat" where
  "bm_data_size B p \<equiv> length (bm_data B p)"

subsection \<open>Documented behaviour the cores rely on\<close>

text \<open>
  Per-packet registers are an array: a write is seen by the next read of the same index and
  no other index changes.
\<close>

definition register_laws :: "('p, 'b, 'w) bm \<Rightarrow> bool" where
  "register_laws B \<longleftrightarrow>
     (\<forall>p i j v. bm_get_register B (bm_set_register B p i v) j =
        (if i = j then v else bm_get_register B p j))"

lemma register_laws_get_set:
  "register_laws B \<Longrightarrow>
   bm_get_register B (bm_set_register B p i v) j = (if i = j then v else bm_get_register B p j)"
  by (simp add: register_laws_def)

text \<open>
  The operations on header fields, ports and buffers do not touch the registers. (Parsing,
  match-action processing and deparsing run the user's program and may; cloning is not
  assumed to keep them.)
\<close>

definition register_frame :: "('p, 'b, 'w) bm \<Rightarrow> bool" where
  "register_frame B \<longleftrightarrow>
     (\<forall>p f v. bm_get_register B (bm_set_field B p f v) = bm_get_register B p) \<and>
     (\<forall>p. bm_get_register B (bm_reset_metadata B p) = bm_get_register B p) \<and>
     (\<forall>p. bm_get_register B (bm_reset_exit B p) = bm_get_register B p) \<and>
     (\<forall>p v. bm_get_register B (bm_set_ingress_port B p v) = bm_get_register B p) \<and>
     (\<forall>p v. bm_get_register B (bm_set_egress_port B p v) = bm_get_register B p)"

lemma register_frameD [frame_laws]:
  assumes "register_frame B"
  shows "bm_get_register B (bm_set_field B p f v) = bm_get_register B p"
    and "bm_get_register B (bm_reset_metadata B p) = bm_get_register B p"
    and "bm_get_register B (bm_reset_exit B p) = bm_get_register B p"
    and "bm_get_register B (bm_set_ingress_port B p u) = bm_get_register B p"
    and "bm_get_register B (bm_set_egress_port B p u) = bm_get_register B p"
  using assms by (simp_all add: register_frame_def)

text \<open>
  Writing one field leaves every other field and the set of fields alone, and so do writes to
  the registers and ports.
\<close>

definition field_frame :: "('p, 'b, 'w) bm \<Rightarrow> bool" where
  "field_frame B \<longleftrightarrow>
     (\<forall>p f g v. f \<noteq> g \<longrightarrow> bm_get_field B (bm_set_field B p f v) g = bm_get_field B p g) \<and>
     (\<forall>p f v. bm_has_field B (bm_set_field B p f v) = bm_has_field B p) \<and>
     (\<forall>p i v. bm_get_field B (bm_set_register B p i v) = bm_get_field B p) \<and>
     (\<forall>p i v. bm_has_field B (bm_set_register B p i v) = bm_has_field B p) \<and>
     (\<forall>p v. bm_get_field B (bm_set_egress_port B p v) = bm_get_field B p) \<and>
     (\<forall>p v. bm_has_field B (bm_set_egress_port B p v) = bm_has_field B p)"

lemma field_frameD [frame_laws]:
  assumes "field_frame B"
  shows "f \<noteq> g \<Longrightarrow> bm_get_field B (bm_set_field B p f v) g = bm_get_field B p g"
    and "bm_has_field B (bm_set_field B p f v) = bm_has_field B p"
    and "bm_get_field B (bm_set_register B p i w) = bm_get_field B p"
    and "bm_has_field B (bm_set_register B p i w) = bm_has_field B p"
    and "bm_get_field B (bm_set_egress_port B p u) = bm_get_field B p"
    and "bm_has_field B (bm_set_egress_port B p u) = bm_has_field B p"
  using assms by (simp_all add: field_frame_def)

text \<open>Writing zero to a declared field is read back as zero (other values may be cut to the width).\<close>

definition field_zero :: "('p, 'b, 'w) bm \<Rightarrow> bool" where
  "field_zero B \<longleftrightarrow> (\<forall>p f. bm_has_field B p f \<longrightarrow> bm_get_field B (bm_set_field B p f 0) f = 0)"

end
