(* ===== verification/Switch_Core.thy ===== *)
theory Switch_Core
  imports Bm_Interface
begin

text \<open>
  \<open>P4SwitchCore\<close> (\<open>model/p4-switch-core.h\<close>, \<open>model/p4-switch-core.cc\<close>), the base class of the
  switch cores: mirroring sessions, the table of ns-3 destination addresses, conversion of
  packets between ns-3 and BMv2, time stamps, and the steps that start a switch.

  An ns-3 packet is the list of its bytes; an address is a value of an arbitrary type \<open>'addr\<close>.
  A C++ \<open>int\<close> that only counts up is the 32-bit word it is stored in. \<open>world\<close> is the state of
  the BMv2 program. The calls a core makes on its net device and on the simulator are kept
  in order in \<open>sent\<close> and \<open>scheduled\<close>.
\<close>

record MirroringSessionConfig =
  cfg_egress_port :: u32
  cfg_egress_port_valid :: bool
  cfg_mgid :: u32
  cfg_mgid_valid :: bool

text \<open>A call \<open>m_switchNetDevice->SendNs3Packet(packet, port, protocol, destination)\<close>.\<close>

record 'addr send_call =
  send_data :: "u8 list"
  send_port :: nat
  send_protocol :: u16
  send_destination :: 'addr

text \<open>The member functions that are scheduled as simulator events.\<close>

datatype handler =
    SetEgressTimerEventH
  | HandleEgressPipelineH nat
  | CalculatePacketsPerSecondH

record ('addr, 'w) switch_core =
  p4_switch_id :: nat
  enable_tracing :: bool
  enable_queueing_metadata :: bool
  drop_port :: u32
  thrift_command :: string
  destination_list :: "'addr list"
  address_map :: "'addr \<Rightarrow> u32 option"
  thrift_port :: nat
  packet_id :: u64
  start_timestamp :: u64
  mirroring_sessions :: "int \<Rightarrow> MirroringSessionConfig option"
  world :: 'w
  sent :: "'addr send_call list"
  scheduled :: "(time \<times> handler) list"

text \<open>The function-local statics \<open>switch_id\<close> and \<open>p4_switch_ctrl_plane_thrift_port\<close>.\<close>

record statics =
  static_switch_id :: nat
  static_thrift_port :: nat

definition initial_statics :: statics where
  "initial_statics = \<lparr>static_switch_id = 1, static_thrift_port = 9090\<rparr>"

text \<open>The port number that means dropping the packet.\<close>

definition SSWITCH_DROP_PORT :: u32 where "SSWITCH_DROP_PORT = 511"

text \<open>
  The constructor. \<open>m_packetId\<close> has no initialiser in this class; the value it starts with is
  the argument \<open>pid\<close>.
\<close>

definition P4SwitchCore ::
  "sim \<Rightarrow> bool \<Rightarrow> u32 \<Rightarrow> u64 \<Rightarrow> 'w \<Rightarrow> statics \<Rightarrow> ('addr, 'w) switch_core \<times> statics" where
  "P4SwitchCore S enableTracing dropPort pid w st =
     (\<lparr>p4_switch_id = static_switch_id st, enable_tracing = enableTracing,
       enable_queueing_metadata = False, drop_port = dropPort, thrift_command = '''',
       destination_list = [], address_map = (\<lambda>_. None), thrift_port = 0, packet_id = pid,
       start_timestamp = of_int (sim_now S), mirroring_sessions = (\<lambda>_. None), world = w,
       sent = [], scheduled = []\<rparr>,
      st\<lparr>static_switch_id := static_switch_id st + 1\<rparr>)"

subsection \<open>Mirroring sessions\<close>

definition MAX_MIRROR_SESSION_ID_CORE :: int where
  "MAX_MIRROR_SESSION_ID_CORE = 2 ^ 15 - 1"

type_synonym sessions = "int \<Rightarrow> MirroringSessionConfig option"

definition add_session :: "sessions \<Rightarrow> int \<Rightarrow> MirroringSessionConfig \<Rightarrow> sessions \<times> bool" where
  "add_session sessions_map mirror_id config =
     (if 0 \<le> mirror_id \<and> mirror_id \<le> MAX_MIRROR_SESSION_ID_CORE
      then (sessions_map(mirror_id \<mapsto> config), True)
      else (sessions_map, False))"

definition delete_session :: "sessions \<Rightarrow> int \<Rightarrow> sessions \<times> bool" where
  "delete_session sessions_map mirror_id =
     (if 0 \<le> mirror_id \<and> mirror_id \<le> MAX_MIRROR_SESSION_ID_CORE
      then (sessions_map(mirror_id := None), sessions_map mirror_id \<noteq> None)
      else (sessions_map, False))"

definition get_session :: "sessions \<Rightarrow> int \<Rightarrow> MirroringSessionConfig option" where
  "get_session sessions_map mirror_id = sessions_map mirror_id"

definition AddMirroringSession ::
  "('addr, 'w, 'z) switch_core_scheme \<Rightarrow> int \<Rightarrow> MirroringSessionConfig \<Rightarrow> ('addr, 'w, 'z) switch_core_scheme \<times> bool" where
  "AddMirroringSession c mirror_id config =
     (let (m, ok) = add_session (mirroring_sessions c) mirror_id config
      in (c\<lparr>mirroring_sessions := m\<rparr>, ok))"

definition DeleteMirroringSession ::
  "('addr, 'w, 'z) switch_core_scheme \<Rightarrow> int \<Rightarrow> ('addr, 'w, 'z) switch_core_scheme \<times> bool" where
  "DeleteMirroringSession c mirror_id =
     (let (m, ok) = delete_session (mirroring_sessions c) mirror_id
      in (c\<lparr>mirroring_sessions := m\<rparr>, ok))"

definition GetMirroringSession ::
  "('addr, 'w, 'z) switch_core_scheme \<Rightarrow> int \<Rightarrow> MirroringSessionConfig option" where
  "GetMirroringSession c mirror_id = get_session (mirroring_sessions c) mirror_id"

subsection \<open>Time stamps and packets\<close>

definition GetTimeStamp :: "sim \<Rightarrow> ('addr, 'w, 'z) switch_core_scheme \<Rightarrow> u64" where
  "GetTimeStamp S c = of_int (sim_now S) - start_timestamp c"

definition ConvertToNs3Packet :: "('p, 'b, 'w) bm \<Rightarrow> 'p \<Rightarrow> u8 list" where
  "ConvertToNs3Packet B bm_packet = take (bm_data_size B bm_packet) (bm_data B bm_packet)"

definition ConvertToBmPacket ::
  "('p, 'b, 'w) bm \<Rightarrow> ('addr, 'w, 'z) switch_core_scheme \<Rightarrow> u8 list \<Rightarrow> u32 \<Rightarrow> ('addr, 'w, 'z) switch_core_scheme \<times> 'p" where
  "ConvertToBmPacket B c nsPacket inPort =
     (c\<lparr>packet_id := packet_id c + 1\<rparr>, bm_new_packet B inPort (packet_id c) nsPacket)"

subsection \<open>The table of destination addresses\<close>

definition GetAddressIndex ::
  "('addr, 'w, 'z) switch_core_scheme \<Rightarrow> 'addr \<Rightarrow> ('addr, 'w, 'z) switch_core_scheme \<times> u32" where
  "GetAddressIndex c destination =
     (case address_map c destination of
        Some i \<Rightarrow> (c, i)
      | None \<Rightarrow>
          (let new_index = of_nat (length (destination_list c)) in
           (c\<lparr>destination_list := destination_list c @ [destination],
              address_map := (address_map c)(destination \<mapsto> new_index)\<rparr>, new_index)))"

subsection \<open>Starting a switch\<close>

definition CheckQueueingMetadata ::
  "(string \<Rightarrow> bool) \<Rightarrow> ('addr, 'w, 'z) switch_core_scheme \<Rightarrow> ('addr, 'w, 'z) switch_core_scheme" where
  "CheckQueueingMetadata field_exists c =
     (let enq_timestamp_e = field_exists ''queueing_metadata.enq_timestamp'';
          enq_qdepth_e = field_exists ''queueing_metadata.enq_qdepth'';
          deq_timedelta_e = field_exists ''queueing_metadata.deq_timedelta'';
          deq_qdepth_e = field_exists ''queueing_metadata.deq_qdepth''
      in if (enq_timestamp_e \<or> enq_qdepth_e \<or> deq_timedelta_e \<or> deq_qdepth_e) \<and>
            (enq_timestamp_e \<and> enq_qdepth_e \<and> deq_timedelta_e \<and> deq_qdepth_e)
         then c\<lparr>enable_queueing_metadata := True\<rparr>
         else c\<lparr>enable_queueing_metadata := False\<rparr>)"

text \<open>\<open>std::to_string\<close> of an unsigned number.\<close>

fun to_string :: "nat \<Rightarrow> string" where
  "to_string n = (if n < 10 then [char_of (48 + n)] else to_string (n div 10) @ [char_of (48 + n mod 10)])"

record options =
  config_file_path :: string
  debugger_addr :: string
  notifications_addr :: string
  file_logger :: string
  opt_thrift_port :: nat
  console_logging :: bool

text \<open>
  \<open>InitializeSwitchFromP4Json\<close>: \<open>init_from_options_parser\<close> is BMv2 code, here the parameter
  \<open>init\<close>, which gives a status and the new program state.
\<close>

definition InitializeSwitchFromP4Json ::
  "(options \<Rightarrow> 'w \<Rightarrow> int \<times> 'w) \<Rightarrow> ('addr, 'w, 'z) switch_core_scheme \<Rightarrow> statics \<Rightarrow> string \<Rightarrow>
   ('addr, 'w, 'z) switch_core_scheme \<times> statics" where
  "InitializeSwitchFromP4Json init c st jsonPath =
     (let port = static_thrift_port st;
          c = c\<lparr>thrift_port := port\<rparr>;
          opt_parser = \<lparr>config_file_path = jsonPath,
             debugger_addr = ''ipc:///tmp/bmv2-'' @ to_string port @ ''-debug.ipc'',
             notifications_addr = ''ipc:///tmp/bmv2-'' @ to_string port @ ''-notifications.ipc'',
             file_logger = ''/tmp/bmv2-'' @ to_string port @ ''-pipeline.log'',
             opt_thrift_port = port, console_logging = False\<rparr>;
          st = st\<lparr>static_thrift_port := port + 1\<rparr>;
          (status, w) = init opt_parser (world c)
      in (c\<lparr>world := w\<rparr>, st))"

text \<open>
  \<open>InitFromCommandLineOptions\<close>: the parser, the dummy transport and the two initialisers are
  BMv2 code; what the function does is choose between them.
\<close>

definition InitFromCommandLineOptions ::
  "(string list \<Rightarrow> bool \<times> string \<times> nat) \<Rightarrow> (nat \<Rightarrow> 'w \<Rightarrow> int \<times> 'w) \<Rightarrow> (string \<Rightarrow> nat \<Rightarrow> 'w \<Rightarrow> int \<times> 'w) \<Rightarrow>
   ('addr, 'w, 'z) switch_core_scheme \<Rightarrow> string list \<Rightarrow> ('addr, 'w, 'z) switch_core_scheme \<times> int" where
  "InitFromCommandLineOptions parse init_objects_empty init_objects c argv =
     (let (no_p4, config, device_id) = parse argv;
          (status, w) = (if no_p4 then init_objects_empty device_id (world c)
                         else init_objects config device_id (world c))
      in (c\<lparr>world := w\<rparr>, status))"

text \<open>
  \<open>ExecuteCliCommands\<close>: \<open>good\<close> says whether the command file opens, \<open>start_server\<close> and
  \<open>system\<close> are the calls that leave the program; \<open>system\<close> may change the program state, since
  the command it runs fills the tables.
\<close>

definition ExecuteCliCommands ::
  "(string \<Rightarrow> bool) \<Rightarrow> (nat \<Rightarrow> 'w \<Rightarrow> 'w) \<Rightarrow> (string \<Rightarrow> 'w \<Rightarrow> int \<times> 'w) \<Rightarrow> nat \<Rightarrow>
   ('addr, 'w, 'z) switch_core_scheme \<Rightarrow> string \<Rightarrow> ('addr, 'w, 'z) switch_core_scheme \<times> int" where
  "ExecuteCliCommands good start_server system runtime_port c commandsFile =
     (if thrift_command c = [] then (c, 1)
      else if \<not> good commandsFile then (c, 1)
      else
        (let w = start_server runtime_port (world c);
             cmd = thrift_command c @ '' --thrift-port '' @ to_string runtime_port @ '' < '' @
                   commandsFile @ '' > /dev/null 2>&1'';
             (result, w) = system cmd w
         in (c\<lparr>world := w\<rparr>, result)))"

definition LoadFlowTableToSwitch ::
  "(string \<Rightarrow> bool) \<Rightarrow> (nat \<Rightarrow> 'w \<Rightarrow> 'w) \<Rightarrow> (string \<Rightarrow> 'w \<Rightarrow> int \<times> 'w) \<Rightarrow> nat \<Rightarrow>
   ('addr, 'w, 'z) switch_core_scheme \<Rightarrow> string \<Rightarrow> ('addr, 'w, 'z) switch_core_scheme \<times> int" where
  "LoadFlowTableToSwitch good start_server system runtime_port c flowTablePath =
     ExecuteCliCommands good start_server system runtime_port c flowTablePath"

definition reset_target_state ::
  "('p, 'b, 'w) bm \<Rightarrow> ('addr, 'w, 'z) switch_core_scheme \<Rightarrow> ('addr, 'w, 'z) switch_core_scheme" where
  "reset_target_state B c = c\<lparr>world := bm_reset_pre B (world c)\<rparr>"

definition core_receive :: "('addr, 'w, 'z) switch_core_scheme \<Rightarrow> u32 \<Rightarrow> u8 list \<Rightarrow> ('addr, 'w, 'z) switch_core_scheme \<times> int" where
  "core_receive c port_num buffer = (c, 0)"

definition core_swap_notify :: "('addr, 'w, 'z) switch_core_scheme \<Rightarrow> ('addr, 'w, 'z) switch_core_scheme" where
  "core_swap_notify c = c"

subsection \<open>Lemmas\<close>

text \<open>The address table is a bijection between the addresses seen and the indices given out.\<close>

definition addr_wf :: "('addr, 'w, 'z) switch_core_scheme \<Rightarrow> bool" where
  "addr_wf c \<longleftrightarrow>
     distinct (destination_list c) \<and>
     (\<forall>a. address_map c a =
        (if a \<in> set (destination_list c)
         then Some (of_nat (length (takeWhile (\<lambda>b. b \<noteq> a) (destination_list c)))) else None))"

lemma addr_wf_new [wf_intros]: "addr_wf (fst (P4SwitchCore S tr dp pid w st))"
  by (simp add: addr_wf_def P4SwitchCore_def)

lemma length_takeWhile_neq: "a \<in> set xs \<Longrightarrow> length (takeWhile (\<lambda>b. b \<noteq> a) xs) < length xs"
  by (induction xs) auto

lemma nth_takeWhile_neq: "a \<in> set xs \<Longrightarrow> xs ! length (takeWhile (\<lambda>b. b \<noteq> a) xs) = a"
  by (induction xs) auto

lemma takeWhile_neq_append:
  "takeWhile (\<lambda>b. b \<noteq> a) (xs @ ys) =
     (if a \<in> set xs then takeWhile (\<lambda>b. b \<noteq> a) xs else xs @ takeWhile (\<lambda>b. b \<noteq> a) ys)"
  by (induction xs) auto

lemma GetAddressIndex_wf [wf_intros]: "addr_wf c \<Longrightarrow> addr_wf (fst (GetAddressIndex c a))"
  by (cases "a \<in> set (destination_list c)")
    (auto simp: addr_wf_def GetAddressIndex_def Let_def takeWhile_neq_append)

lemma GetAddressIndex_prefix:
  "\<exists>l. destination_list (fst (GetAddressIndex c a)) = destination_list c @ l"
  by (simp add: GetAddressIndex_def Let_def split: option.split)

lemma GetAddressIndex_index:
  assumes "addr_wf c"
  obtains k where "snd (GetAddressIndex c a) = of_nat k"
    and "k < length (destination_list (fst (GetAddressIndex c a)))"
    and "destination_list (fst (GetAddressIndex c a)) ! k = a"
proof (cases "a \<in> set (destination_list c)")
  case True
  with assms have "address_map c a = Some (of_nat (length (takeWhile (\<lambda>b. b \<noteq> a) (destination_list c))))"
    by (simp add: addr_wf_def)
  with True show thesis
    by (intro that) (auto simp: GetAddressIndex_def length_takeWhile_neq nth_takeWhile_neq)
next
  case False
  with assms have "address_map c a = None" by (simp add: addr_wf_def)
  then show thesis
    by (intro that [of "length (destination_list c)"]) (auto simp: GetAddressIndex_def Let_def)
qed

text \<open>A sequence of lookups, as the packets of a run make them.\<close>

definition lookups :: "('addr, 'w, 'z) switch_core_scheme \<Rightarrow> 'addr list \<Rightarrow> ('addr, 'w, 'z) switch_core_scheme" where
  "lookups c as = foldl (\<lambda>c a. fst (GetAddressIndex c a)) c as"

lemma lookups_prefix: "\<exists>l. destination_list (lookups c as) = destination_list c @ l"
proof (induction as arbitrary: c)
  case Nil
  then show ?case by (simp add: lookups_def)
next
  case (Cons a as)
  obtain l where "destination_list (fst (GetAddressIndex c a)) = destination_list c @ l"
    using GetAddressIndex_prefix [of c a] by auto
  moreover obtain l' where "destination_list (lookups (fst (GetAddressIndex c a)) as) =
      destination_list (fst (GetAddressIndex c a)) @ l'"
    using Cons [of "fst (GetAddressIndex c a)"] by auto
  moreover have "lookups c (a # as) = lookups (fst (GetAddressIndex c a)) as" by (simp add: lookups_def)
  ultimately show ?case by (intro exI [of _ "l @ l'"]) simp
qed

text \<open>C31. The 16-bit address index survives the trip through the pipeline: the index given for a
  destination, cut to the 16 bits of its register field, selects exactly that destination in
  the table, and still does after any further destinations have been looked up, as long as the
  table holds at most 65536 of them.\<close>

theorem address_index_stable:
  assumes "addr_wf c" "length (destination_list (lookups (fst (GetAddressIndex c a)) as)) \<le> 65536"
  shows "let i = unat (ucast (snd (GetAddressIndex c a)) :: u16);
             final = lookups (fst (GetAddressIndex c a)) as
         in i < length (destination_list final) \<and> destination_list final ! i = a"
proof -
  obtain k where k: "snd (GetAddressIndex c a) = of_nat k"
    "k < length (destination_list (fst (GetAddressIndex c a)))"
    "destination_list (fst (GetAddressIndex c a)) ! k = a"
    using GetAddressIndex_index [OF assms(1)] by metis
  obtain l where l: "destination_list (lookups (fst (GetAddressIndex c a)) as) =
      destination_list (fst (GetAddressIndex c a)) @ l"
    using lookups_prefix [of "fst (GetAddressIndex c a)" as] by auto
  have "k < 65536" using k(2) l assms(2) by simp
  then have "unat (ucast (of_nat k :: u32) :: u16) = k"
    by (simp add: unsigned_ucast_eq unsigned_of_nat take_bit_nat_eq_self)
  with k l show ?thesis by (simp add: Let_def nth_append)
qed

definition example_core :: "(nat, unit) switch_core" where
  "example_core = fst (P4SwitchCore \<lparr>sim_now = 0, sim_seconds = (\<lambda>_. 0)\<rparr> False 511 0 () initial_statics)"

theorem address_index_stable_witness:
  "destination_list (lookups (fst (GetAddressIndex (lookups example_core [10, 20]) 30)) [40, 10]) !
     unat (ucast (snd (GetAddressIndex (lookups example_core [10, 20]) 30)) :: u16) = 30"
proof -
  have "addr_wf (lookups example_core [10, 20])"
    unfolding lookups_def by (auto simp: example_core_def intro!: wf_intros)
  moreover have "length (destination_list (lookups (fst (GetAddressIndex (lookups example_core [10, 20]) 30)) [40, 10])) \<le> 65536"
    by (simp add: lookups_def GetAddressIndex_def example_core_def P4SwitchCore_def)
  ultimately show ?thesis
    using address_index_stable [of "lookups example_core [10, 20]" 30 "[40, 10]"] by (simp add: Let_def)
qed

text \<open>Mirroring sessions are a finite map on the ids 0 to 32767: adding and deleting succeed
  only for those ids, a lookup after an addition gives the configuration added, a lookup after a
  deletion gives nothing, other sessions are not touched, and an id out of range changes nothing.\<close>

theorem mirroring_sessions_map:
  "let valid = (0 \<le> m \<and> m \<le> 32767);
       (ca, added) = AddMirroringSession c m cfg;
       (cd, deleted) = DeleteMirroringSession c m
   in added = valid \<and>
      GetMirroringSession ca n = (if valid \<and> n = m then Some cfg else GetMirroringSession c n) \<and>
      deleted = (valid \<and> GetMirroringSession c m \<noteq> None) \<and>
      GetMirroringSession cd n = (if valid \<and> n = m then None else GetMirroringSession c n)"
  by (auto simp: AddMirroringSession_def DeleteMirroringSession_def GetMirroringSession_def
      add_session_def delete_session_def get_session_def MAX_MIRROR_SESSION_ID_CORE_def Let_def)

end
