(* ===== verification/Bm_Example.thy ===== *)
theory Bm_Example
  imports Bm_Interface
begin

text \<open>
  A concrete instance of the BMv2 interface, used to show that the documented behaviour of
  \<open>Bm_Interface\<close> can hold: packets with an array of registers and the values of the declared
  fields, a program given as a function on packets for each pipeline name, and replication from
  a list.
\<close>

record expkt =
  ex_regs :: "nat \<Rightarrow> u64"
  ex_fields :: "string \<Rightarrow> nat"
  ex_in :: u32
  ex_out :: u32
  ex_data :: "u8 list"

definition ex_bm :: "string list \<Rightarrow> (string \<Rightarrow> expkt \<Rightarrow> expkt) \<Rightarrow> (expkt, u8 list, (u32 \<times> nat) list) bm" where
  "ex_bm decls prog =
     \<lparr>bm_get_register = ex_regs,
      bm_set_register = (\<lambda>p i v. p\<lparr>ex_regs := (ex_regs p)(i := v)\<rparr>),
      bm_has_field = (\<lambda>p f. f \<in> set decls),
      bm_get_field = ex_fields,
      bm_set_field = (\<lambda>p f v. if f \<in> set decls then p\<lparr>ex_fields := (ex_fields p)(f := v)\<rparr> else p),
      bm_reset_metadata = (\<lambda>p. p), bm_reset_phv = (\<lambda>p. p), bm_reset_header_stacks = (\<lambda>p. p),
      bm_reset_exit = (\<lambda>p. p), bm_error_code = (\<lambda>p. 0), bm_checksum_error = (\<lambda>p. False),
      bm_get_ingress_port = ex_in, bm_set_ingress_port = (\<lambda>p v. p\<lparr>ex_in := v\<rparr>),
      bm_get_egress_port = ex_out, bm_set_egress_port = (\<lambda>p v. p\<lparr>ex_out := v\<rparr>),
      bm_set_ingress_length = (\<lambda>p v. p), bm_data = ex_data,
      bm_save_buffer_state = ex_data, bm_restore_buffer_state = (\<lambda>p b. p\<lparr>ex_data := b\<rparr>),
      bm_clone_no_phv = (\<lambda>p. p), bm_clone_with_phv = (\<lambda>p. p),
      bm_clone_with_phv_reset_metadata = (\<lambda>p. p),
      bm_new_packet = (\<lambda>port pid d. \<lparr>ex_regs = (\<lambda>_. 0), ex_fields = (\<lambda>_. 0), ex_in = port, ex_out = 0, ex_data = d\<rparr>),
      bm_copy_fields = (\<lambda>l src dst. dst),
      bm_parse = (\<lambda>n w p. (w, prog n p)), bm_apply = (\<lambda>n w p. (w, prog n p)),
      bm_deparse = (\<lambda>n w p. (w, prog n p)), bm_learn = (\<lambda>l p w. w),
      bm_replicate = (\<lambda>w g. take 4 w), bm_reset_pre = (\<lambda>w. w)\<rparr>"

lemma ex_register_laws [simp]: "register_laws (ex_bm decls prog)"
  by (simp add: register_laws_def ex_bm_def)

lemma ex_register_frame [simp]: "register_frame (ex_bm decls prog)"
  by (simp add: register_frame_def ex_bm_def)

lemma ex_field_zero [simp]: "field_zero (ex_bm decls prog)"
  by (simp add: field_zero_def ex_bm_def)

lemma ex_field_frame [simp]: "field_frame (ex_bm decls prog)"
  by (auto simp: field_frame_def ex_bm_def)

text \<open>The fields that the v1model core reads, and a program that forwards to port \<open>q\<close>.\<close>

definition v1_fields :: "string list" where
  "v1_fields = [''standard_metadata.ingress_port'', ''standard_metadata.packet_length'',
     ''standard_metadata.egress_spec'', ''standard_metadata.egress_port'', ''standard_metadata.instance_type'',
     ''intrinsic_metadata.egress_rid'', ''queueing_metadata.enq_timestamp'', ''queueing_metadata.enq_qdepth'',
     ''queueing_metadata.deq_timedelta'', ''queueing_metadata.deq_qdepth'']"

definition forward_to :: "nat \<Rightarrow> string \<Rightarrow> expkt \<Rightarrow> expkt" where
  "forward_to q name pkt =
     (if name = ''ingress'' then pkt\<lparr>ex_fields := (ex_fields pkt)(''standard_metadata.egress_spec'' := q)\<rparr> else pkt)"

lemma forward_to_regs [simp]: "ex_regs (forward_to q name pkt) = ex_regs pkt"
  by (simp add: forward_to_def)

end
