(* ===== verification/Register_Access.thy ===== *)
theory Register_Access
  imports Bm_Interface Bm_Example
begin

text \<open>
  \<open>utils/register-access-v1model.h\<close>: the per-packet registers that carry the flags of the
  BMv2 pipeline and the ns-3 metadata (protocol number, index of the destination address)
  through the P4 program. Register 0 holds the packet length; registers 1 and 2 are divided
  into 16-bit fields. Every accessor of the class \<open>RegisterAccess\<close> is a definition of this
  theory; the locale \<open>packed_field\<close> states what one 16-bit field of a register promises, and
  its interpretation covers the seven fields.
\<close>

subsection \<open>Register layout\<close>

definition PACKET_LENGTH_REG_IDX :: nat where "PACKET_LENGTH_REG_IDX = 0"
definition CLONE_MIRROR_SESSION_ID_MASK :: u64 where "CLONE_MIRROR_SESSION_ID_MASK = 0x000000000000ffff"
definition CLONE_FIELD_LIST_MASK :: u64 where "CLONE_FIELD_LIST_MASK = 0x00000000ffff0000"
definition LF_FIELD_LIST_MASK :: u64 where "LF_FIELD_LIST_MASK = 0x0000ffff00000000"
definition RESUBMIT_FLAG_MASK :: u64 where "RESUBMIT_FLAG_MASK = 0xffff000000000000"
definition RECIRCULATE_FLAG_MASK :: u64 where "RECIRCULATE_FLAG_MASK = 0x000000000000ffff"
definition NS_PROTOCOL_MASK :: u64 where "NS_PROTOCOL_MASK = 0x00000000ffff0000"
definition NS_ADDRESS_MASK :: u64 where "NS_ADDRESS_MASK = 0x0000ffff00000000"
definition MAX_MIRROR_SESSION_ID :: u16 where "MAX_MIRROR_SESSION_ID = 0x7fff"
definition MIRROR_SESSION_ID_VALID_MASK :: u16 where "MIRROR_SESSION_ID_VALID_MASK = 0x8000"
definition MIRROR_SESSION_ID_MASK :: u16 where "MIRROR_SESSION_ID_MASK = 0x7FFF"

lemmas register_masks = CLONE_MIRROR_SESSION_ID_MASK_def CLONE_FIELD_LIST_MASK_def
  LF_FIELD_LIST_MASK_def RESUBMIT_FLAG_MASK_def RECIRCULATE_FLAG_MASK_def
  NS_PROTOCOL_MASK_def NS_ADDRESS_MASK_def

subsection \<open>Accessors\<close>

definition clear_all :: "('p, 'b, 'w) bm \<Rightarrow> 'p \<Rightarrow> 'p" where
  "clear_all B pkt =
     (let pkt = bm_set_register B pkt 1 0;
          pkt = bm_set_register B pkt 2 0
      in pkt)"

definition get_clone_mirror_session_id :: "('p, 'b, 'w) bm \<Rightarrow> 'p \<Rightarrow> u16" where
  "get_clone_mirror_session_id B pkt =
     (let rv = bm_get_register B pkt 1
      in ucast (drop_bit 0 (rv AND CLONE_MIRROR_SESSION_ID_MASK)))"

definition set_clone_mirror_session_id :: "('p, 'b, 'w) bm \<Rightarrow> 'p \<Rightarrow> u16 \<Rightarrow> 'p" where
  "set_clone_mirror_session_id B pkt mirror_session_id =
     (let rv = bm_get_register B pkt 1;
          rv = (rv AND NOT CLONE_MIRROR_SESSION_ID_MASK) OR push_bit 0 (ucast mirror_session_id)
      in bm_set_register B pkt 1 rv)"

definition get_clone_field_list :: "('p, 'b, 'w) bm \<Rightarrow> 'p \<Rightarrow> u16" where
  "get_clone_field_list B pkt =
     (let rv = bm_get_register B pkt 1
      in ucast (drop_bit 16 (rv AND CLONE_FIELD_LIST_MASK)))"

definition set_clone_field_list :: "('p, 'b, 'w) bm \<Rightarrow> 'p \<Rightarrow> u16 \<Rightarrow> 'p" where
  "set_clone_field_list B pkt field_list_id =
     (let rv = bm_get_register B pkt 1;
          rv = (rv AND NOT CLONE_FIELD_LIST_MASK) OR push_bit 16 (ucast field_list_id)
      in bm_set_register B pkt 1 rv)"

definition get_lf_field_list :: "('p, 'b, 'w) bm \<Rightarrow> 'p \<Rightarrow> u16" where
  "get_lf_field_list B pkt =
     (let rv = bm_get_register B pkt 1
      in ucast (drop_bit 32 (rv AND LF_FIELD_LIST_MASK)))"

definition set_lf_field_list :: "('p, 'b, 'w) bm \<Rightarrow> 'p \<Rightarrow> u16 \<Rightarrow> 'p" where
  "set_lf_field_list B pkt field_list_id =
     (let rv = bm_get_register B pkt 1;
          rv = (rv AND NOT LF_FIELD_LIST_MASK) OR push_bit 32 (ucast field_list_id)
      in bm_set_register B pkt 1 rv)"

definition get_resubmit_flag :: "('p, 'b, 'w) bm \<Rightarrow> 'p \<Rightarrow> u16" where
  "get_resubmit_flag B pkt =
     (let rv = bm_get_register B pkt 1
      in ucast (drop_bit 48 (rv AND RESUBMIT_FLAG_MASK)))"

definition set_resubmit_flag :: "('p, 'b, 'w) bm \<Rightarrow> 'p \<Rightarrow> u16 \<Rightarrow> 'p" where
  "set_resubmit_flag B pkt field_list_id =
     (let rv = bm_get_register B pkt 1;
          rv = (rv AND NOT RESUBMIT_FLAG_MASK) OR push_bit 48 (ucast field_list_id)
      in bm_set_register B pkt 1 rv)"

definition get_recirculate_flag :: "('p, 'b, 'w) bm \<Rightarrow> 'p \<Rightarrow> u16" where
  "get_recirculate_flag B pkt =
     (let rv = bm_get_register B pkt 2
      in ucast (drop_bit 0 (rv AND RECIRCULATE_FLAG_MASK)))"

definition set_recirculate_flag :: "('p, 'b, 'w) bm \<Rightarrow> 'p \<Rightarrow> u16 \<Rightarrow> 'p" where
  "set_recirculate_flag B pkt field_list_id =
     (let rv = bm_get_register B pkt 2;
          rv = (rv AND NOT RECIRCULATE_FLAG_MASK) OR push_bit 0 (ucast field_list_id)
      in bm_set_register B pkt 2 rv)"

definition get_ns_protocol :: "('p, 'b, 'w) bm \<Rightarrow> 'p \<Rightarrow> u16" where
  "get_ns_protocol B pkt =
     (let rv = bm_get_register B pkt 2
      in ucast (drop_bit 16 (rv AND NS_PROTOCOL_MASK)))"

definition set_ns_protocol :: "('p, 'b, 'w) bm \<Rightarrow> 'p \<Rightarrow> u16 \<Rightarrow> 'p" where
  "set_ns_protocol B pkt protocol =
     (let rv = bm_get_register B pkt 2;
          rv = (rv AND NOT NS_PROTOCOL_MASK) OR push_bit 16 (ucast protocol)
      in bm_set_register B pkt 2 rv)"

definition get_ns_address :: "('p, 'b, 'w) bm \<Rightarrow> 'p \<Rightarrow> u16" where
  "get_ns_address B pkt =
     (let rv = bm_get_register B pkt 2
      in ucast (drop_bit 32 (rv AND NS_ADDRESS_MASK)))"

definition set_ns_address :: "('p, 'b, 'w) bm \<Rightarrow> 'p \<Rightarrow> u16 \<Rightarrow> 'p" where
  "set_ns_address B pkt addr_index =
     (let rv = bm_get_register B pkt 2;
          rv = (rv AND NOT NS_ADDRESS_MASK) OR push_bit 32 (ucast addr_index)
      in bm_set_register B pkt 2 rv)"

subsection \<open>One 16-bit field of a register\<close>

text \<open>
  What the accessors of one field promise: the getter reads, and the setter replaces, the
  16 bits that start at \<open>shift\<close> in register \<open>idx\<close>.
\<close>

locale packed_field =
  fixes B :: "('p, 'b, 'w) bm"
    and idx shift :: nat
    and get :: "'p \<Rightarrow> u16"
    and set :: "'p \<Rightarrow> u16 \<Rightarrow> 'p"
  assumes shift_le: "shift \<le> 48"
    and get_eq: "get p = ucast (drop_bit shift (bm_get_register B p idx AND push_bit shift 0xffff))"
    and set_eq: "set p v = bm_set_register B p idx
          ((bm_get_register B p idx AND NOT (push_bit shift 0xffff)) OR push_bit shift (ucast v))"
begin

lemma bit_get: "bit (get p) n \<longleftrightarrow> n < 16 \<and> bit (bm_get_register B p idx) (shift + n)"
  using shift_le
  by (auto simp: get_eq bit_unsigned_iff bit_drop_bit_eq bit_and_iff bit_push_bit_iff bit_u16_mask)

lemma register_set:
  assumes "register_laws B"
  shows "bm_get_register B (set p v) j =
     (if j = idx then (bm_get_register B p idx AND NOT (push_bit shift 0xffff)) OR push_bit shift (ucast v)
      else bm_get_register B p j)"
  using assms by (simp add: set_eq register_laws_get_set)

lemma bit_set:
  assumes "register_laws B" and "n < 64"
  shows "bit (bm_get_register B (set p v) idx) n \<longleftrightarrow>
     (if shift \<le> n \<and> n < shift + 16 then bit v (n - shift) else bit (bm_get_register B p idx) n)"
  using assms shift_le
  by (auto simp: register_set bit_or_iff bit_and_iff bit_not_iff bit_push_bit_iff bit_u16_mask
      bit_unsigned_iff dest: bit_imp_le_length)

lemma get_set: "register_laws B \<Longrightarrow> get (set p v) = v"
  using shift_le by (intro bit_word_eqI) (auto simp: bit_get bit_set)

lemma set_other_register:
  "register_laws B \<Longrightarrow> j \<noteq> idx \<Longrightarrow> bm_get_register B (set p v) j = bm_get_register B p j"
  by (simp add: register_set)

text \<open>A window of 16 bits elsewhere is not changed.\<close>

lemma set_other_window:
  assumes "register_laws B" and "j \<noteq> idx \<or> shift + 16 \<le> s \<or> s + 16 \<le> shift" and "s \<le> 48" and "n < 16"
  shows "bit (bm_get_register B (set p v) j) (s + n) \<longleftrightarrow> bit (bm_get_register B p j) (s + n)"
proof (cases "j = idx")
  case True
  with assms show ?thesis by (auto simp: bit_set)
next
  case False
  with assms(1) show ?thesis by (simp add: set_other_register)
qed

end

subsection \<open>The seven fields\<close>

text \<open>The accessors by the name of their field, with the register and the shift of each.\<close>

datatype reg_field =
    CloneMirrorSessionId | CloneFieldList | LfFieldList | ResubmitFlag
  | RecirculateFlag | NsProtocol | NsAddress

fun field_idx :: "reg_field \<Rightarrow> nat" where
  "field_idx CloneMirrorSessionId = 1"
| "field_idx CloneFieldList = 1"
| "field_idx LfFieldList = 1"
| "field_idx ResubmitFlag = 1"
| "field_idx RecirculateFlag = 2"
| "field_idx NsProtocol = 2"
| "field_idx NsAddress = 2"

fun field_shift :: "reg_field \<Rightarrow> nat" where
  "field_shift CloneMirrorSessionId = 0"
| "field_shift CloneFieldList = 16"
| "field_shift LfFieldList = 32"
| "field_shift ResubmitFlag = 48"
| "field_shift RecirculateFlag = 0"
| "field_shift NsProtocol = 16"
| "field_shift NsAddress = 32"

fun get_reg_field :: "('p, 'b, 'w) bm \<Rightarrow> reg_field \<Rightarrow> 'p \<Rightarrow> u16" where
  "get_reg_field B CloneMirrorSessionId = get_clone_mirror_session_id B"
| "get_reg_field B CloneFieldList = get_clone_field_list B"
| "get_reg_field B LfFieldList = get_lf_field_list B"
| "get_reg_field B ResubmitFlag = get_resubmit_flag B"
| "get_reg_field B RecirculateFlag = get_recirculate_flag B"
| "get_reg_field B NsProtocol = get_ns_protocol B"
| "get_reg_field B NsAddress = get_ns_address B"

fun set_reg_field :: "('p, 'b, 'w) bm \<Rightarrow> reg_field \<Rightarrow> 'p \<Rightarrow> u16 \<Rightarrow> 'p" where
  "set_reg_field B CloneMirrorSessionId = set_clone_mirror_session_id B"
| "set_reg_field B CloneFieldList = set_clone_field_list B"
| "set_reg_field B LfFieldList = set_lf_field_list B"
| "set_reg_field B ResubmitFlag = set_resubmit_flag B"
| "set_reg_field B RecirculateFlag = set_recirculate_flag B"
| "set_reg_field B NsProtocol = set_ns_protocol B"
| "set_reg_field B NsAddress = set_ns_address B"

lemmas reg_get_defs = get_clone_mirror_session_id_def get_clone_field_list_def
  get_lf_field_list_def get_resubmit_flag_def get_recirculate_flag_def get_ns_protocol_def
  get_ns_address_def

lemmas reg_set_defs = set_clone_mirror_session_id_def set_clone_field_list_def
  set_lf_field_list_def set_resubmit_flag_def set_recirculate_flag_def set_ns_protocol_def
  set_ns_address_def

interpretation reg: packed_field B "field_idx f" "field_shift f" "get_reg_field B f" "set_reg_field B f"
  for B :: "('p, 'b, 'w) bm" and f
  by unfold_locales
    (cases f; simp add: reg_get_defs reg_set_defs register_masks push_bit_eq_mult)+

lemma field_shift_le: "field_shift f \<le> 48"
  by (rule reg.shift_le)

lemma fields_disjoint:
  "f \<noteq> g \<Longrightarrow> field_idx g \<noteq> field_idx f \<or> field_shift f + 16 \<le> field_shift g \<or> field_shift g + 16 \<le> field_shift f"
  by (cases f; cases g) auto

lemma get_reg_field_other:
  assumes "register_laws B" and "f \<noteq> g"
  shows "get_reg_field B g (set_reg_field B f p v) = get_reg_field B g p"
  by (rule bit_word_eqI)
    (auto simp: reg.bit_get reg.set_other_window [OF assms(1) fields_disjoint [OF assms(2)] field_shift_le])

lemma clear_all_register:
  assumes "register_laws B"
  shows "bm_get_register B (clear_all B p) j = (if j = 1 \<or> j = 2 then 0 else bm_get_register B p j)"
  using assms by (simp add: clear_all_def register_laws_get_set)

lemma get_reg_field_cong:
  "bm_get_register B p (field_idx f) = bm_get_register B q (field_idx f) \<Longrightarrow>
   get_reg_field B f p = get_reg_field B f q"
  by (simp add: reg.get_eq)

text \<open>C30. The seven 16-bit fields packed into registers 1 and 2 behave as independent variables:
  after any accessor writes a value, its own reader gives exactly that value and each of the
  other six readers gives what it gave before.\<close>

theorem register_fields_independent:
  assumes "register_laws B"
  shows "get_reg_field B g (set_reg_field B f p v) = (if g = f then v else get_reg_field B g p)"
  using reg.get_set [OF assms] get_reg_field_other [OF assms] by auto

theorem register_fields_independent_witness:
  "get_ns_protocol (ex_bm [] (\<lambda>_ p. p))
     (set_ns_address (ex_bm [] (\<lambda>_ p. p))
        (set_ns_protocol (ex_bm [] (\<lambda>_ p. p)) (bm_new_packet (ex_bm [] (\<lambda>_ p. p)) 3 0 [1, 2]) 0x0800) 7) = 0x0800"
  using register_fields_independent [OF ex_register_laws, where g = NsProtocol and f = NsAddress]
    register_fields_independent [OF ex_register_laws, where g = NsProtocol and f = NsProtocol]
  by simp

end
