(* ===== verification/Core_Common.thy ===== *)
theory Core_Common
  imports Switch_Core Register_Access
begin

text \<open>
  What the four switch cores share: access to header fields, the scheduling of events, the
  ns-3 protocol number and address index that each packet carries in its registers (its tag),
  and the link between that index and the address table.
\<close>

subsection \<open>Header fields and events\<close>

definition set_if_present :: "('p, 'b, 'w) bm \<Rightarrow> 'p \<Rightarrow> string \<Rightarrow> nat \<Rightarrow> 'p" where
  "set_if_present B pkt f v = (if bm_has_field B pkt f then bm_set_field B pkt f v else pkt)"

definition pkt_priority :: "('p, 'b, 'w) bm \<Rightarrow> 'p \<Rightarrow> nat" where
  "pkt_priority B pkt =
     (if bm_has_field B pkt ''intrinsic_metadata.priority''
      then unat (get_u64 B pkt ''intrinsic_metadata.priority'') else 0)"

text \<open>A field is set to the value of another.\<close>

definition copy_field :: "('p, 'b, 'w) bm \<Rightarrow> string \<Rightarrow> string \<Rightarrow> 'p \<Rightarrow> 'p" where
  "copy_field B dst src p = bm_set_field B p dst (bm_get_field B p src)"

definition schedule :: "time \<Rightarrow> handler \<Rightarrow> ('addr, 'w, 'z) switch_core_scheme \<Rightarrow> ('addr, 'w, 'z) switch_core_scheme" where
  "schedule delay h c = c\<lparr>scheduled := scheduled c @ [(delay, h)]\<rparr>"

subsection \<open>What is assumed of the P4 program\<close>

text \<open>
  The program may raise the flags of register 1 and the recirculate flag, but it does not
  write the two ns-3 fields (P4 programs cannot name them); the buffer and field-list
  operations do not write any register.
\<close>

definition ns_tag :: "('p, 'b, 'w) bm \<Rightarrow> 'p \<Rightarrow> u16 \<times> u16" where
  "ns_tag B p = (get_ns_protocol B p, get_ns_address B p)"

definition keeps_ns :: "('p, 'b, 'w) bm \<Rightarrow> (string \<Rightarrow> 'w \<Rightarrow> 'p \<Rightarrow> 'w \<times> 'p) \<Rightarrow> bool" where
  "keeps_ns B f \<longleftrightarrow> (\<forall>n w p. ns_tag B (snd (f n w p)) = ns_tag B p)"

definition program_frame :: "('p, 'b, 'w) bm \<Rightarrow> bool" where
  "program_frame B \<longleftrightarrow> register_laws B \<and> register_frame B \<and>
     keeps_ns B (bm_parse B) \<and> keeps_ns B (bm_apply B) \<and> keeps_ns B (bm_deparse B) \<and>
     (\<forall>p b. bm_get_register B (bm_restore_buffer_state B p b) = bm_get_register B p) \<and>
     (\<forall>l p q. bm_get_register B (bm_copy_fields B l p q) = bm_get_register B q) \<and>
     (\<forall>p n. bm_get_register B (bm_set_ingress_length B p n) = bm_get_register B p)"

lemma program_frameD:
  assumes "program_frame B"
  shows "register_laws B" "register_frame B"
    and "ns_tag B (snd (bm_parse B n w p)) = ns_tag B p"
    and "ns_tag B (snd (bm_apply B n w p)) = ns_tag B p"
    and "ns_tag B (snd (bm_deparse B n w p)) = ns_tag B p"
    and "bm_get_register B (bm_restore_buffer_state B p b) = bm_get_register B p"
    and "bm_get_register B (bm_copy_fields B l p q) = bm_get_register B q"
    and "bm_get_register B (bm_set_ingress_length B p k) = bm_get_register B p"
  using assms by (simp_all add: program_frame_def keeps_ns_def)

subsection \<open>Tags through the core's own operations\<close>

lemma ns_tag_cong: "bm_get_register B p = bm_get_register B q \<Longrightarrow> ns_tag B p = ns_tag B q"
  by (simp add: ns_tag_def get_ns_address_def get_ns_protocol_def)

lemma ns_tag_clear [simp]: "register_laws B \<Longrightarrow> ns_tag B (clear_all B p) = (0, 0)"
  by (simp add: ns_tag_def get_ns_address_def get_ns_protocol_def clear_all_register)

lemma ns_tag_length [simp]:
  "register_laws B \<Longrightarrow> ns_tag B (bm_set_register B p PACKET_LENGTH_REG_IDX v) = ns_tag B p"
  by (simp add: ns_tag_def get_ns_address_def get_ns_protocol_def register_laws_get_set PACKET_LENGTH_REG_IDX_def)

lemma ns_tag_other:
  assumes "register_laws B" "f \<noteq> NsAddress" "f \<noteq> NsProtocol"
  shows "ns_tag B (set_reg_field B f p v) = ns_tag B p"
  using get_reg_field_other [OF assms(1,2), of p v] get_reg_field_other [OF assms(1,3), of p v]
  by (simp add: ns_tag_def)

lemma ns_tag_flags [simp]:
  assumes "register_laws B"
  shows "ns_tag B (set_clone_mirror_session_id B p v) = ns_tag B p"
    and "ns_tag B (set_clone_field_list B p v) = ns_tag B p"
    and "ns_tag B (set_resubmit_flag B p v) = ns_tag B p"
    and "ns_tag B (set_recirculate_flag B p v) = ns_tag B p"
  using ns_tag_other [OF assms, of CloneMirrorSessionId p v] ns_tag_other [OF assms, of CloneFieldList p v]
    ns_tag_other [OF assms, of ResubmitFlag p v] ns_tag_other [OF assms, of RecirculateFlag p v] by simp_all

lemma reg_set_if_present [simp]:
  "register_frame B \<Longrightarrow> bm_get_register B (set_if_present B p f v) = bm_get_register B p"
  by (simp add: set_if_present_def frame_laws)

lemma ns_field_frame [simp]:
  assumes "register_frame B"
  shows "ns_tag B (bm_set_field B p f v) = ns_tag B p"
    and "ns_tag B (bm_reset_exit B p) = ns_tag B p"
    and "ns_tag B (set_if_present B p f v) = ns_tag B p"
  using assms by (simp_all add: ns_tag_def get_ns_address_def get_ns_protocol_def frame_laws set_if_present_def)

lemma ns_tag_stored:
  assumes "register_laws B"
  shows "ns_tag B (bm_set_register B (set_ns_address B (set_ns_protocol B p pr) ad) PACKET_LENGTH_REG_IDX v) = (pr, ad)"
  using get_reg_field_other [OF assms, of NsAddress NsProtocol "set_ns_protocol B p pr" ad]
    reg.get_set [OF assms, of NsProtocol p pr] reg.get_set [OF assms, of NsAddress "set_ns_protocol B p pr" ad]
    ns_tag_length [OF assms, of "set_ns_address B (set_ns_protocol B p pr) ad" v]
  by (simp add: ns_tag_def)

lemma GetAddressIndex_frame:
  "\<exists>l m. fst (GetAddressIndex c a) = c\<lparr>destination_list := l, address_map := m\<rparr>"
proof (cases "address_map c a")
  case (Some i)
  then show ?thesis
    by (intro exI [of _ "destination_list c"] exI [of _ "address_map c"]) (simp add: GetAddressIndex_def)
qed (auto simp: GetAddressIndex_def Let_def)

subsection \<open>Tags and the address table\<close>

text \<open>
  \<open>R\<close> is the set of protocol numbers and destinations received so far. A packet in the switch
  carries one of them, or the empty tag that cloning leaves (protocol 0, the first address of
  the table). Beyond 65536 addresses the 16-bit index no longer identifies one.
\<close>

definition addr_ok :: "(u16 \<times> 'addr) set \<Rightarrow> ('p, 'b, 'w) bm \<Rightarrow> ('addr, 'w, 'z) switch_core_scheme \<Rightarrow> 'p \<Rightarrow> bool" where
  "addr_ok R B c pkt \<longleftrightarrow>
     (let (pr, a) = ns_tag B pkt in
      unat a < length (destination_list c) \<and>
      (length (destination_list c) \<le> 65536 \<longrightarrow>
         (pr, destination_list c ! unat a) \<in> R \<or> pr = 0 \<and> a = 0))"

definition send_ok :: "(u16 \<times> 'addr) set \<Rightarrow> ('addr, 'w, 'z) switch_core_scheme \<Rightarrow> 'addr send_call \<Rightarrow> bool" where
  "send_ok R c call \<longleftrightarrow>
     destination_list c \<noteq> [] \<and>
     (length (destination_list c) \<le> 65536 \<longrightarrow>
        (send_protocol call, send_destination call) \<in> R \<or>
        send_protocol call = 0 \<and> send_destination call = destination_list c ! 0)"

lemma addr_ok_same: "destination_list c' = destination_list c \<Longrightarrow> addr_ok R B c' = addr_ok R B c"
  by (simp add: addr_ok_def fun_eq_iff)

lemma send_ok_same: "destination_list c' = destination_list c \<Longrightarrow> send_ok R c' = send_ok R c"
  by (simp add: send_ok_def fun_eq_iff)

lemma addr_wf_same:
  "destination_list c' = destination_list c \<Longrightarrow> address_map c' = address_map c \<Longrightarrow> addr_wf c' = addr_wf c"
  by (simp add: addr_wf_def)

lemma addr_ok_cong: "bm_get_register B p = bm_get_register B q \<Longrightarrow> addr_ok R B c p = addr_ok R B c q"
  using ns_tag_cong [of B p q] by (simp add: addr_ok_def)

lemma addr_ok_cleared: "register_laws B \<Longrightarrow> addr_ok R B c p \<Longrightarrow> addr_ok R B c (bm_set_register B (clear_all B q) PACKET_LENGTH_REG_IDX v)"
  by (cases "destination_list c") (simp_all add: addr_ok_def)

lemma addr_ok_extend:
  assumes "addr_ok R B c p" "destination_list c' = destination_list c @ l" "R \<subseteq> R'"
  shows "addr_ok R' B c' p"
  using assms by (auto simp: addr_ok_def nth_append split: prod.splits)

lemma send_ok_extend:
  assumes "send_ok R c call" "destination_list c' = destination_list c @ l" "R \<subseteq> R'"
  shows "send_ok R' c' call"
  using assms by (auto simp: send_ok_def nth_append)

lemma GetAddressIndex_same:
  assumes "address_map c' = address_map c" "destination_list c' = destination_list c"
  shows "snd (GetAddressIndex c' a) = snd (GetAddressIndex c a)"
    and "destination_list (fst (GetAddressIndex c' a)) = destination_list (fst (GetAddressIndex c a))"
  using assms by (simp_all add: GetAddressIndex_def Let_def split: option.split)

lemma address_index_in_range:
  assumes "addr_wf c"
  shows "unat (ucast (snd (GetAddressIndex c a)) :: u16) < length (destination_list (fst (GetAddressIndex c a)))"
proof -
  obtain k where k: "snd (GetAddressIndex c a) = of_nat k"
    "k < length (destination_list (fst (GetAddressIndex c a)))"
    using GetAddressIndex_index [OF assms] by metis
  have "unat (ucast (of_nat k :: u32) :: u16) \<le> k"
    by (simp add: unsigned_ucast_eq unsigned_of_nat)
  with k show ?thesis by simp
qed

lemma address_index_lookup:
  assumes "addr_wf c" "length (destination_list (fst (GetAddressIndex c a))) \<le> 65536"
  shows "destination_list (fst (GetAddressIndex c a)) ! unat (ucast (snd (GetAddressIndex c a)) :: u16) = a"
proof -
  obtain k where k: "snd (GetAddressIndex c a) = of_nat k"
    "k < length (destination_list (fst (GetAddressIndex c a)))"
    "destination_list (fst (GetAddressIndex c a)) ! k = a"
    using GetAddressIndex_index [OF assms(1)] by metis
  then have "k < 65536" using assms(2) by simp
  then have "unat (ucast (of_nat k :: u32) :: u16) = k"
    by (simp add: unsigned_ucast_eq unsigned_of_nat take_bit_nat_eq_self)
  with k show ?thesis by simp
qed

text \<open>The example programs that leave the registers alone are such programs.\<close>

lemma ex_program_frame:
  assumes "\<And>n p. ex_regs (prog n p) = ex_regs p"
  shows "program_frame (ex_bm decls prog)"
  using assms by (simp add: program_frame_def)
    (simp add: ex_bm_def keeps_ns_def ns_tag_def get_ns_address_def get_ns_protocol_def)

end
