(* ===== verification/Fifo_Interface.thy ===== *)
theory Fifo_Interface
  imports P4_Prelude
begin

text \<open>
  The contract shared by the two packet buffers of a switch (\<open>InputBuffer\<close> and
  \<open>NSQueueingLogicPriRL\<close> in \<open>utils/p4-queue.h\<close>): several logical queues, one per class, each
  a first-in first-out list of items. A push appends its item to its class or is refused; a
  pop takes the oldest item of some class, or nothing. What a push or pop is offered besides
  (the time, the worker) is its environment.

  \<open>run_queue\<close> performs a sequence of pushes and pops and records what was accepted and what
  came out. The locale proves once that no item is lost, duplicated or overtaken within its
  class; each buffer provides the laws.
\<close>

datatype ('e, 'c, 'a) queue_op = PushOp 'e 'c 'a | PopOp 'e

fun run_queue ::
  "('e \<Rightarrow> 'q \<Rightarrow> 'c \<Rightarrow> 'a \<Rightarrow> 'q \<times> bool) \<Rightarrow> ('e \<Rightarrow> 'q \<Rightarrow> 'q \<times> ('c \<times> 'a) option) \<Rightarrow>
   'q \<Rightarrow> ('e, 'c, 'a) queue_op list \<Rightarrow> 'q \<times> ('c \<times> 'a) list \<times> ('c \<times> 'a) list" where
  "run_queue push pop q [] = (q, [], [])"
| "run_queue push pop q (PushOp e c x # ops) =
     (let (q1, ok) = push e q c x;
          (q2, ins, outs) = run_queue push pop q1 ops
      in (q2, (if ok then (c, x) # ins else ins), outs))"
| "run_queue push pop q (PopOp e # ops) =
     (let (q1, r) = pop e q;
          (q2, ins, outs) = run_queue push pop q1 ops
      in (q2, ins, (case r of None \<Rightarrow> outs | Some cx \<Rightarrow> cx # outs)))"

definition of_class :: "'c \<Rightarrow> ('c \<times> 'a) list \<Rightarrow> 'a list" where
  "of_class c xs = map snd (filter (\<lambda>cx. fst cx = c) xs)"

lemma of_class_simps [simp]:
  "of_class c [] = []"
  "of_class c ((d, x) # xs) = (if d = c then x # of_class c xs else of_class c xs)"
  by (simp_all add: of_class_def)

text \<open>Every state a push is applied to along the run is ready for it.\<close>

fun ready_run ::
  "('e \<Rightarrow> 'q \<Rightarrow> bool) \<Rightarrow> ('e \<Rightarrow> 'q \<Rightarrow> 'c \<Rightarrow> 'a \<Rightarrow> 'q \<times> bool) \<Rightarrow> ('e \<Rightarrow> 'q \<Rightarrow> 'q \<times> ('c \<times> 'a) option) \<Rightarrow>
   'q \<Rightarrow> ('e, 'c, 'a) queue_op list \<Rightarrow> bool" where
  "ready_run ready push pop q [] = True"
| "ready_run ready push pop q (PushOp e c x # ops) =
     (ready e q \<and> ready_run ready push pop (fst (push e q c x)) ops)"
| "ready_run ready push pop q (PopOp e # ops) = ready_run ready push pop (fst (pop e q)) ops"

locale class_queues =
  fixes inv :: "'q \<Rightarrow> bool"
    and ready :: "'e \<Rightarrow> 'q \<Rightarrow> bool"
    and contents :: "'q \<Rightarrow> 'c \<Rightarrow> 'a list"
    and push :: "'e \<Rightarrow> 'q \<Rightarrow> 'c \<Rightarrow> 'a \<Rightarrow> 'q \<times> bool"
    and pop :: "'e \<Rightarrow> 'q \<Rightarrow> 'q \<times> ('c \<times> 'a) option"
  assumes inv_push: "inv q \<Longrightarrow> ready e q \<Longrightarrow> inv (fst (push e q c x))"
    and inv_pop: "inv q \<Longrightarrow> inv (fst (pop e q))"
    and push_accepted: "inv q \<Longrightarrow> ready e q \<Longrightarrow> snd (push e q c x) \<Longrightarrow>
          contents (fst (push e q c x)) d = (if d = c then contents q c @ [x] else contents q d)"
    and push_refused: "inv q \<Longrightarrow> ready e q \<Longrightarrow> \<not> snd (push e q c x) \<Longrightarrow>
          contents (fst (push e q c x)) d = contents q d"
    and pop_item: "inv q \<Longrightarrow> snd (pop e q) = Some (c, x) \<Longrightarrow>
          contents q d = (if d = c then x # contents (fst (pop e q)) c else contents (fst (pop e q)) d)"
    and pop_none: "inv q \<Longrightarrow> snd (pop e q) = None \<Longrightarrow> contents (fst (pop e q)) d = contents q d"
begin

lemma run_inv:
  "inv q \<Longrightarrow> ready_run ready push pop q ops \<Longrightarrow> inv (fst (run_queue push pop q ops))"
proof (induction ops arbitrary: q)
  case Nil
  then show ?case by simp
next
  case (Cons op ops)
  show ?case
  proof (cases op)
    case (PushOp e c x)
    with Cons.prems have "inv (fst (push e q c x))" by (simp add: inv_push)
    with Cons PushOp show ?thesis by (simp add: case_prod_beta Let_def)
  next
    case (PopOp e)
    with Cons.prems have "inv (fst (pop e q))" by (simp add: inv_pop)
    with Cons PopOp show ?thesis by (simp add: case_prod_beta Let_def)
  qed
qed

text \<open>
  First in, first out: what a class held, followed by what it accepted, is what came out of
  it, followed by what it still holds.
\<close>

lemma run_fifo:
  "inv q \<Longrightarrow> ready_run ready push pop q ops \<Longrightarrow> run_queue push pop q ops = (q', ins, outs) \<Longrightarrow>
   contents q c @ of_class c ins = of_class c outs @ contents q' c"
proof (induction ops arbitrary: q q' ins outs)
  case Nil
  then show ?case by simp
next
  case (Cons op ops)
  show ?case
  proof (cases op)
    case (PushOp e d x)
    obtain q2 ins2 outs2 where r: "run_queue push pop (fst (push e q d x)) ops = (q2, ins2, outs2)"
      by (metis prod_cases3)
    have "contents (fst (push e q d x)) c @ of_class c ins2 = of_class c outs2 @ contents q2 c"
      using Cons.IH [OF _ _ r] Cons.prems PushOp by (simp add: inv_push)
    with Cons.prems PushOp r push_accepted [of q e d x c] push_refused [of q e d x c]
    show ?thesis by (auto simp: case_prod_beta Let_def split: if_splits)
  next
    case (PopOp e)
    obtain q2 ins2 outs2 where r: "run_queue push pop (fst (pop e q)) ops = (q2, ins2, outs2)"
      by (metis prod_cases3)
    have IH: "contents (fst (pop e q)) c @ of_class c ins2 = of_class c outs2 @ contents q2 c"
      using Cons.IH [OF _ _ r] Cons.prems PopOp by (simp add: inv_pop)
    show ?thesis
    proof (cases "snd (pop e q)")
      case None
      with Cons.prems PopOp r IH show ?thesis
        by (simp add: case_prod_beta Let_def pop_none)
    next
      case (Some dx)
      obtain d x where dx: "dx = (d, x)" by fastforce
      from pop_item [of q e d x c] Cons.prems(1) Some dx
      have "contents q c = (if c = d then x # contents (fst (pop e q)) d else contents (fst (pop e q)) c)"
        by simp
      with Cons.prems PopOp r IH Some dx show ?thesis
        by (auto simp: case_prod_beta Let_def)
    qed
  qed
qed

end

end
