(* ===== verification/Input_Buffer.thy ===== *)
theory Input_Buffer
  imports Fifo_Interface
begin

text \<open>
  \<open>class InputBuffer\<close> of \<open>utils/p4-queue.h\<close>: packets waiting for the ingress pipeline, in a
  high-priority queue (resubmitted and recirculated packets, and the sentinel) and a
  low-priority queue (packets from the ports). A deque is a list whose head is its front.

  ns-3 runs in one thread: a push that waits on the condition variable of a full queue is
  never woken, and is the outcome \<open>Inl Blocks\<close>.
\<close>

datatype PacketType = NORMAL | RESUBMIT | RECIRCULATE | SENTINEL

record 'a input_buffer =
  capacity_hi :: nat
  capacity_lo :: nat
  queue_hi :: "'a list"
  queue_lo :: "'a list"

definition InputBuffer :: "nat \<Rightarrow> nat \<Rightarrow> 'a input_buffer" where
  "InputBuffer cap_hi cap_lo =
     \<lparr>capacity_hi = cap_hi, capacity_lo = cap_lo, queue_hi = [], queue_lo = []\<rparr>"

text \<open>The private \<open>push_front\<close> on one of the two queues.\<close>

definition push_front_queue :: "'a list \<Rightarrow> nat \<Rightarrow> 'a \<Rightarrow> bool \<Rightarrow> ('a list, int) outcome" where
  "push_front_queue queue capacity item blocking =
     (if length queue = capacity
      then (if \<not> blocking then (queue, Inr 0) else (queue, Inl Blocks))
      else (item # queue, Inr 1))"

fun ib_push_front ::
  "'a input_buffer \<Rightarrow> PacketType \<Rightarrow> 'a \<Rightarrow> ('a input_buffer, int) outcome" where
  "ib_push_front ib NORMAL item =
     (let (q, r) = push_front_queue (queue_lo ib) (capacity_lo ib) item True
      in (ib\<lparr>queue_lo := q\<rparr>, r))"
| "ib_push_front ib RESUBMIT item =
     (let (q, r) = push_front_queue (queue_hi ib) (capacity_hi ib) item False
      in (ib\<lparr>queue_hi := q\<rparr>, r))"
| "ib_push_front ib RECIRCULATE item =
     (let (q, r) = push_front_queue (queue_hi ib) (capacity_hi ib) item False
      in (ib\<lparr>queue_hi := q\<rparr>, r))"
| "ib_push_front ib SENTINEL item =
     (let (q, r) = push_front_queue (queue_hi ib) (capacity_hi ib) item True
      in (ib\<lparr>queue_hi := q\<rparr>, r))"

text \<open>\<open>None\<close>: both queues are empty and the caller's pointer is not written.\<close>

definition ib_pop_back :: "'a input_buffer \<Rightarrow> 'a input_buffer \<times> 'a option" where
  "ib_pop_back ib =
     (if length (queue_hi ib) > 0 \<or> length (queue_lo ib) > 0
      then (if length (queue_hi ib) > 0
            then (ib\<lparr>queue_hi := butlast (queue_hi ib)\<rparr>, Some (last (queue_hi ib)))
            else (ib\<lparr>queue_lo := butlast (queue_lo ib)\<rparr>, Some (last (queue_lo ib))))
      else (ib, None))"

definition ib_get_size :: "'a input_buffer \<Rightarrow> nat" where
  "ib_get_size ib = capacity_hi ib + capacity_lo ib"

subsection \<open>Invariant: neither queue exceeds its capacity\<close>

definition ib_wf :: "'a input_buffer \<Rightarrow> bool" where
  "ib_wf ib \<longleftrightarrow> length (queue_hi ib) \<le> capacity_hi ib \<and> length (queue_lo ib) \<le> capacity_lo ib"

lemma ib_wf_new [wf_intros]: "ib_wf (InputBuffer h l)"
  by (simp add: ib_wf_def InputBuffer_def)

lemma ib_wf_push [wf_intros]: "ib_wf ib \<Longrightarrow> ib_wf (fst (ib_push_front ib t x))"
  by (cases t) (auto simp: ib_wf_def push_front_queue_def)

lemma ib_wf_pop [wf_intros]: "ib_wf ib \<Longrightarrow> ib_wf (fst (ib_pop_back ib))"
  by (auto simp: ib_wf_def ib_pop_back_def)

lemma ib_push_capacity [simp]:
  "capacity_hi (fst (ib_push_front ib t x)) = capacity_hi ib"
  "capacity_lo (fst (ib_push_front ib t x)) = capacity_lo ib"
  by (cases t; simp add: case_prod_beta Let_def)+

lemma ib_pop_capacity [simp]:
  "capacity_hi (fst (ib_pop_back ib)) = capacity_hi ib"
  "capacity_lo (fst (ib_pop_back ib)) = capacity_lo ib"
  by (simp_all add: ib_pop_back_def)

text \<open>Only a push of a blocking kind can wait, and only when its queue is full.\<close>

lemma ib_push_stop:
  "snd (ib_push_front ib t x) = Inl e \<longleftrightarrow>
     e = Blocks \<and> (t = NORMAL \<and> length (queue_lo ib) = capacity_lo ib \<or>
                    t = SENTINEL \<and> length (queue_hi ib) = capacity_hi ib)"
  by (cases t) (auto simp: push_front_queue_def)

subsection \<open>The buffer provides the queue interface\<close>

datatype ib_class = HighPriority | LowPriority

fun ib_class_of :: "PacketType \<Rightarrow> ib_class" where
  "ib_class_of NORMAL = LowPriority"
| "ib_class_of RESUBMIT = HighPriority"
| "ib_class_of RECIRCULATE = HighPriority"
| "ib_class_of SENTINEL = HighPriority"

text \<open>The items of a class, oldest first: \<open>pop_back\<close> takes from the back of the deque.\<close>

fun ib_contents :: "'a input_buffer \<Rightarrow> ib_class \<Rightarrow> 'a list" where
  "ib_contents ib HighPriority = rev (queue_hi ib)"
| "ib_contents ib LowPriority = rev (queue_lo ib)"

text \<open>
  The operations in the form of the interface. The environment of a push is its packet type;
  the class it names is ignored in favour of the one the type selects, so the interface is
  used with \<open>c = ib_class_of t\<close>: a push of the wrong class is refused.
\<close>

definition ib_push_op :: "PacketType \<Rightarrow> 'a input_buffer \<Rightarrow> ib_class \<Rightarrow> 'a \<Rightarrow> 'a input_buffer \<times> bool" where
  "ib_push_op t ib c x =
     (if c = ib_class_of t
      then (let (ib', r) = ib_push_front ib t x in (ib', r = Inr 1))
      else (ib, False))"

definition ib_pop_op :: "PacketType \<Rightarrow> 'a input_buffer \<Rightarrow> 'a input_buffer \<times> (ib_class \<times> 'a) option" where
  "ib_pop_op t ib =
     (let (ib', r) = ib_pop_back ib
      in (ib', map_option (Pair (if queue_hi ib \<noteq> [] then HighPriority else LowPriority)) r))"

lemma ib_push_contents:
  "ib_contents (fst (ib_push_front ib t x)) d =
     (if snd (ib_push_front ib t x) = Inr 1 \<and> d = ib_class_of t then ib_contents ib d @ [x]
      else ib_contents ib d)"
  by (cases t; cases d) (auto simp: push_front_queue_def)

lemma ib_pop_Some:
  "snd (ib_pop_back ib) = Some x \<Longrightarrow>
     ib_contents ib d =
       (if d = (if queue_hi ib \<noteq> [] then HighPriority else LowPriority)
        then x # ib_contents (fst (ib_pop_back ib)) d else ib_contents (fst (ib_pop_back ib)) d)"
  by (cases d; cases "queue_hi ib" rule: rev_cases; cases "queue_lo ib" rule: rev_cases)
    (auto simp: ib_pop_back_def)

lemma ib_pop_None: "snd (ib_pop_back ib) = None \<Longrightarrow> fst (ib_pop_back ib) = ib"
  by (auto simp: ib_pop_back_def split: if_splits)

lemma ib_pop_None_iff: "snd (ib_pop_back ib) = None \<longleftrightarrow> queue_hi ib = [] \<and> queue_lo ib = []"
  by (auto simp: ib_pop_back_def)

interpretation ibq: class_queues ib_wf "\<lambda>_ _. True" ib_contents ib_push_op ib_pop_op
proof (unfold_locales, goal_cases)
  case (1 q e c x)
  then show ?case by (auto simp: ib_push_op_def case_prod_beta intro: wf_intros)
next
  case (2 q e)
  then show ?case by (auto simp: ib_pop_op_def case_prod_beta intro: wf_intros)
next
  case (3 q e c x d)
  then show ?case by (auto simp: ib_push_op_def case_prod_beta ib_push_contents split: if_splits)
next
  case (4 q e c x d)
  then show ?case by (auto simp: ib_push_op_def case_prod_beta ib_push_contents split: if_splits)
next
  case (5 q e c x d)
  then show ?case using ib_pop_Some [of q x d] by (auto simp: ib_pop_op_def case_prod_beta)
next
  case (6 q e d)
  then show ?case by (auto simp: ib_pop_op_def case_prod_beta ib_pop_None)
qed

lemma run_ib_capacity:
  "capacity_hi (fst (run_queue ib_push_op ib_pop_op ib ops)) = capacity_hi ib \<and>
   capacity_lo (fst (run_queue ib_push_op ib_pop_op ib ops)) = capacity_lo ib"
proof (induction ops arbitrary: ib)
  case Nil
  then show ?case by simp
next
  case (Cons op ops)
  then show ?case
    by (cases op) (auto simp: ib_push_op_def ib_pop_op_def case_prod_beta Let_def)
qed

text \<open>Whatever sequence of pushes and pops is applied to a fresh input buffer, neither queue
  ever holds more than its capacity, and in each of the two queues the packets that were
  accepted are those that came out, in the same order, followed by those that still wait.\<close>

theorem input_buffer_fifo_run:
  assumes "run_queue ib_push_op ib_pop_op (InputBuffer h l) ops = (ib, ins, outs)"
  shows "length (ib_contents ib HighPriority) \<le> h \<and> length (ib_contents ib LowPriority) \<le> l \<and>
         of_class c ins = of_class c outs @ ib_contents ib c"
proof -
  have r: "ready_run (\<lambda>_ _. True) ib_push_op ib_pop_op ib' ops" for ib' :: "'a input_buffer"
  proof (induction ops arbitrary: ib')
    case (Cons op ops)
    then show ?case by (cases op) simp_all
  qed simp
  have "ib_wf ib \<and> capacity_hi ib = h \<and> capacity_lo ib = l"
    using ibq.run_inv [OF ib_wf_new r] assms run_ib_capacity [of "InputBuffer h l" ops]
    by (metis InputBuffer_def fst_conv input_buffer.select_convs(1,2))
  moreover have "ib_contents (InputBuffer h l :: 'a input_buffer) c = []"
    by (cases c) (simp_all add: InputBuffer_def)
  ultimately show ?thesis
    using ibq.run_fifo [OF ib_wf_new r assms, of c] by (auto simp: ib_wf_def)
qed

theorem input_buffer_fifo_run_witness:
  "\<exists>ib ins outs. run_queue ib_push_op ib_pop_op (InputBuffer 1 1)
       [PushOp NORMAL LowPriority (4 :: nat), PushOp RESUBMIT HighPriority 5, PushOp RESUBMIT HighPriority 6,
        PopOp NORMAL] = (ib, ins, outs) \<and>
     outs = [(HighPriority, 5)] \<and>
     of_class HighPriority ins = of_class HighPriority outs @ ib_contents ib HighPriority"
proof -
  obtain ib ins outs where r: "run_queue ib_push_op ib_pop_op (InputBuffer 1 1)
       [PushOp NORMAL LowPriority (4 :: nat), PushOp RESUBMIT HighPriority 5, PushOp RESUBMIT HighPriority 6,
        PopOp NORMAL] = (ib, ins, outs)"
    by (metis prod_cases3)
  moreover from r have "outs = [(HighPriority, 5)]"
    by (auto simp: ib_push_op_def ib_pop_op_def ib_pop_back_def InputBuffer_def push_front_queue_def)
  ultimately show ?thesis using input_buffer_fifo_run [OF r, of HighPriority] by blast
qed

end
