(* ===== verification/Egress_Queue.thy ===== *)
theory Egress_Queue
  imports Fifo_Interface
begin

text \<open>
  \<open>class NSQueueingLogicPriRL\<close> of \<open>utils/p4-queue.h\<close>: the egress buffer. Each logical queue
  (one per egress port) has \<open>nb_priorities\<close> priority queues, each with a capacity and a rate.
  A packet is stamped on entry with the time it may leave; a worker holds, per priority, the
  packets of all its logical queues ordered by that time.

  \<open>std::unordered_map\<close> is a map, \<open>std::vector\<close> and \<open>std::array\<close> are lists, \<open>size_t\<close>
  occupancies are \<open>nat\<close> (the invariant shows that no decrement is at zero), and the
  \<open>wrapping_counter\<close> wraps at 2^64. \<open>Simulator::Now()\<close> is the argument \<open>sim_now S\<close>.
  \<open>std::out_of_range\<close> from \<open>at()\<close> is \<open>Inl OutOfRange\<close>, and the state returned with it
  keeps what had been changed (the queue that \<open>get_queue\<close> creates).
\<close>

subsection \<open>Queue entries and their order\<close>

record 'a QE =
  qe_e :: 'a
  qe_queue_id :: nat
  qe_send :: time
  qe_id :: nat

definition QEComp :: "'a QE \<Rightarrow> 'a QE \<Rightarrow> bool" where
  "QEComp lhs rhs =
     (if qe_send lhs = qe_send rhs then qe_id lhs > qe_id rhs else qe_send lhs > qe_send rhs)"

text \<open>
  \<open>std::priority_queue<QE, std::deque<QE>, QEComp>\<close> as the list of its elements in the order
  they are popped: \<open>top()\<close> is the head, \<open>pop()\<close> removes it, \<open>emplace\<close> inserts before the
  first element that \<open>QEComp\<close> places after the new one.
\<close>

fun myq_emplace :: "'a QE list \<Rightarrow> 'a QE \<Rightarrow> 'a QE list" where
  "myq_emplace [] x = [x]"
| "myq_emplace (y # ys) x = (if QEComp y x then x # y # ys else y # myq_emplace ys x)"

record QueueInfoPri =
  qip_size :: nat
  qip_capacity :: nat
  qip_rate_pps :: nat
  pkt_delay_time :: time
  last_sent :: time

record QueueInfo =
  qi_pri :: "QueueInfoPri list"
  qi_size :: nat

record 'a WorkerInfo =
  w_size :: nat
  w_queues :: "'a QE list list"
  wrapping_counter :: nat

record 'a egress =
  nb_workers :: nat
  eq_capacity :: nat
  queue_rate_pps :: nat
  queues_info :: "nat \<Rightarrow> QueueInfo option"
  workers_info :: "'a WorkerInfo list"
  map_to_worker :: "nat \<Rightarrow> nat"
  nb_priorities :: nat

definition NSQueueingLogicPriRL :: "nat \<Rightarrow> nat \<Rightarrow> (nat \<Rightarrow> nat) \<Rightarrow> nat \<Rightarrow> 'a egress" where
  "NSQueueingLogicPriRL nw cap mapper nprio =
     \<lparr>nb_workers = nw, eq_capacity = cap, queue_rate_pps = 0, queues_info = (\<lambda>_. None),
      workers_info = replicate nw \<lparr>w_size = 0, w_queues = replicate 32 [], wrapping_counter = 0\<rparr>,
      map_to_worker = mapper, nb_priorities = nprio\<rparr>"

subsection \<open>Rates\<close>

definition rate_to_time :: "sim \<Rightarrow> nat \<Rightarrow> time" where
  "rate_to_time S pps =
     (if pps = 0 then sim_seconds S (1 / 1000) else sim_seconds S (1 / of_nat pps))"

definition new_QueueInfoPri :: "sim \<Rightarrow> nat \<Rightarrow> nat \<Rightarrow> QueueInfoPri" where
  "new_QueueInfoPri S cap rate =
     \<lparr>qip_size = 0, qip_capacity = cap, qip_rate_pps = rate,
      pkt_delay_time = rate_to_time S rate, last_sent = sim_now S\<rparr>"

definition new_QueueInfo :: "sim \<Rightarrow> nat \<Rightarrow> nat \<Rightarrow> nat \<Rightarrow> QueueInfo" where
  "new_QueueInfo S cap rate nprio =
     \<lparr>qi_pri = replicate nprio (new_QueueInfoPri S cap rate), qi_size = 0\<rparr>"

definition get_queue :: "sim \<Rightarrow> 'a egress \<Rightarrow> nat \<Rightarrow> 'a egress \<times> QueueInfo" where
  "get_queue S eg queue_id =
     (case queues_info eg queue_id of
        Some qi \<Rightarrow> (eg, qi)
      | None \<Rightarrow>
          (let qi = new_QueueInfo S (eq_capacity eg) (queue_rate_pps eg) (nb_priorities eg)
           in (eg\<lparr>queues_info := (queues_info eg)(queue_id \<mapsto> qi)\<rparr>, qi)))"

definition get_next_tp :: "sim \<Rightarrow> QueueInfoPri \<Rightarrow> time" where
  "get_next_tp S info =
     (if sim_now S > last_sent info + pkt_delay_time info then sim_now S
      else last_sent info + pkt_delay_time info)"

subsection \<open>Enqueue\<close>

definition eq_push_front ::
  "sim \<Rightarrow> 'a egress \<Rightarrow> nat \<Rightarrow> nat \<Rightarrow> 'a \<Rightarrow> ('a egress, int) outcome" where
  "eq_push_front S eg queue_id priority item =
     (let worker_id = map_to_worker eg queue_id;
          (eg, q_info) = get_queue S eg queue_id
      in if length (workers_info eg) \<le> worker_id then (eg, Inl OutOfRange)
         else if length (qi_pri q_info) \<le> priority then (eg, Inl OutOfRange)
         else
           (let w_info = workers_info eg ! worker_id;
                q_info_pri = qi_pri q_info ! priority
            in if qip_size q_info_pri \<ge> qip_capacity q_info_pri then (eg, Inr 0)
               else if length (w_queues w_info) \<le> priority then (eg, Inl Undefined)
               else
                 (let next_tp = get_next_tp S q_info_pri;
                      entry = \<lparr>qe_e = item, qe_queue_id = queue_id, qe_send = next_tp,
                               qe_id = wrapping_counter w_info\<rparr>;
                      q_info_pri' = q_info_pri\<lparr>last_sent := next_tp, qip_size := qip_size q_info_pri + 1\<rparr>;
                      q_info' = q_info\<lparr>qi_pri := (qi_pri q_info)[priority := q_info_pri'],
                                       qi_size := qi_size q_info + 1\<rparr>;
                      w_info' = w_info
                        \<lparr>w_queues := (w_queues w_info)[priority := myq_emplace (w_queues w_info ! priority) entry],
                         wrapping_counter := (wrapping_counter w_info + 1) mod 2 ^ 64,
                         w_size := w_size w_info + 1\<rparr>
                  in (eg\<lparr>queues_info := (queues_info eg)(queue_id \<mapsto> q_info'),
                         workers_info := (workers_info eg)[worker_id := w_info']\<rparr>, Inr 1))))"

definition eq_push_front0 :: "sim \<Rightarrow> 'a egress \<Rightarrow> nat \<Rightarrow> 'a \<Rightarrow> ('a egress, int) outcome" where
  "eq_push_front0 S eg queue_id item = eq_push_front S eg queue_id 0 item"

subsection \<open>Dequeue\<close>

text \<open>
  The scan of the worker's priority queues, from \<open>nb_priorities - 1\<close> down to \<open>0\<close>, for the
  first whose top entry may leave by now.
\<close>

fun pick_pri :: "'a QE list list \<Rightarrow> time \<Rightarrow> nat \<Rightarrow> nat option" where
  "pick_pri qs now 0 = None"
| "pick_pri qs now (Suc pri) =
     (case qs ! pri of
        [] \<Rightarrow> pick_pri qs now pri
      | first # _ \<Rightarrow> if qe_send first \<le> now then Some pri else pick_pri qs now pri)"

text \<open>
  \<open>pop_back\<close>: nothing when the worker is idle or no entry may leave yet; otherwise the queue,
  the priority and the item, with the occupancies decremented.
\<close>

definition eq_pop_back ::
  "sim \<Rightarrow> 'a egress \<Rightarrow> nat \<Rightarrow> ('a egress, (nat \<times> nat \<times> 'a) option) outcome" where
  "eq_pop_back S eg worker_id =
     (if length (workers_info eg) \<le> worker_id then (eg, Inl OutOfRange)
      else
        (let w_info = workers_info eg ! worker_id
         in if w_size w_info = 0 then (eg, Inr None)
            else if length (w_queues w_info) < nb_priorities eg then (eg, Inl Undefined)
            else
              (case pick_pri (w_queues w_info) (sim_now S) (nb_priorities eg) of
                 None \<Rightarrow> (eg, Inr None)
               | Some pri \<Rightarrow>
                   (let queue = w_queues w_info ! pri;
                        queue_id = qe_queue_id (hd queue);
                        item = qe_e (hd queue);
                        w_info1 = w_info\<lparr>w_queues := (w_queues w_info)[pri := tl queue]\<rparr>;
                        eg1 = eg\<lparr>workers_info := (workers_info eg)[worker_id := w_info1]\<rparr>
                    in case queues_info eg1 queue_id of
                         None \<Rightarrow> (eg1, Inl OutOfRange)
                       | Some q_info \<Rightarrow>
                           if length (qi_pri q_info) \<le> pri then (eg1, Inl OutOfRange)
                           else
                             (let q_info_pri = qi_pri q_info ! pri;
                                  q_info' = q_info\<lparr>qi_pri := (qi_pri q_info)[pri :=
                                      q_info_pri\<lparr>qip_size := qip_size q_info_pri - 1\<rparr>],
                                    qi_size := qi_size q_info - 1\<rparr>;
                                  w_info2 = w_info1\<lparr>w_size := w_size w_info1 - 1\<rparr>
                              in (eg1\<lparr>queues_info := (queues_info eg1)(queue_id \<mapsto> q_info'),
                                      workers_info := (workers_info eg1)[worker_id := w_info2]\<rparr>,
                                  Inr (Some (queue_id, pri, item))))))))"

subsection \<open>Occupancy, capacities and rates\<close>

definition get_this_pkt_delay :: "sim \<Rightarrow> 'a egress \<Rightarrow> nat \<Rightarrow> nat \<Rightarrow> ('a egress, time) outcome" where
  "get_this_pkt_delay S eg queue_id priority =
     (let (eg, q_info) = get_queue S eg queue_id
      in if length (qi_pri q_info) \<le> priority then (eg, Inl OutOfRange)
         else (eg, Inr (pkt_delay_time (qi_pri q_info ! priority))))"

definition eq_size :: "'a egress \<Rightarrow> nat \<Rightarrow> nat" where
  "eq_size eg queue_id = (case queues_info eg queue_id of None \<Rightarrow> 0 | Some qi \<Rightarrow> qi_size qi)"

definition eq_size_pri :: "'a egress \<Rightarrow> nat \<Rightarrow> nat \<Rightarrow> stop + nat" where
  "eq_size_pri eg queue_id priority =
     (case queues_info eg queue_id of
        None \<Rightarrow> Inr 0
      | Some qi \<Rightarrow> if length (qi_pri qi) \<le> priority then Inl OutOfRange
                   else Inr (qip_size (qi_pri qi ! priority)))"

definition SetCapacityFn :: "nat \<Rightarrow> QueueInfoPri \<Rightarrow> QueueInfoPri" where
  "SetCapacityFn c info = info\<lparr>qip_capacity := c\<rparr>"

definition SetRateFn :: "sim \<Rightarrow> nat \<Rightarrow> QueueInfoPri \<Rightarrow> QueueInfoPri" where
  "SetRateFn S pps info = info\<lparr>qip_rate_pps := pps, pkt_delay_time := rate_to_time S pps\<rparr>"

definition for_each_q :: "sim \<Rightarrow> 'a egress \<Rightarrow> nat \<Rightarrow> (QueueInfoPri \<Rightarrow> QueueInfoPri) \<Rightarrow> 'a egress" where
  "for_each_q S eg queue_id fn =
     (let (eg, q_info) = get_queue S eg queue_id
      in eg\<lparr>queues_info := (queues_info eg)(queue_id \<mapsto> q_info\<lparr>qi_pri := map fn (qi_pri q_info)\<rparr>)\<rparr>)"

definition for_one_q ::
  "sim \<Rightarrow> 'a egress \<Rightarrow> nat \<Rightarrow> nat \<Rightarrow> (QueueInfoPri \<Rightarrow> QueueInfoPri) \<Rightarrow> ('a egress, unit) outcome" where
  "for_one_q S eg queue_id priority fn =
     (let (eg, q_info) = get_queue S eg queue_id
      in if length (qi_pri q_info) \<le> priority then (eg, Inl OutOfRange)
         else (eg\<lparr>queues_info := (queues_info eg)(queue_id \<mapsto>
                 q_info\<lparr>qi_pri := (qi_pri q_info)[priority := fn (qi_pri q_info ! priority)]\<rparr>)\<rparr>,
               Inr ()))"

text \<open>
  The loop \<open>for (auto& p : queues_info) for_each_q(p.first, fn)\<close>: every key is present, so each
  iteration rewrites its own entry.
\<close>

definition for_all_q :: "'a egress \<Rightarrow> (QueueInfoPri \<Rightarrow> QueueInfoPri) \<Rightarrow> 'a egress" where
  "for_all_q eg fn =
     eg\<lparr>queues_info := (\<lambda>q. map_option (\<lambda>qi. qi\<lparr>qi_pri := map fn (qi_pri qi)\<rparr>) (queues_info eg q))\<rparr>"

definition set_capacity :: "sim \<Rightarrow> 'a egress \<Rightarrow> nat \<Rightarrow> nat \<Rightarrow> 'a egress" where
  "set_capacity S eg queue_id c = for_each_q S eg queue_id (SetCapacityFn c)"

definition set_capacity_pri :: "sim \<Rightarrow> 'a egress \<Rightarrow> nat \<Rightarrow> nat \<Rightarrow> nat \<Rightarrow> ('a egress, unit) outcome" where
  "set_capacity_pri S eg queue_id priority c = for_one_q S eg queue_id priority (SetCapacityFn c)"

definition set_capacity_for_all :: "'a egress \<Rightarrow> nat \<Rightarrow> 'a egress" where
  "set_capacity_for_all eg c = (for_all_q eg (SetCapacityFn c))\<lparr>eq_capacity := c\<rparr>"

definition set_rate :: "sim \<Rightarrow> 'a egress \<Rightarrow> nat \<Rightarrow> nat \<Rightarrow> 'a egress" where
  "set_rate S eg queue_id pps = for_each_q S eg queue_id (SetRateFn S pps)"

definition set_rate_pri :: "sim \<Rightarrow> 'a egress \<Rightarrow> nat \<Rightarrow> nat \<Rightarrow> nat \<Rightarrow> ('a egress, unit) outcome" where
  "set_rate_pri S eg queue_id priority pps = for_one_q S eg queue_id priority (SetRateFn S pps)"

definition set_rate_for_all :: "sim \<Rightarrow> 'a egress \<Rightarrow> nat \<Rightarrow> 'a egress" where
  "set_rate_for_all S eg pps = (for_all_q eg (SetRateFn S pps))\<lparr>queue_rate_pps := pps\<rparr>"

subsection \<open>The order of entries\<close>

lemma QEComp_irrefl [simp]: "\<not> QEComp x x"
  by (simp add: QEComp_def)

lemma QEComp_trans: "QEComp y x \<Longrightarrow> \<not> QEComp y z \<Longrightarrow> QEComp z x"
  by (auto simp: QEComp_def split: if_splits)

lemma QEComp_asym: "QEComp y x \<Longrightarrow> \<not> QEComp x y"
  by (auto simp: QEComp_def split: if_splits)

lemma not_QEComp_trans: "\<not> QEComp x y \<Longrightarrow> \<not> QEComp y z \<Longrightarrow> \<not> QEComp x z"
  by (auto simp: QEComp_def split: if_splits)

abbreviation myq_sorted :: "'a QE list \<Rightarrow> bool" where
  "myq_sorted \<equiv> sorted_wrt (\<lambda>x y. \<not> QEComp x y)"

lemma set_myq_emplace [simp]: "set (myq_emplace q x) = insert x (set q)"
  by (induction q) auto

lemma length_myq_emplace [simp]: "length (myq_emplace q x) = Suc (length q)"
  by (induction q) auto

lemma myq_emplace_not_Nil [simp]: "myq_emplace q x \<noteq> []"
  by (cases q) auto

lemma sorted_myq_emplace: "myq_sorted q \<Longrightarrow> myq_sorted (myq_emplace q x)"
  by (induction q) (auto dest: QEComp_asym not_QEComp_trans)

lemma filter_myq_emplace_other: "\<not> P x \<Longrightarrow> filter P (myq_emplace q x) = filter P q"
  by (induction q) auto

lemma filter_myq_emplace_last:
  "myq_sorted q \<Longrightarrow> P x \<Longrightarrow> (\<And>y. y \<in> set q \<Longrightarrow> P y \<Longrightarrow> \<not> QEComp y x) \<Longrightarrow>
   filter P (myq_emplace q x) = filter P q @ [x]"
proof (induction q)
  case Nil
  then show ?case by simp
next
  case (Cons y ys)
  show ?case
  proof (cases "QEComp y x")
    case True
    have "filter P (y # ys) = []"
      unfolding filter_empty_conv
    proof
      fix z assume "z \<in> set (y # ys)"
      with Cons.prems(1) True have "QEComp z x" by (auto intro: QEComp_trans)
      with Cons.prems(3) \<open>z \<in> set (y # ys)\<close> show "\<not> P z" by blast
    qed
    with True Cons.prems(2) show ?thesis by auto
  next
    case False
    with Cons show ?thesis by auto
  qed
qed

lemma sorted_hd_least: "myq_sorted q \<Longrightarrow> x \<in> set q \<Longrightarrow> qe_send (hd q) \<le> qe_send x"
  by (cases q) (auto simp: QEComp_def split: if_splits)

subsection \<open>Invariant\<close>

text \<open>The entries of one class, in the order they leave.\<close>

definition class_entries :: "'a egress \<Rightarrow> nat \<Rightarrow> nat \<Rightarrow> 'a QE list" where
  "class_entries eg q p =
     filter (\<lambda>x. qe_queue_id x = q) (w_queues (workers_info eg ! map_to_worker eg q) ! p)"

definition queue_wf :: "'a egress \<Rightarrow> nat \<Rightarrow> QueueInfo \<Rightarrow> bool" where
  "queue_wf eg q qi \<longleftrightarrow>
     length (qi_pri qi) = nb_priorities eg \<and>
     qi_size qi = sum_list (map qip_size (qi_pri qi)) \<and>
     (\<forall>p < nb_priorities eg. 0 \<le> pkt_delay_time (qi_pri qi ! p) \<and>
        qip_size (qi_pri qi ! p) = length (class_entries eg q p))"

definition entry_wf :: "'a egress \<Rightarrow> nat \<Rightarrow> nat \<Rightarrow> 'a QE \<Rightarrow> bool" where
  "entry_wf eg w p x \<longleftrightarrow>
     p < nb_priorities eg \<and> map_to_worker eg (qe_queue_id x) = w \<and>
     qe_id x < wrapping_counter (workers_info eg ! w) \<and>
     (\<exists>qi. queues_info eg (qe_queue_id x) = Some qi \<and> qe_send x \<le> last_sent (qi_pri qi ! p))"

definition worker_wf :: "'a egress \<Rightarrow> nat \<Rightarrow> bool" where
  "worker_wf eg w \<longleftrightarrow>
     (let W = workers_info eg ! w
      in length (w_queues W) = 32 \<and> w_size W = sum_list (map length (w_queues W)) \<and>
         (\<forall>p < 32. myq_sorted (w_queues W ! p) \<and> (\<forall>x \<in> set (w_queues W ! p). entry_wf eg w p x)))"

definition eq_wf :: "'a egress \<Rightarrow> bool" where
  "eq_wf eg \<longleftrightarrow>
     nb_priorities eg \<le> 32 \<and>
     (\<forall>q. map_to_worker eg q < length (workers_info eg)) \<and>
     (\<forall>q qi. queues_info eg q = Some qi \<longrightarrow> queue_wf eg q qi) \<and>
     (\<forall>w < length (workers_info eg). worker_wf eg w)"

lemma eq_wf_new:
  assumes "np \<le> 32" and "\<And>q. mapper q < nw"
  shows "eq_wf (NSQueueingLogicPriRL nw cap mapper np)"
  using assms by (auto simp: eq_wf_def worker_wf_def NSQueueingLogicPriRL_def sum_list_replicate)

lemma eq_wfD:
  assumes "eq_wf eg"
  shows "nb_priorities eg \<le> 32"
    and "map_to_worker eg q < length (workers_info eg)"
    and "queues_info eg q = Some qi \<Longrightarrow> queue_wf eg q qi"
    and "w < length (workers_info eg) \<Longrightarrow> worker_wf eg w"
  using assms by (auto simp: eq_wf_def)

lemma worker_wfD:
  assumes "worker_wf eg w"
  shows "length (w_queues (workers_info eg ! w)) = 32"
    and "w_size (workers_info eg ! w) = sum_list (map length (w_queues (workers_info eg ! w)))"
    and "p < 32 \<Longrightarrow> myq_sorted (w_queues (workers_info eg ! w) ! p)"
    and "p < 32 \<Longrightarrow> x \<in> set (w_queues (workers_info eg ! w) ! p) \<Longrightarrow> entry_wf eg w p x"
  using assms by (auto simp: worker_wf_def Let_def)

text \<open>Simulator conversions of non-negative durations are non-negative.\<close>

definition seconds_nonneg :: "sim \<Rightarrow> bool" where
  "seconds_nonneg S \<longleftrightarrow> (\<forall>r \<ge> 0. 0 \<le> sim_seconds S r)"

lemma rate_to_time_nonneg: "seconds_nonneg S \<Longrightarrow> 0 \<le> rate_to_time S pps"
  by (simp add: rate_to_time_def seconds_nonneg_def)

lemma class_entries_absent:
  assumes "eq_wf eg" and "queues_info eg q = None" and "p < 32"
  shows "class_entries eg q p = []"
  unfolding class_entries_def filter_empty_conv
proof
  fix x assume x: "x \<in> set (w_queues (workers_info eg ! map_to_worker eg q) ! p)"
  have "worker_wf eg (map_to_worker eg q)" using assms(1) by (simp add: eq_wfD)
  from worker_wfD(4) [OF this assms(3) x] assms(2) show "qe_queue_id x \<noteq> q"
    by (auto simp: entry_wf_def)
qed

subsection \<open>Creating a queue\<close>

lemma get_queue_snd: "queues_info (fst (get_queue S eg q)) q = Some (snd (get_queue S eg q))"
  by (simp add: get_queue_def Let_def split: option.splits)

lemma get_queue_present: "queues_info eg q = Some qi \<Longrightarrow> get_queue S eg q = (eg, qi)"
  by (simp add: get_queue_def)

lemma get_queue_same [simp]:
  "workers_info (fst (get_queue S eg q)) = workers_info eg"
  "map_to_worker (fst (get_queue S eg q)) = map_to_worker eg"
  "nb_priorities (fst (get_queue S eg q)) = nb_priorities eg"
  by (simp_all add: get_queue_def Let_def split: option.splits)

lemma get_queue_other:
  "r \<noteq> q \<Longrightarrow> queues_info (fst (get_queue S eg q)) r = queues_info eg r"
  "queues_info eg r \<noteq> None \<Longrightarrow> queues_info (fst (get_queue S eg q)) r = queues_info eg r"
  by (auto simp: get_queue_def Let_def split: option.splits)

lemma class_entries_get_queue [simp]:
  "class_entries (fst (get_queue S eg q)) = class_entries eg"
  by (simp add: class_entries_def fun_eq_iff)

lemma eq_wf_get_queue [wf_intros]:
  assumes "eq_wf eg" and "seconds_nonneg S"
  shows "eq_wf (fst (get_queue S eg q))"
proof (cases "queues_info eg q")
  case (Some qi)
  with assms(1) show ?thesis by (simp add: get_queue_def)
next
  case None
  let ?eg = "fst (get_queue S eg q)"
  have "queue_wf ?eg r qi" if "queues_info ?eg r = Some qi" for r qi
  proof (cases "r = q")
    case True
    with that None have "qi = new_QueueInfo S (eq_capacity eg) (queue_rate_pps eg) (nb_priorities eg)"
      by (simp add: get_queue_def Let_def)
    with True None assms show ?thesis
      by (auto simp: queue_wf_def new_QueueInfo_def new_QueueInfoPri_def sum_list_replicate
          rate_to_time_nonneg class_entries_absent eq_wfD(1) less_le_trans)
  next
    case False
    with that have "queues_info eg r = Some qi" by (simp add: get_queue_other)
    with assms(1) have "queue_wf eg r qi" by (simp add: eq_wfD)
    then show ?thesis by (simp add: queue_wf_def)
  qed
  moreover have "worker_wf ?eg w" if "w < length (workers_info eg)" for w
  proof -
    have "entry_wf ?eg w p x" if "entry_wf eg w p x" for p x
      using that get_queue_other(2) [of eg "qe_queue_id x" S q] by (auto simp: entry_wf_def)
    moreover have "worker_wf eg w" using assms(1) that by (simp add: eq_wfD)
    ultimately show ?thesis by (auto simp: worker_wf_def Let_def)
  qed
  ultimately show ?thesis using assms(1) by (simp add: eq_wf_def)
qed

subsection \<open>Enqueue preserves the invariant\<close>

text \<open>Room for one more number in every worker's counter: no wrap-around on the next push.\<close>

definition counters_ready :: "'a egress \<Rightarrow> bool" where
  "counters_ready eg \<longleftrightarrow> (\<forall>w < length (workers_info eg). wrapping_counter (workers_info eg ! w) + 1 < 2 ^ 64)"

text \<open>The state after an accepted push into an existing queue.\<close>

definition enqueued :: "'a egress \<Rightarrow> nat \<Rightarrow> nat \<Rightarrow> 'a \<Rightarrow> time \<Rightarrow> QueueInfo \<Rightarrow> 'a egress" where
  "enqueued eg q p x tp qi =
     (let w = map_to_worker eg q; W = workers_info eg ! w in
      eg\<lparr>queues_info := (queues_info eg)(q \<mapsto>
           qi\<lparr>qi_pri := (qi_pri qi)[p := (qi_pri qi ! p)
                \<lparr>last_sent := tp, qip_size := qip_size (qi_pri qi ! p) + 1\<rparr>],
              qi_size := qi_size qi + 1\<rparr>),
         workers_info := (workers_info eg)[w :=
           W\<lparr>w_queues := (w_queues W)[p := myq_emplace (w_queues W ! p)
                \<lparr>qe_e = x, qe_queue_id = q, qe_send = tp, qe_id = wrapping_counter W\<rparr>],
             wrapping_counter := wrapping_counter W + 1, w_size := w_size W + 1\<rparr>]\<rparr>)"

lemma eq_push_get: "eq_push_front S eg q p x = eq_push_front S (fst (get_queue S eg q)) q p x"
proof -
  have "get_queue S (fst (get_queue S eg q)) q = get_queue S eg q"
    by (simp add: get_queue_present [OF get_queue_snd])
  then show ?thesis by (simp add: eq_push_front_def)
qed

lemma eq_push_present:
  assumes "eq_wf eg" "queues_info eg q = Some qi" "counters_ready eg"
  shows "eq_push_front S eg q p x =
    (if nb_priorities eg \<le> p then (eg, Inl OutOfRange)
     else if qip_capacity (qi_pri qi ! p) \<le> qip_size (qi_pri qi ! p) then (eg, Inr 0)
     else (enqueued eg q p x (get_next_tp S (qi_pri qi ! p)) qi, Inr 1))"
proof -
  note wf = eq_wfD [OF assms(1)]
  have "queue_wf eg q qi" using assms(2) by (rule wf(3))
  then have l: "length (qi_pri qi) = nb_priorities eg" by (simp add: queue_wf_def)
  have w: "length (w_queues (workers_info eg ! map_to_worker eg q)) = 32"
    by (intro worker_wfD(1) wf)
  have c: "Suc (wrapping_counter (workers_info eg ! map_to_worker eg q)) < 18446744073709551616"
    using assms(3) wf(2) [of q] by (auto simp: counters_ready_def)
  show ?thesis using wf(1,2) l w c get_queue_present [OF assms(2), of S]
    by (simp add: eq_push_front_def enqueued_def Let_def not_less [symmetric] split: prod.splits)
qed

lemma get_next_tp_ge:
  "sim_now S \<le> get_next_tp S i" "last_sent i + pkt_delay_time i \<le> get_next_tp S i"
  by (simp_all add: get_next_tp_def)

lemma sum_list_update_nat:
  "i < length xs \<Longrightarrow> sum_list ((xs :: nat list)[i := v]) + xs ! i = sum_list xs + v"
  by (induction xs arbitrary: i) (auto split: nat.splits)

lemma class_entries_enqueued:
  assumes wf: "eq_wf eg" and q: "queues_info eg q = Some qi" and p: "p < nb_priorities eg"
    and tp: "last_sent (qi_pri qi ! p) \<le> tp" and p': "p' < 32"
  shows "class_entries (enqueued eg q p x tp qi) q' p' =
    (if q' = q \<and> p' = p
     then class_entries eg q p @ [\<lparr>qe_e = x, qe_queue_id = q, qe_send = tp,
            qe_id = wrapping_counter (workers_info eg ! map_to_worker eg q)\<rparr>]
     else class_entries eg q' p')"
proof -
  let ?w = "map_to_worker eg q"
  let ?e = "\<lparr>qe_e = x, qe_queue_id = q, qe_send = tp, qe_id = wrapping_counter (workers_info eg ! ?w)\<rparr>"
  have w: "?w < length (workers_info eg)" using wf by (simp add: eq_wfD)
  have W: "worker_wf eg ?w" using wf w by (simp add: eq_wfD)
  have p32: "p < 32" using p eq_wfD(1) [OF wf] by simp
  have last: "\<not> QEComp y ?e" if "y \<in> set (w_queues (workers_info eg ! ?w) ! p)" "qe_queue_id y = q" for y
    using worker_wfD(4) [OF W p32 that(1)] that(2) q tp by (auto simp: entry_wf_def QEComp_def)
  show ?thesis
    using w p32 worker_wfD(1) [OF W]
      filter_myq_emplace_last [OF worker_wfD(3) [OF W p32], of "\<lambda>y. qe_queue_id y = q" ?e] last
    by (auto simp: class_entries_def enqueued_def Let_def nth_list_update filter_myq_emplace_other)
qed

lemma eq_wf_enqueued:
  assumes wf: "eq_wf eg" and q: "queues_info eg q = Some qi" and p: "p < nb_priorities eg"
    and tp: "last_sent (qi_pri qi ! p) \<le> tp"
  shows "eq_wf (enqueued eg q p x tp qi)"
proof -
  let ?eg = "enqueued eg q p x tp qi" and ?w = "map_to_worker eg q"
  have w: "?w < length (workers_info eg)" using wf by (simp add: eq_wfD)
  have W: "worker_wf eg w'" if "w' < length (workers_info eg)" for w' using wf that by (simp add: eq_wfD)
  have p32: "p < 32" using p eq_wfD(1) [OF wf] by simp
  have Q: "queue_wf eg r ri" if "queues_info eg r = Some ri" for r ri using wf that by (simp add: eq_wfD)
  note ce = class_entries_enqueued [OF wf q p tp]
  have nb: "nb_priorities ?eg = nb_priorities eg" "map_to_worker ?eg = map_to_worker eg"
    "length (workers_info ?eg) = length (workers_info eg)"
    by (simp_all add: enqueued_def Let_def)
  have "queue_wf ?eg r ri" if r: "queues_info ?eg r = Some ri" for r ri
  proof (cases "r = q")
    case True
    have l: "length (qi_pri qi) = nb_priorities eg" using Q [OF q] by (simp add: queue_wf_def)
    from r True have ri: "ri = qi\<lparr>qi_pri := (qi_pri qi)[p := (qi_pri qi ! p)
                \<lparr>last_sent := tp, qip_size := qip_size (qi_pri qi ! p) + 1\<rparr>], qi_size := qi_size qi + 1\<rparr>"
      by (simp add: enqueued_def Let_def)
    show ?thesis using Q [OF q] l p ce True eq_wfD(1) [OF wf]
        sum_list_update_nat [of p "map qip_size (qi_pri qi)" "Suc (qip_size (qi_pri qi ! p))"]
      by (auto simp: queue_wf_def ri nb nth_list_update map_update)
  next
    case False
    with r have "queues_info eg r = Some ri" by (simp add: enqueued_def Let_def)
    from Q [OF this] False ce eq_wfD(1) [OF wf] show ?thesis by (auto simp: queue_wf_def nb)
  qed
  moreover have "worker_wf ?eg w'" if w': "w' < length (workers_info eg)" for w'
  proof -
    let ?W = "workers_info eg ! w'"
    have old: "entry_wf ?eg w' p' y" if "entry_wf eg w' p' y" for p' y
      using that tp q p w w' Q [OF q] by (auto simp: entry_wf_def enqueued_def Let_def nth_list_update queue_wf_def)
    have new: "entry_wf ?eg ?w p \<lparr>qe_e = x, qe_queue_id = q, qe_send = tp,
        qe_id = wrapping_counter (workers_info eg ! ?w)\<rparr>"
      using p w Q [OF q] by (auto simp: entry_wf_def enqueued_def Let_def queue_wf_def)
    show ?thesis
    proof (cases "w' = ?w")
      case True
      then show ?thesis
        using W [OF w] w p32 old new
          sum_list_update_nat [of p "map length (w_queues (workers_info eg ! ?w))"
            "Suc (length (w_queues (workers_info eg ! ?w) ! p))"]
        unfolding worker_wf_def Let_def
        by (auto simp: enqueued_def Let_def nth_list_update map_update sorted_myq_emplace)
    next
      case False
      then have "workers_info ?eg ! w' = ?W" by (simp add: enqueued_def Let_def)
      with W [OF w'] old show ?thesis unfolding worker_wf_def Let_def by simp
    qed
  qed
  ultimately show ?thesis using wf by (simp add: eq_wf_def nb)
qed

subsection \<open>Dequeue preserves the invariant\<close>

lemma pick_pri_Some:
  "pick_pri qs now n = Some p \<Longrightarrow>
     p < n \<and> qs ! p \<noteq> [] \<and> qe_send (hd (qs ! p)) \<le> now \<and>
     (\<forall>p'. p < p' \<and> p' < n \<longrightarrow> qs ! p' = [] \<or> now < qe_send (hd (qs ! p')))"
proof (induction n)
  case 0
  then show ?case by simp
next
  case (Suc n)
  show ?case
  proof (cases "qs ! n \<noteq> [] \<and> qe_send (hd (qs ! n)) \<le> now")
    case True
    with Suc.prems have "p = n" by (auto simp: neq_Nil_conv)
    with True show ?thesis by auto
  next
    case False
    with Suc.prems have "pick_pri qs now n = Some p" by (auto split: list.splits if_splits)
    from Suc.IH [OF this] False show ?thesis by (auto simp: less_Suc_eq)
  qed
qed

lemma pick_pri_None:
  "pick_pri qs now n = None \<longleftrightarrow> (\<forall>p < n. qs ! p = [] \<or> now < qe_send (hd (qs ! p)))"
  by (induction n) (auto simp: less_Suc_eq split: list.splits)

text \<open>The state after the top entry of priority \<open>p\<close> of worker \<open>w\<close> has left.\<close>

definition dequeued :: "'a egress \<Rightarrow> nat \<Rightarrow> nat \<Rightarrow> QueueInfo \<Rightarrow> 'a egress" where
  "dequeued eg w p qi =
     (let W = workers_info eg ! w; queue = w_queues W ! p in
      eg\<lparr>queues_info := (queues_info eg)(qe_queue_id (hd queue) \<mapsto>
           qi\<lparr>qi_pri := (qi_pri qi)[p := (qi_pri qi ! p)\<lparr>qip_size := qip_size (qi_pri qi ! p) - 1\<rparr>],
              qi_size := qi_size qi - 1\<rparr>),
         workers_info := (workers_info eg)[w :=
           W\<lparr>w_queues := (w_queues W)[p := tl queue], w_size := w_size W - 1\<rparr>]\<rparr>)"

lemma pick_entry:
  assumes "eq_wf eg" "w < length (workers_info eg)"
    and "pick_pri (w_queues (workers_info eg ! w)) now (nb_priorities eg) = Some p"
  defines "e \<equiv> hd (w_queues (workers_info eg ! w) ! p)"
  obtains qi where "queues_info eg (qe_queue_id e) = Some qi" "queue_wf eg (qe_queue_id e) qi"
    "p < nb_priorities eg" "p < 32" "map_to_worker eg (qe_queue_id e) = w" "qe_send e \<le> now"
    "w_queues (workers_info eg ! w) ! p = e # tl (w_queues (workers_info eg ! w) ! p)"
    "class_entries eg (qe_queue_id e) p =
       e # filter (\<lambda>x. qe_queue_id x = qe_queue_id e) (tl (w_queues (workers_info eg ! w) ! p))"
    "0 < w_size (workers_info eg ! w)"
proof -
  note P = pick_pri_Some [OF assms(3)]
  have p: "p < nb_priorities eg" "p < 32" using P eq_wfD(1) [OF assms(1)] by auto
  have W: "worker_wf eg w" using assms(1,2) by (simp add: eq_wfD)
  have c: "w_queues (workers_info eg ! w) ! p = e # tl (w_queues (workers_info eg ! w) ! p)"
    using P by (simp add: e_def)
  then have "e \<in> set (w_queues (workers_info eg ! w) ! p)" by (metis list.set_intros(1))
  from worker_wfD(4) [OF W p(2) this] obtain qi where
    q: "queues_info eg (qe_queue_id e) = Some qi" "map_to_worker eg (qe_queue_id e) = w"
    by (auto simp: entry_wf_def)
  have "queue_wf eg (qe_queue_id e) qi" using assms(1) q by (simp add: eq_wfD)
  moreover have "length (w_queues (workers_info eg ! w) ! p) \<le> w_size (workers_info eg ! w)"
    unfolding worker_wfD(2) [OF W] using p(2) worker_wfD(1) [OF W]
    by (simp add: member_le_sum_list)
  then have "0 < w_size (workers_info eg ! w)" using P by (auto intro: less_le_trans)
  moreover have "class_entries eg (qe_queue_id e) p =
       e # filter (\<lambda>x. qe_queue_id x = qe_queue_id e) (tl (w_queues (workers_info eg ! w) ! p))"
    unfolding class_entries_def q(2) by (subst c) simp
  ultimately show thesis using that q p c P by (auto simp: e_def)
qed

lemma eq_pop_present:
  assumes "eq_wf eg" "w < length (workers_info eg)"
  shows "eq_pop_back S eg w =
    (case pick_pri (w_queues (workers_info eg ! w)) (sim_now S) (nb_priorities eg) of
       None \<Rightarrow> (eg, Inr None)
     | Some p \<Rightarrow>
         (let e = hd (w_queues (workers_info eg ! w) ! p)
          in (dequeued eg w p (the (queues_info eg (qe_queue_id e))), Inr (Some (qe_queue_id e, p, qe_e e)))))"
proof (cases "pick_pri (w_queues (workers_info eg ! w)) (sim_now S) (nb_priorities eg)")
  case None
  have "worker_wf eg w" using assms by (simp add: eq_wfD)
  with None assms eq_wfD(1) [OF assms(1)] show ?thesis
    by (simp add: eq_pop_back_def Let_def worker_wfD(1))
next
  case (Some p)
  have W: "length (w_queues (workers_info eg ! w)) = 32" using assms by (intro worker_wfD(1)) (simp add: eq_wfD)
  from pick_entry [OF assms Some] obtain qi where
    "queues_info eg (qe_queue_id (hd (w_queues (workers_info eg ! w) ! p))) = Some qi"
    "length (qi_pri qi) = nb_priorities eg" "p < nb_priorities eg" "0 < w_size (workers_info eg ! w)"
    by (auto simp: queue_wf_def)
  with Some assms(2) W eq_wfD(1) [OF assms(1)] show ?thesis
    by (simp add: eq_pop_back_def dequeued_def Let_def)
qed

lemma sorted_tl_myq: "myq_sorted q \<Longrightarrow> myq_sorted (tl q)"
  by (cases q) auto

lemma class_entries_dequeued:
  assumes wf: "eq_wf eg" and w: "w < length (workers_info eg)"
    and pick: "pick_pri (w_queues (workers_info eg ! w)) now (nb_priorities eg) = Some p"
    and qi: "queues_info eg (qe_queue_id (hd (w_queues (workers_info eg ! w) ! p))) = Some qi"
  shows "class_entries (dequeued eg w p qi) q' p' =
    (if q' = qe_queue_id (hd (w_queues (workers_info eg ! w) ! p)) \<and> p' = p
     then tl (class_entries eg q' p') else class_entries eg q' p')"
proof -
  let ?e = "hd (w_queues (workers_info eg ! w) ! p)"
  obtain qi' where P: "p < 32" "map_to_worker eg (qe_queue_id ?e) = w"
    "w_queues (workers_info eg ! w) ! p = ?e # tl (w_queues (workers_info eg ! w) ! p)"
    "class_entries eg (qe_queue_id ?e) p =
       ?e # filter (\<lambda>x. qe_queue_id x = qe_queue_id ?e) (tl (w_queues (workers_info eg ! w) ! p))"
    using pick_entry [OF wf w pick] by metis
  have l: "length (w_queues (workers_info eg ! w)) = 32"
    using wf w by (intro worker_wfD(1)) (simp add: eq_wfD)
  show ?thesis
  proof (cases "q' = qe_queue_id ?e \<and> p' = p")
    case True
    then show ?thesis using P w l
      by (simp add: class_entries_def dequeued_def Let_def)
  next
    case False
    have "filter (\<lambda>x. qe_queue_id x = q') (tl (w_queues (workers_info eg ! w) ! p)) =
          filter (\<lambda>x. qe_queue_id x = q') (w_queues (workers_info eg ! w) ! p)" if "q' \<noteq> qe_queue_id ?e"
      using that by (subst (2) P(3)) simp
    with False P w l show ?thesis
      by (auto simp: class_entries_def dequeued_def Let_def nth_list_update)
  qed
qed

lemma eq_wf_dequeued:
  assumes wf: "eq_wf eg" and w: "w < length (workers_info eg)"
    and pick: "pick_pri (w_queues (workers_info eg ! w)) now (nb_priorities eg) = Some p"
    and q: "queues_info eg (qe_queue_id (hd (w_queues (workers_info eg ! w) ! p))) = Some qi"
  shows "eq_wf (dequeued eg w p qi)"
proof -
  let ?eg = "dequeued eg w p qi" and ?e = "hd (w_queues (workers_info eg ! w) ! p)"
  obtain qi' where P: "p < nb_priorities eg" "p < 32" "map_to_worker eg (qe_queue_id ?e) = w"
    "w_queues (workers_info eg ! w) ! p = ?e # tl (w_queues (workers_info eg ! w) ! p)"
    "class_entries eg (qe_queue_id ?e) p =
       ?e # filter (\<lambda>x. qe_queue_id x = qe_queue_id ?e) (tl (w_queues (workers_info eg ! w) ! p))"
    "0 < w_size (workers_info eg ! w)"
    using pick_entry [OF wf w pick] by metis
  have W: "worker_wf eg w'" if "w' < length (workers_info eg)" for w' using wf that by (simp add: eq_wfD)
  have Q: "queue_wf eg r ri" if "queues_info eg r = Some ri" for r ri using wf that by (simp add: eq_wfD)
  note ce = class_entries_dequeued [OF wf w pick q]
  have nb: "nb_priorities ?eg = nb_priorities eg" "map_to_worker ?eg = map_to_worker eg"
    "length (workers_info ?eg) = length (workers_info eg)"
    by (simp_all add: dequeued_def Let_def)
  have l: "length (qi_pri qi) = nb_priorities eg" using Q [OF q] by (simp add: queue_wf_def)
  have "queue_wf ?eg r ri" if r: "queues_info ?eg r = Some ri" for r ri
  proof (cases "r = qe_queue_id ?e")
    case True
    from r True have ri: "ri = qi\<lparr>qi_pri := (qi_pri qi)[p := (qi_pri qi ! p)
                \<lparr>qip_size := qip_size (qi_pri qi ! p) - 1\<rparr>], qi_size := qi_size qi - 1\<rparr>"
      by (simp add: dequeued_def Let_def)
    have "qip_size (qi_pri qi ! p) = length (class_entries eg r p)"
      using Q [OF q] P(1) True by (simp add: queue_wf_def)
    with P(5) True have "0 < qip_size (qi_pri qi ! p)" by simp
    with Q [OF q] l P ce True show ?thesis
        using sum_list_update_nat [of p "map qip_size (qi_pri qi)" "qip_size (qi_pri qi ! p) - 1"]
      by (auto simp: queue_wf_def ri nb nth_list_update map_update)
  next
    case False
    with r have "queues_info eg r = Some ri" by (simp add: dequeued_def Let_def)
    from Q [OF this] False ce show ?thesis by (auto simp: queue_wf_def nb)
  qed
  moreover have "worker_wf ?eg w'" if w': "w' < length (workers_info eg)" for w'
  proof -
    have old: "entry_wf ?eg w' p' y" if "entry_wf eg w' p' y" for p' y
      using that q P(1) w w' l
      by (cases "qe_queue_id y = qe_queue_id ?e"; cases "p' = p")
        (auto simp: entry_wf_def dequeued_def Let_def nth_list_update)
    show ?thesis
    proof (cases "w' = w")
      case True
      have ne: "w_queues (workers_info eg ! w) ! p \<noteq> []"
        by (metis P(4) list.distinct(1))
      have "\<And>y. y \<in> set (tl (w_queues (workers_info eg ! w) ! p)) \<Longrightarrow> y \<in> set (w_queues (workers_info eg ! w) ! p)"
        using ne by (rule list.set_sel(2))
      moreover have "sum_list (map length ((w_queues (workers_info eg ! w))[p := tl (w_queues (workers_info eg ! w) ! p)]))
        = sum_list (map length (w_queues (workers_info eg ! w))) - 1"
        using sum_list_update_nat [of p "map length (w_queues (workers_info eg ! w))"
            "length (tl (w_queues (workers_info eg ! w) ! p))"] P(2) worker_wfD(1) [OF W [OF w]]
          ne [folded length_greater_0_conv] by (simp add: map_update)
      ultimately show ?thesis
        using True W [OF w] w P(2) old unfolding worker_wf_def Let_def
        by (auto simp: dequeued_def Let_def nth_list_update sorted_tl_myq)
    next
      case False
      then have "workers_info ?eg ! w' = workers_info eg ! w'" by (simp add: dequeued_def Let_def)
      with W [OF w'] old show ?thesis unfolding worker_wf_def Let_def by simp
    qed
  qed
  ultimately show ?thesis using wf by (simp add: eq_wf_def nb)
qed

lemma eq_wf_pop_back [wf_intros]: "eq_wf eg \<Longrightarrow> eq_wf (fst (eq_pop_back S eg w))"
proof (cases "w < length (workers_info eg)")
  case False
  then show "eq_wf eg \<Longrightarrow> ?thesis" by (simp add: eq_pop_back_def)
next
  case True
  assume wf: "eq_wf eg"
  show ?thesis
  proof (cases "pick_pri (w_queues (workers_info eg ! w)) (sim_now S) (nb_priorities eg)")
    case None
    with wf True show ?thesis by (simp add: eq_pop_present)
  next
    case (Some p)
    obtain qi where q: "queues_info eg (qe_queue_id (hd (w_queues (workers_info eg ! w) ! p))) = Some qi"
      using pick_entry [OF wf True Some] by metis
    with eq_wf_dequeued [OF wf True Some q] wf True Some show ?thesis
      by (simp add: eq_pop_present Let_def)
  qed
qed

lemma eq_wf_push_front [wf_intros]:
  assumes "eq_wf eg" "seconds_nonneg S" "counters_ready eg"
  shows "eq_wf (fst (eq_push_front S eg q p x))"
proof -
  let ?eg = "fst (get_queue S eg q)" and ?qi = "snd (get_queue S eg q)"
  have wf: "eq_wf ?eg" using assms by (intro wf_intros)
  have qi: "queues_info ?eg q = Some ?qi" by (rule get_queue_snd)
  have c: "counters_ready ?eg" using assms(3) by (simp add: counters_ready_def)
  have "queue_wf ?eg q ?qi" using wf qi by (simp add: eq_wfD)
  then have "p < nb_priorities ?eg \<Longrightarrow> last_sent (qi_pri ?qi ! p) \<le> get_next_tp S (qi_pri ?qi ! p)"
    using get_next_tp_ge(2) [of "qi_pri ?qi ! p" S] by (fastforce simp: queue_wf_def)
  with wf qi c show ?thesis
    by (subst eq_push_get) (auto simp: eq_push_present simp del: get_queue_same intro!: eq_wf_enqueued)
qed

subsection \<open>Reconfiguration preserves the invariant\<close>

text \<open>What a per-queue update may change: the capacity, the rate and the delay.\<close>

definition tunes :: "(QueueInfoPri \<Rightarrow> QueueInfoPri) \<Rightarrow> bool" where
  "tunes fn \<longleftrightarrow> (\<forall>i. qip_size (fn i) = qip_size i \<and> last_sent (fn i) = last_sent i \<and>
                   (0 \<le> pkt_delay_time i \<longrightarrow> 0 \<le> pkt_delay_time (fn i)))"

lemma tunes_SetCapacityFn [wf_intros]: "tunes (SetCapacityFn c)"
  by (simp add: tunes_def SetCapacityFn_def)

lemma tunes_SetRateFn [wf_intros]: "seconds_nonneg S \<Longrightarrow> tunes (SetRateFn S r)"
  by (simp add: tunes_def SetRateFn_def rate_to_time_nonneg)

lemma eq_wf_retune:
  assumes "eq_wf eg" and "workers_info eg' = workers_info eg" "map_to_worker eg' = map_to_worker eg"
    and "nb_priorities eg' = nb_priorities eg"
    and same: "\<And>q. rel_option (\<lambda>a b. qi_size b = qi_size a \<and> length (qi_pri b) = length (qi_pri a) \<and>
            (\<forall>p < length (qi_pri a). qip_size (qi_pri b ! p) = qip_size (qi_pri a ! p) \<and>
               last_sent (qi_pri b ! p) = last_sent (qi_pri a ! p) \<and>
               (0 \<le> pkt_delay_time (qi_pri a ! p) \<longrightarrow> 0 \<le> pkt_delay_time (qi_pri b ! p))))
          (queues_info eg q) (queues_info eg' q)"
  shows "eq_wf eg'"
proof -
  have ce: "class_entries eg' = class_entries eg"
    by (simp add: class_entries_def fun_eq_iff assms)
  have "queue_wf eg' q b" if b: "queues_info eg' q = Some b" for q b
  proof -
    from same [of q] b obtain a where a: "queues_info eg q = Some a" by (cases "queues_info eg q") auto
    with assms(1) have A: "queue_wf eg q a" by (simp add: eq_wfD)
    from same [of q] a b have S: "qi_size b = qi_size a" "length (qi_pri b) = length (qi_pri a)"
      "\<And>p. p < length (qi_pri a) \<Longrightarrow> qip_size (qi_pri b ! p) = qip_size (qi_pri a ! p) \<and>
               (0 \<le> pkt_delay_time (qi_pri a ! p) \<longrightarrow> 0 \<le> pkt_delay_time (qi_pri b ! p))" by auto
    then have "map qip_size (qi_pri b) = map qip_size (qi_pri a)" by (auto intro: nth_equalityI)
    with A S show ?thesis by (auto simp: queue_wf_def ce assms)
  qed
  moreover have "worker_wf eg' w" if "w < length (workers_info eg)" for w
  proof -
    have W: "worker_wf eg w" using assms(1) that by (simp add: eq_wfD)
    have "entry_wf eg' w p x" if "entry_wf eg w p x" for p x
    proof -
      from that obtain a where a: "queues_info eg (qe_queue_id x) = Some a" "p < nb_priorities eg"
        by (auto simp: entry_wf_def)
      moreover from a assms(1) have "length (qi_pri a) = nb_priorities eg"
        by (auto dest: eq_wfD(3) simp: queue_wf_def)
      ultimately show ?thesis
        using that same [of "qe_queue_id x"] by (auto simp: entry_wf_def assms option_rel_Some1)
    qed
    with W show ?thesis by (auto simp: worker_wf_def Let_def assms)
  qed
  ultimately show ?thesis using assms(1) by (simp add: eq_wf_def assms)
qed

lemma eq_wf_for_each_q [wf_intros]:
  assumes "eq_wf eg" "seconds_nonneg S" "tunes fn"
  shows "eq_wf (for_each_q S eg q fn)"
proof (rule eq_wf_retune [OF eq_wf_get_queue [OF assms(1,2), of q]])
  fix r show "rel_option (\<lambda>a b. qi_size b = qi_size a \<and> length (qi_pri b) = length (qi_pri a) \<and>
            (\<forall>p < length (qi_pri a). qip_size (qi_pri b ! p) = qip_size (qi_pri a ! p) \<and>
               last_sent (qi_pri b ! p) = last_sent (qi_pri a ! p) \<and>
               (0 \<le> pkt_delay_time (qi_pri a ! p) \<longrightarrow> 0 \<le> pkt_delay_time (qi_pri b ! p))))
          (queues_info (fst (get_queue S eg q)) r) (queues_info (for_each_q S eg q fn) r)"
    using assms(3) get_queue_snd [of S eg q]
    by (auto simp: for_each_q_def case_prod_beta Let_def tunes_def option.rel_refl)
qed (simp_all add: for_each_q_def case_prod_beta Let_def)

lemma eq_wf_for_one_q [wf_intros]:
  assumes "eq_wf eg" "seconds_nonneg S" "tunes fn"
  shows "eq_wf (fst (for_one_q S eg q p fn))"
proof (rule eq_wf_retune [OF eq_wf_get_queue [OF assms(1,2), of q]])
  fix r show "rel_option (\<lambda>a b. qi_size b = qi_size a \<and> length (qi_pri b) = length (qi_pri a) \<and>
            (\<forall>p < length (qi_pri a). qip_size (qi_pri b ! p) = qip_size (qi_pri a ! p) \<and>
               last_sent (qi_pri b ! p) = last_sent (qi_pri a ! p) \<and>
               (0 \<le> pkt_delay_time (qi_pri a ! p) \<longrightarrow> 0 \<le> pkt_delay_time (qi_pri b ! p))))
          (queues_info (fst (get_queue S eg q)) r) (queues_info (fst (for_one_q S eg q p fn)) r)"
    using assms(3) get_queue_snd [of S eg q]
    by (auto simp: for_one_q_def case_prod_beta Let_def tunes_def option.rel_refl nth_list_update)
qed (simp_all add: for_one_q_def case_prod_beta Let_def)

lemma eq_wf_for_all_q [wf_intros]:
  assumes "eq_wf eg" "tunes fn"
  shows "eq_wf (for_all_q eg fn)"
  by (rule eq_wf_retune [OF assms(1)])
    (use assms(2) in \<open>auto simp: for_all_q_def tunes_def option.rel_map option.rel_refl intro!: option.rel_refl\<close>)

lemma eq_wf_default [simp]:
  "eq_wf (eg\<lparr>eq_capacity := c\<rparr>) = eq_wf eg"
  "eq_wf (eg\<lparr>queue_rate_pps := r\<rparr>) = eq_wf eg"
  by (simp_all add: eq_wf_def queue_wf_def worker_wf_def entry_wf_def class_entries_def Let_def)

lemma eq_wf_setters [wf_intros]:
  assumes "eq_wf eg" "seconds_nonneg S"
  shows "eq_wf (set_capacity S eg q c)" "eq_wf (fst (set_capacity_pri S eg q p c))"
    "eq_wf (set_capacity_for_all eg c)" "eq_wf (set_rate S eg q c)"
    "eq_wf (fst (set_rate_pri S eg q p c))" "eq_wf (set_rate_for_all S eg c)"
  using assms
  by (simp_all add: set_capacity_def set_capacity_pri_def set_capacity_for_all_def set_rate_def
      set_rate_pri_def set_rate_for_all_def wf_intros)

subsection \<open>The egress buffer provides the queue interface\<close>

text \<open>
  The classes are pairs of a logical queue and a priority; the environment is the simulator
  and, for a pop, the worker.
\<close>

definition eq_contents :: "'a egress \<Rightarrow> nat \<times> nat \<Rightarrow> 'a list" where
  "eq_contents eg c = (if snd c < nb_priorities eg then map qe_e (class_entries eg (fst c) (snd c)) else [])"

definition eq_push_op :: "sim \<times> nat \<Rightarrow> 'a egress \<Rightarrow> nat \<times> nat \<Rightarrow> 'a \<Rightarrow> 'a egress \<times> bool" where
  "eq_push_op e eg c x = (let (eg', r) = eq_push_front (fst e) eg (fst c) (snd c) x in (eg', r = Inr 1))"

definition eq_pop_op :: "sim \<times> nat \<Rightarrow> 'a egress \<Rightarrow> 'a egress \<times> ((nat \<times> nat) \<times> 'a) option" where
  "eq_pop_op e eg = (case eq_pop_back (fst e) eg (snd e) of
      (eg', Inr (Some (q, p, x))) \<Rightarrow> (eg', Some ((q, p), x))
    | (eg', _) \<Rightarrow> (eg', None))"

definition eq_ready :: "sim \<times> nat \<Rightarrow> 'a egress \<Rightarrow> bool" where
  "eq_ready e eg \<longleftrightarrow> seconds_nonneg (fst e) \<and> counters_ready eg"

lemma eq_contents_get_queue [simp]: "eq_contents (fst (get_queue S eg q)) = eq_contents eg"
  by (simp add: eq_contents_def fun_eq_iff)

lemma eq_push_contents:
  assumes "eq_wf eg" "seconds_nonneg S" "counters_ready eg"
  shows "eq_contents (fst (eq_push_front S eg q p x)) d =
    (if snd (eq_push_front S eg q p x) = Inr 1 \<and> d = (q, p) then eq_contents eg d @ [x]
     else eq_contents eg d)"
proof -
  let ?eg = "fst (get_queue S eg q)" and ?qi = "snd (get_queue S eg q)"
  have wf: "eq_wf ?eg" using assms by (intro wf_intros)
  have qi: "queues_info ?eg q = Some ?qi" by (rule get_queue_snd)
  have c: "counters_ready ?eg" using assms(3) by (simp add: counters_ready_def)
  have "queue_wf ?eg q ?qi" using wf qi by (simp add: eq_wfD)
  then have tp: "last_sent (qi_pri ?qi ! p) \<le> get_next_tp S (qi_pri ?qi ! p)" if "p < nb_priorities ?eg"
    using get_next_tp_ge(2) [of "qi_pri ?qi ! p" S] that by (fastforce simp: queue_wf_def)
  have "eq_contents (enqueued ?eg q p x (get_next_tp S (qi_pri ?qi ! p)) ?qi) d =
      (if d = (q, p) then eq_contents ?eg d @ [x] else eq_contents ?eg d)" if "p < nb_priorities ?eg"
    using class_entries_enqueued [OF wf qi that tp [OF that], of "snd d" x "fst d"] that eq_wfD(1) [OF assms(1)]
    by (cases d) (auto simp: eq_contents_def enqueued_def Let_def)
  then show ?thesis
    using wf qi c by (subst (1 2) eq_push_get) (auto simp: eq_push_present)
qed

lemma eq_pop_outcome:
  assumes "eq_wf eg" "w < length (workers_info eg)"
  obtains (none) "eq_pop_back S eg w = (eg, Inr None)"
      "\<And>p. p < nb_priorities eg \<Longrightarrow> w_queues (workers_info eg ! w) ! p = [] \<or>
              sim_now S < qe_send (hd (w_queues (workers_info eg ! w) ! p))"
  | (some) p e qi where
      "pick_pri (w_queues (workers_info eg ! w)) (sim_now S) (nb_priorities eg) = Some p"
      "e = hd (w_queues (workers_info eg ! w) ! p)"
      "queues_info eg (qe_queue_id e) = Some qi" "p < nb_priorities eg"
      "map_to_worker eg (qe_queue_id e) = w" "qe_send e \<le> sim_now S"
      "class_entries eg (qe_queue_id e) p = e # tl (class_entries eg (qe_queue_id e) p)"
      "eq_pop_back S eg w = (dequeued eg w p qi, Inr (Some (qe_queue_id e, p, qe_e e)))"
proof (cases "pick_pri (w_queues (workers_info eg ! w)) (sim_now S) (nb_priorities eg)")
  case None
  show thesis
    by (rule none) (use None pick_pri_None [THEN iffD1, OF None] assms in \<open>auto simp: eq_pop_present\<close>)
next
  case (Some p)
  let ?e = "hd (w_queues (workers_info eg ! w) ! p)"
  from pick_entry [OF assms Some] obtain qi where
    *: "queues_info eg (qe_queue_id ?e) = Some qi" "p < nb_priorities eg"
      "map_to_worker eg (qe_queue_id ?e) = w" "qe_send ?e \<le> sim_now S"
      "class_entries eg (qe_queue_id ?e) p = ?e # tl (class_entries eg (qe_queue_id ?e) p)"
    by (metis list.sel(3))
  show thesis
    by (rule some [OF Some refl]) (use * Some assms in \<open>auto simp: eq_pop_present Let_def\<close>)
qed

lemma nb_dequeued [simp]: "nb_priorities (dequeued eg w p qi) = nb_priorities eg"
  by (simp add: dequeued_def Let_def)

lemma eq_pop_op_cases:
  assumes "eq_wf eg"
  shows "eq_pop_op (S, w) eg = (eg', r) \<Longrightarrow>
    (case r of None \<Rightarrow> eg' = eg
     | Some ((q, p), x) \<Rightarrow> eq_contents eg d =
         (if d = (q, p) then x # eq_contents eg' (q, p) else eq_contents eg' d))"
proof (cases "w < length (workers_info eg)")
  case False
  then show "eq_pop_op (S, w) eg = (eg', r) \<Longrightarrow> ?thesis"
    by (auto simp: eq_pop_op_def eq_pop_back_def)
next
  case True
  assume r: "eq_pop_op (S, w) eg = (eg', r)"
  show ?thesis
  proof (rule eq_pop_outcome [OF assms True, of S], goal_cases)
    case 1
    with r show ?case by (auto simp: eq_pop_op_def)
  next
    case (2 p e qi)
    note ce = class_entries_dequeued [OF assms True 2(1) 2(3) [unfolded 2(2)], folded 2(2)]
    have l: "nb_priorities eg \<le> 32" using assms by (rule eq_wfD)
    from r 2(8) have "r = Some ((qe_queue_id e, p), qe_e e)" "eg' = dequeued eg w p qi"
      by (auto simp: eq_pop_op_def)
    with 2(4,7) ce [of "fst d" "snd d"] show ?case
      by (cases d) (auto simp: eq_contents_def ce list.map_sel(2) dest: arg_cong [of _ _ "map qe_e"])
  qed
qed

interpretation eqq: class_queues eq_wf eq_ready eq_contents eq_push_op eq_pop_op
proof (unfold_locales, goal_cases)
  case (1 q e c x)
  then show ?case by (auto simp: eq_push_op_def eq_ready_def case_prod_beta intro!: wf_intros)
next
  case (2 q e)
  then show ?case
    using eq_wf_pop_back [of q "fst e" "snd e"]
    by (auto simp: eq_pop_op_def case_prod_beta split: sum.split option.split)
next
  case (3 q e c x d)
  then show ?case by (auto simp: eq_push_op_def eq_ready_def case_prod_beta eq_push_contents split: if_splits)
next
  case (4 q e c x d)
  then show ?case by (auto simp: eq_push_op_def eq_ready_def case_prod_beta eq_push_contents split: if_splits)
next
  case (5 q e c x d)
  then show ?case
    using eq_pop_op_cases [of q "fst e" "snd e" "fst (eq_pop_op e q)" "snd (eq_pop_op e q)" d]
    by (cases c) (simp add: prod_eq_iff split: if_splits)
next
  case (6 q e d)
  then show ?case
    using eq_pop_op_cases [of q "fst e" "snd e" "fst (eq_pop_op e q)" "snd (eq_pop_op e q)" d]
    by (simp add: prod_eq_iff)
qed

end
