(* ===== verification/V1model_Core.thy ===== *)
theory V1model_Core
  imports Core_Common Input_Buffer Egress_Queue
begin

text \<open>
  \<open>P4CoreV1model\<close> (\<open>model/p4-core-v1model.h\<close>, \<open>model/p4-core-v1model.cc\<close>): the v1model switch.
  A packet from a port is converted, stamped and put in the input buffer; the ingress
  pipeline takes one packet out, runs the parser and the ingress program, and then clones,
  learns, resubmits, multicasts, drops or enqueues it; the egress timer takes one packet out of
  the egress buffer, runs the egress program and the deparser, and hands the packet to the net
  device or recirculates it.

  A stopped operation (an exception out of a handler) returns the state it leaves behind.
  Reading a header field that the program does not declare is \<open>std::out_of_range\<close>; the five
  fields that the constructor requires are not tested. Resubmission calls the ingress handler
  again; the model bounds that recursion by an argument \<open>fuel\<close>.
\<close>

subsection \<open>State\<close>

datatype PktInstanceTypeV1model =
    PKT_INSTANCE_TYPE_NORMAL | PKT_INSTANCE_TYPE_INGRESS_CLONE | PKT_INSTANCE_TYPE_EGRESS_CLONE
  | PKT_INSTANCE_TYPE_COALESCED | PKT_INSTANCE_TYPE_RECIRC | PKT_INSTANCE_TYPE_REPLICATION
  | PKT_INSTANCE_TYPE_RESUBMIT

fun instance_code :: "PktInstanceTypeV1model \<Rightarrow> nat" where
  "instance_code PKT_INSTANCE_TYPE_NORMAL = 0"
| "instance_code PKT_INSTANCE_TYPE_INGRESS_CLONE = 1"
| "instance_code PKT_INSTANCE_TYPE_EGRESS_CLONE = 2"
| "instance_code PKT_INSTANCE_TYPE_COALESCED = 3"
| "instance_code PKT_INSTANCE_TYPE_RECIRC = 4"
| "instance_code PKT_INSTANCE_TYPE_REPLICATION = 5"
| "instance_code PKT_INSTANCE_TYPE_RESUBMIT = 6"

definition SSWITCH_VIRTUAL_QUEUE_NUM_V1MODEL :: nat where "SSWITCH_VIRTUAL_QUEUE_NUM_V1MODEL = 8"
definition nbEgressThreads :: nat where "nbEgressThreads = 1"

definition EgressThreadMapper :: "nat \<Rightarrow> nat \<Rightarrow> nat" where
  "EgressThreadMapper nb_threads egress_port = egress_port mod nb_threads"

text \<open>
  The members of the class that its behaviour depends on. (\<open>output_buffer\<close> is only written by
  the destructor, and this class's own \<open>m_packetId\<close> and \<open>m_startTimestamp\<close> are only logged.)
  The statistics counters are used when tracing is enabled.
\<close>

record ('addr, 'w, 'p) v1model = "('addr, 'w) switch_core" +
  switch_rate :: u64
  nb_queues_per_port :: nat
  in_buffer :: "'p input_buffer"
  egress_buffer :: "'p egress"
  first_packet :: bool
  input_bps :: u64
  input_bp :: u64
  input_pps :: u64
  input_pp :: u64
  egress_bps :: u64
  egress_bp :: u64
  egress_pps :: u64
  egress_pp :: u64
  time_interval :: time
  egress_time_ref :: time

subsection \<open>The hash for the P4 programs\<close>

text \<open>\<open>hash_ex_v1model\<close>: a \<open>char\<close> is signed, so a byte is sign-extended before the XOR.\<close>

definition hash_ex_v1model :: "u8 list \<Rightarrow> u32" where
  "hash_ex_v1model buf =
     (let p = 16777619;
          hash = foldl (\<lambda>hash b. (hash XOR scast b) * p) 2166136261 buf;
          hash = hash + push_bit 13 hash;
          hash = hash XOR drop_bit 7 hash;
          hash = hash + push_bit 3 hash;
          hash = hash XOR drop_bit 17 hash;
          hash = hash + push_bit 5 hash
      in hash)"

definition CopyFieldList ::
  "('p, 'b, 'w) bm \<Rightarrow> 'p \<Rightarrow> 'p \<Rightarrow> PktInstanceTypeV1model \<Rightarrow> nat \<Rightarrow> 'p" where
  "CopyFieldList B packet packetCopy copyType fieldListId =
     (let packetCopy = bm_reset_metadata B packetCopy;
          packetCopy = bm_copy_fields B fieldListId packet packetCopy
      in bm_set_field B packetCopy ''standard_metadata.instance_type'' (instance_code copyType))"

subsection \<open>From the ingress to the egress buffer\<close>

definition Enqueue ::
  "('p, 'b, 'w) bm \<Rightarrow> sim \<Rightarrow> ('addr, 'w, 'p) v1model \<Rightarrow> u32 \<Rightarrow> 'p \<Rightarrow> (('addr, 'w, 'p) v1model, unit) outcome" where
  "Enqueue B S c egress_port packet =
     (let packet = bm_set_egress_port B packet egress_port
      in if enable_queueing_metadata c \<and>
            \<not> (bm_has_field B packet ''queueing_metadata.enq_timestamp'' \<and>
               bm_has_field B packet ''queueing_metadata.enq_qdepth'')
         then (c, Inl OutOfRange)
         else
           (let packet =
                  (if enable_queueing_metadata c
                   then bm_set_field B
                          (bm_set_field B packet ''queueing_metadata.enq_timestamp'' (unat (GetTimeStamp S c)))
                          ''queueing_metadata.enq_qdepth'' (eq_size (egress_buffer c) (unat egress_port))
                   else packet);
                priority = pkt_priority B packet
            in if priority \<ge> nb_queues_per_port c then (c, Inr ())
               else
                 (let (eg, r) = eq_push_front S (egress_buffer c) (unat egress_port)
                                  (nb_queues_per_port c - 1 - priority) packet
                  in (c\<lparr>egress_buffer := eg\<rparr>, (case r of Inl e \<Rightarrow> Inl e | Inr _ \<Rightarrow> Inr ())))))"

text \<open>
  \<open>MulticastPacket\<close>: the loop over the group's copies. The packet it is given keeps the
  \<open>egress_rid\<close> of the last copy.
\<close>

fun multicast_loop ::
  "('p, 'b, 'w) bm \<Rightarrow> sim \<Rightarrow> u64 \<Rightarrow> (u32 \<times> nat) list \<Rightarrow> ('addr, 'w, 'p) v1model \<Rightarrow> 'p \<Rightarrow>
   (('addr, 'w, 'p) v1model \<times> 'p, unit) outcome" where
  "multicast_loop B S packet_size [] c packet = ((c, packet), Inr ())"
| "multicast_loop B S packet_size ((egress_port, rid) # outs) c packet =
     (let packet = bm_set_field B packet ''intrinsic_metadata.egress_rid'' rid;
          packet_copy = bm_clone_with_phv B packet;
          packet_copy = clear_all B packet_copy;
          packet_copy = bm_set_register B packet_copy PACKET_LENGTH_REG_IDX packet_size
      in (case Enqueue B S c egress_port packet_copy of
            (c, Inl e) \<Rightarrow> ((c, packet), Inl e)
          | (c, Inr _) \<Rightarrow> multicast_loop B S packet_size outs c packet))"

definition MulticastPacket ::
  "('p, 'b, 'w) bm \<Rightarrow> sim \<Rightarrow> ('addr, 'w, 'p) v1model \<Rightarrow> 'p \<Rightarrow> u32 \<Rightarrow>
   (('addr, 'w, 'p) v1model \<times> 'p, unit) outcome" where
  "MulticastPacket B S c packet mgid =
     (if \<not> bm_has_field B packet ''intrinsic_metadata.egress_rid'' then ((c, packet), Inl OutOfRange)
      else multicast_loop B S (bm_get_register B packet PACKET_LENGTH_REG_IDX)
             (bm_replicate B (world c) mgid) c packet)"

text \<open>What a mirroring session does with a copy: multicast it, then send it to its port.\<close>

definition mirror_copy ::
  "('p, 'b, 'w) bm \<Rightarrow> sim \<Rightarrow> ('addr, 'w, 'p) v1model \<Rightarrow> MirroringSessionConfig \<Rightarrow> 'p \<Rightarrow>
   (('addr, 'w, 'p) v1model, unit) outcome" where
  "mirror_copy B S c config packet_copy =
     (case (if cfg_mgid_valid config then MulticastPacket B S c packet_copy (cfg_mgid config)
            else ((c, packet_copy), Inr ())) of
        ((c, _), Inl e) \<Rightarrow> (c, Inl e)
      | ((c, packet_copy), Inr _) \<Rightarrow>
          (if cfg_egress_port_valid config then Enqueue B S c (cfg_egress_port config) packet_copy
           else (c, Inr ())))"

subsection \<open>Ingress\<close>

text \<open>Parser and ingress program.\<close>

definition ingress_program ::
  "('p, 'b, 'w) bm \<Rightarrow> ('addr, 'w, 'p) v1model \<Rightarrow> 'p \<Rightarrow> ('addr, 'w, 'p) v1model \<times> 'p" where
  "ingress_program B c pkt =
     (let (w, pkt) = bm_parse B ''parser'' (world c) pkt;
          pkt = set_if_present B pkt ''standard_metadata.parser_error'' (bm_error_code B pkt);
          pkt = set_if_present B pkt ''standard_metadata.checksum_error'' (if bm_checksum_error B pkt then 1 else 0);
          (w, pkt) = bm_apply B ''ingress'' w pkt;
          pkt = bm_reset_exit B pkt
      in (c\<lparr>world := w\<rparr>, pkt))"

text \<open>
  Ingress cloning: a copy of the packet as it came in, parsed again, with the fields of the
  field list. The packet goes on with its buffer as the parser left it.
\<close>

definition ingress_clone ::
  "('p, 'b, 'w) bm \<Rightarrow> sim \<Rightarrow> ('addr, 'w, 'p) v1model \<Rightarrow> 'p \<Rightarrow> 'b \<Rightarrow> u32 \<Rightarrow> u64 \<Rightarrow>
   (('addr, 'w, 'p) v1model \<times> 'p, unit) outcome" where
  "ingress_clone B S c pkt packet_in_state ingress_port ingress_packet_size =
     (let clone_mirror_session_id = get_clone_mirror_session_id B pkt;
          clone_field_list = get_clone_field_list B pkt
      in if clone_mirror_session_id = 0 then ((c, pkt), Inr ())
         else
           (let pkt = set_clone_mirror_session_id B pkt 0;
                pkt = set_clone_field_list B pkt 0;
                session = clone_mirror_session_id AND MIRROR_SESSION_ID_MASK
            in case GetMirroringSession c (uint session) of
                 None \<Rightarrow> ((c, pkt), Inr ())
               | Some config \<Rightarrow>
                   (let packet_out_state = bm_save_buffer_state B pkt;
                        pkt = bm_restore_buffer_state B pkt packet_in_state;
                        copy = bm_clone_no_phv B pkt;
                        copy = clear_all B copy;
                        copy = bm_set_register B copy PACKET_LENGTH_REG_IDX ingress_packet_size;
                        copy = bm_set_field B copy ''standard_metadata.ingress_port'' (unat ingress_port);
                        (w, copy) = bm_parse B ''parser'' (world c) copy;
                        copy = CopyFieldList B pkt copy PKT_INSTANCE_TYPE_INGRESS_CLONE (unat clone_field_list)
                    in case mirror_copy B S (c\<lparr>world := w\<rparr>) config copy of
                         (c, Inl e) \<Rightarrow> ((c, pkt), Inl e)
                       | (c, Inr _) \<Rightarrow> ((c, bm_restore_buffer_state B pkt packet_out_state), Inr ()))))"

definition ingress_learn :: "('p, 'b, 'w) bm \<Rightarrow> ('addr, 'w, 'p) v1model \<Rightarrow> 'p \<Rightarrow> u16 \<Rightarrow> ('addr, 'w, 'p) v1model" where
  "ingress_learn B c pkt learn_id =
     (if learn_id > 0 then c\<lparr>world := bm_learn B (unat learn_id) pkt (world c)\<rparr> else c)"

text \<open>The packet to resubmit: the packet as it came in, with the fields of the field list.\<close>

definition resubmit_copy ::
  "('p, 'b, 'w) bm \<Rightarrow> 'p \<Rightarrow> 'b \<Rightarrow> u16 \<Rightarrow> u64 \<Rightarrow> 'p" where
  "resubmit_copy B pkt packet_in_state resubmit_flag ingress_packet_size =
     (let pkt = bm_restore_buffer_state B pkt packet_in_state;
          pkt = set_resubmit_flag B pkt 0;
          copy = bm_clone_no_phv B pkt;
          copy = CopyFieldList B pkt copy PKT_INSTANCE_TYPE_RESUBMIT (unat resubmit_flag);
          copy = clear_all B copy;
          copy = bm_set_register B copy PACKET_LENGTH_REG_IDX ingress_packet_size
      in bm_set_field B copy ''standard_metadata.packet_length'' (unat ingress_packet_size))"

text \<open>What the packet itself does in the end: multicast, drop, or go to its egress port.\<close>

definition ingress_forward ::
  "('p, 'b, 'w) bm \<Rightarrow> sim \<Rightarrow> ('addr, 'w, 'p) v1model \<Rightarrow> 'p \<Rightarrow> u32 \<Rightarrow> u32 \<Rightarrow> (('addr, 'w, 'p) v1model, unit) outcome" where
  "ingress_forward B S c pkt mgid egress_spec =
     (if mgid \<noteq> 0
      then (case MulticastPacket B S c
                   (bm_set_field B pkt ''standard_metadata.instance_type'' (instance_code PKT_INSTANCE_TYPE_REPLICATION))
                   mgid of ((c, _), r) \<Rightarrow> (c, r))
      else if egress_spec = drop_port c then (c, Inr ())
      else Enqueue B S c egress_spec
             (bm_set_field B pkt ''standard_metadata.instance_type'' (instance_code PKT_INSTANCE_TYPE_NORMAL)))"

fun HandleIngressPipeline ::
  "nat \<Rightarrow> ('p, 'b, 'w) bm \<Rightarrow> sim \<Rightarrow> ('addr, 'w, 'p) v1model \<Rightarrow> (('addr, 'w, 'p) v1model, unit) outcome" where
  "HandleIngressPipeline 0 B S c = (c, Inl NoFuel)"
| "HandleIngressPipeline (Suc fuel) B S c =
     (let (ib, popped) = ib_pop_back (in_buffer c);
          c = c\<lparr>in_buffer := ib\<rparr>
      in case popped of
           None \<Rightarrow> (c, Inr ())
         | Some pkt \<Rightarrow>
             (let ingress_port = bm_get_ingress_port B pkt;
                  ingress_packet_size = bm_get_register B pkt PACKET_LENGTH_REG_IDX;
                  packet_in_state = bm_save_buffer_state B pkt;
                  (c, pkt) = ingress_program B c pkt;
                  egress_spec = get_uint B pkt ''standard_metadata.egress_spec'';
                  learn_id = get_lf_field_list B pkt;
                  mgid = (if bm_has_field B pkt ''intrinsic_metadata.mcast_grp''
                          then get_uint B pkt ''intrinsic_metadata.mcast_grp'' else 0)
              in case ingress_clone B S c pkt packet_in_state ingress_port ingress_packet_size of
                   ((c, pkt), Inl e) \<Rightarrow> (c, Inl e)
                 | ((c, pkt), Inr _) \<Rightarrow>
                     (let c = ingress_learn B c pkt learn_id;
                          resubmit_flag = get_resubmit_flag B pkt
                      in if resubmit_flag \<noteq> 0
                         then
                           (let copy = resubmit_copy B pkt packet_in_state resubmit_flag ingress_packet_size;
                                (ib, _) = ib_push_front (in_buffer c) RESUBMIT copy
                            in HandleIngressPipeline fuel B S (c\<lparr>in_buffer := ib\<rparr>))
                         else ingress_forward B S c pkt mgid egress_spec)))"

subsection \<open>Reception\<close>

text \<open>
  The packet that \<open>ReceivePacket\<close> puts in the input buffer: converted, with the ns-3 protocol
  number and the index of the destination address in its registers. (\<open>len\<close> is a C++ \<open>int\<close>;
  packets are shorter than 2^28 bytes, so \<open>len * 8\<close> does not overflow.)
\<close>

definition receive_packet ::
  "('p, 'b, 'w) bm \<Rightarrow> sim \<Rightarrow> ('addr, 'w, 'p) v1model \<Rightarrow> u8 list \<Rightarrow> u32 \<Rightarrow> u16 \<Rightarrow> 'addr \<Rightarrow>
   ('addr, 'w, 'p) v1model \<times> 'p" where
  "receive_packet B S c packetIn inPort protocol destination =
     (let (c, pkt) = ConvertToBmPacket B c packetIn inPort;
          len = bm_data_size B pkt;
          c = (if enable_tracing c
               then c\<lparr>input_pps := input_pps c + 1, input_bps := input_bps c + of_nat (len * 8)\<rparr> else c);
          pkt = bm_set_ingress_port B pkt inPort;
          pkt = bm_reset_metadata B pkt;
          pkt = clear_all B pkt;
          pkt = set_ns_protocol B pkt protocol;
          (c, addr_index) = GetAddressIndex c destination;
          pkt = set_ns_address B pkt (ucast addr_index);
          pkt = bm_set_field B pkt ''standard_metadata.ingress_port'' (unat inPort);
          pkt = bm_set_register B pkt PACKET_LENGTH_REG_IDX (of_nat len);
          pkt = bm_set_field B pkt ''standard_metadata.packet_length'' len;
          pkt = bm_set_field B pkt ''standard_metadata.instance_type'' (instance_code PKT_INSTANCE_TYPE_NORMAL);
          pkt = set_if_present B pkt ''intrinsic_metadata.ingress_global_timestamp'' (unat (GetTimeStamp S c))
      in (c, pkt))"

definition ReceivePacket ::
  "nat \<Rightarrow> ('p, 'b, 'w) bm \<Rightarrow> sim \<Rightarrow> ('addr, 'w, 'p) v1model \<Rightarrow> u8 list \<Rightarrow> u32 \<Rightarrow> u16 \<Rightarrow> 'addr \<Rightarrow>
   (('addr, 'w, 'p) v1model, int) outcome" where
  "ReceivePacket fuel B S c packetIn inPort protocol destination =
     (let (c, pkt) = receive_packet B S c packetIn inPort protocol destination;
          (ib, r) = ib_push_front (in_buffer c) NORMAL pkt;
          c = c\<lparr>in_buffer := ib\<rparr>
      in case r of
           Inl e \<Rightarrow> (c, Inl e)
         | Inr _ \<Rightarrow>
             (case HandleIngressPipeline fuel B S c of
                (c, Inl e) \<Rightarrow> (c, Inl e)
              | (c, Inr _) \<Rightarrow> (c, Inr 0)))"

subsection \<open>Egress\<close>

text \<open>
  The queueing metadata written when a packet leaves the egress buffer. \<open>None\<close>: its priority
  is out of range and it is dropped.
\<close>

definition egress_queueing ::
  "('p, 'b, 'w) bm \<Rightarrow> sim \<Rightarrow> ('addr, 'w, 'p) v1model \<Rightarrow> nat \<Rightarrow> 'p \<Rightarrow> stop + 'p option" where
  "egress_queueing B S c port pkt =
     (if \<not> enable_queueing_metadata c then Inr (Some pkt)
      else if \<not> (bm_has_field B pkt ''queueing_metadata.enq_timestamp'' \<and>
                  bm_has_field B pkt ''queueing_metadata.deq_timedelta'') then Inl OutOfRange
      else
        (let enq_timestamp = get_u64 B pkt ''queueing_metadata.enq_timestamp'';
             pkt = bm_set_field B pkt ''queueing_metadata.deq_timedelta'' (unat (GetTimeStamp S c - enq_timestamp));
             priority = pkt_priority B pkt
         in if priority \<ge> nb_queues_per_port c then Inr None
            else if \<not> bm_has_field B pkt ''queueing_metadata.deq_qdepth'' then Inl OutOfRange
            else
              (let pkt = bm_set_field B pkt ''queueing_metadata.deq_qdepth'' (eq_size (egress_buffer c) port)
               in Inr (Some (set_if_present B pkt ''queueing_metadata.qid'' (nb_queues_per_port c - 1 - priority))))))"

text \<open>Egress cloning: a copy of the packet after the egress program, with fresh metadata.\<close>

definition egress_clone ::
  "('p, 'b, 'w) bm \<Rightarrow> sim \<Rightarrow> ('addr, 'w, 'p) v1model \<Rightarrow> 'p \<Rightarrow> (('addr, 'w, 'p) v1model \<times> 'p, unit) outcome" where
  "egress_clone B S c pkt =
     (let clone_mirror_session_id = get_clone_mirror_session_id B pkt;
          clone_field_list = get_clone_field_list B pkt
      in if clone_mirror_session_id = 0 then ((c, pkt), Inr ())
         else
           (let pkt = set_clone_mirror_session_id B pkt 0;
                pkt = set_clone_field_list B pkt 0;
                session = clone_mirror_session_id AND MIRROR_SESSION_ID_MASK
            in case GetMirroringSession c (uint session) of
                 None \<Rightarrow> ((c, pkt), Inr ())
               | Some config \<Rightarrow>
                   (let copy = bm_clone_with_phv_reset_metadata B pkt;
                        copy = bm_copy_fields B (unat clone_field_list) pkt copy;
                        copy = bm_set_field B copy ''standard_metadata.instance_type''
                                 (instance_code PKT_INSTANCE_TYPE_EGRESS_CLONE);
                        packet_size = bm_get_register B pkt PACKET_LENGTH_REG_IDX;
                        copy = clear_all B copy;
                        copy = bm_set_register B copy PACKET_LENGTH_REG_IDX packet_size
                    in case mirror_copy B S c config copy of
                         (c, r) \<Rightarrow> ((c, pkt), r))))"

text \<open>The packet that recirculation puts in the input buffer.\<close>

definition recirculate_copy :: "('p, 'b, 'w) bm \<Rightarrow> 'p \<Rightarrow> u16 \<Rightarrow> 'p" where
  "recirculate_copy B pkt recirculate_flag =
     (let pkt = set_recirculate_flag B pkt 0;
          copy = bm_clone_no_phv B pkt;
          copy = bm_reset_metadata B copy;
          copy = bm_copy_fields B (unat recirculate_flag) pkt copy;
          copy = bm_set_field B copy ''standard_metadata.instance_type'' (instance_code PKT_INSTANCE_TYPE_RECIRC);
          packet_size = bm_data_size B copy;
          copy = clear_all B copy;
          copy = bm_set_register B copy PACKET_LENGTH_REG_IDX (of_nat packet_size);
          copy = bm_set_field B copy ''standard_metadata.packet_length'' packet_size
      in bm_set_ingress_length B copy (of_nat packet_size))"

text \<open>The hand-over of a finished packet to the net device.\<close>

definition egress_send ::
  "('p, 'b, 'w) bm \<Rightarrow> ('addr, 'w, 'p) v1model \<Rightarrow> nat \<Rightarrow> 'p \<Rightarrow> (('addr, 'w, 'p) v1model, bool) outcome" where
  "egress_send B c port pkt =
     (let protocol = get_ns_protocol B pkt;
          addr_index = unat (get_ns_address B pkt)
      in if length (destination_list c) \<le> addr_index then (c, Inl Undefined)
         else (c\<lparr>sent := sent c @ [\<lparr>send_data = ConvertToNs3Packet B pkt, send_port = port,
                   send_protocol = protocol, send_destination = destination_list c ! addr_index\<rparr>]\<rparr>, Inr True))"

text \<open>The egress program, and what becomes of the packet after it.\<close>

definition egress_finish ::
  "('p, 'b, 'w) bm \<Rightarrow> sim \<Rightarrow> ('addr, 'w, 'p) v1model \<Rightarrow> nat \<Rightarrow> 'p \<Rightarrow> (('addr, 'w, 'p) v1model, bool) outcome" where
  "egress_finish B S c port pkt =
     (let pkt = bm_set_field B pkt ''standard_metadata.egress_port'' port;
          pkt = bm_set_field B pkt ''standard_metadata.egress_spec'' 0;
          pkt = bm_set_field B pkt ''standard_metadata.packet_length''
                  (unat (bm_get_register B pkt PACKET_LENGTH_REG_IDX));
          (w, pkt) = bm_apply B ''egress'' (world c) pkt
      in case egress_clone B S (c\<lparr>world := w\<rparr>) pkt of
           ((c, pkt), Inl e) \<Rightarrow> (c, Inl e)
         | ((c, pkt), Inr _) \<Rightarrow>
             (if get_uint B pkt ''standard_metadata.egress_spec'' = drop_port c then (c, Inr True)
              else
                (let (w, pkt) = bm_deparse B ''deparser'' (world c) pkt;
                     c = c\<lparr>world := w\<rparr>;
                     recirculate_flag = get_recirculate_flag B pkt
                 in if recirculate_flag \<noteq> 0
                    then (let (ib, _) = ib_push_front (in_buffer c) RECIRCULATE (recirculate_copy B pkt recirculate_flag)
                          in (c\<lparr>in_buffer := ib\<rparr>, Inr True))
                    else egress_send B c port pkt)))"

definition HandleEgressPipeline ::
  "('p, 'b, 'w) bm \<Rightarrow> sim \<Rightarrow> ('addr, 'w, 'p) v1model \<Rightarrow> nat \<Rightarrow> (('addr, 'w, 'p) v1model, bool) outcome" where
  "HandleEgressPipeline B S c workerId =
     (if \<forall>i \<in> set [0..<SSWITCH_VIRTUAL_QUEUE_NUM_V1MODEL]. eq_size (egress_buffer c) i = 0
      then (c, Inr False)
      else
        (let (eg, r) = eq_pop_back S (egress_buffer c) workerId;
             c = c\<lparr>egress_buffer := eg\<rparr>
         in case r of
              Inl e \<Rightarrow> (c, Inl e)
            | Inr None \<Rightarrow> (c, Inr False)
            | Inr (Some (port, _, pkt)) \<Rightarrow>
                (let c = (if enable_tracing c
                          then c\<lparr>egress_pps := egress_pps c + 1,
                                 egress_bps := egress_bps c + of_nat (bm_data_size B pkt * 8)\<rparr> else c);
                     pkt = set_if_present B pkt ''intrinsic_metadata.egress_global_timestamp'' (unat (GetTimeStamp S c))
                 in case egress_queueing B S c port pkt of
                      Inl e \<Rightarrow> (c, Inl e)
                    | Inr None \<Rightarrow> (c, Inr True)
                    | Inr (Some pkt) \<Rightarrow> egress_finish B S c port pkt)))"

end
