(* ===== verification/V1model_Timers.thy ===== *)
theory V1model_Timers
  imports V1model_Core
begin

text \<open>
  The rest of \<open>P4CoreV1model\<close>: construction, the start of the switch, the egress timer, the
  statistics timer, and the settings of the egress queues. \<open>Simulator::Schedule\<close> appends to
  \<open>scheduled\<close>.
\<close>

text \<open>
  \<open>1e9 / m_switchRate\<close> is computed in floating point and cut to an integer; for a rate
  below 2^53 this is the integer quotient. A rate of 0 gives an infinite value, whose
  conversion is undefined.
\<close>

definition CalculateScheduleTime :: "sim \<Rightarrow> ('addr, 'w, 'p) v1model \<Rightarrow> (('addr, 'w, 'p) v1model, unit) outcome" where
  "CalculateScheduleTime S c =
     (if switch_rate c = 0 then (c, Inl Undefined)
      else
        (let bottleneck_ns = 1000000000 div unat (switch_rate c)
         in (c\<lparr>egress_buffer := set_rate_for_all S (egress_buffer c) (unat (switch_rate c)),
               egress_time_ref := int bottleneck_ns\<rparr>, Inr ())))"

definition P4CoreV1model ::
  "sim \<Rightarrow> bool \<Rightarrow> u64 \<Rightarrow> nat \<Rightarrow> nat \<Rightarrow> nat \<Rightarrow> nat \<Rightarrow> u64 \<Rightarrow> 'w \<Rightarrow> statics \<Rightarrow>
   (('addr, 'w, 'p) v1model, unit) outcome \<times> statics" where
  "P4CoreV1model S enableTracing packet_rate input_buffer_size_low input_buffer_size_high
     queue_buffer_size nb_queues pid w st =
     (let (base, st) = P4SwitchCore S enableTracing SSWITCH_DROP_PORT pid w st;
          c = switch_core.extend
                (base\<lparr>thrift_command := ''simple_switch_CLI'', enable_queueing_metadata := True\<rparr>)
                (v1model.fields packet_rate nb_queues
                   (InputBuffer input_buffer_size_low input_buffer_size_high)
                   (NSQueueingLogicPriRL nbEgressThreads queue_buffer_size
                      (EgressThreadMapper nbEgressThreads) nb_queues)
                   False 0 0 0 0 0 0 0 0 (sim_seconds S 1) 0)
      in (CalculateScheduleTime S c, st))"

definition start_and_return :: "(string \<Rightarrow> bool) \<Rightarrow> ('addr, 'w, 'p) v1model \<Rightarrow> ('addr, 'w, 'p) v1model" where
  "start_and_return field_exists c =
     (let c = CheckQueueingMetadata field_exists c;
          c = (if egress_time_ref c \<noteq> 0 then schedule (egress_time_ref c) SetEgressTimerEventH c else c)
      in if enable_tracing c then schedule (time_interval c) CalculatePacketsPerSecondH c else c)"

definition v1_swap_notify :: "(string \<Rightarrow> bool) \<Rightarrow> ('addr, 'w, 'p) v1model \<Rightarrow> ('addr, 'w, 'p) v1model" where
  "v1_swap_notify field_exists c = CheckQueueingMetadata field_exists c"

definition v1_reset_target_state :: "('p, 'b, 'w) bm \<Rightarrow> ('addr, 'w, 'p) v1model \<Rightarrow> ('addr, 'w, 'p) v1model" where
  "v1_reset_target_state B c = c\<lparr>world := bm_reset_pre B (world c)\<rparr>"

definition SetEgressTimerEvent ::
  "('p, 'b, 'w) bm \<Rightarrow> sim \<Rightarrow> ('addr, 'w, 'p) v1model \<Rightarrow> (('addr, 'w, 'p) v1model, unit) outcome" where
  "SetEgressTimerEvent B S c =
     (case HandleEgressPipeline B S c 0 of
        (c, Inl e) \<Rightarrow> (c, Inl e)
      | (c, Inr checkflag) \<Rightarrow>
          (let c = schedule (egress_time_ref c) SetEgressTimerEventH c;
               c = (if \<not> first_packet c \<and> checkflag then c\<lparr>first_packet := True\<rparr> else c);
               c = (if first_packet c \<and> \<not> checkflag then schedule 10 (HandleEgressPipelineH 0) c else c)
           in (c, Inr ())))"

text \<open>
  The statistics timer. The numbers of the log it appends to its file are returned as
  labelled values; \<open>None\<close>: the file is not open, and the function returns without resetting
  the counters or scheduling itself again.
\<close>

definition queue_log :: "('addr, 'w, 'p) v1model \<Rightarrow> nat \<Rightarrow> stop + (string \<times> nat) list" where
  "queue_log c port_number =
     foldr (\<lambda>(i, j) acc. case eq_size_pri (egress_buffer c) i j of
                Inl e \<Rightarrow> Inl e
              | Inr n \<Rightarrow> (case acc of Inl e \<Rightarrow> Inl e
                   | Inr l \<Rightarrow> Inr ((''Queue pipeline '' @ to_string i @ '' priority '' @ to_string j @ '' size: '', n) # l)))
       (List.product [0..<port_number] [0..<nb_queues_per_port c]) (Inr [])"

definition CalculatePacketsPerSecond ::
  "bool \<Rightarrow> nat \<Rightarrow> ('addr, 'w, 'p) v1model \<Rightarrow> (('addr, 'w, 'p) v1model, (string \<times> nat) list option) outcome" where
  "CalculatePacketsPerSecond log_open port_number c =
     (let c = c\<lparr>input_bp := input_bp c + input_bps c, input_pp := input_pp c + input_pps c,
                egress_bp := egress_bp c + egress_bp c, egress_pp := egress_pp c + egress_pps c\<rparr>
      in if \<not> log_open then (c, Inr None)
         else
           (let log = [(''P4 switch ID: '', p4_switch_id c),
                       (''Input packets per time interval: '', unat (input_pps c)),
                       (''Input bits per time interval: '', unat (input_bps c)),
                       (''Egress packets per time interval: '', unat (egress_pps c)),
                       (''Egress bits per time interval: '', unat (egress_bps c)),
                       (''Total input packets: '', unat (input_pp c)),
                       (''Total input bits: '', unat (input_bp c)),
                       (''Total egress packets: '', unat (egress_pp c)),
                       (''Total egress bits: '', unat (egress_bp c))];
                c = c\<lparr>input_pps := 0, input_bps := 0, egress_pps := 0, egress_bps := 0\<rparr>;
                log = log @ [(''Input buffer size: '', ib_get_size (in_buffer c))] @
                  map (\<lambda>i. (''[TEST] Queue buffer for ports '' @ to_string i @ '' size: '',
                             eq_size (egress_buffer c) i)) [0..<port_number]
            in case queue_log c port_number of
                 Inl e \<Rightarrow> (c, Inl e)
               | Inr l \<Rightarrow> (schedule (time_interval c) CalculatePacketsPerSecondH c, Inr (Some (log @ l)))))"

subsection \<open>Egress queue settings\<close>

definition SetEgressPriorityQueueDepth ::
  "sim \<Rightarrow> ('addr, 'w, 'p) v1model \<Rightarrow> nat \<Rightarrow> nat \<Rightarrow> nat \<Rightarrow> (('addr, 'w, 'p) v1model, int) outcome" where
  "SetEgressPriorityQueueDepth S c port priority depth_pkts =
     (let (eg, r) = set_capacity_pri S (egress_buffer c) port priority depth_pkts
      in (c\<lparr>egress_buffer := eg\<rparr>, (case r of Inl e \<Rightarrow> Inl e | Inr _ \<Rightarrow> Inr 0)))"

definition SetEgressQueueDepth ::
  "sim \<Rightarrow> ('addr, 'w, 'p) v1model \<Rightarrow> nat \<Rightarrow> nat \<Rightarrow> ('addr, 'w, 'p) v1model \<times> int" where
  "SetEgressQueueDepth S c port depth_pkts =
     (c\<lparr>egress_buffer := set_capacity S (egress_buffer c) port depth_pkts\<rparr>, 0)"

definition SetAllEgressQueueDepths :: "('addr, 'w, 'p) v1model \<Rightarrow> nat \<Rightarrow> ('addr, 'w, 'p) v1model \<times> int" where
  "SetAllEgressQueueDepths c depth_pkts =
     (c\<lparr>egress_buffer := set_capacity_for_all (egress_buffer c) depth_pkts\<rparr>, 0)"

definition SetEgressPriorityQueueRate ::
  "sim \<Rightarrow> ('addr, 'w, 'p) v1model \<Rightarrow> nat \<Rightarrow> nat \<Rightarrow> u64 \<Rightarrow> (('addr, 'w, 'p) v1model, int) outcome" where
  "SetEgressPriorityQueueRate S c port priority rate_pps =
     (let (eg, r) = set_rate_pri S (egress_buffer c) port priority (unat rate_pps)
      in (c\<lparr>egress_buffer := eg\<rparr>, (case r of Inl e \<Rightarrow> Inl e | Inr _ \<Rightarrow> Inr 0)))"

definition SetEgressQueueRate ::
  "sim \<Rightarrow> ('addr, 'w, 'p) v1model \<Rightarrow> nat \<Rightarrow> u64 \<Rightarrow> ('addr, 'w, 'p) v1model \<times> int" where
  "SetEgressQueueRate S c port rate_pps =
     (c\<lparr>egress_buffer := set_rate S (egress_buffer c) port (unat rate_pps)\<rparr>, 0)"

definition SetAllEgressQueueRates ::
  "sim \<Rightarrow> ('addr, 'w, 'p) v1model \<Rightarrow> u64 \<Rightarrow> ('addr, 'w, 'p) v1model \<times> int" where
  "SetAllEgressQueueRates S c rate_pps =
     (c\<lparr>egress_buffer := set_rate_for_all S (egress_buffer c) (unat rate_pps)\<rparr>, 0)"

end
