(* ===== verification/Egress_Properties.thy ===== *)
theory Egress_Properties
  imports Egress_Queue
begin

text \<open>
  Runs of the egress buffer (\<open>NSQueueingLogicPriRL\<close> in \<open>utils/p4-queue.h\<close>): the pacing
  invariant behind the rate limit, the states a buffer can reach, and the properties of the
  buffer: exact occupancies, order within a class, the rate limit, strict priority, admission.
\<close>

subsection \<open>Rate limiting\<close>

definition pri_info :: "'a egress \<Rightarrow> nat \<Rightarrow> nat \<Rightarrow> QueueInfoPri option" where
  "pri_info eg q p = map_option (\<lambda>qi. qi_pri qi ! p) (queues_info eg q)"

text \<open>
  After \<open>n\<close> departures from class \<open>(q, p)\<close> since its last stamp was \<open>T0\<close>: the \<open>i\<close>-th waiting
  entry may leave no earlier than \<open>n + i + 1\<close> spacings after \<open>T0\<close>.
\<close>

definition paced :: "'a egress \<Rightarrow> nat \<Rightarrow> nat \<Rightarrow> time \<Rightarrow> time \<Rightarrow> nat \<Rightarrow> bool" where
  "paced eg q p T0 D n \<longleftrightarrow>
     (\<exists>i. pri_info eg q p = Some i \<and> pkt_delay_time i = D \<and>
        T0 + int (n + length (class_entries eg q p)) * D \<le> last_sent i) \<and>
     (\<forall>k < length (class_entries eg q p).
        T0 + int (n + k + 1) * D \<le> qe_send (class_entries eg q p ! k))"

lemma pri_info_push:
  assumes "eq_wf eg" "seconds_nonneg S" "counters_ready eg" "pri_info eg q p = Some i"
    "p < nb_priorities eg"
  shows "pri_info (fst (eq_push_front S eg q' p' x)) q p =
    Some (if (q', p') = (q, p) \<and> qip_size i < qip_capacity i
          then i\<lparr>last_sent := get_next_tp S i, qip_size := qip_size i + 1\<rparr> else i)"
    and "class_entries (fst (eq_push_front S eg q' p' x)) q p =
    (if (q', p') = (q, p) \<and> qip_size i < qip_capacity i
     then class_entries eg q p @ [\<lparr>qe_e = x, qe_queue_id = q, qe_send = get_next_tp S i,
            qe_id = wrapping_counter (workers_info eg ! map_to_worker eg q)\<rparr>]
     else class_entries eg q p)"
proof -
  let ?eg = "fst (get_queue S eg q')" and ?qi = "snd (get_queue S eg q')"
  have wf: "eq_wf ?eg" using assms by (intro wf_intros)
  have qi: "queues_info ?eg q' = Some ?qi" by (rule get_queue_snd)
  have c: "counters_ready ?eg" using assms(3) by (simp add: counters_ready_def)
  have "queue_wf ?eg q' ?qi" using wf qi by (simp add: eq_wfD)
  then have l: "length (qi_pri ?qi) = nb_priorities eg"
    and "\<And>p'. p' < nb_priorities eg \<Longrightarrow> 0 \<le> pkt_delay_time (qi_pri ?qi ! p')" by (simp_all add: queue_wf_def)
  then have tp: "last_sent (qi_pri ?qi ! p') \<le> get_next_tp S (qi_pri ?qi ! p')" if "p' < nb_priorities eg" for p'
    using get_next_tp_ge(2) [of "qi_pri ?qi ! p'" S] that by fastforce
  have i: "qi_pri ?qi ! p = i" if "q' = q"
    using that assms(4) by (auto simp: pri_info_def get_queue_def)
  have pg: "pri_info ?eg q p = Some i"
    using assms(4) get_queue_other(2) [of eg q S q'] by (auto simp: pri_info_def)
  have p32: "p < 32" using assms(5) eq_wfD(1) [OF assms(1)] by simp
  have full: "(qip_capacity (qi_pri ?qi ! p') \<le> qip_size (qi_pri ?qi ! p')) =
      (\<not> qip_size i < qip_capacity i)" if "q' = q" "p' = p"
    using i that by auto
  show "pri_info (fst (eq_push_front S eg q' p' x)) q p =
    Some (if (q', p') = (q, p) \<and> qip_size i < qip_capacity i
          then i\<lparr>last_sent := get_next_tp S i, qip_size := qip_size i + 1\<rparr> else i)"
    using pg l assms(5) i qi full
    unfolding eq_push_get [of S eg q' p' x] eq_push_present [OF wf qi c, of S p' x] prod.inject
    by (cases "q' = q"; cases "p' = p") (auto simp: pri_info_def enqueued_def Let_def)
  have "class_entries (enqueued ?eg q' p' x tp' ?qi) q p =
      (if q = q' \<and> p = p' then class_entries ?eg q' p' @ [\<lparr>qe_e = x, qe_queue_id = q', qe_send = tp',
            qe_id = wrapping_counter (workers_info ?eg ! map_to_worker ?eg q')\<rparr>]
       else class_entries ?eg q p)" if "p' < nb_priorities eg" "tp' = get_next_tp S (qi_pri ?qi ! p')" for tp'
    using that tp [OF that(1)] by (intro class_entries_enqueued [OF wf qi _ _ p32]) simp_all
  then show "class_entries (fst (eq_push_front S eg q' p' x)) q p =
    (if (q', p') = (q, p) \<and> qip_size i < qip_capacity i
     then class_entries eg q p @ [\<lparr>qe_e = x, qe_queue_id = q, qe_send = get_next_tp S i,
            qe_id = wrapping_counter (workers_info eg ! map_to_worker eg q)\<rparr>]
     else class_entries eg q p)"
    using assms(5) i full
    unfolding eq_push_get [of S eg q' p' x] eq_push_present [OF wf qi c, of S p' x] prod.inject
    by (cases "q' = q"; cases "p' = p") auto
qed

lemma pri_info_dequeued:
  "queues_info eg (qe_queue_id (hd (w_queues (workers_info eg ! w) ! p'))) = Some qi \<Longrightarrow>
   pri_info eg q p = Some i \<Longrightarrow>
   \<exists>n. pri_info (dequeued eg w p' qi) q p = Some (i\<lparr>qip_size := n\<rparr>)"
  by (cases "p' = p"; cases "p < length (qi_pri qi)")
    (auto simp: pri_info_def dequeued_def Let_def nth_list_update list_update_beyond intro: exI [of _ "qip_size i"])

lemma paced_push:
  assumes "eq_wf eg" "seconds_nonneg S" "counters_ready eg" "p < nb_priorities eg" "paced eg q p T0 D n"
  shows "paced (fst (eq_push_front S eg q' p' x)) q p T0 D n"
proof -
  from assms(5) obtain i where i: "pri_info eg q p = Some i" "pkt_delay_time i = D"
    "T0 + int (n + length (class_entries eg q p)) * D \<le> last_sent i" by (auto simp: paced_def)
  have "T0 + (int n + (1 + int (length (class_entries eg q p)))) * D \<le> get_next_tp S i"
    using get_next_tp_ge(2) [of i S] i by (simp add: algebra_simps)
  moreover have "1 + (int n + int (length (class_entries eg q p))) = int n + (1 + int (length (class_entries eg q p)))"
    by simp
  ultimately have "T0 + (int n + (1 + int (length (class_entries eg q p)))) * D \<le> get_next_tp S i \<and>
    T0 + (1 + (int n + int (length (class_entries eg q p)))) * D \<le> get_next_tp S i" by metis
  with assms(5) i show ?thesis
    unfolding paced_def pri_info_push [OF assms(1-3) i(1) assms(4)]
    by (auto simp: nth_append less_Suc_eq)
qed

lemma paced_pop:
  assumes "eq_wf eg" "p < nb_priorities eg" "paced eg q p T0 D n" "eq_pop_op (S, w) eg = (eg', r)"
  shows "case r of Some ((q', p'), x) \<Rightarrow>
           if (q', p') = (q, p) then paced eg' q p T0 D (n + 1) \<and> T0 + int (n + 1) * D \<le> sim_now S
           else paced eg' q p T0 D n
         | None \<Rightarrow> paced eg' q p T0 D n"
proof (cases "w < length (workers_info eg)")
  case False
  with assms show ?thesis by (auto simp: eq_pop_op_def eq_pop_back_def)
next
  case True
  show ?thesis
  proof (rule eq_pop_outcome [OF assms(1) True, of S], goal_cases)
    case 1
    with assms show ?case by (auto simp: eq_pop_op_def)
  next
    case (2 p' e qi)
    from assms(3) obtain i where i: "pri_info eg q p = Some i" "pkt_delay_time i = D"
      "T0 + int (n + length (class_entries eg q p)) * D \<le> last_sent i" by (auto simp: paced_def)
    note ce = class_entries_dequeued [OF assms(1) True 2(1) 2(3) [unfolded 2(2)], folded 2(2)]
    obtain m where m: "pri_info (dequeued eg w p' qi) q p = Some (i\<lparr>qip_size := m\<rparr>)"
      using pri_info_dequeued [OF 2(3) [unfolded 2(2)] i(1)] by blast
    have r: "r = Some ((qe_queue_id e, p'), qe_e e)" "eg' = dequeued eg w p' qi"
      using 2(8) assms(4) by (auto simp: eq_pop_op_def)
    show ?case
    proof (cases "(qe_queue_id e, p') = (q, p)")
      case True
      with 2(7) obtain es where c: "class_entries eg q p = e # es" by blast
      have "T0 + int (n + 1) * D \<le> qe_send e"
        using assms(3) c by (auto simp: paced_def dest: spec [of _ "0::nat"])
      moreover have "paced eg' q p T0 D (n + 1)"
        unfolding paced_def
      proof (intro conjI exI allI impI)
        show "pri_info eg' q p = Some (i\<lparr>qip_size := m\<rparr>)" using m r by simp
        show "T0 + int (n + 1 + length (class_entries eg' q p)) * D \<le> last_sent (i\<lparr>qip_size := m\<rparr>)"
          using i(3) True c ce [of q p] by (simp add: r(2) add.commute)
        fix k assume "k < length (class_entries eg' q p)"
        then have "Suc k < length (class_entries eg q p)" "class_entries eg' q p ! k = class_entries eg q p ! Suc k"
          using True c ce [of q p] by (auto simp: r(2))
        with assms(3) show "T0 + int (n + 1 + k + 1) * D \<le> qe_send (class_entries eg' q p ! k)"
          by (auto simp: paced_def dest: spec [of _ "Suc k"])
      qed (simp add: i)
      ultimately show ?thesis using True 2(6) by (simp add: r)
    next
      case False
      then have "class_entries eg' q p = class_entries eg q p" by (auto simp: r ce)
      with False assms(3) i m show ?thesis by (auto simp: r paced_def)
    qed
  qed
qed

subsection \<open>Runs of the egress buffer\<close>

fun op_env :: "('e, 'c, 'a) queue_op \<Rightarrow> 'e" where
  "op_env (PushOp e c x) = e"
| "op_env (PopOp e) = e"

definition counters_le :: "nat \<Rightarrow> 'a egress \<Rightarrow> bool" where
  "counters_le n eg \<longleftrightarrow> (\<forall>w < length (workers_info eg). wrapping_counter (workers_info eg ! w) \<le> n)"

lemma counters_le_push: "counters_le n eg \<Longrightarrow> counters_le (Suc n) (fst (eq_push_front S eg q p x))"
proof -
  assume "counters_le n eg"
  then have c: "\<And>w. w < length (workers_info eg) \<Longrightarrow> wrapping_counter (workers_info eg ! w) \<le> Suc n"
    "\<And>w. w < length (workers_info eg) \<Longrightarrow> Suc (wrapping_counter (workers_info eg ! w)) mod 2 ^ 64 \<le> Suc n"
    by (auto simp: counters_le_def le_Suc_eq intro: order_trans [OF mod_less_eq_dividend])
  have g: "workers_info (fst (get_queue S eg q)) = workers_info eg"
    "map_to_worker (fst (get_queue S eg q)) = map_to_worker eg" by simp_all
  obtain eg1 qi where e: "get_queue S eg q = (eg1, qi)" by fastforce
  with g have "workers_info eg1 = workers_info eg" by simp
  with c e show ?thesis
    by (auto simp: eq_push_front_def counters_le_def Let_def nth_list_update simp del: get_queue_same)
qed

lemma counters_le_pop: "counters_le n eg \<Longrightarrow> counters_le n (fst (eq_pop_back S eg w))"
  by (auto simp: eq_pop_back_def counters_le_def Let_def nth_list_update split: option.split)

lemma ready_run_bounded:
  "counters_le n eg \<Longrightarrow> n + length ops < 2 ^ 64 \<Longrightarrow> \<forall>op \<in> set ops. seconds_nonneg (fst (op_env op)) \<Longrightarrow>
   ready_run eq_ready eq_push_op eq_pop_op eg ops"
proof (induction ops arbitrary: eg n)
  case Nil
  then show ?case by simp
next
  case (Cons op ops)
  show ?case
  proof (cases op)
    case (PushOp e c x)
    have "counters_ready eg" using Cons.prems(1,2)
      by (force simp: counters_ready_def counters_le_def)
    moreover have "counters_le (Suc n) (fst (eq_push_op e eg c x))"
      using Cons.prems(1) by (simp add: eq_push_op_def case_prod_beta counters_le_push)
    with Cons PushOp have "ready_run eq_ready eq_push_op eq_pop_op (fst (eq_push_op e eg c x)) ops"
      by (intro Cons.IH [of "Suc n"]) auto
    ultimately show ?thesis using PushOp Cons.prems(3) by (simp add: eq_ready_def [of e eg])
  next
    case (PopOp e)
    have "fst (eq_pop_op e eg) = fst (eq_pop_back (fst e) eg (snd e))"
      by (auto simp: eq_pop_op_def case_prod_beta split: sum.split option.split)
    then have "counters_le n (fst (eq_pop_op e eg))"
      using Cons.prems(1) by (simp add: counters_le_pop)
    with Cons PopOp show ?thesis by simp
  qed
qed

lemma counters_le_new: "counters_le 0 (NSQueueingLogicPriRL nw cap mapper np)"
  by (simp add: counters_le_def NSQueueingLogicPriRL_def)

lemma eq_contents_new [simp]:
  assumes "\<And>q. mapper q < nw" "np \<le> 32"
  shows "eq_contents (NSQueueingLogicPriRL nw cap mapper np) c = []"
  using assms by (auto simp: eq_contents_def class_entries_def NSQueueingLogicPriRL_def)

lemma nb_push [simp]: "nb_priorities (fst (eq_push_front S eg q p x)) = nb_priorities eg"
proof -
  obtain eg1 qi where e: "get_queue S eg q = (eg1, qi)" by fastforce
  with get_queue_same(3) [of S eg q] have "nb_priorities eg1 = nb_priorities eg" by simp
  with e show ?thesis by (simp add: eq_push_front_def Let_def)
qed

lemma nb_pop [simp]: "nb_priorities (fst (eq_pop_back S eg w)) = nb_priorities eg"
  by (simp add: eq_pop_back_def Let_def split: option.split)

lemma fst_eq_pop_op: "fst (eq_pop_op e eg) = fst (eq_pop_back (fst e) eg (snd e))"
  by (simp add: eq_pop_op_def case_prod_beta split: sum.split option.split)

lemma paced_run:
  "eq_wf eg \<Longrightarrow> ready_run eq_ready eq_push_op eq_pop_op eg ops \<Longrightarrow> p < nb_priorities eg \<Longrightarrow>
   paced eg q p T0 D n \<Longrightarrow> \<forall>op \<in> set ops. sim_now (fst (op_env op)) \<le> T \<Longrightarrow> T0 + int n * D \<le> T \<Longrightarrow>
   run_queue eq_push_op eq_pop_op eg ops = (eg', ins, outs) \<Longrightarrow>
   T0 + int (n + length (of_class (q, p) outs)) * D \<le> T"
proof (induction ops arbitrary: eg n eg' ins outs)
  case Nil
  then show ?case by simp
next
  case (Cons op ops)
  show ?case
  proof (cases op)
    case (PushOp e c x)
    obtain eg2 ins2 outs2 where r: "run_queue eq_push_op eq_pop_op (fst (eq_push_op e eg c x)) ops = (eg2, ins2, outs2)"
      by (metis prod_cases3)
    have e: "seconds_nonneg (fst e)" "counters_ready eg" using Cons.prems(2) PushOp by (auto simp: eq_ready_def)
    have f: "fst (eq_push_op e eg c x) = fst (eq_push_front (fst e) eg (fst c) (snd c) x)"
      by (simp add: eq_push_op_def case_prod_beta)
    have "T0 + int (n + length (of_class (q, p) outs2)) * D \<le> T"
      using Cons.prems e PushOp
      by (intro Cons.IH [OF _ _ _ _ _ _ r]) (auto simp: f intro: wf_intros paced_push)
    with Cons.prems r PushOp show ?thesis by (simp add: case_prod_beta Let_def)
  next
    case (PopOp e)
    obtain eg1 res where po: "eq_pop_op e eg = (eg1, res)" by fastforce
    obtain eg2 ins2 outs2 where r: "run_queue eq_push_op eq_pop_op eg1 ops = (eg2, ins2, outs2)"
      by (metis prod_cases3)
    define m where "m = (case res of None \<Rightarrow> n | Some cx \<Rightarrow> if fst cx = (q, p) then n + 1 else n)"
    have t: "sim_now (fst e) \<le> T" using Cons.prems(5) PopOp by simp
    have "paced eg1 q p T0 D m \<and> T0 + int m * D \<le> T"
      using paced_pop [OF Cons.prems(1,3,4), of "fst e" "snd e" eg1 res] po t Cons.prems(6)
      by (auto simp: m_def split: option.splits if_splits)
    moreover have "eq_wf eg1" "nb_priorities eg1 = nb_priorities eg"
      using po fst_eq_pop_op [of e eg] Cons.prems(1) by (auto intro: wf_intros)
    ultimately have "T0 + int (m + length (of_class (q, p) outs2)) * D \<le> T"
      using Cons.prems PopOp po by (intro Cons.IH [OF _ _ _ _ _ _ r]) auto
    with Cons.prems r PopOp po show ?thesis
      by (auto simp: m_def case_prod_beta Let_def of_class_def algebra_simps split: option.splits if_splits)
  qed
qed

subsection \<open>Reachable states and the properties of the egress buffer\<close>

text \<open>Every history of pushes, pops and reconfigurations of a buffer.\<close>

inductive eq_reach :: "'a egress \<Rightarrow> bool" where
  new: "np \<le> 32 \<Longrightarrow> (\<And>q. mapper q < nw) \<Longrightarrow> eq_reach (NSQueueingLogicPriRL nw cap mapper np)"
| push: "eq_reach eg \<Longrightarrow> seconds_nonneg S \<Longrightarrow> counters_ready eg \<Longrightarrow> eq_reach (fst (eq_push_front S eg q p x))"
| pop: "eq_reach eg \<Longrightarrow> eq_reach (fst (eq_pop_back S eg w))"
| set_capacity: "eq_reach eg \<Longrightarrow> seconds_nonneg S \<Longrightarrow> eq_reach (set_capacity S eg q c)"
| set_capacity_pri: "eq_reach eg \<Longrightarrow> seconds_nonneg S \<Longrightarrow> eq_reach (fst (set_capacity_pri S eg q p c))"
| set_capacity_for_all: "eq_reach eg \<Longrightarrow> eq_reach (set_capacity_for_all eg c)"
| set_rate: "eq_reach eg \<Longrightarrow> seconds_nonneg S \<Longrightarrow> eq_reach (set_rate S eg q r)"
| set_rate_pri: "eq_reach eg \<Longrightarrow> seconds_nonneg S \<Longrightarrow> eq_reach (fst (set_rate_pri S eg q p r))"
| set_rate_for_all: "eq_reach eg \<Longrightarrow> seconds_nonneg S \<Longrightarrow> eq_reach (set_rate_for_all S eg r)"

lemma eq_wf_set_capacity_for_all: "eq_wf eg \<Longrightarrow> eq_wf (set_capacity_for_all eg c)"
  by (simp add: set_capacity_for_all_def wf_intros)

lemma eq_reach_wf: "eq_reach eg \<Longrightarrow> eq_wf eg"
  by (induction rule: eq_reach.induct)
    (auto intro: wf_intros eq_wf_new eq_wf_set_capacity_for_all)

lemma sum_list_nth_upt: "sum_list (map f xs) = (\<Sum>p < length xs. f (xs ! p))"
  by (simp add: sum_list_sum_nth atLeast0LessThan)

lemma class_entries_unripe:
  assumes "worker_wf eg w" "p < 32" "map_to_worker eg q = w"
    and "w_queues (workers_info eg ! w) ! p = [] \<or> now < qe_send (hd (w_queues (workers_info eg ! w) ! p))"
    and "e \<in> set (class_entries eg q p)"
  shows "now < qe_send e"
proof -
  have "e \<in> set (w_queues (workers_info eg ! w) ! p)"
    using assms(3,5) by (auto simp: class_entries_def)
  moreover from this have "qe_send (hd (w_queues (workers_info eg ! w) ! p)) \<le> qe_send e"
    using worker_wfD(3) [OF assms(1,2)] by (rule sorted_hd_least [rotated])
  ultimately show ?thesis using assms(4) by fastforce
qed

text \<open>A simulator clock for the witnesses: nanoseconds, with \<open>Seconds\<close> rounding down.\<close>

definition example_sim :: "time \<Rightarrow> sim" where
  "example_sim t = \<lparr>sim_now = t, sim_seconds = (\<lambda>r. \<lfloor>r * 1000000000\<rfloor>)\<rparr>"

lemma example_sim_nonneg [simp]: "seconds_nonneg (example_sim t)"
  by (simp add: seconds_nonneg_def example_sim_def)

lemma example_sim_now [simp]: "sim_now (example_sim t) = t"
  by (simp add: example_sim_def)

definition example_egress :: "nat egress" where
  "example_egress = NSQueueingLogicPriRL 2 3 (\<lambda>q. q mod 2) 2"

lemma eq_reach_example: "eq_reach example_egress"
  unfolding example_egress_def by (rule eq_reach.new) auto

lemma counters_ready_example: "counters_ready example_egress"
  by (simp add: counters_ready_def example_egress_def NSQueueingLogicPriRL_def)

lemma eq_size_exact:
  assumes "eq_wf eg"
  shows "eq_size eg q = (\<Sum>p < nb_priorities eg. length (class_entries eg q p))"
proof (cases "queues_info eg q")
  case None
  with assms show ?thesis
    by (auto simp: eq_size_def class_entries_absent eq_wfD(1) less_le_trans)
next
  case (Some qi)
  with assms have "queue_wf eg q qi" by (simp add: eq_wfD)
  with Some show ?thesis by (simp add: eq_size_def queue_wf_def sum_list_nth_upt)
qed

lemma eq_size_pri_exact:
  assumes "eq_wf eg" "p < nb_priorities eg"
  shows "eq_size_pri eg q p = Inr (length (class_entries eg q p))"
proof (cases "queues_info eg q")
  case None
  with assms show ?thesis
    by (auto simp: eq_size_pri_def class_entries_absent eq_wfD(1) less_le_trans)
next
  case (Some qi)
  with assms have "queue_wf eg q qi" by (simp add: eq_wfD)
  with Some assms(2) show ?thesis by (simp add: eq_size_pri_def queue_wf_def)
qed

text \<open>C15. In every state the egress buffer can reach, the size kept for a logical queue is the
  number of packets the workers hold for it, and the size kept for a priority is the number
  held in that priority: \<open>push_front\<close>, \<open>pop_back\<close> and every reconfiguration keep the counters
  exact.\<close>

theorem egress_occupancy_exact:
  assumes "eq_reach eg" "p < nb_priorities eg"
  shows "eq_size eg q = (\<Sum>p < nb_priorities eg. length (class_entries eg q p)) \<and>
         eq_size_pri eg q p = Inr (length (class_entries eg q p))"
  using eq_size_exact eq_size_pri_exact eq_reach_wf [OF assms(1)] assms(2) by blast

theorem egress_occupancy_exact_witness:
  "let eg = fst (eq_push_front (example_sim 5) example_egress 1 0 77) in
   eq_size eg 1 = (\<Sum>p < 2. length (class_entries eg 1 p)) \<and>
   eq_size_pri eg 1 0 = Inr (length (class_entries eg 1 0))"
proof -
  have "eq_reach (fst (eq_push_front (example_sim 5) example_egress 1 0 77))"
    by (intro eq_reach.push eq_reach_example counters_ready_example example_sim_nonneg)
  moreover have "nb_priorities (fst (eq_push_front (example_sim 5) example_egress 1 0 77)) = 2"
    by (simp add: example_egress_def NSQueueingLogicPriRL_def)
  ultimately show ?thesis
    using egress_occupancy_exact [of "fst (eq_push_front (example_sim 5) example_egress 1 0 77)" 0 1]
    unfolding Let_def by simp
qed

text \<open>C10. Whatever sequence of pushes and pops is applied to a fresh egress buffer, at whatever
  times and by whatever workers: for every queue and priority, the packets that were accepted
  are those that came out, in the same order, followed by those that still wait. Nothing is
  lost, duplicated or overtaken within its class.\<close>

theorem egress_fifo_run:
  assumes "np \<le> 32" "\<And>q. mapper q < nw" "length ops < 2 ^ 64"
    and "\<forall>op \<in> set ops. seconds_nonneg (fst (op_env op))"
    and "run_queue eq_push_op eq_pop_op (NSQueueingLogicPriRL nw cap mapper np) ops = (eg', ins, outs)"
  shows "of_class c ins = of_class c outs @ eq_contents eg' c"
proof -
  have "ready_run eq_ready eq_push_op eq_pop_op (NSQueueingLogicPriRL nw cap mapper np) ops"
    using assms(3,4) by (intro ready_run_bounded [OF counters_le_new]) simp_all
  from eqq.run_fifo [OF eq_wf_new [OF assms(1,2)] this assms(5), of c] assms(1,2)
  show ?thesis by simp
qed

theorem egress_fifo_run_witness:
  "\<exists>eg' ins outs.
     run_queue eq_push_op eq_pop_op (NSQueueingLogicPriRL 2 3 (\<lambda>q. q mod 2) 2)
       [PushOp (example_sim 0, 0) (1, 0) (7 :: nat), PopOp (example_sim 9000000, 1)] = (eg', ins, outs) \<and>
     of_class (1, 0) ins = of_class (1, 0) outs @ eq_contents eg' (1, 0)"
proof -
  obtain eg' ins outs where
    r: "run_queue eq_push_op eq_pop_op (NSQueueingLogicPriRL 2 3 (\<lambda>q. q mod 2) 2)
       [PushOp (example_sim 0, 0) (1, 0) (7 :: nat), PopOp (example_sim 9000000, 1)] = (eg', ins, outs)"
    by (metis prod_cases3)
  from egress_fifo_run [OF _ _ _ _ r, of "(1, 0)"] r show ?thesis by auto
qed

text \<open>C12. The rate limit, counted from an empty class: when a class of a buffer in a reachable state holds no packet, its last packet was
  stamped for \<open>last_sent i\<close> and from there on the buffer is only pushed to and popped from, then by any time \<open>T\<close>
  at most \<open>(T - last_sent i) / pkt_delay_time i\<close> packets of the class have left, however many were pushed and whatever the other
  classes hold. It bounds the total since the class was empty and not every stretch of time: packets that are overdue may leave
  in a burst. The delay is the one that \<open>rate_to_time\<close> gives, which for the rate 0 is 1 ms.\<close>

theorem egress_rate_limit:
  assumes "eq_reach eg" "counters_le n eg" "n + length ops < 2 ^ 64" "p < nb_priorities eg"
    and "\<forall>op \<in> set ops. seconds_nonneg (fst (op_env op)) \<and> sim_now (fst (op_env op)) \<le> T"
    and "queues_info eg q = Some qi" "eq_size_pri eg q p = Inr 0" "last_sent (qi_pri qi ! p) \<le> T"
    and "run_queue eq_push_op eq_pop_op eg ops = (eg', ins, outs)"
  shows "int (length (of_class (q, p) outs)) * pkt_delay_time (qi_pri qi ! p) \<le> T - last_sent (qi_pri qi ! p)"
proof -
  have wf: "eq_wf eg" using assms(1) by (rule eq_reach_wf)
  have "class_entries eg q p = []" using eq_size_pri_exact [OF wf assms(4), of q] assms(7) by simp
  then have "paced eg q p (last_sent (qi_pri qi ! p)) (pkt_delay_time (qi_pri qi ! p)) 0"
    using assms(6) by (simp add: paced_def pri_info_def)
  moreover have "ready_run eq_ready eq_push_op eq_pop_op eg ops"
    using assms(2,3,5) by (intro ready_run_bounded) auto
  ultimately have "last_sent (qi_pri qi ! p) +
      int (0 + length (of_class (q, p) outs)) * pkt_delay_time (qi_pri qi ! p) \<le> T"
    using assms(5,8) by (intro paced_run [OF wf _ assms(4) _ _ _ assms(9)]) simp_all
  then show ?thesis by simp
qed

lemma length_workers_push: "length (workers_info (fst (eq_push_front S eg q p x))) = length (workers_info eg)"
proof -
  obtain eg1 qi where e: "get_queue S eg q = (eg1, qi)" by fastforce
  with get_queue_same(1) [of S eg q] have "workers_info eg1 = workers_info eg" by simp
  with e show ?thesis by (simp add: eq_push_front_def Let_def)
qed

lemma pri_info_set_rate:
  "queues_info eg q = None \<Longrightarrow> p < nb_priorities eg \<Longrightarrow>
   queues_info (set_rate S eg q r) q =
     Some \<lparr>qi_pri = replicate (nb_priorities eg) (SetRateFn S r (new_QueueInfoPri S (eq_capacity eg) (queue_rate_pps eg))), qi_size = 0\<rparr>"
  by (simp add: set_rate_def for_each_q_def get_queue_def new_QueueInfo_def Let_def)

text \<open>The witness's run: three packets of one class at once, at 1000 packets per second; two
  leave by 2.5 ms.\<close>

definition example_ops :: "(sim \<times> nat, nat \<times> nat, nat) queue_op list" where
  "example_ops =
     [PushOp (example_sim 0, 0) (1, 0) 7, PushOp (example_sim 0, 0) (1, 0) 8,
      PushOp (example_sim 0, 0) (1, 0) 9, PopOp (example_sim 2500000, 1),
      PopOp (example_sim 2500000, 1), PopOp (example_sim 2500000, 1)]"

lemma example_run:
  "map snd (snd (snd (run_queue eq_push_op eq_pop_op (set_rate (example_sim 0) example_egress 1 1000) example_ops)))
     = [7, 8]"
  by (simp add: example_ops_def eq_push_op_def eq_push_front_def eq_pop_op_def eq_pop_back_def example_egress_def
      NSQueueingLogicPriRL_def set_rate_def for_each_q_def get_queue_def new_QueueInfo_def new_QueueInfoPri_def
      SetRateFn_def rate_to_time_def example_sim_def get_next_tp_def QEComp_def numeral_2_eq_2 Let_def)

theorem egress_rate_limit_witness:
  "\<exists>outs. outs = snd (snd (run_queue eq_push_op eq_pop_op (set_rate (example_sim 0) example_egress 1 1000) example_ops)) \<and>
     map snd outs = [7, 8] \<and> int (length (of_class (1, 0) outs)) * 1000000 \<le> 2500000 - 0"
proof -
  define eg where "eg = set_rate (example_sim 0) example_egress 1 1000"
  obtain eg' ins outs where r: "run_queue eq_push_op eq_pop_op eg example_ops = (eg', ins, outs)"
    by (metis prod_cases3)
  have q: "queues_info eg 1 = Some \<lparr>qi_pri = replicate 2
      (SetRateFn (example_sim 0) 1000 (new_QueueInfoPri (example_sim 0) 3 0)), qi_size = 0\<rparr>"
    using pri_info_set_rate [of example_egress 1 0 "example_sim 0" 1000]
    by (simp add: eg_def example_egress_def NSQueueingLogicPriRL_def)
  have wf: "eq_reach eg" unfolding eg_def by (intro eq_reach.set_rate eq_reach_example example_sim_nonneg)
  have c: "counters_le 0 eg" and nb: "nb_priorities eg = 2"
    by (simp_all add: eg_def counters_le_def set_rate_def for_each_q_def case_prod_beta Let_def
        example_egress_def NSQueueingLogicPriRL_def)
  have z: "eq_size_pri eg 1 0 = Inr 0"
    unfolding eq_size_pri_def q by (simp add: SetRateFn_def new_QueueInfoPri_def)
  have "int (length (of_class (1, 0) outs)) * 1000000 \<le> 2500000 - 0"
    using egress_rate_limit [OF wf c _ _ _ q z _ r, of 2500000]
    by (simp add: nb example_ops_def SetRateFn_def new_QueueInfoPri_def rate_to_time_def example_sim_def
        example_sim_nonneg [unfolded example_sim_def])
  with example_run r show ?thesis by (auto simp: eg_def)
qed

text \<open>C13. \<open>pop_back\<close> serves strict priority and never idles: it gives the oldest waiting packet of
  some queue of the worker, whose departure time has come, and then no packet of a
  higher-numbered priority of the worker may leave yet; it gives nothing only when no packet of
  the worker may leave yet; and it never stops with an error.\<close>

theorem egress_pop_strict_priority:
  assumes "eq_reach eg" "w < length (workers_info eg)"
  shows "(case snd (eq_pop_back S eg w) of
            Inl _ \<Rightarrow> False
          | Inr None \<Rightarrow> (\<forall>q p. map_to_worker eg q = w \<longrightarrow> p < nb_priorities eg \<longrightarrow>
              (\<forall>e \<in> set (class_entries eg q p). sim_now S < qe_send e))
          | Inr (Some (q, p, x)) \<Rightarrow>
              map_to_worker eg q = w \<and> p < nb_priorities eg \<and>
              (\<exists>e es. class_entries eg q p = e # es \<and> qe_e e = x \<and> qe_send e \<le> sim_now S) \<and>
              (\<forall>q' p'. map_to_worker eg q' = w \<longrightarrow> p < p' \<longrightarrow> p' < nb_priorities eg \<longrightarrow>
                 (\<forall>e \<in> set (class_entries eg q' p'). sim_now S < qe_send e)))"
proof -
  have wf: "eq_wf eg" using assms(1) by (rule eq_reach_wf)
  have W: "worker_wf eg w" using wf assms(2) by (simp add: eq_wfD)
  have p32: "p < 32" if "p < nb_priorities eg" for p using that eq_wfD(1) [OF wf] by simp
  show ?thesis
  proof (rule eq_pop_outcome [OF wf assms(2), of S], goal_cases)
    case 1
    have "sim_now S < qe_send e" if "map_to_worker eg q = w" "p < nb_priorities eg"
        "e \<in> set (class_entries eg q p)" for q p e
      by (rule class_entries_unripe [OF W p32 [OF that(2)] that(1) 1(2) [OF that(2)] that(3)])
    then show ?case unfolding 1(1) by simp
  next
    case (2 p e qi)
    have "sim_now S < qe_send e'" if "map_to_worker eg q' = w" "p < p'" "p' < nb_priorities eg"
        "e' \<in> set (class_entries eg q' p')" for q' p' e'
      using class_entries_unripe [OF W p32 [OF that(3)] that(1) _ that(4)] pick_pri_Some [OF 2(1)] that by blast
    moreover have "\<exists>e' es. class_entries eg (qe_queue_id e) p = e' # es \<and> qe_e e' = qe_e e \<and> qe_send e' \<le> sim_now S"
      by (intro exI conjI) (rule 2(7), rule refl, rule 2(6))
    ultimately show ?case
      unfolding 2(8) snd_conv sum.case option.case prod.case using 2(4,5) by blast
  qed
qed

theorem egress_pop_strict_priority_witness:
  "\<exists>r. snd (eq_pop_back (example_sim 9)
      (fst (eq_push_front (example_sim 5) example_egress 1 0 77)) 1) = Inr r"
proof -
  have "eq_reach (fst (eq_push_front (example_sim 5) example_egress 1 0 77))"
    by (intro eq_reach.push eq_reach_example counters_ready_example example_sim_nonneg)
  moreover have "1 < length (workers_info (fst (eq_push_front (example_sim 5) example_egress 1 0 77)))"
    by (simp add: length_workers_push example_egress_def NSQueueingLogicPriRL_def)
  ultimately show ?thesis
    using egress_pop_strict_priority [of "fst (eq_push_front (example_sim 5) example_egress 1 0 77)" 1 "example_sim 9"]
    by (auto split: sum.splits)
qed

text \<open>Admission: a packet offered to an existing queue at a valid priority is accepted exactly
  when fewer packets of that class wait than its capacity allows, and the class then holds one
  more; otherwise it is refused and nothing is changed.\<close>

theorem egress_admission:
  assumes "eq_reach eg" "counters_ready eg" "seconds_nonneg S"
    and "queues_info eg q = Some qi" "p < nb_priorities eg"
  shows "if length (class_entries eg q p) < qip_capacity (qi_pri qi ! p)
         then snd (eq_push_front S eg q p x) = Inr 1 \<and>
              eq_contents (fst (eq_push_front S eg q p x)) (q, p) = eq_contents eg (q, p) @ [x]
         else eq_push_front S eg q p x = (eg, Inr 0)"
proof -
  have wf: "eq_wf eg" using assms(1) by (rule eq_reach_wf)
  have "queue_wf eg q qi" using wf assms(4) by (simp add: eq_wfD)
  then have "qip_size (qi_pri qi ! p) = length (class_entries eg q p)" using assms(5) by (simp add: queue_wf_def)
  then show ?thesis
    using assms(5) eq_push_present [OF wf assms(4,2), of S p x] eq_push_contents [OF wf assms(3,2), of q p x "(q, p)"]
    by (cases "length (class_entries eg q p) < qip_capacity (qi_pri qi ! p)") simp_all
qed

theorem egress_admission_witness:
  "snd (eq_push_front (example_sim 5) (set_rate (example_sim 0) example_egress 1 1000) 1 0 77) = Inr 1"
proof -
  define eg where "eg = set_rate (example_sim 0) example_egress 1 1000"
  have wf: "eq_reach eg" unfolding eg_def by (intro eq_reach.set_rate eq_reach_example example_sim_nonneg)
  have c: "counters_ready eg" and nb: "nb_priorities eg = 2"
    by (simp_all add: eg_def counters_ready_def set_rate_def for_each_q_def case_prod_beta Let_def
        example_egress_def NSQueueingLogicPriRL_def)
  have q: "queues_info eg 1 = Some \<lparr>qi_pri = replicate 2
      (SetRateFn (example_sim 0) 1000 (new_QueueInfoPri (example_sim 0) 3 0)), qi_size = 0\<rparr>"
    using pri_info_set_rate [of example_egress 1 0 "example_sim 0" 1000]
    by (simp add: eg_def example_egress_def NSQueueingLogicPriRL_def)
  have z: "class_entries eg 1 0 = []"
    using eq_size_pri_exact [OF eq_reach_wf [OF wf], of 0 1]
    unfolding nb eq_size_pri_def q by (simp add: SetRateFn_def new_QueueInfoPri_def)
  show ?thesis
    unfolding eg_def [symmetric]
    using egress_admission [OF wf c example_sim_nonneg q, of 0 5 77]
    by (simp add: nb z SetRateFn_def new_QueueInfoPri_def del: One_nat_def)
qed

subsection \<open>The packets in an egress buffer\<close>

definition egress_packets :: "'p egress \<Rightarrow> 'p set" where
  "egress_packets eg = (\<Union>q. \<Union>p. set (eq_contents eg (q, p)))"

lemma counters_ready_le: "counters_le m eg \<Longrightarrow> m + 1 < 2 ^ 64 \<Longrightarrow> counters_ready eg"
  by (force simp: counters_le_def counters_ready_def)

lemma egress_packets_push:
  assumes "eq_wf eg" "seconds_nonneg S" "counters_ready eg"
  shows "egress_packets (fst (eq_push_front S eg q p x)) \<subseteq> insert x (egress_packets eg)"
  by (auto simp: egress_packets_def eq_push_contents [OF assms] split: if_splits)

lemma eq_push_result:
  assumes "eq_wf eg" "seconds_nonneg S" "counters_ready eg" "p < nb_priorities eg"
  obtains r where "snd (eq_push_front S eg q p x) = Inr r"
proof -
  let ?eg = "fst (get_queue S eg q)"
  have "eq_wf ?eg" using assms by (intro wf_intros)
  moreover have "counters_ready ?eg" using assms(3) by (simp add: counters_ready_def)
  ultimately have "eq_push_front S eg q p x =
      (if qip_capacity (qi_pri (snd (get_queue S eg q)) ! p) \<le> qip_size (qi_pri (snd (get_queue S eg q)) ! p)
       then (?eg, Inr 0) else (enqueued ?eg q p x (get_next_tp S (qi_pri (snd (get_queue S eg q)) ! p)) (snd (get_queue S eg q)), Inr 1))"
    using assms(4) unfolding eq_push_get [of S eg q p x]
    by (subst eq_push_present [OF _ get_queue_snd]) auto
  then show thesis using that by (cases "qip_capacity (qi_pri (snd (get_queue S eg q)) ! p) \<le> qip_size (qi_pri (snd (get_queue S eg q)) ! p)") auto
qed

lemma length_workers_pop: "length (workers_info (fst (eq_pop_back S eg w))) = length (workers_info eg)"
  by (simp add: eq_pop_back_def Let_def split: option.split)

lemma eq_pop_packets:
  assumes wf: "eq_wf eg" and w: "w < length (workers_info eg)" and r: "eq_pop_back S eg w = (eg', r)"
  shows "egress_packets eg' \<subseteq> egress_packets eg"
    and "r = Inr None \<or> (\<exists>q p x. r = Inr (Some (q, p, x)) \<and> x \<in> egress_packets eg)"
proof -
  have op: "eq_pop_op (S, w) eg = (eg', case r of Inr (Some (q, p, x)) \<Rightarrow> Some ((q, p), x) | _ \<Rightarrow> None)"
    using r by (simp add: eq_pop_op_def split: sum.split option.split)
  show res: "r = Inr None \<or> (\<exists>q p x. r = Inr (Some (q, p, x)) \<and> x \<in> egress_packets eg)"
  proof (rule eq_pop_outcome [OF wf w, of S], goal_cases)
    case 1
    with r show ?case by simp
  next
    case (2 p e qi)
    from 2(7) have "e \<in> set (class_entries eg (qe_queue_id e) p)" by (metis list.set_intros(1))
    with 2(4) have "qe_e e \<in> set (eq_contents eg (qe_queue_id e, p))" by (auto simp: eq_contents_def)
    with 2(8) r show ?case by (auto simp: egress_packets_def)
  qed
  have "set (eq_contents eg' d) \<subseteq> set (eq_contents eg d)" for d
    using eq_pop_op_cases [OF wf op, of d] res by (auto split: if_splits)
  then show "egress_packets eg' \<subseteq> egress_packets eg" unfolding egress_packets_def by blast
qed

lemma push_empty_class:
  assumes wf: "eq_wf eg" and S: "seconds_nonneg S" and c: "counters_ready eg" and p: "p < nb_priorities eg"
    and e: "class_entries eg q p = []" and cap: "0 < qip_capacity (qi_pri (snd (get_queue S eg q)) ! p)"
  shows "snd (eq_push_front S eg q p x) = Inr 1"
    and "\<exists>e. class_entries (fst (eq_push_front S eg q p x)) q p = [e] \<and> qe_e e = x \<and>
             qe_send e = get_next_tp S (qi_pri (snd (get_queue S eg q)) ! p)"
proof -
  let ?eg = "fst (get_queue S eg q)" and ?qi = "snd (get_queue S eg q)"
  have wf': "eq_wf ?eg" using wf S by (intro wf_intros)
  have qi: "queues_info ?eg q = Some ?qi" by (rule get_queue_snd)
  have c': "counters_ready ?eg" using c by (simp add: counters_ready_def)
  have p': "p < nb_priorities ?eg" "p < 32" using p eq_wfD(1) [OF wf] by simp_all
  have q: "queue_wf ?eg q ?qi" using wf' qi by (simp add: eq_wfD)
  then have z: "qip_size (qi_pri ?qi ! p) = 0" using e p by (simp add: queue_wf_def)
  have tp: "last_sent (qi_pri ?qi ! p) \<le> get_next_tp S (qi_pri ?qi ! p)"
    using get_next_tp_ge(2) [of "qi_pri ?qi ! p" S] q p by (fastforce simp: queue_wf_def)
  have push: "eq_push_front S eg q p x = (enqueued ?eg q p x (get_next_tp S (qi_pri ?qi ! p)) ?qi, Inr 1)"
    unfolding eq_push_get [of S eg q p x] using eq_push_present [OF wf' qi c', of S p x] p' cap z by simp
  show "snd (eq_push_front S eg q p x) = Inr 1" by (simp add: push)
  show "\<exists>e. class_entries (fst (eq_push_front S eg q p x)) q p = [e] \<and> qe_e e = x \<and>
             qe_send e = get_next_tp S (qi_pri ?qi ! p)"
    using class_entries_enqueued [OF wf' qi p'(1) tp p'(2), of x q] e by (simp add: push)
qed

text \<open>The only waiting packet leaves as soon as its time has come.\<close>

lemma pop_only_packet:
  assumes wf: "eq_wf eg" and w: "0 < length (workers_info eg)" "map_to_worker eg q = 0"
    and p: "p < nb_priorities eg"
    and e: "class_entries eg q p = [e]" and t: "qe_send e \<le> sim_now S"
    and only: "\<And>d. d \<noteq> (q, p) \<Longrightarrow> eq_contents eg d = []"
  shows "\<exists>eg'. eq_pop_back S eg 0 = (eg', Inr (Some (q, p, qe_e e)))"
proof (rule eq_pop_outcome [OF wf w(1), of S], goal_cases)
  case 1
  have "worker_wf eg 0" using wf w by (simp add: eq_wfD)
  then have "sim_now S < qe_send e"
    using class_entries_unripe [of eg 0 p q "sim_now S" e] 1(2) [OF p] p eq_wfD(1) [OF wf] w e by simp
  with t show ?case by simp
next
  case (2 p' e' qi)
  have "eq_contents eg (qe_queue_id e', p') \<noteq> []"
    using 2(4,7) by (simp add: eq_contents_def) (metis list.distinct(1))
  with only have "(qe_queue_id e', p') = (q, p)" by blast
  then have q: "qe_queue_id e' = q" "p' = p" by simp_all
  have "e' = hd (class_entries eg (qe_queue_id e') p')" by (subst 2(7)) simp
  then have "e' = e" by (simp only: q e list.sel)
  with q 2(8) show ?case by auto
qed

lemma eq_size_pos:
  assumes "eq_wf eg" "p < nb_priorities eg" "class_entries eg q p \<noteq> []"
  shows "eq_size eg q \<noteq> 0"
proof
  assume "eq_size eg q = 0"
  then have "\<forall>p \<in> {..< nb_priorities eg}. length (class_entries eg q p) = 0"
    using eq_size_exact [OF assms(1), of q] by (simp del: length_0_conv)
  with assms(2,3) show False by simp
qed

lemma eq_contents_Nil_iff:
  "eq_contents eg (q, p) = [] \<longleftrightarrow> (p < nb_priorities eg \<longrightarrow> class_entries eg q p = [])"
  by (simp add: eq_contents_def)

lemma map_to_worker_pushed [simp]: "map_to_worker (fst (eq_push_front S eg q p x)) = map_to_worker eg"
proof -
  obtain eg1 qi where e: "get_queue S eg q = (eg1, qi)" by fastforce
  with get_queue_same(2) [of S eg q] have "map_to_worker eg1 = map_to_worker eg" by simp
  with e show ?thesis by (simp add: eq_push_front_def Let_def)
qed

lemma set_rate_for_all_new:
  "set_rate_for_all S (NSQueueingLogicPriRL nw cap mapper np) r =
     (NSQueueingLogicPriRL nw cap mapper np)\<lparr>queue_rate_pps := r\<rparr>"
  by (simp add: set_rate_for_all_def for_all_q_def NSQueueingLogicPriRL_def)

end
