(* ===== verification/V1model_Safety.thy ===== *)
theory V1model_Safety
  imports V1model_Timers Egress_Properties
begin

text \<open>
  The safety of the v1model switch: an invariant of the whole core (both buffers, the address
  table, the registers of every packet inside) that each handler preserves, and under which
  no handler throws an exception or runs into undefined behaviour.
\<close>

text \<open>The program declares the fields the core reads without a test.\<close>

definition declares :: "('p, 'b, 'w) bm \<Rightarrow> bool" where
  "declares B \<longleftrightarrow> (\<forall>p. bm_has_field B p ''intrinsic_metadata.egress_rid'' \<and>
     bm_has_field B p ''standard_metadata.egress_spec'' \<and>
     bm_has_field B p ''queueing_metadata.enq_timestamp'' \<and> bm_has_field B p ''queueing_metadata.enq_qdepth'' \<and>
     bm_has_field B p ''queueing_metadata.deq_timedelta'' \<and> bm_has_field B p ''queueing_metadata.deq_qdepth'')"

subsection \<open>Registers through the core's own operations\<close>

lemma ns_ingress_program:
  assumes "program_frame B"
  shows "ns_tag B (snd (ingress_program B c pkt)) = ns_tag B pkt"
  using program_frameD(2) [OF assms]
  by (simp add: ingress_program_def case_prod_beta Let_def program_frameD [OF assms])

lemma reg_CopyFieldList:
  "program_frame B \<Longrightarrow> bm_get_register B (CopyFieldList B p q t l) = bm_get_register B q"
  by (simp add: CopyFieldList_def Let_def program_frameD frame_laws)

subsection \<open>The invariant\<close>

definition core_packets :: "('addr, 'w, 'p) v1model \<Rightarrow> 'p set" where
  "core_packets c = set (queue_hi (in_buffer c)) \<union> set (queue_lo (in_buffer c)) \<union> egress_packets (egress_buffer c)"

text \<open>\<open>m\<close> bounds the number of packets pushed into the egress buffer so far.\<close>

definition v1_ok :: "(u16 \<times> 'addr) set \<Rightarrow> ('p, 'b, 'w) bm \<Rightarrow> nat \<Rightarrow> ('addr, 'w, 'p) v1model \<Rightarrow> bool" where
  "v1_ok R B m c \<longleftrightarrow>
     ib_wf (in_buffer c) \<and> eq_wf (egress_buffer c) \<and> counters_le m (egress_buffer c) \<and>
     nb_priorities (egress_buffer c) = nb_queues_per_port c \<and>
     length (workers_info (egress_buffer c)) = 1 \<and> addr_wf c \<and>
     (\<forall>pkt \<in> core_packets c. addr_ok R B c pkt) \<and> (\<forall>call \<in> set (sent c). send_ok R c call)"

text \<open>Which members these predicates read.\<close>

lemma core_frame [simp]:
  fixes c :: "('addr, 'w, 'p) v1model"
  shows "addr_ok R B (c\<lparr>world := w\<rparr>) = addr_ok R B c" "send_ok R (c\<lparr>world := w\<rparr>) = send_ok R c"
    "addr_wf (c\<lparr>world := w\<rparr>) = addr_wf c"
    "addr_ok R B (c\<lparr>sent := s\<rparr>) = addr_ok R B c" "send_ok R (c\<lparr>sent := s\<rparr>) = send_ok R c"
    "addr_wf (c\<lparr>sent := s\<rparr>) = addr_wf c"
    "addr_ok R B (c\<lparr>egress_buffer := eg\<rparr>) = addr_ok R B c" "send_ok R (c\<lparr>egress_buffer := eg\<rparr>) = send_ok R c"
    "addr_wf (c\<lparr>egress_buffer := eg\<rparr>) = addr_wf c"
    "addr_ok R B (c\<lparr>in_buffer := ib\<rparr>) = addr_ok R B c" "send_ok R (c\<lparr>in_buffer := ib\<rparr>) = send_ok R c"
    "addr_wf (c\<lparr>in_buffer := ib\<rparr>) = addr_wf c"
  by (rule addr_ok_same send_ok_same addr_wf_same; simp)+

text \<open>An update of the members that the invariant does not read.\<close>

lemma v1_ok_cong:
  assumes "in_buffer c' = in_buffer c" "egress_buffer c' = egress_buffer c" "sent c' = sent c"
    "nb_queues_per_port c' = nb_queues_per_port c" "destination_list c' = destination_list c" "address_map c' = address_map c"
  shows "v1_ok R B m c' = v1_ok R B m c"
  by (simp add: v1_ok_def core_packets_def assms addr_ok_same [OF assms(5)] send_ok_same [OF assms(5)]
      addr_wf_same [OF assms(5,6)])

lemmas v1_ok_same = v1_ok_cong [THEN iffD2, rotated -1]

lemma v1_ok_push:
  assumes ok: "v1_ok R B m c" and S: "seconds_nonneg S" and m: "m + 1 < 2 ^ 64" and x: "addr_ok R B c x"
  shows "v1_ok R B (m + 1) (c\<lparr>egress_buffer := fst (eq_push_front S (egress_buffer c) q p x)\<rparr>)"
proof -
  have r: "counters_ready (egress_buffer c)" using ok m by (auto simp: v1_ok_def intro: counters_ready_le)
  have wf: "eq_wf (egress_buffer c)" using ok by (simp add: v1_ok_def)
  show ?thesis
    using ok x egress_packets_push [OF wf S r, of q p x] eq_wf_push_front [OF wf S r, of q p x]
      counters_le_push [of m "egress_buffer c" S q p x]
    by (auto simp: v1_ok_def core_packets_def length_workers_push)
qed

lemma Enqueue_ok:
  assumes prog: "program_frame B" and decl: "declares B" and S: "seconds_nonneg S"
    and ok: "v1_ok R B m c" and m: "m + 1 < 2 ^ 64" and pkt: "addr_ok R B c pkt"
  obtains eg where "Enqueue B S c port pkt = (c\<lparr>egress_buffer := eg\<rparr>, Inr ())"
    and "v1_ok R B (m + 1) (c\<lparr>egress_buffer := eg\<rparr>)"
proof -
  let ?pkt = "bm_set_egress_port B pkt port"
  define x where "x = (if enable_queueing_metadata c
                   then bm_set_field B
                          (bm_set_field B ?pkt ''queueing_metadata.enq_timestamp'' (unat (GetTimeStamp S c)))
                          ''queueing_metadata.enq_qdepth'' (eq_size (egress_buffer c) (unat port))
                   else ?pkt)"
  have "bm_get_register B x = bm_get_register B pkt"
    using program_frameD(2) [OF prog] by (simp add: x_def frame_laws)
  then have "addr_ok R B c x" using pkt by (simp add: addr_ok_def ns_tag_cong [of B x pkt])
  note push = v1_ok_push [OF ok S m this]
  have m1: "v1_ok R B (m + 1) c" using ok by (fastforce simp: v1_ok_def counters_le_def)
  have r: "counters_ready (egress_buffer c)" "eq_wf (egress_buffer c)"
    "nb_priorities (egress_buffer c) = nb_queues_per_port c"
    using ok m by (auto simp: v1_ok_def intro: counters_ready_le)
  show thesis
  proof (cases "nb_queues_per_port c \<le> pkt_priority B x")
    case True
    have "Enqueue B S c port pkt = (c\<lparr>egress_buffer := egress_buffer c\<rparr>, Inr ())"
      using True decl by (simp add: Enqueue_def Let_def declares_def x_def)
    with m1 show thesis by (intro that [of "egress_buffer c"]) simp_all
  next
    case False
    then have lt: "nb_queues_per_port c - 1 - pkt_priority B x < nb_priorities (egress_buffer c)"
      using r(3) by simp
    obtain k where "snd (eq_push_front S (egress_buffer c) (unat port) (nb_queues_per_port c - 1 - pkt_priority B x) x) = Inr k"
      using eq_push_result [OF r(2) S r(1) lt] by metis
    with False decl have "Enqueue B S c port pkt =
        (c\<lparr>egress_buffer := fst (eq_push_front S (egress_buffer c) (unat port) (nb_queues_per_port c - 1 - pkt_priority B x) x)\<rparr>, Inr ())"
      by (simp add: Enqueue_def Let_def declares_def x_def case_prod_beta)
    then show thesis using push by (intro that) simp_all
  qed
qed

subsection \<open>Multicast, cloning and forwarding keep the invariant\<close>

lemma v1_ok_world [simp]:
  "v1_ok R B m (c\<lparr>world := w\<rparr>) = v1_ok R B m c"
  "v1_ok R B m (c\<lparr>world := w, egress_buffer := eg\<rparr>) = v1_ok R B m (c\<lparr>egress_buffer := eg\<rparr>)"
  by (simp_all add: v1_ok_def core_packets_def)

lemma multicast_loop_ok:
  assumes prog: "program_frame B" and decl: "declares B" and S: "seconds_nonneg S"
  shows "v1_ok R B m c \<Longrightarrow> m + length outs < 2 ^ 64 \<Longrightarrow> addr_ok R B c pkt \<Longrightarrow>
    \<exists>eg pkt'. multicast_loop B S sz outs c pkt = ((c\<lparr>egress_buffer := eg\<rparr>, pkt'), Inr ()) \<and>
      v1_ok R B (m + length outs) (c\<lparr>egress_buffer := eg\<rparr>) \<and> bm_get_register B pkt' = bm_get_register B pkt"
proof (induction outs arbitrary: c pkt m)
  case Nil
  then show ?case by (auto intro: exI [of _ "egress_buffer c"])
next
  case (Cons out outs)
  obtain port rid where out: "out = (port, rid)" by fastforce
  define pkt1 where "pkt1 = bm_set_field B pkt ''intrinsic_metadata.egress_rid'' rid"
  define copy where "copy = bm_set_register B (clear_all B (bm_clone_with_phv B pkt1)) PACKET_LENGTH_REG_IDX sz"
  have reg: "bm_get_register B pkt1 = bm_get_register B pkt"
    using program_frameD(2) [OF prog] by (simp add: pkt1_def frame_laws)
  have pkt1: "addr_ok R B c pkt1" using Cons.prems(3) addr_ok_cong [OF reg, of R c] by blast
  have "addr_ok R B c copy"
    unfolding copy_def by (rule addr_ok_cleared [OF program_frameD(1) [OF prog] Cons.prems(3)])
  moreover have "m + 1 < 2 ^ 64" using Cons.prems(2) by simp
  ultimately obtain eg where e: "Enqueue B S c port copy = (c\<lparr>egress_buffer := eg\<rparr>, Inr ())"
    and ok: "v1_ok R B (m + 1) (c\<lparr>egress_buffer := eg\<rparr>)"
    using Enqueue_ok [OF prog decl S Cons.prems(1), of copy port] by metis
  have "\<exists>eg' pkt'. multicast_loop B S sz outs (c\<lparr>egress_buffer := eg\<rparr>) pkt1 =
      ((c\<lparr>egress_buffer := eg\<rparr>\<lparr>egress_buffer := eg'\<rparr>, pkt'), Inr ()) \<and>
      v1_ok R B (m + 1 + length outs) (c\<lparr>egress_buffer := eg\<rparr>\<lparr>egress_buffer := eg'\<rparr>) \<and>
      bm_get_register B pkt' = bm_get_register B pkt1"
    by (rule Cons.IH [OF ok]) (use Cons.prems(2) pkt1 in simp_all)
  with e reg show ?case by (simp add: out Let_def pkt1_def [symmetric] copy_def [symmetric])
qed

lemma MulticastPacket_ok:
  assumes prog: "program_frame B" and decl: "declares B" and S: "seconds_nonneg S"
    and ok: "v1_ok R B m c" and m: "m + length (bm_replicate B (world c) g) < 2 ^ 64" and pkt: "addr_ok R B c pkt"
  obtains eg pkt' where "MulticastPacket B S c pkt g = ((c\<lparr>egress_buffer := eg\<rparr>, pkt'), Inr ())"
    and "v1_ok R B (m + length (bm_replicate B (world c) g)) (c\<lparr>egress_buffer := eg\<rparr>)"
    and "bm_get_register B pkt' = bm_get_register B pkt"
  using multicast_loop_ok [OF prog decl S ok m pkt, of "bm_get_register B pkt PACKET_LENGTH_REG_IDX"] decl
  by (auto simp: MulticastPacket_def declares_def)

text \<open>A bound on the size of every multicast group.\<close>

definition groups_le :: "('p, 'b, 'w) bm \<Rightarrow> nat \<Rightarrow> bool" where
  "groups_le B G \<longleftrightarrow> (\<forall>w g. length (bm_replicate B w g) \<le> G)"

lemma v1_ok_mono: "v1_ok R B m c \<Longrightarrow> m \<le> n \<Longrightarrow> v1_ok R B n c"
  by (auto simp: v1_ok_def counters_le_def)

lemma mirror_copy_ok:
  assumes prog: "program_frame B" and decl: "declares B" and S: "seconds_nonneg S" and G: "groups_le B G"
    and ok: "v1_ok R B m c" and m: "m + G + 1 < 2 ^ 64" and pkt: "addr_ok R B c pkt"
  obtains eg where "mirror_copy B S c cfg pkt = (c\<lparr>egress_buffer := eg\<rparr>, Inr ())"
    and "v1_ok R B (m + G + 1) (c\<lparr>egress_buffer := eg\<rparr>)"
proof -
  have g: "length (bm_replicate B (world c) (cfg_mgid cfg)) \<le> G" using G by (simp add: groups_le_def)
  obtain eg pkt' where s: "(if cfg_mgid_valid cfg then MulticastPacket B S c pkt (cfg_mgid cfg)
            else ((c, pkt), Inr ())) = ((c\<lparr>egress_buffer := eg\<rparr>, pkt'), Inr ())"
    and o: "v1_ok R B (m + G) (c\<lparr>egress_buffer := eg\<rparr>)" and p: "addr_ok R B c pkt'"
  proof (cases "cfg_mgid_valid cfg")
    case True
    have ml: "m + length (bm_replicate B (world c) (cfg_mgid cfg)) < 2 ^ 64" using m g by simp
    obtain eg pkt' where "MulticastPacket B S c pkt (cfg_mgid cfg) = ((c\<lparr>egress_buffer := eg\<rparr>, pkt'), Inr ())"
      "v1_ok R B (m + length (bm_replicate B (world c) (cfg_mgid cfg))) (c\<lparr>egress_buffer := eg\<rparr>)"
      "bm_get_register B pkt' = bm_get_register B pkt"
      by (rule MulticastPacket_ok [OF prog decl S ok ml pkt])
    with True pkt g show thesis
      by (intro that [of eg pkt']) (auto intro: v1_ok_mono simp: addr_ok_cong [of B pkt' pkt])
  next
    case False
    with ok pkt show thesis by (intro that [of "egress_buffer c" pkt]) (auto intro: v1_ok_mono)
  qed
  show thesis
  proof (cases "cfg_egress_port_valid cfg")
    case True
    obtain eg' where "Enqueue B S (c\<lparr>egress_buffer := eg\<rparr>) (cfg_egress_port cfg) pkt' =
        (c\<lparr>egress_buffer := eg\<rparr>\<lparr>egress_buffer := eg'\<rparr>, Inr ())"
      "v1_ok R B (m + G + 1) (c\<lparr>egress_buffer := eg\<rparr>\<lparr>egress_buffer := eg'\<rparr>)"
      using Enqueue_ok [OF prog decl S o _, of pkt' "cfg_egress_port cfg"] m p by auto
    with True s show thesis by (intro that [of eg']) (simp_all add: mirror_copy_def)
  next
    case False
    with s o show thesis by (intro that [of eg]) (auto simp: mirror_copy_def intro: v1_ok_mono)
  qed
qed

lemma ingress_clone_ok:
  assumes prog: "program_frame B" and decl: "declares B" and S: "seconds_nonneg S" and G: "groups_le B G"
    and ok: "v1_ok R B m c" and m: "m + G + 1 < 2 ^ 64" and pkt: "addr_ok R B c pkt"
  obtains eg w pkt' where "ingress_clone B S c pkt st port sz = ((c\<lparr>egress_buffer := eg, world := w\<rparr>, pkt'), Inr ())"
    and "v1_ok R B (m + G + 1) (c\<lparr>egress_buffer := eg, world := w\<rparr>)"
    and "ns_tag B pkt' = ns_tag B pkt"
proof -
  note laws = program_frameD(1) [OF prog]
  let ?pkt = "set_clone_field_list B (set_clone_mirror_session_id B pkt 0) 0"
  have id: "c\<lparr>egress_buffer := egress_buffer c, world := world c\<rparr> = c" by simp
  have okG: "v1_ok R B (m + G + 1) c" using ok by (rule v1_ok_mono) simp
  show thesis
  proof (cases "get_clone_mirror_session_id B pkt = 0")
    case True
    with okG show thesis
      by (intro that [of "world c" "egress_buffer c" pkt]) (simp_all add: ingress_clone_def Let_def)
  next
    case False
    note nz = this
    show thesis
    proof (cases "GetMirroringSession c (uint (get_clone_mirror_session_id B pkt AND MIRROR_SESSION_ID_MASK))")
      case None
      with nz okG show thesis
        by (intro that [of "world c" "egress_buffer c" ?pkt]) (simp_all add: ingress_clone_def Let_def laws)
    next
      case (Some cfg)
      define pin where "pin = bm_restore_buffer_state B ?pkt st"
      define copy0 where "copy0 = bm_set_field B (bm_set_register B (clear_all B (bm_clone_no_phv B pin))
          PACKET_LENGTH_REG_IDX sz) ''standard_metadata.ingress_port'' (unat port)"
      obtain w copy1 where parse: "bm_parse B ''parser'' (world c) copy0 = (w, copy1)" by fastforce
      define copy where "copy = CopyFieldList B pin copy1 PKT_INSTANCE_TYPE_INGRESS_CLONE (unat (get_clone_field_list B pkt))"
      have "ns_tag B copy = ns_tag B copy1"
        unfolding copy_def by (rule ns_tag_cong) (rule reg_CopyFieldList [OF prog])
      also have "\<dots> = ns_tag B copy0"
        using program_frameD(3) [OF prog, of "''parser''" "world c" copy0] parse by simp
      also have "\<dots> = ns_tag B (bm_set_register B (clear_all B (bm_clone_no_phv B pin)) PACKET_LENGTH_REG_IDX sz)"
        using program_frameD(2) [OF prog] by (simp add: copy0_def)
      finally have "addr_ok R B (c\<lparr>world := w\<rparr>) copy"
        using addr_ok_cleared [OF laws pkt, of "bm_clone_no_phv B pin" sz] by (simp add: addr_ok_def)
      moreover have "v1_ok R B m (c\<lparr>world := w\<rparr>)" using ok by simp
      ultimately obtain eg where e: "mirror_copy B S (c\<lparr>world := w\<rparr>) cfg copy = (c\<lparr>world := w\<rparr>\<lparr>egress_buffer := eg\<rparr>, Inr ())"
        and okg: "v1_ok R B (m + G + 1) (c\<lparr>world := w\<rparr>\<lparr>egress_buffer := eg\<rparr>)"
        using mirror_copy_ok [OF prog decl S G _ m, of R "c\<lparr>world := w\<rparr>" copy cfg] by metis
      have "ns_tag B (bm_restore_buffer_state B pin (bm_save_buffer_state B ?pkt)) = ns_tag B pkt"
        using ns_tag_cong [of B "bm_restore_buffer_state B pin (bm_save_buffer_state B ?pkt)" ?pkt]
          program_frameD(6) [OF prog] laws by (simp add: pin_def)
      with e okg nz Some show thesis
        by (intro that [of w eg "bm_restore_buffer_state B pin (bm_save_buffer_state B ?pkt)"])
          (simp_all add: ingress_clone_def Let_def pin_def [symmetric] copy0_def [symmetric] parse copy_def [symmetric])
    qed
  qed
qed

lemma ingress_forward_ok:
  assumes prog: "program_frame B" and decl: "declares B" and S: "seconds_nonneg S" and G: "groups_le B G"
    and ok: "v1_ok R B m c" and m: "m + G + 1 < 2 ^ 64" and pkt: "addr_ok R B c pkt"
  obtains eg where "ingress_forward B S c pkt mgid spec = (c\<lparr>egress_buffer := eg\<rparr>, Inr ())"
    and "v1_ok R B (m + G + 1) (c\<lparr>egress_buffer := eg\<rparr>)"
proof -
  have a: "addr_ok R B c (bm_set_field B pkt f v)" for f v
    using pkt addr_ok_cong [of B "bm_set_field B pkt f v" pkt R c] program_frameD(2) [OF prog]
    by (simp add: frame_laws)
  have g: "length (bm_replicate B (world c) mgid) \<le> G" using G by (simp add: groups_le_def)
  have m': "m + length (bm_replicate B (world c) mgid) < 2 ^ 64" "m + 1 < 2 ^ 64" using m g by simp_all
  show thesis
  proof (cases "mgid = 0")
    case False
    obtain eg pkt' where "MulticastPacket B S c (bm_set_field B pkt ''standard_metadata.instance_type''
        (instance_code PKT_INSTANCE_TYPE_REPLICATION)) mgid = ((c\<lparr>egress_buffer := eg\<rparr>, pkt'), Inr ())"
      "v1_ok R B (m + length (bm_replicate B (world c) mgid)) (c\<lparr>egress_buffer := eg\<rparr>)"
      using MulticastPacket_ok [OF prog decl S ok m'(1) a] by metis
    with False g show thesis
      by (intro that [of eg]) (auto simp: ingress_forward_def intro: v1_ok_mono)
  next
    case True
    show thesis
    proof (cases "spec = drop_port c")
      case drop: True
      from ok have "v1_ok R B (m + G + 1) c" by (rule v1_ok_mono) simp
      with drop True show thesis
        by (intro that [of "egress_buffer c"]) (simp_all add: ingress_forward_def)
    next
      case False
      obtain eg where e: "Enqueue B S c spec (bm_set_field B pkt ''standard_metadata.instance_type''
          (instance_code PKT_INSTANCE_TYPE_NORMAL)) = (c\<lparr>egress_buffer := eg\<rparr>, Inr ())"
        "v1_ok R B (m + 1) (c\<lparr>egress_buffer := eg\<rparr>)"
        using Enqueue_ok [OF prog decl S ok m'(2) a] by metis
      from e(2) have "v1_ok R B (m + G + 1) (c\<lparr>egress_buffer := eg\<rparr>)" by (rule v1_ok_mono) simp
      with e False True show thesis by (intro that [of eg]) (simp_all add: ingress_forward_def)
    qed
  qed
qed

subsection \<open>The ingress handler\<close>

lemma v1_ok_pop_in:
  assumes "v1_ok R B m c" "ib_pop_back (in_buffer c) = (ib, r)"
  shows "v1_ok R B m (c\<lparr>in_buffer := ib\<rparr>)" and "\<And>pkt. r = Some pkt \<Longrightarrow> addr_ok R B c pkt"
proof -
  have sub: "set (queue_hi ib) \<subseteq> set (queue_hi (in_buffer c))" "set (queue_lo ib) \<subseteq> set (queue_lo (in_buffer c))"
    "\<And>pkt. r = Some pkt \<Longrightarrow> pkt \<in> set (queue_hi (in_buffer c)) \<union> set (queue_lo (in_buffer c))"
    using assms(2) by (auto simp: ib_pop_back_def dest: in_set_butlastD split: if_splits)
  have "ib_wf ib" using assms ib_wf_pop [of "in_buffer c"] by (simp add: v1_ok_def)
  with assms(1) sub(1,2) show "v1_ok R B m (c\<lparr>in_buffer := ib\<rparr>)"
    by (auto simp: v1_ok_def core_packets_def)
  show "addr_ok R B c pkt" if "r = Some pkt" for pkt
    using assms(1) sub(3) [OF that] by (auto simp: v1_ok_def core_packets_def)
qed

lemma v1_ok_push_in:
  assumes "v1_ok R B m c" "addr_ok R B c pkt"
  shows "v1_ok R B m (c\<lparr>in_buffer := fst (ib_push_front (in_buffer c) t pkt)\<rparr>)"
proof -
  have "set (queue_hi (fst (ib_push_front (in_buffer c) t pkt))) \<subseteq> insert pkt (set (queue_hi (in_buffer c)))"
    "set (queue_lo (fst (ib_push_front (in_buffer c) t pkt))) \<subseteq> insert pkt (set (queue_lo (in_buffer c)))"
    by (cases t; auto simp: push_front_queue_def)+
  moreover have "ib_wf (fst (ib_push_front (in_buffer c) t pkt))"
    using assms(1) by (simp add: v1_ok_def ib_wf_push)
  ultimately show ?thesis using assms
    by (auto simp: v1_ok_def core_packets_def)
qed

lemma resubmit_copy_ok:
  assumes "program_frame B" "addr_ok R B c pkt"
  shows "addr_ok R B c (resubmit_copy B pkt st fl sz)"
proof -
  have "bm_get_register B (resubmit_copy B pkt st fl sz) =
      bm_get_register B (bm_set_register B (clear_all B (CopyFieldList B (set_resubmit_flag B (bm_restore_buffer_state B pkt st) 0)
         (bm_clone_no_phv B (set_resubmit_flag B (bm_restore_buffer_state B pkt st) 0)) PKT_INSTANCE_TYPE_RESUBMIT (unat fl))) PACKET_LENGTH_REG_IDX sz)"
    using program_frameD(2) [OF assms(1)] by (simp add: resubmit_copy_def Let_def frame_laws)
  from addr_ok_cong [OF this, of R c] show ?thesis
    using addr_ok_cleared [OF program_frameD(1) [OF assms(1)] assms(2)] by simp
qed

lemma addr_ok_learn [simp]: "addr_ok R B (ingress_learn B' c pkt l) p = addr_ok R B c p"
  by (simp add: ingress_learn_def)

lemma v1_ok_learn [simp]: "v1_ok R B m (ingress_learn B' c pkt l) = v1_ok R B m c"
  by (simp add: ingress_learn_def)

lemma HandleIngressPipeline_ok:
  assumes prog: "program_frame B" and decl: "declares B" and S: "seconds_nonneg S" and G: "groups_le B G"
  shows "v1_ok R B m c \<Longrightarrow> m + fuel * (2 * G + 2) < 2 ^ 64 \<Longrightarrow>
    v1_ok R B (m + fuel * (2 * G + 2)) (fst (HandleIngressPipeline fuel B S c)) \<and>
    snd (HandleIngressPipeline fuel B S c) \<in> {Inr (), Inl NoFuel}"
proof (induction fuel arbitrary: m c)
  case 0
  then show ?case by simp
next
  case (Suc fuel)
  note laws = program_frameD(1) [OF prog]
  obtain ib popped where pop: "ib_pop_back (in_buffer c) = (ib, popped)" by fastforce
  define c0 where "c0 = c\<lparr>in_buffer := ib\<rparr>"
  note p = v1_ok_pop_in [OF Suc.prems(1) pop, folded c0_def]
  show ?case
  proof (cases popped)
    case None
    from v1_ok_mono [OF p(1)] None pop show ?thesis by (simp add: c0_def)
  next
    case (Some pkt0)
    obtain c1 pkt where ip: "ingress_program B c0 pkt0 = (c1, pkt)" by fastforce
    have c1: "\<exists>w. c1 = c0\<lparr>world := w\<rparr>" using ip by (auto simp: ingress_program_def case_prod_beta Let_def)
    have ok1: "v1_ok R B m c1" using p(1) c1 by auto
    have "ns_tag B pkt = ns_tag B pkt0"
      using ns_ingress_program [OF prog, of c0 pkt0] ip by simp
    then have a1: "addr_ok R B c1 pkt"
      using p(2) [OF Some] c1 by (auto simp: c0_def addr_ok_def)
    have m1: "m + G + 1 < 2 ^ 64" using Suc.prems(2) by simp
    define st where "st = bm_save_buffer_state B pkt0"
    define sz where "sz = bm_get_register B pkt0 PACKET_LENGTH_REG_IDX"
    obtain eg w pkt2 where cl: "ingress_clone B S c1 pkt st (bm_get_ingress_port B pkt0) sz =
        ((c1\<lparr>egress_buffer := eg, world := w\<rparr>, pkt2), Inr ())"
      and ok2: "v1_ok R B (m + G + 1) (c1\<lparr>egress_buffer := eg, world := w\<rparr>)"
      and g2: "ns_tag B pkt2 = ns_tag B pkt"
      by (rule ingress_clone_ok [OF prog decl S G ok1 m1 a1])
    define c2 where "c2 = ingress_learn B (c1\<lparr>egress_buffer := eg, world := w\<rparr>) pkt2 (get_lf_field_list B pkt)"
    have a2: "addr_ok R B c2 pkt2" using a1 by (simp add: c2_def addr_ok_def g2 ingress_learn_def)
    have ok2': "v1_ok R B (m + G + 1) c2" using ok2 by (simp add: c2_def)
    show ?thesis
    proof (cases "get_resubmit_flag B pkt2 = 0")
      case True
      obtain eg' where f: "ingress_forward B S c2 pkt2
            (if bm_has_field B pkt ''intrinsic_metadata.mcast_grp'' then get_uint B pkt ''intrinsic_metadata.mcast_grp'' else 0)
            (get_uint B pkt ''standard_metadata.egress_spec'') = (c2\<lparr>egress_buffer := eg'\<rparr>, Inr ())"
        and ok3: "v1_ok R B (m + G + 1 + G + 1) (c2\<lparr>egress_buffer := eg'\<rparr>)"
        using ingress_forward_ok [OF prog decl S G ok2' _ a2] Suc.prems(2) by auto
      have "HandleIngressPipeline (Suc fuel) B S c = (c2\<lparr>egress_buffer := eg'\<rparr>, Inr ())"
        using True f cl by (simp add: pop Some c0_def [symmetric] ip st_def [symmetric] sz_def [symmetric] c2_def [symmetric])
      with v1_ok_mono [OF ok3] show ?thesis by (simp add: algebra_simps)
    next
      case False
      define c3 where "c3 = c2\<lparr>in_buffer := fst (ib_push_front (in_buffer c2) RESUBMIT
          (resubmit_copy B pkt2 st (get_resubmit_flag B pkt2) sz))\<rparr>"
      have ok3: "v1_ok R B (m + G + 1) c3"
        unfolding c3_def by (intro v1_ok_push_in ok2' resubmit_copy_ok prog a2)
      have "HandleIngressPipeline (Suc fuel) B S c = HandleIngressPipeline fuel B S c3"
        using False cl by (simp add: pop Some c0_def [symmetric] ip st_def [symmetric] sz_def [symmetric]
            c2_def [symmetric] c3_def case_prod_beta)
      moreover have "v1_ok R B (m + G + 1 + fuel * (2 * G + 2)) (fst (HandleIngressPipeline fuel B S c3)) \<and>
          snd (HandleIngressPipeline fuel B S c3) \<in> {Inr (), Inl NoFuel}"
        by (rule Suc.IH [OF ok3]) (use Suc.prems(2) in simp)
      ultimately show ?thesis by (auto intro: v1_ok_mono)
    qed
  qed
qed

subsection \<open>Reception\<close>

lemma v1_ok_history: "v1_ok R B m c \<Longrightarrow> R \<subseteq> R' \<Longrightarrow> v1_ok R' B m c"
  by (auto simp: v1_ok_def intro: addr_ok_extend [of R B c _ c "[]" R'] send_ok_extend [of R c _ c "[]" R'])

lemma v1_ok_address:
  assumes "v1_ok R B m c"
  shows "v1_ok R B m (fst (GetAddressIndex c a))"
proof -
  let ?c = "fst (GetAddressIndex c a)"
  obtain l k where f: "?c = c\<lparr>destination_list := l, address_map := k\<rparr>"
    using GetAddressIndex_frame [of c a] by metis
  obtain l' where l': "destination_list ?c = destination_list c @ l'"
    using GetAddressIndex_prefix [of c a] by auto
  have "addr_wf ?c" using assms by (simp add: v1_ok_def GetAddressIndex_wf)
  moreover have "addr_ok R B ?c pkt" if "pkt \<in> core_packets c" for pkt
    using assms that by (intro addr_ok_extend [OF _ l' subset_refl]) (simp add: v1_ok_def)
  moreover have "send_ok R ?c call" if "call \<in> set (sent c)" for call
    using assms that by (intro send_ok_extend [OF _ l' subset_refl]) (simp add: v1_ok_def)
  moreover have "in_buffer ?c = in_buffer c" "egress_buffer ?c = egress_buffer c" "sent ?c = sent c"
    "nb_queues_per_port ?c = nb_queues_per_port c" "core_packets ?c = core_packets c"
    by (simp_all add: f core_packets_def)
  ultimately show ?thesis using assms by (simp add: v1_ok_def)
qed

text \<open>The state in which \<open>receive_packet\<close> looks up the address.\<close>

definition counted :: "('addr, 'w, 'p) v1model \<Rightarrow> nat \<Rightarrow> ('addr, 'w, 'p) v1model" where
  "counted c len =
     (if enable_tracing c
      then c\<lparr>packet_id := packet_id c + 1, input_pps := input_pps c + 1, input_bps := input_bps c + of_nat (len * 8)\<rparr>
      else c\<lparr>packet_id := packet_id c + 1\<rparr>)"

lemma counted_same [simp]:
  "egress_buffer (counted c n) = egress_buffer c"
  "in_buffer (counted c n) = in_buffer c" "destination_list (counted c n) = destination_list c"
  "address_map (counted c n) = address_map c" "world (counted c n) = world c"
  "drop_port (counted c n) = drop_port c" "sent (counted c n) = sent c"
  "mirroring_sessions (counted c n) = mirroring_sessions c"
  "enable_queueing_metadata (counted c n) = enable_queueing_metadata c"
  "nb_queues_per_port (counted c n) = nb_queues_per_port c"
  by (auto simp: counted_def)

lemma v1_ok_counted [simp]: "v1_ok R B m (counted c n) = v1_ok R B m c"
  by (rule v1_ok_cong) simp_all

lemma fst_receive_packet:
  "fst (receive_packet B S c d port proto dst) =
     fst (GetAddressIndex (counted c (bm_data_size B (bm_new_packet B port (packet_id c) d))) dst)"
  by (simp add: receive_packet_def ConvertToBmPacket_def counted_def case_prod_beta Let_def)

lemma receive_packet_register:
  assumes "program_frame B"
  obtains p where "bm_get_register B (snd (receive_packet B S c d port proto dst)) = bm_get_register B (bm_set_register B
       (set_ns_address B (set_ns_protocol B (clear_all B p) proto) (ucast (snd (GetAddressIndex c dst))))
       PACKET_LENGTH_REG_IDX (of_nat (bm_data_size B (bm_new_packet B port (packet_id c) d))))"
proof -
  note laws = program_frameD(1) [OF assms] and frame = program_frameD(2) [OF assms]
  let ?n = "bm_new_packet B port (packet_id c) d"
  have i: "snd (GetAddressIndex (counted c (bm_data_size B ?n)) dst) = snd (GetAddressIndex c dst)"
    by (rule GetAddressIndex_same) simp_all
  have "bm_get_register B (snd (receive_packet B S c d port proto dst)) =
     bm_get_register B (bm_set_register B
       (bm_set_field B (set_ns_address B (set_ns_protocol B (clear_all B (bm_reset_metadata B (bm_set_ingress_port B ?n port))) proto)
           (ucast (snd (GetAddressIndex (counted c (bm_data_size B ?n)) dst)))) ''standard_metadata.ingress_port'' (unat port))
        PACKET_LENGTH_REG_IDX (of_nat (bm_data_size B ?n)))"
    by (simp add: receive_packet_def ConvertToBmPacket_def counted_def case_prod_beta Let_def frame frame_laws)
  also have "\<dots> = bm_get_register B (bm_set_register B
       (set_ns_address B (set_ns_protocol B (clear_all B (bm_reset_metadata B (bm_set_ingress_port B ?n port))) proto)
           (ucast (snd (GetAddressIndex c dst)))) PACKET_LENGTH_REG_IDX (of_nat (bm_data_size B ?n)))"
    by (rule ext) (simp add: register_laws_get_set [OF laws] frame frame_laws i)
  finally show thesis by (rule that)
qed

lemma receive_packet_tag:
  assumes "program_frame B"
  shows "ns_tag B (snd (receive_packet B S c d port proto dst)) = (proto, ucast (snd (GetAddressIndex c dst)))"
proof -
  obtain p where r: "bm_get_register B (snd (receive_packet B S c d port proto dst)) = bm_get_register B (bm_set_register B
       (set_ns_address B (set_ns_protocol B (clear_all B p) proto) (ucast (snd (GetAddressIndex c dst))))
       PACKET_LENGTH_REG_IDX (of_nat (bm_data_size B (bm_new_packet B port (packet_id c) d))))"
    by (rule receive_packet_register [OF assms])
  show ?thesis using ns_tag_cong [OF r] ns_tag_stored [OF program_frameD(1) [OF assms]] by simp
qed

text \<open>A packet enters the pipeline with every flag clear.\<close>

lemma reg_field_length:
  "register_laws B \<Longrightarrow> get_reg_field B f (bm_set_register B p PACKET_LENGTH_REG_IDX v) = get_reg_field B f p"
  by (rule get_reg_field_cong) (cases f; simp add: register_laws_get_set PACKET_LENGTH_REG_IDX_def)

lemma reg_field_clear: "register_laws B \<Longrightarrow> get_reg_field B f (clear_all B p) = 0"
  by (cases f) (simp_all add: reg_get_defs clear_all_register)

lemma receive_packet_flags:
  assumes "program_frame B" "f \<noteq> NsAddress" "f \<noteq> NsProtocol"
  shows "get_reg_field B f (snd (receive_packet B S c d port proto dst)) = 0"
proof -
  note laws = program_frameD(1) [OF assms(1)]
  obtain p where r: "bm_get_register B (snd (receive_packet B S c d port proto dst)) = bm_get_register B (bm_set_register B
       (set_ns_address B (set_ns_protocol B (clear_all B p) proto) (ucast (snd (GetAddressIndex c dst))))
       PACKET_LENGTH_REG_IDX (of_nat (bm_data_size B (bm_new_packet B port (packet_id c) d))))"
    by (rule receive_packet_register [OF assms(1)])
  let ?a = "ucast (snd (GetAddressIndex c dst))"
  have "get_reg_field B f (snd (receive_packet B S c d port proto dst)) = get_reg_field B f (bm_set_register B
       (set_ns_address B (set_ns_protocol B (clear_all B p) proto) ?a) PACKET_LENGTH_REG_IDX
       (of_nat (bm_data_size B (bm_new_packet B port (packet_id c) d))))"
    by (rule get_reg_field_cong) (simp add: r)
  then show ?thesis
    using get_reg_field_other [OF laws, of NsAddress f "set_ns_protocol B (clear_all B p) proto" ?a]
      get_reg_field_other [OF laws, of NsProtocol f "clear_all B p" proto] assms(2,3)
    by (simp add: reg_field_length [OF laws] reg_field_clear [OF laws])
qed

lemma receive_packet_ok:
  assumes prog: "program_frame B" and ok: "v1_ok R B m c"
  shows "v1_ok (insert (proto, dst) R) B m (fst (receive_packet B S c d port proto dst))"
    and "addr_ok (insert (proto, dst) R) B (fst (receive_packet B S c d port proto dst)) (snd (receive_packet B S c d port proto dst))"
proof -
  let ?c = "counted c (bm_data_size B (bm_new_packet B port (packet_id c) d))"
  show "v1_ok (insert (proto, dst) R) B m (fst (receive_packet B S c d port proto dst))"
    unfolding fst_receive_packet
    by (rule v1_ok_address) (simp, rule v1_ok_history [OF ok], blast)
  have wf: "addr_wf c" using ok by (simp add: v1_ok_def)
  have dl: "destination_list (fst (GetAddressIndex ?c dst)) = destination_list (fst (GetAddressIndex c dst))"
    by (rule GetAddressIndex_same) simp_all
  have "destination_list (fst (GetAddressIndex c dst)) ! unat (ucast (snd (GetAddressIndex c dst)) :: u16) = dst"
    if "length (destination_list (fst (GetAddressIndex c dst))) \<le> 65536"
    using address_index_lookup [OF wf that] .
  then show "addr_ok (insert (proto, dst) R) B (fst (receive_packet B S c d port proto dst)) (snd (receive_packet B S c d port proto dst))"
    by (simp add: addr_ok_def receive_packet_tag [OF prog] fst_receive_packet dl address_index_in_range [OF wf])
qed

lemma ReceivePacket_ok:
  assumes prog: "program_frame B" and decl: "declares B" and S: "seconds_nonneg S" and G: "groups_le B G"
    and ok: "v1_ok R B m c" and m: "m + fuel * (2 * G + 2) < 2 ^ 64"
  shows "v1_ok (insert (proto, dst) R) B (m + fuel * (2 * G + 2)) (fst (ReceivePacket fuel B S c d port proto dst))"
    and "snd (ReceivePacket fuel B S c d port proto dst) \<in> {Inr 0, Inl Blocks, Inl NoFuel}"
proof -
  obtain c1 pkt where r: "receive_packet B S c d port proto dst = (c1, pkt)" by fastforce
  let ?R = "insert (proto, dst) R"
  have ok1: "v1_ok ?R B m c1" and a: "addr_ok ?R B c1 pkt"
    using receive_packet_ok [OF prog ok, of proto dst S d port] r by simp_all
  define c2 where "c2 = c1\<lparr>in_buffer := fst (ib_push_front (in_buffer c1) NORMAL pkt)\<rparr>"
  have ok2: "v1_ok ?R B m c2" unfolding c2_def by (rule v1_ok_push_in [OF ok1 a])
  note h = HandleIngressPipeline_ok [OF prog decl S G ok2 m]
  have eq: "ReceivePacket fuel B S c d port proto dst =
      (case snd (ib_push_front (in_buffer c1) NORMAL pkt) of
         Inl e \<Rightarrow> (c2, Inl e)
       | Inr _ \<Rightarrow> (case HandleIngressPipeline fuel B S c2 of (c, Inl e) \<Rightarrow> (c, Inl e) | (c, Inr _) \<Rightarrow> (c, Inr 0)))"
    by (simp add: ReceivePacket_def r c2_def case_prod_beta Let_def del: ib_push_front.simps split: sum.split)
  have okm: "v1_ok ?R B (m + fuel * (2 * G + 2)) c2" using ok2 by (rule v1_ok_mono) simp
  have "v1_ok ?R B (m + fuel * (2 * G + 2)) (fst (ReceivePacket fuel B S c d port proto dst)) \<and>
      snd (ReceivePacket fuel B S c d port proto dst) \<in> {Inr 0, Inl Blocks, Inl NoFuel}"
  proof (cases "snd (ib_push_front (in_buffer c1) NORMAL pkt)")
    case (Inl e)
    then have "e = Blocks" using ib_push_stop [of "in_buffer c1" NORMAL pkt e] by blast
    with okm show ?thesis unfolding eq Inl by simp
  next
    case (Inr u)
    show ?thesis
      unfolding eq Inr sum.case case_prod_beta
      using h by (cases "snd (HandleIngressPipeline fuel B S c2)") auto
  qed
  then show "v1_ok ?R B (m + fuel * (2 * G + 2)) (fst (ReceivePacket fuel B S c d port proto dst))"
    and "snd (ReceivePacket fuel B S c d port proto dst) \<in> {Inr 0, Inl Blocks, Inl NoFuel}"
    by blast+
qed

subsection \<open>The egress handler\<close>

lemma v1_ok_pop_eg:
  assumes ok: "v1_ok R B m c" and r: "eq_pop_back S (egress_buffer c) 0 = (eg, r)"
  shows "v1_ok R B m (c\<lparr>egress_buffer := eg\<rparr>)"
    and "r = Inr None \<or> (\<exists>q p x. r = Inr (Some (q, p, x)) \<and> addr_ok R B c x)"
proof -
  have wf: "eq_wf (egress_buffer c)" and w: "0 < length (workers_info (egress_buffer c))"
    using ok by (simp_all add: v1_ok_def)
  note p = eq_pop_packets [OF wf w r]
  show "v1_ok R B m (c\<lparr>egress_buffer := eg\<rparr>)"
    using ok p(1) eq_wf_pop_back [OF wf, of S 0] counters_le_pop [of m "egress_buffer c" S 0]
      length_workers_pop [of S "egress_buffer c" 0] nb_pop [of S "egress_buffer c" 0]
    by (auto simp: v1_ok_def r core_packets_def)
  show "r = Inr None \<or> (\<exists>q p x. r = Inr (Some (q, p, x)) \<and> addr_ok R B c x)"
    using p(2) ok by (auto simp: v1_ok_def core_packets_def)
qed

lemma egress_queueing_ok:
  assumes "program_frame B" "declares B"
  shows "egress_queueing B S c port pkt = Inr None \<or>
    (\<exists>pkt'. egress_queueing B S c port pkt = Inr (Some pkt') \<and> bm_get_register B pkt' = bm_get_register B pkt)"
  using assms(2) program_frameD(2) [OF assms(1)]
  by (auto simp: egress_queueing_def declares_def Let_def frame_laws)

lemma egress_clone_ok:
  assumes prog: "program_frame B" and decl: "declares B" and S: "seconds_nonneg S" and G: "groups_le B G"
    and ok: "v1_ok R B m c" and m: "m + G + 1 < 2 ^ 64" and pkt: "addr_ok R B c pkt"
  obtains eg pkt' where "egress_clone B S c pkt = ((c\<lparr>egress_buffer := eg\<rparr>, pkt'), Inr ())"
    and "v1_ok R B (m + G + 1) (c\<lparr>egress_buffer := eg\<rparr>)"
    and "ns_tag B pkt' = ns_tag B pkt"
proof -
  note laws = program_frameD(1) [OF prog]
  let ?pkt = "set_clone_field_list B (set_clone_mirror_session_id B pkt 0) 0"
  have okG: "v1_ok R B (m + G + 1) c" using ok by (rule v1_ok_mono) simp
  show thesis
  proof (cases "get_clone_mirror_session_id B pkt = 0")
    case True
    with okG show thesis
      by (intro that [of "egress_buffer c" pkt]) (simp_all add: egress_clone_def Let_def)
  next
    case nz: False
    show thesis
    proof (cases "GetMirroringSession c (uint (get_clone_mirror_session_id B pkt AND MIRROR_SESSION_ID_MASK))")
      case None
      with nz okG show thesis
        by (intro that [of "egress_buffer c" ?pkt]) (simp_all add: egress_clone_def Let_def laws)
    next
      case (Some cfg)
      define copy where "copy = bm_set_register B (clear_all B (bm_set_field B
          (bm_copy_fields B (unat (get_clone_field_list B pkt)) ?pkt (bm_clone_with_phv_reset_metadata B ?pkt))
          ''standard_metadata.instance_type'' (instance_code PKT_INSTANCE_TYPE_EGRESS_CLONE)))
          PACKET_LENGTH_REG_IDX (bm_get_register B ?pkt PACKET_LENGTH_REG_IDX)"
      have "addr_ok R B c copy" unfolding copy_def by (rule addr_ok_cleared [OF laws pkt])
      then obtain eg where "mirror_copy B S c cfg copy = (c\<lparr>egress_buffer := eg\<rparr>, Inr ())"
        and "v1_ok R B (m + G + 1) (c\<lparr>egress_buffer := eg\<rparr>)"
        using mirror_copy_ok [OF prog decl S G ok m, of copy cfg] by metis
      with nz Some show thesis
        by (intro that [of eg ?pkt]) (simp_all add: egress_clone_def Let_def copy_def laws)
    qed
  qed
qed

lemma v1_ok_sent:
  "v1_ok R B m c \<Longrightarrow> send_ok R c call \<Longrightarrow> v1_ok R B m (c\<lparr>sent := sent c @ [call]\<rparr>)"
  by (auto simp: v1_ok_def core_packets_def)

lemma recirculate_copy_ok:
  assumes "program_frame B" "addr_ok R B c pkt"
  shows "addr_ok R B c (recirculate_copy B pkt fl)"
proof -
  have "\<exists>q v. bm_get_register B (recirculate_copy B pkt fl) =
      bm_get_register B (bm_set_register B (clear_all B q) PACKET_LENGTH_REG_IDX v)"
    using program_frameD(2,8) [OF assms(1)]
    unfolding recirculate_copy_def Let_def by (simp add: frame_laws) blast
  then obtain q v where r: "bm_get_register B (recirculate_copy B pkt fl) =
      bm_get_register B (bm_set_register B (clear_all B q) PACKET_LENGTH_REG_IDX v)" by blast
  from addr_ok_cong [OF r, of R c] show ?thesis
    using addr_ok_cleared [OF program_frameD(1) [OF assms(1)] assms(2)] by simp
qed

lemma egress_finish_ok:
  assumes prog: "program_frame B" and decl: "declares B" and S: "seconds_nonneg S" and G: "groups_le B G"
    and ok: "v1_ok R B m c" and m: "m + G + 1 < 2 ^ 64" and pkt: "addr_ok R B c pkt"
  shows "v1_ok R B (m + G + 1) (fst (egress_finish B S c port pkt)) \<and> snd (egress_finish B S c port pkt) = Inr True"
proof -
  define pkt1 where "pkt1 = bm_set_field B (bm_set_field B (bm_set_field B pkt ''standard_metadata.egress_port'' port)
      ''standard_metadata.egress_spec'' 0) ''standard_metadata.packet_length''
      (unat (bm_get_register B (bm_set_field B (bm_set_field B pkt ''standard_metadata.egress_port'' port)
      ''standard_metadata.egress_spec'' 0) PACKET_LENGTH_REG_IDX))"
  obtain w pkt2 where ap: "bm_apply B ''egress'' (world c) pkt1 = (w, pkt2)" by fastforce
  have "ns_tag B pkt2 = ns_tag B pkt"
    using program_frameD(2) [OF prog] program_frameD(4) [OF prog, of "''egress''" "world c" pkt1] ap
    by (simp add: pkt1_def)
  then have a2: "addr_ok R B (c\<lparr>world := w\<rparr>) pkt2" using pkt by (simp add: addr_ok_def)
  have okw: "v1_ok R B m (c\<lparr>world := w\<rparr>)" using ok by simp
  obtain eg pkt3 where cl: "egress_clone B S (c\<lparr>world := w\<rparr>) pkt2 = ((c\<lparr>world := w\<rparr>\<lparr>egress_buffer := eg\<rparr>, pkt3), Inr ())"
    and ok3: "v1_ok R B (m + G + 1) (c\<lparr>world := w\<rparr>\<lparr>egress_buffer := eg\<rparr>)"
    and g3: "ns_tag B pkt3 = ns_tag B pkt2"
    by (rule egress_clone_ok [OF prog decl S G okw m a2])
  define c3 where "c3 = c\<lparr>world := w\<rparr>\<lparr>egress_buffer := eg\<rparr>"
  have a3: "addr_ok R B c3 pkt3" using a2 g3 by (simp add: c3_def addr_ok_def)
  obtain w4 pkt4 where dp: "bm_deparse B ''deparser'' (world c3) pkt3 = (w4, pkt4)" by fastforce
  define c4 where "c4 = c3\<lparr>world := w4\<rparr>"
  have "ns_tag B pkt4 = ns_tag B pkt3"
    using program_frameD(5) [OF prog, of "''deparser''" "world c3" pkt3] dp by simp
  then have a4: "addr_ok R B c4 pkt4" using a3 by (simp add: c4_def addr_ok_def)
  have ok4: "v1_ok R B (m + G + 1) c4" using ok3 by (simp add: c4_def c3_def)
  have fin: "egress_finish B S c port pkt =
      (if get_uint B pkt3 ''standard_metadata.egress_spec'' = drop_port c3 then (c3, Inr True)
       else if get_recirculate_flag B pkt4 \<noteq> 0
            then (c4\<lparr>in_buffer := fst (ib_push_front (in_buffer c4) RECIRCULATE (recirculate_copy B pkt4 (get_recirculate_flag B pkt4)))\<rparr>, Inr True)
            else egress_send B c4 port pkt4)"
    by (simp add: egress_finish_def Let_def pkt1_def [symmetric] ap cl c3_def [symmetric] dp c4_def [symmetric]
        case_prod_beta del: ib_push_front.simps)
  define call where "call = \<lparr>send_data = ConvertToNs3Packet B pkt4, send_port = port,
         send_protocol = get_ns_protocol B pkt4, send_destination = destination_list c4 ! unat (get_ns_address B pkt4)\<rparr>"
  have es: "egress_send B c4 port pkt4 = (c4\<lparr>sent := sent c4 @ [call]\<rparr>, Inr True)"
    using a4 by (simp add: egress_send_def addr_ok_def ns_tag_def Let_def call_def)
  have "send_ok R c4 call"
    using a4 by (auto simp: send_ok_def addr_ok_def ns_tag_def call_def)
  from v1_ok_sent [OF ok4 this] show ?thesis
    unfolding fin es using ok3 ok4 v1_ok_push_in [OF ok4 recirculate_copy_ok [OF prog a4]]
    by (simp add: c3_def [symmetric] del: ib_push_front.simps)
qed

lemma HandleEgressPipeline_ok:
  assumes prog: "program_frame B" and decl: "declares B" and S: "seconds_nonneg S" and G: "groups_le B G"
    and ok: "v1_ok R B m c" and m: "m + G + 1 < 2 ^ 64"
  shows "v1_ok R B (m + G + 1) (fst (HandleEgressPipeline B S c 0))
    \<and> (\<exists>b. snd (HandleEgressPipeline B S c 0) = Inr b)"
proof -
  have okG: "v1_ok R B (m + G + 1) c" using ok by (rule v1_ok_mono) simp
  obtain eg r where pop: "eq_pop_back S (egress_buffer c) 0 = (eg, r)" by fastforce
  define c1 where "c1 = c\<lparr>egress_buffer := eg\<rparr>"
  have ok1: "v1_ok R B m c1" unfolding c1_def by (rule v1_ok_pop_eg [OF ok pop])
  have okG1: "v1_ok R B (m + G + 1) c1" using ok1 by (rule v1_ok_mono) simp
  from v1_ok_pop_eg(2) [OF ok pop]
  show ?thesis
  proof (elim disjE exE conjE)
    assume "r = Inr None"
    with pop okG okG1 show ?thesis by (auto simp: HandleEgressPipeline_def c1_def)
  next
    fix q p x assume r: "r = Inr (Some (q, p, x))" and a: "addr_ok R B c x"
    define c2 where "c2 = (if enable_tracing c1
                          then c1\<lparr>egress_pps := egress_pps c1 + 1,
                                 egress_bps := egress_bps c1 + of_nat (bm_data_size B x * 8)\<rparr> else c1)"
    define x1 where "x1 = set_if_present B x ''intrinsic_metadata.egress_global_timestamp'' (unat (GetTimeStamp S c2))"
    have ok2: "v1_ok R B m c2" by (rule v1_ok_same [OF ok1]) (simp_all add: c2_def)
    have okG2: "v1_ok R B (m + G + 1) c2" using ok2 by (rule v1_ok_mono) simp
    have x1: "bm_get_register B x1 = bm_get_register B x"
      using program_frameD(2) [OF prog] by (simp add: x1_def)
    have h: "HandleEgressPipeline B S c 0 =
       (if \<forall>i \<in> set [0..<SSWITCH_VIRTUAL_QUEUE_NUM_V1MODEL]. eq_size (egress_buffer c) i = 0 then (c, Inr False)
        else case egress_queueing B S c2 q x1 of
               Inl e \<Rightarrow> (c2, Inl e) | Inr None \<Rightarrow> (c2, Inr True) | Inr (Some pkt) \<Rightarrow> egress_finish B S c2 q pkt)"
      by (simp only: HandleEgressPipeline_def Let_def pop r prod.case sum.case option.case c1_def [symmetric]
          c2_def [symmetric] x1_def [symmetric])
    from egress_queueing_ok [OF prog decl, of S c2 q x1] show ?thesis
    proof (elim disjE exE conjE)
      assume "egress_queueing B S c2 q x1 = Inr None"
      with okG okG2 show ?thesis by (auto simp: h)
    next
      fix x2 assume q2: "egress_queueing B S c2 q x1 = Inr (Some x2)" and "bm_get_register B x2 = bm_get_register B x1"
      then have "bm_get_register B x2 = bm_get_register B x" using x1 by simp
      from addr_ok_cong [OF this, of R c2] have "addr_ok R B c2 x2" using a by (simp add: c2_def c1_def addr_ok_def)
      from egress_finish_ok [OF prog decl S G ok2 m this, of q] okG q2 show ?thesis by (auto simp: h)
    qed
  qed
qed

subsection \<open>Every reachable state\<close>

text \<open>
  The states of a v1model switch: construction, start, packets from the ports, the two timers,
  the runtime settings, and changes of the program state from outside (table updates). \<open>m\<close> counts
  the pushes into the egress buffer that the history can have made, with groups of at most \<open>G\<close>
  copies; the history stops before 2^64 of them. \<open>R\<close> is the set of protocol numbers and
  destinations of the packets received.
\<close>

inductive v1_reach :: "('p, 'b, 'w) bm \<Rightarrow> nat \<Rightarrow> nat \<Rightarrow> (u16 \<times> 'addr) set \<Rightarrow> ('addr, 'w, 'p) v1model \<Rightarrow> bool"
  for B :: "('p, 'b, 'w) bm" and G :: nat where
  new: "P4CoreV1model S tr rate low high qsize nbq pid w st = ((c, Inr ()), st') \<Longrightarrow> nbq \<le> 32 \<Longrightarrow> v1_reach B G 0 {} c"
| start: "v1_reach B G m R c \<Longrightarrow> v1_reach B G m R (start_and_return fe c)"
| receive: "v1_reach B G m R c \<Longrightarrow> seconds_nonneg S \<Longrightarrow> m + fuel * (2 * G + 2) < 2 ^ 64 \<Longrightarrow>
    v1_reach B G (m + fuel * (2 * G + 2)) (insert (proto, dst) R) (fst (ReceivePacket fuel B S c d port proto dst))"
| egress_timer: "v1_reach B G m R c \<Longrightarrow> seconds_nonneg S \<Longrightarrow> m + G + 1 < 2 ^ 64 \<Longrightarrow>
    v1_reach B G (m + G + 1) R (fst (SetEgressTimerEvent B S c))"
| egress: "v1_reach B G m R c \<Longrightarrow> seconds_nonneg S \<Longrightarrow> m + G + 1 < 2 ^ 64 \<Longrightarrow>
    v1_reach B G (m + G + 1) R (fst (HandleEgressPipeline B S c 0))"
| stats: "v1_reach B G m R c \<Longrightarrow> v1_reach B G m R (fst (CalculatePacketsPerSecond log_open n c))"
| world: "v1_reach B G m R c \<Longrightarrow> v1_reach B G m R (c\<lparr>world := w\<rparr>)"
| add_session: "v1_reach B G m R c \<Longrightarrow> v1_reach B G m R (fst (AddMirroringSession c i cfg))"
| delete_session: "v1_reach B G m R c \<Longrightarrow> v1_reach B G m R (fst (DeleteMirroringSession c i))"
| depth_pri: "v1_reach B G m R c \<Longrightarrow> seconds_nonneg S \<Longrightarrow> v1_reach B G m R (fst (SetEgressPriorityQueueDepth S c q p n))"
| depth: "v1_reach B G m R c \<Longrightarrow> seconds_nonneg S \<Longrightarrow> v1_reach B G m R (fst (SetEgressQueueDepth S c q n))"
| depth_all: "v1_reach B G m R c \<Longrightarrow> v1_reach B G m R (fst (SetAllEgressQueueDepths c n))"
| rate_pri: "v1_reach B G m R c \<Longrightarrow> seconds_nonneg S \<Longrightarrow> v1_reach B G m R (fst (SetEgressPriorityQueueRate S c q p r))"
| rate: "v1_reach B G m R c \<Longrightarrow> seconds_nonneg S \<Longrightarrow> v1_reach B G m R (fst (SetEgressQueueRate S c q r))"
| rate_all: "v1_reach B G m R c \<Longrightarrow> seconds_nonneg S \<Longrightarrow> v1_reach B G m R (fst (SetAllEgressQueueRates S c r))"

text \<open>An update of the egress buffer that moves no packet.\<close>

lemma v1_ok_retuned:
  assumes "v1_ok R B m c" "eq_wf eg" "workers_info eg = workers_info (egress_buffer c)"
    "nb_priorities eg = nb_priorities (egress_buffer c)" "map_to_worker eg = map_to_worker (egress_buffer c)"
  shows "v1_ok R B m (c\<lparr>egress_buffer := eg\<rparr>)"
proof -
  have "eq_contents eg = eq_contents (egress_buffer c)"
    by (simp add: eq_contents_def class_entries_def fun_eq_iff assms)
  with assms show ?thesis
    by (simp add: v1_ok_def core_packets_def egress_packets_def counters_le_def)
qed

lemma retune_frame:
  "workers_info (for_each_q S eg q fn) = workers_info eg" "nb_priorities (for_each_q S eg q fn) = nb_priorities eg"
  "map_to_worker (for_each_q S eg q fn) = map_to_worker eg"
  "workers_info (fst (for_one_q S eg q p fn)) = workers_info eg" "nb_priorities (fst (for_one_q S eg q p fn)) = nb_priorities eg"
  "map_to_worker (fst (for_one_q S eg q p fn)) = map_to_worker eg"
  "workers_info (for_all_q eg fn) = workers_info eg" "nb_priorities (for_all_q eg fn) = nb_priorities eg"
  "map_to_worker (for_all_q eg fn) = map_to_worker eg"
  by (simp_all add: for_each_q_def for_one_q_def for_all_q_def case_prod_beta Let_def)

lemma v1_ok_settings:
  assumes ok: "v1_ok R B m c" and S: "seconds_nonneg S"
  shows "v1_ok R B m (fst (SetEgressPriorityQueueDepth S c q p n))" "v1_ok R B m (fst (SetEgressQueueDepth S c q n))"
    "v1_ok R B m (fst (SetEgressPriorityQueueRate S c q p r))" "v1_ok R B m (fst (SetEgressQueueRate S c q r))"
    "v1_ok R B m (fst (SetAllEgressQueueRates S c r))"
proof -
  have wf: "eq_wf (egress_buffer c)" using ok by (simp add: v1_ok_def)
  note w = eq_wf_setters [OF wf S]
  note d = SetEgressPriorityQueueDepth_def SetEgressQueueDepth_def SetEgressPriorityQueueRate_def SetEgressQueueRate_def
    SetAllEgressQueueRates_def
  note e = set_capacity_def set_capacity_pri_def set_rate_def set_rate_pri_def set_rate_for_all_def
  show "v1_ok R B m (fst (SetEgressPriorityQueueDepth S c q p n))"
    by (simp add: d case_prod_beta, intro v1_ok_retuned [OF ok w(2)]) (simp_all add: e retune_frame)
  show "v1_ok R B m (fst (SetEgressQueueDepth S c q n))"
    by (simp add: d, intro v1_ok_retuned [OF ok w(1)]) (simp_all add: e retune_frame)
  show "v1_ok R B m (fst (SetEgressPriorityQueueRate S c q p r))"
    by (simp add: d case_prod_beta, intro v1_ok_retuned [OF ok w(5)]) (simp_all add: e retune_frame)
  show "v1_ok R B m (fst (SetEgressQueueRate S c q r))"
    by (simp add: d, intro v1_ok_retuned [OF ok w(4)]) (simp_all add: e retune_frame)
  show "v1_ok R B m (fst (SetAllEgressQueueRates S c r))"
    by (simp add: d, intro v1_ok_retuned [OF ok w(6)]) (simp_all add: e retune_frame)
qed

lemma v1_ok_depth_all: "v1_ok R B m c \<Longrightarrow> v1_ok R B m (fst (SetAllEgressQueueDepths c n))"
  unfolding SetAllEgressQueueDepths_def fst_conv
  by (rule v1_ok_retuned)
    (simp_all add: v1_ok_def eq_wf_set_capacity_for_all, simp_all add: set_capacity_for_all_def retune_frame)

lemma v1_ok_new:
  fixes c :: "('addr, 'w, 'p) v1model"
  assumes "P4CoreV1model S tr rate low high qsize nbq pid w st = ((c, Inr ()), st')" "nbq \<le> 32"
  shows "v1_ok {} B 0 c"
proof -
  let ?eg = "NSQueueingLogicPriRL nbEgressThreads qsize (EgressThreadMapper nbEgressThreads) nbq :: 'p egress"
  have m: "\<And>q. EgressThreadMapper nbEgressThreads q < nbEgressThreads"
    by (simp add: EgressThreadMapper_def nbEgressThreads_def)
  have eg: "egress_buffer c = ?eg\<lparr>queue_rate_pps := unat rate\<rparr>" "in_buffer c = InputBuffer low high"
    "nb_queues_per_port c = nbq" "destination_list c = []" "address_map c = (\<lambda>_. None)" "sent c = []"
    using assms(1) by (auto simp: P4CoreV1model_def CalculateScheduleTime_def case_prod_beta Let_def
        switch_core.extend_def v1model.fields_def P4SwitchCore_def set_rate_for_all_new split: if_splits)
  have "eq_wf ?eg" using assms(2) m by (rule eq_wf_new)
  moreover have "eq_contents (?eg\<lparr>queue_rate_pps := unat rate\<rparr>) = eq_contents ?eg"
    by (simp add: eq_contents_def class_entries_def fun_eq_iff)
  moreover have "eq_contents ?eg d = []" for d using m assms(2) by simp
  moreover have "counters_le 0 ?eg" by (rule counters_le_new)
  moreover have "nb_priorities ?eg = nbq" "length (workers_info ?eg) = 1"
    by (simp_all add: NSQueueingLogicPriRL_def nbEgressThreads_def)
  moreover have "addr_wf c" by (simp add: addr_wf_def eg)
  ultimately show ?thesis
    by (simp add: v1_ok_def eg core_packets_def egress_packets_def counters_le_def ib_wf_new, simp add: InputBuffer_def)
qed

lemma v1_ok_SetEgressTimerEvent:
  assumes prog: "program_frame B" and decl: "declares B" and S: "seconds_nonneg S" and G: "groups_le B G"
    and ok: "v1_ok R B m c" and m: "m + G + 1 < 2 ^ 64"
  shows "v1_ok R B (m + G + 1) (fst (SetEgressTimerEvent B S c))" "snd (SetEgressTimerEvent B S c) = Inr ()"
proof -
  obtain c1 b where h: "HandleEgressPipeline B S c 0 = (c1, Inr b)" "v1_ok R B (m + G + 1) c1"
    using HandleEgressPipeline_ok [OF prog decl S G ok m] by (metis prod.collapse)
  show "v1_ok R B (m + G + 1) (fst (SetEgressTimerEvent B S c))"
    by (rule v1_ok_same [OF h(2)]) (simp_all add: SetEgressTimerEvent_def h(1) Let_def schedule_def)
  show "snd (SetEgressTimerEvent B S c) = Inr ()"
    by (simp add: SetEgressTimerEvent_def h(1) Let_def)
qed

lemma v1_reach_ok:
  assumes prog: "program_frame B" and decl: "declares B" and G: "groups_le B G"
  shows "v1_reach B G m R c \<Longrightarrow> v1_ok R B m c"
proof (induction rule: v1_reach.induct)
  case (new S tr rate low high qsize nbq pid w st c st')
  then show ?case by (rule v1_ok_new)
next
  case (start m R c fe)
  show ?case by (rule v1_ok_same [OF start.IH])
      (simp_all add: start_and_return_def CheckQueueingMetadata_def schedule_def Let_def)
next
  case (receive m R c S fuel d port proto dst)
  then show ?case by (intro ReceivePacket_ok [OF prog decl _ G])
next
  case (egress_timer m R c S)
  then show ?case by (intro v1_ok_SetEgressTimerEvent [OF prog decl _ G])
next
  case (egress m R c S)
  then show ?case using HandleEgressPipeline_ok [OF prog decl _ G] by blast
next
  case (stats m R c log_open n)
  show ?case by (rule v1_ok_same [OF stats.IH])
      (simp_all add: CalculatePacketsPerSecond_def schedule_def Let_def split: sum.split)
next
  case (add_session m R c i cfg)
  show ?case by (rule v1_ok_same [OF add_session.IH]) (simp_all add: AddMirroringSession_def case_prod_beta)
next
  case (delete_session m R c i)
  show ?case by (rule v1_ok_same [OF delete_session.IH]) (simp_all add: DeleteMirroringSession_def case_prod_beta)
qed (simp_all add: v1_ok_settings v1_ok_depth_all)

end
