(* ===== verification/V1model_Properties.thy ===== *)
theory V1model_Properties
  imports V1model_Safety
begin

text \<open>
  Properties of the v1model switch: what each handler leaves alone, what becomes of a packet
  that is forwarded, dropped, replicated or resubmitted, the ns-3 tags of everything that is
  sent, and the timers.
\<close>

subsection \<open>What the ingress steps leave alone\<close>

text \<open>Everything but the egress buffer and the program state.\<close>

definition only_egress :: "('addr, 'w, 'p) v1model \<Rightarrow> ('addr, 'w, 'p) v1model \<Rightarrow> bool" where
  "only_egress c c' \<longleftrightarrow> (\<exists>eg w. c' = c\<lparr>egress_buffer := eg, world := w\<rparr>)"

lemma only_egress_refl [simp, intro]: "only_egress c c"
  unfolding only_egress_def by (intro exI [of _ "egress_buffer c"] exI [of _ "world c"]) simp

lemma only_egress_trans: "only_egress c c' \<Longrightarrow> only_egress c' c'' \<Longrightarrow> only_egress c c''"
  unfolding only_egress_def by (elim exE) (simp, blast)

lemma only_egress_update [simp, intro]:
  "only_egress c (c\<lparr>egress_buffer := eg\<rparr>)" "only_egress c (c\<lparr>world := w\<rparr>)"
  unfolding only_egress_def
  by (intro exI [of _ eg] exI [of _ "world c"], simp) (intro exI [of _ "egress_buffer c"] exI [of _ w], simp)

lemma only_egressD:
  assumes "only_egress c c'"
  shows "in_buffer c' = in_buffer c" "sent c' = sent c" "destination_list c' = destination_list c"
    "drop_port c' = drop_port c" "nb_queues_per_port c' = nb_queues_per_port c" "scheduled c' = scheduled c"
  using assms by (auto simp: only_egress_def)

lemma Enqueue_only: "only_egress c (fst (Enqueue B S c port pkt))"
  by (auto simp: Enqueue_def Let_def case_prod_beta)

lemma multicast_loop_only: "only_egress c (fst (fst (multicast_loop B S sz outs c pkt)))"
proof (induction outs arbitrary: c pkt)
  case Nil
  then show ?case by simp
next
  case (Cons out outs)
  obtain port rid where out: "out = (port, rid)" by fastforce
  define copy where "copy = bm_set_register B (clear_all B (bm_clone_with_phv B
      (bm_set_field B pkt ''intrinsic_metadata.egress_rid'' rid))) PACKET_LENGTH_REG_IDX sz"
  obtain c1 r where e: "Enqueue B S c port copy = (c1, r)" by fastforce
  have "only_egress c c1" using Enqueue_only [of c B S port copy] e by simp
  with Cons.IH [of c1] show ?case
    by (auto simp: out Let_def copy_def [symmetric] e split: sum.split intro: only_egress_trans)
qed

lemma MulticastPacket_only: "only_egress c (fst (fst (MulticastPacket B S c pkt g)))"
  by (simp add: MulticastPacket_def multicast_loop_only)

lemma mirror_copy_only: "only_egress c (fst (mirror_copy B S c cfg pkt))"
proof -
  define r where "r = (if cfg_mgid_valid cfg then MulticastPacket B S c pkt (cfg_mgid cfg) else ((c, pkt), Inr ()))"
  have "only_egress c (fst (fst r))" by (simp add: r_def MulticastPacket_only)
  then show ?thesis
    unfolding mirror_copy_def r_def [symmetric]
    by (auto split: prod.split sum.split intro: only_egress_trans [OF _ Enqueue_only])
qed

lemma ingress_clone_only: "only_egress c (fst (fst (ingress_clone B S c pkt st port sz)))"
  by (auto simp: ingress_clone_def Let_def case_prod_beta split: option.split sum.split
      intro: only_egress_trans [OF only_egress_update(2) mirror_copy_only])

lemma ingress_forward_only: "only_egress c (fst (ingress_forward B S c pkt g spec))"
  by (simp add: ingress_forward_def case_prod_beta MulticastPacket_only Enqueue_only)

lemma ingress_program_only: "only_egress c (fst (ingress_program B c pkt))"
  by (simp add: ingress_program_def case_prod_beta Let_def)

lemma ingress_learn_only: "only_egress c (ingress_learn B c pkt l)"
  by (simp add: ingress_learn_def)

text \<open>One round of \<open>pkt\<close> through the ingress program asks for a resubmission of \<open>copy\<close>.\<close>

definition resubmitted ::
  "('p, 'b, 'w) bm \<Rightarrow> sim \<Rightarrow> ('addr, 'w, 'p) v1model \<Rightarrow> 'p \<Rightarrow> 'p \<Rightarrow> bool" where
  "resubmitted B S c pkt copy \<longleftrightarrow>
     (\<exists>c1 pkt1 c2 pkt2. ingress_program B c pkt = (c1, pkt1) \<and>
        ingress_clone B S c1 pkt1 (bm_save_buffer_state B pkt) (bm_get_ingress_port B pkt)
          (bm_get_register B pkt PACKET_LENGTH_REG_IDX) = ((c2, pkt2), Inr ()) \<and>
        get_resubmit_flag B pkt2 \<noteq> 0 \<and>
        copy = resubmit_copy B pkt2 (bm_save_buffer_state B pkt) (get_resubmit_flag B pkt2)
          (bm_get_register B pkt PACKET_LENGTH_REG_IDX))"

text \<open>None of the steps of a round runs out of fuel.\<close>

lemma Enqueue_fuel: "snd (Enqueue B S c q p) \<noteq> Inl NoFuel"
  by (auto simp: Enqueue_def Let_def eq_push_front_def case_prod_beta split: sum.splits)

lemma multicast_loop_fuel: "snd (multicast_loop B S n outs c p) \<noteq> Inl NoFuel"
proof (induction outs arbitrary: c p)
  case (Cons x outs)
  obtain q rid where x: "x = (q, rid)" by fastforce
  show ?case
    using Cons by (auto simp: x Let_def case_prod_beta Enqueue_fuel split: sum.split)
qed simp

lemma MulticastPacket_fuel: "snd (MulticastPacket B S c p g) \<noteq> Inl NoFuel"
  by (auto simp: MulticastPacket_def Let_def multicast_loop_fuel)

lemma mirror_copy_fuel: "snd (mirror_copy B S c cfg p) \<noteq> Inl NoFuel"
  by (auto simp: Enqueue_fuel MulticastPacket_fuel mirror_copy_def Let_def case_prod_beta split: sum.split)

lemma ingress_clone_fuel: "snd (ingress_clone B S c p st q n) \<noteq> Inl NoFuel"
  by (auto simp: mirror_copy_fuel ingress_clone_def Let_def case_prod_beta split: sum.split option.split)

lemma ingress_forward_fuel: "snd (ingress_forward B S c p g q) \<noteq> Inl NoFuel"
  by (auto simp: Enqueue_fuel MulticastPacket_fuel ingress_forward_def Let_def case_prod_beta split: sum.split)

text \<open>One round of the ingress handler, in the cases its control flow distinguishes.\<close>

lemma ingress_round:
  obtains (idle) "\<And>fuel. HandleIngressPipeline (Suc fuel) B S c = (c, Inr ())"
      "queue_hi (in_buffer c) = []" "queue_lo (in_buffer c) = []"
  | (stop) ib pkt c' e where "ib_pop_back (in_buffer c) = (ib, Some pkt)" "only_egress (c\<lparr>in_buffer := ib\<rparr>) c'"
      "\<And>fuel. HandleIngressPipeline (Suc fuel) B S c = (c', Inl e)" "e \<noteq> NoFuel"
  | (finished) ib pkt c' where "ib_pop_back (in_buffer c) = (ib, Some pkt)" "only_egress (c\<lparr>in_buffer := ib\<rparr>) c'"
      "\<And>fuel. HandleIngressPipeline (Suc fuel) B S c = (c', Inr ())"
  | (again) ib pkt c' copy where "ib_pop_back (in_buffer c) = (ib, Some pkt)" "only_egress (c\<lparr>in_buffer := ib\<rparr>) c'"
      "\<And>fuel. HandleIngressPipeline (Suc fuel) B S c =
         HandleIngressPipeline fuel B S (c'\<lparr>in_buffer := fst (ib_push_front ib RESUBMIT copy)\<rparr>)"
      "resubmitted B S (c\<lparr>in_buffer := ib\<rparr>) pkt copy"
proof -
  obtain ib popped where pop: "ib_pop_back (in_buffer c) = (ib, popped)" by fastforce
  define c0 where "c0 = c\<lparr>in_buffer := ib\<rparr>"
  show thesis
  proof (cases popped)
    case None
    with pop have "ib = in_buffer c" using ib_pop_None [of "in_buffer c"] by simp
    with None pop ib_pop_None_iff [of "in_buffer c"] show thesis by (intro idle) simp_all
  next
    case (Some pkt0)
    obtain c1 pkt where ip: "ingress_program B c0 pkt0 = (c1, pkt)" by fastforce
    have o1: "only_egress c0 c1" using ingress_program_only [of c0 B pkt0] ip by simp
    define st where "st = bm_save_buffer_state B pkt0"
    define sz where "sz = bm_get_register B pkt0 PACKET_LENGTH_REG_IDX"
    obtain c2 pkt2 r where cl: "ingress_clone B S c1 pkt st (bm_get_ingress_port B pkt0) sz = ((c2, pkt2), r)"
      by (metis prod.collapse)
    have o2: "only_egress c0 c2"
      using only_egress_trans [OF o1] ingress_clone_only [of c1 B S pkt st "bm_get_ingress_port B pkt0" sz] cl by simp
    note defs = pop Some c0_def [symmetric] ip st_def [symmetric] sz_def [symmetric] cl
    show thesis
    proof (cases r)
      case (Inl e)
      moreover have "e \<noteq> NoFuel" using ingress_clone_fuel cl Inl by (metis snd_conv)
      ultimately show thesis using o2
        by (intro stop [of ib pkt0 c2 e]) (simp_all add: defs)
    next
      case (Inr u)
      define c3 where "c3 = ingress_learn B c2 pkt2 (get_lf_field_list B pkt)"
      have o3: "only_egress c0 c3" unfolding c3_def by (rule only_egress_trans [OF o2 ingress_learn_only])
      show thesis
      proof (cases "get_resubmit_flag B pkt2 = 0")
        case True
        define c4r where "c4r = ingress_forward B S c3 pkt2
            (if bm_has_field B pkt ''intrinsic_metadata.mcast_grp'' then get_uint B pkt ''intrinsic_metadata.mcast_grp'' else 0)
            (get_uint B pkt ''standard_metadata.egress_spec'')"
        have o4: "only_egress c0 (fst c4r)" unfolding c4r_def by (rule only_egress_trans [OF o3 ingress_forward_only])
        have h: "HandleIngressPipeline (Suc fuel) B S c = c4r" for fuel
          using Inr True by (simp add: defs c3_def [symmetric] c4r_def)
        show thesis
        proof (cases "snd c4r")
          case (Inl e)
          moreover have "e \<noteq> NoFuel" using ingress_forward_fuel Inl unfolding c4r_def by metis
          ultimately show thesis using o4 h by (intro stop [of ib pkt0 "fst c4r" e]) (simp_all add: pop Some c0_def prod_eq_iff)
        next
          case (Inr u)
          with o4 h show thesis by (intro finished [of ib pkt0 "fst c4r"]) (simp_all add: pop Some c0_def prod_eq_iff)
        qed
      next
        case False
        define copy where "copy = resubmit_copy B pkt2 st (get_resubmit_flag B pkt2) sz"
        have "in_buffer c3 = ib" using only_egressD(1) [OF o3] by (simp add: c0_def)
        with False Inr have "HandleIngressPipeline (Suc fuel) B S c =
            HandleIngressPipeline fuel B S (c3\<lparr>in_buffer := fst (ib_push_front ib RESUBMIT copy)\<rparr>)" for fuel
          by (simp add: defs c3_def [symmetric] copy_def case_prod_beta del: ib_push_front.simps)
        moreover have "resubmitted B S (c\<lparr>in_buffer := ib\<rparr>) pkt0 copy"
          using ip cl False Inr by (auto simp: resubmitted_def c0_def copy_def st_def sz_def)
        ultimately show thesis using o3 by (intro again [of ib pkt0 c3 copy]) (simp_all add: pop Some c0_def)
      qed
    qed
  qed
qed

subsection \<open>A packet through an idle switch\<close>

text \<open>The packet that \<open>Enqueue\<close> puts in the egress buffer.\<close>

definition queued_packet :: "('p, 'b, 'w) bm \<Rightarrow> sim \<Rightarrow> ('addr, 'w, 'p) v1model \<Rightarrow> u32 \<Rightarrow> 'p \<Rightarrow> 'p" where
  "queued_packet B S c port pkt =
     (let pkt = bm_set_egress_port B pkt port
      in if enable_queueing_metadata c
         then bm_set_field B
                (bm_set_field B pkt ''queueing_metadata.enq_timestamp'' (unat (GetTimeStamp S c)))
                ''queueing_metadata.enq_qdepth'' (eq_size (egress_buffer c) (unat port))
         else pkt)"

lemma reg_queued:
  assumes "program_frame B"
  shows "bm_get_register B (queued_packet B S c port pkt) = bm_get_register B pkt"
  using program_frameD(2) [OF assms] by (simp add: queued_packet_def Let_def frame_laws)

lemma Enqueue_push:
  assumes "declares B" "pkt_priority B (queued_packet B S c port pkt) < nb_queues_per_port c"
    and "snd (eq_push_front S (egress_buffer c) (unat port)
        (nb_queues_per_port c - 1 - pkt_priority B (queued_packet B S c port pkt)) (queued_packet B S c port pkt)) = Inr k"
  shows "Enqueue B S c port pkt = (c\<lparr>egress_buffer := fst (eq_push_front S (egress_buffer c) (unat port)
        (nb_queues_per_port c - 1 - pkt_priority B (queued_packet B S c port pkt)) (queued_packet B S c port pkt))\<rparr>, Inr ())"
  using assms by (simp add: Enqueue_def queued_packet_def Let_def declares_def case_prod_beta not_le)

text \<open>
  The verdicts of the P4 program that a unicast packet needs: ingress sends it to port \<open>q\<close>
  and raises no flag; egress neither clones, drops nor recirculates a packet that comes to it
  without flags.
\<close>

definition flags_clear :: "('p, 'b, 'w) bm \<Rightarrow> 'p \<Rightarrow> bool" where
  "flags_clear B pkt \<longleftrightarrow> get_clone_mirror_session_id B pkt = 0 \<and> get_recirculate_flag B pkt = 0"

lemma flags_clear_cong: "bm_get_register B p = bm_get_register B q \<Longrightarrow> flags_clear B p = flags_clear B q"
  by (simp add: flags_clear_def get_clone_mirror_session_id_def get_recirculate_flag_def)

definition ingress_unicast :: "('p, 'b, 'w) bm \<Rightarrow> 'p \<Rightarrow> u32 \<Rightarrow> bool" where
  "ingress_unicast B pkt q \<longleftrightarrow>
     flags_clear B pkt \<and> get_lf_field_list B pkt = 0 \<and> get_resubmit_flag B pkt = 0 \<and>
     (bm_has_field B pkt ''intrinsic_metadata.mcast_grp'' \<longrightarrow> get_uint B pkt ''intrinsic_metadata.mcast_grp'' = 0) \<and>
     get_uint B pkt ''standard_metadata.egress_spec'' = q"

definition egress_passes :: "('p, 'b, 'w) bm \<Rightarrow> u32 \<Rightarrow> bool" where
  "egress_passes B dropped \<longleftrightarrow>
     (\<forall>w p. flags_clear B p \<longrightarrow> get_uint B p ''standard_metadata.egress_spec'' = 0 \<longrightarrow>
        flags_clear B (snd (bm_apply B ''egress'' w p)) \<and>
        get_uint B (snd (bm_apply B ''egress'' w p)) ''standard_metadata.egress_spec'' \<noteq> dropped) \<and>
     (\<forall>w p. flags_clear B p \<longrightarrow> flags_clear B (snd (bm_deparse B ''deparser'' w p)))"

text \<open>A fact about a packet that does not depend on its metadata, so that no step of the core changes it, that the egress
  program keeps, and of which the deparser makes another.\<close>

definition metadata_field :: "string \<Rightarrow> bool" where
  "metadata_field f \<longleftrightarrow> (\<exists>m \<in> {''standard_metadata.'', ''intrinsic_metadata.'', ''queueing_metadata.''}. take (length m) f = m)"

definition core_keeps :: "('p, 'b, 'w) bm \<Rightarrow> ('p \<Rightarrow> bool) \<Rightarrow> bool" where
  "core_keeps B P \<longleftrightarrow>
     (\<forall>p. P p \<longrightarrow> (\<forall>f v. metadata_field f \<longrightarrow> P (bm_set_field B p f v)) \<and> (\<forall>i v. P (bm_set_register B p i v)) \<and>
        (\<forall>v. P (bm_set_ingress_port B p v)) \<and> (\<forall>v. P (bm_set_egress_port B p v)) \<and> P (bm_reset_metadata B p) \<and> P (bm_reset_exit B p))"

definition egress_keeps :: "('p, 'b, 'w) bm \<Rightarrow> ('p \<Rightarrow> bool) \<Rightarrow> ('p \<Rightarrow> bool) \<Rightarrow> bool" where
  "egress_keeps B P Out \<longleftrightarrow> core_keeps B P \<and>
     (\<forall>w p. P p \<longrightarrow> P (snd (bm_apply B ''egress'' w p)) \<and> Out (snd (bm_deparse B ''deparser'' w p)))"

lemma core_keepsD:
  assumes "core_keeps B P" "P p"
  shows "metadata_field f \<Longrightarrow> P (bm_set_field B p f v)" "P (bm_set_register B p i r)" "P (bm_set_ingress_port B p q)"
    "P (bm_set_egress_port B p q)" "P (bm_reset_metadata B p)" "P (bm_reset_exit B p)"
    "metadata_field f \<Longrightarrow> P (set_if_present B p f v)"
  using assms by (auto simp: core_keeps_def set_if_present_def)

lemma core_keeps_trivial [simp]: "core_keeps B (\<lambda>_. True)" "egress_keeps B (\<lambda>_. True) (\<lambda>_. True)"
  by (simp_all add: core_keeps_def egress_keeps_def)

lemma core_keeps_queued:
  assumes "core_keeps B P" "P p"
  shows "P (queued_packet B S c q p)"
  using assms by (simp add: queued_packet_def Let_def core_keepsD metadata_field_def)

lemma ingress_unicast_round:
  assumes pop: "ib_pop_back (in_buffer c) = (ib, Some pkt0)"
    and ip: "ingress_program B (c\<lparr>in_buffer := ib\<rparr>) pkt0 = (c1, pkt)"
    and u: "ingress_unicast B pkt q" and d: "q \<noteq> drop_port c1"
  shows "HandleIngressPipeline (Suc fuel) B S c =
      Enqueue B S c1 q (bm_set_field B pkt ''standard_metadata.instance_type'' (instance_code PKT_INSTANCE_TYPE_NORMAL))"
  using u d by (simp add: pop ip ingress_unicast_def flags_clear_def ingress_clone_def ingress_learn_def ingress_forward_def Let_def)

lemma egress_passes_sends:
  assumes prog: "program_frame B" and decl: "declares B" and ff: "field_frame B" "field_zero B"
    and pass: "egress_passes B (drop_port c)" and a: "addr_ok R B c pkt" and cl: "flags_clear B pkt"
    and P: "egress_keeps B P Out" "P pkt"
  shows "\<exists>c' out. egress_finish B S c port pkt = (c', Inr True) \<and> Out out \<and>
     sent c' = sent c @ [\<lparr>send_data = ConvertToNs3Packet B out, send_port = port, send_protocol = fst (ns_tag B pkt),
        send_destination = destination_list c ! unat (snd (ns_tag B pkt))\<rparr>] \<and> destination_list c' = destination_list c"
proof -
  define pkt1 where "pkt1 = bm_set_field B (bm_set_field B (bm_set_field B pkt ''standard_metadata.egress_port'' port)
      ''standard_metadata.egress_spec'' 0) ''standard_metadata.packet_length''
      (unat (bm_get_register B (bm_set_field B (bm_set_field B pkt ''standard_metadata.egress_port'' port)
      ''standard_metadata.egress_spec'' 0) PACKET_LENGTH_REG_IDX))"
  obtain w pkt2 where ap: "bm_apply B ''egress'' (world c) pkt1 = (w, pkt2)" by fastforce
  obtain w3 pkt3 where dp: "bm_deparse B ''deparser'' w pkt2 = (w3, pkt3)" by fastforce
  have "flags_clear B pkt1"
    using cl flags_clear_cong [of B pkt1 pkt] program_frameD(2) [OF prog] by (simp add: pkt1_def frame_laws)
  moreover have "get_uint B pkt1 ''standard_metadata.egress_spec'' = 0"
    using decl ff(2) field_frameD [OF ff(1)] by (simp add: pkt1_def declares_def field_zero_def)
  ultimately have p2: "flags_clear B pkt2" "get_uint B pkt2 ''standard_metadata.egress_spec'' \<noteq> drop_port c"
    using pass ap by (auto simp: egress_passes_def) (metis snd_conv)+
  moreover have "flags_clear B pkt3" using pass dp p2(1) by (auto simp: egress_passes_def) (metis snd_conv)
  ultimately have v: "get_clone_mirror_session_id B pkt2 = 0" "get_uint B pkt2 ''standard_metadata.egress_spec'' \<noteq> drop_port c"
    "get_recirculate_flag B pkt3 = 0" by (simp_all add: flags_clear_def)
  have K: "core_keeps B P" using P(1) by (simp add: egress_keeps_def)
  have "P pkt1" using P(2) by (simp add: pkt1_def core_keepsD [OF K] metadata_field_def)
  then have P3: "Out pkt3" using P(1) ap dp unfolding egress_keeps_def by (metis snd_conv)
  have "ns_tag B pkt3 = ns_tag B pkt"
    using program_frameD(2) [OF prog] program_frameD(4) [OF prog, of "''egress''" "world c" pkt1]
      program_frameD(5) [OF prog, of "''deparser''" w pkt2] ap dp by (simp add: pkt1_def)
  with a have t: "get_ns_protocol B pkt3 = fst (ns_tag B pkt)" "get_ns_address B pkt3 = snd (ns_tag B pkt)"
    "unat (snd (ns_tag B pkt)) < length (destination_list c)"
    by (auto simp: addr_ok_def ns_tag_def)
  show ?thesis
    using v t P3 by (simp add: egress_finish_def Let_def pkt1_def [symmetric] ap egress_clone_def dp egress_send_def not_le) blast
qed

lemma idle_push_pop:
  assumes "queue_hi ib = []" "queue_lo ib = []" "0 < capacity_lo ib"
  shows "snd (ib_push_front ib NORMAL x) = Inr 1"
    and "ib_pop_back (fst (ib_push_front ib NORMAL x)) = (ib, Some x)"
  using assms by (simp_all add: push_front_queue_def ib_pop_back_def)

lemma egress_queueing_passes:
  assumes prog: "program_frame B" and decl: "declares B" and ff: "field_frame B"
    and p: "pkt_priority B x < nb_queues_per_port c" and P: "core_keeps B P" "P x"
  shows "\<exists>x'. egress_queueing B S c port (set_if_present B x ''intrinsic_metadata.egress_global_timestamp'' t) = Inr (Some x')
    \<and> bm_get_register B x' = bm_get_register B x \<and> P x'"
proof -
  have pr: "pkt_priority B (bm_set_field B y f v) = pkt_priority B y" if "f \<noteq> ''intrinsic_metadata.priority''" for y f v
    using that field_frameD [OF ff] by (simp add: pkt_priority_def)
  have ps: "pkt_priority B (set_if_present B y f v) = pkt_priority B y" if "f \<noteq> ''intrinsic_metadata.priority''" for y f v
    using that by (simp add: set_if_present_def pr)
  show ?thesis
    using decl p program_frameD(2) [OF prog] P(2) core_keepsD [OF P(1)]
    by (auto simp: egress_queueing_def declares_def Let_def pr ps not_le frame_laws metadata_field_def)
qed

lemma HandleEgress_popped:
  assumes pop: "eq_pop_back S (egress_buffer c) 0 = (eg, Inr (Some (port, p, x)))"
    and ne: "port < 8" "eq_size (egress_buffer c) port \<noteq> 0"
  shows "\<exists>c1. HandleEgressPipeline B S c 0 =
      (case egress_queueing B S c1 port (set_if_present B x ''intrinsic_metadata.egress_global_timestamp'' (unat (GetTimeStamp S c1))) of
         Inl e \<Rightarrow> (c1, Inl e) | Inr None \<Rightarrow> (c1, Inr True) | Inr (Some pkt) \<Rightarrow> egress_finish B S c1 port pkt) \<and>
      sent c1 = sent c \<and> destination_list c1 = destination_list c \<and> drop_port c1 = drop_port c \<and>
      nb_queues_per_port c1 = nb_queues_per_port c"
proof -
  define c0 where "c0 = c\<lparr>egress_buffer := eg\<rparr>"
  define c1 where "c1 = (if enable_tracing c0
                          then c0\<lparr>egress_pps := egress_pps c0 + 1,
                                 egress_bps := egress_bps c0 + of_nat (bm_data_size B x * 8)\<rparr> else c0)"
  have "port \<in> set [0..<SSWITCH_VIRTUAL_QUEUE_NUM_V1MODEL]" using ne by (simp add: SSWITCH_VIRTUAL_QUEUE_NUM_V1MODEL_def)
  note port = this
  have g: "\<not> (\<forall>i \<in> set [0..<SSWITCH_VIRTUAL_QUEUE_NUM_V1MODEL]. eq_size (egress_buffer c) i = 0)"
  proof
    assume "\<forall>i \<in> set [0..<SSWITCH_VIRTUAL_QUEUE_NUM_V1MODEL]. eq_size (egress_buffer c) i = 0"
    then have "eq_size (egress_buffer c) port = 0"
      using port by (rule bspec)
    with ne(2) show False by simp
  qed
  have "HandleEgressPipeline B S c 0 =
      (case egress_queueing B S c1 port (set_if_present B x ''intrinsic_metadata.egress_global_timestamp'' (unat (GetTimeStamp S c1))) of
         Inl e \<Rightarrow> (c1, Inl e) | Inr None \<Rightarrow> (c1, Inr True) | Inr (Some pkt) \<Rightarrow> egress_finish B S c1 port pkt)"
    by (simp only: HandleEgressPipeline_def g if_False Let_def pop prod.case sum.case option.case
        c0_def [symmetric] c1_def [symmetric])
  moreover have "sent c1 = sent c \<and> destination_list c1 = destination_list c \<and> drop_port c1 = drop_port c \<and>
      nb_queues_per_port c1 = nb_queues_per_port c" by (simp add: c1_def c0_def)
  ultimately show ?thesis by blast
qed

lemma v1_ok_map_worker:
  assumes "v1_ok R B m c"
  shows "map_to_worker (egress_buffer c) q = 0"
  using assms eq_wfD(2) [of "egress_buffer c" q] by (simp add: v1_ok_def)

lemma unicast_enqueued:
  assumes prog: "program_frame B" and decl: "declares B"
    and ok: "v1_ok R B m c" and S: "seconds_nonneg S" and m: "m + 2 < 2 ^ 64"
    and idle: "queue_hi (in_buffer c) = []" "queue_lo (in_buffer c) = []" "0 < capacity_lo (in_buffer c)"
      "egress_packets (egress_buffer c) = {}"
    and recv: "receive_packet B S c d port proto dst = (c1, pkt)"
    and ingress: "ingress_program B c1 pkt = (c2, pkt2)" "ingress_unicast B pkt2 q" "q \<noteq> drop_port c"
    and x: "x = queued_packet B S c2 q (bm_set_field B pkt2 ''standard_metadata.instance_type'' 0)"
      "pkt_priority B x < nb_queues_per_port c"
    and k: "k = nb_queues_per_port c - 1 - pkt_priority B x"
    and i: "i = qi_pri (snd (get_queue S (egress_buffer c) (unat q))) ! k" "0 < qip_capacity i"
  obtains c' e where "ReceivePacket (Suc fuel) B S c d port proto dst = (c', Inr 0)"
    and "sent c' = sent c" "drop_port c' = drop_port c" "nb_queues_per_port c' = nb_queues_per_port c"
    and "destination_list c' = destination_list (fst (GetAddressIndex c dst))"
    and "eq_wf (egress_buffer c')" "nb_priorities (egress_buffer c') = nb_queues_per_port c"
      "length (workers_info (egress_buffer c')) = 1" "\<And>r. map_to_worker (egress_buffer c') r = 0"
    and "class_entries (egress_buffer c') (unat q) k = [e]" "qe_e e = x" "qe_send e = get_next_tp S i"
    and "\<And>d. d \<noteq> (unat q, k) \<Longrightarrow> eq_contents (egress_buffer c') d = []"
    and "ns_tag B x = (proto, ucast (snd (GetAddressIndex c dst)))" "flags_clear B x"
proof -
  let ?k = k
  have wf: "eq_wf (egress_buffer c)" and nb: "nb_priorities (egress_buffer c) = nb_queues_per_port c"
    and ready: "counters_ready (egress_buffer c)" and w1: "length (workers_info (egress_buffer c)) = 1"
    and awf: "addr_wf c"
    using ok m counters_ready_le [of m "egress_buffer c"] by (simp_all add: v1_ok_def)
  have c1: "fst (receive_packet B S c d port proto dst) = c1" "snd (receive_packet B S c d port proto dst) = pkt"
    by (simp_all add: recv)
  obtain l a where f1: "c1 = counted c (bm_data_size B (bm_new_packet B port (packet_id c) d))\<lparr>destination_list := l, address_map := a\<rparr>"
    using GetAddressIndex_frame [of "counted c (bm_data_size B (bm_new_packet B port (packet_id c) d))" dst]
      c1(1) [unfolded fst_receive_packet] by fastforce
  have same1: "in_buffer c1 = in_buffer c" "egress_buffer c1 = egress_buffer c" "sent c1 = sent c"
    "drop_port c1 = drop_port c" "nb_queues_per_port c1 = nb_queues_per_port c" by (simp_all add: f1)
  have o: "only_egress c1 c2" using ingress_program_only [of c1 B pkt] ingress(1) by simp
  obtain w where c2: "c2 = c1\<lparr>world := w\<rparr>"
    using ingress(1) by (auto simp: ingress_program_def case_prod_beta Let_def)
  have same2: "egress_buffer c2 = egress_buffer c" "sent c2 = sent c" "drop_port c2 = drop_port c"
    "nb_queues_per_port c2 = nb_queues_per_port c" "in_buffer c2 = in_buffer c"
    by (simp_all add: c2 same1)
  have klt: "?k < nb_priorities (egress_buffer c)" using x(2) nb k by simp
  have empty: "class_entries (egress_buffer c) q' p' = []" if "p' < nb_priorities (egress_buffer c)" for q' p'
    using idle(4) that by (auto simp: egress_packets_def eq_contents_def)
  define eg where "eg = fst (eq_push_front S (egress_buffer c) (unat q) ?k x)"
  have push: "snd (eq_push_front S (egress_buffer c) (unat q) ?k x) = Inr 1"
    by (rule push_empty_class(1) [OF wf S ready klt empty [OF klt]]) (use i(1,2) in simp)
  obtain e where e: "class_entries eg (unat q) ?k = [e]" "qe_e e = x" "qe_send e = get_next_tp S i"
    using push_empty_class(2) [OF wf S ready klt empty [OF klt], of "unat q" x] i(1,2) by (auto simp: eg_def)
  have enq: "Enqueue B S c2 q (bm_set_field B pkt2 ''standard_metadata.instance_type'' 0) = (c2\<lparr>egress_buffer := eg\<rparr>, Inr ())"
    using Enqueue_push [OF decl, of S c2 q "bm_set_field B pkt2 ''standard_metadata.instance_type'' 0" 1] push x(2)
    unfolding x(1) [symmetric] same2 eg_def k by simp
  define ib where "ib = fst (ib_push_front (in_buffer c) NORMAL pkt)"
  have h: "HandleIngressPipeline (Suc fuel) B S (c1\<lparr>in_buffer := ib\<rparr>) = (c2\<lparr>egress_buffer := eg\<rparr>, Inr ())"
    unfolding enq [symmetric]
  proof (rule ingress_unicast_round [where pkt = pkt2, unfolded instance_code.simps])
    show "ib_pop_back (in_buffer (c1\<lparr>in_buffer := ib\<rparr>)) = (in_buffer c, Some pkt)"
      using idle_push_pop(2) [OF idle(1,2,3), of pkt] by (simp add: ib_def del: ib_push_front.simps)
    have "c1\<lparr>in_buffer := ib\<rparr>\<lparr>in_buffer := in_buffer c\<rparr> = c1" by (simp flip: same1(1))
    then show "ingress_program B (c1\<lparr>in_buffer := ib\<rparr>\<lparr>in_buffer := in_buffer c\<rparr>) pkt = (c2, pkt2)"
      using ingress(1) by simp
  qed (use ingress(2,3) same2(3) in simp_all)
  define c' where "c' = c2\<lparr>egress_buffer := eg\<rparr>"
  have R: "ReceivePacket (Suc fuel) B S c d port proto dst = (c', Inr 0)"
    using h idle_push_pop(1) [OF idle(1,2,3), of pkt]
    by (simp add: ReceivePacket_def recv case_prod_beta same1 c'_def ib_def del: ib_push_front.simps HandleIngressPipeline.simps)
  have xreg: "bm_get_register B x = bm_get_register B pkt2"
    using program_frameD(2) [OF prog] by (simp add: x(1) reg_queued [OF prog] frame_laws)
  have tag: "ns_tag B x = (proto, ucast (snd (GetAddressIndex c dst)))"
    using receive_packet_tag [OF prog, of S c d port proto dst] ns_ingress_program [OF prog, of c1 pkt] ingress(1) c1(2)
      ns_tag_cong [OF xreg] by simp
  have dl: "destination_list c' = destination_list (fst (GetAddressIndex c dst))"
    using c1(1) [unfolded fst_receive_packet, symmetric]
      GetAddressIndex_same(2) [of "counted c (bm_data_size B (bm_new_packet B port (packet_id c) d))" c dst]
    by (simp add: c'_def c2)
  have wfg: "eq_wf eg" unfolding eg_def by (rule eq_wf_push_front [OF wf S ready])
  have "flags_clear B x"
    using ingress(2) flags_clear_cong [OF xreg] by (simp add: ingress_unicast_def)
  moreover have "eq_contents eg d = []" if "d \<noteq> (unat q, ?k)" for d
    using eq_push_contents [OF wf S ready, of "unat q" ?k x d] that empty by (cases d) (simp add: eg_def eq_contents_Nil_iff)
  moreover have "map_to_worker eg r = 0" for r using v1_ok_map_worker [OF ok] by (simp add: eg_def)
  ultimately show thesis
    using that [of c' e] R tag dl wfg e nb w1 by (simp add: c'_def same2) (simp add: eg_def length_workers_push)
qed

lemma unicast_through_switch:
  assumes prog: "program_frame B" and decl: "declares B" and ff: "field_frame B" "field_zero B"
    and ok: "v1_ok R B m c" and S: "seconds_nonneg S" and m: "m + 2 < 2 ^ 64"
    and idle: "queue_hi (in_buffer c) = []" "queue_lo (in_buffer c) = []" "0 < capacity_lo (in_buffer c)"
      "egress_packets (egress_buffer c) = {}"
    and few: "length (destination_list (fst (GetAddressIndex c dst))) \<le> 65536"
    and recv: "receive_packet B S c d port proto dst = (c1, pkt)"
    and ingress: "ingress_program B c1 pkt = (c2, pkt2)" "ingress_unicast B pkt2 q" "q \<noteq> drop_port c" "unat q < 8"
    and x: "x = queued_packet B S c2 q (bm_set_field B pkt2 ''standard_metadata.instance_type'' 0)"
      "pkt_priority B x < nb_queues_per_port c"
    and i: "i = qi_pri (snd (get_queue S (egress_buffer c) (unat q))) ! (nb_queues_per_port c - 1 - pkt_priority B x)"
      "0 < qip_capacity i" "get_next_tp S i \<le> sim_now S'"
    and egress: "egress_passes B (drop_port c)" and P: "egress_keeps B P Out" "P pkt2"
  shows "\<exists>c' c'' out. ReceivePacket (Suc fuel) B S c d port proto dst = (c', Inr 0) \<and> sent c' = sent c \<and>
     HandleEgressPipeline B S' c' 0 = (c'', Inr True) \<and> Out out \<and>
     sent c'' = sent c @ [\<lparr>send_data = ConvertToNs3Packet B out, send_port = unat q, send_protocol = proto, send_destination = dst\<rparr>] \<and>
     destination_list c'' = destination_list (fst (GetAddressIndex c dst))"
proof -
  let ?k = "nb_queues_per_port c - 1 - pkt_priority B x"
  have awf: "addr_wf c" using ok by (simp add: v1_ok_def)
  obtain c' e where R: "ReceivePacket (Suc fuel) B S c d port proto dst = (c', Inr 0)"
    and same: "sent c' = sent c" "drop_port c' = drop_port c" "nb_queues_per_port c' = nb_queues_per_port c"
    and dl: "destination_list c' = destination_list (fst (GetAddressIndex c dst))"
    and wf: "eq_wf (egress_buffer c')" and nb: "nb_priorities (egress_buffer c') = nb_queues_per_port c"
      "length (workers_info (egress_buffer c')) = 1" "\<And>r. map_to_worker (egress_buffer c') r = 0"
    and e: "class_entries (egress_buffer c') (unat q) ?k = [e]" "qe_e e = x" "qe_send e = get_next_tp S i"
    and only: "\<And>d. d \<noteq> (unat q, ?k) \<Longrightarrow> eq_contents (egress_buffer c') d = []"
    and tag: "ns_tag B x = (proto, ucast (snd (GetAddressIndex c dst)))" and clear: "flags_clear B x"
    by (rule unicast_enqueued [OF prog decl ok S m idle recv ingress(1,2,3) x refl i(1,2)]) blast
  have k: "?k < nb_priorities (egress_buffer c')" using x(2) nb by simp
  obtain eg' where pop: "eq_pop_back S' (egress_buffer c') 0 = (eg', Inr (Some (unat q, ?k, x)))"
    using pop_only_packet [OF wf _ _ k e(1) _ only, of S'] e(2,3) i(3) nb by auto
  have sz: "eq_size (egress_buffer c') (unat q) \<noteq> 0"
    using eq_size_pos [OF wf k, of "unat q"] e(1) by simp
  obtain c3 where he: "HandleEgressPipeline B S' c' 0 =
      (case egress_queueing B S' c3 (unat q) (set_if_present B x ''intrinsic_metadata.egress_global_timestamp'' (unat (GetTimeStamp S' c3))) of
         Inl e \<Rightarrow> (c3, Inl e) | Inr None \<Rightarrow> (c3, Inr True) | Inr (Some pkt) \<Rightarrow> egress_finish B S' c3 (unat q) pkt)"
    and c3: "sent c3 = sent c" "destination_list c3 = destination_list c'" "drop_port c3 = drop_port c"
      "nb_queues_per_port c3 = nb_queues_per_port c"
    using HandleEgress_popped [of S' c' eg' "unat q" ?k x B] pop sz ingress(4) by (auto simp: same)
  have K: "core_keeps B P" using P(1) by (simp add: egress_keeps_def)
  have "P x" unfolding x(1) by (intro core_keeps_queued [OF K] core_keepsD(1) [OF K P(2)]) (simp add: metadata_field_def)
  then obtain x' where x': "egress_queueing B S' c3 (unat q) (set_if_present B x ''intrinsic_metadata.egress_global_timestamp'' (unat (GetTimeStamp S' c3))) = Inr (Some x')"
    "bm_get_register B x' = bm_get_register B x" "P x'"
    using egress_queueing_passes [OF prog decl ff(1) _ K, of x c3 S' "unat q"] x(2) c3(4) by auto
  have tag': "ns_tag B x' = (proto, ucast (snd (GetAddressIndex c dst)))" using tag ns_tag_cong [OF x'(2)] by simp
  have "flags_clear B x'" using clear flags_clear_cong [OF x'(2)] by simp
  moreover have "addr_ok UNIV B c3 x'"
    using address_index_in_range [OF awf, of dst] by (simp add: addr_ok_def tag' c3(2) dl)
  moreover have "egress_passes B (drop_port c3)" using egress c3(3) by simp
  ultimately obtain c'' out where "egress_finish B S' c3 (unat q) x' = (c'', Inr True)" "Out out"
    "sent c'' = sent c3 @ [\<lparr>send_data = ConvertToNs3Packet B out, send_port = unat q, send_protocol = fst (ns_tag B x'),
        send_destination = destination_list c3 ! unat (snd (ns_tag B x'))\<rparr>]"
    "destination_list c'' = destination_list c3"
    using egress_passes_sends [OF prog decl ff _ _ _ P(1) x'(3)] by blast
  moreover have "destination_list c3 ! unat (snd (ns_tag B x')) = dst"
    using address_index_lookup [OF awf few] by (simp add: tag' c3(2) dl)
  ultimately show ?thesis
    using R he x' c3(1,2) tag' same dl by (intro exI [of _ c'] exI [of _ c''] exI [of _ out]) simp
qed

subsection \<open>A concrete switch for the witnesses\<close>

definition ex_B :: "nat \<Rightarrow> (expkt, u8 list, (u32 \<times> nat) list) bm" where
  "ex_B q = ex_bm v1_fields (forward_to q)"

lemma ex_B_frame: "program_frame (ex_B q)"
  by (simp add: program_frame_def ex_B_def)
    (simp add: ex_bm_def keeps_ns_def ns_tag_def get_ns_address_def get_ns_protocol_def)

lemma ex_B_declares: "declares (ex_B q)"
  by (simp add: declares_def ex_B_def ex_bm_def v1_fields_def)

lemma ex_B_groups: "groups_le (ex_B q) 4"
  by (simp add: groups_le_def ex_B_def ex_bm_def)

lemma ex_B_laws: "field_frame (ex_B q)" "field_zero (ex_B q)" "register_laws (ex_B q)"
  by (simp_all add: ex_B_def)

definition ex_switch :: "(nat, (u32 \<times> nat) list, expkt) v1model" where
  "ex_switch = fst (fst (P4CoreV1model (example_sim 0) False 1000 64 64 8 8 0 [] initial_statics))"

lemma ex_switch_new:
  "P4CoreV1model (example_sim 0) False 1000 64 64 8 8 0 [] initial_statics =
     ((ex_switch, Inr ()), snd (P4CoreV1model (example_sim 0) False 1000 64 64 8 8 0 []
        initial_statics :: ((nat, (u32 \<times> nat) list, expkt) v1model, unit) outcome \<times> statics))"
  by (simp add: ex_switch_def P4CoreV1model_def CalculateScheduleTime_def case_prod_beta Let_def
      switch_core.extend_def v1model.fields_def prod_eq_iff)

lemma ex_switch_reach: "v1_reach B G 0 {} ex_switch"
  by (rule v1_reach.new [OF ex_switch_new]) simp

lemma ex_switch_ok: "v1_ok {} B 0 ex_switch"
  by (rule v1_ok_new [OF ex_switch_new]) simp

lemma ex_switch_members:
  "in_buffer ex_switch = InputBuffer 64 64" "nb_queues_per_port ex_switch = 8" "drop_port ex_switch = 511"
  "destination_list ex_switch = []" "address_map ex_switch = (\<lambda>_. None)" "enable_tracing ex_switch = False"
  "egress_buffer ex_switch = (NSQueueingLogicPriRL 1 8 (EgressThreadMapper 1) 8)\<lparr>queue_rate_pps := 1000\<rparr>"
  "sent ex_switch = []" "packet_id ex_switch = 0" "world ex_switch = []" "enable_queueing_metadata ex_switch = True"
  "start_timestamp ex_switch = 0"
  by (simp_all add: ex_switch_def P4CoreV1model_def CalculateScheduleTime_def case_prod_beta Let_def
      switch_core.extend_def v1model.fields_def P4SwitchCore_def set_rate_for_all_new SSWITCH_DROP_PORT_def
      nbEgressThreads_def example_sim_def)

text \<open>Its ingress program sets the egress port and nothing else.\<close>

lemma ex_ingress_regs:
  "bm_get_register (ex_B q) (snd (ingress_program (ex_B q) c p)) = bm_get_register (ex_B q) p"
  by (simp add: ingress_program_def case_prod_beta Let_def ex_B_def ex_bm_def set_if_present_def)

lemma ex_unicast:
  assumes "q < 2 ^ 32"
  shows "ingress_unicast (ex_B q) (snd (ingress_program (ex_B q) c (snd (receive_packet (ex_B q) S c' d port proto dst)))) (of_nat q)"
proof -
  let ?p = "snd (receive_packet (ex_B q) S c' d port proto dst)"
  let ?p' = "snd (ingress_program (ex_B q) c ?p)"
  have f: "get_reg_field (ex_B q) f ?p' = 0" if "f \<noteq> NsAddress" "f \<noteq> NsProtocol" for f
    using receive_packet_flags [OF ex_B_frame that]
      get_reg_field_cong [of "ex_B q" ?p' f ?p] by (simp add: ex_ingress_regs)
  have "bm_get_field (ex_B q) ?p' ''standard_metadata.egress_spec'' = q"
    by (simp add: ingress_program_def case_prod_beta Let_def ex_B_def ex_bm_def forward_to_def)
  then show ?thesis
    using f [of CloneMirrorSessionId] f [of RecirculateFlag] f [of LfFieldList] f [of ResubmitFlag]
    by (simp add: ingress_unicast_def flags_clear_def) (simp add: ex_B_def ex_bm_def v1_fields_def)
qed

lemma ex_passes: "egress_passes (ex_B q) 511"
  by (simp add: egress_passes_def ex_B_def ex_bm_def flags_clear_def forward_to_def)

text \<open>The example packet in the example switch: what the switch decides about it.\<close>

lemma ex_idle:
  "queue_hi (in_buffer ex_switch) = []" "queue_lo (in_buffer ex_switch) = []" "0 < capacity_lo (in_buffer ex_switch)"
  "egress_packets (egress_buffer ex_switch) = {}" "length (destination_list (fst (GetAddressIndex ex_switch a))) \<le> 65536"
  by (simp_all add: ex_switch_members InputBuffer_def egress_packets_def eq_contents_def class_entries_def
      NSQueueingLogicPriRL_def EgressThreadMapper_def GetAddressIndex_def)

lemma ex_queue:
  assumes "k < 8"
  shows "0 < qip_capacity (qi_pri (snd (get_queue (example_sim 0) (egress_buffer ex_switch) q)) ! k)"
    and "get_next_tp (example_sim 0) (qi_pri (snd (get_queue (example_sim 0) (egress_buffer ex_switch) q)) ! k) = 1000000"
  using assms by (simp_all add: ex_switch_members get_queue_def NSQueueingLogicPriRL_def Let_def new_QueueInfo_def
      new_QueueInfoPri_def get_next_tp_def rate_to_time_def example_sim_def)

lemma ex_priority: "pkt_priority (ex_B q) p = 0"
  by (simp add: pkt_priority_def) (simp add: ex_B_def ex_bm_def v1_fields_def)

lemma ex_verdict:
  assumes "q < 2 ^ 32"
  obtains c1 pkt c2 pkt2 where "receive_packet (ex_B q) (example_sim 0) ex_switch [1, 2, 3] 1 0x0800 42 = (c1, pkt)"
    and "ingress_program (ex_B q) c1 pkt = (c2, pkt2)" and "ingress_unicast (ex_B q) pkt2 (of_nat q)"
proof -
  obtain c1 pkt where r: "receive_packet (ex_B q) (example_sim 0) ex_switch [1, 2, 3] 1 0x0800 42 = (c1, pkt)" by fastforce
  obtain c2 pkt2 where ip: "ingress_program (ex_B q) c1 pkt = (c2, pkt2)" by fastforce
  have "ingress_unicast (ex_B q) pkt2 (of_nat q)"
    using ex_unicast [OF assms, of c1 "example_sim 0" ex_switch "[1, 2, 3]" 1 "0x0800" 42] by (simp add: r ip)
  with r ip that show thesis by blast
qed

lemma ex_through:
  "\<exists>c' c'' data. ReceivePacket 1 (ex_B 3) (example_sim 0) ex_switch [1, 2, 3] 1 0x0800 42 = (c', Inr 0) \<and> sent c' = [] \<and>
     HandleEgressPipeline (ex_B 3) (example_sim 10000000) c' 0 = (c'', Inr True) \<and>
     sent c'' = [\<lparr>send_data = data, send_port = 3, send_protocol = 0x0800, send_destination = 42\<rparr>] \<and> destination_list c'' = [42]"
proof -
  obtain c1 pkt c2 pkt2 where r: "receive_packet (ex_B 3) (example_sim 0) ex_switch [1, 2, 3] 1 0x0800 42 = (c1, pkt)"
    and ip: "ingress_program (ex_B 3) c1 pkt = (c2, pkt2)" and u: "ingress_unicast (ex_B 3) pkt2 (of_nat 3)"
    by (rule ex_verdict [of 3]) simp_all
  have "egress_passes (ex_B 3) (drop_port ex_switch)" by (simp add: ex_switch_members ex_passes)
  from unicast_through_switch [OF ex_B_frame ex_B_declares ex_B_laws(1,2) ex_switch_ok
      example_sim_nonneg _ ex_idle r ip u _ _ refl _ refl _ _ this core_keeps_trivial(2) TrueI, of "example_sim 10000000" 0] show ?thesis
    by (simp add: ex_switch_members(2-5,8) ex_priority ex_queue GetAddressIndex_def) blast
qed

text \<open>The same packet sent to port 9: it waits in the egress buffer.\<close>

lemma ex_port_nine:
  "\<exists>c' e. ReceivePacket 1 (ex_B 9) (example_sim 0) ex_switch [1, 2, 3] 1 0x0800 42 = (c', Inr 0) \<and>
     nb_priorities (egress_buffer c') = 8 \<and> class_entries (egress_buffer c') 9 7 = [e] \<and> qe_send e = 1000000 \<and>
     (\<forall>d. d \<noteq> (9, 7) \<longrightarrow> eq_contents (egress_buffer c') d = [])"
proof -
  obtain c1 pkt c2 pkt2 where r: "receive_packet (ex_B 9) (example_sim 0) ex_switch [1, 2, 3] 1 0x0800 42 = (c1, pkt)"
    and ip: "ingress_program (ex_B 9) c1 pkt = (c2, pkt2)" and u: "ingress_unicast (ex_B 9) pkt2 (of_nat 9)"
    by (rule ex_verdict [of 9]) simp_all
  have q: "of_nat 9 \<noteq> drop_port ex_switch" by (simp add: ex_switch_members)
  have k: "7 = nb_queues_per_port ex_switch - 1 - pkt_priority (ex_B 9) (queued_packet (ex_B 9) (example_sim 0) c2 (of_nat 9)
      (bm_set_field (ex_B 9) pkt2 ''standard_metadata.instance_type'' 0))"
    by (simp add: ex_priority ex_switch_members)
  show ?thesis
    by (rule unicast_enqueued [OF ex_B_frame ex_B_declares ex_switch_ok example_sim_nonneg _
          ex_idle(1-4) r ip u q refl _ k refl, where fuel = 0])
      (auto simp: ex_priority ex_switch_members(2) ex_queue)
qed

end
