(* ===== verification/V1model_Claims.thy ===== *)
theory V1model_Claims
  imports V1model_Properties
begin

text \<open>
  The properties of the v1model switch, each with a witness on the example switch of
  \<open>V1model_Properties\<close>.
\<close>

text \<open>The example switch after it has received the example packet.\<close>

definition ex_after :: "nat \<Rightarrow> (nat, (u32 \<times> nat) list, expkt) v1model" where
  "ex_after q = fst (ReceivePacket 1 (ex_B q) (example_sim 0) ex_switch [1, 2, 3] 1 0x0800 42)"

lemma ex_after_reach: "v1_reach (ex_B q) 4 10 {(0x0800, 42)} (ex_after q)"
  using v1_reach.receive [OF ex_switch_reach [of "ex_B q" 4] example_sim_nonneg [of 0], where fuel = 1 and d = "[1, 2, 3]" and port = 1 and proto = "0x0800" and dst = 42]
  by (simp add: ex_after_def del: HandleIngressPipeline.simps)

text \<open>C2. Safety of the v1model switch. In every reachable state of a switch whose P4 program
  declares the fields the core uses and does not write the ns-3 register fields: receiving a
  packet succeeds, or waits for room in the input buffer, or has resubmitted as often as the fuel
  allows; and the egress handler and its timer always return. No exception escapes a handler, no
  vector is indexed out of range, and no address index dangles.\<close>

theorem v1model_no_crash:
  assumes "program_frame B" "declares B" "groups_le B G" "v1_reach B G m R c" "seconds_nonneg S"
    and "m + fuel * (2 * G + 2) < 2 ^ 64" "m + G + 1 < 2 ^ 64"
  shows "snd (ReceivePacket fuel B S c d port proto dst) \<in> {Inr 0, Inl Blocks, Inl NoFuel} \<and>
         snd (HandleEgressPipeline B S c 0) \<in> {Inr True, Inr False} \<and>
         snd (SetEgressTimerEvent B S c) = Inr ()"
proof -
  have ok: "v1_ok R B m c" by (rule v1_reach_ok [OF assms(1,2,3,4)])
  from HandleEgressPipeline_ok [OF assms(1,2,5,3) ok assms(7)] obtain b where
    "snd (HandleEgressPipeline B S c 0) = Inr b" by blast
  then have "snd (HandleEgressPipeline B S c 0) \<in> {Inr True, Inr False}" by (cases b) simp_all
  with ReceivePacket_ok(2) [OF assms(1,2,5,3) ok assms(6)]
    v1_ok_SetEgressTimerEvent(2) [OF assms(1,2,5,3) ok assms(7)] show ?thesis by blast
qed

theorem v1model_no_crash_witness:
  "snd (HandleEgressPipeline (ex_B 3) (example_sim 10000000) (ex_after 3) 0) \<in> {Inr True, Inr False}"
  using v1model_no_crash [OF ex_B_frame ex_B_declares ex_B_groups ex_after_reach
      example_sim_nonneg [of 10000000], where fuel = 1] by simp

text \<open>C14. Integrity of the ns-3 side band. Everything a v1model switch ever hands to its net device
  carries the protocol number and destination of some packet it has received, as long as it has
  seen at most 65536 destinations; the only exception are copies (multicast, clones,
  recirculated packets), which carry protocol 0 and the first destination ever seen.\<close>

theorem v1model_sends_received_tags:
  assumes "program_frame B" "declares B" "groups_le B G" "v1_reach B G m R c"
    and "length (destination_list c) \<le> 65536" "call \<in> set (sent c)"
  shows "(send_protocol call, send_destination call) \<in> R \<or>
         send_protocol call = 0 \<and> send_destination call = destination_list c ! 0"
  using v1_reach_ok [OF assms(1-4)] assms(5,6) by (auto simp: v1_ok_def send_ok_def)

theorem v1model_sends_received_tags_witness:
  "\<exists>call \<in> set (sent (fst (HandleEgressPipeline (ex_B 3) (example_sim 10000000) (ex_after 3) 0))).
     send_port call = 3 \<and>
     ((send_protocol call, send_destination call) \<in> {(0x0800, 42)} \<or>
      send_protocol call = 0 \<and> send_destination call = 42)"
proof -
  let ?c = "fst (HandleEgressPipeline (ex_B 3) (example_sim 10000000) (ex_after 3) 0)"
  obtain data where s: "sent ?c = [\<lparr>send_data = data, send_port = 3, send_protocol = 0x0800, send_destination = 42\<rparr>]"
    and d: "destination_list ?c = [42]"
    using ex_through by (auto simp: ex_after_def)
  have r: "v1_reach (ex_B 3) 4 15 {(0x0800, 42)} ?c"
    using v1_reach.egress [OF ex_after_reach example_sim_nonneg [of 10000000], of 3] by simp
  from v1model_sends_received_tags [OF ex_B_frame ex_B_declares ex_B_groups r, of "hd (sent ?c)"] show ?thesis
    by (simp add: s d)
qed

text \<open>C1. End to end: a packet received by an idle switch with ns-3 protocol \<open>proto\<close> and
  destination \<open>dst\<close>, which the ingress program sends to port \<open>q\<close> (below 8), leaves the switch
  when the egress handler runs at or after the time its queue's rate allows: exactly one packet
  is handed to the net device, on port \<open>q\<close>, with protocol \<open>proto\<close> and destination \<open>dst\<close>.\<close>

theorem v1model_unicast_end_to_end:
  assumes "program_frame B" "declares B" "field_frame B" "field_zero B" "groups_le B G"
    and "v1_reach B G m R c" "seconds_nonneg S" "m + 2 < 2 ^ 64"
    and "queue_hi (in_buffer c) = []" "queue_lo (in_buffer c) = []" "0 < capacity_lo (in_buffer c)"
      "egress_packets (egress_buffer c) = {}"
    and "length (destination_list (fst (GetAddressIndex c dst))) \<le> 65536"
    and "receive_packet B S c d port proto dst = (c1, pkt)"
    and "ingress_program B c1 pkt = (c2, pkt2)" "ingress_unicast B pkt2 q" "q \<noteq> drop_port c" "unat q < 8"
    and "x = queued_packet B S c2 q (bm_set_field B pkt2 ''standard_metadata.instance_type'' 0)"
      "pkt_priority B x < nb_queues_per_port c"
    and "i = qi_pri (snd (get_queue S (egress_buffer c) (unat q))) ! (nb_queues_per_port c - 1 - pkt_priority B x)"
      "0 < qip_capacity i" "get_next_tp S i \<le> sim_now S'"
    and "egress_passes B (drop_port c)"
  shows "\<exists>c' c'' data. ReceivePacket (Suc fuel) B S c d port proto dst = (c', Inr 0) \<and> sent c' = sent c \<and>
     HandleEgressPipeline B S' c' 0 = (c'', Inr True) \<and>
     sent c'' = sent c @ [\<lparr>send_data = data, send_port = unat q, send_protocol = proto, send_destination = dst\<rparr>]"
  using unicast_through_switch [OF assms(1-4) v1_reach_ok [OF assms(1,2,5,6)] assms(7-24) core_keeps_trivial(2) TrueI] by blast

theorem v1model_unicast_end_to_end_witness:
  "\<exists>c' c'' data. ReceivePacket 1 (ex_B 3) (example_sim 0) ex_switch [1, 2, 3] 1 0x0800 42 = (c', Inr 0) \<and>
     HandleEgressPipeline (ex_B 3) (example_sim 10000000) c' 0 = (c'', Inr True) \<and>
     sent c'' = [\<lparr>send_data = data, send_port = 3, send_protocol = 0x0800, send_destination = 42\<rparr>]"
proof -
  obtain c1 pkt c2 pkt2 where r: "receive_packet (ex_B 3) (example_sim 0) ex_switch [1, 2, 3] 1 0x0800 42 = (c1, pkt)"
    and ip: "ingress_program (ex_B 3) c1 pkt = (c2, pkt2)" and u: "ingress_unicast (ex_B 3) pkt2 (of_nat 3)"
    by (rule ex_verdict [of 3]) simp_all
  have "egress_passes (ex_B 3) (drop_port ex_switch)" by (simp add: ex_switch_members ex_passes)
  from v1model_unicast_end_to_end [OF ex_B_frame ex_B_declares ex_B_laws(1,2) ex_B_groups ex_switch_reach
      example_sim_nonneg _ ex_idle r ip u _ _ refl _ refl _ _ this, of "example_sim 10000000" 0] show ?thesis
    by (simp add: ex_switch_members(2-5,8) ex_priority ex_queue, blast)
qed

text \<open>C36. Ports above 7 starve. The egress handler first looks at the queues of ports 0 to 7 only:
  in every reachable state in which none of them holds a packet, it returns without taking
  anything, at any time and however many packets wait for ports 8 and above, and so does the
  egress timer.\<close>

theorem v1model_high_ports_starve:
  assumes "program_frame B" "declares B" "groups_le B G" "v1_reach B G m R c"
    and "\<forall>q < 8. \<forall>p. eq_contents (egress_buffer c) (q, p) = []"
  shows "HandleEgressPipeline B S c w = (c, Inr False) \<and>
         egress_buffer (fst (SetEgressTimerEvent B S c)) = egress_buffer c"
proof -
  have wf: "eq_wf (egress_buffer c)" using v1_reach_ok [OF assms(1-4)] by (simp add: v1_ok_def)
  have "eq_size (egress_buffer c) i = 0" if "i < 8" for i
    using assms(5) that by (simp add: eq_size_exact [OF wf] eq_contents_Nil_iff)
  then have h: "HandleEgressPipeline B S c w = (c, Inr False)" for w
    by (simp add: HandleEgressPipeline_def SSWITCH_VIRTUAL_QUEUE_NUM_V1MODEL_def)
  then show ?thesis by (simp add: SetEgressTimerEvent_def schedule_def Let_def)
qed

theorem v1model_high_ports_starve_witness:
  "eq_contents (egress_buffer (ex_after 9)) (9, 7) \<noteq> [] \<and>
   HandleEgressPipeline (ex_B 9) (example_sim 5000000000) (ex_after 9) 0 = (ex_after 9, Inr False)"
proof -
  obtain e where e: "class_entries (egress_buffer (ex_after 9)) 9 7 = [e]"
    and nb: "nb_priorities (egress_buffer (ex_after 9)) = 8" and o: "\<And>d. d \<noteq> (9, 7) \<Longrightarrow> eq_contents (egress_buffer (ex_after 9)) d = []"
    using ex_port_nine by (auto simp: ex_after_def)
  from nb e have "eq_contents (egress_buffer (ex_after 9)) (9, 7) \<noteq> []" by (simp add: eq_contents_def)
  moreover have "\<forall>q < 8. \<forall>p. eq_contents (egress_buffer (ex_after 9)) (q, p) = []" using o by simp
  ultimately show ?thesis
    using v1model_high_ports_starve [OF ex_B_frame ex_B_declares ex_B_groups ex_after_reach, of 9] by blast
qed

subsection \<open>The input buffer\<close>

definition in_count :: "('addr, 'w, 'p) v1model \<Rightarrow> nat" where
  "in_count c = length (queue_hi (in_buffer c)) + length (queue_lo (in_buffer c))"

lemma in_count_pop:
  assumes "ib_pop_back ib = (ib', Some pkt)"
  shows "length (queue_hi ib') + length (queue_lo ib') + 1 = length (queue_hi ib) + length (queue_lo ib)"
    and "capacity_hi ib' = capacity_hi ib"
    and "ib_wf ib \<Longrightarrow> 0 < capacity_hi ib \<Longrightarrow> length (queue_hi ib') < capacity_hi ib'"
  using assms by (auto simp: ib_pop_back_def ib_wf_def split: if_splits)

text \<open>Each run of the ingress handler that ends takes exactly one packet out of the input buffer:
  a resubmitted packet always finds room.\<close>

lemma HandleIngress_count:
  "ib_wf (in_buffer c) \<Longrightarrow> 0 < capacity_hi (in_buffer c) \<Longrightarrow> HandleIngressPipeline fuel B S c = (c', Inr ()) \<Longrightarrow>
   in_count c' = in_count c - 1"
proof (induction fuel arbitrary: c)
  case 0
  then show ?case by simp
next
  case (Suc fuel)
  show ?case
  proof (rule ingress_round [of B S c], goal_cases)
    case 1
    with Suc.prems(3) show ?case by (simp add: in_count_def)
  next
    case (2 ib pkt c'' e)
    with Suc.prems(3) show ?case by simp
  next
    case (3 ib pkt c'')
    then have "c'' = c'" "in_buffer c' = ib"
      using Suc.prems(3) only_egressD(1) [OF 3(2)] by simp_all
    then show ?case using in_count_pop(1) [OF 3(1)] by (simp add: in_count_def)
  next
    case (4 ib pkt c'' copy)
    let ?c = "c''\<lparr>in_buffer := fst (ib_push_front ib RESUBMIT copy)\<rparr>"
    have b: "in_buffer c'' = ib" using only_egressD(1) [OF 4(2)] by simp
    have "ib_wf ib" using ib_wf_pop [OF Suc.prems(1)] 4(1) by simp
    then have wf: "ib_wf (in_buffer ?c)" by (simp add: ib_wf_push del: ib_push_front.simps)
    have room: "length (queue_hi ib) < capacity_hi ib" by (rule in_count_pop(3) [OF 4(1) Suc.prems(1,2)])
    have cap: "0 < capacity_hi (in_buffer ?c)"
      using Suc.prems(2) in_count_pop(2) [OF 4(1)] by (simp del: ib_push_front.simps)
    have "in_count ?c = in_count c"
      using in_count_pop(1) [OF 4(1)] room by (simp add: in_count_def push_front_queue_def)
    moreover have "in_count c' = in_count ?c - 1"
      by (rule Suc.IH [OF wf cap]) (use 4(3) Suc.prems(3) in simp)
    ultimately show ?case by simp
  qed
qed

lemma only_egress_count: "only_egress c c' \<Longrightarrow> in_count c' = in_count c"
  by (simp add: in_count_def only_egressD)

lemma egress_clone_only: "only_egress c (fst (fst (egress_clone B S c pkt)))"
  by (auto simp: egress_clone_def Let_def case_prod_beta split: option.split intro: mirror_copy_only)

lemma in_count_push: "in_count c \<le> in_count (c\<lparr>in_buffer := fst (ib_push_front (in_buffer c) ty pkt)\<rparr>)"
  by (cases ty) (simp_all add: in_count_def push_front_queue_def)

lemma in_count_world [simp]: "in_count (c\<lparr>world := w\<rparr>) = in_count c"
  by (simp add: in_count_def)

lemma in_count_send: "in_count (fst (egress_send B c port pkt)) = in_count c"
  by (simp add: egress_send_def in_count_def Let_def)

lemma egress_finish_count: "in_count c \<le> in_count (fst (egress_finish B S c port pkt))"
proof -
  define pkt1 where "pkt1 = bm_set_field B (bm_set_field B (bm_set_field B pkt ''standard_metadata.egress_port'' port)
      ''standard_metadata.egress_spec'' 0) ''standard_metadata.packet_length''
      (unat (bm_get_register B (bm_set_field B (bm_set_field B pkt ''standard_metadata.egress_port'' port)
      ''standard_metadata.egress_spec'' 0) PACKET_LENGTH_REG_IDX))"
  obtain w pkt2 where ap: "bm_apply B ''egress'' (world c) pkt1 = (w, pkt2)" by fastforce
  obtain c3 pkt3 r where cl: "egress_clone B S (c\<lparr>world := w\<rparr>) pkt2 = ((c3, pkt3), r)" by (metis prod.collapse)
  have c3: "in_count c3 = in_count c"
    using only_egress_count [OF egress_clone_only [of "c\<lparr>world := w\<rparr>" B S pkt2]] by (simp add: cl)
  obtain w4 pkt4 where dp: "bm_deparse B ''deparser'' (world c3) pkt3 = (w4, pkt4)" by fastforce
  define c4 where "c4 = c3\<lparr>world := w4\<rparr>"
  have "egress_finish B S c port pkt =
      (case r of Inl e \<Rightarrow> (c3, Inl e)
       | Inr _ \<Rightarrow>
           if get_uint B pkt3 ''standard_metadata.egress_spec'' = drop_port c3 then (c3, Inr True)
           else if get_recirculate_flag B pkt4 \<noteq> 0
                then (c4\<lparr>in_buffer := fst (ib_push_front (in_buffer c4) RECIRCULATE (recirculate_copy B pkt4 (get_recirculate_flag B pkt4)))\<rparr>, Inr True)
                else egress_send B c4 port pkt4)"
    by (simp only: egress_finish_def Let_def pkt1_def [symmetric] ap cl prod.case dp c4_def [symmetric])
      (cases r; simp add: case_prod_beta)
  then show ?thesis
    using c3 in_count_push [of c4 RECIRCULATE "recirculate_copy B pkt4 (get_recirculate_flag B pkt4)"]
    by (cases r) (simp_all add: in_count_send c4_def del: ib_push_front.simps)
qed

text \<open>C40. The input buffer never catches up. Every reception that returns leaves as many packets in
  the input buffer as it found (it adds one and the ingress handler takes one), and the egress
  handler can only add to them: a packet that recirculation has put there delays every later
  packet for the rest of the run.\<close>

theorem v1model_input_backlog:
  assumes "program_frame B" "declares B" "groups_le B G" "v1_reach B G m R c" "0 < capacity_hi (in_buffer c)"
    and "ReceivePacket fuel B S c d port proto dst = (c', Inr 0)"
  shows "in_count c' = in_count c \<and> in_count c \<le> in_count (fst (HandleEgressPipeline B S c w))"
proof -
  have wf: "ib_wf (in_buffer c)" using v1_reach_ok [OF assms(1-4)] by (simp add: v1_ok_def)
  obtain c1 pkt where r: "receive_packet B S c d port proto dst = (c1, pkt)" by fastforce
  have b: "in_buffer c1 = in_buffer c"
    using fst_receive_packet [of B S c d port proto dst] r
      GetAddressIndex_frame [of "counted c (bm_data_size B (bm_new_packet B port (packet_id c) d))" dst] by auto
  define c2 where "c2 = c1\<lparr>in_buffer := fst (ib_push_front (in_buffer c1) NORMAL pkt)\<rparr>"
  have acc: "snd (ib_push_front (in_buffer c1) NORMAL pkt) = Inr 1"
    and h: "HandleIngressPipeline fuel B S c2 = (c', Inr ())"
    using assms(6) by (auto simp: ReceivePacket_def r case_prod_beta Let_def c2_def push_front_queue_def prod_eq_iff
        simp del: HandleIngressPipeline.simps split: sum.splits if_splits)
  have "in_count c2 = in_count c + 1"
    using acc by (auto simp: in_count_def c2_def b push_front_queue_def split: if_splits)
  moreover have "in_count c' = in_count c2 - 1"
    by (rule HandleIngress_count [OF _ _ h])
      (simp_all add: c2_def b ib_wf_push [OF wf] assms(5) del: ib_push_front.simps)
  moreover have "in_count c \<le> in_count (fst (HandleEgressPipeline B S c w))"
  proof -
    have e: "in_count c \<le> in_count (fst (egress_finish B S k port pkt))" if "in_buffer k = in_buffer c" for k port pkt
      using egress_finish_count [of k B S port pkt] that by (simp add: in_count_def)
    show ?thesis
      by (auto simp: HandleEgressPipeline_def Let_def case_prod_beta split: sum.split option.split intro!: e)
        (simp_all add: in_count_def)
  qed
  ultimately show ?thesis by simp
qed

theorem v1model_input_backlog_witness:
  "in_count (ex_after 3) = in_count ex_switch"
proof -
  have "ReceivePacket 1 (ex_B 3) (example_sim 0) ex_switch [1, 2, 3] 1 0x0800 42 = (ex_after 3, Inr 0)"
    using ex_through by (auto simp: ex_after_def)
  from v1model_input_backlog [OF ex_B_frame ex_B_declares ex_B_groups ex_switch_reach _ this] show ?thesis
    by (simp add: ex_switch_members InputBuffer_def)
qed

end
