(* ===== verification/V1model_Resubmit.thy ===== *)
theory V1model_Resubmit
  imports V1model_Claims
begin

subsection \<open>Resubmission\<close>

text \<open>A measure of the packets in the input buffer.\<close>

definition ib_budget :: "('p \<Rightarrow> nat) \<Rightarrow> 'p input_buffer \<Rightarrow> nat" where
  "ib_budget budget ib = sum_list (map budget (queue_hi ib)) + sum_list (map budget (queue_lo ib))"

lemma ib_budget_push: "ib_budget budget (fst (ib_push_front ib t x)) \<le> budget x + ib_budget budget ib"
  by (cases t) (auto simp: ib_budget_def push_front_queue_def)

lemma sum_list_last: "xs \<noteq> [] \<Longrightarrow> sum_list (map f xs) = f (last xs) + sum_list (map f (butlast xs))" for f :: "'p \<Rightarrow> nat"
  by (induction xs rule: rev_induct) auto

lemma ib_budget_pop:
  assumes "ib_pop_back ib = (ib', Some x)"
  shows "ib_budget budget ib = budget x + ib_budget budget ib'"
  using assms sum_list_last [of "queue_hi ib"] sum_list_last [of "queue_lo ib"]
  by (auto simp: ib_pop_back_def ib_budget_def split: if_splits)

lemma ingress_fuel_budget:
  fixes c :: "('addr, 'w, 'p) v1model"
  assumes b: "\<And>S (c :: ('addr, 'w, 'p) v1model) pkt copy. resubmitted B S c pkt copy \<Longrightarrow> budget copy < budget pkt"
  shows "ib_budget budget (in_buffer c) < fuel \<Longrightarrow>
    snd (HandleIngressPipeline fuel B S c) \<noteq> Inl NoFuel"
proof (induction fuel arbitrary: c)
  case (Suc fuel)
  show ?case
  proof (rule ingress_round [of B S c], goal_cases)
    case (4 ib pkt c' copy)
    have "budget copy < budget pkt" using b [OF 4(4)] .
    moreover have "ib_budget budget (in_buffer c) = budget pkt + ib_budget budget ib" by (rule ib_budget_pop [OF 4(1)])
    moreover note ib_budget_push [of budget ib RESUBMIT copy]
    ultimately have "ib_budget budget (fst (ib_push_front ib RESUBMIT copy)) < fuel" using Suc.prems by linarith
    then show ?case using Suc.IH [of "c'\<lparr>in_buffer := fst (ib_push_front ib RESUBMIT copy)\<rparr>"] 4(3)
      by (simp del: ib_push_front.simps HandleIngressPipeline.simps)
  qed (simp_all del: HandleIngressPipeline.simps)
qed simp

lemma receive_in_buffer:
  "receive_packet B S c d port proto dst = (c1, pkt) \<Longrightarrow> in_buffer c1 = in_buffer c"
  using fst_receive_packet [of B S c d port proto dst]
    GetAddressIndex_frame [of "counted c (bm_data_size B (bm_new_packet B port (packet_id c) d))" dst] by auto

lemma ingress_fuel_more:
  "snd (HandleIngressPipeline f B S c) \<noteq> Inl NoFuel \<Longrightarrow>
   HandleIngressPipeline (f + g) B S c = HandleIngressPipeline f B S c"
proof (induction f arbitrary: c)
  case (Suc f)
  from Suc.prems show ?case
    by (rule_tac ingress_round [of B S c]) (simp_all add: Suc.IH del: HandleIngressPipeline.simps)
qed simp

text \<open>C28. Resubmission ends. If some measure of packets is smaller for every resubmitted copy than for
  the packet it was made from (a program that bounds its resubmissions), then the ingress
  handler's recursion ends: a depth above the measure of the packets waiting in the input buffer
  and of the packet received is enough, and a greater depth changes nothing.\<close>

theorem v1model_resubmission_terminates:
  fixes c :: "('addr, 'w, 'p) v1model"
  assumes b: "\<And>S (k :: ('addr, 'w, 'p) v1model) pkt copy. resubmitted B S k pkt copy \<Longrightarrow> budget copy < budget pkt"
    and r: "receive_packet B S c d port proto dst = (c1, pkt)"
    and f: "ib_budget budget (in_buffer c) + budget pkt < fuel"
  shows "snd (ReceivePacket fuel B S c d port proto dst) \<noteq> Inl NoFuel \<and>
         ReceivePacket (fuel + extra) B S c d port proto dst = ReceivePacket fuel B S c d port proto dst"
proof -
  define c2 where "c2 = c1\<lparr>in_buffer := fst (ib_push_front (in_buffer c1) NORMAL pkt)\<rparr>"
  have "ib_budget budget (in_buffer c2) < fuel"
    using ib_budget_push [of budget "in_buffer c1" NORMAL pkt] f
    by (simp add: c2_def receive_in_buffer [OF r] del: ib_push_front.simps)
  then have n: "snd (HandleIngressPipeline fuel B S c2) \<noteq> Inl NoFuel" by (rule ingress_fuel_budget [where budget = budget, rotated]) (rule b)
  have h: "ReceivePacket k B S c d port proto dst =
      (case snd (ib_push_front (in_buffer c1) NORMAL pkt) of Inl e \<Rightarrow> (c2, Inl e)
       | Inr _ \<Rightarrow> (case HandleIngressPipeline k B S c2 of (c, Inl e) \<Rightarrow> (c, Inl e) | (c, Inr _) \<Rightarrow> (c, Inr 0)))" for k
    by (simp only: ReceivePacket_def r Let_def case_prod_beta c2_def fst_conv snd_conv)
  have "snd (ib_push_front (in_buffer c1) NORMAL pkt) \<noteq> Inl NoFuel" by (simp add: push_front_queue_def)
  with n show ?thesis
    by (auto simp: h ingress_fuel_more case_prod_beta simp del: HandleIngressPipeline.simps ib_push_front.simps split: sum.split)
qed

text \<open>A program that resubmits every packet once.\<close>

definition resubmit_once :: "string \<Rightarrow> expkt \<Rightarrow> expkt" where
  "resubmit_once name pkt =
     (if name = ''ingress''
      then pkt\<lparr>ex_fields := (ex_fields pkt)(''standard_metadata.egress_spec'' := 3),
               ex_regs := (ex_regs pkt)(1 := (if ex_fields pkt ''standard_metadata.instance_type'' = 0
                                              then push_bit 48 1 else 0))\<rparr>
      else pkt)"

definition normal_packet :: "expkt \<Rightarrow> nat" where
  "normal_packet pkt = (if ex_fields pkt ''standard_metadata.instance_type'' = 0 then 1 else 0)"

lemma resubmit_once_program:
  "ingress_program (ex_bm v1_fields resubmit_once) k pkt = (k\<lparr>world := world k\<rparr>, resubmit_once ''ingress'' pkt)"
  by (simp add: ingress_program_def Let_def case_prod_beta ex_bm_def v1_fields_def)
    (simp add: resubmit_once_def set_if_present_def)

lemma resubmit_once_budget:
  assumes "resubmitted (ex_bm v1_fields resubmit_once) S k pkt copy"
  shows "normal_packet copy < normal_packet pkt"
proof -
  let ?B = "ex_bm v1_fields resubmit_once" and ?q = "resubmit_once ''ingress'' pkt"
  have reg: "bm_get_register ?B ?q 1 = (if normal_packet pkt = 1 then push_bit 48 1 else 0)"
    by (simp add: resubmit_once_def normal_packet_def ex_bm_def)
  have "get_clone_mirror_session_id ?B ?q = 0"
    using reg by (simp add: get_clone_mirror_session_id_def CLONE_MIRROR_SESSION_ID_MASK_def)
  then have cl: "ingress_clone ?B S k' ?q st port sz = ((k', ?q), Inr ())" for k' st port sz
    by (simp add: ingress_clone_def)
  have "get_resubmit_flag ?B ?q \<noteq> 0"
    using assms by (auto simp: resubmitted_def resubmit_once_program cl)
  then have "normal_packet pkt = 1" using reg by (auto simp: get_resubmit_flag_def split: if_splits)
  moreover have "normal_packet copy = 0"
    using assms by (auto simp: resubmitted_def resubmit_once_program cl resubmit_copy_def CopyFieldList_def Let_def normal_packet_def
        ex_bm_def v1_fields_def clear_all_def set_resubmit_flag_def)
  ultimately show ?thesis by simp
qed

theorem v1model_resubmission_terminates_witness:
  "snd (ReceivePacket 2 (ex_bm v1_fields resubmit_once) (example_sim 0) ex_switch [1, 2, 3] 1 0x0800 42) \<noteq> Inl NoFuel"
proof -
  obtain c1 pkt where r: "receive_packet (ex_bm v1_fields resubmit_once) (example_sim 0) ex_switch [1, 2, 3] 1 0x0800 42 = (c1, pkt)"
    by fastforce
  have "ib_budget normal_packet (in_buffer ex_switch) + normal_packet pkt < 2"
    by (simp add: ex_switch_members ib_budget_def InputBuffer_def normal_packet_def)
  from v1model_resubmission_terminates [where budget = normal_packet, OF _ r this] show ?thesis
    using resubmit_once_budget by blast
qed

end
