(* ===== verification/Bm_Queue.thy ===== *)
theory Bm_Queue
  imports P4_Prelude
begin

text \<open>
  The operations of \<open>bm::Queue\<close> with its default behaviour (reading and writing block).
  \<open>bq_contents\<close> is not called by the core: it is what the queue holds, newest element first.
\<close>

record ('p, 'q) bmq =
  bq_new :: "nat \<Rightarrow> 'q"
  bq_push_front :: "'q \<Rightarrow> 'p \<Rightarrow> ('q, unit) outcome"
  bq_pop_back :: "'q \<Rightarrow> ('q, 'p) outcome"
  bq_contents :: "'q \<Rightarrow> 'p list"
  bq_capacity :: "'q \<Rightarrow> nat"

definition queue_laws :: "('p, 'q) bmq \<Rightarrow> bool" where
  "queue_laws Q \<longleftrightarrow>
     (\<forall>n. bq_contents Q (bq_new Q n) = [] \<and> bq_capacity Q (bq_new Q n) = n) \<and>
     (\<forall>q x. if length (bq_contents Q q) < bq_capacity Q q
            then snd (bq_push_front Q q x) = Inr () \<and>
                 bq_contents Q (fst (bq_push_front Q q x)) = x # bq_contents Q q \<and>
                 bq_capacity Q (fst (bq_push_front Q q x)) = bq_capacity Q q
            else bq_push_front Q q x = (q, Inl Blocks)) \<and>
     (\<forall>q. if bq_contents Q q = [] then bq_pop_back Q q = (q, Inl Blocks)
          else snd (bq_pop_back Q q) = Inr (last (bq_contents Q q)) \<and>
               bq_contents Q (fst (bq_pop_back Q q)) = butlast (bq_contents Q q) \<and>
               bq_capacity Q (fst (bq_pop_back Q q)) = bq_capacity Q q)"

text \<open>The documented behaviour is that of a bounded list.\<close>

definition list_queue :: "('p, 'p list \<times> nat) bmq" where
  "list_queue =
     \<lparr>bq_new = (\<lambda>n. ([], n)),
      bq_push_front = (\<lambda>(xs, n) x. if length xs < n then ((x # xs, n), Inr ()) else ((xs, n), Inl Blocks)),
      bq_pop_back = (\<lambda>(xs, n). if xs = [] then ((xs, n), Inl Blocks) else ((butlast xs, n), Inr (last xs))),
      bq_contents = fst, bq_capacity = snd\<rparr>"

lemma list_queue_laws: "queue_laws list_queue"
  by (simp add: queue_laws_def list_queue_def)

end
