(* ===== verification/Psa_Core.thy ===== *)
theory Psa_Core
  imports Core_Common Bm_Queue Egress_Properties
begin

text \<open>
  \<open>P4CorePsa\<close> (\<open>model/p4-core-psa.h\<close>, \<open>model/p4-core-psa.cc\<close>), the switch core for programs written
  for the Portable Switch Architecture. Its egress buffer is the one of the v1model core; its
  input buffer is BMv2's own \<open>bm::Queue\<close>.
\<close>

text \<open>The hash of the PSA core: as in the v1model core, a signed \<open>char\<close> is sign-extended.\<close>

definition hash_ex_psa :: "u8 list \<Rightarrow> u32" where
  "hash_ex_psa buf =
     (let p = 16777619;
          hash = foldl (\<lambda>hash b. (hash XOR scast b) * p) 2166136261 buf;
          hash = hash + push_bit 13 hash;
          hash = hash XOR drop_bit 7 hash;
          hash = hash + push_bit 3 hash;
          hash = hash XOR drop_bit 17 hash;
          hash = hash + push_bit 5 hash
      in hash)"

subsection \<open>The state\<close>

datatype PktInstanceTypePsa =
    PACKET_PATH_NORMAL | PACKET_PATH_NORMAL_UNICAST | PACKET_PATH_NORMAL_MULTICAST
  | PACKET_PATH_CLONE_I2E | PACKET_PATH_CLONE_E2E | PACKET_PATH_RESUBMIT | PACKET_PATH_RECIRCULATE

fun path_code :: "PktInstanceTypePsa \<Rightarrow> nat" where
  "path_code PACKET_PATH_NORMAL = 0"
| "path_code PACKET_PATH_NORMAL_UNICAST = 1"
| "path_code PACKET_PATH_NORMAL_MULTICAST = 2"
| "path_code PACKET_PATH_CLONE_I2E = 3"
| "path_code PACKET_PATH_CLONE_E2E = 4"
| "path_code PACKET_PATH_RESUBMIT = 5"
| "path_code PACKET_PATH_RECIRCULATE = 6"

definition SSWITCH_VIRTUAL_QUEUE_NUM_PSA :: nat where "SSWITCH_VIRTUAL_QUEUE_NUM_PSA = 8"
definition PSA_PORT_RECIRCULATE :: u32 where "PSA_PORT_RECIRCULATE = 0xfffffffa"
definition nb_egress_threads :: nat where "nb_egress_threads = 1"

definition PsaEgressThreadMapper :: "nat \<Rightarrow> nat \<Rightarrow> nat" where
  "PsaEgressThreadMapper nb_threads egress_port = egress_port mod nb_threads"

record ('addr, 'w, 'p, 'q) psa = "('addr, 'w) switch_core" +
  psa_switch_rate :: u64
  psa_nb_queues_per_port :: nat
  psa_input_buffer :: 'q
  psa_egress_buffer :: "'p egress"
  psa_first_packet :: bool
  psa_egress_time_ref :: time

text \<open>As in the v1model core: a rate of 0 makes the conversion of an infinite value undefined.\<close>

definition PsaCalculateScheduleTime :: "sim \<Rightarrow> ('addr, 'w, 'p, 'q) psa \<Rightarrow> (('addr, 'w, 'p, 'q) psa, unit) outcome" where
  "PsaCalculateScheduleTime S c =
     (if psa_switch_rate c = 0 then (c, Inl Undefined)
      else
        (let bottleneck_ns = 1000000000 div unat (psa_switch_rate c)
         in (c\<lparr>psa_egress_buffer := set_rate_for_all S (psa_egress_buffer c) (unat (psa_switch_rate c)),
               psa_egress_time_ref := int bottleneck_ns\<rparr>, Inr ())))"

definition P4CorePsa ::
  "('p, 'q) bmq \<Rightarrow> sim \<Rightarrow> bool \<Rightarrow> u64 \<Rightarrow> nat \<Rightarrow> nat \<Rightarrow> nat \<Rightarrow> u64 \<Rightarrow> 'w \<Rightarrow> statics \<Rightarrow>
   (('addr, 'w, 'p, 'q) psa, unit) outcome \<times> statics" where
  "P4CorePsa Q S enableTracing packet_rate input_buffer_size queue_buffer_size nb_queues pid w st =
     (let (base, st) = P4SwitchCore S enableTracing SSWITCH_DROP_PORT pid w st;
          c = switch_core.extend
                (base\<lparr>thrift_command := ''psa_switch_CLI'', enable_queueing_metadata := True\<rparr>)
                (psa.fields packet_rate nb_queues (bq_new Q input_buffer_size)
                   (NSQueueingLogicPriRL nb_egress_threads queue_buffer_size
                      (PsaEgressThreadMapper nb_egress_threads) nb_queues)
                   False 0)
      in (PsaCalculateScheduleTime S c, st))"

definition psa_start_and_return :: "(string \<Rightarrow> bool) \<Rightarrow> ('addr, 'w, 'p, 'q) psa \<Rightarrow> ('addr, 'w, 'p, 'q) psa" where
  "psa_start_and_return field_exists c =
     (let c = CheckQueueingMetadata field_exists c
      in if psa_egress_time_ref c \<noteq> 0 then schedule (psa_egress_time_ref c) SetEgressTimerEventH c else c)"

definition psa_swap_notify :: "(string \<Rightarrow> bool) \<Rightarrow> ('addr, 'w, 'p, 'q) psa \<Rightarrow> ('addr, 'w, 'p, 'q) psa" where
  "psa_swap_notify field_exists c = CheckQueueingMetadata field_exists c"

definition psa_reset_target_state :: "('p, 'b, 'w) bm \<Rightarrow> ('addr, 'w, 'p, 'q) psa \<Rightarrow> ('addr, 'w, 'p, 'q) psa" where
  "psa_reset_target_state B c = c\<lparr>world := bm_reset_pre B (world c)\<rparr>"

subsection \<open>From the ingress to the egress buffer\<close>

definition PsaEnqueue ::
  "('p, 'b, 'w) bm \<Rightarrow> sim \<Rightarrow> ('addr, 'w, 'p, 'q) psa \<Rightarrow> u32 \<Rightarrow> 'p \<Rightarrow> (('addr, 'w, 'p, 'q) psa, unit) outcome" where
  "PsaEnqueue B S c egress_port packet =
     (let packet = bm_set_egress_port B packet egress_port;
          priority = pkt_priority B packet
      in if priority \<ge> psa_nb_queues_per_port c then (c, Inr ())
         else
           (let (eg, r) = eq_push_front S (psa_egress_buffer c) (unat egress_port)
                            (psa_nb_queues_per_port c - 1 - priority) packet
            in (c\<lparr>psa_egress_buffer := eg\<rparr>, (case r of Inl e \<Rightarrow> Inl e | Inr _ \<Rightarrow> Inr ()))))"

fun psa_multicast_loop ::
  "('p, 'b, 'w) bm \<Rightarrow> sim \<Rightarrow> u64 \<Rightarrow> PktInstanceTypePsa \<Rightarrow> nat \<Rightarrow> (u32 \<times> nat) list \<Rightarrow> ('addr, 'w, 'p, 'q) psa \<Rightarrow> 'p \<Rightarrow>
   (('addr, 'w, 'p, 'q) psa \<times> 'p, unit) outcome" where
  "psa_multicast_loop B S packet_size path cls [] c packet = ((c, packet), Inr ())"
| "psa_multicast_loop B S packet_size path cls ((egress_port, instance) # outs) c packet =
     (let packet = bm_set_field B packet ''psa_egress_input_metadata.class_of_service'' cls;
          packet = bm_set_field B packet ''psa_egress_input_metadata.instance'' instance;
          packet = bm_set_field B packet ''psa_egress_parser_input_metadata.packet_path'' (path_code path);
          packet_copy = bm_clone_with_phv B packet;
          packet_copy = bm_set_register B packet_copy PACKET_LENGTH_REG_IDX packet_size
      in (case PsaEnqueue B S c egress_port packet_copy of
            (c, Inl e) \<Rightarrow> ((c, packet), Inl e)
          | (c, Inr _) \<Rightarrow> psa_multicast_loop B S packet_size path cls outs c packet))"

definition MultiCastPacket ::
  "('p, 'b, 'w) bm \<Rightarrow> sim \<Rightarrow> ('addr, 'w, 'p, 'q) psa \<Rightarrow> 'p \<Rightarrow> u32 \<Rightarrow> PktInstanceTypePsa \<Rightarrow> nat \<Rightarrow>
   (('addr, 'w, 'p, 'q) psa \<times> 'p, unit) outcome" where
  "MultiCastPacket B S c packet mgid path class_of_service =
     psa_multicast_loop B S (bm_get_register B packet PACKET_LENGTH_REG_IDX) path class_of_service
       (bm_replicate B (world c) mgid) c packet"

text \<open>What a mirroring session does with a copy: multicast it, then send it to its port.\<close>

definition psa_mirror_copy ::
  "('p, 'b, 'w) bm \<Rightarrow> sim \<Rightarrow> ('addr, 'w, 'p, 'q) psa \<Rightarrow> MirroringSessionConfig \<Rightarrow> PktInstanceTypePsa \<Rightarrow> 'p \<Rightarrow>
   (('addr, 'w, 'p, 'q) psa, unit) outcome" where
  "psa_mirror_copy B S c config path packet_copy =
     (case (if cfg_mgid_valid config then MultiCastPacket B S c packet_copy (cfg_mgid config) path 0
            else ((c, packet_copy), Inr ())) of
        ((c, _), Inl e) \<Rightarrow> (c, Inl e)
      | ((c, packet_copy), Inr _) \<Rightarrow>
          (if cfg_egress_port_valid config then PsaEnqueue B S c (cfg_egress_port config) packet_copy
           else (c, Inr ())))"

subsection \<open>Ingress\<close>

text \<open>Time stamp, ingress parser, the default output metadata, and the ingress program.\<close>

definition psa_ingress_program ::
  "('p, 'b, 'w) bm \<Rightarrow> sim \<Rightarrow> ('addr, 'w, 'p, 'q) psa \<Rightarrow> 'p \<Rightarrow> ('addr, 'w, 'p, 'q) psa \<times> 'p" where
  "psa_ingress_program B S c pkt =
     (let pkt = bm_set_field B pkt ''psa_ingress_input_metadata.ingress_timestamp'' (unat (GetTimeStamp S c));
          (w, pkt) = bm_parse B ''ingress_parser'' (world c) pkt;
          pkt = copy_field B ''psa_ingress_input_metadata.ingress_port'' ''psa_ingress_parser_input_metadata.ingress_port'' pkt;
          pkt = copy_field B ''psa_ingress_input_metadata.packet_path'' ''psa_ingress_parser_input_metadata.packet_path'' pkt;
          pkt = bm_set_field B pkt ''psa_ingress_input_metadata.parser_error'' (bm_error_code B pkt);
          pkt = bm_set_field B pkt ''psa_ingress_output_metadata.class_of_service'' 0;
          pkt = bm_set_field B pkt ''psa_ingress_output_metadata.clone'' 0;
          pkt = bm_set_field B pkt ''psa_ingress_output_metadata.drop'' 1;
          pkt = bm_set_field B pkt ''psa_ingress_output_metadata.resubmit'' 0;
          pkt = bm_set_field B pkt ''psa_ingress_output_metadata.multicast_group'' 0;
          (w, pkt) = bm_apply B ''ingress'' w pkt;
          pkt = bm_reset_exit B pkt
      in (c\<lparr>world := w\<rparr>, pkt))"

text \<open>
  Ingress cloning: a copy of the packet as it came in. The session id is 16 bits wide, so its
  conversion to \<open>int\<close> keeps its value.
\<close>

definition psa_ingress_clone ::
  "('p, 'b, 'w) bm \<Rightarrow> sim \<Rightarrow> ('addr, 'w, 'p, 'q) psa \<Rightarrow> 'p \<Rightarrow> 'b \<Rightarrow> u64 \<Rightarrow> (('addr, 'w, 'p, 'q) psa \<times> 'p, unit) outcome" where
  "psa_ingress_clone B S c pkt packet_in_state ingress_packet_size =
     (if get_uint B pkt ''psa_ingress_output_metadata.clone'' = 0 then ((c, pkt), Inr ())
      else
        (case GetMirroringSession c (int (bm_get_field B pkt ''psa_ingress_output_metadata.clone_session_id'')) of
           None \<Rightarrow> ((c, pkt), Inr ())
         | Some config \<Rightarrow>
             (let packet_out_state = bm_save_buffer_state B pkt;
                  pkt = bm_restore_buffer_state B pkt packet_in_state;
                  copy = bm_clone_no_phv B pkt;
                  copy = bm_set_register B copy PACKET_LENGTH_REG_IDX ingress_packet_size;
                  copy = bm_reset_metadata B copy;
                  copy = bm_set_field B copy ''psa_egress_parser_input_metadata.packet_path''
                           (path_code PACKET_PATH_CLONE_I2E)
              in case psa_mirror_copy B S c config PACKET_PATH_CLONE_I2E copy of
                   (c, Inl e) \<Rightarrow> ((c, pkt), Inl e)
                 | (c, Inr _) \<Rightarrow> ((c, bm_restore_buffer_state B pkt packet_out_state), Inr ()))))"

text \<open>Deparsing at the end of ingress, then multicast or unicast to the egress buffer.\<close>

definition psa_ingress_forward ::
  "('p, 'b, 'w) bm \<Rightarrow> sim \<Rightarrow> ('addr, 'w, 'p, 'q) psa \<Rightarrow> 'p \<Rightarrow> nat \<Rightarrow> (('addr, 'w, 'p, 'q) psa, unit) outcome" where
  "psa_ingress_forward B S c pkt ig_cos =
     (let (w, pkt) = bm_deparse B ''ingress_deparser'' (world c) pkt;
          c = c\<lparr>world := w\<rparr>;
          mgid = get_uint B pkt ''psa_ingress_output_metadata.multicast_group''
      in if mgid \<noteq> 0
         then (case MultiCastPacket B S c pkt mgid PACKET_PATH_NORMAL_MULTICAST ig_cos of ((c, _), r) \<Rightarrow> (c, r))
         else
           (let pkt = bm_set_field B pkt ''psa_egress_input_metadata.instance'' 0;
                pkt = bm_set_field B pkt ''psa_egress_input_metadata.class_of_service'' ig_cos;
                pkt = bm_set_field B pkt ''psa_egress_parser_input_metadata.packet_path''
                        (path_code PACKET_PATH_NORMAL_UNICAST)
            in PsaEnqueue B S c (get_uint B pkt ''psa_ingress_output_metadata.egress_port'') pkt))"

definition psa_resubmit_packet :: "('p, 'b, 'w) bm \<Rightarrow> 'p \<Rightarrow> 'b \<Rightarrow> 'p" where
  "psa_resubmit_packet B pkt packet_in_state =
     (let pkt = bm_restore_buffer_state B pkt packet_in_state;
          pkt = bm_reset_metadata B pkt
      in bm_set_field B pkt ''psa_ingress_parser_input_metadata.packet_path'' (path_code PACKET_PATH_RESUBMIT))"

fun PsaHandleIngressPipeline ::
  "nat \<Rightarrow> ('p, 'b, 'w) bm \<Rightarrow> ('p, 'q) bmq \<Rightarrow> sim \<Rightarrow> ('addr, 'w, 'p, 'q) psa \<Rightarrow> (('addr, 'w, 'p, 'q) psa, unit) outcome" where
  "PsaHandleIngressPipeline 0 B Q S c = (c, Inl NoFuel)"
| "PsaHandleIngressPipeline (Suc fuel) B Q S c =
     (case bq_pop_back Q (psa_input_buffer c) of
        (ib, Inl e) \<Rightarrow> (c\<lparr>psa_input_buffer := ib\<rparr>, Inl e)
      | (ib, Inr pkt) \<Rightarrow>
          (let c = c\<lparr>psa_input_buffer := ib\<rparr>;
               packet_in_state = bm_save_buffer_state B pkt;
               ingress_packet_size = bm_get_register B pkt PACKET_LENGTH_REG_IDX;
               (c, pkt) = psa_ingress_program B S c pkt;
               ig_cos = unat (get_uint B pkt ''psa_ingress_output_metadata.class_of_service'')
           in case psa_ingress_clone B S c pkt packet_in_state ingress_packet_size of
                ((c, pkt), Inl e) \<Rightarrow> (c, Inl e)
              | ((c, pkt), Inr _) \<Rightarrow>
                  (if get_uint B pkt ''psa_ingress_output_metadata.drop'' \<noteq> 0 then (c, Inr ())
                   else if get_uint B pkt ''psa_ingress_output_metadata.resubmit'' \<noteq> 0
                   then (case bq_push_front Q (psa_input_buffer c) (psa_resubmit_packet B pkt packet_in_state) of
                           (ib, Inl e) \<Rightarrow> (c\<lparr>psa_input_buffer := ib\<rparr>, Inl e)
                         | (ib, Inr _) \<Rightarrow> PsaHandleIngressPipeline fuel B Q S (c\<lparr>psa_input_buffer := ib\<rparr>))
                   else psa_ingress_forward B S c pkt ig_cos)))"

subsection \<open>Reception\<close>

definition psa_receive_packet ::
  "('p, 'b, 'w) bm \<Rightarrow> ('addr, 'w, 'p, 'q) psa \<Rightarrow> u8 list \<Rightarrow> u32 \<Rightarrow> u16 \<Rightarrow> 'addr \<Rightarrow> ('addr, 'w, 'p, 'q) psa \<times> 'p" where
  "psa_receive_packet B c packetIn inPort protocol destination =
     (let (c, pkt) = ConvertToBmPacket B c packetIn inPort;
          len = bm_data_size B pkt;
          pkt = bm_set_ingress_port B pkt inPort;
          pkt = bm_reset_metadata B pkt;
          pkt = clear_all B pkt;
          pkt = set_ns_protocol B pkt protocol;
          (c, addr_index) = GetAddressIndex c destination;
          pkt = set_ns_address B pkt (ucast addr_index);
          pkt = bm_set_field B pkt ''psa_ingress_parser_input_metadata.packet_path'' (path_code PACKET_PATH_NORMAL);
          pkt = bm_set_field B pkt ''psa_ingress_parser_input_metadata.ingress_port'' (unat inPort);
          pkt = bm_set_register B pkt PACKET_LENGTH_REG_IDX (of_nat len)
      in (c, pkt))"

definition PsaReceivePacket ::
  "nat \<Rightarrow> ('p, 'b, 'w) bm \<Rightarrow> ('p, 'q) bmq \<Rightarrow> sim \<Rightarrow> ('addr, 'w, 'p, 'q) psa \<Rightarrow> u8 list \<Rightarrow> u32 \<Rightarrow> u16 \<Rightarrow> 'addr \<Rightarrow>
   (('addr, 'w, 'p, 'q) psa, int) outcome" where
  "PsaReceivePacket fuel B Q S c packetIn inPort protocol destination =
     (let (c, pkt) = psa_receive_packet B c packetIn inPort protocol destination
      in case bq_push_front Q (psa_input_buffer c) pkt of
           (ib, Inl e) \<Rightarrow> (c\<lparr>psa_input_buffer := ib\<rparr>, Inl e)
         | (ib, Inr _) \<Rightarrow>
             (case PsaHandleIngressPipeline fuel B Q S (c\<lparr>psa_input_buffer := ib\<rparr>) of
                (c, Inl e) \<Rightarrow> (c, Inl e)
              | (c, Inr _) \<Rightarrow> (c, Inr 0)))"

subsection \<open>Egress\<close>

text \<open>Parser, default output metadata, egress program and deparser.\<close>

definition psa_egress_program ::
  "('p, 'b, 'w) bm \<Rightarrow> sim \<Rightarrow> ('addr, 'w, 'p, 'q) psa \<Rightarrow> nat \<Rightarrow> 'p \<Rightarrow> ('addr, 'w, 'p, 'q) psa \<times> 'p" where
  "psa_egress_program B S c port pkt =
     (let pkt = bm_reset_phv B pkt;
          pkt = bm_set_field B pkt ''psa_egress_parser_input_metadata.egress_port'' port;
          pkt = bm_set_field B pkt ''psa_egress_input_metadata.egress_timestamp'' (unat (GetTimeStamp S c));
          (w, pkt) = bm_parse B ''egress_parser'' (world c) pkt;
          pkt = copy_field B ''psa_egress_input_metadata.egress_port'' ''psa_egress_parser_input_metadata.egress_port'' pkt;
          pkt = copy_field B ''psa_egress_input_metadata.packet_path'' ''psa_egress_parser_input_metadata.packet_path'' pkt;
          pkt = bm_set_field B pkt ''psa_egress_input_metadata.parser_error'' (bm_error_code B pkt);
          pkt = bm_set_field B pkt ''psa_egress_output_metadata.clone'' 0;
          pkt = bm_set_field B pkt ''psa_egress_output_metadata.drop'' 0;
          (w, pkt) = bm_apply B ''egress'' w pkt;
          pkt = bm_reset_exit B pkt;
          pkt = copy_field B ''psa_egress_deparser_input_metadata.egress_port'' ''psa_egress_parser_input_metadata.egress_port'' pkt;
          (w, pkt) = bm_deparse B ''egress_deparser'' w pkt
      in (c\<lparr>world := w\<rparr>, pkt))"

text \<open>Egress cloning: a copy of the packet as the egress deparser left it.\<close>

definition psa_egress_clone ::
  "('p, 'b, 'w) bm \<Rightarrow> sim \<Rightarrow> ('addr, 'w, 'p, 'q) psa \<Rightarrow> 'p \<Rightarrow> (('addr, 'w, 'p, 'q) psa, unit) outcome" where
  "psa_egress_clone B S c pkt =
     (if get_uint B pkt ''psa_egress_output_metadata.clone'' = 0 then (c, Inr ())
      else
        (case GetMirroringSession c (int (bm_get_field B pkt ''psa_egress_output_metadata.clone_session_id'')) of
           None \<Rightarrow> (c, Inr ())
         | Some config \<Rightarrow>
             (let copy = bm_clone_no_phv B pkt;
                  copy = bm_reset_metadata B copy;
                  copy = bm_set_field B copy ''psa_egress_parser_input_metadata.packet_path''
                           (path_code PACKET_PATH_CLONE_E2E)
              in psa_mirror_copy B S c config PACKET_PATH_CLONE_E2E copy)))"

definition psa_recirculate_packet :: "('p, 'b, 'w) bm \<Rightarrow> 'p \<Rightarrow> 'p" where
  "psa_recirculate_packet B pkt =
     (let pkt = bm_reset_phv B pkt;
          pkt = bm_reset_header_stacks B pkt;
          pkt = bm_reset_metadata B pkt;
          pkt = bm_set_field B pkt ''psa_ingress_parser_input_metadata.ingress_port'' (unat PSA_PORT_RECIRCULATE)
      in bm_set_field B pkt ''psa_ingress_parser_input_metadata.packet_path'' (path_code PACKET_PATH_RECIRCULATE))"

text \<open>The packet is handed to the net device; an index past the address table is undefined.\<close>

definition psa_egress_send ::
  "('p, 'b, 'w) bm \<Rightarrow> ('addr, 'w, 'p, 'q) psa \<Rightarrow> nat \<Rightarrow> 'p \<Rightarrow> (('addr, 'w, 'p, 'q) psa, bool) outcome" where
  "psa_egress_send B c port pkt =
     (let protocol = get_ns_protocol B pkt;
          addr_index = unat (get_ns_address B pkt)
      in if length (destination_list c) \<le> addr_index then (c, Inl Undefined)
         else (c\<lparr>sent := sent c @ [\<lparr>send_data = ConvertToNs3Packet B pkt, send_port = port,
                                   send_protocol = protocol, send_destination = destination_list c ! addr_index\<rparr>]\<rparr>,
               Inr True))"

definition PsaHandleEgressPipeline ::
  "nat \<Rightarrow> ('p, 'b, 'w) bm \<Rightarrow> ('p, 'q) bmq \<Rightarrow> sim \<Rightarrow> ('addr, 'w, 'p, 'q) psa \<Rightarrow> nat \<Rightarrow>
   (('addr, 'w, 'p, 'q) psa, bool) outcome" where
  "PsaHandleEgressPipeline fuel B Q S c worker_id =
     (if \<forall>i \<in> set [0..<SSWITCH_VIRTUAL_QUEUE_NUM_PSA]. eq_size (psa_egress_buffer c) i = 0
      then (c, Inr False)
      else
        (let (eg, r) = eq_pop_back S (psa_egress_buffer c) worker_id;
             c = c\<lparr>psa_egress_buffer := eg\<rparr>
         in case r of
              Inl e \<Rightarrow> (c, Inl e)
            | Inr None \<Rightarrow> (c, Inr False)
            | Inr (Some (port, _, pkt)) \<Rightarrow>
                (let (c, pkt) = psa_egress_program B S c port pkt
                 in case psa_egress_clone B S c pkt of
                      (c, Inl e) \<Rightarrow> (c, Inl e)
                    | (c, Inr _) \<Rightarrow>
                        (if get_uint B pkt ''psa_egress_output_metadata.drop'' \<noteq> 0 then (c, Inr True)
                         else if port = unat PSA_PORT_RECIRCULATE
                         then (case bq_push_front Q (psa_input_buffer c) (psa_recirculate_packet B pkt) of
                                 (ib, Inl e) \<Rightarrow> (c\<lparr>psa_input_buffer := ib\<rparr>, Inl e)
                               | (ib, Inr _) \<Rightarrow>
                                   (case PsaHandleIngressPipeline fuel B Q S (c\<lparr>psa_input_buffer := ib\<rparr>) of
                                      (c, Inl e) \<Rightarrow> (c, Inl e)
                                    | (c, Inr _) \<Rightarrow> (c, Inr True)))
                         else psa_egress_send B c port pkt))))"

definition PsaSetEgressTimerEvent ::
  "nat \<Rightarrow> ('p, 'b, 'w) bm \<Rightarrow> ('p, 'q) bmq \<Rightarrow> sim \<Rightarrow> ('addr, 'w, 'p, 'q) psa \<Rightarrow> (('addr, 'w, 'p, 'q) psa, unit) outcome" where
  "PsaSetEgressTimerEvent fuel B Q S c =
     (case PsaHandleEgressPipeline fuel B Q S c 0 of
        (c, Inl e) \<Rightarrow> (c, Inl e)
      | (c, Inr checkflag) \<Rightarrow>
          (let c = schedule (psa_egress_time_ref c) SetEgressTimerEventH c;
               c = (if \<not> psa_first_packet c \<and> checkflag then c\<lparr>psa_first_packet := True\<rparr> else c);
               c = (if psa_first_packet c \<and> \<not> checkflag then schedule 10 (HandleEgressPipelineH 0) c else c)
           in (c, Inr ())))"

subsection \<open>Egress queue settings\<close>

definition PsaSetEgressPriorityQueueDepth ::
  "sim \<Rightarrow> ('addr, 'w, 'p, 'q) psa \<Rightarrow> nat \<Rightarrow> nat \<Rightarrow> nat \<Rightarrow> (('addr, 'w, 'p, 'q) psa, int) outcome" where
  "PsaSetEgressPriorityQueueDepth S c port priority depth_pkts =
     (let (eg, r) = set_capacity_pri S (psa_egress_buffer c) port priority depth_pkts
      in (c\<lparr>psa_egress_buffer := eg\<rparr>, (case r of Inl e \<Rightarrow> Inl e | Inr _ \<Rightarrow> Inr 0)))"

definition PsaSetEgressQueueDepth ::
  "sim \<Rightarrow> ('addr, 'w, 'p, 'q) psa \<Rightarrow> nat \<Rightarrow> nat \<Rightarrow> ('addr, 'w, 'p, 'q) psa \<times> int" where
  "PsaSetEgressQueueDepth S c port depth_pkts =
     (c\<lparr>psa_egress_buffer := set_capacity S (psa_egress_buffer c) port depth_pkts\<rparr>, 0)"

definition PsaSetAllEgressQueueDepths :: "('addr, 'w, 'p, 'q) psa \<Rightarrow> nat \<Rightarrow> ('addr, 'w, 'p, 'q) psa \<times> int" where
  "PsaSetAllEgressQueueDepths c depth_pkts =
     (c\<lparr>psa_egress_buffer := set_capacity_for_all (psa_egress_buffer c) depth_pkts\<rparr>, 0)"

definition PsaSetEgressPriorityQueueRate ::
  "sim \<Rightarrow> ('addr, 'w, 'p, 'q) psa \<Rightarrow> nat \<Rightarrow> nat \<Rightarrow> u64 \<Rightarrow> (('addr, 'w, 'p, 'q) psa, int) outcome" where
  "PsaSetEgressPriorityQueueRate S c port priority rate_pps =
     (let (eg, r) = set_rate_pri S (psa_egress_buffer c) port priority (unat rate_pps)
      in (c\<lparr>psa_egress_buffer := eg\<rparr>, (case r of Inl e \<Rightarrow> Inl e | Inr _ \<Rightarrow> Inr 0)))"

definition PsaSetEgressQueueRate ::
  "sim \<Rightarrow> ('addr, 'w, 'p, 'q) psa \<Rightarrow> nat \<Rightarrow> u64 \<Rightarrow> ('addr, 'w, 'p, 'q) psa \<times> int" where
  "PsaSetEgressQueueRate S c port rate_pps =
     (c\<lparr>psa_egress_buffer := set_rate S (psa_egress_buffer c) port (unat rate_pps)\<rparr>, 0)"

definition PsaSetAllEgressQueueRates ::
  "sim \<Rightarrow> ('addr, 'w, 'p, 'q) psa \<Rightarrow> u64 \<Rightarrow> ('addr, 'w, 'p, 'q) psa \<times> int" where
  "PsaSetAllEgressQueueRates S c rate_pps =
     (c\<lparr>psa_egress_buffer := set_rate_for_all S (psa_egress_buffer c) (unat rate_pps)\<rparr>, 0)"

end
