(* ===== verification/Psa_Properties.thy ===== *)
theory Psa_Properties
  imports Psa_Core
begin

text \<open>
  The properties of the PSA switch core: its input queue never backs up (unlike the v1model core's
  input buffer), packets are dropped by default, a unicast packet goes through the switch with its
  label, and a recirculated packet is stuck.
\<close>

subsection \<open>What the steps of a round change\<close>

definition psa_only_egress :: "('addr, 'w, 'p, 'q) psa \<Rightarrow> ('addr, 'w, 'p, 'q) psa \<Rightarrow> bool" where
  "psa_only_egress c c' \<longleftrightarrow> (\<exists>w eg. c' = c\<lparr>world := w, psa_egress_buffer := eg\<rparr>)"

lemma psa_only_egress_refl [simp, intro]: "psa_only_egress c c"
  unfolding psa_only_egress_def by (intro exI [of _ "world c"] exI [of _ "psa_egress_buffer c"]) simp

lemma psa_only_egress_trans: "psa_only_egress c c' \<Longrightarrow> psa_only_egress c' c'' \<Longrightarrow> psa_only_egress c c''"
  unfolding psa_only_egress_def by (elim exE) (auto intro!: exI)

lemma psa_only_egressD:
  assumes "psa_only_egress c c'"
  shows "psa_input_buffer c' = psa_input_buffer c" "sent c' = sent c" "destination_list c' = destination_list c"
    "psa_nb_queues_per_port c' = psa_nb_queues_per_port c" "mirroring_sessions c' = mirroring_sessions c"
  using assms by (auto simp: psa_only_egress_def)

lemma psa_only_egress_world: "psa_only_egress c (c\<lparr>world := w\<rparr>)"
  unfolding psa_only_egress_def by (intro exI [of _ w] exI [of _ "psa_egress_buffer c"]) simp

lemma psa_only_egress_buffer: "psa_only_egress c (c\<lparr>psa_egress_buffer := eg\<rparr>)"
  unfolding psa_only_egress_def by (intro exI [of _ "world c"] exI [of _ eg]) simp

lemma PsaEnqueue_only: "psa_only_egress c (fst (PsaEnqueue B S c q p))"
  by (simp add: PsaEnqueue_def Let_def case_prod_beta psa_only_egress_buffer)

lemma psa_multicast_loop_only: "psa_only_egress c (fst (fst (psa_multicast_loop B S n path cl outs c p)))"
proof (induction outs arbitrary: c p)
  case (Cons x outs)
  obtain q inst where x: "x = (q, inst)" by fastforce
  show ?case
    by (simp add: x Let_def case_prod_beta PsaEnqueue_only psa_only_egress_trans [OF PsaEnqueue_only Cons.IH] split: sum.split)
qed simp

lemma MultiCastPacket_only: "psa_only_egress c (fst (fst (MultiCastPacket B S c p g path cl)))"
  by (simp add: MultiCastPacket_def psa_multicast_loop_only)

lemma psa_mirror_copy_only: "psa_only_egress c (fst (psa_mirror_copy B S c cfg path p))"
  by (simp add: psa_mirror_copy_def case_prod_beta MultiCastPacket_only PsaEnqueue_only
      psa_only_egress_trans [OF MultiCastPacket_only PsaEnqueue_only] split: sum.split)

lemma psa_ingress_clone_only: "psa_only_egress c (fst (fst (psa_ingress_clone B S c p st n)))"
  by (simp add: psa_ingress_clone_def Let_def case_prod_beta psa_mirror_copy_only split: sum.split option.split)

lemma psa_egress_clone_only: "psa_only_egress c (fst (psa_egress_clone B S c p))"
  by (simp add: psa_egress_clone_def Let_def psa_mirror_copy_only split: option.split)

lemma psa_ingress_forward_only: "psa_only_egress c (fst (psa_ingress_forward B S c p cl))"
  by (simp add: psa_ingress_forward_def Let_def case_prod_beta psa_only_egress_trans [OF psa_only_egress_world MultiCastPacket_only]
      psa_only_egress_trans [OF psa_only_egress_world PsaEnqueue_only])

lemma psa_ingress_program_only: "psa_only_egress c (fst (psa_ingress_program B S c p))"
  by (simp add: psa_ingress_program_def Let_def case_prod_beta psa_only_egress_world)

lemma psa_egress_program_only: "psa_only_egress c (fst (psa_egress_program B S c q p))"
  by (simp add: psa_egress_program_def Let_def case_prod_beta psa_only_egress_world)

subsection \<open>The queue's laws\<close>

lemma queue_push_room:
  assumes "queue_laws Q" "length (bq_contents Q q) < bq_capacity Q q"
  obtains q' where "bq_push_front Q q x = (q', Inr ())" "bq_contents Q q' = x # bq_contents Q q" "bq_capacity Q q' = bq_capacity Q q"
  using assms that unfolding queue_laws_def by (metis prod.collapse)

lemma queue_pop_one:
  assumes "queue_laws Q" "bq_contents Q q = [x]"
  obtains q' where "bq_pop_back Q q = (q', Inr x)" "bq_contents Q q' = []" "bq_capacity Q q' = bq_capacity Q q"
  using assms that unfolding queue_laws_def by (metis butlast.simps(2) last_ConsL not_Cons_self2 prod.collapse)

text \<open>The input queue is empty, and it has room for a packet.\<close>

definition psa_idle :: "('p, 'q) bmq \<Rightarrow> ('addr, 'w, 'p, 'q) psa \<Rightarrow> bool" where
  "psa_idle Q c \<longleftrightarrow> bq_contents Q (psa_input_buffer c) = [] \<and> 0 < bq_capacity Q (psa_input_buffer c)"

lemma psa_idle_cong: "psa_input_buffer c' = psa_input_buffer c \<Longrightarrow> psa_idle Q c' = psa_idle Q c"
  by (simp add: psa_idle_def)

text \<open>One round of the ingress handler on the packet \<open>pkt\<close>, the only one in the queue.\<close>

lemma psa_ingress_round:
  assumes Q: "queue_laws Q" and one: "bq_contents Q (psa_input_buffer c) = [pkt]" "0 < bq_capacity Q (psa_input_buffer c)"
  obtains (stop) c' e where "psa_idle Q c'" "\<And>fuel. PsaHandleIngressPipeline (Suc fuel) B Q S c = (c', Inl e)" "sent c' = sent c"
  | (finished) c' where "psa_idle Q c'" "\<And>fuel. PsaHandleIngressPipeline (Suc fuel) B Q S c = (c', Inr ())" "sent c' = sent c"
  | (again) c' copy where "bq_contents Q (psa_input_buffer c') = [copy]" "0 < bq_capacity Q (psa_input_buffer c')" "sent c' = sent c"
      "\<And>fuel. PsaHandleIngressPipeline (Suc fuel) B Q S c = PsaHandleIngressPipeline fuel B Q S c'"
proof -
  obtain ib where pop: "bq_pop_back Q (psa_input_buffer c) = (ib, Inr pkt)" "bq_contents Q ib = []"
    "bq_capacity Q ib = bq_capacity Q (psa_input_buffer c)"
    by (rule queue_pop_one [OF Q one(1)])
  define c0 where "c0 = c\<lparr>psa_input_buffer := ib\<rparr>"
  obtain c1 pkt1 where ip: "psa_ingress_program B S c0 pkt = (c1, pkt1)" by fastforce
  define st where "st = bm_save_buffer_state B pkt"
  define sz where "sz = bm_get_register B pkt PACKET_LENGTH_REG_IDX"
  obtain c2 pkt2 r where cl: "psa_ingress_clone B S c1 pkt1 st sz = ((c2, pkt2), r)" by (metis prod.collapse)
  have "psa_only_egress c0 c1" using psa_ingress_program_only [of c0 B S pkt] by (simp add: ip)
  then have o2: "psa_only_egress c0 c2"
    using psa_only_egress_trans [OF _ psa_ingress_clone_only [of c1 B S pkt1 st sz]] by (simp add: cl)
  note defs = pop(1) c0_def [symmetric] ip st_def [symmetric] sz_def [symmetric] cl
  have idle: "psa_idle Q c'" and s: "sent c' = sent c" if "psa_only_egress c0 c'" for c'
    using psa_only_egressD(1,2) [OF that] pop(2,3) one(2) by (simp_all add: psa_idle_def c0_def)
  consider (clone) e where "r = Inl e"
    | (drop) "r = Inr ()" "get_uint B pkt2 ''psa_ingress_output_metadata.drop'' \<noteq> 0"
    | (resubmit) "r = Inr ()" "get_uint B pkt2 ''psa_ingress_output_metadata.drop'' = 0"
        "get_uint B pkt2 ''psa_ingress_output_metadata.resubmit'' \<noteq> 0"
    | (forward) "r = Inr ()" "get_uint B pkt2 ''psa_ingress_output_metadata.drop'' = 0"
        "get_uint B pkt2 ''psa_ingress_output_metadata.resubmit'' = 0"
    by (cases r) auto
  then show thesis
  proof cases
    case clone
    with o2 show thesis by (intro stop [of c2 e]) (simp_all add: defs idle s)
  next
    case drop
    with o2 show thesis by (intro finished [of c2]) (simp_all add: defs idle s)
  next
    case resubmit
    have ib: "psa_input_buffer c2 = ib" using psa_only_egressD(1) [OF o2] by (simp add: c0_def)
    define copy where "copy = psa_resubmit_packet B pkt2 st"
    have "length (bq_contents Q ib) < bq_capacity Q ib" using pop(2,3) one(2) by simp
    then obtain q where q: "bq_push_front Q ib copy = (q, Inr ())" "bq_contents Q q = [copy]" "bq_capacity Q q = bq_capacity Q ib"
      using queue_push_room [OF Q, of ib copy] pop(2) by metis
    from resubmit show thesis
      by (intro again [of "c2\<lparr>psa_input_buffer := q\<rparr>" copy])
        (use q pop one o2 in \<open>simp_all add: defs ib copy_def [symmetric] s\<close>)
  next
    case forward
    define ig where "ig = unat (get_uint B pkt1 ''psa_ingress_output_metadata.class_of_service'')"
    have o3: "psa_only_egress c0 (fst (psa_ingress_forward B S c2 pkt2 ig))"
      by (rule psa_only_egress_trans [OF o2 psa_ingress_forward_only])
    have h: "PsaHandleIngressPipeline (Suc fuel) B Q S c = psa_ingress_forward B S c2 pkt2 ig" for fuel
      using forward by (simp add: defs ig_def)
    show thesis
    proof (cases "snd (psa_ingress_forward B S c2 pkt2 ig)")
      case (Inl e)
      then show thesis by (intro stop [OF idle [OF o3] _ s [OF o3], of e]) (simp add: h prod_eq_iff del: PsaHandleIngressPipeline.simps)
    next
      case (Inr u)
      then show thesis by (intro finished [OF idle [OF o3] _ s [OF o3]]) (simp add: h prod_eq_iff del: PsaHandleIngressPipeline.simps)
    qed
  qed
qed

lemma psa_ingress_leaves_idle:
  assumes "queue_laws Q" "PsaHandleIngressPipeline fuel B Q S c = (c', Inr ())"
    and "bq_contents Q (psa_input_buffer c) = [pkt]" "0 < bq_capacity Q (psa_input_buffer c)"
  shows "psa_idle Q c' \<and> sent c' = sent c"
  using assms(2-)
proof (induction fuel arbitrary: c pkt)
  case (Suc fuel)
  show ?case
  proof (rule psa_ingress_round [OF assms(1) Suc.prems(2,3), of B S], goal_cases)
    case (3 k copy)
    have "PsaHandleIngressPipeline fuel B Q S k = (c', Inr ())" using 3(4) Suc.prems(1) by simp
    from Suc.IH [OF this 3(1,2)] 3(3) show ?case by simp
  qed (use Suc.prems(1) in \<open>simp_all del: PsaHandleIngressPipeline.simps\<close>)
qed simp

subsection \<open>The input queue between handlers\<close>

lemma psa_receive_packet_frame:
  assumes "psa_receive_packet B c d port proto dst = (c1, pkt)"
  shows "psa_input_buffer c1 = psa_input_buffer c" "sent c1 = sent c" "psa_egress_buffer c1 = psa_egress_buffer c"
    "psa_nb_queues_per_port c1 = psa_nb_queues_per_port c"
    "destination_list c1 = destination_list (fst (GetAddressIndex c dst))"
proof -
  let ?c = "c\<lparr>packet_id := packet_id c + 1\<rparr>"
  obtain l m where f: "fst (GetAddressIndex ?c dst) = ?c\<lparr>destination_list := l, address_map := m\<rparr>"
    using GetAddressIndex_frame [of ?c dst] by auto
  have c1: "c1 = fst (GetAddressIndex ?c dst)"
    using assms by (auto simp: psa_receive_packet_def ConvertToBmPacket_def Let_def case_prod_beta)
  show "psa_input_buffer c1 = psa_input_buffer c" "sent c1 = sent c" "psa_egress_buffer c1 = psa_egress_buffer c"
    "psa_nb_queues_per_port c1 = psa_nb_queues_per_port c"
    by (simp_all add: c1 f)
  show "destination_list c1 = destination_list (fst (GetAddressIndex c dst))"
    unfolding c1 by (rule GetAddressIndex_same) simp_all
qed

lemma psa_push_handle:
  assumes Q: "queue_laws Q" and idle: "psa_idle Q c"
  obtains c1 where "bq_contents Q (psa_input_buffer c1) = [x]" "0 < bq_capacity Q (psa_input_buffer c1)"
    "c1 = c\<lparr>psa_input_buffer := psa_input_buffer c1\<rparr>"
    "bq_push_front Q (psa_input_buffer c) x = (psa_input_buffer c1, Inr ())"
proof -
  obtain q where "bq_push_front Q (psa_input_buffer c) x = (q, Inr ())" "bq_contents Q q = [x]"
    "bq_capacity Q q = bq_capacity Q (psa_input_buffer c)"
    using queue_push_room [OF Q, of "psa_input_buffer c" x] idle unfolding psa_idle_def by (metis list.size(3))
  with idle show thesis by (intro that [of "c\<lparr>psa_input_buffer := q\<rparr>"]) (simp_all add: psa_idle_def)
qed

lemma PsaReceivePacket_idle:
  assumes Q: "queue_laws Q" and idle: "psa_idle Q c" and r: "PsaReceivePacket fuel B Q S c d port proto dst = (c', Inr k)"
  shows "psa_idle Q c' \<and> sent c' = sent c"
proof -
  obtain c1 pkt where p: "psa_receive_packet B c d port proto dst = (c1, pkt)" by fastforce
  note F = psa_receive_packet_frame [OF p]
  have "psa_idle Q c1" using idle by (simp add: psa_idle_cong [OF F(1)])
  then obtain c2 where c2: "bq_contents Q (psa_input_buffer c2) = [pkt]" "0 < bq_capacity Q (psa_input_buffer c2)"
    "c2 = c1\<lparr>psa_input_buffer := psa_input_buffer c2\<rparr>" "bq_push_front Q (psa_input_buffer c1) pkt = (psa_input_buffer c2, Inr ())"
    using psa_push_handle [OF Q, of c1 pkt] by metis
  have "PsaHandleIngressPipeline fuel B Q S c2 = (c', Inr ())"
    using r c2(4) by (auto simp: PsaReceivePacket_def p c2(3) [symmetric] split: sum.splits prod.splits)
  from psa_ingress_leaves_idle [OF Q this c2(1,2)] show ?thesis
    using F(2) arg_cong [OF c2(3), of sent] by simp
qed

lemma PsaHandleEgress_idle:
  assumes Q: "queue_laws Q" and idle: "psa_idle Q c" and r: "PsaHandleEgressPipeline fuel B Q S c w = (c', Inr k)"
  shows "psa_idle Q c' \<and> (\<exists>l. sent c' = sent c @ l \<and> length l \<le> 1)"
proof (cases "\<forall>i \<in> set [0..<SSWITCH_VIRTUAL_QUEUE_NUM_PSA]. eq_size (psa_egress_buffer c) i = 0")
  case True
  with r idle show ?thesis by (auto simp: PsaHandleEgressPipeline_def)
next
  case False
  obtain eg pr where pop: "eq_pop_back S (psa_egress_buffer c) w = (eg, pr)" by fastforce
  let ?c = "c\<lparr>psa_egress_buffer := eg\<rparr>"
  have i1: "psa_idle Q ?c" using idle by (simp add: psa_idle_def)
  note H0 = PsaHandleEgressPipeline_def [of fuel B Q S c w, unfolded if_not_P [OF False] pop Let_def prod.case]
  show ?thesis
  proof (cases pr)
    case (Inl e)
    with r show ?thesis by (simp add: H0)
  next
    case (Inr popped)
    note pr = this
    show ?thesis
    proof (cases popped)
      case None
      with r pr i1 show ?thesis by (auto simp: H0)
    next
      case (Some t)
      obtain port p pkt where t: "t = (port, p, pkt)" by (cases t) auto
      obtain c2 pkt2 where ep: "psa_egress_program B S ?c port pkt = (c2, pkt2)" by fastforce
      obtain c3 r3 where cl: "psa_egress_clone B S c2 pkt2 = (c3, r3)" by fastforce
      have o3: "psa_only_egress ?c c3"
        using psa_only_egress_trans [OF psa_egress_program_only [of ?c B S port pkt] ] psa_egress_clone_only [of c2 B S pkt2]
        by (simp add: ep cl)
      then have i3: "psa_idle Q c3" and s3: "sent c3 = sent c"
        using i1 psa_only_egressD(1,2) [OF o3] by (simp_all add: psa_idle_def)
      have H: "PsaHandleEgressPipeline fuel B Q S c w =
          (case r3 of Inl e \<Rightarrow> (c3, Inl e)
           | Inr _ \<Rightarrow> if get_uint B pkt2 ''psa_egress_output_metadata.drop'' \<noteq> 0 then (c3, Inr True)
             else if port = unat PSA_PORT_RECIRCULATE
             then (case bq_push_front Q (psa_input_buffer c3) (psa_recirculate_packet B pkt2) of
                     (ib, Inl e) \<Rightarrow> (c3\<lparr>psa_input_buffer := ib\<rparr>, Inl e)
                   | (ib, Inr _) \<Rightarrow>
                       (case PsaHandleIngressPipeline fuel B Q S (c3\<lparr>psa_input_buffer := ib\<rparr>) of
                          (c, Inl e) \<Rightarrow> (c, Inl e) | (c, Inr _) \<Rightarrow> (c, Inr True)))
             else psa_egress_send B c3 port pkt2)"
        by (simp only: H0 pr Some t prod.case sum.case option.case ep cl)
      obtain c4 where c4: "bq_contents Q (psa_input_buffer c4) = [psa_recirculate_packet B pkt2]" "0 < bq_capacity Q (psa_input_buffer c4)"
        "c4 = c3\<lparr>psa_input_buffer := psa_input_buffer c4\<rparr>"
        "bq_push_front Q (psa_input_buffer c3) (psa_recirculate_packet B pkt2) = (psa_input_buffer c4, Inr ())"
        using psa_push_handle [OF Q i3, of "psa_recirculate_packet B pkt2"] by metis
      have s4: "sent c4 = sent c" using s3 arg_cong [OF c4(3), of sent] by simp
      show ?thesis
      proof (cases "get_uint B pkt2 ''psa_egress_output_metadata.drop'' = 0 \<and> port = unat PSA_PORT_RECIRCULATE \<and> r3 = Inr ()")
        case True
        have "\<exists>k. PsaHandleIngressPipeline fuel B Q S c4 = (c', Inr ())"
          using r True by (auto simp: H c4(4) c4(3) [symmetric] split: sum.splits prod.splits)
        then show ?thesis using psa_ingress_leaves_idle [OF Q _ c4(1,2)] s4 by auto
      next
        case False
        with r i3 s3 show ?thesis
          by (auto simp: H psa_egress_send_def Let_def psa_idle_def split: sum.splits if_splits)
      qed
    qed
  qed
qed

inductive psa_reach :: "('p, 'b, 'w) bm \<Rightarrow> ('p, 'q) bmq \<Rightarrow> ('addr, 'w, 'p, 'q) psa \<Rightarrow> bool"
  for B :: "('p, 'b, 'w) bm" and Q :: "('p, 'q) bmq" where
  new: "P4CorePsa Q S tr rate ibs qbs nbq pid w st = ((c, Inr ()), st') \<Longrightarrow> 0 < ibs \<Longrightarrow> psa_reach B Q c"
| receive: "psa_reach B Q c \<Longrightarrow> PsaReceivePacket fuel B Q S c d port proto dst = (c', Inr r) \<Longrightarrow> psa_reach B Q c'"
| egress: "psa_reach B Q c \<Longrightarrow> PsaHandleEgressPipeline fuel B Q S c w = (c', Inr b) \<Longrightarrow> psa_reach B Q c'"
| timer: "psa_reach B Q c \<Longrightarrow> PsaSetEgressTimerEvent fuel B Q S c = (c', Inr ()) \<Longrightarrow> psa_reach B Q c'"
| start: "psa_reach B Q c \<Longrightarrow> psa_reach B Q (psa_start_and_return f c)"
| swap: "psa_reach B Q c \<Longrightarrow> psa_reach B Q (psa_swap_notify f c)"
| reset: "psa_reach B Q c \<Longrightarrow> psa_reach B Q (psa_reset_target_state B c)"
| mirror: "psa_reach B Q c \<Longrightarrow> psa_reach B Q (fst (AddMirroringSession c m cfg))"
| unmirror: "psa_reach B Q c \<Longrightarrow> psa_reach B Q (fst (DeleteMirroringSession c m))"
| depth_pri: "psa_reach B Q c \<Longrightarrow> PsaSetEgressPriorityQueueDepth S c q p n = (c', Inr r) \<Longrightarrow> psa_reach B Q c'"
| depth: "psa_reach B Q c \<Longrightarrow> psa_reach B Q (fst (PsaSetEgressQueueDepth S c q n))"
| depth_all: "psa_reach B Q c \<Longrightarrow> psa_reach B Q (fst (PsaSetAllEgressQueueDepths c n))"
| rate_pri: "psa_reach B Q c \<Longrightarrow> PsaSetEgressPriorityQueueRate S c q p v = (c', Inr r) \<Longrightarrow> psa_reach B Q c'"
| rate: "psa_reach B Q c \<Longrightarrow> psa_reach B Q (fst (PsaSetEgressQueueRate S c q v))"
| rate_all: "psa_reach B Q c \<Longrightarrow> psa_reach B Q (fst (PsaSetAllEgressQueueRates S c v))"

lemma psa_idle_new:
  assumes "queue_laws Q" "P4CorePsa Q S tr rate ibs qbs nbq pid w st = ((c, r), st')" "0 < ibs"
  shows "psa_idle Q c"
proof -
  have "bq_contents Q (bq_new Q ibs) = []" "bq_capacity Q (bq_new Q ibs) = ibs"
    using assms(1) by (simp_all add: queue_laws_def)
  moreover have "psa_input_buffer c = bq_new Q ibs"
    using assms(2) by (auto simp: P4CorePsa_def PsaCalculateScheduleTime_def P4SwitchCore_def Let_def
        switch_core.extend_def psa.fields_def split: if_splits)
  ultimately show ?thesis using assms(3) by (simp add: psa_idle_def)
qed

lemma PsaSetEgressTimerEvent_idle:
  assumes "queue_laws Q" "psa_idle Q c" "PsaSetEgressTimerEvent fuel B Q S c = (c', Inr u)"
  shows "psa_idle Q c'"
proof -
  obtain c1 b where h: "PsaHandleEgressPipeline fuel B Q S c 0 = (c1, Inr b)"
    using assms(3) by (auto simp: PsaSetEgressTimerEvent_def split: prod.splits sum.splits)
  have "psa_input_buffer c' = psa_input_buffer c1"
    using assms(3) by (auto simp: PsaSetEgressTimerEvent_def h schedule_def Let_def split: if_splits)
  then show ?thesis using PsaHandleEgress_idle [OF assms(1,2) h] psa_idle_cong by blast
qed

lemma psa_reach_idle:
  assumes "queue_laws Q" "psa_reach B Q c"
  shows "psa_idle Q c"
  using assms(2)
proof (induction rule: psa_reach.induct)
  case (new S tr rate ibs qbs nbq pid w st c st')
  show ?case by (rule psa_idle_new [OF assms(1) new])
next
  case (receive c fuel S d port proto dst c' r)
  show ?case by (rule PsaReceivePacket_idle [OF assms(1) receive(3,2), THEN conjunct1])
next
  case (egress c fuel S w c' b)
  show ?case by (rule PsaHandleEgress_idle [OF assms(1) egress(3,2), THEN conjunct1])
next
  case (timer c fuel S c')
  show ?case by (rule PsaSetEgressTimerEvent_idle [OF assms(1) timer(3,2)])
qed (auto simp: psa_idle_def psa_start_and_return_def CheckQueueingMetadata_def Let_def schedule_def psa_swap_notify_def
    psa_reset_target_state_def AddMirroringSession_def DeleteMirroringSession_def PsaSetEgressPriorityQueueDepth_def
    PsaSetEgressQueueDepth_def PsaSetAllEgressQueueDepths_def PsaSetEgressPriorityQueueRate_def PsaSetEgressQueueRate_def
    PsaSetAllEgressQueueRates_def split: prod.splits sum.splits)

text \<open>The PSA core's input queue never backs up: in every reachable state it is empty, however
  packets were resubmitted, recirculated, cloned or replicated before, so every packet received is
  processed at once. A reception hands nothing to the net device itself, and one run of the egress
  handler hands over at most one packet.\<close>

theorem psa_no_backlog:
  assumes "queue_laws Q" "psa_reach B Q c"
  shows "bq_contents Q (psa_input_buffer c) = [] \<and>
         (\<forall>fuel S d port proto dst c' r. PsaReceivePacket fuel B Q S c d port proto dst = (c', Inr r) \<longrightarrow> sent c' = sent c) \<and>
         (\<forall>fuel S w c' b. PsaHandleEgressPipeline fuel B Q S c w = (c', Inr b) \<longrightarrow>
            (\<exists>l. sent c' = sent c @ l \<and> length l \<le> 1))"
  using psa_reach_idle [OF assms] PsaReceivePacket_idle [OF assms(1), of c _ B] PsaHandleEgress_idle [OF assms(1), of c _ B]
  unfolding psa_idle_def by blast

subsection \<open>A packet through an idle switch\<close>

definition psa_wf :: "('addr, 'w, 'p, 'q) psa \<Rightarrow> bool" where
  "psa_wf c \<longleftrightarrow> eq_wf (psa_egress_buffer c) \<and> counters_ready (psa_egress_buffer c) \<and>
     nb_priorities (psa_egress_buffer c) = psa_nb_queues_per_port c \<and>
     length (workers_info (psa_egress_buffer c)) = 1 \<and> (\<forall>q. map_to_worker (psa_egress_buffer c) q = 0) \<and> addr_wf c"

text \<open>The packet as the ingress handler passes it on, and as \<open>PsaEnqueue\<close> stores it.\<close>

definition psa_ready :: "('p, 'b, 'w) bm \<Rightarrow> nat \<Rightarrow> 'p \<Rightarrow> 'p" where
  "psa_ready B ig_cos pkt =
     bm_set_field B
       (bm_set_field B
         (bm_set_field B pkt ''psa_egress_input_metadata.instance'' 0)
         ''psa_egress_input_metadata.class_of_service'' ig_cos)
       ''psa_egress_parser_input_metadata.packet_path'' (path_code PACKET_PATH_NORMAL_UNICAST)"

definition psa_queued :: "('p, 'b, 'w) bm \<Rightarrow> u32 \<Rightarrow> nat \<Rightarrow> 'p \<Rightarrow> 'p" where
  "psa_queued B q ig_cos pkt = bm_set_egress_port B (psa_ready B ig_cos pkt) q"

lemma psa_forward_unicast:
  assumes "bm_deparse B ''ingress_deparser'' (world c) pkt = (w, pkt')"
    and "get_uint B pkt' ''psa_ingress_output_metadata.multicast_group'' = 0"
    and "get_uint B (psa_ready B ig_cos pkt') ''psa_ingress_output_metadata.egress_port'' = q"
  shows "psa_ingress_forward B S c pkt ig_cos = PsaEnqueue B S (c\<lparr>world := w\<rparr>) q (psa_ready B ig_cos pkt')"
  using assms by (simp add: psa_ingress_forward_def psa_ready_def)

lemma PsaEnqueue_push:
  assumes "pkt_priority B (bm_set_egress_port B p q) < psa_nb_queues_per_port c"
    and "eq_push_front S (psa_egress_buffer c) (unat q)
           (psa_nb_queues_per_port c - 1 - pkt_priority B (bm_set_egress_port B p q)) (bm_set_egress_port B p q) = (eg, Inr k)"
  shows "PsaEnqueue B S c q p = (c\<lparr>psa_egress_buffer := eg\<rparr>, Inr ())"
  using assms by (simp add: PsaEnqueue_def Let_def)

text \<open>The ingress program asks for unicast: no cloning, no drop, no resubmission, no multicast.\<close>

definition psa_unicast ::
  "('p, 'b, 'w) bm \<Rightarrow> 'w \<Rightarrow> 'p \<Rightarrow> u32 \<Rightarrow> bool" where
  "psa_unicast B w pkt q \<longleftrightarrow>
     get_uint B pkt ''psa_ingress_output_metadata.clone'' = 0 \<and>
     get_uint B pkt ''psa_ingress_output_metadata.drop'' = 0 \<and>
     get_uint B pkt ''psa_ingress_output_metadata.resubmit'' = 0 \<and>
     (let pkt' = snd (bm_deparse B ''ingress_deparser'' w pkt) in
      get_uint B pkt' ''psa_ingress_output_metadata.multicast_group'' = 0 \<and>
      get_uint B (psa_ready B (unat (get_uint B pkt ''psa_ingress_output_metadata.class_of_service'')) pkt')
        ''psa_ingress_output_metadata.egress_port'' = q)"


text \<open>The rest of what the end-to-end property assumes of the program: \<open>reset()\<close> of the headers does not
  write the registers.\<close>

definition psa_frame :: "('p, 'b, 'w) bm \<Rightarrow> bool" where
  "psa_frame B \<longleftrightarrow> program_frame B \<and> (\<forall>p. bm_get_register B (bm_reset_phv B p) = bm_get_register B p)"

lemma psa_frameD: "psa_frame B \<Longrightarrow> program_frame B" "psa_frame B \<Longrightarrow> bm_get_register B (bm_reset_phv B p) = bm_get_register B p"
  by (simp_all add: psa_frame_def)

lemma psa_receive_packet_tag:
  assumes B: "program_frame B" and r: "psa_receive_packet B c d port proto dst = (c1, pkt)"
  shows "ns_tag B pkt = (proto, ucast (snd (GetAddressIndex c dst)))"
proof -
  note L = program_frameD(1) [OF B] and F = program_frameD(2) [OF B]
  have "snd (GetAddressIndex (c\<lparr>packet_id := packet_id c + 1\<rparr>) dst) = snd (GetAddressIndex c dst)"
    by (rule GetAddressIndex_same) simp_all
  then show ?thesis
    using r ns_tag_stored [OF L]
    by (auto simp: psa_receive_packet_def ConvertToBmPacket_def Let_def case_prod_beta ns_field_frame [OF F] L)
qed

lemma ns_psa_ingress_program:
  assumes B: "program_frame B"
  shows "ns_tag B (snd (psa_ingress_program B S c pkt)) = ns_tag B pkt"
  by (simp add: psa_ingress_program_def Let_def case_prod_beta program_frameD [OF B] ns_field_frame [OF program_frameD(2) [OF B]] copy_field_def)

lemma ns_psa_egress_program:
  assumes B: "psa_frame B"
  shows "ns_tag B (snd (psa_egress_program B S c q pkt)) = ns_tag B pkt"
proof -
  note P = psa_frameD(1) [OF B]
  have "ns_tag B (bm_reset_phv B pkt) = ns_tag B pkt" by (rule ns_tag_cong) (rule psa_frameD(2) [OF B])
  then show ?thesis
    by (simp add: psa_egress_program_def Let_def case_prod_beta program_frameD [OF P] ns_field_frame [OF program_frameD(2) [OF P]] copy_field_def)
qed

lemma ns_psa_queued:
  assumes B: "program_frame B"
  shows "ns_tag B (psa_queued B q n pkt) = ns_tag B pkt"
  by (rule ns_tag_cong) (simp add: psa_queued_def psa_ready_def register_frameD [OF program_frameD(2) [OF B]])

text \<open>The ingress handler on a unicast packet enqueues it.\<close>

lemma psa_unicast_round:
  assumes Q: "queue_laws Q" and one: "bq_contents Q (psa_input_buffer c) = [pkt]"
    and ip: "\<And>ib. psa_ingress_program B S (c\<lparr>psa_input_buffer := ib\<rparr>) pkt = (c2\<lparr>psa_input_buffer := ib\<rparr>, pkt2)"
    and u: "psa_unicast B (world c2) pkt2 q"
    and d: "bm_deparse B ''ingress_deparser'' (world c2) pkt2 = (w3, pkt3)"
    and x: "x = psa_queued B q (unat (get_uint B pkt2 ''psa_ingress_output_metadata.class_of_service'')) pkt3"
      "pkt_priority B x < psa_nb_queues_per_port c2"
    and psh: "eq_push_front S (psa_egress_buffer c2) (unat q) (psa_nb_queues_per_port c2 - 1 - pkt_priority B x) x = (eg, Inr 1)"
  obtains ib where "PsaHandleIngressPipeline (Suc fuel) B Q S c = (c2\<lparr>psa_input_buffer := ib, world := w3, psa_egress_buffer := eg\<rparr>, Inr ())"
    "bq_contents Q ib = []"
proof -
  obtain ib where pop: "bq_pop_back Q (psa_input_buffer c) = (ib, Inr pkt)" "bq_contents Q ib = []"
    by (rule queue_pop_one [OF Q one]) blast
  let ?cos = "unat (get_uint B pkt2 ''psa_ingress_output_metadata.class_of_service'')"
  have f: "psa_ingress_forward B S (c2\<lparr>psa_input_buffer := ib\<rparr>) pkt2 ?cos =
      (c2\<lparr>psa_input_buffer := ib, world := w3, psa_egress_buffer := eg\<rparr>, Inr ())"
  proof (subst psa_forward_unicast [where q = q])
    show "PsaEnqueue B S (c2\<lparr>psa_input_buffer := ib, world := w3\<rparr>) q (psa_ready B ?cos pkt3) =
        (c2\<lparr>psa_input_buffer := ib, world := w3, psa_egress_buffer := eg\<rparr>, Inr ())"
      using PsaEnqueue_push [of B "psa_ready B ?cos pkt3" q "c2\<lparr>psa_input_buffer := ib, world := w3\<rparr>" S eg 1] x psh
      by (simp add: psa_queued_def)
  qed (use u d in \<open>simp_all add: psa_unicast_def\<close>)
  have "PsaHandleIngressPipeline (Suc fuel) B Q S c = (c2\<lparr>psa_input_buffer := ib, world := w3, psa_egress_buffer := eg\<rparr>, Inr ())"
    using u f by (simp add: pop(1) ip psa_unicast_def psa_ingress_clone_def Let_def)
  then show thesis using that pop(2) by blast
qed

lemma psa_ingress_program_input:
  assumes "psa_ingress_program B S c pkt = (c', pkt')"
  shows "psa_ingress_program B S (c\<lparr>psa_input_buffer := ib\<rparr>) pkt = (c'\<lparr>psa_input_buffer := ib\<rparr>, pkt')"
    and "c' = c\<lparr>world := world c'\<rparr>"
  using assms by (auto simp: psa_ingress_program_def Let_def case_prod_beta GetTimeStamp_def)

lemma psa_unicast_reception:
  assumes Q: "queue_laws Q" and idle: "psa_idle Q c" and wf: "psa_wf c" and S: "seconds_nonneg S"
    and empty: "egress_packets (psa_egress_buffer c) = {}"
    and r: "psa_receive_packet B c d port proto dst = (c1, pkt)"
    and ip: "psa_ingress_program B S c1 pkt = (c2, pkt2)"
    and u: "psa_unicast B (world c2) pkt2 q"
    and dp: "bm_deparse B ''ingress_deparser'' (world c2) pkt2 = (w3, pkt3)"
    and x: "x = psa_queued B q (unat (get_uint B pkt2 ''psa_ingress_output_metadata.class_of_service'')) pkt3"
      "pkt_priority B x < psa_nb_queues_per_port c"
    and k: "k = psa_nb_queues_per_port c - 1 - pkt_priority B x"
    and i: "i = qi_pri (snd (get_queue S (psa_egress_buffer c) (unat q))) ! k" "0 < qip_capacity i"
  obtains c' e where "PsaReceivePacket (Suc fuel) B Q S c d port proto dst = (c', Inr 0)"
    and "sent c' = sent c" "world c' = w3" "start_timestamp c' = start_timestamp c2" "psa_idle Q c'"
    and "destination_list c' = destination_list (fst (GetAddressIndex c dst))"
    and "eq_wf (psa_egress_buffer c')" "nb_priorities (psa_egress_buffer c') = psa_nb_queues_per_port c"
      "length (workers_info (psa_egress_buffer c')) = 1" "\<And>r. map_to_worker (psa_egress_buffer c') r = 0"
    and "class_entries (psa_egress_buffer c') (unat q) k = [e]" "qe_e e = x" "qe_send e = get_next_tp S i"
    and "\<And>d. d \<noteq> (unat q, k) \<Longrightarrow> eq_contents (psa_egress_buffer c') d = []"
proof -
  note F = psa_receive_packet_frame [OF r] and G = psa_ingress_program_input [OF ip]
  let ?eg0 = "psa_egress_buffer c"
  have W: "eq_wf ?eg0" "counters_ready ?eg0" "nb_priorities ?eg0 = psa_nb_queues_per_port c"
    "length (workers_info ?eg0) = 1" "\<And>r. map_to_worker ?eg0 r = 0"
    using wf by (simp_all add: psa_wf_def)
  have same: "psa_egress_buffer c2 = ?eg0" "sent c2 = sent c" "psa_nb_queues_per_port c2 = psa_nb_queues_per_port c"
    "destination_list c2 = destination_list (fst (GetAddressIndex c dst))"
    using F by (subst G(2); simp)+
  have kn: "k < nb_priorities ?eg0" using x(2) W(3) k by simp
  have none: "class_entries ?eg0 q' p' = []" if "p' < nb_priorities ?eg0" for q' p'
    using empty that by (auto simp: egress_packets_def eq_contents_def)
  define eg where "eg = fst (eq_push_front S ?eg0 (unat q) k x)"
  have psh: "eq_push_front S ?eg0 (unat q) k x = (eg, Inr 1)"
    using push_empty_class(1) [OF W(1) S W(2) kn none [OF kn], of "unat q" x] i by (simp add: eg_def prod_eq_iff)
  obtain e where e: "class_entries eg (unat q) k = [e]" "qe_e e = x" "qe_send e = get_next_tp S i"
    using push_empty_class(2) [OF W(1) S W(2) kn none [OF kn], of "unat q" x] i by (auto simp: eg_def)
  have "psa_idle Q c1" using idle by (simp add: psa_idle_cong [OF F(1)])
  then obtain ci where ci: "bq_contents Q (psa_input_buffer ci) = [pkt]" "0 < bq_capacity Q (psa_input_buffer ci)"
    "ci = c1\<lparr>psa_input_buffer := psa_input_buffer ci\<rparr>" "bq_push_front Q (psa_input_buffer c1) pkt = (psa_input_buffer ci, Inr ())"
    using psa_push_handle [OF Q, of c1 pkt] by metis
  have cib: "ci\<lparr>psa_input_buffer := ib\<rparr> = c1\<lparr>psa_input_buffer := ib\<rparr>" for ib by (subst ci(3)) simp
  obtain ib where h: "PsaHandleIngressPipeline (Suc fuel) B Q S ci = (c2\<lparr>psa_input_buffer := ib, world := w3, psa_egress_buffer := eg\<rparr>, Inr ())"
    "bq_contents Q ib = []"
  proof (rule psa_unicast_round [OF Q ci(1) _ u dp x(1)])
    show "psa_ingress_program B S (ci\<lparr>psa_input_buffer := ib\<rparr>) pkt = (c2\<lparr>psa_input_buffer := ib\<rparr>, pkt2)" for ib
      unfolding cib by (rule G(1))
    show "pkt_priority B x < psa_nb_queues_per_port c2" using x(2) by (simp add: same)
    show "eq_push_front S (psa_egress_buffer c2) (unat q) (psa_nb_queues_per_port c2 - 1 - pkt_priority B x) x = (eg, Inr 1)"
      using psh k by (simp add: same)
  qed
  define c' where "c' = c2\<lparr>psa_input_buffer := ib, world := w3, psa_egress_buffer := eg\<rparr>"
  have R: "PsaReceivePacket (Suc fuel) B Q S c d port proto dst = (c', Inr 0)"
    using h(1) by (simp add: PsaReceivePacket_def r ci(4) ci(3) [symmetric] c'_def del: PsaHandleIngressPipeline.simps)
  have idl: "psa_idle Q c'" using PsaReceivePacket_idle [OF Q idle R] by simp
  have "eq_wf eg" unfolding eg_def by (rule eq_wf_push_front [OF W(1) S W(2)])
  moreover have "eq_contents eg d = []" if "d \<noteq> (unat q, k)" for d
    using eq_push_contents [OF W(1) S W(2), of "unat q" k x d] that none by (cases d) (simp add: eg_def eq_contents_Nil_iff)
  moreover have "nb_priorities eg = psa_nb_queues_per_port c" "length (workers_info eg) = 1" "map_to_worker eg r = 0" for r
    using W by (simp_all add: eg_def length_workers_push)
  ultimately show thesis
    using that [of c' e] R idl e same by (simp add: c'_def)
qed

text \<open>C39. A recirculated packet is stuck. When the program sends the only packet of an idle PSA switch to
  the port reserved for recirculation (or to any port above 7), the packet is queued, but neither the
  egress handler nor the egress timer ever takes it out, at any time: they look at the queues of
  ports 0 to 7 only.\<close>

theorem psa_recirculation_stuck:
  assumes "queue_laws Q" "psa_idle Q c" "psa_wf c" "seconds_nonneg S" "egress_packets (psa_egress_buffer c) = {}"
    and "psa_receive_packet B c d port proto dst = (c1, pkt)" "psa_ingress_program B S c1 pkt = (c2, pkt2)"
    and "psa_unicast B (world c2) pkt2 q" "bm_deparse B ''ingress_deparser'' (world c2) pkt2 = (w3, pkt3)"
    and "x = psa_queued B q (unat (get_uint B pkt2 ''psa_ingress_output_metadata.class_of_service'')) pkt3"
      "pkt_priority B x < psa_nb_queues_per_port c"
    and "i = qi_pri (snd (get_queue S (psa_egress_buffer c) (unat q))) ! (psa_nb_queues_per_port c - 1 - pkt_priority B x)"
      "0 < qip_capacity i" "8 \<le> unat q"
  shows "\<exists>c'. PsaReceivePacket (Suc fuel) B Q S c d port proto dst = (c', Inr 0) \<and>
     eq_contents (psa_egress_buffer c') (unat q, psa_nb_queues_per_port c - 1 - pkt_priority B x) = [x] \<and>
     (\<forall>n T w. PsaHandleEgressPipeline n B Q T c' w = (c', Inr False) \<and>
        psa_egress_buffer (fst (PsaSetEgressTimerEvent n B Q T c')) = psa_egress_buffer c')"
proof -
  let ?k = "psa_nb_queues_per_port c - 1 - pkt_priority B x"
  obtain c' e where R: "PsaReceivePacket (Suc fuel) B Q S c d port proto dst = (c', Inr 0)"
    and wf: "eq_wf (psa_egress_buffer c')" and nb: "nb_priorities (psa_egress_buffer c') = psa_nb_queues_per_port c"
    and e: "class_entries (psa_egress_buffer c') (unat q) ?k = [e]" "qe_e e = x"
    and only: "\<And>d. d \<noteq> (unat q, ?k) \<Longrightarrow> eq_contents (psa_egress_buffer c') d = []"
    by (rule psa_unicast_reception [OF assms(1-11) refl assms(12,13)]) blast
  have "eq_size (psa_egress_buffer c') j = 0" if "j < 8" for j
  proof -
    have "class_entries (psa_egress_buffer c') j p = []" if "p < nb_priorities (psa_egress_buffer c')" for p
      using only [of "(j, p)"] that \<open>j < 8\<close> assms(14) by (auto simp: eq_contents_Nil_iff)
    then show ?thesis using eq_size_exact [OF wf, of j] by simp
  qed
  then have H: "PsaHandleEgressPipeline n B Q T c' w = (c', Inr False)" for n T w
    by (simp add: PsaHandleEgressPipeline_def SSWITCH_VIRTUAL_QUEUE_NUM_PSA_def)
  have "?k < nb_priorities (psa_egress_buffer c')" using nb assms(11) by simp
  then have "eq_contents (psa_egress_buffer c') (unat q, ?k) = [x]" using e by (simp add: eq_contents_def)
  moreover have "psa_egress_buffer (fst (PsaSetEgressTimerEvent n B Q T c')) = psa_egress_buffer c'" for n T
    by (simp add: PsaSetEgressTimerEvent_def H schedule_def Let_def)
  ultimately show ?thesis using R H by blast
qed

subsection \<open>Out of the switch\<close>

lemma psa_egress_program_same:
  assumes "world c = world c'" "start_timestamp c = start_timestamp c'"
  shows "snd (psa_egress_program B S c q p) = snd (psa_egress_program B S c' q p)"
    and "\<exists>w. fst (psa_egress_program B S c q p) = c\<lparr>world := w\<rparr>"
  using assms by (auto simp: psa_egress_program_def Let_def case_prod_beta GetTimeStamp_def)

text \<open>C24. End to end through a PSA switch: a packet received by an idle switch, which the ingress program
  sends to port \<open>q\<close> (below 8) and the egress program neither clones nor drops, is handed to the net
  device by the egress handler at or after the time its queue's rate allows: exactly once, on port
  \<open>q\<close>, with the protocol and destination it came with.\<close>

theorem psa_unicast_end_to_end:
  assumes "psa_frame B" "queue_laws Q" "psa_idle Q c" "psa_wf c" "seconds_nonneg S" "egress_packets (psa_egress_buffer c) = {}"
    and "length (destination_list (fst (GetAddressIndex c dst))) \<le> 65536"
    and "psa_receive_packet B c d port proto dst = (c1, pkt)" "psa_ingress_program B S c1 pkt = (c2, pkt2)"
    and "psa_unicast B (world c2) pkt2 q" "bm_deparse B ''ingress_deparser'' (world c2) pkt2 = (w3, pkt3)"
    and "x = psa_queued B q (unat (get_uint B pkt2 ''psa_ingress_output_metadata.class_of_service'')) pkt3"
      "pkt_priority B x < psa_nb_queues_per_port c"
    and "i = qi_pri (snd (get_queue S (psa_egress_buffer c) (unat q))) ! (psa_nb_queues_per_port c - 1 - pkt_priority B x)"
      "0 < qip_capacity i" "unat q < 8" "get_next_tp S i \<le> sim_now S'"
    and "y = snd (psa_egress_program B S' (c2\<lparr>world := w3\<rparr>) (unat q) x)"
      "get_uint B y ''psa_egress_output_metadata.clone'' = 0" "get_uint B y ''psa_egress_output_metadata.drop'' = 0"
  shows "\<exists>c' c''. PsaReceivePacket (Suc fuel) B Q S c d port proto dst = (c', Inr 0) \<and> sent c' = sent c \<and>
     PsaHandleEgressPipeline n B Q S' c' 0 = (c'', Inr True) \<and>
     sent c'' = sent c @ [\<lparr>send_data = ConvertToNs3Packet B y, send_port = unat q, send_protocol = proto,
                           send_destination = dst\<rparr>]"
proof -
  let ?k = "psa_nb_queues_per_port c - 1 - pkt_priority B x"
  note P = psa_frameD(1) [OF assms(1)]
  obtain c' e where R: "PsaReceivePacket (Suc fuel) B Q S c d port proto dst = (c', Inr 0)"
    and same: "sent c' = sent c" "world c' = w3" "start_timestamp c' = start_timestamp c2"
      "destination_list c' = destination_list (fst (GetAddressIndex c dst))"
    and wf: "eq_wf (psa_egress_buffer c')" and nb: "nb_priorities (psa_egress_buffer c') = psa_nb_queues_per_port c"
      "length (workers_info (psa_egress_buffer c')) = 1" "\<And>r. map_to_worker (psa_egress_buffer c') r = 0"
    and e: "class_entries (psa_egress_buffer c') (unat q) ?k = [e]" "qe_e e = x" "qe_send e = get_next_tp S i"
    and only: "\<And>d. d \<noteq> (unat q, ?k) \<Longrightarrow> eq_contents (psa_egress_buffer c') d = []"
    by (rule psa_unicast_reception [OF assms(2-6) assms(8-13) refl assms(14,15)]) blast
  have k: "?k < nb_priorities (psa_egress_buffer c')" using assms(13) nb by simp
  obtain eg where pop: "eq_pop_back S' (psa_egress_buffer c') 0 = (eg, Inr (Some (unat q, ?k, x)))"
    using pop_only_packet [OF wf _ _ k e(1) _ only, of S'] e(2,3) assms(17) nb by auto
  have "eq_size (psa_egress_buffer c') (unat q) \<noteq> 0" using eq_size_pos [OF wf k, of "unat q"] e(1) by simp
  then have nz: "\<not> (\<forall>j \<in> set [0..<SSWITCH_VIRTUAL_QUEUE_NUM_PSA]. eq_size (psa_egress_buffer c') j = 0)"
    using assms(16) by (auto simp: SSWITCH_VIRTUAL_QUEUE_NUM_PSA_def)
  obtain w4 where ep: "psa_egress_program B S' (c'\<lparr>psa_egress_buffer := eg\<rparr>) (unat q) x = (c'\<lparr>psa_egress_buffer := eg, world := w4\<rparr>, y)"
    using psa_egress_program_same [of "c'\<lparr>psa_egress_buffer := eg\<rparr>" "c2\<lparr>world := w3\<rparr>" B S' "unat q" x] same
    by (auto simp: assms(18) prod_eq_iff)
  have nr: "unat q \<noteq> unat PSA_PORT_RECIRCULATE" using assms(16) by (simp add: PSA_PORT_RECIRCULATE_def)
  have "ns_tag B y = ns_tag B x" using ns_psa_egress_program [OF assms(1)] by (simp add: assms(18))
  also have "\<dots> = ns_tag B pkt"
    using ns_psa_queued [OF P] ns_psa_ingress_program [OF P, of S c1 pkt] program_frameD(5) [OF P] assms(9,11)
    by (metis assms(12) snd_conv)
  also have "\<dots> = (proto, ucast (snd (GetAddressIndex c dst)))" by (rule psa_receive_packet_tag [OF P assms(8)])
  finally have tag: "get_ns_protocol B y = proto" "get_ns_address B y = ucast (snd (GetAddressIndex c dst))"
    by (simp_all add: ns_tag_def)
  have awf: "addr_wf c" using assms(4) by (simp add: psa_wf_def)
  have "PsaHandleEgressPipeline n B Q S' c' 0 =
      psa_egress_send B (c'\<lparr>psa_egress_buffer := eg, world := w4\<rparr>) (unat q) y"
    unfolding PsaHandleEgressPipeline_def if_not_P [OF nz] using nr assms(19,20)
    by (simp add: pop ep psa_egress_clone_def)
  then show ?thesis
    using R address_index_in_range [OF awf, of dst] address_index_lookup [OF awf assms(7)] same
    by (simp add: psa_egress_send_def tag Let_def)
qed

subsection \<open>Packets are dropped by default\<close>

text \<open>
  What is assumed of the program and of the header fields: the ingress program leaves the \<open>drop\<close> and
  \<open>clone\<close> flags as they are set for it, and these hold what is written to them.
\<close>

definition keeps_drop_default :: "('p, 'b, 'w) bm \<Rightarrow> bool" where
  "keeps_drop_default B \<longleftrightarrow> field_frame B \<and>
     (\<forall>p v. v \<le> 1 \<longrightarrow> bm_get_field B (bm_set_field B p ''psa_ingress_output_metadata.drop'' v) ''psa_ingress_output_metadata.drop'' = v) \<and>
     (\<forall>p v. v \<le> 1 \<longrightarrow> bm_get_field B (bm_set_field B p ''psa_ingress_output_metadata.clone'' v) ''psa_ingress_output_metadata.clone'' = v) \<and>
     (\<forall>p. bm_get_field B (bm_reset_exit B p) = bm_get_field B p) \<and>
     (\<forall>w p f. f = ''psa_ingress_output_metadata.drop'' \<or> f = ''psa_ingress_output_metadata.clone'' \<longrightarrow>
        bm_get_field B (snd (bm_apply B ''ingress'' w p)) f = bm_get_field B p f)"

text \<open>A packet is dropped by default: if the ingress program of a PSA switch touches neither the drop nor
  the clone flag, every packet received is dropped. The reception returns, the egress buffer is as it
  was, nothing waits in the input queue and nothing is sent.\<close>

theorem psa_default_drop:
  assumes "queue_laws Q" "psa_idle Q c" "keeps_drop_default B"
  shows "\<exists>c'. PsaReceivePacket (Suc fuel) B Q S c d port proto dst = (c', Inr 0) \<and> psa_idle Q c' \<and>
     psa_egress_buffer c' = psa_egress_buffer c \<and> sent c' = sent c"
proof -
  obtain c1 pkt where r: "psa_receive_packet B c d port proto dst = (c1, pkt)" by fastforce
  note F = psa_receive_packet_frame [OF r]
  have "psa_idle Q c1" using assms(2) by (simp add: psa_idle_cong [OF F(1)])
  then obtain ci where ci: "bq_contents Q (psa_input_buffer ci) = [pkt]" "0 < bq_capacity Q (psa_input_buffer ci)"
    "ci = c1\<lparr>psa_input_buffer := psa_input_buffer ci\<rparr>" "bq_push_front Q (psa_input_buffer c1) pkt = (psa_input_buffer ci, Inr ())"
    using psa_push_handle [OF assms(1), of c1 pkt] by metis
  obtain ib where pop: "bq_pop_back Q (psa_input_buffer ci) = (ib, Inr pkt)"
    by (rule queue_pop_one [OF assms(1) ci(1)]) blast
  obtain c2 pkt2 where ip: "psa_ingress_program B S (ci\<lparr>psa_input_buffer := ib\<rparr>) pkt = (c2, pkt2)" by fastforce
  have fr: "bm_get_field B (bm_set_field B p f v) g = bm_get_field B p g" if "f \<noteq> g" for p f g v
    using assms(3) that unfolding keeps_drop_default_def by (simp add: field_frameD(1))
  have "bm_get_field B pkt2 ''psa_ingress_output_metadata.drop'' = 1"
    and "bm_get_field B pkt2 ''psa_ingress_output_metadata.clone'' = 0"
    using ip assms(3) by (auto simp: psa_ingress_program_def Let_def case_prod_beta keeps_drop_default_def fr)
  then have h: "PsaHandleIngressPipeline (Suc fuel) B Q S ci = (c2, Inr ())"
    by (simp add: pop ip psa_ingress_clone_def)
  have c2: "psa_only_egress (ci\<lparr>psa_input_buffer := ib\<rparr>) c2" "psa_egress_buffer c2 = psa_egress_buffer c"
    using psa_ingress_program_only [of "ci\<lparr>psa_input_buffer := ib\<rparr>" B S pkt] ip F(3) arg_cong [OF ci(3), of psa_egress_buffer]
    by (auto simp: psa_ingress_program_def Let_def case_prod_beta)
  have R: "PsaReceivePacket (Suc fuel) B Q S c d port proto dst = (c2, Inr 0)"
    using h by (simp add: PsaReceivePacket_def r ci(4) ci(3) [symmetric] del: PsaHandleIngressPipeline.simps)
  then show ?thesis using PsaReceivePacket_idle [OF assms(1,2) R] c2(2) by auto
qed

subsection \<open>An example switch\<close>

definition psa_fields :: "string list" where
  "psa_fields = [''psa_ingress_parser_input_metadata.ingress_port'', ''psa_ingress_parser_input_metadata.packet_path'',
     ''psa_ingress_input_metadata.ingress_port'', ''psa_ingress_input_metadata.packet_path'',
     ''psa_ingress_input_metadata.ingress_timestamp'', ''psa_ingress_input_metadata.parser_error'',
     ''psa_ingress_output_metadata.class_of_service'', ''psa_ingress_output_metadata.clone'',
     ''psa_ingress_output_metadata.clone_session_id'', ''psa_ingress_output_metadata.drop'',
     ''psa_ingress_output_metadata.resubmit'', ''psa_ingress_output_metadata.multicast_group'',
     ''psa_ingress_output_metadata.egress_port'', ''psa_egress_parser_input_metadata.egress_port'',
     ''psa_egress_parser_input_metadata.packet_path'', ''psa_egress_input_metadata.class_of_service'',
     ''psa_egress_input_metadata.egress_port'', ''psa_egress_input_metadata.packet_path'',
     ''psa_egress_input_metadata.instance'', ''psa_egress_input_metadata.egress_timestamp'',
     ''psa_egress_input_metadata.parser_error'', ''psa_egress_output_metadata.clone'',
     ''psa_egress_output_metadata.clone_session_id'', ''psa_egress_output_metadata.drop'',
     ''psa_egress_deparser_input_metadata.egress_port'']"

text \<open>A program whose ingress sends every packet to port \<open>q\<close>.\<close>

definition psa_to :: "nat \<Rightarrow> string \<Rightarrow> expkt \<Rightarrow> expkt" where
  "psa_to q name pkt =
     (if name = ''ingress''
      then pkt\<lparr>ex_fields := (ex_fields pkt)(''psa_ingress_output_metadata.drop'' := 0,
                                              ''psa_ingress_output_metadata.egress_port'' := q)\<rparr>
      else pkt)"

definition psa_B :: "nat \<Rightarrow> (expkt, u8 list, (u32 \<times> nat) list) bm" where
  "psa_B q = ex_bm psa_fields (psa_to q)"

lemma psa_B_frame: "psa_frame (psa_B q)"
proof -
  have "program_frame (psa_B q)" unfolding psa_B_def by (rule ex_program_frame) (simp add: psa_to_def)
  then show ?thesis by (simp add: psa_frame_def) (simp add: psa_B_def ex_bm_def)
qed

definition ex_psa :: "(nat, (u32 \<times> nat) list, expkt, expkt list \<times> nat) psa" where
  "ex_psa = fst (fst (P4CorePsa list_queue (example_sim 0) False 1000 64 8 8 0 [] initial_statics))"

lemma ex_psa_members:
  "psa_input_buffer ex_psa = bq_new list_queue 64" "psa_nb_queues_per_port ex_psa = 8"
  "destination_list ex_psa = []" "address_map ex_psa = (\<lambda>_. None)" "sent ex_psa = []"
  "psa_egress_buffer ex_psa = (NSQueueingLogicPriRL 1 8 (PsaEgressThreadMapper 1) 8)\<lparr>queue_rate_pps := 1000\<rparr>"
  by (simp_all add: ex_psa_def P4CorePsa_def PsaCalculateScheduleTime_def case_prod_beta Let_def
      switch_core.extend_def psa.fields_def P4SwitchCore_def set_rate_for_all_new nb_egress_threads_def example_sim_def)

lemma ex_psa_new:
  "P4CorePsa list_queue (example_sim 0) False 1000 64 8 8 0 [] initial_statics =
     ((ex_psa, Inr ()), snd (P4CorePsa list_queue (example_sim 0) False 1000 64 8 8 0 [] initial_statics ::
        ((nat, (u32 \<times> nat) list, expkt, expkt list \<times> nat) psa, unit) outcome \<times> statics))"
  by (simp add: ex_psa_def P4CorePsa_def PsaCalculateScheduleTime_def case_prod_beta Let_def
      switch_core.extend_def psa.fields_def prod_eq_iff)

lemma ex_psa_idle: "psa_idle list_queue ex_psa"
  by (rule psa_idle_new [OF list_queue_laws ex_psa_new]) simp

lemma ex_psa_wf: "psa_wf ex_psa"
proof -
  have "eq_wf ((NSQueueingLogicPriRL 1 8 (PsaEgressThreadMapper 1) 8 :: expkt egress)\<lparr>queue_rate_pps := 1000\<rparr>)"
    using eq_wf_new [of 8 "PsaEgressThreadMapper 1" 1 8] by (simp add: PsaEgressThreadMapper_def)
  then show ?thesis
    by (simp add: psa_wf_def ex_psa_members counters_ready_def addr_wf_def)
      (simp add: NSQueueingLogicPriRL_def PsaEgressThreadMapper_def)
qed

lemma ex_psa_empty: "egress_packets (psa_egress_buffer ex_psa) = {}"
  by (simp add: ex_psa_members egress_packets_def eq_contents_def class_entries_def NSQueueingLogicPriRL_def PsaEgressThreadMapper_def)

lemma ex_psa_queue:
  assumes "k < 8"
  shows "0 < qip_capacity (qi_pri (snd (get_queue (example_sim 0) (psa_egress_buffer ex_psa) q)) ! k)"
    and "get_next_tp (example_sim 0) (qi_pri (snd (get_queue (example_sim 0) (psa_egress_buffer ex_psa) q)) ! k) = 1000000"
  using assms by (simp_all add: ex_psa_members get_queue_def NSQueueingLogicPriRL_def Let_def new_QueueInfo_def
      new_QueueInfoPri_def get_next_tp_def rate_to_time_def example_sim_def)

lemma psa_B_priority: "pkt_priority (psa_B q) p = 0"
  by (simp add: pkt_priority_def) (simp add: psa_B_def ex_bm_def psa_fields_def)

lemma psa_B_field: "bm_get_field (psa_B q) (bm_set_field (psa_B q) p f v) g =
    (if f = g \<and> f \<in> set psa_fields then v else bm_get_field (psa_B q) p g)"
  by (simp add: psa_B_def ex_bm_def)

lemma psa_B_pipes:
  "bm_parse (psa_B q) n w p = (w, psa_to q n p)" "bm_apply (psa_B q) n w p = (w, psa_to q n p)"
  "bm_deparse (psa_B q) n w p = (w, psa_to q n p)" "bm_reset_exit (psa_B q) p = p" "bm_reset_phv (psa_B q) p = p"
  "bm_get_field (psa_B q) (bm_set_egress_port (psa_B q) p r) = bm_get_field (psa_B q) p"
  "bm_get_field (psa_B q) p = ex_fields p"
  by (simp_all add: psa_B_def ex_bm_def)

lemma psa_B_to:
  "bm_get_field (psa_B q) (psa_to q ''ingress'' p) g =
     (if g = ''psa_ingress_output_metadata.egress_port'' then q
      else if g = ''psa_ingress_output_metadata.drop'' then 0 else bm_get_field (psa_B q) p g)"
  by (simp add: psa_B_pipes psa_to_def)

lemma psa_B_declared:
  "''psa_ingress_output_metadata.clone'' \<in> set psa_fields" "''psa_ingress_output_metadata.resubmit'' \<in> set psa_fields"
  "''psa_ingress_output_metadata.multicast_group'' \<in> set psa_fields"
  by (simp_all add: psa_fields_def)

lemma psa_B_program:
  obtains p0 where "snd (psa_ingress_program (psa_B q) S c p) = psa_to q ''ingress''
    (bm_set_field (psa_B q) (bm_set_field (psa_B q) (bm_set_field (psa_B q) (bm_set_field (psa_B q) p0
       ''psa_ingress_output_metadata.clone'' 0) ''psa_ingress_output_metadata.drop'' 1)
       ''psa_ingress_output_metadata.resubmit'' 0) ''psa_ingress_output_metadata.multicast_group'' 0)"
  by (simp add: psa_ingress_program_def Let_def case_prod_beta psa_B_pipes(1-5))

lemma psa_B_unicast:
  assumes "q < 2 ^ 32"
  shows "psa_unicast (psa_B q) w (snd (psa_ingress_program (psa_B q) S c p)) (of_nat q)"
proof -
  let ?p = "snd (psa_ingress_program (psa_B q) S c p)"
  obtain p0 where p0: "?p = psa_to q ''ingress''
    (bm_set_field (psa_B q) (bm_set_field (psa_B q) (bm_set_field (psa_B q) (bm_set_field (psa_B q) p0
       ''psa_ingress_output_metadata.clone'' 0) ''psa_ingress_output_metadata.drop'' 1)
       ''psa_ingress_output_metadata.resubmit'' 0) ''psa_ingress_output_metadata.multicast_group'' 0)"
    by (rule psa_B_program)
  have f: "bm_get_field (psa_B q) ?p ''psa_ingress_output_metadata.clone'' = 0"
    "bm_get_field (psa_B q) ?p ''psa_ingress_output_metadata.drop'' = 0"
    "bm_get_field (psa_B q) ?p ''psa_ingress_output_metadata.resubmit'' = 0"
    "bm_get_field (psa_B q) ?p ''psa_ingress_output_metadata.multicast_group'' = 0"
    "bm_get_field (psa_B q) ?p ''psa_ingress_output_metadata.egress_port'' = q"
    unfolding p0 by (simp_all add: psa_B_to psa_B_field psa_B_declared)
  have e: "snd (bm_deparse (psa_B q) ''ingress_deparser'' w p) = p" for p by (simp add: psa_B_pipes psa_to_def)
  have r: "bm_get_field (psa_B q) (psa_ready (psa_B q) n p') ''psa_ingress_output_metadata.egress_port'' =
      bm_get_field (psa_B q) p' ''psa_ingress_output_metadata.egress_port''" for n p'
    unfolding psa_ready_def by (simp add: psa_B_field)
  show ?thesis by (simp add: psa_unicast_def f e r)
qed

lemma ex_psa_verdict:
  assumes "q < 2 ^ 32"
  obtains c1 pkt c2 pkt2 w3 pkt3 where "psa_receive_packet (psa_B q) ex_psa [1, 2, 3] 1 0x0800 42 = (c1, pkt)"
    and "psa_ingress_program (psa_B q) (example_sim 0) c1 pkt = (c2, pkt2)" and "psa_unicast (psa_B q) (world c2) pkt2 (of_nat q)"
    and "bm_deparse (psa_B q) ''ingress_deparser'' (world c2) pkt2 = (w3, pkt3)"
proof -
  obtain c1 pkt where r: "psa_receive_packet (psa_B q) ex_psa [1, 2, 3] 1 0x0800 42 = (c1, pkt)" by fastforce
  obtain c2 pkt2 where ip: "psa_ingress_program (psa_B q) (example_sim 0) c1 pkt = (c2, pkt2)" by fastforce
  have "psa_unicast (psa_B q) (world c2) pkt2 (of_nat q)"
    using psa_B_unicast [OF assms, of "world c2" "example_sim 0" c1 pkt] by (simp add: ip)
  moreover obtain w3 pkt3 where "bm_deparse (psa_B q) ''ingress_deparser'' (world c2) pkt2 = (w3, pkt3)" by fastforce
  ultimately show thesis using r ip that by blast
qed

theorem psa_recirculation_stuck_witness:
  "\<exists>c' x. PsaReceivePacket 1 (psa_B 4294967290) list_queue (example_sim 0) ex_psa [1, 2, 3] 1 0x0800 42 = (c', Inr 0) \<and>
     eq_contents (psa_egress_buffer c') (4294967290, 7) = [x] \<and>
     (\<forall>n T w. PsaHandleEgressPipeline n (psa_B 4294967290) list_queue T c' w = (c', Inr False))"
proof -
  let ?B = "psa_B 4294967290"
  obtain c1 pkt c2 pkt2 w3 pkt3 where r: "psa_receive_packet ?B ex_psa [1, 2, 3] 1 0x0800 42 = (c1, pkt)"
    and ip: "psa_ingress_program ?B (example_sim 0) c1 pkt = (c2, pkt2)" and u: "psa_unicast ?B (world c2) pkt2 (of_nat 4294967290)"
    and d: "bm_deparse ?B ''ingress_deparser'' (world c2) pkt2 = (w3, pkt3)"
    by (rule ex_psa_verdict [of 4294967290]) simp_all
  have "\<exists>c'. PsaReceivePacket (Suc 0) ?B list_queue (example_sim 0) ex_psa [1, 2, 3] 1 0x0800 42 = (c', Inr 0) \<and>
     eq_contents (psa_egress_buffer c') (unat (of_nat 4294967290 :: u32), psa_nb_queues_per_port ex_psa - 1 -
       pkt_priority ?B (psa_queued ?B (of_nat 4294967290) (unat (get_uint ?B pkt2 ''psa_ingress_output_metadata.class_of_service'')) pkt3)) =
       [psa_queued ?B (of_nat 4294967290) (unat (get_uint ?B pkt2 ''psa_ingress_output_metadata.class_of_service'')) pkt3] \<and>
     (\<forall>n T w. PsaHandleEgressPipeline n ?B list_queue T c' w = (c', Inr False) \<and>
        psa_egress_buffer (fst (PsaSetEgressTimerEvent n ?B list_queue T c')) = psa_egress_buffer c')"
    by (rule psa_recirculation_stuck [OF list_queue_laws ex_psa_idle ex_psa_wf example_sim_nonneg ex_psa_empty r ip u d refl _ refl])
      (simp_all add: psa_B_priority ex_psa_members(2) ex_psa_queue)
  then show ?thesis by (auto simp: psa_B_priority ex_psa_members(2))
qed

lemma ex_psa_few: "length (destination_list (fst (GetAddressIndex ex_psa a))) \<le> 65536"
  by (simp add: GetAddressIndex_def ex_psa_members)

lemma psa_B_egress_program:
  obtains p0 where "snd (psa_egress_program (psa_B q) S c r p) =
    bm_set_field (psa_B q) (bm_set_field (psa_B q) (bm_set_field (psa_B q) p0
       ''psa_egress_output_metadata.clone'' 0) ''psa_egress_output_metadata.drop'' 0) ''psa_egress_deparser_input_metadata.egress_port''
       (bm_get_field (psa_B q) (bm_set_field (psa_B q) (bm_set_field (psa_B q) p0
       ''psa_egress_output_metadata.clone'' 0) ''psa_egress_output_metadata.drop'' 0) ''psa_egress_parser_input_metadata.egress_port'')"
  by (simp add: psa_egress_program_def Let_def case_prod_beta psa_B_pipes(1-5) copy_field_def psa_to_def)

lemma psa_B_passes:
  "bm_get_field (psa_B q) (snd (psa_egress_program (psa_B q) S c r p)) ''psa_egress_output_metadata.clone'' = 0"
  "bm_get_field (psa_B q) (snd (psa_egress_program (psa_B q) S c r p)) ''psa_egress_output_metadata.drop'' = 0"
proof -
  have d: "''psa_egress_output_metadata.clone'' \<in> set psa_fields" "''psa_egress_output_metadata.drop'' \<in> set psa_fields"
    by (simp_all add: psa_fields_def)
  obtain p0 where p0: "snd (psa_egress_program (psa_B q) S c r p) =
    bm_set_field (psa_B q) (bm_set_field (psa_B q) (bm_set_field (psa_B q) p0
       ''psa_egress_output_metadata.clone'' 0) ''psa_egress_output_metadata.drop'' 0) ''psa_egress_deparser_input_metadata.egress_port''
       (bm_get_field (psa_B q) (bm_set_field (psa_B q) (bm_set_field (psa_B q) p0
       ''psa_egress_output_metadata.clone'' 0) ''psa_egress_output_metadata.drop'' 0) ''psa_egress_parser_input_metadata.egress_port'')"
    by (rule psa_B_egress_program)
  show "bm_get_field (psa_B q) (snd (psa_egress_program (psa_B q) S c r p)) ''psa_egress_output_metadata.clone'' = 0"
    "bm_get_field (psa_B q) (snd (psa_egress_program (psa_B q) S c r p)) ''psa_egress_output_metadata.drop'' = 0"
    unfolding p0 by (simp_all add: psa_B_field d)
qed

theorem psa_unicast_end_to_end_witness:
  "\<exists>c' c'' data. PsaReceivePacket 1 (psa_B 3) list_queue (example_sim 0) ex_psa [1, 2, 3] 1 0x0800 42 = (c', Inr 0) \<and> sent c' = [] \<and>
     PsaHandleEgressPipeline 0 (psa_B 3) list_queue (example_sim 1000000) c' 0 = (c'', Inr True) \<and>
     sent c'' = [\<lparr>send_data = data, send_port = 3, send_protocol = 0x0800, send_destination = 42\<rparr>]"
proof -
  obtain c1 pkt c2 pkt2 w3 pkt3 where r: "psa_receive_packet (psa_B 3) ex_psa [1, 2, 3] 1 0x0800 42 = (c1, pkt)"
    and ip: "psa_ingress_program (psa_B 3) (example_sim 0) c1 pkt = (c2, pkt2)" and u: "psa_unicast (psa_B 3) (world c2) pkt2 (of_nat 3)"
    and d: "bm_deparse (psa_B 3) ''ingress_deparser'' (world c2) pkt2 = (w3, pkt3)"
    by (rule ex_psa_verdict [of 3]) simp_all
  show ?thesis
    using psa_unicast_end_to_end [OF psa_B_frame list_queue_laws ex_psa_idle ex_psa_wf example_sim_nonneg ex_psa_empty ex_psa_few
        r ip u d refl _ refl _ _ _ refl, of "example_sim 1000000" 0 0]
    by (auto simp: psa_B_priority ex_psa_members(2,5) ex_psa_queue psa_B_passes)
qed

definition ex_drop_B :: "(expkt, u8 list, (u32 \<times> nat) list) bm" where
  "ex_drop_B = ex_bm psa_fields (\<lambda>n p. p)"

theorem psa_default_drop_witness:
  "\<exists>c'. PsaReceivePacket 1 ex_drop_B list_queue (example_sim 0) ex_psa [1, 2, 3] 1 0x0800 42 = (c', Inr 0) \<and> psa_idle list_queue c' \<and>
     psa_egress_buffer c' = psa_egress_buffer ex_psa \<and> sent c' = []"
proof -
  have "keeps_drop_default ex_drop_B"
    by (simp add: keeps_drop_default_def ex_drop_B_def) (simp add: ex_bm_def psa_fields_def)
  from psa_default_drop [OF list_queue_laws ex_psa_idle this, of 0 "example_sim 0" "[1, 2, 3]" 1 "0x0800" 42] show ?thesis
    by (simp add: ex_psa_members)
qed

theorem psa_no_backlog_witness:
  "\<exists>c'. PsaReceivePacket 1 (psa_B 3) list_queue (example_sim 0) ex_psa [1, 2, 3] 1 0x0800 42 = (c', Inr 0) \<and>
     bq_contents list_queue (psa_input_buffer c') = []"
proof -
  obtain c1 pkt c2 pkt2 w3 pkt3 where r: "psa_receive_packet (psa_B 3) ex_psa [1, 2, 3] 1 0x0800 42 = (c1, pkt)"
    and ip: "psa_ingress_program (psa_B 3) (example_sim 0) c1 pkt = (c2, pkt2)" and u: "psa_unicast (psa_B 3) (world c2) pkt2 (of_nat 3)"
    and d: "bm_deparse (psa_B 3) ''ingress_deparser'' (world c2) pkt2 = (w3, pkt3)"
    by (rule ex_psa_verdict [of 3]) simp_all
  have "\<exists>c'. PsaReceivePacket (Suc 0) (psa_B 3) list_queue (example_sim 0) ex_psa [1, 2, 3] 1 0x0800 42 = (c', Inr 0)"
    by (rule psa_unicast_reception [OF list_queue_laws ex_psa_idle ex_psa_wf example_sim_nonneg ex_psa_empty r ip u d refl _ refl refl])
      (auto simp: psa_B_priority ex_psa_members(2) ex_psa_queue)
  then obtain c' where R: "PsaReceivePacket 1 (psa_B 3) list_queue (example_sim 0) ex_psa [1, 2, 3] 1 0x0800 42 = (c', Inr 0)" by auto
  have "psa_reach (psa_B 3) list_queue ex_psa" by (rule psa_reach.new [OF ex_psa_new]) simp
  from psa_no_backlog [OF list_queue_laws psa_reach.receive [OF this R]] R show ?thesis by blast
qed

end
