(* ===== verification/Format_Utils.thy ===== *)
theory Format_Utils
  imports P4_Prelude "HOL-Library.Char_ord" "HOL-Library.Sublist"
begin

text \<open>
  The conversions between numbers, addresses, byte strings and their text
  (\<open>utils/format-utils.h\<close>, \<open>utils/format-utils.cc\<close>). Text is a HOL string of one-byte characters;
  a \<open>std::string\<close> that holds bytes is a list of \<open>u8\<close>. A thrown exception is \<open>Inl\<close>; the functions that
  catch their own exceptions return the value of their handler.
\<close>

subsection \<open>Characters and digits\<close>

definition code :: "char \<Rightarrow> nat" where "code c = of_char c"

definition isdigit :: "char \<Rightarrow> bool" where "isdigit c \<longleftrightarrow> 48 \<le> code c \<and> code c \<le> 57"

definition isxdigit :: "char \<Rightarrow> bool" where
  "isxdigit c \<longleftrightarrow> isdigit c \<or> 97 \<le> code c \<and> code c \<le> 102 \<or> 65 \<le> code c \<and> code c \<le> 70"

definition isspace :: "char \<Rightarrow> bool" where "isspace c \<longleftrightarrow> code c = 32 \<or> 9 \<le> code c \<and> code c \<le> 13"

definition tolower :: "char \<Rightarrow> char" where
  "tolower c = (if 65 \<le> code c \<and> code c \<le> 90 then char_of (code c + 32) else c)"

definition digit_char :: "nat \<Rightarrow> char" where
  "digit_char d = (if d < 10 then char_of (48 + d) else char_of (87 + d))"

text \<open>Decimal numbers, as \<open>std::to_string\<close> and an output stream print them.\<close>

fun dec :: "nat \<Rightarrow> string" where
  "dec n = (if n < 10 then [digit_char n] else dec (n div 10) @ [digit_char (n mod 10)])"

declare dec.simps [simp del]

definition dec_int :: "int \<Rightarrow> string" where
  "dec_int i = (if i < 0 then ''-'' @ dec (nat (- i)) else dec (nat i))"

text \<open>
  \<open>std::stoi\<close>: leading white space, a sign, digits; whatever follows is ignored. No digit is an
  invalid argument, a value outside \<open>int\<close> out of range.
\<close>

definition dec_value :: "string \<Rightarrow> nat" where
  "dec_value s = foldl (\<lambda>v c. 10 * v + (code c - 48)) 0 s"

definition stoi :: "string \<Rightarrow> stop + int" where
  "stoi s =
     (let s = dropWhile isspace s;
          neg = prefix ''-'' s;
          s = (if prefix ''-'' s \<or> prefix ''+'' s then tl s else s);
          ds = takeWhile isdigit s;
          v = (if neg then - int (dec_value ds) else int (dec_value ds))
      in if ds = [] then Inl InvalidArgument
         else if v < - (2 ^ 31) \<or> v \<ge> 2 ^ 31 then Inl OutOfRange
         else Inr v)"

subsection \<open>The functions\<close>

text \<open>\<open>IntToStr\<close>: a copy of the text on the heap.\<close>

definition IntToStr :: "int \<Rightarrow> string" where "IntToStr num = dec_int num"

text \<open>
  \<open>StrToInt\<close>: hexadecimal after \<open>0x\<close>, binary after \<open>0b\<close>, decimal otherwise, in the 32 bits of
  \<open>unsigned int\<close>; an invalid character throws, which the function catches to return 0.
\<close>

fun hex_loop :: "u32 \<Rightarrow> string \<Rightarrow> u32 option" where
  "hex_loop res [] = Some res"
| "hex_loop res (c # cs) =
     (if isdigit c then hex_loop (res * 16 + (of_nat (code c) - 48)) cs
      else if isxdigit c then hex_loop (res * 16 + (of_nat (code (tolower c)) - 97 + 10)) cs
      else None)"

fun bin_loop :: "u32 \<Rightarrow> string \<Rightarrow> u32 option" where
  "bin_loop res [] = Some res"
| "bin_loop res (c # cs) =
     (if code c = 48 \<or> code c = 49 then bin_loop (res * 2 + (of_nat (code c) - 48)) cs else None)"

fun dec_loop :: "u32 \<Rightarrow> string \<Rightarrow> u32 option" where
  "dec_loop res [] = Some res"
| "dec_loop res (c # cs) =
     (if isdigit c then dec_loop (res * 10 + (of_nat (code c) - 48)) cs else None)"

definition StrToInt :: "string \<Rightarrow> u32" where
  "StrToInt str =
     (case (if prefix ''0x'' str then hex_loop 0 (drop 2 str)
            else if prefix ''0b'' str then bin_loop 0 (drop 2 str)
            else dec_loop 0 str) of
        None \<Rightarrow> 0
      | Some res \<Rightarrow> res)"

definition HexCharToInt :: "char \<Rightarrow> stop + nat" where
  "HexCharToInt c =
     (if code c \<ge> 48 \<and> code c \<le> 57 then Inr (code c - 48)
      else if code c \<ge> 97 \<and> code c \<le> 102 then Inr (code c - 97 + 10)
      else if code c \<ge> 65 \<and> code c \<le> 70 then Inr (code c - 65 + 10)
      else Inl InvalidArgument)"

fun hex_pairs :: "string \<Rightarrow> u8 list option" where
  "hex_pairs (a # b # cs) =
     (case (HexCharToInt a, HexCharToInt b) of
        (Inr x, Inr y) \<Rightarrow> map_option ((#) (of_nat (x * 16 + y))) (hex_pairs cs)
      | _ \<Rightarrow> None)"
| "hex_pairs _ = Some []"

definition HexStrToBytes :: "string \<Rightarrow> u8 list" where
  "HexStrToBytes str =
     (let hexStr = (if prefix ''0x'' str then drop 2 str else str)
      in if length hexStr mod 2 \<noteq> 0 then []
         else if \<exists>c \<in> set hexStr. \<not> isxdigit c then []
         else (case hex_pairs hexStr of None \<Rightarrow> [] | Some res \<Rightarrow> res))"

text \<open>The hexadecimal digits of a number, low digit last, filled up to a width.\<close>

fun hex :: "nat \<Rightarrow> string" where
  "hex n = (if n < 16 then [digit_char n] else hex (n div 16) @ [digit_char (n mod 16)])"

declare hex.simps [simp del]

definition setw :: "nat \<Rightarrow> char \<Rightarrow> string \<Rightarrow> string" where
  "setw w fill s = replicate (w - length s) fill @ s"

definition Uint32IpToHex :: "u32 \<Rightarrow> string" where
  "Uint32IpToHex ip = ''0x'' @ setw 8 (digit_char 0) (hex (unat ip))"

text \<open>The second \<open>HexStrToBytes\<close>, cut to a number of bytes. It does not catch its exceptions.\<close>

fun hex_bytes_upto :: "nat \<Rightarrow> string \<Rightarrow> stop + u8 list" where
  "hex_bytes_upto (Suc n) (a # b # cs) =
     (if \<not> isxdigit a \<or> \<not> isxdigit b then Inl InvalidArgument
      else (case (HexCharToInt a, HexCharToInt b) of
              (Inr x, Inr y) \<Rightarrow>
                (case hex_bytes_upto n cs of Inl e \<Rightarrow> Inl e | Inr bs \<Rightarrow> Inr (of_nat (x * 16 + y) # bs))
            | _ \<Rightarrow> Inl InvalidArgument))"
| "hex_bytes_upto _ _ = Inr []"

definition HexStrToBytes_width :: "string \<Rightarrow> u32 \<Rightarrow> stop + u8 list" where
  "HexStrToBytes_width str bitWidth =
     (if bitWidth mod 8 \<noteq> 0 then Inl InvalidArgument
      else
        (let maxBytes = unat (bitWidth div 8);
             hexStr = (if prefix ''0x'' str then drop 2 str else str);
             hexStr = (if length hexStr mod 2 \<noteq> 0 then ''0'' @ hexStr else hexStr)
         in hex_bytes_upto maxBytes hexStr))"

definition UintToString :: "u32 \<Rightarrow> string" where "UintToString num = dec (unat num)"

text \<open>The conversion \<open>std::stod\<close> is a parameter.\<close>

definition StrToDouble :: "(string \<Rightarrow> stop + real) \<Rightarrow> string \<Rightarrow> real" where
  "StrToDouble stod str = (case stod str of Inl e \<Rightarrow> 0 | Inr d \<Rightarrow> d)"

text \<open>
  \<open>IpStrToBytes\<close>: four numbers between dots. \<open>std::stoi\<close> decides what is a number; its value is
  cut to a byte. Every exception is caught, and the result is then empty.
\<close>

fun ip_loop :: "nat \<Rightarrow> string \<Rightarrow> u8 list option" where
  "ip_loop 0 s = Some []"
| "ip_loop (Suc n) s =
     (let part = takeWhile (\<lambda>c. c \<noteq> CHR ''.'') s;
          found = (part \<noteq> s)
      in if \<not> found \<and> n \<noteq> 0 then None
         else (case stoi part of
                 Inl e \<Rightarrow> None
               | Inr v \<Rightarrow> map_option ((#) (of_int v)) (ip_loop n (drop (length part + 1) s))))"

definition IpStrToBytes :: "string \<Rightarrow> u8 list" where
  "IpStrToBytes str = (case ip_loop 4 str of None \<Rightarrow> [] | Some res \<Rightarrow> res)"

text \<open>
  The second \<open>IpStrToBytes\<close> reads the result by index without a check; the index just past the
  end of a \<open>std::string\<close> gives a null character.
\<close>

definition IpStrToBytes_width :: "string \<Rightarrow> u32 \<Rightarrow> stop + u8 list" where
  "IpStrToBytes_width str bitWidth =
     (let n = (unat bitWidth + 7) div 8;
          full_ip_res = IpStrToBytes str
      in if n > length full_ip_res + 1 then Inl Undefined
         else Inr (take n (full_ip_res @ [0])))"

text \<open>\<open>IntToBytes\<close>: the bytes of the number, lowest first, then padding, all reversed.\<close>

fun byte_loop :: "nat \<Rightarrow> int \<Rightarrow> u8 list \<times> int" where
  "byte_loop input_num byteWidth =
     (if input_num = 0 then ([], byteWidth)
      else (case byte_loop (input_num div 256) (byteWidth - 1) of
              (bytes, width) \<Rightarrow> (of_nat (input_num mod 256) # bytes, width)))"

declare byte_loop.simps [simp del]

definition IntToBytes :: "string \<Rightarrow> int \<Rightarrow> stop + u8 list" where
  "IntToBytes inputStr bitWidth =
     (case stoi inputStr of
        Inl e \<Rightarrow> Inl e
      | Inr v \<Rightarrow>
          (let input_num = (of_int v :: u32);
               byteWidth = (if bitWidth + 7 < 0 then - (- (bitWidth + 7) div 8) else (bitWidth + 7) div 8);
               (byte_array, byteWidth) = byte_loop (unat input_num) byteWidth
           in Inr (rev (byte_array @ replicate (nat byteWidth) 0))))"

definition ParseParam :: "string \<Rightarrow> u32 \<Rightarrow> stop + u8 list" where
  "ParseParam input_str bitwidth =
     (if bitwidth = 32 then Inr (HexStrToBytes input_str)
      else (let bw = sint ((bitwidth + 7) div 8) in IntToBytes input_str bw))"

text \<open>The paths: the environment, the place of the executable and path joining are parameters.\<close>

definition GetP4SimDir :: "(string \<Rightarrow> string option) \<Rightarrow> string \<Rightarrow> (string \<Rightarrow> string \<Rightarrow> string) \<Rightarrow> string" where
  "GetP4SimDir getenv exePath path_append =
     (case getenv ''P4SIM_DIR'' of
        Some dir \<Rightarrow> (if dir \<noteq> [] then dir else path_append exePath ''../../../../contrib/p4sim'')
      | None \<Rightarrow> path_append exePath ''../../../../contrib/p4sim'')"

definition GetP4ExamplePath :: "(string \<Rightarrow> string option) \<Rightarrow> string \<Rightarrow> (string \<Rightarrow> string \<Rightarrow> string) \<Rightarrow> string" where
  "GetP4ExamplePath getenv exePath path_append = GetP4SimDir getenv exePath path_append @ ''/examples/p4src''"

definition GetP4TestPath :: "(string \<Rightarrow> string option) \<Rightarrow> string \<Rightarrow> (string \<Rightarrow> string \<Rightarrow> string) \<Rightarrow> string" where
  "GetP4TestPath getenv exePath path_append = GetP4SimDir getenv exePath path_append @ ''/test/p4src''"

subsection \<open>Digits\<close>

lemma code_char_of [simp]: "n < 256 \<Longrightarrow> code (char_of n) = n"
  by (simp add: code_def)

lemma code_digit: "d < 10 \<Longrightarrow> code (digit_char d) = 48 + d" "10 \<le> d \<Longrightarrow> d < 16 \<Longrightarrow> code (digit_char d) = 87 + d"
  by (simp_all add: digit_char_def)

lemma digit_char_classes [simp]:
  "d < 10 \<Longrightarrow> isdigit (digit_char d)" "d < 16 \<Longrightarrow> isxdigit (digit_char d)" "10 \<le> d \<Longrightarrow> d < 16 \<Longrightarrow> \<not> isdigit (digit_char d)"
  by (cases "d < 10"; simp add: isdigit_def isxdigit_def code_digit)+

lemma HexCharToInt_digit [simp]: "d < 16 \<Longrightarrow> HexCharToInt (digit_char d) = Inr d"
  by (cases "d < 10") (simp_all add: HexCharToInt_def code_digit)

lemma dec_digits: "c \<in> set (dec n) \<Longrightarrow> isdigit c"
proof (induction n rule: dec.induct)
  case (1 n)
  then show ?case by (auto simp: dec.simps [of n] split: if_splits)
qed

lemma dec_not_Nil [simp]: "dec n \<noteq> []"
  by (subst dec.simps) simp

lemma dec_value_dec [simp]: "dec_value (dec n) = n"
proof (induction n rule: dec.induct)
  case (1 n)
  show ?case
  proof (cases "n < 10")
    case True
    then show ?thesis by (simp add: dec.simps [of n] dec_value_def code_digit)
  next
    case False
    have "code (digit_char (n mod 10)) - 48 = n mod 10" by (simp add: code_digit)
    with 1 False show ?thesis by (simp add: dec.simps [of n] dec_value_def)
  qed
qed

lemma hex_xdigits: "c \<in> set (hex n) \<Longrightarrow> isxdigit c"
proof (induction n rule: hex.induct)
  case (1 n)
  then show ?case by (auto simp: hex.simps [of n] split: if_splits)
qed

lemma hex_loop_append: "hex_loop r (xs @ ys) = (case hex_loop r xs of None \<Rightarrow> None | Some r \<Rightarrow> hex_loop r ys)"
  by (induction xs arbitrary: r) auto

lemma dec_loop_append: "dec_loop r (xs @ ys) = (case dec_loop r xs of None \<Rightarrow> None | Some r \<Rightarrow> dec_loop r ys)"
  by (induction xs arbitrary: r) auto

lemma hex_loop_digit: "d < 16 \<Longrightarrow> hex_loop r [digit_char d] = Some (r * 16 + of_nat d)"
proof (cases "d < 10")
  case False
  assume d: "d < 16"
  with False have "tolower (digit_char d) = digit_char d" by (simp add: tolower_def code_digit)
  moreover have "\<not> isdigit (digit_char d)" "isxdigit (digit_char d)" using d False by simp_all
  ultimately show ?thesis using False d by (simp add: code_digit algebra_simps)
qed (simp add: code_digit)

lemma hex_loop_hex: "hex_loop 0 (hex n) = Some (of_nat n)"
proof (induction n rule: hex.induct)
  case (1 n)
  show ?case
  proof (cases "n < 16")
    case True
    then show ?thesis by (simp only: hex.simps [of n] if_True hex_loop_digit) simp
  next
    case False
    have "n = n div 16 * 16 + n mod 16" by simp
    then have "of_nat n = of_nat (n div 16) * 16 + (of_nat (n mod 16) :: u32)" by (metis of_nat_add of_nat_mult of_nat_numeral)
    with 1 False show ?thesis by (simp add: hex.simps [of n] hex_loop_append hex_loop_digit del: hex_loop.simps)
  qed
qed

lemma dec_loop_digit: "d < 10 \<Longrightarrow> dec_loop r [digit_char d] = Some (r * 10 + of_nat d)"
  by (simp add: code_digit)

lemma dec_loop_dec: "dec_loop 0 (dec n) = Some (of_nat n)"
proof (induction n rule: dec.induct)
  case (1 n)
  show ?case
  proof (cases "n < 10")
    case True
    then show ?thesis by (simp only: dec.simps [of n] if_True dec_loop_digit) simp
  next
    case False
    have "n = n div 10 * 10 + n mod 10" by simp
    then have "of_nat n = of_nat (n div 10) * 10 + (of_nat (n mod 10) :: u32)" by (metis of_nat_add of_nat_mult of_nat_numeral)
    with 1 False show ?thesis by (simp add: dec.simps [of n] dec_loop_append dec_loop_digit del: dec_loop.simps)
  qed
qed

lemma hex_loop_zeros: "hex_loop 0 (replicate k (digit_char 0) @ s) = hex_loop 0 s"
  by (induction k) (simp_all add: code_digit)

text \<open>A decimal number is no hexadecimal or binary one: its second character is a digit.\<close>

lemma dec_no_prefix: "\<not> isdigit b \<Longrightarrow> \<not> prefix [a, b] (dec n)"
  using dec_digits [of b n] by (auto simp: prefix_def)

lemma stoi_dec:
  assumes "n < 2 ^ 31" "rest = [] \<or> \<not> isdigit (hd rest)"
  shows "stoi (dec n @ rest) = Inr (int n)"
proof -
  obtain c cs where d: "dec n = c # cs" by (cases "dec n") auto
  then have "isdigit c" using dec_digits [of c n] by simp
  then have c: "\<not> isspace c" "c \<noteq> CHR ''-''" "c \<noteq> CHR ''+''" by (auto simp: isdigit_def isspace_def code_def)
  have t: "takeWhile isdigit (dec n @ rest) = dec n"
  proof -
    have "takeWhile isdigit (dec n @ rest) = dec n @ takeWhile isdigit rest"
      by (rule takeWhile_append2) (rule dec_digits)
    moreover have "takeWhile isdigit rest = []" using assms(2) by (cases rest) auto
    ultimately show ?thesis by simp
  qed
  have "dropWhile isspace (dec n @ rest) = dec n @ rest" by (simp add: d c)
  moreover have "\<not> prefix ''-'' (dec n @ rest)" "\<not> prefix ''+'' (dec n @ rest)" using c by (simp_all add: d)
  ultimately show ?thesis using assms(1) t by (simp add: stoi_def)
qed

subsection \<open>Fixed-width hexadecimal\<close>

definition hexw :: "nat \<Rightarrow> nat \<Rightarrow> string" where
  "hexw w n = map (\<lambda>i. digit_char (n div 16 ^ (w - Suc i) mod 16)) [0..<w]"

lemma hexw_Suc: "hexw (Suc w) n = hexw w (n div 16) @ [digit_char (n mod 16)]"
proof -
  have "n div 16 ^ (Suc w - Suc i) = n div 16 div 16 ^ (w - Suc i)" if "i < w" for i
  proof -
    have "Suc w - Suc i = Suc (w - Suc i)" using that by simp
    then show ?thesis by (simp only: power_Suc div_mult2_eq)
  qed
  then show ?thesis by (simp add: hexw_def)
qed

lemma hexw_0: "hexw w 0 = replicate w (digit_char 0)"
  by (simp add: hexw_def map_replicate_const)

lemma setw_hex: "0 < w \<Longrightarrow> n < 16 ^ w \<Longrightarrow> setw w (digit_char 0) (hex n) = hexw w n"
proof (induction w arbitrary: n)
  case (Suc w)
  show ?case
  proof (cases "n < 16")
    case True
    then show ?thesis by (simp add: hex.simps [of n] setw_def hexw_Suc hexw_0)
  next
    case False
    then have w: "0 < w" using Suc.prems by (cases w) simp_all
    have "n div 16 < 16 ^ w" using Suc.prems by (simp add: less_mult_imp_div_less mult.commute)
    with Suc.IH [OF w] have "setw w (digit_char 0) (hex (n div 16)) = hexw w (n div 16)" by simp
    with False show ?thesis by (simp add: hex.simps [of n] setw_def hexw_Suc)
  qed
qed simp

lemma hexw_xdigits: "c \<in> set (hexw w n) \<Longrightarrow> isxdigit c"
  by (auto simp: hexw_def)

lemma two_digits: "(m div 16 mod 16) * 16 + m mod 16 = m mod (256::nat)"
  by (metis add.commute mod_mult2_eq mult.commute numeral_times_numeral semiring_norm(12) semiring_norm(13))

lemma of_nat_mod_256: "of_nat (n mod 256) = (of_nat n :: u8)"
  by (simp add: word_of_nat_eq_iff take_bit_eq_mod)

lemma hex_pairs_hexw: "hex_pairs (hexw (2 * k) n @ s) =
  map_option ((@) (map (\<lambda>i. of_nat (n div 256 ^ (k - Suc i))) [0..<k])) (hex_pairs s)"
proof (induction k arbitrary: n s)
  case 0
  then show ?case by (simp add: hexw_def option.map_ident)
next
  case (Suc k)
  have w: "hexw (2 * Suc k) n = hexw (2 * k) (n div 256) @ [digit_char (n div 16 mod 16), digit_char (n mod 16)]"
    by (simp add: hexw_Suc div_mult2_eq [symmetric])
  have "of_nat (n div 16 mod 16 * 16 + n mod 16) = (of_nat n :: u8)"
    unfolding two_digits by (rule of_nat_mod_256)
  then have b: "of_nat (n div 16 mod 16) * 16 + of_nat (n mod 16) = (of_nat n :: u8)" by simp
  have d: "n div 256 ^ (k - i) = n div 256 div 256 ^ (k - Suc i)" if "i < k" for i
  proof -
    have "k - i = Suc (k - Suc i)" using that by simp
    then show ?thesis by (simp only: power_Suc div_mult2_eq)
  qed
  have m: "map (\<lambda>i. of_nat (n div 256 ^ (Suc k - Suc i))) [0..<Suc k] =
      map (\<lambda>i. of_nat (n div 256 div 256 ^ (k - Suc i))) [0..<k] @ [of_nat n :: u8]"
    by (simp add: d)
  show ?case
    unfolding w m append_assoc
    by (subst Suc.IH) (simp add: b option.map_comp comp_def)
qed

text \<open>The bytes of a 32-bit number, highest first.\<close>

definition be_bytes :: "u32 \<Rightarrow> u8 list" where
  "be_bytes v = [ucast (drop_bit 24 v), ucast (drop_bit 16 v), ucast (drop_bit 8 v), ucast v]"

lemma ucast_drop_nat: "(of_nat (unat v div 2 ^ k) :: u8) = ucast (drop_bit k (v :: u32))"
  by (metis of_nat_unat ucast_eq unat_drop_bit_eq drop_bit_nat_def)


text \<open>The text forms of a number read back as the number: for every 32-bit \<open>v\<close>, its decimal and its
  hexadecimal form are both understood by \<open>StrToInt\<close>, and the hexadecimal form is understood by
  \<open>HexStrToBytes\<close> as the four bytes of \<open>v\<close>, highest first.\<close>

theorem number_text_round_trip:
  "StrToInt (UintToString v) = v \<and> StrToInt (Uint32IpToHex v) = v \<and> HexStrToBytes (Uint32IpToHex v) = be_bytes v"
proof (intro conjI)
  have "\<not> prefix ''0x'' (dec (unat v))" "\<not> prefix ''0b'' (dec (unat v))"
    by (rule dec_no_prefix, simp add: isdigit_def code_def)+
  then show "StrToInt (UintToString v) = v"
    by (simp add: StrToInt_def UintToString_def dec_loop_dec)
  show "StrToInt (Uint32IpToHex v) = v"
    by (simp add: StrToInt_def Uint32IpToHex_def setw_def hex_loop_zeros hex_loop_hex)
  have "unat v < 16 ^ 8" using unsigned_less [of v] by simp
  then have s: "setw 8 (digit_char 0) (hex (unat v)) = hexw (2 * 4) (unat v)" by (simp add: setw_hex)
  have l: "length (hexw (2 * 4) (unat v)) = 8" by (simp add: hexw_def)
  have p: "hex_pairs (hexw (2 * 4) (unat v)) = Some (be_bytes v)"
  proof -
    have u: "[0..<4] = [0, 1, 2, 3 :: nat]" by (simp add: upt_rec)
    have "map (\<lambda>i. of_nat (unat v div 256 ^ (4 - Suc i))) [0..<4] = be_bytes v"
      unfolding u using ucast_drop_nat [of v 24] ucast_drop_nat [of v 16] ucast_drop_nat [of v 8] by (simp add: be_bytes_def)
    then show ?thesis using hex_pairs_hexw [of 4 "unat v" "[]"] by simp
  qed
  show "HexStrToBytes (Uint32IpToHex v) = be_bytes v"
    using hexw_xdigits [of _ "2 * 4" "unat v"] l p
    unfolding HexStrToBytes_def Uint32IpToHex_def s Let_def by auto
qed


subsection \<open>Parameters of table entries\<close>

definition be_value :: "u8 list \<Rightarrow> nat" where
  "be_value bs = foldl (\<lambda>v b. 256 * v + unat b) 0 bs"

lemma be_value_snoc: "be_value (bs @ [b]) = 256 * be_value bs + unat b"
  by (simp add: be_value_def)

lemma byte_loop_value:
  "be_value (rev (fst (byte_loop n w))) = n \<and> snd (byte_loop n w) = w - int (length (fst (byte_loop n w))) \<and>
   (\<forall>k. n < 256 ^ k \<longrightarrow> length (fst (byte_loop n w)) \<le> k)"
proof (induction n w rule: byte_loop.induct)
  case (1 n w)
  show ?case
  proof (cases "n = 0")
    case True
    then show ?thesis by (simp add: byte_loop.simps [of 0] be_value_def)
  next
    case False
    obtain bs v where b: "byte_loop (n div 256) (w - 1) = (bs, v)" by fastforce
    have IH: "be_value (rev bs) = n div 256" "v = w - 1 - int (length bs)"
      "\<And>k. n div 256 < 256 ^ k \<Longrightarrow> length bs \<le> k" using 1 [OF False] b by auto
    have "unat (of_nat (n mod 256) :: u8) = n mod 256" by (simp add: unat_of_nat take_bit_eq_mod)
    then have "be_value (rev (of_nat (n mod 256) # bs)) = n"
      unfolding rev.simps be_value_snoc IH(1) by simp
    moreover have "length bs < k" if "n < 256 ^ k" for k
    proof (cases k)
      case (Suc j)
      then have "n div 256 < 256 ^ j" using that by (simp add: less_mult_imp_div_less mult.commute)
      with IH(3) Suc show ?thesis by (simp add: less_Suc_eq_le)
    qed (use that False in simp)
    ultimately show ?thesis using False b IH(2) by (simp add: byte_loop.simps [of n] Suc_le_eq)
  qed
qed

lemma be_value_zeros: "be_value (replicate k 0 @ bs) = be_value bs"
  by (induction k) (simp_all add: be_value_def)

lemma IntToBytes_dec:
  assumes "n < 2 ^ 31" "0 \<le> w"
  shows "\<exists>bs. IntToBytes (dec n) w = Inr bs \<and> be_value bs = n \<and>
    (\<forall>k. (w + 7) div 8 \<le> int k \<longrightarrow> n < 256 ^ k \<longrightarrow> length bs \<le> k) \<and> (w + 7) div 8 \<le> int (length bs)"
proof -
  obtain ba bw where b: "byte_loop n ((w + 7) div 8) = (ba, bw)" by fastforce
  note V = byte_loop_value [of n "(w + 7) div 8", unfolded b fst_conv snd_conv]
  have "stoi (dec n) = Inr (int n)" using stoi_dec [OF assms(1), of "[]"] by simp
  moreover have "unat (of_int (int n) :: u32) = n"
    using assms(1) by (simp add: unat_of_nat take_bit_nat_eq_self)
  ultimately have "IntToBytes (dec n) w = Inr (replicate (nat bw) 0 @ rev ba)"
    using assms(2) b by (simp add: IntToBytes_def Let_def)
  moreover have "be_value (replicate (nat bw) 0 @ rev ba) = n" using V by (simp add: be_value_zeros)
  moreover have "length (replicate (nat bw) 0 @ rev ba) \<le> k" if "(w + 7) div 8 \<le> int k" "n < 256 ^ k" for k
  proof -
    have "length ba \<le> k" "bw \<le> int k - int (length ba)" using V that by simp_all
    then show ?thesis by simp
  qed
  moreover have "(w + 7) div 8 \<le> int (length (replicate (nat bw) 0 @ rev ba))" using V by simp
  ultimately show ?thesis by blast
qed

text \<open>\<open>IntToBytes\<close> encodes a decimal number: the bytes have the number as their big-endian value, and
  when the number fits the width they are exactly as many as the width, rounded up to bytes.\<close>

theorem int_to_bytes_encodes:
  assumes "n < 2 ^ 31" "0 \<le> w" "n < 256 ^ nat ((w + 7) div 8)"
  shows "\<exists>bs. IntToBytes (dec n) w = Inr bs \<and> be_value bs = n \<and> int (length bs) = (w + 7) div 8"
proof -
  obtain bs where b: "IntToBytes (dec n) w = Inr bs" "be_value bs = n"
    "\<And>k. (w + 7) div 8 \<le> int k \<Longrightarrow> n < 256 ^ k \<Longrightarrow> length bs \<le> k" "(w + 7) div 8 \<le> int (length bs)"
    using IntToBytes_dec [OF assms(1,2)] by blast
  have "length bs \<le> nat ((w + 7) div 8)" by (rule b(3)) (use assms(2,3) in simp_all)
  then have "int (length bs) \<le> (w + 7) div 8" using assms(2) by linarith
  with b(1,2,4) show ?thesis by (intro exI [of _ bs]) simp
qed

lemma sint_small:
  assumes "unat v < 2 ^ 31"
  shows "sint (v :: u32) = int (unat v)"
proof -
  have "sint v = signed_take_bit 31 (uint v)" by (simp add: sint_uint)
  also have "\<dots> = uint v"
  proof (rule signed_take_bit_int_eq_self)
    show "- (2 ^ 31) \<le> uint v" by (rule order_trans [OF _ unsigned_greater_eq]) simp
    have "int (unat v) < int (2 ^ 31)" using assms by (simp only: of_nat_less_iff)
    then show "uint v < 2 ^ 31" by (simp only: uint_nat of_nat_power of_nat_numeral)
  qed
  finally show ?thesis by (simp only: uint_nat)
qed

text \<open>\<open>ParseParam\<close> loses the width: it rounds the width to bytes and passes that number on as a number of
  bits, so that a parameter of up to 64 bits whose value fits a byte is encoded in one byte,
  however wide its field is (32 bits excepted, which are read as hexadecimal).\<close>

theorem parse_param_one_byte:
  assumes "0 < n" "n < 256" "0 < bitwidth" "bitwidth \<le> 64" "bitwidth \<noteq> 32"
  shows "ParseParam (dec n) bitwidth = Inr [of_nat n]"
proof -
  have u: "0 < unat bitwidth" "unat bitwidth \<le> 64"
    using assms(3,4) by (simp_all add: word_less_nat_alt word_le_nat_alt)
  have "unat (bitwidth + 7) = unat bitwidth + 7"
    using u(2) by (subst unat_add_lem [THEN iffD1]) simp_all
  then have s: "unat ((bitwidth + 7) div 8) = (unat bitwidth + 7) div 8" by (simp add: unat_div)
  let ?k = "(unat bitwidth + 7) div 8"
  have k: "?k \<le> 8" using div_le_mono [of "unat bitwidth + 7" 71 8] u(2) by simp
  have "0 < ?k" using u(1) by (simp add: div_greater_zero_iff)
  have "sint ((bitwidth + 7) div 8) = int (unat ((bitwidth + 7) div 8))"
    by (rule sint_small) (use k in \<open>simp add: s\<close>)
  then have w: "sint ((bitwidth + 7) div 8) = int ?k" by (simp only: s)
  have one: "(int ?k + 7) div 8 = 1" using k \<open>0 < ?k\<close> by linarith
  obtain bs where b: "IntToBytes (dec n) (int ?k) = Inr bs" "be_value bs = n"
    "\<And>k. (int ?k + 7) div 8 \<le> int k \<Longrightarrow> n < 256 ^ k \<Longrightarrow> length bs \<le> k" "(int ?k + 7) div 8 \<le> int (length bs)"
    using IntToBytes_dec [of n "int ?k"] assms(2) by auto
  have "length bs \<le> 1" by (rule b(3)) (use one assms(2) in simp_all)
  then obtain x where "bs = [x]" using b(4) one by (cases bs) auto
  moreover from this b(2) have "x = of_nat n" by (auto simp: be_value_def)
  ultimately show ?thesis using assms(5) b(1) w by (simp add: ParseParam_def Let_def)
qed

subsection \<open>IPv4 addresses\<close>

lemma dec_no_dot: "takeWhile (\<lambda>c. c \<noteq> CHR ''.'') (dec n @ CHR ''.'' # s) = dec n" "takeWhile (\<lambda>c. c \<noteq> CHR ''.'') (dec n) = dec n"
proof -
  have "\<forall>c \<in> set (dec n). c \<noteq> CHR ''.''" using dec_digits [of "CHR ''.''" n] by (auto simp: isdigit_def code_def)
  then show "takeWhile (\<lambda>c. c \<noteq> CHR ''.'') (dec n @ CHR ''.'' # s) = dec n" "takeWhile (\<lambda>c. c \<noteq> CHR ''.'') (dec n) = dec n"
    by (simp_all add: takeWhile_append2)
qed

lemma stoi_dec_byte: "n < 256 \<Longrightarrow> stoi (dec n) = Inr (int n)"
  using stoi_dec [of n "[]"] by simp

lemma ip_loop_step: "a < 256 \<Longrightarrow> ip_loop (Suc n) (dec a @ CHR ''.'' # s) = map_option ((#) (of_nat a)) (ip_loop n s)"
  by (simp add: dec_no_dot stoi_dec_byte)

lemma ip_loop_last: "a < 256 \<Longrightarrow> ip_loop (Suc 0) (dec a) = Some [of_nat a]"
  by (simp add: dec_no_dot stoi_dec_byte)

text \<open>An IPv4 address in dotted decimal form is read as its four bytes.\<close>

theorem ip_text_to_bytes:
  assumes "a < 256" "b < 256" "c < 256" "d < 256"
  shows "IpStrToBytes (dec a @ ''.'' @ dec b @ ''.'' @ dec c @ ''.'' @ dec d) = [of_nat a, of_nat b, of_nat c, of_nat d]"
  using assms unfolding IpStrToBytes_def append.simps numeral_eq_Suc pred_numeral_simps
  by (simp add: ip_loop_step ip_loop_last eval_nat_numeral del: ip_loop.simps)

theorem int_to_bytes_encodes_witness: "\<exists>bs. IntToBytes (dec 1000) 16 = Inr bs \<and> be_value bs = 1000 \<and> int (length bs) = 2"
  using int_to_bytes_encodes [of 1000 16] by simp

theorem parse_param_one_byte_witness: "ParseParam (dec 7) 48 = Inr [7]"
  using parse_param_one_byte [of 7 48] by simp

theorem ip_text_to_bytes_witness: "IpStrToBytes (dec 10 @ ''.'' @ dec 0 @ ''.'' @ dec 1 @ ''.'' @ dec 254) = [10, 0, 1, 254]"
  using ip_text_to_bytes [of 10 0 1 254] by simp

lemma format_examples:
  "HexStrToBytes ''0x0a000001'' = [10, 0, 0, 1]" "HexStrToBytes ''0x0a0'' = []" "StrToInt ''0b101'' = 5" "StrToInt ''12z'' = 0"
  by (simp_all add: HexStrToBytes_def StrToInt_def HexCharToInt_def isxdigit_def isdigit_def code_def)

end
