(* ===== verification/Text_Stream.thy ===== *)
theory Text_Stream
  imports Format_Utils
begin

text \<open>
  Text input and output as the programs use it: an input file as the text that is left with its
  end-of-file flag (\<open>std::ifstream\<close>, \<open>std::getline\<close>), the extraction operators of a string stream
  (\<open>std::istringstream\<close>), and lines of numbers and words as \<open>std::ostringstream\<close> writes them.
\<close>

definition newline :: char where "newline = CHR 0x0A"

record in_file =
  if_rest :: string
  if_eof :: bool

definition open_file :: "string \<Rightarrow> in_file" where
  "open_file text = \<lparr>if_rest = text, if_eof = False\<rparr>"

text \<open>\<open>std::getline\<close>: a line ends with a newline, which is taken, or with the file.\<close>

definition getline :: "in_file \<Rightarrow> in_file \<times> string option" where
  "getline f =
     (let line = takeWhile (\<lambda>c. c \<noteq> newline) (if_rest f)
      in if if_eof f \<or> if_rest f = [] then (f\<lparr>if_eof := True\<rparr>, None)
         else if line = if_rest f then (\<lparr>if_rest = [], if_eof = True\<rparr>, Some line)
         else (f\<lparr>if_rest := drop (length line + 1) (if_rest f)\<rparr>, Some line))"

text \<open>The extraction operators: leading white space is skipped, and what was not used stays.\<close>

definition get_char :: "string \<Rightarrow> (char \<times> string) option" where
  "get_char s = (case dropWhile isspace s of [] \<Rightarrow> None | c # cs \<Rightarrow> Some (c, cs))"

definition get_word :: "string \<Rightarrow> (string \<times> string) option" where
  "get_word s =
     (let s = dropWhile isspace s;
          w = takeWhile (\<lambda>c. \<not> isspace c) s
      in if w = [] then None else Some (w, drop (length w) s))"

text \<open>The sign and the digits of a number, and what follows them.\<close>

definition get_digits :: "string \<Rightarrow> (bool \<times> nat \<times> string) option" where
  "get_digits s =
     (let s = dropWhile isspace s;
          neg = prefix ''-'' s;
          s = (if prefix ''-'' s \<or> prefix ''+'' s then tl s else s);
          ds = takeWhile isdigit s
      in if ds = [] then None else Some (neg, dec_value ds, drop (length ds) s))"

definition get_int :: "string \<Rightarrow> (int \<times> string) option" where
  "get_int s =
     (case get_digits s of
        None \<Rightarrow> None
      | Some (neg, n, s) \<Rightarrow>
          (let v = (if neg then - int n else int n)
           in if v < - (2 ^ 31) \<or> v \<ge> 2 ^ 31 then None else Some (v, s)))"

text \<open>A negative number is accepted for an unsigned variable and wraps around.\<close>

definition get_uint :: "string \<Rightarrow> (u32 \<times> string) option" where
  "get_uint s =
     (case get_digits s of
        None \<Rightarrow> None
      | Some (neg, n, s) \<Rightarrow>
          if n \<ge> 2 ^ 32 then None else Some (if neg then - of_nat n else of_nat n, s))"

subsection \<open>Lines\<close>

text \<open>The text of a list of lines, each ended by a newline.\<close>

definition unlines :: "string list \<Rightarrow> string" where
  "unlines ls = concat (map (\<lambda>l. l @ [newline]) ls)"

lemma unlines_simps [simp]: "unlines [] = []" "unlines (l # ls) = l @ newline # unlines ls" "unlines (ls @ ms) = unlines ls @ unlines ms"
  by (simp_all add: unlines_def)

lemma isspace_newline [simp]: "isspace newline" "isspace CHR '' ''"
  by (simp_all add: isspace_def newline_def code_def)

lemma not_space_no_newline: "\<forall>c \<in> set l. c \<noteq> newline \<Longrightarrow> takeWhile (\<lambda>c. c \<noteq> newline) (l @ newline # rest) = l"
  by (simp add: takeWhile_append2)

lemma getline_line:
  assumes "newline \<notin> set l"
  shows "getline \<lparr>if_rest = l @ newline # rest, if_eof = False\<rparr> = (\<lparr>if_rest = rest, if_eof = False\<rparr>, Some l)"
proof -
  have "takeWhile (\<lambda>c. c \<noteq> newline) (l @ newline # rest) = l"
    by (rule not_space_no_newline) (use assms in auto)
  then show ?thesis by (simp add: getline_def Let_def)
qed

lemma getline_end: "getline \<lparr>if_rest = [], if_eof = e\<rparr> = (\<lparr>if_rest = [], if_eof = True\<rparr>, None)"
  by (simp add: getline_def)

subsection \<open>Reading back what was written\<close>

lemma dec_first: "\<exists>c cs. dec n = c # cs \<and> isdigit c"
  using dec_digits [of _ n] by (cases "dec n") auto

lemma digit_not_space: "isdigit c \<Longrightarrow> \<not> isspace c \<and> c \<noteq> CHR ''-'' \<and> c \<noteq> CHR ''+'' \<and> c \<noteq> newline"
  by (auto simp: isdigit_def isspace_def code_def newline_def)

lemma get_digits_dec:
  assumes "rest = [] \<or> \<not> isdigit (hd rest)"
  shows "get_digits (dec n @ rest) = Some (False, n, rest)"
proof -
  obtain c cs where d: "dec n = c # cs" "isdigit c" using dec_first by blast
  have "takeWhile isdigit (dec n @ rest) = dec n @ takeWhile isdigit rest"
    by (rule takeWhile_append2) (rule dec_digits)
  moreover have "takeWhile isdigit rest = []" using assms by (cases rest) auto
  ultimately have t: "takeWhile isdigit (dec n @ rest) = dec n" by simp
  have "dropWhile isspace (dec n @ rest) = dec n @ rest" using d digit_not_space by simp
  moreover have "\<not> prefix ''-'' (dec n @ rest)" "\<not> prefix ''+'' (dec n @ rest)"
    using d digit_not_space by auto
  ultimately show ?thesis by (simp add: get_digits_def Let_def t)
qed

lemma get_space [simp]:
  "get_digits (CHR '' '' # s) = get_digits s" "get_int (CHR '' '' # s) = get_int s" "get_uint (CHR '' '' # s) = get_uint s"
  "get_char (CHR '' '' # s) = get_char s" "get_word (CHR '' '' # s) = get_word s"
  by (simp_all add: get_digits_def get_int_def get_uint_def get_char_def get_word_def Let_def)

lemma get_int_dec: "n < 2 ^ 31 \<Longrightarrow> rest = [] \<or> \<not> isdigit (hd rest) \<Longrightarrow> get_int (dec n @ rest) = Some (int n, rest)"
  by (simp add: get_int_def get_digits_dec)

lemma get_uint_dec: "rest = [] \<or> \<not> isdigit (hd rest) \<Longrightarrow> get_uint (dec (unat v) @ rest) = Some (v, rest)"
proof -
  assume a: "rest = [] \<or> \<not> isdigit (hd rest)"
  have "unat v < 2 ^ 32" using unsigned_less [of v] by simp
  with a show ?thesis by (simp add: get_uint_def get_digits_dec)
qed

lemma get_char_visible: "\<not> isspace c \<Longrightarrow> get_char (c # s) = Some (c, s)"
  by (simp add: get_char_def)

text \<open>A word: not empty and without white space.\<close>

definition word :: "string \<Rightarrow> bool" where "word w \<longleftrightarrow> w \<noteq> [] \<and> (\<forall>c \<in> set w. \<not> isspace c)"

lemma get_word_word:
  assumes "word w" "rest = [] \<or> isspace (hd rest)"
  shows "get_word (w @ rest) = Some (w, rest)"
proof -
  have "dropWhile isspace (w @ rest) = w @ rest" using assms(1) by (cases w) (auto simp: word_def)
  moreover have "takeWhile (\<lambda>c. \<not> isspace c) (w @ rest) = w @ takeWhile (\<lambda>c. \<not> isspace c) rest"
    using assms(1) by (intro takeWhile_append2) (simp add: word_def)
  moreover have "takeWhile (\<lambda>c. \<not> isspace c) rest = []" using assms(2) by (cases rest) auto
  ultimately show ?thesis using assms(1) by (simp add: get_word_def Let_def word_def)
qed

lemma word_no_newline: "word w \<Longrightarrow> newline \<notin> set w"
  using isspace_newline(1) by (auto simp: word_def)

lemma dec_no_newline: "newline \<notin> set (dec n)"
  using dec_digits digit_not_space by blast

lemma word_dec: "word (dec n)"
  using dec_digits digit_not_space by (auto simp: word_def)

end
