(* ===== verification/Topology_Reader.thy ===== *)
theory Topology_Reader
  imports Text_Stream
begin

text \<open>
  The topology reader (\<open>model/p4-topology-reader.h\<close>, \<open>model/p4-topology-reader.cc\<close>): the file of
  switches, hosts, links and switch functions is read into node containers and a list of links
  with the port numbers of their ends. A \<open>Ptr<Node>\<close> is a number of the node list, or none.
  The file system is a parameter, \<open>fs name\<close> being the text of the file, if it can be opened.
\<close>

subsection \<open>Links\<close>

record topo_link =
  m_fromPtr :: "nat option"
  m_toPtr :: "nat option"
  m_fromType :: char
  m_fromIndex :: u32
  m_toType :: char
  m_toIndex :: u32
  m_linkAttr :: "string \<rightharpoonup> string"

definition new_topo_link :: "nat option \<Rightarrow> u32 \<Rightarrow> char \<Rightarrow> nat option \<Rightarrow> u32 \<Rightarrow> char \<Rightarrow> topo_link" where
  "new_topo_link fromPtr fromIndex fromType toPtr toIndex toType =
     \<lparr>m_fromPtr = fromPtr, m_toPtr = toPtr, m_fromType = fromType, m_fromIndex = fromIndex,
      m_toType = toType, m_toIndex = toIndex, m_linkAttr = Map.empty\<rparr>"

definition GetFromNode :: "topo_link \<Rightarrow> nat option" where "GetFromNode l = m_fromPtr l"
definition GetToNode :: "topo_link \<Rightarrow> nat option" where "GetToNode l = m_toPtr l"
definition GetFromType :: "topo_link \<Rightarrow> char" where "GetFromType l = m_fromType l"
definition GetToType :: "topo_link \<Rightarrow> char" where "GetToType l = m_toType l"
definition GetFromIndex :: "topo_link \<Rightarrow> u32" where "GetFromIndex l = m_fromIndex l"
definition GetToIndex :: "topo_link \<Rightarrow> u32" where "GetToIndex l = m_toIndex l"

definition GetLinkAttribute :: "topo_link \<Rightarrow> string \<Rightarrow> stop + string" where
  "GetLinkAttribute l name =
     (case m_linkAttr l name of None \<Rightarrow> Inl AssertFailure | Some v \<Rightarrow> Inr v)"

text \<open>The value that the caller passed in is kept when the attribute is missing.\<close>

definition GetLinkAttributeFailSafe :: "topo_link \<Rightarrow> string \<Rightarrow> string \<Rightarrow> bool \<times> string" where
  "GetLinkAttributeFailSafe l name value =
     (case m_linkAttr l name of None \<Rightarrow> (False, value) | Some v \<Rightarrow> (True, v))"

definition SetLinkAttribute :: "topo_link \<Rightarrow> string \<Rightarrow> string \<Rightarrow> topo_link" where
  "SetLinkAttribute l name value = l\<lparr>m_linkAttr := (m_linkAttr l)(name \<mapsto> value)\<rparr>"

record LinkInfo =
  fromIndex :: u32
  fromType :: char
  toIndex :: u32
  toType :: char
  dataRate :: string
  delay :: string
  fromPort :: u32
  toPort :: u32

subsection \<open>The reader\<close>

text \<open>\<open>next_node\<close> is the length of the simulator's node list: \<open>CreateObject<Node>\<close> appends to it.\<close>

record reader =
  m_fileName :: string
  m_linksList :: "topo_link list"
  m_links :: "LinkInfo list"
  m_portCounter :: "u32 \<rightharpoonup> u32"
  m_hosts :: "nat option list"
  m_switches :: "nat option list"
  m_switchNetFunc :: "string list"
  next_node :: nat

definition P4TopologyReader :: "nat \<Rightarrow> reader" where
  "P4TopologyReader n =
     \<lparr>m_fileName = [], m_linksList = [], m_links = [], m_portCounter = Map.empty, m_hosts = [],
      m_switches = [], m_switchNetFunc = [], next_node = n\<rparr>"

definition SetFileName :: "reader \<Rightarrow> string \<Rightarrow> reader" where "SetFileName r fileName = r\<lparr>m_fileName := fileName\<rparr>"
definition GetFileName :: "reader \<Rightarrow> string" where "GetFileName r = m_fileName r"
definition LinksSize :: "reader \<Rightarrow> int" where "LinksSize r = int (length (m_linksList r))"
definition LinksEmpty :: "reader \<Rightarrow> bool" where "LinksEmpty r \<longleftrightarrow> m_linksList r = []"
definition AddLink :: "reader \<Rightarrow> topo_link \<Rightarrow> reader" where "AddLink r l = r\<lparr>m_linksList := m_linksList r @ [l]\<rparr>"
definition GetHostNodeContainer :: "reader \<Rightarrow> nat option list" where "GetHostNodeContainer r = m_hosts r"
definition GetSwitchNodeContainer :: "reader \<Rightarrow> nat option list" where "GetSwitchNodeContainer r = m_switches r"
definition GetSwitchNetFunc :: "reader \<Rightarrow> string list" where "GetSwitchNetFunc r = m_switchNetFunc r"

text \<open>A vector of nodes read outside its range is undefined behaviour; the index is passed as an
  \<open>int\<close>, which is negative from \<open>2 ^ 31\<close> on.\<close>

definition CreateNodeIfNeeded :: "reader \<Rightarrow> nat option list \<Rightarrow> u32 \<Rightarrow> (reader, nat option list) outcome" where
  "CreateNodeIfNeeded r nodes index =
     (if 2 ^ 31 \<le> unat index \<or> length nodes \<le> unat index then (r, Inl Undefined)
      else (case nodes ! unat index of
              Some _ \<Rightarrow> (r, Inr nodes)
            | None \<Rightarrow> (r\<lparr>next_node := next_node r + 1\<rparr>, Inr (nodes[unat index := Some (next_node r)]))))"

definition AddLinkBetweenNodes ::
  "reader \<Rightarrow> nat option list \<Rightarrow> u32 \<Rightarrow> char \<Rightarrow> u32 \<Rightarrow> char \<Rightarrow> string \<Rightarrow> string \<Rightarrow> reader" where
  "AddLinkBetweenNodes r nodes from_index from_type to_index to_type data_rate del =
     (let l = new_topo_link (nodes ! unat from_index) from_index from_type (nodes ! unat to_index) to_index to_type;
          l = SetLinkAttribute l ''DataRate'' data_rate;
          l = SetLinkAttribute l ''Delay'' del
      in AddLink r l)"

text \<open>\<open>m_portCounter[index]++\<close>: a missing key counts as 0.\<close>

definition count_port :: "reader \<Rightarrow> u32 \<Rightarrow> reader \<times> u32" where
  "count_port r index =
     (let port = (case m_portCounter r index of None \<Rightarrow> 0 | Some n \<Rightarrow> n)
      in (r\<lparr>m_portCounter := (m_portCounter r)(index \<mapsto> port + 1)\<rparr>, port))"

text \<open>One line of a link.\<close>

definition parse_link :: "string \<Rightarrow> (u32 \<times> char \<times> u32 \<times> char \<times> string \<times> string) option" where
  "parse_link line =
     Option.bind (get_uint line) (\<lambda>(from_index, s).
     Option.bind (get_char s) (\<lambda>(from_type, s).
     Option.bind (get_uint s) (\<lambda>(to_index, s).
     Option.bind (get_char s) (\<lambda>(to_type, s).
     Option.bind (get_word s) (\<lambda>(data_rate, s).
     Option.bind (get_word s) (\<lambda>(del, s). Some (from_index, from_type, to_index, to_type, data_rate, del)))))))"

definition read_link ::
  "reader \<Rightarrow> nat option list \<Rightarrow> u32 \<times> char \<times> u32 \<times> char \<times> string \<times> string \<Rightarrow> (reader, nat option list) outcome" where
  "read_link r nodes l =
     (case l of (from_index, from_type, to_index, to_type, data_rate, del) \<Rightarrow>
        (case CreateNodeIfNeeded r nodes from_index of
           (r, Inl e) \<Rightarrow> (r, Inl e)
         | (r, Inr nodes) \<Rightarrow>
             (case CreateNodeIfNeeded r nodes to_index of
                (r, Inl e) \<Rightarrow> (r, Inl e)
              | (r, Inr nodes) \<Rightarrow>
                  (let (r, from_port) = count_port r from_index;
                       (r, to_port) = count_port r to_index;
                       r = AddLinkBetweenNodes r nodes from_index from_type to_index to_type data_rate del
                   in (r\<lparr>m_links := m_links r @
                           [\<lparr>fromIndex = from_index, fromType = from_type, toIndex = to_index, toType = to_type,
                             dataRate = data_rate, delay = del, fromPort = from_port, toPort = to_port\<rparr>]\<rparr>,
                       Inr nodes)))))"

text \<open>The loop over the links: it ends with the file; a line that does not parse is skipped.\<close>

fun read_links :: "nat \<Rightarrow> reader \<Rightarrow> in_file \<Rightarrow> nat option list \<Rightarrow> (reader, in_file \<times> nat option list) outcome" where
  "read_links 0 r f nodes = (r, Inr (f, nodes))"
| "read_links (Suc n) r f nodes =
     (if if_eof f then (r, Inr (f, nodes))
      else (case getline f of
              (f, None) \<Rightarrow> (r, Inr (f, nodes))
            | (f, Some line) \<Rightarrow>
                (case parse_link line of
                   None \<Rightarrow> read_links n r f nodes
                 | Some l \<Rightarrow>
                     (case read_link r nodes l of
                        (r, Inl e) \<Rightarrow> (r, Inl e)
                      | (r, Inr nodes) \<Rightarrow> read_links n r f nodes))))"

text \<open>The functions of the switches. Here a bad line ends the reading.\<close>

definition parse_function :: "string \<Rightarrow> (int \<times> string) option" where
  "parse_function line =
     Option.bind (get_int line) (\<lambda>(switchIndex, s).
     Option.bind (get_word s) (\<lambda>(networkFunction, s). Some (switchIndex, networkFunction)))"

fun read_functions :: "nat \<Rightarrow> reader \<Rightarrow> in_file \<Rightarrow> (reader, bool) outcome" where
  "read_functions 0 r f = (r, Inr True)"
| "read_functions (Suc n) r f =
     (if if_eof f then (r, Inr True)
      else (case getline f of
              (f, None) \<Rightarrow> (r, Inr False)
            | (f, Some line) \<Rightarrow>
                (case parse_function line of
                   None \<Rightarrow> (r, Inr False)
                 | Some (i, networkFunction) \<Rightarrow>
                     if i < 0 \<or> int (length (m_switchNetFunc r)) \<le> i then (r, Inl Undefined)
                     else read_functions n (r\<lparr>m_switchNetFunc := (m_switchNetFunc r)[nat i := networkFunction]\<rparr>) f)))"

text \<open>\<open>std::vector::resize\<close>; a negative size converts to one that no vector can have.\<close>

definition resize_to :: "'a \<Rightarrow> 'a list \<Rightarrow> int \<Rightarrow> stop + 'a list" where
  "resize_to x xs n =
     (if n < 0 then Inl LengthError else Inr (take (nat n) xs @ replicate (nat n - length xs) x))"

definition ReadSwitchNetworkFunctions :: "reader \<Rightarrow> in_file \<Rightarrow> int \<Rightarrow> (reader, bool) outcome" where
  "ReadSwitchNetworkFunctions r f switchNum =
     (case resize_to [] (m_switchNetFunc r) switchNum of
        Inl e \<Rightarrow> (r, Inl e)
      | Inr fs \<Rightarrow> read_functions (nat switchNum) (r\<lparr>m_switchNetFunc := fs\<rparr>) f)"

definition AddNodesToContainers :: "reader \<Rightarrow> nat option list \<Rightarrow> int \<Rightarrow> int \<Rightarrow> (reader, unit) outcome" where
  "AddNodesToContainers r nodes switchNum hostNum =
     (if length nodes < nat switchNum \<or> hostNum > 0 \<and> (switchNum + hostNum > int (length nodes) \<or> switchNum < 0)
      then (r, Inl Undefined)
      else (r\<lparr>m_switches := m_switches r @ take (nat switchNum) nodes,
              m_hosts := m_hosts r @ take (nat hostNum) (drop (nat switchNum) nodes)\<rparr>, Inr ()))"

definition parse_sizes :: "string \<Rightarrow> (int \<times> int \<times> int) option" where
  "parse_sizes line =
     Option.bind (get_int line) (\<lambda>(switchNum, s).
     Option.bind (get_int s) (\<lambda>(hostNum, s).
     Option.bind (get_int s) (\<lambda>(linkNum, s). Some (switchNum, hostNum, linkNum))))"

text \<open>After the links: the functions of the switches, then the containers.\<close>

definition finish_read :: "reader \<Rightarrow> in_file \<Rightarrow> nat option list \<Rightarrow> int \<Rightarrow> int \<Rightarrow> (reader, bool) outcome" where
  "finish_read r f nodes switchNum hostNum =
     (case ReadSwitchNetworkFunctions r f switchNum of
        (r, Inl e) \<Rightarrow> (r, Inl e)
      | (r, Inr False) \<Rightarrow> (r, Inr False)
      | (r, Inr True) \<Rightarrow>
          (case AddNodesToContainers r nodes switchNum hostNum of
             (r, Inl e) \<Rightarrow> (r, Inl e)
           | (r, Inr _) \<Rightarrow> (r, Inr True)))"

definition Read :: "(string \<Rightarrow> string option) \<Rightarrow> reader \<Rightarrow> (reader, bool) outcome" where
  "Read fs r =
     (case fs (GetFileName r) of
        None \<Rightarrow> (r, Inr False)
      | Some text \<Rightarrow>
          (case getline (open_file text) of
             (f, None) \<Rightarrow> (r, Inr False)
           | (f, Some line) \<Rightarrow>
               (case parse_sizes line of
                  None \<Rightarrow> (r, Inr False)
                | Some (switchNum, hostNum, linkNum) \<Rightarrow>
                    (if switchNum + hostNum \<ge> 2 ^ 31 \<or> switchNum + hostNum < - (2 ^ 31) then (r, Inl Undefined)
                     else (case resize_to None [] (switchNum + hostNum) of
                             Inl e \<Rightarrow> (r, Inl e)
                           | Inr nodes \<Rightarrow>
                               (case read_links (nat linkNum) r f nodes of
                                  (r, Inl e) \<Rightarrow> (r, Inl e)
                                | (r, Inr (f, nodes)) \<Rightarrow>
                                    finish_read r f nodes switchNum hostNum))))))"

text \<open>\<open>PrintTopology\<close>: a line for each link.\<close>

definition link_line :: "LinkInfo \<Rightarrow> string" where
  "link_line l =
     (if fromType l = CHR ''s'' then ''Switch'' else ''Host'') @ '' '' @ dec (unat (fromIndex l)) @ '' Port '' @
     dec (unat (fromPort l)) @ '' Link to '' @ (if toType l = CHR ''s'' then ''Switch'' else ''Host'') @ '' '' @
     dec (unat (toIndex l)) @ '' Port '' @ dec (unat (toPort l)) @ '' | DataRate: '' @ dataRate l @ '', Delay: '' @ delay l"

definition PrintTopology :: "reader \<Rightarrow> string" where
  "PrintTopology r = unlines (map link_line (m_links r))"

subsection \<open>Ports and nodes\<close>

text \<open>The ports that the links give to a node, in the order of the file.\<close>

definition link_ports :: "u32 \<Rightarrow> LinkInfo \<Rightarrow> u32 list" where
  "link_ports v l = (if fromIndex l = v then [fromPort l] else []) @ (if toIndex l = v then [toPort l] else [])"

definition ports_of :: "LinkInfo list \<Rightarrow> u32 \<Rightarrow> u32 list" where
  "ports_of ls v = concat (map (link_ports v) ls)"

definition port_count :: "reader \<Rightarrow> u32 \<Rightarrow> u32" where
  "port_count r v = (case m_portCounter r v of None \<Rightarrow> 0 | Some n \<Rightarrow> n)"

text \<open>A link in the list agrees with its description, and its ends are the nodes of its indices.\<close>

definition link_matches :: "topo_link \<Rightarrow> LinkInfo \<Rightarrow> bool" where
  "link_matches l i \<longleftrightarrow>
     GetFromIndex l = fromIndex i \<and> GetFromType l = fromType i \<and> GetToIndex l = toIndex i \<and> GetToType l = toType i \<and>
     GetLinkAttribute l ''DataRate'' = Inr (dataRate i) \<and> GetLinkAttribute l ''Delay'' = Inr (delay i)"

definition ends_are :: "(u32 \<Rightarrow> nat option) \<Rightarrow> topo_link \<Rightarrow> bool" where
  "ends_are node l \<longleftrightarrow>
     GetFromNode l = node (GetFromIndex l) \<and> GetToNode l = node (GetToIndex l) \<and>
     node (GetFromIndex l) \<noteq> None \<and> node (GetToIndex l) \<noteq> None"

definition node_at :: "nat option list \<Rightarrow> u32 \<Rightarrow> nat option" where
  "node_at nodes v = (if unat v < length nodes then nodes ! unat v else None)"

text \<open>Different indices have different nodes.\<close>

definition nodes_distinct :: "nat \<Rightarrow> nat option list \<Rightarrow> bool" where
  "nodes_distinct n nodes \<longleftrightarrow>
     (\<forall>i < length nodes. \<forall>a. nodes ! i = Some a \<longrightarrow> a < n \<and> (\<forall>j < length nodes. nodes ! j = Some a \<longrightarrow> i = j))"

definition reader_inv :: "reader \<Rightarrow> nat option list \<Rightarrow> bool" where
  "reader_inv r nodes \<longleftrightarrow>
     (\<forall>v. ports_of (m_links r) v = map of_nat [0..<length (ports_of (m_links r) v)]) \<and>
     (\<forall>v. port_count r v = of_nat (length (ports_of (m_links r) v))) \<and>
     list_all2 link_matches (m_linksList r) (m_links r) \<and>
     (\<forall>l \<in> set (m_linksList r). ends_are (node_at nodes) l) \<and>
     nodes_distinct (next_node r) nodes"

lemma node_at_update: "unat v < length nodes \<Longrightarrow> node_at (nodes[unat v := x]) w = (if w = v then x else node_at nodes w)"
  by (auto simp: node_at_def nth_list_update dest!: unsigned_word_eqI)

lemma nodes_distinct_update:
  assumes "nodes_distinct n nodes" "nodes ! k = None" "k < length nodes"
  shows "nodes_distinct (n + 1) (nodes[k := Some n])"
  unfolding nodes_distinct_def
proof (intro allI impI conjI)
  fix i a assume i: "i < length (nodes[k := Some n])" and a: "nodes[k := Some n] ! i = Some a"
  have old: "a < n" if "i \<noteq> k" using assms(1) i a that by (simp add: nodes_distinct_def)
  then show "a < n + 1" using a assms(3) by (cases "i = k") auto
  fix j assume j: "j < length (nodes[k := Some n])" and b: "nodes[k := Some n] ! j = Some a"
  have "b < n" if "nodes ! m = Some b" "m < length nodes" for b m using assms(1) that by (simp add: nodes_distinct_def)
  then have "a < n" if "j \<noteq> k" using j b that by auto
  with old show "i = j" using assms i j a b
    by (cases "i = k"; cases "j = k") (auto simp: nodes_distinct_def)
qed

lemma CreateNodeIfNeeded_cases:
  assumes "CreateNodeIfNeeded r nodes v = (r', Inr nodes')"
  shows "unat v < length nodes \<and> length nodes' = length nodes \<and>
    (\<forall>w. node_at nodes w \<noteq> None \<longrightarrow> node_at nodes' w = node_at nodes w) \<and> node_at nodes' v \<noteq> None \<and>
    (nodes_distinct (next_node r) nodes \<longrightarrow> nodes_distinct (next_node r') nodes') \<and>
    (\<exists>n. r' = r\<lparr>next_node := n\<rparr>)"
proof -
  have l: "unat v < length nodes" using assms by (auto simp: CreateNodeIfNeeded_def split: if_splits)
  show ?thesis
  proof (cases "nodes ! unat v")
    case None
    then have "r' = r\<lparr>next_node := next_node r + 1\<rparr>" "nodes' = nodes[unat v := Some (next_node r)]"
      using assms by (auto simp: CreateNodeIfNeeded_def split: if_splits)
    moreover have "node_at nodes v = None" using None l by (simp add: node_at_def)
    ultimately show ?thesis
      using l nodes_distinct_update [OF _ None l] by (auto simp: node_at_update)
  next
    case (Some a)
    then have "r' = r" "nodes' = nodes" using assms by (auto simp: CreateNodeIfNeeded_def split: if_splits)
    with Some l show ?thesis by (auto simp: node_at_def intro!: exI [of _ "next_node r"])
  qed
qed

lemma count_port_cases:
  assumes "count_port r v = (r', p)"
  shows "p = port_count r v \<and> (\<forall>w. port_count r' w = port_count r w + (if w = v then 1 else 0)) \<and>
    (\<exists>m. r' = r\<lparr>m_portCounter := m\<rparr>)"
  using assms by (auto simp: count_port_def port_count_def Let_def split: option.splits)

lemma ports_of_snoc: "ports_of (ls @ [l]) v = ports_of ls v @ link_ports v l"
  by (simp add: ports_of_def)


lemma ends_are_mono:
  assumes "ends_are f l" "\<And>w. f w \<noteq> None \<Longrightarrow> g w = f w"
  shows "ends_are g l"
  using assms by (auto simp: ends_are_def)

lemma consecutive_snoc:
  assumes "xs = map of_nat [0..<length xs]" "p = of_nat (length xs)"
  shows "xs @ [p :: u32] = map of_nat [0..<length (xs @ [p])]"
  using assms by simp

lemma read_link_inv:
  assumes L: "read_link r nodes (v, vt, w, wt, dr, dl) = (r', Inr nodes')" and I: "reader_inv r nodes"
  shows "reader_inv r' nodes' \<and> length nodes' = length nodes \<and>
    m_fileName r' = m_fileName r \<and> m_hosts r' = m_hosts r \<and> m_switches r' = m_switches r \<and> m_switchNetFunc r' = m_switchNetFunc r"
proof -
  obtain r1 n1 where c1: "CreateNodeIfNeeded r nodes v = (r1, Inr n1)"
    using L by (auto simp: read_link_def split: prod.splits sum.splits)
  obtain c2: "CreateNodeIfNeeded r1 n1 w = (fst (CreateNodeIfNeeded r1 n1 w), Inr nodes')"
    using L c1 by (auto simp: read_link_def Let_def split: prod.splits sum.splits)
  define r2 where "r2 = fst (CreateNodeIfNeeded r1 n1 w)"
  note c2 = c2 [folded r2_def]
  obtain r3 p where p: "count_port r2 v = (r3, p)" by fastforce
  obtain r4 q where q: "count_port r3 w = (r4, q)" by fastforce
  note C1 = CreateNodeIfNeeded_cases [OF c1] and C2 = CreateNodeIfNeeded_cases [OF c2]
  note P = count_port_cases [OF p] and Q = count_port_cases [OF q]
  define i where "i = \<lparr>fromIndex = v, fromType = vt, toIndex = w, toType = wt, dataRate = dr, delay = dl, fromPort = p, toPort = q\<rparr>"
  define k where "k = SetLinkAttribute (SetLinkAttribute (new_topo_link (nodes' ! unat v) v vt (nodes' ! unat w) w wt) ''DataRate'' dr) ''Delay'' dl"
  have r': "r' = r4\<lparr>m_linksList := m_linksList r4 @ [k], m_links := m_links r4 @ [i]\<rparr>"
    using L c1 c2 p q by (simp add: read_link_def Let_def AddLinkBetweenNodes_def AddLink_def i_def k_def)
  obtain a where a: "r1 = r\<lparr>next_node := a\<rparr>" using C1 by blast
  obtain b where b: "r2 = r1\<lparr>next_node := b\<rparr>" using C2 by blast
  obtain m where m: "r3 = r2\<lparr>m_portCounter := m\<rparr>" using P by blast
  obtain m' where m': "r4 = r3\<lparr>m_portCounter := m'\<rparr>" using Q by blast
  have same: "m_links r4 = m_links r" "m_linksList r4 = m_linksList r" "m_fileName r4 = m_fileName r" "m_hosts r4 = m_hosts r"
    "m_switches r4 = m_switches r" "m_switchNetFunc r4 = m_switchNetFunc r" "next_node r4 = next_node r2"
    unfolding m' m b a by simp_all
  have pc: "port_count r2 u = port_count r u" for u unfolding b a by (simp add: port_count_def)
  have I': "ports_of (m_links r) u = map of_nat [0..<length (ports_of (m_links r) u)]"
    "port_count r u = of_nat (length (ports_of (m_links r) u))" for u
    using I by (simp_all add: reader_inv_def)
  have pq: "p = of_nat (length (ports_of (m_links r) v))"
    "q = of_nat (length (ports_of (m_links r) w) + (if w = v then 1 else 0))"
    using P Q pc I'(2) by simp_all
  have ports: "ports_of (m_links r') u = map of_nat [0..<length (ports_of (m_links r') u)]" for u
    using I'(1) [of u] pq by (auto simp: r' same ports_of_snoc link_ports_def i_def)
  have counts: "port_count r' u = of_nat (length (ports_of (m_links r') u))" for u
  proof -
    have "port_count r' u = port_count r4 u" by (simp add: r' port_count_def)
    then show ?thesis using P Q pc I'(2) by (auto simp: r' same ports_of_snoc link_ports_def i_def)
  qed
  have keep: "node_at nodes u \<noteq> None \<Longrightarrow> node_at nodes' u = node_at nodes u" for u using C1 C2 by metis
  have at: "node_at nodes' u = nodes' ! unat u" if "u = v \<or> u = w" for u
    using that C1 C2 by (auto simp: node_at_def)
  have some: "node_at nodes' v \<noteq> None" "node_at nodes' w \<noteq> None" using C1 C2 by metis+
  have k: "link_matches k i" "ends_are (node_at nodes') k"
    using some at
    by (simp_all add: k_def i_def link_matches_def ends_are_def SetLinkAttribute_def new_topo_link_def GetFromIndex_def
        GetToIndex_def GetFromType_def GetToType_def GetLinkAttribute_def GetFromNode_def GetToNode_def)
  have "reader_inv r' nodes'"
    unfolding reader_inv_def
  proof (intro conjI allI ballI)
    fix u
    show "ports_of (m_links r') u = map of_nat [0..<length (ports_of (m_links r') u)]" by (rule ports)
    show "port_count r' u = of_nat (length (ports_of (m_links r') u))" by (rule counts)
  next
    show "list_all2 link_matches (m_linksList r') (m_links r')"
      using I k(1) by (simp add: r' same reader_inv_def list_all2_appendI)
  next
    fix l assume "l \<in> set (m_linksList r')"
    then show "ends_are (node_at nodes') l"
      using I k(2) ends_are_mono [OF _ keep] by (auto simp: r' same reader_inv_def)
  next
    show "nodes_distinct (next_node r') nodes'"
      using I C1 C2 same by (simp add: r' reader_inv_def)
  qed
  then show ?thesis using C1 C2 same by (simp add: r')
qed


definition same_rest :: "reader \<Rightarrow> reader \<Rightarrow> bool" where
  "same_rest r r' \<longleftrightarrow> m_fileName r' = m_fileName r \<and> m_hosts r' = m_hosts r \<and> m_switches r' = m_switches r \<and>
     m_switchNetFunc r' = m_switchNetFunc r"

lemma read_links_inv:
  assumes "read_links n r f nodes = (r', Inr (f', nodes'))" "reader_inv r nodes"
  shows "reader_inv r' nodes' \<and> length nodes' = length nodes \<and> same_rest r r'"
  using assms
proof (induction n arbitrary: r f nodes)
  case 0
  then show ?case by (simp add: same_rest_def)
next
  case (Suc n)
  show ?case
  proof (cases "if_eof f")
    case True
    then show ?thesis using Suc.prems by (simp add: same_rest_def)
  next
    case False
    obtain f1 line where g: "getline f = (f1, line)" by fastforce
    show ?thesis
    proof (cases line)
      case None
      then show ?thesis using Suc.prems g False by (simp add: same_rest_def)
    next
      case (Some l)
      show ?thesis
      proof (cases "parse_link l")
        case None
        then show ?thesis using Suc.prems Suc.IH g False Some by simp
      next
        case (Some x)
        obtain v vt w wt dr dl where x: "x = (v, vt, w, wt, dr, dl)" by (metis prod_cases6)
        obtain r1 n1 where rl: "read_link r nodes x = (r1, Inr n1)" "read_links n r1 f1 n1 = (r', Inr (f', nodes'))"
          using Suc.prems(1) g False \<open>line = Some l\<close> Some by (auto split: prod.splits sum.splits)
        note R = read_link_inv [OF rl(1) [unfolded x] Suc.prems(2)]
        then show ?thesis using Suc.IH [OF rl(2)] by (simp add: same_rest_def)
      qed
    qed
  qed
qed

lemma read_functions_frame:
  assumes "read_functions n r f = (r', res)"
  shows "\<exists>fs. r' = r\<lparr>m_switchNetFunc := fs\<rparr> \<and> length fs = length (m_switchNetFunc r)"
  using assms
proof (induction n arbitrary: r f)
  case 0
  then show ?case by (auto intro!: exI [of _ "m_switchNetFunc r"])
next
  case (Suc n)
  have self: "\<exists>fs. r = r\<lparr>m_switchNetFunc := fs\<rparr> \<and> length fs = length (m_switchNetFunc r)"
    by (rule exI [of _ "m_switchNetFunc r"]) simp
  obtain f1 line where g: "getline f = (f1, line)" by fastforce
  show ?case
  proof (cases "\<not> if_eof f \<and> (\<exists>l i nf. line = Some l \<and> parse_function l = Some (i, nf) \<and> 0 \<le> i \<and> i < int (length (m_switchNetFunc r)))")
    case True
    then obtain l i nf where l: "line = Some l" "parse_function l = Some (i, nf)" "0 \<le> i" "i < int (length (m_switchNetFunc r))" by blast
    have "read_functions n (r\<lparr>m_switchNetFunc := (m_switchNetFunc r)[nat i := nf]\<rparr>) f1 = (r', res)"
      using Suc.prems True g l by simp
    from Suc.IH [OF this] show ?thesis by auto
  next
    case False
    then have "r' = r" using Suc.prems g by (auto split: if_splits option.splits)
    then show ?thesis using self by simp
  qed
qed

lemma reader_inv_functions: "reader_inv (r\<lparr>m_switchNetFunc := fs\<rparr>) nodes \<longleftrightarrow> reader_inv r nodes"
  by (simp add: reader_inv_def port_count_def)

lemma reader_inv_start: "reader_inv (SetFileName (P4TopologyReader n) name) (replicate k None)"
  by (simp add: reader_inv_def SetFileName_def P4TopologyReader_def ports_of_def port_count_def nodes_distinct_def)

text \<open>What a successful reading has gone through.\<close>

lemma Read_True:
  assumes "Read fs r = (r', Inr True)"
  obtains cont f line sw ho ln f2 r2 nodes r3 where
    "fs (GetFileName r) = Some cont" "getline (open_file cont) = (f, Some line)" "parse_sizes line = Some (sw, ho, ln)"
    "0 \<le> sw + ho" "read_links (nat ln) r f (replicate (nat (sw + ho)) None) = (r2, Inr (f2, nodes))"
    "ReadSwitchNetworkFunctions r2 f2 sw = (r3, Inr True)" "AddNodesToContainers r3 nodes sw ho = (r', Inr ())"
  using assms
  by (auto simp: Read_def finish_read_def resize_to_def split: option.splits prod.splits sum.splits if_splits bool.splits)

lemma read_consistent:
  assumes "Read fs (SetFileName (P4TopologyReader n) name) = (r, Inr True)"
  shows "(\<forall>v. ports_of (m_links r) v = map of_nat [0..<length (ports_of (m_links r) v)]) \<and>
    list_all2 link_matches (m_linksList r) (m_links r) \<and>
    (\<forall>l \<in> set (m_linksList r). ends_are (node_at (m_switches r @ m_hosts r)) l) \<and>
    nodes_distinct (next_node r) (m_switches r @ m_hosts r)"
proof -
  obtain cont f line sw ho ln f2 r2 nodes r3 where "fs (GetFileName (SetFileName (P4TopologyReader n) name)) = Some cont" and "getline (open_file cont) = (f, Some line)" and "parse_sizes line = Some (sw, ho, ln)" and A: "0 \<le> sw + ho"
    "read_links (nat ln) (SetFileName (P4TopologyReader n) name) f (replicate (nat (sw + ho)) None) = (r2, Inr (f2, nodes))"
    "ReadSwitchNetworkFunctions r2 f2 sw = (r3, Inr True)" "AddNodesToContainers r3 nodes sw ho = (r, Inr ())"
    by (rule Read_True [OF assms])
  note L = read_links_inv [OF A(2) reader_inv_start]
  have "0 \<le> sw" using A(3) by (auto simp: ReadSwitchNetworkFunctions_def resize_to_def split: if_splits)
  obtain fs' where r3: "r3 = r2\<lparr>m_switchNetFunc := fs'\<rparr>"
  proof -
    obtain x where "read_functions (nat sw) (r2\<lparr>m_switchNetFunc := x\<rparr>) f2 = (r3, Inr True)"
      using A(3) by (auto simp: ReadSwitchNetworkFunctions_def split: sum.splits)
    from read_functions_frame [OF this] that show ?thesis by auto
  qed
  have inv: "reader_inv r3 nodes" using L by (simp add: r3 reader_inv_functions)
  have len: "length nodes = nat (sw + ho)" using L by simp
  have none: "m_hosts r3 = [] \<and> m_switches r3 = []"
    using L by (simp add: r3 same_rest_def SetFileName_def P4TopologyReader_def)
  have c: "\<not> (length nodes < nat sw \<or> ho > 0 \<and> (sw + ho > int (length nodes) \<or> sw < 0))"
    "r = r3\<lparr>m_switches := m_switches r3 @ take (nat sw) nodes, m_hosts := m_hosts r3 @ take (nat ho) (drop (nat sw) nodes)\<rparr>"
    using A(4) by (auto simp: AddNodesToContainers_def split: if_splits)
  have "nodes = m_switches r @ m_hosts r"
    using c len none A(1) \<open>0 \<le> sw\<close> by (auto simp: take_all)
  then show ?thesis using inv by (simp add: c(2) reader_inv_def)
qed

text \<open>C21. A topology that was read is consistent. The ports that its links give to a node are numbered from 0,
  without gaps or repetitions, in the order of the file. The list of links agrees with the list of
  descriptions. Both ends of each link are nodes in the containers of switches and hosts, at the
  place of their index, and no node stands at two places.\<close>

theorem read_topology_consistent:
  assumes "Read fs (SetFileName (P4TopologyReader n) name) = (r, Inr True)"
  shows "(\<forall>v. ports_of (m_links r) v = map of_nat [0..<length (ports_of (m_links r) v)]) \<and>
    list_all2 link_matches (m_linksList r) (m_links r) \<and>
    (\<forall>l \<in> set (m_linksList r). ends_are (node_at (m_switches r @ m_hosts r)) l) \<and>
    nodes_distinct (next_node r) (m_switches r @ m_hosts r)"
  by (rule read_consistent [OF assms])

subsection \<open>Reading what was written\<close>

type_synonym link_fields = "u32 \<times> char \<times> u32 \<times> char \<times> string \<times> string"

fun link_text :: "link_fields \<Rightarrow> string" where
  "link_text (v, vt, w, wt, dr, dl) =
     dec (unat v) @ '' '' @ [vt] @ '' '' @ dec (unat w) @ '' '' @ [wt] @ '' '' @ dr @ '' '' @ dl"

definition function_text :: "nat \<times> string \<Rightarrow> string" where
  "function_text x = dec (fst x) @ '' '' @ snd x"

definition header_text :: "nat \<Rightarrow> nat \<Rightarrow> nat \<Rightarrow> string" where
  "header_text sw ho lk = dec sw @ '' '' @ dec ho @ '' '' @ dec lk"

definition topology_text :: "nat \<Rightarrow> nat \<Rightarrow> link_fields list \<Rightarrow> string list \<Rightarrow> string" where
  "topology_text sw ho ls fs =
     unlines (header_text sw ho (length ls) # map link_text ls @ map function_text (enumerate 0 fs))"

text \<open>A link that the format can express, between two of \<open>n\<close> nodes.\<close>

fun link_ok :: "nat \<Rightarrow> link_fields \<Rightarrow> bool" where
  "link_ok n (v, vt, w, wt, dr, dl) \<longleftrightarrow>
     unat v < n \<and> unat w < n \<and> \<not> isspace vt \<and> \<not> isspace wt \<and> word dr \<and> word dl"

definition link_fields :: "LinkInfo \<Rightarrow> link_fields" where
  "link_fields i = (fromIndex i, fromType i, toIndex i, toType i, dataRate i, delay i)"

lemma not_isdigit_space [simp]: "\<not> isdigit CHR '' ''"
  by (simp add: isdigit_def code_def)

lemma parse_link_text: "link_ok n l \<Longrightarrow> parse_link (link_text l) = Some l"
proof (induction l rule: link_text.induct)
  case (1 v vt w wt dr dl)
  have u: "get_uint (dec (unat v) @ CHR '' '' # s) = Some (v, CHR '' '' # s)" for v s
    by (rule get_uint_dec) simp
  have "get_word (dr @ CHR '' '' # s) = Some (dr, CHR '' '' # s)" for s
    using 1 by (intro get_word_word) simp_all
  moreover have "get_word dl = Some (dl, [])" using 1 get_word_word [of dl "[]"] by simp
  ultimately show ?case using 1 by (simp add: parse_link_def u get_char_visible)
qed

lemma parse_function_text:
  assumes "i < 2 ^ 31" "word nf"
  shows "parse_function (function_text (i, nf)) = Some (int i, nf)"
  using get_int_dec [of i "CHR '' '' # nf"] get_word_word [of nf "[]"] assms
  by (simp add: parse_function_def function_text_def)

lemma parse_header_text:
  assumes "sw < 2 ^ 31" "ho < 2 ^ 31" "lk < 2 ^ 31"
  shows "parse_sizes (header_text sw ho lk) = Some (int sw, int ho, int lk)"
  using get_int_dec [of sw "CHR '' '' # dec ho @ CHR '' '' # dec lk"] get_int_dec [of ho "CHR '' '' # dec lk"]
    get_int_dec [of lk "[]"] assms
  by (simp add: parse_sizes_def header_text_def)

lemma no_newline_texts:
  "link_ok n l \<Longrightarrow> newline \<notin> set (link_text l)" "word nf \<Longrightarrow> newline \<notin> set (function_text (i, nf))" "newline \<notin> set (header_text sw ho lk)"
proof -
  have s: "newline \<noteq> CHR '' ''" by (simp add: newline_def)
  show "newline \<notin> set (link_text l)" if "link_ok n l"
    using that s dec_no_newline word_no_newline isspace_newline(1) by (cases l rule: link_text.cases) fastforce
  show "newline \<notin> set (function_text (i, nf))" if "word nf"
    using that s dec_no_newline word_no_newline by (simp add: function_text_def)
  show "newline \<notin> set (header_text sw ho lk)" using s dec_no_newline by (simp add: header_text_def)
qed

lemma CreateNodeIfNeeded_ok:
  assumes "unat v < length nodes" "length nodes < 2 ^ 31"
  obtains r' nodes' where "CreateNodeIfNeeded r nodes v = (r', Inr nodes')"
  using assms by (cases "nodes ! unat v") (auto simp: CreateNodeIfNeeded_def)

lemma read_link_ok:
  assumes ok: "link_ok (length nodes) l" and n: "length nodes < 2 ^ 31"
  shows "\<exists>r' nodes'. read_link r nodes l = (r', Inr nodes') \<and> length nodes' = length nodes \<and>
    map link_fields (m_links r') = map link_fields (m_links r) @ [l] \<and> same_rest r r'"
proof -
  obtain v vt w wt dr dl where l: "l = (v, vt, w, wt, dr, dl)" by (metis prod_cases6)
  obtain r1 n1 where c1: "CreateNodeIfNeeded r nodes v = (r1, Inr n1)"
    by (rule CreateNodeIfNeeded_ok [of v nodes r]) (use ok n l in simp_all)
  note C1 = CreateNodeIfNeeded_cases [OF c1]
  obtain r2 n2 where c2: "CreateNodeIfNeeded r1 n1 w = (r2, Inr n2)"
    by (rule CreateNodeIfNeeded_ok [of w n1 r1]) (use ok n l C1 in simp_all)
  note C2 = CreateNodeIfNeeded_cases [OF c2]
  obtain r3 p where p: "count_port r2 v = (r3, p)" by fastforce
  obtain r4 q where q: "count_port r3 w = (r4, q)" by fastforce
  note P = count_port_cases [OF p] and Q = count_port_cases [OF q]
  obtain a where a: "r1 = r\<lparr>next_node := a\<rparr>" using C1 by blast
  obtain b where b: "r2 = r1\<lparr>next_node := b\<rparr>" using C2 by blast
  obtain m where m: "r3 = r2\<lparr>m_portCounter := m\<rparr>" using P by blast
  obtain m' where m': "r4 = r3\<lparr>m_portCounter := m'\<rparr>" using Q by blast
  show ?thesis
    using C1 C2 c1 c2 p q
    by (simp add: l read_link_def AddLinkBetweenNodes_def AddLink_def Let_def link_fields_def same_rest_def m' m b a)
qed

lemma same_rest_trans: "same_rest a b \<Longrightarrow> same_rest b c \<Longrightarrow> same_rest a c"
  by (simp add: same_rest_def)

lemma read_links_text:
  assumes "\<forall>l \<in> set ls. link_ok (length nodes) l" "length nodes < 2 ^ 31"
  shows "\<exists>r' nodes'. read_links (length ls + m) r \<lparr>if_rest = unlines (map link_text ls) @ rest, if_eof = False\<rparr> nodes =
      read_links m r' \<lparr>if_rest = rest, if_eof = False\<rparr> nodes' \<and>
    length nodes' = length nodes \<and> map link_fields (m_links r') = map link_fields (m_links r) @ ls \<and> same_rest r r'"
  using assms
proof (induction ls arbitrary: r nodes)
  case Nil
  then show ?case by (intro exI [of _ r] exI [of _ nodes]) (simp add: same_rest_def)
next
  case (Cons l ls)
  have ok: "link_ok (length nodes) l" using Cons.prems by simp
  obtain r1 n1 where r1: "read_link r nodes l = (r1, Inr n1)" "length n1 = length nodes"
    "map link_fields (m_links r1) = map link_fields (m_links r) @ [l]" "same_rest r r1"
    using read_link_ok [OF ok Cons.prems(2)] by blast
  have "\<forall>k \<in> set ls. link_ok (length n1) k" "length n1 < 2 ^ 31" using Cons.prems r1(2) by simp_all
  from Cons.IH [OF this, of r1] obtain r2 n2 where r2:
    "read_links (length ls + m) r1 \<lparr>if_rest = unlines (map link_text ls) @ rest, if_eof = False\<rparr> n1 =
      read_links m r2 \<lparr>if_rest = rest, if_eof = False\<rparr> n2" "length n2 = length n1"
    "map link_fields (m_links r2) = map link_fields (m_links r1) @ ls" "same_rest r1 r2" by blast
  have g: "getline \<lparr>if_rest = link_text l @ newline # unlines (map link_text ls) @ rest, if_eof = False\<rparr> =
      (\<lparr>if_rest = unlines (map link_text ls) @ rest, if_eof = False\<rparr>, Some (link_text l))"
    by (rule getline_line) (rule no_newline_texts(1) [OF ok])
  show ?case
  proof (intro exI conjI)
    show "read_links (length (l # ls) + m) r \<lparr>if_rest = unlines (map link_text (l # ls)) @ rest, if_eof = False\<rparr> nodes =
        read_links m r2 \<lparr>if_rest = rest, if_eof = False\<rparr> n2"
      using g r1(1) r2(1) parse_link_text [OF ok] by simp
    show "length n2 = length nodes" "map link_fields (m_links r2) = map link_fields (m_links r) @ l # ls"
      using r1 r2 by simp_all
    show "same_rest r r2" using r1(4) r2(4) by (rule same_rest_trans)
  qed
qed

lemma read_functions_text:
  assumes "\<forall>f \<in> set fs. word f" "k + length fs \<le> length (m_switchNetFunc r)" "length (m_switchNetFunc r) < 2 ^ 31"
  shows "read_functions (length fs) r \<lparr>if_rest = unlines (map function_text (enumerate k fs)), if_eof = False\<rparr> =
    (r\<lparr>m_switchNetFunc := take k (m_switchNetFunc r) @ fs @ drop (k + length fs) (m_switchNetFunc r)\<rparr>, Inr True)"
  using assms
proof (induction fs arbitrary: k r)
  case Nil
  then show ?case by simp
next
  case (Cons f fs)
  let ?g = "m_switchNetFunc r"
  have w: "word f" and k: "k < length ?g" "k < 2 ^ 31" using Cons.prems by simp_all
  define r1 where "r1 = r\<lparr>m_switchNetFunc := ?g[k := f]\<rparr>"
  have g: "getline \<lparr>if_rest = function_text (k, f) @ newline # s, if_eof = False\<rparr> = (\<lparr>if_rest = s, if_eof = False\<rparr>, Some (function_text (k, f)))" for s
    by (rule getline_line) (rule no_newline_texts(2) [OF w])
  have "read_functions (length (f # fs)) r \<lparr>if_rest = unlines (map function_text (enumerate k (f # fs))), if_eof = False\<rparr> =
      read_functions (length fs) r1 \<lparr>if_rest = unlines (map function_text (enumerate (Suc k) fs)), if_eof = False\<rparr>"
    using g k parse_function_text [OF k(2) w] by (simp add: r1_def)
  also have "\<dots> = (r1\<lparr>m_switchNetFunc := take (Suc k) (m_switchNetFunc r1) @ fs @ drop (Suc k + length fs) (m_switchNetFunc r1)\<rparr>, Inr True)"
    by (rule Cons.IH) (use Cons.prems in \<open>simp_all add: r1_def\<close>)
  also have "take (Suc k) (m_switchNetFunc r1) = take k ?g @ [f]"
    using k by (simp add: r1_def take_Suc_conv_app_nth)
  finally show ?case by (simp add: r1_def)
qed

lemma Read_header:
  assumes fs: "fs (m_fileName r) = Some (unlines (header_text sw ho lk # map link_text ls) @ rest)"
    and ok: "\<forall>l \<in> set ls. link_ok (sw + ho) l" and b: "sw + ho < 2 ^ 31" "lk < 2 ^ 31" "length ls \<le> lk"
  obtains r1 nodes where "length nodes = sw + ho" "map link_fields (m_links r1) = map link_fields (m_links r) @ ls" "same_rest r r1"
    "Read fs r =
       (case read_links (lk - length ls) r1 \<lparr>if_rest = rest, if_eof = False\<rparr> nodes of
          (r, Inl e) \<Rightarrow> (r, Inl e)
        | (r, Inr (f, nodes)) \<Rightarrow> finish_read r f nodes (int sw) (int ho))"
proof -
  have g: "getline (open_file (header_text sw ho lk @ newline # s)) = (\<lparr>if_rest = s, if_eof = False\<rparr>, Some (header_text sw ho lk))" for s
    unfolding open_file_def by (rule getline_line) (rule no_newline_texts(3))
  have p: "parse_sizes (header_text sw ho lk) = Some (int sw, int ho, int lk)"
    by (rule parse_header_text) (use b in simp_all)
  have z: "resize_to (None :: nat option) [] (int sw + int ho) = Inr (replicate (sw + ho) None)"
    by (simp add: resize_to_def nat_int_add)
  have "\<forall>l \<in> set ls. link_ok (length (replicate (sw + ho) (None :: nat option))) l" "length (replicate (sw + ho) (None :: nat option)) < 2 ^ 31"
    using ok b by simp_all
  from read_links_text [OF this, of "lk - length ls" r rest] obtain r1 nodes where R:
    "read_links (length ls + (lk - length ls)) r \<lparr>if_rest = unlines (map link_text ls) @ rest, if_eof = False\<rparr> (replicate (sw + ho) None) =
      read_links (lk - length ls) r1 \<lparr>if_rest = rest, if_eof = False\<rparr> nodes"
    "length nodes = length (replicate (sw + ho) (None :: nat option))" "map link_fields (m_links r1) = map link_fields (m_links r) @ ls"
    "same_rest r r1" by blast
  have i: "\<not> (int sw + int ho \<ge> 2 ^ 31 \<or> int sw + int ho < - (2 ^ 31))" using b(1) by (simp flip: of_nat_add)
  have l: "length ls + (lk - length ls) = lk" using b(3) by simp
  show thesis
  proof (rule that [of nodes r1])
    show "length nodes = sw + ho" using R(2) by simp
    show "map link_fields (m_links r1) = map link_fields (m_links r) @ ls" "same_rest r r1" by (rule R)+
    show "Read fs r = (case read_links (lk - length ls) r1 \<lparr>if_rest = rest, if_eof = False\<rparr> nodes of
          (r, Inl e) \<Rightarrow> (r, Inl e)
        | (r, Inr (f, nodes)) \<Rightarrow> finish_read r f nodes (int sw) (int ho))"
      using R(1) fs g i p z by (simp add: Read_def GetFileName_def l)
  qed
qed

lemma AddNodesToContainers_ok:
  assumes "length nodes = sw + ho"
  shows "\<exists>r'. AddNodesToContainers r nodes (int sw) (int ho) = (r', Inr ()) \<and> m_links r' = m_links r \<and>
    m_switchNetFunc r' = m_switchNetFunc r \<and> m_switches r' = m_switches r @ take sw nodes \<and> m_hosts r' = m_hosts r @ drop sw nodes"
  using assms by (simp add: AddNodesToContainers_def)

lemma read_written_helper:
  assumes "fs name = Some (topology_text sw ho ls nfs)"
    and "\<forall>l \<in> set ls. link_ok (sw + ho) l" "length nfs = sw" "\<forall>f \<in> set nfs. word f"
    and "sw + ho < 2 ^ 31" "length ls < 2 ^ 31"
  shows "\<exists>r. Read fs (SetFileName (P4TopologyReader n) name) = (r, Inr True) \<and> map link_fields (m_links r) = ls \<and>
    m_switchNetFunc r = nfs \<and> length (m_switches r) = sw \<and> length (m_hosts r) = ho"
proof -
  define r0 where "r0 = SetFileName (P4TopologyReader n) name"
  have r0: "m_fileName r0 = name" "m_links r0 = []" "m_switchNetFunc r0 = []" "m_switches r0 = []" "m_hosts r0 = []"
    by (simp_all add: r0_def SetFileName_def P4TopologyReader_def)
  have "fs (m_fileName r0) = Some (unlines (header_text sw ho (length ls) # map link_text ls) @ unlines (map function_text (enumerate 0 nfs)))"
    using assms(1) by (simp add: r0 topology_text_def)
  from Read_header [where fs = fs and r = r0, OF this assms(2,5,6) order_refl] obtain r1 nodes where R:
    "length nodes = sw + ho" "map link_fields (m_links r1) = ls" "same_rest r0 r1"
    "Read fs r0 = finish_read r1 \<lparr>if_rest = unlines (map function_text (enumerate 0 nfs)), if_eof = False\<rparr> nodes (int sw) (int ho)"
    by (simp add: r0) blast
  define r2 where "r2 = r1\<lparr>m_switchNetFunc := replicate sw []\<rparr>"
  have "read_functions (length nfs) r2 \<lparr>if_rest = unlines (map function_text (enumerate 0 nfs)), if_eof = False\<rparr> =
      (r2\<lparr>m_switchNetFunc := take 0 (m_switchNetFunc r2) @ nfs @ drop (0 + length nfs) (m_switchNetFunc r2)\<rparr>, Inr True)"
    by (rule read_functions_text) (use assms in \<open>simp_all add: r2_def\<close>)
  then have F: "ReadSwitchNetworkFunctions r1 \<lparr>if_rest = unlines (map function_text (enumerate 0 nfs)), if_eof = False\<rparr> (int sw) =
      (r1\<lparr>m_switchNetFunc := nfs\<rparr>, Inr True)"
    using R(3) assms(3) by (simp add: ReadSwitchNetworkFunctions_def resize_to_def same_rest_def r0 r2_def)
  obtain r3 where A: "AddNodesToContainers (r1\<lparr>m_switchNetFunc := nfs\<rparr>) nodes (int sw) (int ho) = (r3, Inr ())"
    "m_links r3 = m_links r1" "m_switchNetFunc r3 = nfs" "m_switches r3 = m_switches r1 @ take sw nodes" "m_hosts r3 = m_hosts r1 @ drop sw nodes"
    using AddNodesToContainers_ok [OF R(1), of "r1\<lparr>m_switchNetFunc := nfs\<rparr>"] by auto
  have "Read fs r0 = (r3, Inr True)" using R(4) F A(1) by (simp add: finish_read_def)
  moreover have "length (m_switches r3) = sw" "length (m_hosts r3) = ho"
    using A(4,5) R(1,3) by (simp_all add: same_rest_def r0)
  ultimately show ?thesis using A(2,3) R(2) by (auto simp: r0_def)
qed

text \<open>A topology file that is written in the format is read back: for any links between the nodes, with
  types that are visible characters and data rates and delays that are words, and a function for
  each switch, \<open>Read\<close> succeeds with exactly these links, in order, these functions, and containers of
  the announced sizes.\<close>

theorem read_written_topology:
  assumes "fs name = Some (topology_text sw ho ls nfs)"
    and "\<forall>l \<in> set ls. link_ok (sw + ho) l" "length nfs = sw" "\<forall>f \<in> set nfs. word f"
    and "sw + ho < 2 ^ 31" "length ls < 2 ^ 31"
  shows "\<exists>r. Read fs (SetFileName (P4TopologyReader n) name) = (r, Inr True) \<and> map link_fields (m_links r) = ls \<and>
    m_switchNetFunc r = nfs \<and> length (m_switches r) = sw \<and> length (m_hosts r) = ho"
  by (rule read_written_helper [where fs = fs and name = name, OF assms])

text \<open>A file that ends inside its links is accepted: \<open>Read\<close> still succeeds, with the links that are
  there and an empty function for every switch, because the loop over the functions only looks
  whether the file has ended.\<close>

theorem truncated_topology_accepted:
  assumes "fs name = Some (unlines (header_text sw ho lk # map link_text ls))"
    and "\<forall>l \<in> set ls. link_ok (sw + ho) l" "sw + ho < 2 ^ 31" "lk < 2 ^ 31" "length ls < lk"
  shows "\<exists>r. Read fs (SetFileName (P4TopologyReader n) name) = (r, Inr True) \<and> map link_fields (m_links r) = ls \<and>
    m_switchNetFunc r = replicate sw ''''"
proof -
  define r0 where "r0 = SetFileName (P4TopologyReader n) name"
  have r0: "m_fileName r0 = name" "m_links r0 = []" "m_switchNetFunc r0 = []"
    by (simp_all add: r0_def SetFileName_def P4TopologyReader_def)
  have "fs (m_fileName r0) = Some (unlines (header_text sw ho lk # map link_text ls) @ [])" using assms(1) by (simp add: r0)
  from Read_header [where fs = fs and r = r0, OF this assms(2,3,4) less_imp_le [OF assms(5)]] obtain r1 nodes where R:
    "length nodes = sw + ho" "map link_fields (m_links r1) = map link_fields (m_links r0) @ ls" "same_rest r0 r1"
    "Read fs r0 = (case read_links (lk - length ls) r1 \<lparr>if_rest = [], if_eof = False\<rparr> nodes of
          (r, Inl e) \<Rightarrow> (r, Inl e)
        | (r, Inr (f, nodes)) \<Rightarrow> finish_read r f nodes (int sw) (int ho))" by blast
  obtain k where k: "lk - length ls = Suc k" using assms(5) by (metis Suc_diff_Suc)
  have E: "read_links (lk - length ls) r1 \<lparr>if_rest = [], if_eof = False\<rparr> nodes = (r1, Inr (\<lparr>if_rest = [], if_eof = True\<rparr>, nodes))"
    unfolding k by (simp add: getline_end)
  have F: "ReadSwitchNetworkFunctions r1 \<lparr>if_rest = [], if_eof = True\<rparr> (int sw) = (r1\<lparr>m_switchNetFunc := replicate sw []\<rparr>, Inr True)"
  proof -
    have "read_functions m s \<lparr>if_rest = [], if_eof = True\<rparr> = (s, Inr True)" for m s by (cases m) simp_all
    then show ?thesis using R(3) by (simp add: ReadSwitchNetworkFunctions_def resize_to_def same_rest_def r0)
  qed
  obtain r3 where A: "AddNodesToContainers (r1\<lparr>m_switchNetFunc := replicate sw []\<rparr>) nodes (int sw) (int ho) = (r3, Inr ())"
    "m_links r3 = m_links r1" "m_switchNetFunc r3 = replicate sw []"
    using AddNodesToContainers_ok [OF R(1), of "r1\<lparr>m_switchNetFunc := replicate sw []\<rparr>"] by auto
  have "Read fs r0 = (r3, Inr True)" using R(4) E F A(1) by (simp add: finish_read_def)
  then show ?thesis using A(2,3) R(2) r0(2) by (auto simp: r0_def)
qed

subsection \<open>Example files\<close>

definition ex_links :: "link_fields list" where
  "ex_links = [(0, CHR ''s'', 1, CHR ''s'', ''50Mbps'', ''0.1ms''), (1, CHR ''s'', 2, CHR ''h'', ''1000Mbps'', ''0.01ms'')]"

lemma ex_links_ok: "\<forall>l \<in> set ex_links. link_ok (2 + 1) l"
  by (simp add: ex_links_def word_def isspace_def code_def)

lemma ex_functions_ok: "length [''BASIC'', ''BASIC''] = 2" "\<forall>f \<in> set [''BASIC'', ''BASIC'']. word f"
  by (simp_all add: word_def isspace_def code_def)

definition ex_fs :: "string \<Rightarrow> string option" where
  "ex_fs name =
     (if name = ''topo.txt'' then Some (topology_text 2 1 ex_links [''BASIC'', ''BASIC''])
      else if name = ''cut.txt'' then Some (unlines (header_text 2 1 3 # map link_text ex_links)) else None)"

lemma ex_fs_files [simp]:
  "ex_fs ''topo.txt'' = Some (topology_text 2 1 ex_links [''BASIC'', ''BASIC''])"
  "ex_fs ''cut.txt'' = Some (unlines (header_text 2 1 3 # map link_text ex_links))"
  by (simp_all add: ex_fs_def)

theorem read_written_topology_witness:
  "\<exists>r. Read ex_fs (SetFileName (P4TopologyReader 0) ''topo.txt'') = (r, Inr True) \<and> map link_fields (m_links r) = ex_links \<and>
    m_switchNetFunc r = [''BASIC'', ''BASIC''] \<and> length (m_switches r) = 2 \<and> length (m_hosts r) = 1"
  by (rule read_written_topology [where fs = ex_fs and name = "''topo.txt''", OF ex_fs_files(1) ex_links_ok ex_functions_ok]) (simp_all add: ex_links_def)

theorem truncated_topology_accepted_witness:
  "\<exists>r. Read ex_fs (SetFileName (P4TopologyReader 0) ''cut.txt'') = (r, Inr True) \<and> map link_fields (m_links r) = ex_links \<and>
    m_switchNetFunc r = ['''', '''']"
proof -
  have two: "replicate 2 '''' = ['''', '''']" by (simp add: numeral_2_eq_2)
  show ?thesis
    unfolding two [symmetric]
    by (rule truncated_topology_accepted [where fs = ex_fs and name = "''cut.txt''", OF ex_fs_files(2) ex_links_ok])
      (simp_all add: ex_links_def)
qed

theorem read_topology_consistent_witness:
  "\<exists>r. Read ex_fs (SetFileName (P4TopologyReader 0) ''topo.txt'') = (r, Inr True) \<and>
    ports_of (m_links r) 1 = [0, 1] \<and> list_all2 link_matches (m_linksList r) (m_links r)"
proof -
  obtain r where r: "Read ex_fs (SetFileName (P4TopologyReader 0) ''topo.txt'') = (r, Inr True)" "map link_fields (m_links r) = ex_links"
    using read_written_helper [where fs = ex_fs and name = "''topo.txt''", OF ex_fs_files(1) ex_links_ok ex_functions_ok, where n = 0] by (auto simp: ex_links_def)
  note C = read_topology_consistent [OF r(1)]
  obtain a b where "m_links r = [a, b]" "toIndex a = 1" "fromIndex b = 1" "fromIndex a = 0" "toIndex b = 2"
    using r(2) by (auto simp: ex_links_def link_fields_def)
  then have "length (ports_of (m_links r) 1) = 2" by (simp add: ports_of_def link_ports_def)
  moreover have "ports_of (m_links r) 1 = map of_nat [0..<length (ports_of (m_links r) 1)]" using C by blast
  ultimately have "ports_of (m_links r) 1 = map of_nat [0..<2]" by simp
  also have "\<dots> = [0, 1]" by (simp add: upt_rec)
  finally show ?thesis using r(1) C by blast
qed

end
