(* ===== verification/Fattree_Topo.thy ===== *)
theory Fattree_Topo
  imports Topology_Reader
begin

text \<open>
  The fat-tree generator (\<open>utils/fattree-topo-helper.h\<close>, \<open>utils/fattree-topo-helper.cc\<close>): a tree
  of \<open>podNum\<close> pods is built as a list of links for each switch, and written as a topology file for
  the topology reader. Numbers are \<open>unsigned int\<close>; a switch index outside the vector is undefined
  behaviour. The values of \<open>rand()\<close> are a parameter, \<open>rnd i\<close> being the result of call \<open>i\<close>; seeding it
  from the clock is left out.
\<close>

record LinkNodeTypeIndex_t =
  node_type :: char
  node_index :: u32

record fattree =
  m_switchNum :: u32
  m_terminalNum :: u32
  m_podNum :: u32
  m_coreSwitchNum :: u32
  m_switchLinkNodeTypeIndex :: "LinkNodeTypeIndex_t list list"
  m_topoFileName :: string
  m_linkDataRate :: string
  m_linkDelay :: string
  m_linkNum :: u32

definition SetTopoFileName :: "fattree \<Rightarrow> string \<Rightarrow> fattree" where "SetTopoFileName ft name = ft\<lparr>m_topoFileName := name\<rparr>"
definition GetSwitchNum :: "fattree \<Rightarrow> u32" where "GetSwitchNum ft = m_switchNum ft"
definition GetPodNum :: "fattree \<Rightarrow> u32" where "GetPodNum ft = m_podNum ft"
definition GetTerminalNum :: "fattree \<Rightarrow> u32" where "GetTerminalNum ft = m_terminalNum ft"
definition SetLinkDataRate :: "fattree \<Rightarrow> string \<Rightarrow> fattree" where "SetLinkDataRate ft rate = ft\<lparr>m_linkDataRate := rate\<rparr>"
definition GetLinkDataRate :: "fattree \<Rightarrow> string" where "GetLinkDataRate ft = m_linkDataRate ft"
definition SetLinkDelay :: "fattree \<Rightarrow> string \<Rightarrow> fattree" where "SetLinkDelay ft del = ft\<lparr>m_linkDelay := del\<rparr>"
definition GetLinkDelay :: "fattree \<Rightarrow> string" where "GetLinkDelay ft = m_linkDelay ft"
definition GetLinkNum :: "fattree \<Rightarrow> u32" where "GetLinkNum ft = m_linkNum ft"

text \<open>The decimal digits of a number, each put in front of the ones before.\<close>

fun uint_digits :: "nat \<Rightarrow> string \<Rightarrow> string" where
  "uint_digits n res = (if n = 0 then res else uint_digits (n div 10) (digit_char (n mod 10) # res))"

declare uint_digits.simps [simp del]

definition UintToStr :: "u32 \<Rightarrow> string" where
  "UintToStr temp = (if temp = 0 then ''0'' else uint_digits (unat temp) [])"

subsection \<open>Building the tree\<close>

definition push_link :: "fattree \<Rightarrow> u32 \<Rightarrow> char \<Rightarrow> u32 \<Rightarrow> stop + fattree" where
  "push_link ft switch t i =
     (if length (m_switchLinkNodeTypeIndex ft) \<le> unat switch then Inl Undefined
      else Inr (ft\<lparr>m_switchLinkNodeTypeIndex := (m_switchLinkNodeTypeIndex ft)[unat switch :=
                 m_switchLinkNodeTypeIndex ft ! unat switch @ [\<lparr>node_type = t, node_index = i\<rparr>]]\<rparr>))"

text \<open>A loop whose body can stop.\<close>

fun for_each :: "'x list \<Rightarrow> ('x \<Rightarrow> 's \<Rightarrow> stop + 's) \<Rightarrow> 's \<Rightarrow> stop + 's" where
  "for_each [] body s = Inr s"
| "for_each (x # xs) body s = (case body x s of Inl e \<Rightarrow> Inl e | Inr s \<Rightarrow> for_each xs body s)"

text \<open>In pod \<open>i\<close>, the aggregation switch \<open>j\<close> gets a link to edge switch \<open>p\<close>, and the edge switch \<open>j\<close> to host \<open>p\<close>.\<close>

definition pod_body :: "u32 \<Rightarrow> u32 \<Rightarrow> u32 \<Rightarrow> fattree \<Rightarrow> stop + fattree" where
  "pod_body i j p ft =
     (let halfPodNum = m_podNum ft div 2;
          tmlIndex = m_switchNum ft;
          aggrSwitchIndex = m_coreSwitchNum ft;
          edgeSwitchIndex = 3 * m_coreSwitchNum ft;
          curAggrSwitchIndex = aggrSwitchIndex + i * halfPodNum + j;
          curEdgeSwitchIndex = edgeSwitchIndex + i * halfPodNum + j
      in case push_link ft curAggrSwitchIndex CHR ''s'' (edgeSwitchIndex + i * halfPodNum + p) of
           Inl e \<Rightarrow> Inl e
         | Inr ft \<Rightarrow>
             (case push_link ft curEdgeSwitchIndex CHR ''h'' (tmlIndex + i * m_coreSwitchNum ft + j * halfPodNum + p) of
                Inl e \<Rightarrow> Inl e
              | Inr ft \<Rightarrow> Inr (ft\<lparr>m_linkNum := m_linkNum ft + 2\<rparr>)))"

text \<open>Core switch \<open>i\<close> is linked to one aggregation switch of every pod, the next one in each pod after a random start.\<close>

definition core_body :: "u32 \<Rightarrow> u32 \<Rightarrow> u32 \<times> fattree \<Rightarrow> stop + u32 \<times> fattree" where
  "core_body i j s =
     (let (k, ft) = s;
          halfPodNum = m_podNum ft div 2;
          k = (if k = halfPodNum - 1 then 0 else k + 1);
          curAggrSwitchIndex = m_coreSwitchNum ft + j * halfPodNum + k
      in case push_link ft curAggrSwitchIndex CHR ''s'' i of
           Inl e \<Rightarrow> Inl e
         | Inr ft \<Rightarrow> Inr (k, ft\<lparr>m_linkNum := m_linkNum ft + 1\<rparr>))"

definition uints :: "u32 \<Rightarrow> u32 list" where "uints n = map of_nat [0..<unat n]"

definition BuildTopo :: "(nat \<Rightarrow> u32) \<Rightarrow> fattree \<Rightarrow> u32 \<Rightarrow> stop + fattree" where
  "BuildTopo rnd ft podNum =
     (let core = (podNum div 2) * (podNum div 2);
          ft = ft\<lparr>m_podNum := podNum, m_coreSwitchNum := core, m_switchNum := 5 * core,
                  m_terminalNum := core * podNum,
                  m_switchLinkNodeTypeIndex := take (unat (5 * core)) (m_switchLinkNodeTypeIndex ft) @
                    replicate (unat (5 * core) - length (m_switchLinkNodeTypeIndex ft)) [],
                  m_linkNum := 0\<rparr>;
          halfPodNum = podNum div 2
      in case for_each (uints podNum) (\<lambda>i. for_each (uints halfPodNum) (\<lambda>j. for_each (uints halfPodNum) (pod_body i j))) ft of
           Inl e \<Rightarrow> Inl e
         | Inr ft \<Rightarrow>
             for_each (uints core)
               (\<lambda>i ft. case for_each (uints podNum) (core_body i) (rnd (unat i) mod halfPodNum, ft) of
                         Inl e \<Rightarrow> Inl e
                       | Inr (_, ft) \<Rightarrow> Inr ft) ft)"

definition FattreeTopoHelper :: "(nat \<Rightarrow> u32) \<Rightarrow> u32 \<Rightarrow> string \<Rightarrow> stop + fattree" where
  "FattreeTopoHelper rnd podNum topoFileName =
     (case BuildTopo rnd \<lparr>m_switchNum = 0, m_terminalNum = 0, m_podNum = 0, m_coreSwitchNum = 0,
                          m_switchLinkNodeTypeIndex = [], m_topoFileName = [], m_linkDataRate = [],
                          m_linkDelay = [], m_linkNum = 0\<rparr> podNum of
        Inl e \<Rightarrow> Inl e
      | Inr ft \<Rightarrow> Inr (ft\<lparr>m_topoFileName := topoFileName\<rparr>))"

subsection \<open>Writing the file\<close>

definition topo_line :: "string \<Rightarrow> string \<Rightarrow> nat \<Rightarrow> LinkNodeTypeIndex_t \<Rightarrow> string" where
  "topo_line rate del i l =
     (let toType = (if node_type l = CHR ''s'' then CHR ''s'' else CHR ''h'')
      in dec i @ '' '' @ [CHR ''s''] @ '' '' @ dec (unat (node_index l)) @ '' '' @ [toType] @ '' '' @ rate @ '' '' @ del)"

text \<open>The name of the file and its text.\<close>

definition WriteTopo :: "fattree \<Rightarrow> string \<times> string" where
  "WriteTopo ft =
     (let linkDataRate = (if m_linkDataRate ft = [] then ''1000Mbps'' else m_linkDataRate ft);
          linkDelay = (if m_linkDelay ft = [] then ''0.01ms'' else m_linkDelay ft);
          n = unat (m_switchNum ft);
          header = dec n @ '' '' @ dec (unat (m_terminalNum ft)) @ '' '' @ dec (unat (m_linkNum ft));
          links = concat (map (\<lambda>i. map (topo_line linkDataRate linkDelay i) (m_switchLinkNodeTypeIndex ft ! i)) [0..<n]);
          functions = map (\<lambda>i. dec i @ '' '' @ ''BASIC'') [0..<n]
      in (m_topoFileName ft, unlines (header # links @ functions)))"

definition ShowTopo :: "fattree \<Rightarrow> string" where
  "ShowTopo ft =
     concat (map (\<lambda>i. dec i @ '': '' @
                    concat (map (\<lambda>l. node_type l # '' '' @ dec (unat (node_index l)) @ [newline]) (m_switchLinkNodeTypeIndex ft ! i)) @
                    [newline])
             [0..<unat (m_switchNum ft)])"

subsection \<open>Lists of pushes\<close>

definition pushed :: "'a list list \<Rightarrow> (nat \<times> 'a) list \<Rightarrow> 'a list list" where
  "pushed ls os = foldl (\<lambda>ls (s, l). ls[s := ls ! s @ [l]]) ls os"

lemma pushed_simps [simp]: "pushed ls [] = ls" "pushed ls ((s, l) # os) = pushed (ls[s := ls ! s @ [l]]) os"
  by (simp_all add: pushed_def)

lemma length_pushed [simp]: "length (pushed ls os) = length ls"
  by (induction os arbitrary: ls) auto

lemma pushed_append: "pushed ls (os @ ps) = pushed (pushed ls os) ps"
  by (simp add: pushed_def)

lemma nth_pushed: "s < length ls \<Longrightarrow> pushed ls os ! s = ls ! s @ map snd (filter (\<lambda>x. fst x = s) os)"
proof (induction os arbitrary: ls)
  case (Cons x os)
  then show ?case by (cases x) (auto simp: nth_list_update)
qed simp

text \<open>A tree whose links were pushed, each counted.\<close>

definition add_links :: "fattree \<Rightarrow> (nat \<times> LinkNodeTypeIndex_t) list \<Rightarrow> fattree" where
  "add_links ft os =
     ft\<lparr>m_switchLinkNodeTypeIndex := pushed (m_switchLinkNodeTypeIndex ft) os, m_linkNum := m_linkNum ft + of_nat (length os)\<rparr>"

lemma add_links_Nil [simp]: "add_links ft [] = ft"
  by (simp add: add_links_def)

lemma add_links_append: "add_links (add_links ft os) ps = add_links ft (os @ ps)"
  by (simp add: add_links_def pushed_append)

text \<open>The sizes of a tree with half of its pod number \<open>h\<close>.\<close>

definition shape :: "nat \<Rightarrow> fattree \<Rightarrow> bool" where
  "shape h ft \<longleftrightarrow> m_podNum ft div 2 = of_nat h \<and> m_coreSwitchNum ft = of_nat (h * h) \<and>
     m_switchNum ft = of_nat (5 * (h * h)) \<and> length (m_switchLinkNodeTypeIndex ft) = 5 * (h * h)"

lemma shape_add_links [simp]: "shape h (add_links ft os) = shape h ft"
  by (simp add: shape_def add_links_def)

lemma for_each_links:
  assumes "\<And>x ft. x \<in> set xs \<Longrightarrow> shape h ft \<Longrightarrow> body (f x) ft = Inr (add_links ft (ops x))" "shape h ft"
  shows "for_each (map f xs) body ft = Inr (add_links ft (concat (map ops xs)))"
  using assms by (induction xs arbitrary: ft) (simp_all add: add_links_append)

lemma for_each_append:
  "for_each (xs @ ys) body s = (case for_each xs body s of Inl e \<Rightarrow> Inl e | Inr s \<Rightarrow> for_each ys body s)"
  by (induction xs arbitrary: s) (simp_all split: sum.splits)

subsection \<open>The loops as lists of pushes\<close>

abbreviation node :: "char \<Rightarrow> nat \<Rightarrow> LinkNodeTypeIndex_t" where
  "node t i \<equiv> \<lparr>node_type = t, node_index = of_nat i\<rparr>"

definition pod_ops :: "nat \<Rightarrow> nat \<Rightarrow> nat \<Rightarrow> nat \<Rightarrow> (nat \<times> LinkNodeTypeIndex_t) list" where
  "pod_ops h i j p =
     [(h * h + i * h + j, node CHR ''s'' (3 * (h * h) + i * h + p)),
      (3 * (h * h) + i * h + j, node CHR ''h'' (5 * (h * h) + i * (h * h) + j * h + p))]"

definition core_op :: "nat \<Rightarrow> nat \<Rightarrow> nat \<Rightarrow> nat \<Rightarrow> nat \<times> LinkNodeTypeIndex_t" where
  "core_op h k c j = (h * h + j * h + (k + Suc j) mod h, node CHR ''s'' c)"

lemma pod_index:
  fixes h :: nat
  assumes "i < 2 * h" "j < h"
  shows "i * h + j < 2 * (h * h)"
proof -
  have "i * h + j < i * h + h" using assms(2) by simp
  also have "\<dots> = Suc i * h" by simp
  also have "\<dots> \<le> (2 * h) * h" using assms(1) by (intro mult_le_mono1) simp
  finally show ?thesis by (simp add: mult.assoc)
qed

lemma half_squared:
  fixes h :: nat
  assumes "h \<le> 700"
  shows "h * h \<le> 490000"
  using mult_le_mono [OF assms assms] by simp

lemma unat_u32: "n < 2 ^ 32 \<Longrightarrow> unat (of_nat n :: u32) = n"
  by (simp add: unat_of_nat take_bit_nat_eq_self)

lemma of_nat_u32_eq: "a < 2 ^ 32 \<Longrightarrow> b < 2 ^ 32 \<Longrightarrow> of_nat a = (of_nat b :: u32) \<longleftrightarrow> a = b"
  by (metis unat_u32)

lemma push_link_ok:
  assumes "s < length (m_switchLinkNodeTypeIndex ft)" "s < 2 ^ 32"
  shows "push_link ft (of_nat s) t (of_nat i) =
    Inr (ft\<lparr>m_switchLinkNodeTypeIndex := pushed (m_switchLinkNodeTypeIndex ft) [(s, node t i)]\<rparr>)"
proof -
  have "unat (of_nat s :: u32) = s" by (rule unat_u32 [OF assms(2)])
  with assms(1) show ?thesis by (simp add: push_link_def)
qed

lemma pod_body_ops:
  assumes "shape h ft" "h \<le> 700" "i < 2 * h" "j < h"
  shows "pod_body (of_nat i) (of_nat j) (of_nat p) ft = Inr (add_links ft (pod_ops h i j p))"
proof -
  note H = half_squared [OF assms(2)] and I = pod_index [OF assms(3,4)]
  define a where "a = h * h + i * h + j"
  define b where "b = 3 * (h * h) + i * h + j"
  have ab: "a < 5 * (h * h)" "b < 5 * (h * h)" "a < 2 ^ 32" "b < 2 ^ 32"
    using H I by (simp_all add: a_def b_def)
  have P: "push_link gt (of_nat a) CHR ''s'' (of_nat (3 * (h * h) + i * h + p)) =
      Inr (gt\<lparr>m_switchLinkNodeTypeIndex := pushed (m_switchLinkNodeTypeIndex gt) [(a, node CHR ''s'' (3 * (h * h) + i * h + p))]\<rparr>)"
    if "length (m_switchLinkNodeTypeIndex gt) = 5 * (h * h)" for gt
    using ab that by (intro push_link_ok) simp_all
  have Q: "push_link gt (of_nat b) CHR ''h'' (of_nat (5 * (h * h) + i * (h * h) + j * h + p)) =
      Inr (gt\<lparr>m_switchLinkNodeTypeIndex := pushed (m_switchLinkNodeTypeIndex gt) [(b, node CHR ''h'' (5 * (h * h) + i * (h * h) + j * h + p))]\<rparr>)"
    if "length (m_switchLinkNodeTypeIndex gt) = 5 * (h * h)" for gt
    using ab that by (intro push_link_ok) simp_all
  have w: "of_nat (h * h) + of_nat i * of_nat h + of_nat j = (of_nat a :: u32)"
    "3 * of_nat (h * h) + of_nat i * of_nat h + of_nat p = (of_nat (3 * (h * h) + i * h + p) :: u32)"
    "3 * of_nat (h * h) + of_nat i * of_nat h + of_nat j = (of_nat b :: u32)"
    "of_nat (5 * (h * h)) + of_nat i * of_nat (h * h) + of_nat j * of_nat h + of_nat p =
      (of_nat (5 * (h * h) + i * (h * h) + j * h + p) :: u32)"
    by (simp_all add: a_def b_def)
  have l: "length (m_switchLinkNodeTypeIndex ft) = 5 * (h * h)" using assms(1) by (simp add: shape_def)
  have s: "m_podNum ft div 2 = of_nat h" "m_coreSwitchNum ft = of_nat (h * h)" "m_switchNum ft = of_nat (5 * (h * h))"
    using assms(1) by (simp_all only: shape_def)
  define gt where "gt = ft\<lparr>m_switchLinkNodeTypeIndex := pushed (m_switchLinkNodeTypeIndex ft) [(a, node CHR ''s'' (3 * (h * h) + i * h + p))]\<rparr>"
  have g: "m_coreSwitchNum gt = of_nat (h * h)" "length (m_switchLinkNodeTypeIndex gt) = 5 * (h * h)"
    using s(2) l by (simp_all add: gt_def)
  have "pod_body (of_nat i) (of_nat j) (of_nat p) ft =
      Inr (gt\<lparr>m_switchLinkNodeTypeIndex := pushed (m_switchLinkNodeTypeIndex gt)
             [(b, node CHR ''h'' (5 * (h * h) + i * (h * h) + j * h + p))], m_linkNum := m_linkNum gt + 2\<rparr>)"
    unfolding pod_body_def Let_def s w P [OF l] sum.case gt_def [symmetric]
    unfolding g(1) w(4) Q [OF g(2)] sum.case by simp
  also have "\<dots> = Inr (add_links ft (pod_ops h i j p))"
    by (simp add: gt_def add_links_def pod_ops_def a_def b_def)
  finally show ?thesis .
qed

lemma core_body_op:
  assumes "shape h ft" "h \<le> 700" "j < 2 * h" "0 < h"
  shows "core_body (of_nat c) (of_nat j) (of_nat ((k + j) mod h), ft) = Inr (of_nat ((k + Suc j) mod h), add_links ft [core_op h k c j])"
proof -
  note H = half_squared [OF assms(2)]
  define q where "q = (k + Suc j) mod h"
  have "q < h" using assms(4) by (simp add: q_def)
  note I = pod_index [OF assms(3) this]
  define a where "a = h * h + j * h + q"
  have a: "a < 5 * (h * h)" "a < 2 ^ 32" using H I by (simp_all add: a_def)
  have l: "length (m_switchLinkNodeTypeIndex ft) = 5 * (h * h)" using assms(1) by (simp add: shape_def)
  have s: "m_podNum ft div 2 = of_nat h" "m_coreSwitchNum ft = of_nat (h * h)"
    using assms(1) by (simp_all only: shape_def)
  have r: "(k + j) mod h < h" using assms(4) by simp
  have e: "(of_nat ((k + j) mod h) = (of_nat h - 1 :: u32)) = ((k + j) mod h = h - 1)"
  proof -
    have "(of_nat h - 1 :: u32) = of_nat (h - 1)" using assms(4) by simp
    moreover have "(of_nat ((k + j) mod h) = (of_nat (h - 1) :: u32)) = ((k + j) mod h = h - 1)"
      by (rule of_nat_u32_eq) (use r assms(2) in simp_all)
    ultimately show ?thesis by simp
  qed
  have step: "(if (k + j) mod h = h - 1 then 0 else (k + j) mod h + 1) = q"
  proof -
    have "q = Suc ((k + j) mod h) mod h" by (simp add: q_def mod_Suc_eq)
    then show ?thesis using r assms(4) by (auto simp: mod_Suc)
  qed
  have k': "(if of_nat ((k + j) mod h) = (of_nat h - 1 :: u32) then 0 else of_nat ((k + j) mod h) + 1) = (of_nat q :: u32)"
    unfolding e step [symmetric] by simp
  have w: "of_nat (h * h) + of_nat j * of_nat h + of_nat q = (of_nat a :: u32)" by (simp add: a_def)
  have P: "push_link ft (of_nat a) CHR ''s'' (of_nat c) =
      Inr (ft\<lparr>m_switchLinkNodeTypeIndex := pushed (m_switchLinkNodeTypeIndex ft) [(a, node CHR ''s'' c)]\<rparr>)"
    using a l by (intro push_link_ok) simp_all
  show ?thesis
    unfolding core_body_def Let_def prod.case s k' w P sum.case
    by (simp add: add_links_def core_op_def q_def a_def)
qed

lemma core_bodies:
  assumes "shape h ft" "h \<le> 700" "0 < h" "m \<le> n" "n \<le> 2 * h"
  shows "for_each (map of_nat [m..<n]) (core_body (of_nat c)) (of_nat ((k + m) mod h), ft) =
    Inr (of_nat ((k + n) mod h), add_links ft (map (core_op h k c) [m..<n]))"
  using assms(1,4,5)
proof (induction "n - m" arbitrary: m ft)
  case 0
  then show ?case by simp
next
  case (Suc d)
  then have m: "[m..<n] = m # [Suc m..<n]" "m < 2 * h" by (simp_all add: upt_conv_Cons)
  have "for_each (map of_nat [Suc m..<n]) (core_body (of_nat c)) (of_nat ((k + Suc m) mod h), add_links ft [core_op h k c m]) =
      Inr (of_nat ((k + n) mod h), add_links (add_links ft [core_op h k c m]) (map (core_op h k c) [Suc m..<n]))"
    by (rule Suc.hyps(1)) (use Suc in simp_all)
  then show ?case
    using core_body_op [OF Suc.prems(1) assms(2) m(2) assms(3)] by (simp add: m(1) add_links_append)
qed

definition pods_ops :: "nat \<Rightarrow> (nat \<times> LinkNodeTypeIndex_t) list" where
  "pods_ops h = concat (map (\<lambda>i. concat (map (\<lambda>j. concat (map (pod_ops h i j) [0..<h])) [0..<h])) [0..<2 * h])"

definition cores_ops :: "nat \<Rightarrow> (nat \<Rightarrow> u32) \<Rightarrow> (nat \<times> LinkNodeTypeIndex_t) list" where
  "cores_ops h rnd = concat (map (\<lambda>c. map (core_op h (unat (rnd c) mod h) c) [0..<2 * h]) [0..<h * h])"

lemma uints_of_nat: "n < 2 ^ 32 \<Longrightarrow> uints (of_nat n) = map of_nat [0..<n]"
  by (simp add: uints_def unat_u32)

lemma half_of_nat:
  assumes "n < 2 ^ 32"
  shows "(of_nat n :: u32) div 2 = of_nat (n div 2)"
proof -
  have "unat ((of_nat n :: u32) div 2) = n div 2" using assms by (simp add: unat_div unat_u32)
  then have "(of_nat (unat ((of_nat n :: u32) div 2)) :: u32) = of_nat (n div 2)" by (rule arg_cong)
  then show ?thesis by (simp only: of_nat_unat ucast_id)
qed

lemma pods_loop:
  assumes "shape h ft" "h \<le> 700" "n \<le> 2 * h"
  shows "for_each (map of_nat [0..<n]) (\<lambda>i. for_each (map of_nat [0..<h]) (\<lambda>j. for_each (map of_nat [0..<h]) (pod_body i j))) ft =
    Inr (add_links ft (concat (map (\<lambda>i. concat (map (\<lambda>j. concat (map (pod_ops h i j) [0..<h])) [0..<h])) [0..<n])))"
proof (rule for_each_links [where h = h])
  fix i ft assume i: "i \<in> set [0..<n]" and s: "shape h ft"
  show "for_each (map of_nat [0..<h]) (\<lambda>j. for_each (map of_nat [0..<h]) (pod_body (of_nat i) j)) ft =
      Inr (add_links ft (concat (map (\<lambda>j. concat (map (pod_ops h i j) [0..<h])) [0..<h])))"
  proof (rule for_each_links [where h = h, OF _ s])
    fix j ft assume j: "j \<in> set [0..<h]" and s: "shape h ft"
    show "for_each (map of_nat [0..<h]) (pod_body (of_nat i) (of_nat j)) ft = Inr (add_links ft (concat (map (pod_ops h i j) [0..<h])))"
      using i j assms(2,3) by (intro for_each_links [where h = h, OF _ s]) (simp add: pod_body_ops)
  qed
qed (rule assms(1))

lemma cores_loop:
  assumes "shape h ft" "h \<le> 700" "0 < h"
  shows "for_each (map of_nat [0..<h * h])
      (\<lambda>i ft. case for_each (map of_nat [0..<2 * h]) (core_body i) (rnd (unat i) mod of_nat h, ft) of
                Inl e \<Rightarrow> Inl e | Inr (_, ft) \<Rightarrow> Inr ft) ft = Inr (add_links ft (cores_ops h rnd))"
  unfolding cores_ops_def
proof (rule for_each_links [where h = h])
  fix c ft assume c: "c \<in> set [0..<h * h]" and s: "shape h ft"
  define k where "k = unat (rnd c) mod h"
  have "c < 2 ^ 32" using c half_squared [OF assms(2)] by simp
  then have u: "unat (of_nat c :: u32) = c" by (rule unat_u32)
  have "unat (of_nat h :: u32) = h" using assms(2) by (intro unat_u32) simp
  then have "unat (rnd c mod of_nat h) = k" by (simp add: unat_mod k_def)
  then have "(of_nat (unat (rnd c mod of_nat h)) :: u32) = of_nat k" by (rule arg_cong)
  then have r: "rnd c mod of_nat h = of_nat ((k + 0) mod h)" by (simp only: of_nat_unat ucast_id) (simp add: k_def)
  have "for_each (map of_nat [0..<2 * h]) (core_body (of_nat c)) (of_nat ((k + 0) mod h), ft) =
      Inr (of_nat ((k + 2 * h) mod h), add_links ft (map (core_op h k c) [0..<2 * h]))"
    by (rule core_bodies [OF s assms(2,3)]) simp_all
  then show "(case for_each (map of_nat [0..<2 * h]) (core_body (of_nat c)) (rnd (unat (of_nat c :: u32)) mod of_nat h, ft) of
      Inl e \<Rightarrow> Inl e | Inr (_, ft) \<Rightarrow> Inr ft) = Inr (add_links ft (map (core_op h (unat (rnd c) mod h) c) [0..<2 * h]))"
    unfolding u r k_def [symmetric] by simp
qed (rule assms(1))

text \<open>The tree before its links are pushed.\<close>

definition bare_tree :: "nat \<Rightarrow> u32 \<Rightarrow> string \<Rightarrow> fattree" where
  "bare_tree h podNum name =
     \<lparr>m_switchNum = of_nat (5 * (h * h)), m_terminalNum = of_nat (h * h) * podNum, m_podNum = podNum,
      m_coreSwitchNum = of_nat (h * h), m_switchLinkNodeTypeIndex = replicate (5 * (h * h)) [], m_topoFileName = name,
      m_linkDataRate = [], m_linkDelay = [], m_linkNum = 0\<rparr>"

lemma shape_bare: "podNum div 2 = of_nat h \<Longrightarrow> shape h (bare_tree h podNum name)"
  by (simp add: shape_def bare_tree_def)

lemma BuildTopo_start:
  assumes "podNum div 2 = of_nat h" "h \<le> 700"
  shows "BuildTopo rnd \<lparr>m_switchNum = 0, m_terminalNum = 0, m_podNum = 0, m_coreSwitchNum = 0,
      m_switchLinkNodeTypeIndex = [], m_topoFileName = [], m_linkDataRate = [], m_linkDelay = [], m_linkNum = 0\<rparr> podNum =
    (case for_each (uints podNum) (\<lambda>i. for_each (map of_nat [0..<h]) (\<lambda>j. for_each (map of_nat [0..<h]) (pod_body i j)))
            (bare_tree h podNum []) of
       Inl e \<Rightarrow> Inl e
     | Inr ft \<Rightarrow>
         for_each (map of_nat [0..<h * h])
           (\<lambda>i ft. case for_each (uints podNum) (core_body i) (rnd (unat i) mod of_nat h, ft) of
                     Inl e \<Rightarrow> Inl e | Inr (_, ft) \<Rightarrow> Inr ft) ft)"
proof -
  have H: "h * h \<le> 490000" by (rule half_squared [OF assms(2)])
  have c: "(of_nat h * of_nat h :: u32) = of_nat (h * h)" by simp
  have s: "(5 * of_nat (h * h) :: u32) = of_nat (5 * (h * h))" by simp
  have u: "unat (of_nat (5 * (h * h)) :: u32) = 5 * (h * h)" using H by (intro unat_u32) simp
  have v: "uints (of_nat (h * h)) = map of_nat [0..<h * h]" "uints (of_nat h) = map of_nat [0..<h]"
    using H assms(2) by (intro uints_of_nat; simp)+
  show ?thesis
    unfolding BuildTopo_def Let_def assms(1) c s u v bare_tree_def by simp
qed

lemma FattreeTopoHelper_even:
  assumes "0 < h" "h \<le> 700"
  shows "FattreeTopoHelper rnd (of_nat (2 * h)) name =
    Inr (add_links (bare_tree h (of_nat (2 * h)) name) (pods_ops h @ cores_ops h rnd))"
proof -
  let ?P = "of_nat (2 * h) :: u32"
  have d: "?P div 2 = of_nat h" using half_of_nat [of "2 * h"] assms(2) by simp
  have u: "uints ?P = map of_nat [0..<2 * h]" using assms(2) by (intro uints_of_nat) simp
  have s: "shape h (bare_tree h ?P [])" by (rule shape_bare [OF d])
  have "FattreeTopoHelper rnd ?P name = Inr (add_links (add_links (bare_tree h ?P []) (pods_ops h)) (cores_ops h rnd)\<lparr>m_topoFileName := name\<rparr>)"
    unfolding FattreeTopoHelper_def BuildTopo_start [OF d assms(2)] u
    unfolding pods_loop [OF s assms(2) order_refl, folded pods_ops_def] sum.case
    unfolding cores_loop [OF shape_add_links [THEN iffD2, OF s] assms(2,1)] by simp
  then show ?thesis by (simp add: add_links_append) (simp add: add_links_def bare_tree_def)
qed

subsection \<open>The links of each switch\<close>

lemma concat_blocks:
  "concat (map (\<lambda>i. concat (map (\<lambda>j. F (i * h + j)) [0..<h])) [0..<n]) = concat (map F [0..<n * h])" for h n :: nat
proof (induction n)
  case (Suc n)
  have "[0..<Suc n * h] = [0..<n * h] @ map (\<lambda>j. n * h + j) [0..<h]"
  proof -
    have "[0..<Suc n * h] = [0..<n * h] @ [n * h..<n * h + h]"
      by (metis add.commute le_add1 mult_Suc upt_add_eq_append zero_le)
    moreover have "[n * h..<n * h + h] = map (\<lambda>j. n * h + j) [0..<h]" using map_add_upt [of "n * h" h] by (simp add: add.commute)
    ultimately show ?thesis by simp
  qed
  with Suc show ?case by (simp add: comp_def)
qed simp

lemma concat_single: "concat (map (\<lambda>e. if e = a then X e else []) [0..<n]) = (if a < n then X a else [])" for n :: nat
  by (induction n) (auto simp: less_Suc_eq)

definition at_switch :: "nat \<Rightarrow> (nat \<times> 'a) list \<Rightarrow> 'a list" where
  "at_switch s os = map snd (filter (\<lambda>x. fst x = s) os)"

lemma at_switch_simps [simp]:
  "at_switch s [] = []" "at_switch s (x # os) = (if fst x = s then [snd x] else []) @ at_switch s os"
  "at_switch s (os @ ps) = at_switch s os @ at_switch s ps"
  by (simp_all add: at_switch_def)

lemma at_switch_concat: "at_switch s (concat (map f xs)) = concat (map (\<lambda>x. at_switch s (f x)) xs)"
  by (induction xs) simp_all

lemma concat_Nil: "(\<And>x. x \<in> set xs \<Longrightarrow> f x = []) \<Longrightarrow> concat (map f xs) = []"
  by (induction xs) simp_all

definition edge_links :: "nat \<Rightarrow> nat \<Rightarrow> LinkNodeTypeIndex_t list" where
  "edge_links h e = map (\<lambda>p. node CHR ''h'' (5 * (h * h) + e * h + p)) [0..<h]"

text \<open>Whether core switch \<open>c\<close> is linked to the aggregation switch \<open>a\<close>, counted over all pods.\<close>

definition core_linked :: "nat \<Rightarrow> (nat \<Rightarrow> u32) \<Rightarrow> nat \<Rightarrow> nat \<Rightarrow> bool" where
  "core_linked h rnd a c \<longleftrightarrow> (unat (rnd c) mod h + Suc (a div h)) mod h = a mod h"

definition aggr_links :: "nat \<Rightarrow> (nat \<Rightarrow> u32) \<Rightarrow> nat \<Rightarrow> LinkNodeTypeIndex_t list" where
  "aggr_links h rnd a =
     map (\<lambda>p. node CHR ''s'' (3 * (h * h) + a div h * h + p)) [0..<h] @
     map (node CHR ''s'') (filter (core_linked h rnd a) [0..<h * h])"

definition tree_links :: "nat \<Rightarrow> (nat \<Rightarrow> u32) \<Rightarrow> LinkNodeTypeIndex_t list list" where
  "tree_links h rnd = replicate (h * h) [] @ map (aggr_links h rnd) [0..<2 * (h * h)] @ map (edge_links h) [0..<2 * (h * h)]"

definition block_ops :: "nat \<Rightarrow> nat \<Rightarrow> (nat \<times> LinkNodeTypeIndex_t) list" where
  "block_ops h e = concat (map (\<lambda>p.
     [(h * h + e, node CHR ''s'' (3 * (h * h) + e div h * h + p)), (3 * (h * h) + e, node CHR ''h'' (5 * (h * h) + e * h + p))]) [0..<h])"

lemma pods_ops_blocks: "pods_ops h = concat (map (block_ops h) [0..<2 * (h * h)])"
proof -
  have P: "pod_ops h i j p =
      [(h * h + (i * h + j), node CHR ''s'' (3 * (h * h) + (i * h + j) div h * h + p)),
       (3 * (h * h) + (i * h + j), node CHR ''h'' (5 * (h * h) + (i * h + j) * h + p))]" if "j < h" for i j p
  proof -
    have "(i * h + j) div h = i" using that by simp
    then show ?thesis by (simp add: pod_ops_def add_mult_distrib mult.assoc add.assoc del: of_nat_add of_nat_mult)
  qed
  have Q: "concat (map (pod_ops h i j) [0..<h]) = block_ops h (i * h + j)" if "j < h" for i j
    unfolding block_ops_def by (rule arg_cong [where f = concat], rule map_cong [OF refl], rule P [OF that])
  have "pods_ops h = concat (map (\<lambda>i. concat (map (\<lambda>j. block_ops h (i * h + j)) [0..<h])) [0..<2 * h])"
    unfolding pods_ops_def
    by (rule arg_cong [where f = concat], rule map_cong [OF refl], rule arg_cong [where f = concat], rule map_cong [OF refl])
      (simp only: set_upt atLeastLessThan_iff Q)
  then show ?thesis by (simp add: concat_blocks mult.assoc)
qed

lemma at_block_core: "s < h * h \<Longrightarrow> at_switch s (block_ops h e) = []"
  by (simp add: block_ops_def at_switch_concat)

lemma at_block_aggr:
  "0 < h \<Longrightarrow> e < 2 * (h * h) \<Longrightarrow> a < 2 * (h * h) \<Longrightarrow> at_switch (h * h + a) (block_ops h e) =
    (if e = a then map (\<lambda>p. node CHR ''s'' (3 * (h * h) + a div h * h + p)) [0..<h] else [])"
  by (auto simp add: block_ops_def at_switch_concat simp del: of_nat_add of_nat_mult)

lemma at_block_edge:
  "0 < h \<Longrightarrow> e < 2 * (h * h) \<Longrightarrow> a < 2 * (h * h) \<Longrightarrow> at_switch (3 * (h * h) + a) (block_ops h e) = (if e = a then edge_links h a else [])"
  by (auto simp add: block_ops_def at_switch_concat edge_links_def simp del: of_nat_add of_nat_mult)

lemma core_op_index:
  "0 < h \<Longrightarrow> j < 2 * h \<Longrightarrow> \<exists>a < 2 * (h * h). fst (core_op h k c j) = h * h + a \<and> a div h = j \<and> a mod h = (k + Suc j) mod h"
  using pod_index [of j h "(k + Suc j) mod h"]
  by (intro exI [of _ "j * h + (k + Suc j) mod h"]) (simp add: core_op_def)

lemma at_cores_other:
  assumes "0 < h" "s < h * h \<or> 3 * (h * h) \<le> s"
  shows "at_switch s (cores_ops h rnd) = []"
proof -
  have "fst (core_op h k c j) \<noteq> s" if "j < 2 * h" for k c j
    using core_op_index [OF assms(1) that, of k c] assms(2) by auto
  then show ?thesis by (simp add: cores_ops_def at_switch_concat at_switch_def comp_def cong: map_cong)
qed

lemma at_cores_aggr:
  assumes "0 < h" "a < 2 * (h * h)"
  shows "at_switch (h * h + a) (cores_ops h rnd) = map (node CHR ''s'') (filter (core_linked h rnd a) [0..<h * h])"
proof -
  have j: "a div h < 2 * h" using assms by (simp add: less_mult_imp_div_less mult.assoc)
  have one: "at_switch (h * h + a) [core_op h k c j] =
      (if j = a div h then (if (k + Suc (a div h)) mod h = a mod h then [node CHR ''s'' c] else []) else [])"
    if lt: "j < 2 * h" for k c j
  proof -
    obtain b where b: "fst (core_op h k c j) = h * h + b" "b div h = j" "b mod h = (k + Suc j) mod h"
      using core_op_index [OF assms(1) lt, of k c] by blast
    have "b = a \<longleftrightarrow> b div h = a div h \<and> b mod h = a mod h" by (metis div_mult_mod_eq)
    then show ?thesis using b by (auto simp: core_op_def)
  qed
  have row: "at_switch (h * h + a) (map (core_op h k c) [0..<2 * h]) =
      (if (k + Suc (a div h)) mod h = a mod h then [node CHR ''s'' c] else [])" for k c
  proof -
    have "at_switch (h * h + a) (map (core_op h k c) xs) = concat (map (\<lambda>j. at_switch (h * h + a) [core_op h k c j]) xs)" for xs
      by (induction xs) simp_all
    then have "at_switch (h * h + a) (map (core_op h k c) [0..<2 * h]) =
        concat (map (\<lambda>j. if j = a div h then (if (k + Suc (a div h)) mod h = a mod h then [node CHR ''s'' c] else []) else []) [0..<2 * h])"
      by (simp only:) (rule arg_cong [where f = concat], rule map_cong [OF refl], simp only: set_upt atLeastLessThan_iff one)
    also have "\<dots> = (if a div h < 2 * h then (if (k + Suc (a div h)) mod h = a mod h then [node CHR ''s'' c] else []) else [])"
      by (rule concat_single)
    finally show ?thesis using j by simp
  qed
  have "concat (map (\<lambda>c. if P c then [f c] else []) xs) = map f (filter P xs)" for P :: "nat \<Rightarrow> bool" and f :: "nat \<Rightarrow> LinkNodeTypeIndex_t" and xs
    by (induction xs) simp_all
  then show ?thesis unfolding cores_ops_def at_switch_concat row core_linked_def by simp
qed

lemma at_pods:
  assumes "0 < h"
  shows "s < h * h \<Longrightarrow> at_switch s (pods_ops h) = []"
    "a < 2 * (h * h) \<Longrightarrow> at_switch (h * h + a) (pods_ops h) = map (\<lambda>p. node CHR ''s'' (3 * (h * h) + a div h * h + p)) [0..<h]"
    "a < 2 * (h * h) \<Longrightarrow> at_switch (3 * (h * h) + a) (pods_ops h) = edge_links h a"
proof -
  show "at_switch s (pods_ops h) = []" if "s < h * h"
    using that by (simp add: pods_ops_blocks at_switch_concat at_block_core)
  assume a: "a < 2 * (h * h)"
  have "at_switch (h * h + a) (pods_ops h) =
      concat (map (\<lambda>e. if e = a then map (\<lambda>p. node CHR ''s'' (3 * (h * h) + a div h * h + p)) [0..<h] else []) [0..<2 * (h * h)])"
    unfolding pods_ops_blocks at_switch_concat map_map
    by (rule arg_cong [where f = concat], rule map_cong [OF refl])
      (simp only: o_apply set_upt atLeastLessThan_iff at_block_aggr [OF assms _ a])
  then show "at_switch (h * h + a) (pods_ops h) = map (\<lambda>p. node CHR ''s'' (3 * (h * h) + a div h * h + p)) [0..<h]"
    using a by (simp only: concat_single if_True)
  have "at_switch (3 * (h * h) + a) (pods_ops h) = concat (map (\<lambda>e. if e = a then edge_links h a else []) [0..<2 * (h * h)])"
    unfolding pods_ops_blocks at_switch_concat map_map
    by (rule arg_cong [where f = concat], rule map_cong [OF refl])
      (simp only: o_apply set_upt atLeastLessThan_iff at_block_edge [OF assms _ a])
  then show "at_switch (3 * (h * h) + a) (pods_ops h) = edge_links h a"
    using a by (simp only: concat_single if_True)
qed

text \<open>What the constructor builds.\<close>

lemma pushed_tree:
  assumes "0 < h"
  shows "pushed (replicate (5 * (h * h)) []) (pods_ops h @ cores_ops h rnd) = tree_links h rnd"
proof (rule nth_equalityI)
  show "length (pushed (replicate (5 * (h * h)) []) (pods_ops h @ cores_ops h rnd)) = length (tree_links h rnd)"
    by (simp add: tree_links_def)
  fix s assume "s < length (pushed (replicate (5 * (h * h)) []) (pods_ops h @ cores_ops h rnd))"
  then have s: "s < 5 * (h * h)" by simp
  have p: "pushed (replicate (5 * (h * h)) []) (pods_ops h @ cores_ops h rnd) ! s = at_switch s (pods_ops h) @ at_switch s (cores_ops h rnd)"
    using s by (subst nth_pushed) (simp_all add: at_switch_def)
  consider "s < h * h" | a where "s = h * h + a" "a < 2 * (h * h)" | e where "s = 3 * (h * h) + e" "e < 2 * (h * h)"
  proof -
    show thesis
    proof (cases "s < h * h")
      case True
      then show thesis by (rule that(1))
    next
      case False
      then have "s = h * h + (s - h * h)" "s < 3 * (h * h) \<longrightarrow> s - h * h < 2 * (h * h)"
        "\<not> s < 3 * (h * h) \<longrightarrow> s = 3 * (h * h) + (s - 3 * (h * h))" "\<not> s < 3 * (h * h) \<longrightarrow> s - 3 * (h * h) < 2 * (h * h)"
        using s by (simp_all add: less_diff_conv2)
      then show thesis using that(2,3) by blast
    qed
  qed
  then show "pushed (replicate (5 * (h * h)) []) (pods_ops h @ cores_ops h rnd) ! s = tree_links h rnd ! s"
  proof cases
    case 1
    then show ?thesis unfolding p using assms by (simp add: at_pods at_cores_other tree_links_def nth_append)
  next
    case (2 a)
    then show ?thesis unfolding p unfolding 2(1) at_pods(2) [OF assms 2(2)] at_cores_aggr [OF assms 2(2)]
      by (simp add: tree_links_def nth_append aggr_links_def)
  next
    case (3 e)
    then show ?thesis unfolding p unfolding 3(1) at_pods(3) [OF assms 3(2)]
      using assms by (simp add: tree_links_def nth_append at_cores_other)
  qed
qed

lemma cube_bound:
  fixes h :: nat
  assumes "h \<le> 700"
  shows "h * h * h \<le> 343000000"
  using mult_le_mono [OF half_squared [OF assms] assms] by simp

lemma tree_links_number:
  assumes "0 < h"
  shows "length (concat (tree_links h rnd)) = length (pods_ops h @ cores_ops h rnd)"
proof -
  have t: "length (concat (pushed ls os)) = length (concat ls) + length os" if "\<forall>x \<in> set os. fst x < length ls" for ls and os :: "(nat \<times> LinkNodeTypeIndex_t) list"
    using that
  proof (induction os arbitrary: ls)
    case (Cons x os)
    obtain s l where x: "x = (s, l)" by fastforce
    have s: "s < length ls" using Cons.prems x by simp
    have "length (concat (ls[s := ls ! s @ [l]])) = Suc (length (concat ls))"
    proof -
      have "ls = take s ls @ ls ! s # drop (Suc s) ls" by (rule id_take_nth_drop [OF s])
      then have "length (concat ls) = length (concat (take s ls)) + length (ls ! s) + length (concat (drop (Suc s) ls))"
        by (metis concat.simps(2) concat_append length_append add.assoc)
      moreover have "ls[s := ls ! s @ [l]] = take s ls @ (ls ! s @ [l]) # drop (Suc s) ls" by (rule upd_conv_take_nth_drop [OF s])
      ultimately show ?thesis by simp
    qed
    then show ?case using Cons x by simp
  qed simp
  have idx: "\<forall>x \<in> set (pods_ops h @ cores_ops h rnd). fst x < 5 * (h * h)"
  proof
    fix x assume "x \<in> set (pods_ops h @ cores_ops h rnd)"
    then consider "x \<in> set (pods_ops h)" | "x \<in> set (cores_ops h rnd)" by auto
    then show "fst x < 5 * (h * h)"
    proof cases
      case 1
      then show ?thesis by (auto simp: pods_ops_blocks block_ops_def)
    next
      case 2
      then obtain c j where "x = core_op h (unat (rnd c) mod h) c j" "j < 2 * h" by (auto simp: cores_ops_def)
      then show ?thesis using core_op_index [OF assms, of j "unat (rnd c) mod h" c] by auto
    qed
  qed
  show ?thesis
    using t [of "pods_ops h @ cores_ops h rnd" "replicate (5 * (h * h)) []"] idx
    unfolding pushed_tree [OF assms] by simp
qed

lemma tree_links_number_value:
  assumes "0 < h"
  shows "length (concat (tree_links h rnd)) = 6 * (h * h * h)"
proof -
  have "sum_list (map (\<lambda>i. k) [0..<n]) = n * k" for n k :: nat by (induction n) simp_all
  then have "length (pods_ops h) = 4 * (h * h * h)" "length (cores_ops h rnd) = 2 * (h * h * h)"
    by (simp_all add: pods_ops_def cores_ops_def pod_ops_def length_concat comp_def algebra_simps)
  then show ?thesis unfolding tree_links_number [OF assms] by simp
qed

lemma FattreeTopoHelper_tree:
  assumes "0 < h" "h \<le> 700"
  shows "\<exists>ft. FattreeTopoHelper rnd (of_nat (2 * h)) name = Inr ft \<and> m_switchLinkNodeTypeIndex ft = tree_links h rnd \<and>
    m_switchNum ft = of_nat (5 * (h * h)) \<and> m_terminalNum ft = of_nat (2 * (h * h * h)) \<and>
    m_linkNum ft = of_nat (length (concat (tree_links h rnd))) \<and> m_topoFileName ft = name \<and> m_linkDataRate ft = [] \<and> m_linkDelay ft = []"
  unfolding FattreeTopoHelper_even [OF assms] add_links_def
  using pushed_tree [OF assms(1), of rnd] tree_links_number [OF assms(1), of rnd] by (simp add: bare_tree_def mult_ac)

lemma host_blocks: "concat (map (\<lambda>e. map (\<lambda>p. n + e * h + p) [0..<h]) [0..<m]) = [n..<n + m * h]" for n h m :: nat
proof -
  have "concat (map (\<lambda>e. concat (map (\<lambda>p. [n + (e * h + p)]) [0..<h])) [0..<m]) = concat (map (\<lambda>x. [n + x]) [0..<m * h])"
    by (rule concat_blocks)
  also have "\<dots> = [n..<n + m * h]" by (simp add: concat_map_singleton map_add_upt add.commute)
  finally show ?thesis by (simp add: concat_map_singleton add.assoc)
qed

definition is_host :: "LinkNodeTypeIndex_t \<Rightarrow> bool" where "is_host l \<longleftrightarrow> node_type l = CHR ''h''"

text \<open>A fat tree of \<open>2 * h\<close> pods is well formed below the core: every host is linked to exactly one
  switch (the links to hosts, in the order of the switches, go to the hosts in the order of their
  numbers, which follow those of the switches), every edge switch has the \<open>h\<close> hosts of its own, and
  the number of links that the header of the file announces is the number of links.\<close>

theorem fattree_hosts_once:
  assumes "0 < h" "h \<le> 700"
  shows "\<exists>ft. FattreeTopoHelper rnd (of_nat (2 * h)) name = Inr ft \<and>
    map node_index (filter is_host (concat (m_switchLinkNodeTypeIndex ft))) = map of_nat [5 * (h * h)..<5 * (h * h) + 2 * (h * h * h)] \<and>
    (\<forall>e < 2 * (h * h). m_switchLinkNodeTypeIndex ft ! (3 * (h * h) + e) = map (\<lambda>p. node CHR ''h'' (5 * (h * h) + e * h + p)) [0..<h]) \<and>
    GetLinkNum ft = of_nat (length (concat (m_switchLinkNodeTypeIndex ft))) \<and>
    GetSwitchNum ft = of_nat (5 * (h * h)) \<and> GetTerminalNum ft = of_nat (2 * (h * h * h))"
proof -
  have aggr: "filter is_host (aggr_links h rnd a) = []" for a
    by (auto simp: aggr_links_def is_host_def filter_empty_conv)
  have edge: "filter is_host (edge_links h e) = edge_links h e" for e
    by (auto simp: edge_links_def is_host_def filter_id_conv)
  have c: "filter is_host (concat (map f xs)) = concat (map (\<lambda>x. filter is_host (f x)) xs)" for f :: "nat \<Rightarrow> LinkNodeTypeIndex_t list" and xs
    by (induction xs) simp_all
  have n: "map node_index (edge_links h e) = map of_nat (map (\<lambda>p. 5 * (h * h) + e * h + p) [0..<h])" for e
    by (simp add: edge_links_def)
  have "map node_index (filter is_host (concat (tree_links h rnd))) = concat (map (\<lambda>e. map node_index (edge_links h e)) [0..<2 * (h * h)])"
    by (simp add: tree_links_def c aggr edge map_concat comp_def)
  also have "\<dots> = map of_nat (concat (map (\<lambda>e. map (\<lambda>p. 5 * (h * h) + e * h + p) [0..<h]) [0..<2 * (h * h)]))"
    unfolding n map_concat map_map comp_def ..
  also have "\<dots> = map of_nat [5 * (h * h)..<5 * (h * h) + 2 * (h * h * h)]"
    unfolding host_blocks by (simp add: mult.assoc)
  finally have hosts: "map node_index (filter is_host (concat (tree_links h rnd))) = map of_nat [5 * (h * h)..<5 * (h * h) + 2 * (h * h * h)]" .
  have e: "tree_links h rnd ! (3 * (h * h) + e) = map (\<lambda>p. node CHR ''h'' (5 * (h * h) + e * h + p)) [0..<h]" if "e < 2 * (h * h)" for e
    using that by (simp add: tree_links_def nth_append edge_links_def)
  obtain ft where "FattreeTopoHelper rnd (of_nat (2 * h)) name = Inr ft" "m_switchLinkNodeTypeIndex ft = tree_links h rnd"
    "m_switchNum ft = of_nat (5 * (h * h))" "m_terminalNum ft = of_nat (2 * (h * h * h))" "m_linkNum ft = of_nat (length (concat (tree_links h rnd)))"
    using FattreeTopoHelper_tree [OF assms] by blast
  then show ?thesis using hosts e
    by (intro exI [of _ ft] conjI allI impI) (simp_all only: GetLinkNum_def GetSwitchNum_def GetTerminalNum_def)
qed


lemma core_link_iff:
  assumes "h \<le> 700" "a < 2 * (h * h)" "c < h * h"
  shows "node CHR ''s'' c \<in> set (tree_links h rnd ! (h * h + a)) \<longleftrightarrow> core_linked h rnd a c"
proof -
  note H = half_squared [OF assms(1)]
  have N: "(of_nat c :: u32) \<noteq> of_nat (3 * (h * h) + a div h * h + p)" if "p < h" for p
  proof -
    have "a div h * h \<le> a" by (rule div_times_less_eq_dividend)
    moreover have "h \<le> 700" "c < 490000" using assms(1,3) H by simp_all
    ultimately have "3 * (h * h) + a div h * h + p < 4294967296" "c < 4294967296" using assms(2) H that by linarith+
    have b: "3 * (h * h) + a div h * h + p < 2 ^ 32" "c < 2 ^ 32"
    proof -
      have two: "(2 :: nat) ^ 32 = 4294967296" by simp
      show "3 * (h * h) + a div h * h + p < 2 ^ 32" "c < 2 ^ 32"
        unfolding two using \<open>3 * (h * h) + a div h * h + p < 4294967296\<close> \<open>c < 4294967296\<close> .
    qed
    have "c \<noteq> 3 * (h * h) + a div h * h + p" using assms(3) by linarith
    then show ?thesis unfolding of_nat_u32_eq [OF b(2,1)] .
  qed
  have D: "of_nat c = (of_nat d :: u32) \<longleftrightarrow> c = d" if "d < h * h" for d
    by (rule of_nat_u32_eq) (use that assms(3) H in simp_all)
  have "node CHR ''s'' c \<notin> set (map (\<lambda>p. node CHR ''s'' (3 * (h * h) + a div h * h + p)) [0..<h])"
  proof
    assume "node CHR ''s'' c \<in> set (map (\<lambda>p. node CHR ''s'' (3 * (h * h) + a div h * h + p)) [0..<h])"
    then obtain p where "p < h" "node CHR ''s'' c = node CHR ''s'' (3 * (h * h) + a div h * h + p)"
      unfolding set_map set_upt image_iff by (metis atLeastLessThan_iff)
    then show False using N [of p] by (simp only: LinkNodeTypeIndex_t.ext_inject simp_thms)
  qed
  moreover have "node CHR ''s'' c \<in> set (map (node CHR ''s'') (filter (core_linked h rnd a) [0..<h * h])) \<longleftrightarrow> core_linked h rnd a c"
    using D assms(3) by auto
  ultimately have "node CHR ''s'' c \<in> set (aggr_links h rnd a) \<longleftrightarrow> core_linked h rnd a c"
    unfolding aggr_links_def set_append Un_iff by blast
  moreover have "tree_links h rnd ! (h * h + a) = aggr_links h rnd a"
    using assms(2) by (simp add: tree_links_def nth_append)
  ultimately show ?thesis by simp
qed

lemma core_linked_pod:
  "0 < h \<Longrightarrow> q < h \<Longrightarrow> core_linked h rnd (j * h + q) c \<longleftrightarrow> q = (unat (rnd c) + Suc j) mod h"
  using mod_add_left_eq [of "unat (rnd c)" h "Suc j"] by (auto simp: core_linked_def simp del: add_Suc_right)

text \<open>C34. The links of the core: each core switch is linked to exactly one aggregation switch of every pod,
  the one that the random start and the pod number select. Nothing spreads the core switches over
  the aggregation switches of a pod: when the random starts agree, every pod of a tree with at
  least two of them has an aggregation switch without any link to the core.\<close>

theorem fattree_core_links:
  assumes "0 < h" "h \<le> 700"
  shows "\<exists>ft. FattreeTopoHelper rnd (of_nat (2 * h)) name = Inr ft \<and>
    (\<forall>c < h * h. \<forall>j < 2 * h. \<forall>q < h. node CHR ''s'' c \<in> set (m_switchLinkNodeTypeIndex ft ! (h * h + (j * h + q))) \<longleftrightarrow>
       q = (unat (rnd c) + Suc j) mod h) \<and>
    (2 \<le> h \<longrightarrow> (\<forall>c < h * h. rnd c = rnd 0) \<longrightarrow>
       (\<forall>j < 2 * h. \<exists>q < h. \<forall>c < h * h. node CHR ''s'' c \<notin> set (m_switchLinkNodeTypeIndex ft ! (h * h + (j * h + q)))))"
proof -
  obtain ft where ft: "FattreeTopoHelper rnd (of_nat (2 * h)) name = Inr ft" "m_switchLinkNodeTypeIndex ft = tree_links h rnd"
    using FattreeTopoHelper_tree [OF assms] by blast
  have L: "node CHR ''s'' c \<in> set (tree_links h rnd ! (h * h + (j * h + q))) \<longleftrightarrow> q = (unat (rnd c) + Suc j) mod h"
    if "c < h * h" "j < 2 * h" "q < h" for c j q
    using core_link_iff [OF assms(2) pod_index [OF that(2,3)] that(1)] core_linked_pod [OF assms(1) that(3)] by simp
  have E: "\<exists>q < h. \<forall>c < h * h. node CHR ''s'' c \<notin> set (tree_links h rnd ! (h * h + (j * h + q)))"
    if two: "2 \<le> h" and same: "\<forall>c < h * h. rnd c = rnd 0" and j: "j < 2 * h" for j
  proof -
    define r where "r = (unat (rnd 0) + Suc j) mod h"
    obtain q where q: "q < h" "q \<noteq> r"
    proof (cases "r = 0")
      case True
      then show thesis using two by (intro that [of 1]) simp_all
    next
      case False
      then show thesis using assms(1) by (intro that [of 0]) simp_all
    qed
    have "node CHR ''s'' c \<notin> set (tree_links h rnd ! (h * h + (j * h + q)))" if c: "c < h * h" for c
    proof -
      have "rnd c = rnd 0" using same c by blast
      then have "(unat (rnd c) + Suc j) mod h = r" by (simp only: r_def)
      then show ?thesis unfolding L [OF c j q(1)] using q(2) by simp
    qed
    with q(1) show ?thesis by blast
  qed
  show ?thesis
    by (intro exI [of _ ft] conjI allI impI; (unfold ft(2))?) (rule ft(1) L E; assumption)+
qed

text \<open>An odd number of pods, three or more, runs out of the vector of switches: the tree is sized with half
  the number of pods, rounded down, and the last pod is one too many.\<close>

theorem fattree_odd_pods_undefined:
  assumes "0 < h" "h \<le> 700"
  shows "FattreeTopoHelper rnd (of_nat (2 * h + 1)) name = Inl Undefined"
proof -
  let ?P = "of_nat (2 * h + 1) :: u32"
  note H = half_squared [OF assms(2)]
  have d: "?P div 2 = of_nat h" using half_of_nat [of "2 * h + 1"] assms(2) by simp
  have u: "uints ?P = map of_nat [0..<2 * h] @ [of_nat (2 * h)]"
  proof -
    have "uints ?P = map of_nat [0..<2 * h + 1]" by (rule uints_of_nat) (use assms(2) in simp)
    then show ?thesis by simp
  qed
  have s: "shape h (bare_tree h ?P [])" by (rule shape_bare [OF d])
  define ft where "ft = add_links (bare_tree h ?P []) (pods_ops h)"
  have sf: "shape h ft" using s by (simp add: ft_def)
  then have l: "length (m_switchLinkNodeTypeIndex ft) = 5 * (h * h)" "m_podNum ft div 2 = of_nat h" "m_coreSwitchNum ft = of_nat (h * h)"
    by (simp_all only: shape_def)
  define a where "a = h * h + 2 * h * h + 0"
  define b where "b = 3 * (h * h) + 2 * h * h + 0"
  have ab: "a < 5 * (h * h)" "a < 2 ^ 32" "b < 2 ^ 32" "5 * (h * h) \<le> b" using H assms(1) by (simp_all add: a_def b_def)
  have w: "of_nat (h * h) + of_nat (2 * h) * of_nat h + of_nat 0 = (of_nat a :: u32)"
    "3 * of_nat (h * h) + of_nat (2 * h) * of_nat h + of_nat 0 = (of_nat b :: u32)" by (simp_all add: a_def b_def)
  have p: "push_link ft (of_nat a) t (of_nat b) =
      Inr (ft\<lparr>m_switchLinkNodeTypeIndex := pushed (m_switchLinkNodeTypeIndex ft) [(a, node t b)]\<rparr>)" for t
    by (rule push_link_ok) (use ab l in simp_all)
  have q: "push_link gt (of_nat b) t i = Inl Undefined" if "length (m_switchLinkNodeTypeIndex gt) = 5 * (h * h)" for gt t i
    using ab(4) that unat_u32 [OF ab(3)] by (simp add: push_link_def)
  have body: "pod_body (of_nat (2 * h)) (of_nat 0) (of_nat 0) ft = Inl Undefined"
    unfolding pod_body_def Let_def l(2,3) w p sum.case
    by (subst q) (simp_all add: l(1))
  have m: "map of_nat [0..<h] = (of_nat 0 :: u32) # map of_nat [1..<h]" using assms(1) by (simp add: upt_conv_Cons)
  have "for_each (uints ?P) (\<lambda>i. for_each (map of_nat [0..<h]) (\<lambda>j. for_each (map of_nat [0..<h]) (pod_body i j))) (bare_tree h ?P []) = Inl Undefined"
    unfolding u for_each_append pods_loop [OF s assms(2) order_refl, folded pods_ops_def ft_def] sum.case
    unfolding m for_each.simps body sum.case ..
  then show ?thesis unfolding FattreeTopoHelper_def BuildTopo_start [OF d assms(2)] by simp
qed

subsection \<open>The file of a tree\<close>

text \<open>The links of a tree as the topology reader describes them.\<close>

definition described :: "string \<Rightarrow> string \<Rightarrow> LinkNodeTypeIndex_t list list \<Rightarrow> link_fields list" where
  "described rate del ls =
     concat (map (\<lambda>i. map (\<lambda>l. (of_nat i, CHR ''s'', node_index l, node_type l, rate, del)) (ls ! i)) [0..<length ls])"

definition tree_node_ok :: "nat \<Rightarrow> LinkNodeTypeIndex_t \<Rightarrow> bool" where
  "tree_node_ok n l \<longleftrightarrow> unat (node_index l) < n \<and> (node_type l = CHR ''s'' \<or> node_type l = CHR ''h'')"

lemma tree_nodes_ok:
  assumes "0 < h" "h \<le> 700" "i < 5 * (h * h)" "l \<in> set (tree_links h rnd ! i)"
  shows "tree_node_ok (5 * (h * h) + 2 * (h * h * h)) l"
proof -
  define n where "n = 5 * (h * h) + 2 * (h * h * h)"
  have n: "n < 2 ^ 32" using half_squared [OF assms(2)] cube_bound [OF assms(2)] by (simp add: n_def)
  have ok: "tree_node_ok n (node t k)" if "k < n" "t = CHR ''s'' \<or> t = CHR ''h''" for k t
    using that n unat_u32 [of k] by (simp add: tree_node_ok_def)
  have "tree_links h rnd ! i \<in> set (tree_links h rnd)" using assms(3) by (intro nth_mem) (simp add: tree_links_def)
  then consider "tree_links h rnd ! i = []" | a where "a < 2 * (h * h)" "tree_links h rnd ! i = aggr_links h rnd a"
    | e where "e < 2 * (h * h)" "tree_links h rnd ! i = edge_links h e"
    by (auto simp: tree_links_def)
  then show ?thesis
    unfolding n_def [symmetric]
  proof cases
    case 1
    then show "tree_node_ok n l" using assms(4) by simp
  next
    case (2 a)
    have "a div h * h + p < 2 * (h * h)" if "p < h" for p
      by (rule pod_index) (use 2(1) assms(1) that in \<open>simp_all add: less_mult_imp_div_less mult.assoc\<close>)
    then have "3 * (h * h) + a div h * h + p < n" if "p < h" for p
      using that unfolding n_def by (simp add: less_le_trans trans_less_add1)
    moreover have "c < n" if "c < h * h" for c using that by (simp add: n_def)
    ultimately have "\<forall>l \<in> set (aggr_links h rnd a). tree_node_ok n l"
      unfolding aggr_links_def by (auto simp del: of_nat_add of_nat_mult intro!: ok)
    then show "tree_node_ok n l" using 2(2) assms(4) by simp
  next
    case (3 e)
    have "e * h + p < 2 * (h * h * h)" if "p < h" for p
    proof -
      have "e * h + p < e * h + h" using that by simp
      also have "\<dots> = Suc e * h" by simp
      also have "\<dots> \<le> 2 * (h * h) * h" using 3(1) by (intro mult_le_mono1) simp
      finally show ?thesis by (simp add: mult.assoc)
    qed
    then have "5 * (h * h) + e * h + p < n" if "p < h" for p using that by (simp add: n_def add.assoc)
    then have "\<forall>l \<in> set (edge_links h e). tree_node_ok n l"
      unfolding edge_links_def by (auto simp del: of_nat_add of_nat_mult intro!: ok)
    then show "tree_node_ok n l" using 3(2) assms(4) by simp
  qed
qed

lemma topo_line_text:
  assumes "tree_node_ok n l" "i < 2 ^ 32"
  shows "topo_line rate del i l = link_text (of_nat i, CHR ''s'', node_index l, node_type l, rate, del)"
  using assms unat_u32 [OF assms(2)] by (auto simp: topo_line_def tree_node_ok_def)

definition or_default :: "string \<Rightarrow> string \<Rightarrow> string" where
  "or_default d s = (if s = [] then d else s)"

lemma WriteTopo_text:
  assumes "m_switchNum ft = of_nat n" "n = length (m_switchLinkNodeTypeIndex ft)" "m_terminalNum ft = of_nat ho" "n + ho < 2 ^ 31"
    and "m_linkNum ft = of_nat (length (concat (m_switchLinkNodeTypeIndex ft)))" "length (concat (m_switchLinkNodeTypeIndex ft)) < 2 ^ 31"
    and ok: "\<And>i l. i < n \<Longrightarrow> l \<in> set (m_switchLinkNodeTypeIndex ft ! i) \<Longrightarrow> tree_node_ok (n + ho) l"
  shows "WriteTopo ft = (m_topoFileName ft, topology_text n ho
    (described (or_default ''1000Mbps'' (m_linkDataRate ft)) (or_default ''0.01ms'' (m_linkDelay ft)) (m_switchLinkNodeTypeIndex ft))
    (replicate n ''BASIC''))"
proof -
  let ?ls = "m_switchLinkNodeTypeIndex ft" and ?r = "or_default ''1000Mbps'' (m_linkDataRate ft)" and ?d = "or_default ''0.01ms'' (m_linkDelay ft)"
  have u: "unat (m_switchNum ft) = n" "unat (m_terminalNum ft) = ho" "unat (m_linkNum ft) = length (concat ?ls)"
    unfolding assms(1,3,5) using assms(4,6) by (intro unat_u32; simp)+
  have "map (topo_line ?r ?d i) (?ls ! i) = map link_text (map (\<lambda>l. (of_nat i, CHR ''s'', node_index l, node_type l, ?r, ?d)) (?ls ! i))" if "i < n" for i
    using topo_line_text [OF ok [OF that]] that assms(4) by simp
  then have "map (\<lambda>i. map (topo_line ?r ?d i) (?ls ! i)) [0..<n] =
      map (\<lambda>i. map link_text (map (\<lambda>l. (of_nat i, CHR ''s'', node_index l, node_type l, ?r, ?d)) (?ls ! i))) [0..<n]"
    by (intro map_cong [OF refl]) (simp only: set_upt atLeastLessThan_iff)
  then have links: "concat (map (\<lambda>i. map (topo_line ?r ?d i) (?ls ! i)) [0..<n]) = map link_text (described ?r ?d ?ls)"
    unfolding described_def assms(2) [symmetric] map_concat map_map comp_def by (rule arg_cong)
  have "map (\<lambda>i. dec i @ '' '' @ ''BASIC'') [0..<n] = map function_text (enumerate 0 (replicate n ''BASIC''))"
    by (simp add: enumerate_eq_zip zip_replicate2 comp_def function_text_def)
  moreover have "length (described ?r ?d ?ls) = length (concat ?ls)"
  proof -
    have "map (\<lambda>i. length (?ls ! i)) [0..<length ?ls] = map length ?ls" by (rule nth_equalityI) simp_all
    then show ?thesis by (simp add: described_def length_concat comp_def)
  qed
  ultimately show ?thesis
    unfolding WriteTopo_def Let_def u or_default_def [symmetric] links topology_text_def header_text_def by simp
qed


lemma tree_read_back:
  assumes "0 < h" "h \<le> 700" "rate = [] \<or> word rate" "del = [] \<or> word del"
    and tree: "FattreeTopoHelper rnd (of_nat (2 * h)) name = Inr ft0"
    and ft: "ft = SetLinkDelay (SetLinkDataRate ft0 rate) del"
    and written: "fs (fst (WriteTopo ft)) = Some (snd (WriteTopo ft))"
  shows "\<exists>r. Read fs (SetFileName (P4TopologyReader k) name) = (r, Inr True) \<and>
    map link_fields (m_links r) = described (or_default ''1000Mbps'' rate) (or_default ''0.01ms'' del) (m_switchLinkNodeTypeIndex ft0) \<and>
    m_switchNetFunc r = replicate (5 * (h * h)) ''BASIC'' \<and>
    length (m_switches r) = 5 * (h * h) \<and> length (m_hosts r) = 2 * (h * h * h)"
proof -
  define n where "n = 5 * (h * h)"
  define ho where "ho = 2 * (h * h * h)"
  have t: "m_switchLinkNodeTypeIndex ft0 = tree_links h rnd" "m_switchNum ft0 = of_nat n" "m_terminalNum ft0 = of_nat ho"
    "m_linkNum ft0 = of_nat (length (concat (tree_links h rnd)))" "m_topoFileName ft0 = name"
    using FattreeTopoHelper_tree [OF assms(1,2), of rnd name] tree unfolding n_def ho_def by (metis sum.inject(2))+
  have s: "m_switchLinkNodeTypeIndex ft = tree_links h rnd" "m_switchNum ft = of_nat n" "m_terminalNum ft = of_nat ho"
    "m_linkNum ft = of_nat (length (concat (tree_links h rnd)))" "m_topoFileName ft = name" "m_linkDataRate ft = rate" "m_linkDelay ft = del"
    unfolding ft SetLinkDelay_def SetLinkDataRate_def by (simp_all add: t)
  have b: "n + ho < 2 ^ 31" "length (concat (tree_links h rnd)) < 2 ^ 31"
    using half_squared [OF assms(2)] cube_bound [OF assms(2)] unfolding n_def ho_def tree_links_number_value [OF assms(1)] by simp_all
  have l: "n = length (tree_links h rnd)" by (simp add: n_def tree_links_def)
  have ok: "tree_node_ok (n + ho) l" if "i < n" "l \<in> set (tree_links h rnd ! i)" for i l
    using tree_nodes_ok [OF assms(1,2) _ that(2)] that(1) by (simp add: n_def ho_def)
  let ?ls = "described (or_default ''1000Mbps'' rate) (or_default ''0.01ms'' del) (tree_links h rnd)"
  have W: "WriteTopo ft = (name, topology_text n ho ?ls (replicate n ''BASIC''))"
    using WriteTopo_text [of ft n ho] l b ok unfolding s by blast
  have words: "word (or_default ''1000Mbps'' rate)" "word (or_default ''0.01ms'' del)" "word ''BASIC''"
    using assms(3,4) by (auto simp: or_default_def word_def isspace_def code_def)
  have links: "\<forall>l \<in> set ?ls. link_ok (n + ho) l"
  proof
    fix x assume "x \<in> set ?ls"
    then obtain i l where i: "i < n" "l \<in> set (tree_links h rnd ! i)"
      and x: "x = (of_nat i, CHR ''s'', node_index l, node_type l, or_default ''1000Mbps'' rate, or_default ''0.01ms'' del)"
      by (auto simp: described_def l)
    have "unat (of_nat i :: u32) = i" by (rule unat_u32) (use i(1) b(1) in simp)
    moreover have "\<not> isspace CHR ''s''" "\<not> isspace CHR ''h''" by (simp_all add: isspace_def code_def)
    ultimately show "link_ok (n + ho) x" using ok [OF i] words i(1) by (auto simp: x tree_node_ok_def)
  qed
  have len: "length ?ls < 2 ^ 31"
  proof -
    have "map (\<lambda>i. length (tree_links h rnd ! i)) [0..<length (tree_links h rnd)] = map length (tree_links h rnd)"
      by (rule nth_equalityI) simp_all
    then have "length ?ls = length (concat (tree_links h rnd))" by (simp add: described_def length_concat comp_def)
    with b(2) show ?thesis by simp
  qed
  have "fs name = Some (topology_text n ho ?ls (replicate n ''BASIC''))" using written W by simp
  from read_written_helper [where fs = fs and name = name and n = k, OF this links _ _ b(1) len] words(3)
  show ?thesis unfolding t(1) n_def [symmetric] ho_def [symmetric] by simp
qed

text \<open>C20. The fat tree survives its file. The file that \<open>Write\<close> produces for a tree of \<open>2 * h\<close> pods, with its
  data rate and delay set to words or left to their defaults, is understood by the topology reader,
  which finds every link of the tree, in order, and no other, the announced numbers of switches
  and hosts, and the function \<open>BASIC\<close> for every switch.\<close>

theorem fattree_file_round_trip:
  assumes "0 < h" "h \<le> 700" "rate = [] \<or> word rate" "del = [] \<or> word del"
    and tree: "FattreeTopoHelper rnd (of_nat (2 * h)) name = Inr ft0"
    and ft: "ft = SetLinkDelay (SetLinkDataRate ft0 rate) del"
    and written: "fs (fst (WriteTopo ft)) = Some (snd (WriteTopo ft))"
  shows "\<exists>r. Read fs (SetFileName (P4TopologyReader k) name) = (r, Inr True) \<and>
    map link_fields (m_links r) = described (or_default ''1000Mbps'' rate) (or_default ''0.01ms'' del) (m_switchLinkNodeTypeIndex ft0) \<and>
    m_switchNetFunc r = replicate (5 * (h * h)) ''BASIC'' \<and>
    length (m_switches r) = 5 * (h * h) \<and> length (m_hosts r) = 2 * (h * h * h)"
  by (rule tree_read_back [where fs = fs, OF assms])

subsection \<open>Examples\<close>

lemma two_pods: "0 < (2 :: nat)" "2 \<le> (700 :: nat)"
  by simp_all

theorem fattree_hosts_once_witness:
  "\<exists>ft. FattreeTopoHelper (\<lambda>i. 7) (of_nat (2 * 2)) ''t'' = Inr ft \<and>
    map node_index (filter is_host (concat (m_switchLinkNodeTypeIndex ft))) = map of_nat [20..<36]"
proof -
  obtain ft where "FattreeTopoHelper (\<lambda>i. 7) (of_nat (2 * 2)) ''t'' = Inr ft"
    "map node_index (filter is_host (concat (m_switchLinkNodeTypeIndex ft))) = map of_nat [5 * (2 * 2)..<5 * (2 * 2) + 2 * (2 * 2 * 2)]"
    using fattree_hosts_once [OF two_pods, of "\<lambda>i. 7" "''t''"] by blast
  then show ?thesis by (intro exI [of _ ft]) simp
qed

theorem fattree_core_links_witness:
  "\<exists>ft. FattreeTopoHelper (\<lambda>i. 7) (of_nat (2 * 2)) ''t'' = Inr ft \<and>
    (\<forall>j < 2 * 2. \<exists>q < 2. \<forall>c < 2 * 2. node CHR ''s'' c \<notin> set (m_switchLinkNodeTypeIndex ft ! (2 * 2 + (j * 2 + q))))"
proof -
  obtain ft where "FattreeTopoHelper (\<lambda>i. 7) (of_nat (2 * 2)) ''t'' = Inr ft"
    "2 \<le> (2 :: nat) \<longrightarrow> (\<forall>c < 2 * 2. (7 :: u32) = 7) \<longrightarrow>
       (\<forall>j < 2 * 2. \<exists>q < 2. \<forall>c < 2 * 2. node CHR ''s'' c \<notin> set (m_switchLinkNodeTypeIndex ft ! (2 * 2 + (j * 2 + q))))"
    using fattree_core_links [OF two_pods, of "\<lambda>i. 7" "''t''"] by blast
  then show ?thesis by (intro exI [of _ ft]) blast
qed

theorem fattree_odd_pods_undefined_witness: "FattreeTopoHelper (\<lambda>i. 7) 3 ''t'' = Inl Undefined"
  using fattree_odd_pods_undefined [of 1 "\<lambda>i. 7" "''t''"] by simp

theorem fattree_file_round_trip_witness:
  "\<exists>ft r. FattreeTopoHelper (\<lambda>i. 7) (of_nat (2 * 2)) ''t'' = Inr ft \<and>
    Read (\<lambda>name. if name = ''t'' then Some (snd (WriteTopo (SetLinkDelay (SetLinkDataRate ft '''') ''1ms''))) else None)
      (SetFileName (P4TopologyReader 0) ''t'') = (r, Inr True) \<and>
    map link_fields (m_links r) = described ''1000Mbps'' ''1ms'' (m_switchLinkNodeTypeIndex ft) \<and> length (m_hosts r) = 16"
proof -
  obtain ft where ft: "FattreeTopoHelper (\<lambda>i. 7) (of_nat (2 * 2)) ''t'' = Inr ft" "m_topoFileName ft = ''t''"
    using FattreeTopoHelper_tree [OF two_pods, of "\<lambda>i. 7" "''t''"] by blast
  let ?ft = "SetLinkDelay (SetLinkDataRate ft '''') ''1ms''"
  let ?fs = "\<lambda>name. if name = ''t'' then Some (snd (WriteTopo ?ft)) else None"
  have w: "'''' = '''' \<or> word ''''" "''1ms'' = '''' \<or> word ''1ms''" by (simp_all add: word_def isspace_def code_def)
  have f: "?fs (fst (WriteTopo ?ft)) = Some (snd (WriteTopo ?ft))"
    by (simp add: WriteTopo_def Let_def SetLinkDelay_def SetLinkDataRate_def ft(2))
  show ?thesis
    using ft(1) fattree_file_round_trip [where fs = ?fs and k = 0, OF two_pods w ft(1) refl f] by (auto simp: or_default_def)
qed

subsection \<open>Decimal text\<close>

lemma uint_digits_dec: "0 < n \<Longrightarrow> uint_digits n res = dec n @ res"
proof (induction n arbitrary: res rule: dec.induct)
  case (1 n)
  show ?case
  proof (cases "n < 10")
    case True
    then show ?thesis using 1 by (simp add: uint_digits.simps [of n] uint_digits.simps [of 0] dec.simps [of n])
  next
    case False
    then have "uint_digits n res = uint_digits (n div 10) (digit_char (n mod 10) # res)" by (subst uint_digits.simps) simp
    also have "\<dots> = dec (n div 10) @ digit_char (n mod 10) # res" using 1 False by simp
    finally show ?thesis using False by (simp add: dec.simps [of n])
  qed
qed

lemma UintToStr_dec: "UintToStr v = dec (unat v)"
proof (cases "v = 0")
  case True
  then show ?thesis by (simp add: UintToStr_def dec.simps [of 0] digit_char_def char_of_def bit_0 bit_Suc)
next
  case False
  then have "0 < unat v" by (simp add: unat_gt_0)
  with False show ?thesis by (simp add: UintToStr_def uint_digits_dec)
qed

end
