(* ===== verification/Flow_Table.thy ===== *)
theory Flow_Table
  imports Fattree_Topo
begin

text \<open>
  The flow table builder (\<open>helper/build-flowtable-helper.h\<close>, \<open>helper/build-flowtable-helper.cc\<close>):
  from the hosts, the switches and what each switch port is linked to, a flow table is computed for
  every switch, by a depth-first search from every host (\<open>default\<close>) or along the levels of a fat
  tree (\<open>fattree\<close>), and written as one command file per switch. A vector index outside its range
  and a division by zero are undefined behaviour. The results of \<open>rand()\<close> are a parameter.
\<close>

subsection \<open>Hosts, switches and entries\<close>

record HostNode_t =
  ipAddr :: string
  linkSwitchIndex :: u32
  portIndex :: u32

text \<open>What a port is linked to: a host (flag 0) or a port of a switch (flag 1).\<close>

record NodeFlagIndex_t =
  flag :: int
  nodeIndex :: u32
  nodePort :: u32

record FlowTableEntry_t =
  srcIp :: string
  dstIp :: string
  outPort :: u32

record SwitchNode_t =
  flowTableEntries :: "FlowTableEntry_t list"
  portNode :: "NodeFlagIndex_t list"

record SaveNode_t =
  switchIndex :: u32
  inPortIndex :: u32
  outPortIndex :: u32

text \<open>\<open>std::string::substr\<close> with a position past the end throws.\<close>

definition substr :: "string \<Rightarrow> nat \<Rightarrow> nat \<Rightarrow> stop + string" where
  "substr s pos n = (if length s < pos then Inl OutOfRange else Inr (take n (drop pos s)))"

text \<open>A \<open>char\<close> is signed.\<close>

definition char_value :: "char \<Rightarrow> int" where
  "char_value c = (if code c < 128 then int (code c) else int (code c) - 256)"

definition StrToUint :: "string \<Rightarrow> u32" where
  "StrToUint str = foldl (\<lambda>res c. res * 10 + of_int (char_value c) - 48) 0 str"

text \<open>\<open>find("_")\<close>, cut to 32 bits: all ones when there is none.\<close>

definition find_underscore :: "string \<Rightarrow> u32" where
  "find_underscore s =
     (let n = length (takeWhile (\<lambda>c. c \<noteq> CHR ''_'') s) in if n = length s then - 1 else of_nat n)"

text \<open>One port description: \<open>s0_1\<close> is port 1 of switch 0, \<open>h3\<close> is host 3.\<close>

definition parse_port :: "string \<Rightarrow> stop + NodeFlagIndex_t" where
  "parse_port pn =
     (if prefix ''s'' pn
      then
        (let pos = find_underscore pn
         in case substr pn 1 (unat (pos - 1)) of
              Inl e \<Rightarrow> Inl e
            | Inr a \<Rightarrow>
                (case substr pn (unat (pos + 1)) (length pn) of
                   Inl e \<Rightarrow> Inl e
                 | Inr b \<Rightarrow> Inr \<lparr>flag = 1, nodeIndex = StrToUint a, nodePort = StrToUint b\<rparr>))
      else
        (case substr pn 1 (length pn) of
           Inl e \<Rightarrow> Inl e
         | Inr a \<Rightarrow> Inr \<lparr>flag = 0, nodeIndex = StrToUint a, nodePort = 0\<rparr>))"

definition SwitchNode :: "string list \<Rightarrow> stop + SwitchNode_t" where
  "SwitchNode pn =
     for_each pn
       (\<lambda>s sw. case parse_port s of Inl e \<Rightarrow> Inl e | Inr x \<Rightarrow> Inr (sw\<lparr>portNode := portNode sw @ [x]\<rparr>))
       \<lparr>flowTableEntries = [], portNode = []\<rparr>"

subsection \<open>The helper\<close>

record flow_helper =
  fh_podNum :: u32
  fh_buildType :: string
  m_hostNodes :: "HostNode_t list"
  m_switchNodes :: "SwitchNode_t list"

definition BuildFlowtableHelper :: "string \<Rightarrow> u32 \<Rightarrow> flow_helper" where
  "BuildFlowtableHelper buildType podNum =
     \<lparr>fh_podNum = podNum, fh_buildType = buildType, m_hostNodes = [], m_switchNodes = []\<rparr>"

text \<open>An entry at the end of a switch's table, with the addresses of two hosts.\<close>

definition AddFlowtableEntry :: "flow_helper \<Rightarrow> u32 \<Rightarrow> u32 \<Rightarrow> u32 \<Rightarrow> u32 \<Rightarrow> stop + flow_helper" where
  "AddFlowtableEntry h sw src dst out =
     (if length (m_switchNodes h) \<le> unat sw \<or> length (m_hostNodes h) \<le> unat src \<or> length (m_hostNodes h) \<le> unat dst
      then Inl Undefined
      else
        (let s = m_switchNodes h ! unat sw;
             e = \<lparr>srcIp = ipAddr (m_hostNodes h ! unat src), dstIp = ipAddr (m_hostNodes h ! unat dst), outPort = out\<rparr>
         in Inr (h\<lparr>m_switchNodes := (m_switchNodes h)[unat sw := s\<lparr>flowTableEntries := flowTableEntries s @ [e]\<rparr>]\<rparr>)))"

text \<open>An entry for each direction.\<close>

definition AddFlowtableEntry2 :: "flow_helper \<Rightarrow> u32 \<Rightarrow> u32 \<Rightarrow> u32 \<Rightarrow> u32 \<Rightarrow> u32 \<Rightarrow> stop + flow_helper" where
  "AddFlowtableEntry2 h src inPort sw out dst =
     (case AddFlowtableEntry h sw dst src inPort of
        Inl e \<Rightarrow> Inl e
      | Inr h \<Rightarrow> AddFlowtableEntry h sw src dst out)"

subsection \<open>The search\<close>

text \<open>
  The arguments that \<open>Dfs\<close> passes by reference: the helper, the stack of switches passed (top
  first), the set of switches passed, the matrix of linked hosts and the counter of links.
\<close>

record search =
  se_helper :: flow_helper
  passSwitch :: "SaveNode_t list"
  recordPassSwitch :: "u32 set"
  hostLink :: "u32 list list"
  linkCounter :: u32

definition trim :: "nat \<Rightarrow> 'a list \<Rightarrow> 'a list" where
  "trim n s = drop (length s - n) s"

text \<open>A port with a host: when the two hosts are not linked yet, every switch on the stack and the current one get entries.\<close>

definition dfs_host :: "u32 \<Rightarrow> u32 \<Rightarrow> u32 \<Rightarrow> nat \<Rightarrow> nat \<Rightarrow> u32 \<Rightarrow> search \<Rightarrow> stop + search" where
  "dfs_host hostIndex sw inPort cur t dst st =
     (if length (hostLink st) \<le> unat hostIndex \<or> length (hostLink st ! unat hostIndex) \<le> unat dst then Inl Undefined
      else if hostLink st ! unat hostIndex ! unat dst \<noteq> 0 then Inr st
      else if length (hostLink st) \<le> unat dst \<or> length (hostLink st ! unat dst) \<le> unat hostIndex then Inl Undefined
      else
        (let link = (hostLink st)[unat hostIndex := (hostLink st ! unat hostIndex)[unat dst := 1]];
             link = link[unat dst := (link ! unat dst)[unat hostIndex := 1]];
             st = st\<lparr>hostLink := link, linkCounter := linkCounter st + 2\<rparr>
         in case for_each (trim cur (passSwitch st))
                   (\<lambda>s h. AddFlowtableEntry2 h hostIndex (inPortIndex s) (switchIndex s) (outPortIndex s) dst) (se_helper st) of
              Inl e \<Rightarrow> Inl e
            | Inr h \<Rightarrow>
                (case AddFlowtableEntry2 h hostIndex inPort sw (of_nat t) dst of
                   Inl e \<Rightarrow> Inl e
                 | Inr h \<Rightarrow> Inr (st\<lparr>se_helper := h\<rparr>))))"

text \<open>One port of the current switch; \<open>rec\<close> searches on from a switch and the port it is entered by.\<close>

definition dfs_port ::
  "(u32 \<Rightarrow> u32 \<Rightarrow> search \<Rightarrow> stop + search) \<Rightarrow> u32 \<Rightarrow> u32 \<Rightarrow> u32 \<Rightarrow> nat \<Rightarrow> nat \<Rightarrow> search \<Rightarrow> stop + search" where
  "dfs_port rec hostIndex sw inPort cur t st =
     (if t = unat inPort then Inr st
      else
        (let pn = portNode (m_switchNodes (se_helper st) ! unat sw) ! t
         in if flag pn = 0 then dfs_host hostIndex sw inPort cur t (nodeIndex pn) st
            else if nodeIndex pn \<notin> recordPassSwitch st
            then rec (nodeIndex pn) (nodePort pn)
                   (st\<lparr>passSwitch := \<lparr>switchIndex = sw, inPortIndex = inPort, outPortIndex = of_nat t\<rparr> # trim cur (passSwitch st),
                       recordPassSwitch := insert sw (recordPassSwitch st)\<rparr>)
            else Inr st))"

primrec Dfs :: "nat \<Rightarrow> u32 \<Rightarrow> u32 \<Rightarrow> u32 \<Rightarrow> search \<Rightarrow> stop + search" where
  "Dfs 0 hostIndex sw inPort st = Inl NoFuel"
| "Dfs (Suc fuel) hostIndex sw inPort st =
     (if length (m_switchNodes (se_helper st)) \<le> unat sw then Inl Undefined
      else for_each [0..<length (portNode (m_switchNodes (se_helper st) ! unat sw))]
             (dfs_port (Dfs fuel hostIndex) hostIndex sw inPort (length (passSwitch st))) st)"

definition search_fuel :: "flow_helper \<Rightarrow> nat" where
  "search_fuel h = 2 * length (m_switchNodes h) + 2"

definition DfsFromHostIndex :: "nat \<Rightarrow> search \<Rightarrow> stop + search" where
  "DfsFromHostIndex i st =
     (if length (m_hostNodes (se_helper st)) \<le> i then Inl Undefined
      else
        (let host = m_hostNodes (se_helper st) ! i
         in Dfs (search_fuel (se_helper st)) (of_nat i) (linkSwitchIndex host) (portIndex host)
              (st\<lparr>passSwitch := [], recordPassSwitch := {}\<rparr>)))"

text \<open>The hosts in turn, until the counter says that all pairs are linked.\<close>

fun search_hosts :: "nat list \<Rightarrow> u32 \<Rightarrow> search \<Rightarrow> stop + search" where
  "search_hosts [] linkSum st = Inr st"
| "search_hosts (i # is) linkSum st =
     (if linkCounter st < linkSum
      then (case DfsFromHostIndex i st of Inl e \<Rightarrow> Inl e | Inr st \<Rightarrow> search_hosts is linkSum st)
      else Inr st)"

subsection \<open>The levels of a fat tree\<close>

text \<open>The helper, the hosts that each switch reaches downwards, and the number of calls of \<open>rand()\<close> so far.\<close>

record levels =
  lv_helper :: flow_helper
  switchReachHostIndexMap :: "u32 list list"
  lv_calls :: nat

text \<open>An entry without a source for a host.\<close>

definition push_entry :: "nat \<Rightarrow> u32 \<Rightarrow> nat \<Rightarrow> levels \<Rightarrow> stop + levels" where
  "push_entry sw host port lv =
     (let h = lv_helper lv
      in if length (m_hostNodes h) \<le> unat host then Inl Undefined
         else
           (let s = m_switchNodes h ! sw;
                e = \<lparr>srcIp = [], dstIp = ipAddr (m_hostNodes h ! unat host), outPort = of_nat port\<rparr>
            in Inr (lv\<lparr>lv_helper := h\<lparr>m_switchNodes := (m_switchNodes h)[sw := s\<lparr>flowTableEntries := flowTableEntries s @ [e]\<rparr>]\<rparr>\<rparr>)))"

definition push_reach :: "nat \<Rightarrow> u32 \<Rightarrow> levels \<Rightarrow> stop + levels" where
  "push_reach sw host lv =
     (if length (switchReachHostIndexMap lv) \<le> sw then Inl Undefined
      else Inr (lv\<lparr>switchReachHostIndexMap := (switchReachHostIndexMap lv)[sw := switchReachHostIndexMap lv ! sw @ [host]]\<rparr>))"

text \<open>Every host that is not reached downwards gets a random one of the other ports.\<close>

definition push_other :: "(nat \<Rightarrow> u32) \<Rightarrow> nat \<Rightarrow> u32 set \<Rightarrow> nat list \<Rightarrow> u32 \<Rightarrow> levels \<Rightarrow> stop + levels" where
  "push_other rnd sw linked otherPortIndex p lv =
     (if p \<in> linked then Inr lv
      else if length (m_hostNodes (lv_helper lv)) \<le> unat p \<or> otherPortIndex = [] then Inl Undefined
      else push_entry sw p (otherPortIndex ! (unat (rnd (lv_calls lv)) mod length otherPortIndex)) (lv\<lparr>lv_calls := lv_calls lv + 1\<rparr>))"

text \<open>A port of an edge switch: a host is reached, a switch is another way up.\<close>

definition edge_port :: "nat \<Rightarrow> nat \<Rightarrow> u32 set \<times> nat list \<times> levels \<Rightarrow> stop + u32 set \<times> nat list \<times> levels" where
  "edge_port sw p s =
     (case s of (linked, other, lv) \<Rightarrow>
        (let pn = portNode (m_switchNodes (lv_helper lv) ! sw) ! p
         in if flag pn = 0
            then (case push_reach sw (nodeIndex pn) lv of
                    Inl e \<Rightarrow> Inl e
                  | Inr lv \<Rightarrow>
                      (case push_entry sw (nodeIndex pn) p lv of
                         Inl e \<Rightarrow> Inl e
                       | Inr lv \<Rightarrow> Inr (insert (nodeIndex pn) linked, other, lv)))
            else Inr (linked, other @ [p], lv)))"

definition edge_switch :: "(nat \<Rightarrow> u32) \<Rightarrow> u32 \<Rightarrow> u32 \<Rightarrow> levels \<Rightarrow> stop + levels" where
  "edge_switch rnd hostNum cur lv =
     (if length (m_switchNodes (lv_helper lv)) \<le> unat cur then Inl Undefined
      else (case for_each [0..<length (portNode (m_switchNodes (lv_helper lv) ! unat cur))] (edge_port (unat cur)) ({}, [], lv) of
              Inl e \<Rightarrow> Inl e
            | Inr (linked, other, lv) \<Rightarrow> for_each (uints hostNum) (push_other rnd (unat cur) linked other) lv))"

text \<open>A port of an aggregation switch: a larger index is an edge switch, whose hosts are reached.\<close>

definition aggr_host :: "nat \<Rightarrow> nat \<Rightarrow> u32 \<Rightarrow> u32 set \<times> levels \<Rightarrow> stop + u32 set \<times> levels" where
  "aggr_host sw p host s =
     (case s of (linked, lv) \<Rightarrow>
        (if length (m_hostNodes (lv_helper lv)) \<le> unat host then Inl Undefined
         else (case push_reach sw host lv of
                 Inl e \<Rightarrow> Inl e
               | Inr lv \<Rightarrow>
                   (case push_entry sw host p lv of
                      Inl e \<Rightarrow> Inl e
                    | Inr lv \<Rightarrow> Inr (insert host linked, lv)))))"

definition aggr_port :: "u32 \<Rightarrow> nat \<Rightarrow> u32 set \<times> nat list \<times> levels \<Rightarrow> stop + u32 set \<times> nat list \<times> levels" where
  "aggr_port cur p s =
     (case s of (linked, other, lv) \<Rightarrow>
        (let link = nodeIndex (portNode (m_switchNodes (lv_helper lv) ! unat cur) ! p)
         in if link > cur
            then (if length (switchReachHostIndexMap lv) \<le> unat link then Inl Undefined
                  else (case for_each (switchReachHostIndexMap lv ! unat link) (aggr_host (unat cur) p) (linked, lv) of
                          Inl e \<Rightarrow> Inl e
                        | Inr (linked, lv) \<Rightarrow> Inr (linked, other, lv)))
            else Inr (linked, other @ [p], lv)))"

definition aggr_switch :: "(nat \<Rightarrow> u32) \<Rightarrow> u32 \<Rightarrow> u32 \<Rightarrow> levels \<Rightarrow> stop + levels" where
  "aggr_switch rnd hostNum cur lv =
     (if length (m_switchNodes (lv_helper lv)) \<le> unat cur then Inl Undefined
      else (case for_each [0..<length (portNode (m_switchNodes (lv_helper lv) ! unat cur))] (aggr_port cur) ({}, [], lv) of
              Inl e \<Rightarrow> Inl e
            | Inr (linked, other, lv) \<Rightarrow> for_each (uints hostNum) (push_other rnd (unat cur) linked other) lv))"

text \<open>A core switch forwards to each switch below what that switch reaches.\<close>

definition core_port :: "nat \<Rightarrow> nat \<Rightarrow> levels \<Rightarrow> stop + levels" where
  "core_port sw p lv =
     (let pn = portNode (m_switchNodes (lv_helper lv) ! sw) ! p
      in if flag pn = 1
         then (if length (switchReachHostIndexMap lv) \<le> unat (nodeIndex pn) then Inl Undefined
               else for_each (switchReachHostIndexMap lv ! unat (nodeIndex pn)) (\<lambda>host. push_entry sw host p) lv)
         else Inr lv)"

definition core_switch :: "u32 \<Rightarrow> levels \<Rightarrow> stop + levels" where
  "core_switch i lv =
     (if length (m_switchNodes (lv_helper lv)) \<le> unat i then Inl Undefined
      else for_each [0..<length (portNode (m_switchNodes (lv_helper lv) ! unat i))] (core_port (unat i)) lv)"

definition BuildFattreeFlowTable :: "(nat \<Rightarrow> u32) \<Rightarrow> flow_helper \<Rightarrow> stop + flow_helper" where
  "BuildFattreeFlowTable rnd h =
     (let podNum = fh_podNum h;
          coreSwitchNum = (podNum div 2) * (podNum div 2);
          hostNum = coreSwitchNum * podNum;
          switchNum = 5 * coreSwitchNum;
          halfPodNum = podNum div 2;
          aggrStartIndex = coreSwitchNum;
          edgeStartIndex = 3 * coreSwitchNum;
          lv = \<lparr>lv_helper = h, switchReachHostIndexMap = replicate (unat switchNum) [], lv_calls = 0\<rparr>
      in case for_each (uints podNum) (\<lambda>i. for_each (uints halfPodNum) (\<lambda>j. edge_switch rnd hostNum (edgeStartIndex + i * halfPodNum + j))) lv of
           Inl e \<Rightarrow> Inl e
         | Inr lv \<Rightarrow>
             (case for_each (uints podNum) (\<lambda>i. for_each (uints halfPodNum) (\<lambda>j. aggr_switch rnd hostNum (aggrStartIndex + i * halfPodNum + j))) lv of
                Inl e \<Rightarrow> Inl e
              | Inr lv \<Rightarrow>
                  (case for_each (uints coreSwitchNum) core_switch lv of
                     Inl e \<Rightarrow> Inl e
                   | Inr lv \<Rightarrow> Inr (lv_helper lv))))"

text \<open>\<open>BuildSilkroadFlowTable\<close> is an empty function.\<close>

definition BuildSilkroadFlowTable :: "flow_helper \<Rightarrow> flow_helper" where
  "BuildSilkroadFlowTable h = h"

definition SetSwitchesFlowtableEntries :: "(nat \<Rightarrow> u32) \<Rightarrow> flow_helper \<Rightarrow> stop + flow_helper" where
  "SetSwitchesFlowtableEntries rnd h =
     (if fh_buildType h = ''default''
      then
        (let n = length (m_hostNodes h);
             linkSum = of_nat n * (of_nat n - 1)
         in case search_hosts [0..<n] linkSum
                   \<lparr>se_helper = h, passSwitch = [], recordPassSwitch = {}, hostLink = replicate n (replicate n 0), linkCounter = 0\<rparr> of
              Inl e \<Rightarrow> Inl e
            | Inr st \<Rightarrow> Inr (se_helper st))
      else if fh_buildType h = ''fattree'' then BuildFattreeFlowTable rnd h
      else if fh_buildType h = ''silkroad'' then Inr (BuildSilkroadFlowTable h)
      else Inr h)"

text \<open>\<open>Build\<close>: as many hosts as \<open>linkSwitchIndex\<close> has entries; the other two lists are read by the same index.\<close>

definition BuildFlowTables ::
  "(nat \<Rightarrow> u32) \<Rightarrow> flow_helper \<Rightarrow> u32 list \<Rightarrow> u32 list \<Rightarrow> string list \<Rightarrow> string list list \<Rightarrow> stop + flow_helper" where
  "BuildFlowTables rnd h linkSwitch linkPort hostIpv4 switchPortInfo =
     (if length hostIpv4 < length linkSwitch \<or> length linkPort < length linkSwitch then Inl Undefined
      else
        (let h = h\<lparr>m_hostNodes := m_hostNodes h @
                     map (\<lambda>i. \<lparr>ipAddr = hostIpv4 ! i, linkSwitchIndex = linkSwitch ! i, portIndex = linkPort ! i\<rparr>) [0..<length linkSwitch]\<rparr>
         in case for_each switchPortInfo
                   (\<lambda>pn h. case SwitchNode pn of Inl e \<Rightarrow> Inl e | Inr s \<Rightarrow> Inr (h\<lparr>m_switchNodes := m_switchNodes h @ [s]\<rparr>)) h of
              Inl e \<Rightarrow> Inl e
            | Inr h \<Rightarrow> SetSwitchesFlowtableEntries rnd h))"

subsection \<open>Text\<close>

definition FlowUintToStr :: "u32 \<Rightarrow> string" where
  "FlowUintToStr num = (if num \<noteq> 0 then uint_digits (unat num) [] else ''0'')"

text \<open>\<open>UintToPortStr\<close> writes the digits from the last character of \<open>0x0000\<close> to the front, without a bound.\<close>

fun port_digits :: "nat \<Rightarrow> u32 \<Rightarrow> string \<Rightarrow> stop + string" where
  "port_digits num k res =
     (if num = 0 then Inr res
      else if length res \<le> unat k then Inl Undefined
      else port_digits (num div 16) (k - 1) (res[unat k := digit_char (num mod 16)]))"

declare port_digits.simps [simp del]

definition UintToPortStr :: "u32 \<Rightarrow> stop + string" where
  "UintToPortStr num = (if num \<noteq> 0 then port_digits (unat num) 5 ''0x0000'' else Inr ''0x0000'')"

definition default_lines :: "string list" where
  "default_lines = [''table_set_default ipv4_nhop _drop'', ''table_set_default arp_nhop _drop'', ''table_set_default forward_table _drop'']"

definition entry_lines :: "FlowTableEntry_t \<Rightarrow> string list" where
  "entry_lines e =
     [''table_add ipv4_nhop set_ipv4_nhop '' @ dstIp e @ '' => '' @ dstIp e,
      ''table_add arp_nhop set_arp_nhop '' @ dstIp e @ '' => '' @ dstIp e,
      ''table_add forward_table set_port '' @ dstIp e @ '' => '' @ dec (unat (outPort e))]"

text \<open>Only the first entry for a destination is written.\<close>

fun write_entries :: "string set \<Rightarrow> FlowTableEntry_t list \<Rightarrow> string list" where
  "write_entries handled [] = []"
| "write_entries handled (e # es) =
     (if dstIp e \<in> handled then write_entries handled es
      else entry_lines e @ write_entries (insert (dstIp e) handled) es)"

text \<open>The files that are written: name and text.\<close>

definition WriteFlowTables :: "flow_helper \<Rightarrow> string \<Rightarrow> (string \<times> string) list" where
  "WriteFlowTables h fileDir =
     map (\<lambda>i. (fileDir @ ''/'' @ ''flowtable_'' @ FlowUintToStr (of_nat i),
               unlines (default_lines @ write_entries {} (flowTableEntries (m_switchNodes h ! i)))))
       [0..<length (m_switchNodes h)]"

definition ShowFlowTables :: "flow_helper \<Rightarrow> string" where
  "ShowFlowTables h =
     unlines (concat (map (\<lambda>i. (''s'' @ dec i @ '':'') #
       map (\<lambda>e. srcIp e @ '' '' @ dstIp e @ '' '' @ dec (unat (outPort e))) (flowTableEntries (m_switchNodes h ! i)))
       [0..<length (m_switchNodes h)]))"

definition ShowHostSwitchNode :: "flow_helper \<Rightarrow> string" where
  "ShowHostSwitchNode h =
     unlines (map (\<lambda>i. let n = m_hostNodes h ! i in
         ''h'' @ dec i @ '': '' @ ipAddr n @ '' '' @ dec (unat (linkSwitchIndex n)) @ '' '' @ dec (unat (portIndex n)))
       [0..<length (m_hostNodes h)]) @
     concat (map (\<lambda>i. ''s'' @ dec i @ '':'' @
         unlines (map (\<lambda>p. dec_int (flag p) @ '' '' @ dec (unat (nodeIndex p)) @ '' '' @ dec (unat (nodePort p))) (portNode (m_switchNodes h ! i))))
       [0..<length (m_switchNodes h)])"

subsection \<open>The search ends\<close>

text \<open>What a step of a loop keeps, and how it can fail.\<close>

definition keeps :: "('s \<Rightarrow> bool) \<Rightarrow> (stop \<Rightarrow> bool) \<Rightarrow> stop + 's \<Rightarrow> bool" where
  "keeps P Q r \<longleftrightarrow> (case r of Inl e \<Rightarrow> Q e | Inr s \<Rightarrow> P s)"

lemma keeps_simps [simp]: "keeps P Q (Inl e) \<longleftrightarrow> Q e" "keeps P Q (Inr s) \<longleftrightarrow> P s"
  by (simp_all add: keeps_def)

lemma keeps_case:
  assumes "keeps P Q r" "\<And>s. P s \<Longrightarrow> keeps P' Q (f s)"
  shows "keeps P' Q (case r of Inl e \<Rightarrow> Inl e | Inr s \<Rightarrow> f s)"
  using assms by (cases r) auto

lemma keeps_if: "(b \<Longrightarrow> keeps P Q r) \<Longrightarrow> (\<not> b \<Longrightarrow> keeps P Q s) \<Longrightarrow> keeps P Q (if b then r else s)"
  by simp

lemma keeps_mono: "keeps P Q r \<Longrightarrow> (\<And>s. P s \<Longrightarrow> P' s) \<Longrightarrow> keeps P' Q r"
  by (cases r) auto

lemma for_each_keeps:
  assumes "\<And>x s. x \<in> set xs \<Longrightarrow> P s \<Longrightarrow> keeps P Q (body x s)" "P s"
  shows "keeps P Q (for_each xs body s)"
  using assms
proof (induction xs arbitrary: s)
  case (Cons x xs)
  then have "keeps P Q (body x s)" by simp
  then show ?case unfolding for_each.simps by (rule keeps_case) (rule Cons.IH, use Cons.prems in auto)
qed simp

text \<open>Tables change, the network does not.\<close>

definition same_net :: "flow_helper \<Rightarrow> flow_helper \<Rightarrow> bool" where
  "same_net h h' \<longleftrightarrow> m_hostNodes h' = m_hostNodes h \<and> map portNode (m_switchNodes h') = map portNode (m_switchNodes h)"

lemma same_net_refl [simp]: "same_net h h"
  by (simp add: same_net_def)

lemma same_net_trans: "same_net a b \<Longrightarrow> same_net b c \<Longrightarrow> same_net a c"
  by (simp add: same_net_def)

lemma same_net_length: "same_net h h' \<Longrightarrow> length (m_switchNodes h') = length (m_switchNodes h)"
  unfolding same_net_def by (metis length_map)

lemma same_net_ports: "same_net h h' \<Longrightarrow> s < length (m_switchNodes h) \<Longrightarrow> portNode (m_switchNodes h' ! s) = portNode (m_switchNodes h ! s)"
  unfolding same_net_def by (metis length_map nth_map)

lemma AddFlowtableEntry_keeps: "keeps (same_net h) (\<lambda>e. e \<noteq> NoFuel) (AddFlowtableEntry h sw src dst out)"
  by (simp add: AddFlowtableEntry_def Let_def same_net_def map_update list_update_id)
    (metis list_update_id map_update nth_map not_less)

lemma AddFlowtableEntry2_keeps: "keeps (same_net h) (\<lambda>e. e \<noteq> NoFuel) (AddFlowtableEntry2 h src inp sw out dst)"
  unfolding AddFlowtableEntry2_def
  by (rule keeps_case [OF AddFlowtableEntry_keeps]) (rule keeps_mono [OF AddFlowtableEntry_keeps], rule same_net_trans)

definition seen_more :: "search \<Rightarrow> search \<Rightarrow> bool" where
  "seen_more st st' \<longleftrightarrow> same_net (se_helper st) (se_helper st') \<and> recordPassSwitch st \<subseteq> recordPassSwitch st'"

lemma seen_more_refl [simp]: "seen_more st st"
  by (simp add: seen_more_def)

lemma seen_more_trans: "seen_more a b \<Longrightarrow> seen_more b c \<Longrightarrow> seen_more a c"
  unfolding seen_more_def using same_net_trans by blast

lemma dfs_host_keeps: "keeps (seen_more st) (\<lambda>e. e \<noteq> NoFuel) (dfs_host hostIndex sw inp cur t dst st)"
proof -
  have loop: "keeps (same_net h) (\<lambda>e. e \<noteq> NoFuel)
      (for_each ss (\<lambda>s h. AddFlowtableEntry2 h hostIndex (inPortIndex s) (switchIndex s) (outPortIndex s) dst) h)" for h ss
    by (rule for_each_keeps) (auto intro: keeps_mono [OF AddFlowtableEntry2_keeps] same_net_trans)
  have chain: "keeps (seen_more st) (\<lambda>e. e \<noteq> NoFuel)
      (case for_each ss (\<lambda>s h. AddFlowtableEntry2 h hostIndex (inPortIndex s) (switchIndex s) (outPortIndex s) dst) (se_helper st) of
         Inl e \<Rightarrow> Inl e
       | Inr h \<Rightarrow> (case AddFlowtableEntry2 h hostIndex inp sw (of_nat t) dst of
                     Inl e \<Rightarrow> Inl e
                   | Inr h \<Rightarrow> Inr (st\<lparr>hostLink := link, linkCounter := c, se_helper := h\<rparr>)))" for ss link c
    by (rule keeps_case [OF loop], rule keeps_case [OF AddFlowtableEntry2_keeps]) (simp add: seen_more_def, rule same_net_trans)
  show ?thesis
    unfolding dfs_host_def Let_def by (intro keeps_if) (simp_all add: chain)
qed

definition switches :: "nat \<Rightarrow> u32 set" where "switches n = {s. unat s < n}"

definition search_measure :: "nat \<Rightarrow> u32 set \<Rightarrow> u32 \<Rightarrow> nat" where
  "search_measure n seen sw = 2 * card (switches n - seen) + (if sw \<in> seen then 1 else 0)"

lemma finite_switches [simp]: "finite (switches n - seen)"
  by simp

lemma search_measure_step:
  assumes "unat sw < n" "seen \<subseteq> seen'" "next \<notin> seen'"
  shows "search_measure n (insert sw seen') next < search_measure n seen sw"
proof (cases "sw \<in> seen")
  case True
  then have "insert sw seen' = seen'" using assms(2) by blast
  moreover have "card (switches n - seen') \<le> card (switches n - seen)" using assms(2) by (intro card_mono) auto
  ultimately show ?thesis using True assms(3) by (simp add: search_measure_def)
next
  case False
  have "card (switches n - insert sw seen') < card (switches n - seen)"
    using False assms(1,2) by (intro psubset_card_mono) (auto simp: switches_def)
  then show ?thesis using False by (simp add: search_measure_def)
qed

lemma Dfs_keeps:
  assumes "search_measure (length (m_switchNodes (se_helper st))) (recordPassSwitch st) sw < fuel"
  shows "keeps (seen_more st) (\<lambda>e. e \<noteq> NoFuel) (Dfs fuel hostIndex sw inp st)"
  using assms
proof (induction fuel arbitrary: sw inp st)
  case (Suc fuel)
  let ?n = "length (m_switchNodes (se_helper st))"
  show ?case
  proof (cases "?n \<le> unat sw")
    case False
    have "keeps (seen_more st) (\<lambda>e. e \<noteq> NoFuel) (dfs_port (Dfs fuel hostIndex) hostIndex sw inp cur t s)" if s: "seen_more st s" for cur t s
    proof (cases "t = unat inp \<or> flag (portNode (m_switchNodes (se_helper s) ! unat sw) ! t) = 0 \<or>
        nodeIndex (portNode (m_switchNodes (se_helper s) ! unat sw) ! t) \<in> recordPassSwitch s")
      case True
      then show ?thesis using s keeps_mono [OF dfs_host_keeps seen_more_trans [OF s]] by (auto simp: dfs_port_def Let_def)
    next
      case False
      let ?pn = "portNode (m_switchNodes (se_helper s) ! unat sw) ! t"
      define s1 where "s1 = s\<lparr>passSwitch := \<lparr>switchIndex = sw, inPortIndex = inp, outPortIndex = of_nat t\<rparr> # trim cur (passSwitch s),
                       recordPassSwitch := insert sw (recordPassSwitch s)\<rparr>"
      have s1: "seen_more s s1" "recordPassSwitch s1 = insert sw (recordPassSwitch s)" "se_helper s1 = se_helper s"
        by (auto simp: s1_def seen_more_def)
      have "length (m_switchNodes (se_helper s1)) = ?n" using s same_net_length unfolding s1(3) seen_more_def by blast
      moreover have "search_measure ?n (insert sw (recordPassSwitch s)) (nodeIndex ?pn) < search_measure ?n (recordPassSwitch st) sw"
        by (rule search_measure_step) (use \<open>\<not> ?n \<le> unat sw\<close> s False in \<open>auto simp: seen_more_def\<close>)
      ultimately have "keeps (seen_more s1) (\<lambda>e. e \<noteq> NoFuel) (Dfs fuel hostIndex (nodeIndex ?pn) (nodePort ?pn) s1)"
        using Suc.prems by (intro Suc.IH) (simp add: s1(2))
      then have "keeps (seen_more st) (\<lambda>e. e \<noteq> NoFuel) (Dfs fuel hostIndex (nodeIndex ?pn) (nodePort ?pn) s1)"
        by (rule keeps_mono) (rule seen_more_trans [OF seen_more_trans [OF s s1(1)]])
      then show ?thesis using False by (simp add: dfs_port_def Let_def s1_def)
    qed
    then have "keeps (seen_more st) (\<lambda>e. e \<noteq> NoFuel)
        (for_each [0..<length (portNode (m_switchNodes (se_helper st) ! unat sw))]
          (dfs_port (Dfs fuel hostIndex) hostIndex sw inp (length (passSwitch st))) st)"
      by (intro for_each_keeps) (simp_all add: seen_more_def)
    with False show ?thesis by simp
  qed simp
qed simp

lemma card_switches: "card (switches n) \<le> n"
proof -
  have "inj_on unat (switches n)" by (rule inj_onI) (rule unsigned_word_eqI)
  then have "card (switches n) = card (unat ` switches n)" by (simp add: card_image)
  also have "\<dots> \<le> card {..<n}" by (intro card_mono) (auto simp: switches_def)
  finally show ?thesis by simp
qed

lemma DfsFromHostIndex_keeps: "keeps (\<lambda>st'. same_net (se_helper st) (se_helper st')) (\<lambda>e. e \<noteq> NoFuel) (DfsFromHostIndex i st)"
proof -
  have "search_measure (length (m_switchNodes (se_helper st))) {} sw < search_fuel (se_helper st)" for sw
    using card_switches [of "length (m_switchNodes (se_helper st))"] by (simp add: search_measure_def search_fuel_def)
  then have "keeps (seen_more (st\<lparr>passSwitch := [], recordPassSwitch := {}\<rparr>)) (\<lambda>e. e \<noteq> NoFuel)
      (Dfs (search_fuel (se_helper st)) (of_nat i) sw inp (st\<lparr>passSwitch := [], recordPassSwitch := {}\<rparr>))" for sw inp
    by (intro Dfs_keeps) simp
  then have "keeps (\<lambda>st'. same_net (se_helper st) (se_helper st')) (\<lambda>e. e \<noteq> NoFuel)
      (Dfs (search_fuel (se_helper st)) (of_nat i) sw inp (st\<lparr>passSwitch := [], recordPassSwitch := {}\<rparr>))" for sw inp
    by (rule keeps_mono) (simp add: seen_more_def)
  then show ?thesis by (simp add: DfsFromHostIndex_def Let_def)
qed

lemma search_hosts_keeps: "keeps (\<lambda>st'. same_net (se_helper st) (se_helper st')) (\<lambda>e. e \<noteq> NoFuel) (search_hosts is linkSum st)"
proof (induction "is" arbitrary: st)
  case (Cons i "is")
  have "keeps (\<lambda>st'. same_net (se_helper st) (se_helper st')) (\<lambda>e. e \<noteq> NoFuel)
      (case DfsFromHostIndex i st of Inl e \<Rightarrow> Inl e | Inr st \<Rightarrow> search_hosts is linkSum st)"
    by (rule keeps_case [OF DfsFromHostIndex_keeps]) (rule keeps_mono [OF Cons.IH], rule same_net_trans)
  then show ?case by simp
qed simp

end
