(* ===== verification/Flow_Properties.thy ===== *)
theory Flow_Properties
  imports Flow_Table
begin

text \<open>
  What the depth-first search of the flow table builder computes: on a network whose wiring is
  consistent it returns, and every entry of every table leads to the host it names.
\<close>

subsection \<open>Consistent wiring\<close>

definition ports :: "flow_helper \<Rightarrow> nat \<Rightarrow> NodeFlagIndex_t list" where
  "ports h s = portNode (m_switchNodes h ! s)"

definition entries :: "flow_helper \<Rightarrow> nat \<Rightarrow> FlowTableEntry_t list" where
  "entries h s = flowTableEntries (m_switchNodes h ! s)"

text \<open>A port to a host: the host exists. A port to a switch: that switch has the port, and it leads back.\<close>

definition port_ok :: "flow_helper \<Rightarrow> nat \<Rightarrow> nat \<Rightarrow> bool" where
  "port_ok h s p \<longleftrightarrow>
     (let pn = ports h s ! p
      in if flag pn = 0 then unat (nodeIndex pn) < length (m_hostNodes h)
         else unat (nodeIndex pn) < length (m_switchNodes h) \<and> unat (nodePort pn) < length (ports h (unat (nodeIndex pn))) \<and>
           ports h (unat (nodeIndex pn)) ! unat (nodePort pn) = \<lparr>flag = flag pn, nodeIndex = of_nat s, nodePort = of_nat p\<rparr>)"

definition wired :: "flow_helper \<Rightarrow> bool" where
  "wired h \<longleftrightarrow>
     length (m_hostNodes h) < 2 ^ 16 \<and> length (m_switchNodes h) < 2 ^ 32 \<and>
     (\<forall>s < length (m_switchNodes h). length (ports h s) < 2 ^ 32 \<and> (\<forall>p < length (ports h s). port_ok h s p)) \<and>
     (\<forall>a < length (m_hostNodes h).
        let n = m_hostNodes h ! a; s = unat (linkSwitchIndex n); p = unat (portIndex n)
        in s < length (m_switchNodes h) \<and> p < length (ports h s) \<and> flag (ports h s ! p) = 0 \<and> nodeIndex (ports h s ! p) = of_nat a)"

lemma same_net_simps:
  assumes "same_net h h'"
  shows "m_hostNodes h' = m_hostNodes h" "length (m_switchNodes h') = length (m_switchNodes h)"
    "s < length (m_switchNodes h) \<Longrightarrow> ports h' s = ports h s"
  using assms same_net_length [OF assms] same_net_ports [OF assms, of s] by (simp_all only: ports_def same_net_def)

lemma same_net_wired:
  assumes "same_net h h'" "wired h"
  shows "wired h'"
proof -
  note S = same_net_simps [OF assms(1)]
  have P: "port_ok h' s p" if s: "s < length (m_switchNodes h)" and ok: "port_ok h s p" for s p
  proof (cases "flag (ports h s ! p) = 0")
    case True
    then show ?thesis using ok unfolding port_ok_def Let_def S(3) [OF s] S(1) by (simp only: refl if_True)
  next
    case False
    let ?n = "unat (nodeIndex (ports h s ! p))"
    have n: "?n < length (m_switchNodes h)" using ok False unfolding port_ok_def Let_def by (simp only: if_False)
    show ?thesis using ok False unfolding port_ok_def Let_def S(3) [OF s] S(2) S(3) [OF n] by (simp only: if_False)
  qed
  have H: "\<forall>s < length (m_switchNodes h). length (ports h' s) < 2 ^ 32 \<and> (\<forall>p < length (ports h' s). port_ok h' s p)"
    using assms(2) P S(3) unfolding wired_def by metis
  have A: "let n = m_hostNodes h ! a; s = unat (linkSwitchIndex n); p = unat (portIndex n)
        in s < length (m_switchNodes h) \<and> p < length (ports h' s) \<and> flag (ports h' s ! p) = 0 \<and> nodeIndex (ports h' s ! p) = of_nat a"
    if "a < length (m_hostNodes h)" for a
    using assms(2) that S(3) [of "unat (linkSwitchIndex (m_hostNodes h ! a))"] unfolding wired_def Let_def by metis
  show ?thesis using assms(2) H A unfolding wired_def S(1,2) by blast
qed

subsection \<open>Entries that lead to a host\<close>

text \<open>
  Following the entries for a pair of addresses from a port of a switch, a packet reaches the host
  \<open>d\<close>: the port is linked to the host, or to a switch with such an entry whose port leads there.
\<close>

inductive delivers :: "flow_helper \<Rightarrow> string \<Rightarrow> string \<Rightarrow> nat \<Rightarrow> nat \<Rightarrow> u32 \<Rightarrow> bool" for h src dst d where
  direct: "s < length (m_switchNodes h) \<Longrightarrow> unat p < length (ports h s) \<Longrightarrow> flag (ports h s ! unat p) = 0 \<Longrightarrow>
    nodeIndex (ports h s ! unat p) = of_nat d \<Longrightarrow> delivers h src dst d s p"
| hop: "s < length (m_switchNodes h) \<Longrightarrow> unat p < length (ports h s) \<Longrightarrow> flag (ports h s ! unat p) \<noteq> 0 \<Longrightarrow>
    unat (nodeIndex (ports h s ! unat p)) = s' \<Longrightarrow> s' < length (m_switchNodes h) \<Longrightarrow> e \<in> set (entries h s') \<Longrightarrow>
    srcIp e = src \<Longrightarrow> dstIp e = dst \<Longrightarrow> delivers h src dst d s' (outPort e) \<Longrightarrow> delivers h src dst d s p"

definition entries_deliver :: "flow_helper \<Rightarrow> bool" where
  "entries_deliver h \<longleftrightarrow>
     (\<forall>s < length (m_switchNodes h). \<forall>e \<in> set (entries h s).
        \<exists>a < length (m_hostNodes h). \<exists>d < length (m_hostNodes h).
          srcIp e = ipAddr (m_hostNodes h ! a) \<and> dstIp e = ipAddr (m_hostNodes h ! d) \<and>
          delivers h (srcIp e) (dstIp e) d s (outPort e))"

definition has :: "flow_helper \<Rightarrow> nat \<Rightarrow> FlowTableEntry_t \<Rightarrow> bool" where
  "has h s e \<longleftrightarrow> s < length (m_switchNodes h) \<and> e \<in> set (entries h s)"

lemma delivers_mono:
  assumes "delivers h src dst d s p" "same_net h h'" "\<And>s e. has h s e \<Longrightarrow> has h' s e"
  shows "delivers h' src dst d s p"
  using assms(1)
proof induction
  case (direct s p)
  have "ports h' s = ports h s" by (rule same_net_simps(3) [OF assms(2) direct(1)])
  with direct show ?case by (intro delivers.direct) (simp_all only: same_net_simps(2) [OF assms(2)])
next
  case (hop s p s' e)
  have p: "ports h' s = ports h s" by (rule same_net_simps(3) [OF assms(2) hop(1)])
  have "has h' s' e" by (rule assms(3)) (simp only: has_def hop simp_thms)
  then have e: "e \<in> set (entries h' s')" by (simp only: has_def)
  show ?case
    by (rule delivers.hop [OF _ _ _ _ _ e hop(7,8,10)]) (simp_all only: p same_net_simps(2) [OF assms(2)] hop not_False_eq_True)
qed

definition host_entry :: "flow_helper \<Rightarrow> u32 \<Rightarrow> u32 \<Rightarrow> u32 \<Rightarrow> FlowTableEntry_t" where
  "host_entry h src dst out =
     \<lparr>srcIp = ipAddr (m_hostNodes h ! unat src), dstIp = ipAddr (m_hostNodes h ! unat dst), outPort = out\<rparr>"

lemma AddFlowtableEntry_ok:
  assumes "unat sw < length (m_switchNodes h)" "unat src < length (m_hostNodes h)" "unat dst < length (m_hostNodes h)"
  shows "\<exists>h'. AddFlowtableEntry h sw src dst out = Inr h' \<and> same_net h h' \<and>
    (\<forall>s e. has h' s e \<longleftrightarrow> has h s e \<or> s = unat sw \<and> e = host_entry h src dst out)"
proof -
  obtain h' where h': "AddFlowtableEntry h sw src dst out = Inr h'" using assms by (simp add: AddFlowtableEntry_def Let_def)
  then have "same_net h h'" using AddFlowtableEntry_keeps [of h sw src dst out] by simp
  moreover have "has h' s e \<longleftrightarrow> has h s e \<or> s = unat sw \<and> e = host_entry h src dst out" for s e
  proof -
    have "h' = h\<lparr>m_switchNodes := (m_switchNodes h)[unat sw := (m_switchNodes h ! unat sw)
        \<lparr>flowTableEntries := entries h (unat sw) @ [host_entry h src dst out]\<rparr>]\<rparr>"
      using h' assms by (simp add: AddFlowtableEntry_def Let_def entries_def host_entry_def)
    then have "entries h' s = (if s = unat sw then entries h s @ [host_entry h src dst out] else entries h s)"
      "length (m_switchNodes h') = length (m_switchNodes h)"
      using assms(1) by (simp_all add: entries_def)
    then show ?thesis using assms(1) unfolding has_def by auto
  qed
  ultimately show ?thesis using h' by blast
qed

lemma AddFlowtableEntry2_ok:
  assumes "unat sw < length (m_switchNodes h)" "unat src < length (m_hostNodes h)" "unat dst < length (m_hostNodes h)"
  shows "\<exists>h'. AddFlowtableEntry2 h src inp sw out dst = Inr h' \<and> same_net h h' \<and>
    (\<forall>s e. has h' s e \<longleftrightarrow> has h s e \<or> s = unat sw \<and> (e = host_entry h dst src inp \<or> e = host_entry h src dst out))"
proof -
  obtain h1 where h1: "AddFlowtableEntry h sw dst src inp = Inr h1" "same_net h h1"
    "\<forall>s e. has h1 s e \<longleftrightarrow> has h s e \<or> s = unat sw \<and> e = host_entry h dst src inp"
    using AddFlowtableEntry_ok [OF assms(1,3,2), of inp] by blast
  have l: "unat sw < length (m_switchNodes h1)" "unat src < length (m_hostNodes h1)" "unat dst < length (m_hostNodes h1)"
    using assms same_net_simps [OF h1(2)] by simp_all
  obtain h2 where h2: "AddFlowtableEntry h1 sw src dst out = Inr h2" "same_net h1 h2"
    "\<forall>s e. has h2 s e \<longleftrightarrow> has h1 s e \<or> s = unat sw \<and> e = host_entry h1 src dst out"
    using AddFlowtableEntry_ok [OF l, of out] by blast
  have "host_entry h1 src dst out = host_entry h src dst out"
    using same_net_simps(1) [OF h1(2)] by (simp add: host_entry_def)
  then show ?thesis using h1 h2 same_net_trans [OF h1(2) h2(2)] by (auto simp: AddFlowtableEntry2_def)
qed

lemma add_path_ok:
  assumes "\<forall>x \<in> set ss. unat (switchIndex x) < length (m_switchNodes h)" "unat src < length (m_hostNodes h)" "unat dst < length (m_hostNodes h)"
  shows "\<exists>h'. for_each ss (\<lambda>x h. AddFlowtableEntry2 h src (inPortIndex x) (switchIndex x) (outPortIndex x) dst) h = Inr h' \<and>
    same_net h h' \<and>
    (\<forall>s e. has h' s e \<longleftrightarrow> has h s e \<or>
       (\<exists>x \<in> set ss. s = unat (switchIndex x) \<and> (e = host_entry h dst src (inPortIndex x) \<or> e = host_entry h src dst (outPortIndex x))))"
  using assms
proof (induction ss arbitrary: h)
  case (Cons x ss)
  obtain h1 where h1: "AddFlowtableEntry2 h src (inPortIndex x) (switchIndex x) (outPortIndex x) dst = Inr h1" "same_net h h1"
    "\<forall>s e. has h1 s e \<longleftrightarrow> has h s e \<or> s = unat (switchIndex x) \<and> (e = host_entry h dst src (inPortIndex x) \<or> e = host_entry h src dst (outPortIndex x))"
    using AddFlowtableEntry2_ok [of "switchIndex x" h src dst "inPortIndex x" "outPortIndex x"] Cons.prems by auto
  note S = same_net_simps [OF h1(2)]
  have he: "host_entry h1 a b c = host_entry h a b c" for a b c using S(1) by (simp add: host_entry_def)
  obtain h2 where h2: "for_each ss (\<lambda>x h. AddFlowtableEntry2 h src (inPortIndex x) (switchIndex x) (outPortIndex x) dst) h1 = Inr h2"
    "same_net h1 h2" "\<forall>s e. has h2 s e \<longleftrightarrow> has h1 s e \<or>
       (\<exists>x \<in> set ss. s = unat (switchIndex x) \<and> (e = host_entry h dst src (inPortIndex x) \<or> e = host_entry h src dst (outPortIndex x)))"
    using Cons.IH [of h1] Cons.prems S unfolding he by auto
  then show ?case using h1 same_net_trans [OF h1(2) h2(2)] by (intro exI [of _ h2]) auto
qed simp

subsection \<open>The path on the stack\<close>

text \<open>The switches on the stack, top first, lead from the host \<open>a\<close> to the port \<open>inp\<close> of \<open>sw\<close>.\<close>

fun is_path :: "flow_helper \<Rightarrow> u32 \<Rightarrow> SaveNode_t list \<Rightarrow> u32 \<Rightarrow> u32 \<Rightarrow> bool" where
  "is_path h a [] sw inp \<longleftrightarrow> sw = linkSwitchIndex (m_hostNodes h ! unat a) \<and> inp = portIndex (m_hostNodes h ! unat a)"
| "is_path h a (x # ss) sw inp \<longleftrightarrow>
     unat (switchIndex x) < length (m_switchNodes h) \<and> unat (outPortIndex x) < length (ports h (unat (switchIndex x))) \<and>
     flag (ports h (unat (switchIndex x)) ! unat (outPortIndex x)) \<noteq> 0 \<and>
     nodeIndex (ports h (unat (switchIndex x)) ! unat (outPortIndex x)) = sw \<and>
     nodePort (ports h (unat (switchIndex x)) ! unat (outPortIndex x)) = inp \<and>
     is_path h a ss (switchIndex x) (inPortIndex x)"

lemma wired_port: "wired h \<Longrightarrow> s < length (m_switchNodes h) \<Longrightarrow> p < length (ports h s) \<Longrightarrow> port_ok h s p"
  by (simp add: wired_def)

lemma port_ok_switch:
  assumes "port_ok h s p" "flag (ports h s ! p) \<noteq> 0"
  shows "unat (nodeIndex (ports h s ! p)) < length (m_switchNodes h)"
    "unat (nodePort (ports h s ! p)) < length (ports h (unat (nodeIndex (ports h s ! p))))"
    "ports h (unat (nodeIndex (ports h s ! p))) ! unat (nodePort (ports h s ! p)) =
      \<lparr>flag = flag (ports h s ! p), nodeIndex = of_nat s, nodePort = of_nat p\<rparr>"
  using assms unfolding port_ok_def Let_def by (simp_all only: if_False)

lemma wired_host:
  assumes "wired h" "a < length (m_hostNodes h)"
  shows "unat (linkSwitchIndex (m_hostNodes h ! a)) < length (m_switchNodes h)"
    "unat (portIndex (m_hostNodes h ! a)) < length (ports h (unat (linkSwitchIndex (m_hostNodes h ! a))))"
    "flag (ports h (unat (linkSwitchIndex (m_hostNodes h ! a))) ! unat (portIndex (m_hostNodes h ! a))) = 0"
    "nodeIndex (ports h (unat (linkSwitchIndex (m_hostNodes h ! a))) ! unat (portIndex (m_hostNodes h ! a))) = of_nat a"
  using assms by (simp_all add: wired_def Let_def)

lemma is_path_end:
  assumes "wired h" "unat a < length (m_hostNodes h)" "is_path h a ss sw inp"
  shows "unat sw < length (m_switchNodes h) \<and> unat inp < length (ports h (unat sw))"
proof (cases ss)
  case Nil
  then show ?thesis using assms wired_host [OF assms(1,2)] by simp
next
  case (Cons x ss')
  let ?s = "unat (switchIndex x)" and ?p = "unat (outPortIndex x)"
  have x: "?s < length (m_switchNodes h)" "?p < length (ports h ?s)" "flag (ports h ?s ! ?p) \<noteq> 0"
    "nodeIndex (ports h ?s ! ?p) = sw" "nodePort (ports h ?s ! ?p) = inp"
    using assms(3) unfolding Cons by simp_all
  show ?thesis using port_ok_switch(1,2) [OF wired_port [OF assms(1) x(1,2)] x(3)] unfolding x(4,5) by blast
qed

lemma host_entry_fields [simp]:
  "srcIp (host_entry h a b q) = ipAddr (m_hostNodes h ! unat a)" "dstIp (host_entry h a b q) = ipAddr (m_hostNodes h ! unat b)"
  "outPort (host_entry h a b q) = q"
  by (simp_all add: host_entry_def)

text \<open>The entries of the way back lead to the host.\<close>

lemma path_back:
  assumes "wired h" "unat a < length (m_hostNodes h)"
  shows "is_path h a ss sw inp \<Longrightarrow> \<forall>x \<in> set ss. has h (unat (switchIndex x)) (host_entry h b a (inPortIndex x)) \<Longrightarrow>
    delivers h (ipAddr (m_hostNodes h ! unat b)) (ipAddr (m_hostNodes h ! unat a)) (unat a) (unat sw) inp"
proof (induction ss arbitrary: sw inp)
  case Nil
  then show ?case using wired_host [OF assms] by (intro delivers.direct) simp_all
next
  case (Cons x ss)
  let ?s = "unat (switchIndex x)" and ?p = "unat (outPortIndex x)"
  have x: "?s < length (m_switchNodes h)" "?p < length (ports h ?s)" "flag (ports h ?s ! ?p) \<noteq> 0"
    "nodeIndex (ports h ?s ! ?p) = sw" "nodePort (ports h ?s ! ?p) = inp"
    using Cons.prems(1) by simp_all
  note P = port_ok_switch [OF wired_port [OF assms(1) x(1,2)] x(3), unfolded x(4,5)]
  have e: "host_entry h b a (inPortIndex x) \<in> set (entries h ?s)" using Cons.prems(2) by (simp add: has_def)
  have "delivers h (ipAddr (m_hostNodes h ! unat b)) (ipAddr (m_hostNodes h ! unat a)) (unat a) ?s (inPortIndex x)"
    by (rule Cons.IH) (use Cons.prems in simp_all)
  then show ?case
    using P x(1,3) by (intro delivers.hop [where s' = ?s and e = "host_entry h b a (inPortIndex x)", OF P(1,2) _ _ x(1) e]) simp_all
qed

text \<open>The entries of the way forth lead to where the last of them leads.\<close>

lemma path_forth:
  assumes "wired h"
  shows "is_path h a ss sw inp \<Longrightarrow> \<forall>x \<in> set ss. has h (unat (switchIndex x)) (host_entry h a b (outPortIndex x)) \<Longrightarrow>
    has h (unat sw) (host_entry h a b q) \<Longrightarrow>
    delivers h (ipAddr (m_hostNodes h ! unat a)) (ipAddr (m_hostNodes h ! unat b)) d (unat sw) q \<Longrightarrow> x \<in> set ss \<Longrightarrow>
    delivers h (ipAddr (m_hostNodes h ! unat a)) (ipAddr (m_hostNodes h ! unat b)) d (unat (switchIndex x)) (outPortIndex x)"
proof (induction ss arbitrary: sw inp q)
  case (Cons y ss)
  let ?s = "unat (switchIndex y)" and ?p = "unat (outPortIndex y)"
  have y: "?s < length (m_switchNodes h)" "?p < length (ports h ?s)" "flag (ports h ?s ! ?p) \<noteq> 0" "nodeIndex (ports h ?s ! ?p) = sw"
    using Cons.prems(1) by simp_all
  have w: "unat sw < length (m_switchNodes h)" "host_entry h a b q \<in> set (entries h (unat sw))"
    using Cons.prems(3) by (simp_all add: has_def)
  have "delivers h (ipAddr (m_hostNodes h ! unat a)) (ipAddr (m_hostNodes h ! unat b)) d ?s (outPortIndex y)"
    by (rule delivers.hop [OF y(1,2,3) _ w(1) w(2)]) (use y(4) Cons.prems(4) in simp_all)
  moreover have "delivers h (ipAddr (m_hostNodes h ! unat a)) (ipAddr (m_hostNodes h ! unat b)) d (unat (switchIndex x)) (outPortIndex x)"
    if "x \<in> set ss"
    by (rule Cons.IH [of "switchIndex y" "inPortIndex y" "outPortIndex y", OF _ _ _ calculation that]) (use Cons.prems in simp_all)
  ultimately show ?case using Cons.prems(5) by auto
qed simp

lemma same_net_path: "same_net h h' \<Longrightarrow> is_path h a ss sw inp \<Longrightarrow> is_path h' a ss sw inp"
proof (induction ss arbitrary: sw inp)
  case Nil
  then show ?case using same_net_simps(1) [OF Nil(1)] by simp
next
  case (Cons x ss)
  note S = same_net_simps [OF Cons.prems(1)]
  have l: "unat (switchIndex x) < length (m_switchNodes h)" using Cons.prems(2) by simp
  show ?case using Cons S(2) S(3) [OF l] by simp
qed

subsection \<open>The search\<close>

definition good :: "search \<Rightarrow> bool" where
  "good st \<longleftrightarrow> wired (se_helper st) \<and> entries_deliver (se_helper st) \<and>
     length (hostLink st) = length (m_hostNodes (se_helper st)) \<and>
     (\<forall>row \<in> set (hostLink st). length row = length (m_hostNodes (se_helper st)))"

lemma trim_all [simp]: "trim (length xs) xs = xs"
  by (simp add: trim_def)

lemma trim_Cons: "trim (Suc n) xs = y # ys \<Longrightarrow> length ys = n \<Longrightarrow> Suc n \<le> length xs \<Longrightarrow> trim n xs = ys \<and> n \<le> length xs"
proof -
  assume a: "trim (Suc n) xs = y # ys" "length ys = n" "Suc n \<le> length xs"
  then have "length xs - n = Suc (length xs - Suc n)" by (simp add: Suc_diff_Suc)
  then have "trim n xs = tl (trim (Suc n) xs)" by (simp add: trim_def drop_Suc tl_drop)
  then show ?thesis using a by simp
qed

lemma old_entries_deliver:
  assumes "entries_deliver h" "same_net h h'" "\<And>s e. has h s e \<Longrightarrow> has h' s e" "has h s e"
  shows "\<exists>a < length (m_hostNodes h'). \<exists>d < length (m_hostNodes h').
      srcIp e = ipAddr (m_hostNodes h' ! a) \<and> dstIp e = ipAddr (m_hostNodes h' ! d) \<and> delivers h' (srcIp e) (dstIp e) d s (outPort e)"
proof -
  obtain a d where "a < length (m_hostNodes h)" "d < length (m_hostNodes h)" "srcIp e = ipAddr (m_hostNodes h ! a)"
    "dstIp e = ipAddr (m_hostNodes h ! d)" "delivers h (srcIp e) (dstIp e) d s (outPort e)"
    using assms(1,4) unfolding entries_deliver_def has_def by blast
  then show ?thesis using delivers_mono [OF _ assms(2,3)] same_net_simps(1) [OF assms(2)] by metis
qed

text \<open>Entries along a path, and at its end a port to the host \<open>b\<close>.\<close>

lemma path_entries_deliver:
  assumes W: "wired h" and E: "entries_deliver h" and ab: "unat a < length (m_hostNodes h)" "unat b < length (m_hostNodes h)"
    and path: "is_path h a ss sw inp" and t: "unat q < length (ports h (unat sw))" "flag (ports h (unat sw) ! unat q) = 0"
      "nodeIndex (ports h (unat sw) ! unat q) = b"
    and net: "same_net h h'"
    and new: "\<And>s e. has h' s e \<longleftrightarrow> has h s e \<or>
       (\<exists>x \<in> set ss. s = unat (switchIndex x) \<and> (e = host_entry h b a (inPortIndex x) \<or> e = host_entry h a b (outPortIndex x))) \<or>
       s = unat sw \<and> (e = host_entry h b a inp \<or> e = host_entry h a b q)"
  shows "entries_deliver h'"
proof -
  note S = same_net_simps [OF net]
  have W': "wired h'" by (rule same_net_wired [OF net W])
  have he: "host_entry h' x y z = host_entry h x y z" for x y z using S(1) by (simp add: host_entry_def)
  have ab': "unat a < length (m_hostNodes h')" "unat b < length (m_hostNodes h')" using ab S(1) by simp_all
  have path': "is_path h' a ss sw inp" by (rule same_net_path [OF net path])
  have sw: "unat sw < length (m_switchNodes h)" using is_path_end [OF W ab(1) path] by blast
  have wayback: "delivers h' (ipAddr (m_hostNodes h' ! unat b)) (ipAddr (m_hostNodes h' ! unat a)) (unat a) (unat s) p"
    if "is_path h' a us s p" "set us \<subseteq> set ss" for us s p
    by (rule path_back [OF W' ab'(1) that(1)]) (use new he that(2) in auto)
  have last_hop: "delivers h' (ipAddr (m_hostNodes h' ! unat a)) (ipAddr (m_hostNodes h' ! unat b)) (unat b) (unat sw) q"
    using sw t S(2,3) by (intro delivers.direct) simp_all
  have forth: "delivers h' (ipAddr (m_hostNodes h' ! unat a)) (ipAddr (m_hostNodes h' ! unat b)) (unat b) (unat (switchIndex x)) (outPortIndex x)"
    if "x \<in> set ss" for x
    by (rule path_forth [OF W' path' _ _ last_hop that]) (use new he in auto)
  have suffix: "\<exists>us. is_path h' a us (switchIndex x) (inPortIndex x) \<and> set us \<subseteq> set vs" if "x \<in> set vs" "is_path h' a vs s p" for x vs s p
    using that
  proof (induction vs arbitrary: s p)
    case (Cons y vs)
    then have y: "is_path h' a vs (switchIndex y) (inPortIndex y)" by simp
    show ?case
    proof (cases "x = y")
      case True
      then show ?thesis using y by auto
    next
      case False
      then obtain us where "is_path h' a us (switchIndex x) (inPortIndex x)" "set us \<subseteq> set vs"
        using Cons.IH [OF _ y] Cons.prems(1) by auto
      then show ?thesis by auto
    qed
  qed simp
  have "\<exists>c < length (m_hostNodes h'). \<exists>d < length (m_hostNodes h').
      srcIp e = ipAddr (m_hostNodes h' ! c) \<and> dstIp e = ipAddr (m_hostNodes h' ! d) \<and> delivers h' (srcIp e) (dstIp e) d s (outPort e)"
    if "has h' s e" for s e
  proof -
    consider "has h s e" | x where "x \<in> set ss" "s = unat (switchIndex x)" "e = host_entry h' b a (inPortIndex x)"
      | x where "x \<in> set ss" "s = unat (switchIndex x)" "e = host_entry h' a b (outPortIndex x)"
      | "s = unat sw" "e = host_entry h' b a inp" | "s = unat sw" "e = host_entry h' a b q"
      using \<open>has h' s e\<close> unfolding new he by blast
    then show ?thesis
    proof cases
      case 1
      then show ?thesis using old_entries_deliver [OF E net] new by blast
    next
      case (2 x)
      obtain us where "is_path h' a us (switchIndex x) (inPortIndex x)" "set us \<subseteq> set ss" using suffix [OF 2(1) path'] by blast
      then show ?thesis using wayback ab' unfolding 2 host_entry_fields by blast
    next
      case (3 x)
      then show ?thesis using forth [OF 3(1)] ab' by auto
    next
      case 4
      then show ?thesis using wayback [OF path'] ab' by auto
    next
      case 5
      then show ?thesis using last_hop ab' by auto
    qed
  qed
  then show ?thesis unfolding entries_deliver_def has_def by blast
qed

text \<open>The search at a port to the host \<open>b\<close>, when the two hosts are not linked yet: entries along the stack and at the switch.\<close>

definition link_pair :: "u32 list list \<Rightarrow> nat \<Rightarrow> nat \<Rightarrow> u32 list list" where
  "link_pair link a b = (let link = link[a := (link ! a)[b := 1]] in link[b := (link ! b)[a := 1]])"

lemma dfs_host_step:
  assumes G: "good st" and a: "unat a < length (m_hostNodes (se_helper st))" and path: "is_path (se_helper st) a (trim cur (passSwitch st)) sw inp"
    and b: "unat b < length (m_hostNodes (se_helper st))" and new: "hostLink st ! unat a ! unat b = 0"
  shows "\<exists>h. dfs_host a sw inp cur t b st =
      Inr (st\<lparr>hostLink := link_pair (hostLink st) (unat a) (unat b), linkCounter := linkCounter st + 2, se_helper := h\<rparr>) \<and>
    same_net (se_helper st) h \<and>
    (\<forall>s e. has h s e \<longleftrightarrow> has (se_helper st) s e \<or>
       (\<exists>x \<in> set (trim cur (passSwitch st)). s = unat (switchIndex x) \<and>
          (e = host_entry (se_helper st) b a (inPortIndex x) \<or> e = host_entry (se_helper st) a b (outPortIndex x))) \<or>
       s = unat sw \<and> (e = host_entry (se_helper st) b a inp \<or> e = host_entry (se_helper st) a b (of_nat t)))"
proof -
  let ?h = "se_helper st" and ?n = "length (m_hostNodes (se_helper st))" and ?ss = "trim cur (passSwitch st)"
  have W: "wired ?h" using G by (simp add: good_def)
  have sw: "unat sw < length (m_switchNodes ?h)" using is_path_end [OF W a path] by blast
  have L: "length (hostLink st) = ?n" "i < ?n \<Longrightarrow> length (hostLink st ! i) = ?n" for i using G by (auto simp: good_def)
  have "\<forall>x \<in> set ss. unat (switchIndex x) < length (m_switchNodes ?h)" if "is_path ?h a ss s p" for ss s p
    using that by (induction ss arbitrary: s p) auto
  from add_path_ok [OF this [OF path] a b] obtain h1 where h1:
    "for_each ?ss (\<lambda>x h. AddFlowtableEntry2 h a (inPortIndex x) (switchIndex x) (outPortIndex x) b) ?h = Inr h1" "same_net ?h h1"
    "\<forall>s e. has h1 s e \<longleftrightarrow> has ?h s e \<or>
       (\<exists>x \<in> set ?ss. s = unat (switchIndex x) \<and> (e = host_entry ?h b a (inPortIndex x) \<or> e = host_entry ?h a b (outPortIndex x)))"
    by blast
  note S = same_net_simps [OF h1(2)]
  obtain h2 where h2: "AddFlowtableEntry2 h1 a inp sw (of_nat t) b = Inr h2" "same_net h1 h2"
    "\<forall>s e. has h2 s e \<longleftrightarrow> has h1 s e \<or> s = unat sw \<and> (e = host_entry h1 b a inp \<or> e = host_entry h1 a b (of_nat t))"
    using AddFlowtableEntry2_ok [of sw h1 a b inp "of_nat t"] sw a b S by auto
  have he: "host_entry h1 x y z = host_entry ?h x y z" for x y z using S(1) by (simp add: host_entry_def)
  have "dfs_host a sw inp cur t b st =
      Inr (st\<lparr>hostLink := link_pair (hostLink st) (unat a) (unat b), linkCounter := linkCounter st + 2, se_helper := h2\<rparr>)"
    using L a b new h1(1) h2(1) by (simp add: dfs_host_def Let_def link_pair_def)
  then show ?thesis using same_net_trans [OF h1(2) h2(2)] h1(3) h2(3) unfolding he by blast
qed

lemma link_pair_shape:
  assumes "length link = n" "\<forall>row \<in> set link. length row = n" "a < n" "b < n"
  shows "length (link_pair link a b) = n \<and> (\<forall>row \<in> set (link_pair link a b). length row = n)"
  using assms by (auto simp: link_pair_def Let_def all_set_conv_all_nth nth_list_update)

lemma dfs_host_ok:
  assumes G: "good st" and a: "unat a < length (m_hostNodes (se_helper st))" and path: "is_path (se_helper st) a (trim cur (passSwitch st)) sw inp"
    and t: "t < length (ports (se_helper st) (unat sw))" "flag (ports (se_helper st) (unat sw) ! t) = 0"
      "nodeIndex (ports (se_helper st) (unat sw) ! t) = b"
  shows "\<exists>st'. dfs_host a sw inp cur t b st = Inr st' \<and> good st' \<and> seen_more st st' \<and> passSwitch st' = passSwitch st"
proof -
  let ?h = "se_helper st" and ?n = "length (m_hostNodes (se_helper st))"
  have W: "wired ?h" and E: "entries_deliver ?h" using G by (simp_all add: good_def)
  have sw: "unat sw < length (m_switchNodes ?h)" using is_path_end [OF W a path] by blast
  have b: "unat b < ?n" using wired_port [OF W sw t(1)] t(2,3) by (simp add: port_ok_def)
  have tq: "unat (of_nat t :: u32) = t" using t(1) W sw by (intro unat_u32) (auto simp: wired_def)
  have L: "length (hostLink st) = ?n" "\<forall>row \<in> set (hostLink st). length row = ?n" using G by (auto simp: good_def)
  show ?thesis
  proof (cases "hostLink st ! unat a ! unat b = 0")
    case False
    then show ?thesis using L a b G by (simp add: dfs_host_def)
  next
    case True
    obtain h where h: "dfs_host a sw inp cur t b st =
        Inr (st\<lparr>hostLink := link_pair (hostLink st) (unat a) (unat b), linkCounter := linkCounter st + 2, se_helper := h\<rparr>)"
      "same_net ?h h"
      "\<forall>s e. has h s e \<longleftrightarrow> has ?h s e \<or>
         (\<exists>x \<in> set (trim cur (passSwitch st)). s = unat (switchIndex x) \<and>
            (e = host_entry ?h b a (inPortIndex x) \<or> e = host_entry ?h a b (outPortIndex x))) \<or>
         s = unat sw \<and> (e = host_entry ?h b a inp \<or> e = host_entry ?h a b (of_nat t))"
      using dfs_host_step [OF G a path b True] by blast
    have "entries_deliver h"
    proof (rule path_entries_deliver [OF W E a b path _ _ _ h(2)])
      show "unat (of_nat t :: u32) < length (ports ?h (unat sw))" "flag (ports ?h (unat sw) ! unat (of_nat t :: u32)) = 0"
        "nodeIndex (ports ?h (unat sw) ! unat (of_nat t :: u32)) = b" unfolding tq by (rule t)+
    qed (use h(3) in auto)
    then show ?thesis
      using h(1) link_pair_shape [OF L a b] same_net_wired [OF h(2) W] same_net_simps(1) [OF h(2)] h(2)
      by (simp add: good_def seen_more_def)
  qed
qed

text \<open>What the search from one switch leaves: a good state, more switches passed, and below its own part the same stack.\<close>

definition search_step :: "nat \<Rightarrow> SaveNode_t list \<Rightarrow> search \<Rightarrow> search \<Rightarrow> bool" where
  "search_step cur below st st' \<longleftrightarrow>
     good st' \<and> seen_more st st' \<and> cur \<le> length (passSwitch st') \<and> trim cur (passSwitch st') = below"

lemma Dfs_ok:
  assumes "search_measure (length (m_switchNodes (se_helper st))) (recordPassSwitch st) sw < fuel"
    and "good st" "unat a < length (m_hostNodes (se_helper st))" "is_path (se_helper st) a (passSwitch st) sw inp"
  shows "keeps (search_step (length (passSwitch st)) (passSwitch st) st) (\<lambda>e. False) (Dfs fuel a sw inp st)"
  using assms
proof (induction fuel arbitrary: sw inp st)
  case (Suc fuel)
  let ?h = "se_helper st" and ?c = "length (passSwitch st)"
  let ?P = "search_step ?c (passSwitch st) st"
  have W: "wired ?h" using Suc.prems(2) by (simp add: good_def)
  have sw: "unat sw < length (m_switchNodes ?h)" using is_path_end [OF W Suc.prems(3,4)] by blast
  have "keeps ?P (\<lambda>e. False) (dfs_port (Dfs fuel a) a sw inp ?c t s)"
    if t: "t < length (ports ?h (unat sw))" and s: "?P s" for t s
  proof -
    let ?g = "se_helper s"
    have G: "good s" and N: "same_net ?h ?g" and B: "trim ?c (passSwitch s) = passSwitch st" "?c \<le> length (passSwitch s)"
      and R: "recordPassSwitch st \<subseteq> recordPassSwitch s"
      using s by (simp_all add: search_step_def seen_more_def)
    note S = same_net_simps [OF N]
    have pt: "ports ?g (unat sw) = ports ?h (unat sw)" by (rule S(3) [OF sw])
    have ag: "unat a < length (m_hostNodes ?g)" using Suc.prems(3) S(1) by simp
    have pg: "is_path ?g a (trim ?c (passSwitch s)) sw inp" unfolding B by (rule same_net_path [OF N Suc.prems(4)])
    define pn where "pn = ports ?g (unat sw) ! t"
    have pn: "portNode (m_switchNodes ?g ! unat sw) ! t = pn" by (simp add: pn_def ports_def)
    consider "t = unat inp" | "t \<noteq> unat inp" "flag pn = 0" | "t \<noteq> unat inp" "flag pn \<noteq> 0" "nodeIndex pn \<in> recordPassSwitch s"
      | "t \<noteq> unat inp" "flag pn \<noteq> 0" "nodeIndex pn \<notin> recordPassSwitch s" by blast
    then show ?thesis
    proof cases
      case 2
      obtain s' where s': "dfs_host a sw inp ?c t (nodeIndex pn) s = Inr s'" "good s'" "seen_more s s'" "passSwitch s' = passSwitch s"
        using dfs_host_ok [OF G ag pg, of t "nodeIndex pn"] t 2 pt unfolding pn_def by auto
      have "?P s'" using s s' seen_more_trans unfolding search_step_def by metis
      then show ?thesis using 2 s'(1) by (simp add: dfs_port_def pn)
    next
      case 4
      define x where "x = \<lparr>switchIndex = sw, inPortIndex = inp, outPortIndex = of_nat t\<rparr>"
      define s1 where "s1 = s\<lparr>passSwitch := x # passSwitch st, recordPassSwitch := insert sw (recordPassSwitch s)\<rparr>"
      have G1: "good s1" "seen_more s s1" "se_helper s1 = ?g" "passSwitch s1 = x # passSwitch st"
        "recordPassSwitch s1 = insert sw (recordPassSwitch s)"
        using G by (auto simp: s1_def good_def seen_more_def)
      have tq: "unat (of_nat t :: u32) = t" using t W sw by (intro unat_u32) (auto simp: wired_def)
      have "is_path ?g a (x # passSwitch st) (nodeIndex pn) (nodePort pn)"
        using pg 4(2) t sw S(2) unfolding B by (simp add: x_def tq pt) (simp add: pn_def pt)
      moreover have "search_measure (length (m_switchNodes ?h)) (insert sw (recordPassSwitch s)) (nodeIndex pn)
          < search_measure (length (m_switchNodes ?h)) (recordPassSwitch st) sw"
        by (rule search_measure_step [OF sw R 4(3)])
      ultimately have "keeps (search_step (length (passSwitch s1)) (passSwitch s1) s1) (\<lambda>e. False) (Dfs fuel a (nodeIndex pn) (nodePort pn) s1)"
        using Suc.prems(1) ag S(2) by (intro Suc.IH G1(1)) (simp_all add: G1)
      then have "keeps ?P (\<lambda>e. False) (Dfs fuel a (nodeIndex pn) (nodePort pn) s1)"
      proof (rule keeps_mono)
        fix s' assume s': "search_step (length (passSwitch s1)) (passSwitch s1) s1 s'"
        then have "trim ?c (passSwitch s') = passSwitch st \<and> ?c \<le> length (passSwitch s')"
          unfolding search_step_def G1(4) by (intro trim_Cons) simp_all
        moreover have "seen_more st s'" using s s' G1(2) seen_more_trans unfolding search_step_def by blast
        ultimately show "?P s'" using s' by (simp add: search_step_def)
      qed
      then show ?thesis using 4 B by (simp add: dfs_port_def pn s1_def x_def)
    qed (use s in \<open>simp_all add: dfs_port_def pn\<close>)
  qed
  then have "keeps ?P (\<lambda>e. False) (for_each [0..<length (ports ?h (unat sw))] (dfs_port (Dfs fuel a) a sw inp ?c) st)"
    by (intro for_each_keeps) (use Suc.prems(2) in \<open>simp_all add: search_step_def\<close>)
  then show ?case using sw by (simp add: ports_def)
qed simp

lemma DfsFromHostIndex_ok:
  assumes "good st" "i < length (m_hostNodes (se_helper st))"
  shows "keeps (\<lambda>st'. good st' \<and> same_net (se_helper st) (se_helper st')) (\<lambda>e. False) (DfsFromHostIndex i st)"
proof -
  define s0 where "s0 = st\<lparr>passSwitch := [], recordPassSwitch := {}\<rparr>"
  let ?host = "m_hostNodes (se_helper st) ! i"
  have s0: "good s0" "se_helper s0 = se_helper st" "passSwitch s0 = []" using assms(1) by (simp_all add: s0_def good_def)
  have i: "unat (of_nat i :: u32) = i" using assms by (intro unat_u32) (simp add: good_def wired_def)
  have "search_measure (length (m_switchNodes (se_helper s0))) (recordPassSwitch s0) (linkSwitchIndex ?host) < search_fuel (se_helper st)"
    using card_switches [of "length (m_switchNodes (se_helper st))"] by (simp add: search_measure_def search_fuel_def s0_def)
  moreover have "is_path (se_helper s0) (of_nat i) (passSwitch s0) (linkSwitchIndex ?host) (portIndex ?host)"
    by (simp add: s0 i)
  moreover have "unat (of_nat i :: u32) < length (m_hostNodes (se_helper s0))" using assms(2) by (simp add: s0 i)
  ultimately have "keeps (search_step (length (passSwitch s0)) (passSwitch s0) s0) (\<lambda>e. False)
      (Dfs (search_fuel (se_helper st)) (of_nat i) (linkSwitchIndex ?host) (portIndex ?host) s0)"
    using Dfs_ok s0(1) by blast
  then have "keeps (\<lambda>st'. good st' \<and> same_net (se_helper st) (se_helper st')) (\<lambda>e. False)
      (Dfs (search_fuel (se_helper st)) (of_nat i) (linkSwitchIndex ?host) (portIndex ?host) s0)"
    by (rule keeps_mono) (simp add: search_step_def seen_more_def s0)
  then show ?thesis using assms(2) by (simp add: DfsFromHostIndex_def Let_def s0_def)
qed

lemma search_hosts_ok:
  assumes "good st" "\<forall>i \<in> set is. i < length (m_hostNodes (se_helper st))"
  shows "keeps (\<lambda>st'. good st' \<and> same_net (se_helper st) (se_helper st')) (\<lambda>e. False) (search_hosts is linkSum st)"
  using assms
proof (induction "is" arbitrary: st)
  case (Cons i "is")
  have "keeps (\<lambda>st'. good st' \<and> same_net (se_helper st) (se_helper st')) (\<lambda>e. False)
      (case DfsFromHostIndex i st of Inl e \<Rightarrow> Inl e | Inr st \<Rightarrow> search_hosts is linkSum st)"
  proof (rule keeps_case [OF DfsFromHostIndex_ok])
    show "good st" "i < length (m_hostNodes (se_helper st))" using Cons.prems by simp_all
    fix s assume s: "good s \<and> same_net (se_helper st) (se_helper s)"
    then have "keeps (\<lambda>st'. good st' \<and> same_net (se_helper s) (se_helper st')) (\<lambda>e. False) (search_hosts is linkSum s)"
      using Cons.prems same_net_simps(1) by (intro Cons.IH) auto
    then show "keeps (\<lambda>st'. good st' \<and> same_net (se_helper st) (se_helper st')) (\<lambda>e. False) (search_hosts is linkSum s)"
      by (rule keeps_mono) (use s same_net_trans in blast)
  qed
  then show ?case using Cons.prems(1) by simp
qed simp

text \<open>C6. On a network whose wiring is consistent, with empty tables, the default builder returns, and
  every entry of every table is right: it bears the addresses of two hosts, and a packet that
  leaves by its port, and follows the entries for the same two addresses from switch to switch,
  reaches the host that the entry names as the destination.\<close>

theorem flow_search_delivers:
  assumes "fh_buildType h = ''default''" "wired h" "\<forall>s < length (m_switchNodes h). entries h s = []"
  shows "\<exists>h'. SetSwitchesFlowtableEntries rnd h = Inr h' \<and> same_net h h' \<and>
    (\<forall>s < length (m_switchNodes h'). \<forall>e \<in> set (entries h' s).
       \<exists>a < length (m_hostNodes h'). \<exists>d < length (m_hostNodes h').
         srcIp e = ipAddr (m_hostNodes h' ! a) \<and> dstIp e = ipAddr (m_hostNodes h' ! d) \<and>
         delivers h' (srcIp e) (dstIp e) d s (outPort e))"
proof -
  let ?n = "length (m_hostNodes h)"
  define st where "st = \<lparr>se_helper = h, passSwitch = [], recordPassSwitch = {}, hostLink = replicate ?n (replicate ?n 0), linkCounter = 0\<rparr>"
  have "good st" using assms(2,3) by (simp add: good_def st_def entries_deliver_def)
  then have "keeps (\<lambda>st'. good st' \<and> same_net (se_helper st) (se_helper st')) (\<lambda>e. False)
      (search_hosts [0..<?n] (of_nat ?n * (of_nat ?n - 1)) st)"
    by (rule search_hosts_ok) (simp add: st_def)
  then obtain st' where st': "search_hosts [0..<?n] (of_nat ?n * (of_nat ?n - 1)) st = Inr st'" "good st'" "same_net h (se_helper st')"
    by (auto simp: keeps_def st_def split: sum.splits)
  then have "SetSwitchesFlowtableEntries rnd h = Inr (se_helper st')"
    using assms(1) by (simp add: SetSwitchesFlowtableEntries_def Let_def st_def)
  with st' show ?thesis unfolding good_def entries_deliver_def by blast
qed

text \<open>C29. The default builder always ends, on any network: however the switches are wired, the set of
  switches passed bounds the recursion by twice the number of switches, which the fuel of the model
  exceeds.\<close>

theorem flow_search_terminates: "SetSwitchesFlowtableEntries rnd h = Inl e \<Longrightarrow> fh_buildType h = ''default'' \<Longrightarrow> e \<noteq> NoFuel"
proof -
  assume a: "SetSwitchesFlowtableEntries rnd h = Inl e" "fh_buildType h = ''default''"
  let ?n = "length (m_hostNodes h)"
  define st where "st = \<lparr>se_helper = h, passSwitch = [], recordPassSwitch = {}, hostLink = replicate ?n (replicate ?n 0), linkCounter = 0\<rparr>"
  have "search_hosts [0..<?n] (of_nat ?n * (of_nat ?n - 1)) st = Inl e"
    using a by (simp add: SetSwitchesFlowtableEntries_def Let_def st_def split: sum.splits)
  then show ?thesis using search_hosts_keeps [of st "[0..<?n]" "of_nat ?n * (of_nat ?n - 1)"] by simp
qed

subsection \<open>The command files\<close>

lemma write_entries_first:
  "\<exists>fs. write_entries H es = concat (map entry_lines fs) \<and> distinct (map dstIp fs) \<and>
     set (map dstIp fs) = set (map dstIp es) - H \<and> (\<forall>e \<in> set fs. find (\<lambda>x. dstIp x = dstIp e) es = Some e)"
proof (induction es arbitrary: H)
  case (Cons e es)
  show ?case
  proof (cases "dstIp e \<in> H")
    case True
    obtain fs where fs: "write_entries H es = concat (map entry_lines fs)" "distinct (map dstIp fs)"
      "set (map dstIp fs) = set (map dstIp es) - H" "\<forall>e \<in> set fs. find (\<lambda>x. dstIp x = dstIp e) es = Some e" using Cons.IH by blast
    have "\<forall>f \<in> set fs. dstIp f \<noteq> dstIp e"
    proof
      fix f assume "f \<in> set fs"
      then have "dstIp f \<in> set (map dstIp fs)" by simp
      then show "dstIp f \<noteq> dstIp e" unfolding fs(3) using True by auto
    qed
    with fs True show ?thesis by (intro exI [of _ fs]) auto
  next
    case False
    obtain fs where fs: "write_entries (insert (dstIp e) H) es = concat (map entry_lines fs)" "distinct (map dstIp fs)"
      "set (map dstIp fs) = set (map dstIp es) - insert (dstIp e) H" "\<forall>e \<in> set fs. find (\<lambda>x. dstIp x = dstIp e) es = Some e" using Cons.IH by blast
    have "\<forall>f \<in> set fs. dstIp f \<noteq> dstIp e" using fs(3) by auto
    with fs False show ?thesis by (intro exI [of _ "e # fs"]) auto
  qed
qed simp

text \<open>The command file of a switch sets the three default actions, and then, for every destination
  address of its table exactly once, forwards to the port of the first entry for that address; the
  source addresses of the entries, and every later entry for the same destination, are lost.\<close>

theorem flow_files_first_entry:
  assumes "i < length (m_switchNodes h)"
  shows "\<exists>fs. WriteFlowTables h dir ! i = (dir @ ''/flowtable_'' @ FlowUintToStr (of_nat i), unlines (default_lines @ concat (map entry_lines fs))) \<and>
    distinct (map dstIp fs) \<and> set (map dstIp fs) = set (map dstIp (entries h i)) \<and>
    (\<forall>e \<in> set fs. find (\<lambda>x. dstIp x = dstIp e) (entries h i) = Some e)"
  using assms write_entries_first [of "{}" "entries h i"] by (auto simp: WriteFlowTables_def entries_def)

subsection \<open>A network of two switches\<close>

definition ex_net :: flow_helper where
  "ex_net =
     \<lparr>fh_podNum = 2, fh_buildType = ''default'',
      m_hostNodes = [\<lparr>ipAddr = ''10.1'', linkSwitchIndex = 0, portIndex = 0\<rparr>, \<lparr>ipAddr = ''10.2'', linkSwitchIndex = 1, portIndex = 1\<rparr>],
      m_switchNodes =
        [\<lparr>flowTableEntries = [], portNode = [\<lparr>flag = 0, nodeIndex = 0, nodePort = 0\<rparr>, \<lparr>flag = 1, nodeIndex = 1, nodePort = 0\<rparr>]\<rparr>,
         \<lparr>flowTableEntries = [], portNode = [\<lparr>flag = 1, nodeIndex = 0, nodePort = 1\<rparr>, \<lparr>flag = 0, nodeIndex = 1, nodePort = 0\<rparr>]\<rparr>]\<rparr>"

lemma ex_net_build:
  "BuildFlowTables rnd (BuildFlowtableHelper ''silkroad'' 2) [0, 1] [0, 1] [''10.1'', ''10.2''] [[''h0'', ''s1_0''], [''s0_1'', ''h1'']] =
    Inr (ex_net\<lparr>fh_buildType := ''silkroad''\<rparr>)"
  by (simp add: BuildFlowTables_def BuildFlowtableHelper_def SwitchNode_def parse_port_def find_underscore_def substr_def StrToUint_def
      char_value_def code_def SetSwitchesFlowtableEntries_def BuildSilkroadFlowTable_def ex_net_def Let_def)

lemma all_less_2: "(\<forall>i < 2. P i) \<longleftrightarrow> P 0 \<and> P (1 :: nat)"
  by (auto simp: less_2_cases_iff)

lemma ex_net_wired: "wired ex_net"
proof -
  have l: "length (m_switchNodes ex_net) = 2" "length (m_hostNodes ex_net) = 2" "length (ports ex_net 0) = 2" "length (ports ex_net 1) = 2"
    by (simp_all add: ex_net_def ports_def)
  have "port_ok ex_net 0 0" "port_ok ex_net 0 1" "port_ok ex_net 1 0" "port_ok ex_net 1 1"
    by (simp_all add: port_ok_def ex_net_def ports_def Let_def)
  then show ?thesis unfolding wired_def l all_less_2 Let_def by (simp add: ex_net_def ports_def)
qed

theorem flow_search_delivers_witness:
  "\<exists>h'. SetSwitchesFlowtableEntries (\<lambda>i. 0) ex_net = Inr h' \<and> same_net ex_net h'"
proof -
  have "\<forall>s < length (m_switchNodes ex_net). entries ex_net s = []" "fh_buildType ex_net = ''default''"
    by (simp_all add: ex_net_def entries_def nth_Cons')
  then show ?thesis using flow_search_delivers [OF _ ex_net_wired] by blast
qed

theorem flow_search_terminates_witness:
  "SetSwitchesFlowtableEntries (\<lambda>i. 0) (ex_net\<lparr>m_switchNodes := []\<rparr>) = Inl Undefined \<and> Undefined \<noteq> NoFuel"
proof -
  have "SetSwitchesFlowtableEntries (\<lambda>i. 0) (ex_net\<lparr>m_switchNodes := []\<rparr>) = Inl Undefined"
    by (simp add: SetSwitchesFlowtableEntries_def ex_net_def DfsFromHostIndex_def search_fuel_def Let_def numeral_2_eq_2)
  then show ?thesis using flow_search_terminates [of "\<lambda>i. 0" "ex_net\<lparr>m_switchNodes := []\<rparr>" Undefined] by (simp add: ex_net_def)
qed

theorem flow_files_first_entry_witness:
  "\<exists>fs. snd (WriteFlowTables ex_net ''d'' ! 0) = unlines (default_lines @ concat (map entry_lines fs)) \<and> set (map dstIp fs) = {}"
  using flow_files_first_entry [of 0 ex_net "''d''"] by (auto simp: ex_net_def entries_def)

end
