(* ===== verification/Flow_Routing.thy ===== *)
theory Flow_Routing
  imports Flow_Properties
begin

text \<open>
  The command files hold, for each destination, the first entry of a switch's table only. This
  theory shows what a network forwards with these files: after the depth-first search, and after
  the fat-tree builder, packets reach their destination, whatever host they come from.
\<close>

subsection \<open>Forwarding by the first entry\<close>

definition host_ip :: "flow_helper \<Rightarrow> nat \<Rightarrow> string" where
  "host_ip h d = ipAddr (m_hostNodes h ! d)"

definition first_entry :: "flow_helper \<Rightarrow> nat \<Rightarrow> string \<Rightarrow> FlowTableEntry_t option" where
  "first_entry h s ip = find (\<lambda>e. dstIp e = ip) (entries h s)"

text \<open>A packet for the address \<open>ip\<close> at switch \<open>s\<close> reaches the host \<open>d\<close>.\<close>

inductive routes :: "flow_helper \<Rightarrow> string \<Rightarrow> nat \<Rightarrow> nat \<Rightarrow> bool" for h ip d where
  arrive: "s < length (m_switchNodes h) \<Longrightarrow> first_entry h s ip = Some e \<Longrightarrow> unat (outPort e) < length (ports h s) \<Longrightarrow>
    flag (ports h s ! unat (outPort e)) = 0 \<Longrightarrow> nodeIndex (ports h s ! unat (outPort e)) = of_nat d \<Longrightarrow> routes h ip d s"
| forward: "s < length (m_switchNodes h) \<Longrightarrow> first_entry h s ip = Some e \<Longrightarrow> unat (outPort e) < length (ports h s) \<Longrightarrow>
    flag (ports h s ! unat (outPort e)) \<noteq> 0 \<Longrightarrow> routes h ip d (unat (nodeIndex (ports h s ! unat (outPort e)))) \<Longrightarrow> routes h ip d s"

text \<open>Every switch that has an entry for a host routes to that host.\<close>

definition all_route :: "flow_helper \<Rightarrow> bool" where
  "all_route h \<longleftrightarrow> (\<forall>s < length (m_switchNodes h). \<forall>d < length (m_hostNodes h).
     first_entry h s (host_ip h d) \<noteq> None \<longrightarrow> routes h (host_ip h d) d s)"

text \<open>No two hosts have one address, every host has one port, and no port links a switch to itself.\<close>

definition plain :: "flow_helper \<Rightarrow> bool" where
  "plain h \<longleftrightarrow>
     distinct (map ipAddr (m_hostNodes h)) \<and>
     (\<forall>s < length (m_switchNodes h). \<forall>p < length (ports h s).
        let pn = ports h s ! p; n = m_hostNodes h ! unat (nodeIndex pn)
        in if flag pn = 0 then linkSwitchIndex n = of_nat s \<and> portIndex n = of_nat p else nodeIndex pn \<noteq> of_nat s)"

definition extends :: "flow_helper \<Rightarrow> flow_helper \<Rightarrow> bool" where
  "extends h h' \<longleftrightarrow> same_net h h' \<and> (\<forall>s < length (m_switchNodes h). prefix (entries h s) (entries h' s))"

lemma extends_refl [simp]: "extends h h"
  by (simp add: extends_def)

lemma extends_net: "extends h h' \<Longrightarrow> same_net h h'"
  by (simp add: extends_def)

lemma extends_trans: "extends a b \<Longrightarrow> extends b c \<Longrightarrow> extends a c"
  unfolding extends_def using same_net_trans same_net_simps(2) prefix_order.trans by metis

lemma AddFlowtableEntry_extends: "keeps (extends h) (\<lambda>e. True) (AddFlowtableEntry h sw src dst out)"
proof (cases "AddFlowtableEntry h sw src dst out")
  case (Inr h')
  then have "same_net h h'" using AddFlowtableEntry_keeps [of h sw src dst out] by simp
  moreover have "\<forall>s < length (m_switchNodes h). prefix (entries h s) (entries h' s)"
    using Inr by (auto simp: AddFlowtableEntry_def Let_def entries_def nth_list_update split: if_splits)
  ultimately show ?thesis using Inr by (simp add: extends_def)
qed simp

lemma AddFlowtableEntry2_extends: "keeps (extends h) (\<lambda>e. True) (AddFlowtableEntry2 h src inp sw out dst)"
  unfolding AddFlowtableEntry2_def
  by (rule keeps_case [OF AddFlowtableEntry_extends]) (rule keeps_mono [OF AddFlowtableEntry_extends], rule extends_trans)

lemma dfs_host_extends: "keeps (\<lambda>st'. extends (se_helper st) (se_helper st')) (\<lambda>e. True) (dfs_host hostIndex sw inp cur t dst st)"
proof -
  have loop: "keeps (extends h) (\<lambda>e. True)
      (for_each ss (\<lambda>s h. AddFlowtableEntry2 h hostIndex (inPortIndex s) (switchIndex s) (outPortIndex s) dst) h)" for h ss
    by (rule for_each_keeps) (auto intro: keeps_mono [OF AddFlowtableEntry2_extends] extends_trans)
  have chain: "keeps (\<lambda>st'. extends (se_helper st) (se_helper st')) (\<lambda>e. True)
      (case for_each ss (\<lambda>s h. AddFlowtableEntry2 h hostIndex (inPortIndex s) (switchIndex s) (outPortIndex s) dst) (se_helper st) of
         Inl e \<Rightarrow> Inl e
       | Inr h \<Rightarrow> (case AddFlowtableEntry2 h hostIndex inp sw (of_nat t) dst of
                     Inl e \<Rightarrow> Inl e
                   | Inr h \<Rightarrow> Inr (st\<lparr>hostLink := link, linkCounter := c, se_helper := h\<rparr>)))" for ss link c
    by (rule keeps_case [OF loop], rule keeps_case [OF AddFlowtableEntry2_extends]) (simp, rule extends_trans)
  show ?thesis
    unfolding dfs_host_def Let_def by (intro keeps_if) (simp_all add: chain)
qed

lemma find_prefix: "find P xs = Some x \<Longrightarrow> find P (xs @ ys) = Some x"
  by (induction xs) (auto split: if_splits)

lemma first_entry_mono:
  assumes "extends h h'" "s < length (m_switchNodes h)" "first_entry h s ip = Some e"
  shows "first_entry h' s ip = Some e"
proof -
  obtain es where "entries h' s = entries h s @ es" using assms(1,2) by (auto simp: extends_def prefix_def)
  then show ?thesis using assms(3) by (simp add: first_entry_def find_prefix)
qed

lemma first_entry_has:
  assumes "first_entry h s ip = Some e" "s < length (m_switchNodes h)"
  shows "has h s e" "dstIp e = ip"
  using assms by (auto simp: first_entry_def has_def find_Some_iff)

lemma has_first_entry: "has h s e \<Longrightarrow> dstIp e = ip \<Longrightarrow> first_entry h s ip \<noteq> None"
  by (auto simp: first_entry_def has_def find_None_iff)

lemma routes_mono:
  assumes "routes h ip d s" "extends h h'"
  shows "routes h' ip d s"
  using assms(1)
proof induction
  case (arrive s e)
  note S = same_net_simps(2) [OF extends_net [OF assms(2)]] same_net_simps(3) [OF extends_net [OF assms(2)] arrive(1)]
  show ?case
    by (rule routes.arrive [OF _ first_entry_mono [OF assms(2) arrive(1,2)]]) (use arrive S in \<open>simp_all only:\<close>)
next
  case (forward s e)
  note S = same_net_simps(2) [OF extends_net [OF assms(2)]] same_net_simps(3) [OF extends_net [OF assms(2)] forward(1)]
  show ?case
    by (rule routes.forward [OF _ first_entry_mono [OF assms(2) forward(1,2)]]) (use forward S in \<open>simp_all only: not_False_eq_True\<close>)
qed

lemma plain_ip:
  assumes "plain h" "a < length (m_hostNodes h)" "b < length (m_hostNodes h)"
  shows "host_ip h a = host_ip h b \<longleftrightarrow> a = b"
proof -
  have "distinct (map ipAddr (m_hostNodes h))" using assms(1) by (simp add: plain_def)
  then show ?thesis using assms(2,3) nth_eq_iff_index_eq [of "map ipAddr (m_hostNodes h)" a b] by (simp add: host_ip_def)
qed

lemma same_net_plain:
  assumes "same_net h h'" "plain h"
  shows "plain h'"
proof -
  note S = same_net_simps [OF assms(1)]
  show ?thesis using assms(2) S(3) unfolding plain_def S(1,2) Let_def by (metis (no_types, lifting))
qed

subsection \<open>Routes along the stack\<close>

lemma unat_same: "unat x = unat y \<longleftrightarrow> x = y" for x y :: u32
  by (auto intro: unsigned_word_eqI)

text \<open>Where a switch leads already, or its first entry has the port of the path.\<close>

definition routes_or_port :: "flow_helper \<Rightarrow> nat \<Rightarrow> nat \<Rightarrow> u32 \<Rightarrow> bool" where
  "routes_or_port h d s p \<longleftrightarrow>
     routes h (host_ip h d) d s \<or> (\<exists>e. first_entry h s (host_ip h d) = Some e \<and> outPort e = p)"

lemma routes_or_port_forward:
  assumes "routes_or_port h d s p" "s < length (m_switchNodes h)" "unat p < length (ports h s)" "flag (ports h s ! unat p) \<noteq> 0"
    "routes h (host_ip h d) d (unat (nodeIndex (ports h s ! unat p)))"
  shows "routes h (host_ip h d) d s"
  using assms routes.forward [of s h "host_ip h d" _ d] unfolding routes_or_port_def by metis

lemma routes_or_port_arrive:
  assumes "routes_or_port h d s p" "s < length (m_switchNodes h)" "unat p < length (ports h s)" "flag (ports h s ! unat p) = 0"
    "nodeIndex (ports h s ! unat p) = of_nat d"
  shows "routes h (host_ip h d) d s"
  using assms routes.arrive [of s h "host_ip h d" _ d] unfolding routes_or_port_def by metis

lemma routes_back:
  assumes "wired h" "unat a < length (m_hostNodes h)"
  shows "is_path h a ss sw inp \<Longrightarrow> routes_or_port h (unat a) (unat sw) inp \<Longrightarrow>
    \<forall>x \<in> set ss. routes_or_port h (unat a) (unat (switchIndex x)) (inPortIndex x) \<Longrightarrow>
    routes h (host_ip h (unat a)) (unat a) (unat sw) \<and> (\<forall>x \<in> set ss. routes h (host_ip h (unat a)) (unat a) (unat (switchIndex x)))"
proof (induction ss arbitrary: sw inp)
  case Nil
  note H = wired_host [OF assms]
  show ?case
    using routes_or_port_arrive [OF Nil(2)] H Nil(1) by simp
next
  case (Cons x ss)
  let ?s = "unat (switchIndex x)" and ?p = "unat (outPortIndex x)"
  have x: "?s < length (m_switchNodes h)" "?p < length (ports h ?s)" "flag (ports h ?s ! ?p) \<noteq> 0"
    "nodeIndex (ports h ?s ! ?p) = sw" "nodePort (ports h ?s ! ?p) = inp" "is_path h a ss (switchIndex x) (inPortIndex x)"
    using Cons.prems(1) by simp_all
  note P = port_ok_switch [OF wired_port [OF assms(1) x(1,2)] x(3), unfolded x(4,5)]
  have IH: "routes h (host_ip h (unat a)) (unat a) ?s \<and> (\<forall>y \<in> set ss. routes h (host_ip h (unat a)) (unat a) (unat (switchIndex y)))"
    by (rule Cons.IH [OF x(6)]) (use Cons.prems(3) in simp_all)
  moreover have "routes h (host_ip h (unat a)) (unat a) (unat sw)"
    by (rule routes_or_port_forward [OF Cons.prems(2)]) (use P x(3) IH in simp_all)
  ultimately show ?case by simp
qed

lemma routes_forth:
  "is_path h a ss sw inp \<Longrightarrow> routes h (host_ip h d) d (unat sw) \<Longrightarrow>
    \<forall>x \<in> set ss. routes_or_port h d (unat (switchIndex x)) (outPortIndex x) \<Longrightarrow>
    \<forall>x \<in> set ss. routes h (host_ip h d) d (unat (switchIndex x))"
proof (induction ss arbitrary: sw inp)
  case (Cons x ss)
  let ?s = "unat (switchIndex x)" and ?p = "unat (outPortIndex x)"
  have x: "?s < length (m_switchNodes h)" "?p < length (ports h ?s)" "flag (ports h ?s ! ?p) \<noteq> 0"
    "nodeIndex (ports h ?s ! ?p) = sw" "is_path h a ss (switchIndex x) (inPortIndex x)"
    using Cons.prems(1) by simp_all
  have "routes h (host_ip h d) d ?s"
    by (rule routes_or_port_forward [OF _ x(1,2,3)]) (use Cons.prems(2,3) x(4) in simp_all)
  then show ?case using Cons.IH [OF x(5)] Cons.prems(3) by simp
qed simp

text \<open>Entries for two hosts along a path of different switches: everything still leads where it should.\<close>

lemma path_all_route:
  assumes W: "wired h" and P: "plain h" and R: "all_route h" and ab: "unat a < length (m_hostNodes h)" "unat b < length (m_hostNodes h)" "a \<noteq> b"
    and path: "is_path h a ss sw inp" and D: "distinct (sw # map switchIndex ss)"
    and q: "unat q < length (ports h (unat sw))" "flag (ports h (unat sw) ! unat q) = 0" "nodeIndex (ports h (unat sw) ! unat q) = b"
    and ext: "extends h h'"
    and new: "\<And>s e. has h' s e \<longleftrightarrow> has h s e \<or>
       (\<exists>x \<in> set ss. s = unat (switchIndex x) \<and> (e = host_entry h b a (inPortIndex x) \<or> e = host_entry h a b (outPortIndex x))) \<or>
       s = unat sw \<and> (e = host_entry h b a inp \<or> e = host_entry h a b q)"
  shows "all_route h'" "first_entry h' (unat sw) (host_ip h' (unat b)) \<noteq> None"
    "first_entry h' (unat (linkSwitchIndex (m_hostNodes h' ! unat a))) (host_ip h' (unat b)) \<noteq> None"
    "first_entry h' (unat sw) (host_ip h' (unat a)) \<noteq> None"
proof -
  have net: "same_net h h'" by (rule extends_net [OF ext])
  note S = same_net_simps [OF net]
  have W': "wired h'" by (rule same_net_wired [OF net W])
  have ip: "host_ip h' x = host_ip h x" for x using S(1) by (simp add: host_ip_def)
  have ab': "unat a < length (m_hostNodes h')" "unat b < length (m_hostNodes h')" using ab S(1) by simp_all
  have path': "is_path h' a ss sw inp" by (rule same_net_path [OF net path])
  have sw: "unat sw < length (m_switchNodes h)" using is_path_end [OF W ab(1) path] by blast
  have ss: "\<forall>x \<in> set ss. unat (switchIndex x) < length (m_switchNodes h)" if "is_path h a ss s p" for ss s p
    using that by (induction ss arbitrary: s p) auto
  have ne: "host_ip h (unat a) \<noteq> host_ip h (unat b)" using plain_ip [OF P ab(1,2)] ab(3) by (simp add: unat_same)
  have dst: "dstIp (host_entry h x y z) = host_ip h (unat y)" for x y z by (simp add: host_ip_def)
  have old: "routes h' (host_ip h' d) d s" if "first_entry h s (host_ip h d) = Some e" "s < length (m_switchNodes h)" "d < length (m_hostNodes h)" for s d e
    using R that routes_mono [OF _ ext] unfolding ip all_route_def by (metis option.distinct(1))
  have fresh: "has h' s e \<and> \<not> has h s e \<and> dstIp e = host_ip h d" if "first_entry h s (host_ip h d) = None" "first_entry h' s (host_ip h d) = Some e"
    "s < length (m_switchNodes h)" for s d e
    using first_entry_has [OF that(2)] has_first_entry [of h s e] that S(2) by auto
  have some: "\<exists>e. first_entry h' s (host_ip h d) = Some e" if "has h' s (host_entry h c x z)" "unat x = d" for s c x z d
    using has_first_entry [OF that(1) dst] that(2) by auto
  have at_sw: "routes_or_port h' (unat b) (unat sw) q" "routes_or_port h' (unat a) (unat sw) inp"
  proof -
    have u: "\<not> (\<exists>x \<in> set ss. unat sw = unat (switchIndex x))" using D by (auto simp: unat_same)
    obtain e where e: "first_entry h' (unat sw) (host_ip h (unat b)) = Some e" using some [of "unat sw" a b q] new by blast
    show "routes_or_port h' (unat b) (unat sw) q"
    proof (cases "first_entry h (unat sw) (host_ip h (unat b))")
      case None
      then have "e = host_entry h a b q" using fresh [OF None e sw] u ne unfolding new by (auto simp: host_ip_def)
      then show ?thesis using e unfolding routes_or_port_def ip by simp
    qed (use old sw ab in \<open>auto simp: routes_or_port_def\<close>)
    obtain e where e: "first_entry h' (unat sw) (host_ip h (unat a)) = Some e" using some [of "unat sw" b a inp] new by blast
    show "routes_or_port h' (unat a) (unat sw) inp"
    proof (cases "first_entry h (unat sw) (host_ip h (unat a))")
      case None
      then have "e = host_entry h b a inp" using fresh [OF None e sw] u ne unfolding new by (auto simp: host_ip_def)
      then show ?thesis using e unfolding routes_or_port_def ip by simp
    qed (use old sw ab in \<open>auto simp: routes_or_port_def\<close>)
  qed
  have at_x: "routes_or_port h' (unat b) (unat (switchIndex x)) (outPortIndex x) \<and> routes_or_port h' (unat a) (unat (switchIndex x)) (inPortIndex x)"
    if x: "x \<in> set ss" for x
  proof -
    let ?s = "unat (switchIndex x)"
    have s: "?s < length (m_switchNodes h)" using ss [OF path] x by blast
    have u: "?s = unat (switchIndex y) \<longleftrightarrow> x = y" if "y \<in> set ss" for y
      using D x that by (auto simp: distinct_map inj_on_def unat_same)
    have v: "?s \<noteq> unat sw" using D x by (auto simp: unat_same)
    obtain e where e: "first_entry h' ?s (host_ip h (unat b)) = Some e" using some [of ?s a b "outPortIndex x"] new x by blast
    have "routes_or_port h' (unat b) ?s (outPortIndex x)"
    proof (cases "first_entry h ?s (host_ip h (unat b))")
      case None
      then have "e = host_entry h a b (outPortIndex x)"
        using fresh [OF None e s] u v ne unfolding new by (auto simp: host_ip_def)
      then show ?thesis using e unfolding routes_or_port_def ip by simp
    qed (use old s ab in \<open>auto simp: routes_or_port_def\<close>)
    moreover have "routes_or_port h' (unat a) ?s (inPortIndex x)"
    proof (cases "first_entry h ?s (host_ip h (unat a))")
      case None
      obtain e where e: "first_entry h' ?s (host_ip h (unat a)) = Some e" using some [of ?s b a "inPortIndex x"] new x by blast
      then have "e = host_entry h b a (inPortIndex x)"
        using fresh [OF None e s] u v ne unfolding new by (auto simp: host_ip_def)
      then show ?thesis using e unfolding routes_or_port_def ip by simp
    qed (use old s ab in \<open>auto simp: routes_or_port_def\<close>)
    ultimately show ?thesis by blast
  qed
  have home: "routes h' (host_ip h' (unat a)) (unat a) (unat sw) \<and> (\<forall>x \<in> set ss. routes h' (host_ip h' (unat a)) (unat a) (unat (switchIndex x)))"
    by (rule routes_back [OF W' ab'(1) path' at_sw(2)]) (use at_x in blast)
  have there: "routes h' (host_ip h' (unat b)) (unat b) (unat sw)"
    by (rule routes_or_port_arrive [OF at_sw(1)]) (use sw q S(2) S(3) [OF sw] in simp_all)
  have forth: "\<forall>x \<in> set ss. routes h' (host_ip h' (unat b)) (unat b) (unat (switchIndex x))"
    by (rule routes_forth [OF path' there]) (use at_x in blast)
  show "all_route h'"
    unfolding all_route_def
  proof (intro allI impI)
    fix s d assume s: "s < length (m_switchNodes h')" and d: "d < length (m_hostNodes h')"
      and f: "first_entry h' s (host_ip h' d) \<noteq> None"
    then obtain e where e: "first_entry h' s (host_ip h d) = Some e" by (auto simp: ip)
    show "routes h' (host_ip h' d) d s"
    proof (cases "first_entry h s (host_ip h d)")
      case None
      have F: "has h' s e \<and> \<not> has h s e \<and> dstIp e = host_ip h d" by (rule fresh [OF None e]) (use s S(2) in simp)
      then have "(\<exists>x \<in> set ss. s = unat (switchIndex x)) \<or> s = unat sw" "d = unat a \<or> d = unat b"
        using d S(1) plain_ip [OF P _ ab(1), of d] plain_ip [OF P _ ab(2), of d] unfolding new by (auto simp: dst simp del: host_entry_fields)
      then show ?thesis using home there forth by auto
    qed (use old s d S(1,2) in simp)
  qed
  show "first_entry h' (unat sw) (host_ip h' (unat b)) \<noteq> None" "first_entry h' (unat sw) (host_ip h' (unat a)) \<noteq> None"
    unfolding ip using some [of "unat sw" a b q] some [of "unat sw" b a inp] new by auto
  have first: "linkSwitchIndex (m_hostNodes h ! unat a) = sw \<or> (\<exists>x \<in> set ss. linkSwitchIndex (m_hostNodes h ! unat a) = switchIndex x)"
    if "is_path h a ss sw inp" for ss sw inp
    using that by (induction ss arbitrary: sw inp) auto
  show "first_entry h' (unat (linkSwitchIndex (m_hostNodes h' ! unat a))) (host_ip h' (unat b)) \<noteq> None"
    using first [OF path] some new unfolding ip S(1) by (metis option.distinct(1))
qed

subsection \<open>What the search links\<close>

definition linked :: "search \<Rightarrow> nat \<Rightarrow> nat \<Rightarrow> bool" where
  "linked st i j \<longleftrightarrow> i < length (hostLink st) \<and> j < length (hostLink st) \<and> hostLink st ! i ! j \<noteq> 0"

definition link_switch :: "flow_helper \<Rightarrow> nat \<Rightarrow> nat" where
  "link_switch h i = unat (linkSwitchIndex (m_hostNodes h ! i))"

text \<open>Linked hosts have entries for each other, and the counter counts them.\<close>

definition fine :: "search \<Rightarrow> bool" where
  "fine st \<longleftrightarrow> good st \<and> plain (se_helper st) \<and> all_route (se_helper st) \<and>
     (\<forall>i j. linked st i j \<longrightarrow> i \<noteq> j \<and> linked st j i \<and>
        first_entry (se_helper st) (link_switch (se_helper st) i) (host_ip (se_helper st) j) \<noteq> None) \<and>
     linkCounter st = of_nat (card {(i, j). linked st i j})"

definition progress :: "search \<Rightarrow> search \<Rightarrow> bool" where
  "progress st st' \<longleftrightarrow> extends (se_helper st) (se_helper st') \<and> recordPassSwitch st \<subseteq> recordPassSwitch st' \<and>
     (\<forall>i j. linked st i j \<longrightarrow> linked st' i j)"

lemma progress_refl [simp]: "progress st st"
  by (simp add: progress_def)

lemma progress_trans: "progress a b \<Longrightarrow> progress b c \<Longrightarrow> progress a c"
  unfolding progress_def using extends_trans by blast

lemma link_pair_nth:
  assumes "length link = n" "\<forall>row \<in> set link. length row = n" "a < n" "b < n" "i < n" "j < n"
  shows "link_pair link a b ! i ! j = (if (i, j) = (a, b) \<or> (i, j) = (b, a) then 1 else link ! i ! j)"
proof -
  have "length (link ! a) = n" "length (link ! b) = n" using assms by simp_all
  then show ?thesis using assms by (auto simp: link_pair_def Let_def nth_list_update)
qed

lemma linked_link_pair:
  assumes "length (hostLink st) = n" "\<forall>row \<in> set (hostLink st). length row = n" "a < n" "b < n"
    and "hostLink st' = link_pair (hostLink st) a b"
  shows "linked st' i j \<longleftrightarrow> linked st i j \<or> (i, j) = (a, b) \<or> (i, j) = (b, a)"
  using link_pair_nth [OF assms(1-4), of i j] link_pair_shape [OF assms(1-4)] assms unfolding linked_def by (auto split: if_splits)

lemma finite_linked: "finite {(i, j). linked st i j}"
  by (rule finite_subset [of _ "{..<length (hostLink st)} \<times> {..<length (hostLink st)}"]) (auto simp: linked_def)

lemma path_start:
  "is_path h a ss sw inp \<Longrightarrow> distinct (sw # map switchIndex ss) \<Longrightarrow> sw = linkSwitchIndex (m_hostNodes h ! unat a) \<Longrightarrow>
    inp = portIndex (m_hostNodes h ! unat a)"
proof -
  have "linkSwitchIndex (m_hostNodes h ! unat a) = sw \<or> (\<exists>x \<in> set ss. linkSwitchIndex (m_hostNodes h ! unat a) = switchIndex x)"
    if "is_path h a ss sw inp" for ss sw inp
    using that by (induction ss arbitrary: sw inp) auto
  then show "is_path h a ss sw inp \<Longrightarrow> distinct (sw # map switchIndex ss) \<Longrightarrow> sw = linkSwitchIndex (m_hostNodes h ! unat a) \<Longrightarrow> ?thesis"
    by (cases ss) force+
qed

lemma dfs_host_fine:
  assumes F: "fine st" and a: "unat a < length (m_hostNodes (se_helper st))"
    and path: "is_path (se_helper st) a (trim cur (passSwitch st)) sw inp" and D: "distinct (sw # map switchIndex (trim cur (passSwitch st)))"
    and t: "t < length (ports (se_helper st) (unat sw))" "flag (ports (se_helper st) (unat sw) ! t) = 0"
      "nodeIndex (ports (se_helper st) (unat sw) ! t) = b" "t \<noteq> unat inp"
  shows "\<exists>st'. dfs_host a sw inp cur t b st = Inr st' \<and> fine st' \<and> progress st st' \<and> passSwitch st' = passSwitch st \<and>
    recordPassSwitch st' = recordPassSwitch st \<and> linked st' (unat a) (unat b)"
proof -
  let ?h = "se_helper st" and ?n = "length (m_hostNodes (se_helper st))"
  have G: "good st" and W: "wired ?h" and P: "plain ?h" and R: "all_route ?h" using F by (simp_all add: fine_def good_def)
  have sw: "unat sw < length (m_switchNodes ?h)" using is_path_end [OF W a path] by blast
  have b: "unat b < ?n" using wired_port [OF W sw t(1)] t(2,3) by (simp add: port_ok_def)
  have tq: "unat (of_nat t :: u32) = t" using t(1) W sw by (intro unat_u32) (auto simp: wired_def)
  have L: "length (hostLink st) = ?n" "\<forall>row \<in> set (hostLink st). length row = ?n" using G by (auto simp: good_def)
  have home_b: "linkSwitchIndex (m_hostNodes ?h ! unat b) = sw" "portIndex (m_hostNodes ?h ! unat b) = of_nat t"
    using P sw t(1,2,3) by (auto simp: plain_def Let_def)
  have ne: "a \<noteq> b" using path_start [OF path D] home_b t(4) tq by auto
  show ?thesis
  proof (cases "hostLink st ! unat a ! unat b = 0")
    case False
    then show ?thesis using L a b F by (simp add: dfs_host_def linked_def)
  next
    case True
    obtain h where h: "dfs_host a sw inp cur t b st =
        Inr (st\<lparr>hostLink := link_pair (hostLink st) (unat a) (unat b), linkCounter := linkCounter st + 2, se_helper := h\<rparr>)"
      "same_net ?h h"
      "\<forall>s e. has h s e \<longleftrightarrow> has ?h s e \<or>
         (\<exists>x \<in> set (trim cur (passSwitch st)). s = unat (switchIndex x) \<and>
            (e = host_entry ?h b a (inPortIndex x) \<or> e = host_entry ?h a b (outPortIndex x))) \<or>
         s = unat sw \<and> (e = host_entry ?h b a inp \<or> e = host_entry ?h a b (of_nat t))"
      using dfs_host_step [OF G a path b True] by blast
    have ext: "extends ?h h" using dfs_host_extends [of st a sw inp cur t b] h(1) by simp
    define st' where "st' = st\<lparr>hostLink := link_pair (hostLink st) (unat a) (unat b), linkCounter := linkCounter st + 2, se_helper := h\<rparr>"
    have li: "linked st' i j \<longleftrightarrow> linked st i j \<or> (i, j) = (unat a, unat b) \<or> (i, j) = (unat b, unat a)" for i j
      by (rule linked_link_pair [OF L a b]) (simp add: st'_def)
    have A: "all_route h" "first_entry h (unat sw) (host_ip h (unat b)) \<noteq> None"
      "first_entry h (unat (linkSwitchIndex (m_hostNodes h ! unat a))) (host_ip h (unat b)) \<noteq> None"
      "first_entry h (unat sw) (host_ip h (unat a)) \<noteq> None"
      using path_all_route [OF W P R a b ne path D _ _ _ ext, where q = "of_nat t"] t(1,2,3) h(3) unfolding tq by blast+
    have "good st'"
      using dfs_host_ok [OF G a path t(1,2,3)] h(1) by (auto simp: st'_def)
    moreover have "\<forall>i j. linked st' i j \<longrightarrow> i \<noteq> j \<and> linked st' j i \<and> first_entry h (link_switch h i) (host_ip h j) \<noteq> None"
    proof (intro allI impI)
      fix i j assume "linked st' i j"
      then consider "linked st i j" | "(i, j) = (unat a, unat b)" | "(i, j) = (unat b, unat a)" unfolding li by blast
      then show "i \<noteq> j \<and> linked st' j i \<and> first_entry h (link_switch h i) (host_ip h j) \<noteq> None"
      proof cases
        case 1
        then have o: "i \<noteq> j" "linked st j i" "first_entry ?h (link_switch ?h i) (host_ip ?h j) \<noteq> None" using F by (auto simp: fine_def)
        have "i < ?n" using 1 L by (simp add: linked_def)
        then have "link_switch ?h i < length (m_switchNodes ?h)" using wired_host(1) [OF W] by (simp add: link_switch_def)
        then have "first_entry h (link_switch ?h i) (host_ip ?h j) \<noteq> None" using o(3) first_entry_mono [OF ext] by blast
        then show ?thesis using o li same_net_simps(1) [OF h(2)] by (simp add: link_switch_def host_ip_def)
      next
        case 2
        then show ?thesis using A ne li by (auto simp: link_switch_def unat_same)
      next
        case 3
        then show ?thesis using A ne li home_b same_net_simps(1) [OF h(2)] by (auto simp: link_switch_def unat_same)
      qed
    qed
    moreover have "linkCounter st' = of_nat (card {(i, j). linked st' i j})"
    proof -
      have "{(i, j). linked st' i j} = insert (unat a, unat b) (insert (unat b, unat a) {(i, j). linked st i j})" unfolding li by auto
      moreover have "\<not> linked st (unat a) (unat b)" "\<not> linked st (unat b) (unat a)" using True F by (auto simp: linked_def fine_def)
      ultimately have "card {(i, j). linked st' i j} = card {(i, j). linked st i j} + 2"
        using ne finite_linked [of st] by (simp add: unat_same)
      then show ?thesis using F by (simp add: st'_def fine_def)
    qed
    ultimately have "fine st'" using A(1) same_net_plain [OF h(2) P] by (simp add: fine_def st'_def)
    moreover have "progress st st'" using ext li by (simp add: progress_def st'_def)
    ultimately show ?thesis using h(1) li by (auto simp: st'_def)
  qed
qed

subsection \<open>What the search visits\<close>

lemma for_each_upt_keeps:
  assumes "\<And>k s. k < n \<Longrightarrow> P k s \<Longrightarrow> keeps (P (Suc k)) Q (body k s)" "P 0 s"
  shows "keeps (P n) Q (for_each [0..<n] body s)"
proof -
  have "keeps (P n) Q (for_each [m..<n] body s)" if "m \<le> n" "P m s" for m s
    using that
  proof (induction "n - m" arbitrary: m s)
    case (Suc d)
    then have "[m..<n] = m # [Suc m..<n]" by (simp add: upt_conv_Cons)
    moreover have "keeps (P (Suc m)) Q (body m s)" using Suc by (intro assms(1)) simp_all
    ultimately show ?case using Suc by (auto intro: keeps_case)
  qed simp
  then show ?thesis using assms(2) by simp
qed

text \<open>
  On the network \<open>h\<close>: a port is \<open>closed\<close> when its host is linked with the host \<open>a\<close>, or its switch was
  passed; a switch is \<open>leaf\<close> when all its ports are closed; a port is \<open>settled\<close> when
  it is closed or leads to a leaf.
\<close>

definition port_closed :: "flow_helper \<Rightarrow> search \<Rightarrow> u32 \<Rightarrow> NodeFlagIndex_t \<Rightarrow> bool" where
  "port_closed h st a pn \<longleftrightarrow>
     (if flag pn = 0 then nodeIndex pn = a \<or> linked st (unat a) (unat (nodeIndex pn)) else nodeIndex pn \<in> recordPassSwitch st)"

definition leaf :: "flow_helper \<Rightarrow> search \<Rightarrow> u32 \<Rightarrow> u32 \<Rightarrow> bool" where
  "leaf h st a v \<longleftrightarrow> (\<forall>pn \<in> set (ports h (unat v)). port_closed h st a pn)"

definition port_settled :: "flow_helper \<Rightarrow> search \<Rightarrow> u32 \<Rightarrow> NodeFlagIndex_t \<Rightarrow> bool" where
  "port_settled h st a pn \<longleftrightarrow> port_closed h st a pn \<or> flag pn \<noteq> 0 \<and> leaf h st a (nodeIndex pn)"

definition settled :: "flow_helper \<Rightarrow> search \<Rightarrow> u32 \<Rightarrow> u32 \<Rightarrow> bool" where
  "settled h st a v \<longleftrightarrow> (\<forall>pn \<in> set (ports h (unat v)). port_settled h st a pn)"

lemma settled_mono:
  assumes "progress st st'"
  shows "port_closed h st a pn \<Longrightarrow> port_closed h st' a pn" "leaf h st a v \<Longrightarrow> leaf h st' a v"
    "port_settled h st a pn \<Longrightarrow> port_settled h st' a pn" "settled h st a v \<Longrightarrow> settled h st' a v"
proof -
  have c: "port_closed h st' a pn" if "port_closed h st a pn" for pn
    using that assms unfolding port_closed_def progress_def by (auto split: if_splits)
  have l: "leaf h st' a v" if "leaf h st a v" for v using that c unfolding leaf_def by blast
  have p: "port_settled h st' a pn" if "port_settled h st a pn" for pn using that c l unfolding port_settled_def by blast
  show "port_closed h st a pn \<Longrightarrow> port_closed h st' a pn" "leaf h st a v \<Longrightarrow> leaf h st' a v"
    "port_settled h st a pn \<Longrightarrow> port_settled h st' a pn" "settled h st a v \<Longrightarrow> settled h st' a v"
    using c l p unfolding settled_def by blast+
qed

definition visited :: "flow_helper \<Rightarrow> u32 \<Rightarrow> u32 \<Rightarrow> search \<Rightarrow> search \<Rightarrow> bool" where
  "visited h a sw st st' \<longleftrightarrow> fine st' \<and> progress st st' \<and> length (passSwitch st) \<le> length (passSwitch st') \<and>
     trim (length (passSwitch st)) (passSwitch st') = passSwitch st \<and>
     (sw \<in> recordPassSwitch st' \<or> leaf h st' a sw) \<and> (\<forall>v \<in> recordPassSwitch st' - recordPassSwitch st. settled h st' a v)"

text \<open>After the ports below \<open>k\<close>.\<close>

definition visiting :: "flow_helper \<Rightarrow> u32 \<Rightarrow> u32 \<Rightarrow> search \<Rightarrow> nat \<Rightarrow> search \<Rightarrow> bool" where
  "visiting h a sw st k s \<longleftrightarrow> fine s \<and> progress st s \<and> length (passSwitch st) \<le> length (passSwitch s) \<and>
     trim (length (passSwitch st)) (passSwitch s) = passSwitch st \<and>
     (\<forall>p < k. port_settled h s a (ports h (unat sw) ! p)) \<and>
     (sw \<in> recordPassSwitch s \<or> (\<forall>p < k. port_closed h s a (ports h (unat sw) ! p))) \<and>
     (\<forall>v \<in> recordPassSwitch s - recordPassSwitch st. v \<noteq> sw \<longrightarrow> settled h s a v)"

lemma visiting_all:
  assumes "visiting h a sw st (length (ports h (unat sw))) s"
  shows "visited h a sw st s"
proof -
  have "\<forall>pn \<in> set (ports h (unat sw)). port_settled h s a pn"
    using assms by (simp add: visiting_def all_set_conv_all_nth)
  moreover have "sw \<in> recordPassSwitch s \<or> (\<forall>pn \<in> set (ports h (unat sw)). port_closed h s a pn)"
    using assms by (simp add: visiting_def all_set_conv_all_nth)
  ultimately show ?thesis using assms unfolding visiting_def visited_def settled_def leaf_def by auto
qed

lemma visiting_closed:
  assumes "visiting h a sw st k s" "fine s'" "progress s s'" "passSwitch s' = passSwitch s" "recordPassSwitch s' = recordPassSwitch s"
    "port_closed h s' a (ports h (unat sw) ! k)"
  shows "visiting h a sw st (Suc k) s'"
  using assms settled_mono [OF assms(3)] progress_trans [of st s s'] unfolding visiting_def less_Suc_eq port_settled_def by metis

lemma visiting_rec:
  assumes V: "visiting h a sw st k s" and s1: "s1 = s\<lparr>passSwitch := x # passSwitch st, recordPassSwitch := insert sw (recordPassSwitch s)\<rparr>"
    and v: "visited h a (nodeIndex pn) s1 s'" and pn: "pn = ports h (unat sw) ! k" "flag pn \<noteq> 0"
  shows "visiting h a sw st (Suc k) s'"
proof -
  have p1: "progress s s1" by (auto simp: s1 progress_def linked_def)
  have p2: "progress s1 s'" using v by (simp add: visited_def)
  have p: "progress s s'" by (rule progress_trans [OF p1 p2])
  have r: "sw \<in> recordPassSwitch s'" using p2 by (auto simp: s1 progress_def)
  have "trim (Suc (length (passSwitch st))) (passSwitch s') = x # passSwitch st" "Suc (length (passSwitch st)) \<le> length (passSwitch s')"
    using v by (simp_all add: visited_def s1)
  from trim_Cons [OF this(1) _ this(2)] have t: "trim (length (passSwitch st)) (passSwitch s') = passSwitch st"
    "length (passSwitch st) \<le> length (passSwitch s')" by simp_all
  have "port_settled h s' a pn" using v pn(2) unfolding visited_def port_settled_def port_closed_def by auto
  then have all: "\<forall>p < Suc k. port_settled h s' a (ports h (unat sw) ! p)"
    using V settled_mono(3) [OF p] unfolding pn(1) visiting_def less_Suc_eq by blast
  have "settled h s' a v" if "v \<in> recordPassSwitch s' - recordPassSwitch st" "v \<noteq> sw" for v
  proof (cases "v \<in> recordPassSwitch s")
    case True
    then show ?thesis using V that settled_mono(4) [OF p] unfolding visiting_def by blast
  next
    case False
    then show ?thesis using v that unfolding visited_def s1 by simp
  qed
  moreover have "progress st s'" using V progress_trans [OF _ p] by (simp add: visiting_def)
  ultimately show ?thesis using v t r all unfolding visiting_def visited_def by blast
qed

text \<open>The port by which a switch was entered.\<close>

lemma entered_closed:
  assumes W: "wired h" and a: "unat a < length (m_hostNodes h)" and path: "is_path h a (passSwitch st) sw inp"
    and S: "set (map switchIndex (passSwitch st)) \<subseteq> recordPassSwitch s"
  shows "port_closed h s a (ports h (unat sw) ! unat inp)"
proof (cases "passSwitch st")
  case Nil
  then show ?thesis using path wired_host [OF W a] by (simp add: port_closed_def)
next
  case (Cons x ss)
  let ?s = "unat (switchIndex x)" and ?p = "unat (outPortIndex x)"
  have x: "?s < length (m_switchNodes h)" "?p < length (ports h ?s)" "flag (ports h ?s ! ?p) \<noteq> 0"
    "nodeIndex (ports h ?s ! ?p) = sw" "nodePort (ports h ?s ! ?p) = inp"
    using path unfolding Cons by simp_all
  show ?thesis
    using port_ok_switch(3) [OF wired_port [OF W x(1,2)] x(3)] x(3) S unfolding x(4,5) Cons by (simp add: port_closed_def)
qed

lemma plain_switch:
  assumes "plain h" "s < length (m_switchNodes h)" "p < length (ports h s)" "flag (ports h s ! p) \<noteq> 0"
  shows "nodeIndex (ports h s ! p) \<noteq> of_nat s"
  using assms unfolding plain_def Let_def by meson

lemma Dfs_visited:
  assumes "search_measure (length (m_switchNodes h)) (recordPassSwitch st) sw < fuel"
    and "wired h" "plain h" "same_net h (se_helper st)" "fine st" "unat a < length (m_hostNodes h)" "is_path h a (passSwitch st) sw inp"
    and "distinct (sw # map switchIndex (passSwitch st))" "set (map switchIndex (passSwitch st)) \<subseteq> recordPassSwitch st" "sw \<notin> recordPassSwitch st"
  shows "keeps (visited h a sw st) (\<lambda>e. False) (Dfs fuel a sw inp st)"
  using assms
proof (induction fuel arbitrary: sw inp st)
  case (Suc fuel)
  let ?c = "length (passSwitch st)" and ?n = "length (ports h (unat sw))"
  have sw: "unat sw < length (m_switchNodes h)" using is_path_end [OF Suc.prems(2,6,7)] by blast
  have "keeps (visiting h a sw st (Suc k)) (\<lambda>e. False) (dfs_port (Dfs fuel a) a sw inp ?c k s)"
    if k: "k < ?n" and V: "visiting h a sw st k s" for k s
  proof -
    let ?g = "se_helper s"
    have F: "fine s" and Pr: "progress st s" and B: "trim ?c (passSwitch s) = passSwitch st" "?c \<le> length (passSwitch s)"
      using V by (simp_all add: visiting_def)
    have N: "same_net h ?g" using same_net_trans [OF Suc.prems(4) extends_net] Pr by (simp add: progress_def)
    note S = same_net_simps [OF N]
    have pt: "ports ?g (unat sw) = ports h (unat sw)" by (rule S(3) [OF sw])
    define pn where "pn = ports h (unat sw) ! k"
    have pn: "portNode (m_switchNodes ?g ! unat sw) ! k = pn" using pt by (simp add: pn_def ports_def)
    have pg: "is_path ?g a (trim ?c (passSwitch s)) sw inp" unfolding B by (rule same_net_path [OF N Suc.prems(7)])
    consider "k = unat inp" | "k \<noteq> unat inp" "flag pn = 0" | "k \<noteq> unat inp" "flag pn \<noteq> 0" "nodeIndex pn \<in> recordPassSwitch s"
      | "k \<noteq> unat inp" "flag pn \<noteq> 0" "nodeIndex pn \<notin> recordPassSwitch s" by blast
    then show ?thesis
    proof cases
      case 1
      have "port_closed h s a pn"
        unfolding pn_def 1 using Suc.prems(9) Pr by (intro entered_closed [OF Suc.prems(2,6,7)]) (auto simp: progress_def)
      then have "visiting h a sw st (Suc k) s" using visiting_closed [OF V F] by (simp add: pn_def)
      then show ?thesis using 1 by (simp add: dfs_port_def)
    next
      case 2
      obtain s' where s': "dfs_host a sw inp ?c k (nodeIndex pn) s = Inr s'" "fine s'" "progress s s'" "passSwitch s' = passSwitch s"
          "recordPassSwitch s' = recordPassSwitch s" "linked s' (unat a) (unat (nodeIndex pn))"
        using dfs_host_fine [OF F _ pg, of k "nodeIndex pn"] Suc.prems(6,8) S(1) k 2 unfolding pt B by (auto simp: pn_def)
      have "visiting h a sw st (Suc k) s'"
        by (rule visiting_closed [OF V s'(2,3,4,5)]) (use s'(6) 2 in \<open>simp add: port_closed_def pn_def\<close>)
      then show ?thesis using 2 s'(1) by (simp add: dfs_port_def pn)
    next
      case 3
      then have "visiting h a sw st (Suc k) s" using visiting_closed [OF V F] by (simp add: pn_def port_closed_def)
      then show ?thesis using 3 by (simp add: dfs_port_def pn)
    next
      case 4
      define x where "x = \<lparr>switchIndex = sw, inPortIndex = inp, outPortIndex = of_nat k\<rparr>"
      define s1 where "s1 = s\<lparr>passSwitch := x # passSwitch st, recordPassSwitch := insert sw (recordPassSwitch s)\<rparr>"
      have kq: "unat (of_nat k :: u32) = k" using k Suc.prems(2) sw by (intro unat_u32) (auto simp: wired_def)
      have li: "linked s1 = linked s" by (simp add: s1_def linked_def [abs_def])
      have "nodeIndex pn \<noteq> of_nat (unat sw)" using plain_switch [OF Suc.prems(3) sw k] 4(2) by (simp only: pn_def not_False_eq_True)
      then have nsw: "nodeIndex pn \<noteq> sw" by simp
      have R: "recordPassSwitch st \<subseteq> recordPassSwitch s" using Pr by (simp add: progress_def)
      have "keeps (visited h a (nodeIndex pn) s1) (\<lambda>e. False) (Dfs fuel a (nodeIndex pn) (nodePort pn) s1)"
      proof (rule Suc.IH [OF _ Suc.prems(2,3)])
        have "search_measure (length (m_switchNodes h)) (insert sw (recordPassSwitch s)) (nodeIndex pn)
            < search_measure (length (m_switchNodes h)) (recordPassSwitch st) sw"
          by (rule search_measure_step [OF sw R 4(3)])
        then show "search_measure (length (m_switchNodes h)) (recordPassSwitch s1) (nodeIndex pn) < fuel"
          using Suc.prems(1) by (simp add: s1_def)
        show "same_net h (se_helper s1)" using N by (simp add: s1_def)
        show "fine s1" using F by (simp add: fine_def good_def li) (simp add: s1_def)
        show "unat a < length (m_hostNodes h)" by (rule Suc.prems(6))
        show "is_path h a (passSwitch s1) (nodeIndex pn) (nodePort pn)"
          using Suc.prems(7) 4(2) k sw by (simp add: s1_def x_def kq pn_def)
        show "distinct (nodeIndex pn # map switchIndex (passSwitch s1))" "set (map switchIndex (passSwitch s1)) \<subseteq> recordPassSwitch s1"
          using Suc.prems(8,9) R 4(3) nsw by (auto simp: s1_def x_def)
        show "nodeIndex pn \<notin> recordPassSwitch s1" using 4(3) nsw by (simp add: s1_def)
      qed
      then have "keeps (visiting h a sw st (Suc k)) (\<lambda>e. False) (Dfs fuel a (nodeIndex pn) (nodePort pn) s1)"
        by (rule keeps_mono) (rule visiting_rec [OF V s1_def _ pn_def 4(2)])
      then show ?thesis using 4 B by (simp add: dfs_port_def pn s1_def x_def)
    qed
  qed
  moreover have "visiting h a sw st 0 st" using Suc.prems(5) by (simp add: visiting_def)
  ultimately have "keeps (visiting h a sw st ?n) (\<lambda>e. False) (for_each [0..<?n] (dfs_port (Dfs fuel a) a sw inp ?c) st)"
    by (rule for_each_upt_keeps)
  then have "keeps (visited h a sw st) (\<lambda>e. False) (for_each [0..<?n] (dfs_port (Dfs fuel a) a sw inp ?c) st)"
    by (rule keeps_mono) (rule visiting_all)
  moreover have "portNode (m_switchNodes (se_helper st) ! unat sw) = ports h (unat sw)" "unat sw < length (m_switchNodes (se_helper st))"
    using same_net_simps(2,3) [OF Suc.prems(4)] sw by (simp_all add: ports_def)
  ultimately show ?case by simp
qed simp

subsection \<open>All pairs\<close>

text \<open>Switches that are joined by links, and networks in which all hosts are.\<close>

inductive joined :: "flow_helper \<Rightarrow> nat \<Rightarrow> nat \<Rightarrow> bool" for h s where
  here: "joined h s s"
| there: "joined h s s' \<Longrightarrow> pn \<in> set (ports h s') \<Longrightarrow> flag pn \<noteq> 0 \<Longrightarrow> joined h s (unat (nodeIndex pn))"

definition all_joined :: "flow_helper \<Rightarrow> bool" where
  "all_joined h \<longleftrightarrow> (\<forall>a < length (m_hostNodes h). \<forall>b < length (m_hostNodes h). joined h (link_switch h a) (link_switch h b))"

lemma same_net_sym: "same_net h h' \<Longrightarrow> same_net h' h"
  by (simp add: same_net_def)

text \<open>A search from one host links it with every other.\<close>

lemma visited_links:
  assumes "wired h" "visited h a sw st st'" "recordPassSwitch st = {}" "joined h (unat sw) s" "unat sw < length (m_switchNodes h)"
    and "b < length (m_hostNodes h)" "s = link_switch h b" "b \<noteq> unat a"
  shows "linked st' (unat a) b"
proof -
  define in_reach where "in_reach v \<longleftrightarrow> v < length (m_switchNodes h) \<and>
    ((of_nat v :: u32) \<in> recordPassSwitch st' \<or> leaf h st' a (of_nat v))" for v
  have S: "settled h st' a v" if "v \<in> recordPassSwitch st'" for v using assms(2,3) that by (simp add: visited_def)
  have small: "unat (of_nat v :: u32) = v" if "v < length (m_switchNodes h)" for v
    using assms(1) that by (intro unat_u32) (simp add: wired_def)
  have "in_reach s" using assms(4)
  proof induction
    case here
    then show ?case using assms(2,5) by (simp add: in_reach_def visited_def)
  next
    case (there s' pn)
    have "s' < length (m_switchNodes h)" using there.IH by (simp add: in_reach_def)
    then obtain p where "p < length (ports h s')" "pn = ports h s' ! p" "port_ok h s' p"
      using there(2) wired_port [OF assms(1)] by (metis in_set_conv_nth)
    then have l: "unat (nodeIndex pn) < length (m_switchNodes h)" using port_ok_switch(1) there(3) by blast
    have "port_settled h st' a pn"
      using there.IH S there(2) small unfolding in_reach_def settled_def leaf_def port_settled_def by metis
    then show ?case using l there(3) by (auto simp: in_reach_def port_settled_def port_closed_def)
  qed
  then have "settled h st' a (of_nat s) \<or> leaf h st' a (of_nat s)" "s < length (m_switchNodes h)" using S by (auto simp: in_reach_def)
  moreover obtain pn where pn: "pn \<in> set (ports h s)" "flag pn = 0" "nodeIndex pn = of_nat b"
    using wired_host [OF assms(1,6)] unfolding assms(7) link_switch_def by (metis nth_mem)
  ultimately have "port_closed h st' a pn" using small by (auto simp: settled_def leaf_def port_settled_def)
  moreover have "unat (of_nat b :: u32) = b" using assms(1,6) by (intro unat_u32) (simp add: wired_def)
  ultimately show ?thesis using pn assms(8) by (auto simp: port_closed_def)
qed

definition links_all :: "nat \<Rightarrow> search \<Rightarrow> nat \<Rightarrow> bool" where
  "links_all n st i \<longleftrightarrow> (\<forall>b < n. b \<noteq> i \<longrightarrow> linked st i b)"

lemma DfsFromHostIndex_fine:
  assumes W: "wired h" and P: "plain h" and C: "all_joined h" and N: "same_net h (se_helper st)" and F: "fine st"
    and i: "i < length (m_hostNodes h)"
  shows "keeps (\<lambda>st'. fine st' \<and> same_net h (se_helper st') \<and> (\<forall>i j. linked st i j \<longrightarrow> linked st' i j) \<and>
      links_all (length (m_hostNodes h)) st' i) (\<lambda>e. False) (DfsFromHostIndex i st)"
proof -
  define s0 where "s0 = st\<lparr>passSwitch := [], recordPassSwitch := {}\<rparr>"
  let ?host = "m_hostNodes h ! i"
  note S = same_net_simps [OF N]
  have li: "linked s0 = linked st" by (simp add: s0_def linked_def [abs_def])
  have F0: "fine s0" using F by (simp add: fine_def good_def li) (simp add: s0_def)
  have u: "unat (of_nat i :: u32) = i" using W i by (intro unat_u32) (simp add: wired_def)
  have sw: "unat (linkSwitchIndex ?host) < length (m_switchNodes h)" using wired_host [OF W i] by simp
  have "keeps (visited h (of_nat i) (linkSwitchIndex ?host) s0) (\<lambda>e. False)
      (Dfs (search_fuel (se_helper st)) (of_nat i) (linkSwitchIndex ?host) (portIndex ?host) s0)"
  proof (rule Dfs_visited [OF _ W P _ F0])
    show "search_measure (length (m_switchNodes h)) (recordPassSwitch s0) (linkSwitchIndex ?host) < search_fuel (se_helper st)"
      using card_switches [of "length (m_switchNodes h)"] S(2) by (simp add: search_measure_def search_fuel_def s0_def)
  qed (use N i in \<open>simp_all add: s0_def u\<close>)
  then have "keeps (\<lambda>st'. fine st' \<and> same_net h (se_helper st') \<and> (\<forall>i j. linked st i j \<longrightarrow> linked st' i j) \<and>
      links_all (length (m_hostNodes h)) st' i) (\<lambda>e. False)
      (Dfs (search_fuel (se_helper st)) (of_nat i) (linkSwitchIndex ?host) (portIndex ?host) s0)"
  proof (rule keeps_mono)
    fix st' assume v: "visited h (of_nat i) (linkSwitchIndex ?host) s0 st'"
    then have "same_net h (se_helper st')"
      using same_net_trans [OF N extends_net] by (simp add: visited_def progress_def s0_def)
    moreover have "linked st' i b" if "b < length (m_hostNodes h)" "b \<noteq> i" for b
    proof -
      have "joined h (unat (linkSwitchIndex ?host)) (link_switch h b)" using C i that(1) unfolding all_joined_def link_switch_def by blast
      then show ?thesis using visited_links [OF W v _ _ sw that(1) refl] that(2) u by (simp add: s0_def)
    qed
    ultimately show "fine st' \<and> same_net h (se_helper st') \<and> (\<forall>i j. linked st i j \<longrightarrow> linked st' i j) \<and>
        links_all (length (m_hostNodes h)) st' i"
      using v li by (simp add: visited_def progress_def links_all_def)
  qed
  then show ?thesis using i S(1) by (simp add: DfsFromHostIndex_def Let_def s0_def)
qed

lemma search_hosts_fine:
  assumes "wired h" "plain h" "all_joined h" "same_net h (se_helper st)" "fine st" "\<forall>i \<in> set is. i < length (m_hostNodes h)"
  shows "keeps (\<lambda>st'. fine st' \<and> same_net h (se_helper st') \<and> (\<forall>i j. linked st i j \<longrightarrow> linked st' i j) \<and>
      (linkSum \<le> linkCounter st' \<or> (\<forall>i \<in> set is. links_all (length (m_hostNodes h)) st' i))) (\<lambda>e. False) (search_hosts is linkSum st)"
  using assms
proof (induction "is" arbitrary: st)
  case (Cons i "is")
  let ?n = "length (m_hostNodes h)"
  show ?case
  proof (cases "linkCounter st < linkSum")
    case True
    have "keeps (\<lambda>st'. fine st' \<and> same_net h (se_helper st') \<and> (\<forall>i j. linked st i j \<longrightarrow> linked st' i j) \<and>
        (linkSum \<le> linkCounter st' \<or> (\<forall>i \<in> set (i # is). links_all ?n st' i))) (\<lambda>e. False)
        (case DfsFromHostIndex i st of Inl e \<Rightarrow> Inl e | Inr st \<Rightarrow> search_hosts is linkSum st)"
    proof (rule keeps_case [OF DfsFromHostIndex_fine [OF Cons.prems(1-5)]])
      show "i < ?n" using Cons.prems(6) by simp
      fix s assume s: "fine s \<and> same_net h (se_helper s) \<and> (\<forall>i j. linked st i j \<longrightarrow> linked s i j) \<and> links_all ?n s i"
      then have "keeps (\<lambda>st'. fine st' \<and> same_net h (se_helper st') \<and> (\<forall>i j. linked s i j \<longrightarrow> linked st' i j) \<and>
          (linkSum \<le> linkCounter st' \<or> (\<forall>i \<in> set is. links_all ?n st' i))) (\<lambda>e. False) (search_hosts is linkSum s)"
        using Cons.prems by (intro Cons.IH) auto
      then show "keeps (\<lambda>st'. fine st' \<and> same_net h (se_helper st') \<and> (\<forall>i j. linked st i j \<longrightarrow> linked st' i j) \<and>
          (linkSum \<le> linkCounter st' \<or> (\<forall>i \<in> set (i # is). links_all ?n st' i))) (\<lambda>e. False) (search_hosts is linkSum s)"
        by (rule keeps_mono) (use s in \<open>auto simp: links_all_def\<close>)
    qed
    with True show ?thesis by simp
  next
    case False
    then show ?thesis using Cons.prems by (simp add: not_less [symmetric])
  qed
qed simp

text \<open>The counter: it has reached the number of pairs only when all are linked.\<close>

lemma counter_all:
  assumes F: "fine st" and n: "n = length (hostLink st)" "n < 2 ^ 16" and c: "of_nat n * (of_nat n - 1) \<le> linkCounter st"
    and ij: "i < n" "j < n" "i \<noteq> j"
  shows "linked st i j"
proof -
  let ?L = "{(i, j). linked st i j}" and ?A = "{(i, j). i < n \<and> j < n \<and> i \<noteq> j}"
  have sub: "?L \<subseteq> ?A" using F n(1) by (auto simp: fine_def linked_def)
  have "?A = Sigma {..<n} (\<lambda>i. {..<n} - {i})" by auto
  then have A: "card ?A = n * (n - 1)" "finite ?A" by simp_all
  have "n * (n - 1) \<le> (2 ^ 16 - 1) * (2 ^ 16 - 2)" using n(2) by (intro mult_le_mono) simp_all
  then have small: "n * (n - 1) < 2 ^ 32" by simp
  have "card ?L \<le> n * (n - 1)" using card_mono [OF A(2) sub] A(1) by simp
  then have L: "unat (linkCounter st) = card ?L" using F small by (simp add: fine_def unat_u32)
  have "of_nat n * (of_nat n - 1) = (of_nat (n * (n - 1)) :: u32)" using ij by (simp add: of_nat_diff)
  then have "unat (of_nat n * (of_nat n - 1) :: u32) = n * (n - 1)" using small unat_u32 by metis
  then have "n * (n - 1) \<le> card ?L" using c L unfolding word_le_nat_alt by simp
  then have "?L = ?A" using card_subset_eq [OF A(2) sub] card_mono [OF A(2) sub] A(1) by simp
  then show ?thesis using ij by auto
qed

lemma default_routes:
  assumes D: "fh_buildType h = ''default''" and W: "wired h" and P: "plain h" and C: "all_joined h"
    and E: "\<forall>s < length (m_switchNodes h). entries h s = []"
  shows "\<exists>h'. SetSwitchesFlowtableEntries rnd h = Inr h' \<and> same_net h h' \<and>
    (\<forall>a < length (m_hostNodes h). \<forall>d < length (m_hostNodes h). a \<noteq> d \<longrightarrow> routes h' (host_ip h d) d (link_switch h a))"
proof -
  let ?n = "length (m_hostNodes h)"
  define st where "st = \<lparr>se_helper = h, passSwitch = [], recordPassSwitch = {}, hostLink = replicate ?n (replicate ?n 0), linkCounter = 0\<rparr>"
  have "good st" using W E by (simp add: good_def st_def entries_deliver_def)
  moreover have "all_route h" using E by (simp add: all_route_def first_entry_def)
  moreover have no: "\<not> linked st i j" for i j by (simp add: linked_def st_def)
  ultimately have "fine st" using P by (simp add: fine_def) (simp add: st_def)
  then have "keeps (\<lambda>st'. fine st' \<and> same_net h (se_helper st') \<and> (\<forall>i j. linked st i j \<longrightarrow> linked st' i j) \<and>
      (of_nat ?n * (of_nat ?n - 1) \<le> linkCounter st' \<or> (\<forall>i \<in> set [0..<?n]. links_all ?n st' i))) (\<lambda>e. False)
      (search_hosts [0..<?n] (of_nat ?n * (of_nat ?n - 1)) st)"
    using W P C by (intro search_hosts_fine) (simp_all add: st_def)
  then obtain st' where st': "search_hosts [0..<?n] (of_nat ?n * (of_nat ?n - 1)) st = Inr st'" "fine st'" "same_net h (se_helper st')"
    "of_nat ?n * (of_nat ?n - 1) \<le> linkCounter st' \<or> (\<forall>i < ?n. links_all ?n st' i)"
    by (auto simp: keeps_def split: sum.splits)
  note S = same_net_simps [OF st'(3)]
  have W': "wired (se_helper st')" by (rule same_net_wired [OF st'(3) W])
  have n: "?n = length (hostLink st')" using st'(2) S(1) by (simp add: fine_def good_def)
  have all: "linked st' a d" if "a < ?n" "d < ?n" "a \<noteq> d" for a d
  proof (cases "of_nat ?n * (of_nat ?n - 1) \<le> linkCounter st'")
    case True
    show ?thesis by (rule counter_all [OF st'(2) n _ True that]) (use W in \<open>simp add: wired_def\<close>)
  next
    case False
    then show ?thesis using st'(4) that by (auto simp: links_all_def)
  qed
  have "routes (se_helper st') (host_ip h d) d (link_switch h a)" if "a < ?n" "d < ?n" "a \<noteq> d" for a d
  proof -
    have e: "host_ip (se_helper st') d = host_ip h d" "link_switch (se_helper st') a = link_switch h a"
      using S(1) by (simp_all add: host_ip_def link_switch_def)
    have "first_entry (se_helper st') (link_switch (se_helper st') a) (host_ip (se_helper st') d) \<noteq> None"
      using all [OF that] st'(2) by (auto simp: fine_def)
    moreover have "link_switch (se_helper st') a < length (m_switchNodes (se_helper st'))" "d < length (m_hostNodes (se_helper st'))"
      using wired_host(1) [OF W'] that S(1) by (simp_all add: link_switch_def)
    moreover have "all_route (se_helper st')" using st'(2) by (simp add: fine_def)
    ultimately have "routes (se_helper st') (host_ip (se_helper st') d) d (link_switch (se_helper st') a)" unfolding all_route_def by blast
    then show ?thesis unfolding e .
  qed
  moreover have "SetSwitchesFlowtableEntries rnd h = Inr (se_helper st')"
    using D st'(1) by (simp add: SetSwitchesFlowtableEntries_def Let_def st_def)
  ultimately show ?thesis using st'(3) by blast
qed

end
