(* ===== verification/Fattree_Tables.thy ===== *)
theory Fattree_Tables
  imports Flow_Routing
begin

text \<open>
  What the fat-tree builder computes: on a network with the levels of a fat tree, every switch gets
  an entry for every host, downwards where the host is below, upwards to any neighbour otherwise,
  and packets from any switch reach their host.
\<close>

subsection \<open>Tables under construction\<close>

definition tab :: "levels \<Rightarrow> nat \<Rightarrow> FlowTableEntry_t list" where
  "tab lv s = entries (lv_helper lv) s"

definition rch :: "levels \<Rightarrow> nat \<Rightarrow> u32 list" where
  "rch lv s = switchReachHostIndexMap lv ! s"

text \<open>Only the table and the reached hosts of the switch \<open>s\<close> change.\<close>

definition only_at :: "nat \<Rightarrow> levels \<Rightarrow> levels \<Rightarrow> bool" where
  "only_at s lv lv' \<longleftrightarrow> same_net (lv_helper lv) (lv_helper lv') \<and>
     length (switchReachHostIndexMap lv') = length (switchReachHostIndexMap lv) \<and>
     (\<forall>s'. s' \<noteq> s \<longrightarrow> tab lv' s' = tab lv s' \<and> rch lv' s' = rch lv s')"

lemma only_at_refl [simp]: "only_at s lv lv"
  by (simp add: only_at_def)

lemma only_at_trans: "only_at s a b \<Longrightarrow> only_at s b c \<Longrightarrow> only_at s a c"
  unfolding only_at_def using same_net_trans by metis

lemma only_at_calls [simp]: "only_at s lv (lv\<lparr>lv_calls := c\<rparr>)" "tab (lv\<lparr>lv_calls := c\<rparr>) = tab lv" "rch (lv\<lparr>lv_calls := c\<rparr>) = rch lv"
  by (simp_all add: only_at_def tab_def [abs_def] rch_def [abs_def])

definition dst_entry :: "flow_helper \<Rightarrow> u32 \<Rightarrow> nat \<Rightarrow> FlowTableEntry_t" where
  "dst_entry h host p = \<lparr>srcIp = [], dstIp = ipAddr (m_hostNodes h ! unat host), outPort = of_nat p\<rparr>"

lemma push_entry_ok:
  assumes "unat host < length (m_hostNodes (lv_helper lv))" "s < length (m_switchNodes (lv_helper lv))"
  shows "\<exists>lv'. push_entry s host p lv = Inr lv' \<and> only_at s lv lv' \<and> rch lv' s = rch lv s \<and>
    tab lv' s = tab lv s @ [dst_entry (lv_helper lv) host p] \<and> lv_calls lv' = lv_calls lv"
proof -
  let ?h = "lv_helper lv"
  let ?h' = "?h\<lparr>m_switchNodes := (m_switchNodes ?h)[s := (m_switchNodes ?h ! s)\<lparr>flowTableEntries := flowTableEntries (m_switchNodes ?h ! s) @
      [dst_entry ?h host p]\<rparr>]\<rparr>"
  have "same_net ?h ?h'" by (simp add: same_net_def map_update) (metis assms(2) list_update_id nth_map)
  moreover have "push_entry s host p lv = Inr (lv\<lparr>lv_helper := ?h'\<rparr>)"
    using assms by (simp add: push_entry_def Let_def dst_entry_def)
  moreover have "tab (lv\<lparr>lv_helper := ?h'\<rparr>) s' = (if s' = s then tab lv s @ [dst_entry ?h host p] else tab lv s')" for s'
    using assms(2) by (simp add: tab_def entries_def)
  ultimately show ?thesis by (intro exI [of _ "lv\<lparr>lv_helper := ?h'\<rparr>"]) (simp add: only_at_def rch_def)
qed

lemma push_reach_ok:
  assumes "s < length (switchReachHostIndexMap lv)"
  shows "\<exists>lv'. push_reach s host lv = Inr lv' \<and> only_at s lv lv' \<and> rch lv' s = rch lv s @ [host] \<and> tab lv' = tab lv \<and> lv_helper lv' = lv_helper lv"
proof -
  let ?lv' = "lv\<lparr>switchReachHostIndexMap := (switchReachHostIndexMap lv)[s := switchReachHostIndexMap lv ! s @ [host]]\<rparr>"
  have "push_reach s host lv = Inr ?lv'" using assms by (simp add: push_reach_def)
  moreover have "rch ?lv' s' = (if s' = s then rch lv s @ [host] else rch lv s')" "tab ?lv' = tab lv" for s'
    using assms by (simp_all add: rch_def tab_def [abs_def])
  ultimately show ?thesis by (intro exI [of _ ?lv']) (simp add: only_at_def)
qed

lemma only_at_simps:
  assumes "only_at s lv lv'"
  shows "m_hostNodes (lv_helper lv') = m_hostNodes (lv_helper lv)" "length (m_switchNodes (lv_helper lv')) = length (m_switchNodes (lv_helper lv))"
    "s' < length (m_switchNodes (lv_helper lv)) \<Longrightarrow> ports (lv_helper lv') s' = ports (lv_helper lv) s'"
    "dst_entry (lv_helper lv') = dst_entry (lv_helper lv)"
    "length (switchReachHostIndexMap lv') = length (switchReachHostIndexMap lv)"
proof -
  have n: "same_net (lv_helper lv) (lv_helper lv')" using assms by (simp add: only_at_def)
  show "m_hostNodes (lv_helper lv') = m_hostNodes (lv_helper lv)" "length (m_switchNodes (lv_helper lv')) = length (m_switchNodes (lv_helper lv))"
    "s' < length (m_switchNodes (lv_helper lv)) \<Longrightarrow> ports (lv_helper lv') s' = ports (lv_helper lv) s'"
    "dst_entry (lv_helper lv') = dst_entry (lv_helper lv)" "length (switchReachHostIndexMap lv') = length (switchReachHostIndexMap lv)"
    using same_net_simps [OF n] assms by (simp_all add: dst_entry_def [abs_def] only_at_def)
qed

text \<open>A host that is reached by a port: noted, and given an entry.\<close>

lemma push_both_ok:
  assumes "unat host < length (m_hostNodes (lv_helper lv))" "s < length (m_switchNodes (lv_helper lv))" "s < length (switchReachHostIndexMap lv)"
  shows "\<exists>lv1 lv2. push_reach s host lv = Inr lv1 \<and> push_entry s host p lv1 = Inr lv2 \<and> only_at s lv lv2 \<and>
    rch lv2 s = rch lv s @ [host] \<and> tab lv2 s = tab lv s @ [dst_entry (lv_helper lv) host p]"
proof -
  obtain lv1 where l1: "push_reach s host lv = Inr lv1" "only_at s lv lv1" "rch lv1 s = rch lv s @ [host]" "tab lv1 = tab lv" "lv_helper lv1 = lv_helper lv"
    using push_reach_ok [OF assms(3)] by blast
  obtain lv2 where l2: "push_entry s host p lv1 = Inr lv2" "only_at s lv1 lv2" "rch lv2 s = rch lv1 s" "tab lv2 s = tab lv1 s @ [dst_entry (lv_helper lv1) host p]"
    using push_entry_ok [of host lv1 s p] assms(1,2) unfolding l1(5) by blast
  show ?thesis
    by (intro exI [of _ lv1] exI [of _ lv2]) (use l1 l2 only_at_trans [OF l1(2) l2(2)] in simp)
qed

subsection \<open>Hosts that are not below\<close>

definition hosts :: "levels \<Rightarrow> nat" where
  "hosts lv = length (m_hostNodes (lv_helper lv))"

text \<open>After the hosts below \<open>k\<close>: each that is not below the switch has an entry with one of the other ports.\<close>

definition others_done :: "nat \<Rightarrow> u32 set \<Rightarrow> nat list \<Rightarrow> levels \<Rightarrow> nat \<Rightarrow> levels \<Rightarrow> bool" where
  "others_done s below other lv k lv' \<longleftrightarrow> only_at s lv lv' \<and> rch lv' s = rch lv s \<and>
     (\<exists>es. tab lv' s = tab lv s @ es \<and>
        (\<forall>e \<in> set es. \<exists>d p. d < hosts lv \<and> (of_nat d :: u32) \<notin> below \<and> p \<in> set other \<and> e = dst_entry (lv_helper lv) (of_nat d) p) \<and>
        (\<forall>d < k. (of_nat d :: u32) \<notin> below \<longrightarrow> (\<exists>p. dst_entry (lv_helper lv) (of_nat d) p \<in> set es)))"

lemma push_other_done:
  assumes "others_done s below other lv k lv'" "k < hosts lv" "hosts lv < 2 ^ 32" "s < length (m_switchNodes (lv_helper lv))" "other \<noteq> []"
  shows "keeps (others_done s below other lv (Suc k)) (\<lambda>e. False) (push_other rnd s below other (of_nat k) lv')"
proof (cases "(of_nat k :: u32) \<in> below")
  case True
  then show ?thesis using assms(1) by (auto simp: push_other_def others_done_def less_Suc_eq)
next
  case False
  obtain es where es: "only_at s lv lv'" "rch lv' s = rch lv s" "tab lv' s = tab lv s @ es"
    "\<forall>e \<in> set es. \<exists>d p. d < hosts lv \<and> (of_nat d :: u32) \<notin> below \<and> p \<in> set other \<and> e = dst_entry (lv_helper lv) (of_nat d) p"
    "\<forall>d < k. (of_nat d :: u32) \<notin> below \<longrightarrow> (\<exists>p. dst_entry (lv_helper lv) (of_nat d) p \<in> set es)"
    using assms(1) unfolding others_done_def by blast
  note S = only_at_simps [OF es(1)]
  have k: "unat (of_nat k :: u32) = k" using assms(2,3) by (intro unat_u32) simp
  let ?p = "other ! (unat (rnd (lv_calls lv')) mod length other)" and ?l = "lv'\<lparr>lv_calls := lv_calls lv' + 1\<rparr>"
  have p: "?p \<in> set other" using assms(5) by simp
  obtain l2 where l2: "push_entry s (of_nat k) ?p ?l = Inr l2" "only_at s ?l l2" "rch l2 s = rch ?l s"
    "tab l2 s = tab ?l s @ [dst_entry (lv_helper ?l) (of_nat k) ?p]"
    using push_entry_ok [of "of_nat k" ?l s ?p] assms(2,4) S k by (auto simp: hosts_def)
  have "only_at s lv l2" by (rule only_at_trans [OF only_at_trans [OF es(1) only_at_calls(1)] l2(2)])
  moreover have "tab l2 s = tab lv s @ (es @ [dst_entry (lv_helper lv) (of_nat k) ?p])" "rch l2 s = rch lv s"
    using l2(3,4) es(2,3) S(4) by simp_all
  moreover have "\<forall>e \<in> set (es @ [dst_entry (lv_helper lv) (of_nat k) ?p]).
      \<exists>d p. d < hosts lv \<and> (of_nat d :: u32) \<notin> below \<and> p \<in> set other \<and> e = dst_entry (lv_helper lv) (of_nat d) p"
    using es(4) False p assms(2) by auto
  moreover have "\<forall>d < Suc k. (of_nat d :: u32) \<notin> below \<longrightarrow> (\<exists>p. dst_entry (lv_helper lv) (of_nat d) p \<in> set (es @ [dst_entry (lv_helper lv) (of_nat k) ?p]))"
    using es(5) by (auto simp: less_Suc_eq)
  ultimately have "others_done s below other lv (Suc k) l2" unfolding others_done_def by blast
  then show ?thesis using False l2(1) S(1) assms(2,5) k by (simp add: push_other_def hosts_def)
qed

lemma push_others_done:
  assumes "hosts lv < 2 ^ 32" "s < length (m_switchNodes (lv_helper lv))" "other \<noteq> []"
  shows "keeps (others_done s below other lv (hosts lv)) (\<lambda>e. False) (for_each (map of_nat [0..<hosts lv]) (push_other rnd s below other) lv)"
proof -
  have "for_each (map of_nat ks) f s = for_each ks (\<lambda>k. f (of_nat k)) s" for ks and f :: "u32 \<Rightarrow> levels \<Rightarrow> stop + levels" and s
    by (induction ks arbitrary: s) (auto split: sum.split)
  moreover have "keeps (others_done s below other lv (hosts lv)) (\<lambda>e. False) (for_each [0..<hosts lv] (\<lambda>k. push_other rnd s below other (of_nat k)) lv)"
  proof (rule for_each_upt_keeps)
    show "others_done s below other lv 0 lv" by (simp add: others_done_def)
  qed (rule push_other_done [OF _ _ assms])
  ultimately show ?thesis by simp
qed

subsection \<open>Ports downwards\<close>

text \<open>
  After the ports below \<open>k\<close> of the switch \<open>s\<close>: the ports that satisfy \<open>low\<close> lead down, port \<open>p\<close> to
  the hosts \<open>hs p\<close>, which are noted and have entries; the others are kept for later.
\<close>

definition collected :: "nat \<Rightarrow> levels \<Rightarrow> (nat \<Rightarrow> bool) \<Rightarrow> (nat \<Rightarrow> u32 list) \<Rightarrow> nat \<Rightarrow> u32 set \<times> nat list \<times> levels \<Rightarrow> bool" where
  "collected s lv low hs k r \<longleftrightarrow>
     (case r of (below, other, lv') \<Rightarrow>
        only_at s lv lv' \<and> rch lv' s = rch lv s @ concat (map hs (filter low [0..<k])) \<and>
        tab lv' s = tab lv s @ concat (map (\<lambda>p. map (\<lambda>x. dst_entry (lv_helper lv) x p) (hs p)) (filter low [0..<k])) \<and>
        below = set (concat (map hs (filter low [0..<k]))) \<and> other = filter (\<lambda>p. \<not> low p) [0..<k])"

text \<open>Entry \<open>e\<close> for host \<open>d\<close> with port \<open>p\<close> is as \<open>G d p\<close> requires, and every host has one.\<close>

definition complete_table :: "levels \<Rightarrow> nat \<Rightarrow> (nat \<Rightarrow> nat \<Rightarrow> bool) \<Rightarrow> FlowTableEntry_t list \<Rightarrow> bool" where
  "complete_table lv n G es \<longleftrightarrow>
     (\<forall>e \<in> set es. \<exists>d p. d < hosts lv \<and> p < n \<and> e = dst_entry (lv_helper lv) (of_nat d) p \<and> G d p) \<and>
     (\<forall>d < hosts lv. \<exists>p. dst_entry (lv_helper lv) (of_nat d) p \<in> set es)"

lemma collected_table:
  assumes C: "collected s lv low hs n (below, other, lv1)" and O: "others_done s below other lv1 (hosts lv1) lv2"
    and e: "tab lv s = []" and h: "\<forall>p x. p < n \<and> low p \<and> x \<in> set (hs p) \<longrightarrow> unat x < hosts lv"
  shows "only_at s lv lv2" "rch lv2 s = rch lv s @ concat (map hs (filter low [0..<n]))"
    "complete_table lv n (\<lambda>d p. if \<exists>q < n. low q \<and> of_nat d \<in> set (hs q) then low p \<and> of_nat d \<in> set (hs p) else \<not> low p) (tab lv2 s)"
proof -
  have C': "only_at s lv lv1" "rch lv1 s = rch lv s @ concat (map hs (filter low [0..<n]))"
    "tab lv1 s = tab lv s @ concat (map (\<lambda>p. map (\<lambda>x. dst_entry (lv_helper lv) x p) (hs p)) (filter low [0..<n]))"
    "below = set (concat (map hs (filter low [0..<n])))" "other = filter (\<lambda>p. \<not> low p) [0..<n]"
    using C by (simp_all add: collected_def)
  note S = only_at_simps [OF C'(1)]
  have H: "hosts lv1 = hosts lv" "dst_entry (lv_helper lv1) = dst_entry (lv_helper lv)" using S by (simp_all add: hosts_def)
  have b: "(of_nat d :: u32) \<in> below \<longleftrightarrow> (\<exists>q < n. low q \<and> of_nat d \<in> set (hs q))" for d unfolding C'(4) by auto
  obtain es where es: "only_at s lv1 lv2" "rch lv2 s = rch lv1 s" "tab lv2 s = tab lv1 s @ es"
    "\<forall>e \<in> set es. \<exists>d p. d < hosts lv \<and> (of_nat d :: u32) \<notin> below \<and> p \<in> set other \<and> e = dst_entry (lv_helper lv) (of_nat d) p"
    "\<forall>d < hosts lv. (of_nat d :: u32) \<notin> below \<longrightarrow> (\<exists>p. dst_entry (lv_helper lv) (of_nat d) p \<in> set es)"
    using O unfolding others_done_def H by blast
  show "only_at s lv lv2" by (rule only_at_trans [OF C'(1) es(1)])
  show "rch lv2 s = rch lv s @ concat (map hs (filter low [0..<n]))" using es(2) C'(2) by simp
  let ?G = "\<lambda>d p. if \<exists>q < n. low q \<and> (of_nat d :: u32) \<in> set (hs q) then low p \<and> of_nat d \<in> set (hs p) else \<not> low p"
  have "\<exists>d p. d < hosts lv \<and> p < n \<and> e = dst_entry (lv_helper lv) (of_nat d) p \<and> ?G d p" if "e \<in> set (tab lv2 s)" for e
  proof -
    have "e \<in> set (concat (map (\<lambda>p. map (\<lambda>x. dst_entry (lv_helper lv) x p) (hs p)) (filter low [0..<n]))) \<or> e \<in> set es"
      using that unfolding es(3) C'(3) \<open>tab lv s = []\<close> by simp
    then show ?thesis
    proof
      assume "e \<in> set (concat (map (\<lambda>p. map (\<lambda>x. dst_entry (lv_helper lv) x p) (hs p)) (filter low [0..<n])))"
      then obtain p x where "p < n" "low p" "x \<in> set (hs p)" "e = dst_entry (lv_helper lv) x p" by auto
      then show ?thesis using h by (intro exI [of _ "unat x"] exI [of _ p]) auto
    next
      assume "e \<in> set es"
      then obtain d p where "d < hosts lv" "(of_nat d :: u32) \<notin> below" "p \<in> set other" "e = dst_entry (lv_helper lv) (of_nat d) p"
        using es(4) by blast
      then show ?thesis unfolding b C'(5) by (intro exI [of _ d] exI [of _ p]) auto
    qed
  qed
  moreover have "\<exists>p. dst_entry (lv_helper lv) (of_nat d) p \<in> set (tab lv2 s)" if d: "d < hosts lv" for d
  proof (cases "(of_nat d :: u32) \<in> below")
    case True
    then show ?thesis unfolding b es(3) C'(3) by force
  next
    case False
    then show ?thesis using es(3,5) d by auto
  qed
  ultimately show "complete_table lv n ?G (tab lv2 s)" unfolding complete_table_def by blast
qed

lemma collected_Suc:
  "collected s lv low hs k (below, other, lv1) \<Longrightarrow> \<not> low k \<Longrightarrow> collected s lv low hs (Suc k) (below, other @ [k], lv1)"
  "collected s lv low hs k (below, other, lv1) \<Longrightarrow> low k \<Longrightarrow> only_at s lv1 lv2 \<Longrightarrow> rch lv2 s = rch lv1 s @ hs k \<Longrightarrow>
    tab lv2 s = tab lv1 s @ map (\<lambda>x. dst_entry (lv_helper lv) x k) (hs k) \<Longrightarrow>
    collected s lv low hs (Suc k) (below \<union> set (hs k), other, lv2)"
  by (auto simp: collected_def intro: only_at_trans)

subsection \<open>Edge switches\<close>

lemma bex_nth: "(\<exists>x \<in> set xs. P x) \<longleftrightarrow> (\<exists>i < length xs. P (xs ! i))"
  by (metis in_set_conv_nth)

definition host_on :: "flow_helper \<Rightarrow> nat \<Rightarrow> nat \<Rightarrow> bool" where
  "host_on h s d \<longleftrightarrow> (\<exists>pn \<in> set (ports h s). flag pn = 0 \<and> nodeIndex pn = of_nat d)"

definition edge_low :: "flow_helper \<Rightarrow> nat \<Rightarrow> nat \<Rightarrow> bool" where
  "edge_low h s p \<longleftrightarrow> flag (ports h s ! p) = 0"

definition edge_hosts :: "flow_helper \<Rightarrow> nat \<Rightarrow> nat \<Rightarrow> u32 list" where
  "edge_hosts h s p = [nodeIndex (ports h s ! p)]"

lemma edge_hosts_iff: "x \<in> set (edge_hosts h s p) \<longleftrightarrow> nodeIndex (ports h s ! p) = x"
  by (auto simp: edge_hosts_def)

lemma edge_port_collected:
  assumes C: "collected s lv (edge_low (lv_helper lv) s) (edge_hosts (lv_helper lv) s) k r" and s: "s < length (m_switchNodes (lv_helper lv))"
    "s < length (switchReachHostIndexMap lv)"
    and h: "flag (ports (lv_helper lv) s ! k) = 0 \<Longrightarrow> unat (nodeIndex (ports (lv_helper lv) s ! k)) < hosts lv"
  shows "keeps (collected s lv (edge_low (lv_helper lv) s) (edge_hosts (lv_helper lv) s) (Suc k)) (\<lambda>e. False) (edge_port s k r)"
proof -
  obtain below other lv1 where r: "r = (below, other, lv1)" by (cases r) auto
  have o: "only_at s lv lv1" using C by (simp add: collected_def r)
  note S = only_at_simps [OF o]
  have pn: "portNode (m_switchNodes (lv_helper lv1) ! s) = ports (lv_helper lv) s" using S(3) [OF s(1)] by (simp add: ports_def)
  show ?thesis
  proof (cases "flag (ports (lv_helper lv) s ! k) = 0")
    case True
    let ?x = "nodeIndex (ports (lv_helper lv) s ! k)"
    obtain l1 l2 where l: "push_reach s ?x lv1 = Inr l1" "push_entry s ?x k l1 = Inr l2" "only_at s lv1 l2"
      "rch l2 s = rch lv1 s @ [?x]" "tab l2 s = tab lv1 s @ [dst_entry (lv_helper lv1) ?x k]"
      using push_both_ok [of ?x lv1 s k] h [OF True] S s by (auto simp: hosts_def)
    have "collected s lv (edge_low (lv_helper lv) s) (edge_hosts (lv_helper lv) s) (Suc k) (below \<union> set (edge_hosts (lv_helper lv) s k), other, l2)"
      by (rule collected_Suc(2) [OF C [unfolded r] _ l(3)]) (use True l S(4) in \<open>simp_all add: edge_low_def edge_hosts_def\<close>)
    then show ?thesis using True l by (simp add: edge_port_def r pn edge_hosts_def)
  next
    case False
    then have "\<not> edge_low (lv_helper lv) s k" by (simp add: edge_low_def)
    from collected_Suc(1) [OF C [unfolded r] this] show ?thesis using False by (simp add: edge_port_def r pn)
  qed
qed

lemma edge_switch_ok:
  assumes s: "s < length (m_switchNodes (lv_helper lv))" "s < length (switchReachHostIndexMap lv)" "s < 2 ^ 32" and n: "hosts lv < 2 ^ 32"
    and h: "\<And>pn. pn \<in> set (ports (lv_helper lv) s) \<Longrightarrow> flag pn = 0 \<Longrightarrow> unat (nodeIndex pn) < hosts lv"
    and o: "\<exists>pn \<in> set (ports (lv_helper lv) s). flag pn \<noteq> 0" and e: "tab lv s = []" "rch lv s = []"
  shows "\<exists>lv'. edge_switch rnd (of_nat (hosts lv)) (of_nat s) lv = Inr lv' \<and> only_at s lv lv' \<and>
    (\<forall>d < hosts lv. of_nat d \<in> set (rch lv' s) \<longleftrightarrow> host_on (lv_helper lv) s d) \<and> (\<forall>x \<in> set (rch lv' s). unat x < hosts lv) \<and>
    complete_table lv (length (ports (lv_helper lv) s))
      (\<lambda>d p. if host_on (lv_helper lv) s d then flag (ports (lv_helper lv) s ! p) = 0 \<and> nodeIndex (ports (lv_helper lv) s ! p) = of_nat d
             else flag (ports (lv_helper lv) s ! p) \<noteq> 0) (tab lv' s)"
proof -
  let ?h = "lv_helper lv" and ?n = "length (ports (lv_helper lv) s)"
  have u: "unat (of_nat s :: u32) = s" by (rule unat_u32 [OF s(3)])
  have "keeps (collected s lv (edge_low ?h s) (edge_hosts ?h s) ?n) (\<lambda>e. False) (for_each [0..<?n] (edge_port s) ({}, [], lv))"
  proof (rule for_each_upt_keeps)
    show "collected s lv (edge_low ?h s) (edge_hosts ?h s) 0 ({}, [], lv)" by (simp add: collected_def)
  qed (rule edge_port_collected [OF _ s(1,2)], use h in auto)
  then obtain below other lv1 where l1: "for_each [0..<?n] (edge_port s) ({}, [], lv) = Inr (below, other, lv1)"
    "collected s lv (edge_low ?h s) (edge_hosts ?h s) ?n (below, other, lv1)"
    by (auto simp: keeps_def split: sum.splits)
  have o1: "only_at s lv lv1" "other = filter (\<lambda>p. \<not> edge_low ?h s p) [0..<?n]" using l1(2) by (simp_all add: collected_def)
  have "other \<noteq> []" using o by (force simp: o1(2) edge_low_def in_set_conv_nth filter_empty_conv)
  moreover have h1: "hosts lv1 = hosts lv" using only_at_simps [OF o1(1)] by (simp add: hosts_def)
  ultimately obtain lv2 where l2: "for_each (map of_nat [0..<hosts lv]) (push_other rnd s below other) lv1 = Inr lv2"
    "others_done s below other lv1 (hosts lv1) lv2"
    using push_others_done [of lv1 s other below rnd] n s only_at_simps(2) [OF o1(1)] by (auto simp: keeps_def split: sum.splits)
  have hb: "\<forall>p x. p < ?n \<and> edge_low ?h s p \<and> x \<in> set (edge_hosts ?h s p) \<longrightarrow> unat x < hosts lv"
    using h by (auto simp: edge_low_def edge_hosts_def)
  note T = collected_table [OF l1(2) l2(2) e(1) hb]
  have on: "(\<exists>q < ?n. edge_low ?h s q \<and> of_nat d \<in> set (edge_hosts ?h s q)) \<longleftrightarrow> host_on ?h s d" for d
    by (simp add: edge_low_def edge_hosts_def host_on_def bex_nth eq_commute [of "of_nat d"])
  have "edge_switch rnd (of_nat (hosts lv)) (of_nat s) lv = Inr lv2"
    using l1(1) l2(1) s(1) by (simp add: edge_switch_def u uints_of_nat [OF n] ports_def [symmetric])
  moreover have "of_nat d \<in> set (rch lv2 s) \<longleftrightarrow> host_on ?h s d" for d
    unfolding T(2) e(2) on [symmetric] by auto
  moreover have "\<forall>x \<in> set (rch lv2 s). unat x < hosts lv" unfolding T(2) e(2) using hb by auto
  moreover have "complete_table lv ?n (\<lambda>d p. if host_on ?h s d then flag (ports ?h s ! p) = 0 \<and> nodeIndex (ports ?h s ! p) = of_nat d
             else flag (ports ?h s ! p) \<noteq> 0) (tab lv2 s)"
    by (rule T(3) [unfolded on, unfolded edge_hosts_iff edge_low_def])
  ultimately show ?thesis using T(1) by blast
qed

subsection \<open>Aggregation switches\<close>

lemma aggr_hosts_ok:
  assumes "\<forall>x \<in> set xs. unat x < hosts lv" "s < length (m_switchNodes (lv_helper lv))" "s < length (switchReachHostIndexMap lv)"
  shows "\<exists>lv2. for_each xs (aggr_host s p) (below, lv) = Inr (below \<union> set xs, lv2) \<and> only_at s lv lv2 \<and>
    rch lv2 s = rch lv s @ xs \<and> tab lv2 s = tab lv s @ map (\<lambda>x. dst_entry (lv_helper lv) x p) xs"
  using assms
proof (induction xs arbitrary: below lv)
  case (Cons x xs)
  have x: "unat x < length (m_hostNodes (lv_helper lv))" using Cons.prems(1) by (simp add: hosts_def)
  obtain l1 l2 where l: "push_reach s x lv = Inr l1" "push_entry s x p l1 = Inr l2" "only_at s lv l2"
    "rch l2 s = rch lv s @ [x]" "tab l2 s = tab lv s @ [dst_entry (lv_helper lv) x p]"
    using push_both_ok [OF x Cons.prems(2,3)] by blast
  note S = only_at_simps [OF l(3)]
  obtain l3 where l3: "for_each xs (aggr_host s p) (insert x below, l2) = Inr (insert x below \<union> set xs, l3)" "only_at s l2 l3"
    "rch l3 s = rch l2 s @ xs" "tab l3 s = tab l2 s @ map (\<lambda>x. dst_entry (lv_helper l2) x p) xs"
    using Cons.IH [of l2 "insert x below"] Cons.prems S by (auto simp: hosts_def)
  have "aggr_host s p x (below, lv) = Inr (insert x below, l2)" using l(1,2) x by (simp add: aggr_host_def)
  then show ?case
    using l l3 S(4) only_at_trans [OF l(3) l3(2)] by (intro exI [of _ l3]) simp
qed simp

definition down :: "flow_helper \<Rightarrow> nat \<Rightarrow> nat \<Rightarrow> bool" where
  "down h s d \<longleftrightarrow> (\<exists>pn \<in> set (ports h s). of_nat s < nodeIndex pn \<and> host_on h (unat (nodeIndex pn)) d)"

definition aggr_low :: "flow_helper \<Rightarrow> nat \<Rightarrow> nat \<Rightarrow> bool" where
  "aggr_low h s p \<longleftrightarrow> of_nat s < nodeIndex (ports h s ! p)"

definition aggr_hosts :: "levels \<Rightarrow> nat \<Rightarrow> nat \<Rightarrow> u32 list" where
  "aggr_hosts lv s p = rch lv (unat (nodeIndex (ports (lv_helper lv) s ! p)))"

lemma aggr_port_collected:
  assumes C: "collected s lv (aggr_low (lv_helper lv) s) (aggr_hosts lv s) k r" and s: "s < length (m_switchNodes (lv_helper lv))"
    "s < length (switchReachHostIndexMap lv)" "s < 2 ^ 32"
    and h: "aggr_low (lv_helper lv) s k \<Longrightarrow> unat (nodeIndex (ports (lv_helper lv) s ! k)) < length (switchReachHostIndexMap lv) \<and>
      (\<forall>x \<in> set (aggr_hosts lv s k). unat x < hosts lv)"
  shows "keeps (collected s lv (aggr_low (lv_helper lv) s) (aggr_hosts lv s) (Suc k)) (\<lambda>e. False) (aggr_port (of_nat s) k r)"
proof -
  have u: "unat (of_nat s :: u32) = s" by (rule unat_u32 [OF s(3)])
  obtain below other lv1 where r: "r = (below, other, lv1)" by (cases r) auto
  have o: "only_at s lv lv1" using C by (simp add: collected_def r)
  note S = only_at_simps [OF o]
  have pn: "portNode (m_switchNodes (lv_helper lv1) ! s) = ports (lv_helper lv) s" using S(3) [OF s(1)] by (simp add: ports_def)
  let ?t = "nodeIndex (ports (lv_helper lv) s ! k)"
  show ?thesis
  proof (cases "aggr_low (lv_helper lv) s k")
    case True
    then have l: "of_nat s < ?t" by (simp add: aggr_low_def)
    then have "unat ?t \<noteq> s" using u by (auto simp: word_less_nat_alt)
    then have m: "switchReachHostIndexMap lv1 ! unat ?t = aggr_hosts lv s k" using o by (simp add: only_at_def aggr_hosts_def rch_def)
    obtain l2 where l2: "for_each (aggr_hosts lv s k) (aggr_host s k) (below, lv1) = Inr (below \<union> set (aggr_hosts lv s k), l2)" "only_at s lv1 l2"
      "rch l2 s = rch lv1 s @ aggr_hosts lv s k" "tab l2 s = tab lv1 s @ map (\<lambda>x. dst_entry (lv_helper lv1) x k) (aggr_hosts lv s k)"
      using aggr_hosts_ok [of "aggr_hosts lv s k" lv1 s k below] h [OF True] S s by (auto simp: hosts_def)
    have "collected s lv (aggr_low (lv_helper lv) s) (aggr_hosts lv s) (Suc k) (below \<union> set (aggr_hosts lv s k), other, l2)"
      by (rule collected_Suc(2) [OF C [unfolded r] True l2(2,3)]) (use l2(4) S(4) in simp)
    then show ?thesis using l l2(1) h [OF True] S(5) m by (simp add: aggr_port_def r u pn Let_def)
  next
    case False
    then have "\<not> of_nat s < ?t" by (simp add: aggr_low_def)
    then show ?thesis using collected_Suc(1) [OF C [unfolded r] False] by (simp add: aggr_port_def r u pn)
  qed
qed

lemma complete_table_cong:
  assumes "\<And>d p. d < hosts lv \<Longrightarrow> p < n \<Longrightarrow> G d p \<longleftrightarrow> G' d p"
  shows "complete_table lv n G es \<longleftrightarrow> complete_table lv n G' es"
  using assms unfolding complete_table_def by blast

lemma aggr_switch_ok:
  assumes s: "s < length (m_switchNodes (lv_helper lv))" "s < length (switchReachHostIndexMap lv)" "s < 2 ^ 32" and n: "hosts lv < 2 ^ 32"
    and h: "\<And>pn. pn \<in> set (ports (lv_helper lv) s) \<Longrightarrow> of_nat s < nodeIndex pn \<Longrightarrow> unat (nodeIndex pn) < length (switchReachHostIndexMap lv) \<and>
      (\<forall>x \<in> set (rch lv (unat (nodeIndex pn))). unat x < hosts lv) \<and>
      (\<forall>d < hosts lv. of_nat d \<in> set (rch lv (unat (nodeIndex pn))) \<longleftrightarrow> host_on (lv_helper lv) (unat (nodeIndex pn)) d)"
    and o: "\<exists>pn \<in> set (ports (lv_helper lv) s). \<not> of_nat s < nodeIndex pn" and e: "tab lv s = []" "rch lv s = []"
  shows "\<exists>lv'. aggr_switch rnd (of_nat (hosts lv)) (of_nat s) lv = Inr lv' \<and> only_at s lv lv' \<and>
    (\<forall>d < hosts lv. of_nat d \<in> set (rch lv' s) \<longleftrightarrow> down (lv_helper lv) s d) \<and> (\<forall>x \<in> set (rch lv' s). unat x < hosts lv) \<and>
    complete_table lv (length (ports (lv_helper lv) s))
      (\<lambda>d p. if down (lv_helper lv) s d
             then of_nat s < nodeIndex (ports (lv_helper lv) s ! p) \<and> host_on (lv_helper lv) (unat (nodeIndex (ports (lv_helper lv) s ! p))) d
             else \<not> of_nat s < nodeIndex (ports (lv_helper lv) s ! p)) (tab lv' s)"
proof -
  let ?h = "lv_helper lv" and ?n = "length (ports (lv_helper lv) s)"
  have u: "unat (of_nat s :: u32) = s" by (rule unat_u32 [OF s(3)])
  have hp: "aggr_low ?h s p \<Longrightarrow> unat (nodeIndex (ports ?h s ! p)) < length (switchReachHostIndexMap lv) \<and>
      (\<forall>x \<in> set (aggr_hosts lv s p). unat x < hosts lv)" if "p < ?n" for p
    using h [of "ports ?h s ! p"] that by (simp add: aggr_low_def aggr_hosts_def)
  have "keeps (collected s lv (aggr_low ?h s) (aggr_hosts lv s) ?n) (\<lambda>e. False) (for_each [0..<?n] (aggr_port (of_nat s)) ({}, [], lv))"
  proof (rule for_each_upt_keeps)
    show "collected s lv (aggr_low ?h s) (aggr_hosts lv s) 0 ({}, [], lv)" by (simp add: collected_def)
  qed (rule aggr_port_collected [OF _ s], use hp in auto)
  then obtain below other lv1 where l1: "for_each [0..<?n] (aggr_port (of_nat s)) ({}, [], lv) = Inr (below, other, lv1)"
    "collected s lv (aggr_low ?h s) (aggr_hosts lv s) ?n (below, other, lv1)"
    by (auto simp: keeps_def split: sum.splits)
  have o1: "only_at s lv lv1" "other = filter (\<lambda>p. \<not> aggr_low ?h s p) [0..<?n]" using l1(2) by (simp_all add: collected_def)
  have "other \<noteq> []" using o by (force simp: o1(2) aggr_low_def in_set_conv_nth filter_empty_conv)
  then obtain lv2 where l2: "for_each (map of_nat [0..<hosts lv]) (push_other rnd s below other) lv1 = Inr lv2"
    "others_done s below other lv1 (hosts lv1) lv2"
    using push_others_done [of lv1 s other below rnd] n s only_at_simps(1,2) [OF o1(1)]
    by (auto simp: keeps_def hosts_def split: sum.splits)
  have hb: "\<forall>p x. p < ?n \<and> aggr_low ?h s p \<and> x \<in> set (aggr_hosts lv s p) \<longrightarrow> unat x < hosts lv" using hp by blast
  note T = collected_table [OF l1(2) l2(2) e(1) hb]
  have on: "aggr_low ?h s q \<and> of_nat d \<in> set (aggr_hosts lv s q) \<longleftrightarrow>
      of_nat s < nodeIndex (ports ?h s ! q) \<and> host_on ?h (unat (nodeIndex (ports ?h s ! q))) d" if "q < ?n" "d < hosts lv" for q d
    using h [of "ports ?h s ! q"] that by (auto simp: aggr_low_def aggr_hosts_def)
  have dn: "(\<exists>q < ?n. aggr_low ?h s q \<and> of_nat d \<in> set (aggr_hosts lv s q)) \<longleftrightarrow> down ?h s d" if "d < hosts lv" for d
    using on [OF _ that] unfolding down_def bex_nth by blast
  have "aggr_switch rnd (of_nat (hosts lv)) (of_nat s) lv = Inr lv2"
    using l1(1) l2(1) s(1) by (simp add: aggr_switch_def u uints_of_nat [OF n] ports_def [symmetric])
  moreover have "of_nat d \<in> set (rch lv2 s) \<longleftrightarrow> down ?h s d" if "d < hosts lv" for d
    unfolding T(2) e(2) dn [OF that, symmetric] by auto
  moreover have "\<forall>x \<in> set (rch lv2 s). unat x < hosts lv" unfolding T(2) e(2) using hb by auto
  moreover have "complete_table lv ?n
      (\<lambda>d p. if down ?h s d then of_nat s < nodeIndex (ports ?h s ! p) \<and> host_on ?h (unat (nodeIndex (ports ?h s ! p))) d
             else \<not> of_nat s < nodeIndex (ports ?h s ! p)) (tab lv2 s)"
    by (rule complete_table_cong [THEN iffD1, OF _ T(3)]) (use dn on in \<open>auto simp: aggr_low_def\<close>)
  ultimately show ?thesis using T(1) by blast
qed

subsection \<open>Core switches\<close>

lemma push_entries_ok:
  assumes "\<forall>x \<in> set xs. unat x < hosts lv" "s < length (m_switchNodes (lv_helper lv))"
  shows "\<exists>lv2. for_each xs (\<lambda>host. push_entry s host p) lv = Inr lv2 \<and> only_at s lv lv2 \<and> rch lv2 s = rch lv s \<and>
    tab lv2 s = tab lv s @ map (\<lambda>x. dst_entry (lv_helper lv) x p) xs"
  using assms
proof (induction xs arbitrary: lv)
  case (Cons x xs)
  have x: "unat x < length (m_hostNodes (lv_helper lv))" using Cons.prems(1) by (simp add: hosts_def)
  obtain l2 where l: "push_entry s x p lv = Inr l2" "only_at s lv l2" "rch l2 s = rch lv s" "tab l2 s = tab lv s @ [dst_entry (lv_helper lv) x p]"
    using push_entry_ok [OF x Cons.prems(2)] by blast
  note S = only_at_simps [OF l(2)]
  obtain l3 where l3: "for_each xs (\<lambda>host. push_entry s host p) l2 = Inr l3" "only_at s l2 l3" "rch l3 s = rch l2 s"
    "tab l3 s = tab l2 s @ map (\<lambda>x. dst_entry (lv_helper l2) x p) xs"
    using Cons.IH [of l2] Cons.prems S by (auto simp: hosts_def)
  show ?case using l l3 S(4) only_at_trans [OF l(2) l3(2)] by (intro exI [of _ l3]) simp
qed simp

lemma core_switch_ok:
  assumes s: "s < length (m_switchNodes (lv_helper lv))" "s < 2 ^ 32"
    and h: "\<And>pn. pn \<in> set (ports (lv_helper lv) s) \<Longrightarrow> flag pn = 1 \<and> unat (nodeIndex pn) < length (switchReachHostIndexMap lv) \<and> unat (nodeIndex pn) \<noteq> s \<and>
      (\<forall>x \<in> set (rch lv (unat (nodeIndex pn))). unat x < hosts lv)"
    and c: "\<And>d. d < hosts lv \<Longrightarrow> \<exists>pn \<in> set (ports (lv_helper lv) s). of_nat d \<in> set (rch lv (unat (nodeIndex pn)))" and e: "tab lv s = []"
  shows "\<exists>lv'. core_switch (of_nat s) lv = Inr lv' \<and> only_at s lv lv' \<and>
    complete_table lv (length (ports (lv_helper lv) s))
      (\<lambda>d p. of_nat d \<in> set (rch lv (unat (nodeIndex (ports (lv_helper lv) s ! p))))) (tab lv' s)"
proof -
  let ?h = "lv_helper lv" and ?n = "length (ports (lv_helper lv) s)"
  let ?hs = "\<lambda>p. rch lv (unat (nodeIndex (ports ?h s ! p)))"
  let ?P = "\<lambda>k lv'. only_at s lv lv' \<and> tab lv' s = concat (map (\<lambda>p. map (\<lambda>x. dst_entry ?h x p) (?hs p)) [0..<k])"
  have u: "unat (of_nat s :: u32) = s" by (rule unat_u32 [OF s(2)])
  have "keeps (?P ?n) (\<lambda>e. False) (for_each [0..<?n] (core_port s) lv)"
  proof (rule for_each_upt_keeps)
    fix k lv1 assume k: "k < ?n" and P: "?P k lv1"
    note S = only_at_simps [OF P [THEN conjunct1]]
    have pn: "portNode (m_switchNodes (lv_helper lv1) ! s) = ports ?h s" using S(3) [OF s(1)] by (simp add: ports_def)
    note H = h [OF nth_mem [OF k]]
    have m: "switchReachHostIndexMap lv1 ! unat (nodeIndex (ports ?h s ! k)) = ?hs k" using P H by (simp add: only_at_def rch_def)
    obtain l2 where l2: "for_each (?hs k) (\<lambda>host. push_entry s host k) lv1 = Inr l2" "only_at s lv1 l2"
      "tab l2 s = tab lv1 s @ map (\<lambda>x. dst_entry (lv_helper lv1) x k) (?hs k)"
      using push_entries_ok [of "?hs k" lv1 s k] H S(1,2) s(1) by (auto simp: hosts_def)
    have "?P (Suc k) l2" using P l2 S(4) only_at_trans by auto
    then show "keeps (?P (Suc k)) (\<lambda>e. False) (core_port s k lv1)"
      using l2(1) H S(5) m by (simp add: core_port_def pn Let_def)
  qed (use e in simp)
  then obtain lv' where l: "for_each [0..<?n] (core_port s) lv = Inr lv'" "?P ?n lv'" by (auto simp: keeps_def split: sum.splits)
  have "complete_table lv ?n (\<lambda>d p. of_nat d \<in> set (?hs p)) (tab lv' s)"
    unfolding complete_table_def
  proof (intro conjI ballI allI impI)
    fix x assume "x \<in> set (tab lv' s)"
    then obtain p y where y: "p < ?n" "y \<in> set (?hs p)" "x = dst_entry ?h y p" using l(2) by auto
    then have "unat y < hosts lv" using h [OF nth_mem [OF y(1)]] by blast
    then show "\<exists>d p. d < hosts lv \<and> p < ?n \<and> x = dst_entry ?h (of_nat d) p \<and> of_nat d \<in> set (?hs p)"
      using y by (intro exI [of _ "unat y"] exI [of _ p]) simp
  next
    fix d assume "d < hosts lv"
    then obtain p where "p < ?n" "of_nat d \<in> set (?hs p)" using c unfolding bex_nth by blast
    then show "\<exists>p. dst_entry ?h (of_nat d) p \<in> set (tab lv' s)" using l(2) by force
  qed
  then show ?thesis using l s(1) by (intro exI [of _ lv']) (simp add: core_switch_def u ports_def [symmetric])
qed

subsection \<open>The loops of the builder\<close>

lemma for_each_map: "for_each (map g xs) f s = for_each xs (\<lambda>x. f (g x)) s"
  by (induction xs arbitrary: s) (auto split: sum.split)

lemma for_each_nested:
  "for_each (map of_nat [0..<m]) (\<lambda>i. for_each (map of_nat [0..<K]) (\<lambda>j. f (of_nat a + i * of_nat K + j))) s =
    for_each (map of_nat [a..<a + m * K]) f s" for f :: "u32 \<Rightarrow> 's \<Rightarrow> stop + 's"
proof (induction m)
  case (Suc m)
  have w: "of_nat a + of_nat m * of_nat K + of_nat j = (of_nat (a + m * K + j) :: u32)" for j by simp
  have row: "for_each (map of_nat [0..<K]) (\<lambda>j. f (of_nat a + of_nat m * of_nat K + j)) s = for_each (map of_nat [a + m * K..<a + m * K + K]) f s" for s
  proof -
    have "[a + m * K..<a + m * K + K] = map (\<lambda>j. a + m * K + j) [0..<K]" using map_add_upt [of "a + m * K" K] by (simp add: add.commute)
    then show ?thesis unfolding for_each_map w by (simp add: for_each_map)
  qed
  have "[a..<a + Suc m * K] = [a..<a + m * K] @ [a + m * K..<a + m * K + K]"
    using upt_add_eq_append [of a "a + m * K" K] by (simp add: algebra_simps)
  then show ?case using Suc by (simp add: for_each_append row split: sum.split)
qed simp

lemma for_each_range_keeps:
  fixes body :: "u32 \<Rightarrow> 's \<Rightarrow> stop + 's"
  assumes "\<And>k s. m \<le> k \<Longrightarrow> k < n \<Longrightarrow> P k s \<Longrightarrow> keeps (P (Suc k)) Q (body (of_nat k) s)" "m \<le> n" "P m s"
  shows "keeps (P n) Q (for_each (map of_nat [m..<n]) body s)"
proof -
  have "[m..<n] = map (\<lambda>k. m + k) [0..<n - m]"
    using map_add_upt [of m "n - m"] assms(2) by (simp add: add.commute)
  then have "for_each (map of_nat [m..<n]) body s = for_each [0..<n - m] (\<lambda>k. body (of_nat (m + k))) s" by (simp add: for_each_map)
  moreover have "keeps (P (m + (n - m))) Q (for_each [0..<n - m] (\<lambda>k. body (of_nat (m + k))) s)"
  proof (rule for_each_upt_keeps [where P = "\<lambda>k. P (m + k)"])
    fix k s assume "k < n - m" "P (m + k) s"
    then have "keeps (P (Suc (m + k))) Q (body (of_nat (m + k)) s)" by (intro assms(1)) simp_all
    then show "keeps (P (m + Suc k)) Q (body (of_nat (m + k)) s)" by simp
  qed (use assms(3) in simp)
  ultimately show ?thesis using assms(2) by simp
qed

subsection \<open>The levels\<close>

text \<open>
  A network of \<open>2 K\<close> pods: \<open>K K\<close> core switches, then as many aggregation switches and edge switches
  as twice that. An edge switch has hosts and a way up; an aggregation switch is linked to edge
  switches and to some core switch; a core switch is linked to aggregation switches and, through
  one of them, every host is below it.
\<close>

definition edge_level :: "flow_helper \<Rightarrow> nat \<Rightarrow> nat \<Rightarrow> bool" where
  "edge_level h K s \<longleftrightarrow>
     (\<exists>pn \<in> set (ports h s). flag pn \<noteq> 0) \<and>
     (\<forall>pn \<in> set (ports h s).
        if flag pn = 0 then unat (nodeIndex pn) < length (m_hostNodes h)
        else K * K \<le> unat (nodeIndex pn) \<and> unat (nodeIndex pn) < 3 * (K * K))"

definition aggr_level :: "flow_helper \<Rightarrow> nat \<Rightarrow> nat \<Rightarrow> bool" where
  "aggr_level h K s \<longleftrightarrow>
     (\<exists>pn \<in> set (ports h s). unat (nodeIndex pn) < K * K) \<and>
     (\<forall>pn \<in> set (ports h s). flag pn \<noteq> 0 \<and>
        (unat (nodeIndex pn) < K * K \<or> 3 * (K * K) \<le> unat (nodeIndex pn) \<and> unat (nodeIndex pn) < 5 * (K * K)))"

definition core_level :: "flow_helper \<Rightarrow> nat \<Rightarrow> nat \<Rightarrow> bool" where
  "core_level h K s \<longleftrightarrow>
     (\<forall>pn \<in> set (ports h s). flag pn = 1 \<and> K * K \<le> unat (nodeIndex pn) \<and> unat (nodeIndex pn) < 3 * (K * K)) \<and>
     (\<forall>d < length (m_hostNodes h). \<exists>pn \<in> set (ports h s). down h (unat (nodeIndex pn)) d)"

definition tree_levels :: "flow_helper \<Rightarrow> nat \<Rightarrow> bool" where
  "tree_levels h K \<longleftrightarrow>
     0 < K \<and> K \<le> 700 \<and> fh_podNum h = of_nat (2 * K) \<and> length (m_hostNodes h) = K * K * (2 * K) \<and> length (m_switchNodes h) = 5 * (K * K) \<and>
     distinct (map ipAddr (m_hostNodes h)) \<and> (\<forall>s < 5 * (K * K). length (ports h s) < 2 ^ 32) \<and>
     (\<forall>s. 3 * (K * K) \<le> s \<longrightarrow> s < 5 * (K * K) \<longrightarrow> edge_level h K s) \<and>
     (\<forall>s. K * K \<le> s \<longrightarrow> s < 3 * (K * K) \<longrightarrow> aggr_level h K s) \<and>
     (\<forall>s < K * K. core_level h K s)"

text \<open>The hosts below a switch, and what an entry for host \<open>d\<close> with port \<open>p\<close> must be.\<close>

definition lower :: "flow_helper \<Rightarrow> nat \<Rightarrow> nat \<Rightarrow> nat \<Rightarrow> bool" where
  "lower h K s d \<longleftrightarrow> (if 3 * (K * K) \<le> s then host_on h s d else down h s d)"

definition right_port :: "flow_helper \<Rightarrow> nat \<Rightarrow> nat \<Rightarrow> nat \<Rightarrow> nat \<Rightarrow> bool" where
  "right_port h K s d p \<longleftrightarrow>
     (let pn = ports h s ! p
      in if 3 * (K * K) \<le> s then (if host_on h s d then flag pn = 0 \<and> nodeIndex pn = of_nat d else flag pn \<noteq> 0)
         else if K * K \<le> s then (if down h s d then of_nat s < nodeIndex pn \<and> host_on h (unat (nodeIndex pn)) d else \<not> of_nat s < nodeIndex pn)
         else down h (unat (nodeIndex pn)) d)"

definition finished :: "levels \<Rightarrow> nat \<Rightarrow> levels \<Rightarrow> nat \<Rightarrow> bool" where
  "finished lv0 K lv s \<longleftrightarrow>
     complete_table lv0 (length (ports (lv_helper lv0) s)) (right_port (lv_helper lv0) K s) (tab lv s) \<and>
     (K * K \<le> s \<longrightarrow> (\<forall>x \<in> set (rch lv s). unat x < hosts lv0) \<and>
        (\<forall>d < hosts lv0. of_nat d \<in> set (rch lv s) \<longleftrightarrow> lower (lv_helper lv0) K s d))"

definition building :: "levels \<Rightarrow> nat \<Rightarrow> nat set \<Rightarrow> levels \<Rightarrow> bool" where
  "building lv0 K D lv \<longleftrightarrow> same_net (lv_helper lv0) (lv_helper lv) \<and> length (switchReachHostIndexMap lv) = 5 * (K * K) \<and>
     (\<forall>s < 5 * (K * K). if s \<in> D then finished lv0 K lv s else tab lv s = [] \<and> rch lv s = [])"

lemma building_step:
  assumes "building lv0 K D lv" "only_at s lv lv'" "finished lv0 K lv' s"
  shows "building lv0 K (insert s D) lv'"
proof -
  have "same_net (lv_helper lv0) (lv_helper lv')" "length (switchReachHostIndexMap lv') = 5 * (K * K)"
    using assms(1,2) same_net_trans unfolding building_def only_at_def by auto
  moreover have "if t \<in> insert s D then finished lv0 K lv' t else tab lv' t = [] \<and> rch lv' t = []" if "t < 5 * (K * K)" for t
  proof (cases "t = s")
    case False
    then have "tab lv' t = tab lv t" "rch lv' t = rch lv t" using assms(2) by (simp_all add: only_at_def)
    moreover have "if t \<in> D then finished lv0 K lv t else tab lv t = [] \<and> rch lv t = []" using assms(1) that unfolding building_def by blast
    ultimately show ?thesis using False unfolding finished_def by simp
  qed (use assms(3) in simp)
  ultimately show ?thesis unfolding building_def by blast
qed

lemma building_simps:
  assumes "building lv0 K D lv" "length (m_switchNodes (lv_helper lv0)) = 5 * (K * K)"
  shows "hosts lv = hosts lv0" "length (m_switchNodes (lv_helper lv)) = 5 * (K * K)"
    "s < 5 * (K * K) \<Longrightarrow> ports (lv_helper lv) s = ports (lv_helper lv0) s"
    "s < 5 * (K * K) \<Longrightarrow> host_on (lv_helper lv) s = host_on (lv_helper lv0) s"
    "complete_table lv = complete_table lv0"
proof -
  have "same_net (lv_helper lv0) (lv_helper lv)" using assms(1) by (simp add: building_def)
  note S = same_net_simps [OF this]
  show "hosts lv = hosts lv0" "length (m_switchNodes (lv_helper lv)) = 5 * (K * K)" using S assms(2) by (simp_all add: hosts_def)
  show p: "ports (lv_helper lv) s = ports (lv_helper lv0) s" if "s < 5 * (K * K)" using S(3) that assms(2) by simp
  show "host_on (lv_helper lv) s = host_on (lv_helper lv0) s" if "s < 5 * (K * K)" using p [OF that] by (simp add: host_on_def [abs_def])
  show "complete_table lv = complete_table lv0" using S(1) by (simp add: complete_table_def [abs_def] dst_entry_def hosts_def)
qed

lemma tree_bounds:
  assumes "tree_levels h K"
  shows "K * K \<le> 490000" "length (m_hostNodes h) < 2 ^ 32" "length (m_switchNodes h) = 5 * (K * K)"
proof -
  show k: "K * K \<le> 490000" using assms by (intro half_squared) (simp add: tree_levels_def)
  have "K * K * (2 * K) \<le> 490000 * 1400" using assms by (intro mult_le_mono k) (simp add: tree_levels_def)
  then show "length (m_hostNodes h) < 2 ^ 32" using assms by (simp add: tree_levels_def)
  show "length (m_switchNodes h) = 5 * (K * K)" using assms by (simp add: tree_levels_def)
qed

lemma tree_edge:
  assumes "tree_levels h K" "3 * (K * K) \<le> s" "s < 5 * (K * K)"
  shows "\<exists>pn \<in> set (ports h s). flag pn \<noteq> 0"
    "pn \<in> set (ports h s) \<Longrightarrow> flag pn = 0 \<Longrightarrow> unat (nodeIndex pn) < length (m_hostNodes h)"
    "pn \<in> set (ports h s) \<Longrightarrow> flag pn \<noteq> 0 \<Longrightarrow> K * K \<le> unat (nodeIndex pn) \<and> unat (nodeIndex pn) < 3 * (K * K)"
proof -
  have l: "edge_level h K s" using assms by (simp add: tree_levels_def)
  show "\<exists>pn \<in> set (ports h s). flag pn \<noteq> 0" using l by (simp add: edge_level_def)
  have a: "if flag pn = 0 then unat (nodeIndex pn) < length (m_hostNodes h)
      else K * K \<le> unat (nodeIndex pn) \<and> unat (nodeIndex pn) < 3 * (K * K)" if "pn \<in> set (ports h s)"
    using l that unfolding edge_level_def by blast
  show "pn \<in> set (ports h s) \<Longrightarrow> flag pn = 0 \<Longrightarrow> unat (nodeIndex pn) < length (m_hostNodes h)"
    "pn \<in> set (ports h s) \<Longrightarrow> flag pn \<noteq> 0 \<Longrightarrow> K * K \<le> unat (nodeIndex pn) \<and> unat (nodeIndex pn) < 3 * (K * K)"
    using a by (simp_all only: if_True if_False)
qed

lemma tree_aggr:
  assumes "tree_levels h K" "K * K \<le> s" "s < 3 * (K * K)"
  shows "\<exists>pn \<in> set (ports h s). unat (nodeIndex pn) < K * K"
    "pn \<in> set (ports h s) \<Longrightarrow> flag pn \<noteq> 0 \<and> (unat (nodeIndex pn) < K * K \<or> 3 * (K * K) \<le> unat (nodeIndex pn) \<and> unat (nodeIndex pn) < 5 * (K * K))"
proof -
  have l: "aggr_level h K s" using assms by (simp add: tree_levels_def)
  show "\<exists>pn \<in> set (ports h s). unat (nodeIndex pn) < K * K"
    "pn \<in> set (ports h s) \<Longrightarrow> flag pn \<noteq> 0 \<and> (unat (nodeIndex pn) < K * K \<or> 3 * (K * K) \<le> unat (nodeIndex pn) \<and> unat (nodeIndex pn) < 5 * (K * K))"
    using l unfolding aggr_level_def by blast+
qed

lemma tree_core:
  assumes "tree_levels h K" "s < K * K"
  shows "pn \<in> set (ports h s) \<Longrightarrow> flag pn = 1 \<and> K * K \<le> unat (nodeIndex pn) \<and> unat (nodeIndex pn) < 3 * (K * K)"
    "d < length (m_hostNodes h) \<Longrightarrow> \<exists>pn \<in> set (ports h s). down h (unat (nodeIndex pn)) d"
proof -
  have l: "core_level h K s" using assms by (simp add: tree_levels_def)
  show "pn \<in> set (ports h s) \<Longrightarrow> flag pn = 1 \<and> K * K \<le> unat (nodeIndex pn) \<and> unat (nodeIndex pn) < 3 * (K * K)"
    "d < length (m_hostNodes h) \<Longrightarrow> \<exists>pn \<in> set (ports h s). down h (unat (nodeIndex pn)) d"
    using l unfolding core_level_def by blast+
qed

lemma tree_aggr_up:
  assumes "tree_levels h K" "K * K \<le> s" "s < 3 * (K * K)" "pn \<in> set (ports h s)"
  shows "of_nat s < nodeIndex pn \<longleftrightarrow> 3 * (K * K) \<le> unat (nodeIndex pn)" "unat (nodeIndex pn) < 5 * (K * K)"
proof -
  have u: "unat (of_nat s :: u32) = s" using assms(3) tree_bounds(1) [OF assms(1)] by (intro unat_u32) simp
  show "of_nat s < nodeIndex pn \<longleftrightarrow> 3 * (K * K) \<le> unat (nodeIndex pn)" "unat (nodeIndex pn) < 5 * (K * K)"
    using tree_aggr(2) [OF assms] assms(2,3) unfolding word_less_nat_alt u by auto
qed

lemma edge_building:
  assumes T: "tree_levels (lv_helper lv0) K" and B: "building lv0 K {3 * (K * K)..<s} lv" and s: "3 * (K * K) \<le> s" "s < 5 * (K * K)"
  shows "keeps (building lv0 K {3 * (K * K)..<Suc s}) (\<lambda>e. False) (edge_switch rnd (of_nat (hosts lv0)) (of_nat s) lv)"
proof -
  let ?h = "lv_helper lv0"
  note b = tree_bounds [OF T] and S = building_simps [OF B tree_bounds(3) [OF T]]
  have sn: "s < length (m_switchNodes (lv_helper lv))" "s < length (switchReachHostIndexMap lv)" "s < 2 ^ 32" "hosts lv < 2 ^ 32"
    using s b S(1,2) B by (simp_all add: building_def hosts_def)
  have hp: "unat (nodeIndex pn) < hosts lv" if "pn \<in> set (ports (lv_helper lv) s)" "flag pn = 0" for pn
    using tree_edge(2) [OF T s] that unfolding S(1) S(3) [OF s(2)] by (simp add: hosts_def)
  have up: "\<exists>pn \<in> set (ports (lv_helper lv) s). flag pn \<noteq> 0"
    using tree_edge(1) [OF T s] unfolding S(3) [OF s(2)] .
  have f: "tab lv s = []" "rch lv s = []" using B s(2) by (auto simp: building_def)
  obtain lv' where lv': "edge_switch rnd (of_nat (hosts lv)) (of_nat s) lv = Inr lv'" "only_at s lv lv'"
    "\<forall>d < hosts lv. of_nat d \<in> set (rch lv' s) \<longleftrightarrow> host_on (lv_helper lv) s d" "\<forall>x \<in> set (rch lv' s). unat x < hosts lv"
    "complete_table lv (length (ports (lv_helper lv) s))
      (\<lambda>d p. if host_on (lv_helper lv) s d then flag (ports (lv_helper lv) s ! p) = 0 \<and> nodeIndex (ports (lv_helper lv) s ! p) = of_nat d
             else flag (ports (lv_helper lv) s ! p) \<noteq> 0) (tab lv' s)"
    using edge_switch_ok [OF sn hp up f] by blast
  have "complete_table lv0 (length (ports ?h s)) (right_port ?h K s) (tab lv' s)"
    using lv'(5) s(1) unfolding S(5) S(3) [OF s(2)] S(4) [OF s(2)] right_port_def Let_def by (simp only: if_True)
  then have "finished lv0 K lv' s"
    using lv'(3,4) s(1) unfolding S(1) S(4) [OF s(2)] by (simp add: finished_def lower_def)
  from building_step [OF B lv'(2) this] have "building lv0 K {3 * (K * K)..<Suc s} lv'" using s(1) by (simp add: atLeastLessThanSuc)
  then show ?thesis using lv'(1) S(1) by simp
qed

lemma aggr_building:
  assumes T: "tree_levels (lv_helper lv0) K" and B: "building lv0 K ({3 * (K * K)..<5 * (K * K)} \<union> {K * K..<s}) lv" and s: "K * K \<le> s" "s < 3 * (K * K)"
  shows "keeps (building lv0 K ({3 * (K * K)..<5 * (K * K)} \<union> {K * K..<Suc s})) (\<lambda>e. False) (aggr_switch rnd (of_nat (hosts lv0)) (of_nat s) lv)"
proof -
  let ?h = "lv_helper lv0"
  have s5: "s < 5 * (K * K)" using s by simp
  note b = tree_bounds [OF T] and S = building_simps [OF B tree_bounds(3) [OF T]]
  have sn: "s < length (m_switchNodes (lv_helper lv))" "s < length (switchReachHostIndexMap lv)" "s < 2 ^ 32" "hosts lv < 2 ^ 32"
    using s b S(1,2) B by (simp_all add: building_def hosts_def)
  note lvl = tree_aggr_up [OF T s]
  have hp: "unat (nodeIndex pn) < length (switchReachHostIndexMap lv) \<and> (\<forall>x \<in> set (rch lv (unat (nodeIndex pn))). unat x < hosts lv) \<and>
      (\<forall>d < hosts lv. of_nat d \<in> set (rch lv (unat (nodeIndex pn))) \<longleftrightarrow> host_on (lv_helper lv) (unat (nodeIndex pn)) d)"
    if "pn \<in> set (ports (lv_helper lv) s)" "of_nat s < nodeIndex pn" for pn
  proof -
    have pn: "3 * (K * K) \<le> unat (nodeIndex pn)" "unat (nodeIndex pn) < 5 * (K * K)" using lvl [of pn] that unfolding S(3) [OF s5] by blast+
    then have "finished lv0 K lv (unat (nodeIndex pn))" using B by (simp add: building_def)
    then show ?thesis using pn B unfolding S(1) S(4) [OF pn(2)] by (simp add: finished_def lower_def building_def)
  qed
  have up: "\<exists>pn \<in> set (ports (lv_helper lv) s). \<not> of_nat s < nodeIndex pn"
  proof -
    obtain pn where "pn \<in> set (ports ?h s)" "unat (nodeIndex pn) < K * K" using tree_aggr(1) [OF T s] by blast
    then show ?thesis unfolding S(3) [OF s5] by (intro bexI [of _ pn]) (simp_all add: lvl)
  qed
  have f: "tab lv s = []" "rch lv s = []" using B s by (auto simp: building_def)
  obtain lv' where lv': "aggr_switch rnd (of_nat (hosts lv)) (of_nat s) lv = Inr lv'" "only_at s lv lv'"
    "\<forall>d < hosts lv. of_nat d \<in> set (rch lv' s) \<longleftrightarrow> down (lv_helper lv) s d" "\<forall>x \<in> set (rch lv' s). unat x < hosts lv"
    "complete_table lv (length (ports (lv_helper lv) s))
      (\<lambda>d p. if down (lv_helper lv) s d
             then of_nat s < nodeIndex (ports (lv_helper lv) s ! p) \<and> host_on (lv_helper lv) (unat (nodeIndex (ports (lv_helper lv) s ! p))) d
             else \<not> of_nat s < nodeIndex (ports (lv_helper lv) s ! p)) (tab lv' s)"
    using aggr_switch_ok [OF sn hp up f] by blast
  have dn: "down (lv_helper lv) s d \<longleftrightarrow> down ?h s d" for d
    unfolding down_def S(3) [OF s5] using lvl(2) S(4) by auto
  have "complete_table lv0 (length (ports ?h s)) (right_port ?h K s) (tab lv' s)"
    using lv'(5) unfolding S(5) S(3) [OF s5]
    by (rule complete_table_cong [THEN iffD1, rotated]) (use s lvl(2) S(4) in \<open>auto simp: right_port_def Let_def dn\<close>)
  then have "finished lv0 K lv' s"
    using lv'(3,4) s unfolding S(1) dn by (simp add: finished_def lower_def)
  from building_step [OF B lv'(2) this]
  have "building lv0 K ({3 * (K * K)..<5 * (K * K)} \<union> {K * K..<Suc s}) lv'" using s(1) by (simp add: atLeastLessThanSuc)
  then show ?thesis using lv'(1) S(1) by simp
qed

lemma core_building:
  assumes T: "tree_levels (lv_helper lv0) K" and B: "building lv0 K ({K * K..<5 * (K * K)} \<union> {0..<s}) lv" and s: "s < K * K"
  shows "keeps (building lv0 K ({K * K..<5 * (K * K)} \<union> {0..<Suc s})) (\<lambda>e. False) (core_switch (of_nat s) lv)"
proof -
  let ?h = "lv_helper lv0"
  have s5: "s < 5 * (K * K)" using s by simp
  note b = tree_bounds [OF T] and S = building_simps [OF B tree_bounds(3) [OF T]]
  have sn: "s < length (m_switchNodes (lv_helper lv))" "s < 2 ^ 32" using s b S(1,2) by simp_all
  have pt: "flag pn = 1" "K * K \<le> unat (nodeIndex pn)" "unat (nodeIndex pn) < 3 * (K * K)" if "pn \<in> set (ports ?h s)" for pn
    using tree_core(1) [OF T s that] by simp_all
  have fin: "(\<forall>x \<in> set (rch lv (unat (nodeIndex pn))). unat x < hosts lv0) \<and>
      (\<forall>d < hosts lv0. of_nat d \<in> set (rch lv (unat (nodeIndex pn))) \<longleftrightarrow> down ?h (unat (nodeIndex pn)) d)" if "pn \<in> set (ports ?h s)" for pn
  proof -
    have "finished lv0 K lv (unat (nodeIndex pn))" using B pt [OF that] by (simp add: building_def)
    then show ?thesis using pt [OF that] by (simp add: finished_def lower_def)
  qed
  have hp: "flag pn = 1 \<and> unat (nodeIndex pn) < length (switchReachHostIndexMap lv) \<and> unat (nodeIndex pn) \<noteq> s \<and>
      (\<forall>x \<in> set (rch lv (unat (nodeIndex pn))). unat x < hosts lv)" if "pn \<in> set (ports (lv_helper lv) s)" for pn
    using pt [of pn] fin [of pn] that B s unfolding S(1) S(3) [OF s5] by (auto simp: building_def)
  have all: "\<exists>pn \<in> set (ports (lv_helper lv) s). of_nat d \<in> set (rch lv (unat (nodeIndex pn)))" if "d < hosts lv" for d
  proof -
    have "\<exists>pn \<in> set (ports ?h s). down ?h (unat (nodeIndex pn)) d" using tree_core(2) [OF T s] that unfolding S(1) by (simp add: hosts_def)
    then show ?thesis using fin that unfolding S(1) S(3) [OF s5] by blast
  qed
  have f: "tab lv s = []" using B s by (auto simp: building_def)
  obtain lv' where lv': "core_switch (of_nat s) lv = Inr lv'" "only_at s lv lv'"
    "complete_table lv (length (ports (lv_helper lv) s))
      (\<lambda>d p. of_nat d \<in> set (rch lv (unat (nodeIndex (ports (lv_helper lv) s ! p))))) (tab lv' s)"
    using core_switch_ok [OF sn hp all f] by blast
  have "complete_table lv0 (length (ports ?h s)) (right_port ?h K s) (tab lv' s)"
    using lv'(3) unfolding S(5) S(3) [OF s5]
    by (rule complete_table_cong [THEN iffD1, rotated]) (use s fin in \<open>auto simp: right_port_def Let_def\<close>)
  then have "finished lv0 K lv' s" using s by (simp add: finished_def)
  from building_step [OF B lv'(2) this]
  have "building lv0 K ({K * K..<5 * (K * K)} \<union> {0..<Suc s}) lv'" by (simp add: atLeastLessThanSuc)
  then show ?thesis using lv'(1) by simp
qed

lemma builder_loops:
  assumes T: "tree_levels h K" and E: "\<forall>s < length (m_switchNodes h). entries h s = []"
  shows "\<exists>lv. BuildFattreeFlowTable rnd h = Inr (lv_helper lv) \<and>
    building \<lparr>lv_helper = h, switchReachHostIndexMap = replicate (5 * (K * K)) [], lv_calls = 0\<rparr> K {0..<5 * (K * K)} lv"
proof -
  define lv0 where "lv0 = \<lparr>lv_helper = h, switchReachHostIndexMap = replicate (5 * (K * K)) [], lv_calls = 0\<rparr>"
  note b = tree_bounds [OF T]
  have K: "0 < K" "K \<le> 700" "fh_podNum h = of_nat (2 * K)" "hosts lv0 = K * K * (2 * K)"
    using T by (simp_all add: tree_levels_def lv0_def hosts_def)
  have h0: "lv_helper lv0 = h" by (simp add: lv0_def)
  have half: "fh_podNum h div 2 = of_nat K"
  proof -
    have "unat (fh_podNum h div 2) = K" using K(2) unat_u32 [of "2 * K"] unfolding K(3) unat_div by simp
    then show ?thesis using unat_u32 [of K] K(2) unat_same [of "fh_podNum h div 2" "of_nat K"] by simp
  qed
  let ?c = "K * K"
  have arith: "(of_nat K * of_nat K) * of_nat (2 * K) = (of_nat (hosts lv0) :: u32)" "of_nat K * of_nat K = (of_nat ?c :: u32)"
    "3 * of_nat ?c = (of_nat (3 * ?c) :: u32)" "unat (5 * of_nat ?c :: u32) = 5 * ?c"
  proof -
    have "(5 * of_nat ?c :: u32) = of_nat (5 * ?c)" by simp
    then show "unat (5 * of_nat ?c :: u32) = 5 * ?c" using b(1) unat_u32 [of "5 * ?c"] by simp
  qed (simp_all add: K(4))
  have u: "uints (of_nat (2 * K)) = map of_nat [0..<2 * K]" "uints (of_nat K) = map of_nat [0..<K]" "uints (of_nat ?c) = map of_nat [0..<?c]"
    using K(2) b(1) by (intro uints_of_nat; simp)+
  have start: "building lv0 K {3 * ?c..<3 * ?c} lv0"
    using E b(3) by (simp add: building_def lv0_def tab_def rch_def)
  have "keeps (building lv0 K {3 * ?c..<5 * ?c}) (\<lambda>e. False) (for_each (map of_nat [3 * ?c..<5 * ?c]) (edge_switch rnd (of_nat (hosts lv0))) lv0)"
    by (rule for_each_range_keeps [where P = "\<lambda>s. building lv0 K {3 * ?c..<s}", OF _ _ start])
      (use edge_building [of lv0 K] T h0 in auto)
  then obtain lv1 where lv1: "for_each (map of_nat [3 * ?c..<5 * ?c]) (edge_switch rnd (of_nat (hosts lv0))) lv0 = Inr lv1"
    "building lv0 K ({3 * ?c..<5 * ?c} \<union> {?c..<?c}) lv1" by (auto simp: keeps_def split: sum.splits)
  have "keeps (building lv0 K ({3 * ?c..<5 * ?c} \<union> {?c..<3 * ?c})) (\<lambda>e. False)
      (for_each (map of_nat [?c..<3 * ?c]) (aggr_switch rnd (of_nat (hosts lv0))) lv1)"
    by (rule for_each_range_keeps [where P = "\<lambda>s. building lv0 K ({3 * ?c..<5 * ?c} \<union> {?c..<s})", OF _ _ lv1(2)])
      (use aggr_building [of lv0 K] T h0 in auto)
  moreover have "{3 * ?c..<5 * ?c} \<union> {?c..<3 * ?c} = {?c..<5 * ?c} \<union> {0..<0}" by auto
  ultimately obtain lv2 where lv2: "for_each (map of_nat [?c..<3 * ?c]) (aggr_switch rnd (of_nat (hosts lv0))) lv1 = Inr lv2"
    "building lv0 K ({?c..<5 * ?c} \<union> {0..<0}) lv2" by (auto simp: keeps_def split: sum.splits)
  have "keeps (building lv0 K ({?c..<5 * ?c} \<union> {0..<?c})) (\<lambda>e. False) (for_each (map of_nat [0..<?c]) core_switch lv2)"
    by (rule for_each_range_keeps [where P = "\<lambda>s. building lv0 K ({?c..<5 * ?c} \<union> {0..<s})", OF _ _ lv2(2)])
      (use core_building [of lv0 K] T h0 in auto)
  moreover have "{?c..<5 * ?c} \<union> {0..<?c} = {0..<5 * ?c}" by auto
  ultimately obtain lv3 where lv3: "for_each (map of_nat [0..<?c]) core_switch lv2 = Inr lv3" "building lv0 K {0..<5 * ?c} lv3"
    by (auto simp: keeps_def split: sum.splits)
  have n1: "for_each (map of_nat [0..<2 * K]) (\<lambda>i. for_each (map of_nat [0..<K]) (\<lambda>j. edge_switch rnd (of_nat (hosts lv0)) (of_nat (3 * ?c) + i * of_nat K + j))) lv0 = Inr lv1"
    using lv1(1) unfolding for_each_nested by (simp add: algebra_simps)
  have n2: "for_each (map of_nat [0..<2 * K]) (\<lambda>i. for_each (map of_nat [0..<K]) (\<lambda>j. aggr_switch rnd (of_nat (hosts lv0)) (of_nat ?c + i * of_nat K + j))) lv1 = Inr lv2"
    using lv2(1) unfolding for_each_nested by (simp add: algebra_simps)
  have "BuildFattreeFlowTable rnd h = Inr (lv_helper lv3)"
    unfolding BuildFattreeFlowTable_def Let_def half unfolding K(3) arith(1) unfolding arith(2) unfolding arith(3,4) u lv0_def [symmetric] n1
    using n2 lv3(1) by simp
  with lv3(2) show ?thesis unfolding lv0_def by blast
qed

text \<open>Down an edge, up to three hops before it.\<close>

lemma tree_routes:
  assumes T: "tree_levels h K" and E: "\<forall>s < length (m_switchNodes h). entries h s = []"
  shows "\<exists>h'. BuildFattreeFlowTable rnd h = Inr h' \<and> same_net h h' \<and>
    (\<forall>s < length (m_switchNodes h). \<forall>d < length (m_hostNodes h). routes h' (host_ip h d) d s)"
proof -
  define lv0 where "lv0 = \<lparr>lv_helper = h, switchReachHostIndexMap = replicate (5 * (K * K)) [], lv_calls = 0\<rparr>"
  obtain lv where lv: "BuildFattreeFlowTable rnd h = Inr (lv_helper lv)" "building lv0 K {0..<5 * (K * K)} lv"
    using builder_loops [OF T E] unfolding lv0_def by blast
  let ?h = "lv_helper lv" and ?c = "K * K"
  note b = tree_bounds [OF T]
  have h0: "lv_helper lv0 = h" "hosts lv0 = length (m_hostNodes h)" by (simp_all add: lv0_def hosts_def)
  have net: "same_net h ?h" using lv(2) by (simp add: building_def h0)
  note S = same_net_simps [OF net]
  have dist: "distinct (map ipAddr (m_hostNodes h))" using T by (simp add: tree_levels_def)
  have entry: "\<exists>e p. first_entry ?h s (host_ip h d) = Some e \<and> unat (outPort e) = p \<and> p < length (ports h s) \<and> right_port h K s d p"
    if s: "s < 5 * ?c" and d: "d < length (m_hostNodes h)" for s d
  proof -
    have "finished lv0 K lv s" using lv(2) s by (simp add: building_def)
    then have C: "complete_table lv0 (length (ports h s)) (right_port h K s) (entries ?h s)" by (simp add: finished_def h0 tab_def)
    have ud: "unat (of_nat x :: u32) = x" if "x < length (m_hostNodes h)" for x using that b(2) by (intro unat_u32) simp
    obtain p where "dst_entry h (of_nat d) p \<in> set (entries ?h s)" using C d by (auto simp: complete_table_def h0)
    moreover have "dstIp (dst_entry h (of_nat d) p) = host_ip h d" for p using ud [OF d] by (simp add: dst_entry_def host_ip_def)
    ultimately obtain e where e: "first_entry ?h s (host_ip h d) = Some e"
      unfolding first_entry_def by (metis (mono_tags, lifting) find_None_iff not_None_eq)
    then have "e \<in> set (entries ?h s)" "dstIp e = host_ip h d" by (auto simp: first_entry_def find_Some_iff)
    then obtain x q where x: "x < length (m_hostNodes h)" "q < length (ports h s)" "e = dst_entry h (of_nat x) q" "right_port h K s x q"
      using C unfolding complete_table_def h0 by blast
    have "ipAddr (m_hostNodes h ! x) = ipAddr (m_hostNodes h ! d)"
      using \<open>dstIp e = host_ip h d\<close> ud [OF x(1)] unfolding x(3) by (simp add: dst_entry_def host_ip_def)
    then have "x = d" using nth_eq_iff_index_eq [OF dist, of x d] x(1) d by simp
    moreover have "length (ports h s) < 2 ^ 32" using T s by (simp add: tree_levels_def)
    then have "unat (outPort e) = q" using x(2) unat_u32 [of q] unfolding x(3) by (simp add: dst_entry_def)
    ultimately show ?thesis using e x by blast
  qed
  have to: "routes ?h (host_ip h d) d s" if "first_entry ?h s (host_ip h d) = Some e" "unat (outPort e) = p" "p < length (ports h s)" "s < 5 * ?c"
      "(flag (ports h s ! p) = 0 \<and> nodeIndex (ports h s ! p) = of_nat d) \<or>
       (flag (ports h s ! p) \<noteq> 0 \<and> routes ?h (host_ip h d) d (unat (nodeIndex (ports h s ! p))))" for s d e p
    using that S b(3) routes.arrive [of s ?h "host_ip h d" e d] routes.forward [of s ?h "host_ip h d" e d] by auto
  have edge: "routes ?h (host_ip h d) d s" if "3 * ?c \<le> s" "s < 5 * ?c" "d < length (m_hostNodes h)" "host_on h s d" for s d
    using entry [OF that(2,3)] that to by (auto simp: right_port_def Let_def)
  have aggr: "routes ?h (host_ip h d) d s" if s: "?c \<le> s" "s < 3 * ?c" and d: "d < length (m_hostNodes h)" "down h s d" for s d
  proof -
    have s5: "s < 5 * ?c" using s by simp
    obtain e p where e: "first_entry ?h s (host_ip h d) = Some e" "unat (outPort e) = p" "p < length (ports h s)" "right_port h K s d p"
      using entry [OF s5 d(1)] by blast
    have r: "of_nat s < nodeIndex (ports h s ! p)" "host_on h (unat (nodeIndex (ports h s ! p))) d"
      using e(4) s d(2) by (simp_all add: right_port_def Let_def split: if_splits)
    note m = nth_mem [OF e(3)]
    have "routes ?h (host_ip h d) d (unat (nodeIndex (ports h s ! p)))"
      by (rule edge) (use r d(1) tree_aggr_up [OF T s m] in simp_all)
    then show ?thesis using to [OF e(1-3) s5] tree_aggr(2) [OF T s m] by blast
  qed
  have core: "routes ?h (host_ip h d) d s" if s: "s < ?c" and d: "d < length (m_hostNodes h)" for s d
  proof -
    have s5: "s < 5 * ?c" using s by simp
    obtain e p where e: "first_entry ?h s (host_ip h d) = Some e" "unat (outPort e) = p" "p < length (ports h s)" "right_port h K s d p"
      using entry [OF s5 d] by blast
    note m = tree_core(1) [OF T s nth_mem [OF e(3)]]
    have "down h (unat (nodeIndex (ports h s ! p))) d" using e(4) s by (simp add: right_port_def Let_def)
    then have "routes ?h (host_ip h d) d (unat (nodeIndex (ports h s ! p)))" using aggr m d by blast
    then show ?thesis using to [OF e(1-3) s5] m by simp
  qed
  have aggr': "routes ?h (host_ip h d) d s" if s: "?c \<le> s" "s < 3 * ?c" and d: "d < length (m_hostNodes h)" for s d
  proof (cases "down h s d")
    case False
    have s5: "s < 5 * ?c" using s by simp
    obtain e p where e: "first_entry ?h s (host_ip h d) = Some e" "unat (outPort e) = p" "p < length (ports h s)" "right_port h K s d p"
      using entry [OF s5 d] by blast
    note m = nth_mem [OF e(3)]
    have "\<not> of_nat s < nodeIndex (ports h s ! p)" using e(4) s False by (simp add: right_port_def Let_def split: if_splits)
    then have "unat (nodeIndex (ports h s ! p)) < ?c" using tree_aggr(2) [OF T s m] tree_aggr_up(1) [OF T s m] by auto
    then have "routes ?h (host_ip h d) d (unat (nodeIndex (ports h s ! p)))" by (rule core) (rule d)
    then show ?thesis using to [OF e(1-3) s5] tree_aggr(2) [OF T s m] by blast
  qed (rule aggr [OF s d])
  have edge': "routes ?h (host_ip h d) d s" if s: "3 * ?c \<le> s" "s < 5 * ?c" and d: "d < length (m_hostNodes h)" for s d
  proof (cases "host_on h s d")
    case False
    obtain e p where e: "first_entry ?h s (host_ip h d) = Some e" "unat (outPort e) = p" "p < length (ports h s)" "right_port h K s d p"
      using entry [OF s(2) d] by blast
    have f: "flag (ports h s ! p) \<noteq> 0" using e(4) s False by (simp add: right_port_def Let_def split: if_splits)
    then have "routes ?h (host_ip h d) d (unat (nodeIndex (ports h s ! p)))"
      using tree_edge(3) [OF T s nth_mem [OF e(3)]] aggr' d by blast
    then show ?thesis using to [OF e(1-3) s(2)] f by blast
  qed (rule edge [OF s d])
  have "routes ?h (host_ip h d) d s" if "s < 5 * ?c" "d < length (m_hostNodes h)" for s d
    using that core aggr' edge' by (cases "s < ?c"; cases "s < 3 * ?c") (simp_all add: not_less)
  then show ?thesis using lv(1) net unfolding b(3) by blast
qed

end
