(* ===== verification/Routing_Claims.thy ===== *)
theory Routing_Claims
  imports Fattree_Tables
begin

text \<open>
  The properties of the two flow table builders: with the command files, which keep the first entry for each
  destination only, every host is reached.
\<close>

subsection \<open>The depth-first search\<close>

text \<open>C5. On a network in which all hosts are joined by links, with consistent wiring, one port per host,
  different addresses and no link from a switch to itself, the default builder returns, and its
  tables, used as the command files hold them (the first entry for the destination, whatever the
  source), take a packet from the switch of any host to any other host.\<close>

theorem search_routes_all_pairs:
  assumes "fh_buildType h = ''default''" "wired h" "plain h" "all_joined h" "\<forall>s < length (m_switchNodes h). entries h s = []"
  shows "\<exists>h'. SetSwitchesFlowtableEntries rnd h = Inr h' \<and> same_net h h' \<and>
    (\<forall>a < length (m_hostNodes h). \<forall>d < length (m_hostNodes h). a \<noteq> d \<longrightarrow> routes h' (host_ip h d) d (link_switch h a))"
  by (rule default_routes [OF assms])

lemma ex_net_plain: "plain ex_net"
proof -
  have l: "length (m_switchNodes ex_net) = 2" "length (ports ex_net 0) = 2" "length (ports ex_net 1) = 2"
    by (simp_all add: ex_net_def ports_def)
  show ?thesis unfolding plain_def l all_less_2 Let_def by (simp add: ex_net_def ports_def)
qed

lemma ex_net_joined: "all_joined ex_net"
proof -
  have s: "link_switch ex_net 0 = 0" "link_switch ex_net 1 = 1" and l: "length (m_hostNodes ex_net) = 2"
    by (simp_all add: link_switch_def ex_net_def)
  have "joined ex_net 0 1" using joined.there [OF joined.here, of "\<lparr>flag = 1, nodeIndex = 1, nodePort = 0\<rparr>" ex_net 0]
    by (simp add: ex_net_def ports_def)
  moreover have "joined ex_net 1 0" using joined.there [OF joined.here, of "\<lparr>flag = 1, nodeIndex = 0, nodePort = 1\<rparr>" ex_net 1]
    by (simp add: ex_net_def ports_def)
  ultimately show ?thesis unfolding all_joined_def l all_less_2 s by (simp add: joined.here)
qed

theorem search_routes_all_pairs_witness:
  "\<exists>h'. SetSwitchesFlowtableEntries (\<lambda>i. 0) ex_net = Inr h' \<and> routes h' ''10.2'' 1 0 \<and> routes h' ''10.1'' 0 1"
proof -
  have e: "\<forall>s < length (m_switchNodes ex_net). entries ex_net s = []" "fh_buildType ex_net = ''default''"
    by (simp_all add: ex_net_def entries_def nth_Cons')
  have s: "link_switch ex_net 0 = 0" "link_switch ex_net 1 = 1" "host_ip ex_net 0 = ''10.1''" "host_ip ex_net 1 = ''10.2''"
    "length (m_hostNodes ex_net) = 2"
    by (simp_all add: link_switch_def host_ip_def ex_net_def)
  obtain h' where h': "SetSwitchesFlowtableEntries (\<lambda>i. 0) ex_net = Inr h'"
    "\<forall>a < 2. \<forall>d < 2. a \<noteq> d \<longrightarrow> routes h' (host_ip ex_net d) d (link_switch ex_net a)"
    using search_routes_all_pairs [OF e(2) ex_net_wired ex_net_plain ex_net_joined e(1)] unfolding s(5) by blast
  have "routes h' (host_ip ex_net 1) 1 (link_switch ex_net 0)" "routes h' (host_ip ex_net 0) 0 (link_switch ex_net 1)"
    using h'(2) [rule_format, of 0 1] h'(2) [rule_format, of 1 0] by simp_all
  then show ?thesis using h'(1) unfolding s by blast
qed

subsection \<open>The fat tree\<close>

text \<open>C8. On a network with the levels of a fat tree of up to 1400 pods, the fat-tree builder returns, whatever
  \<open>rand()\<close> gives, and with its tables a packet for any host reaches that host from every switch of
  the network, core and aggregation switches included.\<close>

theorem fattree_routes_everywhere:
  assumes "fh_buildType h = ''fattree''" "tree_levels h K" "\<forall>s < length (m_switchNodes h). entries h s = []"
  shows "\<exists>h'. SetSwitchesFlowtableEntries rnd h = Inr h' \<and> same_net h h' \<and>
    (\<forall>s < length (m_switchNodes h). \<forall>d < length (m_hostNodes h). routes h' (host_ip h d) d s)"
  using tree_routes [OF assms(2,3)] assms(1) by (simp add: SetSwitchesFlowtableEntries_def)

text \<open>The fat tree of two pods: one core switch, and an aggregation switch, an edge switch and a host per pod.\<close>

definition ex_tree :: flow_helper where
  "ex_tree =
     \<lparr>fh_podNum = 2, fh_buildType = ''fattree'',
      m_hostNodes = [\<lparr>ipAddr = ''10.1'', linkSwitchIndex = 3, portIndex = 1\<rparr>, \<lparr>ipAddr = ''10.2'', linkSwitchIndex = 4, portIndex = 1\<rparr>],
      m_switchNodes =
        [\<lparr>flowTableEntries = [], portNode = [\<lparr>flag = 1, nodeIndex = 1, nodePort = 1\<rparr>, \<lparr>flag = 1, nodeIndex = 2, nodePort = 1\<rparr>]\<rparr>,
         \<lparr>flowTableEntries = [], portNode = [\<lparr>flag = 1, nodeIndex = 3, nodePort = 0\<rparr>, \<lparr>flag = 1, nodeIndex = 0, nodePort = 0\<rparr>]\<rparr>,
         \<lparr>flowTableEntries = [], portNode = [\<lparr>flag = 1, nodeIndex = 4, nodePort = 0\<rparr>, \<lparr>flag = 1, nodeIndex = 0, nodePort = 1\<rparr>]\<rparr>,
         \<lparr>flowTableEntries = [], portNode = [\<lparr>flag = 1, nodeIndex = 1, nodePort = 0\<rparr>, \<lparr>flag = 0, nodeIndex = 0, nodePort = 0\<rparr>]\<rparr>,
         \<lparr>flowTableEntries = [], portNode = [\<lparr>flag = 1, nodeIndex = 2, nodePort = 0\<rparr>, \<lparr>flag = 0, nodeIndex = 1, nodePort = 0\<rparr>]\<rparr>]\<rparr>"

lemma ex_tree_ports:
  "ports ex_tree 0 = [\<lparr>flag = 1, nodeIndex = 1, nodePort = 1\<rparr>, \<lparr>flag = 1, nodeIndex = 2, nodePort = 1\<rparr>]"
  "ports ex_tree 1 = [\<lparr>flag = 1, nodeIndex = 3, nodePort = 0\<rparr>, \<lparr>flag = 1, nodeIndex = 0, nodePort = 0\<rparr>]"
  "ports ex_tree 2 = [\<lparr>flag = 1, nodeIndex = 4, nodePort = 0\<rparr>, \<lparr>flag = 1, nodeIndex = 0, nodePort = 1\<rparr>]"
  "ports ex_tree 3 = [\<lparr>flag = 1, nodeIndex = 1, nodePort = 0\<rparr>, \<lparr>flag = 0, nodeIndex = 0, nodePort = 0\<rparr>]"
  "ports ex_tree 4 = [\<lparr>flag = 1, nodeIndex = 2, nodePort = 0\<rparr>, \<lparr>flag = 0, nodeIndex = 1, nodePort = 0\<rparr>]"
  "length (m_hostNodes ex_tree) = 2" "length (m_switchNodes ex_tree) = 5"
  by (simp_all add: ex_tree_def ports_def)

lemma ex_tree_levels: "tree_levels ex_tree 1"
proof -
  have on: "host_on ex_tree 3 0" "host_on ex_tree 4 1" by (simp_all add: host_on_def ex_tree_ports)
  have dn: "down ex_tree 1 0" "down ex_tree 2 1" using on by (simp_all add: down_def ex_tree_ports word_less_nat_alt del: One_nat_def)
  have e: "edge_level ex_tree 1 s" if "3 \<le> s" "s < 5" for s
  proof -
    have "s = 3 \<or> s = 4" using that by auto
    then show ?thesis by (auto simp: edge_level_def ex_tree_ports)
  qed
  have a: "aggr_level ex_tree 1 s" if "1 \<le> s" "s < 3" for s
  proof -
    have "s = 1 \<or> s = 2" using that by auto
    then show ?thesis by (auto simp: aggr_level_def ex_tree_ports simp del: One_nat_def)
  qed
  have "\<exists>pn \<in> set (ports ex_tree 0). down ex_tree (unat (nodeIndex pn)) d" if "d < 2" for d
  proof -
    have "d = 0 \<or> d = 1" using that by auto
    then show ?thesis using dn by (auto simp: ex_tree_ports simp del: One_nat_def)
  qed
  then have c: "core_level ex_tree 1 0" unfolding core_level_def ex_tree_ports(6) by (simp add: ex_tree_ports)
  have "length (ports ex_tree s) < 2 ^ 32" if "s < 5" for s
  proof -
    have "s = 0 \<or> s = 1 \<or> s = 2 \<or> s = 3 \<or> s = 4" using that by auto
    then show ?thesis by (auto simp: ex_tree_ports simp del: One_nat_def)
  qed
  then show ?thesis using e a c ex_tree_ports(6,7) by (simp add: tree_levels_def) (simp add: ex_tree_def)
qed

theorem fattree_routes_everywhere_witness:
  "\<exists>h'. SetSwitchesFlowtableEntries (\<lambda>i. 7) ex_tree = Inr h' \<and> routes h' ''10.2'' 1 3 \<and> routes h' ''10.1'' 0 2"
proof -
  have e: "\<forall>s < length (m_switchNodes ex_tree). entries ex_tree s = []" "fh_buildType ex_tree = ''fattree''"
    by (simp_all add: ex_tree_def entries_def nth_Cons')
  have s: "host_ip ex_tree 0 = ''10.1''" "host_ip ex_tree 1 = ''10.2''" by (simp_all add: host_ip_def ex_tree_def)
  obtain h' where h': "SetSwitchesFlowtableEntries (\<lambda>i. 7) ex_tree = Inr h'"
    "\<forall>s < 5. \<forall>d < 2. routes h' (host_ip ex_tree d) d s"
    using fattree_routes_everywhere [OF e(2) ex_tree_levels e(1)] unfolding ex_tree_ports(6,7) by blast
  have "routes h' (host_ip ex_tree 1) 1 3" "routes h' (host_ip ex_tree 0) 0 2" using h'(2) by simp_all
  then show ?thesis using h'(1) unfolding s by blast
qed

end
