(* ===== verification/Network_Assembly.thy ===== *)
theory Network_Assembly
  imports Flow_Routing Fattree_Topo
begin

text \<open>
  How a network is put together from a topology (\<open>helper/p4-topology-reader-helper.cc\<close> and the program
  \<open>examples/p4-topo-fattree.cc\<close>): a fat tree is generated and written, the file is read, a CSMA
  link is installed for every link that was read, the ports of the switches are described as text, and from
  these descriptions the flow tables are built. The devices that ns-3 makes for a link and the
  addresses it gives to the hosts are parameters. The applications that send packets, log output
  and tracing are left out.
\<close>

subsection \<open>The reader helper\<close>

record reader_helper =
  m_inputModel :: "reader option"
  rh_fileName :: string
  rh_fileType :: string

definition P4TopologyReaderHelper :: reader_helper where
  "P4TopologyReaderHelper = \<lparr>m_inputModel = None, rh_fileName = [], rh_fileType = []\<rparr>"

definition HelperSetFileName :: "reader_helper \<Rightarrow> string \<Rightarrow> reader_helper" where
  "HelperSetFileName p fileName = p\<lparr>rh_fileName := fileName\<rparr>"

definition HelperSetFileType :: "reader_helper \<Rightarrow> string \<Rightarrow> reader_helper" where
  "HelperSetFileType p fileType = p\<lparr>rh_fileType := fileType\<rparr>"

text \<open>\<open>nodes\<close> is the length of the simulator's node list. The result is \<open>None\<close> for a null pointer.\<close>

definition GetTopologyReader ::
  "(string \<Rightarrow> string option) \<Rightarrow> nat \<Rightarrow> reader_helper \<Rightarrow> (reader_helper, reader option) outcome" where
  "GetTopologyReader fs nodes p =
     (case m_inputModel p of
        Some r \<Rightarrow> (p, Inr (Some r))
      | None \<Rightarrow>
          (if rh_fileType p = [] then (p, Inr None)
           else if rh_fileName p = [] then (p, Inr None)
           else (case Read fs (SetFileName (P4TopologyReader nodes) (rh_fileName p)) of
                   (r, Inl e) \<Rightarrow> (p\<lparr>m_inputModel := Some r\<rparr>, Inl e)
                 | (r, Inr ok) \<Rightarrow> (p\<lparr>m_inputModel := Some r\<rparr>, Inr (if ok then Some r else None)))))"

text \<open>A reader whose file could not be read is kept, and the next call returns it.\<close>

lemma GetTopologyReader_again:
  assumes "m_inputModel p = None" "rh_fileType p \<noteq> []" "rh_fileName p \<noteq> []"
    and "Read fs (SetFileName (P4TopologyReader nodes) (rh_fileName p)) = (r, Inr False)"
  shows "\<exists>p'. GetTopologyReader fs nodes p = (p', Inr None) \<and> GetTopologyReader fs nodes' p' = (p', Inr (Some r))"
  using assms by (auto simp: GetTopologyReader_def)

subsection \<open>Switches, hosts and links\<close>

text \<open>The members \<open>linkSwitchIndex\<close> and \<open>linkSwitchPort\<close> of a host have no value until a link sets them.\<close>

record 'dev SwitchNodeC_t =
  switchDevices :: "'dev list"
  switchPortInfos :: "string list"

record 'dev HostNodeC_t =
  hostDevice :: "'dev list"
  hc_linkSwitchIndex :: "u32 option"
  hc_linkSwitchPort :: "u32 option"
  hostIpv4Str :: string

text \<open>The data rate and the delay that the CSMA helper has been given last, the links installed so far, and the
  addresses that the address helper has given since \<open>SetBase\<close>.\<close>

record 'dev assembly =
  switchNodes :: "'dev SwitchNodeC_t list"
  hostNodes :: "'dev HostNodeC_t list"
  csma_rate :: string
  csma_delay :: string
  csma_links :: nat
  ipv4_used :: nat

text \<open>\<open>csma.Install\<close>: the devices of the \<open>n\<close>-th link between two nodes, with the given rate and delay.\<close>

type_synonym 'dev csma_install = "nat \<Rightarrow> string \<Rightarrow> string \<Rightarrow> nat option \<Rightarrow> nat option \<Rightarrow> 'dev \<times> 'dev"

definition attach_switch :: "'dev assembly \<Rightarrow> u32 \<Rightarrow> 'dev \<Rightarrow> string \<Rightarrow> 'dev assembly" where
  "attach_switch a i dev info =
     (let s = switchNodes a ! unat i
      in a\<lparr>switchNodes := (switchNodes a)[unat i := s\<lparr>switchDevices := switchDevices s @ [dev], switchPortInfos := switchPortInfos s @ [info]\<rparr>]\<rparr>)"

definition attach_host :: "'dev assembly \<Rightarrow> u32 \<Rightarrow> 'dev \<Rightarrow> u32 \<Rightarrow> u32 \<Rightarrow> 'dev assembly" where
  "attach_host a i dev sw port =
     (let n = hostNodes a ! unat i
      in a\<lparr>hostNodes := (hostNodes a)[unat i := n\<lparr>hostDevice := hostDevice n @ [dev], hc_linkSwitchIndex := Some sw, hc_linkSwitchPort := Some port\<rparr>]\<rparr>)"

text \<open>\<open>switchDevices.GetN()\<close>, a \<open>uint32_t\<close>: the number of the next port.\<close>

definition next_port :: "'dev assembly \<Rightarrow> u32 \<Rightarrow> u32" where
  "next_port a i = of_nat (length (switchDevices (switchNodes a ! unat i)))"

definition switch_info :: "u32 \<Rightarrow> u32 \<Rightarrow> string" where
  "switch_info i port = ''s'' @ UintToString i @ ''_'' @ UintToString port"

definition host_info :: "u32 \<Rightarrow> string" where
  "host_info i = ''h'' @ UintToString i"

text \<open>The two devices of a link become ports. An index outside the arrays is undefined behaviour; a link between
  two hosts ends the program (\<open>abort\<close>).\<close>

definition connect_ends :: "'dev \<Rightarrow> 'dev \<Rightarrow> topo_link \<Rightarrow> 'dev assembly \<Rightarrow> stop + 'dev assembly" where
  "connect_ends dev0 dev1 l a =
     (let fromIndex = GetFromIndex l;
          toIndex = GetToIndex l;
          switchNum = of_nat (length (switchNodes a))
      in if GetFromType l = CHR ''s'' \<and> GetToType l = CHR ''s''
         then
           (if length (switchNodes a) \<le> unat fromIndex \<or> length (switchNodes a) \<le> unat toIndex then Inl Undefined
            else
              (let fromSwitchPortNumber = next_port a fromIndex;
                   toSwitchPortNumber = next_port a toIndex;
                   a = attach_switch a fromIndex dev0 (switch_info toIndex toSwitchPortNumber)
               in Inr (attach_switch a toIndex dev1 (switch_info fromIndex fromSwitchPortNumber))))
         else if GetFromType l = CHR ''s'' \<and> GetToType l = CHR ''h''
         then
           (if length (switchNodes a) \<le> unat fromIndex \<or> length (hostNodes a) \<le> unat (toIndex - switchNum) then Inl Undefined
            else
              (let fromSwitchPortNumber = next_port a fromIndex;
                   a = attach_switch a fromIndex dev0 (host_info (toIndex - switchNum))
               in Inr (attach_host a (toIndex - switchNum) dev1 fromIndex fromSwitchPortNumber)))
         else if GetFromType l = CHR ''h'' \<and> GetToType l = CHR ''s''
         then
           (if length (switchNodes a) \<le> unat toIndex \<or> length (hostNodes a) \<le> unat (fromIndex - switchNum) then Inl Undefined
            else
              (let toSwitchPortNumber = next_port a toIndex;
                   a = attach_switch a toIndex dev1 (host_info (fromIndex - switchNum))
               in Inr (attach_host a (fromIndex - switchNum) dev0 toIndex toSwitchPortNumber)))
         else Inl AssertFailure)"

definition set_channel :: "topo_link \<Rightarrow> 'dev assembly \<Rightarrow> 'dev assembly" where
  "set_channel l a =
     a\<lparr>csma_rate := snd (GetLinkAttributeFailSafe l ''DataRate'' (csma_rate a)),
       csma_delay := snd (GetLinkAttributeFailSafe l ''Delay'' (csma_delay a))\<rparr>"

text \<open>One link of the list.\<close>

definition wire_link :: "'dev csma_install \<Rightarrow> topo_link \<Rightarrow> 'dev assembly \<Rightarrow> stop + 'dev assembly" where
  "wire_link install l a =
     (let a = set_channel l a;
          (dev0, dev1) = install (csma_links a) (csma_rate a) (csma_delay a) (GetFromNode l) (GetToNode l)
      in connect_ends dev0 dev1 l (a\<lparr>csma_links := csma_links a + 1\<rparr>))"

definition empty_assembly :: "nat \<Rightarrow> nat \<Rightarrow> 'dev assembly" where
  "empty_assembly switchNum hostNum =
     \<lparr>switchNodes = replicate switchNum \<lparr>switchDevices = [], switchPortInfos = []\<rparr>,
      hostNodes = replicate hostNum \<lparr>hostDevice = [], hc_linkSwitchIndex = None, hc_linkSwitchPort = None, hostIpv4Str = []\<rparr>,
      csma_rate = ''1000Mbps'', csma_delay = ''10ns'', csma_links = 0, ipv4_used = 0\<rparr>"

text \<open>
  ns-3's \<open>Ipv4AddressHelper\<close>: after \<open>SetBase(base, mask)\<close> the addresses it gives are \<open>alloc base mask 0\<close>, \<open>alloc base mask 1\<close>
  and so on. \<open>None\<close> stands for an address past the last one of the network, where the helper's assertion ends the program (as
  everywhere here, in a build that has assertions).
\<close>

type_synonym address_helper = "string \<Rightarrow> string \<Rightarrow> nat \<Rightarrow> u32 option"

text \<open>The addresses that the program asks for.\<close>

definition pool :: "address_helper \<Rightarrow> nat \<Rightarrow> u32 option" where
  "pool alloc = alloc ''10.1.0.0'' ''255.255.255.0''"

definition set_base :: "'dev assembly \<Rightarrow> 'dev assembly" where
  "set_base a = a\<lparr>ipv4_used := 0\<rparr>"

text \<open>
  \<open>ipv4.Assign\<close> gives every device of the host an address; the first is kept as text. A host without a device has no
  address to read.
\<close>

definition assign_address :: "address_helper \<Rightarrow> nat \<Rightarrow> 'dev assembly \<Rightarrow> stop + 'dev assembly" where
  "assign_address alloc i a =
     (let n = hostNodes a ! i;
          addrs = map (pool alloc) [ipv4_used a..<ipv4_used a + length (hostDevice n)]
      in if None \<in> set addrs then Inl AssertFailure
         else case addrs of
                [] \<Rightarrow> Inl Undefined
              | x # _ \<Rightarrow>
                  Inr (a\<lparr>hostNodes := (hostNodes a)[i := n\<lparr>hostIpv4Str := Uint32IpToHex (the x)\<rparr>], ipv4_used := ipv4_used a + length addrs\<rparr>))"

text \<open>The lists that are passed to \<open>Build\<close>.\<close>

definition build_tables :: "(nat \<Rightarrow> u32) \<Rightarrow> u32 \<Rightarrow> 'dev assembly \<Rightarrow> stop + flow_helper" where
  "build_tables rnd podNum a =
     (if \<exists>n \<in> set (hostNodes a). hc_linkSwitchIndex n = None \<or> hc_linkSwitchPort n = None then Inl Undefined
      else BuildFlowTables rnd (BuildFlowtableHelper ''fattree'' podNum)
             (map (\<lambda>n. the (hc_linkSwitchIndex n)) (hostNodes a)) (map (\<lambda>n. the (hc_linkSwitchPort n)) (hostNodes a))
             (map hostIpv4Str (hostNodes a)) (map switchPortInfos (switchNodes a)))"

definition assemble :: "'dev csma_install \<Rightarrow> address_helper \<Rightarrow> reader \<Rightarrow> stop + 'dev assembly" where
  "assemble install alloc r =
     (let switchNum = length (GetSwitchNodeContainer r);
          hostNum = length (GetHostNodeContainer r)
      in case for_each (m_linksList r) (wire_link install) (empty_assembly switchNum hostNum) of
           Inl e \<Rightarrow> Inl e
         | Inr a \<Rightarrow> for_each [0..<hostNum] (assign_address alloc) (set_base a))"

subsection \<open>The descriptions of the ports\<close>

lemma StrToUint_dec: "StrToUint (dec n) = of_nat n"
proof (induction n rule: dec.induct)
  case (1 n)
  have d: "of_int (char_value (digit_char k)) = (of_nat (48 + k) :: u32)" if "k < 10" for k
    using that by (simp add: char_value_def code_digit)
  show ?case
  proof (cases "n < 10")
    case True
    then show ?thesis using d [of n] by (simp add: dec.simps [of n] StrToUint_def)
  next
    case False
    have "StrToUint (dec n) = StrToUint (dec (n div 10)) * 10 + of_int (char_value (digit_char (n mod 10))) - 48"
      using False by (subst dec.simps) (simp add: StrToUint_def)
    also have "\<dots> = of_nat (n div 10) * of_nat 10 + of_nat (n mod 10)" using 1 [OF False] d [of "n mod 10"] by simp
    also have "\<dots> = of_nat (n div 10 * 10 + n mod 10)" by (simp only: of_nat_add of_nat_mult)
    finally show ?thesis by (simp only: div_mult_mod_eq)
  qed
qed

lemma dec_length: "n < 10 ^ Suc k \<Longrightarrow> length (dec n) \<le> Suc k"
proof (induction k arbitrary: n)
  case 0
  then show ?case by (simp add: dec.simps [of n])
next
  case (Suc k)
  then have "n div 10 < 10 ^ Suc k" by (simp add: less_mult_imp_div_less)
  then show ?case using Suc.IH [of "n div 10"] by (subst dec.simps) simp
qed

lemma dec_short: "length (dec (unat i)) \<le> 10" for i :: u32
proof -
  have "unat i < 2 ^ 32" by (rule order_less_le_trans [OF unsigned_less]) simp
  then show ?thesis using dec_length [of "unat i" 9] by simp
qed

lemma parse_host_info: "parse_port (host_info i) = Inr \<lparr>flag = 0, nodeIndex = i, nodePort = 0\<rparr>"
  by (simp add: parse_port_def host_info_def substr_def UintToString_def StrToUint_dec)

lemma parse_switch_info: "parse_port (switch_info i p) = Inr \<lparr>flag = 1, nodeIndex = i, nodePort = p\<rparr>"
proof -
  let ?d = "dec (unat i)" and ?e = "dec (unat p)"
  have u: "c \<noteq> CHR ''_''" if "c \<in> set ?d" for c using dec_digits [OF that] by (auto simp: isdigit_def code_def)
  have t: "takeWhile (\<lambda>c. c \<noteq> CHR ''_'') (CHR ''s'' # ?d @ CHR ''_'' # ?e) = CHR ''s'' # ?d"
    using takeWhile_append2 [of ?d "\<lambda>c. c \<noteq> CHR ''_''" "CHR ''_'' # ?e"] u by simp
  have f: "find_underscore (CHR ''s'' # ?d @ CHR ''_'' # ?e) = of_nat (Suc (length ?d))"
    unfolding find_underscore_def Let_def t by simp
  have n: "unat (of_nat (Suc (length ?d)) - 1 :: u32) = length ?d" "unat (of_nat (Suc (length ?d)) + 1 :: u32) = Suc (Suc (length ?d))"
    using dec_short [of i] unat_u32 [of "length ?d"] unat_u32 [of "Suc (Suc (length ?d))"] by (simp_all add: add.commute)
  show ?thesis
    unfolding parse_port_def switch_info_def UintToString_def
    using f n by (simp add: Let_def substr_def StrToUint_dec del: of_nat_Suc)
qed

text \<open>What a description stands for.\<close>

definition meaning :: "string \<Rightarrow> NodeFlagIndex_t" where
  "meaning x = (case parse_port x of Inl e \<Rightarrow> \<lparr>flag = 0, nodeIndex = 0, nodePort = 0\<rparr> | Inr pn \<Rightarrow> pn)"

definition understood :: "string \<Rightarrow> bool" where
  "understood x \<longleftrightarrow> parse_port x = Inr (meaning x)"

lemma info_meaning [simp]:
  "meaning (host_info i) = \<lparr>flag = 0, nodeIndex = i, nodePort = 0\<rparr>" "understood (host_info i)"
  "meaning (switch_info i p) = \<lparr>flag = 1, nodeIndex = i, nodePort = p\<rparr>" "understood (switch_info i p)"
  by (simp_all add: meaning_def understood_def parse_host_info parse_switch_info)

lemma SwitchNode_understood:
  assumes "\<forall>x \<in> set pn. understood x"
  shows "SwitchNode pn = Inr \<lparr>flowTableEntries = [], portNode = map meaning pn\<rparr>"
proof -
  have "for_each pn (\<lambda>s sw. case parse_port s of Inl e \<Rightarrow> Inl e | Inr x \<Rightarrow> Inr (sw\<lparr>portNode := portNode sw @ [x]\<rparr>)) sw =
      Inr (sw\<lparr>portNode := portNode sw @ map meaning pn\<rparr>)" for sw :: SwitchNode_t
    using assms
  proof (induction pn arbitrary: sw)
    case (Cons x pn)
    then have "parse_port x = Inr (meaning x)" by (simp add: understood_def)
    with Cons show ?case by simp
  qed simp
  then show ?thesis by (simp add: SwitchNode_def)
qed

subsection \<open>Installing the links\<close>

definition infos :: "'dev assembly \<Rightarrow> nat \<Rightarrow> string list" where
  "infos a s = switchPortInfos (switchNodes a ! s)"

definition target :: "string \<Rightarrow> int \<times> u32" where
  "target x = (flag (meaning x), nodeIndex (meaning x))"

text \<open>A link from a switch to a switch or a host, of \<open>n\<close> switches and \<open>m\<close> hosts.\<close>

definition link_good :: "nat \<Rightarrow> nat \<Rightarrow> topo_link \<Rightarrow> bool" where
  "link_good n m l \<longleftrightarrow>
     GetFromType l = CHR ''s'' \<and> unat (GetFromIndex l) < n \<and>
     (GetToType l = CHR ''s'' \<and> unat (GetToIndex l) < n \<or>
      GetToType l = CHR ''h'' \<and> n \<le> unat (GetToIndex l) \<and> unat (GetToIndex l) < n + m)"

text \<open>What the link adds to the ports of switch \<open>s\<close>.\<close>

definition targets :: "nat \<Rightarrow> topo_link \<Rightarrow> nat \<Rightarrow> (int \<times> u32) list" where
  "targets n l s =
     (if GetToType l = CHR ''s''
      then (if unat (GetFromIndex l) = s then [(1, GetToIndex l)] else []) @ (if unat (GetToIndex l) = s then [(1, GetFromIndex l)] else [])
      else (if unat (GetFromIndex l) = s then [(0, GetToIndex l - of_nat n)] else []))"

definition host_attached :: "'dev assembly \<Rightarrow> nat \<Rightarrow> bool" where
  "host_attached a j \<longleftrightarrow> hostDevice (hostNodes a ! j) \<noteq> [] \<and> hc_linkSwitchIndex (hostNodes a ! j) \<noteq> None \<and> hc_linkSwitchPort (hostNodes a ! j) \<noteq> None"

text \<open>The links to host \<open>j\<close>.\<close>

definition host_links :: "nat \<Rightarrow> topo_link list \<Rightarrow> nat \<Rightarrow> nat" where
  "host_links n ls j = length (filter (\<lambda>l. GetToType l = CHR ''h'' \<and> unat (GetToIndex l) = n + j) ls)"

lemma host_links_simps [simp]:
  "host_links n [] j = 0" "host_links n (ls @ ls') j = host_links n ls j + host_links n ls' j"
  "0 < host_links n ls j \<longleftrightarrow> (\<exists>l \<in> set ls. GetToType l = CHR ''h'' \<and> unat (GetToIndex l) = n + j)"
  by (auto simp: host_links_def filter_empty_conv)

definition wired_up :: "nat \<Rightarrow> nat \<Rightarrow> topo_link list \<Rightarrow> 'dev assembly \<Rightarrow> bool" where
  "wired_up n m ls a \<longleftrightarrow>
     length (switchNodes a) = n \<and> length (hostNodes a) = m \<and>
     (\<forall>s < n. (\<forall>x \<in> set (infos a s). understood x) \<and> map target (infos a s) = concat (map (\<lambda>l. targets n l s) ls)) \<and>
     (\<forall>j < m. length (hostDevice (hostNodes a ! j)) = host_links n ls j \<and> (0 < host_links n ls j \<longrightarrow> host_attached a j))"

lemma attach_switch_simps:
  assumes "unat i < length (switchNodes a)"
  shows "length (switchNodes (attach_switch a i dev x)) = length (switchNodes a)" "hostNodes (attach_switch a i dev x) = hostNodes a"
    "infos (attach_switch a i dev x) s = (if s = unat i then infos a s @ [x] else infos a s)"
  using assms by (simp_all add: attach_switch_def infos_def Let_def)

lemma attach_host_simps:
  assumes "unat i < length (hostNodes a)"
  shows "length (hostNodes (attach_host a i dev sw p)) = length (hostNodes a)" "switchNodes (attach_host a i dev sw p) = switchNodes a"
    "infos (attach_host a i dev sw p) = infos a" "host_attached (attach_host a i dev sw p) j \<longleftrightarrow> j = unat i \<or> host_attached a j"
proof -
  show "length (hostNodes (attach_host a i dev sw p)) = length (hostNodes a)" "switchNodes (attach_host a i dev sw p) = switchNodes a"
    "infos (attach_host a i dev sw p) = infos a"
    by (simp_all add: attach_host_def infos_def [abs_def] Let_def)
  show "host_attached (attach_host a i dev sw p) j \<longleftrightarrow> j = unat i \<or> host_attached a j"
    using assms by (cases "j = unat i") (simp_all add: attach_host_def host_attached_def Let_def)
qed

lemma attach_host_count:
  "unat i < length (hostNodes a) \<Longrightarrow>
   length (hostDevice (hostNodes (attach_host a i dev sw p) ! j)) = length (hostDevice (hostNodes a ! j)) + (if j = unat i then 1 else 0)"
  by (cases "j = unat i") (simp_all add: attach_host_def Let_def)

lemma target_info [simp]: "target (host_info i) = (0, i)" "target (switch_info i p) = (1, i)"
  by (simp_all add: target_def)

lemma connect_ends_ok:
  assumes W: "wired_up n m ls a" and G: "link_good n m l" and b: "n + m < 2 ^ 31"
  shows "\<exists>a'. connect_ends d0 d1 l a = Inr a' \<and> wired_up n m (ls @ [l]) a'"
proof -
  have L: "length (switchNodes a) = n" "length (hostNodes a) = m" using W by (simp_all add: wired_up_def)
  let ?f = "GetFromIndex l" and ?t = "GetToIndex l"
  have f: "unat ?f < n" "GetFromType l = CHR ''s''" using G by (simp_all add: link_good_def)
  consider "GetToType l = CHR ''s''" "unat ?t < n" | "GetToType l = CHR ''h''" "n \<le> unat ?t" "unat ?t < n + m"
    using G by (auto simp: link_good_def)
  then show ?thesis
  proof cases
    case 1
    define a2 where "a2 = attach_switch a ?f d0 (switch_info ?t (next_port a ?t))"
    define a3 where "a3 = attach_switch a2 ?t d1 (switch_info ?f (next_port a ?f))"
    have s2: "length (switchNodes a2) = n" "hostNodes a2 = hostNodes a"
      "infos a2 s = (if s = unat ?f then infos a s @ [switch_info ?t (next_port a ?t)] else infos a s)" for s
      unfolding a2_def using f L by (simp_all add: attach_switch_simps)
    have s3: "length (switchNodes a3) = n" "hostNodes a3 = hostNodes a"
      "infos a3 s = (if s = unat ?t then infos a2 s @ [switch_info ?f (next_port a ?f)] else infos a2 s)" for s
      unfolding a3_def using 1 s2 by (simp_all add: attach_switch_simps)
    have "connect_ends d0 d1 l a = Inr a3"
      using f 1 L by (simp add: connect_ends_def Let_def a2_def a3_def)
    moreover have "wired_up n m (ls @ [l]) a3"
      using W s2 s3 1 by (auto simp: wired_up_def targets_def host_attached_def host_links_def)
    ultimately show ?thesis by blast
  next
    case 2
    have u: "unat (?t - of_nat n) = unat ?t - n"
      using 2 b unat_sub [of "of_nat n" ?t] unat_u32 [of n] by (simp add: word_le_nat_alt)
    define a2 where "a2 = attach_switch a ?f d0 (host_info (?t - of_nat n))"
    define a3 where "a3 = attach_host a2 (?t - of_nat n) d1 ?f (next_port a ?f)"
    have s2: "length (switchNodes a2) = n" "hostNodes a2 = hostNodes a"
      "infos a2 s = (if s = unat ?f then infos a s @ [host_info (?t - of_nat n)] else infos a s)" for s
      unfolding a2_def using f L by (simp_all add: attach_switch_simps)
    have ha: "host_attached a2 = host_attached a" using s2(2) by (simp add: host_attached_def [abs_def])
    have s3: "length (hostNodes a3) = m" "switchNodes a3 = switchNodes a2" "infos a3 = infos a2"
      "host_attached a3 j \<longleftrightarrow> j = unat ?t - n \<or> host_attached a j"
      "length (hostDevice (hostNodes a3 ! j)) = length (hostDevice (hostNodes a ! j)) + (if j = unat ?t - n then 1 else 0)" for j
      unfolding a3_def using 2 s2 u L by (simp_all add: attach_host_simps attach_host_count ha)
    have "connect_ends d0 d1 l a = Inr a3"
      using f 2 L u by (simp add: connect_ends_def Let_def a2_def a3_def)
    moreover have "wired_up n m (ls @ [l]) a3"
      using W s2 s3 2 by (auto simp: wired_up_def targets_def host_links_def)
    ultimately show ?thesis by blast
  qed
qed

lemma wire_link_ok:
  assumes "wired_up n m ls a" "link_good n m l" "n + m < 2 ^ 31"
  shows "\<exists>a'. wire_link install l a = Inr a' \<and> wired_up n m (ls @ [l]) a'"
proof -
  let ?a = "set_channel l a"
  obtain d0 d1 where d: "install (csma_links ?a) (csma_rate ?a) (csma_delay ?a) (GetFromNode l) (GetToNode l) = (d0, d1)" by fastforce
  have "wired_up n m ls (?a\<lparr>csma_links := csma_links ?a + 1\<rparr>)"
    using assms(1) by (simp add: wired_up_def set_channel_def infos_def host_attached_def)
  from connect_ends_ok [OF this assms(2,3), of d0 d1] show ?thesis unfolding wire_link_def Let_def d by simp
qed

lemma wire_links_ok:
  assumes "\<forall>l \<in> set ls. link_good n m l" "n + m < 2 ^ 31"
  shows "\<exists>a. for_each ls (wire_link install) (empty_assembly n m) = Inr a \<and> wired_up n m ls a"
  using assms(1)
proof (induction ls rule: rev_induct)
  case Nil
  show ?case by (simp add: wired_up_def empty_assembly_def infos_def)
next
  case (snoc l ls)
  then obtain a where "for_each ls (wire_link install) (empty_assembly n m) = Inr a" "wired_up n m ls a" by auto
  moreover obtain a' where "wire_link install l a = Inr a'" "wired_up n m (ls @ [l]) a'"
    using wire_link_ok [OF calculation(2) _ assms(2), of l install] snoc.prems by auto
  ultimately show ?case by (simp add: for_each_append)
qed

text \<open>The addresses.\<close>

lemma assign_address_eq:
  "assign_address alloc i a =
     (if \<exists>x \<in> {ipv4_used a..<ipv4_used a + length (hostDevice (hostNodes a ! i))}. pool alloc x = None then Inl AssertFailure
      else if hostDevice (hostNodes a ! i) = [] then Inl Undefined
      else Inr (a\<lparr>hostNodes := (hostNodes a)[i := (hostNodes a ! i)\<lparr>hostIpv4Str := Uint32IpToHex (the (pool alloc (ipv4_used a)))\<rparr>],
                  ipv4_used := ipv4_used a + length (hostDevice (hostNodes a ! i))\<rparr>))"
proof (cases "hostDevice (hostNodes a ! i) = []")
  case False
  define addrs where "addrs = map (pool alloc) [ipv4_used a..<ipv4_used a + length (hostDevice (hostNodes a ! i))]"
  have l: "length addrs = length (hostDevice (hostNodes a ! i))" by (simp add: addrs_def)
  have "addrs ! 0 = pool alloc (ipv4_used a)" using False by (simp add: addrs_def)
  then obtain xs where xs: "addrs = pool alloc (ipv4_used a) # xs" using False l by (cases addrs) auto
  have "None \<in> set addrs \<longleftrightarrow> (\<exists>x \<in> {ipv4_used a..<ipv4_used a + length (hostDevice (hostNodes a ! i))}. pool alloc x = None)"
    unfolding addrs_def set_map set_upt by (auto intro: sym dest: sym)
  then show ?thesis unfolding assign_address_def Let_def addrs_def [symmetric] using False l xs by simp
qed (simp add: assign_address_def)

lemma assigned_same:
  "for_each [0..<k] (assign_address alloc) a = Inr b \<Longrightarrow>
   switchNodes b = switchNodes a \<and> length (hostNodes b) = length (hostNodes a) \<and> csma_links b = csma_links a \<and>
   (\<forall>j < length (hostNodes a). hostDevice (hostNodes b ! j) = hostDevice (hostNodes a ! j) \<and>
      hc_linkSwitchIndex (hostNodes b ! j) = hc_linkSwitchIndex (hostNodes a ! j) \<and> hc_linkSwitchPort (hostNodes b ! j) = hc_linkSwitchPort (hostNodes a ! j))"
proof (induction k arbitrary: b)
  case (Suc k)
  obtain c where c: "for_each [0..<k] (assign_address alloc) a = Inr c" "assign_address alloc k c = Inr b"
    using Suc.prems by (simp add: for_each_append split: sum.splits)
  have b: "b = c\<lparr>hostNodes := (hostNodes c)[k := (hostNodes c ! k)\<lparr>hostIpv4Str := Uint32IpToHex (the (pool alloc (ipv4_used c)))\<rparr>],
      ipv4_used := ipv4_used c + length (hostDevice (hostNodes c ! k))\<rparr>"
    using c(2) by (simp add: assign_address_eq split: if_splits)
  have "hostDevice (hostNodes b ! j) = hostDevice (hostNodes c ! j) \<and>
      hc_linkSwitchIndex (hostNodes b ! j) = hc_linkSwitchIndex (hostNodes c ! j) \<and> hc_linkSwitchPort (hostNodes b ! j) = hc_linkSwitchPort (hostNodes c ! j)"
    if "j < length (hostNodes c)" for j
    using that by (cases "j = k") (simp_all add: b)
  moreover have "switchNodes b = switchNodes c" "length (hostNodes b) = length (hostNodes c)" "csma_links b = csma_links c" by (simp_all add: b)
  ultimately show ?case using Suc.IH [OF c(1)] by simp
qed simp

text \<open>The number of the first address of host \<open>j\<close>: the devices of the hosts before it.\<close>

definition address_index :: "'dev assembly \<Rightarrow> nat \<Rightarrow> nat" where
  "address_index a j = (\<Sum>i < j. length (hostDevice (hostNodes a ! i)))"

lemma address_index_Suc [simp]:
  "address_index a 0 = 0" "address_index a (Suc j) = address_index a j + length (hostDevice (hostNodes a ! j))"
  by (simp_all add: address_index_def)

lemma address_index_mono: "i \<le> j \<Longrightarrow> address_index a i \<le> address_index a j"
  unfolding address_index_def by (rule sum_mono2) auto

lemma assign_addresses_ok:
  assumes "\<forall>j < m. hostDevice (hostNodes a ! j) \<noteq> []" "length (hostNodes a) = m" "k \<le> m" "ipv4_used a = 0"
    and "\<forall>x < address_index a k. pool alloc x \<noteq> None"
  shows "\<exists>b. for_each [0..<k] (assign_address alloc) a = Inr b \<and> ipv4_used b = address_index a k \<and>
    (\<forall>j < k. hostIpv4Str (hostNodes b ! j) = Uint32IpToHex (the (pool alloc (address_index a j))))"
  using assms(3,5)
proof (induction k)
  case 0
  then show ?case using assms by simp
next
  case (Suc k)
  have "\<forall>x < address_index a k. pool alloc x \<noteq> None" using Suc.prems(2) by simp
  then obtain b where b: "for_each [0..<k] (assign_address alloc) a = Inr b" "ipv4_used b = address_index a k"
    "\<forall>j < k. hostIpv4Str (hostNodes b ! j) = Uint32IpToHex (the (pool alloc (address_index a j)))"
    using Suc.IH Suc.prems(1) by auto
  note S = assigned_same [OF b(1)]
  then have d: "hostDevice (hostNodes b ! k) = hostDevice (hostNodes a ! k)" "length (hostNodes b) = m" using Suc.prems(1) assms(2) by simp_all
  define c where "c = b\<lparr>hostNodes := (hostNodes b)[k := (hostNodes b ! k)\<lparr>hostIpv4Str := Uint32IpToHex (the (pool alloc (ipv4_used b)))\<rparr>],
      ipv4_used := ipv4_used b + length (hostDevice (hostNodes b ! k))\<rparr>"
  have "\<not> (\<exists>x \<in> {ipv4_used b..<ipv4_used b + length (hostDevice (hostNodes b ! k))}. pool alloc x = None)"
    using Suc.prems(2) b(2) d(1) by auto
  moreover have "hostDevice (hostNodes b ! k) \<noteq> []" using assms(1) d(1) Suc.prems(1) by simp
  ultimately have "assign_address alloc k b = Inr c" unfolding assign_address_eq c_def by (simp only: if_False)
  then have "for_each [0..<Suc k] (assign_address alloc) a = Inr c" using b(1) by (simp add: for_each_append)
  moreover have "hostIpv4Str (hostNodes c ! j) = (if j = k then Uint32IpToHex (the (pool alloc (address_index a k))) else hostIpv4Str (hostNodes b ! j))" for j
    using d(2) Suc.prems(1) b(2) by (simp add: c_def)
  moreover have "ipv4_used c = address_index a (Suc k)" using b(2) d(1) by (simp add: c_def)
  ultimately show ?case using b(3) by (auto simp: less_Suc_eq)
qed

text \<open>When the addresses run out at a host, the program ends.\<close>

lemma addresses_run_out:
  assumes "\<forall>j < m. hostDevice (hostNodes a ! j) \<noteq> []" "length (hostNodes a) = m" "k < m" "ipv4_used a = 0"
    and "\<forall>x < address_index a k. pool alloc x \<noteq> None" "pool alloc (address_index a k) = None"
  shows "for_each [0..<m] (assign_address alloc) a = Inl AssertFailure"
proof -
  obtain b where b: "for_each [0..<k] (assign_address alloc) a = Inr b" "ipv4_used b = address_index a k"
    using assign_addresses_ok [OF assms(1,2) _ assms(4,5)] assms(3) by auto
  have "hostDevice (hostNodes b ! k) \<noteq> []" using assigned_same [OF b(1)] assms(1-3) by simp
  then have "assign_address alloc k b = Inl AssertFailure" using assms(6) b(2) by (auto simp: assign_address_eq)
  moreover have "[0..<m] = [0..<k] @ k # [Suc k..<m]" using assms(3) upt_add_eq_append [of 0 k "m - k"] upt_conv_Cons [of k m] by simp
  ultimately show ?thesis using b(1) by (simp add: for_each_append)
qed

lemma set_base_same [simp]:
  "switchNodes (set_base a) = switchNodes a" "hostNodes (set_base a) = hostNodes a" "csma_links (set_base a) = csma_links a"
  "ipv4_used (set_base a) = 0" "address_index (set_base a) = address_index a"
  by (simp_all add: set_base_def address_index_def [abs_def])

text \<open>Host \<open>j\<close> has the address that comes after those of the hosts before it.\<close>

lemma assigned_ok:
  assumes "wired_up n m ls a" "\<forall>j < m. host_attached a j" "\<forall>x < address_index a m. pool alloc x \<noteq> None"
  shows "\<exists>b. for_each [0..<m] (assign_address alloc) (set_base a) = Inr b \<and> switchNodes b = switchNodes a \<and> length (hostNodes b) = m \<and>
    (\<forall>j < m. host_attached b j) \<and> (\<forall>j < m. hostIpv4Str (hostNodes b ! j) = Uint32IpToHex (the (pool alloc (address_index a j)))) \<and>
    wired_up n m ls b"
proof -
  have m: "length (hostNodes a) = m" using assms(1) by (simp add: wired_up_def)
  obtain b where b: "for_each [0..<m] (assign_address alloc) (set_base a) = Inr b"
    "\<forall>j < m. hostIpv4Str (hostNodes b ! j) = Uint32IpToHex (the (pool alloc (address_index a j)))"
    using assign_addresses_ok [of m "set_base a" m alloc] assms(2,3) m by (auto simp: host_attached_def)
  note S = assigned_same [OF b(1)]
  have H: "\<forall>j < m. host_attached b j" using S assms(2) m by (simp add: host_attached_def)
  moreover have "wired_up n m ls b" using S assms(1) m H by (simp add: wired_up_def infos_def)
  ultimately show ?thesis using b S m by simp
qed

subsection \<open>The builder's input\<close>

definition assembled :: "u32 \<Rightarrow> 'dev assembly \<Rightarrow> flow_helper" where
  "assembled podNum a =
     \<lparr>fh_podNum = podNum, fh_buildType = ''fattree'',
      m_hostNodes = map (\<lambda>n. \<lparr>ipAddr = hostIpv4Str n, linkSwitchIndex = the (hc_linkSwitchIndex n), portIndex = the (hc_linkSwitchPort n)\<rparr>) (hostNodes a),
      m_switchNodes = map (\<lambda>s. \<lparr>flowTableEntries = [], portNode = map meaning (switchPortInfos s)\<rparr>) (switchNodes a)\<rparr>"

lemma build_tables_assembled:
  assumes "\<forall>s \<in> set (switchNodes a). \<forall>x \<in> set (switchPortInfos s). understood x"
    and "\<forall>n \<in> set (hostNodes a). hc_linkSwitchIndex n \<noteq> None \<and> hc_linkSwitchPort n \<noteq> None"
  shows "build_tables rnd podNum a = SetSwitchesFlowtableEntries rnd (assembled podNum a)"
proof -
  have loop: "for_each (map switchPortInfos ss) (\<lambda>pn h. case SwitchNode pn of Inl e \<Rightarrow> Inl e | Inr s \<Rightarrow> Inr (h\<lparr>m_switchNodes := m_switchNodes h @ [s]\<rparr>)) h =
      Inr (h\<lparr>m_switchNodes := m_switchNodes h @ map (\<lambda>s. \<lparr>flowTableEntries = [], portNode = map meaning (switchPortInfos s)\<rparr>) ss\<rparr>)"
    if "\<forall>s \<in> set ss. \<forall>x \<in> set (switchPortInfos s). understood x" for ss :: "'a SwitchNodeC_t list" and h
    using that by (induction ss arbitrary: h) (simp_all add: SwitchNode_understood)
  let ?hs = "map (\<lambda>n. \<lparr>ipAddr = hostIpv4Str n, linkSwitchIndex = the (hc_linkSwitchIndex n), portIndex = the (hc_linkSwitchPort n)\<rparr>) (hostNodes a)"
  have hs: "map (\<lambda>i. \<lparr>ipAddr = map hostIpv4Str (hostNodes a) ! i, linkSwitchIndex = map (\<lambda>n. the (hc_linkSwitchIndex n)) (hostNodes a) ! i,
      portIndex = map (\<lambda>n. the (hc_linkSwitchPort n)) (hostNodes a) ! i\<rparr>) [0..<length (hostNodes a)] = ?hs"
    by (rule nth_equalityI) simp_all
  have "build_tables rnd podNum a = BuildFlowTables rnd (BuildFlowtableHelper ''fattree'' podNum)
             (map (\<lambda>n. the (hc_linkSwitchIndex n)) (hostNodes a)) (map (\<lambda>n. the (hc_linkSwitchPort n)) (hostNodes a))
             (map hostIpv4Str (hostNodes a)) (map switchPortInfos (switchNodes a))"
    using assms(2) by (auto simp: build_tables_def)
  also have "\<dots> = SetSwitchesFlowtableEntries rnd (assembled podNum a)"
    unfolding BuildFlowTables_def length_map hs loop [OF assms(1)] Let_def
    by (simp add: loop [OF assms(1)] BuildFlowtableHelper_def assembled_def)
  finally show ?thesis .
qed

lemma assembled_ports:
  assumes "s < length (switchNodes a)"
  shows "map (\<lambda>pn. (flag pn, nodeIndex pn)) (ports (assembled podNum a) s) = map target (infos a s)"
  using assms by (simp add: assembled_def ports_def infos_def target_def)

lemma wire_links_from:
  assumes "\<forall>l \<in> set ls. link_good n m l" "n + m < 2 ^ 31" "wired_up n m ls0 a0"
  shows "\<exists>a. for_each ls (wire_link install) a0 = Inr a \<and> wired_up n m (ls0 @ ls) a"
  using assms(1)
proof (induction ls rule: rev_induct)
  case Nil
  show ?case using assms(3) by simp
next
  case (snoc l ls)
  then obtain a where "for_each ls (wire_link install) a0 = Inr a" "wired_up n m (ls0 @ ls) a" by auto
  moreover obtain a' where "wire_link install l a = Inr a'" "wired_up n m ((ls0 @ ls) @ [l]) a'"
    using wire_link_ok [OF calculation(2) _ assms(2), of l install] snoc.prems by auto
  ultimately show ?case by (simp add: for_each_append)
qed

text \<open>The ends of a link decide what it adds.\<close>

definition link_key :: "topo_link \<Rightarrow> u32 \<times> char \<times> u32 \<times> char" where
  "link_key l = (GetFromIndex l, GetFromType l, GetToIndex l, GetToType l)"

lemma read_keys:
  assumes "map link_fields is = ks" "list_all2 link_matches ls is"
  shows "map link_key ls = map (\<lambda>(a, b, c, d, _). (a, b, c, d)) ks"
  unfolding assms(1) [symmetric] using assms(2) by (induction rule: list_all2_induct) (auto simp: link_matches_def link_key_def link_fields_def)

definition key_good :: "nat \<Rightarrow> nat \<Rightarrow> u32 \<times> char \<times> u32 \<times> char \<Rightarrow> bool" where
  "key_good n m k = (case k of (f, ft, t, ty) \<Rightarrow>
     ft = CHR ''s'' \<and> unat f < n \<and> (ty = CHR ''s'' \<and> unat t < n \<or> ty = CHR ''h'' \<and> n \<le> unat t \<and> unat t < n + m))"

definition key_targets :: "nat \<Rightarrow> u32 \<times> char \<times> u32 \<times> char \<Rightarrow> nat \<Rightarrow> (int \<times> u32) list" where
  "key_targets n k s = (case k of (f, ft, t, ty) \<Rightarrow>
     if ty = CHR ''s'' then (if unat f = s then [(1, t)] else []) @ (if unat t = s then [(1, f)] else [])
     else (if unat f = s then [(0, t - of_nat n)] else []))"

lemma key_simps: "link_good n m l = key_good n m (link_key l)" "targets n l s = key_targets n (link_key l) s"
  by (simp_all add: link_good_def key_good_def targets_def key_targets_def link_key_def)

subsection \<open>The descriptions are true\<close>

text \<open>Two devices are the ends of one link.\<close>

definition one_link :: "'dev csma_install \<Rightarrow> 'dev \<Rightarrow> 'dev \<Rightarrow> bool" where
  "one_link install d d' \<longleftrightarrow> (\<exists>k rate del from to. install k rate del from to = (d, d') \<or> install k rate del from to = (d', d))"

definition dev_at :: "'dev assembly \<Rightarrow> nat \<Rightarrow> nat \<Rightarrow> 'dev" where
  "dev_at a s p = switchDevices (switchNodes a ! s) ! p"

text \<open>
  Port \<open>p\<close> of switch \<open>s\<close>. Described as a host, it is linked to a device of this host. Described as a
  port of a switch, it is linked to the device of this port, which is described as \<open>p\<close> of \<open>s\<close>.
\<close>

definition port_true :: "'dev csma_install \<Rightarrow> 'dev assembly \<Rightarrow> nat \<Rightarrow> nat \<Rightarrow> bool" where
  "port_true install a s p \<longleftrightarrow>
     (let x = meaning (infos a s ! p); t = unat (nodeIndex x); q = unat (nodePort x)
      in if flag x = 0 then t < length (hostNodes a) \<and> (\<exists>d \<in> set (hostDevice (hostNodes a ! t)). one_link install (dev_at a s p) d)
         else flag x = 1 \<and> t < length (switchNodes a) \<and> q < length (infos a t) \<and>
           meaning (infos a t ! q) = \<lparr>flag = 1, nodeIndex = of_nat s, nodePort = of_nat p\<rparr> \<and>
           one_link install (dev_at a s p) (dev_at a t q))"

definition host_true :: "'dev assembly \<Rightarrow> nat \<Rightarrow> bool" where
  "host_true a j \<longleftrightarrow>
     (case (hc_linkSwitchIndex (hostNodes a ! j), hc_linkSwitchPort (hostNodes a ! j)) of
        (Some s, Some p) \<Rightarrow> unat s < length (switchNodes a) \<and> unat p < length (infos a (unat s)) \<and>
          meaning (infos a (unat s) ! unat p) = \<lparr>flag = 0, nodeIndex = of_nat j, nodePort = 0\<rparr>
      | _ \<Rightarrow> True)"

definition cabled :: "'dev csma_install \<Rightarrow> nat \<Rightarrow> 'dev assembly \<Rightarrow> bool" where
  "cabled install b a \<longleftrightarrow>
     (\<forall>s < length (switchNodes a). length (switchDevices (switchNodes a ! s)) = length (infos a s) \<and> length (infos a s) \<le> b \<and>
        (\<forall>p < length (infos a s). port_true install a s p)) \<and>
     (\<forall>j < length (hostNodes a). host_true a j)"

text \<open>Ports are only added.\<close>

definition grows :: "'dev assembly \<Rightarrow> 'dev assembly \<Rightarrow> bool" where
  "grows a a' \<longleftrightarrow>
     length (switchNodes a') = length (switchNodes a) \<and> length (hostNodes a') = length (hostNodes a) \<and>
     (\<forall>s < length (switchNodes a). prefix (infos a s) (infos a' s) \<and>
        prefix (switchDevices (switchNodes a ! s)) (switchDevices (switchNodes a' ! s))) \<and>
     (\<forall>j < length (hostNodes a). set (hostDevice (hostNodes a ! j)) \<subseteq> set (hostDevice (hostNodes a' ! j)))"

lemma prefix_at: "prefix xs ys \<Longrightarrow> i < length xs \<Longrightarrow> i < length ys \<and> ys ! i = xs ! i"
  by (auto simp: prefix_def nth_append)

lemma grows_trans: "grows a b \<Longrightarrow> grows b c \<Longrightarrow> grows a c"
  unfolding grows_def by (simp, blast intro: prefix_order.trans)

lemma grows_port_true:
  assumes G: "grows a a'" and s: "s < length (switchNodes a)" "p < length (infos a s)"
    and dv: "\<forall>s < length (switchNodes a). length (switchDevices (switchNodes a ! s)) = length (infos a s)" and P: "port_true install a s p"
  shows "port_true install a' s p"
proof -
  have at: "q < length (infos a' t) \<and> infos a' t ! q = infos a t ! q \<and> dev_at a' t q = dev_at a t q"
    if "t < length (switchNodes a)" "q < length (infos a t)" for t q
    using G dv that prefix_at [of "infos a t" "infos a' t" q] prefix_at [of "switchDevices (switchNodes a ! t)" "switchDevices (switchNodes a' ! t)" q]
    unfolding grows_def dev_at_def by simp
  note s' = at [OF s]
  let ?x = "meaning (infos a s ! p)"
  show ?thesis
  proof (cases "flag ?x = 0")
    case True
    then have "unat (nodeIndex ?x) < length (hostNodes a)" "\<exists>d \<in> set (hostDevice (hostNodes a ! unat (nodeIndex ?x))). one_link install (dev_at a s p) d"
      using P by (simp_all add: port_true_def Let_def)
    then show ?thesis using True s' G unfolding port_true_def Let_def grows_def by auto
  next
    case False
    then have "unat (nodeIndex ?x) < length (switchNodes a)" "unat (nodePort ?x) < length (infos a (unat (nodeIndex ?x)))"
      using P by (simp_all add: port_true_def Let_def)
    from at [OF this] show ?thesis using False s' P G unfolding port_true_def Let_def grows_def by auto
  qed
qed

lemma attach_switch_grows:
  assumes "unat i < length (switchNodes a)"
  shows "grows a (attach_switch a i dev x)"
    "switchDevices (switchNodes (attach_switch a i dev x) ! s) =
      (if s = unat i then switchDevices (switchNodes a ! s) @ [dev] else switchDevices (switchNodes a ! s))"
  using assms by (auto simp: grows_def attach_switch_def infos_def Let_def nth_list_update)

lemma attach_host_grows:
  assumes "unat i < length (hostNodes a)"
  shows "grows a (attach_host a i dev sw p)"
    "hostNodes (attach_host a i dev sw p) ! j =
      (if j = unat i then (hostNodes a ! j)\<lparr>hostDevice := hostDevice (hostNodes a ! j) @ [dev], hc_linkSwitchIndex := Some sw, hc_linkSwitchPort := Some p\<rparr>
       else hostNodes a ! j)"
  using assms by (auto simp: grows_def attach_host_def infos_def Let_def nth_list_update)

lemma grows_host_true:
  assumes "grows a a'" "host_true a j" "hc_linkSwitchIndex (hostNodes a' ! j) = hc_linkSwitchIndex (hostNodes a ! j)"
    "hc_linkSwitchPort (hostNodes a' ! j) = hc_linkSwitchPort (hostNodes a ! j)"
  shows "host_true a' j"
  using assms prefix_at [of "infos a (unat s)" "infos a' (unat s)" for s]
  by (auto simp: host_true_def grows_def split: option.splits)

lemma cabled_step:
  assumes C: "cabled install b a" and G: "grows a a'"
    and len: "\<And>s. s < length (switchNodes a) \<Longrightarrow> length (switchDevices (switchNodes a' ! s)) = length (infos a' s) \<and> length (infos a' s) \<le> b'"
    and new: "\<And>s p. s < length (switchNodes a) \<Longrightarrow> length (infos a s) \<le> p \<Longrightarrow> p < length (infos a' s) \<Longrightarrow> port_true install a' s p"
    and hosts: "\<And>j. j < length (hostNodes a) \<Longrightarrow> host_true a' j"
  shows "cabled install b' a'"
proof -
  have n: "length (switchNodes a') = length (switchNodes a)" "length (hostNodes a') = length (hostNodes a)" using G by (simp_all add: grows_def)
  have dv: "\<forall>s < length (switchNodes a). length (switchDevices (switchNodes a ! s)) = length (infos a s)" using C by (simp add: cabled_def)
  have "port_true install a' s p" if "s < length (switchNodes a)" "p < length (infos a' s)" for s p
  proof (cases "p < length (infos a s)")
    case True
    then have "port_true install a s p" using C that(1) by (simp add: cabled_def)
    then show ?thesis by (rule grows_port_true [OF G that(1) True dv])
  qed (use new that in simp)
  then show ?thesis using len hosts unfolding cabled_def n by blast
qed

lemma one_link_sym: "one_link install d d' \<Longrightarrow> one_link install d' d"
  unfolding one_link_def by blast

lemma connect_cabled:
  assumes C: "cabled install b a" and n: "length (switchNodes a) = n" "length (hostNodes a) = m" and G: "link_good n m l"
    and loop: "GetToType l = CHR ''s'' \<longrightarrow> GetFromIndex l \<noteq> GetToIndex l" and bound: "n + m < 2 ^ 31" "b < 2 ^ 32"
    and one: "one_link install d0 d1" and step: "connect_ends d0 d1 l a = Inr a'"
  shows "cabled install (Suc b) a'"
proof -
  let ?f = "GetFromIndex l" and ?t = "GetToIndex l"
  have f: "unat ?f < n" "GetFromType l = CHR ''s''" using G by (simp_all add: link_good_def)
  have dv: "length (switchDevices (switchNodes a ! s)) = length (infos a s)" "length (infos a s) \<le> b" if "s < n" for s
    using C that n by (simp_all add: cabled_def)
  have np: "unat (next_port a i) = length (infos a (unat i))" if "unat i < n" for i
    using dv [OF that] bound(2) unat_u32 [of "length (infos a (unat i))"] by (simp add: next_port_def)
  have ht: "host_true a j" if "j < m" for j using C that n by (simp add: cabled_def)
  consider "GetToType l = CHR ''s''" "unat ?t < n" "?f \<noteq> ?t" | "GetToType l = CHR ''h''" "n \<le> unat ?t" "unat ?t < n + m"
    using G loop by (auto simp: link_good_def)
  then show ?thesis
  proof cases
    case 1
    then have ft: "unat ?f \<noteq> unat ?t" using unsigned_word_eqI by blast
    define a2 where "a2 = attach_switch a ?f d0 (switch_info ?t (next_port a ?t))"
    have a': "a' = attach_switch a2 ?t d1 (switch_info ?f (next_port a ?f))"
      using step f 1 n by (simp add: connect_ends_def Let_def a2_def)
    have i2: "unat ?f < length (switchNodes a)" "unat ?t < length (switchNodes a2)" using f 1 n by (simp_all add: a2_def attach_switch_simps)
    note A2 = attach_switch_simps [OF i2(1), of d0 "switch_info ?t (next_port a ?t)", folded a2_def] attach_switch_grows [OF i2(1), of d0 "switch_info ?t (next_port a ?t)", folded a2_def]
    note A3 = attach_switch_simps [OF i2(2), of d1 "switch_info ?f (next_port a ?f)", folded a'] attach_switch_grows [OF i2(2), of d1 "switch_info ?f (next_port a ?f)", folded a']
    have infos: "infos a' s = infos a s @ (if s = unat ?f then [switch_info ?t (next_port a ?t)] else if s = unat ?t then [switch_info ?f (next_port a ?f)] else [])" for s
      using ft by (simp add: A3 A2)
    have devs: "switchDevices (switchNodes a' ! s) = switchDevices (switchNodes a ! s) @ (if s = unat ?f then [d0] else if s = unat ?t then [d1] else [])" for s
      using ft by (simp add: A3 A2)
    have at: "infos a' (unat ?f) ! length (infos a (unat ?f)) = switch_info ?t (next_port a ?t)" "dev_at a' (unat ?f) (length (infos a (unat ?f))) = d0"
      "infos a' (unat ?t) ! length (infos a (unat ?t)) = switch_info ?f (next_port a ?f)" "dev_at a' (unat ?t) (length (infos a (unat ?t))) = d1"
      using dv f 1 ft unfolding dev_at_def devs infos by (simp_all add: nth_append)
    have np_of: "of_nat (length (infos a (unat i))) = next_port a i" if "unat i < n" for i using np [OF that] by (metis of_nat_unat ucast_id)
    show ?thesis
    proof (rule cabled_step [OF C grows_trans [OF A2(4) A3(4)]])
      fix s assume s: "s < length (switchNodes a)"
      show "length (switchDevices (switchNodes a' ! s)) = length (infos a' s) \<and> length (infos a' s) \<le> Suc b"
        using dv [of s] s n by (auto simp: infos devs)
    next
      fix s p assume s: "s < length (switchNodes a)" and p: "length (infos a s) \<le> p" "p < length (infos a' s)"
      then have "p = length (infos a s)" "s = unat ?f \<or> s = unat ?t" by (auto simp: infos split: if_splits)
      then show "port_true install a' s p"
        using at np f 1 one one_link_sym [OF one] np_of A2(1) A3(1) n by (auto simp: port_true_def infos)
    next
      fix j assume "j < length (hostNodes a)"
      then have "host_true a j" using ht n by simp
      then show "host_true a' j" by (rule grows_host_true [OF grows_trans [OF A2(4) A3(4)]]) (simp_all add: A2 A3)
    qed
  next
    case 2
    have u: "unat (?t - of_nat n) = unat ?t - n"
      using 2 bound unat_sub [of "of_nat n" ?t] unat_u32 [of n] by (simp add: word_le_nat_alt)
    have nm: "\<not> m \<le> unat ?t - n" using 2 by linarith
    define h where "h = ?t - of_nat n"
    define a2 where "a2 = attach_switch a ?f d0 (host_info h)"
    have a': "a' = attach_host a2 h d1 ?f (next_port a ?f)"
      using step f 2 n u nm by (simp add: connect_ends_def Let_def a2_def h_def)
    have i2: "unat ?f < length (switchNodes a)" "unat h < length (hostNodes a2)" using f 2 n u by (simp_all add: a2_def attach_switch_simps h_def)
    note A2 = attach_switch_simps [OF i2(1), of d0 "host_info h", folded a2_def] attach_switch_grows [OF i2(1), of d0 "host_info h", folded a2_def]
    note A3 = attach_host_simps [OF i2(2), of d1 ?f "next_port a ?f", folded a'] attach_host_grows [OF i2(2), of d1 ?f "next_port a ?f", folded a']
    have infos: "infos a' s = infos a s @ (if s = unat ?f then [host_info h] else [])" for s by (simp add: A3 A2)
    have devs: "switchDevices (switchNodes a' ! s) = switchDevices (switchNodes a ! s) @ (if s = unat ?f then [d0] else [])" for s
      by (simp add: A3 A2)
    have at: "infos a' (unat ?f) ! length (infos a (unat ?f)) = host_info h" "dev_at a' (unat ?f) (length (infos a (unat ?f))) = d0"
      using dv [OF f(1)] unfolding dev_at_def devs infos by (simp_all add: nth_append)
    show ?thesis
    proof (rule cabled_step [OF C grows_trans [OF A2(4) A3(5)]])
      fix s assume s: "s < length (switchNodes a)"
      show "length (switchDevices (switchNodes a' ! s)) = length (infos a' s) \<and> length (infos a' s) \<le> Suc b"
        using dv [of s] s n by (auto simp: infos devs)
    next
      fix s p assume s: "s < length (switchNodes a)" and p: "length (infos a s) \<le> p" "p < length (infos a' s)"
      then have "p = length (infos a s)" "s = unat ?f" by (auto simp: infos split: if_splits)
      then show "port_true install a' s p"
        using at one A3(1) A3(6) [of "unat h"] i2(2) by (auto simp: port_true_def)
    next
      fix j assume j: "j < length (hostNodes a)"
      show "host_true a' j"
      proof (cases "j = unat h")
        case True
        then show ?thesis using at np [OF f(1)] f(1) n A2(1) A3(2) by (simp add: host_true_def A3(6) infos)
      next
        case False
        have "host_true a j" using ht j n by simp
        then show ?thesis by (rule grows_host_true [OF grows_trans [OF A2(4) A3(5)]]) (simp_all add: A3(6) A2(2) False)
      qed
    qed
  qed
qed

subsection \<open>Any topology\<close>

text \<open>A link from a host to a switch is installed like the link from the switch to the host.\<close>

definition turned :: "topo_link \<Rightarrow> topo_link" where
  "turned l = l\<lparr>m_fromPtr := m_toPtr l, m_toPtr := m_fromPtr l, m_fromType := m_toType l, m_toType := m_fromType l,
     m_fromIndex := m_toIndex l, m_toIndex := m_fromIndex l\<rparr>"

definition downward :: "topo_link \<Rightarrow> topo_link" where
  "downward l = (if GetFromType l = CHR ''h'' then turned l else l)"

text \<open>A link between two switches, or a switch and a host, with indices in range, that is no loop.\<close>

definition link_fine :: "nat \<Rightarrow> nat \<Rightarrow> topo_link \<Rightarrow> bool" where
  "link_fine n m l \<longleftrightarrow> link_good n m (downward l) \<and> GetFromIndex l \<noteq> GetToIndex l"

lemma connect_ends_turned:
  assumes "link_good n m (turned l)" "GetFromType l = CHR ''h''"
  shows "connect_ends d0 d1 l a = connect_ends d1 d0 (turned l) a"
proof -
  have "GetToType l = CHR ''s''" using assms(1) by (simp add: link_good_def turned_def GetFromType_def GetToType_def)
  then show ?thesis using assms(2)
    by (simp add: connect_ends_def turned_def GetFromType_def GetToType_def GetFromIndex_def GetToIndex_def Let_def)
qed

lemma turned_loop: "GetFromIndex (turned l) = GetToIndex l" "GetToIndex (turned l) = GetFromIndex l"
  by (simp_all add: turned_def GetFromIndex_def GetToIndex_def)

lemma connect_fine:
  assumes W: "wired_up n m (map downward ls) a" and C: "cabled install b a" and F: "link_fine n m l" and bound: "n + m < 2 ^ 31" "b < 2 ^ 32"
    and one: "one_link install d0 d1"
  shows "\<exists>a'. connect_ends d0 d1 l a = Inr a' \<and> wired_up n m (map downward (ls @ [l])) a' \<and> cabled install (Suc b) a'"
proof -
  have sz: "length (switchNodes a) = n" "length (hostNodes a) = m" using W by (simp_all add: wired_up_def)
  have G: "link_good n m (downward l)" and loop: "GetFromIndex (downward l) \<noteq> GetToIndex (downward l)"
    using F turned_loop [of l] by (auto simp: link_fine_def downward_def)
  obtain e0 e1 where e: "connect_ends d0 d1 l a = connect_ends e0 e1 (downward l) a" "one_link install e0 e1"
    using connect_ends_turned [of n m l d0 d1 a] G one one_link_sym [OF one] by (auto simp: downward_def split: if_splits)
  obtain a' where "connect_ends e0 e1 (downward l) a = Inr a'" "wired_up n m (map downward ls @ [downward l]) a'"
    using connect_ends_ok [OF W G bound(1)] by blast
  moreover have "cabled install (Suc b) a'" by (rule connect_cabled [OF C sz G _ bound e(2) calculation(1)]) (use loop in simp)
  ultimately show ?thesis unfolding e(1) by simp
qed

lemma cabled_keep:
  assumes C: "cabled install k a" and s: "switchNodes b = switchNodes a" "length (hostNodes b) = length (hostNodes a)"
    and h: "\<And>j. j < length (hostNodes a) \<Longrightarrow> hostDevice (hostNodes b ! j) = hostDevice (hostNodes a ! j) \<and>
      hc_linkSwitchIndex (hostNodes b ! j) = hc_linkSwitchIndex (hostNodes a ! j) \<and> hc_linkSwitchPort (hostNodes b ! j) = hc_linkSwitchPort (hostNodes a ! j)"
  shows "cabled install k b"
proof -
  have i: "infos b = infos a" by (simp add: infos_def [abs_def] s)
  have G: "grows a b" using s h i by (simp add: grows_def)
  show ?thesis
  proof (rule cabled_step [OF C G])
    show "host_true b j" if "j < length (hostNodes a)" for j
      using C h [OF that] that by (intro grows_host_true [OF G]) (simp_all add: cabled_def)
  qed (use C in \<open>simp_all add: s i cabled_def\<close>)
qed

lemma wire_links_fine:
  assumes "\<forall>l \<in> set ls. link_fine n m l" "n + m < 2 ^ 31" "length ls < 2 ^ 32"
  shows "\<exists>a. for_each ls (wire_link install) (empty_assembly n m) = Inr a \<and> wired_up n m (map downward ls) a \<and> cabled install (length ls) a"
  using assms(1,3)
proof (induction ls rule: rev_induct)
  case Nil
  show ?case by (simp add: wired_up_def cabled_def host_true_def empty_assembly_def infos_def)
next
  case (snoc l ls)
  then obtain a where a: "for_each ls (wire_link install) (empty_assembly n m) = Inr a" "wired_up n m (map downward ls) a" "cabled install (length ls) a" by auto
  let ?a = "set_channel l a"
  obtain d0 d1 where d: "install (csma_links ?a) (csma_rate ?a) (csma_delay ?a) (GetFromNode l) (GetToNode l) = (d0, d1)" by fastforce
  then have one: "one_link install d0 d1" unfolding one_link_def by blast
  define b where "b = ?a\<lparr>csma_links := csma_links ?a + 1\<rparr>"
  have same: "switchNodes b = switchNodes a" "hostNodes b = hostNodes a" by (simp_all add: b_def set_channel_def)
  have same2: "infos b = infos a" "host_attached b = host_attached a"
    by (simp_all add: infos_def [abs_def] host_attached_def [abs_def] same)
  have "wired_up n m (map downward ls) b" using a(2) by (simp add: wired_up_def same same2)
  moreover have "cabled install (length ls) b" by (rule cabled_keep [OF a(3)]) (simp_all add: same)
  ultimately obtain a' where "connect_ends d0 d1 l b = Inr a'" "wired_up n m (map downward (ls @ [l])) a'" "cabled install (Suc (length ls)) a'"
    using connect_fine [OF _ _ _ assms(2) _ one, of ls b "length ls" l] snoc.prems by auto
  moreover from this(1) have "wire_link install l a = Inr a'" unfolding wire_link_def Let_def d b_def by simp
  ultimately show ?case using a(1) by (simp add: for_each_append)
qed

lemma assigned_cabled:
  assumes "cabled install b a" "for_each [0..<k] (assign_address alloc) (set_base a) = Inr a'"
  shows "cabled install b a'"
  using assigned_same [OF assms(2)] by (intro cabled_keep [OF assms(1)]) simp_all

text \<open>What a builder is given is consistent.\<close>

lemma assembled_wired:
  assumes W: "wired_up n m ls a" and C: "cabled install b a" and H: "\<forall>j < m. host_attached a j"
    and bounds: "n < 2 ^ 31" "m < 2 ^ 16" "b < 2 ^ 32"
  shows "wired (assembled podNum a)"
proof -
  let ?h = "assembled podNum a"
  have sz: "length (switchNodes a) = n" "length (hostNodes a) = m" "length (m_switchNodes ?h) = n" "length (m_hostNodes ?h) = m"
    using W by (simp_all add: wired_up_def assembled_def)
  have ps: "ports ?h s = map meaning (infos a s)" if "s < n" for s using that sz by (simp add: assembled_def ports_def infos_def)
  have len: "length (infos a s) \<le> b" if "s < n" for s using C that sz by (simp add: cabled_def)
  have pt: "port_ok ?h s p" if sp: "s < n" "p < length (infos a s)" for s p
  proof -
    have T: "port_true install a s p" using C sp sz by (simp add: cabled_def)
    let ?x = "meaning (infos a s ! p)"
    have x: "ports ?h s ! p = ?x" using sp ps by simp
    show ?thesis
    proof (cases "flag ?x = 0")
      case True
      then show ?thesis using T unfolding port_ok_def port_true_def x Let_def sz by simp
    next
      case False
      then have "flag ?x = 1" "unat (nodeIndex ?x) < n" "unat (nodePort ?x) < length (infos a (unat (nodeIndex ?x)))"
        "meaning (infos a (unat (nodeIndex ?x)) ! unat (nodePort ?x)) = \<lparr>flag = 1, nodeIndex = of_nat s, nodePort = of_nat p\<rparr>"
        using T sz by (simp_all add: port_true_def Let_def)
      then show ?thesis using ps [of "unat (nodeIndex ?x)"] unfolding port_ok_def x Let_def sz by simp
    qed
  qed
  have ht: "let x = m_hostNodes ?h ! j; s = unat (linkSwitchIndex x); p = unat (portIndex x)
      in s < n \<and> p < length (ports ?h s) \<and> flag (ports ?h s ! p) = 0 \<and> nodeIndex (ports ?h s ! p) = of_nat j" if j: "j < m" for j
  proof -
    have "host_true a j" using C j sz by (simp add: cabled_def)
    moreover obtain s p where "hc_linkSwitchIndex (hostNodes a ! j) = Some s" "hc_linkSwitchPort (hostNodes a ! j) = Some p"
      using H j by (auto simp: host_attached_def)
    ultimately show ?thesis using j sz ps [of "unat s"] by (simp add: host_true_def assembled_def Let_def)
  qed
  show ?thesis
    unfolding wired_def sz using bounds pt ht ps len by (fastforce simp: Let_def)
qed

definition host_linked :: "nat \<Rightarrow> topo_link list \<Rightarrow> nat \<Rightarrow> bool" where
  "host_linked n ls j \<longleftrightarrow> (\<exists>l \<in> set ls. GetToType (downward l) = CHR ''h'' \<and> unat (GetToIndex (downward l)) = n + j)"

text \<open>Each link of a host asks for one address.\<close>

definition of_host :: "topo_link \<Rightarrow> bool" where
  "of_host l \<longleftrightarrow> GetFromType l = CHR ''h'' \<or> GetToType l = CHR ''h''"

lemma addresses_asked:
  assumes "\<forall>l \<in> set ls. link_fine n m l"
  shows "(\<Sum>j < m. host_links n (map downward ls) j) = length (filter of_host ls)"
  using assms
proof (induction ls)
  case (Cons l ls)
  define l' where "l' = downward l"
  have f: "GetFromType l' = CHR ''s''" "GetToType l' = CHR ''s'' \<or> GetToType l' = CHR ''h'' \<and> n \<le> unat (GetToIndex l') \<and> unat (GetToIndex l') < n + m"
    using Cons.prems by (auto simp: link_fine_def link_good_def l'_def)
  have o: "of_host l \<longleftrightarrow> GetToType l' = CHR ''h''"
    using f by (auto simp: of_host_def l'_def downward_def turned_def GetFromType_def GetToType_def split: if_splits)
  have "host_links n (map downward (l # ls)) j = host_links n (map downward ls) j + (if GetToType l' = CHR ''h'' \<and> j = unat (GetToIndex l') - n then 1 else 0)" for j
    using f by (auto simp: host_links_def l'_def)
  then have "(\<Sum>j < m. host_links n (map downward (l # ls)) j) =
      (\<Sum>j < m. host_links n (map downward ls) j) + (\<Sum>j < m. if GetToType l' = CHR ''h'' \<and> j = unat (GetToIndex l') - n then 1 else 0)"
    by (simp only: sum.distrib)
  also have "(\<Sum>j < m. if GetToType l' = CHR ''h'' \<and> j = unat (GetToIndex l') - n then 1 else 0) = (if of_host l then 1 else 0 :: nat)"
    using f by (cases "GetToType l' = CHR ''h''") (auto simp: o)
  finally show ?case using Cons by simp
qed simp

text \<open>C7. If the links that were read join two switches, or a switch and a host in either order, with
  indices in range and without loops, every host has a link and the address helper has an address for
  every link of a host, then the network is put together without
  an error, and the text that describes the ports is true. Each switch has one description per device, in the order of
  the devices; a port that is described as a host is linked to a device of this host; a port that is
  described as port \<open>q\<close> of switch \<open>t\<close> is the other end of the link of that port, which is described as
  this port. The switch and the port that are kept for a host lead back to the host, and its address is
  the one that the helper gives to the first of its devices. The builder of the flow tables then has a consistent network as its input.\<close>

theorem assembly_describes_network:
  assumes "length (m_switches r) = n" "length (m_hosts r) = m" "\<forall>l \<in> set (m_linksList r). link_fine n m l" "\<forall>j < m. host_linked n (m_linksList r) j"
    and "n + m < 2 ^ 31" "length (m_linksList r) < 2 ^ 32" "\<forall>x < length (filter of_host (m_linksList r)). pool alloc x \<noteq> None"
  shows "\<exists>a. assemble install alloc r = Inr a \<and> length (switchNodes a) = n \<and> length (hostNodes a) = m \<and>
    (\<forall>s < n. length (switchDevices (switchNodes a ! s)) = length (switchPortInfos (switchNodes a ! s)) \<and>
       (\<forall>p < length (switchPortInfos (switchNodes a ! s)). understood (switchPortInfos (switchNodes a ! s) ! p) \<and> port_true install a s p)) \<and>
    (\<forall>j < m. host_attached a j \<and> host_true a j \<and> hostIpv4Str (hostNodes a ! j) = Uint32IpToHex (the (pool alloc (address_index a j)))) \<and>
    (m < 2 ^ 16 \<longrightarrow> wired (assembled podNum a))"
proof -
  let ?ls = "m_linksList r"
  obtain a where a: "for_each ?ls (wire_link install) (empty_assembly n m) = Inr a" "wired_up n m (map downward ?ls) a" "cabled install (length ?ls) a"
    using wire_links_fine [OF assms(3,5,6)] by blast
  have H: "\<forall>j < m. host_attached a j" using a(2) assms(4) by (auto simp: wired_up_def host_linked_def)
  have "address_index a m = length (filter of_host ?ls)"
    using a(2) addresses_asked [OF assms(3)] by (simp add: address_index_def wired_up_def)
  then have "\<forall>x < address_index a m. pool alloc x \<noteq> None" using assms(7) by simp
  from assigned_ok [OF a(2) H this] obtain b
    where b: "for_each [0..<m] (assign_address alloc) (set_base a) = Inr b" "switchNodes b = switchNodes a" "length (hostNodes b) = m"
      "\<forall>j < m. host_attached b j" "\<forall>j < m. hostIpv4Str (hostNodes b ! j) = Uint32IpToHex (the (pool alloc (address_index a j)))"
      "wired_up n m (map downward ?ls) b" by blast
  have "address_index b j = address_index a j" if "j \<le> m" for j
    using a(2) b(6) that by (simp add: address_index_def wired_up_def)
  then have A: "\<forall>j < m. hostIpv4Str (hostNodes b ! j) = Uint32IpToHex (the (pool alloc (address_index b j)))" using b(5) by simp
  have C: "cabled install (length ?ls) b" by (rule assigned_cabled [OF a(3) b(1)])
  have "assemble install alloc r = Inr b"
    using a(1) b(1) assms(1,2) by (simp add: assemble_def GetSwitchNodeContainer_def GetHostNodeContainer_def)
  moreover have "m < 2 ^ 16 \<longrightarrow> wired (assembled podNum b)" using assembled_wired [OF b(6) C b(4) _ _ assms(6)] assms(5) by simp
  moreover have n: "length (switchNodes b) = n" using b(6) by (simp add: wired_up_def)
  moreover have "\<forall>s < n. length (switchDevices (switchNodes b ! s)) = length (switchPortInfos (switchNodes b ! s)) \<and>
       (\<forall>p < length (switchPortInfos (switchNodes b ! s)). understood (switchPortInfos (switchNodes b ! s) ! p) \<and> port_true install b s p)"
    using C b(6) n by (auto simp: cabled_def wired_up_def infos_def)
  moreover have "\<forall>j < m. host_true b j" using C b(3) by (simp add: cabled_def)
  ultimately show ?thesis using b(3,4) A by blast
qed

text \<open>A link between two hosts is read without a complaint, and then ends the program.\<close>

lemma two_hosts_abort:
  assumes "length (m_switches r) = n" "length (m_hosts r) = m" "n + m < 2 ^ 31" "length ls < 2 ^ 32" "\<forall>l \<in> set ls. link_fine n m l"
    and "m_linksList r = ls @ l # ls'" "GetFromType l = CHR ''h''" "GetToType l = CHR ''h''"
  shows "assemble install alloc r = Inl AssertFailure"
proof -
  obtain a where "for_each ls (wire_link install) (empty_assembly n m) = Inr a" using wire_links_fine [OF assms(5,3,4)] by blast
  moreover have "wire_link install l b = Inl AssertFailure" for b :: "'a assembly"
    using assms(7,8) by (simp add: wire_link_def connect_ends_def Let_def case_prod_beta)
  ultimately show ?thesis
    by (simp add: assemble_def GetSwitchNodeContainer_def GetHostNodeContainer_def assms(1,2,6) for_each_append)
qed

text \<open>
  The pool as ns-3 documents it: the addresses from 10.1.0.1 to 10.1.0.254, and then the end of the
  program, if the assertions are compiled in.
\<close>

definition ns3_pool :: "address_helper \<Rightarrow> bool" where
  "ns3_pool alloc \<longleftrightarrow> (\<forall>k. pool alloc k = (if k < 254 then Some (0x0A010001 + of_nat k) else None))"

definition ex_alloc :: address_helper where
  "ex_alloc base netmask k = (if k < 254 then Some (0x0A010001 + of_nat k) else None)"

lemma ex_alloc_pool: "ns3_pool ex_alloc"
  by (simp add: ns3_pool_def pool_def ex_alloc_def)

text \<open>Two switches, a host at each, the second link written from the host.\<close>

definition ex_read :: reader where
  "ex_read = (P4TopologyReader 0)\<lparr>m_switches := [Some 0, Some 1], m_hosts := [Some 2, Some 3],
     m_linksList := [new_topo_link (Some 0) 0 CHR ''s'' (Some 1) 1 CHR ''s'', new_topo_link (Some 0) 0 CHR ''s'' (Some 2) 2 CHR ''h'',
       new_topo_link (Some 3) 3 CHR ''h'' (Some 1) 1 CHR ''s'']\<rparr>"

theorem assembly_describes_network_witness:
  "\<exists>a. assemble (\<lambda>k rate del from to. (2 * k, 2 * k + 1 :: nat)) ex_alloc ex_read = Inr a \<and>
    wired (assembled 2 a) \<and> (\<forall>j < 2. hostIpv4Str (hostNodes a ! j) = Uint32IpToHex (the (pool ex_alloc (address_index a j))))"
proof -
  have "\<forall>l \<in> set (m_linksList ex_read). link_fine 2 2 l"
    by (simp add: ex_read_def new_topo_link_def link_fine_def link_good_def downward_def turned_def GetFromType_def GetToType_def GetFromIndex_def GetToIndex_def)
  moreover have "\<forall>j < 2. host_linked 2 (m_linksList ex_read) j"
    unfolding all_less_2
    by (simp add: host_linked_def ex_read_def new_topo_link_def downward_def turned_def GetFromType_def GetToType_def GetFromIndex_def GetToIndex_def)
  moreover have "length (m_switches ex_read) = 2" "length (m_hosts ex_read) = 2" "length (m_linksList ex_read) < 2 ^ 32" by (simp_all add: ex_read_def)
  moreover have "length (filter of_host (m_linksList ex_read)) \<le> 3"
    using length_filter_le [of of_host "m_linksList ex_read"] by (simp add: ex_read_def)
  then have "\<forall>x < length (filter of_host (m_linksList ex_read)). pool ex_alloc x \<noteq> None" using ex_alloc_pool by (simp add: ns3_pool_def)
  ultimately show ?thesis
    using assembly_describes_network [of ex_read 2 2 ex_alloc "\<lambda>k rate del from to. (2 * k, 2 * k + 1 :: nat)" 2] by auto
qed

end
