(* ===== verification/Fattree_Program.thy ===== *)
theory Fattree_Program
  imports Network_Assembly Fattree_Tables
begin

text \<open>
  The program \<open>examples/p4-topo-fattree.cc\<close> from the command line to the command files of the switches. The links of the
  generated tree give every switch the ports that its level needs, so that the tables that are built
  from the ports lead everywhere.
\<close>

subsection \<open>The links of the tree as ports\<close>

text \<open>The ports of switch \<open>s\<close> in a fat tree: what each is linked to.\<close>

definition tree_ports :: "nat \<Rightarrow> (nat \<Rightarrow> u32) \<Rightarrow> nat \<Rightarrow> (int \<times> u32) set" where
  "tree_ports K rnd s =
     {(1, node_index l) |l. l \<in> set (tree_links K rnd ! s) \<and> node_type l = CHR ''s''} \<union>
     {(1, of_nat i) |i l. i < 5 * (K * K) \<and> l \<in> set (tree_links K rnd ! i) \<and> node_type l = CHR ''s'' \<and> unat (node_index l) = s} \<union>
     {(0, node_index l - of_nat (5 * (K * K))) |l. l \<in> set (tree_links K rnd ! s) \<and> node_type l = CHR ''h''}"

text \<open>The links that were read are those of the tree.\<close>

definition tree_keys :: "nat \<Rightarrow> (nat \<Rightarrow> u32) \<Rightarrow> (u32 \<times> char \<times> u32 \<times> char) set" where
  "tree_keys K rnd = {(of_nat i, CHR ''s'', node_index l, node_type l) |i l. i < 5 * (K * K) \<and> l \<in> set (tree_links K rnd ! i)}"

definition tree_key_list :: "nat \<Rightarrow> (nat \<Rightarrow> u32) \<Rightarrow> (u32 \<times> char \<times> u32 \<times> char) list" where
  "tree_key_list K rnd = concat (map (\<lambda>i. map (\<lambda>l. (of_nat i, CHR ''s'', node_index l, node_type l)) (tree_links K rnd ! i)) [0..<5 * (K * K)])"

lemma tree_key_list_set: "set (tree_key_list K rnd) = tree_keys K rnd"
  by (auto simp: tree_key_list_def tree_keys_def) blast

lemma read_tree_keys:
  assumes "map link_fields is = described r d (tree_links K rnd)" "list_all2 link_matches ls is"
  shows "map link_key ls = tree_key_list K rnd"
proof -
  have "map link_key ls = map (\<lambda>(a, b, c, d, _). (a, b, c, d)) (described r d (tree_links K rnd))" by (rule read_keys [OF assms])
  also have "\<dots> = tree_key_list K rnd"
    unfolding described_def tree_key_list_def by (simp add: map_concat comp_def tree_links_def)
  finally show ?thesis .
qed

lemma tree_links_cases:
  assumes "s < 5 * (K * K)"
  obtains (core) "s < K * K" "tree_links K rnd ! s = []"
  | (aggr) a where "a < 2 * (K * K)" "s = K * K + a" "tree_links K rnd ! s = aggr_links K rnd a"
  | (edge) e where "e < 2 * (K * K)" "s = 3 * (K * K) + e" "tree_links K rnd ! s = edge_links K e"
proof -
  have "s < K * K \<or> (\<exists>a < 2 * (K * K). s = K * K + a) \<or> (\<exists>e < 2 * (K * K). s = 3 * (K * K) + e)"
  proof (cases "s < K * K"; cases "s < 3 * (K * K)")
    assume "\<not> s < K * K" "s < 3 * (K * K)"
    then have "s = K * K + (s - K * K) \<and> s - K * K < 2 * (K * K)" by linarith
    then show ?thesis by blast
  next
    assume "\<not> s < K * K" "\<not> s < 3 * (K * K)"
    then have "s = 3 * (K * K) + (s - 3 * (K * K)) \<and> s - 3 * (K * K) < 2 * (K * K)" using assms by linarith
    then show ?thesis by blast
  qed auto
  then show thesis using core aggr edge by (auto simp: tree_links_def nth_append)
qed

text \<open>The links of the tree lead to switches below the number of switches, and to the hosts after them.\<close>

lemma tree_node_range:
  assumes "0 < K" "K \<le> 700" "i < 5 * (K * K)" "l \<in> set (tree_links K rnd ! i)"
  shows "node_type l = CHR ''s'' \<and> unat (node_index l) < 5 * (K * K) \<or>
    node_type l = CHR ''h'' \<and> 5 * (K * K) \<le> unat (node_index l) \<and> unat (node_index l) < 5 * (K * K) + 2 * (K * K * K)"
proof -
  have small: "5 * (K * K) + 2 * (K * K * K) < 2 ^ 32" using half_squared [OF assms(2)] cube_bound [OF assms(2)] by simp
  have ok: "tree_node_ok (5 * (K * K) + 2 * (K * K * K)) l" by (rule tree_nodes_ok [OF assms])
  show ?thesis
    using assms(3)
  proof (cases rule: tree_links_cases [where rnd = rnd])
    case core
    then show ?thesis using assms(4) by simp
  next
    case (aggr a)
    have "a div K * K + p < 2 * (K * K)" if "p < K" for p
      by (rule pod_index) (use aggr(1) assms(1) that in \<open>simp_all add: less_mult_imp_div_less mult.assoc\<close>)
    then have "unat (of_nat (3 * (K * K) + a div K * K + p) :: u32) < 5 * (K * K)" if "p < K" for p
    proof -
      have "3 * (K * K) + a div K * K + p < 5 * (K * K)" using \<open>\<And>p. p < K \<Longrightarrow> a div K * K + p < 2 * (K * K)\<close> [OF that] by simp
      moreover have "5 * (K * K) < 2 ^ 32" using small by simp
      ultimately show ?thesis using unat_u32 [of "3 * (K * K) + a div K * K + p"] by (simp del: of_nat_add of_nat_mult)
    qed
    moreover have "unat (of_nat c :: u32) < 5 * (K * K)" if "c < K * K" for c using that small unat_u32 [of c] by simp
    ultimately show ?thesis using assms(4) unfolding aggr(3) aggr_links_def by (auto simp del: of_nat_add of_nat_mult)
  next
    case (edge e)
    have r: "e * K + p < 2 * (K * K * K)" if "p < K" for p
    proof -
      have "e * K + p < Suc e * K" using that by simp
      also have "\<dots> \<le> 2 * (K * K) * K" using edge(1) by (intro mult_le_mono1) simp
      finally show ?thesis by (simp add: mult.assoc)
    qed
    then have "unat (of_nat (5 * (K * K) + e * K + p) :: u32) = 5 * (K * K) + e * K + p" if "p < K" for p
      using r [OF that] small by (intro unat_u32) linarith
    then show ?thesis using ok assms(4) unfolding edge(3) edge_links_def by (auto simp: tree_node_ok_def simp del: of_nat_add of_nat_mult)
  qed
qed

lemma tree_sizes:
  fixes K :: nat
  assumes "K \<le> 700"
  shows "K * K \<le> 490000" "5 * (K * K) + 2 * (K * K * K) < 2 ^ 31" "K * K * (2 * K) = 2 * (K * K * K)"
  using half_squared [OF assms] cube_bound [OF assms] by simp_all

lemma targets_tree_ports:
  assumes "0 < K" "K \<le> 700" and keys: "link_key ` set ls = tree_keys K rnd" and s: "s < 5 * (K * K)"
  shows "set (concat (map (\<lambda>l. targets (5 * (K * K)) l s) ls)) = tree_ports K rnd s"
proof -
  let ?n = "5 * (K * K)"
  have u: "unat (of_nat i :: u32) = i" if "i < ?n" for i using that tree_sizes [OF assms(2)] by (intro unat_u32) simp
  have t: "set (targets ?n l s) = (if GetToType l = CHR ''s''
      then (if unat (GetFromIndex l) = s then {(1, GetToIndex l)} else {}) \<union> (if unat (GetToIndex l) = s then {(1, GetFromIndex l)} else {})
      else (if unat (GetFromIndex l) = s then {(0, GetToIndex l - of_nat ?n)} else {}))" for l
    by (simp add: targets_def)
  define K3 where "K3 = (\<lambda>(f :: u32, ft :: char, x :: u32, ty). if ty = CHR ''s''
      then (if unat f = s then {(1 :: int, x)} else {}) \<union> (if unat x = s then {(1, f)} else {})
      else (if unat f = s then {(0, x - of_nat ?n)} else {}))"
  have "set (concat (map (\<lambda>l. targets ?n l s) ls)) = (\<Union>l \<in> set ls. K3 (link_key l))"
    by (simp add: t K3_def link_key_def)
  also have "\<dots> = (\<Union>k \<in> tree_keys K rnd. K3 k)" unfolding keys [symmetric] by simp
  also have "\<dots> = tree_ports K rnd s"
  proof (rule set_eqI, rule iffI)
    fix y assume "y \<in> (\<Union>k \<in> tree_keys K rnd. K3 k)"
    then obtain i l where i: "i < ?n" "l \<in> set (tree_links K rnd ! i)" and y: "y \<in> K3 (of_nat i, CHR ''s'', node_index l, node_type l)"
      unfolding tree_keys_def by blast
    then show "y \<in> tree_ports K rnd s"
      using tree_node_range [OF assms(1,2) i] u [OF i(1)] unfolding tree_ports_def K3_def by (auto split: if_splits)
  next
    fix y assume "y \<in> tree_ports K rnd s"
    then consider l where "l \<in> set (tree_links K rnd ! s)" "node_type l = CHR ''s''" "y = (1, node_index l)"
      | i l where "i < ?n" "l \<in> set (tree_links K rnd ! i)" "node_type l = CHR ''s''" "unat (node_index l) = s" "y = (1, of_nat i)"
      | l where "l \<in> set (tree_links K rnd ! s)" "node_type l = CHR ''h''" "y = (0, node_index l - of_nat ?n)"
      unfolding tree_ports_def by blast
    then show "y \<in> (\<Union>k \<in> tree_keys K rnd. K3 k)"
    proof cases
      case (1 l)
      then have "(of_nat s, CHR ''s'', node_index l, node_type l) \<in> tree_keys K rnd" using s unfolding tree_keys_def by blast
      moreover have "y \<in> K3 (of_nat s, CHR ''s'', node_index l, node_type l)" using 1 u [OF s] by (simp add: K3_def)
      ultimately show ?thesis by blast
    next
      case (2 i l)
      then have "(of_nat i, CHR ''s'', node_index l, node_type l) \<in> tree_keys K rnd" unfolding tree_keys_def by blast
      moreover have "y \<in> K3 (of_nat i, CHR ''s'', node_index l, node_type l)" using 2 by (simp add: K3_def)
      ultimately show ?thesis by blast
    next
      case (3 l)
      then have "(of_nat s, CHR ''s'', node_index l, node_type l) \<in> tree_keys K rnd" using s unfolding tree_keys_def by blast
      moreover have "y \<in> K3 (of_nat s, CHR ''s'', node_index l, node_type l)" using 3 u [OF s] by (simp add: K3_def)
      ultimately show ?thesis by blast
    qed
  qed
  finally show ?thesis .
qed

text \<open>The switches by level.\<close>

lemma aggr_links_set:
  "l \<in> set (aggr_links K rnd a) \<longleftrightarrow> (\<exists>p < K. l = node CHR ''s'' (3 * (K * K) + a div K * K + p)) \<or> (\<exists>c < K * K. core_linked K rnd a c \<and> l = node CHR ''s'' c)"
  by (auto simp: aggr_links_def simp del: of_nat_add of_nat_mult)

lemma edge_links_set: "l \<in> set (edge_links K e) \<longleftrightarrow> (\<exists>p < K. l = node CHR ''h'' (5 * (K * K) + e * K + p))"
  by (auto simp: edge_links_def simp del: of_nat_add of_nat_mult)

lemma tree_links_at:
  "a < 2 * (K * K) \<Longrightarrow> tree_links K rnd ! (K * K + a) = aggr_links K rnd a"
  "e < 2 * (K * K) \<Longrightarrow> tree_links K rnd ! (3 * (K * K) + e) = edge_links K e"
  "s < K * K \<Longrightarrow> tree_links K rnd ! s = []"
  by (simp_all add: tree_links_def nth_append)

lemma aggr_edge_range:
  fixes K a p :: nat
  assumes "0 < K" "a < 2 * (K * K)" "p < K"
  shows "a div K * K + p < 2 * (K * K)"
  by (rule pod_index) (use assms in \<open>simp_all add: less_mult_imp_div_less mult.assoc\<close>)

lemma tree_portsI:
  "l \<in> set (tree_links K rnd ! s) \<Longrightarrow> node_type l = CHR ''s'' \<Longrightarrow> (1, node_index l) \<in> tree_ports K rnd s"
  "i < 5 * (K * K) \<Longrightarrow> l \<in> set (tree_links K rnd ! i) \<Longrightarrow> node_type l = CHR ''s'' \<Longrightarrow> unat (node_index l) = s \<Longrightarrow>
    (1, of_nat i) \<in> tree_ports K rnd s"
  "l \<in> set (tree_links K rnd ! s) \<Longrightarrow> node_type l = CHR ''h'' \<Longrightarrow> (0, node_index l - of_nat (5 * (K * K))) \<in> tree_ports K rnd s"
  unfolding tree_ports_def by blast+

lemma edge_tree_ports:
  assumes K: "0 < K" "K \<le> 700" and e: "e < 2 * (K * K)"
  shows "(f, x) \<in> tree_ports K rnd (3 * (K * K) + e) \<Longrightarrow>
      f = 1 \<and> K * K \<le> unat x \<and> unat x < 3 * (K * K) \<or> f = 0 \<and> unat x < 2 * (K * K * K)"
    "\<exists>x. (1, x) \<in> tree_ports K rnd (3 * (K * K) + e)"
    "d < 2 * (K * K * K) \<Longrightarrow> (0, of_nat d) \<in> tree_ports K rnd (3 * (K * K) + d div K)"
proof -
  let ?n = "5 * (K * K)"
  note Z = tree_sizes [OF K(2)]
  have sub: "of_nat (?n + k) - of_nat ?n = (of_nat k :: u32)" for k by simp
  have host: "e' * K + p < 2 * (K * K * K)" if "e' < 2 * (K * K)" "p < K" for e' p
  proof -
    have "e' * K + p < Suc e' * K" using that by simp
    also have "\<dots> \<le> 2 * (K * K) * K" using that by (intro mult_le_mono1) simp
    finally show ?thesis by (simp add: mult.assoc)
  qed
  show "f = 1 \<and> K * K \<le> unat x \<and> unat x < 3 * (K * K) \<or> f = 0 \<and> unat x < 2 * (K * K * K)"
    if m: "(f, x) \<in> tree_ports K rnd (3 * (K * K) + e)"
  proof -
    consider "\<exists>l \<in> set (edge_links K e). node_type l = CHR ''s''"
      | i l where "i < ?n" "l \<in> set (tree_links K rnd ! i)" "node_type l = CHR ''s''" "unat (node_index l) = 3 * (K * K) + e" "f = 1" "x = of_nat i"
      | l where "l \<in> set (edge_links K e)" "f = 0" "x = node_index l - of_nat ?n"
      using m tree_links_at(2) [OF e, of rnd] unfolding tree_ports_def by auto
    then show ?thesis
    proof cases
      case 1
      then obtain l where "l \<in> set (edge_links K e)" "node_type l = CHR ''s''" by blast
      then show ?thesis unfolding edge_links_set by auto
    next
      case (2 i l)
      have "i < 3 * (K * K) \<and> K * K \<le> i"
        using 2(1)
      proof (cases rule: tree_links_cases [where rnd = rnd])
        case core
        then show ?thesis using 2(2) by simp
      next
        case (aggr a)
        then show ?thesis by simp
      next
        case (edge e')
        then show ?thesis using 2(2,3) unfolding edge(3) edge_links_set by auto
      qed
      moreover have "unat x = i" unfolding 2 by (rule unat_u32) (use 2(1) Z in simp)
      ultimately show ?thesis using 2 by simp
    next
      case (3 l)
      then obtain p where p: "p < K" "x = of_nat (?n + (e * K + p)) - of_nat ?n" unfolding edge_links_set by (auto simp: add.assoc)
      have "unat x = e * K + p" unfolding p(2) sub by (rule unat_u32) (use host [OF e p(1)] Z in simp)
      then show ?thesis using host [OF e p(1)] 3 by simp
    qed
  qed
  show "\<exists>x. (1, x) \<in> tree_ports K rnd (3 * (K * K) + e)"
  proof -
    define a where "a = e div K * K"
    have a: "a < 2 * (K * K)" using aggr_edge_range [OF K(1) e K(1)] by (simp add: a_def)
    have d: "a div K * K + e mod K = e" using K(1) by (simp add: a_def)
    let ?l = "node CHR ''s'' (3 * (K * K) + a div K * K + e mod K)"
    have "?l \<in> set (tree_links K rnd ! (K * K + a))" unfolding tree_links_at(1) [OF a] aggr_links_set using K(1) by (intro disjI1 exI [of _ "e mod K"]) simp
    moreover have "unat (node_index ?l) = 3 * (K * K) + e"
    proof -
      have "unat (of_nat (3 * (K * K) + e) :: u32) = 3 * (K * K) + e" by (rule unat_u32) (use e Z in simp)
      then show ?thesis using d by (simp add: add.assoc del: of_nat_add of_nat_mult)
    qed
    moreover have "K * K + a < 5 * (K * K)" using a by simp
    ultimately show ?thesis using tree_portsI(2) [of "K * K + a" K ?l rnd] by auto
  qed
  show "(0, of_nat d) \<in> tree_ports K rnd (3 * (K * K) + d div K)" if "d < 2 * (K * K * K)"
  proof -
    have de: "d div K < 2 * (K * K)" using that by (intro less_mult_imp_div_less) (simp add: mult.assoc)
    have "node CHR ''h'' (?n + d div K * K + d mod K) \<in> set (tree_links K rnd ! (3 * (K * K) + d div K))"
      unfolding tree_links_at(2) [OF de] edge_links_set using K(1) by (intro exI [of _ "d mod K"]) simp
    moreover have "?n + d div K * K + d mod K = ?n + d" by simp
    ultimately have "node CHR ''h'' (?n + d) \<in> set (tree_links K rnd ! (3 * (K * K) + d div K))" by metis
    then have "(0, node_index (node CHR ''h'' (?n + d)) - of_nat ?n) \<in> tree_ports K rnd (3 * (K * K) + d div K)" by (rule tree_portsI(3)) simp
    moreover have "node_index (node CHR ''h'' (?n + d)) - of_nat ?n = of_nat d" by simp
    ultimately show ?thesis by metis
  qed
qed

lemma aggr_link_index:
  assumes K: "0 < K" "K \<le> 700" and a: "a < 2 * (K * K)" and l: "l \<in> set (aggr_links K rnd a)"
  shows "node_type l = CHR ''s''" "unat (node_index l) < K * K \<or> 3 * (K * K) \<le> unat (node_index l) \<and> unat (node_index l) < 5 * (K * K)"
proof -
  note Z = tree_sizes [OF K(2)]
  consider p where "p < K" "l = node CHR ''s'' (3 * (K * K) + a div K * K + p)" | c where "c < K * K" "l = node CHR ''s'' c"
    using l unfolding aggr_links_set by blast
  then have "node_type l = CHR ''s'' \<and>
      (unat (node_index l) < K * K \<or> 3 * (K * K) \<le> unat (node_index l) \<and> unat (node_index l) < 5 * (K * K))"
  proof cases
    case (1 p)
    have r: "a div K * K + p < 2 * (K * K)" by (rule aggr_edge_range [OF K(1) a 1(1)])
    have "unat (of_nat (3 * (K * K) + a div K * K + p) :: u32) = 3 * (K * K) + a div K * K + p"
      by (rule unat_u32) (use r Z(1) in simp)
    then show ?thesis using r unfolding 1(2) by (simp add: add.assoc del: of_nat_add of_nat_mult)
  next
    case (2 c)
    have "unat (of_nat c :: u32) = c" by (rule unat_u32) (use 2 Z in simp)
    then show ?thesis using 2 by simp
  qed
  then show "node_type l = CHR ''s''" "unat (node_index l) < K * K \<or> 3 * (K * K) \<le> unat (node_index l) \<and> unat (node_index l) < 5 * (K * K)"
    by simp_all
qed

lemma aggr_tree_ports:
  assumes K: "0 < K" "K \<le> 700" and a: "a < 2 * (K * K)"
  shows "(f, x) \<in> tree_ports K rnd (K * K + a) \<Longrightarrow> f = 1 \<and> (unat x < K * K \<or> 3 * (K * K) \<le> unat x \<and> unat x < 5 * (K * K))"
    "p < K \<Longrightarrow> (1, of_nat (3 * (K * K) + a div K * K + p)) \<in> tree_ports K rnd (K * K + a)"
    "c < K * K \<Longrightarrow> core_linked K rnd a c \<Longrightarrow> (1, of_nat c) \<in> tree_ports K rnd (K * K + a)"
proof -
  let ?n = "5 * (K * K)"
  note at = tree_links_at(1) [OF a, of rnd]
  show "f = 1 \<and> (unat x < K * K \<or> 3 * (K * K) \<le> unat x \<and> unat x < 5 * (K * K))" if m: "(f, x) \<in> tree_ports K rnd (K * K + a)"
  proof -
    consider l where "l \<in> set (aggr_links K rnd a)" "f = 1" "x = node_index l"
      | i l where "i < ?n" "l \<in> set (tree_links K rnd ! i)" "node_type l = CHR ''s''" "unat (node_index l) = K * K + a"
      | l where "l \<in> set (aggr_links K rnd a)" "node_type l = CHR ''h''"
      using m at unfolding tree_ports_def by auto
    then show ?thesis
    proof cases
      case (1 l)
      then show ?thesis using aggr_link_index(2) [OF K a] by blast
    next
      case (2 i l)
      show ?thesis
        using 2(1)
      proof (cases rule: tree_links_cases [where rnd = rnd])
        case core
        then show ?thesis using 2(2) by simp
      next
        case (aggr a')
        then have "l \<in> set (aggr_links K rnd a')" using 2(2) by simp
        from aggr_link_index(2) [OF K aggr(1) this] show ?thesis using 2(4) a by auto
      next
        case (edge e')
        then show ?thesis using 2(2,3) unfolding edge(3) edge_links_set by auto
      qed
    next
      case (3 l)
      then show ?thesis using aggr_link_index(1) [OF K a 3(1)] by simp
    qed
  qed
  show "(1, of_nat (3 * (K * K) + a div K * K + p)) \<in> tree_ports K rnd (K * K + a)" if "p < K"
    using tree_portsI(1) [of "node CHR ''s'' (3 * (K * K) + a div K * K + p)" K rnd "K * K + a"] that
    unfolding at aggr_links_set by auto
  show "(1, of_nat c) \<in> tree_ports K rnd (K * K + a)" if "c < K * K" "core_linked K rnd a c"
    using tree_portsI(1) [of "node CHR ''s'' c" K rnd "K * K + a"] that unfolding at aggr_links_set by auto
qed

lemma core_tree_ports:
  assumes K: "0 < K" "K \<le> 700" and s: "s < K * K"
  shows "(f, x) \<in> tree_ports K rnd s \<Longrightarrow> f = 1 \<and> K * K \<le> unat x \<and> unat x < 3 * (K * K)"
    "a < 2 * (K * K) \<Longrightarrow> core_linked K rnd a s \<Longrightarrow> (1, of_nat (K * K + a)) \<in> tree_ports K rnd s"
proof -
  let ?n = "5 * (K * K)"
  note at = tree_links_at(3) [OF s, of rnd] and Z = tree_sizes [OF K(2)]
  show "f = 1 \<and> K * K \<le> unat x \<and> unat x < 3 * (K * K)" if m: "(f, x) \<in> tree_ports K rnd s"
  proof -
    obtain i l where i: "i < ?n" "l \<in> set (tree_links K rnd ! i)" "node_type l = CHR ''s''" "f = 1" "x = of_nat i"
      using m at unfolding tree_ports_def by auto
    have "K * K \<le> i \<and> i < 3 * (K * K)"
      using i(1)
    proof (cases rule: tree_links_cases [where rnd = rnd])
      case core
      then show ?thesis using i(2) by simp
    next
      case (aggr a')
      then show ?thesis by simp
    next
      case (edge e')
      then show ?thesis using i(2,3) unfolding edge(3) edge_links_set by auto
    qed
    moreover have "unat x = i" unfolding i(5) by (rule unat_u32) (use i(1) Z in simp)
    ultimately show ?thesis using i(4) by simp
  qed
  show "(1, of_nat (K * K + a)) \<in> tree_ports K rnd s" if "a < 2 * (K * K)" "core_linked K rnd a s"
  proof (rule tree_portsI(2))
    show "K * K + a < ?n" using that by simp
    show "node CHR ''s'' s \<in> set (tree_links K rnd ! (K * K + a))"
      unfolding tree_links_at(1) [OF that(1)] aggr_links_set using that(2) s by blast
    show "unat (node_index (node CHR ''s'' s)) = s" by (simp, rule unat_u32) (use s Z in simp)
  qed simp
qed

text \<open>A builder's input with these ports has the levels of a fat tree, when every start occurs among the core switches.\<close>

definition starts_vary :: "nat \<Rightarrow> (nat \<Rightarrow> u32) \<Rightarrow> bool" where
  "starts_vary K rnd \<longleftrightarrow> (\<forall>q < K. \<exists>c < K * K. unat (rnd c) mod K = q)"

lemma starts_reach:
  assumes "0 < K" "starts_vary K rnd" "q < K"
  shows "\<exists>c < K * K. (unat (rnd c) + Suc j) mod K = q"
proof -
  define k where "k = (q + K * Suc j - Suc j) mod K"
  have "k < K" using assms(1) by (simp add: k_def)
  then obtain c where c: "c < K * K" "unat (rnd c) mod K = k" using assms(2) unfolding starts_vary_def by blast
  have "(unat (rnd c) + Suc j) mod K = (k + Suc j) mod K" using c(2) by (metis mod_add_left_eq)
  also have "\<dots> = (q + K * Suc j - Suc j + Suc j) mod K" unfolding k_def by (rule mod_add_left_eq)
  also have "\<dots> = q"
  proof -
    have "Suc j \<le> K * Suc j" using mult_le_mono1 [of 1 K "Suc j"] assms(1) by simp
    then have "q + K * Suc j - Suc j + Suc j = q + K * Suc j" by simp
    then show ?thesis using assms(3) by (simp del: mult_Suc_right)
  qed
  finally show ?thesis using c(1) by blast
qed

lemma ports_tree_levels:
  assumes K: "0 < K" "K \<le> 700" and V: "starts_vary K rnd" and n: "length (m_switchNodes h) = 5 * (K * K)"
    and m: "length (m_hostNodes h) = 2 * (K * K * K)" and ip: "distinct (map ipAddr (m_hostNodes h))" and pod: "fh_podNum h = of_nat (2 * K)"
    and len: "\<And>s. s < 5 * (K * K) \<Longrightarrow> length (ports h s) < 2 ^ 32"
    and P: "\<And>s. s < 5 * (K * K) \<Longrightarrow> (\<lambda>pn. (flag pn, nodeIndex pn)) ` set (ports h s) = tree_ports K rnd s"
  shows "tree_levels h K"
proof -
  note Z = tree_sizes [OF K(2)]
  have pn: "(flag pn, nodeIndex pn) \<in> tree_ports K rnd s" if "s < 5 * (K * K)" "pn \<in> set (ports h s)" for s pn
    using P [OF that(1)] that(2) by blast
  have ex: "\<exists>pn \<in> set (ports h s). flag pn = f \<and> nodeIndex pn = x" if "s < 5 * (K * K)" "(f, x) \<in> tree_ports K rnd s" for s f x
  proof -
    have "(f, x) \<in> (\<lambda>pn. (flag pn, nodeIndex pn)) ` set (ports h s)" using P [OF that(1)] that(2) by simp
    then show ?thesis by auto
  qed
  have on: "host_on h (3 * (K * K) + d div K) d" if d: "d < 2 * (K * K * K)" for d
  proof -
    have de: "d div K < 2 * (K * K)" using d by (intro less_mult_imp_div_less) (simp add: mult.assoc)
    have "(0, of_nat d) \<in> tree_ports K rnd (3 * (K * K) + d div K)" by (rule edge_tree_ports(3) [OF K de d])
    then show ?thesis using ex [of "3 * (K * K) + d div K" 0 "of_nat d"] de unfolding host_on_def by simp
  qed
  have edge: "edge_level h K s" if s: "3 * (K * K) \<le> s" "s < 5 * (K * K)" for s
  proof -
    define e where "e = s - 3 * (K * K)"
    have e: "e < 2 * (K * K)" "s = 3 * (K * K) + e" using s by (simp_all add: e_def)
    obtain x where "(1, x) \<in> tree_ports K rnd s" using edge_tree_ports(2) [OF K e(1), of rnd] unfolding e(2) by blast
    from ex [OF s(2) this] have "\<exists>pn \<in> set (ports h s). flag pn \<noteq> 0" by force
    moreover have "if flag pn = 0 then unat (nodeIndex pn) < length (m_hostNodes h)
        else K * K \<le> unat (nodeIndex pn) \<and> unat (nodeIndex pn) < 3 * (K * K)" if "pn \<in> set (ports h s)" for pn
      using edge_tree_ports(1) [OF K e(1), of "flag pn" "nodeIndex pn" rnd] pn [OF s(2) that] unfolding e(2) m by auto
    ultimately show ?thesis unfolding edge_level_def by blast
  qed
  have aggr: "aggr_level h K s" if s: "K * K \<le> s" "s < 3 * (K * K)" for s
  proof -
    define a where "a = s - K * K"
    have a: "a < 2 * (K * K)" "s = K * K + a" and s5: "s < 5 * (K * K)" using s by (simp_all add: a_def)
    obtain c where c: "c < K * K" "(unat (rnd c) + Suc (a div K)) mod K = a mod K"
      using starts_reach [OF K(1) V, of "a mod K" "a div K"] K(1) by auto
    have "core_linked K rnd a c" using c(2) unfolding core_linked_def by (metis mod_add_left_eq)
    then have "(1, of_nat c) \<in> tree_ports K rnd s" using aggr_tree_ports(3) [OF K a(1) c(1)] unfolding a(2) by blast
    from ex [OF s5 this] obtain pn where "pn \<in> set (ports h s)" "nodeIndex pn = of_nat c" by blast
    moreover have "unat (of_nat c :: u32) = c" by (rule unat_u32) (use c Z in simp)
    ultimately have "\<exists>pn \<in> set (ports h s). unat (nodeIndex pn) < K * K" using c(1) by force
    moreover have "flag pn \<noteq> 0 \<and> (unat (nodeIndex pn) < K * K \<or> 3 * (K * K) \<le> unat (nodeIndex pn) \<and> unat (nodeIndex pn) < 5 * (K * K))"
      if "pn \<in> set (ports h s)" for pn
      using aggr_tree_ports(1) [OF K a(1), of "flag pn" "nodeIndex pn" rnd] pn [OF s5 that] unfolding a(2) by auto
    ultimately show ?thesis unfolding aggr_level_def by blast
  qed
  have core: "core_level h K s" if s: "s < K * K" for s
  proof -
    have s5: "s < 5 * (K * K)" using s by simp
    have "flag pn = 1 \<and> K * K \<le> unat (nodeIndex pn) \<and> unat (nodeIndex pn) < 3 * (K * K)" if "pn \<in> set (ports h s)" for pn
      using core_tree_ports(1) [OF K s, of "flag pn" "nodeIndex pn" rnd] pn [OF s5 that] by auto
    moreover have "\<exists>pn \<in> set (ports h s). down h (unat (nodeIndex pn)) d" if d: "d < length (m_hostNodes h)" for d
    proof -
      define e where "e = d div K"
      have de: "e < 2 * (K * K)" using d m unfolding e_def by (intro less_mult_imp_div_less) (simp add: mult.assoc)
      define q where "q = (unat (rnd s) + Suc (e div K)) mod K"
      define a where "a = e div K * K + q"
      have q: "q < K" using K(1) by (simp add: q_def)
      have a: "a < 2 * (K * K)" unfolding a_def by (rule aggr_edge_range [OF K(1) de q])
      have ad: "a div K = e div K" using q by (simp add: a_def)
      have "core_linked K rnd a s" unfolding a_def core_linked_pod [OF K(1) q] by (rule q_def)
      then have "(1, of_nat (K * K + a)) \<in> tree_ports K rnd s" by (rule core_tree_ports(2) [OF K s a])
      then obtain pn where pn: "pn \<in> set (ports h s)" "nodeIndex pn = of_nat (K * K + a)" using ex [OF s5] by blast
      have ua: "unat (nodeIndex pn) = K * K + a" unfolding pn(2) by (rule unat_u32) (use a Z in simp)
      have a5: "K * K + a < 5 * (K * K)" using a by simp
      have "(1, of_nat (3 * (K * K) + a div K * K + e mod K)) \<in> tree_ports K rnd (K * K + a)" by (rule aggr_tree_ports(2) [OF K a]) (use K(1) in simp)
      moreover have "3 * (K * K) + a div K * K + e mod K = 3 * (K * K) + e" unfolding ad by simp
      ultimately have "(1, of_nat (3 * (K * K) + e)) \<in> tree_ports K rnd (K * K + a)" by metis
      then obtain pm where pm: "pm \<in> set (ports h (K * K + a))" "nodeIndex pm = of_nat (3 * (K * K) + e)" using ex [OF a5] by blast
      have ue: "unat (nodeIndex pm) = 3 * (K * K) + e" unfolding pm(2) by (rule unat_u32) (use de Z in simp)
      have "(of_nat (K * K + a) :: u32) < nodeIndex pm" unfolding pn(2) [symmetric] word_less_nat_alt ua ue using a by simp
      moreover have "host_on h (unat (nodeIndex pm)) d" unfolding ue e_def by (rule on) (use d m in simp)
      ultimately have "down h (unat (nodeIndex pn)) d" unfolding down_def ua using pm(1) by blast
      then show ?thesis using pn(1) by blast
    qed
    ultimately show ?thesis unfolding core_level_def by blast
  qed
  show ?thesis using K n m ip pod len edge aggr core Z(3) by (simp add: tree_levels_def)
qed

lemma hex_ip_inj: "Uint32IpToHex v = Uint32IpToHex w \<Longrightarrow> v = w"
proof -
  have "StrToInt (Uint32IpToHex v) = v" for v
    by (simp add: StrToInt_def Uint32IpToHex_def setw_def hex_loop_zeros hex_loop_hex)
  then show "Uint32IpToHex v = Uint32IpToHex w \<Longrightarrow> v = w" by metis
qed

lemma tree_link_good:
  assumes "0 < K" "K \<le> 700" and keys: "link_key ` set ls = tree_keys K rnd"
  shows "\<forall>l \<in> set ls. link_good (5 * (K * K)) (2 * (K * K * K)) l"
proof
  fix l assume "l \<in> set ls"
  then have "link_key l \<in> tree_keys K rnd" unfolding keys [symmetric] by simp
  then obtain i l' where i: "i < 5 * (K * K)" "l' \<in> set (tree_links K rnd ! i)"
    and l: "GetFromIndex l = of_nat i" "GetFromType l = CHR ''s''" "GetToIndex l = node_index l'" "GetToType l = node_type l'"
    unfolding tree_keys_def link_key_def by auto
  have "unat (of_nat i :: u32) = i" by (rule unat_u32) (use i(1) tree_sizes [OF assms(2)] in simp)
  then show "link_good (5 * (K * K)) (2 * (K * K * K)) l"
    using tree_node_range [OF assms(1,2) i] i(1) l by (auto simp: link_good_def)
qed

lemma tree_no_loop:
  assumes "0 < K" "K \<le> 700" "i < 5 * (K * K)" "l \<in> set (tree_links K rnd ! i)"
  shows "unat (node_index l) \<noteq> i"
  using assms(3)
proof (cases rule: tree_links_cases [where rnd = rnd])
  case core
  then show ?thesis using assms(4) by simp
next
  case (aggr a)
  have "l \<in> set (aggr_links K rnd a)" using assms(4) aggr(2,3) by simp
  from aggr_link_index(2) [OF assms(1,2) aggr(1) this] show ?thesis unfolding aggr(2)
    by (rule disjE) (use aggr(1) in linarith)+
next
  case (edge e)
  then have "node_type l = CHR ''h''" using assms(4) unfolding edge(3) edge_links_set by auto
  then show ?thesis using tree_node_range [OF assms] assms(3) by auto
qed

lemma tree_link_fine:
  assumes "0 < K" "K \<le> 700" and keys: "link_key ` set ls = tree_keys K rnd"
  shows "\<forall>l \<in> set ls. link_fine (5 * (K * K)) (2 * (K * K * K)) l" "map downward ls = ls"
proof -
  have D: "downward l = l" if "l \<in> set ls" for l
    using tree_link_good [OF assms] that by (auto simp: link_good_def downward_def)
  then show "map downward ls = ls" by (simp add: map_idI)
  show "\<forall>l \<in> set ls. link_fine (5 * (K * K)) (2 * (K * K * K)) l"
  proof
    fix l assume l: "l \<in> set ls"
    then have "link_key l \<in> tree_keys K rnd" unfolding keys [symmetric] by simp
    then obtain i l' where i: "i < 5 * (K * K)" "l' \<in> set (tree_links K rnd ! i)" "GetFromIndex l = of_nat i" "GetToIndex l = node_index l'"
      unfolding tree_keys_def link_key_def by auto
    have "unat (of_nat i :: u32) = i" by (rule unat_u32) (use i(1) tree_sizes [OF assms(2)] in simp)
    then have "GetFromIndex l \<noteq> GetToIndex l" using tree_no_loop [OF assms(1,2) i(1,2)] i(3,4) by metis
    then show "link_fine (5 * (K * K)) (2 * (K * K * K)) l" using tree_link_good [OF assms] l D [OF l] by (simp add: link_fine_def)
  qed
qed

lemma tree_hosts_attached:
  assumes K: "0 < K" "K \<le> 700" and keys: "link_key ` set ls = tree_keys K rnd"
    and W: "wired_up (5 * (K * K)) (2 * (K * K * K)) ls a" and j: "j < 2 * (K * K * K)"
  shows "host_attached a j"
proof -
  let ?n = "5 * (K * K)"
  have je: "j div K < 2 * (K * K)" using j by (intro less_mult_imp_div_less) (simp add: mult.assoc)
  have nj: "?n + j div K * K + j mod K = ?n + j" by simp
  have "node CHR ''h'' (?n + j div K * K + j mod K) \<in> set (tree_links K rnd ! (3 * (K * K) + j div K))"
    unfolding tree_links_at(2) [OF je] edge_links_set using K(1) by (intro exI [of _ "j mod K"]) simp
  then have "node CHR ''h'' (?n + j) \<in> set (tree_links K rnd ! (3 * (K * K) + j div K))" unfolding nj .
  moreover have "3 * (K * K) + j div K < ?n" using je by simp
  ultimately have "(of_nat (3 * (K * K) + j div K), CHR ''s'', node_index (node CHR ''h'' (?n + j)), node_type (node CHR ''h'' (?n + j))) \<in> tree_keys K rnd"
    unfolding tree_keys_def by blast
  then obtain l where l: "l \<in> set ls" "GetToType l = CHR ''h''" "GetToIndex l = of_nat (?n + j)"
    unfolding keys [symmetric] by (auto simp: link_key_def simp del: of_nat_add of_nat_mult)
  have "unat (of_nat (?n + j) :: u32) = ?n + j" by (rule unat_u32) (use j tree_sizes [OF K(2)] in simp)
  then have "\<exists>l \<in> set ls. GetToType l = CHR ''h'' \<and> unat (GetToIndex l) = ?n + j" using l by metis
  moreover have "\<forall>j < 2 * (K * K * K). (\<exists>l \<in> set ls. GetToType l = CHR ''h'' \<and> unat (GetToIndex l) = ?n + j) \<longrightarrow> host_attached a j"
    using W by (simp add: wired_up_def)
  ultimately show ?thesis using j by blast
qed

lemma targets_length: "length (concat (map (\<lambda>l. targets n l s) ls)) \<le> 2 * length ls"
  by (induction ls) (simp_all add: targets_def)

text \<open>The builder on a network that has been put together from the links of a tree.\<close>

lemma assembled_routes:
  assumes K: "0 < K" "K \<le> 700" and V: "starts_vary K rnd"
    and keys: "link_key ` set ls = tree_keys K rnd" and len: "length ls = 6 * (K * K * K)"
    and W: "wired_up (5 * (K * K)) (2 * (K * K * K)) ls a" and H: "\<forall>j < 2 * (K * K * K). host_attached a j"
    and A: "\<forall>j < 2 * (K * K * K). hostIpv4Str (hostNodes a ! j) = Uint32IpToHex (addr j)" and inj: "inj_on addr {..<2 * (K * K * K)}"
  shows "\<exists>h'. build_tables rnd' (of_nat (2 * K)) a = Inr h' \<and> length (m_switchNodes h') = 5 * (K * K) \<and> same_net (assembled (of_nat (2 * K)) a) h' \<and>
    (\<forall>s < 5 * (K * K). \<forall>d < 2 * (K * K * K). routes h' (Uint32IpToHex (addr d)) d s)"
proof -
  let ?h = "assembled (of_nat (2 * K)) a" and ?m = "2 * (K * K * K)" and ?n = "5 * (K * K)"
  have L: "length (switchNodes a) = ?n" "length (hostNodes a) = ?m" using W by (simp_all add: wired_up_def)
  then have hl: "length (m_switchNodes ?h) = ?n" "length (m_hostNodes ?h) = ?m" by (simp_all add: assembled_def)
  have info: "map target (infos a s) = concat (map (\<lambda>l. targets ?n l s) ls)" if "s < ?n" for s
    using W that by (simp add: wired_up_def)
  have pm: "map (\<lambda>pn. (flag pn, nodeIndex pn)) (ports ?h s) = concat (map (\<lambda>l. targets ?n l s) ls)" if "s < ?n" for s
    using assembled_ports [of s a "of_nat (2 * K)"] info [OF that] that L by simp
  have ps: "(\<lambda>pn. (flag pn, nodeIndex pn)) ` set (ports ?h s) = tree_ports K rnd s" if "s < ?n" for s
    using arg_cong [OF pm [OF that], of set] targets_tree_ports [OF K keys that] by simp
  have pl: "length (ports ?h s) < 2 ^ 32" if "s < ?n" for s
  proof -
    have "length (ports ?h s) \<le> 2 * length ls" using arg_cong [OF pm [OF that], of length] targets_length [of ?n s ls] by simp
    then show ?thesis using len cube_bound [OF K(2)] by simp
  qed
  have ip: "host_ip ?h d = Uint32IpToHex (addr d)" if "d < ?m" for d using that A L by (simp add: host_ip_def assembled_def)
  have "map ipAddr (m_hostNodes ?h) = map (\<lambda>d. Uint32IpToHex (addr d)) [0..<?m]"
    using ip hl(2) by (intro nth_equalityI) (simp_all add: host_ip_def)
  moreover have "inj_on (\<lambda>d. Uint32IpToHex (addr d)) {..<?m}"
    using inj hex_ip_inj unfolding inj_on_def by blast
  ultimately have d: "distinct (map ipAddr (m_hostNodes ?h))" by (simp add: distinct_map atLeast0LessThan)
  have T: "tree_levels ?h K"
    by (rule ports_tree_levels [OF K V hl d _ pl ps]) (simp_all add: assembled_def)
  have E: "\<forall>s < length (m_switchNodes ?h). entries ?h s = []" by (simp add: assembled_def entries_def)
  have "build_tables rnd' (of_nat (2 * K)) a = SetSwitchesFlowtableEntries rnd' ?h"
  proof (rule build_tables_assembled)
    show "\<forall>s \<in> set (switchNodes a). \<forall>x \<in> set (switchPortInfos s). understood x"
      using W L(1) by (auto simp: wired_up_def infos_def in_set_conv_nth [of _ "switchNodes a"])
    show "\<forall>n \<in> set (hostNodes a). hc_linkSwitchIndex n \<noteq> None \<and> hc_linkSwitchPort n \<noteq> None"
      using H L(2) by (auto simp: host_attached_def in_set_conv_nth)
  qed
  also have "\<dots> = BuildFattreeFlowTable rnd' ?h" by (simp add: SetSwitchesFlowtableEntries_def assembled_def)
  finally show ?thesis using tree_routes [OF T E, of rnd'] ip same_net_simps(2) unfolding hl by (metis hl(1))
qed

text \<open>Each host of the tree has one link, so the addresses are in the order of the hosts.\<close>

lemma tree_hosts:
  assumes "0 < K" "K \<le> 700"
  shows "map node_index (filter is_host (concat (tree_links K rnd))) = map of_nat [5 * (K * K)..<5 * (K * K) + 2 * (K * K * K)]"
proof -
  obtain ft where ft: "FattreeTopoHelper rnd (of_nat (2 * K)) [] = Inr ft" "m_switchLinkNodeTypeIndex ft = tree_links K rnd"
    using FattreeTopoHelper_tree [OF assms] by blast
  obtain ft' where "FattreeTopoHelper rnd (of_nat (2 * K)) [] = Inr ft'"
    "map node_index (filter is_host (concat (m_switchLinkNodeTypeIndex ft'))) = map of_nat [5 * (K * K)..<5 * (K * K) + 2 * (K * K * K)]"
    using fattree_hosts_once [OF assms] by blast
  then show ?thesis using ft by simp
qed

lemma tree_host_links:
  assumes K: "0 < K" "K \<le> 700" and keys: "map link_key ls = tree_key_list K rnd" and j: "j < 2 * (K * K * K)"
  shows "host_links (5 * (K * K)) ls j = 1"
proof -
  let ?n = "5 * (K * K)" and ?m = "2 * (K * K * K)"
  have P: "(\<lambda>l. GetToType l = CHR ''h'' \<and> unat (GetToIndex l) = ?n + j) = (\<lambda>(_, _, t, ty). ty = CHR ''h'' \<and> unat t = ?n + j) \<circ> link_key"
    by (simp add: fun_eq_iff link_key_def)
  have L: "length (filter (P \<circ> f) xs) = length (filter P (map f xs))" for P :: "'b \<Rightarrow> bool" and f :: "'a \<Rightarrow> 'b" and xs
    by (simp add: filter_map comp_def)
  have two: "map (\<lambda>(_, _, t, ty). (t, ty)) (tree_key_list K rnd) = map (\<lambda>l. (node_index l, node_type l)) (concat (tree_links K rnd))"
  proof -
    have "map (\<lambda>(_, _, t, ty). (t, ty)) (tree_key_list K rnd) =
        concat (map (\<lambda>i. map (\<lambda>l. (node_index l, node_type l)) (tree_links K rnd ! i)) [0..<length (tree_links K rnd)])"
      by (simp add: tree_key_list_def map_concat comp_def tree_links_def)
    also have "\<dots> = concat (map (map (\<lambda>l. (node_index l, node_type l))) (map ((!) (tree_links K rnd)) [0..<length (tree_links K rnd)]))"
      by (simp add: comp_def)
    finally show ?thesis by (simp only: map_nth map_concat)
  qed
  have "host_links ?n ls j = length (filter (\<lambda>(_, _, t, ty). ty = CHR ''h'' \<and> unat t = ?n + j) (tree_key_list K rnd))"
    unfolding host_links_def P L keys ..
  also have "\<dots> = length (filter ((\<lambda>(t, ty). ty = CHR ''h'' \<and> unat t = ?n + j) \<circ> (\<lambda>(_, _, t, ty). (t, ty))) (tree_key_list K rnd))"
    by (rule arg_cong [where f = length], rule filter_cong) auto
  also have "\<dots> = length (filter ((\<lambda>(t, ty). ty = CHR ''h'' \<and> unat t = ?n + j) \<circ> (\<lambda>l. (node_index l, node_type l))) (concat (tree_links K rnd)))"
    unfolding L two ..
  also have "\<dots> = length (filter (\<lambda>l. unat (node_index l) = ?n + j) (filter is_host (concat (tree_links K rnd))))"
    by (simp add: comp_def is_host_def conj_commute)
  also have "\<dots> = length (filter (\<lambda>t. unat t = ?n + j) (map of_nat [?n..<?n + ?m] :: u32 list))"
    unfolding tree_hosts [OF K, of rnd, symmetric] by (simp add: filter_map comp_def)
  also have "\<dots> = length (filter (\<lambda>k. unat (of_nat k :: u32) = ?n + j) [?n..<?n + ?m])"
    by (simp add: filter_map comp_def)
  also have "filter (\<lambda>k. unat (of_nat k :: u32) = ?n + j) [?n..<?n + ?m] = filter (\<lambda>k. k = ?n + j) [?n..<?n + ?m]"
  proof (rule filter_cong)
    fix k assume "k \<in> set [?n..<?n + ?m]"
    then have "k < 2 ^ 32" using tree_sizes(2) [OF K(2)] by simp
    then show "unat (of_nat k :: u32) = ?n + j \<longleftrightarrow> k = ?n + j" using unat_u32 by simp
  qed simp
  also have "length \<dots> = card {?n + j}"
    using j distinct_card [of "filter (\<lambda>k. k = ?n + j) [?n..<?n + ?m]"] by (simp add: Collect_conv_if)
  finally show ?thesis by simp
qed

lemma tree_address_index:
  assumes "0 < K" "K \<le> 700" "map link_key ls = tree_key_list K rnd" "wired_up (5 * (K * K)) (2 * (K * K * K)) ls a" "j \<le> 2 * (K * K * K)"
  shows "address_index a j = j"
  using assms(4,5) tree_host_links [OF assms(1-3)] unfolding address_index_def wired_up_def by simp

text \<open>The helper gives \<open>n\<close> addresses, \<open>addr 0\<close>, \<open>addr 1\<close> and so on, all different.\<close>

definition hands_out :: "address_helper \<Rightarrow> nat \<Rightarrow> (nat \<Rightarrow> u32) \<Rightarrow> bool" where
  "hands_out alloc n addr \<longleftrightarrow> (\<forall>k < n. pool alloc k = Some (addr k)) \<and> inj_on addr {..<n}"

lemma ns3_pool_hands_out:
  assumes "ns3_pool alloc" "n \<le> 254"
  shows "hands_out alloc n (\<lambda>k. 0x0A010001 + of_nat k)"
proof -
  have "inj_on (\<lambda>k. 0x0A010001 + of_nat k :: u32) {..<n}"
  proof (rule inj_onI)
    fix x y :: nat assume "x \<in> {..<n}" "y \<in> {..<n}" "(0x0A010001 + of_nat x :: u32) = 0x0A010001 + of_nat y"
    then have "of_nat x = (of_nat y :: u32)" "x < 2 ^ 32" "y < 2 ^ 32" using assms(2) by simp_all
    then show "x = y" using unat_u32 by metis
  qed
  then show ?thesis using assms by (simp add: hands_out_def ns3_pool_def)
qed

lemma tree_wired:
  assumes K: "0 < K" "K \<le> 700" and keys: "map link_key ls = tree_key_list K rnd" and len: "length ls = 6 * (K * K * K)"
  shows "\<exists>a. for_each ls (wire_link install) (empty_assembly (5 * (K * K)) (2 * (K * K * K))) = Inr a \<and>
    wired_up (5 * (K * K)) (2 * (K * K * K)) ls a \<and> cabled install (6 * (K * K * K)) a \<and> (\<forall>j < 2 * (K * K * K). host_attached a j)"
proof -
  let ?n = "5 * (K * K)" and ?m = "2 * (K * K * K)"
  have k: "link_key ` set ls = tree_keys K rnd" using keys tree_key_list_set by (metis set_map)
  have small: "length ls < 2 ^ 32" unfolding len using cube_bound [OF K(2)] by simp
  from wire_links_fine [OF tree_link_fine(1) [OF K k] tree_sizes(2) [OF K(2)] small] obtain a
    where a: "for_each ls (wire_link install) (empty_assembly ?n ?m) = Inr a" "wired_up ?n ?m ls a" "cabled install (length ls) a"
    unfolding tree_link_fine(2) [OF K k] by blast
  then show ?thesis using tree_hosts_attached [OF K k a(2)] unfolding len by blast
qed

lemma tree_network:
  assumes K: "0 < K" "K \<le> 700" and V: "starts_vary K rnd" and pool: "hands_out alloc (2 * (K * K * K)) addr"
    and keys: "map link_key (m_linksList r) = tree_key_list K rnd" and len: "length (m_linksList r) = 6 * (K * K * K)"
    and sw: "length (m_switches r) = 5 * (K * K)" and ho: "length (m_hosts r) = 2 * (K * K * K)"
  shows "\<exists>a h'. assemble install alloc r = Inr a \<and> build_tables rnd' (of_nat (2 * K)) a = Inr h' \<and> length (m_switchNodes h') = 5 * (K * K) \<and>
    same_net (assembled (of_nat (2 * K)) a) h' \<and> cabled install (6 * (K * K * K)) a \<and> wired_up (5 * (K * K)) (2 * (K * K * K)) (m_linksList r) a \<and>
    (\<forall>s < 5 * (K * K). \<forall>d < 2 * (K * K * K). routes h' (Uint32IpToHex (addr d)) d s)"
proof -
  let ?n = "5 * (K * K)" and ?m = "2 * (K * K * K)" and ?ls = "m_linksList r"
  have k: "link_key ` set ?ls = tree_keys K rnd" using keys tree_key_list_set by (metis set_map)
  obtain a where a: "for_each ?ls (wire_link install) (empty_assembly ?n ?m) = Inr a" "wired_up ?n ?m ?ls a" "cabled install (6 * (K * K * K)) a"
    "\<forall>j < ?m. host_attached a j"
    using tree_wired [OF K keys len] by blast
  note I = tree_address_index [OF K keys a(2)]
  have "\<forall>x < address_index a ?m. pool alloc x \<noteq> None" using pool I [OF order_refl] by (simp add: hands_out_def)
  from assigned_ok [OF a(2,4) this] obtain b
    where b: "for_each [0..<?m] (assign_address alloc) (set_base a) = Inr b" "\<forall>j < ?m. host_attached b j"
      "\<forall>j < ?m. hostIpv4Str (hostNodes b ! j) = Uint32IpToHex (the (pool alloc (address_index a j)))" "wired_up ?n ?m ?ls b" by blast
  have "assemble install alloc r = Inr b"
    using a(1) b(1) by (simp add: assemble_def GetSwitchNodeContainer_def GetHostNodeContainer_def sw ho)
  moreover have "cabled install (6 * (K * K * K)) b" by (rule assigned_cabled [OF a(3) b(1)])
  moreover have "\<forall>j < ?m. hostIpv4Str (hostNodes b ! j) = Uint32IpToHex (addr j)"
    using b(3) I pool by (simp add: hands_out_def)
  moreover have "inj_on addr {..<?m}" using pool by (simp add: hands_out_def)
  ultimately show ?thesis using assembled_routes [OF K V k len b(4,2), of addr rnd'] b(4) by blast
qed

subsection \<open>The program\<close>

text \<open>
  The program up to the flow tables, with \<open>tableEntry\<close> set, in the directory \<open>p4SrcDir\<close>: the network, the
  builder after \<open>Build\<close> and the command files it writes, and \<open>None\<close> when it ends early because no link was read. The reader is
  used without a test for the null pointer. \<open>rnd\<close> and \<open>rnd'\<close> are what \<open>rand()\<close> gives to the
  generator and to the builder.
\<close>

definition fattree_main ::
  "'dev csma_install \<Rightarrow> address_helper \<Rightarrow> (nat \<Rightarrow> u32) \<Rightarrow> (nat \<Rightarrow> u32) \<Rightarrow> (string \<Rightarrow> string option) \<Rightarrow> nat \<Rightarrow> u32 \<Rightarrow> string \<Rightarrow>
   stop + ('dev assembly \<times> flow_helper \<times> (string \<times> string) list) option" where
  "fattree_main install alloc rnd rnd' fs nodes podNum p4SrcDir =
     (case FattreeTopoHelper rnd podNum (p4SrcDir @ ''/topo.txt'') of
        Inl e \<Rightarrow> Inl e
      | Inr treeTopo \<Rightarrow>
          (let flowTableDirPath = p4SrcDir @ ''/'';
               treeTopo = SetLinkDelay (SetLinkDataRate treeTopo ''1000Mbps'') ''0.01ms'';
               fs = fs(fst (WriteTopo treeTopo) \<mapsto> snd (WriteTopo treeTopo));
               p4TopoHelper = HelperSetFileType (HelperSetFileName P4TopologyReaderHelper (p4SrcDir @ ''/topo.txt'')) ''CsmaTopo''
           in case snd (GetTopologyReader fs nodes p4TopoHelper) of
                Inl e \<Rightarrow> Inl e
              | Inr None \<Rightarrow> Inl Undefined
              | Inr (Some r) \<Rightarrow>
                  (if LinksSize r = 0 then Inr None
                   else (case assemble install alloc r of
                           Inl e \<Rightarrow> Inl e
                         | Inr a \<Rightarrow>
                             (case build_tables rnd' podNum a of
                                Inl e \<Rightarrow> Inl e
                              | Inr h \<Rightarrow> Inr (Some (a, h, WriteFlowTables h flowTableDirPath)))))))"

text \<open>The files carry the first entry for every address.\<close>

lemma routes_in_file:
  assumes "s < length (m_switchNodes h)"
  shows "\<exists>fs. WriteFlowTables h dir ! s = (dir @ ''/flowtable_'' @ FlowUintToStr (of_nat s), unlines (default_lines @ concat (map entry_lines fs))) \<and>
    distinct (map dstIp fs) \<and> (\<forall>ip d. routes h ip d s \<longrightarrow> (\<exists>e \<in> set fs. dstIp e = ip \<and> first_entry h s ip = Some e))"
proof -
  obtain fs where fs: "write_entries {} (entries h s) = concat (map entry_lines fs)" "distinct (map dstIp fs)"
    "set (map dstIp fs) = set (map dstIp (entries h s))" "\<forall>e \<in> set fs. find (\<lambda>x. dstIp x = dstIp e) (entries h s) = Some e"
    using write_entries_first [of "{}" "entries h s"] by auto
  have "\<exists>e \<in> set fs. dstIp e = ip \<and> first_entry h s ip = Some e" if "routes h ip d s" for ip d
  proof -
    obtain e where e: "first_entry h s ip = Some e" using \<open>routes h ip d s\<close> by (auto elim: routes.cases)
    then have "e \<in> set (entries h s)" "dstIp e = ip" unfolding first_entry_def by (auto simp: find_Some_iff)
    then have "ip \<in> set (map dstIp fs)" unfolding fs(3) by auto
    then obtain e' where "e' \<in> set fs" "dstIp e' = ip" by auto
    then show ?thesis using fs(4) by (auto simp: first_entry_def)
  qed
  then show ?thesis using fs(1,2) assms by (intro exI [of _ fs]) (simp add: WriteFlowTables_def entries_def)
qed

text \<open>The program up to the links that were read.\<close>

lemma tree_read:
  assumes K: "0 < K" "K \<le> 700"
  obtains r where "map link_key (m_linksList r) = tree_key_list K rnd" "length (m_linksList r) = 6 * (K * K * K)"
    "length (m_switches r) = 5 * (K * K)" "length (m_hosts r) = 2 * (K * K * K)"
    "fattree_main install alloc rnd rnd' fs nodes (of_nat (2 * K)) p4SrcDir =
      (case assemble install alloc r of
         Inl e \<Rightarrow> Inl e
       | Inr a \<Rightarrow> (case build_tables rnd' (of_nat (2 * K)) a of Inl e \<Rightarrow> Inl e | Inr h \<Rightarrow> Inr (Some (a, h, WriteFlowTables h (p4SrcDir @ ''/'')))))"
proof -
  define topoInput where "topoInput = p4SrcDir @ ''/topo.txt''"
  have name: "topoInput \<noteq> []" by (simp add: topoInput_def)
  obtain ft where ft: "FattreeTopoHelper rnd (of_nat (2 * K)) topoInput = Inr ft" "m_switchLinkNodeTypeIndex ft = tree_links K rnd"
    "m_topoFileName ft = topoInput"
    using FattreeTopoHelper_tree [OF K, of rnd topoInput] by blast
  define ft' where "ft' = SetLinkDelay (SetLinkDataRate ft ''1000Mbps'') ''0.01ms''"
  define fs' where "fs' = fs(fst (WriteTopo ft') \<mapsto> snd (WriteTopo ft'))"
  have w: "''1000Mbps'' = [] \<or> word ''1000Mbps''" "''0.01ms'' = [] \<or> word ''0.01ms''" by (simp_all add: word_def isspace_def code_def)
  have "fs' (fst (WriteTopo ft')) = Some (snd (WriteTopo ft'))" by (simp add: fs'_def)
  from tree_read_back [where fs = fs' and k = nodes, OF K w ft(1) ft'_def this]
  obtain r where r: "Read fs' (SetFileName (P4TopologyReader nodes) topoInput) = (r, Inr True)"
    "map link_fields (m_links r) = described ''1000Mbps'' ''0.01ms'' (tree_links K rnd)"
    "length (m_switches r) = 5 * (K * K)" "length (m_hosts r) = 2 * (K * K * K)"
    unfolding ft(2) by (auto simp: or_default_def)
  have m: "list_all2 link_matches (m_linksList r) (m_links r)" using read_consistent [OF r(1)] by blast
  have keys: "map link_key (m_linksList r) = tree_key_list K rnd" by (rule read_tree_keys [OF r(2) m])
  have ll: "length (m_linksList r) = 6 * (K * K * K)"
  proof -
    have "length (m_linksList r) = length (described ''1000Mbps'' ''0.01ms'' (tree_links K rnd))"
      using list_all2_lengthD [OF m] arg_cong [OF r(2), of length] by simp
    also have "\<dots> = length (concat (tree_links K rnd))"
    proof -
      have "map (\<lambda>i. length (ls ! i)) [0..<length ls] = map length ls" for ls :: "LinkNodeTypeIndex_t list list"
        by (rule nth_equalityI) simp_all
      then show ?thesis by (simp add: described_def length_concat comp_def)
    qed
    finally show ?thesis using tree_links_number_value [OF K(1)] by simp
  qed
  have "snd (GetTopologyReader fs' nodes (HelperSetFileType (HelperSetFileName P4TopologyReaderHelper topoInput) ''CsmaTopo'')) = Inr (Some r)"
    using r(1) name by (simp add: GetTopologyReader_def P4TopologyReaderHelper_def HelperSetFileType_def HelperSetFileName_def)
  moreover have "LinksSize r \<noteq> 0" using ll K(1) by (simp add: LinksSize_def)
  ultimately show thesis
    using that [OF keys ll r(3,4)] unfolding fattree_main_def topoInput_def [symmetric] ft(1)
    by (simp add: Let_def ft'_def [symmetric] fs'_def [symmetric])
qed

lemma tree_program:
  assumes K: "0 < K" "K \<le> 700" and V: "starts_vary K rnd" and pool: "hands_out alloc (2 * (K * K * K)) addr"
  shows "\<exists>a h'. fattree_main install alloc rnd rnd' fs nodes (of_nat (2 * K)) p4SrcDir = Inr (Some (a, h', WriteFlowTables h' (p4SrcDir @ ''/''))) \<and>
    length (m_switchNodes h') = 5 * (K * K) \<and> same_net (assembled (of_nat (2 * K)) a) h' \<and> cabled install (6 * (K * K * K)) a \<and>
    length (switchNodes a) = 5 * (K * K) \<and> length (hostNodes a) = 2 * (K * K * K) \<and>
    (\<forall>s < 5 * (K * K). \<forall>d < 2 * (K * K * K). routes h' (Uint32IpToHex (addr d)) d s)"
proof -
  obtain r where r: "map link_key (m_linksList r) = tree_key_list K rnd" "length (m_linksList r) = 6 * (K * K * K)"
    "length (m_switches r) = 5 * (K * K)" "length (m_hosts r) = 2 * (K * K * K)"
    "fattree_main install alloc rnd rnd' fs nodes (of_nat (2 * K)) p4SrcDir =
      (case assemble install alloc r of
         Inl e \<Rightarrow> Inl e
       | Inr a \<Rightarrow> (case build_tables rnd' (of_nat (2 * K)) a of Inl e \<Rightarrow> Inl e | Inr h \<Rightarrow> Inr (Some (a, h, WriteFlowTables h (p4SrcDir @ ''/'')))))"
    by (rule tree_read [OF K])
  obtain a h' where A: "assemble install alloc r = Inr a" "build_tables rnd' (of_nat (2 * K)) a = Inr h'" "length (m_switchNodes h') = 5 * (K * K)"
    "same_net (assembled (of_nat (2 * K)) a) h'" "cabled install (6 * (K * K * K)) a" "wired_up (5 * (K * K)) (2 * (K * K * K)) (m_linksList r) a"
    "\<forall>s < 5 * (K * K). \<forall>d < 2 * (K * K * K). routes h' (Uint32IpToHex (addr d)) d s"
    using tree_network [OF K V pool r(1-4)] by blast
  have "length (switchNodes a) = 5 * (K * K)" "length (hostNodes a) = 2 * (K * K * K)" using A(6) by (simp_all add: wired_up_def)
  then show ?thesis using A r(5) by simp
qed

text \<open>The address as the program prints it, byte by byte: the text the flow tables use.\<close>

definition ConvertIpToHex :: "u32 \<Rightarrow> string" where
  "ConvertIpToHex ip =
     ''0x'' @ setw 2 (digit_char 0) (hex (unat (drop_bit 24 ip AND 0xFF))) @
     setw 2 (digit_char 0) (hex (unat (drop_bit 16 ip AND 0xFF))) @
     setw 2 (digit_char 0) (hex (unat (drop_bit 8 ip AND 0xFF))) @
     setw 2 (digit_char 0) (hex (unat (ip AND 0xFF)))"

lemma hexw_byte: "hexw (Suc (Suc w)) n = hexw w (n div 256) @ hexw 2 (n mod 256)"
proof -
  have m: "n mod 256 = 16 * (n div 16 mod 16) + n mod 16" using mod_mult2_eq [of n 16 16] by simp
  have "n div 16 div 16 = n div 256" "n mod 256 div 16 mod 16 = n div 16 mod 16" "n mod 256 mod 16 = n mod 16"
    unfolding m by (simp_all add: div_mult2_eq [symmetric])
  then show ?thesis by (simp add: hexw_Suc numeral_2_eq_2 hexw_def [of 0])
qed

lemma ConvertIpToHex_same: "ConvertIpToHex ip = Uint32IpToHex ip"
proof -
  define n where "n = unat ip"
  have n: "n < 16 ^ 8" using unsigned_less [of ip] by (simp add: n_def)
  have m: "w AND 0xFF = take_bit 8 w" for w :: u32 by (simp add: take_bit_eq_mask mask_eq_decr_exp)
  have b: "unat (drop_bit k ip AND 0xFF) = n div 2 ^ k mod 256" for k
  proof -
    have "unat (take_bit 8 (drop_bit k ip)) = take_bit 8 (drop_bit k n)"
      using n by (simp only: unsigned_take_bit_eq unsigned_drop_bit_eq n_def)
        (simp add: take_bit_drop_bit min_def take_bit_eq_mod drop_bit_eq_div)
    then show ?thesis unfolding m by (simp add: drop_bit_eq_div take_bit_eq_mod)
  qed
  have b0: "unat (ip AND 0xFF) = n mod 256" using b [of 0] by simp
  have s: "setw 2 (digit_char 0) (hex (k mod 256)) = hexw 2 (k mod 256)" for k by (rule setw_hex) simp_all
  have "hexw 8 n = hexw 2 (n div 2 ^ 24 mod 256) @ hexw 2 (n div 2 ^ 16 mod 256) @ hexw 2 (n div 2 ^ 8 mod 256) @ hexw 2 (n mod 256)"
    using hexw_byte [of 6 n] hexw_byte [of 4 "n div 256"] hexw_byte [of 2 "n div 65536"] n
    by (simp add: div_mult2_eq [symmetric] hexw_def [of 0])
  then show ?thesis using setw_hex [of 8 n] n unfolding ConvertIpToHex_def Uint32IpToHex_def b b0 s n_def [symmetric] by simp
qed

text \<open>The six bytes of a MAC address.\<close>

definition ConvertMacToHex :: "u8 list \<Rightarrow> string" where
  "ConvertMacToHex buffer = ''0x'' @ concat (map (\<lambda>b. setw 2 (digit_char 0) (hex (unat b))) buffer)"

lemma ConvertMacToHex_bytes: "HexStrToBytes (ConvertMacToHex buffer) = buffer"
proof -
  have u: "unat b < 16 ^ 2" for b :: u8 using unsigned_less [of b] by simp
  have s: "setw 2 (digit_char 0) (hex (unat b)) = hexw 2 (unat b)" for b :: u8 by (rule setw_hex [OF _ u]) simp
  define t where "t = concat (map (\<lambda>b. hexw 2 (unat b)) buffer)"
  have p: "hex_pairs t = Some buffer"
    unfolding t_def
  proof (induction buffer)
    case (Cons b bs)
    have "hex_pairs (hexw 2 (unat b) @ s) = map_option ((@) [b]) (hex_pairs s)" for s
      using hex_pairs_hexw [of 1 "unat b" s] by simp
    then show ?case by (simp only: list.map concat.simps Cons.IH option.map append.simps)
  qed simp
  have "\<forall>c \<in> set t. isxdigit c" using hexw_xdigits by (auto simp: t_def)
  moreover have "length t mod 2 = 0" unfolding t_def by (induction buffer) (simp_all add: hexw_def)
  ultimately show ?thesis unfolding ConvertMacToHex_def s HexStrToBytes_def t_def [symmetric] Let_def by (simp add: p)
qed

subsection \<open>The whole program\<close>

text \<open>C3. The fat-tree program with an even number of pods up to 1400 (\<open>2 * K\<close>) writes a
  topology, reads it back, puts the network together, builds its flow tables and writes the command files without an
  error, if two things hold: of the numbers that \<open>rand()\<close> gives to the generator each residue of \<open>K\<close> occurs at a core switch
  (without this some aggregation switches have no core switch, and the builder takes a remainder by zero), and the address
  helper has a different address for every host (ns-3's has 254 in the network that the program uses, enough for ten pods; see
  \<open>fattree_addresses_run_out\<close>). Then with the first entry for each address a packet for any host reaches that host from every
  switch, over the ports in the order in which the links were installed, and the command file of each
  switch has, after the default actions, exactly one group of commands for each address, made from this
  entry. This holds whatever devices ns-3 makes and whatever \<open>rand()\<close> gives to the builder.\<close>

theorem fattree_program_routes:
  assumes "0 < K" "K \<le> 700" "starts_vary K rnd" "hands_out alloc (2 * (K * K * K)) addr"
  shows "\<exists>a h' files. fattree_main install alloc rnd rnd' fs nodes (of_nat (2 * K)) p4SrcDir = Inr (Some (a, h', files)) \<and>
    length files = 5 * (K * K) \<and>
    (\<forall>s < 5 * (K * K). \<forall>d < 2 * (K * K * K). routes h' (Uint32IpToHex (addr d)) d s) \<and>
    (\<forall>s < 5 * (K * K). \<exists>fs. files ! s = (p4SrcDir @ ''//flowtable_'' @ FlowUintToStr (of_nat s), unlines (default_lines @ concat (map entry_lines fs))) \<and>
       distinct (map dstIp fs) \<and>
       (\<forall>d < 2 * (K * K * K). \<exists>e \<in> set fs. dstIp e = Uint32IpToHex (addr d) \<and> first_entry h' s (Uint32IpToHex (addr d)) = Some e))"
proof -
  obtain a h' where A: "fattree_main install alloc rnd rnd' fs nodes (of_nat (2 * K)) p4SrcDir = Inr (Some (a, h', WriteFlowTables h' (p4SrcDir @ ''/'')))"
    "length (m_switchNodes h') = 5 * (K * K)" "\<forall>s < 5 * (K * K). \<forall>d < 2 * (K * K * K). routes h' (Uint32IpToHex (addr d)) d s"
    using tree_program [OF assms] by blast
  have "\<exists>fs. WriteFlowTables h' (p4SrcDir @ ''/'') ! s = (p4SrcDir @ ''//flowtable_'' @ FlowUintToStr (of_nat s), unlines (default_lines @ concat (map entry_lines fs))) \<and>
       distinct (map dstIp fs) \<and>
       (\<forall>d < 2 * (K * K * K). \<exists>e \<in> set fs. dstIp e = Uint32IpToHex (addr d) \<and> first_entry h' s (Uint32IpToHex (addr d)) = Some e)"
    if s: "s < 5 * (K * K)" for s
  proof -
    obtain fs where fs: "WriteFlowTables h' (p4SrcDir @ ''/'') ! s = ((p4SrcDir @ ''/'') @ ''/flowtable_'' @ FlowUintToStr (of_nat s), unlines (default_lines @ concat (map entry_lines fs)))"
      "distinct (map dstIp fs)" "\<forall>ip d. routes h' ip d s \<longrightarrow> (\<exists>e \<in> set fs. dstIp e = ip \<and> first_entry h' s ip = Some e)"
      using routes_in_file [of s h' "p4SrcDir @ ''/''"] s A(2) by metis
    have "\<forall>d < 2 * (K * K * K). \<exists>e \<in> set fs. dstIp e = Uint32IpToHex (addr d) \<and> first_entry h' s (Uint32IpToHex (addr d)) = Some e"
      using fs(3) A(3) s by blast
    with fs(1,2) show ?thesis by (intro exI [of _ fs]) simp
  qed
  moreover have "length (WriteFlowTables h' (p4SrcDir @ ''/'')) = 5 * (K * K)" using A(2) by (simp add: WriteFlowTables_def)
  ultimately show ?thesis using A(1,3) by blast
qed



text \<open>Four pods: 20 switches and 16 hosts, with the addresses from 10.1.0.1 on.\<close>

theorem fattree_program_routes_witness:
  "\<exists>a h' files. fattree_main (\<lambda>k rate del from to. (2 * k, 2 * k + 1)) ex_alloc of_nat (\<lambda>i. 7) Map.empty 0 4 ''fat-tree'' =
      Inr (Some (a :: nat assembly, h', files)) \<and> length files = 20 \<and>
    routes h' (Uint32IpToHex 0x0A010010) 15 12 \<and> routes h' (Uint32IpToHex 0x0A010001) 0 0"
proof -
  have K: "0 < (2 :: nat)" "2 \<le> (700 :: nat)" by simp_all
  have v: "starts_vary 2 of_nat" unfolding starts_vary_def
  proof (intro allI impI)
    fix q :: nat assume "q < 2"
    then have "q < 2 * 2 \<and> unat (of_nat q :: u32) mod 2 = q" using unat_u32 [of q] by simp
    then show "\<exists>c < 2 * 2. unat (of_nat c :: u32) mod 2 = q" by blast
  qed
  have i: "hands_out ex_alloc (2 * (2 * 2 * 2)) (\<lambda>i. 0x0A010001 + of_nat i)"
    by (rule ns3_pool_hands_out [OF ex_alloc_pool]) simp
  have n: "of_nat (2 * 2) = (4 :: u32)" "5 * (2 * 2) = (20 :: nat)" "2 * (2 * 2 * 2) = (16 :: nat)" by simp_all
  obtain a h' files where h: "fattree_main (\<lambda>k rate del from to. (2 * k, 2 * k + 1)) ex_alloc of_nat (\<lambda>i. 7) Map.empty 0 4 ''fat-tree'' =
      Inr (Some (a :: nat assembly, h', files))"
    "length files = 20" "\<forall>s < 20. \<forall>d < 16. routes h' (Uint32IpToHex (0x0A010001 + of_nat d)) d s"
    using fattree_program_routes [OF K(1,2) v i, of "\<lambda>k rate del from to. (2 * k, 2 * k + 1 :: nat)" "\<lambda>i. 7" Map.empty 0 "''fat-tree''"] unfolding n by blast
  have "routes h' (Uint32IpToHex 0x0A010010) 15 12" "routes h' (Uint32IpToHex 0x0A010001) 0 0"
    using h(3) [rule_format, of 12 15] h(3) [rule_format, of 0 0] by simp_all
  then show ?thesis using h(1,2) by blast
qed

end
