(* ===== verification/Pna_Core.thy ===== *)
theory Pna_Core
  imports Core_Common Bm_Queue
begin

text \<open>
  \<open>P4PnaNic\<close> (\<open>model/p4-nic-pna.h\<close>, \<open>model/p4-nic-pna.cc\<close>), the core for the Portable NIC
  Architecture: reception puts a packet in the input queue, and \<open>main_processing_pipeline\<close> takes
  one, runs the program and sends it. The metadata fields that it names are taken to be declared by
  the program, as the architecture prescribes; \<open>get_field\<close> on a missing field is not a case here.
\<close>

datatype PktInstanceTypePna =
    FROM_NET_PORT | FROM_NET_LOOPEDBACK | FROM_NET_RECIRCULATED
  | FROM_HOST | FROM_HOST_LOOPEDBACK | FROM_HOST_RECIRCULATED

datatype PktDirection = NET_TO_HOST | HOST_TO_NET

record ('addr, 'w, 'q) pna = "('addr, 'w) switch_core" +
  pna_input_buffer :: 'q

definition P4PnaNic ::
  "('p, 'q) bmq \<Rightarrow> sim \<Rightarrow> u64 \<Rightarrow> 'w \<Rightarrow> statics \<Rightarrow> ('addr, 'w, 'q) pna \<times> statics" where
  "P4PnaNic Q S pid w st =
     (let (base, st) = P4SwitchCore S False SSWITCH_DROP_PORT pid w st
      in (switch_core.extend (base\<lparr>thrift_command := '''', enable_queueing_metadata := False\<rparr>)
            (pna.fields (bq_new Q 1024)), st))"

text \<open>The main parser, control and deparser.\<close>

definition pna_main_program ::
  "('p, 'b, 'w) bm \<Rightarrow> sim \<Rightarrow> ('addr, 'w, 'q) pna \<Rightarrow> 'p \<Rightarrow> ('addr, 'w, 'q) pna \<times> 'p" where
  "pna_main_program B S c pkt =
     (let pkt = bm_set_field B pkt ''pna_main_input_metadata.timestamp'' (unat (GetTimeStamp S c));
          (w, pkt) = bm_parse B ''main_parser'' (world c) pkt;
          pkt = copy_field B ''pna_main_input_metadata.recirculated'' ''pna_main_parser_input_metadata.recirculated'' pkt;
          pkt = bm_set_field B pkt ''pna_main_input_metadata.parser_error'' (bm_error_code B pkt);
          pkt = bm_set_field B pkt ''pna_main_input_metadata.class_of_service'' 0;
          pkt = copy_field B ''pna_main_input_metadata.input_port'' ''pna_main_parser_input_metadata.input_port'' pkt;
          (w, pkt) = bm_apply B ''main_control'' w pkt;
          pkt = bm_reset_exit B pkt;
          (w, pkt) = bm_deparse B ''main_deparser'' w pkt
      in (c\<lparr>world := w\<rparr>, pkt))"

definition main_processing_pipeline ::
  "('p, 'b, 'w) bm \<Rightarrow> ('p, 'q) bmq \<Rightarrow> sim \<Rightarrow> ('addr, 'w, 'q) pna \<Rightarrow> (('addr, 'w, 'q) pna, bool) outcome" where
  "main_processing_pipeline B Q S c =
     (case bq_pop_back Q (pna_input_buffer c) of
        (ib, Inl e) \<Rightarrow> (c\<lparr>pna_input_buffer := ib\<rparr>, Inl e)
      | (ib, Inr pkt) \<Rightarrow>
          (let (c, pkt) = pna_main_program B S (c\<lparr>pna_input_buffer := ib\<rparr>) pkt;
               port = unat (bm_get_egress_port B pkt);
               protocol = get_ns_protocol B pkt;
               addr_index = unat (get_ns_address B pkt)
           in if length (destination_list c) \<le> addr_index then (c, Inl Undefined)
              else (c\<lparr>sent := sent c @ [\<lparr>send_data = ConvertToNs3Packet B pkt, send_port = port,
                        send_protocol = protocol, send_destination = destination_list c ! addr_index\<rparr>]\<rparr>,
                    Inr True)))"

definition pna_receive_packet ::
  "('p, 'b, 'w) bm \<Rightarrow> ('addr, 'w, 'q) pna \<Rightarrow> u8 list \<Rightarrow> u32 \<Rightarrow> u16 \<Rightarrow> 'addr \<Rightarrow> ('addr, 'w, 'q) pna \<times> 'p" where
  "pna_receive_packet B c packetIn inPort protocol destination =
     (let (c, pkt) = ConvertToBmPacket B c packetIn inPort;
          len = bm_data_size B pkt;
          pkt = bm_reset_metadata B pkt;
          pkt = clear_all B pkt;
          pkt = set_ns_protocol B pkt protocol;
          (c, addr_index) = GetAddressIndex c destination;
          pkt = set_ns_address B pkt (ucast addr_index);
          pkt = bm_set_field B pkt ''pna_main_parser_input_metadata.recirculated'' 0;
          pkt = bm_set_field B pkt ''pna_main_parser_input_metadata.input_port'' (unat inPort);
          pkt = bm_set_register B pkt PACKET_LENGTH_REG_IDX (of_nat len)
      in (c, pkt))"

definition PnaReceivePacket ::
  "('p, 'b, 'w) bm \<Rightarrow> ('p, 'q) bmq \<Rightarrow> ('addr, 'w, 'q) pna \<Rightarrow> u8 list \<Rightarrow> u32 \<Rightarrow> u16 \<Rightarrow> 'addr \<Rightarrow>
   (('addr, 'w, 'q) pna, int) outcome" where
  "PnaReceivePacket B Q c packetIn inPort protocol destination =
     (let (c, pkt) = pna_receive_packet B c packetIn inPort protocol destination
      in case bq_push_front Q (pna_input_buffer c) pkt of
           (ib, Inl e) \<Rightarrow> (c\<lparr>pna_input_buffer := ib\<rparr>, Inl e)
         | (ib, Inr _) \<Rightarrow> (c\<lparr>pna_input_buffer := ib\<rparr>, Inr 0))"

text \<open>The virtual functions that this core leaves without effect, and the reset.\<close>

definition pna_receive :: "('addr, 'w, 'q) pna \<Rightarrow> u32 \<Rightarrow> u8 list \<Rightarrow> ('addr, 'w, 'q) pna \<times> int" where
  "pna_receive c port_num buffer = (c, 0)"

definition pna_start_and_return :: "('addr, 'w, 'q) pna \<Rightarrow> ('addr, 'w, 'q) pna" where
  "pna_start_and_return c = c"

definition pna_reset_target_state :: "('p, 'b, 'w) bm \<Rightarrow> ('addr, 'w, 'q) pna \<Rightarrow> ('addr, 'w, 'q) pna" where
  "pna_reset_target_state B c = c\<lparr>world := bm_reset_pre B (world c)\<rparr>"

definition PnaHandleIngressPipeline :: "('addr, 'w, 'q) pna \<Rightarrow> ('addr, 'w, 'q) pna" where
  "PnaHandleIngressPipeline c = c"

definition PnaHandleEgressPipeline :: "('addr, 'w, 'q) pna \<Rightarrow> nat \<Rightarrow> ('addr, 'w, 'q) pna \<times> bool" where
  "PnaHandleEgressPipeline c workerId = (c, False)"

definition PnaEnqueue :: "('addr, 'w, 'q) pna \<Rightarrow> u32 \<Rightarrow> 'p \<Rightarrow> ('addr, 'w, 'q) pna" where
  "PnaEnqueue c egress_port packet = c"

subsection \<open>The invariant\<close>

text \<open>
  \<open>R\<close> is the list of protocols and destinations received, oldest first. What was sent is its
  beginning, and the packets that wait in the queue are its end (as long as the 16-bit index
  tells the addresses apart).
\<close>

definition tag_of :: "('p, 'b, 'w) bm \<Rightarrow> 'addr list \<Rightarrow> 'p \<Rightarrow> u16 \<times> 'addr" where
  "tag_of B l pkt = (fst (ns_tag B pkt), l ! unat (snd (ns_tag B pkt)))"

definition sent_tags :: "('addr, 'w, 'z) switch_core_scheme \<Rightarrow> (u16 \<times> 'addr) list" where
  "sent_tags c = map (\<lambda>k. (send_protocol k, send_destination k)) (sent c)"

definition pna_ok :: "('p, 'b, 'w) bm \<Rightarrow> ('p, 'q) bmq \<Rightarrow> (u16 \<times> 'addr) list \<Rightarrow> ('addr, 'w, 'q) pna \<Rightarrow> bool" where
  "pna_ok B Q R c \<longleftrightarrow>
     addr_wf c \<and> bq_capacity Q (pna_input_buffer c) = 1024 \<and> length (bq_contents Q (pna_input_buffer c)) \<le> 1024 \<and>
     (\<forall>p \<in> set (bq_contents Q (pna_input_buffer c)). unat (snd (ns_tag B p)) < length (destination_list c)) \<and>
     length R = length (sent c) + length (bq_contents Q (pna_input_buffer c)) \<and>
     (length (destination_list c) \<le> 65536 \<longrightarrow>
        R = sent_tags c @ map (tag_of B (destination_list c)) (rev (bq_contents Q (pna_input_buffer c))))"

text \<open>The states a NIC reaches by receptions and runs of the main pipeline that return.\<close>

inductive pna_reach :: "('p, 'b, 'w) bm \<Rightarrow> ('p, 'q) bmq \<Rightarrow> (u16 \<times> 'addr) list \<Rightarrow> ('addr, 'w, 'q) pna \<Rightarrow> bool"
  for B :: "('p, 'b, 'w) bm" and Q :: "('p, 'q) bmq" where
  new: "P4PnaNic Q S pid w st = (c, st') \<Longrightarrow> pna_reach B Q [] c"
| receive: "pna_reach B Q R c \<Longrightarrow> PnaReceivePacket B Q c d port proto dst = (c', Inr r) \<Longrightarrow>
    pna_reach B Q (R @ [(proto, dst)]) c'"
| main: "pna_reach B Q R c \<Longrightarrow> main_processing_pipeline B Q S c = (c', Inr b) \<Longrightarrow> pna_reach B Q R c'"

lemma pna_ok_new:
  assumes "queue_laws Q" "P4PnaNic Q S pid w st = (c, st')"
  shows "pna_ok B Q [] c"
proof -
  have "addr_wf (fst (P4SwitchCore S False SSWITCH_DROP_PORT pid w st))" by (rule addr_wf_new)
  with assms show ?thesis
    by (auto simp: pna_ok_def P4PnaNic_def P4SwitchCore_def queue_laws_def switch_core.extend_def pna.fields_def
        addr_wf_def sent_tags_def)
qed

text \<open>What a reception does before it pushes.\<close>

lemma pna_receive_packet_tag:
  assumes B: "program_frame B" and r: "pna_receive_packet B c d port proto dst = (c1, pkt)"
  shows "ns_tag B pkt = (proto, ucast (snd (GetAddressIndex c dst)))"
    and "destination_list c1 = destination_list (fst (GetAddressIndex c dst))"
    and "addr_wf c \<Longrightarrow> addr_wf c1" and "sent c1 = sent c" and "pna_input_buffer c1 = pna_input_buffer c"
proof -
  note L = program_frameD(1) [OF B] and F = program_frameD(2) [OF B]
  let ?c = "c\<lparr>packet_id := packet_id c + 1\<rparr>"
  have s: "snd (GetAddressIndex ?c dst) = snd (GetAddressIndex c dst)"
    "destination_list (fst (GetAddressIndex ?c dst)) = destination_list (fst (GetAddressIndex c dst))"
    by (rule GetAddressIndex_same; simp)+
  obtain l m where f: "fst (GetAddressIndex ?c dst) = ?c\<lparr>destination_list := l, address_map := m\<rparr>"
    using GetAddressIndex_frame [of ?c dst] by auto
  have c1: "c1 = fst (GetAddressIndex ?c dst)"
    using r by (auto simp: pna_receive_packet_def ConvertToBmPacket_def Let_def case_prod_beta)
  have "addr_wf c \<Longrightarrow> addr_wf ?c" by (simp add: addr_wf_def)
  then show "addr_wf c \<Longrightarrow> addr_wf c1" by (simp add: c1 GetAddressIndex_wf)
  show "destination_list c1 = destination_list (fst (GetAddressIndex c dst))" by (simp add: c1 s)
  show "sent c1 = sent c" "pna_input_buffer c1 = pna_input_buffer c" by (simp_all add: c1 f)
  show "ns_tag B pkt = (proto, ucast (snd (GetAddressIndex c dst)))"
    using r ns_tag_stored [OF L] by (auto simp: pna_receive_packet_def ConvertToBmPacket_def Let_def case_prod_beta s ns_field_frame [OF F] L)
qed

lemma tag_of_extend:
  "\<lbrakk>unat (snd (ns_tag B p)) < length l\<rbrakk> \<Longrightarrow> tag_of B (l @ l') p = tag_of B l p"
  by (simp add: tag_of_def nth_append)

lemma pna_ok_receive:
  assumes B: "program_frame B" and Q: "queue_laws Q" and ok: "pna_ok B Q R c"
    and r: "PnaReceivePacket B Q c d port proto dst = (c', Inr k)"
  shows "pna_ok B Q (R @ [(proto, dst)]) c'"
proof -
  obtain c1 pkt where p: "pna_receive_packet B c d port proto dst = (c1, pkt)" by fastforce
  note P = pna_receive_packet_tag [OF B p]
  let ?q = "pna_input_buffer c"
  have push: "bq_push_front Q ?q pkt = (pna_input_buffer c', Inr ())" and c': "c' = c1\<lparr>pna_input_buffer := pna_input_buffer c'\<rparr>"
    using r by (auto simp: PnaReceivePacket_def p P(5) split: sum.splits prod.splits)
  have room: "length (bq_contents Q ?q) < bq_capacity Q ?q"
    using Q push unfolding queue_laws_def by (metis sum.distinct(1) prod.inject)
  then have q': "bq_contents Q (pna_input_buffer c') = pkt # bq_contents Q ?q"
    "bq_capacity Q (pna_input_buffer c') = bq_capacity Q ?q"
    using Q push unfolding queue_laws_def by (metis fst_conv)+
  obtain l where l: "destination_list c1 = destination_list c @ l"
    using GetAddressIndex_prefix [of c dst] P(2) by auto
  have wf: "addr_wf c" using ok by (simp add: pna_ok_def)
  have m: "addr_wf c'" "destination_list c' = destination_list c1" "sent c' = sent c"
    using P(3) [OF wf] P(4) by (subst c', simp add: addr_wf_def)+
  have "unat (snd (ns_tag B pkt)) < length (destination_list c1)"
    using address_index_in_range [OF wf] by (simp add: P)
  moreover have "tag_of B (destination_list c1) pkt = (proto, dst)" if "length (destination_list c1) \<le> 65536"
    using address_index_lookup [OF wf, of dst] that by (simp add: tag_of_def P)
  moreover have "map (tag_of B (destination_list c1)) (rev (bq_contents Q ?q)) = map (tag_of B (destination_list c)) (rev (bq_contents Q ?q))"
    using ok by (auto simp: l pna_ok_def intro: tag_of_extend)
  ultimately show ?thesis
    using ok room by (auto simp: pna_ok_def m q' sent_tags_def l trans_less_add1)
qed

lemma ns_pna_main_program:
  assumes B: "program_frame B"
  shows "ns_tag B (snd (pna_main_program B S c pkt)) = ns_tag B pkt"
  by (simp add: pna_main_program_def Let_def case_prod_beta program_frameD [OF B] ns_field_frame [OF program_frameD(2) [OF B]] copy_field_def)

lemma pna_main_cases:
  assumes B: "program_frame B" and Q: "queue_laws Q" and ok: "pna_ok B Q R c"
  obtains (empty) "bq_contents Q (pna_input_buffer c) = []" "main_processing_pipeline B Q S c = (c, Inl Blocks)"
  | (sends) p ps c' data port where "bq_contents Q (pna_input_buffer c) = ps @ [p]"
      "main_processing_pipeline B Q S c = (c', Inr True)"
      "bq_contents Q (pna_input_buffer c') = ps" "bq_capacity Q (pna_input_buffer c') = bq_capacity Q (pna_input_buffer c)"
      "destination_list c' = destination_list c" "address_map c' = address_map c"
      "sent c' = sent c @ [\<lparr>send_data = data, send_port = port, send_protocol = fst (tag_of B (destination_list c) p),
         send_destination = snd (tag_of B (destination_list c) p)\<rparr>]"
proof (cases "bq_contents Q (pna_input_buffer c) = []")
  case True
  moreover have "bq_pop_back Q (pna_input_buffer c) = (pna_input_buffer c, Inl Blocks)"
    using Q True by (simp add: queue_laws_def)
  ultimately show thesis by (intro empty) (simp_all add: main_processing_pipeline_def)
next
  case False
  then obtain ps p where s: "bq_contents Q (pna_input_buffer c) = ps @ [p]" by (metis append_butlast_last_id)
  obtain ib where pop: "bq_pop_back Q (pna_input_buffer c) = (ib, Inr p)" "bq_contents Q ib = ps"
    "bq_capacity Q ib = bq_capacity Q (pna_input_buffer c)"
    using Q False s unfolding queue_laws_def by (metis butlast_snoc last_snoc prod.collapse)
  obtain c1 pkt where m: "pna_main_program B S (c\<lparr>pna_input_buffer := ib\<rparr>) p = (c1, pkt)" by fastforce
  have t: "ns_tag B pkt = ns_tag B p"
    using ns_pna_main_program [OF B, of S "c\<lparr>pna_input_buffer := ib\<rparr>" p] by (simp add: m)
  obtain w where c1: "c1 = c\<lparr>pna_input_buffer := ib, world := w\<rparr>"
    using m by (auto simp: pna_main_program_def Let_def case_prod_beta)
  have g: "get_ns_protocol B pkt = fst (ns_tag B p)" "get_ns_address B pkt = snd (ns_tag B p)"
    using t by (auto simp: ns_tag_def)
  have "unat (snd (ns_tag B p)) < length (destination_list c)" using ok s by (simp add: pna_ok_def)
  then have M: "main_processing_pipeline B Q S c =
      (c1\<lparr>sent := sent c @ [\<lparr>send_data = ConvertToNs3Packet B pkt, send_port = unat (bm_get_egress_port B pkt),
         send_protocol = fst (ns_tag B p), send_destination = destination_list c ! unat (snd (ns_tag B p))\<rparr>]\<rparr>, Inr True)"
    by (simp add: main_processing_pipeline_def pop m c1 g Let_def)
  show thesis by (rule sends [OF s M]) (simp_all add: pop c1 tag_of_def)
qed

lemma pna_ok_main:
  assumes B: "program_frame B" and Q: "queue_laws Q" and ok: "pna_ok B Q R c"
    and r: "main_processing_pipeline B Q S c = (c', Inr b)"
  shows "pna_ok B Q R c'"
proof (rule pna_main_cases [OF B Q ok, of S], goal_cases)
  case 1
  with r show ?case by simp
next
  case (2 p ps k data port)
  then have k: "k = c'" using r by simp
  have "addr_wf c'" using ok 2(5,6) unfolding k by (simp add: pna_ok_def addr_wf_def)
  with ok 2 show ?case by (auto simp: pna_ok_def k sent_tags_def)
qed

lemma pna_reach_ok:
  assumes "program_frame B" "queue_laws Q"
  shows "pna_reach B Q R c \<Longrightarrow> pna_ok B Q R c"
  by (induction rule: pna_reach.induct) (auto intro: pna_ok_new pna_ok_receive pna_ok_main assms)


text \<open>C37. The NIC core keeps order and labels. In every state that receptions and runs of the main pipeline lead to, what it has
  handed to the net device are the first packets received, in the order of reception and each with its own
  protocol and destination, and exactly the others wait in its queue, in order, labelled, and at most 1024 of them (as
  long as at most 65536 destinations have been seen). Nothing in the repository runs the main pipeline (\<open>pna_receptions_block\<close>
  is what receptions alone lead to).\<close>

theorem pna_in_order:
  assumes "program_frame B" "queue_laws Q" "pna_reach B Q R c" "length (destination_list c) \<le> 65536"
  shows "sent_tags c = take (length (sent c)) R \<and>
         length R = length (sent c) + length (bq_contents Q (pna_input_buffer c)) \<and>
         map (tag_of B (destination_list c)) (rev (bq_contents Q (pna_input_buffer c))) = drop (length (sent c)) R \<and>
         length (bq_contents Q (pna_input_buffer c)) \<le> 1024"
  using pna_reach_ok [OF assms(1-3)] assms(4) by (auto simp: pna_ok_def sent_tags_def)

text \<open>The main pipeline never fails: in every reachable state with a packet in the queue it sends
  exactly one packet, whatever the program does to it, and it waits only when the queue is empty.\<close>

theorem pna_main_total:
  assumes "program_frame B" "queue_laws Q" "pna_reach B Q R c"
  shows "if bq_contents Q (pna_input_buffer c) = [] then main_processing_pipeline B Q S c = (c, Inl Blocks)
         else snd (main_processing_pipeline B Q S c) = Inr True \<and>
              length (sent (fst (main_processing_pipeline B Q S c))) = length (sent c) + 1"
  by (rule pna_main_cases [OF assms(1,2) pna_reach_ok [OF assms], of S]) auto

text \<open>A run of receptions alone, as the net device makes them.\<close>

definition pna_receptions ::
  "('p, 'b, 'w) bm \<Rightarrow> ('p, 'q) bmq \<Rightarrow> ('addr, 'w, 'q) pna \<Rightarrow> (u8 list \<times> u32 \<times> u16 \<times> 'addr) list \<Rightarrow> ('addr, 'w, 'q) pna" where
  "pna_receptions B Q = foldl (\<lambda>c (d, port, proto, dst). fst (PnaReceivePacket B Q c d port proto dst))"

lemma pna_receive_frame:
  assumes Q: "queue_laws Q"
  shows "sent (fst (PnaReceivePacket B Q c d port proto dst)) = sent c"
    and "bq_capacity Q (pna_input_buffer (fst (PnaReceivePacket B Q c d port proto dst))) = bq_capacity Q (pna_input_buffer c)"
    and "length (bq_contents Q (pna_input_buffer (fst (PnaReceivePacket B Q c d port proto dst)))) =
      (if length (bq_contents Q (pna_input_buffer c)) < bq_capacity Q (pna_input_buffer c)
       then Suc (length (bq_contents Q (pna_input_buffer c))) else length (bq_contents Q (pna_input_buffer c)))"
    and "snd (PnaReceivePacket B Q c d port proto dst) =
      (if length (bq_contents Q (pna_input_buffer c)) < bq_capacity Q (pna_input_buffer c) then Inr 0 else Inl Blocks)"
proof -
  obtain c1 pkt where p: "pna_receive_packet B c d port proto dst = (c1, pkt)" by fastforce
  obtain l m where f: "fst (GetAddressIndex (c\<lparr>packet_id := packet_id c + 1\<rparr>) dst) =
      c\<lparr>packet_id := packet_id c + 1\<rparr>\<lparr>destination_list := l, address_map := m\<rparr>"
    using GetAddressIndex_frame [of "c\<lparr>packet_id := packet_id c + 1\<rparr>" dst] by auto
  have c1: "sent c1 = sent c" "pna_input_buffer c1 = pna_input_buffer c"
    using p by (auto simp: pna_receive_packet_def ConvertToBmPacket_def Let_def case_prod_beta f)
  obtain ib r where b: "bq_push_front Q (pna_input_buffer c) pkt = (ib, r)" by fastforce
  have "if length (bq_contents Q (pna_input_buffer c)) < bq_capacity Q (pna_input_buffer c)
        then r = Inr () \<and> bq_contents Q ib = pkt # bq_contents Q (pna_input_buffer c) \<and>
             bq_capacity Q ib = bq_capacity Q (pna_input_buffer c)
        else ib = pna_input_buffer c \<and> r = Inl Blocks"
    using Q b unfolding queue_laws_def by (metis (no_types, lifting) fst_conv snd_conv)
  then show "sent (fst (PnaReceivePacket B Q c d port proto dst)) = sent c"
    and "bq_capacity Q (pna_input_buffer (fst (PnaReceivePacket B Q c d port proto dst))) = bq_capacity Q (pna_input_buffer c)"
    and "length (bq_contents Q (pna_input_buffer (fst (PnaReceivePacket B Q c d port proto dst)))) =
      (if length (bq_contents Q (pna_input_buffer c)) < bq_capacity Q (pna_input_buffer c)
       then Suc (length (bq_contents Q (pna_input_buffer c))) else length (bq_contents Q (pna_input_buffer c)))"
    and "snd (PnaReceivePacket B Q c d port proto dst) =
      (if length (bq_contents Q (pna_input_buffer c)) < bq_capacity Q (pna_input_buffer c) then Inr 0 else Inl Blocks)"
    by (auto simp: PnaReceivePacket_def p c1 b split: if_splits)
qed

text \<open>The NIC alone never forwards. Its reception does not run the main pipeline, and nothing else
  of the program does: after any number of receptions nothing has been sent, and from the 1025th
  on a reception waits for room for ever.\<close>

theorem pna_receptions_block:
  assumes "queue_laws Q" "P4PnaNic Q S pid w st = (c, st')"
  shows "sent (pna_receptions B Q c ps) = [] \<and>
         length (bq_contents Q (pna_input_buffer (pna_receptions B Q c ps))) = min (length ps) 1024 \<and>
         snd (PnaReceivePacket B Q (pna_receptions B Q c ps) d port proto dst) =
           (if length ps < 1024 then Inr 0 else Inl Blocks)"
proof -
  have "sent (pna_receptions B Q c ps) = [] \<and>
      bq_capacity Q (pna_input_buffer (pna_receptions B Q c ps)) = 1024 \<and>
      length (bq_contents Q (pna_input_buffer (pna_receptions B Q c ps))) = min (length ps) 1024"
  proof (induction ps rule: rev_induct)
    case Nil
    show ?case using pna_ok_new [OF assms] by (auto simp: pna_receptions_def pna_ok_def)
  next
    case (snoc x ps)
    obtain d port proto dst where x: "x = (d, port, proto, dst)" by (cases x) auto
    have "pna_receptions B Q c (ps @ [x]) = fst (PnaReceivePacket B Q (pna_receptions B Q c ps) d port proto dst)"
      by (simp add: pna_receptions_def x)
    with snoc show ?case by (auto simp: pna_receive_frame [OF assms(1)])
  qed
  then show ?thesis by (auto simp: pna_receive_frame [OF assms(1)])
qed

subsection \<open>An example\<close>

definition ex_nic_B :: "(expkt, u8 list, (u32 \<times> nat) list) bm" where
  "ex_nic_B = ex_bm v1_fields (forward_to 3)"

definition ex_sim :: sim where "ex_sim = \<lparr>sim_now = 0, sim_seconds = (\<lambda>_. 0)\<rparr>"

definition ex_nic :: "(nat, (u32 \<times> nat) list, expkt list \<times> nat) pna" where
  "ex_nic = fst (P4PnaNic list_queue ex_sim 0 [] initial_statics)"

lemma ex_nic_B_frame: "program_frame ex_nic_B"
  by (simp add: ex_nic_B_def ex_program_frame)

lemma ex_nic_new: "P4PnaNic list_queue ex_sim 0 [] initial_statics = (ex_nic, snd (P4PnaNic list_queue ex_sim 0 []
    initial_statics :: (nat, (u32 \<times> nat) list, expkt list \<times> nat) pna \<times> statics))"
  by (simp add: ex_nic_def)

lemma ex_nic_reach: "pna_reach B list_queue [] ex_nic"
  by (rule pna_reach.new [OF ex_nic_new])

definition ex_nic1 :: "(nat, (u32 \<times> nat) list, expkt list \<times> nat) pna" where
  "ex_nic1 = fst (PnaReceivePacket ex_nic_B list_queue ex_nic [1, 2] 1 0x0800 42)"

lemma ex_nic1_members: "length (bq_contents list_queue (pna_input_buffer ex_nic1)) = 1" "sent ex_nic1 = []"
  "snd (PnaReceivePacket ex_nic_B list_queue ex_nic [1, 2] 1 0x0800 42) = Inr 0"
  "destination_list ex_nic1 = [42]"
proof -
  have e: "bq_contents list_queue (pna_input_buffer ex_nic) = []" "bq_capacity list_queue (pna_input_buffer ex_nic) = 1024"
    "sent ex_nic = []"
    by (simp_all add: ex_nic_def P4PnaNic_def P4SwitchCore_def switch_core.extend_def pna.fields_def list_queue_def)
  show "length (bq_contents list_queue (pna_input_buffer ex_nic1)) = 1" "sent ex_nic1 = []"
    "snd (PnaReceivePacket ex_nic_B list_queue ex_nic [1, 2] 1 0x0800 42) = Inr 0"
    using e by (simp_all add: ex_nic1_def pna_receive_frame [OF list_queue_laws])
  show "destination_list ex_nic1 = [42]"
    by (simp add: ex_nic1_def PnaReceivePacket_def pna_receive_packet_def ConvertToBmPacket_def Let_def case_prod_beta
        GetAddressIndex_def ex_nic_def P4PnaNic_def P4SwitchCore_def switch_core.extend_def pna.fields_def list_queue_def)
qed

lemma ex_nic1_reach: "pna_reach ex_nic_B list_queue [(0x0800, 42)] ex_nic1"
  using pna_reach.receive [OF ex_nic_reach, of ex_nic_B "[1, 2]" 1 "0x0800" 42 ex_nic1 0] ex_nic1_members(3)
  by (simp add: ex_nic1_def prod_eq_iff)

theorem pna_main_total_witness:
  "snd (main_processing_pipeline ex_nic_B list_queue ex_sim ex_nic1) = Inr True \<and>
   length (sent (fst (main_processing_pipeline ex_nic_B list_queue ex_sim ex_nic1))) = 1"
  using pna_main_total [OF ex_nic_B_frame list_queue_laws ex_nic1_reach, of ex_sim] ex_nic1_members(1,2)
  by (cases "bq_contents list_queue (pna_input_buffer ex_nic1)") simp_all

lemma ex_nic2: obtains c where "main_processing_pipeline ex_nic_B list_queue ex_sim ex_nic1 = (c, Inr True)"
  "length (sent c) = 1" "destination_list c = [42]"
  by (rule pna_main_cases [OF ex_nic_B_frame list_queue_laws pna_reach_ok [OF ex_nic_B_frame list_queue_laws ex_nic1_reach], of ex_sim])
    (use ex_nic1_members in auto)

theorem pna_in_order_witness:
  "sent_tags (fst (main_processing_pipeline ex_nic_B list_queue ex_sim ex_nic1)) = [(0x0800, 42)]"
proof -
  obtain c where c: "main_processing_pipeline ex_nic_B list_queue ex_sim ex_nic1 = (c, Inr True)"
    "length (sent c) = 1" "destination_list c = [42]" by (rule ex_nic2)
  from pna_in_order [OF ex_nic_B_frame list_queue_laws pna_reach.main [OF ex_nic1_reach c(1)]] c show ?thesis by simp
qed

theorem pna_receptions_block_witness:
  "snd (PnaReceivePacket ex_nic_B list_queue (pna_receptions ex_nic_B list_queue ex_nic (replicate 1024 ([7], 1, 0x0800, 42)))
     [7] 1 0x0800 42) = Inl Blocks"
  using pna_receptions_block [OF list_queue_laws ex_nic_new, of ex_nic_B "replicate 1024 ([7], 1, 0x0800, 42)"] by simp

end
