(* ===== verification/Pipeline_Core.thy ===== *)
theory Pipeline_Core
  imports Core_Common
begin

text \<open>
  \<open>P4CorePipeline\<close> (\<open>model/p4-core-pipeline.h\<close>, \<open>model/p4-core-pipeline.cc\<close>): the v1model pipeline
  without buffers. A packet is parsed, processed by the ingress and egress programs, deparsed
  and sent within one call of \<open>ReceivePacket\<close>.
\<close>

text \<open>The hash that programs of this core may call; a signed \<open>char\<close> is sign-extended.\<close>

definition hash_ex_v1model_pipeline :: "u8 list \<Rightarrow> u32" where
  "hash_ex_v1model_pipeline buf =
     (let p = 16777619;
          hash = foldl (\<lambda>hash b. (hash XOR scast b) * p) 2166136261 buf;
          hash = hash + push_bit 13 hash;
          hash = hash XOR drop_bit 7 hash;
          hash = hash + push_bit 3 hash;
          hash = hash XOR drop_bit 17 hash;
          hash = hash + push_bit 5 hash
      in hash)"

definition P4CorePipeline ::
  "sim \<Rightarrow> bool \<Rightarrow> u64 \<Rightarrow> 'w \<Rightarrow> statics \<Rightarrow> ('addr, 'w) switch_core \<times> statics" where
  "P4CorePipeline S enableTracing pid w st =
     (let (base, st) = P4SwitchCore S enableTracing SSWITCH_DROP_PORT pid w st
      in (base\<lparr>thrift_command := ''simple_switch_CLI'', enable_queueing_metadata := False\<rparr>, st))"

definition pipeline_packet_normal :: nat where "pipeline_packet_normal = 0"

text \<open>The packet up to the end of the ingress program.\<close>

definition pipeline_ingress ::
  "('p, 'b, 'w) bm \<Rightarrow> ('addr, 'w, 'z) switch_core_scheme \<Rightarrow> u8 list \<Rightarrow> u32 \<Rightarrow> ('addr, 'w, 'z) switch_core_scheme \<times> 'p" where
  "pipeline_ingress B c packetIn inPort =
     (let (c, pkt) = ConvertToBmPacket B c packetIn inPort;
          len = bm_data_size B pkt;
          pkt = bm_set_ingress_port B pkt inPort;
          pkt = bm_reset_metadata B pkt;
          pkt = bm_set_field B pkt ''standard_metadata.ingress_port'' (unat inPort);
          pkt = bm_set_register B pkt PACKET_LENGTH_REG_IDX (of_nat len);
          pkt = bm_set_field B pkt ''standard_metadata.packet_length'' len;
          pkt = bm_set_field B pkt ''standard_metadata.instance_type'' pipeline_packet_normal;
          (w, pkt) = bm_parse B ''parser'' (world c) pkt;
          (w, pkt) = bm_apply B ''ingress'' w pkt;
          pkt = bm_reset_exit B pkt
      in (c\<lparr>world := w\<rparr>, pkt))"

text \<open>
  The whole reception. \<open>f_egress_spec\<close> is a reference to the header field, so the assignment of
  the field to itself before it is set to 0 changes nothing.
\<close>

definition PipelineReceivePacket ::
  "('p, 'b, 'w) bm \<Rightarrow> ('addr, 'w, 'z) switch_core_scheme \<Rightarrow> u8 list \<Rightarrow> u32 \<Rightarrow> u16 \<Rightarrow> 'addr \<Rightarrow>
   ('addr, 'w, 'z) switch_core_scheme \<times> int" where
  "PipelineReceivePacket B c packetIn inPort protocol destination =
     (let (c, pkt) = pipeline_ingress B c packetIn inPort;
          egress_spec = get_uint B pkt ''standard_metadata.egress_spec'';
          learn_id = get_lf_field_list B pkt;
          c = (if learn_id > 0 then c\<lparr>world := bm_learn B (unat learn_id) pkt (world c)\<rparr> else c);
          pkt = bm_set_field B pkt ''standard_metadata.egress_port'' (unat egress_spec);
          pkt = bm_set_field B pkt ''standard_metadata.egress_spec'' 0;
          pkt = bm_set_field B pkt ''standard_metadata.packet_length''
                  (unat (bm_get_register B pkt PACKET_LENGTH_REG_IDX));
          (w, pkt) = bm_apply B ''egress'' (world c) pkt;
          (w, pkt) = bm_deparse B ''deparser'' w pkt;
          ns_packet = ConvertToNs3Packet B pkt
      in (c\<lparr>world := w, sent := sent c @ [\<lparr>send_data = ns_packet, send_port = unat egress_spec,
                                             send_protocol = protocol, send_destination = destination\<rparr>]\<rparr>, 0))"

text \<open>The virtual functions that this core leaves without effect.\<close>

definition PipelineHandleIngressPipeline :: "('addr, 'w, 'z) switch_core_scheme \<Rightarrow> ('addr, 'w, 'z) switch_core_scheme" where
  "PipelineHandleIngressPipeline c = c"

definition PipelineHandleEgressPipeline ::
  "('addr, 'w, 'z) switch_core_scheme \<Rightarrow> nat \<Rightarrow> ('addr, 'w, 'z) switch_core_scheme \<times> bool" where
  "PipelineHandleEgressPipeline c workerId = (c, False)"

definition PipelineEnqueue :: "('addr, 'w, 'z) switch_core_scheme \<Rightarrow> u32 \<Rightarrow> 'p \<Rightarrow> ('addr, 'w, 'z) switch_core_scheme" where
  "PipelineEnqueue c egress_port packet = c"

definition pipeline_receive :: "('addr, 'w, 'z) switch_core_scheme \<Rightarrow> u32 \<Rightarrow> u8 list \<Rightarrow> ('addr, 'w, 'z) switch_core_scheme \<times> int" where
  "pipeline_receive c port_num buffer = (c, 0)"

definition pipeline_start_and_return :: "('addr, 'w, 'z) switch_core_scheme \<Rightarrow> ('addr, 'w, 'z) switch_core_scheme" where
  "pipeline_start_and_return c = c"

definition pipeline_swap_notify :: "('addr, 'w, 'z) switch_core_scheme \<Rightarrow> ('addr, 'w, 'z) switch_core_scheme" where
  "pipeline_swap_notify c = c"

definition pipeline_reset_target_state :: "('addr, 'w, 'z) switch_core_scheme \<Rightarrow> ('addr, 'w, 'z) switch_core_scheme" where
  "pipeline_reset_target_state c = c"

subsection \<open>Lemmas\<close>

text \<open>Every packet the pipeline core receives leaves it in the same call, once: on the port that the
  ingress program chose, with the protocol and destination it came with, whatever the egress
  program does to \<open>egress_spec\<close>. The drop port is passed on like any other, and neither the
  address table nor the mirroring sessions change.\<close>

theorem pipeline_sends_once:
  assumes "pipeline_ingress B c d port = (c1, pkt1)"
  shows "\<exists>data w. PipelineReceivePacket B c d port proto dst =
     (c\<lparr>packet_id := packet_id c + 1, world := w,
        sent := sent c @ [\<lparr>send_data = data,
                          send_port = unat (get_uint B pkt1 ''standard_metadata.egress_spec''),
                          send_protocol = proto, send_destination = dst\<rparr>]\<rparr>, 0)"
proof -
  obtain w1 where c1: "c1 = c\<lparr>packet_id := packet_id c + 1, world := w1\<rparr>"
    using assms by (auto simp: pipeline_ingress_def ConvertToBmPacket_def Let_def case_prod_beta)
  show ?thesis
    by (simp add: PipelineReceivePacket_def assms c1 Let_def case_prod_beta) (auto intro!: exI)
qed

text \<open>A run of receptions.\<close>

definition pipeline_run ::
  "('p, 'b, 'w) bm \<Rightarrow> ('addr, 'w, 'z) switch_core_scheme \<Rightarrow> (u8 list \<times> u32 \<times> u16 \<times> 'addr) list \<Rightarrow>
   ('addr, 'w, 'z) switch_core_scheme" where
  "pipeline_run B = foldl (\<lambda>c (d, port, proto, dst). fst (PipelineReceivePacket B c d port proto dst))"

text \<open>Over any sequence of receptions the pipeline core neither loses, duplicates, reorders nor
  relabels a packet: the protocols and destinations handed to the net device are those received, in
  the order of reception.\<close>

theorem pipeline_run_order:
  "map (\<lambda>k. (send_protocol k, send_destination k)) (sent (pipeline_run B c ps)) =
   map (\<lambda>k. (send_protocol k, send_destination k)) (sent c) @ map (\<lambda>(d, port, proto, dst). (proto, dst)) ps"
proof (induction ps arbitrary: c)
  case (Cons x ps)
  obtain d port proto dst where x: "x = (d, port, proto, dst)" by (cases x) auto
  have "map (\<lambda>k. (send_protocol k, send_destination k)) (sent (fst (PipelineReceivePacket B c d port proto dst))) =
      map (\<lambda>k. (send_protocol k, send_destination k)) (sent c) @ [(proto, dst)]"
    by (auto simp: PipelineReceivePacket_def pipeline_ingress_def ConvertToBmPacket_def Let_def case_prod_beta)
  with Cons.IH [of "fst (PipelineReceivePacket B c d port proto dst)"] show ?case
    by (simp add: pipeline_run_def x)
qed (simp add: pipeline_run_def)

text \<open>An example: the program of \<open>Bm_Example\<close> that forwards to a port.\<close>

definition ex_pipeline :: "(nat, (u32 \<times> nat) list) switch_core" where
  "ex_pipeline = fst (P4CorePipeline \<lparr>sim_now = 0, sim_seconds = (\<lambda>_. 0)\<rparr> False 0 [] initial_statics)"

theorem pipeline_sends_once_witness:
  "\<exists>data w. PipelineReceivePacket (ex_bm v1_fields (forward_to 511)) ex_pipeline [1, 2] 1 0x0800 42 =
     (ex_pipeline\<lparr>packet_id := 1, world := w,
        sent := [\<lparr>send_data = data, send_port = 511, send_protocol = 0x0800, send_destination = 42\<rparr>]\<rparr>, 0)"
proof -
  obtain c1 pkt1 where i: "pipeline_ingress (ex_bm v1_fields (forward_to 511)) ex_pipeline [1, 2] 1 = (c1, pkt1)"
    by fastforce
  have "get_uint (ex_bm v1_fields (forward_to 511)) pkt1 ''standard_metadata.egress_spec'' = 511"
    using i by (auto simp: pipeline_ingress_def ex_bm_def v1_fields_def forward_to_def Let_def case_prod_beta)
  moreover have "sent ex_pipeline = []" "packet_id ex_pipeline = 0"
    by (simp_all add: ex_pipeline_def P4CorePipeline_def P4SwitchCore_def)
  ultimately show ?thesis using pipeline_sends_once [OF i, of "0x0800" 42] by simp
qed

end
