(* ===== verification/Switch_Device.thy ===== *)
theory Switch_Device
  imports V1model_Timers Psa_Core Pna_Core Pipeline_Core
begin

text \<open>
  \<open>P4SwitchNetDevice\<close> (\<open>model/p4-switch-net-device.h\<close>, \<open>model/p4-switch-net-device.cc\<close>), the ns-3
  device that bridges its ports through a P4 core: reception on a port, dispatch to the core of the
  chosen architecture, and the sending of what the core hands back.
\<close>

subsection \<open>What comes from ns-3\<close>

text \<open>
  Addresses are values of \<open>'addr\<close>; those that are MAC addresses satisfy \<open>is_mac\<close>, and
  \<open>Mac48Address::ConvertFrom\<close> asserts it. \<open>eth_add\<close>, \<open>eth_peek\<close> and \<open>eth_remove\<close> are
  \<open>AddHeader\<close>, \<open>PeekHeader\<close> (the length/type field, if a header could be read) and \<open>RemoveHeader\<close> of
  an \<open>EthernetHeader\<close> on the bytes of a packet.
\<close>

record ('dev, 'addr, 'chan) ns3 =
  is_mac :: "'addr \<Rightarrow> bool"
  mac_default :: 'addr
  mac_broadcast :: 'addr
  mac_multicast4 :: "u32 \<Rightarrow> 'addr"
  eth_add :: "'addr \<Rightarrow> 'addr \<Rightarrow> u16 \<Rightarrow> u8 list \<Rightarrow> u8 list"
  eth_peek :: "u8 list \<Rightarrow> u16 option"
  eth_remove :: "u8 list \<Rightarrow> u8 list"
  dev_address :: "'dev \<Rightarrow> 'addr"
  dev_supports_send_from :: "'dev \<Rightarrow> bool"
  dev_channel :: "'dev \<Rightarrow> 'chan"

text \<open>Documented behaviour of the header functions: what was added is read back and removed.\<close>

definition eth_laws :: "('dev, 'addr, 'chan) ns3 \<Rightarrow> bool" where
  "eth_laws N \<longleftrightarrow>
     (\<forall>d s t x. eth_peek N (eth_add N d s t x) = Some t \<and> eth_remove N (eth_add N d s t x) = x)"

subsection \<open>The state\<close>

text \<open>The calls the device makes on its callbacks and on its ports, in order.\<close>

datatype ('dev, 'addr) dev_call =
    PromiscRx "u8 list" u16 'addr 'addr
  | Rx "u8 list" u16 'addr
  | PortSend 'dev "u8 list" 'addr u16
  | PortSendFrom 'dev "u8 list" 'addr 'addr u16
  | SwitchEvent u32 string

definition P4CHANNELCSMA :: u32 where "P4CHANNELCSMA = 0"
definition P4CHANNELP2P :: u32 where "P4CHANNELP2P = 1"
definition P4SWITCH_ARCH_V1MODEL :: u32 where "P4SWITCH_ARCH_V1MODEL = 0"
definition P4SWITCH_ARCH_PSA :: u32 where "P4SWITCH_ARCH_PSA = 1"
definition P4NIC_ARCH_PNA :: u32 where "P4NIC_ARCH_PNA = 2"
definition P4SWITCH_ARCH_PIPELINE :: u32 where "P4SWITCH_ARCH_PIPELINE = 3"

record ('dev, 'addr, 'chan, 'w, 'p, 'q) switch_device =
  nd_enable_tracing :: bool
  nd_enable_swap :: bool
  nd_switch_arch :: u32
  nd_json_path :: string
  nd_flow_table_path :: string
  nd_v1model :: "('addr, 'w, 'p) v1model option"
  nd_pipeline :: "('addr, 'w) switch_core option"
  nd_psa :: "('addr, 'w, 'p, 'q) psa option"
  nd_pna :: "('addr, 'w, 'q) pna option"
  nd_input_buffer_low :: nat
  nd_input_buffer_high :: nat
  nd_queue_buffer_size :: nat
  nd_switch_rate :: u64
  nd_channel_type :: u32
  nd_address :: 'addr
  nd_ports :: "'dev list"
  nd_bridged :: "'chan list"
  nd_if_index :: u32
  nd_mtu :: u16
  nd_rx_callback :: bool
  nd_promisc_callback :: bool
  nd_calls :: "('dev, 'addr) dev_call list"

text \<open>A new device has the default values of its attributes.\<close>

definition P4SwitchNetDevice :: "('dev, 'addr, 'chan) ns3 \<Rightarrow> ('dev, 'addr, 'chan, 'w, 'p, 'q) switch_device" where
  "P4SwitchNetDevice N =
     \<lparr>nd_enable_tracing = False, nd_enable_swap = False, nd_switch_arch = P4SWITCH_ARCH_V1MODEL,
      nd_json_path = ''/path/to/default.json'', nd_flow_table_path = ''/path/to/flow_table.txt'',
      nd_v1model = None, nd_pipeline = None, nd_psa = None, nd_pna = None,
      nd_input_buffer_low = 128, nd_input_buffer_high = 128, nd_queue_buffer_size = 128, nd_switch_rate = 1000,
      nd_channel_type = P4CHANNELCSMA, nd_address = mac_default N, nd_ports = [], nd_bridged = [],
      nd_if_index = 0, nd_mtu = 1500, nd_rx_callback = False, nd_promisc_callback = False, nd_calls = []\<rparr>"

subsection \<open>Ports\<close>

definition GetNBridgePorts :: "('dev, 'addr, 'chan, 'w, 'p, 'q) switch_device \<Rightarrow> nat" where
  "GetNBridgePorts dv = length (nd_ports dv)"

definition GetBridgePort :: "('dev, 'addr, 'chan, 'w, 'p, 'q) switch_device \<Rightarrow> nat \<Rightarrow> 'dev option" where
  "GetBridgePort dv n = (if n \<ge> length (nd_ports dv) then None else Some (nd_ports dv ! n))"

text \<open>
  \<open>AddBridgePort\<close>. (\<open>bridgePort\<close> is never the device itself: ports are of another type here. The
  protocol handler that is registered is \<open>ReceiveFromDevice\<close>.)
\<close>

definition AddBridgePort ::
  "('dev, 'addr, 'chan) ns3 \<Rightarrow> ('dev, 'addr, 'chan, 'w, 'p, 'q) switch_device \<Rightarrow> 'dev \<Rightarrow>
   (('dev, 'addr, 'chan, 'w, 'p, 'q) switch_device, unit) outcome" where
  "AddBridgePort N dv bridgePort =
     (if \<not> is_mac N (dev_address N bridgePort) then (dv, Inl AssertFailure)
      else if \<not> dev_supports_send_from N bridgePort then (dv, Inl AssertFailure)
      else
        (let dv = (if nd_address dv = mac_default N then dv\<lparr>nd_address := dev_address N bridgePort\<rparr> else dv);
             dv = dv\<lparr>nd_ports := nd_ports dv @ [bridgePort]\<rparr>
         in (dv\<lparr>nd_bridged := nd_bridged dv @ [dev_channel N bridgePort]\<rparr>, Inr ())))"

text \<open>
  \<open>GetPortNumber\<close>: the \<open>return\<close> is not part of the \<open>if\<close>, which governs the log statement only, so
  the loop ends in its first round. \<open>-1\<close> as a \<open>uint32_t\<close> is the largest number.
\<close>

fun GetPortNumber_loop :: "('dev, 'addr, 'chan, 'w, 'p, 'q) switch_device \<Rightarrow> nat list \<Rightarrow> 'dev \<Rightarrow> u32" where
  "GetPortNumber_loop dv [] port = - 1"
| "GetPortNumber_loop dv (i # is) port =
     (let found = (GetBridgePort dv i = Some port) in of_nat i)"

definition GetPortNumber :: "('dev, 'addr, 'chan, 'w, 'p, 'q) switch_device \<Rightarrow> 'dev \<Rightarrow> u32" where
  "GetPortNumber dv port = GetPortNumber_loop dv [0..<GetNBridgePorts dv] port"

subsection \<open>Sending\<close>

text \<open>
  \<open>SendNs3Packet\<close>: the Ethernet header in front of the packet is removed and its type becomes the
  protocol number. Port 511 drops; a port that does not exist is a null pointer.
\<close>

definition SendNs3Packet ::
  "('dev, 'addr, 'chan) ns3 \<Rightarrow> ('dev, 'addr, 'chan, 'w, 'p, 'q) switch_device \<Rightarrow> u8 list option \<Rightarrow> nat \<Rightarrow> u16 \<Rightarrow> 'addr \<Rightarrow>
   (('dev, 'addr, 'chan, 'w, 'p, 'q) switch_device, unit) outcome" where
  "SendNs3Packet N dv packetOut outPort protocol destination =
     (case packetOut of
        None \<Rightarrow> (dv, Inr ())
      | Some packet \<Rightarrow>
          (let protocol = (case eth_peek N packet of Some t \<Rightarrow> t | None \<Rightarrow> protocol);
               packet = eth_remove N packet
           in if outPort \<noteq> 511
              then (case GetBridgePort dv outPort of
                      None \<Rightarrow> (dv, Inl Undefined)
                    | Some outNetDevice \<Rightarrow>
                        (dv\<lparr>nd_calls := nd_calls dv @ [PortSend outNetDevice packet destination protocol]\<rparr>, Inr ()))
              else (dv, Inr ())))"

definition SendPacket ::
  "('dev, 'addr, 'chan) ns3 \<Rightarrow> ('dev, 'addr, 'chan, 'w, 'p, 'q) switch_device \<Rightarrow> u8 list option \<Rightarrow> nat \<Rightarrow> u16 \<Rightarrow> 'addr \<Rightarrow>
   (('dev, 'addr, 'chan, 'w, 'p, 'q) switch_device, unit) outcome" where
  "SendPacket N dv packetOut outPort protocol destination = SendNs3Packet N dv packetOut outPort protocol destination"

text \<open>\<open>Send\<close> and \<open>SendFrom\<close>, the device's own transmissions: a copy to every port.\<close>

definition SendFrom ::
  "('dev, 'addr, 'chan) ns3 \<Rightarrow> ('dev, 'addr, 'chan, 'w, 'p, 'q) switch_device \<Rightarrow> u8 list \<Rightarrow> 'addr \<Rightarrow> 'addr \<Rightarrow> u16 \<Rightarrow>
   (('dev, 'addr, 'chan, 'w, 'p, 'q) switch_device, bool) outcome" where
  "SendFrom N dv packet src dest protocolNumber =
     (if \<not> is_mac N dest then (dv, Inl AssertFailure)
      else (foldl (\<lambda>dv port. dv\<lparr>nd_calls := nd_calls dv @ [PortSendFrom port packet src dest protocolNumber]\<rparr>) dv (nd_ports dv),
            Inr True))"

definition Send ::
  "('dev, 'addr, 'chan) ns3 \<Rightarrow> ('dev, 'addr, 'chan, 'w, 'p, 'q) switch_device \<Rightarrow> u8 list \<Rightarrow> 'addr \<Rightarrow> u16 \<Rightarrow>
   (('dev, 'addr, 'chan, 'w, 'p, 'q) switch_device, bool) outcome" where
  "Send N dv packet dest protocolNumber = SendFrom N dv packet (nd_address dv) dest protocolNumber"

subsection \<open>Calls into the cores\<close>

text \<open>
  The sends that a core made in a call (\<open>sent\<close>, empty before the call) are calls of
  \<open>SendNs3Packet\<close> on this device, in their order.
\<close>

fun deliver ::
  "('dev, 'addr, 'chan) ns3 \<Rightarrow> 'addr send_call list \<Rightarrow> ('dev, 'addr, 'chan, 'w, 'p, 'q) switch_device \<Rightarrow>
   (('dev, 'addr, 'chan, 'w, 'p, 'q) switch_device, unit) outcome" where
  "deliver N [] dv = (dv, Inr ())"
| "deliver N (k # ks) dv =
     (case SendNs3Packet N dv (Some (send_data k)) (send_port k) (send_protocol k) (send_destination k) of
        (dv, Inl e) \<Rightarrow> (dv, Inl e)
      | (dv, Inr _) \<Rightarrow> deliver N ks dv)"

text \<open>The result of a core's call: its sends are delivered, its failure is the device's.\<close>

definition after_core ::
  "('dev, 'addr, 'chan) ns3 \<Rightarrow> ('dev, 'addr, 'chan, 'w, 'p, 'q) switch_device \<Rightarrow> 'addr send_call list \<Rightarrow> stop + 'r \<Rightarrow>
   (('dev, 'addr, 'chan, 'w, 'p, 'q) switch_device, unit) outcome" where
  "after_core N dv calls r =
     (case deliver N calls dv of
        (dv, Inl e) \<Rightarrow> (dv, Inl e)
      | (dv, Inr _) \<Rightarrow> (case r of Inl e \<Rightarrow> (dv, Inl e) | Inr _ \<Rightarrow> (dv, Inr ())))"

text \<open>The \<open>switch\<close> over the architecture; a core that was not created is a null pointer.\<close>

definition core_dispatch ::
  "('dev, 'addr, 'chan) ns3 \<Rightarrow> nat \<Rightarrow> ('p, 'b, 'w) bm \<Rightarrow> ('p, 'q) bmq \<Rightarrow> sim \<Rightarrow> ('dev, 'addr, 'chan, 'w, 'p, 'q) switch_device \<Rightarrow>
   u8 list \<Rightarrow> u32 \<Rightarrow> u16 \<Rightarrow> 'addr \<Rightarrow> (('dev, 'addr, 'chan, 'w, 'p, 'q) switch_device, unit) outcome" where
  "core_dispatch N fuel B Q S dv packet inPort protocol dst =
     (if nd_switch_arch dv = P4SWITCH_ARCH_V1MODEL
      then (case nd_v1model dv of None \<Rightarrow> (dv, Inl Undefined)
            | Some c \<Rightarrow> (case ReceivePacket fuel B S c packet inPort protocol dst of
                (c, r) \<Rightarrow> after_core N (dv\<lparr>nd_v1model := Some (c\<lparr>sent := []\<rparr>)\<rparr>) (sent c) r))
      else if nd_switch_arch dv = P4SWITCH_ARCH_PSA
      then (case nd_psa dv of None \<Rightarrow> (dv, Inl Undefined)
            | Some c \<Rightarrow> (case PsaReceivePacket fuel B Q S c packet inPort protocol dst of
                (c, r) \<Rightarrow> after_core N (dv\<lparr>nd_psa := Some (c\<lparr>sent := []\<rparr>)\<rparr>) (sent c) r))
      else if nd_switch_arch dv = P4NIC_ARCH_PNA
      then (case nd_pna dv of None \<Rightarrow> (dv, Inl Undefined)
            | Some c \<Rightarrow> (case PnaReceivePacket B Q c packet inPort protocol dst of
                (c, r) \<Rightarrow> after_core N (dv\<lparr>nd_pna := Some (c\<lparr>sent := []\<rparr>)\<rparr>) (sent c) r))
      else if nd_switch_arch dv = P4SWITCH_ARCH_PIPELINE
      then (case nd_pipeline dv of None \<Rightarrow> (dv, Inl Undefined)
            | Some c \<Rightarrow> (case PipelineReceivePacket B c packet inPort protocol dst of
                (c, r) \<Rightarrow> after_core N (dv\<lparr>nd_pipeline := Some (c\<lparr>sent := []\<rparr>)\<rparr>) (sent c) (Inr r)))
      else (dv, Inr ()))"

definition ReceiveFromDevice ::
  "('dev, 'addr, 'chan) ns3 \<Rightarrow> nat \<Rightarrow> ('p, 'b, 'w) bm \<Rightarrow> ('p, 'q) bmq \<Rightarrow> sim \<Rightarrow> ('dev, 'addr, 'chan, 'w, 'p, 'q) switch_device \<Rightarrow>
   'dev \<Rightarrow> u8 list \<Rightarrow> u16 \<Rightarrow> 'addr \<Rightarrow> 'addr \<Rightarrow> (('dev, 'addr, 'chan, 'w, 'p, 'q) switch_device, unit) outcome" where
  "ReceiveFromDevice N fuel B Q S dv incomingPort packet protocol src dst =
     (if \<not> is_mac N src \<or> \<not> is_mac N dst then (dv, Inl AssertFailure)
      else
        (let dv = (if nd_promisc_callback dv
                   then dv\<lparr>nd_calls := nd_calls dv @ [PromiscRx packet protocol src dst]\<rparr> else dv)
         in if dst = nd_address dv \<and> \<not> nd_rx_callback dv then (dv, Inl Undefined)
            else
              (let dv = (if dst = nd_address dv then dv\<lparr>nd_calls := nd_calls dv @ [Rx packet protocol src]\<rparr> else dv);
                   inPort = GetPortNumber dv incomingPort;
                   packet = (if nd_channel_type dv = P4CHANNELCSMA then eth_add N dst src protocol packet
                             else if nd_channel_type dv = P4CHANNELP2P then eth_add N dst src protocol packet
                             else packet)
               in core_dispatch N fuel B Q S dv packet inPort protocol dst)))"

text \<open>The simulator events that a core has scheduled, run on the device.\<close>

definition v1model_timer ::
  "('dev, 'addr, 'chan) ns3 \<Rightarrow> ('p, 'b, 'w) bm \<Rightarrow> sim \<Rightarrow> ('dev, 'addr, 'chan, 'w, 'p, 'q) switch_device \<Rightarrow>
   (('dev, 'addr, 'chan, 'w, 'p, 'q) switch_device, unit) outcome" where
  "v1model_timer N B S dv =
     (case nd_v1model dv of None \<Rightarrow> (dv, Inl Undefined)
      | Some c \<Rightarrow> (case SetEgressTimerEvent B S c of
          (c, r) \<Rightarrow> after_core N (dv\<lparr>nd_v1model := Some (c\<lparr>sent := []\<rparr>)\<rparr>) (sent c) r))"

definition psa_timer ::
  "('dev, 'addr, 'chan) ns3 \<Rightarrow> nat \<Rightarrow> ('p, 'b, 'w) bm \<Rightarrow> ('p, 'q) bmq \<Rightarrow> sim \<Rightarrow> ('dev, 'addr, 'chan, 'w, 'p, 'q) switch_device \<Rightarrow>
   (('dev, 'addr, 'chan, 'w, 'p, 'q) switch_device, unit) outcome" where
  "psa_timer N fuel B Q S dv =
     (case nd_psa dv of None \<Rightarrow> (dv, Inl Undefined)
      | Some c \<Rightarrow> (case PsaSetEgressTimerEvent fuel B Q S c of
          (c, r) \<Rightarrow> after_core N (dv\<lparr>nd_psa := Some (c\<lparr>sent := []\<rparr>)\<rparr>) (sent c) r))"

subsection \<open>Start and end\<close>

text \<open>
  What \<open>DoInitialize\<close> uses from outside: the clock, BMv2's initialiser and its runtime, the
  shell that runs the table commands, the fields of the loaded program, and the value of the
  base class's uninitialised packet counter.
\<close>

record 'w startup =
  su_sim :: sim
  su_init :: "options \<Rightarrow> 'w \<Rightarrow> int \<times> 'w"
  su_good :: "string \<Rightarrow> bool"
  su_start_server :: "nat \<Rightarrow> 'w \<Rightarrow> 'w"
  su_system :: "string \<Rightarrow> 'w \<Rightarrow> int \<times> 'w"
  su_runtime_port :: nat
  su_field_exists :: "string \<Rightarrow> bool"
  su_packet_id :: u64
  su_world :: 'w

definition load_program ::
  "'w startup \<Rightarrow> string \<Rightarrow> string \<Rightarrow> ('addr, 'w, 'z) switch_core_scheme \<Rightarrow> statics \<Rightarrow> ('addr, 'w, 'z) switch_core_scheme \<times> statics" where
  "load_program U json table c st =
     (let (c, st) = InitializeSwitchFromP4Json (su_init U) c st json
      in (fst (LoadFlowTableToSwitch (su_good U) (su_start_server U) (su_system U) (su_runtime_port U) c table), st))"

definition DoInitialize ::
  "('p, 'q) bmq \<Rightarrow> 'w startup \<Rightarrow> ('dev, 'addr, 'chan, 'w, 'p, 'q) switch_device \<Rightarrow> statics \<Rightarrow>
   (('dev, 'addr, 'chan, 'w, 'p, 'q) switch_device, unit) outcome \<times> statics" where
  "DoInitialize Q U dv st =
     (if nd_switch_arch dv = P4SWITCH_ARCH_V1MODEL
      then (case P4CoreV1model (su_sim U) (nd_enable_tracing dv) (nd_switch_rate dv) (nd_input_buffer_low dv)
              (nd_input_buffer_high dv) (nd_queue_buffer_size dv) SSWITCH_VIRTUAL_QUEUE_NUM_V1MODEL (su_packet_id U) (su_world U) st of
              ((c, Inl e), st) \<Rightarrow> ((dv, Inl e), st)
            | ((c, Inr _), st) \<Rightarrow>
                (let (c, st) = load_program U (nd_json_path dv) (nd_flow_table_path dv) c st
                 in ((dv\<lparr>nd_v1model := Some (start_and_return (su_field_exists U) c)\<rparr>, Inr ()), st)))
      else if nd_switch_arch dv = P4SWITCH_ARCH_PSA
      then (case P4CorePsa Q (su_sim U) (nd_enable_tracing dv) (nd_switch_rate dv) (nd_input_buffer_low dv)
              (nd_queue_buffer_size dv) SSWITCH_VIRTUAL_QUEUE_NUM_PSA (su_packet_id U) (su_world U) st of
              ((c, Inl e), st) \<Rightarrow> ((dv, Inl e), st)
            | ((c, Inr _), st) \<Rightarrow>
                (let (c, st) = load_program U (nd_json_path dv) (nd_flow_table_path dv) c st
                 in ((dv\<lparr>nd_psa := Some (psa_start_and_return (su_field_exists U) c)\<rparr>, Inr ()), st)))
      else if nd_switch_arch dv = P4NIC_ARCH_PNA
      then (let (c, st) = P4PnaNic Q (su_sim U) (su_packet_id U) (su_world U) st;
                (c, st) = InitializeSwitchFromP4Json (su_init U) c st (nd_json_path dv)
            in ((dv\<lparr>nd_pna := Some (pna_start_and_return c)\<rparr>, Inr ()), st))
      else if nd_switch_arch dv = P4SWITCH_ARCH_PIPELINE
      then (let (c, st) = P4CorePipeline (su_sim U) (nd_enable_tracing dv) (su_packet_id U) (su_world U) st;
                (c, st) = load_program U (nd_json_path dv) (nd_flow_table_path dv) c st
            in ((dv\<lparr>nd_pipeline := Some (pipeline_start_and_return c)\<rparr>, Inr ()), st))
      else ((dv, Inr ()), st))"

definition DoDispose :: "('dev, 'addr, 'chan, 'w, 'p, 'q) switch_device \<Rightarrow> ('dev, 'addr, 'chan, 'w, 'p, 'q) switch_device" where
  "DoDispose dv = dv\<lparr>nd_ports := [], nd_bridged := []\<rparr>"

subsection \<open>Accessors\<close>

definition SetIfIndex :: "('dev, 'addr, 'chan, 'w, 'p, 'q) switch_device \<Rightarrow> u32 \<Rightarrow> ('dev, 'addr, 'chan, 'w, 'p, 'q) switch_device" where
  "SetIfIndex dv index = dv\<lparr>nd_if_index := index\<rparr>"

definition GetIfIndex :: "('dev, 'addr, 'chan, 'w, 'p, 'q) switch_device \<Rightarrow> u32" where
  "GetIfIndex dv = nd_if_index dv"

definition SetAddress ::
  "('dev, 'addr, 'chan) ns3 \<Rightarrow> ('dev, 'addr, 'chan, 'w, 'p, 'q) switch_device \<Rightarrow> 'addr \<Rightarrow>
   (('dev, 'addr, 'chan, 'w, 'p, 'q) switch_device, unit) outcome" where
  "SetAddress N dv address = (if \<not> is_mac N address then (dv, Inl AssertFailure) else (dv\<lparr>nd_address := address\<rparr>, Inr ()))"

definition GetAddress :: "('dev, 'addr, 'chan, 'w, 'p, 'q) switch_device \<Rightarrow> 'addr" where
  "GetAddress dv = nd_address dv"

definition SetMtu :: "('dev, 'addr, 'chan, 'w, 'p, 'q) switch_device \<Rightarrow> u16 \<Rightarrow> ('dev, 'addr, 'chan, 'w, 'p, 'q) switch_device \<times> bool" where
  "SetMtu dv mtu = (dv\<lparr>nd_mtu := mtu\<rparr>, True)"

definition GetMtu :: "('dev, 'addr, 'chan, 'w, 'p, 'q) switch_device \<Rightarrow> u16" where
  "GetMtu dv = nd_mtu dv"

definition SetJsonPath :: "('dev, 'addr, 'chan, 'w, 'p, 'q) switch_device \<Rightarrow> string \<Rightarrow> ('dev, 'addr, 'chan, 'w, 'p, 'q) switch_device" where
  "SetJsonPath dv jsonPath = dv\<lparr>nd_json_path := jsonPath\<rparr>"

definition GetJsonPath :: "('dev, 'addr, 'chan, 'w, 'p, 'q) switch_device \<Rightarrow> string" where
  "GetJsonPath dv = nd_json_path dv"

definition SetFlowTablePath :: "('dev, 'addr, 'chan, 'w, 'p, 'q) switch_device \<Rightarrow> string \<Rightarrow> ('dev, 'addr, 'chan, 'w, 'p, 'q) switch_device" where
  "SetFlowTablePath dv flowTablePath = dv\<lparr>nd_flow_table_path := flowTablePath\<rparr>"

definition GetFlowTablePath :: "('dev, 'addr, 'chan, 'w, 'p, 'q) switch_device \<Rightarrow> string" where
  "GetFlowTablePath dv = nd_flow_table_path dv"

text \<open>The capabilities the device answers to, the same in every state.\<close>

definition IsLinkUp :: bool where "IsLinkUp = True"
definition IsBroadcast :: bool where "IsBroadcast = True"
definition IsMulticast :: bool where "IsMulticast = True"
definition IsPointToPoint :: bool where "IsPointToPoint = False"
definition IsBridge :: bool where "IsBridge = True"
definition NeedsArp :: bool where "NeedsArp = True"
definition SupportsSendFrom :: bool where "SupportsSendFrom = True"

definition GetBroadcast :: "('dev, 'addr, 'chan) ns3 \<Rightarrow> 'addr" where
  "GetBroadcast N = mac_broadcast N"

definition GetMulticast :: "('dev, 'addr, 'chan) ns3 \<Rightarrow> u32 \<Rightarrow> 'addr" where
  "GetMulticast N multicastGroup = mac_multicast4 N multicastGroup"

text \<open>A callback is kept as whether it is set: what it does is the upper layer's.\<close>

definition SetReceiveCallback :: "('dev, 'addr, 'chan, 'w, 'p, 'q) switch_device \<Rightarrow> bool \<Rightarrow> ('dev, 'addr, 'chan, 'w, 'p, 'q) switch_device" where
  "SetReceiveCallback dv cb = dv\<lparr>nd_rx_callback := cb\<rparr>"

definition SetPromiscReceiveCallback :: "('dev, 'addr, 'chan, 'w, 'p, 'q) switch_device \<Rightarrow> bool \<Rightarrow> ('dev, 'addr, 'chan, 'w, 'p, 'q) switch_device" where
  "SetPromiscReceiveCallback dv cb = dv\<lparr>nd_promisc_callback := cb\<rparr>"

definition GetV1ModelCore :: "('dev, 'addr, 'chan, 'w, 'p, 'q) switch_device \<Rightarrow> ('addr, 'w, 'p) v1model option" where
  "GetV1ModelCore dv = nd_v1model dv"

definition EmitSwitchEvent ::
  "('dev, 'addr, 'chan, 'w, 'p, 'q) switch_device \<Rightarrow> u32 \<Rightarrow> string \<Rightarrow> ('dev, 'addr, 'chan, 'w, 'p, 'q) switch_device" where
  "EmitSwitchEvent dv ev msg = dv\<lparr>nd_calls := nd_calls dv @ [SwitchEvent ev msg]\<rparr>"

end
