(* ===== verification/Device_Properties.thy ===== *)
theory Device_Properties
  imports Switch_Device
begin

text \<open>
  The net device between its ports and its core: which port number the core is told, what becomes
  of the packets the core hands back, flooding of the device's own packets, and the state
  that start-up establishes and every event keeps.
\<close>

subsection \<open>Port numbers\<close>

lemma GetPortNumber_eq: "GetPortNumber dv port = (if nd_ports dv = [] then - 1 else 0)"
  by (cases "nd_ports dv") (simp_all add: GetPortNumber_def GetNBridgePorts_def upt_conv_Cons del: upt_Suc)

text \<open>The device tells its core the same port number for every port: 0 as soon as it has a port,
  for the \<open>return\<close> in the search loop is not under its \<open>if\<close>. So reception does not depend on the
  port the packet came in on.\<close>

theorem reception_ignores_port:
  "GetPortNumber dv port = (if nd_ports dv = [] then - 1 else 0) \<and>
   ReceiveFromDevice N fuel B Q S dv port packet protocol src dst =
   ReceiveFromDevice N fuel B Q S dv port' packet protocol src dst"
  by (simp add: ReceiveFromDevice_def GetPortNumber_eq Let_def)

subsection \<open>Sending\<close>

lemma SendNs3Packet_frame:
  assumes "eth_laws N"
  shows "SendNs3Packet N dv (Some (eth_add N d s t payload)) q protocol destination =
    (if q = 511 then (dv, Inr ())
     else if q < length (nd_ports dv)
     then (dv\<lparr>nd_calls := nd_calls dv @ [PortSend (nd_ports dv ! q) payload destination t]\<rparr>, Inr ())
     else (dv, Inl Undefined))"
  using assms by (simp add: SendNs3Packet_def eth_laws_def GetBridgePort_def Let_def)

lemma flood_calls:
  "foldl (\<lambda>dv port. dv\<lparr>nd_calls := nd_calls dv @ [PortSendFrom port packet src dest proto]\<rparr>) dv ps =
   dv\<lparr>nd_calls := nd_calls dv @ map (\<lambda>port. PortSendFrom port packet src dest proto) ps\<rparr>"
  by (induction ps arbitrary: dv) simp_all

text \<open>A packet the device sends itself is flooded: every port gets one copy, in the order the ports
  were added, from the device's address; a destination that is not a MAC address stops the
  program.\<close>

theorem send_floods_ports:
  "Send N dv packet dest proto =
   (if is_mac N dest
    then (dv\<lparr>nd_calls := nd_calls dv @
            map (\<lambda>port. PortSendFrom port packet (GetAddress dv) dest proto) (nd_ports dv)\<rparr>, Inr True)
    else (dv, Inl AssertFailure))"
  by (simp add: Send_def SendFrom_def flood_calls GetAddress_def)

subsection \<open>The device around the pipeline core\<close>

text \<open>The callbacks made for a packet before it reaches the core.\<close>

definition upcalls ::
  "('dev, 'addr, 'chan, 'w, 'p, 'q) switch_device \<Rightarrow> u8 list \<Rightarrow> u16 \<Rightarrow> 'addr \<Rightarrow> 'addr \<Rightarrow> ('dev, 'addr) dev_call list" where
  "upcalls dv packet protocol src dst =
     (if nd_promisc_callback dv then [PromiscRx packet protocol src dst] else []) @
     (if dst = nd_address dv then [Rx packet protocol src] else [])"

lemma ReceiveFromDevice_ok:
  assumes "is_mac N src" "is_mac N dst" "nd_rx_callback dv \<or> dst \<noteq> nd_address dv"
    and "nd_channel_type dv = P4CHANNELCSMA \<or> nd_channel_type dv = P4CHANNELP2P" "nd_ports dv \<noteq> []"
  shows "ReceiveFromDevice N fuel B Q S dv port packet protocol src dst =
    core_dispatch N fuel B Q S (dv\<lparr>nd_calls := nd_calls dv @ upcalls dv packet protocol src dst\<rparr>)
      (eth_add N dst src protocol packet) 0 protocol dst"
  using assms by (auto simp: ReceiveFromDevice_def GetPortNumber_eq upcalls_def Let_def)

lemma PipelineReceivePacket_result:
  "\<exists>w data. PipelineReceivePacket B c d port proto dst =
     (c\<lparr>packet_id := packet_id c + 1, world := w,
        sent := sent c @ [\<lparr>send_data = data,
                          send_port = unat (get_uint B (snd (pipeline_ingress B c d port)) ''standard_metadata.egress_spec''),
                          send_protocol = proto, send_destination = dst\<rparr>]\<rparr>, 0)"
proof -
  obtain c1 pkt1 where i: "pipeline_ingress B c d port = (c1, pkt1)" by fastforce
  obtain w1 where "c1 = c\<lparr>packet_id := packet_id c + 1, world := w1\<rparr>"
    using i by (auto simp: pipeline_ingress_def ConvertToBmPacket_def Let_def case_prod_beta)
  then show ?thesis
    by (simp add: PipelineReceivePacket_def i Let_def case_prod_beta) (auto intro!: exI)
qed

lemma pipeline_device_through:
  assumes "eth_laws N" "is_mac N src" "is_mac N dst" "nd_rx_callback dv \<or> dst \<noteq> nd_address dv"
    and "nd_channel_type dv = P4CHANNELCSMA \<or> nd_channel_type dv = P4CHANNELP2P"
    and "nd_switch_arch dv = P4SWITCH_ARCH_PIPELINE" "nd_pipeline dv = Some c" "sent c = []"
    and "PipelineReceivePacket B c (eth_add N dst src protocol packet) 0 protocol dst = (c', r)"
    and "send_data (last (sent c')) = eth_add N d' s' t' payload"
    and "pipeline_ingress B c (eth_add N dst src protocol packet) 0 = (c1, pkt1)"
    and "unat (get_uint B pkt1 ''standard_metadata.egress_spec'') = q"
    and "q < length (nd_ports dv) \<or> q = 511" "nd_ports dv \<noteq> []"
  shows "ReceiveFromDevice N fuel B Q S dv port packet protocol src dst =
    (dv\<lparr>nd_pipeline := Some (c'\<lparr>sent := []\<rparr>),
        nd_calls := nd_calls dv @ upcalls dv packet protocol src dst @
          (if q = 511 then [] else [PortSend (nd_ports dv ! q) payload dst t'])\<rparr>, Inr ())"
proof -
  obtain w data where r: "PipelineReceivePacket B c (eth_add N dst src protocol packet) 0 protocol dst =
     (c\<lparr>packet_id := packet_id c + 1, world := w,
        sent := [\<lparr>send_data = data, send_port = q, send_protocol = protocol, send_destination = dst\<rparr>]\<rparr>, 0)"
    using PipelineReceivePacket_result [of B c "eth_add N dst src protocol packet" 0 protocol dst] assms(8,11,12)
    by auto
  with assms(9,10) have s: "sent c' = [\<lparr>send_data = eth_add N d' s' t' payload, send_port = q, send_protocol = protocol, send_destination = dst\<rparr>]"
    by auto
  show ?thesis
    using assms(13)
    by (auto simp: ReceiveFromDevice_ok assms(2-6,14) core_dispatch_def assms(7,9) s after_core_def
        SendNs3Packet_frame [OF assms(1)] P4SWITCH_ARCH_V1MODEL_def P4SWITCH_ARCH_PSA_def P4NIC_ARCH_PNA_def
        P4SWITCH_ARCH_PIPELINE_def)
qed

text \<open>C25. End to end through the device with the pipeline core: after the callbacks, a received packet is
  given an Ethernet header and processed, and the frame that the program produced leaves in the
  same call on the port the ingress program chose, with the type of its header; on 511 it is
  dropped.\<close>

theorem pipeline_device_end_to_end:
  assumes "eth_laws N" "is_mac N src" "is_mac N dst" "nd_rx_callback dv \<or> dst \<noteq> nd_address dv"
    and "nd_channel_type dv = P4CHANNELCSMA \<or> nd_channel_type dv = P4CHANNELP2P"
    and "nd_switch_arch dv = P4SWITCH_ARCH_PIPELINE" "nd_pipeline dv = Some c" "sent c = []"
    and "PipelineReceivePacket B c (eth_add N dst src protocol packet) 0 protocol dst = (c', r)"
    and "send_data (last (sent c')) = eth_add N d' s' t' payload"
    and "pipeline_ingress B c (eth_add N dst src protocol packet) 0 = (c1, pkt1)"
    and "unat (get_uint B pkt1 ''standard_metadata.egress_spec'') = q"
    and "q < length (nd_ports dv) \<or> q = 511" "nd_ports dv \<noteq> []"
  shows "ReceiveFromDevice N fuel B Q S dv port packet protocol src dst =
    (dv\<lparr>nd_pipeline := Some (c'\<lparr>sent := []\<rparr>),
        nd_calls := nd_calls dv @ upcalls dv packet protocol src dst @
          (if q = 511 then [] else [PortSend (nd_ports dv ! q) payload dst t'])\<rparr>, Inr ())"
  by (rule pipeline_device_through [OF assms])

subsection \<open>An example network\<close>

text \<open>Addresses below \<open>2 ^ 48\<close>, and the 14 bytes of an Ethernet header: destination, source, type.\<close>

definition mac_bytes :: "nat \<Rightarrow> u8 list" where
  "mac_bytes a = map (\<lambda>i. of_nat (a div 256 ^ i)) [5, 4, 3, 2, 1, 0]"

definition ex_net :: "(nat, nat, nat) ns3" where
  "ex_net =
     \<lparr>is_mac = (\<lambda>a. a < 2 ^ 48), mac_default = 0, mac_broadcast = 2 ^ 48 - 1, mac_multicast4 = unat,
      eth_add = (\<lambda>d s t x. mac_bytes d @ mac_bytes s @ [ucast (drop_bit 8 t), ucast t] @ x),
      eth_peek = (\<lambda>x. if length x < 14 then None
                       else Some (or (push_bit 8 (ucast (x ! 12))) (ucast (x ! 13)))),
      eth_remove = drop 14, dev_address = (\<lambda>d. d + 100), dev_supports_send_from = (\<lambda>_. True), dev_channel = id\<rparr>"

lemma bytes_of_u16: "or (push_bit 8 (ucast (ucast (drop_bit 8 t) :: u8))) (ucast (ucast t :: u8)) = (t :: u16)"
  by (rule bit_word_eqI) (auto simp: bit_simps)

lemma ex_net_laws [simp]: "eth_laws ex_net"
  by (simp add: eth_laws_def ex_net_def mac_bytes_def nth_append bytes_of_u16)

text \<open>Devices with two ports around a core, and a program that forwards to port 1.\<close>

definition ex_device :: "u32 \<Rightarrow> (nat, nat, nat, (u32 \<times> nat) list, expkt, expkt list \<times> nat) switch_device" where
  "ex_device arch = (P4SwitchNetDevice ex_net)
     \<lparr>nd_switch_arch := arch, nd_ports := [7, 8], nd_address := 107, nd_promisc_callback := True,
      nd_pipeline := Some ex_pipeline\<rparr>"

definition ex_pipe_B :: "(expkt, u8 list, (u32 \<times> nat) list) bm" where
  "ex_pipe_B = ex_bm v1_fields (forward_to 1)"

lemma ex_pipe_data:
  "send_data (last (sent (fst (PipelineReceivePacket ex_pipe_B ex_pipeline d port proto dst)))) = d"
  by (simp add: PipelineReceivePacket_def pipeline_ingress_def ConvertToBmPacket_def ConvertToNs3Packet_def ex_pipe_B_def
      ex_bm_def forward_to_def v1_fields_def Let_def case_prod_beta)

lemma ex_pipe_spec:
  "bm_get_field ex_pipe_B (snd (pipeline_ingress ex_pipe_B ex_pipeline d port)) ''standard_metadata.egress_spec'' = 1"
  by (simp add: pipeline_ingress_def ConvertToBmPacket_def ex_pipe_B_def ex_bm_def forward_to_def v1_fields_def Let_def case_prod_beta)

theorem pipeline_device_end_to_end_witness:
  "\<exists>c'. ReceiveFromDevice ex_net 0 ex_pipe_B list_queue ex_sim (ex_device 3) 7 [5, 6] 0x0800 50 60 =
     (ex_device 3\<lparr>nd_pipeline := Some c',
        nd_calls := [PromiscRx [5, 6] 0x0800 50 60, PortSend 8 [5, 6] 60 0x0800]\<rparr>, Inr ())"
proof -
  define fr where "fr = eth_add ex_net 60 50 0x0800 [5, 6]"
  obtain c' r where r: "PipelineReceivePacket ex_pipe_B ex_pipeline fr 0 0x0800 60 = (c', r)" by fastforce
  obtain c1 pkt1 where i: "pipeline_ingress ex_pipe_B ex_pipeline fr 0 = (c1, pkt1)" by fastforce
  have d: "send_data (last (sent c')) = fr"
    using ex_pipe_data [of fr 0 "0x0800" 60] r by simp
  have q: "unat (get_uint ex_pipe_B pkt1 ''standard_metadata.egress_spec'') = 1"
    using ex_pipe_spec [of fr 0] i by simp
  have s: "sent ex_pipeline = []"
    by (simp add: ex_pipeline_def P4CorePipeline_def P4SwitchCore_def)
  show ?thesis
    using pipeline_device_end_to_end [where N = ex_net and dv = "ex_device 3" and q = 1 and B = ex_pipe_B
        and c = ex_pipeline and src = 50 and dst = 60 and protocol = "0x0800" and packet = "[5, 6]" and port = 7
        and fuel = 0 and Q = list_queue and S = ex_sim and d' = 60 and s' = 50 and t' = "0x0800" and payload = "[5, 6]"
        and c' = c' and r = r and ?c1.0 = c1 and ?pkt1.0 = pkt1] r i d q s
    by (simp add: fr_def ex_device_def P4SwitchNetDevice_def upcalls_def P4SWITCH_ARCH_PIPELINE_def P4CHANNELCSMA_def) (auto simp: ex_net_def)
qed

subsection \<open>Every state of a running device\<close>

text \<open>The core of the chosen architecture exists, and calls go to ports the device has.\<close>

definition core_present :: "('dev, 'addr, 'chan, 'w, 'p, 'q) switch_device \<Rightarrow> bool" where
  "core_present dv \<longleftrightarrow>
     (nd_switch_arch dv = P4SWITCH_ARCH_V1MODEL \<longrightarrow> nd_v1model dv \<noteq> None) \<and>
     (nd_switch_arch dv = P4SWITCH_ARCH_PSA \<longrightarrow> nd_psa dv \<noteq> None) \<and>
     (nd_switch_arch dv = P4NIC_ARCH_PNA \<longrightarrow> nd_pna dv \<noteq> None) \<and>
     (nd_switch_arch dv = P4SWITCH_ARCH_PIPELINE \<longrightarrow> nd_pipeline dv \<noteq> None)"

definition calls_to_ports :: "('dev, 'addr, 'chan, 'w, 'p, 'q) switch_device \<Rightarrow> bool" where
  "calls_to_ports dv \<longleftrightarrow>
     (\<forall>d pkt dst t. PortSend d pkt dst t \<in> set (nd_calls dv) \<longrightarrow> d \<in> set (nd_ports dv))"

text \<open>What an event leaves alone, and what it keeps.\<close>

definition device_step :: "('dev, 'addr, 'chan, 'w, 'p, 'q) switch_device \<Rightarrow> ('dev, 'addr, 'chan, 'w, 'p, 'q) switch_device \<Rightarrow> bool" where
  "device_step dv dv' \<longleftrightarrow>
     nd_ports dv' = nd_ports dv \<and> nd_switch_arch dv' = nd_switch_arch dv \<and> nd_address dv' = nd_address dv \<and>
     (core_present dv \<longrightarrow> core_present dv') \<and> (calls_to_ports dv \<longrightarrow> calls_to_ports dv')"

lemma device_step_refl [simp]: "device_step dv dv"
  by (simp add: device_step_def)

lemma device_step_trans: "device_step a b \<Longrightarrow> device_step b c \<Longrightarrow> device_step a c"
  by (simp add: device_step_def)

lemma device_step_core [simp]:
  "device_step dv (dv\<lparr>nd_v1model := Some c1\<rparr>)" "device_step dv (dv\<lparr>nd_psa := Some c2\<rparr>)"
  "device_step dv (dv\<lparr>nd_pna := Some c3\<rparr>)" "device_step dv (dv\<lparr>nd_pipeline := Some c4\<rparr>)"
  by (simp_all add: device_step_def core_present_def calls_to_ports_def)

lemma device_step_up:
  "\<forall>d pkt dst t. k \<noteq> PortSend d pkt dst t \<Longrightarrow> device_step dv (dv\<lparr>nd_calls := nd_calls dv @ [k]\<rparr>)"
  by (simp add: device_step_def core_present_def calls_to_ports_def) metis

lemma device_step_send: "device_step dv (fst (SendNs3Packet N dv p q proto dst))"
  by (auto simp: SendNs3Packet_def device_step_def core_present_def calls_to_ports_def GetBridgePort_def Let_def
      split: option.split)

lemma device_step_deliver: "device_step dv (fst (deliver N ks dv))"
proof (induction ks arbitrary: dv)
  case (Cons k ks)
  obtain dv1 r where s: "SendNs3Packet N dv (Some (send_data k)) (send_port k) (send_protocol k) (send_destination k) = (dv1, r)"
    by fastforce
  have "device_step dv dv1"
    using device_step_send [of dv N "Some (send_data k)" "send_port k" "send_protocol k" "send_destination k"] s by simp
  then show ?case
    using Cons.IH [of dv1] by (cases r) (auto simp: s intro: device_step_trans)
qed simp

lemma device_step_after_core: "device_step dv (fst (after_core N dv ks r))"
  using device_step_deliver [of dv N ks] by (auto simp: after_core_def split: prod.split sum.split)

lemma device_step_dispatch: "device_step dv (fst (core_dispatch N fuel B Q S dv packet inPort protocol dst))"
  by (auto simp: core_dispatch_def split: option.split prod.split
      intro: device_step_trans [OF _ device_step_after_core] device_step_core)

lemma device_step_receive: "device_step dv (fst (ReceiveFromDevice N fuel B Q S dv port packet protocol src dst))"
proof -
  have u: "device_step dv (dv\<lparr>nd_calls := nd_calls dv @ upcalls dv packet protocol src dst\<rparr>)"
    by (auto simp: device_step_def core_present_def calls_to_ports_def upcalls_def)
  have p: "device_step dv (dv\<lparr>nd_calls := nd_calls dv @ [PromiscRx packet protocol src dst]\<rparr>)"
    by (rule device_step_up) simp
  have x: "device_step dv (dv\<lparr>nd_calls := nd_calls dv @ [Rx packet protocol src]\<rparr>)"
    by (rule device_step_up) simp
  show ?thesis
    using u p x
    by (auto simp: ReceiveFromDevice_def upcalls_def Let_def intro: device_step_trans [OF _ device_step_dispatch] device_step_dispatch)
qed

lemma device_step_v1model_timer: "device_step dv (fst (v1model_timer N B S dv))"
  by (auto simp: v1model_timer_def split: option.split prod.split
      intro: device_step_trans [OF _ device_step_after_core] device_step_core)

lemma device_step_psa_timer: "device_step dv (fst (psa_timer N fuel B Q S dv))"
  by (auto simp: psa_timer_def split: option.split prod.split
      intro: device_step_trans [OF _ device_step_after_core] device_step_core)

lemma device_step_flood: "device_step dv (fst (SendFrom N dv packet src dst proto))"
  by (auto simp: SendFrom_def flood_calls device_step_def core_present_def calls_to_ports_def)

text \<open>
  The states of a device that was configured with some ports, initialised, and then runs; a control
  plane may change the program state of a v1model core at any time (\<open>run_control\<close>).
\<close>

inductive device_run ::
  "('dev, 'addr, 'chan) ns3 \<Rightarrow> ('p, 'b, 'w) bm \<Rightarrow> ('p, 'q) bmq \<Rightarrow> ('dev, 'addr, 'chan, 'w, 'p, 'q) switch_device \<Rightarrow>
   ('dev, 'addr, 'chan, 'w, 'p, 'q) switch_device \<Rightarrow> bool" for N B Q dv0 where
  run_init: "DoInitialize Q U dv0 st = ((dv, Inr ()), st') \<Longrightarrow> device_run N B Q dv0 dv"
| run_receive: "device_run N B Q dv0 dv \<Longrightarrow>
    device_run N B Q dv0 (fst (ReceiveFromDevice N fuel B Q S dv port packet protocol src dst))"
| run_v1model: "device_run N B Q dv0 dv \<Longrightarrow> device_run N B Q dv0 (fst (v1model_timer N B S dv))"
| run_psa: "device_run N B Q dv0 dv \<Longrightarrow> device_run N B Q dv0 (fst (psa_timer N fuel B Q S dv))"
| run_send: "device_run N B Q dv0 dv \<Longrightarrow> device_run N B Q dv0 (fst (SendFrom N dv packet src dst protocol))"
| run_control: "device_run N B Q dv0 dv \<Longrightarrow> nd_v1model dv = Some c \<Longrightarrow>
    device_run N B Q dv0 (dv\<lparr>nd_v1model := Some (c\<lparr>world := w\<rparr>)\<rparr>)"

lemma DoInitialize_core:
  assumes "DoInitialize Q U dv0 st = ((dv, Inr ()), st')"
  shows "core_present dv \<and> nd_ports dv = nd_ports dv0 \<and> nd_switch_arch dv = nd_switch_arch dv0 \<and>
    nd_address dv = nd_address dv0 \<and> nd_calls dv = nd_calls dv0"
  using assms
  by (auto simp: DoInitialize_def core_present_def P4SWITCH_ARCH_V1MODEL_def P4SWITCH_ARCH_PSA_def P4NIC_ARCH_PNA_def
      P4SWITCH_ARCH_PIPELINE_def Let_def split: if_splits prod.splits sum.splits)

lemma device_run_inv:
  assumes "device_run N B Q dv0 dv" "nd_calls dv0 = []"
  shows "core_present dv \<and> calls_to_ports dv \<and> nd_ports dv = nd_ports dv0 \<and>
    nd_switch_arch dv = nd_switch_arch dv0 \<and> nd_address dv = nd_address dv0"
  using assms
proof (induction rule: device_run.induct)
  case (run_init U st dv st')
  then show ?case using DoInitialize_core [of Q U dv0 st dv st'] by (simp add: calls_to_ports_def)
next
  case (run_receive dv fuel S port packet protocol src dst)
  then show ?case
    using device_step_receive [of dv N fuel B Q S port packet protocol src dst] by (simp add: device_step_def)
next
  case (run_v1model dv S)
  then show ?case using device_step_v1model_timer [of dv N B S] by (simp add: device_step_def)
next
  case (run_psa dv fuel S)
  then show ?case using device_step_psa_timer [of dv N fuel B Q S] by (simp add: device_step_def)
next
  case (run_send dv packet src dst protocol)
  then show ?case using device_step_flood [of dv N packet src dst protocol] by (simp add: device_step_def)
next
  case (run_control dv c w)
  then show ?case using device_step_core(1) [of dv "c\<lparr>world := w\<rparr>"] by (simp add: device_step_def)
qed

text \<open>After start-up, and then in every state a run of receptions, timers and sends leads to, the core
  of the configured architecture exists, the ports and the architecture are those configured, and
  every packet was handed to a port of the device.\<close>

theorem device_invariant:
  assumes "device_run N B Q dv0 dv" "nd_calls dv0 = []"
  shows "core_present dv \<and> calls_to_ports dv \<and> nd_ports dv = nd_ports dv0 \<and>
    nd_switch_arch dv = nd_switch_arch dv0 \<and> nd_address dv = nd_address dv0"
  by (rule device_run_inv [OF assms])

definition ex_startup :: "(u32 \<times> nat) list startup" where
  "ex_startup =
     \<lparr>su_sim = ex_sim, su_init = (\<lambda>opts w. (0, w)), su_good = (\<lambda>_. True), su_start_server = (\<lambda>p w. w),
      su_system = (\<lambda>c w. (0, w)), su_runtime_port = 9090, su_field_exists = (\<lambda>_. True), su_packet_id = 0, su_world = []\<rparr>"

theorem device_invariant_witness:
  "\<exists>dv st. DoInitialize list_queue ex_startup (ex_device 3) initial_statics = ((dv, Inr ()), st) \<and>
     calls_to_ports (fst (ReceiveFromDevice ex_net 3 ex_pipe_B list_queue ex_sim dv 7 [5, 6] 0x0800 50 60))"
proof -
  obtain dv st where i: "DoInitialize list_queue ex_startup (ex_device 3) initial_statics = ((dv, Inr ()), st)"
    by (simp add: DoInitialize_def ex_device_def P4SWITCH_ARCH_V1MODEL_def P4SWITCH_ARCH_PSA_def P4NIC_ARCH_PNA_def
        P4SWITCH_ARCH_PIPELINE_def Let_def case_prod_beta)
  have "device_run ex_net ex_pipe_B list_queue (ex_device 3)
      (fst (ReceiveFromDevice ex_net 3 ex_pipe_B list_queue ex_sim dv 7 [5, 6] 0x0800 50 60))"
    by (rule run_receive [OF run_init [OF i]])
  then have "calls_to_ports (fst (ReceiveFromDevice ex_net 3 ex_pipe_B list_queue ex_sim dv 7 [5, 6] 0x0800 50 60))"
    using device_invariant [of ex_net ex_pipe_B list_queue "ex_device 3"] by (simp add: ex_device_def P4SwitchNetDevice_def)
  with i show ?thesis by blast
qed

end
