(* ===== verification/Custom_Header.thy ===== *)
theory Custom_Header
  imports P4_Prelude
begin

text \<open>
  \<open>CustomHeader\<close> (\<open>model/custom-header.h\<close>, \<open>model/custom-header.cc\<close>), a packet header whose fields are
  declared at run time: its fields and settings, and its encoding as bytes. \<open>Buffer::Iterator\<close> is the
  list of the bytes it stands before; writing appends to the bytes written so far.
\<close>

subsection \<open>The state\<close>

datatype HeaderLayer = LAYER_2 | LAYER_3 | LAYER_4 | LAYER_5

datatype HeaderLayerOperator = ADD_BEFORE | REPLACE | ADD_AFTER

text \<open>The widths are those \<open>AddField\<close> lets in, so they stay far below \<open>2 ^ 32\<close>.\<close>

record Field =
  fd_name :: string
  fd_width :: nat
  fd_value :: u64

record custom_header =
  ch_layer :: HeaderLayer
  ch_op :: HeaderLayerOperator
  ch_protocol_index :: u64
  ch_fields :: "Field list"
  ch_offset_bytes :: u16

definition InitFields :: "custom_header \<Rightarrow> custom_header" where
  "InitFields h = h\<lparr>ch_fields := []\<rparr>"

text \<open>The constructor leaves the layer and the operator as the memory has them.\<close>

definition CustomHeader :: "HeaderLayer \<Rightarrow> HeaderLayerOperator \<Rightarrow> custom_header" where
  "CustomHeader layer op =
     InitFields \<lparr>ch_layer = layer, ch_op = op, ch_protocol_index = 0, ch_fields = [], ch_offset_bytes = 0\<rparr>"

text \<open>Assignment and copying take over every member.\<close>

definition assign_header :: "custom_header \<Rightarrow> custom_header \<Rightarrow> custom_header" where
  "assign_header h other =
     h\<lparr>ch_layer := ch_layer other, ch_op := ch_op other, ch_protocol_index := ch_protocol_index other,
       ch_fields := ch_fields other, ch_offset_bytes := ch_offset_bytes other\<rparr>"

subsection \<open>Fields and settings\<close>

definition CalculateHeaderInsertOffset :: "HeaderLayer \<Rightarrow> HeaderLayerOperator \<Rightarrow> nat" where
  "CalculateHeaderInsertOffset layer operation =
     (let eth = 14; ipv4 = 20; udp = 8
      in case layer of
           LAYER_2 \<Rightarrow> (if operation = ADD_BEFORE then 0 else eth)
         | LAYER_3 \<Rightarrow> (if operation = ADD_BEFORE then eth else eth + ipv4)
         | LAYER_4 \<Rightarrow> (if operation = ADD_BEFORE then eth + ipv4 else eth + ipv4 + udp)
         | LAYER_5 \<Rightarrow> (if operation = ADD_BEFORE then eth + ipv4 + udp else eth + ipv4 + udp))"

definition AddField :: "custom_header \<Rightarrow> string \<Rightarrow> nat \<Rightarrow> (custom_header, unit) outcome" where
  "AddField h name bitWidth =
     (if bitWidth > 64 then (h, Inl InvalidArgument)
      else (h\<lparr>ch_fields := ch_fields h @ [\<lparr>fd_name = name, fd_width = bitWidth, fd_value = 0\<rparr>]\<rparr>, Inr ()))"

text \<open>
  \<open>SetField\<close> sets the first field of the name. For a field of 64 bits it shifts \<open>1ULL\<close> by the
  whole width, which C++ leaves undefined.
\<close>

fun set_first :: "string \<Rightarrow> u64 \<Rightarrow> Field list \<Rightarrow> stop + Field list" where
  "set_first name value [] = Inl InvalidArgument"
| "set_first name value (f # fs) =
     (if fd_name f = name
      then (if fd_width f \<ge> 64 then Inl Undefined
            else if value \<ge> push_bit (fd_width f) 1 then Inl OutOfRange
            else Inr (f\<lparr>fd_value := value\<rparr> # fs))
      else (case set_first name value fs of Inl e \<Rightarrow> Inl e | Inr fs \<Rightarrow> Inr (f # fs)))"

definition SetField :: "custom_header \<Rightarrow> string \<Rightarrow> u64 \<Rightarrow> (custom_header, unit) outcome" where
  "SetField h name value =
     (case set_first name value (ch_fields h) of
        Inl e \<Rightarrow> (h, Inl e)
      | Inr fs \<Rightarrow> (h\<lparr>ch_fields := fs\<rparr>, Inr ()))"

definition GetField :: "custom_header \<Rightarrow> string \<Rightarrow> stop + u64" where
  "GetField h name =
     (case find (\<lambda>f. fd_name f = name) (ch_fields h) of None \<Rightarrow> Inl InvalidArgument | Some f \<Rightarrow> Inr (fd_value f))"

definition SetProtocolFieldNumber :: "custom_header \<Rightarrow> u64 \<Rightarrow> custom_header" where
  "SetProtocolFieldNumber h i =
     (if ch_fields h = [] then h\<lparr>ch_protocol_index := i\<rparr>
      else if unat i \<ge> length (ch_fields h) then h
      else h\<lparr>ch_protocol_index := i\<rparr>)"

definition GetProtocolNumber :: "custom_header \<Rightarrow> u64" where
  "GetProtocolNumber h =
     (if unat (ch_protocol_index h) \<ge> length (ch_fields h) then 0
      else fd_value (ch_fields h ! unat (ch_protocol_index h)))"

definition SetLayer :: "custom_header \<Rightarrow> HeaderLayer \<Rightarrow> custom_header" where
  "SetLayer h layer = h\<lparr>ch_layer := layer\<rparr>"

definition GetLayer :: "custom_header \<Rightarrow> HeaderLayer" where "GetLayer h = ch_layer h"

definition SetOperator :: "custom_header \<Rightarrow> HeaderLayerOperator \<Rightarrow> custom_header" where
  "SetOperator h op = h\<lparr>ch_op := op\<rparr>"

definition GetOperator :: "custom_header \<Rightarrow> HeaderLayerOperator" where "GetOperator h = ch_op h"

definition GetOffset :: "custom_header \<Rightarrow> u16" where "GetOffset h = ch_offset_bytes h"

subsection \<open>Encoding\<close>

text \<open>
  The inner loop of \<open>Serialize\<close>: \<open>n\<close> bits of the value are left, \<open>cur\<close> bits of the current byte are
  taken. (\<open>cur\<close> is below 8 at every round; the loop is defined to stop otherwise.)
\<close>

function write_bits :: "nat \<Rightarrow> u64 \<Rightarrow> nat \<Rightarrow> u8 \<Rightarrow> u8 list \<Rightarrow> nat \<times> u8 \<times> u8 list" where
  "write_bits n v cur byte out =
     (if n = 0 \<or> 8 \<le> cur then (cur, byte, out)
      else
        (let free = 8 - cur;
             k = min free n;
             byte = byte OR ucast (push_bit (free - k) (drop_bit (n - k) v AND (push_bit k 1 - 1)));
             cur = cur + k
         in if cur = 8 then write_bits (n - k) v 0 0 (out @ [byte])
            else write_bits (n - k) v cur byte out))"
  by pat_completeness auto
termination by (relation "measure (\<lambda>(n, _). n)") auto

declare write_bits.simps [simp del]

fun write_fields :: "Field list \<Rightarrow> nat \<Rightarrow> u8 \<Rightarrow> u8 list \<Rightarrow> nat \<times> u8 \<times> u8 list" where
  "write_fields [] cur byte out = (cur, byte, out)"
| "write_fields (f # fs) cur byte out =
     (let (cur, byte, out) = write_bits (fd_width f) (fd_value f) cur byte out
      in write_fields fs cur byte out)"

definition Serialize :: "custom_header \<Rightarrow> u8 list" where
  "Serialize h =
     (let (cur, byte, out) = write_fields (ch_fields h) 0 0 []
      in if cur > 0 then out @ [byte] else out)"

text \<open>The number of bytes, in the 32 bits of \<open>totalBits\<close>.\<close>

definition GetSerializedSize :: "custom_header \<Rightarrow> u32" where
  "GetSerializedSize h = (foldl (\<lambda>total f. total + of_nat (fd_width f)) 0 (ch_fields h) + 7) div 8"

text \<open>The inner loop of \<open>Deserialize\<close>; an index past the buffer is undefined behaviour.\<close>

function read_bits :: "u8 list \<Rightarrow> nat \<Rightarrow> nat \<Rightarrow> u64 \<Rightarrow> stop + nat \<times> u64" where
  "read_bits buffer n cur v =
     (if n = 0 then Inr (cur, v)
      else
        (let byteIndex = cur div 8;
             free = 8 - cur mod 8;
             k = min free n
         in if byteIndex \<ge> length buffer then Inl Undefined
            else read_bits buffer (n - k) (cur + k)
                   (push_bit k v OR (ucast (drop_bit (free - k) (buffer ! byteIndex)) AND (push_bit k 1 - 1)))))"
  by pat_completeness auto
termination by (relation "measure (\<lambda>(_, n, _). n)") auto

declare read_bits.simps [simp del]

fun read_fields :: "u8 list \<Rightarrow> Field list \<Rightarrow> nat \<Rightarrow> stop + Field list" where
  "read_fields buffer [] cur = Inr []"
| "read_fields buffer (f # fs) cur =
     (case read_bits buffer (fd_width f) cur 0 of
        Inl e \<Rightarrow> Inl e
      | Inr (cur, v) \<Rightarrow>
          (case read_fields buffer fs cur of Inl e \<Rightarrow> Inl e | Inr fs \<Rightarrow> Inr (f\<lparr>fd_value := v\<rparr> # fs)))"

text \<open>Reading past the end of the packet's buffer is a failed assertion of ns-3.\<close>

definition Deserialize :: "custom_header \<Rightarrow> u8 list \<Rightarrow> (custom_header, u32) outcome" where
  "Deserialize h start =
     (let bytesToRead = GetSerializedSize h
      in if length start < unat bytesToRead then (h, Inl AssertFailure)
         else (case read_fields (take (unat bytesToRead) start) (ch_fields h) 0 of
                 Inl e \<Rightarrow> (h, Inl e)
               | Inr fs \<Rightarrow> (h\<lparr>ch_fields := fs\<rparr>, Inr bytesToRead)))"

subsection \<open>Printing\<close>

definition hex_digit_upper :: "nat \<Rightarrow> char" where
  "hex_digit_upper d = (if d < 10 then char_of (48 + d) else char_of (55 + d))"

fun hex_upper :: "nat \<Rightarrow> string" where
  "hex_upper n = (if n < 16 then [hex_digit_upper n] else hex_upper (n div 16) @ [hex_digit_upper (n mod 16)])"

declare hex_upper.simps [simp del]

definition print_field :: "Field \<Rightarrow> string" where
  "print_field f = fd_name f @ '': 0x'' @ hex_upper (unat (fd_value f)) @ '' ''"

definition Print :: "custom_header \<Rightarrow> string" where
  "Print h = ''CustomHeader { '' @ concat (map print_field (ch_fields h)) @ ''}''"

subsection \<open>The bits of a header\<close>

text \<open>The reference: the bits of all fields, highest first, one field after the other.\<close>

definition bits_of :: "nat \<Rightarrow> 'a::len word \<Rightarrow> bool list" where
  "bits_of n v = map (\<lambda>i. bit v (n - Suc i)) [0..<n]"

definition header_bits :: "Field list \<Rightarrow> bool list" where
  "header_bits fs = concat (map (\<lambda>f. bits_of (fd_width f) (fd_value f)) fs)"

definition bytes_bits :: "u8 list \<Rightarrow> bool list" where
  "bytes_bits bs = concat (map (bits_of 8) bs)"

lemma length_bits_of [simp]: "length (bits_of n v) = n"
  by (simp add: bits_of_def)

lemma nth_bits_of [simp]: "i < n \<Longrightarrow> bits_of n v ! i = bit v (n - Suc i)"
  by (simp add: bits_of_def)

lemma bits_of_split:
  "k \<le> n \<Longrightarrow> bits_of n v = bits_of k (drop_bit (n - k) v) @ bits_of (n - k) v"
  by (rule nth_equalityI) (auto simp: nth_append bit_drop_bit_eq)

lemma length_bytes_bits [simp]: "length (bytes_bits bs) = 8 * length bs"
  by (induction bs) (simp_all add: bytes_bits_def)

lemma bytes_bits_append [simp]: "bytes_bits (xs @ ys) = bytes_bits xs @ bytes_bits ys"
  by (simp add: bytes_bits_def)

lemma nth_bytes_bits:
  "i < 8 * length bs \<Longrightarrow> bytes_bits bs ! i = bit (bs ! (i div 8)) (7 - i mod 8)"
proof (induction bs arbitrary: i)
  case (Cons b bs)
  show ?case
  proof (cases "i < 8")
    case True
    then show ?thesis by (simp add: bytes_bits_def nth_append)
  next
    case False
    then have "i div 8 = Suc ((i - 8) div 8)" "i mod 8 = (i - 8) mod 8"
      by (simp_all add: le_div_geq le_mod_geq)
    with False Cons show ?thesis by (simp add: bytes_bits_def nth_append)
  qed
qed simp

text \<open>The bits written so far, and the free low bits of the current byte.\<close>

definition written :: "nat \<Rightarrow> u8 \<Rightarrow> u8 list \<Rightarrow> bool list" where
  "written cur byte out = bytes_bits out @ take cur (bits_of 8 byte)"

definition low_free :: "nat \<Rightarrow> u8 \<Rightarrow> bool" where
  "low_free cur byte \<longleftrightarrow> cur < 8 \<and> (\<forall>i < 8 - cur. \<not> bit byte i)"

lemma low_mask: "push_bit k 1 - 1 = (mask k :: 'a::len word)"
  by (simp add: mask_eq_decr_exp push_bit_eq_mult)

lemma write_chunk:
  assumes "low_free cur byte" "cur + k \<le> 8"
    and "byte' = byte OR ucast (push_bit (8 - cur - k) (drop_bit (n - k) (v::u64) AND (push_bit k 1 - 1)))"
  shows "take (cur + k) (bits_of 8 byte') = take cur (bits_of 8 byte) @ bits_of k (drop_bit (n - k) v)"
    and "i < 8 - (cur + k) \<Longrightarrow> \<not> bit byte' i"
proof -
  have b: "bit byte' i \<longleftrightarrow> bit byte i \<or> 8 - cur - k \<le> i \<and> i < 8 - cur \<and> bit (drop_bit (n - k) v) (i - (8 - cur - k))"
    if "i < 8" for i
    using that assms(2) unfolding assms(3) low_mask
    by (auto simp: bit_or_iff bit_ucast_iff bit_push_bit_iff bit_and_iff bit_mask_iff)
  show "take (cur + k) (bits_of 8 byte') = take cur (bits_of 8 byte) @ bits_of k (drop_bit (n - k) v)"
  proof (rule nth_equalityI)
    fix i assume "i < length (take (cur + k) (bits_of 8 byte'))"
    then have i: "i < cur + k" "i < 8" using assms(2) by auto
    show "take (cur + k) (bits_of 8 byte') ! i = (take cur (bits_of 8 byte) @ bits_of k (drop_bit (n - k) v)) ! i"
    proof (cases "i < cur")
      case True
      then have "\<not> 7 - i < 8 - cur" using i by simp
      then show ?thesis using True i by (simp add: nth_append b)
    next
      case False
      then have "\<not> bit byte (7 - i)" using assms(1) i by (auto simp: low_free_def)
      moreover have "7 - i - (8 - cur - k) = k - Suc (i - cur)" using False i assms(2) by linarith
      moreover have "8 - cur - k \<le> 7 - i" "7 - i < 8 - cur" using False i assms(2) by linarith+
      ultimately show ?thesis using False i assms(2) by (simp add: nth_append b)
    qed
  qed (use assms(1,2) in \<open>auto simp: low_free_def\<close>)
  show "i < 8 - (cur + k) \<Longrightarrow> \<not> bit byte' i"
    using assms(1) by (auto simp: b low_free_def)
qed

lemma write_bits_bits:
  assumes "low_free cur byte" "write_bits n v cur byte out = (cur', byte', out')"
  shows "low_free cur' byte' \<and> written cur' byte' out' = written cur byte out @ bits_of n v"
  using assms
proof (induction n v cur byte out arbitrary: cur' byte' out' rule: write_bits.induct)
  case (1 n v cur byte out)
  have c: "cur < 8" using 1(3) by (simp add: low_free_def)
  show ?case
  proof (cases "n = 0")
    case True
    with 1(3,4) show ?thesis by (auto simp add: write_bits.simps [of 0] bits_of_def)
  next
    case False
    define k where "k = min (8 - cur) n"
    define byte2 where "byte2 = byte OR ucast (push_bit (8 - cur - k) (drop_bit (n - k) v AND (push_bit k 1 - 1)))"
    have k: "cur + k \<le> 8" "k \<le> n" using c by (simp_all add: k_def)
    note W = write_chunk [OF 1(3) k(1) byte2_def]
    have g: "\<not> (n = 0 \<or> 8 \<le> cur)" using False c by simp
    have eq: "(if cur + k = 8 then write_bits (n - k) v 0 0 (out @ [byte2]) else write_bits (n - k) v (cur + k) byte2 out) = (cur', byte', out')"
      using 1(4) unfolding write_bits.simps [of n] if_not_P [OF g] Let_def k_def [symmetric] byte2_def [symmetric] .
    have sp: "bits_of n v = bits_of k (drop_bit (n - k) v) @ bits_of (n - k) v" by (rule bits_of_split [OF k(2)])
    show ?thesis
    proof (cases "cur + k = 8")
      case True
      have "low_free 0 0" by (simp add: low_free_def)
      from 1(1) [OF g refl refl refl refl, folded k_def, folded byte2_def, OF True this] True eq
      have "low_free cur' byte' \<and> written cur' byte' out' = written 0 0 (out @ [byte2]) @ bits_of (n - k) v" by simp
      with W(1) True sp show ?thesis by (simp add: written_def bytes_bits_def)
    next
      case neq: False
      have "low_free (cur + k) byte2" using W(2) neq k(1) by (auto simp: low_free_def)
      from 1(2) [OF g refl refl refl refl, folded k_def, folded byte2_def, OF neq this] neq eq
      have "low_free cur' byte' \<and> written cur' byte' out' = written (cur + k) byte2 out @ bits_of (n - k) v" by simp
      with W(1) sp show ?thesis by (simp add: written_def)
    qed
  qed
qed

lemma write_fields_bits:
  assumes "low_free cur byte" "write_fields fs cur byte out = (cur', byte', out')"
  shows "low_free cur' byte' \<and> written cur' byte' out' = written cur byte out @ header_bits fs"
  using assms
proof (induction fs arbitrary: cur byte out)
  case (Cons f fs)
  obtain c1 b1 o1 where w: "write_bits (fd_width f) (fd_value f) cur byte out = (c1, b1, o1)" by (metis prod_cases3)
  from write_bits_bits [OF Cons.prems(1) w] Cons.IH [of c1 b1 o1] Cons.prems(2) show ?case
    by (simp add: w header_bits_def)
qed (simp add: header_bits_def)

lemma Serialize_bits: "\<exists>pad < 8. bytes_bits (Serialize h) = header_bits (ch_fields h) @ replicate pad False"
proof -
  obtain cur byte out where w: "write_fields (ch_fields h) 0 0 [] = (cur, byte, out)" by (metis prod_cases3)
  have "low_free 0 0" by (simp add: low_free_def)
  from write_fields_bits [OF this w] have lf: "low_free cur byte"
    and b: "bytes_bits out @ take cur (bits_of 8 byte) = header_bits (ch_fields h)"
    by (simp_all add: written_def bytes_bits_def)
  show ?thesis
  proof (cases "cur = 0")
    case True
    then show ?thesis using b by (intro exI [of _ 0]) (simp add: Serialize_def w)
  next
    case False
    have one: "bytes_bits [byte] = bits_of 8 byte" by (simp add: bytes_bits_def)
    have "bits_of 8 byte = take cur (bits_of 8 byte) @ replicate (8 - cur) False"
    proof (rule nth_equalityI)
      show "bits_of 8 byte ! i = (take cur (bits_of 8 byte) @ replicate (8 - cur) False) ! i" if "i < length (bits_of 8 byte)" for i
      proof (cases "i < cur")
        case False
        then have "\<not> bit byte (7 - i)" using lf that by (simp add: low_free_def)
        with False that lf show ?thesis by (simp add: nth_append low_free_def)
      qed (use that in \<open>simp add: nth_append\<close>)
    qed (use lf in \<open>simp add: low_free_def\<close>)
    then have "bytes_bits [byte] = take cur (bits_of 8 byte) @ replicate (8 - cur) False"
      by (rule trans [OF one])
    moreover have "bytes_bits (Serialize h) = bytes_bits out @ bytes_bits [byte]"
      using False by (simp add: Serialize_def w)
    ultimately have "bytes_bits (Serialize h) = header_bits (ch_fields h) @ replicate (8 - cur) False"
      unfolding b [symmetric] by (simp only: append_assoc)
    then show ?thesis using False by (intro exI [of _ "8 - cur"]) simp
  qed
qed

lemma length_header_bits: "length (header_bits fs) = sum_list (map fd_width fs)"
  by (induction fs) (simp_all add: header_bits_def)

lemma length_Serialize: "length (Serialize h) = (sum_list (map fd_width (ch_fields h)) + 7) div 8"
proof -
  obtain pad where "pad < 8" "bytes_bits (Serialize h) = header_bits (ch_fields h) @ replicate pad False"
    using Serialize_bits by blast
  then have "8 * length (Serialize h) = sum_list (map fd_width (ch_fields h)) + pad"
    by (metis length_append length_bytes_bits length_header_bits length_replicate)
  then have "sum_list (map fd_width (ch_fields h)) + 7 = (7 - pad) + length (Serialize h) * 8" using \<open>pad < 8\<close> by linarith
  then show ?thesis by (simp only: div_mult_self1)
qed

subsection \<open>Reading\<close>

lemma div_mod_chunk:
  assumes "k \<le> 8 - c mod 8" "j < (k::nat)"
  shows "(c + k - Suc j) div 8 = c div 8" "7 - (c + k - Suc j) mod 8 = 8 - c mod 8 - k + j"
proof -
  have "c + k - Suc j = (c mod 8 + (k - Suc j)) + 8 * (c div 8)" using assms(2) by simp
  moreover have "c mod 8 + (k - Suc j) < 8" using assms by linarith
  ultimately have D: "(c + k - Suc j) div 8 = c div 8" and M: "(c + k - Suc j) mod 8 = c mod 8 + (k - Suc j)"
    by (simp_all only: div_mult_self2 mod_mult_self2) simp_all
  show "(c + k - Suc j) div 8 = c div 8" by (rule D)
  show "7 - (c + k - Suc j) mod 8 = 8 - c mod 8 - k + j" unfolding M using assms by linarith
qed

lemma bit_after_chunk:
  fixes v :: u64 and b :: u8
  assumes "i < 64" "free \<le> 8" "k \<le> free"
  shows "bit (push_bit k v OR (ucast (drop_bit (free - k) b) AND (push_bit k 1 - 1))) i \<longleftrightarrow>
    (if i < k then bit b (free - k + i) else bit v (i - k))"
  unfolding low_mask
  using assms by (auto simp: bit_or_iff bit_ucast_iff bit_push_bit_iff bit_and_iff bit_mask_iff bit_drop_bit_eq
      dest: bit_imp_le_length)

lemma read_bits_bits:
  assumes "cur + n \<le> 8 * length buffer"
  shows "\<exists>v'. read_bits buffer n cur v = Inr (cur + n, v') \<and>
    (\<forall>i < 64. bit v' i \<longleftrightarrow> (if i < n then bytes_bits buffer ! (cur + n - Suc i) else bit v (i - n)))"
  using assms
proof (induction buffer n cur v rule: read_bits.induct)
  case (1 buffer n cur v)
  show ?case
  proof (cases "n = 0")
    case False
    define free where "free = 8 - cur mod 8"
    define k where "k = min free n"
    define v1 where "v1 = push_bit k v OR (ucast (drop_bit (free - k) (buffer ! (cur div 8))) AND (push_bit k 1 - 1))"
    have f: "free \<le> 8" "0 < free" by (simp_all add: free_def)
    have k: "k \<le> free" "k \<le> n" "0 < k" using False f by (simp_all add: k_def)
    have ix: "\<not> cur div 8 \<ge> length buffer" using 1(2) False by linarith
    have eq: "read_bits buffer n cur v = read_bits buffer (n - k) (cur + k) v1"
      unfolding read_bits.simps [of buffer n] if_not_P [OF False] Let_def if_not_P [OF ix]
      by (simp only: free_def k_def v1_def)
    have "cur + k + (n - k) \<le> 8 * length buffer" using 1(2) k by simp
    from 1(1) [OF False refl refl refl ix, folded free_def, folded k_def, folded v1_def, OF this]
    obtain v' where r: "read_bits buffer (n - k) (cur + k) v1 = Inr (cur + n, v')"
      and b: "\<And>i. i < 64 \<Longrightarrow> bit v' i \<longleftrightarrow> (if i < n - k then bytes_bits buffer ! (cur + n - Suc i) else bit v1 (i - (n - k)))"
      using k by auto
    have "bit v' i \<longleftrightarrow> (if i < n then bytes_bits buffer ! (cur + n - Suc i) else bit v (i - n))" if "i < 64" for i
    proof (cases "i < n - k")
      case True
      then have "i < n" by simp
      with True show ?thesis using b [OF that] by simp
    next
      case ge: False
      define j where "j = i - (n - k)"
      have j: "bit v1 j \<longleftrightarrow> (if j < k then bit (buffer ! (cur div 8)) (free - k + j) else bit v (j - k))"
        unfolding v1_def by (rule bit_after_chunk) (use that f k in \<open>simp_all add: j_def\<close>)
      have b': "bit v' i = bit v1 j" unfolding j_def using b [OF that] ge by simp
      show ?thesis
      proof (cases "i < n")
        case True
        then have jk: "j < k" and ci: "cur + n - Suc i = cur + k - Suc j" using ge k by (simp_all add: j_def)
        have "bytes_bits buffer ! (cur + k - Suc j) \<longleftrightarrow> bit (buffer ! (cur div 8)) (free - k + j)"
        proof -
          have kf: "k \<le> 8 - cur mod 8" using k by (simp add: free_def)
          have "cur + k - Suc j < 8 * length buffer" using jk k 1(2) by linarith
          then show ?thesis
            by (simp only: nth_bytes_bits div_mod_chunk [OF kf jk] free_def)
        qed
        then show ?thesis by (simp only: b' j True jk ci if_True)
      next
        case i: False
        then have "\<not> j < k" "j - k = i - n" using ge k by (simp_all add: j_def)
        then show ?thesis by (simp only: b' j i if_False)
      qed
    qed
    then show ?thesis using eq r by (intro exI [of _ v'] conjI allI impI) simp_all
  qed (simp add: read_bits.simps [of buffer 0])
qed

text \<open>A field whose value fits its width, and one that only keeps name and width.\<close>

definition field_fits :: "Field \<Rightarrow> bool" where
  "field_fits f \<longleftrightarrow> fd_width f \<le> 64 \<and> (\<forall>i. bit (fd_value f) i \<longrightarrow> i < fd_width f)"

definition same_shape :: "Field list \<Rightarrow> Field list \<Rightarrow> bool" where
  "same_shape fs gs \<longleftrightarrow> map (\<lambda>f. (fd_name f, fd_width f)) fs = map (\<lambda>f. (fd_name f, fd_width f)) gs"

lemma read_fields_header:
  assumes "bytes_bits buffer = pre @ header_bits fs @ post" "same_shape gs fs" "\<forall>f \<in> set fs. field_fits f"
  shows "read_fields buffer gs (length pre) = Inr fs"
  using assms
proof (induction fs arbitrary: gs pre)
  case (Cons f fs)
  obtain g gs' where gs: "gs = g # gs'" "fd_name g = fd_name f" "fd_width g = fd_width f" "same_shape gs' fs"
    using Cons.prems(2) by (cases gs) (auto simp: same_shape_def)
  let ?w = "fd_width f"
  have hb: "header_bits (f # fs) = bits_of ?w (fd_value f) @ header_bits fs" by (simp add: header_bits_def)
  have B: "bytes_bits buffer = pre @ bits_of ?w (fd_value f) @ header_bits fs @ post"
    using Cons.prems(1) by (simp add: hb)
  have "8 * length buffer = length pre + (?w + (length (header_bits fs) + length post))"
    using arg_cong [OF B, of length] by (simp only: length_bytes_bits length_append length_bits_of)
  then have len: "length pre + ?w \<le> 8 * length buffer" by linarith
  obtain v' where r: "read_bits buffer ?w (length pre) 0 = Inr (length pre + ?w, v')"
    and v: "\<And>i. i < 64 \<Longrightarrow> bit v' i \<longleftrightarrow> i < ?w \<and> bytes_bits buffer ! (length pre + ?w - Suc i)"
    using read_bits_bits [OF len, of 0] by auto
  have "v' = fd_value f"
  proof (rule bit_word_eqI)
    fix i assume "i < LENGTH(64)"
    then show "bit v' i = bit (fd_value f) i"
      using Cons.prems(3) by (auto simp: v B nth_append field_fits_def)
  qed
  moreover have "read_fields buffer gs' (length (pre @ bits_of ?w (fd_value f))) = Inr fs"
    by (rule Cons.IH) (use B gs Cons.prems(3) in simp_all)
  moreover have "g\<lparr>fd_value := fd_value f\<rparr> = f" using gs by (cases g; cases f) simp
  ultimately show ?case by (simp add: gs r)
qed (auto simp: same_shape_def)


subsection \<open>The invariant and the properties\<close>

definition fields_ok :: "custom_header \<Rightarrow> bool" where
  "fields_ok h \<longleftrightarrow> (\<forall>f \<in> set (ch_fields h). field_fits f)"

definition total_bits :: "custom_header \<Rightarrow> nat" where
  "total_bits h = sum_list (map fd_width (ch_fields h))"

lemma foldl_widths: "foldl (\<lambda>t f. t + of_nat (fd_width f)) a fs = (a :: u32) + of_nat (sum_list (map fd_width fs))"
  by (induction fs arbitrary: a) simp_all

lemma GetSerializedSize_exact:
  assumes "total_bits h < 2 ^ 32 - 7"
  shows "unat (GetSerializedSize h) = length (Serialize h)"
proof -
  have "of_nat (total_bits h) + 7 = (of_nat (total_bits h + 7) :: u32)" by simp
  moreover have "unat (of_nat (total_bits h + 7) :: u32) = total_bits h + 7"
    using assms by (simp only: unat_of_nat) (simp add: take_bit_nat_eq_self)
  ultimately have "unat (of_nat (total_bits h) + 7 :: u32) = total_bits h + 7" by (simp only:)
  then show ?thesis
    by (simp add: GetSerializedSize_def foldl_widths length_Serialize unat_div flip: total_bits_def)
qed

lemma fits_width_iff:
  assumes "w < 64"
  shows "(\<forall>i. bit (v :: u64) i \<longrightarrow> i < w) \<longleftrightarrow> v < push_bit w 1"
proof -
  have "v < push_bit w 1 \<longleftrightarrow> v AND mask w = v"
    using assms by (simp add: mask_eq_iff_w2p word_size push_bit_eq_mult)
  also have "\<dots> \<longleftrightarrow> (\<forall>i. bit v i \<longrightarrow> i < w)"
    using bit_imp_le_length [of v] by (simp add: bit_eq_iff bit_and_iff bit_mask_iff) blast
  finally show ?thesis by simp
qed

lemma fits_below: "v < 2 ^ w \<Longrightarrow> w \<le> 64 \<Longrightarrow> w \<noteq> 64 \<Longrightarrow> bit (v :: u64) i \<Longrightarrow> i < w"
  using fits_width_iff [of w v] by (simp add: push_bit_eq_mult)

lemma AddField_ok: "fields_ok h \<Longrightarrow> fields_ok (fst (AddField h name w))"
  by (auto simp: AddField_def fields_ok_def field_fits_def)

lemma set_first_ok:
  "\<forall>f \<in> set fs. field_fits f \<Longrightarrow> set_first name v fs = Inr gs \<Longrightarrow> \<forall>f \<in> set gs. field_fits f"
  by (induction name v fs arbitrary: gs rule: set_first.induct)
    (auto simp: field_fits_def fits_below not_le split: if_splits sum.splits)

lemma SetField_ok: "fields_ok h \<Longrightarrow> fields_ok (fst (SetField h name v))"
  by (auto simp: SetField_def fields_ok_def dest: set_first_ok split: sum.split)

lemma read_fields_ok:
  "read_fields buffer fs cur = Inr gs \<Longrightarrow> \<forall>f \<in> set fs. fd_width f \<le> 64 \<Longrightarrow>
   cur + sum_list (map fd_width fs) \<le> 8 * length buffer \<Longrightarrow> \<forall>f \<in> set gs. field_fits f"
proof (induction fs arbitrary: cur gs)
  case (Cons f fs)
  obtain v' where r: "read_bits buffer (fd_width f) cur 0 = Inr (cur + fd_width f, v')"
    and v: "\<And>i. i < 64 \<Longrightarrow> bit v' i \<Longrightarrow> i < fd_width f"
    using read_bits_bits [of cur "fd_width f" buffer 0] Cons.prems(3) by (auto split: if_splits)
  have "field_fits (f\<lparr>fd_value := v'\<rparr>)"
    using Cons.prems(2) v bit_imp_le_length [of v'] by (simp add: field_fits_def)
  with Cons r show ?case by (auto split: sum.splits)
qed simp


text \<open>The headers a program can build: from the constructor, by every operation that changes one.\<close>

inductive header_built :: "custom_header \<Rightarrow> bool" where
  built_new: "header_built (CustomHeader layer op)"
| built_add: "header_built h \<Longrightarrow> header_built (fst (AddField h name w))"
| built_set: "header_built h \<Longrightarrow> header_built (fst (SetField h name v))"
| built_assign: "header_built h \<Longrightarrow> header_built g \<Longrightarrow> header_built (assign_header g h)"
| built_init: "header_built h \<Longrightarrow> header_built (InitFields h)"
| built_index: "header_built h \<Longrightarrow> header_built (SetProtocolFieldNumber h i)"
| built_layer: "header_built h \<Longrightarrow> header_built (SetLayer h layer)"
| built_op: "header_built h \<Longrightarrow> header_built (SetOperator h op)"
| built_read: "header_built h \<Longrightarrow> total_bits h < 2 ^ 32 - 7 \<Longrightarrow> header_built (fst (Deserialize h bs))"

lemma Deserialize_ok:
  assumes "fields_ok h" "total_bits h < 2 ^ 32 - 7"
  shows "fields_ok (fst (Deserialize h bs))"
proof (cases "length bs < unat (GetSerializedSize h)")
  case False
  define buf where "buf = take (unat (GetSerializedSize h)) bs"
  have "total_bits h \<le> 8 * ((total_bits h + 7) div 8)" by linarith
  then have "0 + sum_list (map fd_width (ch_fields h)) \<le> 8 * length buf"
    using False by (simp add: buf_def GetSerializedSize_exact [OF assms(2)] length_Serialize flip: total_bits_def)
  from read_fields_ok [OF _ _ this] assms(1) show ?thesis
    using False by (auto simp: Deserialize_def Let_def fields_ok_def field_fits_def buf_def split: sum.split)
qed (simp add: Deserialize_def assms(1))

lemma header_built_ok: "header_built h \<Longrightarrow> fields_ok h"
proof (induction rule: header_built.induct)
  case (built_read h bs)
  then show ?case by (simp add: Deserialize_ok)
qed (simp_all add: AddField_ok SetField_ok, simp_all add: fields_ok_def CustomHeader_def InitFields_def assign_header_def
    SetProtocolFieldNumber_def SetLayer_def SetOperator_def)

lemma same_shape_total: "same_shape (ch_fields g) (ch_fields h) \<Longrightarrow> total_bits g = total_bits h"
proof -
  assume "same_shape (ch_fields g) (ch_fields h)"
  then have "map snd (map (\<lambda>f. (fd_name f, fd_width f)) (ch_fields g)) = map snd (map (\<lambda>f. (fd_name f, fd_width f)) (ch_fields h))"
    by (simp only: same_shape_def)
  then show ?thesis by (simp add: total_bits_def comp_def)
qed

text \<open>C17. The bytes a header is encoded to are the bits of its fields, highest bit first and without gaps
  between the fields, filled up with fewer than eight zero bits; their number is the size the header
  announces.\<close>

theorem serialize_is_bit_string:
  assumes "total_bits h < 2 ^ 32 - 7"
  shows "(\<exists>pad < 8. bytes_bits (Serialize h) = header_bits (ch_fields h) @ replicate pad False) \<and>
     unat (GetSerializedSize h) = length (Serialize h)"
  using Serialize_bits GetSerializedSize_exact [OF assms] by simp

lemma Deserialize_written:
  assumes "fields_ok h" "same_shape (ch_fields g) (ch_fields h)" "total_bits h < 2 ^ 32 - 7"
  shows "Deserialize g (Serialize h @ rest) = (g\<lparr>ch_fields := ch_fields h\<rparr>, Inr (GetSerializedSize h))"
proof -
  obtain pad where b: "bytes_bits (Serialize h) = [] @ header_bits (ch_fields h) @ replicate pad False"
    using Serialize_bits by auto
  have r: "read_fields (Serialize h) (ch_fields g) (length ([] :: bool list)) = Inr (ch_fields h)"
    by (rule read_fields_header [OF b assms(2)]) (use assms(1) in \<open>simp add: fields_ok_def\<close>)
  have "GetSerializedSize g = GetSerializedSize h"
    using same_shape_total [OF assms(2)] by (simp add: GetSerializedSize_def foldl_widths flip: total_bits_def)
  then show ?thesis
    using r GetSerializedSize_exact [OF assms(3)] by (simp add: Deserialize_def)
qed

text \<open>C16. Round trip: for every header a program can build, reading its encoding into a header with the same
  field names and widths, whatever values that one held and whatever bytes follow, gives back every
  field and consumes exactly the encoding.\<close>

theorem deserialize_serialize:
  assumes "header_built h" "same_shape (ch_fields g) (ch_fields h)" "total_bits h < 2 ^ 32 - 7"
  shows "Deserialize g (Serialize h @ rest) = (g\<lparr>ch_fields := ch_fields h\<rparr>, Inr (GetSerializedSize h))"
  by (rule Deserialize_written [OF header_built_ok [OF assms(1)] assms(2,3)])

lemma set_first_outcomes:
  "case find (\<lambda>f. fd_name f = name) fs of
     None \<Rightarrow> set_first name v fs = Inl InvalidArgument
   | Some f \<Rightarrow>
       if fd_width f \<ge> 64 then set_first name v fs = Inl Undefined
       else if v \<ge> 2 ^ fd_width f then set_first name v fs = Inl OutOfRange
       else \<exists>gs. set_first name v fs = Inr gs \<and> same_shape gs fs \<and>
         (\<forall>n. map_option fd_value (find (\<lambda>f. fd_name f = n) gs) =
            (if n = name then Some v else map_option fd_value (find (\<lambda>f. fd_name f = n) fs)))"
  by (induction fs) (auto simp: push_bit_eq_mult same_shape_def split: option.splits if_splits)

lemma GetField_value:
  "GetField h n = (case map_option fd_value (find (\<lambda>f. fd_name f = n) (ch_fields h)) of
     None \<Rightarrow> Inl InvalidArgument | Some v \<Rightarrow> Inr v)"
  by (simp add: GetField_def split: option.split)

text \<open>Setting a field: in a header a program can build, a value that fits its field is what \<open>GetField\<close>
  then gives, other names are not touched, and a name that is missing or a value too large for
  the width changes nothing. A field of 64 bits cannot be set at all: the range check shifts by
  64, which C++ does not define.\<close>

theorem set_field_outcomes:
  "case find (\<lambda>f. fd_name f = name) (ch_fields h) of
     None \<Rightarrow> SetField h name v = (h, Inl InvalidArgument) \<and> GetField h name = Inl InvalidArgument
   | Some f \<Rightarrow>
       if fd_width f \<ge> 64 then SetField h name v = (h, Inl Undefined)
       else if v \<ge> 2 ^ fd_width f then SetField h name v = (h, Inl OutOfRange)
       else \<exists>h'. SetField h name v = (h', Inr ()) \<and>
         (\<forall>n. GetField h' n = (if n = name then Inr v else GetField h n)) \<and>
         same_shape (ch_fields h') (ch_fields h)"
proof (cases "find (\<lambda>f. fd_name f = name) (ch_fields h)")
  case None
  with set_first_outcomes [where name = name and fs = "ch_fields h" and v = v] show ?thesis by (simp add: SetField_def GetField_def)
next
  case (Some f)
  note S = set_first_outcomes [where name = name and fs = "ch_fields h" and v = v, unfolded Some option.case]
  consider "fd_width f \<ge> 64" | "\<not> fd_width f \<ge> 64" "v \<ge> 2 ^ fd_width f" | "\<not> fd_width f \<ge> 64" "\<not> v \<ge> 2 ^ fd_width f" by blast
  then show ?thesis
  proof cases
    case 3
    then obtain gs where gs: "set_first name v (ch_fields h) = Inr gs" "same_shape gs (ch_fields h)"
      "\<And>n. map_option fd_value (find (\<lambda>f. fd_name f = n) gs) =
            (if n = name then Some v else map_option fd_value (find (\<lambda>f. fd_name f = n) (ch_fields h)))"
      using S by auto
    have "GetField (h\<lparr>ch_fields := gs\<rparr>) n = (if n = name then Inr v else GetField h n)" for n
      by (simp add: GetField_value gs(3))
    with 3 gs(1,2) Some show ?thesis by (simp add: SetField_def)
  qed (use S Some in \<open>simp_all add: SetField_def\<close>)
qed

text \<open>An example: three fields that are not aligned to bytes.\<close>

definition ex_header0 :: custom_header where
  "ex_header0 =
     fst (AddField (fst (AddField (fst (AddField (CustomHeader LAYER_3 ADD_BEFORE) ''ver'' 4)) ''id'' 13)) ''last'' 20)"

definition ex_header :: custom_header where
  "ex_header = fst (SetField (fst (SetField (fst (SetField ex_header0 ''ver'' 0xA)) ''id'' 0x1ABC)) ''last'' 0x98765)"

lemma ex_header0_fields:
  "ch_fields ex_header0 = [\<lparr>fd_name = ''ver'', fd_width = 4, fd_value = 0\<rparr>, \<lparr>fd_name = ''id'', fd_width = 13, fd_value = 0\<rparr>,
     \<lparr>fd_name = ''last'', fd_width = 20, fd_value = 0\<rparr>]"
  by (simp add: ex_header0_def AddField_def CustomHeader_def InitFields_def)

lemma ex_header_fields:
  "ch_fields ex_header = [\<lparr>fd_name = ''ver'', fd_width = 4, fd_value = 0xA\<rparr>, \<lparr>fd_name = ''id'', fd_width = 13, fd_value = 0x1ABC\<rparr>,
     \<lparr>fd_name = ''last'', fd_width = 20, fd_value = 0x98765\<rparr>]"
  by (simp add: ex_header_def SetField_def ex_header0_fields)

lemma ex_header_built: "header_built ex_header"
  unfolding ex_header_def ex_header0_def by (intro built_set built_add built_new)

theorem serialize_is_bit_string_witness:
  "\<exists>pad < 8. bytes_bits (Serialize ex_header) =
     bits_of 4 (0xA :: u64) @ bits_of 13 (0x1ABC :: u64) @ bits_of 20 (0x98765 :: u64) @ replicate pad False"
  using serialize_is_bit_string [of ex_header] by (simp add: total_bits_def ex_header_fields header_bits_def)

theorem deserialize_serialize_witness:
  "Deserialize ex_header0 (Serialize ex_header @ [7, 7]) = (ex_header0\<lparr>ch_fields := ch_fields ex_header\<rparr>, Inr 5)"
proof -
  have "GetSerializedSize ex_header = 5" by (simp add: GetSerializedSize_def ex_header_fields)
  then show ?thesis
    using deserialize_serialize [OF ex_header_built, of ex_header0 "[7, 7]"]
    by (simp add: same_shape_def ex_header0_fields ex_header_fields total_bits_def)
qed

lemma ex_header_bytes: "Serialize ex_header = [0xAD, 0x5E, 0x4C,0x3B, 0x28]" by code_simp

end
