(* ===== verification/P2P_Headers.thy ===== *)
theory P2P_Headers
  imports Custom_Header
begin

text \<open>
  The header processing of \<open>CustomP2PNetDevice\<close> (\<open>model/custom-p2p-net-device.h\<close>,
  \<open>model/custom-p2p-net-device.cc\<close>): what a host port puts in front of a packet it sends, and how
  the port at the other end finds its way back to the packet.
\<close>

subsection \<open>The headers of ns-3\<close>

text \<open>
  A value of \<open>'h\<close> is an \<open>EthernetHeader\<close>, \<open>Ipv4Header\<close>, \<open>UdpHeader\<close>, \<open>TcpHeader\<close> or \<open>ArpHeader\<close>
  object. \<open>h_write\<close> gives the bytes \<open>Serialize\<close> puts in front of a packet; \<open>h_read\<close> is \<open>Deserialize\<close> on
  the bytes of a packet: the object afterwards, and the number of bytes read (0 when there is no
  such header). \<open>eth_header\<close> and the others are the objects their constructors make. The bytes depend on the object
  only; a field that \<open>Serialize\<close> takes from the packet (the length of UDP) counts as part of the object, so a
  property about bytes is for packets in which these fields are those that ns-3 would compute.
\<close>

datatype header_kind = EthK | Ipv4K | UdpK | TcpK | ArpK

record ('addr, 'h) wire =
  h_kind :: "'h \<Rightarrow> header_kind"
  h_write :: "'h \<Rightarrow> u8 list"
  h_read :: "'h \<Rightarrow> u8 list \<Rightarrow> 'h \<times> nat"
  eth_header :: 'h
  ip_header :: 'h
  udp_header :: 'h
  tcp_header :: 'h
  arp_header :: 'h
  eth_set_source :: "'h \<Rightarrow> 'addr \<Rightarrow> 'h"
  eth_set_destination :: "'h \<Rightarrow> 'addr \<Rightarrow> 'h"
  eth_set_type :: "'h \<Rightarrow> u16 \<Rightarrow> 'h"
  eth_type :: "'h \<Rightarrow> u16"
  ip_protocol :: "'h \<Rightarrow> u8"
  ip_set_protocol :: "'h \<Rightarrow> u8 \<Rightarrow> 'h"
  udp_dst_port :: "'h \<Rightarrow> u16"
  tcp_dst_port :: "'h \<Rightarrow> u16"

text \<open>
  What the headers are documented to do: reading what a header of the same class has written
  consumes exactly that and gives an object with the same contents, which is written in the same way,
  also after its protocol number was changed.
\<close>

definition wire_laws :: "('addr, 'h) wire \<Rightarrow> bool" where
  "wire_laws W \<longleftrightarrow>
     (\<forall>g h x. h_kind W g = h_kind W h \<longrightarrow>
        snd (h_read W g (h_write W h @ x)) = length (h_write W h) \<and> h_write W h \<noteq> [] \<and>
        h_kind W (fst (h_read W g (h_write W h @ x))) = h_kind W h \<and>
        h_write W (fst (h_read W g (h_write W h @ x))) = h_write W h \<and>
        eth_type W (fst (h_read W g (h_write W h @ x))) = eth_type W h \<and>
        ip_protocol W (fst (h_read W g (h_write W h @ x))) = ip_protocol W h \<and>
        udp_dst_port W (fst (h_read W g (h_write W h @ x))) = udp_dst_port W h \<and>
        tcp_dst_port W (fst (h_read W g (h_write W h @ x))) = tcp_dst_port W h) \<and>
     h_kind W (eth_header W) = EthK \<and> h_kind W (ip_header W) = Ipv4K \<and> h_kind W (udp_header W) = UdpK \<and>
     h_kind W (tcp_header W) = TcpK \<and> h_kind W (arp_header W) = ArpK \<and>
     (\<forall>h a. h_kind W (eth_set_source W h a) = h_kind W h \<and> h_kind W (eth_set_destination W h a) = h_kind W h) \<and>
     (\<forall>h t. h_kind W (eth_set_type W h t) = h_kind W h \<and> eth_type W (eth_set_type W h t) = t) \<and>
     (\<forall>h v. h_kind W (ip_set_protocol W h v) = h_kind W h \<and> ip_protocol W (ip_set_protocol W h v) = v) \<and>
     (\<forall>g h v. h_kind W g = h_kind W h \<longrightarrow> h_write W g = h_write W h \<longrightarrow>
        h_write W (ip_set_protocol W g v) = h_write W (ip_set_protocol W h v))"

subsection \<open>The device\<close>

datatype TxMachineState = READY | BUSY

record ('dev, 'addr, 'q) p2p_device =
  pd_tx_state :: TxMachineState
  pd_bps :: u64
  pd_interframe_gap :: time
  pd_attached :: bool
  pd_queue :: "'q option"
  pd_error_model :: "(u8 list \<Rightarrow> bool) option"
  pd_address :: 'addr
  pd_need_process :: bool
  pd_header :: custom_header
  pd_rx_callback :: bool
  pd_promisc_callback :: bool
  pd_if_index :: u32
  pd_link_up :: bool
  pd_dst_port_min :: u16
  pd_dst_port_max :: u16
  pd_mtu :: u32
  pd_current :: "u8 list option"

definition p4ProtocolNumber :: nat where "p4ProtocolNumber = 0xDC"

text \<open>Reading the custom header: its \<open>Deserialize\<close> may fail an assertion.\<close>

definition read_custom :: "custom_header \<Rightarrow> u8 list \<Rightarrow> stop + custom_header \<times> nat" where
  "read_custom h p = (case Deserialize h p of (h, Inl e) \<Rightarrow> Inl e | (h, Inr n) \<Rightarrow> Inr (h, unat n))"

subsection \<open>Sending\<close>

text \<open>
  \<open>GetDstPort\<close> takes the IPv4 header off and puts what it read back. (Its work on a copy of the
  custom header has no effect.)
\<close>

definition GetDstPort :: "('addr, 'h) wire \<Rightarrow> u8 list \<Rightarrow> u16 \<times> u8 list" where
  "GetDstPort W p =
     (let (ip_hd, n) = h_read W (ip_header W) p;
          p = drop n p
      in if n \<noteq> 0
         then (let protocol_temp = ip_protocol W ip_hd;
                   dst_port = (if protocol_temp = 0x11 then udp_dst_port W (fst (h_read W (udp_header W) p))
                               else if protocol_temp = 0x06 then tcp_dst_port W (fst (h_read W (tcp_header W) p))
                               else 0)
               in (dst_port, h_write W ip_hd @ p))
         else (0, p))"

definition HandleTransportLayerHeader ::
  "('addr, 'h) wire \<Rightarrow> u8 list \<Rightarrow> custom_header \<Rightarrow> u8 \<Rightarrow> bool \<Rightarrow> u8 list \<times> bool" where
  "HandleTransportLayerHeader W p cus_hd protocol removeHeader =
     (if protocol = 0x11 \<or> protocol = 0x06
      then (let hdr = (if protocol = 0x11 then udp_header W else tcp_header W);
                (hdr, p) = (if removeHeader then (case h_read W hdr p of (hdr, n) \<Rightarrow> (hdr, drop n p)) else (hdr, p));
                p = Serialize cus_hd @ p;
                p = (if \<not> removeHeader then h_write W hdr @ p else p)
            in (p, True))
      else (p, False))"

definition HandleLayer2 :: "('addr, 'h) wire \<Rightarrow> u8 list \<Rightarrow> custom_header \<Rightarrow> 'h \<Rightarrow> u8 list" where
  "HandleLayer2 W p cus_hd eeh_header =
     (case GetOperator cus_hd of
        ADD_BEFORE \<Rightarrow>
          (let cus_hd = SetProtocolFieldNumber cus_hd 0x1
           in Serialize cus_hd @ h_write W eeh_header @ p)
      | ADD_AFTER \<Rightarrow>
          (let eeh_header = eth_set_type W eeh_header (of_nat p4ProtocolNumber);
               cus_hd = SetProtocolFieldNumber cus_hd 0x0800
           in h_write W eeh_header @ Serialize cus_hd @ p)
      | REPLACE \<Rightarrow>
          (let cus_hd = SetProtocolFieldNumber cus_hd 0x0800
           in Serialize cus_hd @ p))"

definition HandleLayer3 :: "('addr, 'h) wire \<Rightarrow> u8 list \<Rightarrow> custom_header \<Rightarrow> 'h \<Rightarrow> u8 list" where
  "HandleLayer3 W p cus_hd eeh_header =
     (case GetOperator cus_hd of
        ADD_BEFORE \<Rightarrow>
          (let eeh_header = eth_set_type W eeh_header (of_nat p4ProtocolNumber);
               cus_hd = SetProtocolFieldNumber cus_hd 0x0800
           in h_write W eeh_header @ Serialize cus_hd @ p)
      | ADD_AFTER \<Rightarrow>
          (let (ip_hd, n) = h_read W (ip_header W) p;
               p = drop n p
           in if n \<noteq> 0
              then (let ip_hd = ip_set_protocol W ip_hd (of_nat p4ProtocolNumber);
                        protocol_temp = ip_protocol W ip_hd;
                        cus_hd = SetProtocolFieldNumber cus_hd (ucast protocol_temp)
                    in h_write W eeh_header @ h_write W ip_hd @ Serialize cus_hd @ p)
              else p)
      | REPLACE \<Rightarrow>
          (let eeh_header = eth_set_type W eeh_header (of_nat p4ProtocolNumber);
               (ip_hd, n) = h_read W (ip_header W) p;
               p = drop n p
           in if n \<noteq> 0
              then (let protocol_temp = ip_protocol W ip_hd;
                        cus_hd = SetProtocolFieldNumber cus_hd (ucast protocol_temp)
                    in h_write W eeh_header @ Serialize cus_hd @ p)
              else p))"

definition HandleLayer4 :: "('addr, 'h) wire \<Rightarrow> u8 list \<Rightarrow> custom_header \<Rightarrow> 'h \<Rightarrow> u8 list" where
  "HandleLayer4 W p cus_hd eeh_header =
     (let (ip_hd, n) = h_read W (ip_header W) p;
          p = drop n p
      in if n = 0 then p
         else
           (let protocol_temp = ip_protocol W ip_hd;
                cus_hd = SetProtocolFieldNumber cus_hd 0;
                (ip_hd, p) =
                  (case GetOperator cus_hd of
                     ADD_BEFORE \<Rightarrow>
                       (let cus_hd = SetProtocolFieldNumber cus_hd (ucast protocol_temp)
                        in (ip_set_protocol W ip_hd (of_nat p4ProtocolNumber), Serialize cus_hd @ p))
                   | ADD_AFTER \<Rightarrow> (ip_hd, fst (HandleTransportLayerHeader W p cus_hd protocol_temp False))
                   | REPLACE \<Rightarrow> (ip_hd, fst (HandleTransportLayerHeader W p cus_hd protocol_temp True)))
            in h_write W eeh_header @ h_write W ip_hd @ p))"

definition new_eth :: "('addr, 'h) wire \<Rightarrow> 'addr \<Rightarrow> 'addr \<Rightarrow> u16 \<Rightarrow> 'h" where
  "new_eth W source dest protocolNumber =
     eth_set_type W (eth_set_destination W (eth_set_source W (eth_header W) source) dest) protocolNumber"

definition AddEthernetHeader :: "('addr, 'h) wire \<Rightarrow> u8 list \<Rightarrow> 'addr \<Rightarrow> 'addr \<Rightarrow> u16 \<Rightarrow> u8 list" where
  "AddEthernetHeader W p source dest protocolNumber = h_write W (new_eth W source dest protocolNumber) @ p"

definition P2PAddHeader ::
  "('addr, 'h) wire \<Rightarrow> ('dev, 'addr, 'q, 'z) p2p_device_scheme \<Rightarrow> u8 list \<Rightarrow> 'addr \<Rightarrow> 'addr \<Rightarrow> u16 \<Rightarrow> u8 list" where
  "P2PAddHeader W dv p source dest protocolNumber =
     (let eeh_header = new_eth W source dest protocolNumber;
          (dst_port, p) = GetDstPort W p
      in if dst_port < pd_dst_port_min dv \<or> dst_port > pd_dst_port_max dv
         then h_write W eeh_header @ p
         else
           (let cus_hd = SetProtocolFieldNumber (pd_header dv) 0
            in case GetLayer cus_hd of
                 LAYER_2 \<Rightarrow> HandleLayer2 W p cus_hd eeh_header
               | LAYER_3 \<Rightarrow> HandleLayer3 W p cus_hd eeh_header
               | LAYER_4 \<Rightarrow> HandleLayer4 W p cus_hd eeh_header
               | LAYER_5 \<Rightarrow> p))"

subsection \<open>Receiving\<close>

text \<open>A header that can be peeked is read a second time, into the same object, to remove it.\<close>

definition take_header :: "('addr, 'h) wire \<Rightarrow> u8 list \<Rightarrow> 'h \<Rightarrow> ('h \<times> bool) \<times> u8 list" where
  "take_header W p hdr =
     (let (hdr, n) = h_read W hdr p
      in if n \<noteq> 0 then (case h_read W hdr p of (hdr, n) \<Rightarrow> ((hdr, True), drop n p)) else ((hdr, False), p))"

definition CheckIfEthernetHeader :: "('addr, 'h) wire \<Rightarrow> u8 list \<Rightarrow> 'h \<Rightarrow> nat \<times> 'h \<times> u8 list" where
  "CheckIfEthernetHeader W p eeh_hd =
     (case take_header W p eeh_hd of
        ((hdr, found), p') \<Rightarrow> ((if found then unat (eth_type W (fst (h_read W eeh_hd p))) else 0), hdr, p'))"

definition CheckIfIpv4Header :: "('addr, 'h) wire \<Rightarrow> u8 list \<Rightarrow> 'h \<Rightarrow> nat \<times> 'h \<times> u8 list" where
  "CheckIfIpv4Header W p ip_hd =
     (case take_header W p ip_hd of
        ((hdr, found), p') \<Rightarrow> ((if found then unat (ip_protocol W (fst (h_read W ip_hd p))) else 0), hdr, p'))"

definition CheckIfArpHeader :: "('addr, 'h) wire \<Rightarrow> u8 list \<Rightarrow> 'h \<Rightarrow> nat \<times> 'h \<times> u8 list" where
  "CheckIfArpHeader W p arp_hd = (case take_header W p arp_hd of ((hdr, found), p') \<Rightarrow> (0, hdr, p'))"

definition CheckIfUdpHeader :: "('addr, 'h) wire \<Rightarrow> u8 list \<Rightarrow> 'h \<Rightarrow> nat \<times> 'h \<times> u8 list" where
  "CheckIfUdpHeader W p udp_hd = (case take_header W p udp_hd of ((hdr, found), p') \<Rightarrow> (0, hdr, p'))"

definition CheckIfTcpHeader :: "('addr, 'h) wire \<Rightarrow> u8 list \<Rightarrow> 'h \<Rightarrow> nat \<times> 'h \<times> u8 list" where
  "CheckIfTcpHeader W p tcp_hd = (case take_header W p tcp_hd of ((hdr, found), p') \<Rightarrow> (0, hdr, p'))"

definition CheckIfCustomHeader :: "custom_header \<Rightarrow> u8 list \<Rightarrow> stop + nat \<times> u8 list" where
  "CheckIfCustomHeader m_header p =
     (case read_custom m_header p of
        Inl e \<Rightarrow> Inl e
      | Inr (cus_hd, n) \<Rightarrow>
          (if n \<noteq> 0
           then (case read_custom cus_hd p of
                   Inl e \<Rightarrow> Inl e
                 | Inr (cus_hd, n) \<Rightarrow> Inr (unat (GetProtocolNumber cus_hd), drop n p))
           else Inr (0, p)))"

text \<open>The local variables of \<open>RestoreHeaders\<close>; the top of the stack is the head of the list.\<close>

record 'h restore =
  rs_packet :: "u8 list"
  rs_ip :: 'h
  rs_arp :: 'h
  rs_udp :: 'h
  rs_tcp :: 'h
  rs_stack :: "nat list"

text \<open>
  The first loop. Protocol 1 is left as it is and tried again, so that the loop does not end:
  the fuel runs out.
\<close>

fun restore_parse ::
  "nat \<Rightarrow> ('addr, 'h) wire \<Rightarrow> custom_header \<Rightarrow> nat \<Rightarrow> 'h restore \<Rightarrow> stop + 'h restore" where
  "restore_parse 0 W m_header protocol st = (if protocol = 0 then Inr st else Inl NoFuel)"
| "restore_parse (Suc fuel) W m_header protocol st =
     (if protocol = 0 then Inr st
      else
        (let st = st\<lparr>rs_stack := protocol # rs_stack st\<rparr>;
             after_transport = (if GetLayer m_header = LAYER_4 \<and> GetOperator m_header = ADD_AFTER then p4ProtocolNumber else 0)
         in if protocol = 0x1 then restore_parse fuel W m_header protocol st
            else if protocol = 0x0800
            then (case CheckIfIpv4Header W (rs_packet st) (rs_ip st) of
                    (protocol, hdr, p) \<Rightarrow> restore_parse fuel W m_header protocol (st\<lparr>rs_packet := p, rs_ip := hdr\<rparr>))
            else if protocol = 0x0806
            then (case CheckIfArpHeader W (rs_packet st) (rs_arp st) of
                    (protocol, hdr, p) \<Rightarrow> restore_parse fuel W m_header protocol (st\<lparr>rs_packet := p, rs_arp := hdr\<rparr>))
            else if protocol = 0x86DD then restore_parse fuel W m_header 0 st
            else if protocol = 0x11
            then (case CheckIfUdpHeader W (rs_packet st) (rs_udp st) of
                    (_, hdr, p) \<Rightarrow> restore_parse fuel W m_header after_transport (st\<lparr>rs_packet := p, rs_udp := hdr\<rparr>))
            else if protocol = 0x06
            then (case CheckIfTcpHeader W (rs_packet st) (rs_tcp st) of
                    (_, hdr, p) \<Rightarrow> restore_parse fuel W m_header after_transport (st\<lparr>rs_packet := p, rs_tcp := hdr\<rparr>))
            else if protocol = p4ProtocolNumber
            then (case CheckIfCustomHeader m_header (rs_packet st) of
                    Inl e \<Rightarrow> Inl e
                  | Inr (protocol, p) \<Rightarrow> restore_parse fuel W m_header protocol (st\<lparr>rs_packet := p\<rparr>))
            else restore_parse fuel W m_header 0 st))"

text \<open>The second loop: the headers go back in front of the packet, the last found first.\<close>

fun restore_reverse :: "('addr, 'h) wire \<Rightarrow> 'h \<Rightarrow> 'h restore \<Rightarrow> nat list \<Rightarrow> u8 list \<Rightarrow> u8 list" where
  "restore_reverse W eeh_hd st [] p = p"
| "restore_reverse W eeh_hd st (protocol # stack) p =
     restore_reverse W eeh_hd st stack
       (if protocol = p4ProtocolNumber then p
        else if protocol = 0x11 then h_write W (rs_udp st) @ p
        else if protocol = 0x06 then h_write W (rs_tcp st) @ p
        else if protocol = 0x0800 then h_write W (rs_ip st) @ p
        else if protocol = 0x1 then h_write W eeh_hd @ p
        else p)"

definition RestoreHeaders :: "nat \<Rightarrow> ('addr, 'h) wire \<Rightarrow> custom_header \<Rightarrow> u8 list \<Rightarrow> stop + u8 list" where
  "RestoreHeaders fuel W m_header p =
     (case CheckIfEthernetHeader W p (eth_header W) of
        (protocol, eeh_hd, p) \<Rightarrow>
          (case (if protocol = 0 then CheckIfCustomHeader m_header p else Inr (protocol, p)) of
             Inl e \<Rightarrow> Inl e
           | Inr (protocol, p) \<Rightarrow>
               (case restore_parse fuel W m_header protocol
                       \<lparr>rs_packet = p, rs_ip = ip_header W, rs_arp = arp_header W, rs_udp = udp_header W,
                        rs_tcp = tcp_header W, rs_stack = []\<rparr> of
                  Inl e \<Rightarrow> Inl e
                | Inr st \<Rightarrow> Inr (restore_reverse W eeh_hd st (rs_stack st) (rs_packet st)))))"

text \<open>\<open>param\<close> is the protocol number, passed by reference.\<close>

definition ProcessHeader ::
  "nat \<Rightarrow> ('addr, 'h) wire \<Rightarrow> ('dev, 'addr, 'q, 'z) p2p_device_scheme \<Rightarrow> u8 list \<Rightarrow> u16 \<Rightarrow> stop + u8 list \<times> u16" where
  "ProcessHeader fuel W dv p param =
     (if pd_need_process dv
      then (case RestoreHeaders fuel W (pd_header dv) p of
              Inl e \<Rightarrow> Inl e
            | Inr p \<Rightarrow>
                Inr (p, if snd (h_read W (ip_header W) p) \<noteq> 0 then 0x0800
                        else if snd (h_read W (arp_header W) p) \<noteq> 0 then 0x0806
                        else param))
      else
        (case h_read W (eth_header W) p of
           (eth, n) \<Rightarrow> (if n \<noteq> 0 then Inr (drop (snd (h_read W eth p)) p, eth_type W eth) else Inr (p, param))))"

definition RemoveEthernetHeader :: "('addr, 'h) wire \<Rightarrow> u8 list \<Rightarrow> u8 list \<times> bool" where
  "RemoveEthernetHeader W p =
     (case take_header W p (eth_header W) of ((_, found), p) \<Rightarrow> (p, found))"

subsection \<open>Reading what was written\<close>

lemma wire_readD:
  assumes "wire_laws W" "h_kind W g = h_kind W h"
  shows "snd (h_read W g (h_write W h @ x)) = length (h_write W h)" "h_write W h \<noteq> []"
    and "h_kind W (fst (h_read W g (h_write W h @ x))) = h_kind W h"
    and "h_write W (fst (h_read W g (h_write W h @ x))) = h_write W h"
    and "eth_type W (fst (h_read W g (h_write W h @ x))) = eth_type W h"
    and "ip_protocol W (fst (h_read W g (h_write W h @ x))) = ip_protocol W h"
    and "udp_dst_port W (fst (h_read W g (h_write W h @ x))) = udp_dst_port W h"
    and "tcp_dst_port W (fst (h_read W g (h_write W h @ x))) = tcp_dst_port W h"
proof -
  have "\<forall>g h x. h_kind W g = h_kind W h \<longrightarrow>
        snd (h_read W g (h_write W h @ x)) = length (h_write W h) \<and> h_write W h \<noteq> [] \<and>
        h_kind W (fst (h_read W g (h_write W h @ x))) = h_kind W h \<and>
        h_write W (fst (h_read W g (h_write W h @ x))) = h_write W h \<and>
        eth_type W (fst (h_read W g (h_write W h @ x))) = eth_type W h \<and>
        ip_protocol W (fst (h_read W g (h_write W h @ x))) = ip_protocol W h \<and>
        udp_dst_port W (fst (h_read W g (h_write W h @ x))) = udp_dst_port W h \<and>
        tcp_dst_port W (fst (h_read W g (h_write W h @ x))) = tcp_dst_port W h"
    using assms(1) unfolding wire_laws_def by (rule conjunct1)
  note X = this [rule_format, OF assms(2)]
  show "snd (h_read W g (h_write W h @ x)) = length (h_write W h)" "h_write W h \<noteq> []"
    "h_kind W (fst (h_read W g (h_write W h @ x))) = h_kind W h"
    "h_write W (fst (h_read W g (h_write W h @ x))) = h_write W h"
    "eth_type W (fst (h_read W g (h_write W h @ x))) = eth_type W h"
    "ip_protocol W (fst (h_read W g (h_write W h @ x))) = ip_protocol W h"
    "udp_dst_port W (fst (h_read W g (h_write W h @ x))) = udp_dst_port W h"
    "tcp_dst_port W (fst (h_read W g (h_write W h @ x))) = tcp_dst_port W h"
    using X by simp_all
qed

lemma wire_kinds:
  assumes "wire_laws W"
  shows "h_kind W (eth_header W) = EthK" "h_kind W (ip_header W) = Ipv4K" "h_kind W (udp_header W) = UdpK"
    "h_kind W (tcp_header W) = TcpK" "h_kind W (arp_header W) = ArpK"
    "h_kind W (eth_set_type W h t) = h_kind W h" "eth_type W (eth_set_type W h t) = t"
    "h_kind W (ip_set_protocol W h v) = h_kind W h" "ip_protocol W (ip_set_protocol W h v) = v"
    "h_kind W (new_eth W s d t) = EthK" "eth_type W (new_eth W s d t) = t"
  using assms unfolding wire_laws_def new_eth_def by auto

lemma write_set_protocol:
  assumes "wire_laws W" "h_kind W g = h_kind W h" "h_write W g = h_write W h"
  shows "h_write W (ip_set_protocol W g v) = h_write W (ip_set_protocol W h v)"
proof -
  have "\<forall>g h v. h_kind W g = h_kind W h \<longrightarrow> h_write W g = h_write W h \<longrightarrow>
        h_write W (ip_set_protocol W g v) = h_write W (ip_set_protocol W h v)"
    using assms(1) unfolding wire_laws_def by (elim conjE)
  then show ?thesis using assms(2,3) by blast
qed

text \<open>A header object that reads a written header, in the three forms the code does it.\<close>

lemma read_written:
  assumes "wire_laws W" "h_kind W g = h_kind W h"
  obtains h' where "h_read W g (h_write W h @ x) = (h', length (h_write W h))" "h_kind W h' = h_kind W h"
    "h_write W h' = h_write W h" "eth_type W h' = eth_type W h" "ip_protocol W h' = ip_protocol W h"
    "udp_dst_port W h' = udp_dst_port W h" "tcp_dst_port W h' = tcp_dst_port W h"
  by (rule that [OF prod_eqI [where q = "(fst (h_read W g (h_write W h @ x)), length (h_write W h))"]])
    (simp_all add: wire_readD [OF assms])

lemma take_written:
  assumes "wire_laws W" "h_kind W g = h_kind W h"
  obtains h' h'' where "h_read W g (h_write W h @ x) = (h'', length (h_write W h))"
    "take_header W (h_write W h @ x) g = ((h', True), x)" "h_kind W h' = h_kind W h"
    "h_write W h' = h_write W h" "eth_type W h'' = eth_type W h" "ip_protocol W h'' = ip_protocol W h"
proof -
  obtain h'' where a: "h_read W g (h_write W h @ x) = (h'', length (h_write W h))" "h_kind W h'' = h_kind W h"
    "eth_type W h'' = eth_type W h" "ip_protocol W h'' = ip_protocol W h"
    by (rule read_written [OF assms]) blast
  obtain h' where b: "h_read W h'' (h_write W h @ x) = (h', length (h_write W h))" "h_kind W h' = h_kind W h"
    "h_write W h' = h_write W h"
    by (rule read_written [OF assms(1) a(2)]) blast
  show thesis
    by (rule that [of h'' h']) (use a b wire_readD(2) [OF assms] in \<open>simp_all add: take_header_def\<close>)
qed

lemma CheckIfEthernet_written:
  assumes "wire_laws W" "h_kind W h = EthK"
  obtains h' where "CheckIfEthernetHeader W (h_write W h @ x) (eth_header W) = (unat (eth_type W h), h', x)" "h_write W h' = h_write W h"
proof -
  have "h_kind W (eth_header W) = h_kind W h" by (simp add: assms(2) wire_kinds [OF assms(1)])
  from assms(1) this obtain h' h'' where t: "h_read W (eth_header W) (h_write W h @ x) = (h'', length (h_write W h))"
    "take_header W (h_write W h @ x) (eth_header W) = ((h', True), x)" "h_kind W h' = h_kind W h" "h_write W h' = h_write W h"
    "eth_type W h'' = eth_type W h" "ip_protocol W h'' = ip_protocol W h"
    by (rule take_written)
  show thesis by (rule that [of h']) (simp_all add: CheckIfEthernetHeader_def t assms)
qed

lemma CheckIfIpv4_written:
  assumes "wire_laws W" "h_kind W g = Ipv4K" "h_kind W h = Ipv4K"
  obtains h' where "CheckIfIpv4Header W (h_write W h @ x) g = (unat (ip_protocol W h), h', x)" "h_write W h' = h_write W h"
    "h_kind W h' = Ipv4K"
proof -
  have "h_kind W g = h_kind W h" using assms by simp
  from assms(1) this obtain h' h'' where t: "h_read W g (h_write W h @ x) = (h'', length (h_write W h))"
    "take_header W (h_write W h @ x) g = ((h', True), x)" "h_kind W h' = h_kind W h" "h_write W h' = h_write W h"
    "eth_type W h'' = eth_type W h" "ip_protocol W h'' = ip_protocol W h"
    by (rule take_written)
  show thesis by (rule that [of h']) (simp_all add: CheckIfIpv4Header_def t assms)
qed

lemma CheckIfUdp_written:
  assumes "wire_laws W" "h_kind W g = UdpK" "h_kind W h = UdpK"
  obtains h' where "CheckIfUdpHeader W (h_write W h @ x) g = (0, h', x)" "h_write W h' = h_write W h"
proof -
  have "h_kind W g = h_kind W h" using assms by simp
  from assms(1) this obtain h' h'' where t: "h_read W g (h_write W h @ x) = (h'', length (h_write W h))"
    "take_header W (h_write W h @ x) g = ((h', True), x)" "h_kind W h' = h_kind W h" "h_write W h' = h_write W h"
    "eth_type W h'' = eth_type W h" "ip_protocol W h'' = ip_protocol W h"
    by (rule take_written)
  show thesis by (rule that [of h']) (simp_all add: CheckIfUdpHeader_def t assms)
qed

text \<open>The destination port of a packet that starts with an IPv4 and a UDP header; it is left as it was.\<close>

lemma GetDstPort_udp:
  assumes "wire_laws W" "h_kind W ip = Ipv4K" "h_kind W udp = UdpK" "ip_protocol W ip = 0x11"
  shows "GetDstPort W (h_write W ip @ h_write W udp @ payload) = (udp_dst_port W udp, h_write W ip @ h_write W udp @ payload)"
proof -
  have k: "h_kind W (ip_header W) = h_kind W ip" "h_kind W (udp_header W) = h_kind W udp"
    using assms wire_kinds [OF assms(1)] by simp_all
  obtain i where i: "h_read W (ip_header W) (h_write W ip @ h_write W udp @ payload) = (i, length (h_write W ip))"
    "h_write W i = h_write W ip" "ip_protocol W i = ip_protocol W ip"
    by (rule read_written [OF assms(1) k(1)]) blast
  show ?thesis
    using i wire_readD(2) [OF assms(1) k(1)] wire_readD(7) [OF assms(1) k(2), of payload] assms(4)
    by (simp add: GetDstPort_def)
qed

lemma CheckIfCustom_written:
  assumes "fields_ok h" "same_shape (ch_fields g) (ch_fields h)" "total_bits h < 2 ^ 32 - 7" "0 < total_bits h"
  shows "CheckIfCustomHeader g (Serialize h @ x) = Inr (unat (GetProtocolNumber (g\<lparr>ch_fields := ch_fields h\<rparr>)), x)"
proof -
  have sz: "unat (GetSerializedSize h) = length (Serialize h)" by (rule GetSerializedSize_exact [OF assms(3)])
  have "same_shape (ch_fields (g\<lparr>ch_fields := ch_fields h\<rparr>)) (ch_fields h)" by (simp add: same_shape_def)
  note r = Deserialize_written [OF assms(1-3), of x] Deserialize_written [OF assms(1) this assms(3), of x]
  have "length (Serialize h) \<noteq> 0" using assms(4) by (simp add: length_Serialize div_eq_0_iff flip: total_bits_def)
  with sz have "0 < length (Serialize h)" "Serialize h \<noteq> []" by auto
  with sz show ?thesis by (simp add: CheckIfCustomHeader_def read_custom_def r)
qed

subsection \<open>Properties\<close>

text \<open>A packet as the stack hands it down: IPv4, UDP, payload.\<close>

definition udp_packet :: "('addr, 'h) wire \<Rightarrow> 'h \<Rightarrow> 'h \<Rightarrow> u8 list \<Rightarrow> u8 list" where
  "udp_packet W ip udp payload = h_write W ip @ h_write W udp @ payload"

definition is_udp :: "('addr, 'h) wire \<Rightarrow> 'h \<Rightarrow> 'h \<Rightarrow> bool" where
  "is_udp W ip udp \<longleftrightarrow> h_kind W ip = Ipv4K \<and> h_kind W udp = UdpK \<and> ip_protocol W ip = 0x11"

definition port_in_range :: "('dev, 'addr, 'q, 'z) p2p_device_scheme \<Rightarrow> u16 \<Rightarrow> bool" where
  "port_in_range dv port \<longleftrightarrow> pd_dst_port_min dv \<le> port \<and> port \<le> pd_dst_port_max dv"

lemma Serialize_index [simp]: "Serialize (SetProtocolFieldNumber h i) = Serialize h"
  by (simp add: SetProtocolFieldNumber_def Serialize_def)

lemma GetLayer_index [simp]:
  "GetLayer (SetProtocolFieldNumber h i) = GetLayer h" "GetOperator (SetProtocolFieldNumber h i) = GetOperator h"
  by (simp_all add: SetProtocolFieldNumber_def GetLayer_def GetOperator_def)

lemma udp_dport: "wire_laws W \<Longrightarrow> is_udp W ip udp \<Longrightarrow>
  GetDstPort W (udp_packet W ip udp payload) = (udp_dst_port W udp, udp_packet W ip udp payload)"
  by (simp add: udp_packet_def is_udp_def GetDstPort_udp)

lemma read_ip_udp:
  assumes "wire_laws W" "is_udp W ip udp"
  obtains i where "h_read W (ip_header W) (udp_packet W ip udp payload) = (i, length (h_write W ip))" "h_kind W i = h_kind W ip"
    "h_write W i = h_write W ip" "ip_protocol W i = 0x11" "h_write W ip \<noteq> []"
    "\<And>v. h_write W (ip_set_protocol W i v) = h_write W (ip_set_protocol W ip v)"
proof -
  have k: "h_kind W (ip_header W) = h_kind W ip" using assms wire_kinds(2) [OF assms(1)] by (simp add: is_udp_def)
  obtain i where i: "h_read W (ip_header W) (udp_packet W ip udp payload) = (i, length (h_write W ip))" "h_kind W i = h_kind W ip"
    "h_write W i = h_write W ip" "ip_protocol W i = ip_protocol W ip"
    unfolding udp_packet_def by (rule read_written [OF assms(1) k]) blast
  show thesis
    by (rule that [OF i(1-3) _ wire_readD(2) [OF assms(1) k] write_set_protocol [OF assms(1) i(2,3)]])
      (use i(4) assms(2) in \<open>simp add: is_udp_def\<close>)
qed

lemma HandleLayer3_udp:
  assumes "wire_laws W" "is_udp W ip udp"
  shows "HandleLayer3 W (udp_packet W ip udp payload) c e =
    (case GetOperator c of
       ADD_BEFORE \<Rightarrow> h_write W (eth_set_type W e 0xDC) @ Serialize c @ udp_packet W ip udp payload
     | ADD_AFTER \<Rightarrow> h_write W e @ h_write W (ip_set_protocol W ip 0xDC) @ Serialize c @ h_write W udp @ payload
     | REPLACE \<Rightarrow> h_write W (eth_set_type W e 0xDC) @ Serialize c @ h_write W udp @ payload)"
proof -
  obtain i where i: "h_read W (ip_header W) (udp_packet W ip udp payload) = (i, length (h_write W ip))"
    "h_write W ip \<noteq> []" "\<And>v. h_write W (ip_set_protocol W i v) = h_write W (ip_set_protocol W ip v)"
    by (rule read_ip_udp [OF assms]) blast
  have "drop (length (h_write W ip)) (udp_packet W ip udp payload) = h_write W udp @ payload"
    by (simp add: udp_packet_def)
  with i show ?thesis
    by (simp add: HandleLayer3_def p4ProtocolNumber_def split: HeaderLayerOperator.split)
qed

lemma HandleLayer4_udp:
  assumes "wire_laws W" "is_udp W ip udp"
  shows "HandleLayer4 W (udp_packet W ip udp payload) c e =
    (case GetOperator c of
       ADD_BEFORE \<Rightarrow> h_write W e @ h_write W (ip_set_protocol W ip 0xDC) @ Serialize c @ h_write W udp @ payload
     | ADD_AFTER \<Rightarrow> h_write W e @ h_write W ip @ h_write W (udp_header W) @ Serialize c @ h_write W udp @ payload
     | REPLACE \<Rightarrow> h_write W e @ h_write W ip @ Serialize c @ payload)"
proof -
  obtain i where i: "h_read W (ip_header W) (udp_packet W ip udp payload) = (i, length (h_write W ip))"
    "h_write W i = h_write W ip" "ip_protocol W i = 0x11" "h_write W ip \<noteq> []"
    "\<And>v. h_write W (ip_set_protocol W i v) = h_write W (ip_set_protocol W ip v)"
    by (rule read_ip_udp [OF assms]) blast
  have d: "drop (length (h_write W ip)) (udp_packet W ip udp payload) = h_write W udp @ payload"
    by (simp add: udp_packet_def)
  have "h_kind W (udp_header W) = h_kind W udp" using assms wire_kinds(3) [OF assms(1)] by (simp add: is_udp_def)
  then obtain u where u: "h_read W (udp_header W) (h_write W udp @ payload) = (u, length (h_write W udp))"
    by (rule read_written [OF assms(1), of _ _ payload]) blast
  show ?thesis
    using i d u
    by (simp add: HandleLayer4_def HandleTransportLayerHeader_def p4ProtocolNumber_def split: HeaderLayerOperator.split)
qed

text \<open>C35. What a host puts on the wire for a UDP packet, byte for byte. Outside the range of destination
  ports it is the packet behind an Ethernet header. Inside, the place of the custom header follows
  its layer and operator, and the header that precedes it announces \<open>0xDC\<close>, except that on layer 4
  \<open>ADD_AFTER\<close> puts a default UDP header before the custom header and leaves the packet's own behind
  it, and that on layer 5 the packet goes out without any header, not even Ethernet.\<close>

theorem host_wire_format:
  assumes "wire_laws W" "is_udp W ip udp"
  shows "P2PAddHeader W dv (udp_packet W ip udp payload) src dst proto =
    (let eth = new_eth W src dst proto; custom = Serialize (pd_header dv)
     in if \<not> port_in_range dv (udp_dst_port W udp) then h_write W eth @ h_write W ip @ h_write W udp @ payload
        else case (GetLayer (pd_header dv), GetOperator (pd_header dv)) of
          (LAYER_2, ADD_BEFORE) \<Rightarrow> custom @ h_write W eth @ h_write W ip @ h_write W udp @ payload
        | (LAYER_2, ADD_AFTER) \<Rightarrow> h_write W (eth_set_type W eth 0xDC) @ custom @ h_write W ip @ h_write W udp @ payload
        | (LAYER_2, REPLACE) \<Rightarrow> custom @ h_write W ip @ h_write W udp @ payload
        | (LAYER_3, ADD_BEFORE) \<Rightarrow> h_write W (eth_set_type W eth 0xDC) @ custom @ h_write W ip @ h_write W udp @ payload
        | (LAYER_3, ADD_AFTER) \<Rightarrow> h_write W eth @ h_write W (ip_set_protocol W ip 0xDC) @ custom @ h_write W udp @ payload
        | (LAYER_3, REPLACE) \<Rightarrow> h_write W (eth_set_type W eth 0xDC) @ custom @ h_write W udp @ payload
        | (LAYER_4, ADD_BEFORE) \<Rightarrow> h_write W eth @ h_write W (ip_set_protocol W ip 0xDC) @ custom @ h_write W udp @ payload
        | (LAYER_4, ADD_AFTER) \<Rightarrow> h_write W eth @ h_write W ip @ h_write W (udp_header W) @ custom @ h_write W udp @ payload
        | (LAYER_4, REPLACE) \<Rightarrow> h_write W eth @ h_write W ip @ custom @ payload
        | (LAYER_5, _) \<Rightarrow> h_write W ip @ h_write W udp @ payload)"
proof -
  let ?c = "SetProtocolFieldNumber (pd_header dv) 0"
  have E: "P2PAddHeader W dv (udp_packet W ip udp payload) src dst proto =
    (if \<not> port_in_range dv (udp_dst_port W udp) then h_write W (new_eth W src dst proto) @ udp_packet W ip udp payload
     else case GetLayer (pd_header dv) of
       LAYER_2 \<Rightarrow> HandleLayer2 W (udp_packet W ip udp payload) ?c (new_eth W src dst proto)
     | LAYER_3 \<Rightarrow> HandleLayer3 W (udp_packet W ip udp payload) ?c (new_eth W src dst proto)
     | LAYER_4 \<Rightarrow> HandleLayer4 W (udp_packet W ip udp payload) ?c (new_eth W src dst proto)
     | LAYER_5 \<Rightarrow> udp_packet W ip udp payload)"
    unfolding P2PAddHeader_def Let_def udp_dport [OF assms] prod.case port_in_range_def not_le GetLayer_index
    by (auto simp: not_le)
  show ?thesis
    unfolding E HandleLayer3_udp [OF assms] HandleLayer4_udp [OF assms] HandleLayer2_def Let_def p4ProtocolNumber_def
    by (simp add: udp_packet_def split: HeaderLayer.split HeaderLayerOperator.split)
qed


lemma restore_start_eth:
  assumes "wire_laws W" "h_kind W e = EthK" "eth_type W e \<noteq> 0"
  obtains e' where "h_write W e' = h_write W e"
    "RestoreHeaders fuel W m (h_write W e @ x) =
       (case restore_parse fuel W m (unat (eth_type W e))
          \<lparr>rs_packet = x, rs_ip = ip_header W, rs_arp = arp_header W, rs_udp = udp_header W, rs_tcp = tcp_header W, rs_stack = []\<rparr> of
          Inl er \<Rightarrow> Inl er | Inr st \<Rightarrow> Inr (restore_reverse W e' st (rs_stack st) (rs_packet st)))"
proof -
  obtain e' where e: "CheckIfEthernetHeader W (h_write W e @ x) (eth_header W) = (unat (eth_type W e), e', x)" "h_write W e' = h_write W e"
    by (rule CheckIfEthernet_written [OF assms(1,2)]) blast
  have "unat (eth_type W e) \<noteq> 0" using assms(3) by (simp add: unat_eq_0)
  with e show thesis by (intro that [of e']) (simp_all add: RestoreHeaders_def)
qed

lemma restore_ip_udp:
  assumes "wire_laws W" "is_udp W ip udp" "\<not> (GetLayer m = LAYER_4 \<and> GetOperator m = ADD_AFTER)"
    and "rs_packet st = udp_packet W ip udp payload" "h_kind W (rs_ip st) = Ipv4K" "h_kind W (rs_udp st) = UdpK"
  obtains st' where "restore_parse (Suc (Suc fuel)) W m 0x0800 st = Inr st'" "rs_packet st' = payload"
    "rs_stack st' = 0x11 # 0x0800 # rs_stack st" "h_write W (rs_ip st') = h_write W ip" "h_write W (rs_udp st') = h_write W udp"
proof -
  have k: "h_kind W ip = Ipv4K" "h_kind W udp = UdpK" "ip_protocol W ip = 0x11" using assms(2) by (simp_all add: is_udp_def)
  obtain i where i: "CheckIfIpv4Header W (h_write W ip @ h_write W udp @ payload) (rs_ip st) = (17, i, h_write W udp @ payload)"
    "h_write W i = h_write W ip"
    by (rule CheckIfIpv4_written [OF assms(1,5) k(1), of "h_write W udp @ payload"]) (simp add: k(3))
  obtain u where u: "CheckIfUdpHeader W (h_write W udp @ payload) (rs_udp st) = (0, u, payload)" "h_write W u = h_write W udp"
    by (rule CheckIfUdp_written [OF assms(1,6) k(2), of payload])
  have z: "restore_parse n W m 0 s = Inr s" for n s by (cases n) simp_all
  show thesis
    by (rule that [of "st\<lparr>rs_stack := 17 # 2048 # rs_stack st, rs_ip := i, rs_packet := payload, rs_udp := u\<rparr>"])
      (use assms(3,4) in \<open>auto simp: udp_packet_def i u z\<close>)
qed

text \<open>C18. The tunnel round trip, for the two positions of the custom header that the code restores: layer 3 with
  \<open>ADD_BEFORE\<close> (in front of IPv4) and layer 2 with \<open>ADD_AFTER\<close> (behind Ethernet). A UDP packet whose destination port is in the
  range of the sending host is wrapped with the host's header, and a host whose header has the same
  fields gives its upper layer the packet byte for byte and the protocol number of IPv4. The field that the receiver reads the next
  protocol from carries \<open>0x0800\<close> on the wire (the sender does not put it there), and the receiver's own header is not
  behind layer 4, where it would be looked for after UDP. The ns-3 headers write what they have read back in the same way
  (\<open>wire_laws\<close>). Three rounds of the parsing loop are enough. For the other positions see \<open>host_wire_format\<close>.\<close>

theorem tunnel_round_trip:
  assumes "wire_laws W" "is_udp W ip udp" "port_in_range dv (udp_dst_port W udp)"
    and "(GetLayer (pd_header dv), GetOperator (pd_header dv)) \<in> {(LAYER_3, ADD_BEFORE), (LAYER_2, ADD_AFTER)}"
    and "header_built (pd_header dv)" "total_bits (pd_header dv) < 2 ^ 32 - 7" "0 < total_bits (pd_header dv)"
    and "pd_need_process dv'" "same_shape (ch_fields (pd_header dv')) (ch_fields (pd_header dv))"
    and "GetProtocolNumber ((pd_header dv')\<lparr>ch_fields := ch_fields (pd_header dv)\<rparr>) = 0x0800"
    and "\<not> (GetLayer (pd_header dv') = LAYER_4 \<and> GetOperator (pd_header dv') = ADD_AFTER)"
  shows "ProcessHeader (fuel + 3) W dv' (P2PAddHeader W dv (udp_packet W ip udp payload) src dst proto) param =
    Inr (udp_packet W ip udp payload, 0x0800)"
proof -
  let ?e = "eth_set_type W (new_eth W src dst proto) 0xDC" and ?m = "pd_header dv'" and ?p = "udp_packet W ip udp payload"
  let ?st = "\<lparr>rs_packet = Serialize (pd_header dv) @ ?p, rs_ip = ip_header W, rs_arp = arp_header W, rs_udp = udp_header W,
      rs_tcp = tcp_header W, rs_stack = []\<rparr>"
  let ?st2 = "\<lparr>rs_packet = ?p, rs_ip = ip_header W, rs_arp = arp_header W, rs_udp = udp_header W,
      rs_tcp = tcp_header W, rs_stack = [220]\<rparr>"
  have ip: "h_kind W (ip_header W) = h_kind W ip" using assms(2) wire_kinds(2) [OF assms(1)] by (simp add: is_udp_def)
  have range: "\<not> udp_dst_port W udp < pd_dst_port_min dv" "\<not> pd_dst_port_max dv < udp_dst_port W udp"
    using assms(3) by (simp_all add: port_in_range_def not_less)
  have wire: "P2PAddHeader W dv ?p src dst proto = h_write W ?e @ Serialize (pd_header dv) @ ?p"
    using assms(4)
    by (auto simp: P2PAddHeader_def udp_dport [OF assms(1,2)] HandleLayer3_udp [OF assms(1,2)] HandleLayer2_def p4ProtocolNumber_def
        Let_def range)
  have ek: "h_kind W ?e = EthK" "eth_type W ?e = 0xDC" by (simp_all add: wire_kinds [OF assms(1)])
  then have en: "eth_type W ?e \<noteq> 0" by simp
  obtain e' where e': "RestoreHeaders (fuel + 3) W ?m (h_write W ?e @ Serialize (pd_header dv) @ ?p) =
       (case restore_parse (fuel + 3) W ?m (unat (eth_type W ?e)) ?st of
          Inl er \<Rightarrow> Inl er | Inr st \<Rightarrow> Inr (restore_reverse W e' st (rs_stack st) (rs_packet st)))"
    by (rule restore_start_eth [OF assms(1) ek(1) en])
  have c: "CheckIfCustomHeader ?m (Serialize (pd_header dv) @ ?p) = Inr (0x0800, ?p)"
    using CheckIfCustom_written [OF header_built_ok [OF assms(5)] assms(9,6,7), of ?p] assms(10) by simp
  obtain st' where st': "restore_parse (Suc (Suc fuel)) W ?m 0x0800 ?st2 = Inr st'"
    "rs_packet st' = payload" "rs_stack st' = [0x11, 0x0800, 220]" "h_write W (rs_ip st') = h_write W ip"
    "h_write W (rs_udp st') = h_write W udp"
    by (rule restore_ip_udp [OF assms(1,2,11), where st = "?st2" and payload = payload and fuel = fuel])
      (simp_all add: wire_kinds [OF assms(1)])
  have "restore_parse (fuel + 3) W ?m (unat (eth_type W ?e)) ?st = Inr st'"
  proof -
    have f3: "fuel + 3 = Suc (Suc (Suc fuel))" by simp
    show ?thesis
      unfolding f3 ek(2) by (subst restore_parse.simps(2)) (simp add: p4ProtocolNumber_def c st'(1) del: restore_parse.simps)
  qed
  then have "RestoreHeaders (fuel + 3) W ?m (P2PAddHeader W dv ?p src dst proto) = Inr ?p"
    by (simp add: wire e' st' p4ProtocolNumber_def) (simp add: udp_packet_def)
  moreover have "snd (h_read W (ip_header W) ?p) \<noteq> 0"
    using wire_readD(1,2) [OF assms(1) ip] by (simp add: udp_packet_def)
  ultimately show ?thesis by (simp add: ProcessHeader_def assms(8))
qed

text \<open>C38. A ping hangs the receiver: on a host, an IPv4 packet of protocol 1 (ICMP) behind an Ethernet header
  never leaves \<open>RestoreHeaders\<close>. The protocol number of ICMP is taken for the code's own mark of an
  Ethernet header, for which the loop does nothing and tries again: no fuel is enough.\<close>

theorem icmp_never_processed:
  assumes "wire_laws W" "h_kind W e = EthK" "eth_type W e = 0x0800" "h_kind W ip = Ipv4K" "ip_protocol W ip = 1"
    and "pd_need_process dv"
  shows "ProcessHeader fuel W dv (h_write W e @ h_write W ip @ payload) param = Inl NoFuel"
proof -
  let ?m = "pd_header dv"
  let ?st = "\<lparr>rs_packet = h_write W ip @ payload, rs_ip = ip_header W, rs_arp = arp_header W, rs_udp = udp_header W,
      rs_tcp = tcp_header W, rs_stack = []\<rparr>"
  have loop: "restore_parse n W ?m (Suc 0) st = Inl NoFuel" for n st
    by (induction n arbitrary: st) simp_all
  obtain i where i: "CheckIfIpv4Header W (h_write W ip @ payload) (ip_header W) = (1, i, payload)"
    by (rule CheckIfIpv4_written [OF assms(1) wire_kinds(2) [OF assms(1)] assms(4), of payload]) (simp add: assms(5))
  have "restore_parse fuel W ?m 0x0800 ?st = Inl NoFuel"
    by (cases fuel) (simp_all add: i loop)
  moreover have ne: "eth_type W e \<noteq> 0" using assms(3) by simp
  obtain e' where "RestoreHeaders fuel W ?m (h_write W e @ h_write W ip @ payload) =
       (case restore_parse fuel W ?m (unat (eth_type W e)) ?st of
          Inl er \<Rightarrow> Inl er | Inr st \<Rightarrow> Inr (restore_reverse W e' st (rs_stack st) (rs_packet st)))"
    by (rule restore_start_eth [OF assms(1,2) ne])
  ultimately show ?thesis by (simp add: ProcessHeader_def assms(3,6))
qed

text \<open>A port that only handles Ethernet takes off what such a port put on.\<close>

lemma ProcessHeader_ethernet:
  assumes "wire_laws W" "\<not> pd_need_process dv'"
  shows "ProcessHeader fuel W dv' (AddEthernetHeader W p src dst proto) param = Inr (p, proto)"
proof -
  let ?e = "new_eth W src dst proto"
  have k: "h_kind W (eth_header W) = h_kind W ?e" by (simp add: wire_kinds [OF assms(1)])
  obtain h' where h: "h_read W (eth_header W) (h_write W ?e @ p) = (h', length (h_write W ?e))" "h_kind W h' = h_kind W ?e"
    "eth_type W h' = eth_type W ?e"
    by (rule read_written [OF assms(1) k]) blast
  show ?thesis
    using wire_readD(1) [OF assms(1) h(2), where x = p] wire_readD(2) [OF assms(1) k] h
    by (simp add: ProcessHeader_def assms(2) AddEthernetHeader_def wire_kinds [OF assms(1)])
qed

subsection \<open>Examples\<close>

text \<open>Headers of four bytes: a byte for the kind, a 16-bit number (type or port), and a protocol.\<close>

definition kind_byte :: "header_kind \<Rightarrow> u8" where
  "kind_byte k = (case k of EthK \<Rightarrow> 1 | Ipv4K \<Rightarrow> 2 | UdpK \<Rightarrow> 3 | TcpK \<Rightarrow> 4 | ArpK \<Rightarrow> 5)"

definition ex_wire :: "(nat, header_kind \<times> u16 \<times> u8) wire" where
  "ex_wire =
     \<lparr>h_kind = fst,
      h_write = (\<lambda>(k, n, v). [kind_byte k, ucast (drop_bit 8 n), ucast n, v]),
      h_read = (\<lambda>(k, n, v) x. if length x < 4 \<or> x ! 0 \<noteq> kind_byte k then ((k, n, v), 0)
                  else ((k, push_bit 8 (ucast (x ! 1)) OR ucast (x ! 2), x ! 3), 4)),
      eth_header = (EthK, 0, 0), ip_header = (Ipv4K, 0, 0), udp_header = (UdpK, 0, 0), tcp_header = (TcpK, 0, 0),
      arp_header = (ArpK, 0, 0), eth_set_source = (\<lambda>h a. h), eth_set_destination = (\<lambda>h a. h),
      eth_set_type = (\<lambda>(k, n, v) t. (k, t, v)), eth_type = (\<lambda>(k, n, v). n), ip_protocol = (\<lambda>(k, n, v). v),
      ip_set_protocol = (\<lambda>(k, n, v) w. (k, n, w)), udp_dst_port = (\<lambda>(k, n, v). n), tcp_dst_port = (\<lambda>(k, n, v). n)\<rparr>"

lemma ex_wire_bytes: "push_bit 8 (ucast (ucast (drop_bit 8 n) :: u8)) OR ucast (ucast n :: u8) = (n :: u16)"
  by (rule bit_word_eqI) (auto simp: bit_simps)

lemma ex_wire_bytes_eq: "ucast (drop_bit 8 n) = (ucast (drop_bit 8 m) :: u8) \<Longrightarrow> ucast n = (ucast m :: u8) \<Longrightarrow> n = (m :: u16)"
  by (metis ex_wire_bytes)

lemma ex_wire_laws [simp]: "wire_laws ex_wire"
  by (auto simp: wire_laws_def ex_wire_def ex_wire_bytes dest: ex_wire_bytes_eq)

definition ex_tunnel :: "u64 \<Rightarrow> u64 \<Rightarrow> custom_header" where
  "ex_tunnel a b =
     fst (SetField (fst (SetField (fst (AddField (fst (AddField (CustomHeader LAYER_3 ADD_BEFORE) ''proto_id'' 16)) ''dst_id'' 16))
       ''proto_id'' a)) ''dst_id'' b)"

lemma ex_tunnel_eq:
  "ex_tunnel 0x0800 5 = \<lparr>ch_layer = LAYER_3, ch_op = ADD_BEFORE, ch_protocol_index = 0,
     ch_fields = [\<lparr>fd_name = ''proto_id'', fd_width = 16, fd_value = 0x0800\<rparr>, \<lparr>fd_name = ''dst_id'', fd_width = 16, fd_value = 5\<rparr>],
     ch_offset_bytes = 0\<rparr>"
  "ex_tunnel 0 0 = \<lparr>ch_layer = LAYER_3, ch_op = ADD_BEFORE, ch_protocol_index = 0,
     ch_fields = [\<lparr>fd_name = ''proto_id'', fd_width = 16, fd_value = 0\<rparr>, \<lparr>fd_name = ''dst_id'', fd_width = 16, fd_value = 0\<rparr>],
     ch_offset_bytes = 0\<rparr>"
  by (simp_all add: ex_tunnel_def SetField_def AddField_def CustomHeader_def InitFields_def)

lemma ex_tunnel_built: "header_built (ex_tunnel a b)"
  unfolding ex_tunnel_def by (intro built_set built_add built_new)

definition ex_host :: "bool \<Rightarrow> custom_header \<Rightarrow> (nat, nat, unit) p2p_device" where
  "ex_host need h =
     \<lparr>pd_tx_state = READY, pd_bps = 32768, pd_interframe_gap = 0, pd_attached = True, pd_queue = None, pd_error_model = None,
      pd_address = 1, pd_need_process = need, pd_header = h, pd_rx_callback = True, pd_promisc_callback = False, pd_if_index = 0,
      pd_link_up = True, pd_dst_port_min = 10000, pd_dst_port_max = 12000, pd_mtu = 1500, pd_current = None\<rparr>"

abbreviation ex_ip :: "u8 \<Rightarrow> header_kind \<times> u16 \<times> u8" where "ex_ip v \<equiv> (Ipv4K, 0, v)"
abbreviation ex_udp :: "u16 \<Rightarrow> header_kind \<times> u16 \<times> u8" where "ex_udp n \<equiv> (UdpK, n, 0)"

lemma ex_wire_writes:
  "h_write ex_wire (EthK, 0x0800, 0) = [1, 8, 0, 0]" "h_write ex_wire (ex_ip 1) = [2, 0, 0, 1]"
  by (code_simp, code_simp)

lemma ex_wire_kinds: "h_kind ex_wire (k, n, v) = k" "eth_type ex_wire (k, n, v) = n" "ip_protocol ex_wire (k, n, v) = v"
  by (simp_all add: ex_wire_def)

lemma ex_is_udp: "is_udp ex_wire (ex_ip 0x11) (ex_udp n)"
  by (simp add: is_udp_def ex_wire_def)

theorem host_wire_format_witness:
  "P2PAddHeader ex_wire (ex_host True (SetOperator (SetLayer (ex_tunnel 0x0800 5) LAYER_4) ADD_AFTER))
     (udp_packet ex_wire (ex_ip 0x11) (ex_udp 11000) [9]) 1 2 0x0800 =
   [1, 8, 0, 0] @ [2, 0, 0, 0x11] @ [3, 0, 0, 0] @ Serialize (ex_tunnel 0x0800 5) @ [3, 0x2A, 0xF8, 0] @ [9]"
  by (simp add: host_wire_format [OF ex_wire_laws ex_is_udp] port_in_range_def ex_host_def SetOperator_def SetLayer_def GetLayer_def
      GetOperator_def new_eth_def Let_def) (simp add: ex_wire_def kind_byte_def Serialize_def)

theorem tunnel_round_trip_witness:
  "ProcessHeader 3 ex_wire (ex_host True (ex_tunnel 0 0))
     (P2PAddHeader ex_wire (ex_host True (ex_tunnel 0x0800 5)) (udp_packet ex_wire (ex_ip 0x11) (ex_udp 11000) [9]) 1 2 0x0800) 0 =
   Inr (udp_packet ex_wire (ex_ip 0x11) (ex_udp 11000) [9], 0x0800)"
proof -
  have "port_in_range (ex_host True (ex_tunnel 0x0800 5)) (udp_dst_port ex_wire (ex_udp 11000))"
    by (simp add: port_in_range_def ex_host_def ex_wire_def)
  from tunnel_round_trip [OF ex_wire_laws ex_is_udp this, of "ex_host True (ex_tunnel 0 0)" 0 "[9]" 1 2 "0x0800" 0] show ?thesis
    using ex_tunnel_built [of "0x0800" 5]
    by (simp add: ex_host_def ex_tunnel_eq GetLayer_def GetOperator_def total_bits_def same_shape_def GetProtocolNumber_def)
qed

theorem icmp_never_processed_witness:
  "\<forall>fuel. ProcessHeader fuel ex_wire (ex_host True (ex_tunnel 0 0)) ([1, 8, 0, 0] @ [2, 0, 0, 1] @ [8, 0]) 0 = Inl NoFuel"
proof
  fix fuel
  show "ProcessHeader fuel ex_wire (ex_host True (ex_tunnel 0 0)) ([1, 8, 0, 0] @ [2, 0, 0, 1] @ [8, 0]) 0 = Inl NoFuel"
    using icmp_never_processed [OF ex_wire_laws, of "(EthK, 0x0800, 0)" "ex_ip 1" "ex_host True (ex_tunnel 0 0)" fuel "[8, 0]" 0]
    unfolding ex_wire_writes by (simp add: ex_wire_kinds ex_host_def)
qed

end
