(* ===== verification/P2P_Device.thy ===== *)
theory P2P_Device
  imports P2P_Headers
begin

text \<open>
  \<open>CustomP2PNetDevice\<close> as a device on a link, and \<open>P4P2PChannel\<close>, the link
  (\<open>model/custom-p2p-net-device.cc\<close>, \<open>model/p4-p2p-channel.h\<close>, \<open>model/p4-p2p-channel.cc\<close>): the transmit
  queue and state machine, the channel with its two ends, reception, and the settings.
\<close>

subsection \<open>The channel\<close>

datatype WireState = INITIALIZING | IDLE | TRANSMITTING | PROPAGATING

record 'dev link =
  lk_state :: WireState
  lk_src :: "'dev option"
  lk_dst :: "'dev option"

definition new_link :: "'dev link" where
  "new_link = \<lparr>lk_state = INITIALIZING, lk_src = None, lk_dst = None\<rparr>"

definition N_DEVICES :: nat where "N_DEVICES = 2"

record 'dev p4_channel =
  cn_delay :: time
  cn_devices :: nat
  cn_link0 :: "'dev link"
  cn_link1 :: "'dev link"

definition P4P2PChannel :: "time \<Rightarrow> 'dev p4_channel" where
  "P4P2PChannel delay = \<lparr>cn_delay = delay, cn_devices = 0, cn_link0 = new_link, cn_link1 = new_link\<rparr>"

definition ChannelAttach :: "'dev p4_channel \<Rightarrow> 'dev \<Rightarrow> ('dev p4_channel, unit) outcome" where
  "ChannelAttach ch device =
     (if \<not> cn_devices ch < N_DEVICES then (ch, Inl AssertFailure)
      else
        (let ch = (if cn_devices ch = 0 then ch\<lparr>cn_link0 := (cn_link0 ch)\<lparr>lk_src := Some device\<rparr>\<rparr>
                   else ch\<lparr>cn_link1 := (cn_link1 ch)\<lparr>lk_src := Some device\<rparr>\<rparr>);
             ch = ch\<lparr>cn_devices := cn_devices ch + 1\<rparr>
         in if cn_devices ch = N_DEVICES
            then (ch\<lparr>cn_link0 := (cn_link0 ch)\<lparr>lk_dst := lk_src (cn_link1 ch), lk_state := IDLE\<rparr>,
                     cn_link1 := (cn_link1 ch)\<lparr>lk_dst := lk_src (cn_link0 ch), lk_state := IDLE\<rparr>\<rparr>, Inr ())
            else (ch, Inr ())))"

text \<open>The events that devices and channel put into the simulator's calendar.\<close>

datatype 'dev p2p_event = TransmitCompleteE | ReceiveE 'dev "u8 list"

text \<open>The scheduled event, with its delay, and the result.\<close>

definition ChannelTransmitStart ::
  "'dev p4_channel \<Rightarrow> u8 list \<Rightarrow> 'dev \<Rightarrow> time \<Rightarrow> stop + (time \<times> 'dev p2p_event) \<times> bool" where
  "ChannelTransmitStart ch p src txTime =
     (if lk_state (cn_link0 ch) = INITIALIZING then Inl AssertFailure
      else if lk_state (cn_link1 ch) = INITIALIZING then Inl AssertFailure
      else
        (let wire = (if Some src = lk_src (cn_link0 ch) then cn_link0 ch else cn_link1 ch)
         in case lk_dst wire of
              None \<Rightarrow> Inl Undefined
            | Some dst \<Rightarrow> Inr ((txTime + cn_delay ch, ReceiveE dst p), True)))"

definition ChannelGetNDevices :: "'dev p4_channel \<Rightarrow> nat" where
  "ChannelGetNDevices ch = cn_devices ch"

definition GetPointToPointDevice :: "'dev p4_channel \<Rightarrow> nat \<Rightarrow> stop + 'dev option" where
  "GetPointToPointDevice ch i =
     (if \<not> i < 2 then Inl AssertFailure
      else Inr (if i = 0 then lk_src (cn_link0 ch) else lk_src (cn_link1 ch)))"

definition ChannelGetDevice :: "'dev p4_channel \<Rightarrow> nat \<Rightarrow> stop + 'dev option" where
  "ChannelGetDevice ch i = GetPointToPointDevice ch i"

definition GetDelay :: "'dev p4_channel \<Rightarrow> time" where "GetDelay ch = cn_delay ch"

text \<open>These two index the array without a check.\<close>

definition GetSource :: "'dev p4_channel \<Rightarrow> nat \<Rightarrow> stop + 'dev option" where
  "GetSource ch i = (if i = 0 then Inr (lk_src (cn_link0 ch)) else if i = 1 then Inr (lk_src (cn_link1 ch)) else Inl Undefined)"

definition GetDestination :: "'dev p4_channel \<Rightarrow> nat \<Rightarrow> stop + 'dev option" where
  "GetDestination ch i = (if i = 0 then Inr (lk_dst (cn_link0 ch)) else if i = 1 then Inr (lk_dst (cn_link1 ch)) else Inl Undefined)"

definition IsInitialized :: "'dev p4_channel \<Rightarrow> stop + bool" where
  "IsInitialized ch =
     (if lk_state (cn_link0 ch) = INITIALIZING then Inl AssertFailure
      else if lk_state (cn_link1 ch) = INITIALIZING then Inl AssertFailure
      else Inr True)"

subsection \<open>The device\<close>

text \<open>What the device calls: its trace sources and callbacks, in order.\<close>

datatype 'addr p2p_trace =
    MacTx "u8 list" | MacTxDrop "u8 list" | MacPromiscRx "u8 list" | MacRx "u8 list"
  | PhyTxBegin "u8 list" | PhyTxEnd "u8 list" | PhyTxDrop "u8 list" | PhyRxEnd "u8 list" | PhyRxDrop "u8 list"
  | Sniffer "u8 list" | PromiscSniffer "u8 list"
  | RxCallback "u8 list" u16 'addr | PromiscCallback "u8 list" u16 'addr 'addr | LinkChange

record ('dev, 'addr, 'q) p2p = "('dev, 'addr, 'q) p2p_device" +
  pd_scheduled :: "(time \<times> 'dev p2p_event) list"
  pd_traces :: "'addr p2p_trace list"

text \<open>
  From ns-3: which addresses are MAC addresses and some constant ones, the transmission time of a
  number of bytes at a data rate, and the operations of \<open>Queue<Packet>\<close>. (\<open>pe_contents\<close> is what the
  queue holds, oldest first; the device does not call it.)
\<close>

record ('addr, 'q) p2p_env =
  pe_is_mac :: "'addr \<Rightarrow> bool"
  pe_mac :: "string \<Rightarrow> 'addr"
  pe_tx_time :: "u64 \<Rightarrow> nat \<Rightarrow> time"
  pe_enqueue :: "'q \<Rightarrow> u8 list \<Rightarrow> 'q \<times> bool"
  pe_dequeue :: "'q \<Rightarrow> 'q \<times> u8 list option"
  pe_is_empty :: "'q \<Rightarrow> bool"
  pe_contents :: "'q \<Rightarrow> u8 list list"

definition tx_queue_laws :: "('addr, 'q) p2p_env \<Rightarrow> bool" where
  "tx_queue_laws E \<longleftrightarrow>
     (\<forall>q p. pe_contents E (fst (pe_enqueue E q p)) = (if snd (pe_enqueue E q p) then pe_contents E q @ [p] else pe_contents E q)) \<and>
     (\<forall>q. pe_contents E q = [] \<longrightarrow> snd (pe_dequeue E q) = None \<and> pe_contents E (fst (pe_dequeue E q)) = []) \<and>
     (\<forall>q p ps. pe_contents E q = p # ps \<longrightarrow> snd (pe_dequeue E q) = Some p \<and> pe_contents E (fst (pe_dequeue E q)) = ps) \<and>
     (\<forall>q. pe_is_empty E q = (pe_contents E q = []))"

definition trace :: "'addr p2p_trace \<Rightarrow> ('dev, 'addr, 'q) p2p \<Rightarrow> ('dev, 'addr, 'q) p2p" where
  "trace t dv = dv\<lparr>pd_traces := pd_traces dv @ [t]\<rparr>"

text \<open>A new device; its interface index and header settings are what the memory holds.\<close>

definition CustomP2PNetDevice :: "('addr, 'q) p2p_env \<Rightarrow> custom_header \<Rightarrow> u32 \<Rightarrow> ('dev, 'addr, 'q) p2p" where
  "CustomP2PNetDevice E header ifIndex =
     \<lparr>pd_tx_state = READY, pd_bps = 32768, pd_interframe_gap = 0, pd_attached = False, pd_queue = None, pd_error_model = None,
      pd_address = pe_mac E ''ff:ff:ff:ff:ff:ff'', pd_need_process = False, pd_header = header, pd_rx_callback = False,
      pd_promisc_callback = False, pd_if_index = ifIndex, pd_link_up = False, pd_dst_port_min = 10000, pd_dst_port_max = 12000,
      pd_mtu = 1500, pd_current = None, pd_scheduled = [], pd_traces = []\<rparr>"

definition NotifyLinkUp :: "('dev, 'addr, 'q) p2p \<Rightarrow> ('dev, 'addr, 'q) p2p" where
  "NotifyLinkUp dv = trace LinkChange (dv\<lparr>pd_link_up := True\<rparr>)"

definition P2PAttach ::
  "'dev \<Rightarrow> ('dev, 'addr, 'q) p2p \<Rightarrow> 'dev p4_channel \<Rightarrow> (('dev, 'addr, 'q) p2p \<times> 'dev p4_channel, bool) outcome" where
  "P2PAttach me dv ch =
     (let dv = dv\<lparr>pd_attached := True\<rparr>
      in case ChannelAttach ch me of
           (ch, Inl e) \<Rightarrow> ((dv, ch), Inl e)
         | (ch, Inr _) \<Rightarrow> ((NotifyLinkUp dv, ch), Inr True))"

subsection \<open>Transmission\<close>

definition P2PTransmitStart ::
  "('addr, 'q) p2p_env \<Rightarrow> 'dev p4_channel \<Rightarrow> 'dev \<Rightarrow> ('dev, 'addr, 'q) p2p \<Rightarrow> u8 list \<Rightarrow> (('dev, 'addr, 'q) p2p, bool) outcome" where
  "P2PTransmitStart E ch me dv p =
     (if pd_tx_state dv \<noteq> READY then (dv, Inl AssertFailure)
      else
        (let dv = trace (PhyTxBegin p) (dv\<lparr>pd_tx_state := BUSY, pd_current := Some p\<rparr>);
             txTime = pe_tx_time E (pd_bps dv) (length p);
             txCompleteTime = txTime + pd_interframe_gap dv;
             dv = dv\<lparr>pd_scheduled := pd_scheduled dv @ [(txCompleteTime, TransmitCompleteE)]\<rparr>
         in if \<not> pd_attached dv then (dv, Inl Undefined)
            else (case ChannelTransmitStart ch p me txTime of
                    Inl e \<Rightarrow> (dv, Inl e)
                  | Inr (ev, result) \<Rightarrow>
                      (let dv = dv\<lparr>pd_scheduled := pd_scheduled dv @ [ev]\<rparr>;
                           dv = (if \<not> result then trace (PhyTxDrop p) dv else dv)
                       in (dv, Inr result)))))"

definition P2PTransmitComplete ::
  "('addr, 'q) p2p_env \<Rightarrow> 'dev p4_channel \<Rightarrow> 'dev \<Rightarrow> ('dev, 'addr, 'q) p2p \<Rightarrow> (('dev, 'addr, 'q) p2p, unit) outcome" where
  "P2PTransmitComplete E ch me dv =
     (if pd_tx_state dv \<noteq> BUSY then (dv, Inl AssertFailure)
      else
        (let dv = dv\<lparr>pd_tx_state := READY\<rparr>
         in case pd_current dv of
              None \<Rightarrow> (dv, Inl AssertFailure)
            | Some current \<Rightarrow>
                (let dv = (trace (PhyTxEnd current) dv)\<lparr>pd_current := None\<rparr>
                 in case pd_queue dv of
                      None \<Rightarrow> (dv, Inl Undefined)
                    | Some q \<Rightarrow>
                        (case pe_dequeue E q of
                           (q, None) \<Rightarrow> (dv\<lparr>pd_queue := Some q\<rparr>, Inr ())
                         | (q, Some p) \<Rightarrow>
                             (case P2PTransmitStart E ch me (trace (PromiscSniffer p) (trace (Sniffer p) (dv\<lparr>pd_queue := Some q\<rparr>))) p of
                                (dv, Inl e) \<Rightarrow> (dv, Inl e)
                              | (dv, Inr _) \<Rightarrow> (dv, Inr ()))))))"

text \<open>The frame that is enqueued: with the headers of a host, or with an Ethernet header alone.\<close>

definition frame_of ::
  "('addr, 'h) wire \<Rightarrow> ('dev, 'addr, 'q, 'z) p2p_device_scheme \<Rightarrow> u8 list \<Rightarrow> 'addr \<Rightarrow> 'addr \<Rightarrow> u16 \<Rightarrow> u8 list" where
  "frame_of W dv packet source dest protocolNumber =
     (if pd_need_process dv then P2PAddHeader W dv packet source dest protocolNumber
      else AddEthernetHeader W packet source dest protocolNumber)"

definition P2PSendFrom ::
  "('addr, 'h) wire \<Rightarrow> ('addr, 'q) p2p_env \<Rightarrow> 'dev p4_channel \<Rightarrow> 'dev \<Rightarrow> ('dev, 'addr, 'q) p2p \<Rightarrow>
   u8 list \<Rightarrow> 'addr \<Rightarrow> 'addr \<Rightarrow> u16 \<Rightarrow> (('dev, 'addr, 'q) p2p, bool) outcome" where
  "P2PSendFrom W E ch me dv packet source dest protocolNumber =
     (if \<not> pd_link_up dv then (dv, Inl AssertFailure)
      else if \<not> pe_is_mac E dest then (dv, Inl AssertFailure)
      else if \<not> pe_is_mac E source then (dv, Inl AssertFailure)
      else
        (let packet = frame_of W dv packet source dest protocolNumber;
             dv = trace (MacTx packet) dv
         in case pd_queue dv of
              None \<Rightarrow> (dv, Inl Undefined)
            | Some q \<Rightarrow>
                (case pe_enqueue E q packet of
                   (q, False) \<Rightarrow> (trace (MacTxDrop packet) (dv\<lparr>pd_queue := Some q\<rparr>), Inr False)
                 | (q, True) \<Rightarrow>
                     (let dv = dv\<lparr>pd_queue := Some q\<rparr>
                      in if pd_tx_state dv = READY \<and> \<not> pe_is_empty E q
                         then (case pe_dequeue E q of
                                 (q, None) \<Rightarrow> (dv\<lparr>pd_queue := Some q\<rparr>, Inl AssertFailure)
                               | (q, Some packet) \<Rightarrow>
                                   (let dv = dv\<lparr>pd_queue := Some q, pd_current := Some packet\<rparr>
                                    in case P2PTransmitStart E ch me (trace (Sniffer packet) (trace (PromiscSniffer packet) dv)) packet of
                                         (dv, Inl e) \<Rightarrow> (dv, Inl e)
                                       | (dv, Inr _) \<Rightarrow> (dv, Inr True)))
                         else (dv, Inr True)))))"

definition P2PSend ::
  "('addr, 'h) wire \<Rightarrow> ('addr, 'q) p2p_env \<Rightarrow> 'dev p4_channel \<Rightarrow> 'dev \<Rightarrow> ('dev, 'addr, 'q) p2p \<Rightarrow>
   u8 list \<Rightarrow> 'addr \<Rightarrow> u16 \<Rightarrow> (('dev, 'addr, 'q) p2p, bool) outcome" where
  "P2PSend W E ch me dv packet dest protocolNumber = P2PSendFrom W E ch me dv packet (pd_address dv) dest protocolNumber"

subsection \<open>Reception\<close>

text \<open>The address of the other end; \<open>addr_of\<close> gives the address of a device of the simulation.\<close>

definition GetRemote :: "'dev p4_channel \<Rightarrow> 'dev \<Rightarrow> ('dev \<Rightarrow> 'addr) \<Rightarrow> stop + 'addr" where
  "GetRemote ch me addr_of =
     (if ChannelGetNDevices ch \<noteq> 2 then Inl AssertFailure
      else (case ChannelGetDevice ch 0 of
              Inl e \<Rightarrow> Inl e
            | Inr tmp \<Rightarrow>
                (if tmp \<noteq> Some me then (case tmp of None \<Rightarrow> Inl Undefined | Some d \<Rightarrow> Inr (addr_of d))
                 else (case ChannelGetDevice ch 1 of
                         Inl e \<Rightarrow> Inl e
                       | Inr tmp \<Rightarrow>
                           (if tmp \<noteq> Some me then (case tmp of None \<Rightarrow> Inl Undefined | Some d \<Rightarrow> Inr (addr_of d))
                            else Inl AssertFailure)))))"

definition P2PReceive ::
  "nat \<Rightarrow> ('addr, 'h) wire \<Rightarrow> 'dev p4_channel \<Rightarrow> 'dev \<Rightarrow> ('dev \<Rightarrow> 'addr) \<Rightarrow> ('dev, 'addr, 'q) p2p \<Rightarrow> u8 list \<Rightarrow>
   (('dev, 'addr, 'q) p2p, unit) outcome" where
  "P2PReceive fuel W ch me addr_of dv packet =
     (if (case pd_error_model dv of None \<Rightarrow> False | Some corrupt \<Rightarrow> corrupt packet) then (trace (PhyRxDrop packet) dv, Inr ())
      else
        (let dv = trace (PhyRxEnd packet) (trace (PromiscSniffer packet) (trace (Sniffer packet) dv));
             originalPacket = packet
         in case ProcessHeader fuel W dv packet 0 of
              Inl e \<Rightarrow> (dv, Inl e)
            | Inr (packet, protocol) \<Rightarrow>
                (case (if pd_promisc_callback dv
                       then (let dv = trace (MacPromiscRx originalPacket) dv
                             in case GetRemote ch me addr_of of
                                  Inl e \<Rightarrow> (dv, Inl e)
                                | Inr remote \<Rightarrow> (trace (PromiscCallback packet protocol remote (pd_address dv)) dv, Inr ()))
                       else (dv, Inr ())) of
                   (dv, Inl e) \<Rightarrow> (dv, Inl e)
                 | (dv, Inr _) \<Rightarrow>
                     (let dv = trace (MacRx originalPacket) dv
                      in case GetRemote ch me addr_of of
                           Inl e \<Rightarrow> (dv, Inl e)
                         | Inr remote \<Rightarrow>
                             (if \<not> pd_rx_callback dv then (dv, Inl Undefined)
                              else (trace (RxCallback packet protocol remote) dv, Inr ()))))))"

definition DoMpiReceive ::
  "nat \<Rightarrow> ('addr, 'h) wire \<Rightarrow> 'dev p4_channel \<Rightarrow> 'dev \<Rightarrow> ('dev \<Rightarrow> 'addr) \<Rightarrow> ('dev, 'addr, 'q) p2p \<Rightarrow> u8 list \<Rightarrow>
   (('dev, 'addr, 'q) p2p, unit) outcome" where
  "DoMpiReceive fuel W ch me addr_of dv p = P2PReceive fuel W ch me addr_of dv p"

subsection \<open>Settings\<close>

definition P2PSetCustomHeader :: "('dev, 'addr, 'q) p2p \<Rightarrow> custom_header \<Rightarrow> ('dev, 'addr, 'q) p2p" where
  "P2PSetCustomHeader dv customHeader = dv\<lparr>pd_header := customHeader, pd_need_process := True\<rparr>"

definition P2PSetWithCustomHeader :: "('dev, 'addr, 'q) p2p \<Rightarrow> bool \<Rightarrow> ('dev, 'addr, 'q) p2p" where
  "P2PSetWithCustomHeader dv withHeader = dv\<lparr>pd_need_process := withHeader\<rparr>"

definition P2PIsWithCustomHeader :: "('dev, 'addr, 'q) p2p \<Rightarrow> bool" where "P2PIsWithCustomHeader dv = pd_need_process dv"

definition P2PSetDataRate :: "('dev, 'addr, 'q) p2p \<Rightarrow> u64 \<Rightarrow> ('dev, 'addr, 'q) p2p" where
  "P2PSetDataRate dv bps = dv\<lparr>pd_bps := bps\<rparr>"

definition P2PSetInterframeGap :: "('dev, 'addr, 'q) p2p \<Rightarrow> time \<Rightarrow> ('dev, 'addr, 'q) p2p" where
  "P2PSetInterframeGap dv t = dv\<lparr>pd_interframe_gap := t\<rparr>"

definition P2PSetQueue :: "('dev, 'addr, 'q) p2p \<Rightarrow> 'q \<Rightarrow> ('dev, 'addr, 'q) p2p" where
  "P2PSetQueue dv q = dv\<lparr>pd_queue := Some q\<rparr>"

definition P2PGetQueue :: "('dev, 'addr, 'q) p2p \<Rightarrow> 'q option" where "P2PGetQueue dv = pd_queue dv"

definition P2PSetReceiveErrorModel :: "('dev, 'addr, 'q) p2p \<Rightarrow> (u8 list \<Rightarrow> bool) \<Rightarrow> ('dev, 'addr, 'q) p2p" where
  "P2PSetReceiveErrorModel dv em = dv\<lparr>pd_error_model := Some em\<rparr>"

definition P2PSetIfIndex :: "('dev, 'addr, 'q) p2p \<Rightarrow> u32 \<Rightarrow> ('dev, 'addr, 'q) p2p" where
  "P2PSetIfIndex dv index = dv\<lparr>pd_if_index := index\<rparr>"

definition P2PGetIfIndex :: "('dev, 'addr, 'q) p2p \<Rightarrow> u32" where "P2PGetIfIndex dv = pd_if_index dv"

definition P2PSetAddress :: "('addr, 'q) p2p_env \<Rightarrow> ('dev, 'addr, 'q) p2p \<Rightarrow> 'addr \<Rightarrow> (('dev, 'addr, 'q) p2p, unit) outcome" where
  "P2PSetAddress E dv address = (if \<not> pe_is_mac E address then (dv, Inl AssertFailure) else (dv\<lparr>pd_address := address\<rparr>, Inr ()))"

definition P2PGetAddress :: "('dev, 'addr, 'q) p2p \<Rightarrow> 'addr" where "P2PGetAddress dv = pd_address dv"

definition P2PIsLinkUp :: "('dev, 'addr, 'q) p2p \<Rightarrow> bool" where "P2PIsLinkUp dv = pd_link_up dv"

definition P2PSetMtu :: "('dev, 'addr, 'q) p2p \<Rightarrow> u16 \<Rightarrow> ('dev, 'addr, 'q) p2p \<times> bool" where
  "P2PSetMtu dv mtu = (dv\<lparr>pd_mtu := ucast mtu\<rparr>, True)"

text \<open>\<open>m_mtu\<close> is wider than what is read from it.\<close>

definition P2PGetMtu :: "('dev, 'addr, 'q) p2p \<Rightarrow> u16" where "P2PGetMtu dv = ucast (pd_mtu dv)"

definition P2PSetReceiveCallback :: "('dev, 'addr, 'q) p2p \<Rightarrow> bool \<Rightarrow> ('dev, 'addr, 'q) p2p" where
  "P2PSetReceiveCallback dv cb = dv\<lparr>pd_rx_callback := cb\<rparr>"

definition P2PSetPromiscReceiveCallback :: "('dev, 'addr, 'q) p2p \<Rightarrow> bool \<Rightarrow> ('dev, 'addr, 'q) p2p" where
  "P2PSetPromiscReceiveCallback dv cb = dv\<lparr>pd_promisc_callback := cb\<rparr>"

definition P2PIsBroadcast :: bool where "P2PIsBroadcast = True"

definition P2PIsMulticast :: bool where "P2PIsMulticast = True"

definition P2PIsPointToPoint :: bool where "P2PIsPointToPoint = True"

definition P2PIsBridge :: bool where "P2PIsBridge = False"

definition P2PNeedsArp :: bool where "P2PNeedsArp = False"

definition P2PSupportsSendFrom :: bool where "P2PSupportsSendFrom = True"

definition P2PGetBroadcast :: "('addr, 'q) p2p_env \<Rightarrow> 'addr" where "P2PGetBroadcast E = pe_mac E ''ff:ff:ff:ff:ff:ff''"

definition P2PGetMulticast4 :: "('addr, 'q) p2p_env \<Rightarrow> 'addr" where "P2PGetMulticast4 E = pe_mac E ''01:00:5e:00:00:00''"

definition P2PGetMulticast6 :: "('addr, 'q) p2p_env \<Rightarrow> 'addr" where "P2PGetMulticast6 E = pe_mac E ''33:33:00:00:00:00''"

definition P2PDoDispose :: "('dev, 'addr, 'q) p2p \<Rightarrow> ('dev, 'addr, 'q) p2p" where
  "P2PDoDispose dv = dv\<lparr>pd_attached := False, pd_error_model := None, pd_current := None\<rparr>"

subsection \<open>The transmit machine\<close>

text \<open>The channel is complete and the device is one of its ends.\<close>

definition channel_ready :: "'dev p4_channel \<Rightarrow> bool" where
  "channel_ready ch \<longleftrightarrow> cn_devices ch = 2 \<and> lk_state (cn_link0 ch) = IDLE \<and> lk_state (cn_link1 ch) = IDLE \<and>
     lk_src (cn_link0 ch) \<noteq> None \<and> lk_src (cn_link1 ch) \<noteq> None \<and>
     lk_dst (cn_link0 ch) = lk_src (cn_link1 ch) \<and> lk_dst (cn_link1 ch) = lk_src (cn_link0 ch)"

definition completions :: "(time \<times> 'dev p2p_event) list \<Rightarrow> nat" where
  "completions evs = length (filter (\<lambda>ev. snd ev = TransmitCompleteE) evs)"

text \<open>The frames handed to the channel, in order.\<close>

fun frame_event :: "time \<times> 'dev p2p_event \<Rightarrow> u8 list list" where
  "frame_event (t, ReceiveE d p) = [p]"
| "frame_event (t, TransmitCompleteE) = []"

definition transmitted :: "(time \<times> 'dev p2p_event) list \<Rightarrow> u8 list list" where
  "transmitted evs = concat (map frame_event evs)"

definition waiting :: "('addr, 'q) p2p_env \<Rightarrow> ('dev, 'addr, 'q) p2p \<Rightarrow> u8 list list" where
  "waiting E dv = (case pd_queue dv of None \<Rightarrow> [] | Some q \<Rightarrow> pe_contents E q)"

text \<open>
  A device on a link, from the moment it is attached and idle: \<open>A\<close> are the frames accepted for
  sending, \<open>n\<close> the transmission-complete events that have run. Such an event runs only when it
  was scheduled and has not yet run.
\<close>

inductive link_run ::
  "('addr, 'h) wire \<Rightarrow> ('addr, 'q) p2p_env \<Rightarrow> 'dev p4_channel \<Rightarrow> 'dev \<Rightarrow> ('dev, 'addr, 'q) p2p \<Rightarrow> nat \<Rightarrow> u8 list list \<Rightarrow> bool"
  for W E ch me where
  link_idle: "pd_tx_state dv = READY \<Longrightarrow> pd_current dv = None \<Longrightarrow> pd_attached dv \<Longrightarrow> pd_link_up dv \<Longrightarrow>
    pd_queue dv = Some q \<Longrightarrow> pe_contents E q = [] \<Longrightarrow> pd_scheduled dv = [] \<Longrightarrow> link_run W E ch me dv 0 []"
| link_send: "link_run W E ch me dv n A \<Longrightarrow> P2PSendFrom W E ch me dv packet src dst proto = (dv', Inr ok) \<Longrightarrow>
    A' = (if ok then A @ [frame_of W dv packet src dst proto] else A) \<Longrightarrow> link_run W E ch me dv' n A'"
| link_complete: "link_run W E ch me dv n A \<Longrightarrow> n < completions (pd_scheduled dv) \<Longrightarrow>
    P2PTransmitComplete E ch me dv = (dv', Inr ()) \<Longrightarrow> link_run W E ch me dv' (Suc n) A"

definition tx_inv :: "('addr, 'q) p2p_env \<Rightarrow> ('dev, 'addr, 'q) p2p \<Rightarrow> nat \<Rightarrow> u8 list list \<Rightarrow> bool" where
  "tx_inv E dv n A \<longleftrightarrow>
     pd_attached dv \<and> pd_link_up dv \<and> pd_queue dv \<noteq> None \<and>
     (if pd_tx_state dv = BUSY
      then completions (pd_scheduled dv) = Suc n \<and> transmitted (pd_scheduled dv) \<noteq> [] \<and>
           pd_current dv = Some (last (transmitted (pd_scheduled dv)))
      else completions (pd_scheduled dv) = n \<and> pd_current dv = None \<and> waiting E dv = []) \<and>
     A = transmitted (pd_scheduled dv) @ waiting E dv"

lemma completions_simps [simp]:
  "completions [] = 0" "completions (a @ b) = completions a + completions b"
  "completions [(t, TransmitCompleteE)] = 1" "completions [(t, ReceiveE d p)] = 0"
  "completions [(s, TransmitCompleteE), (t, ReceiveE d p)] = 1"
  by (simp_all add: completions_def)

lemma transmitted_simps [simp]:
  "transmitted [] = []" "transmitted (a @ b) = transmitted a @ transmitted b"
  "transmitted [(t, TransmitCompleteE)] = []" "transmitted [(t, ReceiveE d p)] = [p]"
  "transmitted [(s, TransmitCompleteE), (t, ReceiveE d p)] = [p]"
  by (simp_all add: transmitted_def)

lemma trace_simps [simp]:
  "pd_tx_state (trace t dv) = pd_tx_state dv" "pd_current (trace t dv) = pd_current dv" "pd_attached (trace t dv) = pd_attached dv"
  "pd_link_up (trace t dv) = pd_link_up dv" "pd_queue (trace t dv) = pd_queue dv" "pd_scheduled (trace t dv) = pd_scheduled dv"
  "pd_bps (trace t dv) = pd_bps dv" "pd_interframe_gap (trace t dv) = pd_interframe_gap dv" "pd_need_process (trace t dv) = pd_need_process dv"
  "pd_header (trace t dv) = pd_header dv" "pd_promisc_callback (trace t dv) = pd_promisc_callback dv"
  "pd_rx_callback (trace t dv) = pd_rx_callback dv" "pd_error_model (trace t dv) = pd_error_model dv" "pd_address (trace t dv) = pd_address dv"
  "pd_traces (trace t dv) = pd_traces dv @ [t]"
  by (simp_all add: trace_def)

text \<open>The end of the wire a device sends to.\<close>

definition peer :: "'dev p4_channel \<Rightarrow> 'dev \<Rightarrow> 'dev" where
  "peer ch me = the (if Some me = lk_src (cn_link0 ch) then lk_src (cn_link1 ch) else lk_src (cn_link0 ch))"

lemma ChannelTransmitStart_ready:
  assumes "channel_ready ch"
  shows "ChannelTransmitStart ch p me t = Inr ((t + cn_delay ch, ReceiveE (peer ch me) p), True)"
  using assms by (auto simp: ChannelTransmitStart_def channel_ready_def peer_def)

lemma TransmitStart_ready:
  assumes "channel_ready ch" "pd_tx_state dv = READY" "pd_attached dv"
  obtains dv' where "P2PTransmitStart E ch me dv p = (dv', Inr True)" "pd_tx_state dv' = BUSY" "pd_current dv' = Some p"
    "pd_scheduled dv' = pd_scheduled dv @ [(pe_tx_time E (pd_bps dv) (length p) + pd_interframe_gap dv, TransmitCompleteE),
       (pe_tx_time E (pd_bps dv) (length p) + cn_delay ch, ReceiveE (peer ch me) p)]"
    "pd_attached dv'" "pd_link_up dv' = pd_link_up dv" "pd_queue dv' = pd_queue dv"
  using that assms(2,3) by (simp add: P2PTransmitStart_def ChannelTransmitStart_ready [OF assms(1)] Let_def)

lemma tx_queueD:
  assumes "tx_queue_laws E"
  shows "pe_contents E (fst (pe_enqueue E q p)) = (if snd (pe_enqueue E q p) then pe_contents E q @ [p] else pe_contents E q)"
    and "pe_contents E q = [] \<Longrightarrow> snd (pe_dequeue E q) = None \<and> pe_contents E (fst (pe_dequeue E q)) = []"
    and "pe_contents E q = p # ps \<Longrightarrow> snd (pe_dequeue E q) = Some p \<and> pe_contents E (fst (pe_dequeue E q)) = ps"
    and "pe_is_empty E q = (pe_contents E q = [])"
  using assms unfolding tx_queue_laws_def by blast+

lemma send_keeps_inv:
  assumes Q: "tx_queue_laws E" and ch: "channel_ready ch" and inv: "tx_inv E dv n A"
    and mac: "pe_is_mac E src" "pe_is_mac E dst"
  obtains dv' ok where "P2PSendFrom W E ch me dv packet src dst proto = (dv', Inr ok)"
    "tx_inv E dv' n (if ok then A @ [frame_of W dv packet src dst proto] else A)"
proof -
  define fr where "fr = frame_of W dv packet src dst proto"
  obtain q where q: "pd_queue dv = Some q" using inv by (auto simp: tx_inv_def)
  have up: "pd_link_up dv" and at: "pd_attached dv" using inv by (simp_all add: tx_inv_def)
  obtain q1 ok where e: "pe_enqueue E q fr = (q1, ok)" by fastforce
  have c1: "pe_contents E q1 = (if ok then pe_contents E q @ [fr] else pe_contents E q)"
    using tx_queueD(1) [OF Q, of q fr] e by simp
  note S = P2PSendFrom_def [of W E ch me dv packet src dst proto, folded fr_def]
  consider (drop) "\<not> ok" | (busy) "ok" "pd_tx_state dv = BUSY" | (start) "ok" "pd_tx_state dv = READY"
    by (cases "pd_tx_state dv") auto
  then show thesis
  proof cases
    case drop
    show thesis
      by (rule that [of "trace (MacTxDrop fr) ((trace (MacTx fr) dv)\<lparr>pd_queue := Some q1\<rparr>)" False])
        (use drop q up e mac c1 inv in \<open>auto simp: S tx_inv_def waiting_def split: if_splits\<close>)
  next
    case busy
    show thesis
      by (rule that [of "(trace (MacTx fr) dv)\<lparr>pd_queue := Some q1\<rparr>" True])
        (use busy q up e mac c1 inv in \<open>simp_all add: S tx_inv_def waiting_def fr_def\<close>)
  next
    case start
    have "pe_contents E q1 = [fr]" using inv start q c1 by (simp add: tx_inv_def waiting_def)
    from tx_queueD(3) [OF Q this] obtain q2 where d: "pe_dequeue E q1 = (q2, Some fr)" "pe_contents E q2 = []"
      by (metis prod.collapse)
    have ne: "\<not> pe_is_empty E q1" using tx_queueD(4) [OF Q] \<open>pe_contents E q1 = [fr]\<close> by simp
    let ?dv = "trace (Sniffer fr) (trace (PromiscSniffer fr) ((trace (MacTx fr) dv)\<lparr>pd_queue := Some q2, pd_current := Some fr\<rparr>))"
    obtain dv' where t: "P2PTransmitStart E ch me ?dv fr = (dv', Inr True)" "pd_tx_state dv' = BUSY" "pd_current dv' = Some fr"
      "pd_scheduled dv' = pd_scheduled ?dv @ [(pe_tx_time E (pd_bps ?dv) (length fr) + pd_interframe_gap ?dv, TransmitCompleteE),
       (pe_tx_time E (pd_bps ?dv) (length fr) + cn_delay ch, ReceiveE (peer ch me) fr)]"
      "pd_attached dv'" "pd_link_up dv' = pd_link_up ?dv" "pd_queue dv' = pd_queue ?dv"
      by (rule TransmitStart_ready [OF ch, of ?dv E me fr]) (simp_all add: start at)
    show thesis
      by (rule that [of dv' True])
        (use start q up e mac d ne t inv in \<open>simp_all add: S tx_inv_def waiting_def fr_def\<close>)
  qed
qed

lemma complete_keeps_inv:
  assumes Q: "tx_queue_laws E" and ch: "channel_ready ch" and inv: "tx_inv E dv n A" and pend: "n < completions (pd_scheduled dv)"
  obtains dv' where "P2PTransmitComplete E ch me dv = (dv', Inr ())" "tx_inv E dv' (Suc n) A"
    "waiting E dv' = tl (waiting E dv)"
proof -
  have busy: "pd_tx_state dv = BUSY" using inv pend by (auto simp: tx_inv_def split: if_splits)
  obtain q cur where q: "pd_queue dv = Some q" and cur: "pd_current dv = Some cur"
    using inv busy by (auto simp: tx_inv_def)
  show thesis
  proof (cases "pe_contents E q")
    case Nil
    obtain q1 where d: "pe_dequeue E q = (q1, None)" "pe_contents E q1 = []"
      using tx_queueD(2) [OF Q Nil] by (metis prod.collapse)
    show thesis
      by (rule that [of "(trace (PhyTxEnd cur) (dv\<lparr>pd_tx_state := READY\<rparr>))\<lparr>pd_current := None, pd_queue := Some q1\<rparr>"])
        (use Nil busy q cur d inv in \<open>simp_all add: P2PTransmitComplete_def tx_inv_def waiting_def\<close>)
  next
    case (Cons p ps)
    obtain q1 where d: "pe_dequeue E q = (q1, Some p)" "pe_contents E q1 = ps"
      using tx_queueD(3) [OF Q Cons] by (metis prod.collapse)
    let ?dv = "trace (PromiscSniffer p) (trace (Sniffer p)
       ((trace (PhyTxEnd cur) (dv\<lparr>pd_tx_state := READY\<rparr>))\<lparr>pd_current := None, pd_queue := Some q1\<rparr>))"
    obtain dv' where t: "P2PTransmitStart E ch me ?dv p = (dv', Inr True)" "pd_tx_state dv' = BUSY" "pd_current dv' = Some p"
      "pd_scheduled dv' = pd_scheduled ?dv @ [(pe_tx_time E (pd_bps ?dv) (length p) + pd_interframe_gap ?dv, TransmitCompleteE),
       (pe_tx_time E (pd_bps ?dv) (length p) + cn_delay ch, ReceiveE (peer ch me) p)]"
      "pd_attached dv'" "pd_link_up dv' = pd_link_up ?dv" "pd_queue dv' = pd_queue ?dv"
      by (rule TransmitStart_ready [OF ch, of ?dv E me p]) (use inv in \<open>simp_all add: tx_inv_def\<close>)
    show thesis
      by (rule that [of dv'])
        (use Cons busy q cur d t inv in \<open>simp_all add: P2PTransmitComplete_def tx_inv_def waiting_def\<close>)
  qed
qed

lemma link_run_inv:
  assumes "link_run W E ch me dv n A" "tx_queue_laws E" "channel_ready ch"
  shows "tx_inv E dv n A"
  using assms(1)
proof (induction rule: link_run.induct)
  case (link_idle dv q)
  then show ?case by (simp add: tx_inv_def waiting_def)
next
  case (link_send dv n A packet src dst proto dv' ok A')
  have "pe_is_mac E src" "pe_is_mac E dst"
    using link_send.hyps(2) by (auto simp: P2PSendFrom_def split: if_splits)
  then obtain dv'' ok' where "P2PSendFrom W E ch me dv packet src dst proto = (dv'', Inr ok')"
    "tx_inv E dv'' n (if ok' then A @ [frame_of W dv packet src dst proto] else A)"
    by (rule send_keeps_inv [OF assms(2,3) link_send.IH])
  with link_send.hyps(2,3) show ?case by simp
next
  case (link_complete dv n A dv')
  obtain dv'' where "P2PTransmitComplete E ch me dv = (dv'', Inr ())" "tx_inv E dv'' (Suc n) A"
    by (rule complete_keeps_inv [OF assms(2,3) link_complete.IH link_complete.hyps(2)])
  with link_complete.hyps(3) show ?case by simp
qed

text \<open>C22. The transmit machine never loses, duplicates or reorders a frame: at any time what was accepted
  for sending is what was handed to the channel, in order, followed by what waits in the queue. The
  device is never idle while a frame waits, and exactly when it is busy one completion event is
  pending.\<close>

theorem transmit_fifo:
  assumes "link_run W E ch me dv n A" "tx_queue_laws E" "channel_ready ch"
  shows "A = transmitted (pd_scheduled dv) @ waiting E dv \<and>
     (pd_tx_state dv = READY \<longleftrightarrow> completions (pd_scheduled dv) = n) \<and>
     (pd_tx_state dv = BUSY \<longleftrightarrow> completions (pd_scheduled dv) = Suc n) \<and>
     (pd_tx_state dv = READY \<longrightarrow> waiting E dv = [])"
  using link_run_inv [OF assms] by (cases "pd_tx_state dv") (auto simp: tx_inv_def)

text \<open>No assertion of the transmit machine can fail: in every state of a run, sending between MAC
  addresses returns, and the frame is accepted or refused as the queue decides; while the device is
  busy its completion event returns.\<close>

theorem transmit_never_stops:
  assumes "link_run W E ch me dv n A" "tx_queue_laws E" "channel_ready ch" "pe_is_mac E src" "pe_is_mac E dst"
    and "pd_queue dv = Some q"
  shows "snd (P2PSendFrom W E ch me dv packet src dst proto) = Inr (snd (pe_enqueue E q (frame_of W dv packet src dst proto))) \<and>
    snd (P2PTransmitComplete E ch me dv) = (if pd_tx_state dv = BUSY then Inr () else Inl AssertFailure)"
proof
  note inv = link_run_inv [OF assms(1-3)]
  obtain dv' ok where s: "P2PSendFrom W E ch me dv packet src dst proto = (dv', Inr ok)"
    by (rule send_keeps_inv [OF assms(2,3) inv assms(4,5)])
  have "ok = snd (pe_enqueue E q (frame_of W dv packet src dst proto))"
    using s assms(6) inv by (auto simp: P2PSendFrom_def tx_inv_def Let_def split: if_splits prod.splits sum.splits bool.splits option.splits)
  with s show "snd (P2PSendFrom W E ch me dv packet src dst proto) = Inr (snd (pe_enqueue E q (frame_of W dv packet src dst proto)))"
    by simp
  show "snd (P2PTransmitComplete E ch me dv) = (if pd_tx_state dv = BUSY then Inr () else Inl AssertFailure)"
  proof (cases "pd_tx_state dv = BUSY")
    case True
    then have "n < completions (pd_scheduled dv)" using inv by (simp add: tx_inv_def)
    then obtain dv'' where "P2PTransmitComplete E ch me dv = (dv'', Inr ())"
      by (rule complete_keeps_inv [OF assms(2,3) inv])
    with True show ?thesis by simp
  qed (simp add: P2PTransmitComplete_def)
qed

text \<open>The completion events of a device, run one after the other.\<close>

fun run_completions ::
  "nat \<Rightarrow> ('addr, 'q) p2p_env \<Rightarrow> 'dev p4_channel \<Rightarrow> 'dev \<Rightarrow> ('dev, 'addr, 'q) p2p \<Rightarrow> (('dev, 'addr, 'q) p2p, unit) outcome" where
  "run_completions 0 E ch me dv = (dv, Inr ())"
| "run_completions (Suc k) E ch me dv =
     (case P2PTransmitComplete E ch me dv of
        (dv, Inl e) \<Rightarrow> (dv, Inl e)
      | (dv, Inr _) \<Rightarrow> run_completions k E ch me dv)"

lemma run_completions_drain:
  assumes "tx_queue_laws E" "channel_ready ch" "tx_inv E dv n A" "pd_tx_state dv = BUSY"
  shows "\<exists>dv'. run_completions (Suc (length (waiting E dv))) E ch me dv = (dv', Inr ()) \<and>
    transmitted (pd_scheduled dv') = A \<and> waiting E dv' = [] \<and> pd_tx_state dv' = READY"
  using assms(3,4)
proof (induction "length (waiting E dv)" arbitrary: dv n)
  case 0
  then have "n < completions (pd_scheduled dv)" by (simp add: tx_inv_def)
  then obtain dv' where c: "P2PTransmitComplete E ch me dv = (dv', Inr ())" "tx_inv E dv' (Suc n) A"
    "waiting E dv' = tl (waiting E dv)"
    by (rule complete_keeps_inv [OF assms(1,2) 0(2)])
  have w: "waiting E dv = []" "waiting E dv' = []" using 0(1) c(3) by simp_all
  obtain q where q: "pd_queue dv = Some q" "pe_contents E q = []" using 0(2) w(1) by (auto simp: tx_inv_def waiting_def)
  have "pd_tx_state dv' = READY"
    using c(1) q tx_queueD(2) [OF assms(1) q(2)] 0(3)
    by (auto simp: P2PTransmitComplete_def Let_def split: option.splits prod.splits)
  with c w show ?case by (simp add: tx_inv_def)
next
  case (Suc k)
  then have "n < completions (pd_scheduled dv)" by (simp add: tx_inv_def)
  then obtain dv' where c: "P2PTransmitComplete E ch me dv = (dv', Inr ())" "tx_inv E dv' (Suc n) A"
    "waiting E dv' = tl (waiting E dv)"
    by (rule complete_keeps_inv [OF assms(1,2) Suc(3)])
  obtain q p ps where q: "pd_queue dv = Some q" "pe_contents E q = p # ps"
    using Suc(2,3) by (cases "waiting E dv") (auto simp: tx_inv_def waiting_def split: option.splits)
  obtain q1 where d: "pe_dequeue E q = (q1, Some p)"
    using tx_queueD(3) [OF assms(1) q(2)] by (metis prod.collapse)
  obtain cur where cur: "pd_current dv = Some cur" using Suc(3,4) by (auto simp: tx_inv_def)
  have "pd_attached dv" using Suc(3) by (simp add: tx_inv_def)
  then have "pd_tx_state dv' = BUSY"
    using c(1) q(1) d cur Suc(4)
    by (simp add: P2PTransmitComplete_def P2PTransmitStart_def ChannelTransmitStart_ready [OF assms(2)] Let_def) auto
  moreover have k: "length (waiting E dv') = k" using c(3) Suc(2) by simp
  ultimately obtain dv'' where "run_completions (Suc k) E ch me dv' = (dv'', Inr ())"
    "transmitted (pd_scheduled dv'') = A" "waiting E dv'' = []" "pd_tx_state dv'' = READY"
    using Suc(1) [of dv' "Suc n"] c(2) by auto
  moreover have "length (waiting E dv) = Suc k" using Suc(2) by simp
  ultimately show ?case using c(1) by simp
qed

text \<open>C32. Every accepted frame gets onto the wire: from any busy state of a run, once as many completion events
  have run as frames wait, and one more, every frame ever accepted has been handed to the channel, in
  order, the queue is empty and the device is idle.\<close>

theorem transmit_drains:
  assumes "link_run W E ch me dv n A" "tx_queue_laws E" "channel_ready ch" "pd_tx_state dv = BUSY"
  shows "\<exists>dv'. run_completions (Suc (length (waiting E dv))) E ch me dv = (dv', Inr ()) \<and>
    transmitted (pd_scheduled dv') = A \<and> waiting E dv' = [] \<and> pd_tx_state dv' = READY"
  by (rule run_completions_drain [OF assms(2,3) link_run_inv [OF assms(1-3)] assms(4)])

subsection \<open>Two ports on a link\<close>

lemma attach_two:
  assumes "ChannelAttach (P4P2PChannel delay) a = (ch1, Inr ())" "ChannelAttach ch1 b = (ch, Inr ())"
  shows "channel_ready ch \<and> cn_delay ch = delay \<and> lk_src (cn_link0 ch) = Some a \<and> lk_src (cn_link1 ch) = Some b"
  using assms by (auto simp: ChannelAttach_def P4P2PChannel_def new_link_def N_DEVICES_def channel_ready_def)

lemma GetRemote_other:
  assumes "channel_ready ch" "lk_src (cn_link0 ch) = Some a" "lk_src (cn_link1 ch) = Some b" "a \<noteq> b"
  shows "GetRemote ch b addr_of = Inr (addr_of a)" "GetRemote ch a addr_of = Inr (addr_of b)"
  using assms by (simp_all add: GetRemote_def channel_ready_def ChannelGetNDevices_def ChannelGetDevice_def GetPointToPointDevice_def)

lemma ProcessHeader_trace [simp]: "ProcessHeader fuel W (trace t dv) p param = ProcessHeader fuel W dv p param"
  by (simp add: ProcessHeader_def)

text \<open>C23. Across a link between two switch ports: a packet sent from an idle port \<open>a\<close> goes at once to the
  channel, which delivers it to \<open>b\<close> one transmission time and one propagation delay later; when \<open>b\<close>
  receives it, the upper layer of \<open>b\<close> is given the packet as it was sent, with its protocol number and the
  address of \<open>a\<close>.\<close>

theorem link_delivers:
  assumes "wire_laws W" "tx_queue_laws E" "a \<noteq> b"
    and "ChannelAttach (P4P2PChannel delay) a = (ch1, Inr ())" "ChannelAttach ch1 b = (ch, Inr ())"
    and "link_run W E ch a dv n A" "pd_tx_state dv = READY" "\<not> pd_need_process dv" "pe_is_mac E src" "pe_is_mac E dst"
    and "pd_queue dv = Some q" "snd (pe_enqueue E q (AddEthernetHeader W packet src dst proto))"
    and "\<not> pd_need_process dvb" "pd_rx_callback dvb" "pd_error_model dvb = None"
    and "fr = AddEthernetHeader W packet src dst proto" "t = pe_tx_time E (pd_bps dv) (length fr)"
  shows "\<exists>dv' dvb'. P2PSendFrom W E ch a dv packet src dst proto = (dv', Inr True) \<and>
     pd_scheduled dv' = pd_scheduled dv @ [(t + pd_interframe_gap dv, TransmitCompleteE), (t + delay, ReceiveE b fr)] \<and>
     P2PReceive fuel W ch b addr_of dvb fr = (dvb', Inr ()) \<and>
     last (pd_traces dvb') = RxCallback packet proto (addr_of a)"
proof -
  note C = attach_two [OF assms(4,5)]
  have ch: "channel_ready ch" and dl: "cn_delay ch = delay" using C by simp_all
  have pa: "peer ch a = b" using C by (simp add: peer_def)
  note inv = link_run_inv [OF assms(6,2) ch]
  have fr: "frame_of W dv packet src dst proto = fr" using assms(8,16) by (simp add: frame_of_def)
  obtain q1 where e: "pe_enqueue E q fr = (q1, True)" using assms(12,16) by (metis prod.collapse)
  have "pe_contents E q = []" using inv assms(7,11) by (simp add: tx_inv_def waiting_def)
  then have c1: "pe_contents E q1 = [fr]" using tx_queueD(1) [OF assms(2), of q fr] e by simp
  from tx_queueD(3) [OF assms(2) c1] obtain q2 where d: "pe_dequeue E q1 = (q2, Some fr)" by (metis prod.collapse)
  have ne: "\<not> pe_is_empty E q1" using tx_queueD(4) [OF assms(2)] c1 by simp
  have at: "pd_attached dv" "pd_link_up dv" using inv by (simp_all add: tx_inv_def)
  have "\<exists>dv'. P2PSendFrom W E ch a dv packet src dst proto = (dv', Inr True) \<and>
     pd_scheduled dv' = pd_scheduled dv @ [(t + pd_interframe_gap dv, TransmitCompleteE), (t + delay, ReceiveE b fr)]"
    by (simp add: P2PSendFrom_def at assms(7,9-11,17) fr e ne d P2PTransmitStart_def ChannelTransmitStart_ready [OF ch] pa dl Let_def)
  moreover have gr: "GetRemote ch b addr_of = Inr (addr_of a)"
    by (rule GetRemote_other(1) [OF ch _ _ assms(3)]) (simp_all add: C)
  have "\<exists>dvb'. P2PReceive fuel W ch b addr_of dvb fr = (dvb', Inr ()) \<and> last (pd_traces dvb') = RxCallback packet proto (addr_of a)"
    by (cases "pd_promisc_callback dvb") (simp_all add: P2PReceive_def gr assms(14,15,16) ProcessHeader_ethernet [OF assms(1,13)] Let_def)
  ultimately show ?thesis by blast
qed

subsection \<open>Example\<close>

definition ex_env :: "(nat, u8 list list) p2p_env" where
  "ex_env =
     \<lparr>pe_is_mac = (\<lambda>_. True), pe_mac = (\<lambda>_. 0), pe_tx_time = (\<lambda>bps n. 1000 * int n),
      pe_enqueue = (\<lambda>q p. if length q < 10 then (q @ [p], True) else (q, False)),
      pe_dequeue = (\<lambda>q. case q of [] \<Rightarrow> ([], None) | p # ps \<Rightarrow> (ps, Some p)), pe_is_empty = (\<lambda>q. q = []), pe_contents = id\<rparr>"

lemma ex_env_laws [simp]: "tx_queue_laws ex_env"
  by (simp add: tx_queue_laws_def ex_env_def)

lemma ex_env_ops:
  "pe_is_mac ex_env a" "pe_tx_time ex_env bps n = 1000 * int n"
  "pe_enqueue ex_env q p = (if length q < 10 then (q @ [p], True) else (q, False))"
  "pe_dequeue ex_env [] = ([], None)" "pe_dequeue ex_env (p # ps) = (ps, Some p)"
  "pe_is_empty ex_env q = (q = [])" "pe_contents ex_env q = q"
  by (simp_all add: ex_env_def)

definition ex_channel :: "nat p4_channel" where
  "ex_channel = fst (ChannelAttach (fst (ChannelAttach (P4P2PChannel 50) 7)) 8)"

lemma ex_attach:
  "\<exists>ch1. ChannelAttach (P4P2PChannel 50) 7 = (ch1, Inr ()) \<and> ChannelAttach ch1 8 = (ex_channel, Inr ())"
  by (simp add: ex_channel_def ChannelAttach_def P4P2PChannel_def N_DEVICES_def new_link_def)

definition ex_port :: "(nat, nat, u8 list list) p2p" where
  "ex_port = (CustomP2PNetDevice ex_env (ex_tunnel 0 0) 0)
     \<lparr>pd_attached := True, pd_link_up := True, pd_queue := Some [], pd_rx_callback := True\<rparr>"

lemma ex_port_run: "link_run ex_wire ex_env ex_channel 7 ex_port 0 []"
  by (rule link_idle [where q = "[]"]) (simp_all add: ex_port_def CustomP2PNetDevice_def ex_env_def)

text \<open>After two packets: the first is on the wire, the second waits.\<close>

definition ex_port2 :: "(nat, nat, u8 list list) p2p" where
  "ex_port2 = fst (P2PSendFrom ex_wire ex_env ex_channel 7 (fst (P2PSendFrom ex_wire ex_env ex_channel 7 ex_port [1] 1 2 0x0800)) [2] 1 2 0x0800)"

abbreviation ex_frame :: "u8 \<Rightarrow> u8 list" where "ex_frame b \<equiv> AddEthernetHeader ex_wire [b] 1 2 0x0800"

lemma ex_port2_run: "link_run ex_wire ex_env ex_channel 7 ex_port2 0 [ex_frame 1, ex_frame 2]"
  and ex_port2_state: "pd_tx_state ex_port2 = BUSY" "pd_queue ex_port2 = Some [ex_frame 2]"
proof -
  define d1 where "d1 = fst (P2PSendFrom ex_wire ex_env ex_channel 7 ex_port [1] 1 2 0x0800)"
  have s1: "P2PSendFrom ex_wire ex_env ex_channel 7 ex_port [1] 1 2 0x0800 = (d1, Inr True)"
    and f1: "pd_tx_state d1 = BUSY" "pd_queue d1 = Some []" "\<not> pd_need_process d1" "pd_link_up d1"
    unfolding d1_def
    by (simp_all add: P2PSendFrom_def ex_port_def CustomP2PNetDevice_def ex_env_ops frame_of_def P2PTransmitStart_def Let_def
        ex_channel_def ChannelAttach_def P4P2PChannel_def N_DEVICES_def new_link_def ChannelTransmitStart_def)
  have e2: "ex_port2 = fst (P2PSendFrom ex_wire ex_env ex_channel 7 d1 [2] 1 2 0x0800)"
    by (simp only: ex_port2_def d1_def)
  have s2: "P2PSendFrom ex_wire ex_env ex_channel 7 d1 [2] 1 2 0x0800 = (ex_port2, Inr True)"
    and f2: "pd_tx_state ex_port2 = BUSY" "pd_queue ex_port2 = Some [ex_frame 2]"
    unfolding e2 by (simp_all add: P2PSendFrom_def f1 frame_of_def ex_env_ops Let_def)
  have "frame_of ex_wire ex_port [1] 1 2 0x0800 = ex_frame 1" by (simp add: frame_of_def ex_port_def CustomP2PNetDevice_def)
  with link_send [OF ex_port_run s1] have r1: "link_run ex_wire ex_env ex_channel 7 d1 0 [ex_frame 1]" by simp
  have "frame_of ex_wire d1 [2] 1 2 0x0800 = ex_frame 2" using f1(3) by (simp add: frame_of_def)
  with link_send [OF r1 s2] show "link_run ex_wire ex_env ex_channel 7 ex_port2 0 [ex_frame 1, ex_frame 2]" by simp
  show "pd_tx_state ex_port2 = BUSY" "pd_queue ex_port2 = Some [ex_frame 2]" by (rule f2)+
qed

lemma ex_channel_ready: "channel_ready ex_channel"
proof -
  obtain ch1 where "ChannelAttach (P4P2PChannel 50) 7 = (ch1, Inr ())" "ChannelAttach ch1 8 = (ex_channel, Inr ())"
    using ex_attach by blast
  from attach_two [OF this] show ?thesis by simp
qed

theorem transmit_fifo_witness:
  "transmitted (pd_scheduled ex_port2) = [ex_frame 1] \<and> completions (pd_scheduled ex_port2) = 1"
  using transmit_fifo [OF ex_port2_run ex_env_laws ex_channel_ready] ex_port2_state
  by (simp add: waiting_def) (simp add: ex_env_ops)

theorem transmit_never_stops_witness:
  "snd (P2PSendFrom ex_wire ex_env ex_channel 7 ex_port2 [3] 1 2 0x0800) = Inr True \<and>
   snd (P2PTransmitComplete ex_env ex_channel 7 ex_port2) = Inr ()"
proof -
  have m: "pe_is_mac ex_env a" for a by (simp add: ex_env_ops)
  show ?thesis
    using transmit_never_stops [OF ex_port2_run ex_env_laws ex_channel_ready m m ex_port2_state(2), of "[3]" 1 2 "0x0800"]
      ex_port2_state(1) by simp (simp add: ex_env_ops)
qed

theorem transmit_drains_witness:
  "\<exists>dv'. run_completions 2 ex_env ex_channel 7 ex_port2 = (dv', Inr ()) \<and>
     transmitted (pd_scheduled dv') = [ex_frame 1, ex_frame 2] \<and> pd_tx_state dv' = READY"
proof -
  have "length (waiting ex_env ex_port2) = 1" by (simp add: waiting_def ex_port2_state) (simp add: ex_env_ops)
  with transmit_drains [OF ex_port2_run ex_env_laws ex_channel_ready ex_port2_state(1)] show ?thesis
    by (auto simp: numeral_2_eq_2)
qed

theorem link_delivers_witness:
  "\<exists>dv' dvb'. P2PSendFrom ex_wire ex_env ex_channel 7 ex_port [1] 1 2 0x0800 = (dv', Inr True) \<and>
     pd_scheduled dv' = [(5000, TransmitCompleteE), (5050, ReceiveE 8 (ex_frame 1))] \<and>
     P2PReceive 0 ex_wire ex_channel 8 id ex_port (ex_frame 1) = (dvb', Inr ()) \<and>
     last (pd_traces dvb') = RxCallback [1] 0x0800 7"
proof -
  obtain ch1 where a: "ChannelAttach (P4P2PChannel 50) 7 = (ch1, Inr ())" "ChannelAttach ch1 8 = (ex_channel, Inr ())"
    using ex_attach by blast
  have l: "length (AddEthernetHeader ex_wire [b] s d pr) = 5" for b s d pr
    by (simp only: AddEthernetHeader_def new_eth_def) (simp add: ex_wire_def)
  have p: "pd_tx_state ex_port = READY" "\<not> pd_need_process ex_port" "pd_queue ex_port = Some []" "pd_rx_callback ex_port"
    "pd_error_model ex_port = None" "pd_scheduled ex_port = []" "pd_interframe_gap ex_port = 0"
    by (simp_all add: ex_port_def CustomP2PNetDevice_def)
  have e: "pe_is_mac ex_env a" "snd (pe_enqueue ex_env [] f)" "pe_tx_time ex_env b (length (ex_frame 1)) = 5000" for a b f
    by (simp_all add: ex_env_def l)
  show ?thesis
    using link_delivers [OF ex_wire_laws ex_env_laws _ a ex_port_run p(1,2) e(1) e(1) p(3) e(2) p(2,4,5) refl refl,
        where addr_of = id and fuel = 0 and packet = "[1]" and src = 1 and dst = 2 and proto = "0x0800"]
    by (simp add: p ex_env_ops l)
qed

end
