(* ===== verification/Network_Helpers.thy ===== *)
theory Network_Helpers
  imports P2P_Device Switch_Device
begin

text \<open>
  The helpers that put devices into a network: \<open>P4PointToPointHelper::Install\<close>
  (\<open>helper/p4-p2p-helper.cc\<close>), which makes a point-to-point link between two nodes, and
  \<open>P4Helper::Install\<close> (\<open>helper/p4-helper.cc\<close>), which makes a switch of a node's devices. Attributes and
  names of nodes are ns-3's; the pcap and ascii trace hooks are left out.
\<close>

subsection \<open>A point-to-point link\<close>

text \<open>
  One end of the link: a new device with the next free address and a new queue. A node gives its
  devices their interface index; \<open>header\<close> is what the memory of the new object holds.
\<close>

definition install_end ::
  "('addr, 'q) p2p_env \<Rightarrow> custom_header \<Rightarrow> u32 \<Rightarrow> 'addr \<Rightarrow> 'q \<Rightarrow> stop + ('dev, 'addr, 'q) p2p" where
  "install_end E header index address queue =
     (case P2PSetAddress E (CustomP2PNetDevice E header index) address of
        (dv, Inl e) \<Rightarrow> Inl e
      | (dv, Inr _) \<Rightarrow> Inr (P2PSetQueue (P2PSetIfIndex dv index) queue))"

definition P2PInstall ::
  "('addr, 'q) p2p_env \<Rightarrow> time \<Rightarrow> 'dev \<Rightarrow> custom_header \<times> u32 \<times> 'addr \<times> 'q \<Rightarrow> 'dev \<Rightarrow> custom_header \<times> u32 \<times> 'addr \<times> 'q \<Rightarrow>
   stop + ('dev, 'addr, 'q) p2p \<times> ('dev, 'addr, 'q) p2p \<times> 'dev p4_channel" where
  "P2PInstall E delay a specA b specB =
     (let (hA, iA, addrA, queueA) = specA;
          (hB, iB, addrB, queueB) = specB
      in case install_end E hA iA addrA queueA of
           Inl e \<Rightarrow> Inl e
         | Inr devA \<Rightarrow>
             (case install_end E hB iB addrB queueB of
                Inl e \<Rightarrow> Inl e
              | Inr devB \<Rightarrow>
                  (case P2PAttach a devA (P4P2PChannel delay) of
                     (_, Inl e) \<Rightarrow> Inl e
                   | ((devA, channel), Inr _) \<Rightarrow>
                       (case P2PAttach b devB channel of
                          (_, Inl e) \<Rightarrow> Inl e
                        | ((devB, channel), Inr _) \<Rightarrow> Inr (devA, devB, channel)))))"

text \<open>
  What the helper builds is a link in its initial state, seen from either end: the two attachments
  succeed, both devices are up and idle with nothing to send, and the channel connects them.
\<close>

lemma P2PInstall_ready:
  fixes E :: "('addr, 'q) p2p_env" and a b :: 'dev
  assumes "pe_is_mac E addrA" "pe_is_mac E addrB" "pe_contents E qA = []" "pe_contents E qB = []"
  shows "\<exists>dvA dvB ch1 ch. P2PInstall E delay a (hA, iA, addrA, qA) b (hB, iB, addrB, qB) = Inr (dvA, dvB, ch) \<and>
    ChannelAttach (P4P2PChannel delay) a = (ch1, Inr ()) \<and> ChannelAttach ch1 b = (ch, Inr ()) \<and> channel_ready ch \<and>
    link_run W E ch a dvA 0 [] \<and> link_run W E ch b dvB 0 [] \<and>
    pd_address dvA = addrA \<and> pd_address dvB = addrB \<and> \<not> pd_need_process dvA \<and> \<not> pd_need_process dvB"
proof -
  obtain ch1 ch where at: "ChannelAttach (P4P2PChannel delay) a = (ch1, Inr ())" "ChannelAttach ch1 b = (ch, Inr ())"
    by (simp add: ChannelAttach_def P4P2PChannel_def N_DEVICES_def)
  define dv :: "custom_header \<Rightarrow> u32 \<Rightarrow> 'addr \<Rightarrow> 'q \<Rightarrow> ('dev, 'addr, 'q) p2p" where
    "dv h i addr q = NotifyLinkUp ((P2PSetQueue (P2PSetIfIndex
      ((CustomP2PNetDevice E h i)\<lparr>pd_address := addr\<rparr>) i) q)\<lparr>pd_attached := True\<rparr>)"
    for h i addr q
  have i: "P2PInstall E delay a (hA, iA, addrA, qA) b (hB, iB, addrB, qB) = Inr (dv hA iA addrA qA, dv hB iB addrB qB, ch)"
    using assms(1,2) by (simp add: P2PInstall_def install_end_def P2PSetAddress_def P2PAttach_def at dv_def Let_def)
  have s: "pd_tx_state (dv h i addr q) = READY" "pd_current (dv h i addr q) = None" "pd_attached (dv h i addr q)"
    "pd_link_up (dv h i addr q)" "pd_queue (dv h i addr q) = Some q" "pd_scheduled (dv h i addr q) = []"
    "pd_address (dv h i addr q) = addr" "\<not> pd_need_process (dv h i addr q)" for h i addr q
    by (simp_all add: dv_def NotifyLinkUp_def trace_def P2PSetQueue_def P2PSetIfIndex_def CustomP2PNetDevice_def)
  have l: "link_run W E ch me (dv h i addr q) 0 []" if "pe_contents E q = []" for me h i addr q
    by (rule link_idle [OF s(1-5) that s(6)])
  from i at attach_two(1) [OF at] l [OF assms(3)] l [OF assms(4)] s(7,8) show ?thesis by blast
qed

subsection \<open>A P4 switch\<close>

text \<open>\<open>P4Helper::Install\<close>: \<open>None\<close> for an empty container. \<open>configure\<close> sets the attributes of the new device.\<close>

fun add_bridge_ports ::
  "('dev, 'addr, 'chan) ns3 \<Rightarrow> ('dev, 'addr, 'chan, 'w, 'p, 'q) switch_device \<Rightarrow> 'dev list \<Rightarrow>
   (('dev, 'addr, 'chan, 'w, 'p, 'q) switch_device, unit) outcome" where
  "add_bridge_ports N dv [] = (dv, Inr ())"
| "add_bridge_ports N dv (d # devs) =
     (case AddBridgePort N dv d of (dv, Inl e) \<Rightarrow> (dv, Inl e) | (dv, Inr _) \<Rightarrow> add_bridge_ports N dv devs)"

definition P4Install ::
  "('dev, 'addr, 'chan) ns3 \<Rightarrow>
   (('dev, 'addr, 'chan, 'w, 'p, 'q) switch_device \<Rightarrow> ('dev, 'addr, 'chan, 'w, 'p, 'q) switch_device) \<Rightarrow>
   u32 \<Rightarrow> 'dev list \<Rightarrow> stop + ('dev, 'addr, 'chan, 'w, 'p, 'q) switch_device option" where
  "P4Install N configure index netDevices =
     (if netDevices = [] then Inr None
      else
        (let dv = SetIfIndex (configure (P4SwitchNetDevice N)) index
         in case add_bridge_ports N dv netDevices of (_, Inl e) \<Rightarrow> Inl e | (dv, Inr _) \<Rightarrow> Inr (Some dv)))"

lemma add_bridge_ports_all:
  assumes "\<forall>d \<in> set devs. is_mac N (dev_address N d) \<and> dev_supports_send_from N d"
  shows "\<exists>dv'. add_bridge_ports N dv devs = (dv', Inr ()) \<and> nd_ports dv' = nd_ports dv @ devs \<and>
    nd_bridged dv' = nd_bridged dv @ map (dev_channel N) devs \<and> nd_switch_arch dv' = nd_switch_arch dv \<and>
    nd_calls dv' = nd_calls dv"
  using assms
proof (induction devs arbitrary: dv)
  case (Cons d devs)
  obtain dv1 where a: "AddBridgePort N dv d = (dv1, Inr ())" and
    f: "nd_ports dv1 = nd_ports dv @ [d]" "nd_bridged dv1 = nd_bridged dv @ [dev_channel N d]"
      "nd_switch_arch dv1 = nd_switch_arch dv" "nd_calls dv1 = nd_calls dv"
    using Cons.prems by (simp add: AddBridgePort_def Let_def)
  from Cons.IH [of dv1] Cons.prems obtain dv' where "add_bridge_ports N dv1 devs = (dv', Inr ())"
    "nd_ports dv' = nd_ports dv1 @ devs" "nd_bridged dv' = nd_bridged dv1 @ map (dev_channel N) devs"
    "nd_switch_arch dv' = nd_switch_arch dv1" "nd_calls dv' = nd_calls dv1" by auto
  then show ?case by (simp add: a f)
qed simp

text \<open>The installed switch has the devices as its ports, in their order.\<close>

lemma P4Install_ports:
  assumes "devs \<noteq> []" "\<forall>d \<in> set devs. is_mac N (dev_address N d) \<and> dev_supports_send_from N d"
    and "nd_ports (configure (P4SwitchNetDevice N)) = []" "nd_calls (configure (P4SwitchNetDevice N)) = []"
  shows "\<exists>dv. P4Install N configure index devs = Inr (Some dv) \<and> nd_ports dv = devs \<and> nd_calls dv = [] \<and>
    nd_switch_arch dv = nd_switch_arch (configure (P4SwitchNetDevice N))"
proof -
  obtain dv' where "add_bridge_ports N (SetIfIndex (configure (P4SwitchNetDevice N)) index) devs = (dv', Inr ())"
    "nd_ports dv' = devs" "nd_calls dv' = []" "nd_switch_arch dv' = nd_switch_arch (configure (P4SwitchNetDevice N))"
    using add_bridge_ports_all [OF assms(2), of "SetIfIndex (configure (P4SwitchNetDevice N)) index"] assms(3,4)
    by (auto simp: SetIfIndex_def)
  then show ?thesis using assms(1) by (simp add: P4Install_def)
qed

end
