(* ===== verification/Network_Delivery.thy ===== *)
theory Network_Delivery
  imports Fattree_Program Device_Properties Network_Helpers V1model_Properties "HOL-Library.Multiset"
begin

text \<open>
  A packet on its way through a network: the links and ports that \<open>Network_Assembly\<close> describes, the flow
  tables that \<open>Flow_Routing\<close> follows, and the switches as devices with a core (\<open>Switch_Device\<close>). The
  sections go from the links over one switch to the whole network of the fat-tree program. The links,
  which are ns-3's, are assumed to carry a frame from one of their two devices to the other after some time.
\<close>

subsection \<open>Devices and links\<close>

text \<open>Each link gets two new devices.\<close>

definition new_devices :: "'dev csma_install \<Rightarrow> (nat \<Rightarrow> 'dev) \<Rightarrow> (nat \<Rightarrow> 'dev) \<Rightarrow> bool" where
  "new_devices install e0 e1 \<longleftrightarrow>
     (\<forall>k rate del from to. install k rate del from to = (e0 k, e1 k)) \<and> inj e0 \<and> inj e1 \<and> (\<forall>k k'. e0 k \<noteq> e1 k')"

lemma one_link_new:
  assumes "new_devices install e0 e1"
  shows "one_link install d d' \<longleftrightarrow> (\<exists>k. d = e0 k \<and> d' = e1 k \<or> d = e1 k \<and> d' = e0 k)"
  using assms unfolding new_devices_def one_link_def by auto

text \<open>A device has one other end.\<close>

lemma one_link_unique:
  assumes "new_devices install e0 e1" "one_link install d x" "one_link install d y"
  shows "x = y"
  using assms(2,3) assms(1) unfolding one_link_new [OF assms(1)] new_devices_def by (auto dest: injD) metis+

definition all_devices :: "'dev assembly \<Rightarrow> 'dev multiset" where
  "all_devices a = mset (concat (map switchDevices (switchNodes a))) + mset (concat (map hostDevice (hostNodes a)))"

lemma mset_concat_update:
  "i < length xs \<Longrightarrow> f y = f (xs ! i) @ [d] \<Longrightarrow> mset (concat (map f (xs[i := y]))) = add_mset d (mset (concat (map f xs)))"
proof (induction xs arbitrary: i)
  case (Cons x xs)
  then show ?case by (cases i) simp_all
qed simp

lemma attach_devices:
  "unat i < length (switchNodes a) \<Longrightarrow> all_devices (attach_switch a i dev x) = add_mset dev (all_devices a)"
  "unat i < length (hostNodes a) \<Longrightarrow> all_devices (attach_host a i dev sw p) = add_mset dev (all_devices a)"
  by (simp_all add: all_devices_def attach_switch_def attach_host_def Let_def mset_concat_update [where d = dev])

lemma connect_devices:
  assumes "connect_ends d0 d1 l a = Inr a'"
  shows "all_devices a' = all_devices a + {#d0, d1#}" "csma_links a' = csma_links a"
proof -
  note L = attach_switch_simps attach_host_simps
  show "all_devices a' = all_devices a + {#d0, d1#}"
    using assms by (auto simp: connect_ends_def Let_def attach_devices L not_le split: if_splits)
  show "csma_links a' = csma_links a"
    using assms by (auto simp: connect_ends_def Let_def attach_switch_def attach_host_def split: if_splits)
qed

definition link_devices :: "(nat \<Rightarrow> 'dev) \<Rightarrow> (nat \<Rightarrow> 'dev) \<Rightarrow> nat \<Rightarrow> 'dev multiset" where
  "link_devices e0 e1 n = mset (map e0 [0..<n]) + mset (map e1 [0..<n])"

text \<open>A network has the devices of its links, each once. A device of a host is linked to a port of a switch.\<close>

definition hosts_linked :: "'dev csma_install \<Rightarrow> 'dev assembly \<Rightarrow> bool" where
  "hosts_linked install a \<longleftrightarrow> (\<forall>j < length (hostNodes a). \<forall>d \<in> set (hostDevice (hostNodes a ! j)).
     \<exists>s < length (switchNodes a). \<exists>d' \<in> set (switchDevices (switchNodes a ! s)). one_link install d d')"

lemma attach_members:
  "unat i < length (switchNodes a) \<Longrightarrow> switchDevices (switchNodes (attach_switch a i dev x) ! s) =
     switchDevices (switchNodes a ! s) @ (if s = unat i then [dev] else [])"
  "unat i < length (hostNodes a) \<Longrightarrow> hostDevice (hostNodes (attach_host a i dev sw p) ! j) =
     hostDevice (hostNodes a ! j) @ (if j = unat i then [dev] else [])"
  by (simp_all add: attach_switch_def attach_host_def Let_def nth_list_update)

lemma attach_lengths:
  "length (switchNodes (attach_switch a i dev x)) = length (switchNodes a)" "hostNodes (attach_switch a i dev x) = hostNodes a"
  "length (hostNodes (attach_host a i dev sw p)) = length (hostNodes a)" "switchNodes (attach_host a i dev sw p) = switchNodes a"
  by (simp_all add: attach_switch_def attach_host_def Let_def)

lemma hosts_linked_switch:
  assumes "hosts_linked install a" "unat i < length (switchNodes a)"
  shows "hosts_linked install (attach_switch a i dev x)"
  unfolding hosts_linked_def attach_lengths
proof (intro allI impI ballI)
  fix j d assume "j < length (hostNodes a)" "d \<in> set (hostDevice (hostNodes a ! j))"
  then obtain s d' where "s < length (switchNodes a)" "d' \<in> set (switchDevices (switchNodes a ! s))" "one_link install d d'"
    using assms(1) unfolding hosts_linked_def by blast
  then show "\<exists>s < length (switchNodes a). \<exists>d' \<in> set (switchDevices (switchNodes (attach_switch a i dev x) ! s)). one_link install d d'"
    using assms(2) by (intro exI [of _ s]) (auto simp: attach_members)
qed

lemma hosts_linked_host:
  assumes "hosts_linked install a" "unat i < length (hostNodes a)" "s < length (switchNodes a)"
    "d \<in> set (switchDevices (switchNodes a ! s))" "one_link install dev d"
  shows "hosts_linked install (attach_host a i dev sw p)"
  unfolding hosts_linked_def attach_lengths
proof (intro allI impI ballI)
  fix j d0 assume j: "j < length (hostNodes a)" "d0 \<in> set (hostDevice (hostNodes (attach_host a i dev sw p) ! j))"
  show "\<exists>s < length (switchNodes a). \<exists>d' \<in> set (switchDevices (switchNodes a ! s)). one_link install d0 d'"
  proof (cases "d0 \<in> set (hostDevice (hostNodes a ! j))")
    case True
    then show ?thesis using assms(1) j(1) unfolding hosts_linked_def by blast
  next
    case False
    then have "d0 = dev" using j(2) assms(2) by (auto simp: attach_members split: if_splits)
    then show ?thesis using assms(3-5) by blast
  qed
qed

lemma connect_hosts_linked:
  assumes H: "hosts_linked install a" and one: "one_link install d0 d1" and step: "connect_ends d0 d1 l a = Inr a'"
  shows "hosts_linked install a'"
proof -
  let ?f = "GetFromIndex l" and ?t = "GetToIndex l" and ?n = "of_nat (length (switchNodes a)) :: u32"
  consider x y where "unat ?f < length (switchNodes a)" "unat ?t < length (switchNodes a)" "a' = attach_switch (attach_switch a ?f d0 x) ?t d1 y"
    | x p where "unat ?f < length (switchNodes a)" "unat (?t - ?n) < length (hostNodes a)" "a' = attach_host (attach_switch a ?f d0 x) (?t - ?n) d1 ?f p"
    | x p where "unat ?t < length (switchNodes a)" "unat (?f - ?n) < length (hostNodes a)" "a' = attach_host (attach_switch a ?t d1 x) (?f - ?n) d0 ?t p"
    using step by (auto simp: connect_ends_def Let_def not_le split: if_splits)
  then show ?thesis
  proof cases
    case 1
    then show ?thesis using hosts_linked_switch [OF hosts_linked_switch [OF H 1(1)]] by (simp add: attach_lengths)
  next
    case 2
    show ?thesis unfolding 2(3)
      by (rule hosts_linked_host [OF hosts_linked_switch [OF H 2(1)], where s = "unat ?f" and d = d0])
        (use 2 one_link_sym [OF one] in \<open>simp_all add: attach_lengths attach_members\<close>)
  next
    case 3
    show ?thesis unfolding 3(3)
      by (rule hosts_linked_host [OF hosts_linked_switch [OF H 3(1)], where s = "unat ?t" and d = d1])
        (use 3 one in \<open>simp_all add: attach_lengths attach_members\<close>)
  qed
qed

lemma wired_devices:
  assumes new: "new_devices install e0 e1"
  shows "for_each ls (wire_link install) (empty_assembly n m) = Inr a \<Longrightarrow>
    all_devices a = link_devices e0 e1 (csma_links a) \<and> hosts_linked install a"
proof (induction ls arbitrary: a rule: rev_induct)
  case Nil
  then show ?case by (auto simp: empty_assembly_def all_devices_def link_devices_def hosts_linked_def)
next
  case (snoc l ls)
  then obtain b where b: "for_each ls (wire_link install) (empty_assembly n m) = Inr b" "wire_link install l b = Inr a"
    by (auto simp: for_each_append split: sum.splits)
  note I = snoc.IH [OF b(1)]
  define c where "c = (set_channel l b)\<lparr>csma_links := csma_links b + 1\<rparr>"
  have c: "all_devices c = all_devices b" "hosts_linked install c = hosts_linked install b" "csma_links c = Suc (csma_links b)"
    by (simp_all add: c_def set_channel_def all_devices_def hosts_linked_def)
  have i: "install (csma_links b) r de f t = (e0 (csma_links b), e1 (csma_links b))" for r de f t using new by (simp add: new_devices_def)
  have s: "connect_ends (e0 (csma_links b)) (e1 (csma_links b)) l c = Inr a"
    using b(2) by (simp add: wire_link_def Let_def i c_def [symmetric]) (simp add: set_channel_def i c_def)
  have "one_link install (e0 (csma_links b)) (e1 (csma_links b))" unfolding one_link_new [OF new] by blast
  from connect_hosts_linked [OF _ this s] connect_devices [OF s] I show ?case
    by (simp add: c link_devices_def)
qed

lemma assigned_devices:
  assumes "for_each [0..<k] (assign_address alloc) (set_base a) = Inr b"
  shows "switchNodes b = switchNodes a" "map hostDevice (hostNodes b) = map hostDevice (hostNodes a)" "csma_links b = csma_links a"
  using assigned_same [OF assms] by (simp_all add: list_eq_iff_nth_eq)

lemma hosts_linked_map:
  assumes "switchNodes b = switchNodes a" "map hostDevice (hostNodes b) = map hostDevice (hostNodes a)"
  shows "hosts_linked install b = hosts_linked install a"
proof -
  have "length (hostNodes b) = length (hostNodes a)" using arg_cong [OF assms(2), of length] by simp
  moreover from this have "hostDevice (hostNodes b ! j) = hostDevice (hostNodes a ! j)" if "j < length (hostNodes a)" for j
    using arg_cong [OF assms(2), of "\<lambda>xs. xs ! j"] that by simp
  ultimately show ?thesis unfolding hosts_linked_def assms(1) by (simp only: cong: imp_cong)
qed

text \<open>A device is a port of one switch, or belongs to one host.\<close>

definition on_switch :: "'dev assembly \<Rightarrow> 'dev \<Rightarrow> nat \<Rightarrow> bool" where
  "on_switch a d s \<longleftrightarrow> s < length (switchNodes a) \<and> d \<in> set (switchDevices (switchNodes a ! s))"

definition on_host :: "'dev assembly \<Rightarrow> 'dev \<Rightarrow> nat \<Rightarrow> bool" where
  "on_host a d j \<longleftrightarrow> j < length (hostNodes a) \<and> d \<in> set (hostDevice (hostNodes a ! j))"

definition apart :: "'dev assembly \<Rightarrow> bool" where
  "apart a \<longleftrightarrow> distinct (concat (map switchDevices (switchNodes a)) @ concat (map hostDevice (hostNodes a)))"

lemma distinct_concat_place:
  "distinct (concat (map f xs)) \<Longrightarrow> i < length xs \<Longrightarrow> j < length xs \<Longrightarrow> d \<in> set (f (xs ! i)) \<Longrightarrow> d \<in> set (f (xs ! j)) \<Longrightarrow> i = j"
proof (induction xs arbitrary: i j)
  case (Cons x xs)
  have "d \<notin> set (f x)" if "k < length xs" "d \<in> set (f (xs ! k))" for k
    using Cons.prems(1) that nth_mem [OF that(1)] by fastforce
  then show ?case using Cons by (cases i; cases j) auto
qed simp

lemma apart_places:
  assumes "apart a"
  shows "on_switch a d s \<Longrightarrow> on_switch a d s' \<Longrightarrow> s = s'" "on_host a d j \<Longrightarrow> on_host a d j' \<Longrightarrow> j = j'"
    "on_switch a d s \<Longrightarrow> \<not> on_host a d j"
proof -
  have D: "distinct (concat (map switchDevices (switchNodes a)))" "distinct (concat (map hostDevice (hostNodes a)))"
    "set (concat (map switchDevices (switchNodes a))) \<inter> set (concat (map hostDevice (hostNodes a))) = {}"
    using assms by (simp_all only: apart_def distinct_append)
  show "on_switch a d s \<Longrightarrow> on_switch a d s' \<Longrightarrow> s = s'" using distinct_concat_place [OF D(1), of s s' d] by (simp add: on_switch_def)
  show "on_host a d j \<Longrightarrow> on_host a d j' \<Longrightarrow> j = j'" using distinct_concat_place [OF D(2), of j j' d] by (simp add: on_host_def)
  show "on_switch a d s \<Longrightarrow> \<not> on_host a d j" using D(3) nth_mem by (fastforce simp: on_switch_def on_host_def)
qed

lemma link_devices_apart:
  assumes "new_devices install e0 e1" "all_devices a = link_devices e0 e1 k"
  shows "apart a"
proof -
  have "mset (concat (map switchDevices (switchNodes a)) @ concat (map hostDevice (hostNodes a))) = mset (map e0 [0..<k] @ map e1 [0..<k])"
    using assms(2) by (simp add: all_devices_def link_devices_def)
  moreover have "distinct (map e0 [0..<k] @ map e1 [0..<k])"
    using assms(1) by (auto simp: new_devices_def distinct_map inj_on_def inj_def)
  ultimately show ?thesis unfolding apart_def using mset_eq_imp_distinct_iff by blast
qed

lemma assemble_places:
  assumes "new_devices install e0 e1" "assemble install alloc r = Inr a"
  shows "apart a" "hosts_linked install a" "all_devices a = link_devices e0 e1 (csma_links a)"
proof -
  let ?n = "length (GetSwitchNodeContainer r)" and ?m = "length (GetHostNodeContainer r)"
  obtain b where b: "for_each (m_linksList r) (wire_link install) (empty_assembly ?n ?m) = Inr b" "for_each [0..<?m] (assign_address alloc) (set_base b) = Inr a"
    using assms(2) by (auto simp: assemble_def Let_def split: sum.splits)
  note W = wired_devices [OF assms(1) b(1)] and A = assigned_devices [OF b(2)]
  show *: "all_devices a = link_devices e0 e1 (csma_links a)" using W A by (simp add: all_devices_def)
  show "apart a" by (rule link_devices_apart [OF assms(1) *])
  show "hosts_linked install a" using W A hosts_linked_map [of a b install] by simp
qed

subsection \<open>The switches on a way\<close>

text \<open>The switches that a packet for \<open>ip\<close> passes by the first entries of the tables, up to host \<open>d\<close>.\<close>

inductive passes :: "flow_helper \<Rightarrow> string \<Rightarrow> nat \<Rightarrow> nat \<Rightarrow> nat list \<Rightarrow> bool" for h ip d where
  last: "s < length (m_switchNodes h) \<Longrightarrow> first_entry h s ip = Some e \<Longrightarrow> unat (outPort e) < length (ports h s) \<Longrightarrow>
    flag (ports h s ! unat (outPort e)) = 0 \<Longrightarrow> nodeIndex (ports h s ! unat (outPort e)) = of_nat d \<Longrightarrow> passes h ip d s [s]"
| further: "s < length (m_switchNodes h) \<Longrightarrow> first_entry h s ip = Some e \<Longrightarrow> unat (outPort e) < length (ports h s) \<Longrightarrow>
    flag (ports h s ! unat (outPort e)) \<noteq> 0 \<Longrightarrow> passes h ip d (unat (nodeIndex (ports h s ! unat (outPort e)))) ps \<Longrightarrow> passes h ip d s (s # ps)"

inductive_cases passes_cases: "passes h ip d s ps"

lemma routes_passes: "routes h ip d s \<Longrightarrow> \<exists>ps. passes h ip d s ps"
  by (induction rule: routes.induct) (blast intro: passes.intros)+

lemma passes_hd: "passes h ip d s ps \<Longrightarrow> \<exists>qs. ps = s # qs"
  by (auto elim: passes_cases)

lemma passes_unique: "passes h ip d s ps \<Longrightarrow> passes h ip d s qs \<Longrightarrow> ps = qs"
proof (induction arbitrary: qs rule: passes.induct)
  case (last s e)
  from last.prems show ?case
  proof (cases rule: passes.cases)
    case (further e' ps)
    then have "e' = e" using last.hyps(2) by simp
    then show ?thesis using further(5) last.hyps(4) by simp
  qed simp
next
  case (further s e ps)
  note H = further.hyps(2,4) and IH = further.IH
  from further.prems show ?case
  proof (cases rule: passes.cases)
    case (last e')
    then have "e' = e" using H by simp
    then show ?thesis using last(5) H by simp
  next
    case (further e' ps')
    then have "e' = e" using H by simp
    then show ?thesis using further(1,6) IH by simp
  qed
qed

lemma passes_from: "passes h ip d s ps \<Longrightarrow> t \<in> set ps \<Longrightarrow> \<exists>qs. passes h ip d t qs \<and> length qs \<le> length ps"
proof (induction rule: passes.induct)
  case (last s e)
  then show ?case using passes.last [OF last.hyps] by (intro exI [of _ "[s]"]) simp
next
  case (further s e ps)
  show ?case
  proof (cases "t = s")
    case True
    then show ?thesis using passes.further [OF further.hyps] by (intro exI [of _ "s # ps"]) simp
  next
    case False
    then show ?thesis using further.IH further.prems by fastforce
  qed
qed

text \<open>No switch is passed twice.\<close>

lemma passes_distinct: "passes h ip d s ps \<Longrightarrow> distinct ps"
proof (induction rule: passes.induct)
  case (further s e ps)
  have "s \<notin> set ps"
  proof
    assume "s \<in> set ps"
    then obtain qs where "passes h ip d s qs" "length qs \<le> length ps" using passes_from [OF further.hyps(5)] by blast
    moreover have "qs = s # ps" by (rule passes_unique [OF calculation(1) passes.further [OF further.hyps]])
    ultimately show False by simp
  qed
  then show ?case using further.IH by simp
qed simp

subsection \<open>A frame in the network\<close>

text \<open>
  A switch and a frame that one of its ports receives at the time \<open>now\<close>: the reception, and for a v1model switch the egress
  timer at a later time.
\<close>

definition hop ::
  "('dev, 'addr, 'chan) ns3 \<Rightarrow> nat \<Rightarrow> ('p, 'b, 'w) bm \<Rightarrow> ('p, 'q) bmq \<Rightarrow> sim \<Rightarrow> time \<Rightarrow> time \<Rightarrow> ('dev, 'addr, 'chan, 'w, 'p, 'q) switch_device \<Rightarrow>
   'dev \<Rightarrow> u8 list \<Rightarrow> u16 \<Rightarrow> 'addr \<Rightarrow> 'addr \<Rightarrow> (('dev, 'addr, 'chan, 'w, 'p, 'q) switch_device, unit) outcome" where
  "hop N fuel B Q S now now' dv d packet protocol src dst =
     (case ReceiveFromDevice N fuel B Q (S\<lparr>sim_now := now\<rparr>) dv d packet protocol src dst of
        (dv, Inl e) \<Rightarrow> (dv, Inl e)
      | (dv, Inr _) \<Rightarrow>
          (if nd_switch_arch dv = P4SWITCH_ARCH_V1MODEL then v1model_timer N B (S\<lparr>sim_now := now'\<rparr>) dv else (dv, Inr ())))"

text \<open>
  A frame that the device \<open>d\<close> receives at the time \<open>now\<close> gets to host \<open>j\<close>, still addressed to \<open>ip\<close>, where \<open>dest\<close> reads the
  address from a protocol number and a packet: the device belongs to the host; or it is a port of a switch, which, apart from the
  callbacks of the reception, sends one frame on one port, and this frame gets to the host from the other end of
  the link whenever it arrives there, with the address of the port as its source. \<open>B\<close> has the programs of the
  switches, \<open>nw\<close> their states.
\<close>

inductive arrives ::
  "('dev, 'addr, 'chan) ns3 \<Rightarrow> nat \<Rightarrow> (nat \<Rightarrow> ('p, 'b, 'w) bm) \<Rightarrow> ('p, 'q) bmq \<Rightarrow> sim \<Rightarrow> 'dev csma_install \<Rightarrow> 'dev assembly \<Rightarrow>
   (u16 \<Rightarrow> u8 list \<Rightarrow> u32 option) \<Rightarrow> u32 \<Rightarrow> 'addr \<Rightarrow> nat \<Rightarrow>
   (nat \<Rightarrow> ('dev, 'addr, 'chan, 'w, 'p, 'q) switch_device) \<Rightarrow> time \<Rightarrow> 'dev \<Rightarrow> u8 list \<Rightarrow> u16 \<Rightarrow> 'addr \<Rightarrow> bool"
  for N fuel B Q S install a dest ip dst j where
  there: "on_host a d j \<Longrightarrow> dest protocol packet = Some ip \<Longrightarrow> arrives N fuel B Q S install a dest ip dst j nw now d packet protocol src"
| through: "on_switch a d t \<Longrightarrow> now \<le> now' \<Longrightarrow> hop N fuel (B t) Q S now now' (nw t) d packet protocol src dst = (dv, Inr ()) \<Longrightarrow>
    nd_calls dv = nd_calls (nw t) @ upcalls (nw t) packet protocol src dst @ [PortSend out packet' dst protocol'] \<Longrightarrow> one_link install out d' \<Longrightarrow>
    (\<And>later. now' \<le> later \<Longrightarrow> arrives N fuel B Q S install a dest ip dst j (nw(t := dv)) later d' packet' protocol' (dev_address N out)) \<Longrightarrow>
    arrives N fuel B Q S install a dest ip dst j nw now d packet protocol src"

text \<open>
  What a network asks of its switches, whatever their core: a switch that is \<open>ready\<close> to send packets for \<open>ip\<close> on a port sends a frame that
  it receives, addressed to \<open>ip\<close>, on this port, without an error and still addressed to \<open>ip\<close>.
\<close>

locale forwarding_switches =
  fixes N :: "('dev, 'addr, 'chan) ns3" and fuel :: nat and B :: "nat \<Rightarrow> ('p, 'b, 'w) bm" and Q :: "('p, 'q) bmq" and S :: sim
    and dest :: "u16 \<Rightarrow> u8 list \<Rightarrow> u32 option" and ip :: u32 and dst :: 'addr
    and ready :: "nat \<Rightarrow> ('dev, 'addr, 'chan, 'w, 'p, 'q) switch_device \<Rightarrow> nat \<Rightarrow> bool"
  assumes hop_forwards: "ready t dv q \<Longrightarrow> q < length (nd_ports dv) \<Longrightarrow> dest protocol packet = Some ip \<Longrightarrow> is_mac N src \<Longrightarrow>
    \<exists>now' dv' packet' protocol'. now \<le> now' \<and> hop N fuel (B t) Q S now now' dv d packet protocol src dst = (dv', Inr ()) \<and>
      nd_calls dv' = nd_calls dv @ upcalls dv packet protocol src dst @ [PortSend (nd_ports dv ! q) packet' dst protocol'] \<and>
      dest protocol' packet' = Some ip"
begin

text \<open>On the way that the tables give, from the first switch on: no switch is passed twice, so every switch is still ready.\<close>

lemma passes_arrives:
  assumes C: "cabled install b a" and j: "j < 2 ^ 32"
    and P: "\<forall>s < length (switchNodes a). ports h s = map meaning (infos a s)" "length (m_switchNodes h) = length (switchNodes a)"
    and macs: "\<forall>d s. on_switch a d s \<longrightarrow> is_mac N (dev_address N d)"
  shows "passes h str j s ps \<Longrightarrow> \<forall>t \<in> set ps. nd_ports (nw t) = switchDevices (switchNodes a ! t) \<Longrightarrow>
    \<forall>t \<in> set ps. \<forall>e. first_entry h t str = Some e \<longrightarrow> ready t (nw t) (unat (outPort e)) \<Longrightarrow> distinct ps \<Longrightarrow>
    on_switch a d s \<Longrightarrow> dest protocol packet = Some ip \<Longrightarrow> is_mac N src \<Longrightarrow>
    arrives N fuel B Q S install a dest ip dst j nw now d packet protocol src"
proof (induction arbitrary: nw now d packet protocol src rule: passes.induct)
  case (last s e)
  let ?p = "unat (outPort e)"
  have s: "s < length (switchNodes a)" "?p < length (infos a s)" using last.hyps P by simp_all
  then have len: "length (switchDevices (switchNodes a ! s)) = length (infos a s)" and pt: "port_true install a s ?p"
    using C by (simp_all add: cabled_def)
  have "ready s (nw s) ?p" "?p < length (nd_ports (nw s))" using last.prems(1,2) last.hyps(2) s len by simp_all
  from hop_forwards [OF this last.prems(5,6), of now d] obtain now' dv packet' protocol' where
    h: "now \<le> now'" "hop N fuel (B s) Q S now now' (nw s) d packet protocol src dst = (dv, Inr ())"
      "nd_calls dv = nd_calls (nw s) @ upcalls (nw s) packet protocol src dst @ [PortSend (dev_at a s ?p) packet' dst protocol']"
      "dest protocol' packet' = Some ip"
    using last.prems(1) by (auto simp: dev_at_def)
  have m: "flag (meaning (infos a s ! ?p)) = 0" "nodeIndex (meaning (infos a s ! ?p)) = of_nat j" using last.hyps P s by simp_all
  moreover have "unat (of_nat j :: u32) = j" by (rule unat_u32) (use j in simp)
  ultimately obtain d' where d': "on_host a d' j" "one_link install (dev_at a s ?p) d'"
    using pt by (auto simp: port_true_def on_host_def Let_def)
  show ?case by (rule arrives.through [where B = B and nw = nw and t = s, OF last.prems(4) h(1-3) d'(2)]) (rule arrives.there [where dest = dest, OF d'(1) h(4)])
next
  case (further s e ps)
  let ?p = "unat (outPort e)"
  have s: "s < length (switchNodes a)" "?p < length (infos a s)" using further.hyps P by simp_all
  then have len: "length (switchDevices (switchNodes a ! s)) = length (infos a s)" and pt: "port_true install a s ?p"
    using C by (simp_all add: cabled_def)
  have "ready s (nw s) ?p" "?p < length (nd_ports (nw s))" using further.prems(1,2) further.hyps(2) s len by simp_all
  from hop_forwards [OF this further.prems(5,6), of now d] obtain now' dv packet' protocol' where
    h: "now \<le> now'" "hop N fuel (B s) Q S now now' (nw s) d packet protocol src dst = (dv, Inr ())"
      "nd_calls dv = nd_calls (nw s) @ upcalls (nw s) packet protocol src dst @ [PortSend (dev_at a s ?p) packet' dst protocol']"
      "dest protocol' packet' = Some ip"
    using further.prems(1) by (auto simp: dev_at_def)
  let ?x = "meaning (infos a s ! ?p)"
  have x: "ports h s ! ?p = ?x" using P s by simp
  define t where "t = unat (nodeIndex ?x)"
  define q where "q = unat (nodePort ?x)"
  have t: "t < length (switchNodes a)" "q < length (infos a t)" "one_link install (dev_at a s ?p) (dev_at a t q)"
    using pt further.hyps(4) unfolding x by (simp_all add: port_true_def Let_def t_def q_def)
  then have t': "on_switch a (dev_at a t q) t" using C by (simp add: on_switch_def dev_at_def cabled_def)
  have mac: "is_mac N (dev_address N (dev_at a s ?p))"
  proof -
    have "on_switch a (dev_at a s ?p) s" using s len by (simp add: on_switch_def dev_at_def)
    then show ?thesis using macs by blast
  qed
  show ?case
  proof (rule arrives.through [where B = B and nw = nw and t = s, OF further.prems(4) h(1-3) t(3)])
    fix later assume "now' \<le> later"
    have r: "r \<noteq> s" if "r \<in> set ps" for r using further.prems(3) that by auto
    show "arrives N fuel B Q S install a dest ip dst j (nw(s := dv)) later (dev_at a t q) packet' protocol' (dev_address N (dev_at a s ?p))"
      by (rule further.IH) (use further.prems(1-3) r t' mac h(4) x in \<open>simp_all add: t_def\<close>)
  qed
qed

end

subsection \<open>A program that forwards by its table\<close>

text \<open>
  \<open>holds w rt\<close>: the tables in \<open>w\<close> send the packets for an address on the port that \<open>rt\<close> has for it. \<open>bound p ip\<close>: the packet
  \<open>p\<close> is addressed to \<open>ip\<close>. A frame is turned into a packet bound for its address; the parser, the ingress
  and the egress program keep the address; the ingress program chooses the port that the
  table has for it, and neither multicasts the packet nor gives it a priority; the deparser makes a frame of it. Metadata, registers and ports
  of a packet are independent of its address (\<open>core_keeps\<close>).
\<close>

definition forwarding_program ::
  "('dev, 'addr, 'chan) ns3 \<Rightarrow> ('p, 'b, 'w) bm \<Rightarrow> (u16 \<Rightarrow> u8 list \<Rightarrow> u32 option) \<Rightarrow> ('w \<Rightarrow> (u32 \<Rightarrow> nat option) \<Rightarrow> bool) \<Rightarrow>
   ('p \<Rightarrow> u32 \<Rightarrow> bool) \<Rightarrow> bool" where
  "forwarding_program N B dest holds bound \<longleftrightarrow>
     (\<forall>port pid d s t x ip. dest t x = Some ip \<longrightarrow> bound (bm_new_packet B port pid (eth_add N d s t x)) ip) \<and>
     (\<forall>w rt p ip. holds w rt \<longrightarrow> bound p ip \<longrightarrow>
        holds (fst (bm_parse B ''parser'' w p)) rt \<and> bound (snd (bm_parse B ''parser'' w p)) ip) \<and>
     (\<forall>w rt p ip q. holds w rt \<longrightarrow> bound p ip \<longrightarrow> rt ip = Some q \<longrightarrow>
        (let p' = bm_reset_exit B (snd (bm_apply B ''ingress'' w p))
         in bound p' ip \<and> get_uint B p' ''standard_metadata.egress_spec'' = of_nat q \<and>
           (bm_has_field B p' ''intrinsic_metadata.mcast_grp'' \<longrightarrow> bm_get_field B p' ''intrinsic_metadata.mcast_grp'' = 0) \<and>
           (bm_has_field B p' ''intrinsic_metadata.priority'' \<longrightarrow> bm_get_field B p' ''intrinsic_metadata.priority'' = 0))) \<and>
     (\<forall>ip. egress_keeps B (\<lambda>p. bound p ip) (\<lambda>p. \<exists>d s t x. bm_data B p = eth_add N d s t x \<and> dest t x = Some ip))"

lemma forwarding_programD:
  assumes "forwarding_program N B dest holds bound"
  shows "dest t x = Some ip \<Longrightarrow> bound (bm_new_packet B port pid (eth_add N d s t x)) ip"
    and "holds w rt \<Longrightarrow> bound p ip \<Longrightarrow> holds (fst (bm_parse B ''parser'' w p)) rt"
    and "holds w rt \<Longrightarrow> bound p ip \<Longrightarrow> bound (snd (bm_parse B ''parser'' w p)) ip"
    and "holds w rt \<Longrightarrow> bound p ip \<Longrightarrow> rt ip = Some q \<Longrightarrow> bound (bm_reset_exit B (snd (bm_apply B ''ingress'' w p))) ip"
    and "holds w rt \<Longrightarrow> bound p ip \<Longrightarrow> rt ip = Some q \<Longrightarrow>
      get_uint B (bm_reset_exit B (snd (bm_apply B ''ingress'' w p))) ''standard_metadata.egress_spec'' = of_nat q"
    and "egress_keeps B (\<lambda>p. bound p ip) (\<lambda>p. \<exists>d s t x. bm_data B p = eth_add N d s t x \<and> dest t x = Some ip)"
    and "core_keeps B (\<lambda>p. bound p ip)"
  using assms by (simp_all add: forwarding_program_def egress_keeps_def Let_def)

lemma forwarding_program_fields:
  assumes "forwarding_program N B dest holds bound" "holds w rt" "bound p ip" "rt ip = Some q"
    and "p' = bm_reset_exit B (snd (bm_apply B ''ingress'' w p))"
  shows "bm_has_field B p' ''intrinsic_metadata.mcast_grp'' \<Longrightarrow> bm_get_field B p' ''intrinsic_metadata.mcast_grp'' = 0"
    "bm_has_field B p' ''intrinsic_metadata.priority'' \<Longrightarrow> bm_get_field B p' ''intrinsic_metadata.priority'' = 0"
proof -
  have "let p' = bm_reset_exit B (snd (bm_apply B ''ingress'' w p)) in bound p' ip \<and> get_uint B p' ''standard_metadata.egress_spec'' = of_nat q \<and>
       (bm_has_field B p' ''intrinsic_metadata.mcast_grp'' \<longrightarrow> bm_get_field B p' ''intrinsic_metadata.mcast_grp'' = 0) \<and>
       (bm_has_field B p' ''intrinsic_metadata.priority'' \<longrightarrow> bm_get_field B p' ''intrinsic_metadata.priority'' = 0)"
    using assms(1-4) unfolding forwarding_program_def by blast
  then show "bm_has_field B p' ''intrinsic_metadata.mcast_grp'' \<Longrightarrow> bm_get_field B p' ''intrinsic_metadata.mcast_grp'' = 0"
    "bm_has_field B p' ''intrinsic_metadata.priority'' \<Longrightarrow> bm_get_field B p' ''intrinsic_metadata.priority'' = 0"
    unfolding assms(5) Let_def by simp_all
qed

lemma metadata_fields [simp]:
  "metadata_field ''standard_metadata.ingress_port''" "metadata_field ''standard_metadata.packet_length''"
  "metadata_field ''standard_metadata.instance_type''" "metadata_field ''standard_metadata.egress_port''"
  "metadata_field ''standard_metadata.egress_spec''" "metadata_field ''standard_metadata.parser_error''"
  "metadata_field ''standard_metadata.checksum_error''" "metadata_field ''intrinsic_metadata.ingress_global_timestamp''"
  by (simp_all add: metadata_field_def)

lemma pipeline_forwards:
  assumes F: "forwarding_program N B dest holds bound" and w: "holds (world c) rt" "rt ip = Some q" and x: "dest t x = Some ip"
  shows "get_uint B (snd (pipeline_ingress B c (eth_add N d s t x) port)) ''standard_metadata.egress_spec'' = of_nat q"
    "\<exists>d' s' t' x'. send_data (last (sent (fst (PipelineReceivePacket B c (eth_add N d s t x) port proto dst)))) = eth_add N d' s' t' x' \<and> dest t' x' = Some ip"
proof -
  note F' = forwarding_programD [OF F]
  note K = core_keepsD [OF F'(7)]
  define p0 where "p0 = (let (c, pkt) = ConvertToBmPacket B c (eth_add N d s t x) port; len = bm_data_size B pkt;
          pkt = bm_set_ingress_port B pkt port; pkt = bm_reset_metadata B pkt;
          pkt = bm_set_field B pkt ''standard_metadata.ingress_port'' (unat port);
          pkt = bm_set_register B pkt PACKET_LENGTH_REG_IDX (of_nat len);
          pkt = bm_set_field B pkt ''standard_metadata.packet_length'' len
      in bm_set_field B pkt ''standard_metadata.instance_type'' pipeline_packet_normal)"
  have b0: "bound p0 ip" unfolding p0_def ConvertToBmPacket_def Let_def prod.case
    by (intro K F'(1) x metadata_fields)
  obtain w1 p1 where p1: "bm_parse B ''parser'' (world c) p0 = (w1, p1)" by fastforce
  have b1: "bound p1 ip" "holds w1 rt" using F'(2,3) [OF w(1) b0] p1 by simp_all
  obtain w2 p2 where p2: "bm_apply B ''ingress'' w1 p1 = (w2, p2)" by fastforce
  have b2: "bound (bm_reset_exit B p2) ip" "get_uint B (bm_reset_exit B p2) ''standard_metadata.egress_spec'' = of_nat q"
    using F'(4,5) [OF b1(2,1) w(2)] p2 by simp_all
  define c2 where "c2 = c\<lparr>packet_id := packet_id c + 1, world := w2\<rparr>"
  have i: "pipeline_ingress B c (eth_add N d s t x) port = (c2, bm_reset_exit B p2)"
    using p1 p2 unfolding pipeline_ingress_def p0_def ConvertToBmPacket_def Let_def prod.case by (simp add: c2_def)
  then show "get_uint B (snd (pipeline_ingress B c (eth_add N d s t x) port)) ''standard_metadata.egress_spec'' = of_nat q" using b2 by simp
  have E: "bound p ip \<Longrightarrow> bound (snd (bm_apply B ''egress'' w p)) ip"
    "bound p ip \<Longrightarrow> \<exists>d s t x. bm_data B (snd (bm_deparse B ''deparser'' w p)) = eth_add N d s t x \<and> dest t x = Some ip" for w p
    using F'(6) unfolding egress_keeps_def by blast+
  show "\<exists>d' s' t' x'. send_data (last (sent (fst (PipelineReceivePacket B c (eth_add N d s t x) port proto dst)))) = eth_add N d' s' t' x' \<and> dest t' x' = Some ip"
    unfolding PipelineReceivePacket_def i
    by (simp add: Let_def case_prod_beta ConvertToNs3Packet_def) (intro conjI impI E K b2 metadata_fields)
qed

text \<open>A switch that takes the frames for the address \<open>dst\<close>, and such a switch with the pipeline core.\<close>

definition takes_frames :: "('dev, 'addr, 'chan) ns3 \<Rightarrow> 'addr \<Rightarrow> ('dev, 'addr, 'chan, 'w, 'p, 'q) switch_device \<Rightarrow> bool" where
  "takes_frames N dst dv \<longleftrightarrow> eth_laws N \<and> is_mac N dst \<and> (nd_rx_callback dv \<or> dst \<noteq> nd_address dv) \<and>
     (nd_channel_type dv = P4CHANNELCSMA \<or> nd_channel_type dv = P4CHANNELP2P)"

definition pipeline_ready ::
  "('dev, 'addr, 'chan) ns3 \<Rightarrow> (nat \<Rightarrow> ('p, 'b, 'w) bm) \<Rightarrow> (u16 \<Rightarrow> u8 list \<Rightarrow> u32 option) \<Rightarrow> ('w \<Rightarrow> (u32 \<Rightarrow> nat option) \<Rightarrow> bool) \<Rightarrow>
   ('p \<Rightarrow> u32 \<Rightarrow> bool) \<Rightarrow> u32 \<Rightarrow> 'addr \<Rightarrow> nat \<Rightarrow> ('dev, 'addr, 'chan, 'w, 'p, 'q) switch_device \<Rightarrow> nat \<Rightarrow> bool" where
  "pipeline_ready N B dest holds bound ip dst t dv q \<longleftrightarrow>
     takes_frames N dst dv \<and> forwarding_program N (B t) dest holds bound \<and> q < 511 \<and>
     nd_switch_arch dv = P4SWITCH_ARCH_PIPELINE \<and>
     (\<exists>c rt. nd_pipeline dv = Some c \<and> sent c = [] \<and> holds (world c) rt \<and> rt ip = Some q)"

lemma pipeline_hop:
  assumes R: "pipeline_ready N B dest holds bound ip dst t dv q" and q: "q < length (nd_ports dv)" and x: "dest protocol packet = Some ip"
    and src: "is_mac N src"
  shows "\<exists>now' dv' packet' protocol'. now \<le> now' \<and> hop N fuel (B t) Q S now now' dv d packet protocol src dst = (dv', Inr ()) \<and>
      nd_calls dv' = nd_calls dv @ upcalls dv packet protocol src dst @ [PortSend (nd_ports dv ! q) packet' dst protocol'] \<and>
      dest protocol' packet' = Some ip"
proof -
  obtain c rt where c: "nd_pipeline dv = Some c" "sent c = []" "holds (world c) rt" "rt ip = Some q"
    and T: "takes_frames N dst dv" and F: "forwarding_program N (B t) dest holds bound" and q': "q < 511"
    and arch: "nd_switch_arch dv = P4SWITCH_ARCH_PIPELINE"
    using R by (auto simp: pipeline_ready_def)
  note T' = T [unfolded takes_frames_def]
  let ?fr = "eth_add N dst src protocol packet"
  obtain c' r where p: "PipelineReceivePacket (B t) c ?fr 0 protocol dst = (c', r)" by fastforce
  obtain c1 pkt1 where i: "pipeline_ingress (B t) c ?fr 0 = (c1, pkt1)" by fastforce
  obtain d' s' t' x' where out: "send_data (last (sent c')) = eth_add N d' s' t' x'" "dest t' x' = Some ip"
    using pipeline_forwards(2) [OF F c(3,4) x, of dst src 0 protocol dst] p by auto
  have "get_uint (B t) pkt1 ''standard_metadata.egress_spec'' = of_nat q"
    using pipeline_forwards(1) [OF F c(3,4) x, of dst src 0] i by simp
  then have e: "unat (get_uint (B t) pkt1 ''standard_metadata.egress_spec'') = q" using q' unat_u32 [of q] by simp
  have "nd_ports dv \<noteq> []" using q by auto
  from pipeline_device_through [where N = N and B = "B t" and dv = dv, OF _ src _ _ _ arch c(1,2) p out(1) i e disjI1 [OF q] this] T' q'
  have h: "ReceiveFromDevice N fuel (B t) Q S dv d packet protocol src dst =
      (dv\<lparr>nd_pipeline := Some (c'\<lparr>sent := []\<rparr>), nd_calls := nd_calls dv @ upcalls dv packet protocol src dst @ [PortSend (nd_ports dv ! q) x' dst t']\<rparr>, Inr ())"
    for S by simp
  then show ?thesis using arch out(2)
    by (intro exI [of _ now] exI [of _ "dv\<lparr>nd_pipeline := Some (c'\<lparr>sent := []\<rparr>), nd_calls := nd_calls dv @ upcalls dv packet protocol src dst @ [PortSend (nd_ports dv ! q) x' dst t']\<rparr>"]
        exI [of _ x'] exI [of _ t']) (simp add: hop_def P4SWITCH_ARCH_PIPELINE_def P4SWITCH_ARCH_V1MODEL_def)
qed

interpretation pl: forwarding_switches N fuel B Q S dest ip dst "pipeline_ready N B dest holds bound ip dst"
  for N fuel B Q S dest ip dst holds bound
  by unfold_locales (rule pipeline_hop)

subsection \<open>The v1model core\<close>

text \<open>
  The laws about programs that the properties of the v1model core have (\<open>V1model_Properties\<close>), for a program that asks for
  no clone, no learning, no resubmission and no recirculation: parser and ingress leave the registers alone.
\<close>

definition v1_program :: "('p, 'b, 'w) bm \<Rightarrow> bool" where
  "v1_program B \<longleftrightarrow> program_frame B \<and> declares B \<and> field_frame B \<and> field_zero B \<and> egress_passes B 511 \<and>
     (\<forall>w p. bm_get_register B (snd (bm_parse B ''parser'' w p)) = bm_get_register B p \<and>
        bm_get_register B (snd (bm_apply B ''ingress'' w p)) = bm_get_register B p)"

text \<open>A core that holds no packet and has room, and knows no destination yet, such as a new one.\<close>

definition v1_idle :: "('p, 'b, 'w) bm \<Rightarrow> ('addr, 'w, 'p) v1model \<Rightarrow> bool" where
  "v1_idle B c \<longleftrightarrow> v1_ok {} B 0 c \<and> queue_hi (in_buffer c) = [] \<and> queue_lo (in_buffer c) = [] \<and> 0 < capacity_lo (in_buffer c) \<and>
     egress_packets (egress_buffer c) = {} \<and> destination_list c = [] \<and> drop_port c = 511 \<and> sent c = [] \<and> 0 < nb_queues_per_port c \<and>
     (\<forall>S q. 0 < qip_capacity (qi_pri (snd (get_queue S (egress_buffer c) q)) ! (nb_queues_per_port c - 1)))"

definition v1_ready ::
  "('dev, 'addr, 'chan) ns3 \<Rightarrow> nat \<Rightarrow> (nat \<Rightarrow> ('p, 'b, 'w) bm) \<Rightarrow> sim \<Rightarrow> (u16 \<Rightarrow> u8 list \<Rightarrow> u32 option) \<Rightarrow> ('w \<Rightarrow> (u32 \<Rightarrow> nat option) \<Rightarrow> bool) \<Rightarrow>
   ('p \<Rightarrow> u32 \<Rightarrow> bool) \<Rightarrow> u32 \<Rightarrow> 'addr \<Rightarrow> nat \<Rightarrow> ('dev, 'addr, 'chan, 'w, 'p, 'q) switch_device \<Rightarrow> nat \<Rightarrow> bool" where
  "v1_ready N fuel B S dest holds bound ip dst t dv q \<longleftrightarrow>
     takes_frames N dst dv \<and> forwarding_program N (B t) dest holds bound \<and> v1_program (B t) \<and> q < 8 \<and> 0 < fuel \<and> seconds_nonneg S \<and>
     nd_switch_arch dv = P4SWITCH_ARCH_V1MODEL \<and>
     (\<exists>c rt. nd_v1model dv = Some c \<and> v1_idle (B t) c \<and> holds (world c) rt \<and> rt ip = Some q)"

text \<open>The packet that is put in the input buffer, and what the ingress program makes of it.\<close>

lemma received_bound:
  assumes F: "forwarding_program N B dest holds bound" and x: "dest t x = Some ip"
    and r: "receive_packet B S c (eth_add N d s t x) port proto dst = (c1, pkt)"
  shows "bound pkt ip"
proof -
  note K = core_keepsD [OF forwarding_programD(7) [OF F]]
  have "bound (snd (receive_packet B S c (eth_add N d s t x) port proto dst)) ip"
    unfolding receive_packet_def ConvertToBmPacket_def Let_def case_prod_beta snd_conv fst_conv clear_all_def set_ns_protocol_def set_ns_address_def
    by (intro K forwarding_programD(1) [OF F] x metadata_fields)
  then show ?thesis by (simp add: r)
qed

lemma ingress_bound:
  assumes F: "forwarding_program N B dest holds bound" and V: "v1_program B" and b: "bound pkt ip" and w: "holds (world c) rt" "rt ip = Some q"
    and i: "ingress_program B c pkt = (c2, pkt2)" and r: "\<And>f. f \<noteq> NsAddress \<Longrightarrow> f \<noteq> NsProtocol \<Longrightarrow> get_reg_field B f pkt = 0"
  shows "bound pkt2 ip" "ingress_unicast B pkt2 (of_nat q)"
    "bm_has_field B pkt2 ''intrinsic_metadata.priority'' \<Longrightarrow> bm_get_field B pkt2 ''intrinsic_metadata.priority'' = 0"
proof -
  note K = core_keepsD [OF forwarding_programD(7) [OF F]]
  have frame: "register_frame B" using V program_frameD(2) by (auto simp: v1_program_def)
  obtain w1 p1 where p1: "bm_parse B ''parser'' (world c) pkt = (w1, p1)" by fastforce
  have b1: "bound p1 ip" "holds w1 rt" using forwarding_programD(2,3) [OF F w(1) b] p1 by simp_all
  define p1' where "p1' = set_if_present B (set_if_present B p1 ''standard_metadata.parser_error'' (bm_error_code B p1)) ''standard_metadata.checksum_error''
    (if bm_checksum_error B (set_if_present B p1 ''standard_metadata.parser_error'' (bm_error_code B p1)) then 1 else 0)"
  have b1': "bound p1' ip" unfolding p1'_def by (intro K b1 metadata_fields)
  have pkt2: "pkt2 = bm_reset_exit B (snd (bm_apply B ''ingress'' w1 p1'))"
    using i by (auto simp: ingress_program_def p1 p1'_def Let_def case_prod_beta)
  show "bound pkt2 ip" unfolding pkt2 by (rule forwarding_programD(4) [OF F b1(2) b1' w(2)])
  have "bm_get_register B p1' = bm_get_register B p1" using frame by (simp add: p1'_def)
  then have "bm_get_register B pkt2 = bm_get_register B pkt"
    using V p1 frame unfolding pkt2 v1_program_def by (simp add: frame_laws) (metis snd_conv)
  then have g: "get_reg_field B f pkt2 = get_reg_field B f pkt" for f using get_reg_field_cong [of B pkt2 f pkt] by simp
  have "get_uint B pkt2 ''standard_metadata.egress_spec'' = of_nat q"
    unfolding pkt2 by (rule forwarding_programD(5) [OF F b1(2) b1' w(2)])
  moreover have "bm_has_field B pkt2 ''intrinsic_metadata.mcast_grp'' \<longrightarrow> get_uint B pkt2 ''intrinsic_metadata.mcast_grp'' = 0"
    using forwarding_program_fields(1) [OF F b1(2) b1' w(2) pkt2] by auto
  ultimately show "ingress_unicast B pkt2 (of_nat q)"
    using g [of CloneMirrorSessionId] g [of RecirculateFlag] g [of LfFieldList] g [of ResubmitFlag]
      r [of CloneMirrorSessionId] r [of RecirculateFlag] r [of LfFieldList] r [of ResubmitFlag]
    by (simp add: ingress_unicast_def flags_clear_def)
  show "bm_has_field B pkt2 ''intrinsic_metadata.priority'' \<Longrightarrow> bm_get_field B pkt2 ''intrinsic_metadata.priority'' = 0"
    by (rule forwarding_program_fields(2) [OF F b1(2) b1' w(2) pkt2])
qed

lemma queued_priority:
  assumes "field_frame B" "bm_has_field B pkt ''intrinsic_metadata.priority'' \<Longrightarrow> bm_get_field B pkt ''intrinsic_metadata.priority'' = 0"
  shows "pkt_priority B (queued_packet B S c q (bm_set_field B pkt ''standard_metadata.instance_type'' 0)) = 0"
  using assms by (simp add: queued_packet_def pkt_priority_def Let_def frame_laws)

lemma idle_destinations: "destination_list c = [] \<Longrightarrow> length (destination_list (fst (GetAddressIndex c dst))) \<le> 65536"
  by (simp add: GetAddressIndex_def Let_def split: option.split)

text \<open>Reception and the egress timer of an idle core.\<close>

lemma v1_forwards:
  assumes F: "forwarding_program N B dest holds bound" and V: "v1_program B" and I: "v1_idle B c" and S: "seconds_nonneg S"
    and w: "holds (world c) rt" "rt ip = Some q" "q < 8" and x: "dest t x = Some ip"
  shows "\<exists>due c' c'' d' s' t' x'. ReceivePacket (Suc fuel) B (S\<lparr>sim_now := now\<rparr>) c (eth_add N d s t x) port proto dst = (c', Inr 0) \<and> sent c' = [] \<and>
    SetEgressTimerEvent B (S\<lparr>sim_now := max now due\<rparr>) c' = (c'', Inr ()) \<and> dest t' x' = Some ip \<and>
    sent c'' = [\<lparr>send_data = eth_add N d' s' t' x', send_port = q, send_protocol = proto, send_destination = dst\<rparr>]"
proof -
  let ?S = "S\<lparr>sim_now := now\<rparr>" and ?fr = "eth_add N d s t x"
  have laws: "program_frame B" "declares B" "field_frame B" "field_zero B" "egress_passes B (drop_port c)"
    using V I by (simp_all add: v1_program_def v1_idle_def)
  have idle: "v1_ok {} B 0 c" "queue_hi (in_buffer c) = []" "queue_lo (in_buffer c) = []" "0 < capacity_lo (in_buffer c)"
    "egress_packets (egress_buffer c) = {}" "length (destination_list (fst (GetAddressIndex c dst))) \<le> 65536"
    "sent c = []" "0 < nb_queues_per_port c"
    using I idle_destinations [of c dst] by (simp_all add: v1_idle_def)
  obtain c1 pkt where r: "receive_packet B ?S c ?fr port proto dst = (c1, pkt)" by fastforce
  obtain c2 pkt2 where i: "ingress_program B c1 pkt = (c2, pkt2)" by fastforce
  have b: "bound pkt ip" by (rule received_bound [OF F x r])
  have w1: "world c1 = world c"
    using GetAddressIndex_frame [of "counted c (bm_data_size B (bm_new_packet B port (packet_id c) ?fr))" dst]
      arg_cong [OF r, of fst, unfolded fst_receive_packet] by (auto simp: counted_def)
  note J = ingress_bound [OF F V b w(1) [folded w1] w(2) i]
  have flags: "get_reg_field B f pkt = 0" if "f \<noteq> NsAddress" "f \<noteq> NsProtocol" for f
    using receive_packet_flags [OF laws(1) that, of ?S c ?fr port proto dst] by (simp add: r)
  define k where "k = queued_packet B ?S c2 (of_nat q) (bm_set_field B pkt2 ''standard_metadata.instance_type'' 0)"
  have pr: "pkt_priority B k = 0" unfolding k_def by (rule queued_priority [OF laws(3) J(3) [OF flags]])
  define due where "due = get_next_tp ?S (qi_pri (snd (get_queue ?S (egress_buffer c) q)) ! (nb_queues_per_port c - 1))"
  have uq: "unat (of_nat q :: u32) = q" by (rule unat_u32) (use w(3) in simp)
  have nd: "of_nat q \<noteq> drop_port c"
  proof
    assume "of_nat q = drop_port c"
    then have "unat (of_nat q :: u32) = unat (511 :: u32)" using I by (simp add: v1_idle_def)
    then show False using w(3) by (simp only: uq) simp
  qed
  have S': "seconds_nonneg ?S" using S by (simp add: seconds_nonneg_def)
  have cap: "0 < qip_capacity (qi_pri (snd (get_queue ?S (egress_buffer c) (unat (of_nat q :: u32)))) ! (nb_queues_per_port c - 1 - pkt_priority B k))"
    using I unfolding pr uq by (simp add: v1_idle_def)
  have due': "get_next_tp ?S (qi_pri (snd (get_queue ?S (egress_buffer c) (unat (of_nat q :: u32)))) ! (nb_queues_per_port c - 1 - pkt_priority B k))
      \<le> sim_now (S\<lparr>sim_now := max now due\<rparr>)"
    unfolding pr uq due_def by simp
  have q8: "unat (of_nat q :: u32) < 8" using uq w(3) by simp
  have pl: "pkt_priority B k < nb_queues_per_port c" unfolding pr by (rule idle(8))
  have m0: "(0 :: nat) + 2 < 2 ^ 64" by simp
  obtain c' c'' out where R: "ReceivePacket (Suc fuel) B ?S c ?fr port proto dst = (c', Inr 0)" "sent c' = sent c"
      "HandleEgressPipeline B (S\<lparr>sim_now := max now due\<rparr>) c' 0 = (c'', Inr True)"
      "\<exists>d s t x. bm_data B out = eth_add N d s t x \<and> dest t x = Some ip"
      "sent c'' = sent c @ [\<lparr>send_data = ConvertToNs3Packet B out, send_port = unat (of_nat q :: u32), send_protocol = proto, send_destination = dst\<rparr>]"
    using unicast_through_switch [OF laws(1-4) idle(1) S' m0 idle(2-6) r i J(2) [OF flags] nd q8 k_def pl refl cap due' laws(5) forwarding_programD(6) [OF F] J(1) [OF flags], of fuel]
    by blast
  obtain d' s' t' x' where o: "bm_data B out = eth_add N d' s' t' x'" "dest t' x' = Some ip" using R(4) by blast
  obtain c3 where "SetEgressTimerEvent B (S\<lparr>sim_now := max now due\<rparr>) c' = (c3, Inr ())" "sent c3 = sent c''"
    by (simp add: SetEgressTimerEvent_def R(3) Let_def schedule_def)
  moreover from this have "sent c3 = [\<lparr>send_data = eth_add N d' s' t' x', send_port = q, send_protocol = proto, send_destination = dst\<rparr>]"
    using R(5) o(1) idle(7) uq by (simp add: ConvertToNs3Packet_def)
  moreover have "sent c' = []" using R(2) idle(7) by simp
  ultimately show ?thesis using R(1) o(2) by blast
qed

lemma v1_hop:
  assumes R: "v1_ready N fuel B S dest holds bound ip dst t dv q" and q: "q < length (nd_ports dv)" and x: "dest protocol packet = Some ip"
    and src: "is_mac N src"
  shows "\<exists>now' dv' packet' protocol'. now \<le> now' \<and> hop N fuel (B t) Q S now now' dv d packet protocol src dst = (dv', Inr ()) \<and>
      nd_calls dv' = nd_calls dv @ upcalls dv packet protocol src dst @ [PortSend (nd_ports dv ! q) packet' dst protocol'] \<and>
      dest protocol' packet' = Some ip"
proof -
  obtain c rt where c: "nd_v1model dv = Some c" "v1_idle (B t) c" "holds (world c) rt" "rt ip = Some q"
    and T: "takes_frames N dst dv" and F: "forwarding_program N (B t) dest holds bound" and V: "v1_program (B t)"
    and q': "q < 8" and f: "0 < fuel" and S: "seconds_nonneg S" and arch: "nd_switch_arch dv = P4SWITCH_ARCH_V1MODEL"
    using R by (auto simp: v1_ready_def)
  note T' = T [unfolded takes_frames_def]
  obtain fl where fl: "fuel = Suc fl" using f gr0_implies_Suc by blast
  let ?fr = "eth_add N dst src protocol packet"
  obtain due c' c'' d' s' t' x' where r: "ReceivePacket fuel (B t) (S\<lparr>sim_now := now\<rparr>) c ?fr 0 protocol dst = (c', Inr 0)" "sent c' = []"
    "SetEgressTimerEvent (B t) (S\<lparr>sim_now := max now due\<rparr>) c' = (c'', Inr ())" "dest t' x' = Some ip"
    "sent c'' = [\<lparr>send_data = eth_add N d' s' t' x', send_port = q, send_protocol = protocol, send_destination = dst\<rparr>]"
    using v1_forwards [OF F V c(2) S c(3,4) q' x, of fl now dst src 0 protocol dst] unfolding fl by blast
  define dv1 where "dv1 = dv\<lparr>nd_calls := nd_calls dv @ upcalls dv packet protocol src dst, nd_v1model := Some c'\<rparr>"
  define dv2 where "dv2 = dv1\<lparr>nd_v1model := Some (c''\<lparr>sent := []\<rparr>), nd_calls := nd_calls dv1 @ [PortSend (nd_ports dv ! q) x' dst t']\<rparr>"
  have ne: "nd_ports dv \<noteq> []" using q by auto
  have same: "c'\<lparr>sent := []\<rparr> = c'" using r(2) by simp
  have "ReceiveFromDevice N fuel (B t) Q (S\<lparr>sim_now := now\<rparr>) dv d packet protocol src dst = (dv1, Inr ())"
    using T' by (subst ReceiveFromDevice_ok) (simp_all add: src ne core_dispatch_def arch c(1) r(1,2) same after_core_def dv1_def)
  moreover have "v1model_timer N (B t) (S\<lparr>sim_now := max now due\<rparr>) dv1 = (dv2, Inr ())"
    using T' q q' by (simp add: v1model_timer_def dv1_def dv2_def r(3,5) after_core_def SendNs3Packet_frame)
  moreover have "nd_switch_arch dv1 = P4SWITCH_ARCH_V1MODEL" using arch by (simp add: dv1_def)
  ultimately have "hop N fuel (B t) Q S now (max now due) dv d packet protocol src dst = (dv2, Inr ())"
    by (simp add: hop_def)
  moreover have "nd_calls dv2 = nd_calls dv @ upcalls dv packet protocol src dst @ [PortSend (nd_ports dv ! q) x' dst t']"
    by (simp add: dv2_def dv1_def)
  ultimately show ?thesis using r(4) by (intro exI [of _ "max now due"]) auto
qed

interpretation v1: forwarding_switches N fuel B Q S dest ip dst "v1_ready N fuel B S dest holds bound ip dst"
  for N fuel B Q S dest ip dst holds bound
  by unfold_locales (rule v1_hop)

text \<open>A network may have switches of both kinds.\<close>

interpretation either: forwarding_switches N fuel B Q S dest ip dst
    "\<lambda>t dv q. pipeline_ready N B dest holds bound ip dst t dv q \<or> v1_ready N fuel B S dest holds bound ip dst t dv q"
  for N fuel B Q S dest ip dst holds bound
  by unfold_locales (elim disjE, (rule pl.hop_forwards v1.hop_forwards; assumption)+)

subsection \<open>The switches of the program\<close>

text \<open>
  The attributes that \<open>examples/p4-topo-fattree.cc\<close> gives the switches, and the loop that makes a switch of the ports of
  each switch node. A switch then initialises itself when the simulation starts.
\<close>

definition fattree_attributes ::
  "string \<Rightarrow> string \<Rightarrow> ('dev, 'addr, 'chan, 'w, 'p, 'q) switch_device \<Rightarrow> ('dev, 'addr, 'chan, 'w, 'p, 'q) switch_device" where
  "fattree_attributes p4JsonPath flowTablePath dv =
     dv\<lparr>nd_json_path := p4JsonPath, nd_channel_type := 0, nd_switch_arch := 0, nd_switch_rate := 2000, nd_flow_table_path := flowTablePath\<rparr>"

fun install_switches ::
  "('dev, 'addr, 'chan) ns3 \<Rightarrow> string \<Rightarrow> string \<Rightarrow> (nat \<Rightarrow> u32) \<Rightarrow> 'dev assembly \<Rightarrow> nat list \<Rightarrow>
   stop + ('dev, 'addr, 'chan, 'w, 'p, 'q) switch_device option list" where
  "install_switches N p4JsonPath flowTableDirPath index a [] = Inr []"
| "install_switches N p4JsonPath flowTableDirPath index a (i # is) =
     (case P4Install N (fattree_attributes p4JsonPath (flowTableDirPath @ ''flowtable_'' @ dec i)) (index i) (switchDevices (switchNodes a ! i)) of
        Inl e \<Rightarrow> Inl e
      | Inr dv \<Rightarrow> (case install_switches N p4JsonPath flowTableDirPath index a is of Inl e \<Rightarrow> Inl e | Inr dvs \<Rightarrow> Inr (dv # dvs)))"

lemma install_switches_nth:
  "install_switches N json dir index a is = Inr dvs \<Longrightarrow> k < length is \<Longrightarrow> length dvs = length is \<and>
   P4Install N (fattree_attributes json (dir @ ''flowtable_'' @ dec (is ! k))) (index (is ! k)) (switchDevices (switchNodes a ! (is ! k))) = Inr (dvs ! k)"
proof (induction "is" arbitrary: dvs k)
  case (Cons i "is")
  then obtain dv dvs' where "dvs = dv # dvs'" "install_switches N json dir index a is = Inr dvs'"
    "P4Install N (fattree_attributes json (dir @ ''flowtable_'' @ dec i)) (index i) (switchDevices (switchNodes a ! i)) = Inr dv"
    by (auto split: sum.splits)
  then show ?case using Cons by (cases k; cases "is") auto
qed simp

text \<open>What a device keeps while it gets its ports.\<close>

lemma add_bridge_ports_keeps:
  "add_bridge_ports N dv devs = (dv', Inr ()) \<Longrightarrow> nd_ports dv' = nd_ports dv @ devs \<and> nd_switch_arch dv' = nd_switch_arch dv \<and>
     nd_channel_type dv' = nd_channel_type dv \<and> nd_input_buffer_high dv' = nd_input_buffer_high dv \<and>
     nd_queue_buffer_size dv' = nd_queue_buffer_size dv \<and> nd_switch_rate dv' = nd_switch_rate dv \<and> nd_address dv' \<in> insert (nd_address dv) (dev_address N ` set devs)"
proof (induction devs arbitrary: dv)
  case (Cons d devs)
  obtain dv1 where a: "AddBridgePort N dv d = (dv1, Inr ())" "add_bridge_ports N dv1 devs = (dv', Inr ())"
    using Cons.prems by (auto split: prod.splits sum.splits)
  then have "nd_ports dv1 = nd_ports dv @ [d]" "nd_switch_arch dv1 = nd_switch_arch dv" "nd_channel_type dv1 = nd_channel_type dv"
    "nd_input_buffer_high dv1 = nd_input_buffer_high dv" "nd_queue_buffer_size dv1 = nd_queue_buffer_size dv" "nd_switch_rate dv1 = nd_switch_rate dv"
    "nd_address dv1 \<in> {nd_address dv, dev_address N d}"
    by (auto simp: AddBridgePort_def Let_def split: if_splits)
  then show ?case using Cons.IH [OF a(2)] by auto
qed simp

lemma add_bridge_ports_address:
  assumes "add_bridge_ports N dv devs = (dv', Inr ())" "devs \<noteq> []" "nd_address dv = mac_default N"
  shows "nd_address dv' \<in> dev_address N ` set devs"
proof -
  obtain d ds where devs: "devs = d # ds" using assms(2) by (cases devs) auto
  obtain dv1 where a: "AddBridgePort N dv d = (dv1, Inr ())" "add_bridge_ports N dv1 ds = (dv', Inr ())"
    using assms(1) unfolding devs by (auto split: prod.splits sum.splits)
  have "nd_address dv1 = dev_address N d" using a(1) assms(3) by (auto simp: AddBridgePort_def Let_def split: if_splits)
  then show ?thesis using add_bridge_ports_keeps [OF a(2)] unfolding devs by auto
qed

lemma installed_switch:
  assumes "P4Install N (fattree_attributes json path) index devs = Inr (Some dv)"
  shows "nd_ports dv = devs" "devs \<noteq> []" "nd_switch_arch dv = P4SWITCH_ARCH_V1MODEL" "nd_channel_type dv = P4CHANNELCSMA"
    "nd_input_buffer_high dv = 128" "nd_queue_buffer_size dv = 128" "nd_address dv \<in> dev_address N ` set devs" "nd_switch_rate dv = 2000"
proof -
  let ?dv = "SetIfIndex (fattree_attributes json path (P4SwitchNetDevice N)) index"
  have a: "add_bridge_ports N ?dv devs = (dv, Inr ())" and d: "devs \<noteq> []"
    using assms by (auto simp: P4Install_def split: if_splits prod.splits sum.splits)
  have i: "nd_ports ?dv = []" "nd_switch_arch ?dv = P4SWITCH_ARCH_V1MODEL" "nd_channel_type ?dv = P4CHANNELCSMA" "nd_input_buffer_high ?dv = 128"
    "nd_queue_buffer_size ?dv = 128" "nd_address ?dv = mac_default N" "nd_switch_rate ?dv = 2000"
    by (simp_all add: SetIfIndex_def fattree_attributes_def P4SwitchNetDevice_def P4SWITCH_ARCH_V1MODEL_def P4CHANNELCSMA_def)
  show "nd_ports dv = devs" "devs \<noteq> []" "nd_switch_arch dv = P4SWITCH_ARCH_V1MODEL" "nd_channel_type dv = P4CHANNELCSMA"
    "nd_input_buffer_high dv = 128" "nd_queue_buffer_size dv = 128" "nd_switch_rate dv = 2000"
    using add_bridge_ports_keeps [OF a] i d by simp_all
  show "nd_address dv \<in> dev_address N ` set devs" by (rule add_bridge_ports_address [OF a d i(6)])
qed

lemma initialised_core:
  fixes dv :: "('dev, 'addr, 'chan, 'w, 'p, 'q) switch_device"
  assumes "DoInitialize Q U dv st = ((dv', Inr ()), st')" "nd_switch_arch dv = P4SWITCH_ARCH_V1MODEL"
  obtains c0 :: "('addr, 'w, 'p) v1model" and st1 where
    "P4CoreV1model (su_sim U) (nd_enable_tracing dv) (nd_switch_rate dv) (nd_input_buffer_low dv)
      (nd_input_buffer_high dv) (nd_queue_buffer_size dv) SSWITCH_VIRTUAL_QUEUE_NUM_V1MODEL (su_packet_id U) (su_world U) st = ((c0, Inr ()), st1)"
    "dv' = dv\<lparr>nd_v1model := Some (start_and_return (su_field_exists U) (fst (load_program U (nd_json_path dv) (nd_flow_table_path dv) c0 st1)))\<rparr>"
proof -
  obtain c0 :: "('addr, 'w, 'p) v1model" and r st1 where p: "P4CoreV1model (su_sim U) (nd_enable_tracing dv) (nd_switch_rate dv) (nd_input_buffer_low dv)
      (nd_input_buffer_high dv) (nd_queue_buffer_size dv) SSWITCH_VIRTUAL_QUEUE_NUM_V1MODEL (su_packet_id U) (su_world U) st = ((c0, r), st1)"
    by (metis surj_pair)
  show thesis
    using assms that [of c0 st1] p by (cases r) (simp_all add: DoInitialize_def Let_def case_prod_beta)
qed

lemma new_core_members:
  assumes "P4CoreV1model S tr rate low high qsize nbq pid w st = ((c, Inr ()), st')"
  shows "egress_buffer c = (NSQueueingLogicPriRL nbEgressThreads qsize (EgressThreadMapper nbEgressThreads) nbq)\<lparr>queue_rate_pps := unat rate\<rparr>"
    "in_buffer c = InputBuffer low high" "nb_queues_per_port c = nbq" "destination_list c = []" "sent c = []" "drop_port c = SSWITCH_DROP_PORT"
  using assms by (auto simp: P4CoreV1model_def CalculateScheduleTime_def case_prod_beta Let_def
      switch_core.extend_def v1model.fields_def P4SwitchCore_def set_rate_for_all_new split: if_splits)

lemma started_core_members:
  "in_buffer (start_and_return fe c) = in_buffer c" "egress_buffer (start_and_return fe c) = egress_buffer c"
  "destination_list (start_and_return fe c) = destination_list c" "address_map (start_and_return fe c) = address_map c"
  "drop_port (start_and_return fe c) = drop_port c" "sent (start_and_return fe c) = sent c"
  "nb_queues_per_port (start_and_return fe c) = nb_queues_per_port c"
  by (simp_all add: start_and_return_def CheckQueueingMetadata_def schedule_def Let_def)

lemma loaded_core: "\<exists>w p. fst (load_program U json path c st) = c\<lparr>thrift_port := p, world := w\<rparr>"
proof -
  define c1 where "c1 = fst (InitializeSwitchFromP4Json (su_init U) c st json)"
  have c1: "c1 = c\<lparr>thrift_port := static_thrift_port st, world := world c1\<rparr>"
    unfolding c1_def InitializeSwitchFromP4Json_def Let_def case_prod_beta by (simp del: to_string.simps)
  have "fst (load_program U json path c st) = fst (ExecuteCliCommands (su_good U) (su_start_server U) (su_system U) (su_runtime_port U) c1 path)"
    by (simp add: load_program_def LoadFlowTableToSwitch_def case_prod_beta c1_def)
  moreover have "\<exists>w. fst (ExecuteCliCommands (su_good U) (su_start_server U) (su_system U) (su_runtime_port U) c1 path) = c1\<lparr>world := w\<rparr>"
    unfolding ExecuteCliCommands_def Let_def case_prod_beta by (cases "thrift_command c1 = []"; cases "su_good U path") (auto intro: exI [of _ "world c1"] simp del: to_string.simps)
  ultimately obtain w where "fst (load_program U json path c st) = c1\<lparr>world := w\<rparr>" by metis
  also have "\<dots> = c\<lparr>thrift_port := static_thrift_port st, world := w\<rparr>" by (subst c1) simp
  finally show ?thesis by blast
qed

text \<open>A switch that has initialised itself: its core is idle.\<close>

lemma initialised_idle:
  fixes dv :: "('dev, 'addr, 'chan, 'w, 'p, 'q) switch_device"
  assumes "DoInitialize Q U dv st = ((dv', Inr ()), st')" "nd_switch_arch dv = P4SWITCH_ARCH_V1MODEL"
    "0 < nd_input_buffer_high dv" "0 < nd_queue_buffer_size dv"
  shows "\<exists>c. nd_v1model dv' = Some c \<and> dv' = dv\<lparr>nd_v1model := Some c\<rparr> \<and> v1_idle B c"
proof -
  obtain c0 st1 where c0: "P4CoreV1model (su_sim U) (nd_enable_tracing dv) (nd_switch_rate dv) (nd_input_buffer_low dv)
      (nd_input_buffer_high dv) (nd_queue_buffer_size dv) SSWITCH_VIRTUAL_QUEUE_NUM_V1MODEL (su_packet_id U) (su_world U) st = ((c0, Inr ()), st1)"
    and dv': "dv' = dv\<lparr>nd_v1model := Some (start_and_return (su_field_exists U) (fst (load_program U (nd_json_path dv) (nd_flow_table_path dv) c0 st1)))\<rparr>"
    by (rule initialised_core [OF assms(1,2)])
  define c where "c = start_and_return (su_field_exists U) (fst (load_program U (nd_json_path dv) (nd_flow_table_path dv) c0 st1))"
  have ok0: "v1_ok {} B 0 c0" by (rule v1_ok_new [OF c0]) (simp add: SSWITCH_VIRTUAL_QUEUE_NUM_V1MODEL_def)
  obtain w p where l: "fst (load_program U (nd_json_path dv) (nd_flow_table_path dv) c0 st1) = c0\<lparr>thrift_port := p, world := w\<rparr>"
    using loaded_core [of U "nd_json_path dv" "nd_flow_table_path dv" c0 st1] by (elim exE)
  have same: "in_buffer c = in_buffer c0" "egress_buffer c = egress_buffer c0" "destination_list c = destination_list c0" "address_map c = address_map c0"
    "drop_port c = drop_port c0" "sent c = sent c0" "nb_queues_per_port c = nb_queues_per_port c0"
    unfolding c_def l started_core_members by simp_all
  note new = new_core_members [OF c0, unfolded SSWITCH_DROP_PORT_def SSWITCH_VIRTUAL_QUEUE_NUM_V1MODEL_def]
  have "v1_ok {} B 0 c" by (rule v1_ok_same [OF ok0]) (simp_all add: same)
  moreover have "egress_packets (egress_buffer c0) = {}"
    unfolding new(1) by (simp add: egress_packets_def eq_contents_def class_entries_def NSQueueingLogicPriRL_def EgressThreadMapper_def nbEgressThreads_def)
  moreover have "0 < qip_capacity (qi_pri (snd (get_queue S (egress_buffer c0) q)) ! 7)" for S q
    unfolding new(1) using assms(4) by (simp add: get_queue_def NSQueueingLogicPriRL_def Let_def new_QueueInfo_def new_QueueInfoPri_def)
  ultimately have "v1_idle B c"
    using assms(3) unfolding v1_idle_def same new(2-6) by (simp add: InputBuffer_def)
  then show ?thesis using dv' by (simp add: c_def)
qed

subsection \<open>Packets in the network of the program\<close>

text \<open>What the program put together.\<close>

lemma fattree_main_assembled:
  assumes "fattree_main install alloc rnd rnd' fs nodes podNum dir = Inr (Some (a, h, files))"
  shows "\<exists>r. assemble install alloc r = Inr a"
  using assms by (auto simp: fattree_main_def Let_def split: sum.splits option.splits if_splits)

text \<open>
  The switches of the network when each has initialised itself: switch \<open>s\<close> is in state \<open>nw s\<close>, and its core holds the
  first entries of its table, which the command file carries (\<open>routes_in_file\<close>).
\<close>

definition switches_started ::
  "('p, 'q) bmq \<Rightarrow> (nat \<Rightarrow> 'w startup) \<Rightarrow> ('w \<Rightarrow> (u32 \<Rightarrow> nat option) \<Rightarrow> bool) \<Rightarrow> flow_helper \<Rightarrow>
   ('dev, 'addr, 'chan, 'w, 'p, 'q) switch_device option list \<Rightarrow> (nat \<Rightarrow> ('dev, 'addr, 'chan, 'w, 'p, 'q) switch_device) \<Rightarrow> bool" where
  "switches_started Q U holds h dvs nw \<longleftrightarrow>
     (\<forall>s < length dvs. \<exists>dv st st'. dvs ! s = Some dv \<and> DoInitialize Q (U s) dv st = ((nw s, Inr ()), st') \<and>
        (\<forall>c. nd_v1model (nw s) = Some c \<longrightarrow> holds (world c) (\<lambda>ip. map_option (\<lambda>e. unat (outPort e)) (first_entry h s (Uint32IpToHex ip)))))"

lemma started_ready:
  assumes "install_switches N json dir index a [0..<n] = Inr dvs" "switches_started Q U holds h dvs nw" "s < n"
    and "first_entry h s (Uint32IpToHex ip) = Some e" "unat (outPort e) < 8"
    and "forwarding_program N (B s) dest holds bound" "v1_program (B s)"
    and "eth_laws N" "is_mac N dst" "dst \<notin> dev_address N ` set (switchDevices (switchNodes a ! s))" "seconds_nonneg S" "0 < fuel"
  shows "v1_ready N fuel B S dest holds bound ip dst s (nw s) (unat (outPort e))"
    "nd_ports (nw s) = switchDevices (switchNodes a ! s)"
proof -
  have n: "length dvs = n" "P4Install N (fattree_attributes json (dir @ ''flowtable_'' @ dec s)) (index s) (switchDevices (switchNodes a ! s)) = Inr (dvs ! s)"
    using install_switches_nth [OF assms(1), of s] assms(3) by simp_all
  obtain dv st st' where d: "dvs ! s = Some dv" "DoInitialize Q (U s) dv st = ((nw s, Inr ()), st')"
    "\<forall>c. nd_v1model (nw s) = Some c \<longrightarrow> holds (world c) (\<lambda>ip. map_option (\<lambda>e. unat (outPort e)) (first_entry h s (Uint32IpToHex ip)))"
    using assms(2,3) n(1) unfolding switches_started_def by blast
  note I = installed_switch [OF n(2) [unfolded d(1)]]
  obtain c where c: "nd_v1model (nw s) = Some c" "nw s = dv\<lparr>nd_v1model := Some c\<rparr>" "v1_idle (B s) c"
    using initialised_idle [OF d(2) I(3), of "B s"] I(5,6) by auto
  show "nd_ports (nw s) = switchDevices (switchNodes a ! s)" unfolding c(2) using I(1) by simp
  have "takes_frames N dst (nw s)" using assms(8-10) I(4,7) unfolding takes_frames_def c(2) by auto
  moreover have "nd_switch_arch (nw s) = P4SWITCH_ARCH_V1MODEL" unfolding c(2) using I(3) by simp
  ultimately show "v1_ready N fuel B S dest holds bound ip dst s (nw s) (unat (outPort e))"
    using assms(4-7,11,12) c(1,3) d(3) unfolding v1_ready_def by auto
qed

text \<open>The switches on a way have entries for ports they have.\<close>

lemma passes_entries:
  "passes h str d s ps \<Longrightarrow> t \<in> set ps \<Longrightarrow> t < length (m_switchNodes h) \<and> (\<exists>e. first_entry h t str = Some e \<and> unat (outPort e) < length (ports h t))"
  by (induction rule: passes.induct) auto

text \<open>The network and its tables.\<close>

lemma fattree_main_facts:
  assumes K: "0 < K" "K \<le> 700" "starts_vary K rnd" "hands_out alloc (2 * (K * K * K)) addr"
    and main: "fattree_main install alloc rnd rnd' fs nodes (of_nat (2 * K)) p4SrcDir = Inr (Some (a, h, files))"
  shows "length (m_switchNodes h) = 5 * (K * K)" "cabled install (6 * (K * K * K)) a" "length (switchNodes a) = 5 * (K * K)" "length (hostNodes a) = 2 * (K * K * K)"
    "s < 5 * (K * K) \<Longrightarrow> j < 2 * (K * K * K) \<Longrightarrow> \<exists>ps. passes h (Uint32IpToHex (addr j)) j s ps"
    "s < length (switchNodes a) \<Longrightarrow> ports h s = map meaning (infos a s)"
proof -
  obtain a' h' where T': "fattree_main install alloc rnd rnd' fs nodes (of_nat (2 * K)) p4SrcDir = Inr (Some (a', h', WriteFlowTables h' (p4SrcDir @ ''/'')))"
    "length (m_switchNodes h') = 5 * (K * K)" "same_net (assembled (of_nat (2 * K)) a') h'" "cabled install (6 * (K * K * K)) a'"
    "length (switchNodes a') = 5 * (K * K)" "length (hostNodes a') = 2 * (K * K * K)"
    "\<forall>s < 5 * (K * K). \<forall>d < 2 * (K * K * K). routes h' (Uint32IpToHex (addr d)) d s"
    using tree_program [OF K, of install rnd' fs nodes p4SrcDir] by blast
  have "a' = a" "h' = h" using T'(1) unfolding main by (simp_all only: sum.inject option.inject prod.inject)
  note T = T'(2-7) [unfolded this]
  show "length (m_switchNodes h) = 5 * (K * K)" "cabled install (6 * (K * K * K)) a" "length (switchNodes a) = 5 * (K * K)" "length (hostNodes a) = 2 * (K * K * K)"
    by (rule T)+
  show "s < 5 * (K * K) \<Longrightarrow> j < 2 * (K * K * K) \<Longrightarrow> \<exists>ps. passes h (Uint32IpToHex (addr j)) j s ps"
    using T(6) routes_passes by blast
  show "s < length (switchNodes a) \<Longrightarrow> ports h s = map meaning (infos a s)"
    using same_net_ports [OF T(2), of s] by (simp add: ports_def infos_def assembled_def)
qed

text \<open>C4. 
  In a small network of the fat-tree program, a frame for any host arrives there from any host. The conditions are:
  \<^item> At most eight ports at each switch (\<open>few\<close>), since packets for ports from 8 on are never dequeued: up to eight pods.
  \<^item> The starts that \<open>rand()\<close> gives the core switches take every value (\<open>starts_vary\<close>); otherwise the table builder divides by zero.
  \<^item> The address helper gives an address to each host, and no two the same (\<open>hands_out\<close>); each link has two new devices.
  \<^item> The program installs the v1model switches on the ports, and each initialises itself and has the first entries of its
    flow table, which its command file carries, in its tables (\<open>switches_started\<close>).
  \<^item> The P4 program is any that forwards by its table (\<open>forwarding_program\<close>) and asks for no clone, learning, resubmission or
    recirculation (\<open>v1_program\<close>), and the frame is addressed to a MAC address that no port of a switch has.

  A frame that the device \<open>d\<close> linked to a host's device \<open>d0\<close> receives then passes through switches that each take the
  frame in, process it, queue it and, with the next egress timer late enough, send it once, on one port and without an error; it
  gets to host \<open>j\<close> and to no other device than those on the way, still bound for the address of \<open>j\<close>, whatever its protocol, payload
  and source are and however long it takes on the links.\<close>

theorem fattree_packets_arrive:
  assumes K: "0 < K" "K \<le> 700" "starts_vary K rnd" "hands_out alloc (2 * (K * K * K)) addr"
    and new: "new_devices install e0 e1"
    and main: "fattree_main install alloc rnd rnd' fs nodes (of_nat (2 * K)) p4SrcDir = Inr (Some (a, h, files))"
    and few: "\<forall>s < length (switchNodes a). length (switchDevices (switchNodes a ! s)) \<le> 8"
    and sw: "install_switches N json (p4SrcDir @ ''/'') index a [0..<length (switchNodes a)] = Inr dvs"
    and st: "switches_started Q U holds h dvs nw"
    and prog: "\<forall>s. forwarding_program N (B s) dest holds bound \<and> v1_program (B s)"
    and N: "eth_laws N" "\<forall>d s. on_switch a d s \<longrightarrow> is_mac N (dev_address N d) \<and> dst \<noteq> dev_address N d" "is_mac N dst"
    and S: "seconds_nonneg S" "0 < fuel"
    and start: "on_host a d0 i" "one_link install d0 d" "dest protocol packet = Some (addr j)" "j < 2 * (K * K * K)" "is_mac N src"
  shows "arrives N fuel B Q S install a dest (addr j) dst j nw now d packet protocol src"
proof -
  obtain r where r: "assemble install alloc r = Inr a" using fattree_main_assembled [OF main] by blast
  note P = assemble_places [OF new r]
  note T = fattree_main_facts [OF K main]
  obtain s d' where s: "on_switch a d' s" "one_link install d0 d'"
    using P(2) start(1) unfolding hosts_linked_def on_host_def on_switch_def by blast
  have d: "d' = d" by (rule one_link_unique [OF new s(2) start(2)])
  have sl: "s < 5 * (K * K)" using s(1) T(3) by (simp add: on_switch_def)
  obtain ps where ps: "passes h (Uint32IpToHex (addr j)) j s ps" using T(5) [OF sl start(4)] by blast
  have rd: "t < length (switchNodes a) \<and> v1_ready N fuel B S dest holds bound (addr j) dst t (nw t) (unat (outPort e)) \<and>
      nd_ports (nw t) = switchDevices (switchNodes a ! t)"
    if "t \<in> set ps" "first_entry h t (Uint32IpToHex (addr j)) = Some e" for t e
  proof -
    have t: "t < length (switchNodes a)" "unat (outPort e) < length (ports h t)" using passes_entries [OF ps that(1)] that(2) T(1,3) by auto
    then have "unat (outPort e) < 8" using T(6) [OF t(1)] few T(2) unfolding cabled_def by (metis length_map less_le_trans)
    moreover have "dst \<notin> dev_address N ` set (switchDevices (switchNodes a ! t))" using N(2) t(1) unfolding on_switch_def by blast
    ultimately show ?thesis using started_ready [OF sw st t(1) that(2)] prog N(1,3) S t(1) by blast
  qed
  show ?thesis
  proof (rule v1.passes_arrives [OF T(2) _ _ _ _ ps])
    show "j < 2 ^ 32" using start(4) cube_bound [OF K(2)] by simp
    show "\<forall>s < length (switchNodes a). ports h s = map meaning (infos a s)" using T(6) by blast
    show "length (m_switchNodes h) = length (switchNodes a)" using T(1,3) by simp
    show "\<forall>d s. on_switch a d s \<longrightarrow> is_mac N (dev_address N d)" using N(2) by blast
    show "\<forall>t \<in> set ps. nd_ports (nw t) = switchDevices (switchNodes a ! t)" using rd passes_entries [OF ps] by blast
    show "\<forall>t \<in> set ps. \<forall>e. first_entry h t (Uint32IpToHex (addr j)) = Some e \<longrightarrow>
      v1_ready N fuel B S dest holds bound (addr j) dst t (nw t) (unat (outPort e))" using rd by blast
    show "distinct ps" by (rule passes_distinct [OF ps])
    show "on_switch a d s" using s(1) d by simp
    show "dest protocol packet = Some (addr j)" "is_mac N src" by (rule start)+
  qed
qed

subsection \<open>The switches can be set up\<close>

lemma initialise_v1:
  fixes dv :: "('dev, 'addr, 'chan, 'w, 'p, 'q) switch_device"
  assumes "nd_switch_arch dv = P4SWITCH_ARCH_V1MODEL" "nd_switch_rate dv \<noteq> 0" "\<And>p. su_good U p"
  shows "\<exists>dv' st' c cmd w. DoInitialize Q U dv st = ((dv', Inr ()), st') \<and> nd_v1model dv' = Some c \<and> world c = snd (su_system U cmd w)"
proof -
  obtain c0 :: "('addr, 'w, 'p) v1model" and st1 where
    c0: "P4CoreV1model (su_sim U) (nd_enable_tracing dv) (nd_switch_rate dv) (nd_input_buffer_low dv) (nd_input_buffer_high dv)
      (nd_queue_buffer_size dv) SSWITCH_VIRTUAL_QUEUE_NUM_V1MODEL (su_packet_id U) (su_world U) st = ((c0, Inr ()), st1)"
    and t: "thrift_command c0 \<noteq> []"
    using assms(2) by (simp add: P4CoreV1model_def CalculateScheduleTime_def case_prod_beta Let_def switch_core.extend_def v1model.fields_def P4SwitchCore_def)
  obtain c st2 where l: "load_program U (nd_json_path dv) (nd_flow_table_path dv) c0 st1 = (c, st2)" by fastforce
  have "\<exists>cmd w. world c = snd (su_system U cmd w)"
    using l t assms(3) unfolding load_program_def InitializeSwitchFromP4Json_def LoadFlowTableToSwitch_def ExecuteCliCommands_def Let_def case_prod_beta
    by (simp del: to_string.simps) (elim conjE, hypsubst, simp del: to_string.simps, intro exI, rule refl)
  moreover have "world (start_and_return fe c) = world c" for fe by (simp add: start_and_return_def CheckQueueingMetadata_def schedule_def Let_def)
  ultimately show ?thesis using assms(1) c0 l by (simp add: DoInitialize_def)
qed

lemma install_switches_ok:
  assumes "\<forall>i \<in> set is. switchDevices (switchNodes a ! i) \<noteq> []" "\<forall>d. is_mac N (dev_address N d) \<and> dev_supports_send_from N d"
  shows "\<exists>dvs :: ('dev, 'addr, 'chan, 'w, 'p, 'q) switch_device list. install_switches N json dir index a is = Inr (map Some dvs)"
  using assms(1)
proof (induction "is")
  case (Cons i "is")
  obtain dvs :: "('dev, 'addr, 'chan, 'w, 'p, 'q) switch_device list" where d: "install_switches N json dir index a is = Inr (map Some dvs)" using Cons by auto
  obtain dv :: "('dev, 'addr, 'chan, 'w, 'p, 'q) switch_device" where "P4Install N (fattree_attributes json (dir @ ''flowtable_'' @ dec i)) (index i) (switchDevices (switchNodes a ! i)) = Inr (Some dv)"
    using P4Install_ports [of "switchDevices (switchNodes a ! i)" N "fattree_attributes json (dir @ ''flowtable_'' @ dec i)" "index i"] Cons.prems assms(2)
    by (auto simp: fattree_attributes_def P4SwitchNetDevice_def)
  then show ?case using d by (intro exI [of _ "dv # dvs"]) simp
qed (auto intro: exI [of _ "[]"])

text \<open>With a runtime that puts the entries of its command file into the switch, the switches start.\<close>

definition table_of :: "flow_helper \<Rightarrow> nat \<Rightarrow> u32 \<Rightarrow> nat option" where
  "table_of h s ip = map_option (\<lambda>e. unat (outPort e)) (first_entry h s (Uint32IpToHex ip))"

lemma switches_can_start:
  assumes "install_switches N json dir index a [0..<n] = Inr (map Some dvs)"
    and "\<And>s p. su_good (U s) p" "\<And>s cmd w. holds (snd (su_system (U s) cmd w)) (table_of h s)"
  shows "\<exists>nw. switches_started Q U holds h (map Some dvs) nw"
proof -
  have n: "length dvs = n" using install_switches_nth [OF assms(1), of 0] assms(1) by (cases n) auto
  have "\<exists>x st'. DoInitialize Q (U s) (dvs ! s) initial_statics = ((x, Inr ()), st') \<and> (\<forall>c. nd_v1model x = Some c \<longrightarrow> holds (world c) (table_of h s))"
    if "s < n" for s
  proof -
    have "P4Install N (fattree_attributes json (dir @ ''flowtable_'' @ dec s)) (index s) (switchDevices (switchNodes a ! s)) = Inr (Some (dvs ! s))"
      using install_switches_nth [OF assms(1), of s] that n by simp
    note I = installed_switch [OF this]
    have rate: "nd_switch_rate (dvs ! s) \<noteq> 0" using I(8) by simp
    obtain x st' c cmd w where "DoInitialize Q (U s) (dvs ! s) initial_statics = ((x, Inr ()), st')" "nd_v1model x = Some c" "world c = snd (su_system (U s) cmd w)"
      using initialise_v1 [OF I(3) rate assms(2), of Q s initial_statics] by blast
    then show ?thesis using assms(3) by auto
  qed
  then obtain nw where "\<forall>s < n. \<exists>st'. DoInitialize Q (U s) (dvs ! s) initial_statics = ((nw s, Inr ()), st') \<and>
      (\<forall>c. nd_v1model (nw s) = Some c \<longrightarrow> holds (world c) (table_of h s))" by metis
  then show ?thesis unfolding switches_started_def using n
    by (intro exI [of _ nw]) (simp add: table_of_def [abs_def], blast)
qed

subsection \<open>An example program\<close>

text \<open>Packets of \<open>Bm_Example\<close>, and a program whose ingress sends a packet on the port that its table has for the destination address.\<close>

definition ex_address :: "u16 \<Rightarrow> u8 list \<Rightarrow> u32 option" where
  "ex_address protocol packet =
     (if protocol = 0x0800 \<and> 20 \<le> length packet then Some (foldl (\<lambda>a b. a * 256 + ucast b) 0 (take 4 (drop 16 packet))) else None)"

definition csma_net :: "(nat, nat, nat) ns3" where
  "csma_net = Device_Properties.ex_net\<lparr>is_mac := (\<lambda>_. True)\<rparr>"

text \<open>Every number is an address here.\<close>

lemma csma_net_addresses: "is_mac csma_net x" "dev_supports_send_from csma_net d" "dev_address csma_net d = d + 100"
  by (simp_all add: csma_net_def ex_net_def)

definition ex_frame_address :: "u8 list \<Rightarrow> u32 option" where
  "ex_frame_address x = (case eth_peek csma_net x of None \<Rightarrow> None | Some t \<Rightarrow> ex_address t (eth_remove csma_net x))"

definition look_up :: "string \<Rightarrow> (u32 \<Rightarrow> nat option) \<Rightarrow> expkt \<Rightarrow> expkt" where
  "look_up name tb p =
     (if name = ''ingress''
      then (case Option.bind (ex_frame_address (ex_data p)) tb of
              None \<Rightarrow> p | Some q \<Rightarrow> p\<lparr>ex_fields := (ex_fields p)(''standard_metadata.egress_spec'' := q)\<rparr>)
      else p)"

definition table_bm :: "(expkt, u8 list, u32 \<Rightarrow> nat option) bm" where
  "table_bm =
     \<lparr>bm_get_register = ex_regs, bm_set_register = (\<lambda>p i v. p\<lparr>ex_regs := (ex_regs p)(i := v)\<rparr>),
      bm_has_field = (\<lambda>p f. f \<in> set v1_fields), bm_get_field = ex_fields,
      bm_set_field = (\<lambda>p f v. if f \<in> set v1_fields then p\<lparr>ex_fields := (ex_fields p)(f := v)\<rparr> else p),
      bm_reset_metadata = (\<lambda>p. p), bm_reset_phv = (\<lambda>p. p), bm_reset_header_stacks = (\<lambda>p. p),
      bm_reset_exit = (\<lambda>p. p), bm_error_code = (\<lambda>p. 0), bm_checksum_error = (\<lambda>p. False),
      bm_get_ingress_port = ex_in, bm_set_ingress_port = (\<lambda>p v. p\<lparr>ex_in := v\<rparr>),
      bm_get_egress_port = ex_out, bm_set_egress_port = (\<lambda>p v. p\<lparr>ex_out := v\<rparr>),
      bm_set_ingress_length = (\<lambda>p v. p), bm_data = ex_data,
      bm_save_buffer_state = ex_data, bm_restore_buffer_state = (\<lambda>p b. p\<lparr>ex_data := b\<rparr>),
      bm_clone_no_phv = (\<lambda>p. p), bm_clone_with_phv = (\<lambda>p. p), bm_clone_with_phv_reset_metadata = (\<lambda>p. p),
      bm_new_packet = (\<lambda>port pid d. \<lparr>ex_regs = (\<lambda>_. 0), ex_fields = (\<lambda>_. 0), ex_in = port, ex_out = 0, ex_data = d\<rparr>),
      bm_copy_fields = (\<lambda>l src dst. dst),
      bm_parse = (\<lambda>n w p. (w, p)), bm_apply = (\<lambda>n w p. (w, look_up n w p)), bm_deparse = (\<lambda>n w p. (w, p)),
      bm_learn = (\<lambda>l p w. w), bm_replicate = (\<lambda>w g. []), bm_reset_pre = (\<lambda>w. w)\<rparr>"

lemma look_up_same [simp]: "ex_regs (look_up n w p) = ex_regs p" "ex_data (look_up n w p) = ex_data p" "look_up ''egress'' w p = p"
  by (simp_all add: look_up_def split: option.split)

lemma table_bm_frame: "program_frame table_bm" "field_frame table_bm" "field_zero table_bm" "declares table_bm" "egress_passes table_bm 511"
proof -
  show "program_frame table_bm"
    by (simp add: program_frame_def register_laws_def register_frame_def keeps_ns_def ns_tag_def get_ns_address_def get_ns_protocol_def)
      (simp add: table_bm_def)
  show "field_frame table_bm" "field_zero table_bm" by (auto simp: field_frame_def field_zero_def table_bm_def)
  show "declares table_bm" by (simp add: declares_def table_bm_def v1_fields_def)
  show "egress_passes table_bm 511" by (simp add: egress_passes_def flags_clear_def table_bm_def)
qed

lemma table_bm_v1: "v1_program table_bm"
  unfolding v1_program_def using table_bm_frame by (simp add: table_bm_def)

definition ex_bound :: "expkt \<Rightarrow> u32 \<Rightarrow> bool" where
  "ex_bound p ip \<longleftrightarrow> (\<exists>d s t x. ex_data p = eth_add csma_net d s t x \<and> ex_address t x = Some ip)"

lemma csma_net_laws: "eth_laws csma_net"
  using ex_net_laws by (simp add: csma_net_def eth_laws_def)

lemma ex_bound_address: "ex_bound p ip \<Longrightarrow> ex_frame_address (ex_data p) = Some ip"
  using csma_net_laws by (auto simp: ex_bound_def ex_frame_address_def eth_laws_def)

lemma table_bm_forwards: "forwarding_program csma_net table_bm ex_address (=) ex_bound"
proof -
  have same: "ex_bound p ip \<Longrightarrow> ex_data p' = ex_data p \<Longrightarrow> ex_bound p' ip" for p p' ip by (simp add: ex_bound_def)
  have spec: "''standard_metadata.egress_spec'' \<in> set v1_fields" "''intrinsic_metadata.mcast_grp'' \<notin> set v1_fields" "''intrinsic_metadata.priority'' \<notin> set v1_fields"
    by (simp_all add: v1_fields_def)
  have ing: "ex_bound p ip \<Longrightarrow> rt ip = Some q \<Longrightarrow> ex_fields (look_up ''ingress'' rt p) ''standard_metadata.egress_spec'' = q" for p ip rt q
    using ex_bound_address [of p ip] by (simp add: look_up_def)
  have keep: "core_keeps table_bm (\<lambda>p. ex_bound p ip)" for ip
    unfolding core_keeps_def by (auto simp: table_bm_def elim: same)
  show ?thesis unfolding forwarding_program_def
  proof (intro conjI)
    show "\<forall>port pid d s t x ip. ex_address t x = Some ip \<longrightarrow> ex_bound (bm_new_packet table_bm port pid (eth_add csma_net d s t x)) ip"
      by (auto simp: table_bm_def ex_bound_def)
    show "\<forall>w rt p ip. w = rt \<longrightarrow> ex_bound p ip \<longrightarrow> fst (bm_parse table_bm ''parser'' w p) = rt \<and> ex_bound (snd (bm_parse table_bm ''parser'' w p)) ip"
      by (simp add: table_bm_def)
    show "\<forall>w rt p ip q. w = rt \<longrightarrow> ex_bound p ip \<longrightarrow> rt ip = Some q \<longrightarrow>
        (let p' = bm_reset_exit table_bm (snd (bm_apply table_bm ''ingress'' w p))
         in ex_bound p' ip \<and> get_uint table_bm p' ''standard_metadata.egress_spec'' = of_nat q \<and>
           (bm_has_field table_bm p' ''intrinsic_metadata.mcast_grp'' \<longrightarrow> bm_get_field table_bm p' ''intrinsic_metadata.mcast_grp'' = 0) \<and>
           (bm_has_field table_bm p' ''intrinsic_metadata.priority'' \<longrightarrow> bm_get_field table_bm p' ''intrinsic_metadata.priority'' = 0))"
      by (auto simp: table_bm_def Let_def spec ing elim: same)
    show "\<forall>ip. egress_keeps table_bm (\<lambda>p. ex_bound p ip) (\<lambda>p. \<exists>d s t x. bm_data table_bm p = eth_add csma_net d s t x \<and> ex_address t x = Some ip)"
      unfolding egress_keeps_def using keep by (auto simp: table_bm_def) (auto simp: ex_bound_def)
  qed
qed

text \<open>A host has a device, linked to a switch.\<close>

lemma host_has_device:
  assumes C: "cabled install b a" and P: "passes h str j s ps" "j < 2 ^ 32" "length (m_switchNodes h) = length (switchNodes a)"
    "\<And>s. s < length (switchNodes a) \<Longrightarrow> ports h s = map meaning (infos a s)"
  shows "\<exists>d0 d. on_host a d0 j \<and> one_link install d0 d"
  using P(1)
proof (induction rule: passes.induct)
  case (last s e)
  let ?p = "unat (outPort e)"
  have s: "s < length (switchNodes a)" "?p < length (infos a s)" using last P(3,4) by simp_all
  then have "port_true install a s ?p" using C by (simp add: cabled_def)
  moreover have "flag (meaning (infos a s ! ?p)) = 0" "nodeIndex (meaning (infos a s ! ?p)) = of_nat j" using last P(3,4) s by simp_all
  moreover have "unat (of_nat j :: u32) = j" by (rule unat_u32) (use P(2) in simp)
  ultimately show ?case using one_link_sym unfolding port_true_def on_host_def Let_def by fastforce
qed blast

text \<open>Two pods of one switch per level: 5 switches and 2 hosts. The packet goes from host 0, 10.1.0.1, to host 1, 10.1.0.2.\<close>

definition ex_runtime :: "flow_helper \<Rightarrow> nat \<Rightarrow> (u32 \<Rightarrow> nat option) startup" where
  "ex_runtime h s =
     \<lparr>su_sim = example_sim 0, su_init = (\<lambda>opts w. (0, w)), su_good = (\<lambda>_. True), su_start_server = (\<lambda>p w. w),
      su_system = (\<lambda>c w. (0, table_of h s)), su_runtime_port = 9090, su_field_exists = (\<lambda>_. True), su_packet_id = 0, su_world = Map.empty\<rparr>"

theorem fattree_packets_arrive_witness:
  "\<exists>(a :: nat assembly) h files dvs (nw :: nat \<Rightarrow> (nat, nat, nat, u32 \<Rightarrow> nat option, expkt, expkt list \<times> nat) switch_device) d0 d d1.
    fattree_main (\<lambda>k rate del from to. (2 * k, 2 * k + 1)) ex_alloc of_nat (\<lambda>i. 7) Map.empty 0 2 ''fat-tree'' = Inr (Some (a, h, files)) \<and>
    install_switches csma_net ''p4.json'' ''fat-tree/'' of_nat a [0..<5] = Inr dvs \<and> switches_started list_queue (ex_runtime h) (=) h dvs nw \<and>
    on_host a d0 0 \<and> on_host a d1 1 \<and> one_link (\<lambda>k rate del from to. (2 * k, 2 * k + 1)) d0 d \<and>
    arrives csma_net 1 (\<lambda>_. table_bm) list_queue (example_sim 0) (\<lambda>k rate del from to. (2 * k, 2 * k + 1)) a ex_address 0x0A010002 (d1 + 100) 1
      nw 0 d (replicate 16 0 @ [10, 1, 0, 2]) 0x0800 98"
proof -
  let ?in = "\<lambda>k (rate :: string) (del :: string) (from :: nat option) (to :: nat option). (2 * k, 2 * k + 1 :: nat)" and ?addr = "\<lambda>i. 0x0A010001 + of_nat i :: u32"
  have K: "0 < (1 :: nat)" "1 \<le> (700 :: nat)" by simp_all
  have v: "starts_vary 1 of_nat" by (auto simp: starts_vary_def)
  have i: "hands_out ex_alloc (2 * (1 * 1 * 1)) ?addr" by (rule ns3_pool_hands_out [OF ex_alloc_pool]) simp
  have new: "new_devices ?in (\<lambda>k. 2 * k) (\<lambda>k. 2 * k + 1)" unfolding new_devices_def inj_def by presburger
  obtain a :: "nat assembly" and h files where main: "fattree_main ?in ex_alloc of_nat (\<lambda>i. 7) Map.empty 0 (of_nat (2 * 1)) ''fat-tree'' = Inr (Some (a, h, files))"
    using tree_program [OF K v i, of ?in "\<lambda>i. 7" Map.empty 0 "''fat-tree''"] by blast
  note T = fattree_main_facts [OF K v i main]
  have n: "length (switchNodes a) = 5" "2 * (1 * 1 * 1) = (2 :: nat)" "5 * (1 * 1) = (5 :: nat)" using T(3) by simp_all
  have dev: "length (switchDevices (switchNodes a ! s)) = length (infos a s)" "length (infos a s) \<le> 6" if "s < length (switchNodes a)" for s
    using T(2) that unfolding cabled_def by auto
  have few: "\<forall>s < length (switchNodes a). length (switchDevices (switchNodes a ! s)) \<le> 8" using dev by fastforce
  obtain ps where ps: "passes h (Uint32IpToHex (?addr 0)) 0 0 ps" using T(5) [of 0 0] by auto
  have small: "(0 :: nat) < 2 ^ 32" "length (m_switchNodes h) = length (switchNodes a)" using T(1,3) by simp_all
  obtain ps' where ps': "passes h (Uint32IpToHex (?addr 1)) 1 0 ps'" using T(5) [of 0 1] by auto
  have one: "(1 :: nat) < 2 ^ 32" by simp
  obtain d1 d' where d1: "on_host a d1 1" using host_has_device [OF T(2) ps' one small(2) T(6)] by blast
  obtain d0 d where d: "on_host a d0 0" "one_link ?in d0 d" using host_has_device [OF T(2) ps small T(6)] by blast
  have "switchDevices (switchNodes a ! s) \<noteq> []" if s: "s < 5" for s
  proof -
    obtain ps where "passes h (Uint32IpToHex (?addr 0)) 0 s ps" using T(5) [of s 0] s by auto
    then have "ports h s \<noteq> []" by (auto elim: passes_cases)
    then show ?thesis using T(6) [of s] dev(1) [of s] s n(1) by auto
  qed
  then obtain ds :: "(nat, nat, nat, u32 \<Rightarrow> nat option, expkt, expkt list \<times> nat) switch_device list"
    where ds: "install_switches csma_net ''p4.json'' (''fat-tree'' @ ''/'') of_nat a [0..<length (switchNodes a)] = Inr (map Some ds)"
    using install_switches_ok [of "[0..<length (switchNodes a)]" a csma_net "''p4.json''" "''fat-tree'' @ ''/''" of_nat] n(1)
    by (auto simp: csma_net_addresses)
  obtain nw where nw: "switches_started list_queue (ex_runtime h) (=) h (map Some ds) nw"
    using switches_can_start [OF ds, where Q = list_queue and U = "ex_runtime h" and holds = "(=)" and h = h] by (auto simp: ex_runtime_def)
  have laws: "\<forall>s :: nat. forwarding_program csma_net table_bm ex_address (=) ex_bound \<and> v1_program table_bm"
    "is_mac csma_net (d1 + 100)"
    "seconds_nonneg (example_sim 0)" "0 < (1 :: nat)" "is_mac csma_net 98"
    "ex_address 0x0800 (replicate 16 0 @ [10, 1, 0, 2]) = Some (?addr 1)" "1 < 2 * (1 * 1 * 1 :: nat)"
    using table_bm_forwards table_bm_v1 by (simp_all add: csma_net_addresses ex_address_def)
  have macs: "\<forall>d s. on_switch a d s \<longrightarrow> is_mac csma_net (dev_address csma_net d) \<and> d1 + 100 \<noteq> dev_address csma_net d"
    using apart_places(3) [OF assemble_places(1) [OF new]] fattree_main_assembled [OF main] d1 by (auto simp: csma_net_addresses)
  have "arrives csma_net 1 (\<lambda>_. table_bm) list_queue (example_sim 0) ?in a ex_address (?addr 1) (d1 + 100) 1 nw 0 d (replicate 16 0 @ [10, 1, 0, 2]) 0x0800 98"
    by (rule fattree_packets_arrive [OF K v i new main few ds nw laws(1) csma_net_laws macs laws(2-4) d laws(6,7,5)])
  moreover have "?addr 1 = 0x0A010002" "of_nat (2 * 1) = (2 :: u32)" by simp_all
  ultimately have "arrives csma_net 1 (\<lambda>_. table_bm) list_queue (example_sim 0) ?in a ex_address 0x0A010002 (d1 + 100) 1 nw 0 d (replicate 16 0 @ [10, 1, 0, 2]) 0x0800 98"
    "fattree_main ?in ex_alloc of_nat (\<lambda>i. 7) Map.empty 0 2 ''fat-tree'' = Inr (Some (a, h, files))" using main by (simp_all only:)
  moreover have "install_switches csma_net ''p4.json'' ''fat-tree/'' of_nat a [0..<5] = Inr (map Some ds)" using ds n(1) by simp
  ultimately show ?thesis using nw d d1 by blast
qed

end
