(* ===== verification/Source_Routing.thy ===== *)
theory Source_Routing
  imports Network_Assembly
begin

text \<open>
  Source routing (\<open>examples/p4-source-routing.cc\<close>): a host puts the ports that a packet is to take in front
  of it, and the program of the switches (\<open>examples/p4src/source_routing/source_routing.p4\<close>) takes
  one port off at each switch. A frame is its EtherType and the bytes after the Ethernet header. The
  serialized UDP and IPv4 headers are parameters. A packet that the parser of the program rejects is not
  followed further.
\<close>

subsection \<open>The header\<close>

record Hop =
  hop_port :: u16
  hop_bos :: bool

record SrcRouteHeader =
  hops :: "Hop list"

definition new_SrcRouteHeader :: SrcRouteHeader where
  "new_SrcRouteHeader = \<lparr>hops = []\<rparr>"

definition AddHop :: "SrcRouteHeader \<Rightarrow> u16 \<Rightarrow> bool \<Rightarrow> SrcRouteHeader" where
  "AddHop sr p bos = sr\<lparr>hops := hops sr @ [\<lparr>hop_port = p, hop_bos = bos\<rparr>]\<rparr>"

definition SrGetSerializedSize :: "SrcRouteHeader \<Rightarrow> u32" where
  "SrGetSerializedSize sr = of_nat (length (hops sr) * 2)"

text \<open>\<open>(h.bos<<15) | (h.port & 0x7FFF)\<close>, computed as an \<open>int\<close> and cut to 16 bits, and \<open>WriteHtonU16\<close>.\<close>

definition hop_value :: "Hop \<Rightarrow> u16" where
  "hop_value h = push_bit 15 (if hop_bos h then 1 else 0) OR (hop_port h AND 0x7FFF)"

definition WriteHtonU16 :: "u16 \<Rightarrow> u8 list" where
  "WriteHtonU16 v = [ucast (drop_bit 8 v), ucast v]"

definition SrSerialize :: "SrcRouteHeader \<Rightarrow> u8 list" where
  "SrSerialize sr = concat (map (\<lambda>h. WriteHtonU16 (hop_value h)) (hops sr))"

text \<open>The header cannot be read back: its \<open>Deserialize\<close> consumes nothing.\<close>

definition SrDeserialize :: "SrcRouteHeader \<Rightarrow> u8 list \<Rightarrow> SrcRouteHeader \<times> u32" where
  "SrDeserialize sr bytes = (sr, 0)"

subsection \<open>The application\<close>

text \<open>
  The serialized headers as a function of the fields that are set, and the size of a UDP header. UDP: source and
  destination port, the addresses and the protocol of the checksum, and the payload. IPv4: source, destination,
  protocol, time to live and payload size, with the checksum.
\<close>

record sr_env =
  udp_bytes :: "u16 \<Rightarrow> u16 \<Rightarrow> u32 \<Rightarrow> u32 \<Rightarrow> u8 \<Rightarrow> u8 list \<Rightarrow> u8 list"
  udp_size :: u32
  ipv4_bytes :: "u32 \<Rightarrow> u32 \<Rightarrow> u8 \<Rightarrow> u8 \<Rightarrow> u16 \<Rightarrow> u8 list"

text \<open>\<open>m_socket\<close> is whether there is a socket, \<open>m_event\<close> the time of the pending event, and \<open>sr_sent\<close> what
  was handed to the socket, with the times.\<close>

record SourceRoutingApp =
  sr_socket :: bool
  sr_event :: "time option"
  sr_dst :: u32
  sr_port :: u16
  sr_pktSize :: u32
  sr_dataRate :: u64
  sr_pathPorts :: "u16 list"
  sr_sent :: "(time \<times> u8 list) list"

definition Setup :: "SourceRoutingApp \<Rightarrow> u32 \<Rightarrow> u16 \<Rightarrow> u32 \<Rightarrow> u64 \<Rightarrow> u16 list \<Rightarrow> SourceRoutingApp" where
  "Setup a dst p pktSize rate pathPorts =
     a\<lparr>sr_dst := dst, sr_port := p, sr_pktSize := pktSize, sr_dataRate := rate, sr_pathPorts := pathPorts\<rparr>"

text \<open>The loop over the ports: the last one has the bottom-of-stack bit.\<close>

definition route_header :: "u16 list \<Rightarrow> SrcRouteHeader" where
  "route_header pathPorts =
     fold (\<lambda>i sr. AddHop sr (pathPorts ! i) (i = length pathPorts - 1)) [0..<length pathPorts] new_SrcRouteHeader"

definition sr_packet :: "sr_env \<Rightarrow> u32 \<Rightarrow> SourceRoutingApp \<Rightarrow> u8 list" where
  "sr_packet E src_addr a =
     (let pkt = replicate (unat (sr_pktSize a)) 0;
          pkt = udp_bytes E 1234 (sr_port a) src_addr (sr_dst a) 17 pkt @ pkt;
          pkt = ipv4_bytes E src_addr (sr_dst a) 17 64 (ucast (sr_pktSize a + udp_size E)) @ pkt
      in SrSerialize (route_header (sr_pathPorts a)) @ pkt)"

text \<open>The time to the next packet is the quotient of two real numbers; a rate of 0 makes it infinite, which is no \<open>Time\<close>.\<close>

definition SrSendPacket :: "sim \<Rightarrow> sr_env \<Rightarrow> u32 \<Rightarrow> SourceRoutingApp \<Rightarrow> stop + SourceRoutingApp" where
  "SrSendPacket sim E src_addr a =
     (if \<not> sr_socket a then Inr a
      else
        (let a = a\<lparr>sr_sent := sr_sent a @ [(sim_now sim, sr_packet E src_addr a)]\<rparr>
         in if sr_dataRate a = 0 then Inl Undefined
            else
              (let next_time = sim_seconds sim (of_nat (unat (sr_pktSize a)) * 8 / of_nat (unat (sr_dataRate a)))
               in Inr (if 0 < next_time then a\<lparr>sr_event := Some (sim_now sim + next_time)\<rparr> else a))))"

text \<open>\<open>devices\<close> tells of each device of the node whether it is the loopback device; the first other one is used.\<close>

definition StartApplication :: "bool list \<Rightarrow> sim \<Rightarrow> sr_env \<Rightarrow> u32 \<Rightarrow> SourceRoutingApp \<Rightarrow> stop + SourceRoutingApp" where
  "StartApplication devices sim E src_addr a =
     (if \<forall>loopback \<in> set devices. loopback then Inl AssertFailure
      else SrSendPacket sim E src_addr (a\<lparr>sr_socket := True\<rparr>))"

definition StopApplication :: "SourceRoutingApp \<Rightarrow> SourceRoutingApp" where
  "StopApplication a = a\<lparr>sr_event := None, sr_socket := False\<rparr>"

text \<open>The simulator runs the pending event at its time.\<close>

definition sr_fire :: "sim \<Rightarrow> sr_env \<Rightarrow> u32 \<Rightarrow> SourceRoutingApp \<Rightarrow> stop + SourceRoutingApp" where
  "sr_fire sim E src_addr a =
     (case sr_event a of
        None \<Rightarrow> Inr a
      | Some t \<Rightarrow> SrSendPacket (sim\<lparr>sim_now := t\<rparr>) E src_addr (a\<lparr>sr_event := None\<rparr>))"

subsection \<open>The program of the switches\<close>

text \<open>One entry of the stack of at most nine: \<open>bos\<close> is the first bit, \<open>port\<close> the other fifteen.\<close>

definition read_hop :: "u8 \<Rightarrow> u8 \<Rightarrow> Hop" where
  "read_hop x y =
     (let v = push_bit 8 (ucast x) OR ucast y :: u16 in \<lparr>hop_port = take_bit 15 v, hop_bos = bit v 15\<rparr>)"

fun parse_srcRouting :: "nat \<Rightarrow> u8 list \<Rightarrow> (Hop list \<times> u8 list) option" where
  "parse_srcRouting 0 bs = None"
| "parse_srcRouting (Suc n) (x # y # bs) =
     (if hop_bos (read_hop x y) then Some ([read_hop x y], bs)
      else map_option (\<lambda>(hs, rest). (read_hop x y # hs, rest)) (parse_srcRouting n bs))"
| "parse_srcRouting (Suc n) _ = None"

definition MAX_HOPS :: nat where "MAX_HOPS = 9"
definition TYPE_IPV4 :: u16 where "TYPE_IPV4 = 0x800"
definition TYPE_SRCROUTING :: u16 where "TYPE_SRCROUTING = 0x1234"

text \<open>The IPv4 header has twenty bytes; its ninth byte is the time to live.\<close>

definition update_ttl :: "u8 list \<Rightarrow> u8 list" where
  "update_ttl ip = ip[8 := ip ! 8 - 1]"

text \<open>The egress port and the frame that leaves. The action \<open>drop\<close> is empty, so that other frames go to port 0.\<close>

definition sr_program :: "u16 \<times> u8 list \<Rightarrow> (u16 \<times> u16 \<times> u8 list) option" where
  "sr_program frame =
     (case frame of (etherType, bs) \<Rightarrow>
        if etherType = TYPE_SRCROUTING
        then (case parse_srcRouting MAX_HOPS bs of
                None \<Rightarrow> None
              | Some (hs, rest) \<Rightarrow>
                  (if length rest < 20 then None
                   else Some (take_bit 9 (hop_port (hd hs)),
                          if hop_bos (hd hs) then TYPE_IPV4 else etherType,
                          SrSerialize \<lparr>hops = tl hs\<rparr> @ update_ttl (take 20 rest) @ drop 20 rest)))
        else Some (0, etherType, bs))"

text \<open>A frame at switch \<open>s\<close> gets to host \<open>j\<close>: the port is looked up in the description of the network.\<close>

inductive travels :: "'dev assembly \<Rightarrow> nat \<Rightarrow> u16 \<times> u8 list \<Rightarrow> nat \<Rightarrow> u16 \<times> u8 list \<Rightarrow> bool" for a where
  to_host: "s < length (switchNodes a) \<Longrightarrow> sr_program f = Some (p, f') \<Longrightarrow> unat p < length (infos a s) \<Longrightarrow>
    flag (meaning (infos a s ! unat p)) = 0 \<Longrightarrow> travels a s f (unat (nodeIndex (meaning (infos a s ! unat p)))) f'"
| to_switch: "s < length (switchNodes a) \<Longrightarrow> sr_program f = Some (p, f') \<Longrightarrow> unat p < length (infos a s) \<Longrightarrow>
    flag (meaning (infos a s ! unat p)) \<noteq> 0 \<Longrightarrow> travels a (unat (nodeIndex (meaning (infos a s ! unat p)))) f' j f'' \<Longrightarrow> travels a s f j f''"

text \<open>The host that the ports lead to from a switch.\<close>

fun walk :: "'dev assembly \<Rightarrow> nat \<Rightarrow> u16 list \<Rightarrow> nat option" where
  "walk a s [] = None"
| "walk a s (p # ps) =
     (if length (switchNodes a) \<le> s \<or> length (infos a s) \<le> unat p then None
      else
        (let x = meaning (infos a s ! unat p)
         in if flag x = 0 then (if ps = [] then Some (unat (nodeIndex x)) else None)
            else walk a (unat (nodeIndex x)) ps))"

subsection \<open>Routes through the network\<close>

lemma route_header_Nil: "hops (route_header []) = []"
  by (simp add: route_header_def new_SrcRouteHeader_def)

lemma route_hops: "hops (route_header ps) = map (\<lambda>i. \<lparr>hop_port = ps ! i, hop_bos = (i = length ps - 1)\<rparr>) [0..<length ps]"
proof -
  have "hops (fold (\<lambda>i sr. AddHop sr (ps ! i) (i = m)) [0..<k] new_SrcRouteHeader) = map (\<lambda>i. \<lparr>hop_port = ps ! i, hop_bos = (i = m)\<rparr>) [0..<k]"
    for k m by (induction k) (simp_all add: AddHop_def new_SrcRouteHeader_def)
  then show ?thesis by (simp add: route_header_def)
qed

lemma route_hops_Cons: "hops (route_header (p # ps)) = \<lparr>hop_port = p, hop_bos = (ps = [])\<rparr> # hops (route_header ps)"
proof -
  have "[0..<Suc (length ps)] = 0 # map Suc [0..<length ps]" by (simp add: upt_conv_Cons map_Suc_upt del: upt_Suc)
  then show ?thesis unfolding route_hops by (cases ps) (auto simp del: upt_Suc)
qed

lemma read_hop_write: "read_hop (ucast (drop_bit 8 (hop_value h))) (ucast (hop_value h)) = \<lparr>hop_port = take_bit 15 (hop_port h), hop_bos = hop_bos h\<rparr>"
proof -
  let ?v = "hop_value h"
  have m: "(0x7FFF :: u16) = mask 15" by (simp add: mask_eq_decr_exp)
  have b: "bit (if hop_bos h then 1 else 0 :: u16) n \<longleftrightarrow> hop_bos h \<and> n = 0" for n by (simp add: bit_1_iff)
  have v: "push_bit 8 (ucast (ucast (drop_bit 8 ?v) :: u8)) OR ucast (ucast ?v :: u8) = ?v"
    by (rule bit_word_eqI) (auto simp: bit_or_iff bit_push_bit_iff bit_unsigned_iff bit_drop_bit_eq)
  have "take_bit 15 ?v = take_bit 15 (hop_port h)"
    unfolding hop_value_def m by (rule bit_word_eqI) (auto simp: bit_take_bit_iff bit_or_iff bit_and_iff bit_push_bit_iff bit_mask_iff b)
  moreover have "bit ?v 15 \<longleftrightarrow> hop_bos h"
    unfolding hop_value_def m by (simp add: bit_or_iff bit_and_iff bit_push_bit_iff bit_mask_iff b)
  ultimately show ?thesis unfolding read_hop_def Let_def v by simp
qed

lemma SrSerialize_Cons: "SrSerialize \<lparr>hops = h # hs\<rparr> = ucast (drop_bit 8 (hop_value h)) # ucast (hop_value h) # SrSerialize \<lparr>hops = hs\<rparr>"
  by (simp add: SrSerialize_def WriteHtonU16_def)

lemma hops_surjective: "\<lparr>hops = hops sr\<rparr> = (sr :: SrcRouteHeader)"
  by (cases sr) simp

definition cut_hop :: "Hop \<Rightarrow> Hop" where
  "cut_hop h = \<lparr>hop_port = take_bit 15 (hop_port h), hop_bos = hop_bos h\<rparr>"

lemma hop_value_cut: "hop_value (cut_hop h) = hop_value h"
proof -
  have m: "(0x7FFF :: u16) = mask 15" by (simp add: mask_eq_decr_exp)
  show ?thesis unfolding hop_value_def m by (simp add: cut_hop_def take_bit_eq_mask [symmetric])
qed

lemma SrSerialize_cut: "SrSerialize \<lparr>hops = map cut_hop hs\<rparr> = SrSerialize \<lparr>hops = hs\<rparr>"
  by (simp add: SrSerialize_def comp_def hop_value_cut)

lemma parse_hops:
  assumes "ps \<noteq> []" "length ps \<le> n"
  shows "parse_srcRouting n (SrSerialize (route_header ps) @ rest) = Some (map cut_hop (hops (route_header ps)), rest)"
  using assms
proof (induction ps arbitrary: n)
  case (Cons p ps)
  then obtain k where n: "n = Suc k" by (cases n) auto
  let ?h = "\<lparr>hop_port = p, hop_bos = (ps = [])\<rparr>"
  have s: "SrSerialize (route_header (p # ps)) = ucast (drop_bit 8 (hop_value ?h)) # ucast (hop_value ?h) # SrSerialize (route_header ps)"
    using SrSerialize_Cons [of ?h "hops (route_header ps)"] route_hops_Cons [of p ps] hops_surjective by metis
  show ?case
  proof (cases "ps = []")
    case True
    have "SrSerialize (route_header ps) = []" unfolding True using route_header_Nil by (simp add: SrSerialize_def)
    then show ?thesis using s unfolding True by (simp add: n read_hop_write route_hops_Cons route_header_Nil cut_hop_def)
  next
    case False
    then have "parse_srcRouting k (SrSerialize (route_header ps) @ rest) = Some (map cut_hop (hops (route_header ps)), rest)"
      using Cons n by simp
    then show ?thesis by (simp add: n s read_hop_write route_hops_Cons False cut_hop_def)
  qed
qed simp

lemma sr_program_route:
  assumes "length (p # ps) \<le> MAX_HOPS" "20 \<le> length ip"
  shows "sr_program (TYPE_SRCROUTING, SrSerialize (route_header (p # ps)) @ ip) =
    Some (take_bit 9 p, if ps = [] then TYPE_IPV4 else TYPE_SRCROUTING, SrSerialize (route_header ps) @ update_ttl ip)"
proof -
  have "parse_srcRouting MAX_HOPS (SrSerialize (route_header (p # ps)) @ ip) = Some (map cut_hop (hops (route_header (p # ps))), ip)"
    by (rule parse_hops) (use assms in simp_all)
  moreover have "update_ttl (take 20 ip) @ drop 20 ip = update_ttl ip"
    using assms(2) by (intro nth_equalityI) (auto simp: update_ttl_def nth_append nth_list_update)
  moreover have "SrSerialize \<lparr>hops = map cut_hop (hops (route_header ps))\<rparr> = SrSerialize (route_header ps)"
    unfolding SrSerialize_cut hops_surjective ..
  ultimately show ?thesis
    using assms(2) by (simp add: sr_program_def route_hops_Cons cut_hop_def)
qed

lemma take_bit_port: "unat p < 512 \<Longrightarrow> take_bit 9 p = p" for p :: u16
proof -
  assume "unat p < 512"
  then have "unat (take_bit 9 p) = unat p" by (simp only: unsigned_take_bit_eq) (simp add: take_bit_eq_mod)
  then show ?thesis by (rule unsigned_word_eqI)
qed

lemma ttl_twice: "20 \<le> length ip \<Longrightarrow> (update_ttl ip)[8 := update_ttl ip ! 8 - n] = ip[8 := ip ! 8 - (1 + n)]"
  by (simp add: update_ttl_def algebra_simps)

lemma walk_travels:
  assumes "walk a s ps = Some j" "length ps \<le> MAX_HOPS" "\<forall>p \<in> set ps. unat p < 512" "20 \<le> length ip"
  shows "travels a s (TYPE_SRCROUTING, SrSerialize (route_header ps) @ ip) j (TYPE_IPV4, ip[8 := ip ! 8 - of_nat (length ps)])"
  using assms
proof (induction ps arbitrary: s ip)
  case (Cons p ps)
  let ?x = "meaning (infos a s ! unat p)"
  have s: "s < length (switchNodes a)" "unat p < length (infos a s)" using Cons.prems(1) by (auto split: if_splits)
  have f: "sr_program (TYPE_SRCROUTING, SrSerialize (route_header (p # ps)) @ ip) =
    Some (p, if ps = [] then TYPE_IPV4 else TYPE_SRCROUTING, SrSerialize (route_header ps) @ update_ttl ip)"
    using sr_program_route [OF Cons.prems(2,4)] take_bit_port [of p] Cons.prems(3) by simp
  show ?case
  proof (cases "flag ?x = 0")
    case True
    then have "ps = []" "j = unat (nodeIndex ?x)" using Cons.prems(1) s by (simp_all add: Let_def split: if_splits)
    moreover from this have "SrSerialize (route_header ps) = []" using route_header_Nil by (simp add: SrSerialize_def)
    ultimately show ?thesis using travels.to_host [OF s(1) f s(2) True] by (simp add: update_ttl_def)
  next
    case False
    then have w: "walk a (unat (nodeIndex ?x)) ps = Some j" using Cons.prems(1) s by (simp add: Let_def split: if_splits)
    then have "ps \<noteq> []" by auto
    have "travels a (unat (nodeIndex ?x)) (TYPE_SRCROUTING, SrSerialize (route_header ps) @ update_ttl ip) j
        (TYPE_IPV4, (update_ttl ip)[8 := update_ttl ip ! 8 - of_nat (length ps)])"
      by (rule Cons.IH [OF w]) (use Cons.prems in \<open>simp_all add: update_ttl_def\<close>)
    then show ?thesis using travels.to_switch [OF s(1) f s(2) False] \<open>ps \<noteq> []\<close> ttl_twice [OF Cons.prems(4)] by simp
  qed
qed simp

subsection \<open>The packets of the application\<close>

text \<open>The application started at the time of \<open>sim\<close>, and \<open>n\<close> of its events.\<close>

fun sr_run :: "bool list \<Rightarrow> sim \<Rightarrow> sr_env \<Rightarrow> u32 \<Rightarrow> SourceRoutingApp \<Rightarrow> nat \<Rightarrow> stop + SourceRoutingApp" where
  "sr_run devices sim E src_addr a 0 = StartApplication devices sim E src_addr a"
| "sr_run devices sim E src_addr a (Suc n) =
     (case sr_run devices sim E src_addr a n of Inl e \<Rightarrow> Inl e | Inr a \<Rightarrow> sr_fire sim E src_addr a)"

definition sr_interval :: "sim \<Rightarrow> SourceRoutingApp \<Rightarrow> time" where
  "sr_interval sim a = sim_seconds sim (of_nat (unat (sr_pktSize a)) * 8 / of_nat (unat (sr_dataRate a)))"

text \<open>The fields that the application does not change.\<close>

definition sr_same :: "SourceRoutingApp \<Rightarrow> SourceRoutingApp \<Rightarrow> bool" where
  "sr_same a b \<longleftrightarrow> sr_dst b = sr_dst a \<and> sr_port b = sr_port a \<and> sr_pktSize b = sr_pktSize a \<and> sr_dataRate b = sr_dataRate a \<and> sr_pathPorts b = sr_pathPorts a"

lemma sr_same_packet: "sr_same a b \<Longrightarrow> sr_packet E src_addr b = sr_packet E src_addr a" "sr_same a b \<Longrightarrow> sr_interval sim b = sr_interval sim a"
  by (simp_all add: sr_same_def sr_packet_def sr_interval_def)

lemma sr_run_regular:
  assumes "\<not> (\<forall>l \<in> set devices. l)" "sr_dataRate a \<noteq> 0" "0 < sr_interval sim a" "sr_sent a = []"
  shows "\<exists>b. sr_run devices sim E src_addr a n = Inr b \<and> sr_same a b \<and> sr_socket b \<and>
    sr_sent b = map (\<lambda>k. (sim_now sim + int k * sr_interval sim a, sr_packet E src_addr a)) [0..<Suc n] \<and>
    sr_event b = Some (sim_now sim + int (Suc n) * sr_interval sim a)"
proof (induction n)
  case 0
  show ?case using assms by (simp add: StartApplication_def SrSendPacket_def Let_def sr_same_def sr_interval_def sr_packet_def)
next
  case (Suc n)
  then obtain b where b: "sr_run devices sim E src_addr a n = Inr b" "sr_same a b" "sr_socket b"
    "sr_sent b = map (\<lambda>k. (sim_now sim + int k * sr_interval sim a, sr_packet E src_addr a)) [0..<Suc n]"
    "sr_event b = Some (sim_now sim + int (Suc n) * sr_interval sim a)" by blast
  define t where "t = sim_now sim + int (Suc n) * sr_interval sim a"
  have i: "sim_seconds sim (of_nat (unat (sr_pktSize b)) * 8 / of_nat (unat (sr_dataRate b))) = sr_interval sim a"
    using sr_same_packet(2) [OF b(2), of sim] by (simp add: sr_interval_def)
  have pkt: "sr_packet E src_addr (b\<lparr>sr_event := None\<rparr>) = sr_packet E src_addr a"
    using sr_same_packet(1) [OF b(2), of E src_addr] by (simp add: sr_packet_def)
  have r: "sr_dataRate b \<noteq> 0" using b(2) assms(2) by (simp add: sr_same_def)
  have "sr_fire sim E src_addr b = Inr (b\<lparr>sr_sent := sr_sent b @ [(t, sr_packet E src_addr a)], sr_event := Some (t + sr_interval sim a)\<rparr>)"
    using b(3) b(5) [folded t_def] r i pkt assms(3) by (simp add: sr_fire_def SrSendPacket_def Let_def)
  moreover have "t + sr_interval sim a = sim_now sim + int (Suc (Suc n)) * sr_interval sim a" by (simp add: t_def algebra_simps)
  ultimately show ?case using b(1,2,3) b(4) by (simp add: sr_same_def t_def)
qed

lemma sr_packet_split:
  "sr_packet E src_addr a = SrSerialize (route_header (sr_pathPorts a)) @
     ipv4_bytes E src_addr (sr_dst a) 17 64 (ucast (sr_pktSize a + udp_size E)) @
     udp_bytes E 1234 (sr_port a) src_addr (sr_dst a) 17 (replicate (unat (sr_pktSize a)) 0) @ replicate (unat (sr_pktSize a)) 0"
  by (simp add: sr_packet_def Let_def)

subsection \<open>The network of the example\<close>

text \<open>The delay before the first link is \<open>MilliSeconds(0.01)\<close>: the argument is an integer, 0.\<close>

definition source_routing_net ::
  "'dev csma_install \<Rightarrow> (string \<Rightarrow> string option) \<Rightarrow> nat \<Rightarrow> string \<Rightarrow> stop + 'dev assembly option" where
  "source_routing_net install fs nodes p4SrcDir =
     (let p4TopoHelper = HelperSetFileType (HelperSetFileName P4TopologyReaderHelper (p4SrcDir @ ''/topo.txt'')) ''CsmaTopo''
      in case snd (GetTopologyReader fs nodes p4TopoHelper) of
           Inl e \<Rightarrow> Inl e
         | Inr None \<Rightarrow> Inl Undefined
         | Inr (Some r) \<Rightarrow>
             (if LinksSize r = 0 then Inr None
              else (case for_each (m_linksList r) (wire_link install)
                           ((empty_assembly (length (GetSwitchNodeContainer r)) (length (GetHostNodeContainer r)))\<lparr>csma_delay := ''0ms''\<rparr>) of
                      Inl e \<Rightarrow> Inl e
                    | Inr a \<Rightarrow> Inr (Some a))))"

text \<open>The topology that comes with the example: three switches, linked to each other, with a host each.\<close>

definition srcroute_links :: "link_fields list" where
  "srcroute_links =
     [(0, CHR ''s'', 3, CHR ''h'', ''1000Mbps'', ''0.1ms''), (1, CHR ''s'', 4, CHR ''h'', ''1000Mbps'', ''0.1ms''),
      (2, CHR ''s'', 5, CHR ''h'', ''1000Mbps'', ''0.1ms''), (0, CHR ''s'', 1, CHR ''s'', ''1000Mbps'', ''0.1ms''),
      (0, CHR ''s'', 2, CHR ''s'', ''1000Mbps'', ''0.1ms''), (2, CHR ''s'', 1, CHR ''s'', ''1000Mbps'', ''0.1ms'')]"

definition srcroute_file :: string where
  "srcroute_file =
     unlines [''3 3 6'', ''0 s 3 h 1000Mbps 0.1ms'', ''1 s 4 h 1000Mbps 0.1ms'', ''2 s 5 h 1000Mbps 0.1ms'',
       ''0 s 1 s 1000Mbps 0.1ms'', ''0 s 2 s 1000Mbps 0.1ms'', ''2 s 1 s 1000Mbps 0.1ms'', ''0 BASIC'', ''1 BASIC'', ''2 BASIC'']"

lemma dec_small: "dec 0 = ''0''" "dec (Suc 0) = ''1''" "dec 2 = ''2''" "dec 3 = ''3''" "dec 4 = ''4''" "dec 5 = ''5''" "dec 6 = ''6''"
  by code_simp+

lemma srcroute_file_text: "srcroute_file = topology_text 3 3 srcroute_links [''BASIC'', ''BASIC'', ''BASIC'']"
proof -
  have "length srcroute_links = 6" "enumerate 0 [''BASIC'', ''BASIC'', ''BASIC''] = [(0, ''BASIC''), (1, ''BASIC''), (2, ''BASIC'')]"
    by (simp_all add: srcroute_links_def numeral_2_eq_2)
  moreover have "map link_text srcroute_links = [''0 s 3 h 1000Mbps 0.1ms'', ''1 s 4 h 1000Mbps 0.1ms'', ''2 s 5 h 1000Mbps 0.1ms'',
       ''0 s 1 s 1000Mbps 0.1ms'', ''0 s 2 s 1000Mbps 0.1ms'', ''2 s 1 s 1000Mbps 0.1ms'']"
    by (simp add: srcroute_links_def dec_small)
  moreover have "dec (Suc (Suc 0)) = ''2''" using dec_small(3) by (simp only: numeral_2_eq_2)
  ultimately show ?thesis
    unfolding srcroute_file_def topology_text_def by (simp add: header_text_def function_text_def dec_small)
qed

lemma srcroute_words: "\<forall>l \<in> set srcroute_links. link_ok (3 + 3) l" "\<forall>f \<in> set [''BASIC'', ''BASIC'', ''BASIC'']. word f"
  by (simp_all add: srcroute_links_def word_def isspace_def code_def)

lemma source_routing_net_ok:
  assumes "fs (p4SrcDir @ ''/topo.txt'') = Some srcroute_file"
  shows "\<exists>a. source_routing_net install fs nodes p4SrcDir = Inr (Some a) \<and> length (switchNodes a) = 3 \<and> length (hostNodes a) = 3 \<and>
    map target (infos a 0) = [(0, 0), (1, 1), (1, 2)] \<and> map target (infos a 1) = [(0, 1), (1, 0), (1, 2)] \<and>
    map target (infos a 2) = [(0, 2), (1, 0), (1, 1)]"
proof -
  define topoInput where "topoInput = p4SrcDir @ ''/topo.txt''"
  have name: "topoInput \<noteq> []" by (simp add: topoInput_def)
  have f: "fs topoInput = Some (topology_text 3 3 srcroute_links [''BASIC'', ''BASIC'', ''BASIC''])"
    using assms unfolding topoInput_def srcroute_file_text .
  obtain r where r: "Read fs (SetFileName (P4TopologyReader nodes) topoInput) = (r, Inr True)" "map link_fields (m_links r) = srcroute_links"
    "length (m_switches r) = 3" "length (m_hosts r) = 3"
    using read_written_helper [where fs = fs and name = topoInput and n = nodes, OF f srcroute_words(1) _ srcroute_words(2)]
    by (auto simp: srcroute_links_def)
  have m: "list_all2 link_matches (m_linksList r) (m_links r)" using read_consistent [OF r(1)] by blast
  note keys = read_keys [OF r(2) m]
  have "\<forall>k \<in> set (map link_key (m_linksList r)). key_good 3 3 k"
    unfolding keys by (simp add: srcroute_links_def key_good_def)
  then have G: "\<forall>l \<in> set (m_linksList r). link_good 3 3 l" by (simp add: key_simps)
  have "wired_up 3 3 [] ((empty_assembly 3 3)\<lparr>csma_delay := ''0ms''\<rparr>)" by (simp add: wired_up_def empty_assembly_def infos_def)
  from wire_links_from [OF G _ this] obtain a
    where a: "for_each (m_linksList r) (wire_link install) ((empty_assembly 3 3)\<lparr>csma_delay := ''0ms''\<rparr>) = Inr a" "wired_up 3 3 (m_linksList r) a"
    by auto
  have t: "map target (infos a s) = concat (map (\<lambda>k. key_targets 3 k s) (map link_key (m_linksList r)))" if "s < 3" for s
    using a(2) that by (simp add: wired_up_def key_simps comp_def)
  have "snd (GetTopologyReader fs nodes (HelperSetFileType (HelperSetFileName P4TopologyReaderHelper topoInput) ''CsmaTopo'')) = Inr (Some r)"
    using r(1) name by (simp add: GetTopologyReader_def P4TopologyReaderHelper_def HelperSetFileType_def HelperSetFileName_def)
  moreover have "length (m_linksList r) = 6" using arg_cong [OF keys, of length] by (simp add: srcroute_links_def)
  then have "LinksSize r \<noteq> 0" by (simp add: LinksSize_def)
  ultimately have "source_routing_net install fs nodes p4SrcDir = Inr (Some a)"
    using a(1) r(3,4) unfolding source_routing_net_def topoInput_def [symmetric]
    by (simp add: GetSwitchNodeContainer_def GetHostNodeContainer_def)
  moreover have "map target (infos a 0) = [(0, 0), (1, 1), (1, 2)]" "map target (infos a 1) = [(0, 1), (1, 0), (1, 2)]" "map target (infos a 2) = [(0, 2), (1, 0), (1, 1)]"
    using t [of 0] t [of 1] t [of 2] unfolding keys by (simp_all add: srcroute_links_def key_targets_def)
  ultimately show ?thesis using a(2) by (auto simp: wired_up_def)
qed

text \<open>From switch 0 the ports 1, 2 and 0 lead over the switches 1 and 2 to host 2.\<close>

lemma srcroute_walk:
  assumes "length (switchNodes a) = 3" "map target (infos a 0) = [(0, 0), (1, 1), (1, 2)]" "map target (infos a 1) = [(0, 1), (1, 0), (1, 2)]"
    "map target (infos a 2) = [(0, 2), (1, 0), (1, 1)]"
  shows "walk a 0 [1, 2, 0] = Some 2"
proof -
  have "length (infos a 0) = 3" "length (infos a 1) = 3" "length (infos a 2) = 3"
    using arg_cong [OF assms(2), of length] arg_cong [OF assms(3), of length] arg_cong [OF assms(4), of length] by simp_all
  moreover from this have "target (infos a 0 ! 1) = (1, 1)" "target (infos a 1 ! 2) = (1, 2)" "target (infos a 2 ! 0) = (0, 2)"
    using nth_map [of 1 "infos a 0" target] nth_map [of 2 "infos a 1" target] nth_map [of 0 "infos a 2" target] unfolding assms(2-4) by simp_all
  ultimately show ?thesis using assms(1) by (simp add: target_def Let_def)
qed

lemma source_routing_net_walk:
  assumes "fs (p4SrcDir @ ''/topo.txt'') = Some srcroute_file"
  shows "\<exists>a. source_routing_net install fs nodes p4SrcDir = Inr (Some a) \<and> walk a 0 [1, 2, 0] = Some 2"
proof -
  from source_routing_net_ok [where fs = fs and install = install and nodes = nodes and p4SrcDir = p4SrcDir, OF assms] obtain a where
    a: "source_routing_net install fs nodes p4SrcDir = Inr (Some a) \<and> length (switchNodes a) = 3 \<and> length (hostNodes a) = 3 \<and>
    map target (infos a 0) = [(0, 0), (1, 1), (1, 2)] \<and> map target (infos a 1) = [(0, 1), (1, 0), (1, 2)] \<and>
    map target (infos a 2) = [(0, 2), (1, 0), (1, 1)]" ..
  have "walk a 0 [1, 2, 0] = Some 2" by (rule srcroute_walk) (simp_all only: a)
  then show ?thesis using a by (intro exI [of _ a] conjI) (simp_all only: a)
qed

subsection \<open>End to end\<close>

text \<open>C9. The packets of the source routing application reach the host that its ports lead to. Once started, it
  sends a packet at once and then one per interval, and each packet, at the first switch, is passed
  by the P4 program from switch to switch over exactly these ports: each switch takes one entry off, the
  last one turns the frame into an IPv4 frame, and the host gets the IPv4 header, with its time to live lowered by
  the number of switches and nothing else changed, followed by the UDP header and the payload. There may be
  up to nine ports below 512, which is what the header stack and the egress port of the program hold.\<close>

theorem source_route_delivers:
  assumes "walk net s (sr_pathPorts app) = Some j" "length (sr_pathPorts app) \<le> MAX_HOPS" "\<forall>p \<in> set (sr_pathPorts app). unat p < 512"
    and ip: "ip = ipv4_bytes E src_addr (sr_dst app) 17 64 (ucast (sr_pktSize app + udp_size E))" "length ip = 20"
    and app: "\<not> (\<forall>loopback \<in> set devices. loopback)" "sr_dataRate app \<noteq> 0" "0 < sr_interval sim app" "sr_sent app = []"
  shows "\<exists>b. sr_run devices sim E src_addr app n = Inr b \<and>
    sr_sent b = map (\<lambda>k. (sim_now sim + int k * sr_interval sim app, sr_packet E src_addr app)) [0..<Suc n] \<and>
    sr_event b = Some (sim_now sim + int (Suc n) * sr_interval sim app) \<and>
    travels net s (TYPE_SRCROUTING, sr_packet E src_addr app) j
      (TYPE_IPV4, ip[8 := ip ! 8 - of_nat (length (sr_pathPorts app))] @
         udp_bytes E 1234 (sr_port app) src_addr (sr_dst app) 17 (replicate (unat (sr_pktSize app)) 0) @ replicate (unat (sr_pktSize app)) 0)"
proof -
  let ?u = "udp_bytes E 1234 (sr_port app) src_addr (sr_dst app) 17 (replicate (unat (sr_pktSize app)) 0) @ replicate (unat (sr_pktSize app)) 0"
  have "travels net s (TYPE_SRCROUTING, SrSerialize (route_header (sr_pathPorts app)) @ (ip @ ?u)) j
      (TYPE_IPV4, (ip @ ?u)[8 := (ip @ ?u) ! 8 - of_nat (length (sr_pathPorts app))])"
    by (rule walk_travels [OF assms(1-3)]) (simp add: ip(2))
  moreover have "(ip @ ?u)[8 := (ip @ ?u) ! 8 - m] = ip[8 := ip ! 8 - m] @ ?u" for m
    using ip(2) by (simp add: list_update_append nth_append)
  ultimately have "travels net s (TYPE_SRCROUTING, sr_packet E src_addr app) j (TYPE_IPV4, ip[8 := ip ! 8 - of_nat (length (sr_pathPorts app))] @ ?u)"
    unfolding sr_packet_split ip(1) by simp
  then show ?thesis using sr_run_regular [OF app, of E src_addr n] by blast
qed

text \<open>The topology and the ports of the example: from host 0, at switch 0, to host 2.\<close>

definition ex_sr_env :: sr_env where
  "ex_sr_env = \<lparr>udp_bytes = \<lambda>sp dp s d pr pl. [0, 0, 0, 0, 0, 0, 0, 0], udp_size = 8, ipv4_bytes = \<lambda>s d pr ttl len. [0, 0, 0, 0, 0, 0, 0, 0, ttl, pr, 0, 0, 0, 0, 0, 0, 0, 0, 0, 0]\<rparr>"

definition ex_sr_app :: SourceRoutingApp where
  "ex_sr_app =
     Setup \<lparr>sr_socket = False, sr_event = None, sr_dst = 0, sr_port = 0, sr_pktSize = 0, sr_dataRate = 0, sr_pathPorts = [], sr_sent = []\<rparr>
       0x0A010103 9093 2 3000000 [1, 2, 0]"

theorem source_route_delivers_witness:
  "\<exists>net b. source_routing_net (\<lambda>k rate del from to. (2 * k, 2 * k + 1 :: nat)) (\<lambda>name. if name = ''d/topo.txt'' then Some srcroute_file else None) 0 ''d'' = Inr (Some net) \<and>
    sr_run [True, False] \<lparr>sim_now = 5, sim_seconds = \<lambda>x. 7\<rparr> ex_sr_env 0x0A010101 ex_sr_app 2 = Inr b \<and> map fst (sr_sent b) = [5, 12, 19] \<and>
    travels net 0 (0x1234, sr_packet ex_sr_env 0x0A010101 ex_sr_app) 2 (0x800, [0, 0, 0, 0, 0, 0, 0, 0, 61, 17, 0, 0, 0, 0, 0, 0, 0, 0, 0, 0, 0, 0, 0, 0, 0, 0, 0, 0, 0, 0])"
proof -
  define install :: "nat csma_install" where "install = (\<lambda>k rate del from to. (2 * k, 2 * k + 1))"
  define fs where "fs = (\<lambda>name. if name = ''d/topo.txt'' then Some srcroute_file else None)"
  let ?sim = "\<lparr>sim_now = 5, sim_seconds = \<lambda>x. 7\<rparr>" and ?ip = "[0, 0, 0, 0, 0, 0, 0, 0, 64, 17, 0, 0, 0, 0, 0, 0, 0, 0, 0, 0] :: u8 list"
  have "fs (''d'' @ ''/topo.txt'') = Some srcroute_file" by (simp add: fs_def)
  from source_routing_net_walk [where fs = fs and install = install and nodes = 0 and p4SrcDir = "''d''", OF this]
  obtain net where net: "source_routing_net install fs 0 ''d'' = Inr (Some net)" "walk net 0 [1, 2, 0] = Some 2" by (elim exE conjE)
  have p: "sr_pathPorts ex_sr_app = [1, 2, 0]" "sr_sent ex_sr_app = []" "sr_dataRate ex_sr_app \<noteq> 0" "sr_interval ?sim ex_sr_app = 7"
    "unat (sr_pktSize ex_sr_app) = 2"
    by (simp_all add: ex_sr_app_def Setup_def sr_interval_def)
  have ip: "?ip = ipv4_bytes ex_sr_env 0x0A010101 (sr_dst ex_sr_app) 17 64 (ucast (sr_pktSize ex_sr_app + udp_size ex_sr_env))"
    by (simp add: ex_sr_env_def)
  have c: "length (sr_pathPorts ex_sr_app) \<le> MAX_HOPS" "\<forall>p \<in> set (sr_pathPorts ex_sr_app). unat p < 512" "length ?ip = 20"
    "\<not> (\<forall>loopback \<in> set [True, False]. loopback)" "0 < sr_interval ?sim ex_sr_app"
    unfolding p by (simp_all add: MAX_HOPS_def)
  obtain b where b: "sr_run [True, False] ?sim ex_sr_env 0x0A010101 ex_sr_app 2 = Inr b"
    "sr_sent b = map (\<lambda>k. (sim_now ?sim + int k * sr_interval ?sim ex_sr_app, sr_packet ex_sr_env 0x0A010101 ex_sr_app)) [0..<Suc 2]"
    "travels net 0 (TYPE_SRCROUTING, sr_packet ex_sr_env 0x0A010101 ex_sr_app) 2 (TYPE_IPV4, ?ip[8 := ?ip ! 8 - of_nat (length (sr_pathPorts ex_sr_app))] @
         udp_bytes ex_sr_env 1234 (sr_port ex_sr_app) 0x0A010101 (sr_dst ex_sr_app) 17 (replicate (unat (sr_pktSize ex_sr_app)) 0) @ replicate (unat (sr_pktSize ex_sr_app)) 0)"
    using source_route_delivers [OF _ c(1,2) ip c(3,4) p(3) c(5) p(2), of net 0 2 2] net(2) unfolding p(1) by blast
  have times: "map fst (sr_sent b) = [5, 12, 19]" unfolding b(2) p by (simp add: numeral_eq_Suc)
  have res: "?ip[8 := ?ip ! 8 - of_nat (length (sr_pathPorts ex_sr_app))] @ udp_bytes ex_sr_env 1234 (sr_port ex_sr_app) 0x0A010101 (sr_dst ex_sr_app) 17 (replicate (unat (sr_pktSize ex_sr_app)) 0) @
      replicate (unat (sr_pktSize ex_sr_app)) 0 = [0, 0, 0, 0, 0, 0, 0, 0, 61, 17, 0, 0, 0, 0, 0, 0, 0, 0, 0, 0, 0, 0, 0, 0, 0, 0, 0, 0, 0, 0]"
    
  proof -
    have u: "udp_bytes ex_sr_env a b c d e f = [0, 0, 0, 0, 0, 0, 0, 0]" for a b c d e f by (simp add: ex_sr_env_def)
    have r: "replicate 2 (0 :: u8) = [0, 0]" by (simp add: numeral_2_eq_2)
    have i: "?ip ! 8 = 64" by simp
    have e: "(8 :: nat) = Suc (Suc (Suc (Suc (Suc (Suc (Suc (Suc 0)))))))" by simp
    have l: "?ip[8 := x] = [0, 0, 0, 0, 0, 0, 0, 0, x, 17, 0, 0, 0, 0, 0, 0, 0, 0, 0, 0]" for x unfolding e by simp
    have n: "(64 :: u8) - of_nat (length [1 :: u16, 2, 0]) = 61" by simp
    show ?thesis unfolding p u r i l n by simp
  qed
  note sent = b(3) [unfolded res TYPE_SRCROUTING_def TYPE_IPV4_def]
  show ?thesis by (intro exI conjI) (rule net(1) [unfolded install_def fs_def] b(1) times sent)+
qed

text \<open>More ports than the stack holds are rejected by the parser.\<close>

lemma parse_hops_long:
  "n < length ps \<Longrightarrow> parse_srcRouting n (SrSerialize (route_header ps) @ rest) = None"
proof (induction n arbitrary: ps)
  case (Suc n)
  then obtain p qs where ps: "ps = p # qs" "n < length qs" by (cases ps) auto
  let ?h = "\<lparr>hop_port = p, hop_bos = (qs = [])\<rparr>"
  have s: "SrSerialize (route_header (p # qs)) = ucast (drop_bit 8 (hop_value ?h)) # ucast (hop_value ?h) # SrSerialize (route_header qs)"
    using SrSerialize_Cons [of ?h "hops (route_header qs)"] route_hops_Cons [of p qs] hops_surjective by metis
  have "qs \<noteq> []" using ps(2) by auto
  then show ?case using Suc.IH [OF ps(2)] unfolding ps(1) by (simp add: s read_hop_write)
qed simp

lemma long_route_rejected: "MAX_HOPS < length ps \<Longrightarrow> sr_program (TYPE_SRCROUTING, SrSerialize (route_header ps) @ ip) = None"
  by (simp add: sr_program_def parse_hops_long)

end
