(* ===== verification/Calc_Example.thy ===== *)
theory Calc_Example
  imports P4_Prelude
begin

text \<open>
  The calculator (\<open>examples/p4-calc.cc\<close> with the program \<open>examples/p4src/calc/calc.p4\<close>): a host sends two
  operands and an operation, the switch answers with the result, and a trace callback of the host
  decodes the frames it sees. An Ethernet header is a record; \<open>None\<close> for a frame too short to have
  one.
\<close>

subsection \<open>The host\<close>

text \<open>The operation is the first character of the option; an empty option has the character 0.\<close>

definition op_code :: "string \<Rightarrow> u8 option" where
  "op_code operation =
     (let c = (if operation = [] then CHR 0x00 else hd operation)
      in if c = CHR ''+'' then Some 0x2b
         else if c = CHR ''-'' then Some 0x2d
         else if c = CHR ''&'' then Some 0x26
         else if c = CHR ''|'' then Some 0x7c
         else if c = CHR 0x5E then Some 0x5e
         else None)"

definition calc_bytes :: "u8 \<Rightarrow> u32 \<Rightarrow> u32 \<Rightarrow> u8 list" where
  "calc_bytes opCode operandA operandB =
     [0x50, 0x34, 0x01, opCode,
      ucast (drop_bit 24 operandA AND 0xff), ucast (drop_bit 16 operandA AND 0xff), ucast (drop_bit 8 operandA AND 0xff), ucast (operandA AND 0xff),
      ucast (drop_bit 24 operandB AND 0xff), ucast (drop_bit 16 operandB AND 0xff), ucast (drop_bit 8 operandB AND 0xff), ucast (operandB AND 0xff),
      0, 0, 0, 0]"

definition ReadBe32 :: "u8 list \<Rightarrow> u32" where
  "ReadBe32 p = push_bit 24 (ucast (p ! 0)) OR push_bit 16 (ucast (p ! 1)) OR push_bit 8 (ucast (p ! 2)) OR ucast (p ! 3)"

text \<open>The fields of an Ethernet header, and the bytes after it.\<close>

record eth_frame =
  eth_dst :: "48 word"
  eth_src :: "48 word"
  eth_type :: u16
  eth_payload :: "u8 list"

text \<open>What is logged of a frame: operation, operands and result.\<close>

definition DecodeP4CalcFrame :: "eth_frame option \<Rightarrow> (u8 \<times> u32 \<times> u32 \<times> u32) option" where
  "DecodeP4CalcFrame packet =
     (case packet of
        None \<Rightarrow> None
      | Some f \<Rightarrow>
          (if eth_type f \<noteq> 0x1234 then None
           else if length (eth_payload f) < 16 then None
           else
             (let calcBytes = take 16 (eth_payload f)
              in if calcBytes ! 0 \<noteq> 0x50 \<or> calcBytes ! 1 \<noteq> 0x34 \<or> calcBytes ! 2 \<noteq> 0x01 then None
                 else Some (calcBytes ! 3, ReadBe32 (drop 4 calcBytes), ReadBe32 (drop 8 calcBytes), ReadBe32 (drop 12 calcBytes)))))"

text \<open>The frame that is scheduled to be sent; the addresses are those of the device and of the port of the switch.\<close>

definition calc_frame :: "48 word \<Rightarrow> 48 word \<Rightarrow> string \<Rightarrow> u32 \<Rightarrow> u32 \<Rightarrow> eth_frame option" where
  "calc_frame dst src operation a b =
     (case op_code operation of
        None \<Rightarrow> None
      | Some opCode \<Rightarrow> Some \<lparr>eth_dst = dst, eth_src = src, eth_type = 0x1234, eth_payload = calc_bytes opCode a b\<rparr>)"

subsection \<open>The switch\<close>

record p4calc_t =
  calc_p :: u8
  calc_four :: u8
  calc_ver :: u8
  calc_op :: u8
  operand_a :: u32
  operand_b :: u32
  calc_res :: u32

definition extract_p4calc :: "u8 list \<Rightarrow> p4calc_t" where
  "extract_p4calc bs =
     \<lparr>calc_p = bs ! 0, calc_four = bs ! 1, calc_ver = bs ! 2, calc_op = bs ! 3,
      operand_a = ReadBe32 (drop 4 bs), operand_b = ReadBe32 (drop 8 bs), calc_res = ReadBe32 (drop 12 bs)\<rparr>"

definition be32 :: "u32 \<Rightarrow> u8 list" where
  "be32 v = [ucast (drop_bit 24 v), ucast (drop_bit 16 v), ucast (drop_bit 8 v), ucast v]"

definition emit_p4calc :: "p4calc_t \<Rightarrow> u8 list" where
  "emit_p4calc h = [calc_p h, calc_four h, calc_ver h, calc_op h] @ be32 (operand_a h) @ be32 (operand_b h) @ be32 (calc_res h)"

text \<open>The table \<open>calculate\<close>: the result, or \<open>None\<close> for the action that drops.\<close>

definition calculate :: "p4calc_t \<Rightarrow> u32 option" where
  "calculate h =
     (if calc_op h = 0x2b then Some (operand_a h + operand_b h)
      else if calc_op h = 0x2d then Some (operand_a h - operand_b h)
      else if calc_op h = 0x26 then Some (operand_a h AND operand_b h)
      else if calc_op h = 0x7c then Some (operand_a h OR operand_b h)
      else if calc_op h = 0x5e then Some (operand_a h XOR operand_b h)
      else None)"

text \<open>The program on a frame from a port: the port and the frame that leave, \<open>None\<close> when it is dropped. A frame of the
  type that is too short for the header stops the parser, and is then without the header.\<close>

definition calc_program :: "u16 \<Rightarrow> eth_frame \<Rightarrow> (u16 \<times> eth_frame) option" where
  "calc_program ingress_port f =
     (if eth_type f = 0x1234 \<and> 16 \<le> length (eth_payload f) \<and>
         eth_payload f ! 0 = 0x50 \<and> eth_payload f ! 1 = 0x34 \<and> eth_payload f ! 2 = 0x01
      then
        (let h = extract_p4calc (take 16 (eth_payload f))
         in case calculate h of
              None \<Rightarrow> None
            | Some result \<Rightarrow>
                Some (ingress_port,
                  f\<lparr>eth_dst := eth_src f, eth_src := eth_dst f,
                    eth_payload := emit_p4calc (h\<lparr>calc_res := result\<rparr>) @ drop 16 (eth_payload f)\<rparr>))
      else None)"

subsection \<open>The answer\<close>

lemma be32_read: "ReadBe32 (be32 v @ bs) = v"
proof -
  have "push_bit 24 (ucast (ucast (drop_bit 24 v) :: u8)) OR push_bit 16 (ucast (ucast (drop_bit 16 v) :: u8)) OR
      push_bit 8 (ucast (ucast (drop_bit 8 v) :: u8)) OR ucast (ucast v :: u8) = v"
  proof (rule bit_word_eqI)
    fix n assume "n < LENGTH(32)"
    then consider "n < 8" | "8 \<le> n" "n < 16" | "16 \<le> n" "n < 24" | "24 \<le> n" "n < 32" by force
    then show "bit (push_bit 24 (ucast (ucast (drop_bit 24 v) :: u8)) OR push_bit 16 (ucast (ucast (drop_bit 16 v) :: u8)) OR
      push_bit 8 (ucast (ucast (drop_bit 8 v) :: u8)) OR ucast (ucast v :: u8) :: u32) n \<longleftrightarrow> bit v n"
      by cases (simp_all add: bit_or_iff bit_push_bit_iff bit_unsigned_iff bit_drop_bit_eq, linarith+)
  qed
  then show ?thesis by (simp add: ReadBe32_def be32_def)
qed

lemma ucast_low: "(ucast (v AND 0xff) :: u8) = ucast (v :: u32)"
proof -
  have m: "(0xff :: u32) = mask 8" by (simp add: mask_eq_decr_exp)
  show ?thesis unfolding m by (rule bit_word_eqI) (auto simp: bit_unsigned_iff bit_and_iff bit_mask_iff)
qed

lemma calc_bytes_be32: "calc_bytes opc a b = [0x50, 0x34, 0x01, opc] @ be32 a @ be32 b @ be32 0"
  unfolding calc_bytes_def ucast_low by (simp add: be32_def)

lemma be32_length [simp]: "length (be32 v) = 4"
  by (simp add: be32_def)

text \<open>The operation that a code stands for.\<close>

fun calc_meaning :: "string \<Rightarrow> u32 \<Rightarrow> u32 \<Rightarrow> u32 option" where
  "calc_meaning (c # cs) a b =
     (if c = CHR ''+'' then Some (a + b) else if c = CHR ''-'' then Some (a - b) else if c = CHR ''&'' then Some (a AND b)
      else if c = CHR ''|'' then Some (a OR b) else if c = CHR 0x5E then Some (a XOR b) else None)"
| "calc_meaning [] a b = None"

text \<open>C19. The calculator answers: for each of its five operations and all operands, the frame that the host sends leaves
  the switch on the port it came in by, to the address it came from, and the host decodes from it the operation, the
  operands and the result modulo \<open>2 ^ 32\<close>. Before the answer it decodes its own frame, with result 0. For any other
  operation no frame is sent.\<close>

theorem calc_answers:
  "(case calc_meaning operation a b of
      None \<Rightarrow> calc_frame dst src operation a b = None
    | Some result \<Rightarrow> \<exists>f f' opc. calc_frame dst src operation a b = Some f \<and> op_code operation = Some opc \<and>
        DecodeP4CalcFrame (Some f) = Some (opc, a, b, 0) \<and>
        calc_program ingress_port f = Some (ingress_port, f') \<and> eth_dst f' = src \<and> eth_src f' = dst \<and>
        DecodeP4CalcFrame (Some f') = Some (opc, a, b, result))"
proof (cases "calc_meaning operation a b")
  case None
  then show ?thesis by (cases operation) (auto simp: calc_frame_def op_code_def split: if_splits)
next
  case (Some result)
  obtain opc where opc: "op_code operation = Some opc"
    and r: "\<And>h. calc_op h = opc \<Longrightarrow> operand_a h = a \<Longrightarrow> operand_b h = b \<Longrightarrow> calculate h = Some result"
    using Some by (cases operation) (auto simp: op_code_def calculate_def split: if_splits)
  have dec: "DecodeP4CalcFrame (Some \<lparr>eth_dst = d, eth_src = s, eth_type = 0x1234, eth_payload = [0x50, 0x34, 0x01, opc] @ be32 a @ be32 b @ be32 c\<rparr>) = Some (opc, a, b, c)" for d s c
    using be32_read [of c "[]"] be32_read [of b] be32_read [of a] by (simp add: DecodeP4CalcFrame_def)
  define f where "f = \<lparr>eth_dst = dst, eth_src = src, eth_type = 0x1234, eth_payload = [0x50, 0x34, 0x01, opc] @ be32 a @ be32 b @ be32 0\<rparr>"
  define f' where "f' = \<lparr>eth_dst = src, eth_src = dst, eth_type = 0x1234, eth_payload = [0x50, 0x34, 0x01, opc] @ be32 a @ be32 b @ be32 result\<rparr>"
  have x: "extract_p4calc (take 16 (eth_payload f)) = \<lparr>calc_p = 0x50, calc_four = 0x34, calc_ver = 0x01, calc_op = opc, operand_a = a, operand_b = b, calc_res = 0\<rparr>"
    using be32_read [of 0 "[]"] be32_read [of b] be32_read [of a] by (simp add: extract_p4calc_def f_def)
  have "calculate \<lparr>calc_p = 0x50, calc_four = 0x34, calc_ver = 0x01, calc_op = opc, operand_a = a, operand_b = b, calc_res = 0\<rparr> = Some result"
    by (rule r) simp_all
  then have "calc_program ingress_port f = Some (ingress_port, f')"
    unfolding calc_program_def x by (simp add: f_def f'_def emit_p4calc_def)
  moreover have "calc_frame dst src operation a b = Some f" by (simp add: calc_frame_def opc f_def calc_bytes_be32)
  ultimately show ?thesis using opc dec [of dst src 0] dec [of src dst result] unfolding Some f_def f'_def by simp
qed

end
