(* ===== verification/Traffic_Meters.thy ===== *)
theory Traffic_Meters
  imports P4_Prelude
begin

text \<open>
  The measurements of the examples: the callbacks that count what an application sends and receives and the
  throughput printed at the end (\<open>examples/p4-source-routing.cc\<close>; five other examples have the same
  functions), and the counters per switch of \<open>examples/p4-spine-leaf-topo.cc\<close>. A packet is its size and the
  time in seconds. Times and quotients, which are of type \<open>double\<close>, are rational numbers here; a quotient whose divisor is
  0 is no number and gives \<open>None\<close>.
\<close>

subsection \<open>The throughput of an application\<close>

record traffic =
  first_tx :: bool
  first_rx :: bool
  counter_sender_10 :: int
  counter_receiver_10 :: int
  first_packet_send_time_tx :: rat
  last_packet_send_time_tx :: rat
  first_packet_received_time_rx :: rat
  last_packet_received_time_rx :: rat
  totalTxBytes :: u64
  totalRxBytes :: u64

definition initial_traffic :: traffic where
  "initial_traffic =
     \<lparr>first_tx = True, first_rx = True, counter_sender_10 = 10, counter_receiver_10 = 10,
      first_packet_send_time_tx = 0, last_packet_send_time_tx = 0, first_packet_received_time_rx = 0, last_packet_received_time_rx = 0,
      totalTxBytes = 0, totalRxBytes = 0\<rparr>"

definition TxCallback :: "rat \<Rightarrow> u32 \<Rightarrow> traffic \<Rightarrow> traffic" where
  "TxCallback now packet_size t =
     (if first_tx t
      then
        (let t = t\<lparr>first_packet_send_time_tx := now, counter_sender_10 := counter_sender_10 t - 1\<rparr>
         in if counter_sender_10 t = 0 then t\<lparr>first_tx := False\<rparr> else t)
      else t\<lparr>totalTxBytes := totalTxBytes t + ucast packet_size, last_packet_send_time_tx := now\<rparr>)"

definition RxCallback :: "rat \<Rightarrow> u32 \<Rightarrow> traffic \<Rightarrow> traffic" where
  "RxCallback now packet_size t =
     (if first_rx t
      then
        (let t = t\<lparr>first_packet_received_time_rx := now, counter_receiver_10 := counter_receiver_10 t - 1\<rparr>
         in if counter_receiver_10 t = 0 then t\<lparr>first_rx := False\<rparr> else t)
      else t\<lparr>totalRxBytes := totalRxBytes t + ucast packet_size, last_packet_received_time_rx := now\<rparr>)"

definition divided :: "rat \<Rightarrow> rat \<Rightarrow> rat option" where
  "divided x y = (if y = 0 then None else Some (x / y))"

text \<open>The two numbers that are printed, in Mbps.\<close>

definition PrintFinalThroughput :: "traffic \<Rightarrow> rat option \<times> rat option" where
  "PrintFinalThroughput t =
     (let send_time = last_packet_send_time_tx t - first_packet_send_time_tx t;
          elapsed_time = last_packet_received_time_rx t - first_packet_received_time_rx t
      in (divided (of_nat (unat (totalTxBytes t)) * 8) (send_time * 1000000),
          divided (of_nat (unat (totalRxBytes t)) * 8) (elapsed_time * 1000000)))"

text \<open>What the callbacks have stored after a list of packets: ten packets are skipped.\<close>

definition sent_all :: "(rat \<times> u32) list \<Rightarrow> traffic \<Rightarrow> traffic" where
  "sent_all ps t = fold (\<lambda>(now, n). TxCallback now n) ps t"

definition received_all :: "(rat \<times> u32) list \<Rightarrow> traffic \<Rightarrow> traffic" where
  "received_all ps t = fold (\<lambda>(now, n). RxCallback now n) ps t"

definition skipped_time :: "(rat \<times> u32) list \<Rightarrow> rat" where
  "skipped_time ps = (if ps = [] then 0 else fst (ps ! (min (length ps) 10 - 1)))"

definition last_time :: "(rat \<times> u32) list \<Rightarrow> rat" where
  "last_time ps = (if length ps \<le> 10 then 0 else fst (last ps))"

definition counted :: "(rat \<times> u32) list \<Rightarrow> u64" where
  "counted ps = sum_list (map (\<lambda>(now, n). ucast n) (drop 10 ps))"

lemma measured_snoc:
  "skipped_time (ps @ [(now, n)]) = (if length ps < 10 then now else skipped_time ps)"
  "last_time (ps @ [(now, n)]) = (if length ps < 10 then 0 else now)"
  "counted (ps @ [(now, n)]) = (if length ps < 10 then counted ps else counted ps + ucast n)"
proof -
  show "skipped_time (ps @ [(now, n)]) = (if length ps < 10 then now else skipped_time ps)"
    by (auto simp: skipped_time_def nth_append min_def)
  show "last_time (ps @ [(now, n)]) = (if length ps < 10 then 0 else now)" by (simp add: last_time_def)
  show "counted (ps @ [(now, n)]) = (if length ps < 10 then counted ps else counted ps + ucast n)" by (simp add: counted_def)
qed

lemma sent_all_state:
  "sent_all ps initial_traffic = initial_traffic\<lparr>first_tx := length ps < 10, counter_sender_10 := 10 - int (min (length ps) 10),
     first_packet_send_time_tx := skipped_time ps, last_packet_send_time_tx := last_time ps, totalTxBytes := counted ps\<rparr>"
proof (induction ps rule: rev_induct)
  case Nil
  show ?case by (simp add: sent_all_def initial_traffic_def skipped_time_def last_time_def counted_def)
next
  case (snoc p ps)
  obtain now n where p: "p = (now, n)" by fastforce
  have s: "sent_all (ps @ [p]) initial_traffic = TxCallback now n (sent_all ps initial_traffic)" by (simp add: sent_all_def p)
  consider "length ps < 9" | "length ps = 9" | "10 \<le> length ps" by linarith
  then show ?case
    unfolding s snoc.IH TxCallback_def by cases (simp_all add: p measured_snoc last_time_def Let_def min_def initial_traffic_def)
qed

lemma received_all_state:
  "received_all ps initial_traffic = initial_traffic\<lparr>first_rx := length ps < 10, counter_receiver_10 := 10 - int (min (length ps) 10),
     first_packet_received_time_rx := skipped_time ps, last_packet_received_time_rx := last_time ps, totalRxBytes := counted ps\<rparr>"
proof (induction ps rule: rev_induct)
  case Nil
  show ?case by (simp add: received_all_def initial_traffic_def skipped_time_def last_time_def counted_def)
next
  case (snoc p ps)
  obtain now n where p: "p = (now, n)" by fastforce
  have s: "received_all (ps @ [p]) initial_traffic = RxCallback now n (received_all ps initial_traffic)" by (simp add: received_all_def p)
  consider "length ps < 9" | "length ps = 9" | "10 \<le> length ps" by linarith
  then show ?case
    unfolding s snoc.IH RxCallback_def by cases (simp_all add: p measured_snoc last_time_def Let_def min_def initial_traffic_def)
qed

text \<open>The printed number is exact for packets of one size at a constant rate.\<close>

lemma constant_rate:
  assumes "ps = map (\<lambda>k. (t0 + of_nat k * d, sz)) [0..<n]" "10 < n" "0 < d" "(n - 10) * unat sz < 2 ^ 64"
  shows "fst (PrintFinalThroughput (sent_all ps initial_traffic)) = Some (of_nat (unat sz) * 8 / (d * 1000000))"
proof -
  have l: "length ps = n" and nth: "ps ! k = (t0 + of_nat k * d, sz)" if "k < n" for k using assms(1) that by simp_all
  have "last ps = ps ! (n - 1)" using assms(1,2) by (simp add: last_conv_nth)
  then have last: "last_time ps = t0 + of_nat (n - 1) * d" using nth [of "n - 1"] assms(1,2) by (simp add: last_time_def)
  have skip: "skipped_time ps = t0 + of_nat 9 * d" using nth [of 9] assms(1,2) by (auto simp: skipped_time_def min_def)
  have "drop 10 ps = map (\<lambda>k. (t0 + of_nat k * d, sz)) [10..<n]" using assms(1) by (simp add: drop_map)
  then have "counted ps = of_nat (n - 10) * ucast sz" by (simp add: counted_def comp_def sum_list_triv)
  moreover have "unat (ucast sz :: u64) = unat sz"
  proof -
    have "unat sz < 2 ^ 64" using unsigned_less [of sz, where 'a = nat] by simp
    then show ?thesis by (simp add: unsigned_ucast_eq take_bit_nat_eq_self)
  qed
  ultimately have "unat (counted ps) = (n - 10) * unat sz mod 2 ^ 64"
    by (simp add: unat_word_ariths unat_of_nat mod_mult_left_eq)
  then have c: "unat (counted ps) = (n - 10) * unat sz" using assms(4) by simp
  have e: "last_time ps - skipped_time ps = of_nat (n - 10) * d"
    unfolding last skip using assms(2) by (simp add: of_nat_diff algebra_simps)
  have "divided (of_nat ((n - 10) * unat sz) * 8) (of_nat (n - 10) * d * 1000000) = Some (of_nat (unat sz) * 8 / (d * 1000000))"
    using assms(2,3) by (simp add: divided_def)
  moreover have "totalTxBytes (sent_all ps initial_traffic) = counted ps" "last_packet_send_time_tx (sent_all ps initial_traffic) = last_time ps"
    "first_packet_send_time_tx (sent_all ps initial_traffic) = skipped_time ps"
    by (simp_all add: sent_all_state)
  ultimately show ?thesis by (simp only: PrintFinalThroughput_def Let_def fst_conv c e)
qed

subsection \<open>Counters of a switch\<close>

text \<open>One of the four switches that are watched. Two packets are skipped, with the counter for receptions in both directions.\<close>

record SwitchInfoTracing =
  si_first_tx :: bool
  si_first_rx :: bool
  si_counter_sender_10 :: int
  si_counter_receiver_10 :: int
  si_totalTxBytes :: u64
  si_totalTxBytes_lasttime :: u64
  si_totalRxBytes :: u64
  si_totalRxBytes_lasttime :: u64
  si_totalPackets :: u64
  si_totalPackets_lasttime :: u64
  si_first_send :: rat
  si_last_send :: rat
  si_first_received :: rat
  si_last_received :: rat

definition new_SwitchInfoTracing :: SwitchInfoTracing where
  "new_SwitchInfoTracing =
     \<lparr>si_first_tx = True, si_first_rx = True, si_counter_sender_10 = 2, si_counter_receiver_10 = 2,
      si_totalTxBytes = 0, si_totalTxBytes_lasttime = 0, si_totalRxBytes = 0, si_totalRxBytes_lasttime = 0,
      si_totalPackets = 0, si_totalPackets_lasttime = 0, si_first_send = 0, si_last_send = 0, si_first_received = 0, si_last_received = 0\<rparr>"

text \<open>The callbacks of the switches 0, 2 and 3 are the same, each on its own counters.\<close>

definition RxCallback_switch :: "rat \<Rightarrow> u32 \<Rightarrow> SwitchInfoTracing \<Rightarrow> SwitchInfoTracing" where
  "RxCallback_switch now packet_size w =
     (let w = w\<lparr>si_totalPackets := si_totalPackets w + 1\<rparr>
      in if si_first_rx w
         then
           (let w = w\<lparr>si_first_received := now, si_counter_receiver_10 := si_counter_receiver_10 w - 1\<rparr>
            in if si_counter_receiver_10 w = 0 then w\<lparr>si_first_rx := False\<rparr> else w)
         else w\<lparr>si_totalRxBytes := si_totalRxBytes w + ucast packet_size, si_last_received := now\<rparr>)"

definition TxCallback_switch :: "rat \<Rightarrow> u32 \<Rightarrow> SwitchInfoTracing \<Rightarrow> SwitchInfoTracing" where
  "TxCallback_switch now packet_size w =
     (let w = w\<lparr>si_totalPackets := si_totalPackets w + 1\<rparr>
      in if si_first_tx w
         then
           (let w = w\<lparr>si_first_send := now, si_counter_receiver_10 := si_counter_receiver_10 w - 1\<rparr>
            in if si_counter_receiver_10 w = 0 then w\<lparr>si_first_tx := False\<rparr> else w)
         else w\<lparr>si_totalTxBytes := si_totalTxBytes w + ucast packet_size, si_last_send := now\<rparr>)"

text \<open>What \<open>CalculateThroughput\<close>, which runs once a second, does for a switch that receives, and for the one that
  sends: the Mbps of the last second.\<close>

definition CalculateRx :: "SwitchInfoTracing \<Rightarrow> rat \<times> SwitchInfoTracing" where
  "CalculateRx w =
     (of_nat (unat (si_totalRxBytes w - si_totalRxBytes_lasttime w)) * 8 / 1000000, w\<lparr>si_totalRxBytes_lasttime := si_totalRxBytes w\<rparr>)"

definition CalculateTx :: "SwitchInfoTracing \<Rightarrow> rat \<times> SwitchInfoTracing" where
  "CalculateTx w =
     (of_nat (unat (si_totalTxBytes w - si_totalTxBytes_lasttime w)) * 8 / 1000000, w\<lparr>si_totalTxBytes_lasttime := si_totalTxBytes w\<rparr>)"

text \<open>A run of seconds, each with the packets received in it: the numbers that are reported add up to the bytes received after
  the first two packets.\<close>

fun rx_second :: "(rat \<times> u32) list \<Rightarrow> SwitchInfoTracing \<Rightarrow> rat \<times> SwitchInfoTracing" where
  "rx_second ps w = CalculateRx (fold (\<lambda>(now, n). RxCallback_switch now n) ps w)"

fun rx_seconds :: "(rat \<times> u32) list list \<Rightarrow> SwitchInfoTracing \<Rightarrow> rat list \<times> SwitchInfoTracing" where
  "rx_seconds [] w = ([], w)"
| "rx_seconds (ps # pss) w =
     (let (x, w) = rx_second ps w; (xs, w) = rx_seconds pss w in (x # xs, w))"

definition bytes :: "(rat \<times> u32) list \<Rightarrow> nat" where
  "bytes ps = sum_list (map (\<lambda>(now, n). unat n) ps)"

lemma bytes_simps [simp]: "bytes [] = 0" "bytes (p # ps) = unat (snd p) + bytes ps" "bytes (ps @ qs) = bytes ps + bytes qs"
  by (simp_all add: bytes_def split_beta)

text \<open>How many packets are still to be skipped.\<close>

definition to_skip :: "SwitchInfoTracing \<Rightarrow> nat" where
  "to_skip w = (if si_first_rx w then nat (si_counter_receiver_10 w) else 0)"

definition counting :: "SwitchInfoTracing \<Rightarrow> bool" where
  "counting w \<longleftrightarrow> (si_first_rx w \<longrightarrow> 0 < si_counter_receiver_10 w)"

lemma rx_packets:
  assumes "counting w"
  shows "let w' = fold (\<lambda>(now, n). RxCallback_switch now n) ps w
    in counting w' \<and> to_skip w' = to_skip w - length ps \<and> si_totalRxBytes_lasttime w' = si_totalRxBytes_lasttime w \<and>
      si_totalRxBytes w' = si_totalRxBytes w + of_nat (bytes (drop (to_skip w) ps))"
  using assms
proof (induction ps arbitrary: w)
  case (Cons p ps)
  obtain now n where p: "p = (now, n)" by fastforce
  let ?v = "RxCallback_switch now n w"
  have u: "(of_nat (unat n) :: u64) = ucast n" by (rule of_nat_unat)
  have v: "counting ?v" "to_skip ?v = to_skip w - 1" "si_totalRxBytes_lasttime ?v = si_totalRxBytes_lasttime w"
    "si_totalRxBytes ?v = si_totalRxBytes w + (if to_skip w = 0 then ucast n else 0)"
    using Cons.prems by (auto simp: RxCallback_switch_def counting_def to_skip_def Let_def)
  have s: "drop (to_skip w) (p # ps) = (if to_skip w = 0 then p # ps else drop (to_skip w - 1) ps)" by (simp add: drop_Cons')
  show ?case using Cons.IH [OF v(1)] v u unfolding s by (simp add: p Let_def split: if_splits)
qed (simp add: Let_def)

text \<open>The throughput that the spine-leaf example reports every second adds up: over any number of seconds, the sum of the
  reported numbers is the size of all packets that the switch has received, without the first two, in megabits. (The differences are
  taken modulo \<open>2 ^ 64\<close>.)\<close>

theorem reported_seconds_add_up:
  assumes "bytes (concat pss) < 2 ^ 64"
  shows "sum_list (fst (rx_seconds pss new_SwitchInfoTracing)) = of_nat (bytes (drop 2 (concat pss))) * 8 / 1000000"
proof -
  have "sum_list (fst (rx_seconds pss w)) = of_nat (bytes (drop (to_skip w) (concat pss))) * 8 / 1000000"
    if "counting w" "si_totalRxBytes_lasttime w = si_totalRxBytes w" "bytes (concat pss) < 2 ^ 64" for w
    using that
  proof (induction pss arbitrary: w)
    case (Cons ps pss)
    let ?k = "to_skip w"
    define v where "v = fold (\<lambda>(now, n). RxCallback_switch now n) ps w"
    define u where "u = v\<lparr>si_totalRxBytes_lasttime := si_totalRxBytes v\<rparr>"
    have v: "counting v" "to_skip v = ?k - length ps" "si_totalRxBytes_lasttime v = si_totalRxBytes w"
      "si_totalRxBytes v = si_totalRxBytes w + of_nat (bytes (drop ?k ps))"
      using rx_packets [OF Cons.prems(1), of ps] Cons.prems(2) unfolding v_def Let_def by simp_all
    have "bytes (drop ?k ps) \<le> bytes ps" using bytes_simps(3) [of "take ?k ps" "drop ?k ps"] by simp
    then have b: "bytes (drop ?k ps) < 2 ^ 64" "bytes (concat pss) < 2 ^ 64" using Cons.prems(3) by simp_all
    have "unat (si_totalRxBytes v - si_totalRxBytes_lasttime v) = bytes (drop ?k ps)"
      using b(1) unfolding v(3,4) by (simp add: unat_of_nat)
    then have s: "rx_second ps w = (of_nat (bytes (drop ?k ps)) * 8 / 1000000, u)" by (simp add: v_def [symmetric] CalculateRx_def u_def)
    have "counting u = counting v" "to_skip u = to_skip v" by (simp_all add: u_def counting_def to_skip_def)
    then have "counting u" "to_skip u = ?k - length ps" using v(1,2) by simp_all
    moreover have "sum_list (fst (rx_seconds pss u)) = of_nat (bytes (drop (to_skip u) (concat pss))) * 8 / 1000000"
      by (rule Cons.IH [OF calculation(1) _ b(2)]) (simp add: u_def)
    ultimately show ?case using s by (simp add: split_beta add_divide_distrib algebra_simps del: rx_second.simps)
  qed simp
  then show ?thesis using assms by (simp add: counting_def to_skip_def new_SwitchInfoTracing_def)
qed

theorem reported_seconds_add_up_witness:
  "sum_list (fst (rx_seconds [[(1, 100), (2, 100), (3, 50)], [], [(4, 7)]] new_SwitchInfoTracing)) = 57 * 8 / 1000000"
proof -
  let ?pss = "[[(1, 100), (2, 100), (3, 50)], [], [(4, 7)]] :: (rat \<times> u32) list list"
  have "bytes (concat ?pss) = 257" by simp
  then have "bytes (concat ?pss) < 2 ^ 64" by simp
  moreover have "drop 2 (concat ?pss) = [(3, 50), (4, 7)]" by (simp add: numeral_2_eq_2)
  then have "bytes (drop 2 (concat ?pss)) = 57" by simp
  ultimately show ?thesis using reported_seconds_add_up [of ?pss] by simp
qed

end
