(* ===== verification/Runtime_Api.thy ===== *)
theory Runtime_Api
  imports V1model_Timers
begin

text \<open>
  The runtime interface of the v1model switch (\<open>model/p4-core-v1model.cc\<close>, from
  \<open>GetNumEntries\<close> to \<open>GetConfigMd5\<close>): the functions a control plane calls to read and change
  match tables, action profiles, counters, meters, registers, parse value sets and the
  configuration of the running program. Each passes one request on to BMv2 and turns its error
  code into 0 or -1. The program state they act on is the member \<open>world\<close> of the switch, the one
  packets are processed with; every request is for the context 0.

  BMv2 is not part of the repository. A request that can change the program is a value of one of
  the \<open>_call\<close> types below, whose constructors have the names of the library's functions; the
  fields of \<open>runtime\<close> say how BMv2 answers. A request that only reads is a field of
  \<open>runtime_reads\<close>. A result that BMv2 returns through a pointer is an option: \<open>None\<close> means that it
  was not written. What is logged is left out; the texts of the error codes are at the end.
\<close>

subsection \<open>Error codes\<close>

datatype MatchErrorCode =
    M_SUCCESS | M_TABLE_FULL | M_INVALID_HANDLE | M_EXPIRED_HANDLE | M_COUNTERS_DISABLED
  | M_METERS_DISABLED | M_AGEING_DISABLED | M_INVALID_TABLE_NAME | M_INVALID_ACTION_NAME
  | M_WRONG_TABLE_TYPE | M_INVALID_MBR_HANDLE | M_MBR_STILL_USED | M_MBR_ALREADY_IN_GRP
  | M_MBR_NOT_IN_GRP | M_INVALID_GRP_HANDLE | M_GRP_STILL_USED | M_EMPTY_GRP | M_DUPLICATE_ENTRY
  | M_BAD_MATCH_KEY | M_INVALID_METER_OPERATION | M_DEFAULT_ACTION_IS_CONST
  | M_DEFAULT_ENTRY_IS_CONST | M_NO_DEFAULT_ENTRY | M_INVALID_ACTION_PROFILE_NAME
  | M_NO_ACTION_PROFILE_SELECTION | M_IMMUTABLE_TABLE_ENTRIES | M_BAD_ACTION_DATA | M_NO_TABLE_KEY
  | M_ERROR | M_OTHER

datatype CounterErrorCode =
    C_SUCCESS | C_INVALID_COUNTER_NAME | C_INVALID_INDEX | C_ERROR | C_OTHER

datatype MeterErrorCode =
    R_SUCCESS | R_INVALID_METER_NAME | R_INVALID_INDEX | R_BAD_RATES_LIST
  | R_INVALID_INFO_RATE_VALUE | R_INVALID_BURST_SIZE_VALUE | R_ERROR | R_OTHER

datatype RegisterErrorCode =
    G_SUCCESS | G_INVALID_REGISTER_NAME | G_INVALID_INDEX | G_ERROR | G_OTHER

datatype RuntimeErrorCode =
    I_SUCCESS | I_CONFIG_SWAP_DISABLED | I_ONGOING_SWAP | I_NO_ONGOING_SWAP | I_OTHER

text \<open>Of the error codes of parse value sets the code only tests for success.\<close>

datatype VSetErrorCode = V_SUCCESS | V_OTHER nat

subsection \<open>Values of BMv2\<close>

text \<open>
  A vector of match keys is a value of \<open>'k\<close>, action data of \<open>'a\<close>, a \<open>bm::Data\<close> of \<open>'d\<close>, a
  \<open>ByteContainer\<close> its bytes. Of the library's structures the fields that the repository reads
  are kept. \<open>action_fn\<close> is a pointer, here the name of the action or \<open>None\<close> for a null pointer.
\<close>

type_synonym entry_handle_t = u64
type_synonym mbr_hdl_t = u32
type_synonym grp_hdl_t = u32

record rate_config_t =
  info_rate :: rat
  burst_size :: nat

record match_entry =
  te_handle :: entry_handle_t
  te_priority :: int
  te_action_fn :: "string option"

record indirect_entry =
  ie_handle :: entry_handle_t
  ie_priority :: int
  ie_mbr :: mbr_hdl_t

record ws_entry =
  we_handle :: entry_handle_t
  we_priority :: int
  we_mbr :: mbr_hdl_t
  we_grp :: grp_hdl_t

record profile_member =
  pm_mbr :: mbr_hdl_t
  pm_action_fn :: "string option"
  pm_action_data :: "string list"

record profile_group =
  pg_grp :: grp_hdl_t
  pg_mbr_handles :: "mbr_hdl_t list"

subsection \<open>Requests\<close>

datatype 'a table_call =
    mt_clear_entries string bool
  | mt_set_default_action string string 'a
  | mt_reset_default_entry string
  | mt_delete_entry string entry_handle_t
  | mt_modify_entry string entry_handle_t string 'a
  | mt_set_entry_ttl string entry_handle_t u32
  | mt_reset_counters string
  | mt_write_counters string entry_handle_t u64 u64
  | mt_set_meter_rates string entry_handle_t "rate_config_t list"
  | mt_reset_meter_rates string entry_handle_t

datatype indirect_call =
    mt_indirect_modify_entry string entry_handle_t mbr_hdl_t
  | mt_indirect_delete_entry string entry_handle_t
  | mt_indirect_set_entry_ttl string entry_handle_t u32
  | mt_indirect_set_default_member string mbr_hdl_t
  | mt_indirect_reset_default_entry string
  | mt_indirect_ws_modify_entry string entry_handle_t grp_hdl_t
  | mt_indirect_ws_set_default_group string grp_hdl_t

datatype 'a profile_call =
    mt_act_prof_delete_member string mbr_hdl_t
  | mt_act_prof_modify_member string mbr_hdl_t string 'a
  | mt_act_prof_delete_group string grp_hdl_t
  | mt_act_prof_add_member_to_group string mbr_hdl_t grp_hdl_t
  | mt_act_prof_remove_member_from_group string mbr_hdl_t grp_hdl_t

text \<open>The requests that give a new handle.\<close>

datatype ('k, 'a) add_call =
    mt_add_entry string 'k string 'a int
  | mt_indirect_add_entry string 'k mbr_hdl_t int
  | mt_indirect_ws_add_entry string 'k grp_hdl_t int

datatype 'a profile_add_call =
    mt_act_prof_add_member string string 'a
  | mt_act_prof_create_group string

datatype counter_call =
    bm_reset_counters string
  | bm_write_counters string u64 u64 u64

datatype meter_call =
    meter_array_set_rates string "rate_config_t list"
  | meter_set_rates string u64 "rate_config_t list"
  | meter_reset_rates string u64

datatype 'd register_call =
    register_write string u64 'd
  | register_write_range string u64 u64 'd
  | register_reset string

datatype vset_call =
    parse_vset_add string "u8 list"
  | parse_vset_remove string "u8 list"
  | parse_vset_clear string

datatype config_call =
    reset_state
  | load_new_config string
  | swap_configs

record ('w, 'k, 'a, 'd) runtime =
  rt_table :: "'w \<Rightarrow> 'a table_call \<Rightarrow> 'w \<times> MatchErrorCode"
  rt_indirect :: "'w \<Rightarrow> indirect_call \<Rightarrow> 'w \<times> MatchErrorCode"
  rt_profile :: "'w \<Rightarrow> 'a profile_call \<Rightarrow> 'w \<times> MatchErrorCode"
  rt_add :: "'w \<Rightarrow> ('k, 'a) add_call \<Rightarrow> 'w \<times> MatchErrorCode \<times> entry_handle_t option"
  rt_profile_add :: "'w \<Rightarrow> 'a profile_add_call \<Rightarrow> 'w \<times> MatchErrorCode \<times> u32 option"
  rt_counter :: "'w \<Rightarrow> counter_call \<Rightarrow> 'w \<times> CounterErrorCode"
  rt_meter :: "'w \<Rightarrow> meter_call \<Rightarrow> 'w \<times> MeterErrorCode"
  rt_register :: "'w \<Rightarrow> 'd register_call \<Rightarrow> 'w \<times> RegisterErrorCode"
  rt_vset :: "'w \<Rightarrow> vset_call \<Rightarrow> 'w \<times> VSetErrorCode"
  rt_config :: "'w \<Rightarrow> config_call \<Rightarrow> 'w \<times> RuntimeErrorCode"

text \<open>
  The requests that only read. \<open>None\<close> for a list of entries is a C++ exception.
\<close>

record ('w, 'k, 'a, 'd) runtime_reads = "('w, 'k, 'a, 'd) runtime" +
  mt_get_num_entries :: "'w \<Rightarrow> string \<Rightarrow> MatchErrorCode \<times> u64 option"
  mt_get_entries :: "'w \<Rightarrow> string \<Rightarrow> match_entry list option"
  mt_indirect_get_entries :: "'w \<Rightarrow> string \<Rightarrow> indirect_entry list option"
  mt_indirect_ws_get_entries :: "'w \<Rightarrow> string \<Rightarrow> ws_entry list option"
  mt_get_entry :: "'w \<Rightarrow> string \<Rightarrow> entry_handle_t \<Rightarrow> MatchErrorCode \<times> match_entry option"
  mt_indirect_get_entry :: "'w \<Rightarrow> string \<Rightarrow> entry_handle_t \<Rightarrow> MatchErrorCode \<times> indirect_entry option"
  mt_indirect_ws_get_entry :: "'w \<Rightarrow> string \<Rightarrow> entry_handle_t \<Rightarrow> MatchErrorCode \<times> ws_entry option"
  mt_get_default_entry :: "'w \<Rightarrow> string \<Rightarrow> MatchErrorCode \<times> match_entry option"
  mt_indirect_get_default_entry :: "'w \<Rightarrow> string \<Rightarrow> MatchErrorCode \<times> indirect_entry option"
  mt_indirect_ws_get_default_entry :: "'w \<Rightarrow> string \<Rightarrow> MatchErrorCode \<times> ws_entry option"
  mt_get_entry_from_key :: "'w \<Rightarrow> string \<Rightarrow> 'k \<Rightarrow> int \<Rightarrow> MatchErrorCode \<times> match_entry option"
  mt_indirect_get_entry_from_key :: "'w \<Rightarrow> string \<Rightarrow> 'k \<Rightarrow> int \<Rightarrow> MatchErrorCode \<times> indirect_entry option"
  mt_indirect_ws_get_entry_from_key :: "'w \<Rightarrow> string \<Rightarrow> 'k \<Rightarrow> int \<Rightarrow> MatchErrorCode \<times> ws_entry option"
  mt_act_prof_get_members :: "'w \<Rightarrow> string \<Rightarrow> profile_member list"
  mt_act_prof_get_member :: "'w \<Rightarrow> string \<Rightarrow> mbr_hdl_t \<Rightarrow> MatchErrorCode \<times> profile_member option"
  mt_act_prof_get_groups :: "'w \<Rightarrow> string \<Rightarrow> profile_group list"
  mt_act_prof_get_group :: "'w \<Rightarrow> string \<Rightarrow> grp_hdl_t \<Rightarrow> MatchErrorCode \<times> profile_group option"
  mt_read_counters :: "'w \<Rightarrow> string \<Rightarrow> entry_handle_t \<Rightarrow> MatchErrorCode \<times> (u64 \<times> u64) option"
  bm_read_counters :: "'w \<Rightarrow> string \<Rightarrow> u64 \<Rightarrow> CounterErrorCode \<times> (u64 \<times> u64) option"
  mt_get_meter_rates :: "'w \<Rightarrow> string \<Rightarrow> entry_handle_t \<Rightarrow> MatchErrorCode \<times> rate_config_t list option"
  meter_get_rates :: "'w \<Rightarrow> string \<Rightarrow> u64 \<Rightarrow> MeterErrorCode \<times> rate_config_t list option"
  register_read :: "'w \<Rightarrow> string \<Rightarrow> u64 \<Rightarrow> RegisterErrorCode \<times> 'd option"
  register_read_all :: "'w \<Rightarrow> string \<Rightarrow> 'd list"
  parse_vset_get :: "'w \<Rightarrow> string \<Rightarrow> VSetErrorCode \<times> u8 list list option"
  bm_serialize :: "'w \<Rightarrow> RuntimeErrorCode \<times> string"
  get_config :: "'w \<Rightarrow> string"
  get_config_md5 :: "'w \<Rightarrow> string"

subsection \<open>The functions of the core\<close>

text \<open>
  The common bodies: one request, and 0 if BMv2 reports success and -1 otherwise. The handle or
  value that comes back through a pointer is returned beside the result.
\<close>

definition rc_of :: "bool \<Rightarrow> int" where
  "rc_of success = (if success then 0 else - 1)"

definition request :: "('addr, 'w, 'p) v1model \<Rightarrow> 'e \<Rightarrow> 'w \<times> 'e \<Rightarrow> ('addr, 'w, 'p) v1model \<times> int" where
  "request c success answer = (c\<lparr>world := fst answer\<rparr>, rc_of (snd answer = success))"

definition request_new ::
  "('addr, 'w, 'p) v1model \<Rightarrow> 'w \<times> MatchErrorCode \<times> 'h option \<Rightarrow> ('addr, 'w, 'p) v1model \<times> int \<times> 'h option" where
  "request_new c answer =
     (c\<lparr>world := fst answer\<rparr>, rc_of (fst (snd answer) = M_SUCCESS), snd (snd answer))"

definition read_request :: "'e \<Rightarrow> 'e \<times> 'r \<Rightarrow> int \<times> 'r" where
  "read_request success answer = (rc_of (fst answer = success), snd answer)"

text \<open>\<open>GetNumEntries\<close> casts a \<open>size_t\<close> to \<open>int\<close>; the variable starts as 0.\<close>

definition GetNumEntries :: "('w, 'k, 'a, 'd) runtime_reads \<Rightarrow> ('addr, 'w, 'p) v1model \<Rightarrow> string \<Rightarrow> int" where
  "GetNumEntries R c tableName =
     (let (rc, num) = mt_get_num_entries R (world c) tableName
      in if rc \<noteq> M_SUCCESS then - 1 else sint (ucast (case num of None \<Rightarrow> 0 | Some n \<Rightarrow> n) :: u32))"

text \<open>Direct tables.\<close>

definition ClearFlowTableEntries ::
  "('w, 'k, 'a, 'd) runtime_reads \<Rightarrow> ('addr, 'w, 'p) v1model \<Rightarrow> string \<Rightarrow> bool \<Rightarrow>
   ('addr, 'w, 'p) v1model \<times> int" where
  "ClearFlowTableEntries R c tableName resetDefault =
     request c M_SUCCESS (rt_table R (world c) (mt_clear_entries tableName resetDefault))"

definition AddFlowEntry ::
  "('w, 'k, 'a, 'd) runtime_reads \<Rightarrow> ('addr, 'w, 'p) v1model \<Rightarrow> string \<Rightarrow> 'k \<Rightarrow> string \<Rightarrow> 'a \<Rightarrow> int \<Rightarrow>
   ('addr, 'w, 'p) v1model \<times> int \<times> entry_handle_t option" where
  "AddFlowEntry R c tableName matchKey actionName actionData priority =
     request_new c (rt_add R (world c) (mt_add_entry tableName matchKey actionName actionData priority))"

definition SetDefaultAction ::
  "('w, 'k, 'a, 'd) runtime_reads \<Rightarrow> ('addr, 'w, 'p) v1model \<Rightarrow> string \<Rightarrow> string \<Rightarrow> 'a \<Rightarrow>
   ('addr, 'w, 'p) v1model \<times> int" where
  "SetDefaultAction R c tableName actionName actionData =
     request c M_SUCCESS (rt_table R (world c) (mt_set_default_action tableName actionName actionData))"

definition ResetDefaultEntry ::
  "('w, 'k, 'a, 'd) runtime_reads \<Rightarrow> ('addr, 'w, 'p) v1model \<Rightarrow> string \<Rightarrow>
   ('addr, 'w, 'p) v1model \<times> int" where
  "ResetDefaultEntry R c tableName =
     request c M_SUCCESS (rt_table R (world c) (mt_reset_default_entry tableName))"

definition DeleteFlowEntry ::
  "('w, 'k, 'a, 'd) runtime_reads \<Rightarrow> ('addr, 'w, 'p) v1model \<Rightarrow> string \<Rightarrow> entry_handle_t \<Rightarrow>
   ('addr, 'w, 'p) v1model \<times> int" where
  "DeleteFlowEntry R c tableName handle =
     request c M_SUCCESS (rt_table R (world c) (mt_delete_entry tableName handle))"

definition ModifyFlowEntry ::
  "('w, 'k, 'a, 'd) runtime_reads \<Rightarrow> ('addr, 'w, 'p) v1model \<Rightarrow> string \<Rightarrow> entry_handle_t \<Rightarrow> string \<Rightarrow> 'a \<Rightarrow>
   ('addr, 'w, 'p) v1model \<times> int" where
  "ModifyFlowEntry R c tableName handle actionName actionData =
     request c M_SUCCESS (rt_table R (world c) (mt_modify_entry tableName handle actionName actionData))"

definition SetEntryTtl ::
  "('w, 'k, 'a, 'd) runtime_reads \<Rightarrow> ('addr, 'w, 'p) v1model \<Rightarrow> string \<Rightarrow> entry_handle_t \<Rightarrow> u32 \<Rightarrow>
   ('addr, 'w, 'p) v1model \<times> int" where
  "SetEntryTtl R c tableName handle ttlMs =
     request c M_SUCCESS (rt_table R (world c) (mt_set_entry_ttl tableName handle ttlMs))"

text \<open>Action profiles. \<open>GetActionProfileMembers\<close> and \<open>GetActionProfileGroups\<close> always return 0.\<close>

definition AddActionProfileMember ::
  "('w, 'k, 'a, 'd) runtime_reads \<Rightarrow> ('addr, 'w, 'p) v1model \<Rightarrow> string \<Rightarrow> string \<Rightarrow> 'a \<Rightarrow>
   ('addr, 'w, 'p) v1model \<times> int \<times> mbr_hdl_t option" where
  "AddActionProfileMember R c profileName actionName actionData =
     request_new c (rt_profile_add R (world c) (mt_act_prof_add_member profileName actionName actionData))"

definition DeleteActionProfileMember ::
  "('w, 'k, 'a, 'd) runtime_reads \<Rightarrow> ('addr, 'w, 'p) v1model \<Rightarrow> string \<Rightarrow> mbr_hdl_t \<Rightarrow>
   ('addr, 'w, 'p) v1model \<times> int" where
  "DeleteActionProfileMember R c profileName memberHandle =
     request c M_SUCCESS (rt_profile R (world c) (mt_act_prof_delete_member profileName memberHandle))"

definition ModifyActionProfileMember ::
  "('w, 'k, 'a, 'd) runtime_reads \<Rightarrow> ('addr, 'w, 'p) v1model \<Rightarrow> string \<Rightarrow> mbr_hdl_t \<Rightarrow> string \<Rightarrow> 'a \<Rightarrow>
   ('addr, 'w, 'p) v1model \<times> int" where
  "ModifyActionProfileMember R c profileName memberHandle actionName actionData =
     request c M_SUCCESS (rt_profile R (world c) (mt_act_prof_modify_member profileName memberHandle actionName actionData))"

definition CreateActionProfileGroup ::
  "('w, 'k, 'a, 'd) runtime_reads \<Rightarrow> ('addr, 'w, 'p) v1model \<Rightarrow> string \<Rightarrow>
   ('addr, 'w, 'p) v1model \<times> int \<times> grp_hdl_t option" where
  "CreateActionProfileGroup R c profileName =
     request_new c (rt_profile_add R (world c) (mt_act_prof_create_group profileName))"

definition DeleteActionProfileGroup ::
  "('w, 'k, 'a, 'd) runtime_reads \<Rightarrow> ('addr, 'w, 'p) v1model \<Rightarrow> string \<Rightarrow> grp_hdl_t \<Rightarrow>
   ('addr, 'w, 'p) v1model \<times> int" where
  "DeleteActionProfileGroup R c profileName groupHandle =
     request c M_SUCCESS (rt_profile R (world c) (mt_act_prof_delete_group profileName groupHandle))"

definition AddMemberToGroup ::
  "('w, 'k, 'a, 'd) runtime_reads \<Rightarrow> ('addr, 'w, 'p) v1model \<Rightarrow> string \<Rightarrow> mbr_hdl_t \<Rightarrow> grp_hdl_t \<Rightarrow>
   ('addr, 'w, 'p) v1model \<times> int" where
  "AddMemberToGroup R c profileName memberHandle groupHandle =
     request c M_SUCCESS (rt_profile R (world c) (mt_act_prof_add_member_to_group profileName memberHandle groupHandle))"

definition RemoveMemberFromGroup ::
  "('w, 'k, 'a, 'd) runtime_reads \<Rightarrow> ('addr, 'w, 'p) v1model \<Rightarrow> string \<Rightarrow> mbr_hdl_t \<Rightarrow> grp_hdl_t \<Rightarrow>
   ('addr, 'w, 'p) v1model \<times> int" where
  "RemoveMemberFromGroup R c profileName memberHandle groupHandle =
     request c M_SUCCESS (rt_profile R (world c) (mt_act_prof_remove_member_from_group profileName memberHandle groupHandle))"

definition GetActionProfileMembers ::
  "('w, 'k, 'a, 'd) runtime_reads \<Rightarrow> ('addr, 'w, 'p) v1model \<Rightarrow> string \<Rightarrow> int \<times> profile_member list" where
  "GetActionProfileMembers R c profileName = (0, mt_act_prof_get_members R (world c) profileName)"

definition GetActionProfileMember ::
  "('w, 'k, 'a, 'd) runtime_reads \<Rightarrow> ('addr, 'w, 'p) v1model \<Rightarrow> string \<Rightarrow> mbr_hdl_t \<Rightarrow> int \<times> profile_member option" where
  "GetActionProfileMember R c profileName memberHandle = read_request M_SUCCESS (mt_act_prof_get_member R (world c) profileName memberHandle)"

definition GetActionProfileGroups ::
  "('w, 'k, 'a, 'd) runtime_reads \<Rightarrow> ('addr, 'w, 'p) v1model \<Rightarrow> string \<Rightarrow> int \<times> profile_group list" where
  "GetActionProfileGroups R c profileName = (0, mt_act_prof_get_groups R (world c) profileName)"

definition GetActionProfileGroup ::
  "('w, 'k, 'a, 'd) runtime_reads \<Rightarrow> ('addr, 'w, 'p) v1model \<Rightarrow> string \<Rightarrow> grp_hdl_t \<Rightarrow> int \<times> profile_group option" where
  "GetActionProfileGroup R c profileName groupHandle = read_request M_SUCCESS (mt_act_prof_get_group R (world c) profileName groupHandle)"

text \<open>Indirect tables, with members and with groups of an action profile.\<close>

definition AddIndirectEntry ::
  "('w, 'k, 'a, 'd) runtime_reads \<Rightarrow> ('addr, 'w, 'p) v1model \<Rightarrow> string \<Rightarrow> 'k \<Rightarrow> mbr_hdl_t \<Rightarrow> int \<Rightarrow>
   ('addr, 'w, 'p) v1model \<times> int \<times> entry_handle_t option" where
  "AddIndirectEntry R c tableName matchKey memberHandle priority =
     request_new c (rt_add R (world c) (mt_indirect_add_entry tableName matchKey memberHandle priority))"

definition ModifyIndirectEntry ::
  "('w, 'k, 'a, 'd) runtime_reads \<Rightarrow> ('addr, 'w, 'p) v1model \<Rightarrow> string \<Rightarrow> entry_handle_t \<Rightarrow> mbr_hdl_t \<Rightarrow>
   ('addr, 'w, 'p) v1model \<times> int" where
  "ModifyIndirectEntry R c tableName entryHandle memberHandle =
     request c M_SUCCESS (rt_indirect R (world c) (mt_indirect_modify_entry tableName entryHandle memberHandle))"

definition DeleteIndirectEntry ::
  "('w, 'k, 'a, 'd) runtime_reads \<Rightarrow> ('addr, 'w, 'p) v1model \<Rightarrow> string \<Rightarrow> entry_handle_t \<Rightarrow>
   ('addr, 'w, 'p) v1model \<times> int" where
  "DeleteIndirectEntry R c tableName entryHandle =
     request c M_SUCCESS (rt_indirect R (world c) (mt_indirect_delete_entry tableName entryHandle))"

definition SetIndirectEntryTtl ::
  "('w, 'k, 'a, 'd) runtime_reads \<Rightarrow> ('addr, 'w, 'p) v1model \<Rightarrow> string \<Rightarrow> entry_handle_t \<Rightarrow> u32 \<Rightarrow>
   ('addr, 'w, 'p) v1model \<times> int" where
  "SetIndirectEntryTtl R c tableName handle ttlMs =
     request c M_SUCCESS (rt_indirect R (world c) (mt_indirect_set_entry_ttl tableName handle ttlMs))"

definition SetIndirectDefaultMember ::
  "('w, 'k, 'a, 'd) runtime_reads \<Rightarrow> ('addr, 'w, 'p) v1model \<Rightarrow> string \<Rightarrow> mbr_hdl_t \<Rightarrow>
   ('addr, 'w, 'p) v1model \<times> int" where
  "SetIndirectDefaultMember R c tableName memberHandle =
     request c M_SUCCESS (rt_indirect R (world c) (mt_indirect_set_default_member tableName memberHandle))"

definition ResetIndirectDefaultEntry ::
  "('w, 'k, 'a, 'd) runtime_reads \<Rightarrow> ('addr, 'w, 'p) v1model \<Rightarrow> string \<Rightarrow>
   ('addr, 'w, 'p) v1model \<times> int" where
  "ResetIndirectDefaultEntry R c tableName =
     request c M_SUCCESS (rt_indirect R (world c) (mt_indirect_reset_default_entry tableName))"

definition AddIndirectWsEntry ::
  "('w, 'k, 'a, 'd) runtime_reads \<Rightarrow> ('addr, 'w, 'p) v1model \<Rightarrow> string \<Rightarrow> 'k \<Rightarrow> grp_hdl_t \<Rightarrow> int \<Rightarrow>
   ('addr, 'w, 'p) v1model \<times> int \<times> entry_handle_t option" where
  "AddIndirectWsEntry R c tableName matchKey groupHandle priority =
     request_new c (rt_add R (world c) (mt_indirect_ws_add_entry tableName matchKey groupHandle priority))"

definition ModifyIndirectWsEntry ::
  "('w, 'k, 'a, 'd) runtime_reads \<Rightarrow> ('addr, 'w, 'p) v1model \<Rightarrow> string \<Rightarrow> entry_handle_t \<Rightarrow> grp_hdl_t \<Rightarrow>
   ('addr, 'w, 'p) v1model \<times> int" where
  "ModifyIndirectWsEntry R c tableName handle groupHandle =
     request c M_SUCCESS (rt_indirect R (world c) (mt_indirect_ws_modify_entry tableName handle groupHandle))"

definition SetIndirectWsDefaultGroup ::
  "('w, 'k, 'a, 'd) runtime_reads \<Rightarrow> ('addr, 'w, 'p) v1model \<Rightarrow> string \<Rightarrow> grp_hdl_t \<Rightarrow>
   ('addr, 'w, 'p) v1model \<times> int" where
  "SetIndirectWsDefaultGroup R c tableName groupHandle =
     request c M_SUCCESS (rt_indirect R (world c) (mt_indirect_ws_set_default_group tableName groupHandle))"

text \<open>Reading entries. The functions that return all entries catch every exception and return the empty list.\<close>

definition caught :: "'e list option \<Rightarrow> 'e list" where
  "caught entries = (case entries of None \<Rightarrow> [] | Some es \<Rightarrow> es)"

definition GetFlowEntries ::
  "('w, 'k, 'a, 'd) runtime_reads \<Rightarrow> ('addr, 'w, 'p) v1model \<Rightarrow> string \<Rightarrow> match_entry list" where
  "GetFlowEntries R c tableName = caught (mt_get_entries R (world c) tableName)"

definition GetIndirectFlowEntries ::
  "('w, 'k, 'a, 'd) runtime_reads \<Rightarrow> ('addr, 'w, 'p) v1model \<Rightarrow> string \<Rightarrow> indirect_entry list" where
  "GetIndirectFlowEntries R c tableName = caught (mt_indirect_get_entries R (world c) tableName)"

definition GetIndirectWsFlowEntries ::
  "('w, 'k, 'a, 'd) runtime_reads \<Rightarrow> ('addr, 'w, 'p) v1model \<Rightarrow> string \<Rightarrow> ws_entry list" where
  "GetIndirectWsFlowEntries R c tableName = caught (mt_indirect_ws_get_entries R (world c) tableName)"

definition GetEntry ::
  "('w, 'k, 'a, 'd) runtime_reads \<Rightarrow> ('addr, 'w, 'p) v1model \<Rightarrow> string \<Rightarrow> entry_handle_t \<Rightarrow> int \<times> match_entry option" where
  "GetEntry R c tableName handle = read_request M_SUCCESS (mt_get_entry R (world c) tableName handle)"

definition GetIndirectEntry ::
  "('w, 'k, 'a, 'd) runtime_reads \<Rightarrow> ('addr, 'w, 'p) v1model \<Rightarrow> string \<Rightarrow> entry_handle_t \<Rightarrow> int \<times> indirect_entry option" where
  "GetIndirectEntry R c tableName handle = read_request M_SUCCESS (mt_indirect_get_entry R (world c) tableName handle)"

definition GetIndirectWsEntry ::
  "('w, 'k, 'a, 'd) runtime_reads \<Rightarrow> ('addr, 'w, 'p) v1model \<Rightarrow> string \<Rightarrow> entry_handle_t \<Rightarrow> int \<times> ws_entry option" where
  "GetIndirectWsEntry R c tableName handle = read_request M_SUCCESS (mt_indirect_ws_get_entry R (world c) tableName handle)"

definition GetDefaultEntry ::
  "('w, 'k, 'a, 'd) runtime_reads \<Rightarrow> ('addr, 'w, 'p) v1model \<Rightarrow> string \<Rightarrow> int \<times> match_entry option" where
  "GetDefaultEntry R c tableName = read_request M_SUCCESS (mt_get_default_entry R (world c) tableName)"

definition GetIndirectDefaultEntry ::
  "('w, 'k, 'a, 'd) runtime_reads \<Rightarrow> ('addr, 'w, 'p) v1model \<Rightarrow> string \<Rightarrow> int \<times> indirect_entry option" where
  "GetIndirectDefaultEntry R c tableName = read_request M_SUCCESS (mt_indirect_get_default_entry R (world c) tableName)"

definition GetIndirectWsDefaultEntry ::
  "('w, 'k, 'a, 'd) runtime_reads \<Rightarrow> ('addr, 'w, 'p) v1model \<Rightarrow> string \<Rightarrow> int \<times> ws_entry option" where
  "GetIndirectWsDefaultEntry R c tableName = read_request M_SUCCESS (mt_indirect_ws_get_default_entry R (world c) tableName)"

definition GetEntryFromKey ::
  "('w, 'k, 'a, 'd) runtime_reads \<Rightarrow> ('addr, 'w, 'p) v1model \<Rightarrow> string \<Rightarrow> 'k \<Rightarrow> int \<Rightarrow> int \<times> match_entry option" where
  "GetEntryFromKey R c tableName matchKey priority = read_request M_SUCCESS (mt_get_entry_from_key R (world c) tableName matchKey priority)"

definition GetIndirectEntryFromKey ::
  "('w, 'k, 'a, 'd) runtime_reads \<Rightarrow> ('addr, 'w, 'p) v1model \<Rightarrow> string \<Rightarrow> 'k \<Rightarrow> int \<Rightarrow> int \<times> indirect_entry option" where
  "GetIndirectEntryFromKey R c tableName matchKey priority = read_request M_SUCCESS (mt_indirect_get_entry_from_key R (world c) tableName matchKey priority)"

definition GetIndirectWsEntryFromKey ::
  "('w, 'k, 'a, 'd) runtime_reads \<Rightarrow> ('addr, 'w, 'p) v1model \<Rightarrow> string \<Rightarrow> 'k \<Rightarrow> int \<Rightarrow> int \<times> ws_entry option" where
  "GetIndirectWsEntryFromKey R c tableName matchKey priority = read_request M_SUCCESS (mt_indirect_ws_get_entry_from_key R (world c) tableName matchKey priority)"

text \<open>Counters of tables, and counter arrays.\<close>

definition ReadTableCounters ::
  "('w, 'k, 'a, 'd) runtime_reads \<Rightarrow> ('addr, 'w, 'p) v1model \<Rightarrow> string \<Rightarrow> entry_handle_t \<Rightarrow> int \<times> (u64 \<times> u64) option" where
  "ReadTableCounters R c tableName handle = read_request M_SUCCESS (mt_read_counters R (world c) tableName handle)"

definition ResetTableCounters ::
  "('w, 'k, 'a, 'd) runtime_reads \<Rightarrow> ('addr, 'w, 'p) v1model \<Rightarrow> string \<Rightarrow>
   ('addr, 'w, 'p) v1model \<times> int" where
  "ResetTableCounters R c tableName =
     request c M_SUCCESS (rt_table R (world c) (mt_reset_counters tableName))"

definition WriteTableCounters ::
  "('w, 'k, 'a, 'd) runtime_reads \<Rightarrow> ('addr, 'w, 'p) v1model \<Rightarrow> string \<Rightarrow> entry_handle_t \<Rightarrow> u64 \<Rightarrow> u64 \<Rightarrow>
   ('addr, 'w, 'p) v1model \<times> int" where
  "WriteTableCounters R c tableName handle bytes packets =
     request c M_SUCCESS (rt_table R (world c) (mt_write_counters tableName handle bytes packets))"

definition ReadCounter ::
  "('w, 'k, 'a, 'd) runtime_reads \<Rightarrow> ('addr, 'w, 'p) v1model \<Rightarrow> string \<Rightarrow> u64 \<Rightarrow> int \<times> (u64 \<times> u64) option" where
  "ReadCounter R c counterName index = read_request C_SUCCESS (bm_read_counters R (world c) counterName index)"

definition ResetCounter ::
  "('w, 'k, 'a, 'd) runtime_reads \<Rightarrow> ('addr, 'w, 'p) v1model \<Rightarrow> string \<Rightarrow>
   ('addr, 'w, 'p) v1model \<times> int" where
  "ResetCounter R c counterName =
     request c C_SUCCESS (rt_counter R (world c) (bm_reset_counters counterName))"

definition WriteCounter ::
  "('w, 'k, 'a, 'd) runtime_reads \<Rightarrow> ('addr, 'w, 'p) v1model \<Rightarrow> string \<Rightarrow> u64 \<Rightarrow> u64 \<Rightarrow> u64 \<Rightarrow>
   ('addr, 'w, 'p) v1model \<times> int" where
  "WriteCounter R c counterName index bytes packets =
     request c C_SUCCESS (rt_counter R (world c) (bm_write_counters counterName index bytes packets))"

text \<open>Meters of tables, and meter arrays.\<close>

definition SetMeterRates ::
  "('w, 'k, 'a, 'd) runtime_reads \<Rightarrow> ('addr, 'w, 'p) v1model \<Rightarrow> string \<Rightarrow> entry_handle_t \<Rightarrow> rate_config_t list \<Rightarrow>
   ('addr, 'w, 'p) v1model \<times> int" where
  "SetMeterRates R c tableName handle configs =
     request c M_SUCCESS (rt_table R (world c) (mt_set_meter_rates tableName handle configs))"

definition GetMeterRates ::
  "('w, 'k, 'a, 'd) runtime_reads \<Rightarrow> ('addr, 'w, 'p) v1model \<Rightarrow> string \<Rightarrow> entry_handle_t \<Rightarrow> int \<times> rate_config_t list option" where
  "GetMeterRates R c tableName handle = read_request M_SUCCESS (mt_get_meter_rates R (world c) tableName handle)"

definition ResetMeterRates ::
  "('w, 'k, 'a, 'd) runtime_reads \<Rightarrow> ('addr, 'w, 'p) v1model \<Rightarrow> string \<Rightarrow> entry_handle_t \<Rightarrow>
   ('addr, 'w, 'p) v1model \<times> int" where
  "ResetMeterRates R c tableName handle =
     request c M_SUCCESS (rt_table R (world c) (mt_reset_meter_rates tableName handle))"

definition SetMeterArrayRates ::
  "('w, 'k, 'a, 'd) runtime_reads \<Rightarrow> ('addr, 'w, 'p) v1model \<Rightarrow> string \<Rightarrow> rate_config_t list \<Rightarrow>
   ('addr, 'w, 'p) v1model \<times> int" where
  "SetMeterArrayRates R c meterName configs =
     request c R_SUCCESS (rt_meter R (world c) (meter_array_set_rates meterName configs))"

definition MeterSetRates ::
  "('w, 'k, 'a, 'd) runtime_reads \<Rightarrow> ('addr, 'w, 'p) v1model \<Rightarrow> string \<Rightarrow> u64 \<Rightarrow> rate_config_t list \<Rightarrow>
   ('addr, 'w, 'p) v1model \<times> int" where
  "MeterSetRates R c meterName idx configs =
     request c R_SUCCESS (rt_meter R (world c) (meter_set_rates meterName idx configs))"

definition MeterGetRates ::
  "('w, 'k, 'a, 'd) runtime_reads \<Rightarrow> ('addr, 'w, 'p) v1model \<Rightarrow> string \<Rightarrow> u64 \<Rightarrow> int \<times> rate_config_t list option" where
  "MeterGetRates R c meterName idx = read_request R_SUCCESS (meter_get_rates R (world c) meterName idx)"

definition MeterResetRates ::
  "('w, 'k, 'a, 'd) runtime_reads \<Rightarrow> ('addr, 'w, 'p) v1model \<Rightarrow> string \<Rightarrow> u64 \<Rightarrow>
   ('addr, 'w, 'p) v1model \<times> int" where
  "MeterResetRates R c meterName idx =
     request c R_SUCCESS (rt_meter R (world c) (meter_reset_rates meterName idx))"

text \<open>Registers.\<close>

definition RegisterRead ::
  "('w, 'k, 'a, 'd) runtime_reads \<Rightarrow> ('addr, 'w, 'p) v1model \<Rightarrow> string \<Rightarrow> u64 \<Rightarrow> int \<times> 'd option" where
  "RegisterRead R c registerName index = read_request G_SUCCESS (register_read R (world c) registerName index)"

definition RegisterWrite ::
  "('w, 'k, 'a, 'd) runtime_reads \<Rightarrow> ('addr, 'w, 'p) v1model \<Rightarrow> string \<Rightarrow> u64 \<Rightarrow> 'd \<Rightarrow>
   ('addr, 'w, 'p) v1model \<times> int" where
  "RegisterWrite R c registerName index val =
     request c G_SUCCESS (rt_register R (world c) (register_write registerName index val))"

definition RegisterReadAll ::
  "('w, 'k, 'a, 'd) runtime_reads \<Rightarrow> ('addr, 'w, 'p) v1model \<Rightarrow> string \<Rightarrow> 'd list" where
  "RegisterReadAll R c registerName = register_read_all R (world c) registerName"

definition RegisterWriteRange ::
  "('w, 'k, 'a, 'd) runtime_reads \<Rightarrow> ('addr, 'w, 'p) v1model \<Rightarrow> string \<Rightarrow> u64 \<Rightarrow> u64 \<Rightarrow> 'd \<Rightarrow>
   ('addr, 'w, 'p) v1model \<times> int" where
  "RegisterWriteRange R c registerName startIndex endIndex val =
     request c G_SUCCESS (rt_register R (world c) (register_write_range registerName startIndex endIndex val))"

definition RegisterReset ::
  "('w, 'k, 'a, 'd) runtime_reads \<Rightarrow> ('addr, 'w, 'p) v1model \<Rightarrow> string \<Rightarrow>
   ('addr, 'w, 'p) v1model \<times> int" where
  "RegisterReset R c registerName =
     request c G_SUCCESS (rt_register R (world c) (register_reset registerName))"

text \<open>Parse value sets.\<close>

definition ParseVsetAdd ::
  "('w, 'k, 'a, 'd) runtime_reads \<Rightarrow> ('addr, 'w, 'p) v1model \<Rightarrow> string \<Rightarrow> u8 list \<Rightarrow>
   ('addr, 'w, 'p) v1model \<times> int" where
  "ParseVsetAdd R c vsetName val =
     request c V_SUCCESS (rt_vset R (world c) (parse_vset_add vsetName val))"

definition ParseVsetRemove ::
  "('w, 'k, 'a, 'd) runtime_reads \<Rightarrow> ('addr, 'w, 'p) v1model \<Rightarrow> string \<Rightarrow> u8 list \<Rightarrow>
   ('addr, 'w, 'p) v1model \<times> int" where
  "ParseVsetRemove R c vsetName val =
     request c V_SUCCESS (rt_vset R (world c) (parse_vset_remove vsetName val))"

definition ParseVsetGet ::
  "('w, 'k, 'a, 'd) runtime_reads \<Rightarrow> ('addr, 'w, 'p) v1model \<Rightarrow> string \<Rightarrow> int \<times> u8 list list option" where
  "ParseVsetGet R c vsetName = read_request V_SUCCESS (parse_vset_get R (world c) vsetName)"

definition ParseVsetClear ::
  "('w, 'k, 'a, 'd) runtime_reads \<Rightarrow> ('addr, 'w, 'p) v1model \<Rightarrow> string \<Rightarrow>
   ('addr, 'w, 'p) v1model \<times> int" where
  "ParseVsetClear R c vsetName =
     request c V_SUCCESS (rt_vset R (world c) (parse_vset_clear vsetName))"

text \<open>The state and the configuration of the program. \<open>Serialize\<close> writes to a stream: the text is
  returned. The pointer given to \<open>GetConfig\<close> may be null: \<open>None\<close>.\<close>

definition ResetState ::
  "('w, 'k, 'a, 'd) runtime_reads \<Rightarrow> ('addr, 'w, 'p) v1model \<Rightarrow>
   ('addr, 'w, 'p) v1model \<times> int" where
  "ResetState R c =
     request c I_SUCCESS (rt_config R (world c) reset_state)"

definition CoreSerialize ::
  "('w, 'k, 'a, 'd) runtime_reads \<Rightarrow> ('addr, 'w, 'p) v1model \<Rightarrow> int \<times> string" where
  "CoreSerialize R c = read_request I_SUCCESS (bm_serialize R (world c))"

definition LoadNewConfig ::
  "('w, 'k, 'a, 'd) runtime_reads \<Rightarrow> ('addr, 'w, 'p) v1model \<Rightarrow> string \<Rightarrow>
   ('addr, 'w, 'p) v1model \<times> int" where
  "LoadNewConfig R c newConfig =
     request c I_SUCCESS (rt_config R (world c) (load_new_config newConfig))"

definition SwapConfigs ::
  "('w, 'k, 'a, 'd) runtime_reads \<Rightarrow> ('addr, 'w, 'p) v1model \<Rightarrow>
   ('addr, 'w, 'p) v1model \<times> int" where
  "SwapConfigs R c =
     request c I_SUCCESS (rt_config R (world c) swap_configs)"

definition GetConfig ::
  "('w, 'k, 'a, 'd) runtime_reads \<Rightarrow> ('addr, 'w, 'p) v1model \<Rightarrow> string option \<Rightarrow> int \<times> string option" where
  "GetConfig R c configOut =
     (case configOut of None \<Rightarrow> (- 1, None) | Some _ \<Rightarrow> (0, Some (get_config R (world c))))"

definition GetConfigMd5 ::
  "('w, 'k, 'a, 'd) runtime_reads \<Rightarrow> ('addr, 'w, 'p) v1model \<Rightarrow> string option \<Rightarrow> int \<times> string option" where
  "GetConfigMd5 R c md5Out =
     (case md5Out of None \<Rightarrow> (- 1, None) | Some _ \<Rightarrow> (0, Some (get_config_md5 R (world c))))"

subsection \<open>The texts of the error codes\<close>

fun MatchErrorCodeToStr :: "MatchErrorCode \<Rightarrow> string" where
  "MatchErrorCodeToStr M_SUCCESS = ''SUCCESS''"
| "MatchErrorCodeToStr M_TABLE_FULL = ''TABLE_FULL''"
| "MatchErrorCodeToStr M_INVALID_HANDLE = ''INVALID_HANDLE''"
| "MatchErrorCodeToStr M_EXPIRED_HANDLE = ''EXPIRED_HANDLE''"
| "MatchErrorCodeToStr M_COUNTERS_DISABLED = ''COUNTERS_DISABLED''"
| "MatchErrorCodeToStr M_METERS_DISABLED = ''METERS_DISABLED''"
| "MatchErrorCodeToStr M_AGEING_DISABLED = ''AGEING_DISABLED''"
| "MatchErrorCodeToStr M_INVALID_TABLE_NAME = ''INVALID_TABLE_NAME''"
| "MatchErrorCodeToStr M_INVALID_ACTION_NAME = ''INVALID_ACTION_NAME''"
| "MatchErrorCodeToStr M_WRONG_TABLE_TYPE = ''WRONG_TABLE_TYPE''"
| "MatchErrorCodeToStr M_INVALID_MBR_HANDLE = ''INVALID_MBR_HANDLE''"
| "MatchErrorCodeToStr M_MBR_STILL_USED = ''MBR_STILL_USED''"
| "MatchErrorCodeToStr M_MBR_ALREADY_IN_GRP = ''MBR_ALREADY_IN_GRP''"
| "MatchErrorCodeToStr M_MBR_NOT_IN_GRP = ''MBR_NOT_IN_GRP''"
| "MatchErrorCodeToStr M_INVALID_GRP_HANDLE = ''INVALID_GRP_HANDLE''"
| "MatchErrorCodeToStr M_GRP_STILL_USED = ''GRP_STILL_USED''"
| "MatchErrorCodeToStr M_EMPTY_GRP = ''EMPTY_GRP''"
| "MatchErrorCodeToStr M_DUPLICATE_ENTRY = ''DUPLICATE_ENTRY''"
| "MatchErrorCodeToStr M_BAD_MATCH_KEY = ''BAD_MATCH_KEY''"
| "MatchErrorCodeToStr M_INVALID_METER_OPERATION = ''INVALID_METER_OPERATION''"
| "MatchErrorCodeToStr M_DEFAULT_ACTION_IS_CONST = ''DEFAULT_ACTION_IS_CONST''"
| "MatchErrorCodeToStr M_DEFAULT_ENTRY_IS_CONST = ''DEFAULT_ENTRY_IS_CONST''"
| "MatchErrorCodeToStr M_NO_DEFAULT_ENTRY = ''NO_DEFAULT_ENTRY''"
| "MatchErrorCodeToStr M_INVALID_ACTION_PROFILE_NAME = ''INVALID_ACTION_PROFILE_NAME''"
| "MatchErrorCodeToStr M_NO_ACTION_PROFILE_SELECTION = ''NO_ACTION_PROFILE_SELECTION''"
| "MatchErrorCodeToStr M_IMMUTABLE_TABLE_ENTRIES = ''IMMUTABLE_TABLE_ENTRIES''"
| "MatchErrorCodeToStr M_BAD_ACTION_DATA = ''BAD_ACTION_DATA''"
| "MatchErrorCodeToStr M_NO_TABLE_KEY = ''NO_TABLE_KEY''"
| "MatchErrorCodeToStr M_ERROR = ''GENERIC_ERROR''"
| "MatchErrorCodeToStr M_OTHER = ''UNKNOWN_ERROR_CODE''"

fun CounterErrorCodeToStr :: "CounterErrorCode \<Rightarrow> string" where
  "CounterErrorCodeToStr C_SUCCESS = ''SUCCESS''"
| "CounterErrorCodeToStr C_INVALID_COUNTER_NAME = ''INVALID_COUNTER_NAME''"
| "CounterErrorCodeToStr C_INVALID_INDEX = ''INVALID_INDEX''"
| "CounterErrorCodeToStr C_ERROR = ''GENERIC_ERROR''"
| "CounterErrorCodeToStr C_OTHER = ''UNKNOWN_ERROR_CODE''"

fun MeterErrorCodeToStr :: "MeterErrorCode \<Rightarrow> string" where
  "MeterErrorCodeToStr R_SUCCESS = ''SUCCESS''"
| "MeterErrorCodeToStr R_INVALID_METER_NAME = ''INVALID_METER_NAME''"
| "MeterErrorCodeToStr R_INVALID_INDEX = ''INVALID_INDEX''"
| "MeterErrorCodeToStr R_BAD_RATES_LIST = ''BAD_RATES_LIST''"
| "MeterErrorCodeToStr R_INVALID_INFO_RATE_VALUE = ''INVALID_INFO_RATE_VALUE''"
| "MeterErrorCodeToStr R_INVALID_BURST_SIZE_VALUE = ''INVALID_BURST_SIZE_VALUE''"
| "MeterErrorCodeToStr R_ERROR = ''GENERIC_ERROR''"
| "MeterErrorCodeToStr R_OTHER = ''UNKNOWN_ERROR_CODE''"

fun RegisterErrorCodeToStr :: "RegisterErrorCode \<Rightarrow> string" where
  "RegisterErrorCodeToStr G_SUCCESS = ''SUCCESS''"
| "RegisterErrorCodeToStr G_INVALID_REGISTER_NAME = ''INVALID_REGISTER_NAME''"
| "RegisterErrorCodeToStr G_INVALID_INDEX = ''INVALID_INDEX''"
| "RegisterErrorCodeToStr G_ERROR = ''ERROR''"
| "RegisterErrorCodeToStr G_OTHER = ''UNKNOWN_REGISTER_ERROR_CODE''"

fun RuntimeErrorCodeToStr :: "RuntimeErrorCode \<Rightarrow> string" where
  "RuntimeErrorCodeToStr I_SUCCESS = ''SUCCESS''"
| "RuntimeErrorCodeToStr I_CONFIG_SWAP_DISABLED = ''CONFIG_SWAP_DISABLED''"
| "RuntimeErrorCodeToStr I_ONGOING_SWAP = ''ONGOING_SWAP''"
| "RuntimeErrorCodeToStr I_NO_ONGOING_SWAP = ''NO_ONGOING_SWAP''"
| "RuntimeErrorCodeToStr I_OTHER = ''UNKNOWN_RUNTIME_ERROR_CODE''"

subsection \<open>What the functions share\<close>

lemma rc_of_zero [simp]: "rc_of b = 0 \<longleftrightarrow> b"
  by (simp add: rc_of_def)

lemma rc_of_range: "rc_of b \<in> {0, - 1}"
  by (simp add: rc_of_def)

lemma request_parts [simp]:
  "fst (request c ok answer) = c\<lparr>world := fst answer\<rparr>"
  "snd (request c ok answer) = 0 \<longleftrightarrow> snd answer = ok"
  by (simp_all add: request_def)

lemma request_new_parts [simp]:
  "fst (request_new c answer) = c\<lparr>world := fst answer\<rparr>"
  "fst (snd (request_new c answer)) = 0 \<longleftrightarrow> fst (snd answer) = M_SUCCESS"
  "snd (snd (request_new c answer)) = snd (snd answer)"
  by (simp_all add: request_new_def)

text \<open>\<open>GetNumEntries\<close> tells the size of a table of fewer than 2^31 entries.\<close>

lemma GetNumEntries_exact:
  assumes "mt_get_num_entries R (world c) t = (M_SUCCESS, Some n)"
  shows "GetNumEntries R c t = int (unat n) \<longleftrightarrow> unat n < 2 ^ 31"
proof -
  have v: "uint (ucast n :: u32) = uint n mod 2 ^ 32"
    by (simp add: unsigned_ucast_eq take_bit_eq_mod)
  have g: "GetNumEntries R c t = sint (ucast n :: u32)"
    by (simp add: GetNumEntries_def assms)
  show ?thesis
  proof
    assume "GetNumEntries R c t = int (unat n)"
    then have "int (unat n) < 2 ^ 31"
      using sint_lt [of "ucast n :: u32"] g by simp
    then have "int (unat n) < int (2 ^ 31)" by simp
    then show "unat n < 2 ^ 31" by (simp only: of_nat_less_iff)
  next
    assume "unat n < 2 ^ 31"
    then have n: "uint n < 2 ^ 31" by (metis of_nat_less_iff of_nat_numeral of_nat_power uint_nat)
    then have "uint (ucast n :: u32) = uint n" by (simp add: v)
    moreover have "signed_take_bit 31 (uint n) = uint n"
      using n uint_ge_0 [of n] by (intro signed_take_bit_int_eq_self) linarith+
    ultimately show "GetNumEntries R c t = int (unat n)"
      by (simp add: g sint_uint)
  qed
qed

end
