(* ===== verification/Controller.thy ===== *)
theory Controller
  imports Runtime_Api Switch_Device
begin

text \<open>
  \<open>P4Controller\<close> (\<open>model/p4-controller.h\<close>, \<open>model/p4-controller.cc\<close>): the list of switches a
  controller manages, and its commands. A command names a switch by its index in the list. An
  index past the end, or a switch without a v1model core, is logged and nothing is done; otherwise
  one function of the switch's core is called, and its result is logged or printed.

  The list holds pointers: \<open>connected\<close> has addresses, \<open>None\<close> for a null pointer, and \<open>switches\<close> is
  the memory they point to, so that one switch may stand at several indices. What a command logs
  or prints is its result here: \<open>Invalid_index\<close> and \<open>No_core\<close> are the two warnings, \<open>Report\<close> has
  what the called function gave. Following a null pointer is \<open>Undefined\<close>. An index is a
  \<open>uint32_t\<close>; it is a natural number here, compared with the length of the list as in the code.
\<close>

subsection \<open>The switches of a controller\<close>

record ('dev, 'addr, 'chan, 'w, 'p, 'q) controller =
  connected :: "nat option list"
  switches :: "nat \<Rightarrow> ('dev, 'addr, 'chan, 'w, 'p, 'q) switch_device"
  event_paths :: "string list"

datatype 'r report = Invalid_index | No_core | Report 'r

definition RegisterSwitch :: "('dev, 'addr, 'chan, 'w, 'p, 'q) controller \<Rightarrow> nat option \<Rightarrow> ('dev, 'addr, 'chan, 'w, 'p, 'q) controller" where
  "RegisterSwitch s sw = s\<lparr>connected := connected s @ [sw]\<rparr>"

definition GetN :: "('dev, 'addr, 'chan, 'w, 'p, 'q) controller \<Rightarrow> u32" where
  "GetN s = of_nat (length (connected s))"

text \<open>
  \<open>ConnectToSwitchEvents\<close> asks ns-3 to call \<open>HandleSwitchEvent\<close> for the events of a trace source,
  named by a path. \<open>nodeId\<close> gives the number of the node a switch is installed on, if any.
\<close>

definition ConnectToSwitchEvents ::
  "(nat \<Rightarrow> nat option) \<Rightarrow> ('dev, 'addr, 'chan, 'w, 'p, 'q) controller \<Rightarrow> nat \<Rightarrow>
   (('dev, 'addr, 'chan, 'w, 'p, 'q) controller, unit report) outcome" where
  "ConnectToSwitchEvents nodeId s index =
     (if index \<ge> length (connected s) then (s, Inr Invalid_index)
      else (case connected s ! index of
              None \<Rightarrow> (s, Inr No_core)
            | Some sw \<Rightarrow>
                (case nodeId sw of
                   None \<Rightarrow> (s, Inl Undefined)
                 | Some n \<Rightarrow>
                     (s\<lparr>event_paths := event_paths s @
                          [''/NodeList/'' @ to_string n @ ''/DeviceList/'' @
                           to_string (unat (nd_if_index (switches s sw))) @
                           ''/$ns3::P4SwitchNetDevice/SwitchEvent'']\<rparr>, Inr (Report ())))))"

definition HandleSwitchEvent :: "u32 \<Rightarrow> string \<Rightarrow> string" where
  "HandleSwitchEvent switchId message =
     ''[Controller] Event from switch '' @ to_string (unat switchId) @ '': '' @ message"

text \<open>The lines of the flow table file of a switch; \<open>files\<close> are the files that can be opened.\<close>

definition ViewP4SwitchFlowTableInfo ::
  "(string \<Rightarrow> string list option) \<Rightarrow> ('dev, 'addr, 'chan, 'w, 'p, 'q) controller \<Rightarrow> nat \<Rightarrow>
   stop + string list option report" where
  "ViewP4SwitchFlowTableInfo files s index =
     (if index \<ge> length (connected s) then Inr Invalid_index
      else (case connected s ! index of
              None \<Rightarrow> Inl Undefined
            | Some sw \<Rightarrow> Inr (Report (files (GetFlowTablePath (switches s sw))))))"

fun view_tables ::
  "(string \<Rightarrow> string list option) \<Rightarrow> ('dev, 'addr, 'chan, 'w, 'p, 'q) controller \<Rightarrow> nat list \<Rightarrow>
   stop + string list option report list" where
  "view_tables files s [] = Inr []"
| "view_tables files s (i # is) =
     (case ViewP4SwitchFlowTableInfo files s i of
        Inl e \<Rightarrow> Inl e
      | Inr v \<Rightarrow> (case view_tables files s is of Inl e \<Rightarrow> Inl e | Inr vs \<Rightarrow> Inr (v # vs)))"

definition ViewAllSwitchFlowTableInfo ::
  "(string \<Rightarrow> string list option) \<Rightarrow> ('dev, 'addr, 'chan, 'w, 'p, 'q) controller \<Rightarrow>
   stop + string list option report list" where
  "ViewAllSwitchFlowTableInfo files s = view_tables files s [0..<length (connected s)]"

subsection \<open>The shape of a command\<close>

text \<open>
  The tests every command begins with. \<open>with_core\<close> is a command that calls a function that may
  change the program of the switch, \<open>ask_core\<close> one that only reads.
\<close>

definition with_core ::
  "('dev, 'addr, 'chan, 'w, 'p, 'q) controller \<Rightarrow> nat \<Rightarrow>
   (('addr, 'w, 'p) v1model \<Rightarrow> ('addr, 'w, 'p) v1model \<times> 'r) \<Rightarrow>
   (('dev, 'addr, 'chan, 'w, 'p, 'q) controller, 'r report) outcome" where
  "with_core s index call =
     (if index \<ge> length (connected s) then (s, Inr Invalid_index)
      else (case connected s ! index of
              None \<Rightarrow> (s, Inl Undefined)
            | Some sw \<Rightarrow>
                (case GetV1ModelCore (switches s sw) of
                   None \<Rightarrow> (s, Inr No_core)
                 | Some core \<Rightarrow>
                     (let (core, r) = call core
                      in (s\<lparr>switches := (switches s)(sw := (switches s sw)\<lparr>nd_v1model := Some core\<rparr>)\<rparr>,
                          Inr (Report r))))))"

definition ask_core ::
  "('dev, 'addr, 'chan, 'w, 'p, 'q) controller \<Rightarrow> nat \<Rightarrow>
   (('addr, 'w, 'p) v1model \<Rightarrow> stop + 'r) \<Rightarrow> stop + 'r report" where
  "ask_core s index call =
     (if index \<ge> length (connected s) then Inr Invalid_index
      else (case connected s ! index of
              None \<Rightarrow> Inl Undefined
            | Some sw \<Rightarrow>
                (case GetV1ModelCore (switches s sw) of
                   None \<Rightarrow> Inr No_core
                 | Some core \<Rightarrow> (case call core of Inl e \<Rightarrow> Inl e | Inr r \<Rightarrow> Inr (Report r)))))"

text \<open>
  A structure that the called function fills in: what is read after success, nothing after a
  failure. A structure that was not written has indeterminate members.
\<close>

definition filled :: "int \<times> 'e option \<Rightarrow> stop + 'e option" where
  "filled result =
     (if fst result \<noteq> 0 then Inr None
      else (case snd result of None \<Rightarrow> Inl Undefined | Some e \<Rightarrow> Inr (Some e)))"

subsection \<open>Direct tables\<close>

definition CtlGetTableEntryCount :: "('w, 'k, 'a, 'd) runtime_reads \<Rightarrow> ('dev, 'addr, 'chan, 'w, 'p, 'q) controller \<Rightarrow> nat \<Rightarrow> string \<Rightarrow> stop + int" where
  "CtlGetTableEntryCount R s index tableName =
     (case ask_core s index (\<lambda>core. Inr (GetNumEntries R core tableName)) of
        Inl e \<Rightarrow> Inl e
      | Inr (Report num) \<Rightarrow> Inr num
      | Inr _ \<Rightarrow> Inr (- 1))"

definition CtlPrintTableEntryCount ::
  "('w, 'k, 'a, 'd) runtime_reads \<Rightarrow> ('dev, 'addr, 'chan, 'w, 'p, 'q) controller \<Rightarrow> nat \<Rightarrow> string \<Rightarrow> stop + int report" where
  "CtlPrintTableEntryCount R s index tableName =
     ask_core s index (\<lambda>core. Inr (GetNumEntries R core tableName))"

definition CtlClearFlowTableEntries ::
  "('w, 'k, 'a, 'd) runtime_reads \<Rightarrow> ('dev, 'addr, 'chan, 'w, 'p, 'q) controller \<Rightarrow> nat \<Rightarrow> string \<Rightarrow> bool \<Rightarrow>
   (('dev, 'addr, 'chan, 'w, 'p, 'q) controller, int report) outcome" where
  "CtlClearFlowTableEntries R s index tableName resetDefault =
     with_core s index (\<lambda>core. ClearFlowTableEntries R core tableName resetDefault)"

text \<open>The handle comes back in a reference parameter.\<close>

definition CtlAddFlowEntry ::
  "('w, 'k, 'a, 'd) runtime_reads \<Rightarrow> ('dev, 'addr, 'chan, 'w, 'p, 'q) controller \<Rightarrow> nat \<Rightarrow> string \<Rightarrow> 'k \<Rightarrow> string \<Rightarrow> 'a \<Rightarrow> int \<Rightarrow>
   (('dev, 'addr, 'chan, 'w, 'p, 'q) controller, (int \<times> entry_handle_t option) report) outcome" where
  "CtlAddFlowEntry R s index tableName matchKey actionName actionData priority =
     with_core s index (\<lambda>core. AddFlowEntry R core tableName matchKey actionName actionData priority)"

definition CtlSetDefaultAction ::
  "('w, 'k, 'a, 'd) runtime_reads \<Rightarrow> ('dev, 'addr, 'chan, 'w, 'p, 'q) controller \<Rightarrow> nat \<Rightarrow> string \<Rightarrow> string \<Rightarrow> 'a \<Rightarrow>
   (('dev, 'addr, 'chan, 'w, 'p, 'q) controller, int report) outcome" where
  "CtlSetDefaultAction R s index tableName actionName actionData =
     with_core s index (\<lambda>core. SetDefaultAction R core tableName actionName actionData)"

definition CtlResetDefaultEntry ::
  "('w, 'k, 'a, 'd) runtime_reads \<Rightarrow> ('dev, 'addr, 'chan, 'w, 'p, 'q) controller \<Rightarrow> nat \<Rightarrow> string \<Rightarrow>
   (('dev, 'addr, 'chan, 'w, 'p, 'q) controller, int report) outcome" where
  "CtlResetDefaultEntry R s index tableName =
     with_core s index (\<lambda>core. ResetDefaultEntry R core tableName)"

definition CtlDeleteFlowEntry ::
  "('w, 'k, 'a, 'd) runtime_reads \<Rightarrow> ('dev, 'addr, 'chan, 'w, 'p, 'q) controller \<Rightarrow> nat \<Rightarrow> string \<Rightarrow> entry_handle_t \<Rightarrow>
   (('dev, 'addr, 'chan, 'w, 'p, 'q) controller, int report) outcome" where
  "CtlDeleteFlowEntry R s index tableName handle =
     with_core s index (\<lambda>core. DeleteFlowEntry R core tableName handle)"

definition CtlModifyFlowEntry ::
  "('w, 'k, 'a, 'd) runtime_reads \<Rightarrow> ('dev, 'addr, 'chan, 'w, 'p, 'q) controller \<Rightarrow> nat \<Rightarrow> string \<Rightarrow> entry_handle_t \<Rightarrow> string \<Rightarrow> 'a \<Rightarrow>
   (('dev, 'addr, 'chan, 'w, 'p, 'q) controller, int report) outcome" where
  "CtlModifyFlowEntry R s index tableName handle actionName actionData =
     with_core s index (\<lambda>core. ModifyFlowEntry R core tableName handle actionName actionData)"

definition CtlSetEntryTtl ::
  "('w, 'k, 'a, 'd) runtime_reads \<Rightarrow> ('dev, 'addr, 'chan, 'w, 'p, 'q) controller \<Rightarrow> nat \<Rightarrow> string \<Rightarrow> entry_handle_t \<Rightarrow> u32 \<Rightarrow>
   (('dev, 'addr, 'chan, 'w, 'p, 'q) controller, int report) outcome" where
  "CtlSetEntryTtl R s index tableName handle ttlMs =
     with_core s index (\<lambda>core. SetEntryTtl R core tableName handle ttlMs)"

subsection \<open>Action profiles\<close>

text \<open>The handle of a new member goes into a parameter that is passed by value: only the log sees it.\<close>

definition CtlAddActionProfileMember ::
  "('w, 'k, 'a, 'd) runtime_reads \<Rightarrow> ('dev, 'addr, 'chan, 'w, 'p, 'q) controller \<Rightarrow> nat \<Rightarrow> string \<Rightarrow> string \<Rightarrow> 'a \<Rightarrow>
   (('dev, 'addr, 'chan, 'w, 'p, 'q) controller, (int \<times> mbr_hdl_t option) report) outcome" where
  "CtlAddActionProfileMember R s index profileName actionName actionData =
     with_core s index (\<lambda>core. AddActionProfileMember R core profileName actionName actionData)"

definition CtlDeleteActionProfileMember ::
  "('w, 'k, 'a, 'd) runtime_reads \<Rightarrow> ('dev, 'addr, 'chan, 'w, 'p, 'q) controller \<Rightarrow> nat \<Rightarrow> string \<Rightarrow> mbr_hdl_t \<Rightarrow>
   (('dev, 'addr, 'chan, 'w, 'p, 'q) controller, int report) outcome" where
  "CtlDeleteActionProfileMember R s index profileName memberHandle =
     with_core s index (\<lambda>core. DeleteActionProfileMember R core profileName memberHandle)"

definition CtlModifyActionProfileMember ::
  "('w, 'k, 'a, 'd) runtime_reads \<Rightarrow> ('dev, 'addr, 'chan, 'w, 'p, 'q) controller \<Rightarrow> nat \<Rightarrow> string \<Rightarrow> mbr_hdl_t \<Rightarrow> string \<Rightarrow> 'a \<Rightarrow>
   (('dev, 'addr, 'chan, 'w, 'p, 'q) controller, int report) outcome" where
  "CtlModifyActionProfileMember R s index profileName memberHandle actionName actionData =
     with_core s index (\<lambda>core. ModifyActionProfileMember R core profileName memberHandle actionName actionData)"

definition CtlCreateActionProfileGroup ::
  "('w, 'k, 'a, 'd) runtime_reads \<Rightarrow> ('dev, 'addr, 'chan, 'w, 'p, 'q) controller \<Rightarrow> nat \<Rightarrow> string \<Rightarrow>
   (('dev, 'addr, 'chan, 'w, 'p, 'q) controller, (int \<times> grp_hdl_t option) report) outcome" where
  "CtlCreateActionProfileGroup R s index profileName =
     with_core s index (\<lambda>core. CreateActionProfileGroup R core profileName)"

definition CtlDeleteActionProfileGroup ::
  "('w, 'k, 'a, 'd) runtime_reads \<Rightarrow> ('dev, 'addr, 'chan, 'w, 'p, 'q) controller \<Rightarrow> nat \<Rightarrow> string \<Rightarrow> grp_hdl_t \<Rightarrow>
   (('dev, 'addr, 'chan, 'w, 'p, 'q) controller, int report) outcome" where
  "CtlDeleteActionProfileGroup R s index profileName groupHandle =
     with_core s index (\<lambda>core. DeleteActionProfileGroup R core profileName groupHandle)"

definition CtlAddMemberToGroup ::
  "('w, 'k, 'a, 'd) runtime_reads \<Rightarrow> ('dev, 'addr, 'chan, 'w, 'p, 'q) controller \<Rightarrow> nat \<Rightarrow> string \<Rightarrow> mbr_hdl_t \<Rightarrow> grp_hdl_t \<Rightarrow>
   (('dev, 'addr, 'chan, 'w, 'p, 'q) controller, int report) outcome" where
  "CtlAddMemberToGroup R s index profileName memberHandle groupHandle =
     with_core s index (\<lambda>core. AddMemberToGroup R core profileName memberHandle groupHandle)"

definition CtlRemoveMemberFromGroup ::
  "('w, 'k, 'a, 'd) runtime_reads \<Rightarrow> ('dev, 'addr, 'chan, 'w, 'p, 'q) controller \<Rightarrow> nat \<Rightarrow> string \<Rightarrow> mbr_hdl_t \<Rightarrow> grp_hdl_t \<Rightarrow>
   (('dev, 'addr, 'chan, 'w, 'p, 'q) controller, int report) outcome" where
  "CtlRemoveMemberFromGroup R s index profileName memberHandle groupHandle =
     with_core s index (\<lambda>core. RemoveMemberFromGroup R core profileName memberHandle groupHandle)"

definition CtlGetActionProfileMembers ::
  "('w, 'k, 'a, 'd) runtime_reads \<Rightarrow> ('dev, 'addr, 'chan, 'w, 'p, 'q) controller \<Rightarrow> nat \<Rightarrow> string \<Rightarrow> stop + profile_member list" where
  "CtlGetActionProfileMembers R s index profileName =
     (case ask_core s index (\<lambda>core. Inr (snd (GetActionProfileMembers R core profileName))) of
        Inl e \<Rightarrow> Inl e
      | Inr (Report members) \<Rightarrow> Inr members
      | Inr _ \<Rightarrow> Inr [])"

text \<open>What is printed of a member: its handle, the name of its action and the action's parameters.\<close>

definition print_member :: "profile_member \<Rightarrow> mbr_hdl_t \<times> string \<times> string list" where
  "print_member member =
     (pm_mbr member, (case pm_action_fn member of Some name \<Rightarrow> name | None \<Rightarrow> ''[nullptr]''), pm_action_data member)"

definition CtlPrintActionProfileMembers ::
  "('w, 'k, 'a, 'd) runtime_reads \<Rightarrow> ('dev, 'addr, 'chan, 'w, 'p, 'q) controller \<Rightarrow> nat \<Rightarrow> string \<Rightarrow> stop + (mbr_hdl_t \<times> string \<times> string list) list report" where
  "CtlPrintActionProfileMembers R s index profileName =
     ask_core s index (\<lambda>core. Inr (map print_member (snd (GetActionProfileMembers R core profileName))))"

definition CtlGetActionProfileMember ::
  "('w, 'k, 'a, 'd) runtime_reads \<Rightarrow> ('dev, 'addr, 'chan, 'w, 'p, 'q) controller \<Rightarrow> nat \<Rightarrow> string \<Rightarrow> mbr_hdl_t \<Rightarrow> stop + int report" where
  "CtlGetActionProfileMember R s index profileName memberHandle =
     ask_core s index (\<lambda>core. Inr (fst (GetActionProfileMember R core profileName memberHandle)))"

text \<open>The loop that prints the members of a group.\<close>

fun print_handles :: "mbr_hdl_t list \<Rightarrow> nat list \<Rightarrow> string" where
  "print_handles hs [] = []"
| "print_handles hs (i # is) =
     to_string (unat (hs ! i)) @ (if i \<noteq> length hs - 1 then '', '' else []) @ print_handles hs is"

definition print_group :: "profile_group \<Rightarrow> string" where
  "print_group g =
     ''  Group ID: '' @ to_string (unat (pg_grp g)) @ '', Members: ['' @
     print_handles (pg_mbr_handles g) [0..<length (pg_mbr_handles g)] @ '']''"

definition CtlPrintActionProfileGroups ::
  "('w, 'k, 'a, 'd) runtime_reads \<Rightarrow> ('dev, 'addr, 'chan, 'w, 'p, 'q) controller \<Rightarrow> nat \<Rightarrow> string \<Rightarrow> stop + string list report" where
  "CtlPrintActionProfileGroups R s index profileName =
     ask_core s index (\<lambda>core. Inr (map print_group (snd (GetActionProfileGroups R core profileName))))"

definition CtlGetActionProfileGroups ::
  "('w, 'k, 'a, 'd) runtime_reads \<Rightarrow> ('dev, 'addr, 'chan, 'w, 'p, 'q) controller \<Rightarrow> nat \<Rightarrow> string \<Rightarrow> stop + nat report" where
  "CtlGetActionProfileGroups R s index profileName =
     ask_core s index (\<lambda>core. Inr (length (snd (GetActionProfileGroups R core profileName))))"

definition CtlGetActionProfileGroup ::
  "('w, 'k, 'a, 'd) runtime_reads \<Rightarrow> ('dev, 'addr, 'chan, 'w, 'p, 'q) controller \<Rightarrow> nat \<Rightarrow> string \<Rightarrow> grp_hdl_t \<Rightarrow> stop + int report" where
  "CtlGetActionProfileGroup R s index profileName groupHandle =
     ask_core s index (\<lambda>core. Inr (fst (GetActionProfileGroup R core profileName groupHandle)))"

subsection \<open>Indirect tables\<close>

definition CtlAddIndirectEntry ::
  "('w, 'k, 'a, 'd) runtime_reads \<Rightarrow> ('dev, 'addr, 'chan, 'w, 'p, 'q) controller \<Rightarrow> nat \<Rightarrow> string \<Rightarrow> 'k \<Rightarrow> mbr_hdl_t \<Rightarrow> int \<Rightarrow>
   (('dev, 'addr, 'chan, 'w, 'p, 'q) controller, (int \<times> entry_handle_t option) report) outcome" where
  "CtlAddIndirectEntry R s index tableName matchKey memberHandle priority =
     with_core s index (\<lambda>core. AddIndirectEntry R core tableName matchKey memberHandle priority)"

definition CtlModifyIndirectEntry ::
  "('w, 'k, 'a, 'd) runtime_reads \<Rightarrow> ('dev, 'addr, 'chan, 'w, 'p, 'q) controller \<Rightarrow> nat \<Rightarrow> string \<Rightarrow> entry_handle_t \<Rightarrow> mbr_hdl_t \<Rightarrow>
   (('dev, 'addr, 'chan, 'w, 'p, 'q) controller, int report) outcome" where
  "CtlModifyIndirectEntry R s index tableName entryHandle memberHandle =
     with_core s index (\<lambda>core. ModifyIndirectEntry R core tableName entryHandle memberHandle)"

definition CtlDeleteIndirectEntry ::
  "('w, 'k, 'a, 'd) runtime_reads \<Rightarrow> ('dev, 'addr, 'chan, 'w, 'p, 'q) controller \<Rightarrow> nat \<Rightarrow> string \<Rightarrow> entry_handle_t \<Rightarrow>
   (('dev, 'addr, 'chan, 'w, 'p, 'q) controller, int report) outcome" where
  "CtlDeleteIndirectEntry R s index tableName entryHandle =
     with_core s index (\<lambda>core. DeleteIndirectEntry R core tableName entryHandle)"

definition CtlSetIndirectEntryTtl ::
  "('w, 'k, 'a, 'd) runtime_reads \<Rightarrow> ('dev, 'addr, 'chan, 'w, 'p, 'q) controller \<Rightarrow> nat \<Rightarrow> string \<Rightarrow> entry_handle_t \<Rightarrow> u32 \<Rightarrow>
   (('dev, 'addr, 'chan, 'w, 'p, 'q) controller, int report) outcome" where
  "CtlSetIndirectEntryTtl R s index tableName handle ttlMs =
     with_core s index (\<lambda>core. SetIndirectEntryTtl R core tableName handle ttlMs)"

definition CtlSetIndirectDefaultMember ::
  "('w, 'k, 'a, 'd) runtime_reads \<Rightarrow> ('dev, 'addr, 'chan, 'w, 'p, 'q) controller \<Rightarrow> nat \<Rightarrow> string \<Rightarrow> mbr_hdl_t \<Rightarrow>
   (('dev, 'addr, 'chan, 'w, 'p, 'q) controller, int report) outcome" where
  "CtlSetIndirectDefaultMember R s index tableName memberHandle =
     with_core s index (\<lambda>core. SetIndirectDefaultMember R core tableName memberHandle)"

definition CtlResetIndirectDefaultEntry ::
  "('w, 'k, 'a, 'd) runtime_reads \<Rightarrow> ('dev, 'addr, 'chan, 'w, 'p, 'q) controller \<Rightarrow> nat \<Rightarrow> string \<Rightarrow>
   (('dev, 'addr, 'chan, 'w, 'p, 'q) controller, int report) outcome" where
  "CtlResetIndirectDefaultEntry R s index tableName =
     with_core s index (\<lambda>core. ResetIndirectDefaultEntry R core tableName)"

definition CtlAddIndirectWsEntry ::
  "('w, 'k, 'a, 'd) runtime_reads \<Rightarrow> ('dev, 'addr, 'chan, 'w, 'p, 'q) controller \<Rightarrow> nat \<Rightarrow> string \<Rightarrow> 'k \<Rightarrow> grp_hdl_t \<Rightarrow> int \<Rightarrow>
   (('dev, 'addr, 'chan, 'w, 'p, 'q) controller, (int \<times> entry_handle_t option) report) outcome" where
  "CtlAddIndirectWsEntry R s index tableName matchKey groupHandle priority =
     with_core s index (\<lambda>core. AddIndirectWsEntry R core tableName matchKey groupHandle priority)"

definition CtlModifyIndirectWsEntry ::
  "('w, 'k, 'a, 'd) runtime_reads \<Rightarrow> ('dev, 'addr, 'chan, 'w, 'p, 'q) controller \<Rightarrow> nat \<Rightarrow> string \<Rightarrow> entry_handle_t \<Rightarrow> grp_hdl_t \<Rightarrow>
   (('dev, 'addr, 'chan, 'w, 'p, 'q) controller, int report) outcome" where
  "CtlModifyIndirectWsEntry R s index tableName handle groupHandle =
     with_core s index (\<lambda>core. ModifyIndirectWsEntry R core tableName handle groupHandle)"

definition CtlSetIndirectWsDefaultGroup ::
  "('w, 'k, 'a, 'd) runtime_reads \<Rightarrow> ('dev, 'addr, 'chan, 'w, 'p, 'q) controller \<Rightarrow> nat \<Rightarrow> string \<Rightarrow> grp_hdl_t \<Rightarrow>
   (('dev, 'addr, 'chan, 'w, 'p, 'q) controller, int report) outcome" where
  "CtlSetIndirectWsDefaultGroup R s index tableName groupHandle =
     with_core s index (\<lambda>core. SetIndirectWsDefaultGroup R core tableName groupHandle)"

subsection \<open>Printing entries\<close>

text \<open>The name of an action is taken from a pointer that is not tested.\<close>

definition action_name :: "match_entry \<Rightarrow> stop + string" where
  "action_name entry = (case te_action_fn entry of None \<Rightarrow> Inl Undefined | Some name \<Rightarrow> Inr name)"

fun print_entries :: "match_entry list \<Rightarrow> stop + (entry_handle_t \<times> int \<times> string) list" where
  "print_entries [] = Inr []"
| "print_entries (entry # entries) =
     (case action_name entry of
        Inl e \<Rightarrow> Inl e
      | Inr name \<Rightarrow>
          (case print_entries entries of
             Inl e \<Rightarrow> Inl e
           | Inr ps \<Rightarrow> Inr ((te_handle entry, te_priority entry, name) # ps)))"

definition print_action :: "int \<times> match_entry option \<Rightarrow> stop + (string \<times> int) option" where
  "print_action result =
     (case filled result of
        Inl e \<Rightarrow> Inl e
      | Inr None \<Rightarrow> Inr None
      | Inr (Some entry) \<Rightarrow>
          (case action_name entry of Inl e \<Rightarrow> Inl e | Inr name \<Rightarrow> Inr (Some (name, te_priority entry))))"

definition CtlPrintFlowEntries ::
  "('w, 'k, 'a, 'd) runtime_reads \<Rightarrow> ('dev, 'addr, 'chan, 'w, 'p, 'q) controller \<Rightarrow> nat \<Rightarrow> string \<Rightarrow> stop + (entry_handle_t \<times> int \<times> string) list report" where
  "CtlPrintFlowEntries R s index tableName =
     ask_core s index (\<lambda>core. print_entries (GetFlowEntries R core tableName))"

definition CtlPrintIndirectFlowEntries ::
  "('w, 'k, 'a, 'd) runtime_reads \<Rightarrow> ('dev, 'addr, 'chan, 'w, 'p, 'q) controller \<Rightarrow> nat \<Rightarrow> string \<Rightarrow> stop + indirect_entry list report" where
  "CtlPrintIndirectFlowEntries R s index tableName =
     ask_core s index (\<lambda>core. Inr (GetIndirectFlowEntries R core tableName))"

definition CtlPrintIndirectWsFlowEntries ::
  "('w, 'k, 'a, 'd) runtime_reads \<Rightarrow> ('dev, 'addr, 'chan, 'w, 'p, 'q) controller \<Rightarrow> nat \<Rightarrow> string \<Rightarrow> stop + ws_entry list report" where
  "CtlPrintIndirectWsFlowEntries R s index tableName =
     ask_core s index (\<lambda>core. Inr (GetIndirectWsFlowEntries R core tableName))"

definition CtlPrintEntry ::
  "('w, 'k, 'a, 'd) runtime_reads \<Rightarrow> ('dev, 'addr, 'chan, 'w, 'p, 'q) controller \<Rightarrow> nat \<Rightarrow> string \<Rightarrow> entry_handle_t \<Rightarrow> stop + (string \<times> int) option report" where
  "CtlPrintEntry R s index tableName handle =
     ask_core s index (\<lambda>core. print_action (GetEntry R core tableName handle))"

text \<open>Only the name is printed; the priority is left out of the output, not of the result here.\<close>

definition CtlPrintDefaultEntry ::
  "('w, 'k, 'a, 'd) runtime_reads \<Rightarrow> ('dev, 'addr, 'chan, 'w, 'p, 'q) controller \<Rightarrow> nat \<Rightarrow> string \<Rightarrow> stop + (string \<times> int) option report" where
  "CtlPrintDefaultEntry R s index tableName =
     ask_core s index (\<lambda>core. print_action (GetDefaultEntry R core tableName))"

definition CtlPrintIndirectDefaultEntry ::
  "('w, 'k, 'a, 'd) runtime_reads \<Rightarrow> ('dev, 'addr, 'chan, 'w, 'p, 'q) controller \<Rightarrow> nat \<Rightarrow> string \<Rightarrow> stop + indirect_entry option report" where
  "CtlPrintIndirectDefaultEntry R s index tableName =
     ask_core s index (\<lambda>core. filled (GetIndirectDefaultEntry R core tableName))"

definition CtlPrintIndirectWsDefaultEntry ::
  "('w, 'k, 'a, 'd) runtime_reads \<Rightarrow> ('dev, 'addr, 'chan, 'w, 'p, 'q) controller \<Rightarrow> nat \<Rightarrow> string \<Rightarrow> stop + ws_entry option report" where
  "CtlPrintIndirectWsDefaultEntry R s index tableName =
     ask_core s index (\<lambda>core. filled (GetIndirectWsDefaultEntry R core tableName))"

text \<open>Entries by key, with the default priority 1. \<open>PrintEntryFromKey\<close> reads the action's name in a
  log statement, which is only evaluated when the log is on.\<close>

definition CtlPrintEntryFromKey ::
  "bool \<Rightarrow> ('w, 'k, 'a, 'd) runtime_reads \<Rightarrow> ('dev, 'addr, 'chan, 'w, 'p, 'q) controller \<Rightarrow> nat \<Rightarrow> string \<Rightarrow> 'k \<Rightarrow> stop + (string \<times> int) option report" where
  "CtlPrintEntryFromKey log_on R s index tableName matchKey =
     ask_core s index (\<lambda>core. if log_on then print_action (GetEntryFromKey R core tableName matchKey 1) else Inr None)"

definition CtlPrintIndirectEntryFromKey ::
  "('w, 'k, 'a, 'd) runtime_reads \<Rightarrow> ('dev, 'addr, 'chan, 'w, 'p, 'q) controller \<Rightarrow> nat \<Rightarrow> string \<Rightarrow> 'k \<Rightarrow> stop + indirect_entry option report" where
  "CtlPrintIndirectEntryFromKey R s index tableName matchKey =
     ask_core s index (\<lambda>core. filled (GetIndirectEntryFromKey R core tableName matchKey 1))"

definition CtlPrintIndirectWsEntryFromKey ::
  "('w, 'k, 'a, 'd) runtime_reads \<Rightarrow> ('dev, 'addr, 'chan, 'w, 'p, 'q) controller \<Rightarrow> nat \<Rightarrow> string \<Rightarrow> 'k \<Rightarrow> stop + ws_entry option report" where
  "CtlPrintIndirectWsEntryFromKey R s index tableName matchKey =
     ask_core s index (\<lambda>core. filled (GetIndirectWsEntryFromKey R core tableName matchKey 1))"

subsection \<open>Counters and meters\<close>

text \<open>The two numbers start as 0, so nothing indeterminate is logged.\<close>

definition CtlReadCounters ::
  "('w, 'k, 'a, 'd) runtime_reads \<Rightarrow> ('dev, 'addr, 'chan, 'w, 'p, 'q) controller \<Rightarrow> nat \<Rightarrow> string \<Rightarrow> entry_handle_t \<Rightarrow> stop + (u64 \<times> u64) option report" where
  "CtlReadCounters R s index tableName handle =
     ask_core s index (\<lambda>core. let (rc, v) = ReadTableCounters R core tableName handle
      in if rc = 0 then Inr (Some (case v of None \<Rightarrow> (0, 0) | Some bp \<Rightarrow> bp)) else Inr None)"

definition CtlResetCounters ::
  "('w, 'k, 'a, 'd) runtime_reads \<Rightarrow> ('dev, 'addr, 'chan, 'w, 'p, 'q) controller \<Rightarrow> nat \<Rightarrow> string \<Rightarrow>
   (('dev, 'addr, 'chan, 'w, 'p, 'q) controller, int report) outcome" where
  "CtlResetCounters R s index tableName =
     with_core s index (\<lambda>core. ResetTableCounters R core tableName)"

definition CtlWriteCounters ::
  "('w, 'k, 'a, 'd) runtime_reads \<Rightarrow> ('dev, 'addr, 'chan, 'w, 'p, 'q) controller \<Rightarrow> nat \<Rightarrow> string \<Rightarrow> entry_handle_t \<Rightarrow> u64 \<Rightarrow> u64 \<Rightarrow>
   (('dev, 'addr, 'chan, 'w, 'p, 'q) controller, int report) outcome" where
  "CtlWriteCounters R s index tableName handle bytes packets =
     with_core s index (\<lambda>core. WriteTableCounters R core tableName handle bytes packets)"

text \<open>The result of \<open>ReadCounter\<close>, 0 or -1, is compared with the success code, which is 0.\<close>

definition CtlReadCounter ::
  "('w, 'k, 'a, 'd) runtime_reads \<Rightarrow> ('dev, 'addr, 'chan, 'w, 'p, 'q) controller \<Rightarrow> nat \<Rightarrow> string \<Rightarrow> u64 \<Rightarrow> stop + (u64 \<times> u64) option report" where
  "CtlReadCounter R s index counterName counterIndex =
     ask_core s index (\<lambda>core. filled (ReadCounter R core counterName counterIndex))"

definition CtlResetCounter ::
  "('w, 'k, 'a, 'd) runtime_reads \<Rightarrow> ('dev, 'addr, 'chan, 'w, 'p, 'q) controller \<Rightarrow> nat \<Rightarrow> string \<Rightarrow>
   (('dev, 'addr, 'chan, 'w, 'p, 'q) controller, int report) outcome" where
  "CtlResetCounter R s index counterName =
     with_core s index (\<lambda>core. ResetCounter R core counterName)"

definition CtlWriteCounter ::
  "('w, 'k, 'a, 'd) runtime_reads \<Rightarrow> ('dev, 'addr, 'chan, 'w, 'p, 'q) controller \<Rightarrow> nat \<Rightarrow> string \<Rightarrow> u64 \<Rightarrow> u64 \<Rightarrow> u64 \<Rightarrow>
   (('dev, 'addr, 'chan, 'w, 'p, 'q) controller, int report) outcome" where
  "CtlWriteCounter R s index counterName counterIndex bytes packets =
     with_core s index (\<lambda>core. WriteCounter R core counterName counterIndex bytes packets)"

definition CtlSetMeterRates ::
  "('w, 'k, 'a, 'd) runtime_reads \<Rightarrow> ('dev, 'addr, 'chan, 'w, 'p, 'q) controller \<Rightarrow> nat \<Rightarrow> string \<Rightarrow> entry_handle_t \<Rightarrow> rate_config_t list \<Rightarrow>
   (('dev, 'addr, 'chan, 'w, 'p, 'q) controller, int report) outcome" where
  "CtlSetMeterRates R s index tableName handle configs =
     with_core s index (\<lambda>core. SetMeterRates R core tableName handle configs)"

definition CtlGetMeterRates ::
  "('w, 'k, 'a, 'd) runtime_reads \<Rightarrow> ('dev, 'addr, 'chan, 'w, 'p, 'q) controller \<Rightarrow> nat \<Rightarrow> string \<Rightarrow> entry_handle_t \<Rightarrow> stop + rate_config_t list option report" where
  "CtlGetMeterRates R s index tableName handle =
     ask_core s index (\<lambda>core. let (rc, v) = GetMeterRates R core tableName handle
      in if rc = 0 then Inr (Some (case v of None \<Rightarrow> [] | Some cfgs \<Rightarrow> cfgs)) else Inr None)"

definition CtlResetMeterRates ::
  "('w, 'k, 'a, 'd) runtime_reads \<Rightarrow> ('dev, 'addr, 'chan, 'w, 'p, 'q) controller \<Rightarrow> nat \<Rightarrow> string \<Rightarrow> entry_handle_t \<Rightarrow>
   (('dev, 'addr, 'chan, 'w, 'p, 'q) controller, int report) outcome" where
  "CtlResetMeterRates R s index tableName handle =
     with_core s index (\<lambda>core. ResetMeterRates R core tableName handle)"

definition CtlSetMeterArrayRates ::
  "('w, 'k, 'a, 'd) runtime_reads \<Rightarrow> ('dev, 'addr, 'chan, 'w, 'p, 'q) controller \<Rightarrow> nat \<Rightarrow> string \<Rightarrow> rate_config_t list \<Rightarrow>
   (('dev, 'addr, 'chan, 'w, 'p, 'q) controller, int report) outcome" where
  "CtlSetMeterArrayRates R s index meterName configs =
     with_core s index (\<lambda>core. SetMeterArrayRates R core meterName configs)"

text \<open>The overloads for one meter of an array take the name of a meter and an index. They call the
  functions of the core for the meter of a table entry, with the index as the entry's handle.\<close>

definition CtlSetMeterRatesIndex ::
  "('w, 'k, 'a, 'd) runtime_reads \<Rightarrow> ('dev, 'addr, 'chan, 'w, 'p, 'q) controller \<Rightarrow> nat \<Rightarrow> string \<Rightarrow> u64 \<Rightarrow> rate_config_t list \<Rightarrow>
   (('dev, 'addr, 'chan, 'w, 'p, 'q) controller, int report) outcome" where
  "CtlSetMeterRatesIndex R s index meterName idx configs =
     with_core s index (\<lambda>core. SetMeterRates R core meterName idx configs)"

definition CtlGetMeterRatesIndex ::
  "('w, 'k, 'a, 'd) runtime_reads \<Rightarrow> ('dev, 'addr, 'chan, 'w, 'p, 'q) controller \<Rightarrow> nat \<Rightarrow> string \<Rightarrow> u64 \<Rightarrow> stop + rate_config_t list option report" where
  "CtlGetMeterRatesIndex R s index meterName idx =
     ask_core s index (\<lambda>core. let (rc, v) = GetMeterRates R core meterName idx
      in if rc = 0 then Inr (Some (case v of None \<Rightarrow> [] | Some cfgs \<Rightarrow> cfgs)) else Inr None)"

definition CtlResetMeterRatesIndex ::
  "('w, 'k, 'a, 'd) runtime_reads \<Rightarrow> ('dev, 'addr, 'chan, 'w, 'p, 'q) controller \<Rightarrow> nat \<Rightarrow> string \<Rightarrow> u64 \<Rightarrow>
   (('dev, 'addr, 'chan, 'w, 'p, 'q) controller, int report) outcome" where
  "CtlResetMeterRatesIndex R s index meterName idx =
     with_core s index (\<lambda>core. ResetMeterRates R core meterName idx)"

subsection \<open>Registers, parse value sets and the configuration\<close>

text \<open>The register's value goes to the caller's pointer.\<close>

definition CtlRegisterRead ::
  "('w, 'k, 'a, 'd) runtime_reads \<Rightarrow> ('dev, 'addr, 'chan, 'w, 'p, 'q) controller \<Rightarrow> nat \<Rightarrow> string \<Rightarrow> u64 \<Rightarrow> stop + (int \<times> 'd option) report" where
  "CtlRegisterRead R s index registerName regIndex =
     ask_core s index (\<lambda>core. Inr (RegisterRead R core registerName regIndex))"

definition CtlRegisterWrite ::
  "('w, 'k, 'a, 'd) runtime_reads \<Rightarrow> ('dev, 'addr, 'chan, 'w, 'p, 'q) controller \<Rightarrow> nat \<Rightarrow> string \<Rightarrow> u64 \<Rightarrow> 'd \<Rightarrow>
   (('dev, 'addr, 'chan, 'w, 'p, 'q) controller, int report) outcome" where
  "CtlRegisterWrite R s index registerName regIndex val =
     with_core s index (\<lambda>core. RegisterWrite R core registerName regIndex val)"

definition CtlRegisterReadAll ::
  "('w, 'k, 'a, 'd) runtime_reads \<Rightarrow> ('dev, 'addr, 'chan, 'w, 'p, 'q) controller \<Rightarrow> nat \<Rightarrow> string \<Rightarrow> stop + nat report" where
  "CtlRegisterReadAll R s index registerName =
     ask_core s index (\<lambda>core. Inr (length (RegisterReadAll R core registerName)))"

definition CtlRegisterWriteRange ::
  "('w, 'k, 'a, 'd) runtime_reads \<Rightarrow> ('dev, 'addr, 'chan, 'w, 'p, 'q) controller \<Rightarrow> nat \<Rightarrow> string \<Rightarrow> u64 \<Rightarrow> u64 \<Rightarrow> 'd \<Rightarrow>
   (('dev, 'addr, 'chan, 'w, 'p, 'q) controller, int report) outcome" where
  "CtlRegisterWriteRange R s index registerName startIndex endIndex val =
     with_core s index (\<lambda>core. RegisterWriteRange R core registerName startIndex endIndex val)"

definition CtlRegisterReset ::
  "('w, 'k, 'a, 'd) runtime_reads \<Rightarrow> ('dev, 'addr, 'chan, 'w, 'p, 'q) controller \<Rightarrow> nat \<Rightarrow> string \<Rightarrow>
   (('dev, 'addr, 'chan, 'w, 'p, 'q) controller, int report) outcome" where
  "CtlRegisterReset R s index registerName =
     with_core s index (\<lambda>core. RegisterReset R core registerName)"

definition CtlParseVsetGet ::
  "('w, 'k, 'a, 'd) runtime_reads \<Rightarrow> ('dev, 'addr, 'chan, 'w, 'p, 'q) controller \<Rightarrow> nat \<Rightarrow> string \<Rightarrow> stop + u8 list list option report" where
  "CtlParseVsetGet R s index vsetName =
     ask_core s index (\<lambda>core. let (rc, v) = ParseVsetGet R core vsetName
      in if rc = 0 then Inr (Some (case v of None \<Rightarrow> [] | Some vs \<Rightarrow> vs)) else Inr None)"

definition CtlParseVsetAdd ::
  "('w, 'k, 'a, 'd) runtime_reads \<Rightarrow> ('dev, 'addr, 'chan, 'w, 'p, 'q) controller \<Rightarrow> nat \<Rightarrow> string \<Rightarrow> u8 list \<Rightarrow>
   (('dev, 'addr, 'chan, 'w, 'p, 'q) controller, int report) outcome" where
  "CtlParseVsetAdd R s index vsetName val =
     with_core s index (\<lambda>core. ParseVsetAdd R core vsetName val)"

definition CtlParseVsetRemove ::
  "('w, 'k, 'a, 'd) runtime_reads \<Rightarrow> ('dev, 'addr, 'chan, 'w, 'p, 'q) controller \<Rightarrow> nat \<Rightarrow> string \<Rightarrow> u8 list \<Rightarrow>
   (('dev, 'addr, 'chan, 'w, 'p, 'q) controller, int report) outcome" where
  "CtlParseVsetRemove R s index vsetName val =
     with_core s index (\<lambda>core. ParseVsetRemove R core vsetName val)"

definition CtlParseVsetClear ::
  "('w, 'k, 'a, 'd) runtime_reads \<Rightarrow> ('dev, 'addr, 'chan, 'w, 'p, 'q) controller \<Rightarrow> nat \<Rightarrow> string \<Rightarrow>
   (('dev, 'addr, 'chan, 'w, 'p, 'q) controller, int report) outcome" where
  "CtlParseVsetClear R s index vsetName =
     with_core s index (\<lambda>core. ParseVsetClear R core vsetName)"

definition CtlResetState ::
  "('w, 'k, 'a, 'd) runtime_reads \<Rightarrow> ('dev, 'addr, 'chan, 'w, 'p, 'q) controller \<Rightarrow> nat \<Rightarrow>
   (('dev, 'addr, 'chan, 'w, 'p, 'q) controller, int report) outcome" where
  "CtlResetState R s index =
     with_core s index (\<lambda>core. ResetState R core)"

definition CtlSerialize ::
  "('w, 'k, 'a, 'd) runtime_reads \<Rightarrow> ('dev, 'addr, 'chan, 'w, 'p, 'q) controller \<Rightarrow> nat \<Rightarrow> stop + (int \<times> string) report" where
  "CtlSerialize R s index =
     ask_core s index (\<lambda>core. Inr (CoreSerialize R core))"

definition CtlLoadNewConfig ::
  "('w, 'k, 'a, 'd) runtime_reads \<Rightarrow> ('dev, 'addr, 'chan, 'w, 'p, 'q) controller \<Rightarrow> nat \<Rightarrow> string \<Rightarrow>
   (('dev, 'addr, 'chan, 'w, 'p, 'q) controller, int report) outcome" where
  "CtlLoadNewConfig R s index newConfig =
     with_core s index (\<lambda>core. LoadNewConfig R core newConfig)"

definition CtlSwapConfigs ::
  "('w, 'k, 'a, 'd) runtime_reads \<Rightarrow> ('dev, 'addr, 'chan, 'w, 'p, 'q) controller \<Rightarrow> nat \<Rightarrow>
   (('dev, 'addr, 'chan, 'w, 'p, 'q) controller, int report) outcome" where
  "CtlSwapConfigs R s index =
     with_core s index (\<lambda>core. SwapConfigs R core)"

definition CtlGetConfig ::
  "('w, 'k, 'a, 'd) runtime_reads \<Rightarrow> ('dev, 'addr, 'chan, 'w, 'p, 'q) controller \<Rightarrow> nat \<Rightarrow> stop + string option report" where
  "CtlGetConfig R s index =
     ask_core s index (\<lambda>core. Inr (snd (GetConfig R core (Some []))))"

definition CtlGetConfigMd5 ::
  "('w, 'k, 'a, 'd) runtime_reads \<Rightarrow> ('dev, 'addr, 'chan, 'w, 'p, 'q) controller \<Rightarrow> nat \<Rightarrow> stop + string option report" where
  "CtlGetConfigMd5 R s index =
     ask_core s index (\<lambda>core. Inr (snd (GetConfigMd5 R core (Some []))))"

text \<open>The two functions that are declared to set paths do nothing.\<close>

definition SetP4SwitchViewFlowTablePath :: "('dev, 'addr, 'chan, 'w, 'p, 'q) controller \<Rightarrow> nat \<Rightarrow> string \<Rightarrow> ('dev, 'addr, 'chan, 'w, 'p, 'q) controller" where
  "SetP4SwitchViewFlowTablePath s index path = s"

definition SetP4SwitchFlowTablePath :: "('dev, 'addr, 'chan, 'w, 'p, 'q) controller \<Rightarrow> nat \<Rightarrow> string \<Rightarrow> ('dev, 'addr, 'chan, 'w, 'p, 'q) controller" where
  "SetP4SwitchFlowTablePath s index path = s"

end
