(* ===== verification/Controller_Properties.thy ===== *)
theory Controller_Properties
  imports Controller Device_Properties V1model_Claims
begin

text \<open>
  What the commands of the controller do to the switches. The commands that can change a switch
  are the steps of a relation, labelled with the index of the switch and the request that is
  sent to BMv2; a run is a list of steps. Its specification is one line: the program of every
  switch has answered, in order, the requests sent to that switch, and nothing else has changed.
\<close>

subsection \<open>Requests\<close>

datatype ('k, 'a, 'd) bm_call =
    TableCall "'a table_call"
  | IndirectCall indirect_call
  | ProfileCall "'a profile_call"
  | AddCall "('k, 'a) add_call"
  | ProfileAddCall "'a profile_add_call"
  | CounterCall counter_call
  | MeterCall meter_call
  | RegisterCall "'d register_call"
  | VSetCall vset_call
  | ConfigCall config_call

fun apply_call :: "('w, 'k, 'a, 'd) runtime_reads \<Rightarrow> 'w \<Rightarrow> ('k, 'a, 'd) bm_call \<Rightarrow> 'w" where
  "apply_call R w (TableCall k) = fst (rt_table R w k)"
| "apply_call R w (IndirectCall k) = fst (rt_indirect R w k)"
| "apply_call R w (ProfileCall k) = fst (rt_profile R w k)"
| "apply_call R w (AddCall k) = fst (rt_add R w k)"
| "apply_call R w (ProfileAddCall k) = fst (rt_profile_add R w k)"
| "apply_call R w (CounterCall k) = fst (rt_counter R w k)"
| "apply_call R w (MeterCall k) = fst (rt_meter R w k)"
| "apply_call R w (RegisterCall k) = fst (rt_register R w k)"
| "apply_call R w (VSetCall k) = fst (rt_vset R w k)"
| "apply_call R w (ConfigCall k) = fst (rt_config R w k)"

subsection \<open>The commands as steps\<close>

inductive ctl_step ::
  "('w, 'k, 'a, 'd) runtime_reads \<Rightarrow> ('dev, 'addr, 'chan, 'w, 'p, 'q) controller \<Rightarrow> nat \<times> ('k, 'a, 'd) bm_call \<Rightarrow>
   ('dev, 'addr, 'chan, 'w, 'p, 'q) controller \<Rightarrow> bool" for R where
  ctl_ClearFlowTableEntries:
    "ctl_step R s (i, TableCall (mt_clear_entries t b)) (fst (CtlClearFlowTableEntries R s i t b))"
| ctl_AddFlowEntry:
    "ctl_step R s (i, AddCall (mt_add_entry t key act args pri)) (fst (CtlAddFlowEntry R s i t key act args pri))"
| ctl_SetDefaultAction:
    "ctl_step R s (i, TableCall (mt_set_default_action t act args)) (fst (CtlSetDefaultAction R s i t act args))"
| ctl_ResetDefaultEntry:
    "ctl_step R s (i, TableCall (mt_reset_default_entry t)) (fst (CtlResetDefaultEntry R s i t))"
| ctl_DeleteFlowEntry:
    "ctl_step R s (i, TableCall (mt_delete_entry t h)) (fst (CtlDeleteFlowEntry R s i t h))"
| ctl_ModifyFlowEntry:
    "ctl_step R s (i, TableCall (mt_modify_entry t h act args)) (fst (CtlModifyFlowEntry R s i t h act args))"
| ctl_SetEntryTtl:
    "ctl_step R s (i, TableCall (mt_set_entry_ttl t h ttl)) (fst (CtlSetEntryTtl R s i t h ttl))"
| ctl_AddActionProfileMember:
    "ctl_step R s (i, ProfileAddCall (mt_act_prof_add_member p act args)) (fst (CtlAddActionProfileMember R s i p act args))"
| ctl_DeleteActionProfileMember:
    "ctl_step R s (i, ProfileCall (mt_act_prof_delete_member p m)) (fst (CtlDeleteActionProfileMember R s i p m))"
| ctl_ModifyActionProfileMember:
    "ctl_step R s (i, ProfileCall (mt_act_prof_modify_member p m act args)) (fst (CtlModifyActionProfileMember R s i p m act args))"
| ctl_CreateActionProfileGroup:
    "ctl_step R s (i, ProfileAddCall (mt_act_prof_create_group p)) (fst (CtlCreateActionProfileGroup R s i p))"
| ctl_DeleteActionProfileGroup:
    "ctl_step R s (i, ProfileCall (mt_act_prof_delete_group p g)) (fst (CtlDeleteActionProfileGroup R s i p g))"
| ctl_AddMemberToGroup:
    "ctl_step R s (i, ProfileCall (mt_act_prof_add_member_to_group p m g)) (fst (CtlAddMemberToGroup R s i p m g))"
| ctl_RemoveMemberFromGroup:
    "ctl_step R s (i, ProfileCall (mt_act_prof_remove_member_from_group p m g)) (fst (CtlRemoveMemberFromGroup R s i p m g))"
| ctl_AddIndirectEntry:
    "ctl_step R s (i, AddCall (mt_indirect_add_entry t key m pri)) (fst (CtlAddIndirectEntry R s i t key m pri))"
| ctl_ModifyIndirectEntry:
    "ctl_step R s (i, IndirectCall (mt_indirect_modify_entry t h m)) (fst (CtlModifyIndirectEntry R s i t h m))"
| ctl_DeleteIndirectEntry:
    "ctl_step R s (i, IndirectCall (mt_indirect_delete_entry t h)) (fst (CtlDeleteIndirectEntry R s i t h))"
| ctl_SetIndirectEntryTtl:
    "ctl_step R s (i, IndirectCall (mt_indirect_set_entry_ttl t h ttl)) (fst (CtlSetIndirectEntryTtl R s i t h ttl))"
| ctl_SetIndirectDefaultMember:
    "ctl_step R s (i, IndirectCall (mt_indirect_set_default_member t m)) (fst (CtlSetIndirectDefaultMember R s i t m))"
| ctl_ResetIndirectDefaultEntry:
    "ctl_step R s (i, IndirectCall (mt_indirect_reset_default_entry t)) (fst (CtlResetIndirectDefaultEntry R s i t))"
| ctl_AddIndirectWsEntry:
    "ctl_step R s (i, AddCall (mt_indirect_ws_add_entry t key g pri)) (fst (CtlAddIndirectWsEntry R s i t key g pri))"
| ctl_ModifyIndirectWsEntry:
    "ctl_step R s (i, IndirectCall (mt_indirect_ws_modify_entry t h g)) (fst (CtlModifyIndirectWsEntry R s i t h g))"
| ctl_SetIndirectWsDefaultGroup:
    "ctl_step R s (i, IndirectCall (mt_indirect_ws_set_default_group t g)) (fst (CtlSetIndirectWsDefaultGroup R s i t g))"
| ctl_ResetCounters:
    "ctl_step R s (i, TableCall (mt_reset_counters t)) (fst (CtlResetCounters R s i t))"
| ctl_WriteCounters:
    "ctl_step R s (i, TableCall (mt_write_counters t h b p)) (fst (CtlWriteCounters R s i t h b p))"
| ctl_ResetCounter:
    "ctl_step R s (i, CounterCall (bm_reset_counters n)) (fst (CtlResetCounter R s i n))"
| ctl_WriteCounter:
    "ctl_step R s (i, CounterCall (bm_write_counters n j b p)) (fst (CtlWriteCounter R s i n j b p))"
| ctl_SetMeterRates:
    "ctl_step R s (i, TableCall (mt_set_meter_rates t h cfgs)) (fst (CtlSetMeterRates R s i t h cfgs))"
| ctl_ResetMeterRates:
    "ctl_step R s (i, TableCall (mt_reset_meter_rates t h)) (fst (CtlResetMeterRates R s i t h))"
| ctl_SetMeterArrayRates:
    "ctl_step R s (i, MeterCall (meter_array_set_rates n cfgs)) (fst (CtlSetMeterArrayRates R s i n cfgs))"
| ctl_SetMeterRatesIndex:
    "ctl_step R s (i, TableCall (mt_set_meter_rates n j cfgs)) (fst (CtlSetMeterRatesIndex R s i n j cfgs))"
| ctl_ResetMeterRatesIndex:
    "ctl_step R s (i, TableCall (mt_reset_meter_rates n j)) (fst (CtlResetMeterRatesIndex R s i n j))"
| ctl_RegisterWrite:
    "ctl_step R s (i, RegisterCall (register_write n j v)) (fst (CtlRegisterWrite R s i n j v))"
| ctl_RegisterWriteRange:
    "ctl_step R s (i, RegisterCall (register_write_range n j j2 v)) (fst (CtlRegisterWriteRange R s i n j j2 v))"
| ctl_RegisterReset:
    "ctl_step R s (i, RegisterCall (register_reset n)) (fst (CtlRegisterReset R s i n))"
| ctl_ParseVsetAdd:
    "ctl_step R s (i, VSetCall (parse_vset_add n v)) (fst (CtlParseVsetAdd R s i n v))"
| ctl_ParseVsetRemove:
    "ctl_step R s (i, VSetCall (parse_vset_remove n v)) (fst (CtlParseVsetRemove R s i n v))"
| ctl_ParseVsetClear:
    "ctl_step R s (i, VSetCall (parse_vset_clear n)) (fst (CtlParseVsetClear R s i n))"
| ctl_ResetState:
    "ctl_step R s (i, ConfigCall reset_state) (fst (CtlResetState R s i))"
| ctl_LoadNewConfig:
    "ctl_step R s (i, ConfigCall (load_new_config cfg)) (fst (CtlLoadNewConfig R s i cfg))"
| ctl_SwapConfigs:
    "ctl_step R s (i, ConfigCall swap_configs) (fst (CtlSwapConfigs R s i))"

lemmas command_defs =
  CtlClearFlowTableEntries_def CtlAddFlowEntry_def CtlSetDefaultAction_def
  CtlResetDefaultEntry_def CtlDeleteFlowEntry_def CtlModifyFlowEntry_def CtlSetEntryTtl_def
  CtlAddActionProfileMember_def CtlDeleteActionProfileMember_def CtlModifyActionProfileMember_def
  CtlCreateActionProfileGroup_def CtlDeleteActionProfileGroup_def CtlAddMemberToGroup_def
  CtlRemoveMemberFromGroup_def CtlAddIndirectEntry_def CtlModifyIndirectEntry_def
  CtlDeleteIndirectEntry_def CtlSetIndirectEntryTtl_def CtlSetIndirectDefaultMember_def
  CtlResetIndirectDefaultEntry_def CtlAddIndirectWsEntry_def CtlModifyIndirectWsEntry_def
  CtlSetIndirectWsDefaultGroup_def CtlResetCounters_def CtlWriteCounters_def CtlResetCounter_def
  CtlWriteCounter_def CtlSetMeterRates_def CtlResetMeterRates_def CtlSetMeterArrayRates_def
  CtlSetMeterRatesIndex_def CtlResetMeterRatesIndex_def CtlRegisterWrite_def
  CtlRegisterWriteRange_def CtlRegisterReset_def CtlParseVsetAdd_def CtlParseVsetRemove_def
  CtlParseVsetClear_def CtlResetState_def CtlLoadNewConfig_def CtlSwapConfigs_def

lemmas core_function_defs =
  ClearFlowTableEntries_def AddFlowEntry_def SetDefaultAction_def ResetDefaultEntry_def
  DeleteFlowEntry_def ModifyFlowEntry_def SetEntryTtl_def AddActionProfileMember_def
  DeleteActionProfileMember_def ModifyActionProfileMember_def CreateActionProfileGroup_def
  DeleteActionProfileGroup_def AddMemberToGroup_def RemoveMemberFromGroup_def AddIndirectEntry_def
  ModifyIndirectEntry_def DeleteIndirectEntry_def SetIndirectEntryTtl_def
  SetIndirectDefaultMember_def ResetIndirectDefaultEntry_def AddIndirectWsEntry_def
  ModifyIndirectWsEntry_def SetIndirectWsDefaultGroup_def ResetTableCounters_def
  WriteTableCounters_def ResetCounter_def WriteCounter_def SetMeterRates_def ResetMeterRates_def
  SetMeterArrayRates_def RegisterWrite_def RegisterWriteRange_def RegisterReset_def
  ParseVsetAdd_def ParseVsetRemove_def ParseVsetClear_def ResetState_def LoadNewConfig_def
  SwapConfigs_def

text \<open>The specification of a step.\<close>

definition issue ::
  "('w, 'k, 'a, 'd) runtime_reads \<Rightarrow> ('dev, 'addr, 'chan, 'w, 'p, 'q) controller \<Rightarrow> nat \<Rightarrow> ('k, 'a, 'd) bm_call \<Rightarrow>
   ('dev, 'addr, 'chan, 'w, 'p, 'q) controller" where
  "issue R s i k =
     fst (with_core s i (\<lambda>c. (c\<lparr>world := apply_call R (world c) k\<rparr>, ())))"

lemma with_core_issue:
  assumes "\<And>c. fst (call c) = c\<lparr>world := apply_call R (world c) k\<rparr>"
  shows "fst (with_core s i call) = issue R s i k"
  using assms by (simp add: issue_def with_core_def case_prod_beta split: option.split)

lemma ctl_step_issue: "ctl_step R s x s' \<Longrightarrow> s' = issue R s (fst x) (snd x)"
  by (induction rule: ctl_step.induct)
    (simp_all only: command_defs fst_conv snd_conv, (rule with_core_issue, simp add: core_function_defs)+)

subsection \<open>Runs of commands\<close>

inductive ctl_run ::
  "('w, 'k, 'a, 'd) runtime_reads \<Rightarrow> ('dev, 'addr, 'chan, 'w, 'p, 'q) controller \<Rightarrow> (nat \<times> ('k, 'a, 'd) bm_call) list \<Rightarrow>
   ('dev, 'addr, 'chan, 'w, 'p, 'q) controller \<Rightarrow> bool" for R where
  run_nil: "ctl_run R s [] s"
| run_cons: "ctl_step R s x s' \<Longrightarrow> ctl_run R s' xs s'' \<Longrightarrow> ctl_run R s (x # xs) s''"

text \<open>The requests of a run that reach the switch at an address.\<close>

definition calls_to :: "nat option list \<Rightarrow> nat \<Rightarrow> (nat \<times> ('k, 'a, 'd) bm_call) list \<Rightarrow> ('k, 'a, 'd) bm_call list" where
  "calls_to conn sw xs = map snd (filter (\<lambda>x. fst x < length conn \<and> conn ! fst x = Some sw) xs)"

lemma calls_to_Cons: "calls_to conn sw (x # xs) = calls_to conn sw [x] @ calls_to conn sw xs"
  by (simp add: calls_to_def)

text \<open>A switch whose v1model program has answered some requests.\<close>

definition controlled ::
  "('w, 'k, 'a, 'd) runtime_reads \<Rightarrow> ('dev, 'addr, 'chan, 'w, 'p, 'q) switch_device \<Rightarrow> ('k, 'a, 'd) bm_call list \<Rightarrow>
   ('dev, 'addr, 'chan, 'w, 'p, 'q) switch_device" where
  "controlled R dv ks =
     dv\<lparr>nd_v1model := map_option (\<lambda>c. c\<lparr>world := foldl (apply_call R) (world c) ks\<rparr>) (nd_v1model dv)\<rparr>"

lemma controlled_Nil [simp]: "controlled R dv [] = dv"
  by (simp add: controlled_def option.map_ident)

lemma controlled_append: "controlled R (controlled R dv ks) ls = controlled R dv (ks @ ls)"
  by (simp add: controlled_def option.map_comp comp_def)

lemma controlled_no_core: "nd_v1model dv = None \<Longrightarrow> controlled R dv ks = dv"
  by (simp add: controlled_def)

lemma issue_frame [simp]:
  "connected (issue R s i k) = connected s" "event_paths (issue R s i k) = event_paths s"
  by (simp_all add: issue_def with_core_def split: option.split)

lemma issue_switches:
  "switches (issue R s i k) sw = controlled R (switches s sw) (calls_to (connected s) sw [(i, k)])"
  by (auto simp: issue_def with_core_def calls_to_def GetV1ModelCore_def controlled_no_core
      controlled_def option.map_ident split: option.split)

lemma ctl_run_controlled:
  assumes "ctl_run R s xs s'"
  shows "connected s' = connected s" "event_paths s' = event_paths s"
    "switches s' sw = controlled R (switches s sw) (calls_to (connected s) sw xs)"
  using assms
proof (induction rule: ctl_run.induct)
  case (run_nil s)
  { case 1 then show ?case by simp next
    case 2 then show ?case by simp next
    case 3 then show ?case by (simp add: calls_to_def) }
next
  case (run_cons s x s' xs s'')
  have s': "s' = issue R s (fst x) (snd x)" by (rule ctl_step_issue) fact
  { case 1 then show ?case using run_cons.IH(1) by (simp add: s') next
    case 2 then show ?case using run_cons.IH(2) by (simp add: s') next
    case 3 then show ?case
      using run_cons.IH(3) by (simp add: s' issue_switches controlled_append calls_to_Cons [of _ _ x xs]) }
qed

text \<open>C11. The commands of a controller are the requests they send. After any run of commands the list of
  switches is the one before, and every switch in memory is as it was, except that the program of its
  v1model core, if it has one, has answered the requests that were sent to one of the indices at
  which the switch stands, in the order of the commands. Commands with an index past the end and
  commands to a switch without a core change nothing.\<close>

theorem controller_run_refines:
  assumes "ctl_run R s xs s'"
  shows "connected s' = connected s \<and>
    (\<forall>sw. switches s' sw =
       (switches s sw)\<lparr>nd_v1model :=
          map_option (\<lambda>c. c\<lparr>world := foldl (apply_call R) (world c) (calls_to (connected s) sw xs)\<rparr>)
            (nd_v1model (switches s sw))\<rparr>)"
  using ctl_run_controlled [OF assms] by (simp add: controlled_def)

text \<open>
  No run sends a request for the rates of one meter of an array: the commands for such a meter call the
  functions of the core for the meter of a table entry (\<open>CtlSetMeterRatesIndex\<close>).
\<close>

lemma ctl_step_no_meter_index:
  "ctl_step R s x s' \<Longrightarrow> snd x \<noteq> MeterCall (meter_set_rates n j cfgs) \<and> snd x \<noteq> MeterCall (meter_reset_rates n j)"
  by (induction rule: ctl_step.induct) simp_all

lemma ctl_run_no_meter_index:
  "ctl_run R s xs s' \<Longrightarrow>
   MeterCall (meter_set_rates n j cfgs) \<notin> snd ` set xs \<and> MeterCall (meter_reset_rates n j) \<notin> snd ` set xs"
  by (induction rule: ctl_run.induct) (auto dest: ctl_step_no_meter_index)

subsection \<open>An example network\<close>

text \<open>
  A BMv2 that accepts every request and keeps them in a list; the rates of a meter are those of
  the last request for it.
\<close>

type_synonym request_log = "(nat, nat, nat) bm_call list"

fun log_rates :: "request_log \<Rightarrow> string \<Rightarrow> u64 \<Rightarrow> rate_config_t list option" where
  "log_rates [] n j = None"
| "log_rates (MeterCall (meter_set_rates n' j' cfgs) # ks) n j =
     (case log_rates ks n j of
        None \<Rightarrow> (if n' = n \<and> j' = j then Some cfgs else None)
      | Some cfgs' \<Rightarrow> Some cfgs')"
| "log_rates (_ # ks) n j = log_rates ks n j"

definition log_runtime :: "(request_log, nat, nat, nat) runtime_reads" where
  "log_runtime =
     \<lparr>rt_table = (\<lambda>w k. (w @ [TableCall k], M_SUCCESS)), rt_indirect = (\<lambda>w k. (w @ [IndirectCall k], M_SUCCESS)),
      rt_profile = (\<lambda>w k. (w @ [ProfileCall k], M_SUCCESS)),
      rt_add = (\<lambda>w k. (w @ [AddCall k], M_SUCCESS, Some (of_nat (length w)))),
      rt_profile_add = (\<lambda>w k. (w @ [ProfileAddCall k], M_SUCCESS, Some (of_nat (length w)))),
      rt_counter = (\<lambda>w k. (w @ [CounterCall k], C_SUCCESS)), rt_meter = (\<lambda>w k. (w @ [MeterCall k], R_SUCCESS)),
      rt_register = (\<lambda>w k. (w @ [RegisterCall k], G_SUCCESS)), rt_vset = (\<lambda>w k. (w @ [VSetCall k], V_SUCCESS)),
      rt_config = (\<lambda>w k. (w @ [ConfigCall k], I_SUCCESS)),
      mt_get_num_entries = (\<lambda>w _. (M_SUCCESS, Some (of_nat (length w)))), mt_get_entries = (\<lambda>_ _. Some []),
      mt_indirect_get_entries = (\<lambda>_ _. Some []), mt_indirect_ws_get_entries = (\<lambda>_ _. Some []),
      mt_get_entry = (\<lambda>_ _ _. (M_INVALID_HANDLE, None)), mt_indirect_get_entry = (\<lambda>_ _ _. (M_INVALID_HANDLE, None)),
      mt_indirect_ws_get_entry = (\<lambda>_ _ _. (M_INVALID_HANDLE, None)),
      mt_get_default_entry = (\<lambda>_ _. (M_NO_DEFAULT_ENTRY, None)),
      mt_indirect_get_default_entry = (\<lambda>_ _. (M_NO_DEFAULT_ENTRY, None)),
      mt_indirect_ws_get_default_entry = (\<lambda>_ _. (M_NO_DEFAULT_ENTRY, None)),
      mt_get_entry_from_key = (\<lambda>_ _ _ _. (M_BAD_MATCH_KEY, None)),
      mt_indirect_get_entry_from_key = (\<lambda>_ _ _ _. (M_BAD_MATCH_KEY, None)),
      mt_indirect_ws_get_entry_from_key = (\<lambda>_ _ _ _. (M_BAD_MATCH_KEY, None)),
      mt_act_prof_get_members = (\<lambda>_ _. []), mt_act_prof_get_member = (\<lambda>_ _ _. (M_INVALID_MBR_HANDLE, None)),
      mt_act_prof_get_groups = (\<lambda>_ _. []), mt_act_prof_get_group = (\<lambda>_ _ _. (M_INVALID_GRP_HANDLE, None)),
      mt_read_counters = (\<lambda>_ _ _. (M_COUNTERS_DISABLED, None)), bm_read_counters = (\<lambda>_ _ _. (C_INVALID_COUNTER_NAME, None)),
      mt_get_meter_rates = (\<lambda>_ _ _. (M_METERS_DISABLED, None)),
      meter_get_rates = (\<lambda>w n j. (R_SUCCESS, log_rates w n j)),
      register_read = (\<lambda>_ _ _. (G_INVALID_REGISTER_NAME, None)), register_read_all = (\<lambda>_ _. []),
      parse_vset_get = (\<lambda>_ _. (V_SUCCESS, Some [])), bm_serialize = (\<lambda>_. (I_SUCCESS, '''')),
      get_config = (\<lambda>_. ''''), get_config_md5 = (\<lambda>_. '''')\<rparr>"

lemma log_apply_call [simp]: "apply_call log_runtime w k = w @ [k]"
  by (cases k) (simp_all add: log_runtime_def)

lemma log_apply_calls [simp]: "foldl (apply_call log_runtime) w ks = w @ ks"
  by (induction ks arbitrary: w) simp_all

text \<open>
  Three switches in memory: two with a v1model core, and one without. The first is registered
  twice, and the last pointer is null.
\<close>

definition ctl_switch :: "(nat, request_log, expkt) v1model" where
  "ctl_switch = fst (fst (P4CoreV1model (example_sim 0) False 1000 64 64 8 8 0 [] initial_statics))"

lemma ctl_switch_reach: "v1_reach B G 0 {} ctl_switch"
proof (rule v1_reach.new)
  show "P4CoreV1model (example_sim 0) False 1000 64 64 8 8 0 [] initial_statics =
     ((ctl_switch, Inr ()), snd (P4CoreV1model (example_sim 0) False 1000 64 64 8 8 0 []
        initial_statics :: ((nat, request_log, expkt) v1model, unit) outcome \<times> statics))"
    by (simp add: ctl_switch_def P4CoreV1model_def CalculateScheduleTime_def case_prod_beta Let_def
        switch_core.extend_def v1model.fields_def prod_eq_iff)
qed simp

lemma ctl_switch_world: "world ctl_switch = []"
  by (simp add: ctl_switch_def P4CoreV1model_def CalculateScheduleTime_def case_prod_beta Let_def
      switch_core.extend_def v1model.fields_def P4SwitchCore_def)

definition ctl_net :: "(nat, nat, nat, request_log, expkt, unit) controller" where
  "ctl_net =
     \<lparr>connected = [Some 0, Some 1, Some 0, Some 2, None],
      switches = (\<lambda>sw. (P4SwitchNetDevice \<lparr>is_mac = (\<lambda>_. True), mac_default = 0, mac_broadcast = 99, mac_multicast4 = (\<lambda>_. 98),
          eth_add = (\<lambda>_ _ _ x. x), eth_peek = (\<lambda>_. None), eth_remove = id, dev_address = id,
          dev_supports_send_from = (\<lambda>_. True), dev_channel = id\<rparr>)
        \<lparr>nd_v1model := if sw < 2 then Some ctl_switch else None\<rparr>),
      event_paths = []\<rparr>"

abbreviation ctl_example :: "(nat \<times> (nat, nat, nat) bm_call) list" where
  "ctl_example \<equiv>
     [(0, AddCall (mt_add_entry ''ipv4'' 7 ''forward'' 1 (- 1))), (1, TableCall (mt_reset_counters ''ipv4'')),
      (2, RegisterCall (register_write ''r'' 3 5)), (3, ConfigCall reset_state), (9, ConfigCall swap_configs)]"

lemma ctl_example_run: "\<exists>s'. ctl_run log_runtime ctl_net ctl_example s'"
  by (intro exI, rule run_cons, rule ctl_AddFlowEntry, rule run_cons, rule ctl_ResetCounters,
      rule run_cons, rule ctl_RegisterWrite, rule run_cons, rule ctl_ResetState, rule run_cons, rule ctl_SwapConfigs,
      rule run_nil)

lemma ctl_net_members:
  "connected ctl_net = [Some 0, Some 1, Some 0, Some 2, None]"
  "nd_v1model (switches ctl_net sw) = (if sw < 2 then Some ctl_switch else None)"
  by (simp_all add: ctl_net_def)

theorem controller_run_refines_witness:
  "\<exists>s'. ctl_run log_runtime ctl_net ctl_example s' \<and>
     map_option world (nd_v1model (switches s' 0)) =
       Some [AddCall (mt_add_entry ''ipv4'' 7 ''forward'' 1 (- 1)), RegisterCall (register_write ''r'' 3 5)] \<and>
     map_option world (nd_v1model (switches s' 1)) = Some [TableCall (mt_reset_counters ''ipv4'')] \<and>
     nd_v1model (switches s' 2) = None"
proof -
  obtain s' where r: "ctl_run log_runtime ctl_net ctl_example s'" using ctl_example_run by blast
  show ?thesis
    using controller_run_refines [OF r] r
    by (intro exI [of _ s']) (simp add: ctl_net_members calls_to_def ctl_switch_world)
qed

subsection \<open>A network under control\<close>






end
