(* ===== verification/Primitives.thy ===== *)
theory Primitives
  imports V1model_Properties
begin

text \<open>
  The action primitives of \<open>utils/primitives-v1model.h\<close>: the operations that the P4 programs of a
  v1model switch run on a packet. A primitive reads and writes header fields and headers of the
  packet through BMv2; \<open>get_field\<close> on a field that the program does not declare is
  \<open>std::out_of_range\<close>.

  Left out are the primitives whose whole body is one call of BMv2 on its own values (arithmetic on
  \<open>bm::Data\<close>, meters, counters and registers).
\<close>

subsection \<open>What comes from BMv2\<close>

text \<open>Headers are named; sizes are in bytes.\<close>

record 'p actions =
  hdr_is_valid :: "'p \<Rightarrow> string \<Rightarrow> bool"
  hdr_reset :: "'p \<Rightarrow> string \<Rightarrow> 'p"
  hdr_mark_valid :: "'p \<Rightarrow> string \<Rightarrow> 'p"
  hdr_mark_invalid :: "'p \<Rightarrow> string \<Rightarrow> 'p"
  hdr_get_nbytes_packet :: "'p \<Rightarrow> string \<Rightarrow> nat"
  core_assign_header :: "'p \<Rightarrow> string \<Rightarrow> string \<Rightarrow> 'p"
  pkt_mark_for_exit :: "'p \<Rightarrow> 'p"
  pkt_truncate :: "'p \<Rightarrow> u64 \<Rightarrow> 'p"
  calc_output :: "string \<Rightarrow> 'p \<Rightarrow> u64"

text \<open>
  Documented behaviour: a header is valid from the time it is marked valid until it is marked
  invalid, marking and resetting do not change its size, and none of this, nor the end of the
  pipeline, touches the packet's registers.
\<close>

definition header_laws :: "('p, 'b, 'w) bm \<Rightarrow> 'p actions \<Rightarrow> bool" where
  "header_laws B A \<longleftrightarrow>
     (\<forall>p h g. hdr_is_valid A (hdr_mark_valid A p h) g = (g = h \<or> hdr_is_valid A p g)) \<and>
     (\<forall>p h g. hdr_is_valid A (hdr_mark_invalid A p h) g = (g \<noteq> h \<and> hdr_is_valid A p g)) \<and>
     (\<forall>p h g. hdr_is_valid A (hdr_reset A p h) g = hdr_is_valid A p g) \<and>
     (\<forall>p h g. hdr_get_nbytes_packet A (hdr_mark_valid A p h) g = hdr_get_nbytes_packet A p g) \<and>
     (\<forall>p h g. hdr_get_nbytes_packet A (hdr_mark_invalid A p h) g = hdr_get_nbytes_packet A p g) \<and>
     (\<forall>p h g. hdr_get_nbytes_packet A (hdr_reset A p h) g = hdr_get_nbytes_packet A p g) \<and>
     (\<forall>p i v g. hdr_is_valid A (bm_set_register B p i v) g = hdr_is_valid A p g) \<and>
     (\<forall>p i v g. hdr_get_nbytes_packet A (bm_set_register B p i v) g = hdr_get_nbytes_packet A p g) \<and>
     (\<forall>p h. bm_get_register B (hdr_mark_valid A p h) = bm_get_register B p) \<and>
     (\<forall>p h. bm_get_register B (hdr_mark_invalid A p h) = bm_get_register B p) \<and>
     (\<forall>p h. bm_get_register B (hdr_reset A p h) = bm_get_register B p) \<and>
     (\<forall>p h g. bm_get_register B (core_assign_header A p h g) = bm_get_register B p) \<and>
     (\<forall>p. bm_get_register B (pkt_mark_for_exit A p) = bm_get_register B p) \<and>
     (\<forall>p n. bm_get_register B (pkt_truncate A p n) = bm_get_register B p)"

subsection \<open>The primitives\<close>

text \<open>\<open>get_field(f).set(v)\<close>.\<close>

definition field_set :: "('p, 'b, 'w) bm \<Rightarrow> 'p \<Rightarrow> string \<Rightarrow> nat \<Rightarrow> stop + 'p" where
  "field_set B p f v = (if bm_has_field B p f then Inr (bm_set_field B p f v) else Inl OutOfRange)"

definition drop_packet :: "('p, 'b, 'w) bm \<Rightarrow> 'p \<Rightarrow> stop + 'p" where
  "drop_packet B p =
     (case field_set B p ''standard_metadata.egress_spec'' 511 of
        Inl e \<Rightarrow> Inl e
      | Inr p \<Rightarrow>
          Inr (if bm_has_field B p ''intrinsic_metadata.mcast_grp''
               then bm_set_field B p ''intrinsic_metadata.mcast_grp'' 0 else p))"

definition exit_packet :: "'p actions \<Rightarrow> 'p \<Rightarrow> 'p" where
  "exit_packet A p = pkt_mark_for_exit A p"

definition generate_digest :: "('p, 'b, 'w) bm \<Rightarrow> 'p \<Rightarrow> nat \<Rightarrow> nat \<Rightarrow> stop + 'p" where
  "generate_digest B p receiver learn_id = field_set B p ''intrinsic_metadata.lf_field_list'' learn_id"

definition add_header :: "('p, 'b, 'w) bm \<Rightarrow> 'p actions \<Rightarrow> 'p \<Rightarrow> string \<Rightarrow> 'p" where
  "add_header B A p hdr =
     (if \<not> hdr_is_valid A p hdr
      then
        (let p = hdr_reset A p hdr;
             p = hdr_mark_valid A p hdr
         in bm_set_register B p 0 (bm_get_register B p 0 + of_nat (hdr_get_nbytes_packet A p hdr)))
      else p)"

definition add_header_fast :: "'p actions \<Rightarrow> 'p \<Rightarrow> string \<Rightarrow> 'p" where
  "add_header_fast A p hdr = hdr_mark_valid A p hdr"

definition remove_header :: "('p, 'b, 'w) bm \<Rightarrow> 'p actions \<Rightarrow> 'p \<Rightarrow> string \<Rightarrow> 'p" where
  "remove_header B A p hdr =
     (if hdr_is_valid A p hdr
      then
        (let p = bm_set_register B p 0 (bm_get_register B p 0 - of_nat (hdr_get_nbytes_packet A p hdr))
         in hdr_mark_invalid A p hdr)
      else p)"

definition copy_header :: "'p actions \<Rightarrow> 'p \<Rightarrow> string \<Rightarrow> string \<Rightarrow> 'p" where
  "copy_header A p dst src = core_assign_header A p dst src"

text \<open>
  The two clone primitives have the same body: the field list goes to the upper half of the field
  and the mirror session is added to it.
\<close>

definition clone_ingress_pkt_to_egress :: "('p, 'b, 'w) bm \<Rightarrow> 'p \<Rightarrow> nat \<Rightarrow> nat \<Rightarrow> stop + 'p" where
  "clone_ingress_pkt_to_egress B p clone_spec field_list_id =
     (case field_set B p ''standard_metadata.clone_spec'' (field_list_id * 2 ^ 16) of
        Inl e \<Rightarrow> Inl e
      | Inr p \<Rightarrow> field_set B p ''standard_metadata.clone_spec''
                   (bm_get_field B p ''standard_metadata.clone_spec'' + clone_spec))"

definition clone_egress_pkt_to_egress :: "('p, 'b, 'w) bm \<Rightarrow> 'p \<Rightarrow> nat \<Rightarrow> nat \<Rightarrow> stop + 'p" where
  "clone_egress_pkt_to_egress B p clone_spec field_list_id =
     (case field_set B p ''standard_metadata.clone_spec'' (field_list_id * 2 ^ 16) of
        Inl e \<Rightarrow> Inl e
      | Inr p \<Rightarrow> field_set B p ''standard_metadata.clone_spec''
                   (bm_get_field B p ''standard_metadata.clone_spec'' + clone_spec))"

definition resubmit :: "('p, 'b, 'w) bm \<Rightarrow> 'p \<Rightarrow> nat \<Rightarrow> 'p" where
  "resubmit B p field_list_id =
     (if bm_has_field B p ''intrinsic_metadata.resubmit_flag''
      then bm_set_field B p ''intrinsic_metadata.resubmit_flag'' field_list_id else p)"

definition recirculate :: "('p, 'b, 'w) bm \<Rightarrow> 'p \<Rightarrow> nat \<Rightarrow> 'p" where
  "recirculate B p field_list_id =
     (if bm_has_field B p ''intrinsic_metadata.recirculate_flag''
      then bm_set_field B p ''intrinsic_metadata.recirculate_flag'' field_list_id else p)"

text \<open>A hash in a range, computed in 64 bits; a size of 0 is a division by zero.\<close>

definition hash_based_offset :: "u64 \<Rightarrow> nat \<Rightarrow> nat \<Rightarrow> stop + u64" where
  "hash_based_offset hash base sz =
     (if (of_nat sz :: u64) = 0 then Inl Undefined else Inr (hash mod of_nat sz + of_nat base))"

definition modify_field_with_hash_based_offset ::
  "('p, 'b, 'w) bm \<Rightarrow> 'p actions \<Rightarrow> 'p \<Rightarrow> string \<Rightarrow> nat \<Rightarrow> string \<Rightarrow> nat \<Rightarrow> stop + 'p" where
  "modify_field_with_hash_based_offset B A p dst base hash sz =
     (case hash_based_offset (calc_output A hash p) base sz of
        Inl e \<Rightarrow> Inl e
      | Inr v \<Rightarrow> field_set B p dst (unat v))"

definition no_op :: "'p \<Rightarrow> 'p" where
  "no_op p = p"

definition truncate_packet :: "'p actions \<Rightarrow> 'p \<Rightarrow> nat \<Rightarrow> 'p" where
  "truncate_packet A p truncated_length = pkt_truncate A p (of_nat truncated_length)"

definition modify_field :: "('p, 'b, 'w) bm \<Rightarrow> 'p \<Rightarrow> string \<Rightarrow> nat \<Rightarrow> stop + 'p" where
  "modify_field B p dst src = field_set B p dst src"

subsection \<open>Programs\<close>

text \<open>A sequence of primitives, as an action runs them.\<close>

datatype primitive =
    Modify_field string nat
  | Drop
  | Exit
  | Generate_digest nat nat
  | Add_header string
  | Add_header_fast string
  | Remove_header string
  | Copy_header string string
  | Clone_ingress_pkt_to_egress nat nat
  | Clone_egress_pkt_to_egress nat nat
  | Resubmit nat
  | Recirculate nat
  | Hash_based_offset string nat string nat
  | No_op
  | Truncate nat

fun run_primitive :: "('p, 'b, 'w) bm \<Rightarrow> 'p actions \<Rightarrow> primitive \<Rightarrow> 'p \<Rightarrow> stop + 'p" where
  "run_primitive B A (Modify_field dst src) p = modify_field B p dst src"
| "run_primitive B A Drop p = drop_packet B p"
| "run_primitive B A Exit p = Inr (exit_packet A p)"
| "run_primitive B A (Generate_digest receiver learn_id) p = generate_digest B p receiver learn_id"
| "run_primitive B A (Add_header h) p = Inr (add_header B A p h)"
| "run_primitive B A (Add_header_fast h) p = Inr (add_header_fast A p h)"
| "run_primitive B A (Remove_header h) p = Inr (remove_header B A p h)"
| "run_primitive B A (Copy_header dst src) p = Inr (copy_header A p dst src)"
| "run_primitive B A (Clone_ingress_pkt_to_egress spec l) p = clone_ingress_pkt_to_egress B p spec l"
| "run_primitive B A (Clone_egress_pkt_to_egress spec l) p = clone_egress_pkt_to_egress B p spec l"
| "run_primitive B A (Resubmit l) p = Inr (resubmit B p l)"
| "run_primitive B A (Recirculate l) p = Inr (recirculate B p l)"
| "run_primitive B A (Hash_based_offset dst base hash sz) p =
     modify_field_with_hash_based_offset B A p dst base hash sz"
| "run_primitive B A No_op p = Inr (no_op p)"
| "run_primitive B A (Truncate n) p = Inr (truncate_packet A p n)"

fun run_primitives :: "('p, 'b, 'w) bm \<Rightarrow> 'p actions \<Rightarrow> primitive list \<Rightarrow> 'p \<Rightarrow> stop + 'p" where
  "run_primitives B A [] p = Inr p"
| "run_primitives B A (x # xs) p =
     (case run_primitive B A x p of Inl e \<Rightarrow> Inl e | Inr p \<Rightarrow> run_primitives B A xs p)"

lemmas primitive_defs =
  modify_field_def drop_packet_def exit_packet_def generate_digest_def add_header_def add_header_fast_def remove_header_def
  copy_header_def clone_ingress_pkt_to_egress_def clone_egress_pkt_to_egress_def resubmit_def recirculate_def
  modify_field_with_hash_based_offset_def no_op_def truncate_packet_def field_set_def

subsection \<open>What primitives do to the registers\<close>

lemma header_lawsD:
  assumes "header_laws B A"
  shows "hdr_is_valid A (hdr_mark_valid A p h) g = (g = h \<or> hdr_is_valid A p g)"
    "hdr_is_valid A (hdr_mark_invalid A p h) g = (g \<noteq> h \<and> hdr_is_valid A p g)"
    "hdr_is_valid A (hdr_reset A p h) g = hdr_is_valid A p g"
    "hdr_get_nbytes_packet A (hdr_mark_valid A p h) g = hdr_get_nbytes_packet A p g"
    "hdr_get_nbytes_packet A (hdr_mark_invalid A p h) g = hdr_get_nbytes_packet A p g"
    "hdr_get_nbytes_packet A (hdr_reset A p h) g = hdr_get_nbytes_packet A p g"
    "hdr_is_valid A (bm_set_register B p i v) g = hdr_is_valid A p g"
    "hdr_get_nbytes_packet A (bm_set_register B p i v) g = hdr_get_nbytes_packet A p g"
    "bm_get_register B (hdr_mark_valid A p h) = bm_get_register B p"
    "bm_get_register B (hdr_mark_invalid A p h) = bm_get_register B p"
    "bm_get_register B (hdr_reset A p h) = bm_get_register B p"
    "bm_get_register B (core_assign_header A p h g) = bm_get_register B p"
    "bm_get_register B (pkt_mark_for_exit A p) = bm_get_register B p"
    "bm_get_register B (pkt_truncate A p n) = bm_get_register B p"
  using assms by (auto simp: header_laws_def)

lemma field_set_regs:
  "register_frame B \<Longrightarrow> field_set B p f v = Inr q \<Longrightarrow> bm_get_register B q = bm_get_register B p"
  by (auto simp: field_set_def frame_laws split: if_splits)

text \<open>No primitive writes a register other than the length of the packet, register 0.\<close>

lemma run_primitive_regs:
  assumes "register_laws B" "register_frame B" "header_laws B A" "run_primitive B A x p = Inr q" "i \<noteq> 0"
  shows "bm_get_register B q i = bm_get_register B p i"
  using assms(4,5) header_lawsD(9-14) [OF assms(3)]
  by (cases x)
    (auto simp: primitive_defs frame_laws assms(2) register_laws_get_set [OF assms(1)] Let_def
      split: if_splits sum.splits)

lemma run_primitives_regs:
  assumes "register_laws B" "register_frame B" "header_laws B A" "run_primitives B A xs p = Inr q" "i \<noteq> 0"
  shows "bm_get_register B q i = bm_get_register B p i"
  using assms(4)
proof (induction xs arbitrary: p)
  case (Cons x xs)
  then obtain p1 where "run_primitive B A x p = Inr p1" "run_primitives B A xs p1 = Inr q"
    by (auto split: sum.splits)
  with Cons.IH run_primitive_regs [OF assms(1-3) _ assms(5)] show ?case by simp
qed simp

lemma reg_field_primitives:
  assumes "register_laws B" "register_frame B" "header_laws B A" "run_primitives B A xs p = Inr q"
  shows "get_reg_field B f q = get_reg_field B f p"
  using run_primitives_regs [OF assms, of 1] run_primitives_regs [OF assms, of 2]
  by (cases f) (simp_all add: get_clone_mirror_session_id_def get_clone_field_list_def get_lf_field_list_def
      get_resubmit_flag_def get_recirculate_flag_def get_ns_protocol_def get_ns_address_def)

text \<open>The length register follows the headers: a header that is added and removed leaves it as it was.\<close>

lemma add_remove_header_length:
  assumes "register_laws B" "header_laws B A" "\<not> hdr_is_valid A p h"
  shows "bm_get_register B (remove_header B A (add_header B A p h) h) 0 = bm_get_register B p 0 \<and>
    bm_get_register B (add_header B A (add_header B A p h) h) 0 =
      bm_get_register B p 0 + of_nat (hdr_get_nbytes_packet A p h)"
  using assms(3) by (simp add: add_header_def remove_header_def Let_def header_lawsD [OF assms(2)] register_laws_get_set [OF assms(1)])

text \<open>A hash with an offset stays in its range when the range fits in 64 bits.\<close>

lemma hash_based_offset_range:
  assumes "0 < sz" "sz < 2 ^ 64" "base + sz \<le> 2 ^ 64"
  shows "\<exists>v. hash_based_offset hash base sz = Inr v \<and> base \<le> unat v \<and> unat v < base + sz"
proof -
  have s: "unat (of_nat sz :: u64) = sz" and b: "unat (of_nat base :: u64) = base"
    using assms by (simp_all add: unat_of_nat take_bit_eq_mod)
  have m: "unat (hash mod of_nat sz) = unat hash mod sz"
    by (simp only: unat_mod_distrib s)
  have "unat hash mod sz < sz" using assms(1) by simp
  then have "unat (hash mod of_nat sz + of_nat base) = unat hash mod sz + base"
    using assms(3) by (simp add: unat_word_ariths(1) m b del: unat_mod_distrib)
  moreover have "(of_nat sz :: u64) \<noteq> 0" using s assms(1) by (metis unat_0 less_numeral_extra(3))
  ultimately show ?thesis using \<open>unat hash mod sz < sz\<close> by (simp add: hash_based_offset_def)
qed

subsection \<open>Programs made of primitives\<close>

text \<open>
  The ingress program runs primitives only, and the parser writes no register but the length.
\<close>

definition primitive_program :: "('p, 'b, 'w) bm \<Rightarrow> 'p actions \<Rightarrow> bool" where
  "primitive_program B A \<longleftrightarrow>
     (\<forall>w p. \<exists>xs. run_primitives B A xs p = Inr (snd (bm_apply B ''ingress'' w p))) \<and>
     (\<forall>w p i. i \<noteq> 0 \<longrightarrow> bm_get_register B (snd (bm_parse B ''parser'' w p)) i = bm_get_register B p i)"

lemma primitive_program_regs:
  assumes "register_laws B" "register_frame B" "header_laws B A" "primitive_program B A" "i \<noteq> 0"
  shows "bm_get_register B (snd (ingress_program B c p)) i = bm_get_register B p i"
proof -
  have "bm_get_register B (snd (bm_apply B ''ingress'' w q)) i = bm_get_register B q i" for w q
    using assms(4) run_primitives_regs [OF assms(1-3) _ assms(5)] unfolding primitive_program_def by blast
  moreover have "bm_get_register B (snd (bm_parse B ''parser'' w q)) i = bm_get_register B q i" for w q
    using assms(4,5) by (simp add: primitive_program_def)
  ultimately show ?thesis
    by (simp add: ingress_program_def case_prod_beta Let_def frame_laws assms(2) set_if_present_def)
qed

lemma primitive_round:
  assumes "register_laws B" "register_frame B" "header_laws B A" "primitive_program B A"
    and "ib_pop_back (in_buffer c) = (ib, Some pkt)"
    and "get_clone_mirror_session_id B pkt = 0" "get_lf_field_list B pkt = 0" "get_resubmit_flag B pkt = 0"
    and "ingress_program B (c\<lparr>in_buffer := ib\<rparr>) pkt = (c1, pkt1)"
  shows "HandleIngressPipeline (Suc fuel) B S c =
      ingress_forward B S c1 pkt1
        (if bm_has_field B pkt1 ''intrinsic_metadata.mcast_grp'' then get_uint B pkt1 ''intrinsic_metadata.mcast_grp'' else 0)
        (get_uint B pkt1 ''standard_metadata.egress_spec'') \<and>
    in_buffer (fst (HandleIngressPipeline (Suc fuel) B S c)) = ib \<and>
    snd (HandleIngressPipeline (Suc fuel) B S c) \<noteq> Inl NoFuel"
proof -
  have r: "bm_get_register B pkt1 1 = bm_get_register B pkt 1"
    using primitive_program_regs [OF assms(1-4), of 1 "c\<lparr>in_buffer := ib\<rparr>" pkt] assms(9) by simp
  have f: "get_clone_mirror_session_id B pkt1 = 0" "get_lf_field_list B pkt1 = 0" "get_resubmit_flag B pkt1 = 0"
    using assms(6-8) r by (simp_all add: get_clone_mirror_session_id_def get_lf_field_list_def get_resubmit_flag_def)
  let ?g = "if bm_has_field B pkt1 ''intrinsic_metadata.mcast_grp'' then get_uint B pkt1 ''intrinsic_metadata.mcast_grp'' else 0"
  let ?q = "get_uint B pkt1 ''standard_metadata.egress_spec''"
  have h: "HandleIngressPipeline (Suc fuel) B S c = ingress_forward B S c1 pkt1 ?g ?q"
    by (simp add: assms(5,9) f ingress_clone_def ingress_learn_def)
  have "in_buffer c1 = ib"
    using only_egressD(1) [OF ingress_program_only [of "c\<lparr>in_buffer := ib\<rparr>" B pkt]] by (simp add: assms(9))
  then have "in_buffer (fst (ingress_forward B S c1 pkt1 ?g ?q)) = ib"
    using only_egressD(1) [OF ingress_forward_only [of c1 B S pkt1 ?g ?q]] by simp
  then show ?thesis unfolding h using ingress_forward_fuel [of B S c1 pkt1 ?g ?q] by simp
qed

text \<open>C33. Requests made by primitives are not seen by the core. The core looks for clones, digests and
  resubmissions in the packet's registers, and the primitives for them write header fields. So, for
  a packet that comes with clear flags, an ingress program made of primitives, whatever it requests,
  has the packet forwarded, multicast or dropped and no more: the ingress handler is done after one
  round, and puts nothing back into the input buffer.\<close>

theorem primitive_requests_ignored:
  assumes "register_laws B" "register_frame B" "header_laws B A" "primitive_program B A"
    and "ib_pop_back (in_buffer c) = (ib, Some pkt)"
    and "get_clone_mirror_session_id B pkt = 0" "get_lf_field_list B pkt = 0" "get_resubmit_flag B pkt = 0"
    and "ingress_program B (c\<lparr>in_buffer := ib\<rparr>) pkt = (c1, pkt1)"
  shows "HandleIngressPipeline (Suc fuel) B S c =
      ingress_forward B S c1 pkt1
        (if bm_has_field B pkt1 ''intrinsic_metadata.mcast_grp'' then get_uint B pkt1 ''intrinsic_metadata.mcast_grp'' else 0)
        (get_uint B pkt1 ''standard_metadata.egress_spec'') \<and>
    in_buffer (fst (HandleIngressPipeline (Suc fuel) B S c)) = ib \<and>
    snd (HandleIngressPipeline (Suc fuel) B S c) \<noteq> Inl NoFuel"
  by (rule primitive_round [OF assms])

subsection \<open>Dropping\<close>

text \<open>
  A packet whose ingress program ends with the primitive \<open>drop\<close> goes nowhere: nothing but the
  program's own state and the input buffer changes. The egress port field can hold 511, and the end
  of the pipeline leaves the fields alone.
\<close>

lemma drop_primitive_drops:
  assumes "register_laws B" "register_frame B" "header_laws B A" "primitive_program B A" "field_frame B" "field_zero B"
    and "\<forall>w p. \<exists>q. drop_packet B q = Inr (snd (bm_apply B ''ingress'' w p))"
    and "\<forall>p. bm_get_field B (bm_set_field B p ''standard_metadata.egress_spec'' 511) ''standard_metadata.egress_spec'' = 511"
    and "\<forall>p. bm_get_field B (bm_reset_exit B p) = bm_get_field B p \<and> bm_has_field B (bm_reset_exit B p) = bm_has_field B p"
    and "ib_pop_back (in_buffer c) = (ib, Some pkt)" "drop_port c = 511"
    and "get_clone_mirror_session_id B pkt = 0" "get_lf_field_list B pkt = 0" "get_resubmit_flag B pkt = 0"
  shows "\<exists>w. HandleIngressPipeline (Suc fuel) B S c = (c\<lparr>in_buffer := ib, world := w\<rparr>, Inr ())"
proof -
  obtain c1 pkt1 where ip: "ingress_program B (c\<lparr>in_buffer := ib\<rparr>) pkt = (c1, pkt1)" by fastforce
  define w0 where "w0 = bm_parse B ''parser'' (world c) pkt"
  define p1 where "p1 = set_if_present B (snd w0) ''standard_metadata.parser_error'' (bm_error_code B (snd w0))"
  define p2 where "p2 = set_if_present B p1 ''standard_metadata.checksum_error'' (if bm_checksum_error B p1 then 1 else 0)"
  define w r where "w = fst (bm_apply B ''ingress'' (fst w0) p2)" and "r = snd (bm_apply B ''ingress'' (fst w0) p2)"
  have c1: "c1 = c\<lparr>in_buffer := ib, world := w\<rparr>" and pkt1: "pkt1 = bm_reset_exit B r"
    using ip by (auto simp: ingress_program_def case_prod_beta Let_def w0_def p1_def p2_def w_def r_def)
  obtain q where q: "drop_packet B q = Inr r" using assms(7) unfolding r_def by blast
  have spec: "get_uint B r ''standard_metadata.egress_spec'' = 511"
    using q assms(8) by (auto simp: drop_packet_def field_set_def field_frameD(1) [OF assms(5)] split: if_splits)
  have mc: "bm_has_field B r ''intrinsic_metadata.mcast_grp'' \<Longrightarrow> get_uint B r ''intrinsic_metadata.mcast_grp'' = 0"
    using q assms(6) by (auto simp: drop_packet_def field_set_def field_frameD(2) [OF assms(5)] field_zero_def split: if_splits)
  from primitive_round [OF assms(1-4,10,12-14) ip, of fuel S] show ?thesis
    using spec mc assms(9,11) by (auto simp: pkt1 c1 ingress_forward_def)
qed

subsection \<open>An example\<close>

definition ex_actions :: "expkt actions" where
  "ex_actions =
     \<lparr>hdr_is_valid = (\<lambda>p h. ex_fields p (CHR ''$'' # h) = 1), hdr_reset = (\<lambda>p h. p),
      hdr_mark_valid = (\<lambda>p h. p\<lparr>ex_fields := (ex_fields p)(CHR ''$'' # h := 1)\<rparr>),
      hdr_mark_invalid = (\<lambda>p h. p\<lparr>ex_fields := (ex_fields p)(CHR ''$'' # h := 0)\<rparr>),
      hdr_get_nbytes_packet = (\<lambda>p h. 4), core_assign_header = (\<lambda>p d s. p), pkt_mark_for_exit = (\<lambda>p. p),
      pkt_truncate = (\<lambda>p n. p\<lparr>ex_data := take (unat n) (ex_data p)\<rparr>), calc_output = (\<lambda>n p. 0)\<rparr>"

text \<open>A program that asks for a resubmission and forwards to port 3.\<close>

definition resubmit_B :: "(expkt, u8 list, (u32 \<times> nat) list) bm" where
  "resubmit_B = ex_bm (''intrinsic_metadata.resubmit_flag'' # v1_fields)
     (\<lambda>n p. if n = ''ingress''
        then p\<lparr>ex_fields := (ex_fields p)(''standard_metadata.egress_spec'' := 3, ''intrinsic_metadata.resubmit_flag'' := 5)\<rparr>
        else p)"

lemma resubmit_laws: "register_laws resubmit_B" "register_frame resubmit_B"
  by (simp_all add: resubmit_B_def)

lemma ex_header_laws: "header_laws resubmit_B ex_actions"
  by (simp add: header_laws_def ex_actions_def resubmit_B_def ex_bm_def)

lemma resubmit_program: "primitive_program resubmit_B ex_actions"
proof -
  have "run_primitives resubmit_B ex_actions [Modify_field ''standard_metadata.egress_spec'' 3, Resubmit 5] p =
      Inr (snd (bm_apply resubmit_B ''ingress'' w p))" for w p
    by (simp add: resubmit_B_def ex_bm_def v1_fields_def modify_field_def field_set_def resubmit_def)
  moreover have "bm_get_register resubmit_B (snd (bm_parse resubmit_B ''parser'' w p)) i = bm_get_register resubmit_B p i" for w p i
    by (simp add: resubmit_B_def ex_bm_def)
  ultimately show ?thesis unfolding primitive_program_def by blast
qed

definition resubmit_switch :: "(nat, (u32 \<times> nat) list, expkt) v1model" where
  "resubmit_switch = ex_switch\<lparr>in_buffer := (InputBuffer 64 64)\<lparr>queue_lo := [bm_new_packet resubmit_B 1 0 [1, 2, 3]]\<rparr>\<rparr>"

theorem primitive_requests_ignored_witness:
  "\<exists>c1 pkt1. ingress_program resubmit_B (resubmit_switch\<lparr>in_buffer := InputBuffer 64 64\<rparr>) (bm_new_packet resubmit_B 1 0 [1, 2, 3]) = (c1, pkt1) \<and>
     bm_get_field resubmit_B pkt1 ''intrinsic_metadata.resubmit_flag'' = 5 \<and>
     in_buffer (fst (HandleIngressPipeline 1 resubmit_B (example_sim 0) resubmit_switch)) = InputBuffer 64 64"
proof -
  let ?p = "bm_new_packet resubmit_B 1 0 [1, 2, 3]" and ?c = "resubmit_switch\<lparr>in_buffer := InputBuffer 64 64\<rparr>"
  obtain c1 pkt1 where ip: "ingress_program resubmit_B ?c ?p = (c1, pkt1)" by fastforce
  have pop: "ib_pop_back (in_buffer resubmit_switch) = (InputBuffer 64 64, Some ?p)"
    by (simp add: resubmit_switch_def ib_pop_back_def InputBuffer_def)
  have f: "get_clone_mirror_session_id resubmit_B ?p = 0" "get_lf_field_list resubmit_B ?p = 0" "get_resubmit_flag resubmit_B ?p = 0"
    by (simp_all add: get_clone_mirror_session_id_def get_lf_field_list_def get_resubmit_flag_def resubmit_B_def ex_bm_def)
  have "bm_get_field resubmit_B pkt1 ''intrinsic_metadata.resubmit_flag'' = 5"
    using ip by (auto simp: ingress_program_def resubmit_B_def ex_bm_def Let_def)
  moreover have "in_buffer (fst (HandleIngressPipeline 1 resubmit_B (example_sim 0) resubmit_switch)) = InputBuffer 64 64"
    using primitive_requests_ignored [where fuel = 0 and S = "example_sim 0", OF resubmit_laws ex_header_laws resubmit_program pop f ip,
        THEN conjunct2, THEN conjunct1]
    by (simp only: One_nat_def)
  ultimately show ?thesis using ip by blast
qed

end
