(* ===== verification/Dummy_Switch.thy ===== *)
theory Dummy_Switch
  imports Switch_Device
begin

text \<open>
  \<open>DummySwitchNetDevice\<close> and \<open>DummySwitchPort\<close> (\<open>model/dummy-switch-net-device.cc\<close>,
  \<open>model/dummy-switch-port.cc\<close>): a switch that floods. Each port wraps an ns-3 device, can be taken
  down, and can have a traffic manager, which is recorded and passed by. Trace sources are left
  out, and so is \<open>TransmitFromQueue\<close>, which only logs. The ports of a switch are objects of its
  own that nothing else changes; they are kept in the list itself. A \<open>uint32_t\<close> that counts ports is
  a natural number.
\<close>

subsection \<open>Ports\<close>

record ('dev, 'q) dummy_port =
  dp_net_device :: "'dev option"
  dp_port_id :: nat
  dp_egress_tm :: "'q option"
  dp_is_up :: bool

definition DummySwitchPort :: "('dev, 'q) dummy_port" where
  "DummySwitchPort = \<lparr>dp_net_device = None, dp_port_id = 0, dp_egress_tm = None, dp_is_up = True\<rparr>"

definition PortSetNetDevice :: "('dev, 'q) dummy_port \<Rightarrow> 'dev option \<Rightarrow> ('dev, 'q) dummy_port" where
  "PortSetNetDevice port device = port\<lparr>dp_net_device := device\<rparr>"

definition PortSetPortId :: "('dev, 'q) dummy_port \<Rightarrow> nat \<Rightarrow> ('dev, 'q) dummy_port" where
  "PortSetPortId port portId = port\<lparr>dp_port_id := portId\<rparr>"

definition PortSetTrafficManager :: "('dev, 'q) dummy_port \<Rightarrow> 'q option \<Rightarrow> ('dev, 'q) dummy_port" where
  "PortSetTrafficManager port qdisc = port\<lparr>dp_egress_tm := qdisc\<rparr>"

definition PortHasTrafficManager :: "('dev, 'q) dummy_port \<Rightarrow> bool" where
  "PortHasTrafficManager port \<longleftrightarrow> dp_egress_tm port \<noteq> None"

definition PortSetPortUp :: "('dev, 'q) dummy_port \<Rightarrow> bool \<Rightarrow> ('dev, 'q) dummy_port" where
  "PortSetPortUp port isUp = port\<lparr>dp_is_up := isUp\<rparr>"

definition PortIsPortUp :: "('dev, 'q) dummy_port \<Rightarrow> bool" where
  "PortIsPortUp port = dp_is_up port"

definition PortDoDispose :: "('dev, 'q) dummy_port \<Rightarrow> ('dev, 'q) dummy_port" where
  "PortDoDispose port = port\<lparr>dp_net_device := None, dp_egress_tm := None\<rparr>"

text \<open>
  \<open>EnqueueEgress\<close>: the call it makes on the device, if any, and its result. \<open>sends\<close> is the result of
  the device's \<open>Send\<close>. With a traffic manager only a log line is added.
\<close>

definition EnqueueEgress ::
  "(('dev, 'addr) dev_call \<Rightarrow> bool) \<Rightarrow> ('dev, 'q) dummy_port \<Rightarrow> u8 list \<Rightarrow> 'addr \<Rightarrow> u16 \<Rightarrow>
   ('dev, 'addr) dev_call list \<times> bool" where
  "EnqueueEgress sends port packet dest protocolNumber =
     (if \<not> dp_is_up port then ([], False)
      else (case dp_net_device port of
              None \<Rightarrow> ([], False)
            | Some device \<Rightarrow>
                (let call = PortSend device packet dest protocolNumber in ([call], sends call))))"

subsection \<open>The switch\<close>

record ('dev, 'addr, 'chan, 'q) dummy_switch =
  ds_ports :: "('dev, 'q) dummy_port list"
  ds_address :: 'addr
  ds_has_node :: bool
  ds_bridged :: "'chan list"
  ds_if_index :: u32
  ds_mtu :: u16
  ds_rx_callback :: bool
  ds_promisc_callback :: bool
  ds_handlers :: "'dev list"
  ds_calls :: "('dev, 'addr) dev_call list"

definition DummySwitchNetDevice :: "('dev, 'addr, 'chan) ns3 \<Rightarrow> ('dev, 'addr, 'chan, 'q) dummy_switch" where
  "DummySwitchNetDevice N =
     \<lparr>ds_ports = [], ds_address = mac_default N, ds_has_node = False, ds_bridged = [], ds_if_index = 0,
      ds_mtu = 1500, ds_rx_callback = False, ds_promisc_callback = False, ds_handlers = [], ds_calls = []\<rparr>"

definition DummyDoDispose :: "('dev, 'addr, 'chan, 'q) dummy_switch \<Rightarrow> ('dev, 'addr, 'chan, 'q) dummy_switch" where
  "DummyDoDispose ds = ds\<lparr>ds_ports := [], ds_bridged := [], ds_has_node := False\<rparr>"

text \<open>
  \<open>AddPort\<close>. \<open>ds_handlers\<close> are the devices whose packets the node passes to \<open>ReceiveFromPort\<close>.
\<close>

definition AddPort ::
  "('dev, 'addr, 'chan) ns3 \<Rightarrow> ('dev, 'addr, 'chan, 'q) dummy_switch \<Rightarrow> 'dev \<Rightarrow>
   (('dev, 'addr, 'chan, 'q) dummy_switch, nat) outcome" where
  "AddPort N ds portDevice =
     (if \<not> is_mac N (dev_address N portDevice) then (ds, Inl AssertFailure)
      else if \<not> dev_supports_send_from N portDevice then (ds, Inl AssertFailure)
      else
        (let ds = (if ds_address ds = mac_default N then ds\<lparr>ds_address := dev_address N portDevice\<rparr> else ds);
             portId = length (ds_ports ds);
             port = PortSetNetDevice (PortSetPortId DummySwitchPort portId) (Some portDevice)
         in if \<not> ds_has_node ds then (ds, Inl Undefined)
            else
              (let ds = ds\<lparr>ds_handlers := ds_handlers ds @ [portDevice]\<rparr>;
                   ds = ds\<lparr>ds_ports := ds_ports ds @ [port]\<rparr>
               in (ds\<lparr>ds_bridged := ds_bridged ds @ [dev_channel N portDevice]\<rparr>, Inr portId))))"

definition GetNPorts :: "('dev, 'addr, 'chan, 'q) dummy_switch \<Rightarrow> nat" where
  "GetNPorts ds = length (ds_ports ds)"

definition GetPort :: "('dev, 'addr, 'chan, 'q) dummy_switch \<Rightarrow> nat \<Rightarrow> ('dev, 'q) dummy_port option" where
  "GetPort ds portId = (if portId \<ge> length (ds_ports ds) then None else Some (ds_ports ds ! portId))"

text \<open>The loop of \<open>GetPortIdForDevice\<close>; an index is cast to \<open>int32_t\<close>.\<close>

definition int32 :: "nat \<Rightarrow> int" where
  "int32 i = sint (of_nat i :: u32)"

fun find_device :: "('dev, 'q) dummy_port list \<Rightarrow> nat \<Rightarrow> 'dev option \<Rightarrow> int" where
  "find_device [] i device = - 1"
| "find_device (port # ports) i device =
     (if dp_net_device port = device then int32 i else find_device ports (i + 1) device)"

definition GetPortIdForDevice :: "('dev, 'addr, 'chan, 'q) dummy_switch \<Rightarrow> 'dev option \<Rightarrow> int" where
  "GetPortIdForDevice ds device = find_device (ds_ports ds) 0 device"

definition SetPortTrafficManager ::
  "('dev, 'addr, 'chan, 'q) dummy_switch \<Rightarrow> nat \<Rightarrow> 'q option \<Rightarrow> ('dev, 'addr, 'chan, 'q) dummy_switch \<times> bool" where
  "SetPortTrafficManager ds portId qdisc =
     (if portId \<ge> length (ds_ports ds) then (ds, False)
      else (ds\<lparr>ds_ports := (ds_ports ds)[portId := PortSetTrafficManager (ds_ports ds ! portId) qdisc]\<rparr>, True))"

subsection \<open>Forwarding\<close>

definition SendToPort ::
  "(('dev, 'addr) dev_call \<Rightarrow> bool) \<Rightarrow> ('dev, 'addr, 'chan, 'q) dummy_switch \<Rightarrow> u8 list \<Rightarrow> nat \<Rightarrow> u16 \<Rightarrow> 'addr \<Rightarrow>
   ('dev, 'addr, 'chan, 'q) dummy_switch" where
  "SendToPort sends ds packet egressPort protocolNumber destination =
     (if egressPort \<ge> length (ds_ports ds) then ds
      else
        (let port = ds_ports ds ! egressPort
         in if \<not> PortIsPortUp port then ds
            else ds\<lparr>ds_calls := ds_calls ds @ fst (EnqueueEgress sends port packet destination protocolNumber)\<rparr>))"

fun flood_loop ::
  "(('dev, 'addr) dev_call \<Rightarrow> bool) \<Rightarrow> int \<Rightarrow> u8 list \<Rightarrow> u16 \<Rightarrow> 'addr \<Rightarrow> nat list \<Rightarrow> ('dev, 'addr, 'chan, 'q) dummy_switch \<Rightarrow>
   ('dev, 'addr, 'chan, 'q) dummy_switch" where
  "flood_loop sends inPort packet protocol destination [] ds = ds"
| "flood_loop sends inPort packet protocol destination (i # is) ds =
     (if int32 i = inPort then flood_loop sends inPort packet protocol destination is ds
      else flood_loop sends inPort packet protocol destination is (SendToPort sends ds packet i protocol destination))"

definition ReceiveFromPort ::
  "('dev, 'addr, 'chan) ns3 \<Rightarrow> (('dev, 'addr) dev_call \<Rightarrow> bool) \<Rightarrow> ('dev, 'addr, 'chan, 'q) dummy_switch \<Rightarrow> 'dev \<Rightarrow>
   u8 list \<Rightarrow> u16 \<Rightarrow> 'addr \<Rightarrow> 'addr \<Rightarrow> (('dev, 'addr, 'chan, 'q) dummy_switch, unit) outcome" where
  "ReceiveFromPort N sends ds device packet protocol source destination =
     (let inPort = GetPortIdForDevice ds (Some device);
          ds = (if ds_promisc_callback ds
                then ds\<lparr>ds_calls := ds_calls ds @ [PromiscRx packet protocol source destination]\<rparr> else ds)
      in if \<not> is_mac N destination then (ds, Inl AssertFailure)
         else if destination = ds_address ds
         then ((if ds_rx_callback ds then ds\<lparr>ds_calls := ds_calls ds @ [Rx packet protocol source]\<rparr> else ds), Inr ())
         else (flood_loop sends inPort packet protocol destination [0..<length (ds_ports ds)] ds, Inr ()))"

text \<open>
  \<open>SendFrom\<close> sends on the devices of all ports, whether up or not; a port without a device is a
  null pointer.
\<close>

fun send_all ::
  "u8 list \<Rightarrow> 'addr \<Rightarrow> 'addr \<Rightarrow> u16 \<Rightarrow> ('dev, 'q) dummy_port list \<Rightarrow> ('dev, 'addr, 'chan, 'q) dummy_switch \<Rightarrow>
   (('dev, 'addr, 'chan, 'q) dummy_switch, bool) outcome" where
  "send_all packet source dest protocolNumber [] ds = (ds, Inr True)"
| "send_all packet source dest protocolNumber (port # ports) ds =
     (case dp_net_device port of
        None \<Rightarrow> (ds, Inl Undefined)
      | Some device \<Rightarrow>
          send_all packet source dest protocolNumber ports
            (ds\<lparr>ds_calls := ds_calls ds @ [PortSendFrom device packet source dest protocolNumber]\<rparr>))"

definition DummySendFrom ::
  "('dev, 'addr, 'chan, 'q) dummy_switch \<Rightarrow> u8 list \<Rightarrow> 'addr \<Rightarrow> 'addr \<Rightarrow> u16 \<Rightarrow>
   (('dev, 'addr, 'chan, 'q) dummy_switch, bool) outcome" where
  "DummySendFrom ds packet source dest protocolNumber =
     send_all packet source dest protocolNumber (ds_ports ds) ds"

definition DummySend ::
  "('dev, 'addr, 'chan, 'q) dummy_switch \<Rightarrow> u8 list \<Rightarrow> 'addr \<Rightarrow> u16 \<Rightarrow>
   (('dev, 'addr, 'chan, 'q) dummy_switch, bool) outcome" where
  "DummySend ds packet dest protocolNumber = DummySendFrom ds packet (ds_address ds) dest protocolNumber"

subsection \<open>The remaining members\<close>

definition DummySetIfIndex :: "('dev, 'addr, 'chan, 'q) dummy_switch \<Rightarrow> u32 \<Rightarrow> ('dev, 'addr, 'chan, 'q) dummy_switch" where
  "DummySetIfIndex ds index = ds\<lparr>ds_if_index := index\<rparr>"

definition DummySetAddress ::
  "('dev, 'addr, 'chan) ns3 \<Rightarrow> ('dev, 'addr, 'chan, 'q) dummy_switch \<Rightarrow> 'addr \<Rightarrow>
   (('dev, 'addr, 'chan, 'q) dummy_switch, unit) outcome" where
  "DummySetAddress N ds address =
     (if \<not> is_mac N address then (ds, Inl AssertFailure) else (ds\<lparr>ds_address := address\<rparr>, Inr ()))"

definition DummySetMtu :: "('dev, 'addr, 'chan, 'q) dummy_switch \<Rightarrow> u16 \<Rightarrow> ('dev, 'addr, 'chan, 'q) dummy_switch \<times> bool" where
  "DummySetMtu ds mtu = (ds\<lparr>ds_mtu := mtu\<rparr>, True)"

definition DummySetNode :: "('dev, 'addr, 'chan, 'q) dummy_switch \<Rightarrow> bool \<Rightarrow> ('dev, 'addr, 'chan, 'q) dummy_switch" where
  "DummySetNode ds node = ds\<lparr>ds_has_node := node\<rparr>"

definition DummySetReceiveCallback :: "('dev, 'addr, 'chan, 'q) dummy_switch \<Rightarrow> bool \<Rightarrow> ('dev, 'addr, 'chan, 'q) dummy_switch" where
  "DummySetReceiveCallback ds cb = ds\<lparr>ds_rx_callback := cb\<rparr>"

definition DummySetPromiscReceiveCallback :: "('dev, 'addr, 'chan, 'q) dummy_switch \<Rightarrow> bool \<Rightarrow> ('dev, 'addr, 'chan, 'q) dummy_switch" where
  "DummySetPromiscReceiveCallback ds cb = ds\<lparr>ds_promisc_callback := cb\<rparr>"

text \<open>
  \<open>DummySwitchHelper::Install\<close>: a new switch on a node, with a port for each device of a container.
\<close>

fun add_ports ::
  "('dev, 'addr, 'chan) ns3 \<Rightarrow> ('dev, 'addr, 'chan, 'q) dummy_switch \<Rightarrow> 'dev list \<Rightarrow>
   (('dev, 'addr, 'chan, 'q) dummy_switch, unit) outcome" where
  "add_ports N ds [] = (ds, Inr ())"
| "add_ports N ds (d # devs) =
     (case AddPort N ds d of (ds, Inl e) \<Rightarrow> (ds, Inl e) | (ds, Inr _) \<Rightarrow> add_ports N ds devs)"

definition DummyInstall :: "('dev, 'addr, 'chan) ns3 \<Rightarrow> 'dev list \<Rightarrow> (('dev, 'addr, 'chan, 'q) dummy_switch, unit) outcome" where
  "DummyInstall N portDevices = add_ports N (DummySetNode (DummySwitchNetDevice N) True) portDevices"

subsection \<open>Flooding\<close>

text \<open>Every port has a device of its own; the ports can be counted in an \<open>int32_t\<close>.\<close>

definition dummy_devices :: "('dev, 'addr, 'chan, 'q) dummy_switch \<Rightarrow> 'dev list \<Rightarrow> bool" where
  "dummy_devices ds devs \<longleftrightarrow>
     map dp_net_device (ds_ports ds) = map Some devs \<and> distinct devs \<and> length devs < 2 ^ 31"

lemma dummy_devicesD:
  assumes "dummy_devices ds devs"
  shows "length (ds_ports ds) = length devs" "j < length devs \<Longrightarrow> dp_net_device (ds_ports ds ! j) = Some (devs ! j)"
proof -
  have m: "map dp_net_device (ds_ports ds) = map Some devs" using assms by (simp add: dummy_devices_def)
  show l: "length (ds_ports ds) = length devs" using arg_cong [OF m, of length] by simp
  show "j < length devs \<Longrightarrow> dp_net_device (ds_ports ds ! j) = Some (devs ! j)"
    using arg_cong [OF m, of "\<lambda>l. l ! j"] l by simp
qed

lemma int32_small: "i < 2 ^ 31 \<Longrightarrow> int32 i = int i"
proof -
  assume i: "i < 2 ^ 31"
  then have "uint (of_nat i :: u32) = int i" by (simp add: unsigned_of_nat take_bit_eq_mod)
  moreover have "signed_take_bit 31 (int i) = int i"
    using i by (intro signed_take_bit_int_eq_self) auto
  ultimately show ?thesis by (simp add: int32_def sint_uint)
qed

lemma find_device_index:
  assumes "map dp_net_device ports = map Some devs" "distinct devs" "i < length devs" "k + length devs < 2 ^ 31"
  shows "find_device ports k (Some (devs ! i)) = int (k + i)"
  using assms
proof (induction ports arbitrary: devs i k)
  case (Cons p ports)
  then obtain d ds where devs: "devs = d # ds" by (cases devs) auto
  show ?case
  proof (cases i)
    case 0
    then show ?thesis using Cons.prems devs int32_small [of k] by simp
  next
    case (Suc i')
    then have "ds ! i' \<noteq> d" using Cons.prems devs by (metis distinct.simps(2) length_Cons not_less_eq nth_mem)
    then show ?thesis using Cons.prems Cons.IH [of ds i' "k + 1"] devs Suc by auto
  qed
qed simp

lemma flood_loop_calls:
  assumes "dummy_devices ds devs" "inPort = int i" "\<forall>j \<in> set js. j < length devs"
  shows "flood_loop sends inPort packet protocol destination js ds =
    ds\<lparr>ds_calls := ds_calls ds @ map (\<lambda>j. PortSend (devs ! j) packet destination protocol)
       (filter (\<lambda>j. j \<noteq> i \<and> dp_is_up (ds_ports ds ! j)) js)\<rparr>"
  using assms
proof (induction js arbitrary: ds)
  case (Cons j js)
  have j: "j < length devs" "j < 2 ^ 31" using Cons.prems by (auto simp: dummy_devices_def)
  note d = dummy_devicesD [OF Cons.prems(1)]
  define ds1 where "ds1 = SendToPort sends ds packet j protocol destination"
  have s: "ds1 = (if dp_is_up (ds_ports ds ! j)
      then ds\<lparr>ds_calls := ds_calls ds @ [PortSend (devs ! j) packet destination protocol]\<rparr> else ds)"
    using j d by (simp add: ds1_def SendToPort_def PortIsPortUp_def EnqueueEgress_def Let_def)
  have "dummy_devices ds1 devs" using Cons.prems(1) by (simp add: s dummy_devices_def)
  from Cons.IH [OF this Cons.prems(2)] Cons.IH [OF Cons.prems(1,2)] Cons.prems(3) show ?case
    by (auto simp: int32_small [OF j(2)] Cons.prems(2) ds1_def [symmetric]) (simp_all add: s)
qed simp

text \<open>A new switch has the devices it was given, and all of its ports are up.\<close>

lemma add_ports_devices:
  assumes "add_ports N ds devs = (ds', Inr ())"
  shows "map dp_net_device (ds_ports ds') = map dp_net_device (ds_ports ds) @ map Some devs \<and>
    (\<forall>p \<in> set (ds_ports ds') - set (ds_ports ds). dp_is_up p) \<and> ds_calls ds' = ds_calls ds \<and>
    ds_promisc_callback ds' = ds_promisc_callback ds"
  using assms
proof (induction devs arbitrary: ds)
  case (Cons d devs)
  then obtain ds1 k where a: "AddPort N ds d = (ds1, Inr k)" and r: "add_ports N ds1 devs = (ds', Inr ())"
    by (auto split: prod.splits sum.splits)
  have "map dp_net_device (ds_ports ds1) = map dp_net_device (ds_ports ds) @ [Some d] \<and>
    (\<forall>p \<in> set (ds_ports ds1) - set (ds_ports ds). dp_is_up p) \<and> ds_calls ds1 = ds_calls ds \<and>
    ds_promisc_callback ds1 = ds_promisc_callback ds"
    using a by (auto simp: AddPort_def Let_def PortSetNetDevice_def PortSetPortId_def DummySwitchPort_def split: if_splits)
  with Cons.IH [OF r] show ?case by auto
qed simp

lemma DummyInstall_devices:
  assumes "DummyInstall N devs = (ds, Inr ())" "distinct devs" "length devs < 2 ^ 31"
  shows "dummy_devices ds devs \<and> (\<forall>p \<in> set (ds_ports ds). dp_is_up p) \<and> ds_calls ds = [] \<and> \<not> ds_promisc_callback ds"
  using add_ports_devices [of N _ devs ds] assms
  by (simp add: DummyInstall_def dummy_devices_def DummySetNode_def DummySwitchNetDevice_def)

text \<open>The dummy switch floods. A packet from the device of port \<open>i\<close> that is not for the switch itself
  is sent once on the device of every other port that is up, in the order of the ports, and never
  back; traffic managers change nothing.\<close>

theorem dummy_floods:
  assumes "dummy_devices ds devs" "i < length devs" "is_mac N destination" "destination \<noteq> ds_address ds"
  shows "ReceiveFromPort N sends ds (devs ! i) packet protocol source destination =
    (ds\<lparr>ds_calls := ds_calls ds @
        (if ds_promisc_callback ds then [PromiscRx packet protocol source destination] else []) @
        map (\<lambda>j. PortSend (devs ! j) packet destination protocol)
          (filter (\<lambda>j. j \<noteq> i \<and> dp_is_up (ds_ports ds ! j)) [0..<length devs])\<rparr>, Inr ())"
proof -
  have p: "GetPortIdForDevice ds (Some (devs ! i)) = int i"
    using assms(1,2) find_device_index [of "ds_ports ds" devs i 0] by (simp add: GetPortIdForDevice_def dummy_devices_def)
  have "dummy_devices (ds\<lparr>ds_calls := cs\<rparr>) devs" for cs using assms(1) by (simp add: dummy_devices_def)
  from flood_loop_calls [OF this, of "int i" i "[0..<length devs]"] flood_loop_calls [OF assms(1), of "int i" i "[0..<length devs]"]
  show ?thesis
    using assms(3,4) by (simp add: ReceiveFromPort_def Let_def p dummy_devicesD(1) [OF assms(1)])
qed

definition dummy_net :: "(nat, nat, nat) ns3" where
  "dummy_net =
     \<lparr>is_mac = (\<lambda>_. True), mac_default = 0, mac_broadcast = 99, mac_multicast4 = (\<lambda>_. 98),
      eth_add = (\<lambda>_ _ _ x. x), eth_peek = (\<lambda>_. None), eth_remove = (\<lambda>x. x), dev_address = (\<lambda>d. 100 + d),
      dev_supports_send_from = (\<lambda>_. True), dev_channel = (\<lambda>d. d)\<rparr>"

theorem dummy_floods_witness:
  "\<exists>ds :: (nat, nat, nat, unit) dummy_switch. DummyInstall dummy_net [7, 8, 9] = (ds, Inr ()) \<and>
     ds_calls (fst (ReceiveFromPort dummy_net (\<lambda>_. True) (fst (SetPortTrafficManager ds 2 (Some ()))) 8 [1, 2] 0x0800 5 6)) =
       [PortSend 7 [1, 2] 6 0x0800, PortSend 9 [1, 2] 6 0x0800]"
proof -
  obtain ds :: "(nat, nat, nat, unit) dummy_switch" where i: "DummyInstall dummy_net [7, 8, 9] = (ds, Inr ())" and a: "ds_address ds = 107"
    by (simp add: DummyInstall_def DummySetNode_def DummySwitchNetDevice_def AddPort_def dummy_net_def Let_def)
  define d2 where "d2 = fst (SetPortTrafficManager ds 2 (Some ()))"
  from DummyInstall_devices [OF i] have d: "dummy_devices ds [7, 8, 9]" "\<forall>p \<in> set (ds_ports ds). dp_is_up p" "ds_calls ds = []"
    "\<not> ds_promisc_callback ds" by auto
  have l: "length (ds_ports ds) = 3" using dummy_devicesD(1) [OF d(1)] by simp
  have "dummy_devices d2 [7, 8, 9]" "ds_calls d2 = []" "\<not> ds_promisc_callback d2" "ds_address d2 = 107"
    "\<forall>j < 3. dp_is_up (ds_ports d2 ! j)"
    using d a l by (auto simp: d2_def SetPortTrafficManager_def dummy_devices_def PortSetTrafficManager_def map_update
        nth_list_update list_update_same_conv dummy_devicesD(2) [OF d(1), of 2])
  with dummy_floods [of d2 "[7, 8, 9]" 1 dummy_net 6 "\<lambda>_. True" "[1, 2]" "0x0800" 5] i show ?thesis
    by (intro exI [of _ ds]) (simp add: d2_def [symmetric] dummy_net_def upt_rec [of 0] upt_rec [of 1] upt_rec [of 2])
qed

end
