(* ===== verification/Switch_Api.thy ===== *)
theory Switch_Api
  imports P4_Prelude
begin

text \<open>
  \<open>SwitchApi\<close> (\<open>utils/switch-api.h\<close>, \<open>utils/switch-api.cc\<close>): the numbers of the runtime functions,
  counted up from a hundred per category, and the table from their names to their numbers.
\<close>

datatype ApiCategory =
    FLOW_TABLE_OPERATIONS
  | ACTION_PROFILE_OPERATIONS
  | INDIRECT_TABLE_OPERATIONS
  | FLOW_TABLE_ENTRY_RETRIEVAL
  | COUNTER_OPERATIONS
  | METER_OPERATIONS
  | REGISTER_OPERATIONS
  | PARSE_VALUE_SET_OPERATIONS
  | RUNTIME_STATE_MANAGEMENT

fun category_code :: "ApiCategory \<Rightarrow> nat" where
  "category_code FLOW_TABLE_OPERATIONS = 0"
| "category_code ACTION_PROFILE_OPERATIONS = 1"
| "category_code INDIRECT_TABLE_OPERATIONS = 2"
| "category_code FLOW_TABLE_ENTRY_RETRIEVAL = 3"
| "category_code COUNTER_OPERATIONS = 4"
| "category_code METER_OPERATIONS = 5"
| "category_code REGISTER_OPERATIONS = 6"
| "category_code PARSE_VALUE_SET_OPERATIONS = 7"
| "category_code RUNTIME_STATE_MANAGEMENT = 8"

text \<open>The functions of a category, in the order of the enumeration.\<close>

fun api_names :: "ApiCategory \<Rightarrow> string list" where
  "api_names FLOW_TABLE_OPERATIONS =
     [''mt_get_num_entries'', ''mt_clear_entries'', ''mt_add_entry'', ''mt_set_default_action'',
      ''mt_reset_default_entry'', ''mt_delete_entry'', ''mt_modify_entry'', ''mt_set_entry_ttl'']"
| "api_names ACTION_PROFILE_OPERATIONS =
     [''mt_act_prof_add_member'', ''mt_act_prof_delete_member'', ''mt_act_prof_modify_member'',
      ''mt_act_prof_create_group'', ''mt_act_prof_delete_group'',
      ''mt_act_prof_add_member_to_group'', ''mt_act_prof_remove_member_from_group'',
      ''mt_act_prof_get_members'', ''mt_act_prof_get_member'', ''mt_act_prof_get_groups'',
      ''mt_act_prof_get_group'']"
| "api_names INDIRECT_TABLE_OPERATIONS =
     [''mt_indirect_add_entry'', ''mt_indirect_modify_entry'', ''mt_indirect_delete_entry'',
      ''mt_indirect_set_entry_ttl'', ''mt_indirect_set_default_member'',
      ''mt_indirect_reset_default_entry'', ''mt_indirect_ws_add_entry'',
      ''mt_indirect_ws_modify_entry'', ''mt_indirect_ws_set_default_group'']"
| "api_names FLOW_TABLE_ENTRY_RETRIEVAL =
     [''mt_get_entries'', ''mt_indirect_get_entries'', ''mt_indirect_ws_get_entries'',
      ''mt_get_entry'', ''mt_indirect_get_entry'', ''mt_indirect_ws_get_entry'',
      ''mt_get_default_entry'', ''mt_indirect_get_default_entry'',
      ''mt_indirect_ws_get_default_entry'', ''mt_get_entry_from_key'',
      ''mt_indirect_get_entry_from_key'', ''mt_indirect_ws_get_entry_from_key'']"
| "api_names COUNTER_OPERATIONS =
     [''mt_read_counters'', ''mt_reset_counters'', ''mt_write_counters'', ''read_counters'',
      ''reset_counters'', ''write_counters'']"
| "api_names METER_OPERATIONS =
     [''mt_set_meter_rates'', ''mt_get_meter_rates'', ''mt_reset_meter_rates'',
      ''meter_array_set_rates'', ''meter_set_rates'', ''meter_get_rates'', ''meter_reset_rates'']"
| "api_names REGISTER_OPERATIONS =
     [''register_read'', ''register_read_all'', ''register_write'', ''register_write_range'',
      ''register_reset'']"
| "api_names PARSE_VALUE_SET_OPERATIONS =
     [''parse_vset_add'', ''parse_vset_remove'', ''parse_vset_get'', ''parse_vset_clear'']"
| "api_names RUNTIME_STATE_MANAGEMENT =
     [''reset_state'', ''serialize'', ''load_new_config'', ''swap_configs'', ''get_config'',
      ''get_config_md5'']"

definition ApiType :: "ApiCategory \<Rightarrow> (string \<times> nat) list" where
  "ApiType c = zip (api_names c) [category_code c * 100..<category_code c * 100 + length (api_names c)]"

text \<open>The table, as the list of its entries; \<open>apiMap\<close> is the lookup.\<close>

definition InitApiMap :: "(string \<times> nat) list" where
  "InitApiMap =
     concat (map ApiType [FLOW_TABLE_OPERATIONS, ACTION_PROFILE_OPERATIONS, INDIRECT_TABLE_OPERATIONS, FLOW_TABLE_ENTRY_RETRIEVAL,
       COUNTER_OPERATIONS, METER_OPERATIONS, REGISTER_OPERATIONS, PARSE_VALUE_SET_OPERATIONS, RUNTIME_STATE_MANAGEMENT])"

definition apiMap :: "string \<Rightarrow> nat option" where
  "apiMap = map_of InitApiMap"

text \<open>No function is listed twice and no two have the same number, so the number names the function.\<close>

lemma api_names_distinct: "distinct (map fst InitApiMap)"
  by (simp add: InitApiMap_def ApiType_def)

lemma api_codes_distinct: "distinct (map snd InitApiMap)"
  by (simp add: InitApiMap_def ApiType_def)

lemma apiMap_inj: "apiMap f = Some n \<Longrightarrow> apiMap g = Some n \<Longrightarrow> f = g"
proof -
  have inj: "inj_on snd (set InitApiMap)"
    using api_codes_distinct by (simp add: distinct_map)
  assume "apiMap f = Some n" "apiMap g = Some n"
  then have "(f, n) \<in> set InitApiMap" "(g, n) \<in> set InitApiMap" by (simp_all add: apiMap_def map_of_SomeD)
  with inj_onD [OF inj, of "(f, n)" "(g, n)"] show "f = g" by simp
qed

end
